(* ===== verification/Whip6_Prelude.thy ===== *)
theory Whip6_Prelude
  imports Main "HOL-Library.Word" "HOL-Library.Monad_Syntax"
begin

text \<open>
  The prelude of the development: the names of the C integer types, checked accesses to byte
  buffers, and the generic facts on lists and machine words that the component theories share.

  Conventions used everywhere:
  \<^item> a \<open>uint8_t\<close>, \<open>uint16_t\<close>, \<open>uint32_t\<close> value is an \<open>8 word\<close>, \<open>16 word\<close>, \<open>32 word\<close>;
    a \<open>size_t\<close> is a \<open>nat\<close> (object sizes never reach the top of the address range), and so
    are small offsets whose range is proved, with the reduction modulo 256 of a \<open>uint8_t\<close>
    variable written out as \<open>u8_wrap\<close>;
  \<^item> a byte buffer is a \<open>u8 list\<close>; an access through a pointer that the code does not
    check is \<open>buf_get\<close> or \<open>buf_put\<close>, whose \<open>None\<close> is an access outside the buffer.
\<close>

unbundle bit_operations_syntax

type_synonym u8 = "8 word"
type_synonym u16 = "16 word"
type_synonym u32 = "32 word"

text \<open>The error codes of \<open>microc/include/base/ucError.h\<close>.\<close>

datatype whip6_error =
    WHIP6_NO_ERROR
  | WHIP6_ARGUMENT_ERROR
  | WHIP6_SIZE_ERROR
  | WHIP6_STATE_ERROR
  | WHIP6_CHECKSUM_ERROR

named_theorems buf_simps \<open>facts on checked buffer accesses\<close>
named_theorems lens \<open>lengths that operations preserve\<close>

section \<open>Machine integers\<close>

definition u8_wrap :: "nat \<Rightarrow> nat" where
  "u8_wrap n = n mod 256"

lemma u8_wrap_small [simp]: "n < 256 \<Longrightarrow> u8_wrap n = n"
  by (simp add: u8_wrap_def)

lemma u8_wrap_less [simp]: "u8_wrap n < 256"
  by (simp add: u8_wrap_def)

lemma unat_u8_less [simp]: "unat (x :: u8) < 256"
  using unsigned_less [of x] by simp

lemma unat_u16_less [simp]: "unat (x :: u16) < 65536"
  using unsigned_less [of x] by simp

lemma unat_u8_le: "unat (x :: u8) \<le> 255"
  using unat_u8_less [of x] by linarith

lemma unat_u16_le: "unat (x :: u16) \<le> 65535"
  using unat_u16_less [of x] by linarith

lemma unat_ucast_u8_u16 [simp]: "unat (ucast (x :: u8) :: u16) = unat x"
proof -
  have "unat x < 65536" using unat_u8_less [of x] by linarith
  then show ?thesis by (simp add: unsigned_ucast_eq take_bit_eq_mod)
qed

lemma unat_u8_of_nat: "n < 256 \<Longrightarrow> unat (of_nat n :: u8) = n"
  by (simp add: unat_of_nat)

lemma unat_u16_of_nat: "n < 65536 \<Longrightarrow> unat (of_nat n :: u16) = n"
  by (simp add: unat_of_nat)

text \<open>Network order: \<open>((uint16_t)hi << 8) | lo\<close> and its parts.\<close>

definition u16_join :: "u8 \<Rightarrow> u8 \<Rightarrow> u16" where
  "u16_join hi lo = push_bit 8 (ucast hi) OR ucast lo"

definition u16_hi :: "u16 \<Rightarrow> u8" where
  "u16_hi w = ucast (drop_bit 8 w)"

definition u16_lo :: "u16 \<Rightarrow> u8" where
  "u16_lo w = ucast w"

lemma u16_join_add: "u16_join hi lo = push_bit 8 (ucast hi) + ucast lo"
proof -
  have "\<not> bit (push_bit 8 (ucast hi) :: u16) n \<or> \<not> bit (ucast lo :: u16) n" for n
    using bit_imp_le_length [of lo n] by (auto simp: bit_simps)
  then show ?thesis unfolding u16_join_def by (rule disjunctive_add [symmetric])
qed

lemma unat_u16_join: "unat (u16_join hi lo) = 256 * unat hi + unat lo"
proof -
  have b: "unat hi * 256 + unat lo < 65536"
    using unat_u8_less [of hi] unat_u8_less [of lo] by linarith
  have "unat (push_bit 8 (ucast hi :: u16)) = take_bit LENGTH(16) (push_bit 8 (unat (ucast hi :: u16)))"
    by (rule unsigned_push_bit_eq)
  also have "\<dots> = unat hi * 256"
    using b by (simp only: unat_ucast_u8_u16) (simp add: take_bit_eq_mod push_bit_eq_mult)
  finally have h: "unat (push_bit 8 (ucast hi :: u16)) = unat hi * 256" .
  show ?thesis using b
    by (simp only: u16_join_add unat_word_ariths(1) h unat_ucast_u8_u16) simp
qed

lemma unat_u16_hi: "unat (u16_hi w) = unat w div 256"
proof -
  have "unat w div 256 < 256" using unat_u16_less [of w] by (simp add: less_mult_imp_div_less)
  then show ?thesis
    by (simp add: u16_hi_def unsigned_ucast_eq take_bit_eq_mod drop_bit_eq_div unat_div)
qed

lemma unat_u16_lo: "unat (u16_lo w) = unat w mod 256"
  by (simp add: u16_lo_def unsigned_ucast_eq take_bit_eq_mod)

lemma u16_join_hi_lo [simp]: "u16_join (u16_hi w) (u16_lo w) = w"
  by (rule word_unat_eq_iff [THEN iffD2]) (simp add: unat_u16_join unat_u16_hi unat_u16_lo)

lemma u16_hi_join [simp]: "u16_hi (u16_join a b) = a" and u16_lo_join [simp]: "u16_lo (u16_join a b) = b"
  by (rule word_unat_eq_iff [THEN iffD2], simp add: unat_u16_join unat_u16_hi unat_u16_lo)+

section \<open>Byte buffers\<close>

definition buf_get :: "'a list \<Rightarrow> nat \<Rightarrow> 'a option" where
  "buf_get buf i = (if i < length buf then Some (buf ! i) else None)"

definition buf_put :: "'a list \<Rightarrow> nat \<Rightarrow> 'a \<Rightarrow> 'a list option" where
  "buf_put buf i b = (if i < length buf then Some (buf[i := b]) else None)"

lemma buf_get_in [simp, buf_simps]: "i < length buf \<Longrightarrow> buf_get buf i = Some (buf ! i)"
  by (simp add: buf_get_def)

lemma buf_put_in [simp, buf_simps]: "i < length buf \<Longrightarrow> buf_put buf i b = Some (buf[i := b])"
  by (simp add: buf_put_def)

lemma buf_get_None_iff: "buf_get buf i = None \<longleftrightarrow> length buf \<le> i"
  by (simp add: buf_get_def)

lemma buf_put_length: "buf_put buf i b = Some buf' \<Longrightarrow> length buf' = length buf"
  by (auto simp: buf_put_def split: if_splits)

end
