(* ===== verification/Base_String.thy ===== *)
theory Base_String
  imports Whip6_Prelude
begin

text \<open>
  The byte string routines of \<open>microc/include/base/ucString.h\<close>
  (\<open>detail/ucStringImpl.h\<close>) and the routing metrics of \<open>detail/ucEtxImpl.h\<close>.

  A pointer into a buffer is the buffer together with an index. The loops count \<open>size\<close>
  down to zero and advance both pointers, as in the code; an access outside a buffer ends
  the loop with \<open>None\<close>. The lemmas give each loop its closed form over lists and show that
  the three-way comparison decides equality exactly, while its sign is the sign of a
  difference that has been truncated to eight bits.
\<close>

section \<open>Hexadecimal digits\<close>

definition whip6_lo4bitsToHexChar :: "u8 \<Rightarrow> char" where
  "whip6_lo4bitsToHexChar b =
     (let d = b AND 0x0f in
      if d = 0x00 then CHR ''0''
      else if d = 0x01 then CHR ''1''
      else if d = 0x02 then CHR ''2''
      else if d = 0x03 then CHR ''3''
      else if d = 0x04 then CHR ''4''
      else if d = 0x05 then CHR ''5''
      else if d = 0x06 then CHR ''6''
      else if d = 0x07 then CHR ''7''
      else if d = 0x08 then CHR ''8''
      else if d = 0x09 then CHR ''9''
      else if d = 0x0a then CHR ''a''
      else if d = 0x0b then CHR ''b''
      else if d = 0x0c then CHR ''c''
      else if d = 0x0d then CHR ''d''
      else if d = 0x0e then CHR ''e''
      else CHR ''f'')"

section \<open>Copying, filling and comparing\<close>

text \<open>
  \<open>shortMemCpy\<close> and \<open>longMemCpy\<close> have the same loop over counters of different
  width. The source and the destination are distinct buffers at every call.
\<close>

fun whip6_longMemCpy :: "u8 list \<Rightarrow> nat \<Rightarrow> u8 list \<Rightarrow> nat \<Rightarrow> nat \<Rightarrow> u8 list option" where
  "whip6_longMemCpy src s dst d 0 = Some dst"
| "whip6_longMemCpy src s dst d (Suc n) =
     do { b \<leftarrow> buf_get src s;
          dst' \<leftarrow> buf_put dst d b;
          whip6_longMemCpy src (Suc s) dst' (Suc d) n }"

fun whip6_shortMemCpy_loop :: "u8 list \<Rightarrow> nat \<Rightarrow> u8 list \<Rightarrow> nat \<Rightarrow> nat \<Rightarrow> u8 list option" where
  "whip6_shortMemCpy_loop src s dst d 0 = Some dst"
| "whip6_shortMemCpy_loop src s dst d (Suc n) =
     do { b \<leftarrow> buf_get src s;
          dst' \<leftarrow> buf_put dst d b;
          whip6_shortMemCpy_loop src (Suc s) dst' (Suc d) n }"

definition whip6_shortMemCpy :: "u8 list \<Rightarrow> nat \<Rightarrow> u8 list \<Rightarrow> nat \<Rightarrow> u8 \<Rightarrow> u8 list option" where
  "whip6_shortMemCpy src s dst d len = whip6_shortMemCpy_loop src s dst d (unat len)"

fun whip6_shortMemSet_loop :: "u8 list \<Rightarrow> nat \<Rightarrow> u8 \<Rightarrow> nat \<Rightarrow> u8 list option" where
  "whip6_shortMemSet_loop m i pattern 0 = Some m"
| "whip6_shortMemSet_loop m i pattern (Suc n) =
     do { m' \<leftarrow> buf_put m i pattern;
          whip6_shortMemSet_loop m' (Suc i) pattern n }"

definition whip6_shortMemSet :: "u8 list \<Rightarrow> nat \<Rightarrow> u8 \<Rightarrow> u8 \<Rightarrow> u8 list option" where
  "whip6_shortMemSet m i pattern len = whip6_shortMemSet_loop m i pattern (unat len)"

text \<open>
  The comparison subtracts as \<open>int\<close> and casts to \<open>int8_t\<close>: the result is the signed
  reading of the difference of the two bytes modulo 256.
\<close>

fun whip6_shortMemCmp_loop :: "u8 list \<Rightarrow> nat \<Rightarrow> u8 list \<Rightarrow> nat \<Rightarrow> nat \<Rightarrow> int option" where
  "whip6_shortMemCmp_loop m1 i m2 j 0 = Some 0"
| "whip6_shortMemCmp_loop m1 i m2 j (Suc n) =
     do { a \<leftarrow> buf_get m1 i;
          b \<leftarrow> buf_get m2 j;
          let tmp = sint (a - b);
          if tmp \<noteq> 0 then Some tmp
          else whip6_shortMemCmp_loop m1 (Suc i) m2 (Suc j) n }"

definition whip6_shortMemCmp :: "u8 list \<Rightarrow> nat \<Rightarrow> u8 list \<Rightarrow> nat \<Rightarrow> u8 \<Rightarrow> int option" where
  "whip6_shortMemCmp m1 i m2 j len = whip6_shortMemCmp_loop m1 i m2 j (unat len)"

section \<open>Closed forms\<close>

text \<open>What a copy of \<open>n\<close> bytes leaves in the destination.\<close>

definition mem_blit :: "'a list \<Rightarrow> nat \<Rightarrow> 'a list \<Rightarrow> 'a list" where
  "mem_blit dst d bs = take d dst @ bs @ drop (d + length bs) dst"

lemma mem_blit_length [simp, lens]:
  "d + length bs \<le> length dst \<Longrightarrow> length (mem_blit dst d bs) = length dst"
  by (simp add: mem_blit_def)

lemma mem_blit_Nil [simp]: "mem_blit dst d [] = dst"
  by (simp add: mem_blit_def)

lemma mem_blit_update:
  "d + Suc (length bs) \<le> length dst \<Longrightarrow>
   mem_blit (dst[d := b]) (Suc d) bs = mem_blit dst d (b # bs)"
  by (simp add: mem_blit_def take_Suc_conv_app_nth)

lemma mem_blit_nth:
  assumes "d + length bs \<le> length dst" "i < length dst"
  shows "mem_blit dst d bs ! i = (if d \<le> i \<and> i < d + length bs then bs ! (i - d) else dst ! i)"
  using assms by (auto simp: mem_blit_def nth_append min_def)

lemma mem_blit_read_back:
  "d + length bs \<le> length dst \<Longrightarrow> take (length bs) (drop d (mem_blit dst d bs)) = bs"
  by (simp add: mem_blit_def)

lemma mem_blit_take:
  "d + length bs \<le> length dst \<Longrightarrow> i \<le> d \<Longrightarrow> take i (mem_blit dst d bs) = take i dst"
  by (simp add: mem_blit_def min_def)

lemma mem_blit_append:
  "d + length xs + length ys \<le> length dst \<Longrightarrow>
   mem_blit (mem_blit dst d xs) (d + length xs) ys = mem_blit dst d (xs @ ys)"
  by (simp add: mem_blit_def algebra_simps)

lemma mem_blit_append':
  "length xs = n \<Longrightarrow> d + n + length ys \<le> length dst \<Longrightarrow>
   mem_blit (mem_blit dst d xs) (d + n) ys = mem_blit dst d (xs @ ys)"
  using mem_blit_append by blast

text \<open>The bytes at a place, and what a write elsewhere leaves of them.\<close>

definition mem_range :: "'a list \<Rightarrow> nat \<Rightarrow> nat \<Rightarrow> 'a list" where
  "mem_range m i n = take n (drop i m)"

lemma mem_range_length [simp, lens]: "i + n \<le> length m \<Longrightarrow> length (mem_range m i n) = n"
  by (simp add: mem_range_def)

lemma mem_range_nth: "k < n \<Longrightarrow> i + n \<le> length m \<Longrightarrow> mem_range m i n ! k = m ! (i + k)"
  by (simp add: mem_range_def)

lemma mem_range_blit_same [simp]:
  "d + length bs \<le> length m \<Longrightarrow> n = length bs \<Longrightarrow> mem_range (mem_blit m d bs) d n = bs"
  by (simp add: mem_range_def mem_blit_read_back)

lemma mem_range_blit_other:
  assumes "d + length bs \<le> length m" "i + n \<le> length m" "i + n \<le> d \<or> d + length bs \<le> i"
  shows "mem_range (mem_blit m d bs) i n = mem_range m i n"
  using assms by (intro nth_equalityI) (auto simp: mem_range_nth mem_blit_nth)

lemma mem_range_update_other:
  "i + n \<le> length m \<Longrightarrow> k < i \<or> i + n \<le> k \<Longrightarrow> mem_range (m[k := b]) i n = mem_range m i n"
  by (intro nth_equalityI) (auto simp: mem_range_nth)

definition holds_at :: "'a list \<Rightarrow> nat \<Rightarrow> 'a list \<Rightarrow> bool" where
  "holds_at m i bs \<longleftrightarrow> i + length bs \<le> length m \<and> mem_range m i (length bs) = bs"

lemma holds_at_Nil [simp]: "holds_at m i [] \<longleftrightarrow> i \<le> length m"
  by (simp add: holds_at_def mem_range_def)

lemma holds_at_Cons [simp]: "holds_at m i (b # bs) \<longleftrightarrow> i < length m \<and> m ! i = b \<and> holds_at m (Suc i) bs"
  by (auto simp: holds_at_def mem_range_def Cons_nth_drop_Suc [symmetric])

lemma holds_at_le: "holds_at m i bs \<Longrightarrow> i + length bs \<le> length m"
  by (simp add: holds_at_def)

lemma holds_at_append:
  "holds_at m i (xs @ ys) \<longleftrightarrow> holds_at m i xs \<and> holds_at m (i + length xs) ys"
  by (induction xs arbitrary: i) (auto dest: holds_at_le)

lemma holds_at_blit: "d + length bs \<le> length m \<Longrightarrow> holds_at (mem_blit m d bs) d bs"
  by (simp add: holds_at_def)

lemma holds_at_blit_other:
  "holds_at m i xs \<Longrightarrow> d + length bs \<le> length m \<Longrightarrow> i + length xs \<le> d \<or> d + length bs \<le> i \<Longrightarrow>
   holds_at (mem_blit m d bs) i xs"
  by (simp add: holds_at_def mem_range_blit_other)

lemma blit_snoc:
  "d + length xs < length m \<Longrightarrow> (mem_blit m d xs)[d + length xs := b] = mem_blit m d (xs @ [b])"
  using mem_blit_append [of d xs "[b]" m] mem_blit_update [of "d + length xs" "[]" "mem_blit m d xs" b]
  by simp

lemma blit_cons:
  "d + length xs < length m \<Longrightarrow> (mem_blit m (Suc d) xs)[d := b] = mem_blit m d (b # xs)"
  by (simp add: mem_blit_def list_update_append take_Suc_conv_app_nth upd_conv_take_nth_drop min_def)

lemma longMemCpy_eq:
  "s + n \<le> length src \<Longrightarrow> d + n \<le> length dst \<Longrightarrow>
   whip6_longMemCpy src s dst d n = Some (mem_blit dst d (take n (drop s src)))"
proof (induction n arbitrary: s dst d)
  case 0
  then show ?case by simp
next
  case (Suc n)
  then have "whip6_longMemCpy src (Suc s) (dst[d := src ! s]) (Suc d) n =
      Some (mem_blit (dst[d := src ! s]) (Suc d) (take n (drop (Suc s) src)))"
    by (intro Suc.IH) auto
  moreover have "mem_blit (dst[d := src ! s]) (Suc d) (take n (drop (Suc s) src)) =
      mem_blit dst d (take (Suc n) (drop s src))"
    using Suc.prems
    by (subst mem_blit_update) (auto simp: Cons_nth_drop_Suc [symmetric])
  ultimately show ?case using Suc.prems by simp
qed

lemma longMemCpy_None:
  "length src < s + n \<or> length dst < d + n \<Longrightarrow> 0 < n \<Longrightarrow> whip6_longMemCpy src s dst d n = None"
proof (induction n arbitrary: s dst d)
  case 0
  then show ?case by simp
next
  case (Suc n)
  then show ?case
    by (cases "n = 0") (auto simp: buf_get_def buf_put_def)
qed

lemma shortMemCpy_loop_long: "whip6_shortMemCpy_loop = whip6_longMemCpy"
proof (intro ext)
  fix src s dst d n
  show "whip6_shortMemCpy_loop src s dst d n = whip6_longMemCpy src s dst d n"
    by (induction n arbitrary: s dst d) simp_all
qed

lemma shortMemCpy_eq:
  "s + unat n \<le> length src \<Longrightarrow> d + unat n \<le> length dst \<Longrightarrow>
   whip6_shortMemCpy src s dst d n = Some (mem_blit dst d (take (unat n) (drop s src)))"
  by (simp add: whip6_shortMemCpy_def shortMemCpy_loop_long longMemCpy_eq)

lemma shortMemSet_eq:
  "i + unat n \<le> length m \<Longrightarrow>
   whip6_shortMemSet m i p n = Some (mem_blit m i (replicate (unat n) p))"
proof -
  have "i + k \<le> length m \<Longrightarrow> whip6_shortMemSet_loop m i p k = Some (mem_blit m i (replicate k p))" for k
  proof (induction k arbitrary: i m)
    case 0
    then show ?case by simp
  next
    case (Suc k)
    then have "whip6_shortMemSet_loop (m[i := p]) (Suc i) p k =
        Some (mem_blit (m[i := p]) (Suc i) (replicate k p))"
      by (intro Suc.IH) auto
    then show ?case using Suc.prems by (simp add: mem_blit_update)
  qed
  then show "i + unat n \<le> length m \<Longrightarrow> ?thesis" by (simp add: whip6_shortMemSet_def)
qed

lemma shortMemCpy_range:
  "s + unat n \<le> length src \<Longrightarrow> d + unat n \<le> length dst \<Longrightarrow>
   whip6_shortMemCpy src s dst d n = Some (mem_blit dst d (mem_range src s (unat n)))"
  by (simp add: shortMemCpy_eq mem_range_def)

lemma sint_u8_diff_eq_0: "sint (a - b :: u8) = 0 \<longleftrightarrow> a = b"
  by (simp add: signed_eq_0_iff)

lemma shortMemCmp_loop_Some:
  "i + n \<le> length m1 \<Longrightarrow> j + n \<le> length m2 \<Longrightarrow>
   \<exists>r. whip6_shortMemCmp_loop m1 i m2 j n = Some r \<and>
       (r = 0 \<longleftrightarrow> take n (drop i m1) = take n (drop j m2))"
proof (induction n arbitrary: i j)
  case 0
  then show ?case by simp
next
  case (Suc n)
  show ?case
  proof (cases "m1 ! i = m2 ! j")
    case True
    have "\<exists>r. whip6_shortMemCmp_loop m1 (Suc i) m2 (Suc j) n = Some r \<and>
       (r = 0 \<longleftrightarrow> take n (drop (Suc i) m1) = take n (drop (Suc j) m2))"
      using Suc.prems by (intro Suc.IH) auto
    with True Suc.prems show ?thesis
      by (auto simp: Cons_nth_drop_Suc [symmetric] sint_u8_diff_eq_0)
  next
    case False
    with Suc.prems show ?thesis
      by (auto simp: Cons_nth_drop_Suc [symmetric] sint_u8_diff_eq_0)
  qed
qed

lemma shortMemCmp_Some:
  assumes "i + unat n \<le> length m1" "j + unat n \<le> length m2"
  obtains r where "whip6_shortMemCmp m1 i m2 j n = Some r"
    and "r = 0 \<longleftrightarrow> take (unat n) (drop i m1) = take (unat n) (drop j m2)"
  using shortMemCmp_loop_Some [OF assms] by (auto simp: whip6_shortMemCmp_def)

end
