(* ===== verification/Ieee154_Address.thy ===== *)
theory Ieee154_Address
  imports Base_String
begin

text \<open>
  IEEE 802.15.4 addresses: \<open>microc/include/ieee154/ucIeee154AddressTypes.h\<close>,
  \<open>detail/ucIeee154AddressManipulationImpl.h\<close>,
  \<open>microc/src/ieee154/ucIeee154AddressManipulation.c\<close>.

  An address is a mode and the eight bytes of the union \<open>vars\<close>; a short address is its first
  two bytes, and the bytes beyond the ones that the mode uses are whatever was there before.
  \<open>addr_same\<close> is equality of what the mode uses: it is what the code compares.
\<close>

record ieee154_addr =
  addrMode :: u8
  addrVars :: "u8 list"

type_synonym ieee154_pan_id = "u8 list"

definition IEEE154_ADDR_MODE_NONE :: u8 where "IEEE154_ADDR_MODE_NONE = 0"
definition IEEE154_ADDR_MODE_SHORT :: u8 where "IEEE154_ADDR_MODE_SHORT = 2"
definition IEEE154_ADDR_MODE_EXT :: u8 where "IEEE154_ADDR_MODE_EXT = 3"
definition IEEE154_ADDR_MODE_MASK :: u8 where "IEEE154_ADDR_MODE_MASK = 3"
definition IEEE154_PAN_ID_BYTE_LENGTH :: u8 where "IEEE154_PAN_ID_BYTE_LENGTH = 2"
definition IEEE154_SHORT_ADDR_BYTE_LENGTH :: u8 where "IEEE154_SHORT_ADDR_BYTE_LENGTH = 2"
definition IEEE154_EXT_ADDR_BYTE_LENGTH :: u8 where "IEEE154_EXT_ADDR_BYTE_LENGTH = 8"

lemmas ieee154_addr_constants = IEEE154_ADDR_MODE_NONE_def IEEE154_ADDR_MODE_SHORT_def
  IEEE154_ADDR_MODE_EXT_def IEEE154_ADDR_MODE_MASK_def IEEE154_PAN_ID_BYTE_LENGTH_def
  IEEE154_SHORT_ADDR_BYTE_LENGTH_def IEEE154_EXT_ADDR_BYTE_LENGTH_def

section \<open>Operations\<close>

text \<open>The copies between a buffer and the union take the indices of both.\<close>

definition whip6_ieee154AddrShortCpy :: "u8 list \<Rightarrow> nat \<Rightarrow> u8 list \<Rightarrow> nat \<Rightarrow> u8 list option" where
  "whip6_ieee154AddrShortCpy src s dst d = whip6_shortMemCpy src s dst d IEEE154_SHORT_ADDR_BYTE_LENGTH"

definition whip6_ieee154AddrExtCpy :: "u8 list \<Rightarrow> nat \<Rightarrow> u8 list \<Rightarrow> nat \<Rightarrow> u8 list option" where
  "whip6_ieee154AddrExtCpy src s dst d = whip6_shortMemCpy src s dst d IEEE154_EXT_ADDR_BYTE_LENGTH"

text \<open>The whole structure is copied byte by byte.\<close>

definition whip6_ieee154AddrAnyCpy :: "ieee154_addr \<Rightarrow> ieee154_addr \<Rightarrow> ieee154_addr option" where
  "whip6_ieee154AddrAnyCpy srcAddr dstAddr =
     do { bs \<leftarrow> whip6_shortMemCpy (addrMode srcAddr # addrVars srcAddr) 0
                  (addrMode dstAddr # addrVars dstAddr) 0 9;
          Some \<lparr>addrMode = hd bs, addrVars = tl bs\<rparr> }"

definition whip6_ieee154AddrShortCmp :: "u8 list \<Rightarrow> u8 list \<Rightarrow> int option" where
  "whip6_ieee154AddrShortCmp a b = whip6_shortMemCmp a 0 b 0 IEEE154_SHORT_ADDR_BYTE_LENGTH"

definition whip6_ieee154AddrExtCmp :: "u8 list \<Rightarrow> u8 list \<Rightarrow> int option" where
  "whip6_ieee154AddrExtCmp a b = whip6_shortMemCmp a 0 b 0 IEEE154_EXT_ADDR_BYTE_LENGTH"

definition whip6_ieee154AddrAnyCmp :: "ieee154_addr \<Rightarrow> ieee154_addr \<Rightarrow> int option" where
  "whip6_ieee154AddrAnyCmp addr1 addr2 =
     (let modeDiff = sint (addrMode addr1 - addrMode addr2)
      in if modeDiff \<noteq> 0 then Some modeDiff
         else if addrMode addr1 = IEEE154_ADDR_MODE_SHORT
         then whip6_shortMemCmp (addrVars addr1) 0 (addrVars addr2) 0 IEEE154_SHORT_ADDR_BYTE_LENGTH
         else if addrMode addr1 = IEEE154_ADDR_MODE_EXT
         then whip6_shortMemCmp (addrVars addr1) 0 (addrVars addr2) 0 IEEE154_EXT_ADDR_BYTE_LENGTH
         else Some 0)"

definition whip6_ieee154AddrAnyEqShrt :: "ieee154_addr \<Rightarrow> u16 \<Rightarrow> bool option" where
  "whip6_ieee154AddrAnyEqShrt addr addrValue =
     (if addrMode addr \<noteq> IEEE154_ADDR_MODE_SHORT then Some False
      else do { b0 \<leftarrow> buf_get (addrVars addr) 0;
                b1 \<leftarrow> buf_get (addrVars addr) 1;
                Some (b0 = u16_lo addrValue \<and> b1 = u16_hi addrValue) })"

definition whip6_ieee154AddrAnySetShrt :: "ieee154_addr \<Rightarrow> u16 \<Rightarrow> ieee154_addr option" where
  "whip6_ieee154AddrAnySetShrt addr addrValue =
     do { v \<leftarrow> buf_put (addrVars addr) 0 (u16_lo addrValue);
          v \<leftarrow> buf_put v 1 (u16_hi addrValue);
          Some \<lparr>addrMode = IEEE154_ADDR_MODE_SHORT, addrVars = v\<rparr> }"

definition whip6_ieee154AddrAnySetNone :: "ieee154_addr \<Rightarrow> ieee154_addr" where
  "whip6_ieee154AddrAnySetNone addr = addr\<lparr>addrMode := IEEE154_ADDR_MODE_NONE\<rparr>"

definition whip6_ieee154AddrAnySetBroadcast :: "ieee154_addr \<Rightarrow> ieee154_addr option" where
  "whip6_ieee154AddrAnySetBroadcast addr =
     do { v \<leftarrow> buf_put (addrVars addr) 0 0xff;
          v \<leftarrow> buf_put v 1 0xff;
          Some \<lparr>addrMode = IEEE154_ADDR_MODE_SHORT, addrVars = v\<rparr> }"

definition whip6_ieee154AddrAnyIsNone :: "ieee154_addr \<Rightarrow> bool" where
  "whip6_ieee154AddrAnyIsNone addr = (addrMode addr = IEEE154_ADDR_MODE_NONE)"

definition whip6_ieee154AddrAnyIsBroadcast :: "ieee154_addr \<Rightarrow> bool option" where
  "whip6_ieee154AddrAnyIsBroadcast addr =
     (if addrMode addr \<noteq> IEEE154_ADDR_MODE_SHORT then Some False
      else do { b0 \<leftarrow> buf_get (addrVars addr) 0;
                b1 \<leftarrow> buf_get (addrVars addr) 1;
                Some (b0 = 0xff \<and> b1 = 0xff) })"

definition whip6_ieee154PanIdCpy :: "ieee154_pan_id \<Rightarrow> ieee154_pan_id \<Rightarrow> ieee154_pan_id option" where
  "whip6_ieee154PanIdCpy srcPanId dstPanId =
     whip6_shortMemCpy srcPanId 0 dstPanId 0 IEEE154_PAN_ID_BYTE_LENGTH"

definition whip6_ieee154PanIdCmp :: "ieee154_pan_id \<Rightarrow> ieee154_pan_id \<Rightarrow> int option" where
  "whip6_ieee154PanIdCmp a b = whip6_shortMemCmp a 0 b 0 IEEE154_PAN_ID_BYTE_LENGTH"

section \<open>What an address denotes\<close>

definition addr_len :: "u8 \<Rightarrow> nat" where
  "addr_len mode =
     (if mode = IEEE154_ADDR_MODE_SHORT then 2 else if mode = IEEE154_ADDR_MODE_EXT then 8 else 0)"

definition addr_bytes :: "ieee154_addr \<Rightarrow> u8 list" where
  "addr_bytes a = take (addr_len (addrMode a)) (addrVars a)"

definition addr_ok :: "ieee154_addr \<Rightarrow> bool" where
  "addr_ok a \<longleftrightarrow> length (addrVars a) = 8"

definition addr_same :: "ieee154_addr \<Rightarrow> ieee154_addr \<Rightarrow> bool" where
  "addr_same a b \<longleftrightarrow> addrMode a = addrMode b \<and> addr_bytes a = addr_bytes b"

lemma addr_same_refl [simp]: "addr_same a a"
  and addr_same_sym: "addr_same a b \<Longrightarrow> addr_same b a"
  and addr_same_trans: "addr_same a b \<Longrightarrow> addr_same b c \<Longrightarrow> addr_same a c"
  by (auto simp: addr_same_def)

lemma AddrAnyCmp_same:
  assumes "addr_ok a" "addr_ok b"
  shows "\<exists>r. whip6_ieee154AddrAnyCmp a b = Some r \<and> (r = 0 \<longleftrightarrow> addr_same a b)"
proof (cases "addrMode a = addrMode b")
  case True
  have "\<exists>r. whip6_shortMemCmp (addrVars a) 0 (addrVars b) 0 n = Some r \<and>
      (r = 0 \<longleftrightarrow> take (unat n) (addrVars a) = take (unat n) (addrVars b))" if "unat n \<le> 8" for n
    using shortMemCmp_Some [of 0 n "addrVars a" 0 "addrVars b"] assms that by (auto simp: addr_ok_def)
  from this [of 2] this [of 8] show ?thesis using True
    by (auto simp: whip6_ieee154AddrAnyCmp_def ieee154_addr_constants addr_same_def addr_bytes_def
        addr_len_def)
next
  case False
  then show ?thesis
    by (simp add: whip6_ieee154AddrAnyCmp_def Let_def sint_u8_diff_eq_0 addr_same_def)
qed

lemma AddrAnyCpy_eq:
  assumes "addr_ok a" "addr_ok b"
  shows "whip6_ieee154AddrAnyCpy a b = Some a"
  using assms by (simp add: whip6_ieee154AddrAnyCpy_def shortMemCpy_eq addr_ok_def mem_blit_def)

lemma PanIdCpy_eq: "length a = 2 \<Longrightarrow> length b = 2 \<Longrightarrow> whip6_ieee154PanIdCpy a b = Some a"
  by (simp add: whip6_ieee154PanIdCpy_def ieee154_addr_constants shortMemCpy_eq mem_blit_def)

lemma PanIdCmp_eq:
  assumes "length a = 2" "length b = 2"
  shows "\<exists>r. whip6_ieee154PanIdCmp a b = Some r \<and> (r = 0 \<longleftrightarrow> a = b)"
  using shortMemCmp_Some [of 0 2 a 0 b] assms
  by (auto simp: whip6_ieee154PanIdCmp_def ieee154_addr_constants)

text \<open>A value set as a short address is the one recognised.\<close>

lemma AddrAnySetShrt_EqShrt:
  assumes "addr_ok a"
  shows "\<exists>a'. whip6_ieee154AddrAnySetShrt a v = Some a' \<and> addr_ok a' \<and>
    whip6_ieee154AddrAnyEqShrt a' w = Some (v = w)"
proof -
  have "u16_lo v = u16_lo w \<and> u16_hi v = u16_hi w \<longleftrightarrow> v = w" by (metis u16_join_hi_lo)
  then show ?thesis using assms
    by (simp add: whip6_ieee154AddrAnySetShrt_def whip6_ieee154AddrAnyEqShrt_def addr_ok_def)
qed

lemma AddrAnySetBroadcast_Is:
  assumes "addr_ok a"
  shows "\<exists>a'. whip6_ieee154AddrAnySetBroadcast a = Some a' \<and> addr_ok a' \<and>
    whip6_ieee154AddrAnyIsBroadcast a' = Some True"
  using assms
  by (simp add: whip6_ieee154AddrAnySetBroadcast_def whip6_ieee154AddrAnyIsBroadcast_def addr_ok_def)

end
