(* ===== verification/Ieee154_Frame.thy ===== *)
theory Ieee154_Frame
  imports Ieee154_Address
begin

text \<open>
  IEEE 802.15.4 data frames: \<open>microc/include/ieee154/ucIeee154FrameTypes.h\<close>,
  \<open>ucIeee154FrameManipulation.h\<close>, \<open>detail/ucIeee154FrameManipulationImpl.h\<close> and
  \<open>microc/src/ieee154/ucIeee154FrameManipulation.c\<close>.

  A frame is a buffer with the offsets of its address fields packed into two bytes. The model
  keeps the buffer itself in the field \<open>bufferPtr\<close> (the empty list for \<open>NULL\<close>), so that a
  write through the frame is a new frame. \<open>frame_layout\<close> is what a successful construction
  establishes about the offsets, \<open>frame_fits\<close> that they lie inside the buffer.
\<close>

record ieee154_dframe_info =
  bufferPtr :: "u8 list"
  bufferLen :: u8
  frameFlags :: u8
  payloadAndDstAddrOff :: u8
  srcPanAndAddrOff :: u8

definition IEEE154_DFRAME_INFO_FLAG_INTER_PAN :: u8 where
  "IEEE154_DFRAME_INFO_FLAG_INTER_PAN = push_bit 4 1"
definition IEEE154_DFRAME_MINIMAL_SIZE :: u8 where "IEEE154_DFRAME_MINIMAL_SIZE = 6"
definition IEEE154_DFRAME_TYPE :: u8 where "IEEE154_DFRAME_TYPE = 1"
definition IEEE154_DFRAME_INITIAL_OFFSET :: u8 where "IEEE154_DFRAME_INITIAL_OFFSET = 4"
definition IEEE154_DFRAME_CRC_SIZE :: u8 where "IEEE154_DFRAME_CRC_SIZE = 0"
definition IEEE154_FCF_FRAME_TYPE_FIELD_MASK :: u8 where "IEEE154_FCF_FRAME_TYPE_FIELD_MASK = 7"
definition IEEE154_FCF_SECURITY_ENABLED_FLAG_BIT :: u8 where
  "IEEE154_FCF_SECURITY_ENABLED_FLAG_BIT = push_bit 3 1"
definition IEEE154_FCF_FRAME_PENDING_FLAG_BIT :: u8 where
  "IEEE154_FCF_FRAME_PENDING_FLAG_BIT = push_bit 4 1"
definition IEEE154_FCF_ACK_REQUEST_FLAG_BIT :: u8 where
  "IEEE154_FCF_ACK_REQUEST_FLAG_BIT = push_bit 5 1"
definition IEEE154_FCF_INTRA_PAN_FLAG_BIT :: u8 where
  "IEEE154_FCF_INTRA_PAN_FLAG_BIT = push_bit 6 1"

lemmas frame_constants = IEEE154_DFRAME_INFO_FLAG_INTER_PAN_def IEEE154_DFRAME_MINIMAL_SIZE_def
  IEEE154_DFRAME_TYPE_def IEEE154_DFRAME_INITIAL_OFFSET_def IEEE154_DFRAME_CRC_SIZE_def
  IEEE154_FCF_FRAME_TYPE_FIELD_MASK_def IEEE154_FCF_SECURITY_ENABLED_FLAG_BIT_def
  IEEE154_FCF_FRAME_PENDING_FLAG_BIT_def IEEE154_FCF_ACK_REQUEST_FLAG_BIT_def
  IEEE154_FCF_INTRA_PAN_FLAG_BIT_def ieee154_addr_constants

section \<open>Fields and offsets\<close>

definition frame_get :: "ieee154_dframe_info \<Rightarrow> nat \<Rightarrow> u8 option" where
  "frame_get frame i = buf_get (bufferPtr frame) i"

definition frame_put :: "ieee154_dframe_info \<Rightarrow> nat \<Rightarrow> u8 \<Rightarrow> ieee154_dframe_info option" where
  "frame_put frame i b =
     do { buf \<leftarrow> buf_put (bufferPtr frame) i b; Some (frame\<lparr>bufferPtr := buf\<rparr>) }"

definition whip6_ieee154DFrameIsInterPan :: "ieee154_dframe_info \<Rightarrow> bool" where
  "whip6_ieee154DFrameIsInterPan frame = ((frameFlags frame AND IEEE154_DFRAME_INFO_FLAG_INTER_PAN) \<noteq> 0)"

definition whip6_ieee154DFrameGetOffsetDstPanId :: "ieee154_dframe_info \<Rightarrow> nat" where
  "whip6_ieee154DFrameGetOffsetDstPanId frame = unat IEEE154_DFRAME_INITIAL_OFFSET"

definition whip6_ieee154DFrameGetOffsetDstAddr :: "ieee154_dframe_info \<Rightarrow> nat" where
  "whip6_ieee154DFrameGetOffsetDstAddr frame =
     unat (IEEE154_DFRAME_INITIAL_OFFSET + (payloadAndDstAddrOff frame AND 0x07))"

definition whip6_ieee154DFrameGetOffsetSrcPanId :: "ieee154_dframe_info \<Rightarrow> nat" where
  "whip6_ieee154DFrameGetOffsetSrcPanId frame =
     unat (IEEE154_DFRAME_INITIAL_OFFSET + drop_bit 4 (srcPanAndAddrOff frame))"

definition whip6_ieee154DFrameGetOffsetSrcAddr :: "ieee154_dframe_info \<Rightarrow> nat" where
  "whip6_ieee154DFrameGetOffsetSrcAddr frame =
     unat (IEEE154_DFRAME_INITIAL_OFFSET + (srcPanAndAddrOff frame AND 0x0f))"

definition whip6_ieee154DFrameGetModeDstAddr :: "ieee154_dframe_info \<Rightarrow> u8" where
  "whip6_ieee154DFrameGetModeDstAddr frame = frameFlags frame AND IEEE154_ADDR_MODE_MASK"

definition whip6_ieee154DFrameGetModeSrcAddr :: "ieee154_dframe_info \<Rightarrow> u8" where
  "whip6_ieee154DFrameGetModeSrcAddr frame = drop_bit 2 (frameFlags frame) AND IEEE154_ADDR_MODE_MASK"

definition whip6_ieee154DFrameGetMacDataLen :: "ieee154_dframe_info \<Rightarrow> u8 option" where
  "whip6_ieee154DFrameGetMacDataLen frame = frame_get frame 0"

definition whip6_ieee154DFrameGetSeqNo :: "ieee154_dframe_info \<Rightarrow> u8 option" where
  "whip6_ieee154DFrameGetSeqNo frame = frame_get frame 3"

definition whip6_ieee154DFrameSetSeqNo :: "ieee154_dframe_info \<Rightarrow> u8 \<Rightarrow> ieee154_dframe_info option" where
  "whip6_ieee154DFrameSetSeqNo frame seqNo = frame_put frame 3 seqNo"

definition whip6_ieee154DFrameSetFCFACKRequest :: "ieee154_dframe_info \<Rightarrow> ieee154_dframe_info option" where
  "whip6_ieee154DFrameSetFCFACKRequest frame =
     do { b \<leftarrow> frame_get frame 1; frame_put frame 1 (b OR IEEE154_FCF_ACK_REQUEST_FLAG_BIT) }"

definition whip6_ieee154DFrameGetDstPanId ::
  "ieee154_dframe_info \<Rightarrow> ieee154_pan_id \<Rightarrow> ieee154_pan_id option" where
  "whip6_ieee154DFrameGetDstPanId frame panId =
     do { let off = whip6_ieee154DFrameGetOffsetDstPanId frame;
          b0 \<leftarrow> frame_get frame off; panId \<leftarrow> buf_put panId 0 b0;
          b1 \<leftarrow> frame_get frame (Suc off); buf_put panId 1 b1 }"

definition whip6_ieee154DFrameSetDstPanId ::
  "ieee154_dframe_info \<Rightarrow> ieee154_pan_id \<Rightarrow> ieee154_dframe_info option" where
  "whip6_ieee154DFrameSetDstPanId frame panId =
     do { let off = whip6_ieee154DFrameGetOffsetDstPanId frame;
          b0 \<leftarrow> buf_get panId 0; frame \<leftarrow> frame_put frame off b0;
          b1 \<leftarrow> buf_get panId 1; frame_put frame (Suc off) b1 }"

definition whip6_ieee154DFrameGetSrcPanId ::
  "ieee154_dframe_info \<Rightarrow> ieee154_pan_id \<Rightarrow> ieee154_pan_id option" where
  "whip6_ieee154DFrameGetSrcPanId frame panId =
     do { let off = whip6_ieee154DFrameGetOffsetSrcPanId frame;
          b0 \<leftarrow> frame_get frame off; panId \<leftarrow> buf_put panId 0 b0;
          b1 \<leftarrow> frame_get frame (Suc off); buf_put panId 1 b1 }"

definition whip6_ieee154DFrameSetSrcPanId ::
  "ieee154_dframe_info \<Rightarrow> ieee154_pan_id \<Rightarrow> ieee154_dframe_info option" where
  "whip6_ieee154DFrameSetSrcPanId frame panId =
     do { let off = whip6_ieee154DFrameGetOffsetSrcPanId frame;
          b0 \<leftarrow> buf_get panId 0; frame \<leftarrow> frame_put frame off b0;
          b1 \<leftarrow> buf_get panId 1; frame_put frame (Suc off) b1 }"

section \<open>The payload\<close>

text \<open>The lengths are computed in \<open>uint8_t\<close> arithmetic; a pointer is an index.\<close>

definition whip6_ieee154DFrameMaxPayloadLen :: "ieee154_dframe_info \<Rightarrow> u8" where
  "whip6_ieee154DFrameMaxPayloadLen frame =
     bufferLen frame - drop_bit 3 (payloadAndDstAddrOff frame) -
       (IEEE154_DFRAME_INITIAL_OFFSET + IEEE154_DFRAME_CRC_SIZE)"

definition whip6_ieee154DFrameUnsafeGetPayloadPtr :: "ieee154_dframe_info \<Rightarrow> nat" where
  "whip6_ieee154DFrameUnsafeGetPayloadPtr frame =
     unat (drop_bit 3 (payloadAndDstAddrOff frame) + IEEE154_DFRAME_INITIAL_OFFSET)"

definition whip6_ieee154DFrameGetPayloadPtr :: "ieee154_dframe_info \<Rightarrow> u8 \<Rightarrow> nat option" where
  "whip6_ieee154DFrameGetPayloadPtr frame len =
     (let offset = whip6_ieee154DFrameUnsafeGetPayloadPtr frame
      in if unat len + offset + unat IEEE154_DFRAME_CRC_SIZE > unat (bufferLen frame) then None
         else Some offset)"

definition whip6_ieee154DFrameGetPayloadLen :: "ieee154_dframe_info \<Rightarrow> u8 option" where
  "whip6_ieee154DFrameGetPayloadLen frame =
     do { b0 \<leftarrow> frame_get frame 0;
          Some (b0 - drop_bit 3 (payloadAndDstAddrOff frame) -
                  (IEEE154_DFRAME_INITIAL_OFFSET + IEEE154_DFRAME_CRC_SIZE - 1)) }"

definition whip6_ieee154DFrameSetPayloadLen ::
  "ieee154_dframe_info \<Rightarrow> u8 \<Rightarrow> ieee154_dframe_info option" where
  "whip6_ieee154DFrameSetPayloadLen frame len =
     frame_put frame 0
       (len + (drop_bit 3 (payloadAndDstAddrOff frame) +
                (IEEE154_DFRAME_INITIAL_OFFSET + IEEE154_DFRAME_CRC_SIZE - 1)))"

definition whip6_ieee154DFrameGetCrc :: "ieee154_dframe_info \<Rightarrow> u16 option" where
  "whip6_ieee154DFrameGetCrc frame =
     (if IEEE154_DFRAME_CRC_SIZE = 0 then Some 0
      else do { n \<leftarrow> frame_get frame 0;
                hi \<leftarrow> frame_get frame (unat n);
                lo \<leftarrow> (if n = 0 then None else frame_get frame (unat n - 1));
                Some (u16_join hi lo) })"

definition whip6_ieee154DFrameSetCrc ::
  "ieee154_dframe_info \<Rightarrow> u16 \<Rightarrow> ieee154_dframe_info option" where
  "whip6_ieee154DFrameSetCrc frame crcVal =
     (if IEEE154_DFRAME_CRC_SIZE = 0 then Some frame
      else do { n \<leftarrow> frame_get frame 0;
                frame \<leftarrow> (if n = 0 then None else frame_put frame (unat n - 1) (u16_lo crcVal));
                n \<leftarrow> frame_get frame 0;
                frame_put frame (unat n) (u16_hi crcVal) })"

section \<open>Addresses\<close>

definition whip6_ieee154DFrameGetSrcAddr ::
  "ieee154_dframe_info \<Rightarrow> ieee154_addr \<Rightarrow> ieee154_addr option" where
  "whip6_ieee154DFrameGetSrcAddr frame addr =
     (let srcMode = whip6_ieee154DFrameGetModeSrcAddr frame;
          srcOff = whip6_ieee154DFrameGetOffsetSrcAddr frame;
          addr = addr\<lparr>addrMode := srcMode\<rparr>
      in if srcMode = IEEE154_ADDR_MODE_SHORT then
           do { v \<leftarrow> whip6_ieee154AddrShortCpy (bufferPtr frame) srcOff (addrVars addr) 0;
                Some (addr\<lparr>addrVars := v\<rparr>) }
         else if srcMode = IEEE154_ADDR_MODE_EXT then
           do { v \<leftarrow> whip6_ieee154AddrExtCpy (bufferPtr frame) srcOff (addrVars addr) 0;
                Some (addr\<lparr>addrVars := v\<rparr>) }
         else Some addr)"

definition whip6_ieee154DFrameSetSrcAddr ::
  "ieee154_dframe_info \<Rightarrow> ieee154_addr \<Rightarrow> ieee154_dframe_info option" where
  "whip6_ieee154DFrameSetSrcAddr frame addr =
     (let srcMode = whip6_ieee154DFrameGetModeSrcAddr frame;
          srcOff = whip6_ieee154DFrameGetOffsetSrcAddr frame
      in if srcMode = IEEE154_ADDR_MODE_SHORT then
           do { buf \<leftarrow> whip6_ieee154AddrShortCpy (addrVars addr) 0 (bufferPtr frame) srcOff;
                Some (frame\<lparr>bufferPtr := buf\<rparr>) }
         else if srcMode = IEEE154_ADDR_MODE_EXT then
           do { buf \<leftarrow> whip6_ieee154AddrExtCpy (addrVars addr) 0 (bufferPtr frame) srcOff;
                Some (frame\<lparr>bufferPtr := buf\<rparr>) }
         else Some frame)"

definition whip6_ieee154DFrameGetDstAddr ::
  "ieee154_dframe_info \<Rightarrow> ieee154_addr \<Rightarrow> ieee154_addr option" where
  "whip6_ieee154DFrameGetDstAddr frame addr =
     (let dstMode = whip6_ieee154DFrameGetModeDstAddr frame;
          dstOff = whip6_ieee154DFrameGetOffsetDstAddr frame;
          addr = addr\<lparr>addrMode := dstMode\<rparr>
      in if dstMode = IEEE154_ADDR_MODE_SHORT then
           do { v \<leftarrow> whip6_ieee154AddrShortCpy (bufferPtr frame) dstOff (addrVars addr) 0;
                Some (addr\<lparr>addrVars := v\<rparr>) }
         else if dstMode = IEEE154_ADDR_MODE_EXT then
           do { v \<leftarrow> whip6_ieee154AddrExtCpy (bufferPtr frame) dstOff (addrVars addr) 0;
                Some (addr\<lparr>addrVars := v\<rparr>) }
         else Some addr)"

definition whip6_ieee154DFrameSetDstAddr ::
  "ieee154_dframe_info \<Rightarrow> ieee154_addr \<Rightarrow> ieee154_dframe_info option" where
  "whip6_ieee154DFrameSetDstAddr frame addr =
     (let dstMode = whip6_ieee154DFrameGetModeDstAddr frame;
          dstOff = whip6_ieee154DFrameGetOffsetDstAddr frame
      in if dstMode = IEEE154_ADDR_MODE_SHORT then
           do { buf \<leftarrow> whip6_ieee154AddrShortCpy (addrVars addr) 0 (bufferPtr frame) dstOff;
                Some (frame\<lparr>bufferPtr := buf\<rparr>) }
         else if dstMode = IEEE154_ADDR_MODE_EXT then
           do { buf \<leftarrow> whip6_ieee154AddrExtCpy (addrVars addr) 0 (bufferPtr frame) dstOff;
                Some (frame\<lparr>bufferPtr := buf\<rparr>) }
         else Some frame)"

section \<open>Construction\<close>

text \<open>
  The frame before the call is needed because a buffer below the minimal size leaves it alone.
  The buffer is part of the new frame; it differs from the argument only inside the frame.
\<close>

definition whip6_ieee154DFrameInfoNew ::
  "ieee154_dframe_info \<Rightarrow> u8 list \<Rightarrow> u8 \<Rightarrow> u8 \<Rightarrow> (ieee154_dframe_info \<times> whip6_error) option" where
  "whip6_ieee154DFrameInfoNew frame bufPtr bufLen flags =
     (if bufLen < IEEE154_DFRAME_MINIMAL_SIZE then Some (frame, WHIP6_SIZE_ERROR)
      else
        do { bufPtr \<leftarrow> buf_put bufPtr 1 IEEE154_DFRAME_TYPE;
             bufPtr \<leftarrow> buf_put bufPtr 2 0;
             let frame = \<lparr>bufferPtr = bufPtr, bufferLen = bufLen, frameFlags = flags,
                          payloadAndDstAddrOff = 0, srcPanAndAddrOff = 0\<rparr>;
             let dstMode = flags AND IEEE154_ADDR_MODE_MASK;
             if dstMode \<noteq> IEEE154_ADDR_MODE_SHORT \<and> dstMode \<noteq> IEEE154_ADDR_MODE_EXT
             then Some (frame, WHIP6_ARGUMENT_ERROR)
             else
               do { let currOff = IEEE154_PAN_ID_BYTE_LENGTH +
                      (if dstMode = IEEE154_ADDR_MODE_SHORT then IEEE154_SHORT_ADDR_BYTE_LENGTH
                       else IEEE154_EXT_ADDR_BYTE_LENGTH);
                    let frame = frame\<lparr>payloadAndDstAddrOff := IEEE154_PAN_ID_BYTE_LENGTH\<rparr>;
                    b2 \<leftarrow> frame_get frame 2;
                    frame \<leftarrow> frame_put frame 2 (b2 OR push_bit 2 dstMode);
                    let frame = frame\<lparr>srcPanAndAddrOff := push_bit 4 currOff\<rparr>;
                    (frame, currOff) \<leftarrow>
                      (if (flags AND IEEE154_DFRAME_INFO_FLAG_INTER_PAN) \<noteq> 0
                       then Some (frame, currOff + IEEE154_PAN_ID_BYTE_LENGTH)
                       else do { b1 \<leftarrow> frame_get frame 1;
                                 frame \<leftarrow> frame_put frame 1 (b1 OR IEEE154_FCF_INTRA_PAN_FLAG_BIT);
                                 Some (frame, currOff) });
                    let srcMode = drop_bit 2 flags AND IEEE154_ADDR_MODE_MASK;
                    if srcMode \<noteq> IEEE154_ADDR_MODE_SHORT \<and> srcMode \<noteq> IEEE154_ADDR_MODE_EXT
                    then Some (frame, WHIP6_ARGUMENT_ERROR)
                    else
                      do { let frame = frame\<lparr>srcPanAndAddrOff := srcPanAndAddrOff frame OR currOff\<rparr>;
                           let currOff = currOff +
                             (if srcMode = IEEE154_ADDR_MODE_SHORT then IEEE154_SHORT_ADDR_BYTE_LENGTH
                              else IEEE154_EXT_ADDR_BYTE_LENGTH);
                           b2 \<leftarrow> frame_get frame 2;
                           frame \<leftarrow> frame_put frame 2 (b2 OR push_bit 6 srcMode);
                           frame \<leftarrow> frame_put frame 0
                             (currOff + (IEEE154_DFRAME_INITIAL_OFFSET + IEEE154_DFRAME_CRC_SIZE - 1));
                           b0 \<leftarrow> frame_get frame 0;
                           if unat bufLen < unat b0 + 1 then Some (frame, WHIP6_SIZE_ERROR)
                           else Some (frame\<lparr>payloadAndDstAddrOff :=
                                  payloadAndDstAddrOff frame OR push_bit 3 currOff\<rparr>, WHIP6_NO_ERROR) } } })"

definition whip6_ieee154DFrameInfoExisting ::
  "ieee154_dframe_info \<Rightarrow> u8 list \<Rightarrow> u8 \<Rightarrow> (ieee154_dframe_info \<times> whip6_error) option" where
  "whip6_ieee154DFrameInfoExisting frame bufPtr bufLen =
     (if bufLen < IEEE154_DFRAME_MINIMAL_SIZE then Some (frame, WHIP6_SIZE_ERROR)
      else
        do { let frame = \<lparr>bufferPtr = bufPtr, bufferLen = bufLen, frameFlags = 0,
                          payloadAndDstAddrOff = 0, srcPanAndAddrOff = 0\<rparr>;
             tmp \<leftarrow> buf_get bufPtr 1;
             if (tmp AND IEEE154_FCF_FRAME_TYPE_FIELD_MASK) \<noteq> IEEE154_DFRAME_TYPE
             then Some (frame, WHIP6_ARGUMENT_ERROR)
             else if (tmp AND (IEEE154_FCF_SECURITY_ENABLED_FLAG_BIT OR
                       IEEE154_FCF_FRAME_PENDING_FLAG_BIT)) \<noteq> 0
             then Some (frame, WHIP6_ARGUMENT_ERROR)
             else
               do { let frame = (if (tmp AND IEEE154_FCF_INTRA_PAN_FLAG_BIT) = 0
                      then frame\<lparr>frameFlags := frameFlags frame OR IEEE154_DFRAME_INFO_FLAG_INTER_PAN\<rparr>
                      else frame);
                    b2 \<leftarrow> buf_get bufPtr 2;
                    let dstMode = drop_bit 2 b2 AND IEEE154_ADDR_MODE_MASK;
                    if dstMode \<noteq> IEEE154_ADDR_MODE_SHORT \<and> dstMode \<noteq> IEEE154_ADDR_MODE_EXT
                    then Some (frame, WHIP6_ARGUMENT_ERROR)
                    else
                      do { let currOff = IEEE154_PAN_ID_BYTE_LENGTH +
                             (if dstMode = IEEE154_ADDR_MODE_SHORT then IEEE154_SHORT_ADDR_BYTE_LENGTH
                              else IEEE154_EXT_ADDR_BYTE_LENGTH);
                           let frame = frame\<lparr>payloadAndDstAddrOff := IEEE154_PAN_ID_BYTE_LENGTH,
                             frameFlags := frameFlags frame OR dstMode,
                             srcPanAndAddrOff := push_bit 4 currOff\<rparr>;
                           let currOff =
                             (if (frameFlags frame AND IEEE154_DFRAME_INFO_FLAG_INTER_PAN) \<noteq> 0
                              then currOff + IEEE154_PAN_ID_BYTE_LENGTH else currOff);
                           b2 \<leftarrow> buf_get bufPtr 2;
                           let srcMode = drop_bit 6 b2 AND IEEE154_ADDR_MODE_MASK;
                           if srcMode \<noteq> IEEE154_ADDR_MODE_SHORT \<and> srcMode \<noteq> IEEE154_ADDR_MODE_EXT
                           then Some (frame, WHIP6_ARGUMENT_ERROR)
                           else
                             do { let frame = frame\<lparr>
                                    srcPanAndAddrOff := srcPanAndAddrOff frame OR currOff,
                                    frameFlags := frameFlags frame OR push_bit 2 srcMode\<rparr>;
                                  let currOff = currOff +
                                    (if srcMode = IEEE154_ADDR_MODE_SHORT then IEEE154_SHORT_ADDR_BYTE_LENGTH
                                     else IEEE154_EXT_ADDR_BYTE_LENGTH);
                                  b0 \<leftarrow> buf_get bufPtr 0;
                                  if b0 < currOff + (IEEE154_DFRAME_INITIAL_OFFSET + IEEE154_DFRAME_CRC_SIZE - 1)
                                  then Some (frame, WHIP6_SIZE_ERROR)
                                  else Some (frame\<lparr>payloadAndDstAddrOff :=
                                         payloadAndDstAddrOff frame OR push_bit 3 currOff\<rparr>,
                                       WHIP6_NO_ERROR) } } } })"

text \<open>
  On failure the structure is restored field by field; what has been written to the buffer
  stays.
\<close>

definition whip6_ieee154DFrameInfoReinitializeFrameForAddresses ::
  "ieee154_dframe_info \<Rightarrow> ieee154_addr \<Rightarrow> ieee154_addr \<Rightarrow> ieee154_pan_id \<Rightarrow> ieee154_pan_id option \<Rightarrow>
   (ieee154_dframe_info \<times> whip6_error) option" where
  "whip6_ieee154DFrameInfoReinitializeFrameForAddresses frame dstAddr srcAddr dstPanId srcPanIdOrNull =
     (if bufferPtr frame = [] \<or> bufferLen frame = 0 then Some (frame, WHIP6_STATE_ERROR)
      else
        do { let frameInfoCopy = frame;
             let flags = (addrMode dstAddr AND IEEE154_ADDR_MODE_MASK) OR
               push_bit 2 (addrMode srcAddr AND IEEE154_ADDR_MODE_MASK) OR
               (if srcPanIdOrNull \<noteq> None then IEEE154_DFRAME_INFO_FLAG_INTER_PAN else 0);
             (frame, status) \<leftarrow>
               whip6_ieee154DFrameInfoNew frame (bufferPtr frame) (bufferLen frame) flags;
             if status \<noteq> WHIP6_NO_ERROR
             then Some (frameInfoCopy\<lparr>bufferPtr := bufferPtr frame\<rparr>, status)
             else
               do { frame \<leftarrow> whip6_ieee154DFrameSetSeqNo frame 0;
                    frame \<leftarrow> whip6_ieee154DFrameSetSrcAddr frame srcAddr;
                    frame \<leftarrow> whip6_ieee154DFrameSetDstAddr frame dstAddr;
                    frame \<leftarrow> whip6_ieee154DFrameSetDstPanId frame dstPanId;
                    frame \<leftarrow> (if whip6_ieee154DFrameIsInterPan frame
                      then (case srcPanIdOrNull of None \<Rightarrow> None
                              | Some srcPanId \<Rightarrow> whip6_ieee154DFrameSetSrcPanId frame srcPanId)
                      else Some frame);
                    Some (frame, WHIP6_NO_ERROR) } })"

text \<open>
  The reply frame is laid out by copying the fields of the input frame one after the other; the
  loops over an address copy \<open>cnt\<close> bytes.
\<close>

fun frame_copy_loop :: "u8 list \<Rightarrow> nat \<Rightarrow> ieee154_dframe_info \<Rightarrow> nat \<Rightarrow> nat \<Rightarrow> ieee154_dframe_info option" where
  "frame_copy_loop inBuf inPtr outFrame outPtr 0 = Some outFrame"
| "frame_copy_loop inBuf inPtr outFrame outPtr (Suc cnt) =
     do { b \<leftarrow> buf_get inBuf inPtr;
          outFrame \<leftarrow> frame_put outFrame outPtr b;
          frame_copy_loop inBuf (Suc inPtr) outFrame (Suc outPtr) cnt }"

definition whip6_ieee154DFrameInfoReinitializeFrameInOppositeDirection ::
  "ieee154_dframe_info \<Rightarrow> ieee154_dframe_info \<Rightarrow> (ieee154_dframe_info \<times> whip6_error) option" where
  "whip6_ieee154DFrameInfoReinitializeFrameInOppositeDirection outFrame inFrame =
     (let inFlags = frameFlags inFrame; inBuf = bufferPtr inFrame;
          start = unat IEEE154_DFRAME_INITIAL_OFFSET
      in if bufferPtr outFrame = [] \<or> unat (bufferLen outFrame) <
              unat (drop_bit 3 (payloadAndDstAddrOff inFrame)) +
                unat (IEEE154_DFRAME_INITIAL_OFFSET + IEEE154_DFRAME_CRC_SIZE)
         then Some (outFrame, WHIP6_STATE_ERROR)
         else
           do { let inter = ((inFlags AND IEEE154_DFRAME_INFO_FLAG_INTER_PAN) \<noteq> 0);
                let outFlags = (if inter then IEEE154_DFRAME_INFO_FLAG_INTER_PAN else 0);
                let inPtr = start + (if inter then unat (drop_bit 4 (srcPanAndAddrOff inFrame)) else 0);
                outFrame \<leftarrow> frame_copy_loop inBuf inPtr outFrame start 2;
                let off = IEEE154_PAN_ID_BYTE_LENGTH;
                let outFrame = outFrame\<lparr>payloadAndDstAddrOff := off AND 0x7\<rparr>;
                let inPtr = start + unat (srcPanAndAddrOff inFrame AND 0x0f);
                let mode = drop_bit 2 inFlags AND IEEE154_ADDR_MODE_MASK;
                if mode \<noteq> IEEE154_ADDR_MODE_EXT \<and> mode \<noteq> IEEE154_ADDR_MODE_SHORT
                then Some (outFrame, WHIP6_ARGUMENT_ERROR)
                else
                  do { let outFlags = outFlags OR mode;
                       let cnt = (if mode = IEEE154_ADDR_MODE_EXT then IEEE154_EXT_ADDR_BYTE_LENGTH
                                  else IEEE154_SHORT_ADDR_BYTE_LENGTH);
                       outFrame \<leftarrow> frame_copy_loop inBuf inPtr outFrame (start + unat off) (unat cnt);
                       let off = off + cnt;
                       let outFrame = outFrame\<lparr>srcPanAndAddrOff := push_bit 4 off\<rparr>;
                       (outFrame, off) \<leftarrow>
                         (if inter
                          then do { outFrame \<leftarrow> frame_copy_loop inBuf start outFrame (start + unat off) 2;
                                    Some (outFrame, off + IEEE154_PAN_ID_BYTE_LENGTH) }
                          else Some (outFrame, off));
                       let outFrame = outFrame\<lparr>srcPanAndAddrOff :=
                         srcPanAndAddrOff outFrame OR (off AND 0x0f)\<rparr>;
                       let inPtr = start + unat (payloadAndDstAddrOff inFrame AND 0x07);
                       let mode = inFlags AND IEEE154_ADDR_MODE_MASK;
                       if mode \<noteq> IEEE154_ADDR_MODE_EXT \<and> mode \<noteq> IEEE154_ADDR_MODE_SHORT
                       then Some (outFrame, WHIP6_ARGUMENT_ERROR)
                       else
                         do { let outFlags = outFlags OR push_bit 2 mode;
                              let cnt = (if mode = IEEE154_ADDR_MODE_EXT then IEEE154_EXT_ADDR_BYTE_LENGTH
                                         else IEEE154_SHORT_ADDR_BYTE_LENGTH);
                              outFrame \<leftarrow> frame_copy_loop inBuf inPtr outFrame (start + unat off) (unat cnt);
                              let off = off + cnt;
                              let outFrame = outFrame\<lparr>
                                payloadAndDstAddrOff := payloadAndDstAddrOff outFrame OR push_bit 3 off,
                                frameFlags := outFlags\<rparr>;
                              b1 \<leftarrow> frame_get inFrame 1;
                              outFrame \<leftarrow> frame_put outFrame 1 b1;
                              b2 \<leftarrow> frame_get inFrame 2;
                              outFrame \<leftarrow> frame_put outFrame 2 (drop_bit 4 b2 OR push_bit 4 b2);
                              Some (outFrame, WHIP6_NO_ERROR) } } })"

section \<open>Matching the destination\<close>

definition whip6_ieee154DFrameInfoCheckIfDestinationMatches ::
  "ieee154_dframe_info \<Rightarrow> ieee154_pan_id option \<Rightarrow> u8 list option \<Rightarrow> u8 list option \<Rightarrow> bool option" where
  "whip6_ieee154DFrameInfoCheckIfDestinationMatches frame panIdPtrOrNull shrtAddrPtrOrNull extAddrPtrOrNull =
     do { let dstMode = whip6_ieee154DFrameGetModeDstAddr frame;
          let dstOff = whip6_ieee154DFrameGetOffsetDstAddr frame;
          panOk \<leftarrow>
            (case panIdPtrOrNull of
               None \<Rightarrow> Some True
             | Some panId \<Rightarrow>
                 do { let off = unat IEEE154_DFRAME_INITIAL_OFFSET;
                      a0 \<leftarrow> frame_get frame off; b0 \<leftarrow> buf_get panId 0;
                      a1 \<leftarrow> frame_get frame (Suc off); b1 \<leftarrow> buf_get panId 1;
                      Some (((a0 - b0) OR (a1 - b1)) = 0) });
          if \<not> panOk then Some False
          else if dstMode = IEEE154_ADDR_MODE_SHORT then
            do { a0 \<leftarrow> frame_get frame dstOff; a1 \<leftarrow> frame_get frame (Suc dstOff);
                 if ((a0 - 0xff) OR (a1 - 0xff)) = 0 then Some True
                 else case shrtAddrPtrOrNull of
                   None \<Rightarrow> Some False
                 | Some shrt \<Rightarrow>
                     do { b0 \<leftarrow> buf_get shrt 0; b1 \<leftarrow> buf_get shrt 1;
                          Some (((a0 - b0) OR (a1 - b1)) = 0) } }
          else if dstMode = IEEE154_ADDR_MODE_EXT then
            (case extAddrPtrOrNull of
               None \<Rightarrow> Some False
             | Some ext \<Rightarrow>
                 do { r \<leftarrow> whip6_shortMemCmp (bufferPtr frame) dstOff ext 0 IEEE154_EXT_ADDR_BYTE_LENGTH;
                      Some (r = 0) })
          else Some False }"

definition whip6_ieee154DFrameInfoCheckIfDestinationIsBroadcast ::
  "ieee154_dframe_info \<Rightarrow> bool option" where
  "whip6_ieee154DFrameInfoCheckIfDestinationIsBroadcast frame =
     (if whip6_ieee154DFrameGetModeDstAddr frame \<noteq> IEEE154_ADDR_MODE_SHORT then Some False
      else do { let off = whip6_ieee154DFrameGetOffsetDstAddr frame;
                a0 \<leftarrow> frame_get frame off; a1 \<leftarrow> frame_get frame (Suc off);
                Some (((a0 - 0xff) OR (a1 - 0xff)) = 0) })"

section \<open>Layout\<close>

definition fr_srcpan :: "u8 \<Rightarrow> nat" where
  "fr_srcpan dm = 6 + addr_len dm"

definition fr_src :: "u8 \<Rightarrow> bool \<Rightarrow> nat" where
  "fr_src dm ip = fr_srcpan dm + (if ip then 2 else 0)"

definition fr_pay :: "u8 \<Rightarrow> u8 \<Rightarrow> bool \<Rightarrow> nat" where
  "fr_pay dm sm ip = fr_src dm ip + addr_len sm"

definition fr_flags :: "u8 \<Rightarrow> u8 \<Rightarrow> bool \<Rightarrow> u8" where
  "fr_flags dm sm ip = dm OR push_bit 2 sm OR (if ip then 16 else 0)"

definition addr_mode_ok :: "u8 \<Rightarrow> bool" where
  "addr_mode_ok m \<longleftrightarrow> m = 2 \<or> m = 3"

definition frame_layout :: "u8 \<Rightarrow> u8 \<Rightarrow> bool \<Rightarrow> ieee154_dframe_info \<Rightarrow> bool" where
  "frame_layout dm sm ip f \<longleftrightarrow>
     addr_mode_ok dm \<and> addr_mode_ok sm \<and> frameFlags f = fr_flags dm sm ip \<and>
     payloadAndDstAddrOff f = of_nat (8 * (fr_pay dm sm ip - 4) + 2) \<and>
     srcPanAndAddrOff f = of_nat (16 * (fr_srcpan dm - 4) + (fr_src dm ip - 4))"

lemmas fr_defs = fr_srcpan_def fr_src_def fr_pay_def fr_flags_def addr_len_def frame_constants

lemma addr_mode_cases:
  assumes "addr_mode_ok m"
  obtains "m = 2" | "m = 3"
  using assms by (auto simp: addr_mode_ok_def)

lemma frame_layout_offsets:
  assumes "frame_layout dm sm ip f"
  shows "whip6_ieee154DFrameGetModeDstAddr f = dm" "whip6_ieee154DFrameGetModeSrcAddr f = sm"
    "whip6_ieee154DFrameIsInterPan f = ip" "whip6_ieee154DFrameGetOffsetDstPanId f = 4"
    "whip6_ieee154DFrameGetOffsetDstAddr f = 6" "whip6_ieee154DFrameGetOffsetSrcPanId f = fr_srcpan dm"
    "whip6_ieee154DFrameGetOffsetSrcAddr f = fr_src dm ip"
    "whip6_ieee154DFrameUnsafeGetPayloadPtr f = fr_pay dm sm ip"
    "unat (drop_bit 3 (payloadAndDstAddrOff f)) = fr_pay dm sm ip - 4"
  using assms unfolding frame_layout_def
  by (auto elim!: addr_mode_cases
      simp: whip6_ieee154DFrameGetModeDstAddr_def whip6_ieee154DFrameGetModeSrcAddr_def
        whip6_ieee154DFrameIsInterPan_def whip6_ieee154DFrameGetOffsetDstPanId_def
        whip6_ieee154DFrameGetOffsetDstAddr_def whip6_ieee154DFrameGetOffsetSrcPanId_def
        whip6_ieee154DFrameGetOffsetSrcAddr_def whip6_ieee154DFrameUnsafeGetPayloadPtr_def fr_defs)

lemma frame_layout_buffer [simp]: "frame_layout dm sm ip (f\<lparr>bufferPtr := b\<rparr>) = frame_layout dm sm ip f"
  by (simp add: frame_layout_def)

lemma frame_layout_modes:
  "frame_layout dm sm ip f \<Longrightarrow> addr_mode_ok dm" "frame_layout dm sm ip f \<Longrightarrow> addr_mode_ok sm"
  by (simp_all add: frame_layout_def)

lemma fr_bounds:
  assumes "addr_mode_ok dm" "addr_mode_ok sm"
  shows "6 + addr_len dm = fr_srcpan dm" "fr_srcpan dm + (if ip then 2 else 0) = fr_src dm ip"
    "fr_src dm ip + addr_len sm = fr_pay dm sm ip" "fr_pay dm sm ip \<le> 24" "10 \<le> fr_pay dm sm ip"
    "fr_srcpan dm \<le> fr_src dm ip" "8 \<le> fr_srcpan dm" "addr_len dm \<le> 8" "addr_len sm \<le> 8"
    "fr_src dm ip \<le> fr_pay dm sm ip"
  using assms by (auto elim!: addr_mode_cases simp: fr_defs)

definition frame_fits :: "u8 \<Rightarrow> u8 \<Rightarrow> bool \<Rightarrow> ieee154_dframe_info \<Rightarrow> bool" where
  "frame_fits dm sm ip f \<longleftrightarrow> frame_layout dm sm ip f \<and> fr_pay dm sm ip \<le> unat (bufferLen f) \<and>
     unat (bufferLen f) \<le> length (bufferPtr f)"

lemma frame_fits_buffer [simp]:
  "length b = length (bufferPtr f) \<Longrightarrow> frame_fits dm sm ip (f\<lparr>bufferPtr := b\<rparr>) = frame_fits dm sm ip f"
  by (simp add: frame_fits_def)

subsection \<open>Writing the fields\<close>

text \<open>The fields as ranges of the buffer, and each writer as one write.\<close>

definition frame_blit :: "nat \<Rightarrow> u8 list \<Rightarrow> ieee154_dframe_info \<Rightarrow> ieee154_dframe_info" where
  "frame_blit off bs f = f\<lparr>bufferPtr := mem_blit (bufferPtr f) off bs\<rparr>"

lemma frame_blit_fields [simp]:
  "bufferLen (frame_blit off bs f) = bufferLen f" "frameFlags (frame_blit off bs f) = frameFlags f"
  "payloadAndDstAddrOff (frame_blit off bs f) = payloadAndDstAddrOff f"
  "srcPanAndAddrOff (frame_blit off bs f) = srcPanAndAddrOff f"
  "bufferPtr (frame_blit off bs f) = mem_blit (bufferPtr f) off bs"
  by (simp_all add: frame_blit_def)

lemma frame_blit_fits [simp]:
  "off + length bs \<le> length (bufferPtr f) \<Longrightarrow>
   frame_fits dm sm ip (frame_blit off bs f) = frame_fits dm sm ip f"
  by (simp add: frame_fits_def frame_layout_def)

lemma two_bytes_blit:
  "Suc i < length m \<Longrightarrow> m[i := a, Suc i := b] = mem_blit m i [a, b]"
  using mem_blit_update [of i "[b]" m a] mem_blit_update [of "Suc i" "[]" "m[i := a]" b] by simp

lemma one_byte_blit: "i < length m \<Longrightarrow> m[i := a] = mem_blit m i [a]"
  using mem_blit_update [of i "[]" m a] by simp

lemma pan_two: "length pan = 2 \<Longrightarrow> [pan ! 0, pan ! Suc 0] = pan"
  by (cases pan; cases "tl pan") auto

lemma frame_fits_bounds:
  assumes "frame_fits dm sm ip f"
  shows "10 \<le> length (bufferPtr f)" "6 + addr_len dm \<le> length (bufferPtr f)"
    "fr_src dm ip + addr_len sm \<le> length (bufferPtr f)"
    "ip \<Longrightarrow> fr_srcpan dm + 2 \<le> length (bufferPtr f)"
    "fr_src dm ip \<le> length (bufferPtr f)" "fr_srcpan dm \<le> length (bufferPtr f)"
proof -
  have m: "addr_mode_ok dm" "addr_mode_ok sm" and l: "fr_pay dm sm ip \<le> length (bufferPtr f)"
    using assms by (auto simp: frame_fits_def frame_layout_def)
  show "10 \<le> length (bufferPtr f)" "6 + addr_len dm \<le> length (bufferPtr f)"
    "fr_src dm ip + addr_len sm \<le> length (bufferPtr f)"
    "ip \<Longrightarrow> fr_srcpan dm + 2 \<le> length (bufferPtr f)"
    "fr_src dm ip \<le> length (bufferPtr f)" "fr_srcpan dm \<le> length (bufferPtr f)"
    using l m by (auto simp: fr_pay_def fr_src_def fr_srcpan_def addr_len_def frame_constants
        elim!: addr_mode_cases)
qed

lemma frame_writers:
  assumes f: "frame_fits dm sm ip f"
  shows "length (addrVars a) = 8 \<Longrightarrow> whip6_ieee154DFrameSetSrcAddr f a =
      Some (frame_blit (fr_src dm ip) (take (addr_len sm) (addrVars a)) f)"
    and "length (addrVars a) = 8 \<Longrightarrow> whip6_ieee154DFrameSetDstAddr f a =
      Some (frame_blit 6 (take (addr_len dm) (addrVars a)) f)"
    and "length pan = 2 \<Longrightarrow> whip6_ieee154DFrameSetDstPanId f pan = Some (frame_blit 4 pan f)"
    and "length pan = 2 \<Longrightarrow> ip \<Longrightarrow> whip6_ieee154DFrameSetSrcPanId f pan = Some (frame_blit (fr_srcpan dm) pan f)"
    and "whip6_ieee154DFrameSetSeqNo f w = Some (frame_blit 3 [w] f)"
proof -
  have lay: "frame_layout dm sm ip f" using f by (simp add: frame_fits_def)
  note off = frame_layout_offsets [OF lay] and m = frame_layout_modes [OF lay]
  note b = frame_fits_bounds [OF f]
  show "length (addrVars a) = 8 \<Longrightarrow> whip6_ieee154DFrameSetSrcAddr f a =
      Some (frame_blit (fr_src dm ip) (take (addr_len sm) (addrVars a)) f)"
    using m(2) b
    by (auto elim!: addr_mode_cases
        simp: whip6_ieee154DFrameSetSrcAddr_def off whip6_ieee154AddrShortCpy_def
          whip6_ieee154AddrExtCpy_def shortMemCpy_eq frame_constants addr_len_def frame_blit_def)
  show "length (addrVars a) = 8 \<Longrightarrow> whip6_ieee154DFrameSetDstAddr f a =
      Some (frame_blit 6 (take (addr_len dm) (addrVars a)) f)"
    using m(1) b
    by (auto elim!: addr_mode_cases
        simp: whip6_ieee154DFrameSetDstAddr_def off whip6_ieee154AddrShortCpy_def
          whip6_ieee154AddrExtCpy_def shortMemCpy_eq frame_constants addr_len_def frame_blit_def)
  show "length pan = 2 \<Longrightarrow> whip6_ieee154DFrameSetDstPanId f pan = Some (frame_blit 4 pan f)"
    using b
      two_bytes_blit [of 4 "bufferPtr f" "pan ! 0" "pan ! Suc 0"]
    by (simp add: whip6_ieee154DFrameSetDstPanId_def off frame_put_def frame_blit_def pan_two)
  show "length pan = 2 \<Longrightarrow> ip \<Longrightarrow> whip6_ieee154DFrameSetSrcPanId f pan =
      Some (frame_blit (fr_srcpan dm) pan f)"
    using b
    by (simp add: whip6_ieee154DFrameSetSrcPanId_def off frame_put_def frame_blit_def two_bytes_blit
        pan_two)
  show "whip6_ieee154DFrameSetSeqNo f w = Some (frame_blit 3 [w] f)"
    using b
    by (simp add: whip6_ieee154DFrameSetSeqNo_def frame_put_def frame_blit_def one_byte_blit)
qed

lemma frame_readers:
  assumes f: "frame_fits dm sm ip f"
  shows "length (addrVars a) = 8 \<Longrightarrow> whip6_ieee154DFrameGetSrcAddr f a =
      Some \<lparr>addrMode = sm, addrVars = mem_blit (addrVars a) 0 (mem_range (bufferPtr f) (fr_src dm ip) (addr_len sm))\<rparr>"
    and "length (addrVars a) = 8 \<Longrightarrow> whip6_ieee154DFrameGetDstAddr f a =
      Some \<lparr>addrMode = dm, addrVars = mem_blit (addrVars a) 0 (mem_range (bufferPtr f) 6 (addr_len dm))\<rparr>"
    and "length pan = 2 \<Longrightarrow> whip6_ieee154DFrameGetDstPanId f pan = Some (mem_range (bufferPtr f) 4 2)"
    and "length pan = 2 \<Longrightarrow> ip \<Longrightarrow> whip6_ieee154DFrameGetSrcPanId f pan =
      Some (mem_range (bufferPtr f) (fr_srcpan dm) 2)"
proof -
  have lay: "frame_layout dm sm ip f" using f by (simp add: frame_fits_def)
  note off = frame_layout_offsets [OF lay] and m = frame_layout_modes [OF lay]
  note b = frame_fits_bounds [OF f]
  have two: "length pan = 2 \<Longrightarrow> Suc i < length (bufferPtr f) \<Longrightarrow>
      pan[0 := bufferPtr f ! i, Suc 0 := bufferPtr f ! Suc i] = mem_range (bufferPtr f) i 2" for i
    by (cases pan; cases "tl pan") (auto simp: mem_range_def numeral_2_eq_2 take_Suc_conv_app_nth
        Cons_nth_drop_Suc [symmetric])
  show "length (addrVars a) = 8 \<Longrightarrow> whip6_ieee154DFrameGetSrcAddr f a =
      Some \<lparr>addrMode = sm, addrVars = mem_blit (addrVars a) 0 (mem_range (bufferPtr f) (fr_src dm ip) (addr_len sm))\<rparr>"
    using m(2) b
    by (auto elim!: addr_mode_cases
        simp: whip6_ieee154DFrameGetSrcAddr_def off whip6_ieee154AddrShortCpy_def
          whip6_ieee154AddrExtCpy_def shortMemCpy_range frame_constants addr_len_def Let_def)
  show "length (addrVars a) = 8 \<Longrightarrow> whip6_ieee154DFrameGetDstAddr f a =
      Some \<lparr>addrMode = dm, addrVars = mem_blit (addrVars a) 0 (mem_range (bufferPtr f) 6 (addr_len dm))\<rparr>"
    using m(1) b
    by (auto elim!: addr_mode_cases
        simp: whip6_ieee154DFrameGetDstAddr_def off whip6_ieee154AddrShortCpy_def
          whip6_ieee154AddrExtCpy_def shortMemCpy_range frame_constants addr_len_def Let_def)
  show "length pan = 2 \<Longrightarrow> whip6_ieee154DFrameGetDstPanId f pan = Some (mem_range (bufferPtr f) 4 2)"
    using b two [of 4]
    by (simp add: whip6_ieee154DFrameGetDstPanId_def off frame_get_def)
  show "length pan = 2 \<Longrightarrow> ip \<Longrightarrow> whip6_ieee154DFrameGetSrcPanId f pan =
      Some (mem_range (bufferPtr f) (fr_srcpan dm) 2)"
    using b two [of "fr_srcpan dm"]
    by (simp add: whip6_ieee154DFrameGetSrcPanId_def off frame_get_def)
qed

subsection \<open>Construction\<close>

definition fcf1 :: "bool \<Rightarrow> u8" where
  "fcf1 ip = (if ip then 1 else 0x41)"

definition fcf2 :: "u8 \<Rightarrow> u8 \<Rightarrow> u8" where
  "fcf2 dm sm = push_bit 2 dm OR push_bit 6 sm"

definition fr_info :: "u8 \<Rightarrow> u8 \<Rightarrow> bool \<Rightarrow> u8 list \<Rightarrow> u8 \<Rightarrow> ieee154_dframe_info" where
  "fr_info dm sm ip buf len =
     \<lparr>bufferPtr = buf, bufferLen = len, frameFlags = fr_flags dm sm ip,
      payloadAndDstAddrOff = of_nat (8 * (fr_pay dm sm ip - 4) + 2),
      srcPanAndAddrOff = of_nat (16 * (fr_srcpan dm - 4) + (fr_src dm ip - 4))\<rparr>"

lemma fr_info_layout: "addr_mode_ok dm \<Longrightarrow> addr_mode_ok sm \<Longrightarrow> frame_layout dm sm ip (fr_info dm sm ip buf len)"
  by (simp add: frame_layout_def fr_info_def)

lemma fr_info_of_layout:
  "frame_layout dm sm ip f \<Longrightarrow> f = fr_info dm sm ip (bufferPtr f) (bufferLen f)"
  by (simp add: frame_layout_def fr_info_def)

lemma InfoNew_ok:
  assumes "addr_mode_ok dm" "addr_mode_ok sm" "6 \<le> unat len"
  shows "fr_pay dm sm ip \<le> unat len \<Longrightarrow>
      whip6_ieee154DFrameInfoNew f (x0 # x1 # x2 # buf) len (fr_flags dm sm ip) =
        Some (fr_info dm sm ip (of_nat (fr_pay dm sm ip - 1) # fcf1 ip # fcf2 dm sm # buf) len, WHIP6_NO_ERROR)"
    and "unat len < fr_pay dm sm ip \<Longrightarrow>
      \<exists>f'. whip6_ieee154DFrameInfoNew f (x0 # x1 # x2 # buf) len (fr_flags dm sm ip) = Some (f', WHIP6_SIZE_ERROR)"
proof -
  have l: "\<not> len < 6" using assms(3) by (simp add: word_less_nat_alt)
  show "fr_pay dm sm ip \<le> unat len \<Longrightarrow>
      whip6_ieee154DFrameInfoNew f (x0 # x1 # x2 # buf) len (fr_flags dm sm ip) =
        Some (fr_info dm sm ip (of_nat (fr_pay dm sm ip - 1) # fcf1 ip # fcf2 dm sm # buf) len, WHIP6_NO_ERROR)"
    using assms(1,2) l
    by (elim addr_mode_cases; cases ip)
      (simp_all add: whip6_ieee154DFrameInfoNew_def fr_info_def fr_defs fcf1_def fcf2_def frame_put_def
        frame_get_def buf_put_def buf_get_def)
  show "unat len < fr_pay dm sm ip \<Longrightarrow>
      \<exists>f'. whip6_ieee154DFrameInfoNew f (x0 # x1 # x2 # buf) len (fr_flags dm sm ip) = Some (f', WHIP6_SIZE_ERROR)"
    using assms(1,2) l
    by (elim addr_mode_cases; cases ip)
      (simp_all add: whip6_ieee154DFrameInfoNew_def fr_info_def fr_defs fcf1_def fcf2_def frame_put_def
        frame_get_def buf_put_def buf_get_def)
qed

lemma Existing_ok:
  assumes "addr_mode_ok dm" "addr_mode_ok sm" "6 \<le> unat len" "fr_pay dm sm ip - 1 \<le> unat b0"
  shows "whip6_ieee154DFrameInfoExisting f (b0 # fcf1 ip # fcf2 dm sm # buf) len =
    Some (fr_info dm sm ip (b0 # fcf1 ip # fcf2 dm sm # buf) len, WHIP6_NO_ERROR)"
proof -
  have l: "\<not> len < 6" using assms(3) by (simp add: word_less_nat_alt)
  show ?thesis
    using assms(1,2,4) l
    by (elim addr_mode_cases; cases ip)
      (simp_all add: whip6_ieee154DFrameInfoExisting_def fr_info_def fr_defs fcf1_def fcf2_def frame_put_def
        frame_get_def buf_put_def buf_get_def word_less_nat_alt)
qed

text \<open>Whatever the bytes of the buffer are, a frame that is accepted has a layout.\<close>

lemma Existing_layout:
  assumes "whip6_ieee154DFrameInfoExisting f buf len = Some (f', WHIP6_NO_ERROR)"
  shows "\<exists>dm sm ip. frame_layout dm sm ip f' \<and> bufferPtr f' = buf \<and> bufferLen f' = len \<and> 6 \<le> unat len \<and>
    3 \<le> length buf \<and> fr_pay dm sm ip - 1 \<le> unat (buf ! 0)"
proof -
  have b: "6 \<le> unat len" "buf_get buf 1 \<noteq> None" "buf_get buf 2 \<noteq> None"
    using assms by (auto simp: whip6_ieee154DFrameInfoExisting_def frame_constants word_less_nat_alt Let_def
        bind_eq_Some_conv split: if_splits)
  then have "3 \<le> length buf" by (auto simp: buf_get_def split: if_splits)
  then obtain x0 x1 x2 rest where buf: "buf = x0 # x1 # x2 # rest"
    by (auto simp: Suc_le_length_iff numeral_3_eq_3)
  let ?dm = "drop_bit 2 x2 AND 3" and ?sm = "drop_bit 6 x2 AND 3" and ?ip = "(x1 AND 0x40) = 0"
  have m: "addr_mode_ok ?dm" "addr_mode_ok ?sm"
    using assms b(1) by (auto simp: whip6_ieee154DFrameInfoExisting_def frame_constants Let_def buf
        buf_get_def word_less_nat_alt addr_mode_ok_def split: if_splits)
  have "frame_layout ?dm ?sm ?ip f' \<and> bufferPtr f' = buf \<and> bufferLen f' = len \<and>
      fr_pay ?dm ?sm ?ip - 1 \<le> unat x0"
    using assms b(1) m
    by (elim addr_mode_cases; cases ?ip)
      (auto simp: whip6_ieee154DFrameInfoExisting_def frame_layout_def fr_defs addr_mode_ok_def Let_def buf
        buf_get_def word_less_nat_alt split: if_splits)
  with b(1) show ?thesis unfolding buf by auto
qed

definition frame_holds ::
  "ieee154_addr \<Rightarrow> ieee154_addr \<Rightarrow> ieee154_pan_id \<Rightarrow> ieee154_pan_id option \<Rightarrow> ieee154_dframe_info \<Rightarrow> bool" where
  "frame_holds dst src dstPan srcPan f \<longleftrightarrow>
     frame_fits (addrMode dst) (addrMode src) (srcPan \<noteq> None) f \<and>
     mem_range (bufferPtr f) 4 2 = dstPan \<and>
     mem_range (bufferPtr f) 6 (addr_len (addrMode dst)) = addr_bytes dst \<and>
     (case srcPan of None \<Rightarrow> True
      | Some p \<Rightarrow> mem_range (bufferPtr f) (fr_srcpan (addrMode dst)) 2 = p) \<and>
     mem_range (bufferPtr f) (fr_src (addrMode dst) (srcPan \<noteq> None)) (addr_len (addrMode src)) = addr_bytes src"

lemma fr_flags_of_modes:
  "addr_mode_ok dm \<Longrightarrow> addr_mode_ok sm \<Longrightarrow>
   (dm AND IEEE154_ADDR_MODE_MASK) OR push_bit 2 (sm AND IEEE154_ADDR_MODE_MASK) OR
     (if ip then IEEE154_DFRAME_INFO_FLAG_INTER_PAN else 0) = fr_flags dm sm ip"
  by (auto elim!: addr_mode_cases simp: fr_defs)

lemma Reinitialize_ok:
  assumes "addr_ok dst" "addr_ok src" "addr_mode_ok (addrMode dst)" "addr_mode_ok (addrMode src)"
    and "length dstPan = 2" "\<And>p. srcPan = Some p \<Longrightarrow> length p = 2"
    and "fr_pay (addrMode dst) (addrMode src) (srcPan \<noteq> None) \<le> unat (bufferLen f)"
    and "unat (bufferLen f) \<le> length (bufferPtr f)"
  shows "\<exists>f'. whip6_ieee154DFrameInfoReinitializeFrameForAddresses f dst src dstPan srcPan =
      Some (f', WHIP6_NO_ERROR) \<and>
    frame_holds dst src dstPan srcPan f' \<and> bufferLen f' = bufferLen f \<and>
    length (bufferPtr f') = length (bufferPtr f) \<and>
    (\<exists>rest. bufferPtr f' = of_nat (fr_pay (addrMode dst) (addrMode src) (srcPan \<noteq> None) - 1) #
        fcf1 (srcPan \<noteq> None) # fcf2 (addrMode dst) (addrMode src) # 0 # rest)"
proof -
  define dm where "dm = addrMode dst"
  define sm where "sm = addrMode src"
  define ip where "ip = (srcPan \<noteq> None)"
  let ?len = "bufferLen f"
  note m = assms(3,4) [folded dm_def sm_def]
  note b = fr_bounds [OF m]
  have pay: "fr_pay dm sm ip \<le> unat ?len" "unat ?len \<le> length (bufferPtr f)"
    using assms(7,8) by (simp_all add: dm_def sm_def ip_def)
  have "10 \<le> unat ?len" using b(5) [of ip] pay by linarith
  then have len: "6 \<le> unat ?len" "10 \<le> length (bufferPtr f)" using pay by linarith+
  then have "Suc (Suc (Suc 0)) \<le> length (bufferPtr f)" by linarith
  then obtain x0 x1 x2 rest where buf: "bufferPtr f = x0 # x1 # x2 # rest"
    by (auto simp: Suc_le_length_iff)
  define f0 where "f0 = fr_info dm sm ip (of_nat (fr_pay dm sm ip - 1) # fcf1 ip # fcf2 dm sm # rest) ?len"
  define f1 where "f1 = frame_blit 3 [0] f0"
  define f2 where "f2 = frame_blit (fr_src dm ip) (addr_bytes src) f1"
  define f3 where "f3 = frame_blit 6 (addr_bytes dst) f2"
  define f4 where "f4 = frame_blit 4 dstPan f3"
  define f5 where "f5 = (if ip then frame_blit (fr_srcpan dm) (the srcPan) f4 else f4)"
  have new: "whip6_ieee154DFrameInfoNew f (bufferPtr f) ?len (fr_flags dm sm ip) = Some (f0, WHIP6_NO_ERROR)"
    unfolding buf f0_def by (rule InfoNew_ok(1) [OF m len(1) pay(1)])
  have l0: "length (bufferPtr f0) = length (bufferPtr f)" by (simp add: f0_def fr_info_def buf)
  have fit0: "frame_fits dm sm ip f0"
    using pay l0 fr_info_layout [OF m] by (simp add: frame_fits_def f0_def fr_info_def)
  note bnd = frame_fits_bounds [OF fit0, unfolded l0]
  have ad: "length (addr_bytes dst) = addr_len dm" "length (addr_bytes src) = addr_len sm"
    using assms(1,2) b(8,9) by (simp_all add: addr_bytes_def addr_ok_def dm_def sm_def)
  have sp: "ip \<Longrightarrow> length (the srcPan) = 2" using assms(6) by (auto simp: ip_def)
  have l1: "length (bufferPtr f1) = length (bufferPtr f)" using l0 bnd(1) by (simp add: f1_def)
  have l2: "length (bufferPtr f2) = length (bufferPtr f)" using l1 bnd(3) by (simp add: f2_def ad)
  have l3: "length (bufferPtr f3) = length (bufferPtr f)" using l2 bnd(2) by (simp add: f3_def ad)
  have l4: "length (bufferPtr f4) = length (bufferPtr f)" using l3 bnd(1) assms(5) by (simp add: f4_def)
  have l5: "length (bufferPtr f5) = length (bufferPtr f)" using l4 bnd(4) sp by (simp add: f5_def)
  have fit1: "frame_fits dm sm ip f1" using fit0 l0 bnd(1) by (simp add: f1_def)
  have fit2: "frame_fits dm sm ip f2" using fit1 l1 bnd(3) by (simp add: f2_def ad)
  have fit3: "frame_fits dm sm ip f3" using fit2 l2 bnd(2) by (simp add: f3_def ad)
  have fit4: "frame_fits dm sm ip f4" using fit3 l3 bnd(1) assms(5) by (simp add: f4_def)
  have fit5: "frame_fits dm sm ip f5" using fit4 l4 bnd(4) sp by (cases ip) (simp_all add: f5_def)
  note fit = fit1 fit2 fit3 fit4 fit5
  have s1: "whip6_ieee154DFrameSetSeqNo f0 0 = Some f1"
    unfolding f1_def by (rule frame_writers(5) [OF fit0])
  have s2: "whip6_ieee154DFrameSetSrcAddr f1 src = Some f2"
    using frame_writers(1) [OF fit(1), of src] assms(2) by (simp add: f2_def addr_bytes_def sm_def addr_ok_def)
  have s3: "whip6_ieee154DFrameSetDstAddr f2 dst = Some f3"
    using frame_writers(2) [OF fit(2), of dst] assms(1) by (simp add: f3_def addr_bytes_def dm_def addr_ok_def)
  have s4: "whip6_ieee154DFrameSetDstPanId f3 dstPan = Some f4"
    unfolding f4_def by (rule frame_writers(3) [OF fit(3) assms(5)])
  have ips: "whip6_ieee154DFrameIsInterPan f4 = ip"
    using fit(4) by (auto simp: frame_fits_def dest: frame_layout_offsets(3))
  have s5: "(if ip then (case srcPan of None \<Rightarrow> None | Some p \<Rightarrow> whip6_ieee154DFrameSetSrcPanId f4 p)
      else Some f4) = Some f5"
    using frame_writers(4) [OF fit(4)] sp by (auto simp: f5_def ip_def)
  have res: "whip6_ieee154DFrameInfoReinitializeFrameForAddresses f dst src dstPan srcPan = Some (f5, WHIP6_NO_ERROR)"
  proof -
    have "\<not> (bufferPtr f = [] \<or> ?len = 0)" using len by auto
    moreover have "(addrMode dst AND IEEE154_ADDR_MODE_MASK) OR push_bit 2 (addrMode src AND IEEE154_ADDR_MODE_MASK) OR
        (if srcPan \<noteq> None then IEEE154_DFRAME_INFO_FLAG_INTER_PAN else 0) = fr_flags dm sm ip"
      unfolding ip_def using fr_flags_of_modes [OF m, of "srcPan \<noteq> None"] by (simp only: dm_def sm_def)
    ultimately show ?thesis
      by (simp only: whip6_ieee154DFrameInfoReinitializeFrameForAddresses_def if_False Let_def new s1 s2 s3 s4
          bind.bind_lunit prod.case simp_thms ips s5)
  qed
  let ?B = "\<lambda>f. bufferPtr f"
  have srcpan: "6 + addr_len dm = fr_srcpan dm" "fr_srcpan dm \<le> fr_src dm ip" "ip \<Longrightarrow> fr_srcpan dm + 2 = fr_src dm ip"
    "8 \<le> fr_srcpan dm"
    using b(1,6,7) b(2) [of ip] by auto
  have keep5: "i + n \<le> length (?B f) \<Longrightarrow> i + n \<le> fr_srcpan dm \<or> fr_src dm ip \<le> i \<Longrightarrow>
      mem_range (?B f5) i n = mem_range (?B f4) i n" for i n
    using mem_range_blit_other [of "fr_srcpan dm" "the srcPan" "?B f4" i n] l4 sp bnd(4) srcpan(3)
    by (auto simp: f5_def)
  have keep4: "i + n \<le> length (?B f) \<Longrightarrow> i + n \<le> 4 \<or> 6 \<le> i \<Longrightarrow> mem_range (?B f4) i n = mem_range (?B f3) i n" for i n
    using mem_range_blit_other [of 4 dstPan "?B f3" i n] l3 bnd(1) assms(5) by (auto simp: f4_def)
  have keep3: "i + n \<le> length (?B f) \<Longrightarrow> i + n \<le> 6 \<or> fr_srcpan dm \<le> i \<Longrightarrow>
      mem_range (?B f3) i n = mem_range (?B f2) i n" for i n
    using mem_range_blit_other [of 6 "addr_bytes dst" "?B f2" i n] l2 bnd(2) srcpan(1) ad by (auto simp: f3_def)
  have keep2: "i + n \<le> length (?B f) \<Longrightarrow> i + n \<le> fr_src dm ip \<Longrightarrow> mem_range (?B f2) i n = mem_range (?B f1) i n" for i n
    using mem_range_blit_other [of "fr_src dm ip" "addr_bytes src" "?B f1" i n] l1 bnd(3) ad by (auto simp: f2_def)
  have r1: "mem_range (?B f5) 4 2 = dstPan"
    using keep5 [of 4 2] bnd(1) srcpan(4) assms(5) l3 by (simp add: f4_def)
  have r2: "mem_range (?B f5) 6 (addr_len dm) = addr_bytes dst"
    using keep5 [of 6 "addr_len dm"] keep4 [of 6 "addr_len dm"] bnd(2) srcpan(1) l2 ad by (simp add: f3_def)
  have r3: "mem_range (?B f5) (fr_src dm ip) (addr_len sm) = addr_bytes src"
  proof -
    have "6 \<le> fr_src dm ip" using srcpan by linarith
    then show ?thesis
      using keep5 [of "fr_src dm ip" "addr_len sm"] keep4 [of "fr_src dm ip" "addr_len sm"]
        keep3 [of "fr_src dm ip" "addr_len sm"] bnd(3) srcpan(2) l1 ad by (simp add: f2_def)
  qed
  have r4: "ip \<Longrightarrow> mem_range (?B f5) (fr_srcpan dm) 2 = the srcPan"
    using l4 sp bnd(4) by (simp add: f5_def)
  have hd4: "mem_range (?B f5) 0 4 = [of_nat (fr_pay dm sm ip - 1), fcf1 ip, fcf2 dm sm, 0]"
  proof -
    have "mem_range (?B f5) 0 4 = mem_range (?B f1) 0 4"
      using keep5 [of 0 4] keep4 [of 0 4] keep3 [of 0 4] keep2 [of 0 4] bnd(1) srcpan by simp
    moreover obtain x3 rest' where "rest = x3 # rest'" using len(2) buf by (cases rest) auto
    ultimately show ?thesis by (simp add: f1_def f0_def fr_info_def mem_blit_def mem_range_def numeral_eq_Suc)
  qed
  have "?B f5 = take 4 (?B f5) @ drop 4 (?B f5)" by simp
  with hd4 have "?B f5 = of_nat (fr_pay dm sm ip - 1) # fcf1 ip # fcf2 dm sm # 0 # drop 4 (?B f5)"
    by (simp add: mem_range_def)
  moreover have "frame_holds dst src dstPan srcPan f5"
    using fit5 r1 r2 r3 r4 by (auto simp: frame_holds_def dm_def sm_def ip_def split: option.splits)
  moreover have "bufferLen f5 = ?len"
    by (simp add: f5_def f4_def f3_def f2_def f1_def f0_def fr_info_def)
  ultimately show ?thesis using res l5 unfolding dm_def sm_def ip_def by blast
qed

subsection \<open>The payload\<close>

lemma unat_MaxPayloadLen:
  assumes "frame_fits dm sm ip f"
  shows "unat (whip6_ieee154DFrameMaxPayloadLen f) = unat (bufferLen f) - fr_pay dm sm ip"
    and "fr_pay dm sm ip + unat (whip6_ieee154DFrameMaxPayloadLen f) \<le> length (bufferPtr f)"
proof -
  have lay: "frame_layout dm sm ip f" and le: "fr_pay dm sm ip \<le> unat (bufferLen f)"
    and lb: "unat (bufferLen f) \<le> length (bufferPtr f)"
    using assms by (auto simp: frame_fits_def)
  note m = frame_layout_modes [OF lay]
  let ?o = "drop_bit 3 (payloadAndDstAddrOff f)"
  have o: "unat ?o = fr_pay dm sm ip - 4" by (rule frame_layout_offsets(9) [OF lay])
  have pay: "10 \<le> fr_pay dm sm ip" by (rule fr_bounds(5) [OF m])
  have "?o \<le> bufferLen f" using o le by (simp add: word_le_nat_alt)
  then have s1: "unat (bufferLen f - ?o) = unat (bufferLen f) - (fr_pay dm sm ip - 4)"
    by (simp add: unat_sub o)
  have "4 \<le> bufferLen f - ?o" using s1 le pay by (simp add: word_le_nat_alt)
  then have "unat (bufferLen f - ?o - 4) = unat (bufferLen f) - (fr_pay dm sm ip - 4) - 4"
    by (simp add: unat_sub s1)
  then show r: "unat (whip6_ieee154DFrameMaxPayloadLen f) = unat (bufferLen f) - fr_pay dm sm ip"
    using pay by (simp add: whip6_ieee154DFrameMaxPayloadLen_def frame_constants)
  show "fr_pay dm sm ip + unat (whip6_ieee154DFrameMaxPayloadLen f) \<le> length (bufferPtr f)"
    using r le lb by simp
qed

lemma payload_base:
  assumes "frame_layout dm sm ip f"
  shows "drop_bit 3 (payloadAndDstAddrOff f) + 3 = of_nat (fr_pay dm sm ip - 1)"
proof -
  note o = frame_layout_offsets(9) [OF assms] and m = frame_layout_modes [OF assms]
  have "fr_pay dm sm ip - 4 + 3 = fr_pay dm sm ip - 1" using fr_bounds(5) [OF m, of ip] by simp
  then have "of_nat (unat (drop_bit 3 (payloadAndDstAddrOff f)) + 3) = (of_nat (fr_pay dm sm ip - 1) :: u8)"
    unfolding o by (rule arg_cong)
  then show ?thesis by simp
qed

lemma GetPayloadLen_eq:
  assumes "frame_layout dm sm ip f" "bufferPtr f \<noteq> []"
  shows "whip6_ieee154DFrameGetPayloadLen f = Some (bufferPtr f ! 0 - of_nat (fr_pay dm sm ip - 1))"
proof -
  have "b - drop_bit 3 (payloadAndDstAddrOff f) - 3 = b - of_nat (fr_pay dm sm ip - 1)" for b
    using payload_base [OF assms(1)] by (simp only: diff_diff_eq)
  then show ?thesis using assms(2)
    by (simp add: whip6_ieee154DFrameGetPayloadLen_def frame_get_def frame_constants)
qed

lemma SetPayloadLen_eq:
  assumes "frame_fits dm sm ip f"
  shows "whip6_ieee154DFrameSetPayloadLen f len = Some (frame_blit 0 [len + of_nat (fr_pay dm sm ip - 1)] f)"
proof -
  have lay: "frame_layout dm sm ip f" using assms by (simp add: frame_fits_def)
  have "0 < length (bufferPtr f)" using frame_fits_bounds(1) [OF assms] by linarith
  then show ?thesis
    using payload_base [OF lay]
    by (simp add: whip6_ieee154DFrameSetPayloadLen_def frame_put_def frame_blit_def frame_constants
        one_byte_blit)
qed

text \<open>The length that is set is the length that is read.\<close>

lemma SetPayloadLen_Get:
  assumes "frame_fits dm sm ip f"
  shows "\<exists>f'. whip6_ieee154DFrameSetPayloadLen f len = Some f' \<and> frame_fits dm sm ip f' \<and>
    whip6_ieee154DFrameGetPayloadLen f' = Some len"
proof -
  let ?f = "frame_blit 0 [len + of_nat (fr_pay dm sm ip - 1)] f"
  have l: "0 < length (bufferPtr f)" using frame_fits_bounds(1) [OF assms] by linarith
  then have ft: "frame_fits dm sm ip ?f"
    by (intro frame_blit_fits [THEN iffD2] assms) (simp add: Suc_le_eq)
  have "bufferPtr ?f ! 0 = len + of_nat (fr_pay dm sm ip - 1)" using l by (simp add: mem_blit_def)
  moreover have "bufferPtr ?f \<noteq> []" by (simp add: mem_blit_def)
  ultimately have "whip6_ieee154DFrameGetPayloadLen ?f = Some len"
    using ft GetPayloadLen_eq [of dm sm ip ?f] by (simp add: frame_fits_def)
  then show ?thesis using SetPayloadLen_eq [OF assms] ft by blast
qed

end
