(* ===== verification/Lowpan_Headers.thy ===== *)
theory Lowpan_Headers
  imports Ieee154_Frame
begin

text \<open>
  The 6LoWPAN header stack of a frame: \<open>microc/include/6lowpan/uc6LoWPANHeaderTypes.h\<close>,
  \<open>uc6LoWPANHeaderManipulation.h\<close>, \<open>detail/uc6LoWPANHeaderManipulationImpl.h\<close> and
  \<open>microc/src/6lowpan/uc6LoWPANHeaderManipulation.c\<close>.

  A payload pointer is a buffer and the index \<open>p\<close> of the payload in it. Offsets are the
  \<open>uint8_t\<close> variables of the code; the comparisons are made after the promotion to \<open>int\<close>.
  \<open>mesh_bytes\<close>, \<open>bc0_bytes\<close>, \<open>frag_bytes\<close> give the wire format, which the packing routines
  produce and the unpacking routines invert.
\<close>

record lowpan_unpacked_header_mesh =
  hopLimit :: u8
  meshSrcAddr :: ieee154_addr
  meshDstAddr :: ieee154_addr

record lowpan_unpacked_header_bc0 =
  bc0SeqNo :: u8

record lowpan_unpacked_header_frag =
  fragTag :: u16
  fragSize :: u16
  fragOffset :: u16

record lowpan_unpacked_frame_headers =
  bitmap :: u8
  nextOffset :: u8
  hdrFrag :: lowpan_unpacked_header_frag
  hdrMesh :: lowpan_unpacked_header_mesh
  hdrBc0 :: lowpan_unpacked_header_bc0

section \<open>Dispatch values\<close>

definition LOWPAN_DISPATCH_PATTERN_IPV6 :: u8 where "LOWPAN_DISPATCH_PATTERN_IPV6 = 0x41"
definition LOWPAN_DISPATCH_MASK_IPV6 :: u8 where "LOWPAN_DISPATCH_MASK_IPV6 = 0xff"
definition LOWPAN_DISPATCH_PATTERN_LOWPAN_BC0 :: u8 where "LOWPAN_DISPATCH_PATTERN_LOWPAN_BC0 = 0x50"
definition LOWPAN_DISPATCH_MASK_LOWPAN_BC0 :: u8 where "LOWPAN_DISPATCH_MASK_LOWPAN_BC0 = 0xff"
definition LOWPAN_DISPATCH_PATTERN_LOWPAN_IPHC :: u8 where "LOWPAN_DISPATCH_PATTERN_LOWPAN_IPHC = 0x60"
definition LOWPAN_DISPATCH_MASK_LOWPAN_IPHC :: u8 where "LOWPAN_DISPATCH_MASK_LOWPAN_IPHC = 0xe0"
definition LOWPAN_DISPATCH_PATTERN_MESH :: u8 where "LOWPAN_DISPATCH_PATTERN_MESH = 0x80"
definition LOWPAN_DISPATCH_MASK_MESH :: u8 where "LOWPAN_DISPATCH_MASK_MESH = 0xc0"
definition LOWPAN_DISPATCH_PATTERN_FRAG1 :: u8 where "LOWPAN_DISPATCH_PATTERN_FRAG1 = 0xc0"
definition LOWPAN_DISPATCH_PATTERN_FRAGN :: u8 where "LOWPAN_DISPATCH_PATTERN_FRAGN = 0xe0"
definition LOWPAN_DISPATCH_MASK_FRAGN :: u8 where "LOWPAN_DISPATCH_MASK_FRAGN = 0xf8"
definition LOWPAN_DISPATCH_PATTERN_FRAGX :: u8 where "LOWPAN_DISPATCH_PATTERN_FRAGX = 0xc0"
definition LOWPAN_DISPATCH_MASK_FRAGX_UNMASKED :: u8 where "LOWPAN_DISPATCH_MASK_FRAGX_UNMASKED = 0xf8"
definition LOWPAN_DISPATCH_MASK_FRAGX :: u8 where
  "LOWPAN_DISPATCH_MASK_FRAGX = LOWPAN_DISPATCH_MASK_FRAGX_UNMASKED AND 0xdf"

definition LOWPAN_WHIP6_INTERNAL_FRAGX_HEADER_BIT :: u8 where
  "LOWPAN_WHIP6_INTERNAL_FRAGX_HEADER_BIT = push_bit 0 1"
definition LOWPAN_WHIP6_INTERNAL_MESH_HEADER_BIT :: u8 where
  "LOWPAN_WHIP6_INTERNAL_MESH_HEADER_BIT = push_bit 1 1"
definition LOWPAN_WHIP6_INTERNAL_BC0_HEADER_BIT :: u8 where
  "LOWPAN_WHIP6_INTERNAL_BC0_HEADER_BIT = push_bit 2 1"

lemmas lowpan_constants = LOWPAN_DISPATCH_PATTERN_IPV6_def LOWPAN_DISPATCH_MASK_IPV6_def
  LOWPAN_DISPATCH_PATTERN_LOWPAN_BC0_def LOWPAN_DISPATCH_MASK_LOWPAN_BC0_def
  LOWPAN_DISPATCH_PATTERN_LOWPAN_IPHC_def LOWPAN_DISPATCH_MASK_LOWPAN_IPHC_def
  LOWPAN_DISPATCH_PATTERN_MESH_def LOWPAN_DISPATCH_MASK_MESH_def LOWPAN_DISPATCH_PATTERN_FRAG1_def
  LOWPAN_DISPATCH_PATTERN_FRAGN_def LOWPAN_DISPATCH_MASK_FRAGN_def LOWPAN_DISPATCH_PATTERN_FRAGX_def
  LOWPAN_DISPATCH_MASK_FRAGX_UNMASKED_def LOWPAN_DISPATCH_MASK_FRAGX_def

lemmas lowpan_bits = LOWPAN_WHIP6_INTERNAL_FRAGX_HEADER_BIT_def
  LOWPAN_WHIP6_INTERNAL_MESH_HEADER_BIT_def LOWPAN_WHIP6_INTERNAL_BC0_HEADER_BIT_def

section \<open>Header structures\<close>

definition whip6_lowpanFrameHeadersHasMeshHeader :: "lowpan_unpacked_frame_headers \<Rightarrow> bool" where
  "whip6_lowpanFrameHeadersHasMeshHeader hdrs =
     ((bitmap hdrs AND LOWPAN_WHIP6_INTERNAL_MESH_HEADER_BIT) \<noteq> 0)"

definition whip6_lowpanFrameHeadersHasBc0Header :: "lowpan_unpacked_frame_headers \<Rightarrow> bool" where
  "whip6_lowpanFrameHeadersHasBc0Header hdrs =
     ((bitmap hdrs AND LOWPAN_WHIP6_INTERNAL_BC0_HEADER_BIT) \<noteq> 0)"

definition whip6_lowpanFrameHeadersHasFragHeader :: "lowpan_unpacked_frame_headers \<Rightarrow> bool" where
  "whip6_lowpanFrameHeadersHasFragHeader hdrs =
     ((bitmap hdrs AND LOWPAN_WHIP6_INTERNAL_FRAGX_HEADER_BIT) \<noteq> 0)"

definition whip6_lowpanFrameHeadersNew :: "lowpan_unpacked_frame_headers \<Rightarrow> lowpan_unpacked_frame_headers" where
  "whip6_lowpanFrameHeadersNew hdrs = hdrs\<lparr>bitmap := 0, nextOffset := 0\<rparr>"

definition whip6_lowpanFrameHeadersAddMeshHeader ::
  "lowpan_unpacked_frame_headers \<Rightarrow> u8 \<Rightarrow> ieee154_addr \<Rightarrow> ieee154_addr \<Rightarrow>
   lowpan_unpacked_frame_headers option" where
  "whip6_lowpanFrameHeadersAddMeshHeader hdrs hl srcAddr dstAddr =
     do { src \<leftarrow> whip6_ieee154AddrAnyCpy srcAddr (meshSrcAddr (hdrMesh hdrs));
          dst \<leftarrow> whip6_ieee154AddrAnyCpy dstAddr (meshDstAddr (hdrMesh hdrs));
          Some (hdrs\<lparr>bitmap := bitmap hdrs OR LOWPAN_WHIP6_INTERNAL_MESH_HEADER_BIT,
                     hdrMesh := \<lparr>hopLimit = hl, meshSrcAddr = src, meshDstAddr = dst\<rparr>\<rparr>) }"

definition whip6_lowpanFrameHeadersAddBc0Header ::
  "lowpan_unpacked_frame_headers \<Rightarrow> u8 \<Rightarrow> lowpan_unpacked_frame_headers" where
  "whip6_lowpanFrameHeadersAddBc0Header hdrs seqNo =
     hdrs\<lparr>bitmap := bitmap hdrs OR LOWPAN_WHIP6_INTERNAL_BC0_HEADER_BIT, hdrBc0 := \<lparr>bc0SeqNo = seqNo\<rparr>\<rparr>"

definition whip6_lowpanFrameHeadersAddFragHeader ::
  "lowpan_unpacked_frame_headers \<Rightarrow> u16 \<Rightarrow> u16 \<Rightarrow> u16 \<Rightarrow> lowpan_unpacked_frame_headers" where
  "whip6_lowpanFrameHeadersAddFragHeader hdrs tag sz off =
     hdrs\<lparr>bitmap := bitmap hdrs OR LOWPAN_WHIP6_INTERNAL_FRAGX_HEADER_BIT,
          hdrFrag := \<lparr>fragTag = tag, fragSize = sz, fragOffset = off\<rparr>\<rparr>"

section \<open>Unpacking\<close>

text \<open>
  The two addresses of a mesh header are parsed by the same lines; an inner \<open>None\<close> is the
  early return of zero.
\<close>

definition mesh_unpack_addr ::
  "bool \<Rightarrow> ieee154_addr \<Rightarrow> u8 list \<Rightarrow> nat \<Rightarrow> u8 \<Rightarrow> u8 \<Rightarrow> (ieee154_addr \<times> u8 option) option" where
  "mesh_unpack_addr ext addr buf p currentOffset payloadLen =
     (if ext then
        if unat currentOffset + unat IEEE154_EXT_ADDR_BYTE_LENGTH > unat payloadLen then Some (addr, None)
        else do { v \<leftarrow> whip6_ieee154AddrExtCpy buf (p + unat currentOffset) (addrVars addr) 0;
                  Some (\<lparr>addrMode = IEEE154_ADDR_MODE_EXT, addrVars = v\<rparr>,
                        Some (currentOffset + IEEE154_EXT_ADDR_BYTE_LENGTH)) }
      else
        if unat currentOffset + unat IEEE154_SHORT_ADDR_BYTE_LENGTH > unat payloadLen then Some (addr, None)
        else do { v \<leftarrow> whip6_ieee154AddrShortCpy buf (p + unat currentOffset) (addrVars addr) 0;
                  Some (\<lparr>addrMode = IEEE154_ADDR_MODE_SHORT, addrVars = v\<rparr>,
                        Some (currentOffset + IEEE154_SHORT_ADDR_BYTE_LENGTH)) })"

definition whip6_lowpanFrameHeadersUnpackMeshHdr ::
  "lowpan_unpacked_header_mesh \<Rightarrow> u8 list \<Rightarrow> nat \<Rightarrow> u8 \<Rightarrow> u8 \<Rightarrow>
   (lowpan_unpacked_header_mesh \<times> u8) option" where
  "whip6_lowpanFrameHeadersUnpackMeshHdr hdr buf p initialOffset payloadLen =
     do { dispatch \<leftarrow> buf_get buf (p + unat initialOffset);
          let currentOffset = initialOffset + 1;
          let hdr = hdr\<lparr>hopLimit := dispatch AND 0x0f\<rparr>;
          if hopLimit hdr = 0x0f \<and> currentOffset \<ge> payloadLen then Some (hdr, 0)
          else
            do { (hdr, currentOffset) \<leftarrow>
                   (if hopLimit hdr = 0x0f
                    then do { b \<leftarrow> buf_get buf (p + unat currentOffset);
                              Some (hdr\<lparr>hopLimit := b\<rparr>, currentOffset + 1) }
                    else Some (hdr, currentOffset));
                 (src, off) \<leftarrow> mesh_unpack_addr ((dispatch AND 0x20) \<noteq> 0) (meshSrcAddr hdr) buf p
                   currentOffset payloadLen;
                 let hdr = hdr\<lparr>meshSrcAddr := src\<rparr>;
                 case off of
                   None \<Rightarrow> Some (hdr, 0)
                 | Some currentOffset \<Rightarrow>
                     do { (dst, off) \<leftarrow> mesh_unpack_addr ((dispatch AND 0x10) \<noteq> 0) (meshDstAddr hdr) buf p
                            currentOffset payloadLen;
                          let hdr = hdr\<lparr>meshDstAddr := dst\<rparr>;
                          case off of
                            None \<Rightarrow> Some (hdr, 0)
                          | Some currentOffset \<Rightarrow> Some (hdr, currentOffset - initialOffset) } } }"

definition whip6_lowpanFrameHeadersUnpackBc0Hdr ::
  "lowpan_unpacked_header_bc0 \<Rightarrow> u8 list \<Rightarrow> nat \<Rightarrow> u8 \<Rightarrow> u8 \<Rightarrow>
   (lowpan_unpacked_header_bc0 \<times> u8) option" where
  "whip6_lowpanFrameHeadersUnpackBc0Hdr hdr buf p initialOffset payloadLen =
     (let initialOffset = initialOffset + 1
      in if initialOffset \<ge> payloadLen then Some (hdr, 0)
         else do { b \<leftarrow> buf_get buf (p + unat initialOffset);
                   Some (hdr\<lparr>bc0SeqNo := b\<rparr>, 2) })"

definition whip6_lowpanFrameHeadersUnpackFragxHdr ::
  "lowpan_unpacked_header_frag \<Rightarrow> u8 list \<Rightarrow> nat \<Rightarrow> u8 \<Rightarrow> u8 \<Rightarrow>
   (lowpan_unpacked_header_frag \<times> u8) option" where
  "whip6_lowpanFrameHeadersUnpackFragxHdr hdr buf p initialOffset payloadLen =
     do { dispatch \<leftarrow> buf_get buf (p + unat initialOffset);
          let currentOffset = initialOffset + 1;
          if unat currentOffset + 3 > unat payloadLen then Some (hdr, 0)
          else
            do { b \<leftarrow> buf_get buf (p + unat currentOffset);
                 let hdr = hdr\<lparr>fragSize := u16_join (dispatch AND NOT LOWPAN_DISPATCH_MASK_FRAGX_UNMASKED) b\<rparr>;
                 let currentOffset = currentOffset + 1;
                 hi \<leftarrow> buf_get buf (p + unat currentOffset);
                 let currentOffset = currentOffset + 1;
                 lo \<leftarrow> buf_get buf (p + unat currentOffset);
                 let currentOffset = currentOffset + 1;
                 let hdr = hdr\<lparr>fragTag := u16_join hi lo\<rparr>;
                 if (dispatch AND LOWPAN_DISPATCH_MASK_FRAGN) = LOWPAN_DISPATCH_PATTERN_FRAGN
                 then if currentOffset \<ge> payloadLen then Some (hdr, 0)
                      else do { b \<leftarrow> buf_get buf (p + unat currentOffset);
                                let currentOffset = currentOffset + 1;
                                Some (hdr\<lparr>fragOffset := push_bit 3 (ucast b)\<rparr>,
                                      currentOffset - initialOffset) }
                 else Some (hdr\<lparr>fragOffset := 0\<rparr>, currentOffset - initialOffset) } }"

text \<open>
  The loop ends because every iteration that goes on sets a bit of the bitmap that was clear.
\<close>

definition hdr_bits_left :: "u8 \<Rightarrow> nat" where
  "hdr_bits_left b = of_bool (\<not> bit b 0) + of_bool (\<not> bit b 1) + of_bool (\<not> bit b 2)"

lemma and_bit_zero:
  "((b :: u8) AND 1 = 0) = (\<not> bit b 0)" "(b AND 2 = 0) = (\<not> bit b 1)" "(b AND 4 = 0) = (\<not> bit b 2)"
  using and_exp_eq_0_iff_not_bit [of b 0] and_exp_eq_0_iff_not_bit [of b 1]
    and_exp_eq_0_iff_not_bit [of b 2] by simp_all

lemma hdr_bits_set:
  "\<not> bit b 0 \<Longrightarrow> hdr_bits_left (b OR 1) < hdr_bits_left b"
  "\<not> bit b 1 \<Longrightarrow> hdr_bits_left (b OR 2) < hdr_bits_left b"
  "\<not> bit b 2 \<Longrightarrow> hdr_bits_left (b OR 4) < hdr_bits_left b"
  by (auto simp: hdr_bits_left_def bit_or_iff bit_1_iff)

lemma and_bits_zero:
  "((b :: u8) AND 7 = 0) = (\<not> bit b 0 \<and> \<not> bit b 1 \<and> \<not> bit b 2)"
  "(b AND 5 = 0) = (\<not> bit b 0 \<and> \<not> bit b 2)"
proof -
  have "b AND 7 = (b AND 1) OR ((b AND 2) OR (b AND 4))" "b AND 5 = (b AND 1) OR (b AND 4)"
    by (simp_all flip: bit.conj_disj_distrib)
  then show "(b AND 7 = 0) = (\<not> bit b 0 \<and> \<not> bit b 1 \<and> \<not> bit b 2)"
    "(b AND 5 = 0) = (\<not> bit b 0 \<and> \<not> bit b 2)"
    by (simp_all only: or_eq_0_iff and_bit_zero)
qed

function whip6_lowpanFrameHeadersUnpack_loop ::
  "lowpan_unpacked_frame_headers \<Rightarrow> u8 list \<Rightarrow> nat \<Rightarrow> u8 \<Rightarrow> u8 \<Rightarrow>
   (lowpan_unpacked_frame_headers \<times> whip6_error) option" where
  "whip6_lowpanFrameHeadersUnpack_loop hdrs buf p currentOffset payloadLen =
     (let failed = Some (hdrs\<lparr>bitmap := 0, nextOffset := 0\<rparr>, WHIP6_ARGUMENT_ERROR)
      in if \<not> currentOffset < payloadLen then failed
         else case buf_get buf (p + unat currentOffset) of
           None \<Rightarrow> None
         | Some dispatch \<Rightarrow>
             if (dispatch AND LOWPAN_DISPATCH_MASK_LOWPAN_IPHC) = LOWPAN_DISPATCH_PATTERN_LOWPAN_IPHC
             then Some (hdrs\<lparr>nextOffset := currentOffset\<rparr>, WHIP6_NO_ERROR)
             else if (dispatch AND LOWPAN_DISPATCH_MASK_IPV6) = LOWPAN_DISPATCH_PATTERN_IPV6
             then Some (hdrs\<lparr>nextOffset := currentOffset\<rparr>, WHIP6_NO_ERROR)
             else if (dispatch AND LOWPAN_DISPATCH_MASK_FRAGX) = LOWPAN_DISPATCH_PATTERN_FRAGX
             then
               if (bitmap hdrs AND LOWPAN_WHIP6_INTERNAL_FRAGX_HEADER_BIT) \<noteq> 0 then failed
               else (case whip6_lowpanFrameHeadersUnpackFragxHdr (hdrFrag hdrs) buf p currentOffset payloadLen of
                 None \<Rightarrow> None
               | Some (frag, headerSize) \<Rightarrow>
                   let hdrs = hdrs\<lparr>bitmap := bitmap hdrs OR LOWPAN_WHIP6_INTERNAL_FRAGX_HEADER_BIT,
                                   hdrFrag := frag\<rparr>
                   in if headerSize = 0
                      then Some (hdrs\<lparr>bitmap := 0, nextOffset := 0\<rparr>, WHIP6_ARGUMENT_ERROR)
                      else if fragOffset frag > 0
                      then Some (hdrs\<lparr>nextOffset := currentOffset + headerSize\<rparr>, WHIP6_NO_ERROR)
                      else whip6_lowpanFrameHeadersUnpack_loop hdrs buf p (currentOffset + headerSize) payloadLen)
             else if (dispatch AND LOWPAN_DISPATCH_MASK_MESH) = LOWPAN_DISPATCH_PATTERN_MESH
             then
               if (bitmap hdrs AND (LOWPAN_WHIP6_INTERNAL_MESH_HEADER_BIT OR
                     LOWPAN_WHIP6_INTERNAL_BC0_HEADER_BIT OR LOWPAN_WHIP6_INTERNAL_FRAGX_HEADER_BIT)) \<noteq> 0
               then failed
               else (case whip6_lowpanFrameHeadersUnpackMeshHdr (hdrMesh hdrs) buf p currentOffset payloadLen of
                 None \<Rightarrow> None
               | Some (mesh, headerSize) \<Rightarrow>
                   let hdrs = hdrs\<lparr>bitmap := bitmap hdrs OR LOWPAN_WHIP6_INTERNAL_MESH_HEADER_BIT,
                                   hdrMesh := mesh\<rparr>
                   in if headerSize = 0
                      then Some (hdrs\<lparr>bitmap := 0, nextOffset := 0\<rparr>, WHIP6_ARGUMENT_ERROR)
                      else whip6_lowpanFrameHeadersUnpack_loop hdrs buf p (currentOffset + headerSize) payloadLen)
             else if (dispatch AND LOWPAN_DISPATCH_MASK_LOWPAN_BC0) = LOWPAN_DISPATCH_PATTERN_LOWPAN_BC0
             then
               if (bitmap hdrs AND (LOWPAN_WHIP6_INTERNAL_BC0_HEADER_BIT OR
                     LOWPAN_WHIP6_INTERNAL_FRAGX_HEADER_BIT)) \<noteq> 0
               then failed
               else (case whip6_lowpanFrameHeadersUnpackBc0Hdr (hdrBc0 hdrs) buf p currentOffset payloadLen of
                 None \<Rightarrow> None
               | Some (bc0, headerSize) \<Rightarrow>
                   let hdrs = hdrs\<lparr>bitmap := bitmap hdrs OR LOWPAN_WHIP6_INTERNAL_BC0_HEADER_BIT,
                                   hdrBc0 := bc0\<rparr>
                   in if headerSize = 0
                      then Some (hdrs\<lparr>bitmap := 0, nextOffset := 0\<rparr>, WHIP6_ARGUMENT_ERROR)
                      else whip6_lowpanFrameHeadersUnpack_loop hdrs buf p (currentOffset + headerSize) payloadLen)
             else failed)"
  by pat_completeness auto
termination
  by (relation "measure (\<lambda>(hdrs, buf, p, off, len). hdr_bits_left (bitmap hdrs))")
    (auto simp: lowpan_bits and_bit_zero and_bits_zero hdr_bits_set)

declare whip6_lowpanFrameHeadersUnpack_loop.simps [simp del]

definition whip6_lowpanFrameHeadersUnpack ::
  "lowpan_unpacked_frame_headers \<Rightarrow> ieee154_dframe_info \<Rightarrow>
   (lowpan_unpacked_frame_headers \<times> whip6_error) option" where
  "whip6_lowpanFrameHeadersUnpack hdrs frame =
     do { let payloadPtr = whip6_ieee154DFrameUnsafeGetPayloadPtr frame;
          payloadLen \<leftarrow> whip6_ieee154DFrameGetPayloadLen frame;
          whip6_lowpanFrameHeadersUnpack_loop (hdrs\<lparr>bitmap := 0, nextOffset := 0\<rparr>)
            (bufferPtr frame) payloadPtr 0 payloadLen }"

section \<open>Packing\<close>

definition mesh_pack_addr ::
  "ieee154_addr \<Rightarrow> u8 \<Rightarrow> u8 list \<Rightarrow> nat \<Rightarrow> u8 \<Rightarrow> u8 \<Rightarrow> u8 \<Rightarrow> (u8 list \<times> u8 \<times> u8 option) option" where
  "mesh_pack_addr addr extBit buf p dispatch currentOffset payloadLen =
     (if addrMode addr = IEEE154_ADDR_MODE_EXT then
        if unat currentOffset + unat IEEE154_EXT_ADDR_BYTE_LENGTH > unat payloadLen
        then Some (buf, dispatch, None)
        else do { buf \<leftarrow> whip6_ieee154AddrExtCpy (addrVars addr) 0 buf (p + unat currentOffset);
                  Some (buf, dispatch OR extBit, Some (currentOffset + IEEE154_EXT_ADDR_BYTE_LENGTH)) }
      else if addrMode addr = IEEE154_ADDR_MODE_SHORT then
        if unat currentOffset + unat IEEE154_SHORT_ADDR_BYTE_LENGTH > unat payloadLen
        then Some (buf, dispatch, None)
        else do { buf \<leftarrow> whip6_ieee154AddrShortCpy (addrVars addr) 0 buf (p + unat currentOffset);
                  Some (buf, dispatch, Some (currentOffset + IEEE154_SHORT_ADDR_BYTE_LENGTH)) }
      else Some (buf, dispatch, None))"

definition whip6_lowpanFrameHeadersPackMeshHdr ::
  "lowpan_unpacked_header_mesh \<Rightarrow> u8 list \<Rightarrow> nat \<Rightarrow> u8 \<Rightarrow> u8 \<Rightarrow> (u8 list \<times> u8) option" where
  "whip6_lowpanFrameHeadersPackMeshHdr hdr buf p initialOffset payloadLen =
     (let dispatch = LOWPAN_DISPATCH_PATTERN_MESH; currentOffset = initialOffset + 1
      in if currentOffset > payloadLen then Some (buf, 0)
         else if \<not> hopLimit hdr < 0x0f \<and> currentOffset \<ge> payloadLen then Some (buf, 0)
         else
           do { (buf, dispatch, currentOffset) \<leftarrow>
                  (if hopLimit hdr < 0x0f then Some (buf, dispatch OR hopLimit hdr, currentOffset)
                   else do { buf \<leftarrow> buf_put buf (p + unat currentOffset) (hopLimit hdr);
                             Some (buf, dispatch OR 0x0f, currentOffset + 1) });
                (buf, dispatch, off) \<leftarrow>
                  mesh_pack_addr (meshSrcAddr hdr) 0x20 buf p dispatch currentOffset payloadLen;
                case off of
                  None \<Rightarrow> Some (buf, 0)
                | Some currentOffset \<Rightarrow>
                    do { (buf, dispatch, off) \<leftarrow>
                           mesh_pack_addr (meshDstAddr hdr) 0x10 buf p dispatch currentOffset payloadLen;
                         case off of
                           None \<Rightarrow> Some (buf, 0)
                         | Some currentOffset \<Rightarrow>
                             do { buf \<leftarrow> buf_put buf (p + unat initialOffset) dispatch;
                                  Some (buf, currentOffset - initialOffset) } } })"

definition whip6_lowpanFrameHeadersPackBc0Hdr ::
  "lowpan_unpacked_header_bc0 \<Rightarrow> u8 list \<Rightarrow> nat \<Rightarrow> u8 \<Rightarrow> u8 \<Rightarrow> (u8 list \<times> u8) option" where
  "whip6_lowpanFrameHeadersPackBc0Hdr hdr buf p initialOffset payloadLen =
     (if unat initialOffset + 2 > unat payloadLen then Some (buf, 0)
      else do { buf \<leftarrow> buf_put buf (p + unat initialOffset) LOWPAN_DISPATCH_PATTERN_LOWPAN_BC0;
                let initialOffset = initialOffset + 1;
                buf \<leftarrow> buf_put buf (p + unat initialOffset) (bc0SeqNo hdr);
                Some (buf, 2) })"

definition whip6_lowpanFrameHeadersPackFragxHdr ::
  "lowpan_unpacked_header_frag \<Rightarrow> u8 list \<Rightarrow> nat \<Rightarrow> u8 \<Rightarrow> u8 \<Rightarrow> (u8 list \<times> u8) option" where
  "whip6_lowpanFrameHeadersPackFragxHdr hdr buf p initialOffset payloadLen =
     (let currentOffset = initialOffset + 1
      in if unat currentOffset + 3 > unat payloadLen then Some (buf, 0)
         else
           do { let dispatch = u16_hi (fragSize hdr) AND NOT LOWPAN_DISPATCH_MASK_FRAGX_UNMASKED;
                buf \<leftarrow> buf_put buf (p + unat currentOffset) (u16_lo (fragSize hdr));
                let currentOffset = currentOffset + 1;
                buf \<leftarrow> buf_put buf (p + unat currentOffset) (u16_hi (fragTag hdr));
                let currentOffset = currentOffset + 1;
                buf \<leftarrow> buf_put buf (p + unat currentOffset) (u16_lo (fragTag hdr));
                let currentOffset = currentOffset + 1;
                if fragOffset hdr > 0
                then if (fragOffset hdr AND 0x07) \<noteq> 0 \<or> currentOffset \<ge> payloadLen then Some (buf, 0)
                     else do { buf \<leftarrow> buf_put buf (p + unat currentOffset) (ucast (drop_bit 3 (fragOffset hdr)));
                               let currentOffset = currentOffset + 1;
                               buf \<leftarrow> buf_put buf (p + unat initialOffset)
                                 (dispatch OR LOWPAN_DISPATCH_PATTERN_FRAGN);
                               Some (buf, currentOffset - initialOffset) }
                else do { buf \<leftarrow> buf_put buf (p + unat initialOffset)
                            (dispatch OR LOWPAN_DISPATCH_PATTERN_FRAG1);
                          Some (buf, currentOffset - initialOffset) } })"

text \<open>The three headers are written one after the other; the first that does not fit ends the call.\<close>

definition pack_step ::
  "bool \<Rightarrow> (u8 list \<Rightarrow> u8 \<Rightarrow> (u8 list \<times> u8) option) \<Rightarrow> u8 list \<Rightarrow> u8 \<Rightarrow> (u8 list \<times> u8 option) option" where
  "pack_step present pack buf payloadOff =
     (if present
      then do { (buf, headerSize) \<leftarrow> pack buf payloadOff;
                Some (buf, if headerSize = 0 then None else Some (payloadOff + headerSize)) }
      else Some (buf, Some payloadOff))"

definition whip6_lowpanFrameHeadersPack ::
  "lowpan_unpacked_frame_headers \<Rightarrow> ieee154_dframe_info \<Rightarrow>
   (lowpan_unpacked_frame_headers \<times> ieee154_dframe_info \<times> whip6_error) option" where
  "whip6_lowpanFrameHeadersPack hdrs frame =
     (let p = whip6_ieee154DFrameUnsafeGetPayloadPtr frame;
          payloadLen = whip6_ieee154DFrameMaxPayloadLen frame;
          failed = \<lambda>buf. Some (hdrs, frame\<lparr>bufferPtr := buf\<rparr>, WHIP6_ARGUMENT_ERROR)
      in do { (buf, off) \<leftarrow> pack_step (whip6_lowpanFrameHeadersHasMeshHeader hdrs)
                (\<lambda>buf off. whip6_lowpanFrameHeadersPackMeshHdr (hdrMesh hdrs) buf p off payloadLen)
                (bufferPtr frame) 0;
              case off of
                None \<Rightarrow> failed buf
              | Some payloadOff \<Rightarrow>
                  do { (buf, off) \<leftarrow> pack_step (whip6_lowpanFrameHeadersHasBc0Header hdrs)
                         (\<lambda>buf off. whip6_lowpanFrameHeadersPackBc0Hdr (hdrBc0 hdrs) buf p off payloadLen)
                         buf payloadOff;
                       case off of
                         None \<Rightarrow> failed buf
                       | Some payloadOff \<Rightarrow>
                           do { (buf, off) \<leftarrow> pack_step (whip6_lowpanFrameHeadersHasFragHeader hdrs)
                                  (\<lambda>buf off. whip6_lowpanFrameHeadersPackFragxHdr (hdrFrag hdrs) buf p off payloadLen)
                                  buf payloadOff;
                                case off of
                                  None \<Rightarrow> failed buf
                                | Some payloadOff \<Rightarrow>
                                    Some (hdrs\<lparr>nextOffset := payloadOff\<rparr>, frame\<lparr>bufferPtr := buf\<rparr>,
                                          WHIP6_NO_ERROR) } } })"

section \<open>The wire format\<close>

definition mesh_dispatch :: "lowpan_unpacked_header_mesh \<Rightarrow> u8" where
  "mesh_dispatch hdr = 0x80 OR (if hopLimit hdr < 0x0f then hopLimit hdr else 0x0f) OR
     (if addrMode (meshSrcAddr hdr) = 3 then 0x20 else 0) OR
     (if addrMode (meshDstAddr hdr) = 3 then 0x10 else 0)"

definition mesh_bytes :: "lowpan_unpacked_header_mesh \<Rightarrow> u8 list" where
  "mesh_bytes hdr = mesh_dispatch hdr # (if hopLimit hdr < 0x0f then [] else [hopLimit hdr]) @
     addr_bytes (meshSrcAddr hdr) @ addr_bytes (meshDstAddr hdr)"

definition bc0_bytes :: "lowpan_unpacked_header_bc0 \<Rightarrow> u8 list" where
  "bc0_bytes hdr = [0x50, bc0SeqNo hdr]"

definition frag_bytes :: "lowpan_unpacked_header_frag \<Rightarrow> u8 list" where
  "frag_bytes hdr =
     [(u16_hi (fragSize hdr) AND 7) OR (if fragOffset hdr > 0 then 0xe0 else 0xc0), u16_lo (fragSize hdr),
      u16_hi (fragTag hdr), u16_lo (fragTag hdr)] @
     (if fragOffset hdr > 0 then [ucast (drop_bit 3 (fragOffset hdr))] else [])"

definition hdrs_bytes :: "lowpan_unpacked_frame_headers \<Rightarrow> u8 list" where
  "hdrs_bytes hdrs =
     (if whip6_lowpanFrameHeadersHasMeshHeader hdrs then mesh_bytes (hdrMesh hdrs) else []) @
     (if whip6_lowpanFrameHeadersHasBc0Header hdrs then bc0_bytes (hdrBc0 hdrs) else []) @
     (if whip6_lowpanFrameHeadersHasFragHeader hdrs then frag_bytes (hdrFrag hdrs) else [])"

definition mesh_ok :: "lowpan_unpacked_header_mesh \<Rightarrow> bool" where
  "mesh_ok hdr \<longleftrightarrow> addr_ok (meshSrcAddr hdr) \<and> addr_ok (meshDstAddr hdr) \<and>
     addr_mode_ok (addrMode (meshSrcAddr hdr)) \<and> addr_mode_ok (addrMode (meshDstAddr hdr))"

definition frag_ok :: "lowpan_unpacked_header_frag \<Rightarrow> bool" where
  "frag_ok hdr \<longleftrightarrow> unat (fragSize hdr) < 2048 \<and> unat (fragOffset hdr) < 2048 \<and> 8 dvd unat (fragOffset hdr)"

section \<open>Packing produces the wire format\<close>

lemma off_plus:
  "unat (off :: u8) + n < 256 \<Longrightarrow> n < 256 \<Longrightarrow> unat (off + of_nat n) = unat off + n"
  by (simp add: unat_word_ariths(1) unat_of_nat)

lemma off_plus_num:
  "unat (off :: u8) + 1 < 256 \<Longrightarrow> unat (off + 1) = unat off + 1"
  "unat (off :: u8) + 2 < 256 \<Longrightarrow> unat (off + 2) = unat off + 2"
  "unat (off :: u8) + 3 < 256 \<Longrightarrow> unat (off + 3) = unat off + 3"
  "unat (off :: u8) + 4 < 256 \<Longrightarrow> unat (off + 4) = unat off + 4"
  "unat (off :: u8) + 5 < 256 \<Longrightarrow> unat (off + 5) = unat off + 5"
  "unat (off :: u8) + 8 < 256 \<Longrightarrow> unat (off + 8) = unat off + 8"
  by (simp_all add: unat_word_ariths(1))

lemma pack_bc0:
  assumes "unat off + 2 \<le> unat len" "p + unat len \<le> length buf"
  shows "whip6_lowpanFrameHeadersPackBc0Hdr h buf p off len =
    Some (mem_blit buf (p + unat off) (bc0_bytes h), 2)"
proof -
  have o: "unat off + 2 < 256" using assms(1) unat_u8_less [of len] by linarith
  then have "unat (off + 1) = Suc (unat off)" using off_plus_num(1) [of off] by simp
  then show ?thesis using assms o
    by (simp add: whip6_lowpanFrameHeadersPackBc0Hdr_def bc0_bytes_def lowpan_constants two_bytes_blit)
qed

lemma pack_bc0_full:
  "unat len < unat off + 2 \<Longrightarrow> whip6_lowpanFrameHeadersPackBc0Hdr h buf p off len = Some (buf, 0)"
  by (simp add: whip6_lowpanFrameHeadersPackBc0Hdr_def)

lemma and7_dvd: "(w AND 7 = 0) = (8 dvd unat (w :: u16))"
proof -
  have "w AND 7 = take_bit 3 w" by (simp add: take_bit_eq_mask mask_eq_exp_minus_1)
  then have "unat (w AND 7) = unat w mod 8" by (simp add: unat_mod take_bit_eq_mod)
  then show ?thesis by (simp add: unat_eq_0 [symmetric] mod_eq_0_iff_dvd)
qed

lemma minus_249: "(- 249 :: u8) = 7"
  by (simp add: neg_eq_iff_add_eq_0)

lemma frag_dispatch_mask:
  "(h :: u8) AND NOT LOWPAN_DISPATCH_MASK_FRAGX_UNMASKED = h AND 7" "h AND - 249 = h AND 7"
  by (simp_all add: lowpan_constants minus_249)

lemma blit_three:
  assumes "Suc (Suc i) < length m"
  shows "m[i := a, Suc i := b, Suc (Suc i) := c] = mem_blit m i [a, b, c]"
  using assms two_bytes_blit [of i m a b] blit_snoc [of i "[a, b]" m c] by simp

lemma pack_frag:
  assumes "unat off + length (frag_bytes h) \<le> unat len" "p + unat len \<le> length buf" "frag_ok h"
  shows "whip6_lowpanFrameHeadersPackFragxHdr h buf p off len =
    Some (mem_blit buf (p + unat off) (frag_bytes h), of_nat (length (frag_bytes h)))"
proof -
  let ?i = "p + unat off"
  let ?d = "u16_hi (fragSize h) AND 7" and ?a = "u16_lo (fragSize h)"
  let ?b = "u16_hi (fragTag h)" and ?c = "u16_lo (fragTag h)"
  have l4: "unat off + 4 \<le> unat len" using assms(1) by (simp add: frag_bytes_def split: if_splits)
  then have o: "unat off + 4 < 256" using unat_u8_less [of len] by linarith
  then have u: "unat (off + 1) = Suc (unat off)" "unat (off + 2) = Suc (Suc (unat off))"
    "unat (off + 3) = Suc (Suc (Suc (unat off)))" "unat (off + 4) = Suc (Suc (Suc (Suc (unat off))))"
    using off_plus_num(1-4) [of off] by simp_all
  note u = u u [unfolded add.commute [of off]]
  have i: "?i + 4 \<le> length buf" using l4 assms(2) by linarith
  have b3: "buf[Suc ?i := ?a, Suc (Suc ?i) := ?b, Suc (Suc (Suc ?i)) := ?c] = mem_blit buf (Suc ?i) [?a, ?b, ?c]"
    using i by (intro blit_three) simp
  have dv: "fragOffset h AND 7 = 0" using assms(3) by (simp add: frag_ok_def and7_dvd)
  show ?thesis
  proof (cases "fragOffset h > 0")
    case False
    have "(mem_blit buf (Suc ?i) [?a, ?b, ?c])[?i := ?d OR 0xc0] = mem_blit buf ?i [?d OR 0xc0, ?a, ?b, ?c]"
      using i by (intro blit_cons) simp
    with False l4 u i b3 show ?thesis
      by (simp add: whip6_lowpanFrameHeadersPackFragxHdr_def frag_dispatch_mask frag_bytes_def Let_def
          lowpan_constants)
  next
    case True
    let ?e = "ucast (drop_bit 3 (fragOffset h)) :: u8"
    have l5: "unat off + 5 \<le> unat len" using assms(1) True by (simp add: frag_bytes_def)
    then have i5: "?i + 5 \<le> length buf" using assms(2) by linarith
    have "\<not> 4 + off \<ge> len" using l5 u by (simp add: word_le_nat_alt)
    moreover have "(mem_blit buf (Suc ?i) [?a, ?b, ?c])[Suc (Suc (Suc (Suc ?i))) := ?e] =
        mem_blit buf (Suc ?i) [?a, ?b, ?c, ?e]"
      using i5 blit_snoc [of "Suc ?i" "[?a, ?b, ?c]" buf ?e] by simp
    moreover have "(mem_blit buf (Suc ?i) [?a, ?b, ?c, ?e])[?i := ?d OR 0xe0] =
        mem_blit buf ?i [?d OR 0xe0, ?a, ?b, ?c, ?e]"
      using i5 by (intro blit_cons) simp
    ultimately show ?thesis using True l4 u i i5 b3 dv
      by (simp add: whip6_lowpanFrameHeadersPackFragxHdr_def frag_dispatch_mask frag_bytes_def Let_def
          lowpan_constants)
  qed
qed

lemma addr_bytes_length: "addr_ok a \<Longrightarrow> addr_mode_ok (addrMode a) \<Longrightarrow> length (addr_bytes a) = addr_len (addrMode a)"
  by (auto simp: addr_bytes_def addr_ok_def addr_len_def frame_constants elim!: addr_mode_cases)

lemma addr_len_simps [simp]: "addr_len 2 = 2" "addr_len 3 = 8"
  by (simp_all add: addr_len_def frame_constants)

lemma pack_addr:
  assumes "addr_ok a" "addr_mode_ok (addrMode a)" "p + unat len \<le> length buf"
  shows "mesh_pack_addr a x buf p d off len =
    (if unat off + length (addr_bytes a) \<le> unat len
     then Some (mem_blit buf (p + unat off) (addr_bytes a), d OR (if addrMode a = 3 then x else 0),
            Some (off + of_nat (length (addr_bytes a))))
     else Some (buf, d, None))"
  using assms addr_bytes_length [OF assms(1,2)]
  by (elim addr_mode_cases)
    (auto simp: mesh_pack_addr_def frame_constants whip6_ieee154AddrExtCpy_def
      whip6_ieee154AddrShortCpy_def shortMemCpy_range addr_bytes_def addr_ok_def mem_range_def)

lemma pack_mesh:
  assumes "mesh_ok h" "unat off + length (mesh_bytes h) \<le> unat len" "p + unat len \<le> length buf"
  shows "whip6_lowpanFrameHeadersPackMeshHdr h buf p off len =
    Some (mem_blit buf (p + unat off) (mesh_bytes h), of_nat (length (mesh_bytes h)))"
proof -
  let ?i = "p + unat off" and ?src = "meshSrcAddr h" and ?dst = "meshDstAddr h"
  define hl where "hl = (if hopLimit h < 0x0f then [] else [hopLimit h])"
  define sb where "sb = addr_bytes ?src"
  define db where "db = addr_bytes ?dst"
  have ok: "addr_ok ?src" "addr_ok ?dst" "addr_mode_ok (addrMode ?src)" "addr_mode_ok (addrMode ?dst)"
    using assms(1) by (simp_all add: mesh_ok_def)
  have mb: "mesh_bytes h = mesh_dispatch h # hl @ sb @ db"
    by (simp add: mesh_bytes_def hl_def sb_def db_def)
  have len: "unat off + 1 + length hl + length sb + length db \<le> unat len" using assms(2) by (simp add: mb)
  then have lt: "unat off + 1 + length hl + length sb + length db < 256"
    using unat_u8_less [of len] by linarith
  have u1: "unat (off + 1) = Suc (unat off)" using lt off_plus_num(1) [of off] by simp
  define o1 where "o1 = off + 1 + of_nat (length hl)"
  have o1: "unat o1 = unat off + 1 + length hl"
    unfolding o1_def using lt u1 by (subst off_plus) simp_all
  define o2 where "o2 = o1 + of_nat (length sb)"
  have o2: "unat o2 = unat off + 1 + length hl + length sb"
    unfolding o2_def using lt o1 by (subst off_plus) simp_all
  define o3 where "o3 = o2 + of_nat (length db)"
  have "o3 - off = of_nat (length (mesh_bytes h))"
    by (simp add: o3_def o2_def o1_def mb)
  define b1 where "b1 = mem_blit buf (Suc ?i) hl"
  define b2 where "b2 = mem_blit buf (Suc ?i) (hl @ sb)"
  define b3 where "b3 = mem_blit buf (Suc ?i) (hl @ sb @ db)"
  have bl: "length b1 = length buf" "length b2 = length buf"
    using len assms(3) by (simp_all add: b1_def b2_def)
  have w2: "b2 = mem_blit b1 (p + unat o1) sb"
    unfolding b2_def b1_def using len assms(3) o1 mem_blit_append [of "Suc ?i" hl sb buf]
    by (simp add: algebra_simps)
  have w3: "b3 = mem_blit b2 (p + unat o2) db"
    unfolding b3_def b2_def using len assms(3) o2 mem_blit_append [of "Suc ?i" "hl @ sb" db buf]
    by (simp add: algebra_simps)
  have w4: "b3[?i := mesh_dispatch h] = mem_blit buf ?i (mesh_bytes h)"
    unfolding b3_def mb using len assms(3) by (intro blit_cons) simp
  define d1 where "d1 = 0x80 OR (if hopLimit h < 0x0f then hopLimit h else 0x0f)"
  define d2 where "d2 = d1 OR (if addrMode ?src = 3 then 0x20 else 0)"
  have d3: "d2 OR (if addrMode ?dst = 3 then 0x10 else 0) = mesh_dispatch h"
    by (simp add: mesh_dispatch_def d2_def d1_def or.assoc)
  have s0: "(if hopLimit h < 0x0f then Some (buf, LOWPAN_DISPATCH_PATTERN_MESH OR hopLimit h, off + 1)
      else do { buf \<leftarrow> buf_put buf (p + unat (off + 1)) (hopLimit h);
                Some (buf, LOWPAN_DISPATCH_PATTERN_MESH OR 0x0f, off + 1 + 1) }) = Some (b1, d1, o1)"
  proof (cases "hopLimit h < 0x0f")
    case False
    then have "Suc ?i < length buf" using len assms(3) by (simp add: hl_def)
    with False show ?thesis
      by (simp add: u1 b1_def d1_def o1_def hl_def lowpan_constants one_byte_blit)
  qed (simp add: b1_def d1_def o1_def hl_def lowpan_constants)
  have s1: "mesh_pack_addr ?src 0x20 b1 p d1 o1 len = Some (b2, d2, Some o2)"
    using pack_addr [OF ok(1,3), of p len b1 "0x20" d1 o1, folded sb_def] len assms(3) bl
    by (simp add: o1 o2_def d2_def w2)
  have s2: "mesh_pack_addr ?dst 0x10 b2 p d2 o2 len = Some (b3, mesh_dispatch h, Some o3)"
    using pack_addr [OF ok(2,4), of p len b2 "0x10" d2 o2, folded db_def] len assms(3) bl
    by (simp add: o2 o3_def d3 w3)
  have "length b3 = length buf" using len assms(3) by (simp add: b3_def)
  then have s3: "buf_put b3 ?i (mesh_dispatch h) = Some (mem_blit buf ?i (mesh_bytes h))"
    using len assms(3) by (simp add: w4)
  have c1: "\<not> off + 1 > len" using len u1 by (simp add: word_less_nat_alt)
  have c2: "\<not> (\<not> hopLimit h < 0x0f \<and> off + 1 \<ge> len)"
    using len u1 by (auto simp: word_le_nat_alt hl_def split: if_splits)
  show ?thesis
    by (simp only: whip6_lowpanFrameHeadersPackMeshHdr_def Let_def c1 c2 if_False s0 s1 s2 s3 bind.bind_lunit
        prod.case option.case \<open>o3 - off = _\<close>)
qed

lemma of_nat_length_nz: "bs \<noteq> [] \<Longrightarrow> length bs < 256 \<Longrightarrow> (of_nat (length bs) :: u8) \<noteq> 0"
proof
  assume b: "bs \<noteq> []" "length bs < 256" "(of_nat (length bs) :: u8) = 0"
  have "unat (of_nat (length bs) :: u8) = length bs" using b(2) by (simp add: unat_of_nat)
  with b(1) show False unfolding b(3) by (metis unsigned_0 length_0_conv)
qed

lemma pack_step_ok:
  assumes "bs' = (if present then bs else [])"
    and "present \<Longrightarrow> pack buf off = Some (mem_blit buf (p + unat off) bs', of_nat (length bs')) \<and>
      bs' \<noteq> [] \<and> length bs' < 256"
  shows "pack_step present pack buf off =
    Some (mem_blit buf (p + unat off) bs', Some (off + of_nat (length bs')))"
  using assms of_nat_length_nz [of bs'] by (cases present) (simp_all add: pack_step_def)

lemma bytes_nonempty: "0 < length (mesh_bytes m)" "0 < length (frag_bytes fr)" "length (bc0_bytes b) = 2"
  by (simp_all add: mesh_bytes_def frag_bytes_def bc0_bytes_def)

lemma headers_pack:
  assumes f: "frame_fits dm sm ip f"
    and m: "whip6_lowpanFrameHeadersHasMeshHeader h \<Longrightarrow> mesh_ok (hdrMesh h)"
    and fr: "whip6_lowpanFrameHeadersHasFragHeader h \<Longrightarrow> frag_ok (hdrFrag h)"
    and fit: "length (hdrs_bytes h) \<le> unat (whip6_ieee154DFrameMaxPayloadLen f)"
  shows "whip6_lowpanFrameHeadersPack h f =
    Some (h\<lparr>nextOffset := of_nat (length (hdrs_bytes h))\<rparr>, frame_blit (fr_pay dm sm ip) (hdrs_bytes h) f,
          WHIP6_NO_ERROR)"
proof -
  let ?p = "fr_pay dm sm ip" and ?len = "whip6_ieee154DFrameMaxPayloadLen f" and ?buf = "bufferPtr f"
  define mb where "mb = (if whip6_lowpanFrameHeadersHasMeshHeader h then mesh_bytes (hdrMesh h) else [])"
  define bb where "bb = (if whip6_lowpanFrameHeadersHasBc0Header h then bc0_bytes (hdrBc0 h) else [])"
  define fb where "fb = (if whip6_lowpanFrameHeadersHasFragHeader h then frag_bytes (hdrFrag h) else [])"
  have hb: "hdrs_bytes h = mb @ bb @ fb" by (simp add: hdrs_bytes_def mb_def bb_def fb_def)
  have p: "whip6_ieee154DFrameUnsafeGetPayloadPtr f = ?p"
    using f by (auto simp: frame_fits_def frame_layout_offsets)
  have room: "?p + unat ?len \<le> length ?buf" by (rule unat_MaxPayloadLen(2) [OF f])
  have len: "length mb + length bb + length fb \<le> unat ?len" using fit by (simp add: hb)
  then have lt: "length mb + length bb + length fb < 256" using unat_u8_less [of ?len] by linarith
  define o1 where "o1 = (of_nat (length mb) :: u8)"
  define o2 where "o2 = o1 + of_nat (length bb)"
  have o1: "unat o1 = length mb" using lt by (simp add: o1_def unat_of_nat)
  have o2: "unat o2 = length mb + length bb" unfolding o2_def using lt o1 by (subst off_plus) simp_all
  define b1 where "b1 = mem_blit ?buf ?p mb"
  define b2 where "b2 = mem_blit ?buf ?p (mb @ bb)"
  have bl: "length b1 = length ?buf" "length b2 = length ?buf"
    using len room by (simp_all add: b1_def b2_def)
  have w2: "mem_blit b1 (?p + length mb) bb = b2"
    unfolding b2_def b1_def using len room by (intro mem_blit_append) simp
  have w3: "mem_blit b2 (?p + (length mb + length bb)) fb = mem_blit ?buf ?p (hdrs_bytes h)"
    unfolding b2_def hb using len room mem_blit_append [of ?p "mb @ bb" fb ?buf] by simp
  have s1: "pack_step (whip6_lowpanFrameHeadersHasMeshHeader h)
      (\<lambda>buf off. whip6_lowpanFrameHeadersPackMeshHdr (hdrMesh h) buf ?p off ?len) ?buf 0 =
      Some (mem_blit ?buf (?p + unat (0 :: u8)) mb, Some (0 + of_nat (length mb)))"
  proof (rule pack_step_ok [OF mb_def])
    assume "whip6_lowpanFrameHeadersHasMeshHeader h"
    then show "whip6_lowpanFrameHeadersPackMeshHdr (hdrMesh h) ?buf ?p 0 ?len =
        Some (mem_blit ?buf (?p + unat (0 :: u8)) mb, of_nat (length mb)) \<and> mb \<noteq> [] \<and> length mb < 256"
      using pack_mesh [of "hdrMesh h" 0 ?len ?p ?buf] m len lt room bytes_nonempty(1) [of "hdrMesh h"]
      by (simp add: mb_def)
  qed
  have s2: "pack_step (whip6_lowpanFrameHeadersHasBc0Header h)
      (\<lambda>buf off. whip6_lowpanFrameHeadersPackBc0Hdr (hdrBc0 h) buf ?p off ?len) b1 o1 =
      Some (mem_blit b1 (?p + unat o1) bb, Some (o1 + of_nat (length bb)))"
  proof (rule pack_step_ok [OF bb_def])
    assume "whip6_lowpanFrameHeadersHasBc0Header h"
    then have bb: "bb = bc0_bytes (hdrBc0 h)" "length bb = 2" by (simp_all add: bb_def bytes_nonempty)
    have "whip6_lowpanFrameHeadersPackBc0Hdr (hdrBc0 h) b1 ?p o1 ?len = Some (mem_blit b1 (?p + unat o1) bb, 2)"
      unfolding bb(1) using len bb(2) room bl by (intro pack_bc0) (simp_all add: o1)
    then show "whip6_lowpanFrameHeadersPackBc0Hdr (hdrBc0 h) b1 ?p o1 ?len =
        Some (mem_blit b1 (?p + unat o1) bb, of_nat (length bb)) \<and> bb \<noteq> [] \<and> length bb < 256"
      using bb(2) by auto
  qed
  have s3: "pack_step (whip6_lowpanFrameHeadersHasFragHeader h)
      (\<lambda>buf off. whip6_lowpanFrameHeadersPackFragxHdr (hdrFrag h) buf ?p off ?len) b2 o2 =
      Some (mem_blit b2 (?p + unat o2) fb, Some (o2 + of_nat (length fb)))"
  proof (rule pack_step_ok [OF fb_def])
    assume h: "whip6_lowpanFrameHeadersHasFragHeader h"
    then have fb: "fb = frag_bytes (hdrFrag h)" by (simp add: fb_def)
    have "whip6_lowpanFrameHeadersPackFragxHdr (hdrFrag h) b2 ?p o2 ?len =
        Some (mem_blit b2 (?p + unat o2) fb, of_nat (length fb))"
      unfolding fb using len room bl fr [OF h] by (intro pack_frag) (simp_all add: o2 fb)
    then show "whip6_lowpanFrameHeadersPackFragxHdr (hdrFrag h) b2 ?p o2 ?len =
        Some (mem_blit b2 (?p + unat o2) fb, of_nat (length fb)) \<and> fb \<noteq> [] \<and> length fb < 256"
      using bytes_nonempty(2) [of "hdrFrag h"] lt fb by auto
  qed
  note s1 = s1 [unfolded unsigned_0 add_0_right add_0_left, folded b1_def o1_def]
    and s2 = s2 [unfolded o1 w2, folded o2_def] and s3 = s3 [unfolded o2 w3]
  have "o2 + of_nat (length fb) = of_nat (length (hdrs_bytes h))"
    by (simp add: o2_def o1_def hb)
  then show ?thesis
    by (simp add: whip6_lowpanFrameHeadersPack_def p s1 s2 s3 frame_blit_def)
qed

end
