(* ===== verification/Lowpan_HeadersRead.thy ===== *)
theory Lowpan_HeadersRead
  imports Lowpan_Headers
begin

text \<open>
  The unpacking routines of \<open>uc6LoWPANHeaderManipulation.c\<close> applied to the wire format: each
  reads back the header whose bytes stand at its offset, and the loop of
  \<open>whip6_lowpanFrameHeadersUnpack\<close> reads back a whole stack.
\<close>

section \<open>One header\<close>

lemma unpack_bc0:
  assumes "holds_at buf (p + unat off) (bc0_bytes h)" "unat off + 2 \<le> unat len"
  shows "whip6_lowpanFrameHeadersUnpackBc0Hdr h0 buf p off len = Some (h, 2)"
proof -
  have "unat off + 1 < 256" using assms(2) unat_u8_less [of len] by linarith
  then have u: "unat (off + 1) = Suc (unat off)" using off_plus_num(1) [of off] by simp
  have "\<not> off + 1 \<ge> len" using assms(2) u by (simp add: word_le_nat_alt)
  then show ?thesis using assms u
    by (simp add: whip6_lowpanFrameHeadersUnpackBc0Hdr_def bc0_bytes_def)
qed

lemma frag_dispatch_size: "((h AND 7) OR 0xe0) AND 7 = (h :: u8) AND 7" "((h AND 7) OR 0xc0) AND 7 = h AND 7"
  by (simp_all add: bit.conj_disj_distrib2 and.assoc)

lemma frag_dispatch_kind:
  "((h AND 7) OR 0xe0) AND 0xf8 = (0xe0 :: u8)" "((h AND 7) OR 0xc0) AND 0xf8 = (0xc0 :: u8)"
  by (simp_all add: bit.conj_disj_distrib2 and.assoc)

lemma u16_hi_and7:
  assumes "unat w < 2048"
  shows "u16_hi w AND 7 = u16_hi w"
proof (rule word_unat_eq_iff [THEN iffD2])
  have "u16_hi w AND 7 = take_bit 3 (u16_hi w)" by (simp add: take_bit_eq_mask mask_eq_exp_minus_1)
  then have "unat (u16_hi w AND 7) = unat (u16_hi w) mod 8" by (simp add: unat_mod take_bit_eq_mod)
  moreover have "unat (u16_hi w) < 8" using assms by (simp add: unat_u16_hi less_mult_imp_div_less)
  ultimately show "unat (u16_hi w AND 7) = unat (u16_hi w)" by simp
qed

lemma offset_byte:
  assumes "unat w < 2048" "8 dvd unat w"
  shows "push_bit 3 (ucast (ucast (drop_bit 3 w) :: u8)) = (w :: u16)"
proof (rule word_unat_eq_iff [THEN iffD2])
  have d: "unat (drop_bit 3 w) = unat w div 8" by (simp add: drop_bit_eq_div unat_div)
  have l: "unat w div 8 < 256" using assms(1) by (simp add: less_mult_imp_div_less)
  have b: "unat (ucast (drop_bit 3 w) :: u8) = unat w div 8"
    using l by (simp add: unsigned_ucast_eq d take_bit_eq_mod)
  have "unat (push_bit 3 (ucast (ucast (drop_bit 3 w) :: u8) :: u16)) =
      take_bit LENGTH(16) (push_bit 3 (unat (ucast (ucast (drop_bit 3 w) :: u8) :: u16)))"
    by (rule unsigned_push_bit_eq)
  also have "\<dots> = (unat w div 8 * 8) mod 65536"
    by (simp only: unat_ucast_u8_u16 b) (simp add: take_bit_eq_mod push_bit_eq_mult)
  also have "\<dots> = unat w" using assms l by simp
  finally show "unat (push_bit 3 (ucast (ucast (drop_bit 3 w) :: u8) :: u16)) = unat w" .
qed

lemma unpack_frag:
  assumes "holds_at buf (p + unat off) (frag_bytes h)" "unat off + length (frag_bytes h) \<le> unat len"
    and ok: "frag_ok h"
  shows "whip6_lowpanFrameHeadersUnpackFragxHdr h0 buf p off len =
    Some (h, of_nat (length (frag_bytes h)))"
proof -
  have l4: "unat off + 4 \<le> unat len" using assms(2) by (simp add: frag_bytes_def split: if_splits)
  then have o: "unat off + 4 < 256" using unat_u8_less [of len] by linarith
  then have u: "unat (off + 1) = Suc (unat off)" "unat (off + 2) = Suc (Suc (unat off))"
    "unat (off + 3) = Suc (Suc (Suc (unat off)))" "unat (off + 4) = Suc (Suc (Suc (Suc (unat off))))"
    using off_plus_num(1-4) [of off] by simp_all
  note u = u u [unfolded add.commute [of off]]
  have sz: "u16_hi (fragSize h) AND 7 = u16_hi (fragSize h)"
    using ok by (intro u16_hi_and7) (simp add: frag_ok_def)
  have ofs: "push_bit 3 (ucast (ucast (drop_bit 3 (fragOffset h)) :: u8)) = fragOffset h"
    using ok by (intro offset_byte) (simp_all add: frag_ok_def)
  note k = frag_dispatch_size [of "u16_hi (fragSize h)", unfolded sz]
    frag_dispatch_kind [of "u16_hi (fragSize h)", unfolded sz]
  show ?thesis
  proof (cases "fragOffset h > 0")
    case True
    then have "\<not> 4 + off \<ge> len" using assms(2) u by (simp add: word_le_nat_alt frag_bytes_def)
    then show ?thesis using True assms(1) l4 u
      by (simp add: whip6_lowpanFrameHeadersUnpackFragxHdr_def frag_bytes_def frag_dispatch_mask
          k sz ofs Let_def lowpan_constants)
  next
    case False
    then have "fragOffset h = 0" by (simp add: word_gt_0)
    with False show ?thesis using assms(1) l4 u
      by (simp add: whip6_lowpanFrameHeadersUnpackFragxHdr_def frag_bytes_def frag_dispatch_mask
          k sz Let_def lowpan_constants)
  qed
qed

lemma unpack_addr:
  assumes "addr_ok a" "addr_mode_ok (addrMode a)" "addr_ok a0"
    and "holds_at buf (p + unat off) (addr_bytes a)" "unat off + length (addr_bytes a) \<le> unat len"
  shows "\<exists>a'. mesh_unpack_addr (addrMode a = 3) a0 buf p off len =
    Some (a', Some (off + of_nat (length (addr_bytes a)))) \<and> addr_same a' a \<and> addr_ok a'"
  using assms addr_bytes_length [OF assms(1,2)]
  by (elim addr_mode_cases)
    (auto simp: mesh_unpack_addr_def frame_constants whip6_ieee154AddrExtCpy_def
      whip6_ieee154AddrShortCpy_def shortMemCpy_range addr_ok_def addr_same_def addr_bytes_def
      holds_at_def mem_blit_def)

lemma hop_small: "(h :: u8) < 0xf \<Longrightarrow> h AND 0xf = h"
proof -
  assume "h < 0xf"
  then have "unat h < 16" by (simp add: word_less_nat_alt)
  then have "take_bit 4 h = h" by (simp add: take_bit_eq_mod word_unat_eq_iff unat_mod)
  then show ?thesis by (simp add: take_bit_eq_mask mask_eq_exp_minus_1)
qed

lemma mesh_dispatch_parts:
  "mesh_dispatch h AND 0x0f = (if hopLimit h < 0x0f then hopLimit h else 0x0f)"
  "(mesh_dispatch h AND 0x20 \<noteq> 0) = (addrMode (meshSrcAddr h) = 3)"
  "(mesh_dispatch h AND 0x10 \<noteq> 0) = (addrMode (meshDstAddr h) = 3)"
  "mesh_dispatch h AND 0xc0 = 0x80" "mesh_dispatch h AND 0xd8 \<noteq> 0xc0" "mesh_dispatch h AND 0xe0 \<noteq> 0x60"
  "mesh_dispatch h \<noteq> 0x41"
proof -
  define l where "l = (if hopLimit h < 0x0f then hopLimit h else 0x0f)"
  have l: "l AND 0xf = l" by (simp add: l_def hop_small)
  have z: "l AND k = 0" if "0xf AND k = 0" for k
    using that by (subst l [symmetric]) (simp add: and.assoc)
  have d: "mesh_dispatch h = 0x80 OR l OR (if addrMode (meshSrcAddr h) = 3 then 0x20 else 0) OR
     (if addrMode (meshDstAddr h) = 3 then 0x10 else 0)"
    by (simp add: mesh_dispatch_def l_def)
  show "mesh_dispatch h AND 0x0f = (if hopLimit h < 0x0f then hopLimit h else 0x0f)"
    by (simp add: d bit.conj_disj_distrib2 l) (simp add: l_def)
  show "(mesh_dispatch h AND 0x20 \<noteq> 0) = (addrMode (meshSrcAddr h) = 3)"
    "(mesh_dispatch h AND 0x10 \<noteq> 0) = (addrMode (meshDstAddr h) = 3)"
    "mesh_dispatch h AND 0xc0 = 0x80"
    by (simp_all add: d bit.conj_disj_distrib2 z)
  have c: "mesh_dispatch h AND 0xc0 = 0x80" by (simp add: d bit.conj_disj_distrib2 z)
  show "mesh_dispatch h AND 0xd8 \<noteq> 0xc0"
  proof
    assume "mesh_dispatch h AND 0xd8 = 0xc0"
    then have "(mesh_dispatch h AND 0xd8) AND 0xc0 = 0xc0" by simp
    with c show False by (simp add: and.assoc)
  qed
  show "mesh_dispatch h AND 0xe0 \<noteq> 0x60"
  proof
    assume "mesh_dispatch h AND 0xe0 = 0x60"
    then have "(mesh_dispatch h AND 0xe0) AND 0xc0 = 0x40" by simp
    with c show False by (simp add: and.assoc)
  qed
  show "mesh_dispatch h \<noteq> 0x41"
  proof
    assume "mesh_dispatch h = 0x41"
    with c show False by simp
  qed
qed


definition mesh_same :: "lowpan_unpacked_header_mesh \<Rightarrow> lowpan_unpacked_header_mesh \<Rightarrow> bool" where
  "mesh_same m m' \<longleftrightarrow> hopLimit m = hopLimit m' \<and> addr_same (meshSrcAddr m) (meshSrcAddr m') \<and>
     addr_same (meshDstAddr m) (meshDstAddr m')"

definition mesh_room :: "lowpan_unpacked_header_mesh \<Rightarrow> bool" where
  "mesh_room m \<longleftrightarrow> addr_ok (meshSrcAddr m) \<and> addr_ok (meshDstAddr m)"

lemma unpack_mesh:
  assumes "holds_at buf (p + unat off) (mesh_bytes h)" "unat off + length (mesh_bytes h) \<le> unat len"
    and "mesh_ok h" "mesh_room h0"
  shows "\<exists>m. whip6_lowpanFrameHeadersUnpackMeshHdr h0 buf p off len =
    Some (m, of_nat (length (mesh_bytes h))) \<and> mesh_same m h \<and> mesh_room m"
proof -
  define hl where "hl = (if hopLimit h < 0x0f then [] else [hopLimit h])"
  define sb where "sb = addr_bytes (meshSrcAddr h)"
  define db where "db = addr_bytes (meshDstAddr h)"
  have ok: "addr_ok (meshSrcAddr h)" "addr_ok (meshDstAddr h)" "addr_mode_ok (addrMode (meshSrcAddr h))"
    "addr_mode_ok (addrMode (meshDstAddr h))" "addr_ok (meshSrcAddr h0)" "addr_ok (meshDstAddr h0)"
    using assms(3,4) by (simp_all add: mesh_ok_def mesh_room_def)
  have mb: "mesh_bytes h = mesh_dispatch h # hl @ sb @ db"
    by (simp add: mesh_bytes_def hl_def sb_def db_def)
  have len: "unat off + 1 + length hl + length sb + length db \<le> unat len" using assms(2) by (simp add: mb)
  then have lt: "unat off + 1 + length hl + length sb + length db < 256"
    using unat_u8_less [of len] by linarith
  have u1: "unat (off + 1) = Suc (unat off)" using lt off_plus_num(1) [of off] by simp
  define o1 where "o1 = off + 1 + of_nat (length hl)"
  have o1: "unat o1 = unat off + 1 + length hl"
    unfolding o1_def using lt u1 by (subst off_plus) simp_all
  define o2 where "o2 = o1 + of_nat (length sb)"
  have o2: "unat o2 = unat off + 1 + length hl + length sb"
    unfolding o2_def using lt o1 by (subst off_plus) simp_all
  define o3 where "o3 = o2 + of_nat (length db)"
  have o3: "o3 - off = of_nat (length (mesh_bytes h))" by (simp add: o3_def o2_def o1_def mb)
  have at: "p + unat off < length buf" "buf ! (p + unat off) = mesh_dispatch h"
    "holds_at buf (Suc (p + unat off)) hl" "holds_at buf (p + unat o1) sb" "holds_at buf (p + unat o2) db"
    using assms(1) by (simp_all add: mb holds_at_append o1 o2 add.assoc)
  define hop where "hop = (if hopLimit h < 0xf then hopLimit h else (0xf :: u8))"
  have hop: "mesh_dispatch h AND 0xf = hop" by (simp add: mesh_dispatch_parts(1) hop_def)
  have h15: "(hop = 0xf) = (\<not> hopLimit h < 0xf)" by (auto simp: hop_def)
  define hm where "hm = h0\<lparr>hopLimit := hopLimit h\<rparr>"
  have s0: "(if hop = 0xf then do { b \<leftarrow> buf_get buf (p + unat (off + 1));
        Some (h0\<lparr>hopLimit := hop\<rparr>\<lparr>hopLimit := b\<rparr>, off + 1 + 1) }
      else Some (h0\<lparr>hopLimit := hop\<rparr>, off + 1)) = Some (hm, o1)"
    using at(3) u1 by (auto simp: h15 hm_def o1_def hl_def hop_def)
  have record_proj: "hopLimit (h0\<lparr>hopLimit := x\<rparr>) = x" for x by simp
  have hm_proj: "meshSrcAddr hm = meshSrcAddr h0" "meshDstAddr (hm\<lparr>meshSrcAddr := x\<rparr>) = meshDstAddr h0" for x
    by (simp_all add: hm_def)
  obtain sa where sa: "mesh_unpack_addr (addrMode (meshSrcAddr h) = 3) (meshSrcAddr h0) buf p o1 len =
      Some (sa, Some o2)" "addr_same sa (meshSrcAddr h)" "addr_ok sa"
    using unpack_addr [OF ok(1,3,5), of buf p o1 len] at(4) len o1 unfolding o2_def sb_def by auto
  obtain da where da: "mesh_unpack_addr (addrMode (meshDstAddr h) = 3) (meshDstAddr h0) buf p o2 len =
      Some (da, Some o3)" "addr_same da (meshDstAddr h)" "addr_ok da"
    using unpack_addr [OF ok(2,4,6), of buf p o2 len] at(5) len o2 unfolding o3_def db_def by auto
  have c: "\<not> (hop = 0xf \<and> off + 1 \<ge> len)"
    using len u1 by (auto simp: h15 word_le_nat_alt hl_def)
  have "whip6_lowpanFrameHeadersUnpackMeshHdr h0 buf p off len =
      Some (hm\<lparr>meshSrcAddr := sa\<rparr>\<lparr>meshDstAddr := da\<rparr>, o3 - off)"
    by (simp only: whip6_lowpanFrameHeadersUnpackMeshHdr_def buf_get_in [OF at(1)] at(2) bind.bind_lunit
        Let_def hop mesh_dispatch_parts(2,3) record_proj c if_False s0 prod.case option.case hm_proj sa(1) da(1))
  then show ?thesis unfolding o3
    by (intro exI conjI, assumption) (simp_all add: mesh_same_def mesh_room_def hm_def sa da)
qed

section \<open>The stack of headers\<close>

text \<open>A compressed or an uncompressed IPv6 header ends the stack.\<close>

definition end_byte :: "u8 \<Rightarrow> bool" where
  "end_byte b \<longleftrightarrow> b AND 0xe0 = 0x60 \<or> b = 0x41"

lemma and_255 [simp]: "(x :: u8) AND 0xff = x"
proof -
  have "(0xff :: u8) = - 1" by simp
  then show ?thesis by (simp only: and.right_neutral)
qed

lemmas unpack_loop = whip6_lowpanFrameHeadersUnpack_loop.simps

lemma loop_end:
  assumes "p + unat off < length buf" "end_byte (buf ! (p + unat off))" "unat off < unat len"
  shows "whip6_lowpanFrameHeadersUnpack_loop h buf p off len = Some (h\<lparr>nextOffset := off\<rparr>, WHIP6_NO_ERROR)"
proof -
  have "off < len" using assms(3) by (simp add: word_less_nat_alt)
  then show ?thesis using assms(1,2)
    by (subst unpack_loop) (auto simp: lowpan_constants end_byte_def)
qed

lemma loop_bc0:
  assumes "holds_at buf (p + unat off) (bc0_bytes b)" "unat off + 2 \<le> unat len" "bitmap h AND 5 = 0"
  shows "whip6_lowpanFrameHeadersUnpack_loop h buf p off len =
    whip6_lowpanFrameHeadersUnpack_loop (h\<lparr>bitmap := bitmap h OR 4, hdrBc0 := b\<rparr>) buf p (off + 2) len"
proof -
  have "off < len" using assms(2) by (simp add: word_less_nat_alt)
  moreover have "p + unat off < length buf" "buf ! (p + unat off) = 0x50"
    using assms(1) by (simp_all add: bc0_bytes_def)
  ultimately show ?thesis using assms(3) unpack_bc0 [OF assms(1,2)]
    by (subst unpack_loop) (simp add: lowpan_constants lowpan_bits)
qed

lemma loop_mesh:
  assumes "holds_at buf (p + unat off) (mesh_bytes m)" "unat off + length (mesh_bytes m) \<le> unat len"
    and "mesh_ok m" "mesh_room (hdrMesh h)" "bitmap h AND 7 = 0"
  shows "\<exists>m'. mesh_same m' m \<and> mesh_room m' \<and> whip6_lowpanFrameHeadersUnpack_loop h buf p off len =
    whip6_lowpanFrameHeadersUnpack_loop (h\<lparr>bitmap := bitmap h OR 2, hdrMesh := m'\<rparr>) buf p
      (off + of_nat (length (mesh_bytes m))) len"
proof -
  obtain m' where m': "whip6_lowpanFrameHeadersUnpackMeshHdr (hdrMesh h) buf p off len =
      Some (m', of_nat (length (mesh_bytes m)))" "mesh_same m' m" "mesh_room m'"
    using unpack_mesh [OF assms(1-4)] by auto
  have l: "0 < length (mesh_bytes m)" "length (mesh_bytes m) < 256"
    using bytes_nonempty(1) [of m] assms(2) unat_u8_less [of len] by linarith+
  then have nz: "(of_nat (length (mesh_bytes m)) :: u8) \<noteq> 0" by (intro of_nat_length_nz) auto
  have "unat off < unat len" using assms(2) l(1) by linarith
  then have "off < len" by (simp add: word_less_nat_alt)
  moreover have "p + unat off < length buf" "buf ! (p + unat off) = mesh_dispatch m"
    using assms(1) by (simp_all add: mesh_bytes_def)
  ultimately have "whip6_lowpanFrameHeadersUnpack_loop h buf p off len =
    whip6_lowpanFrameHeadersUnpack_loop (h\<lparr>bitmap := bitmap h OR 2, hdrMesh := m'\<rparr>) buf p
      (off + of_nat (length (mesh_bytes m))) len"
    using assms(5) m'(1) nz mesh_dispatch_parts(4-7) [of m]
    by (subst unpack_loop) (simp add: lowpan_constants lowpan_bits)
  then show ?thesis using m'(2,3) by blast
qed

lemma frag_dispatch_class:
  "((h AND 7) OR 0xe0) AND 0xe0 = (0xe0 :: u8)" "((h AND 7) OR 0xc0) AND 0xe0 = (0xc0 :: u8)"
  "((h AND 7) OR 0xe0) AND 0xd8 = (0xc0 :: u8)" "((h AND 7) OR 0xc0) AND 0xd8 = (0xc0 :: u8)"
  by (simp_all add: bit.conj_disj_distrib2 and.assoc)

lemma frag_dispatch_not_ipv6:
  "((h AND 7) OR 0xe0) \<noteq> (0x41 :: u8)" "((h AND 7) OR 0xc0) \<noteq> (0x41 :: u8)"
proof -
  show "((h AND 7) OR 0xe0) \<noteq> 0x41"
  proof
    assume "(h AND 7) OR 0xe0 = 0x41"
    then show False using frag_dispatch_class(1) [of h] by (simp only:) simp
  qed
  show "((h AND 7) OR 0xc0) \<noteq> 0x41"
  proof
    assume "(h AND 7) OR 0xc0 = 0x41"
    then show False using frag_dispatch_class(2) [of h] by (simp only:) simp
  qed
qed

lemma loop_frag:
  assumes "holds_at buf (p + unat off) (frag_bytes g)" "unat off + length (frag_bytes g) \<le> unat len"
    and "frag_ok g" "bitmap h AND 1 = 0"
  shows "whip6_lowpanFrameHeadersUnpack_loop h buf p off len =
    (let h = h\<lparr>bitmap := bitmap h OR 1, hdrFrag := g\<rparr>; off = off + of_nat (length (frag_bytes g))
     in if fragOffset g > 0 then Some (h\<lparr>nextOffset := off\<rparr>, WHIP6_NO_ERROR)
        else whip6_lowpanFrameHeadersUnpack_loop h buf p off len)"
proof -
  define d where "d = (u16_hi (fragSize g) AND 7) OR (if fragOffset g > 0 then 0xe0 else 0xc0)"
  have l: "0 < length (frag_bytes g)" "length (frag_bytes g) < 256"
    using bytes_nonempty(2) [of g] assms(2) unat_u8_less [of len] by linarith+
  then have nz: "(of_nat (length (frag_bytes g)) :: u8) \<noteq> 0" by (intro of_nat_length_nz) auto
  have "unat off < unat len" using assms(2) l(1) by linarith
  then have "off < len" by (simp add: word_less_nat_alt)
  moreover have "p + unat off < length buf" "buf ! (p + unat off) = d"
    using assms(1) by (simp_all add: frag_bytes_def d_def)
  moreover have "d AND 0xe0 \<noteq> 0x60" "d AND 0xd8 = 0xc0" "d \<noteq> 0x41"
    by (simp_all add: d_def frag_dispatch_class frag_dispatch_not_ipv6)
  ultimately show ?thesis
    using assms(4) unpack_frag [OF assms(1-3)] nz
    by (subst unpack_loop) (simp add: lowpan_constants lowpan_bits Let_def)
qed

section \<open>Round trip\<close>

text \<open>What the reader finds of a stack: the headers that are present, and nothing of the others.\<close>

definition hdrs_same :: "lowpan_unpacked_frame_headers \<Rightarrow> lowpan_unpacked_frame_headers \<Rightarrow> bool" where
  "hdrs_same h h' \<longleftrightarrow>
     whip6_lowpanFrameHeadersHasMeshHeader h = whip6_lowpanFrameHeadersHasMeshHeader h' \<and>
     whip6_lowpanFrameHeadersHasBc0Header h = whip6_lowpanFrameHeadersHasBc0Header h' \<and>
     whip6_lowpanFrameHeadersHasFragHeader h = whip6_lowpanFrameHeadersHasFragHeader h' \<and>
     (whip6_lowpanFrameHeadersHasMeshHeader h' \<longrightarrow> mesh_same (hdrMesh h) (hdrMesh h')) \<and>
     (whip6_lowpanFrameHeadersHasBc0Header h' \<longrightarrow> hdrBc0 h = hdrBc0 h') \<and>
     (whip6_lowpanFrameHeadersHasFragHeader h' \<longrightarrow> hdrFrag h = hdrFrag h')"

text \<open>
  A fragment that is not the first one has payload bytes after its headers; every other frame
  has an IPv6 header there, which ends the loop.
\<close>

definition stack_ends :: "lowpan_unpacked_frame_headers \<Rightarrow> u8 list \<Rightarrow> nat \<Rightarrow> u8 \<Rightarrow> bool" where
  "stack_ends h buf p len \<longleftrightarrow>
     (whip6_lowpanFrameHeadersHasFragHeader h \<and> fragOffset (hdrFrag h) > 0) \<or>
     (length (hdrs_bytes h) < unat len \<and> end_byte (buf ! (p + length (hdrs_bytes h))))"

lemma headers_loop:
  assumes at: "holds_at buf p (hdrs_bytes h)" and len: "length (hdrs_bytes h) \<le> unat len"
    and room: "p + unat len \<le> length buf" and stop: "stack_ends h buf p len"
    and m: "whip6_lowpanFrameHeadersHasMeshHeader h \<Longrightarrow> mesh_ok (hdrMesh h)"
    and fr: "whip6_lowpanFrameHeadersHasFragHeader h \<Longrightarrow> frag_ok (hdrFrag h)"
    and h0: "bitmap h0 = 0" "mesh_room (hdrMesh h0)"
  shows "\<exists>h'. whip6_lowpanFrameHeadersUnpack_loop h0 buf p 0 len = Some (h', WHIP6_NO_ERROR) \<and>
    hdrs_same h' h \<and> nextOffset h' = of_nat (length (hdrs_bytes h)) \<and> mesh_room (hdrMesh h')"
proof -
  let ?M = "whip6_lowpanFrameHeadersHasMeshHeader h" and ?B = "whip6_lowpanFrameHeadersHasBc0Header h"
    and ?F = "whip6_lowpanFrameHeadersHasFragHeader h"
  define mb where "mb = (if ?M then mesh_bytes (hdrMesh h) else [])"
  define bb where "bb = (if ?B then bc0_bytes (hdrBc0 h) else [])"
  define fb where "fb = (if ?F then frag_bytes (hdrFrag h) else [])"
  have hb: "hdrs_bytes h = mb @ bb @ fb" by (simp add: hdrs_bytes_def mb_def bb_def fb_def)
  have lens: "length mb + length bb + length fb \<le> unat len" using len by (simp add: hb)
  then have lt: "length mb + length bb + length fb < 256" using unat_u8_less [of len] by linarith
  define o1 where "o1 = (of_nat (length mb) :: u8)"
  define o2 where "o2 = o1 + of_nat (length bb)"
  define o3 where "o3 = o2 + of_nat (length fb)"
  have o1: "unat o1 = length mb" using lt by (simp add: o1_def unat_of_nat)
  have o2: "unat o2 = length mb + length bb" unfolding o2_def using lt o1 by (subst off_plus) simp_all
  have o3: "o3 = of_nat (length (hdrs_bytes h))" by (simp add: o3_def o2_def o1_def hb)
  have o3': "unat o3 = length (hdrs_bytes h)" unfolding o3 using lt by (intro unat_u8_of_nat) (simp add: hb)
  have at: "holds_at buf p mb" "holds_at buf (p + unat o1) bb" "holds_at buf (p + unat o2) fb"
    using at by (simp_all add: hb holds_at_append o1 o2 add.assoc)
  define L where "L = (\<lambda>h off. whip6_lowpanFrameHeadersUnpack_loop h buf p off len)"
  have "\<exists>h1. L h0 0 = L h1 o1 \<and> bitmap h1 = (if ?M then 2 else 0) \<and> (?M \<longrightarrow> mesh_same (hdrMesh h1) (hdrMesh h)) \<and>
      mesh_room (hdrMesh h1)"
    using loop_mesh [of buf p 0 "hdrMesh h" len h0] at(1) lens m h0
    by (cases ?M) (auto simp: L_def mb_def o1_def)
  then obtain h1 where h1: "L h0 0 = L h1 o1" "bitmap h1 = (if ?M then 2 else 0)"
    "?M \<longrightarrow> mesh_same (hdrMesh h1) (hdrMesh h)" "mesh_room (hdrMesh h1)" by blast
  define h2 where "h2 = (if ?B then h1\<lparr>bitmap := bitmap h1 OR 4, hdrBc0 := hdrBc0 h\<rparr> else h1)"
  have s2: "L h1 o1 = L h2 o2"
    using loop_bc0 [of buf p o1 "hdrBc0 h" len h1] at(2) lens h1(2)
    by (auto simp: L_def h2_def bb_def o2_def o1 bytes_nonempty)
  define h3 where "h3 = (if ?F then h2\<lparr>bitmap := bitmap h2 OR 1, hdrFrag := hdrFrag h\<rparr> else h2)"
  have b: "bitmap h3 = (if ?M then 2 else 0) OR (if ?B then 4 else 0) OR (if ?F then 1 else 0)"
    by (simp add: h3_def h2_def h1(2))
  have same: "hdrs_same (h3\<lparr>nextOffset := x\<rparr>) h" for x
    unfolding hdrs_same_def whip6_lowpanFrameHeadersHasMeshHeader_def [of "h3\<lparr>nextOffset := x\<rparr>"]
      whip6_lowpanFrameHeadersHasBc0Header_def [of "h3\<lparr>nextOffset := x\<rparr>"]
      whip6_lowpanFrameHeadersHasFragHeader_def [of "h3\<lparr>nextOffset := x\<rparr>"]
    using h1(3) by (simp add: b lowpan_bits bit.conj_disj_distrib2) (simp add: h3_def h2_def)
  have s3: "L h2 o2 = (if ?F \<and> fragOffset (hdrFrag h) > 0
      then Some (h3\<lparr>nextOffset := o3\<rparr>, WHIP6_NO_ERROR) else L h3 o3)"
    using loop_frag [of buf p o2 "hdrFrag h" len h2] at(3) lens fr h1(2)
    by (auto simp: L_def h2_def h3_def fb_def o3_def o2 Let_def)
  have s4: "L h3 o3 = Some (h3\<lparr>nextOffset := o3\<rparr>, WHIP6_NO_ERROR)"
    if "\<not> (?F \<and> fragOffset (hdrFrag h) > 0)"
  proof -
    have e: "length (hdrs_bytes h) < unat len" "end_byte (buf ! (p + length (hdrs_bytes h)))"
      using that stop by (auto simp: stack_ends_def)
    then show ?thesis unfolding L_def using room by (intro loop_end) (simp_all add: o3')
  qed
  have "L h0 0 = Some (h3\<lparr>nextOffset := o3\<rparr>, WHIP6_NO_ERROR)"
    using h1(1) s2 s3 s4 by (simp split: if_splits)
  moreover have "hdrMesh (h3\<lparr>nextOffset := o3\<rparr>) = hdrMesh h1" by (simp add: h3_def h2_def)
  ultimately show ?thesis using same h1(4) by (auto simp: L_def o3)
qed

lemma headers_unpack:
  assumes g: "frame_layout dm sm ip g" "whip6_ieee154DFrameGetPayloadLen g = Some len"
    and at: "holds_at (bufferPtr g) (fr_pay dm sm ip) (hdrs_bytes h)" "length (hdrs_bytes h) \<le> unat len"
    and room: "fr_pay dm sm ip + unat len \<le> length (bufferPtr g)"
    and stop: "stack_ends h (bufferPtr g) (fr_pay dm sm ip) len"
    and m: "whip6_lowpanFrameHeadersHasMeshHeader h \<Longrightarrow> mesh_ok (hdrMesh h)"
    and fr: "whip6_lowpanFrameHeadersHasFragHeader h \<Longrightarrow> frag_ok (hdrFrag h)"
    and h0: "mesh_room (hdrMesh h0)"
  shows "\<exists>h'. whip6_lowpanFrameHeadersUnpack h0 g = Some (h', WHIP6_NO_ERROR) \<and> hdrs_same h' h \<and>
    nextOffset h' = of_nat (length (hdrs_bytes h)) \<and> mesh_room (hdrMesh h')"
proof -
  have "whip6_ieee154DFrameUnsafeGetPayloadPtr g = fr_pay dm sm ip"
    using g(1) by (auto simp: frame_layout_offsets)
  then show ?thesis
    using headers_loop [OF at room stop m fr, of "h0\<lparr>bitmap := 0, nextOffset := 0\<rparr>"] h0 g(2)
    by (simp add: whip6_lowpanFrameHeadersUnpack_def)
qed

lemma headers_pack_unpack:
  assumes f: "frame_fits dm sm ip f"
    and m: "whip6_lowpanFrameHeadersHasMeshHeader h \<Longrightarrow> mesh_ok (hdrMesh h)"
    and fr: "whip6_lowpanFrameHeadersHasFragHeader h \<Longrightarrow> frag_ok (hdrFrag h)"
    and fit: "length (hdrs_bytes h @ payload) \<le> unat (whip6_ieee154DFrameMaxPayloadLen f)"
    and stop: "(whip6_lowpanFrameHeadersHasFragHeader h \<and> fragOffset (hdrFrag h) > 0) \<or>
      (payload \<noteq> [] \<and> end_byte (hd payload))"
    and h0: "mesh_room (hdrMesh h0)"
  shows "\<exists>h1 f1 f2 h2. whip6_lowpanFrameHeadersPack h f = Some (h1, f1, WHIP6_NO_ERROR) \<and>
    whip6_ieee154DFrameSetPayloadLen (frame_blit (fr_pay dm sm ip + unat (nextOffset h1)) payload f1)
      (nextOffset h1 + of_nat (length payload)) = Some f2 \<and>
    whip6_lowpanFrameHeadersUnpack h0 f2 = Some (h2, WHIP6_NO_ERROR) \<and>
    hdrs_same h2 h \<and> nextOffset h2 = nextOffset h1"
proof -
  let ?p = "fr_pay dm sm ip" and ?hb = "hdrs_bytes h"
  define n where "n = (of_nat (length ?hb) :: u8)"
  define len where "len = (of_nat (length (?hb @ payload)) :: u8)"
  note maxl = unat_MaxPayloadLen [OF f]
  have lt: "length (?hb @ payload) < 256"
    using fit unat_u8_less [of "whip6_ieee154DFrameMaxPayloadLen f"] by linarith
  have n: "unat n = length ?hb" using lt by (simp add: n_def unat_of_nat)
  have len: "unat len = length (?hb @ payload)" unfolding len_def by (rule unat_u8_of_nat [OF lt])
  have room: "?p + length (?hb @ payload) \<le> length (bufferPtr f)" using fit maxl(2) by linarith
  define f1 where "f1 = frame_blit ?p ?hb f"
  define fp where "fp = frame_blit ?p (?hb @ payload) f"
  have fp: "frame_blit (?p + unat n) payload f1 = fp"
    using room by (simp add: fp_def f1_def n frame_blit_def mem_blit_append)
  have pk: "whip6_lowpanFrameHeadersPack h f = Some (h\<lparr>nextOffset := n\<rparr>, f1, WHIP6_NO_ERROR)"
    unfolding n_def f1_def using fit by (intro headers_pack f m fr) simp_all
  have fpf: "frame_fits dm sm ip fp"
    unfolding fp_def using room by (intro frame_blit_fits [THEN iffD2] f) simp
  define f2 where "f2 = frame_blit 0 [len + of_nat (?p - 1)] fp"
  have set: "whip6_ieee154DFrameSetPayloadLen fp len = Some f2"
    unfolding f2_def by (rule SetPayloadLen_eq [OF fpf])
  obtain f2' where "whip6_ieee154DFrameSetPayloadLen fp len = Some f2'" "frame_fits dm sm ip f2'"
    "whip6_ieee154DFrameGetPayloadLen f2' = Some len"
    using SetPayloadLen_Get [OF fpf] by blast
  with set have f2: "frame_fits dm sm ip f2" "whip6_ieee154DFrameGetPayloadLen f2 = Some len" by simp_all
  have p0: "10 \<le> ?p" using f by (intro fr_bounds(5)) (auto simp: frame_fits_def frame_layout_def)
  have lp: "length (bufferPtr fp) = length (bufferPtr f)"
    using room by (simp add: fp_def frame_blit_def)
  have "1 \<le> length (bufferPtr fp)" unfolding lp using room p0 by linarith
  then have l2: "length (bufferPtr f2) = length (bufferPtr f)"
    using lp by (simp only: f2_def frame_blit_def ieee154_dframe_info.simps mem_blit_length) simp
  have "holds_at (bufferPtr fp) ?p (?hb @ payload)"
    using room by (simp add: fp_def frame_blit_def holds_at_blit)
  then have at: "holds_at (bufferPtr f2) ?p (?hb @ payload)"
    unfolding f2_def frame_blit_def using p0 room
    by simp (intro holds_at_blit_other, simp_all add: fp_def frame_blit_def)
  have "stack_ends h (bufferPtr f2) ?p len"
    using stop at len by (cases payload) (auto simp: stack_ends_def holds_at_append)
  then have "\<exists>h2. whip6_lowpanFrameHeadersUnpack h0 f2 = Some (h2, WHIP6_NO_ERROR) \<and> hdrs_same h2 h \<and>
      nextOffset h2 = n \<and> mesh_room (hdrMesh h2)"
    unfolding n_def using f2 at room len l2 h0
    by (intro headers_unpack [where dm = dm and sm = sm and ip = ip and len = len] m fr)
      (simp_all add: frame_fits_def holds_at_append)
  moreover have "n + of_nat (length payload) = len" by (simp add: n_def len_def)
  ultimately show ?thesis using pk fp set by fastforce
qed

section \<open>Properties\<close>

text \<open>C7: The 6LoWPAN headers (mesh, broadcast, fragment) that a sender packs into a frame, followed by a
  payload that begins with an IPv6 or a compressed header (or by any payload, for a fragment that
  is not the first), are what the receiver unpacks, and the payload begins where it says.\<close>

theorem lowpan_headers_roundtrip:
  assumes "frame_fits dm sm ip f"
    and "whip6_lowpanFrameHeadersHasMeshHeader h \<Longrightarrow> mesh_ok (hdrMesh h)"
    and "whip6_lowpanFrameHeadersHasFragHeader h \<Longrightarrow> frag_ok (hdrFrag h)"
    and "length (hdrs_bytes h @ payload) \<le> unat (whip6_ieee154DFrameMaxPayloadLen f)"
    and "(whip6_lowpanFrameHeadersHasFragHeader h \<and> fragOffset (hdrFrag h) > 0) \<or>
      (payload \<noteq> [] \<and> end_byte (hd payload))"
    and "mesh_room (hdrMesh h0)"
  shows "\<exists>h1 f1 f2 h2. whip6_lowpanFrameHeadersPack h f = Some (h1, f1, WHIP6_NO_ERROR) \<and>
    whip6_ieee154DFrameSetPayloadLen (frame_blit (fr_pay dm sm ip + unat (nextOffset h1)) payload f1)
      (nextOffset h1 + of_nat (length payload)) = Some f2 \<and>
    whip6_lowpanFrameHeadersUnpack h0 f2 = Some (h2, WHIP6_NO_ERROR) \<and>
    hdrs_same h2 h \<and> nextOffset h2 = nextOffset h1"
  by (rule headers_pack_unpack [OF assms])

definition ex_headers :: lowpan_unpacked_frame_headers where
  "ex_headers = \<lparr>bitmap = 3, nextOffset = 0, hdrFrag = \<lparr>fragTag = 7, fragSize = 200, fragOffset = 96\<rparr>,
     hdrMesh = \<lparr>hopLimit = 20, meshSrcAddr = \<lparr>addrMode = 2, addrVars = replicate 8 1\<rparr>,
       meshDstAddr = \<lparr>addrMode = 3, addrVars = replicate 8 2\<rparr>\<rparr>, hdrBc0 = \<lparr>bc0SeqNo = 0\<rparr>\<rparr>"

definition ex_lowpan_frame :: ieee154_dframe_info where
  "ex_lowpan_frame = fr_info 2 3 False (replicate 127 0) 127"

lemma ex_lowpan_frame_fits: "frame_fits 2 3 False ex_lowpan_frame"
  using fr_info_layout [of 2 3 False "replicate 127 0" 127]
  by (simp add: ex_lowpan_frame_def frame_fits_def addr_mode_ok_def) (simp add: fr_info_def fr_defs)

lemma ex_headers_has:
  "whip6_lowpanFrameHeadersHasMeshHeader ex_headers" "whip6_lowpanFrameHeadersHasFragHeader ex_headers"
  "\<not> whip6_lowpanFrameHeadersHasBc0Header ex_headers"
  by (simp_all add: ex_headers_def whip6_lowpanFrameHeadersHasMeshHeader_def
      whip6_lowpanFrameHeadersHasFragHeader_def whip6_lowpanFrameHeadersHasBc0Header_def lowpan_bits)

theorem lowpan_headers_roundtrip_witness:
  "\<exists>h1 f1 f2 h2. whip6_lowpanFrameHeadersPack ex_headers ex_lowpan_frame = Some (h1, f1, WHIP6_NO_ERROR) \<and>
    whip6_ieee154DFrameSetPayloadLen (frame_blit (fr_pay 2 3 False + unat (nextOffset h1)) [1, 2] f1)
      (nextOffset h1 + of_nat (length [1 :: u8, 2])) = Some f2 \<and>
    whip6_lowpanFrameHeadersUnpack ex_headers f2 = Some (h2, WHIP6_NO_ERROR) \<and>
    hdrs_same h2 ex_headers \<and> nextOffset h2 = nextOffset h1"
proof (rule lowpan_headers_roundtrip [OF ex_lowpan_frame_fits])
  show "mesh_ok (hdrMesh ex_headers)" "frag_ok (hdrFrag ex_headers)" "mesh_room (hdrMesh ex_headers)"
    by (simp_all add: ex_headers_def mesh_ok_def frag_ok_def mesh_room_def addr_ok_def addr_mode_ok_def)
  show "(whip6_lowpanFrameHeadersHasFragHeader ex_headers \<and> fragOffset (hdrFrag ex_headers) > 0) \<or>
      ([1, 2] \<noteq> ([] :: u8 list) \<and> end_byte (hd [1, 2]))"
    using ex_headers_has(2) by (simp add: ex_headers_def)
  have "fr_pay 2 3 False = 16" by (simp add: fr_defs)
  then have "unat (whip6_ieee154DFrameMaxPayloadLen ex_lowpan_frame) = 111"
    using unat_MaxPayloadLen(1) [OF ex_lowpan_frame_fits] by (simp add: ex_lowpan_frame_def fr_info_def)
  moreover have "length (hdrs_bytes ex_headers) = 17"
    by (simp add: hdrs_bytes_def ex_headers_has)
      (simp add: ex_headers_def mesh_bytes_def frag_bytes_def addr_bytes_def addr_len_def frame_constants)
  ultimately show "length (hdrs_bytes ex_headers @ [1, 2]) \<le> unat (whip6_ieee154DFrameMaxPayloadLen ex_lowpan_frame)"
    by simp
qed

end
