(* ===== verification/Ipv6_BasicHeader.thy ===== *)
theory Ipv6_BasicHeader
  imports Base_String
begin

text \<open>
  The basic IPv6 header: \<open>microc/include/ipv6/ucIpv6BasicHeaderTypes.h\<close> and
  \<open>microc/include/ipv6/detail/ucIpv6BasicHeaderManipulationImpl.h\<close>.

  The header is a packed structure of byte arrays, which the stack also accesses as raw memory of
  \<open>sizeof(ipv6_basic_header_t)\<close> bytes; \<open>header_bytes\<close> and \<open>header_of_bytes\<close> are that memory.
  The expressions with \<open>uint8_t\<close> operands are evaluated in \<open>int\<close> and converted back, as in
  the code.
\<close>

record ipv6_basic_header =
  verTcFl :: "u8 list"
  payloadLenBytes :: "u8 list"
  nextHdrByte :: u8
  hopLimitByte :: u8
  hdrSrcAddr :: "u8 list"
  hdrDstAddr :: "u8 list"

definition IPV6_BASIC_HEADER_SIZE :: nat where "IPV6_BASIC_HEADER_SIZE = 40"

definition header_ok :: "ipv6_basic_header \<Rightarrow> bool" where
  "header_ok h \<longleftrightarrow> length (verTcFl h) = 4 \<and> length (payloadLenBytes h) = 2 \<and>
     length (hdrSrcAddr h) = 16 \<and> length (hdrDstAddr h) = 16"

definition header_bytes :: "ipv6_basic_header \<Rightarrow> u8 list" where
  "header_bytes h = verTcFl h @ payloadLenBytes h @ [nextHdrByte h, hopLimitByte h] @ hdrSrcAddr h @ hdrDstAddr h"

definition header_of_bytes :: "u8 list \<Rightarrow> ipv6_basic_header" where
  "header_of_bytes bs =
     \<lparr>verTcFl = take 4 bs, payloadLenBytes = take 2 (drop 4 bs), nextHdrByte = bs ! 6,
      hopLimitByte = bs ! 7, hdrSrcAddr = take 16 (drop 8 bs), hdrDstAddr = take 16 (drop 24 bs)\<rparr>"

lemma header_bytes_length: "header_ok h \<Longrightarrow> length (header_bytes h) = 40"
  by (simp add: header_ok_def header_bytes_def)

lemma header_of_bytes_ok: "length bs = 40 \<Longrightarrow> header_ok (header_of_bytes bs)"
  by (simp add: header_ok_def header_of_bytes_def)

lemma header_of_header_bytes: "header_ok h \<Longrightarrow> header_of_bytes (header_bytes h) = h"
  by (simp add: header_ok_def header_bytes_def header_of_bytes_def nth_append)

lemma header_bytes_of_bytes: "length bs = 40 \<Longrightarrow> header_bytes (header_of_bytes bs) = bs"
proof -
  assume l: "length bs = 40"
  have "bs = take 4 bs @ drop 4 bs" by simp
  also have "drop 4 bs = take 2 (drop 4 bs) @ drop 6 bs"
    using append_take_drop_id [of 2 "drop 4 bs"] by simp
  also have "drop 6 bs = bs ! 6 # bs ! 7 # drop 8 bs"
    using l Cons_nth_drop_Suc [of 6 bs] Cons_nth_drop_Suc [of 7 bs] by simp
  also have "drop 8 bs = take 16 (drop 8 bs) @ drop 24 bs"
    using append_take_drop_id [of 16 "drop 8 bs"] by simp
  finally show ?thesis using l by (simp add: header_bytes_def header_of_bytes_def)
qed

section \<open>The fields\<close>

definition whip6_ipv6BasicHeaderGetVersion :: "ipv6_basic_header \<Rightarrow> u8" where
  "whip6_ipv6BasicHeaderGetVersion hdr = drop_bit 4 (verTcFl hdr ! 0)"

definition whip6_ipv6BasicHeaderSetVersion :: "ipv6_basic_header \<Rightarrow> u8 \<Rightarrow> ipv6_basic_header" where
  "whip6_ipv6BasicHeaderSetVersion hdr ver =
     hdr\<lparr>verTcFl := (verTcFl hdr)[0 := (verTcFl hdr ! 0 AND 0x0f) OR push_bit 4 ver]\<rparr>"

definition whip6_ipv6BasicHeaderGetTrafficClass :: "ipv6_basic_header \<Rightarrow> u8" where
  "whip6_ipv6BasicHeaderGetTrafficClass hdr =
     push_bit 4 (verTcFl hdr ! 0) OR drop_bit 4 (verTcFl hdr ! 1)"

definition whip6_ipv6BasicHeaderSetTrafficClass :: "ipv6_basic_header \<Rightarrow> u8 \<Rightarrow> ipv6_basic_header" where
  "whip6_ipv6BasicHeaderSetTrafficClass hdr tc =
     (let v = verTcFl hdr;
          v = v[0 := (v ! 0 AND 0xf0) OR drop_bit 4 tc];
          v = v[1 := (v ! 1 AND 0x0f) OR push_bit 4 tc]
      in hdr\<lparr>verTcFl := v\<rparr>)"

definition whip6_ipv6BasicHeaderGetFlowLabel :: "ipv6_basic_header \<Rightarrow> u32" where
  "whip6_ipv6BasicHeaderGetFlowLabel hdr =
     push_bit 16 (ucast (verTcFl hdr ! 1 AND 0x0f)) OR ucast (u16_join (verTcFl hdr ! 2) (verTcFl hdr ! 3))"

definition whip6_ipv6BasicHeaderSetFlowLabel :: "ipv6_basic_header \<Rightarrow> u32 \<Rightarrow> ipv6_basic_header" where
  "whip6_ipv6BasicHeaderSetFlowLabel hdr fl =
     (let v = verTcFl hdr;
          v = v[3 := ucast fl];
          v = v[2 := ucast (drop_bit 8 fl)];
          v = v[1 := (v ! 1 AND 0xf0) OR (ucast (drop_bit 16 fl) AND 0x0f)]
      in hdr\<lparr>verTcFl := v\<rparr>)"

definition whip6_ipv6BasicHeaderGetPayloadLength :: "ipv6_basic_header \<Rightarrow> u16" where
  "whip6_ipv6BasicHeaderGetPayloadLength hdr = u16_join (payloadLenBytes hdr ! 0) (payloadLenBytes hdr ! 1)"

definition whip6_ipv6BasicHeaderSetPayloadLength :: "ipv6_basic_header \<Rightarrow> u16 \<Rightarrow> ipv6_basic_header" where
  "whip6_ipv6BasicHeaderSetPayloadLength hdr pl =
     hdr\<lparr>payloadLenBytes := (payloadLenBytes hdr)[0 := u16_hi pl, 1 := u16_lo pl]\<rparr>"

definition whip6_ipv6BasicHeaderGetNextHeader :: "ipv6_basic_header \<Rightarrow> u8" where
  "whip6_ipv6BasicHeaderGetNextHeader hdr = nextHdrByte hdr"

definition whip6_ipv6BasicHeaderSetNextHeader :: "ipv6_basic_header \<Rightarrow> u8 \<Rightarrow> ipv6_basic_header" where
  "whip6_ipv6BasicHeaderSetNextHeader hdr nh = hdr\<lparr>nextHdrByte := nh\<rparr>"

definition whip6_ipv6BasicHeaderGetHopLimit :: "ipv6_basic_header \<Rightarrow> u8" where
  "whip6_ipv6BasicHeaderGetHopLimit hdr = hopLimitByte hdr"

definition whip6_ipv6BasicHeaderSetHopLimit :: "ipv6_basic_header \<Rightarrow> u8 \<Rightarrow> ipv6_basic_header" where
  "whip6_ipv6BasicHeaderSetHopLimit hdr hl = hdr\<lparr>hopLimitByte := hl\<rparr>"

definition whip6_ipv6BasicHeaderGetSrcAddr :: "ipv6_basic_header \<Rightarrow> u8 list" where
  "whip6_ipv6BasicHeaderGetSrcAddr hdr = hdrSrcAddr hdr"

definition whip6_ipv6BasicHeaderGetDstAddr :: "ipv6_basic_header \<Rightarrow> u8 list" where
  "whip6_ipv6BasicHeaderGetDstAddr hdr = hdrDstAddr hdr"

lemmas header_defs = whip6_ipv6BasicHeaderGetVersion_def whip6_ipv6BasicHeaderSetVersion_def
  whip6_ipv6BasicHeaderGetTrafficClass_def whip6_ipv6BasicHeaderSetTrafficClass_def
  whip6_ipv6BasicHeaderGetFlowLabel_def whip6_ipv6BasicHeaderSetFlowLabel_def
  whip6_ipv6BasicHeaderGetPayloadLength_def whip6_ipv6BasicHeaderSetPayloadLength_def
  whip6_ipv6BasicHeaderGetNextHeader_def whip6_ipv6BasicHeaderSetNextHeader_def
  whip6_ipv6BasicHeaderGetHopLimit_def whip6_ipv6BasicHeaderSetHopLimit_def

section \<open>Each setter changes its own field only\<close>

lemma setters_ok:
  assumes "header_ok h"
  shows "header_ok (whip6_ipv6BasicHeaderSetVersion h v)" "header_ok (whip6_ipv6BasicHeaderSetTrafficClass h tc)"
    "header_ok (whip6_ipv6BasicHeaderSetFlowLabel h fl)" "header_ok (whip6_ipv6BasicHeaderSetPayloadLength h pl)"
    "header_ok (whip6_ipv6BasicHeaderSetNextHeader h nh)" "header_ok (whip6_ipv6BasicHeaderSetHopLimit h hl)"
  using assms by (simp_all add: header_defs header_ok_def Let_def)

lemma nibble_bits: "bit (0x0f :: int) n \<longleftrightarrow> n < 4" "bit (0xf0 :: int) n \<longleftrightarrow> 4 \<le> n \<and> n < 8"
  "bit (0xf00 :: int) n \<longleftrightarrow> 8 \<le> n \<and> n < 12" "bit (0xfffff :: int) n \<longleftrightarrow> n < 20"
proof -
  have eq: "(0x0f :: int) = mask 4" "(0xf0 :: int) = push_bit 4 (mask 4)" "(0xf00 :: int) = push_bit 8 (mask 4)"
    "(0xfffff :: int) = mask 20" by (simp_all add: mask_eq_exp_minus_1)
  show "bit (0x0f :: int) n \<longleftrightarrow> n < 4" "bit (0xf0 :: int) n \<longleftrightarrow> 4 \<le> n \<and> n < 8"
    "bit (0xf00 :: int) n \<longleftrightarrow> 8 \<le> n \<and> n < 12" "bit (0xfffff :: int) n \<longleftrightarrow> n < 20"
    unfolding eq by (auto simp: bit_simps)
qed

lemma vtf_cases: "header_ok h \<Longrightarrow> \<exists>a b c d. verTcFl h = [a, b, c, d]"
  by (auto simp: header_ok_def length_Suc_conv numeral_eq_Suc)

lemma version_set:
  assumes "header_ok h"
  shows "whip6_ipv6BasicHeaderGetVersion (whip6_ipv6BasicHeaderSetVersion h v) = v AND 0x0f"
    "whip6_ipv6BasicHeaderGetTrafficClass (whip6_ipv6BasicHeaderSetVersion h v) = whip6_ipv6BasicHeaderGetTrafficClass h"
    "whip6_ipv6BasicHeaderGetFlowLabel (whip6_ipv6BasicHeaderSetVersion h v) = whip6_ipv6BasicHeaderGetFlowLabel h"
  using vtf_cases [OF assms]
  by - (elim exE, rule bit_word_eqI,
      (auto simp: header_defs bit_simps nibble_bits Let_def u16_join_def dest: bit_imp_le_length)[1])+

lemma traffic_class_set:
  assumes "header_ok h"
  shows "whip6_ipv6BasicHeaderGetVersion (whip6_ipv6BasicHeaderSetTrafficClass h tc) = whip6_ipv6BasicHeaderGetVersion h"
    "whip6_ipv6BasicHeaderGetTrafficClass (whip6_ipv6BasicHeaderSetTrafficClass h tc) = tc"
    "whip6_ipv6BasicHeaderGetFlowLabel (whip6_ipv6BasicHeaderSetTrafficClass h tc) = whip6_ipv6BasicHeaderGetFlowLabel h"
  using vtf_cases [OF assms]
  by - (elim exE, rule bit_word_eqI,
      (auto simp: header_defs bit_simps nibble_bits Let_def u16_join_def dest: bit_imp_le_length)[1])+

lemma flow_label_set:
  assumes "header_ok h"
  shows "whip6_ipv6BasicHeaderGetVersion (whip6_ipv6BasicHeaderSetFlowLabel h fl) = whip6_ipv6BasicHeaderGetVersion h"
    "whip6_ipv6BasicHeaderGetTrafficClass (whip6_ipv6BasicHeaderSetFlowLabel h fl) = whip6_ipv6BasicHeaderGetTrafficClass h"
    "whip6_ipv6BasicHeaderGetFlowLabel (whip6_ipv6BasicHeaderSetFlowLabel h fl) = fl AND 0xfffff"
  using vtf_cases [OF assms]
  by - (elim exE, rule bit_word_eqI,
      (auto simp: header_defs bit_simps nibble_bits Let_def u16_join_def dest: bit_imp_le_length)[1])+

section \<open>Properties\<close>

text \<open>The fields that share the first four bytes of the IPv6 header do not disturb one another: after
  version, traffic class and flow label are set, each is read back (cut to its 4, 8 and 20 bits),
  and the other bytes of the header are what they were.\<close>

theorem basic_header_fields:
  assumes "header_ok h"
    and "h' = whip6_ipv6BasicHeaderSetVersion (whip6_ipv6BasicHeaderSetTrafficClass
      (whip6_ipv6BasicHeaderSetFlowLabel h fl) tc) v"
  shows "whip6_ipv6BasicHeaderGetVersion h' = v AND 0x0f \<and> whip6_ipv6BasicHeaderGetTrafficClass h' = tc \<and>
    whip6_ipv6BasicHeaderGetFlowLabel h' = fl AND 0xfffff \<and> header_ok h' \<and>
    drop 4 (header_bytes h') = drop 4 (header_bytes h)"
proof -
  note ok = setters_ok(2) [OF setters_ok(3) [OF assms(1)]]
  have "drop 4 (header_bytes h') = drop 4 (header_bytes h)"
    using assms by (simp add: header_defs header_bytes_def header_ok_def Let_def)
  then show ?thesis
    using version_set [OF ok] traffic_class_set [OF setters_ok(3) [OF assms(1)]] flow_label_set [OF assms(1)]
      setters_ok(1) [OF ok] by (simp add: assms(2))
qed

theorem basic_header_fields_witness:
  "\<exists>h'. whip6_ipv6BasicHeaderGetVersion h' = 6 AND 0x0f \<and> whip6_ipv6BasicHeaderGetTrafficClass h' = 0xab \<and>
    whip6_ipv6BasicHeaderGetFlowLabel h' = 0x123456 AND 0xfffff \<and> header_ok h' \<and>
    drop 4 (header_bytes h') = drop 4 (header_bytes (header_of_bytes (replicate 40 7)))"
  using basic_header_fields [where v = 6 and tc = "0xab" and fl = "0x123456",
      OF header_of_bytes_ok [of "replicate 40 7"] refl]
  by (metis length_replicate)

end
