(* ===== verification/Base_IoVecAlloc.thy ===== *)
theory Base_IoVecAlloc
  imports Whip6_Prelude "HOL-Library.Multiset"
begin

text \<open>
  Allocation of I/O vectors: \<open>microc/src/base/ucIoVecAllocation.c\<close> over the chunk allocator of
  \<open>microc/include/external/ucExternalBaseAllocators.h\<close>, and the fixed-size pool that
  implements that allocator (\<open>nesc/whip6/lib/containers/GenericFixedSizeChunkPoolPub.nc\<close> with
  \<open>GenericFixedSizeChunkPoolToIOVElementPoolAdapterPrv.nc\<close>).

  The locale \<open>chunk_allocator\<close> is the documented contract of the allocator: a chunk is at least
  one byte long and not longer than requested, its node was free before, and freeing gives it
  back. The interpretation discharges the contract for the pool.
\<close>

text \<open>An element: the address of its list node, and the bytes of its buffer.\<close>

record iov_elem =
  elemAddr :: nat
  elemBuf :: "u8 list"

abbreviation elemLen :: "iov_elem \<Rightarrow> nat" where
  "elemLen e \<equiv> length (elemBuf e)"

section \<open>Chains\<close>

text \<open>
  The allocator is a pair of functions on its own state. A chain is the list of its elements,
  \<open>NULL\<close> the empty one. The last pointer is written through \<open>lastElemPtrOrNull\<close> only on
  success: the outer \<open>None\<close> of the last component is that it has not been written. The loop
  ends only if the allocator hands out positive lengths, hence \<open>partial_function\<close>.
\<close>

fun whip6_iovFreeChain :: "('s \<Rightarrow> iov_elem \<Rightarrow> 's) \<Rightarrow> 's \<Rightarrow> iov_elem list \<Rightarrow> 's" where
  "whip6_iovFreeChain freeChunk s [] = s"
| "whip6_iovFreeChain freeChunk s (currElem # nextElems) =
     whip6_iovFreeChain freeChunk (freeChunk s currElem) nextElems"

partial_function (option) whip6_iovAllocateChain_loop ::
  "('s \<Rightarrow> nat \<Rightarrow> 's \<times> iov_elem option) \<Rightarrow> ('s \<Rightarrow> iov_elem \<Rightarrow> 's) \<Rightarrow> 's \<Rightarrow> iov_elem list \<Rightarrow>
   nat \<Rightarrow> ('s \<times> iov_elem list \<times> iov_elem option option) option" where
  "whip6_iovAllocateChain_loop allocChunk freeChunk s elems len =
     (if len = 0
      then Some (s, elems, Some (if elems = [] then None else Some (last elems)))
      else case allocChunk s len of
             (s', None) \<Rightarrow> Some (whip6_iovFreeChain freeChunk s' elems, [], None)
           | (s', Some tmpElem) \<Rightarrow>
               whip6_iovAllocateChain_loop allocChunk freeChunk s' (elems @ [tmpElem])
                 (len - elemLen tmpElem))"

definition whip6_iovAllocateChain ::
  "('s \<Rightarrow> nat \<Rightarrow> 's \<times> iov_elem option) \<Rightarrow> ('s \<Rightarrow> iov_elem \<Rightarrow> 's) \<Rightarrow> 's \<Rightarrow> nat \<Rightarrow>
   ('s \<times> iov_elem list \<times> iov_elem option option) option" where
  "whip6_iovAllocateChain allocChunk freeChunk s len =
     whip6_iovAllocateChain_loop allocChunk freeChunk s [] len"

section \<open>The contract of the allocator\<close>

definition chain_len :: "iov_elem list \<Rightarrow> nat" where
  "chain_len elems = sum_list (map elemLen elems)"

definition chain_addrs :: "iov_elem list \<Rightarrow> nat multiset" where
  "chain_addrs elems = mset (map elemAddr elems)"

lemma chain_simps [simp]:
  "chain_len [] = 0" "chain_len (xs @ ys) = chain_len xs + chain_len ys"
  "chain_len (e # xs) = elemLen e + chain_len xs"
  "chain_addrs [] = {#}" "chain_addrs (xs @ ys) = chain_addrs xs + chain_addrs ys"
  "chain_addrs (e # xs) = add_mset (elemAddr e) (chain_addrs xs)"
  by (simp_all add: chain_len_def chain_addrs_def)

locale chunk_allocator =
  fixes allocChunk :: "'s \<Rightarrow> nat \<Rightarrow> 's \<times> iov_elem option"
    and freeChunk :: "'s \<Rightarrow> iov_elem \<Rightarrow> 's"
    and avail :: "'s \<Rightarrow> nat multiset"
    and ok :: "'s \<Rightarrow> bool"
  assumes alloc_Some: "ok s \<Longrightarrow> 0 < n \<Longrightarrow> allocChunk s n = (s', Some e) \<Longrightarrow>
      ok s' \<and> 0 < elemLen e \<and> elemLen e \<le> n \<and> avail s = add_mset (elemAddr e) (avail s')"
    and alloc_None: "ok s \<Longrightarrow> allocChunk s n = (s', None) \<Longrightarrow> ok s' \<and> avail s' = avail s"
    and free: "ok s \<Longrightarrow> ok (freeChunk s e) \<and> avail (freeChunk s e) = add_mset (elemAddr e) (avail s)"
begin

lemma free_chain:
  "ok s \<Longrightarrow> ok (whip6_iovFreeChain freeChunk s elems) \<and>
     avail (whip6_iovFreeChain freeChunk s elems) = avail s + chain_addrs elems"
  by (induction elems arbitrary: s) (auto simp: free)

text \<open>The loop returns; it hands out the requested length or restores what was free.\<close>

lemma alloc_loop:
  assumes "ok s"
  shows "\<exists>s' chain lst. whip6_iovAllocateChain_loop allocChunk freeChunk s elems n = Some (s', chain, lst) \<and>
    ok s' \<and> avail s' + chain_addrs chain = avail s + chain_addrs elems \<and>
    (case lst of
       None \<Rightarrow> chain = [] \<and> 0 < n
     | Some e \<Rightarrow> chain_len chain = chain_len elems + n \<and> (\<exists>t. chain = elems @ t) \<and>
         e = (if chain = [] then None else Some (last chain)))"
  using assms
proof (induction n arbitrary: s elems rule: less_induct)
  case (less n)
  note unf = whip6_iovAllocateChain_loop.simps [of allocChunk freeChunk s elems n]
  show ?case
  proof (cases "n = 0")
    case True
    then show ?thesis using less.prems by (subst unf) simp
  next
    case False
    obtain s1 r where a: "allocChunk s n = (s1, r)" by fastforce
    show ?thesis
    proof (cases r)
      case None
      then show ?thesis using False a alloc_None [OF less.prems, of n s1] free_chain [of s1 elems]
        by (subst unf) simp
    next
      case (Some e)
      note al = alloc_Some [OF less.prems _ a [unfolded Some]]
      have lt: "n - elemLen e < n" using al False by simp
      from less.IH [OF lt, of s1 "elems @ [e]"] al False obtain s' chain lst where
        r: "whip6_iovAllocateChain_loop allocChunk freeChunk s1 (elems @ [e]) (n - elemLen e) =
          Some (s', chain, lst)" "ok s'"
          "avail s' + chain_addrs chain = avail s1 + chain_addrs (elems @ [e])"
        and l: "case lst of
           None \<Rightarrow> chain = [] \<and> 0 < n - elemLen e
         | Some x \<Rightarrow> chain_len chain = chain_len (elems @ [e]) + (n - elemLen e) \<and>
             (\<exists>t. chain = (elems @ [e]) @ t) \<and> x = (if chain = [] then None else Some (last chain))"
        by auto
      have "whip6_iovAllocateChain_loop allocChunk freeChunk s elems n = Some (s', chain, lst)"
        using False a Some r(1) by (subst unf) simp
      moreover have "case lst of
           None \<Rightarrow> chain = [] \<and> 0 < n
         | Some x \<Rightarrow> chain_len chain = chain_len elems + n \<and>
             (\<exists>t. chain = elems @ t) \<and> x = (if chain = [] then None else Some (last chain))"
        using l al False by (auto split: option.splits)
      ultimately show ?thesis using r(2,3) al False by auto
    qed
  qed
qed

text \<open>What the allocator does not touch, the loop does not touch.\<close>

lemma free_chain_frame:
  "(\<And>s e. F (freeChunk s e) = F s) \<Longrightarrow> F (whip6_iovFreeChain freeChunk s elems) = F s"
  by (induction elems arbitrary: s) simp_all

lemma alloc_loop_frame:
  assumes "ok s" "\<And>s n s' r. allocChunk s n = (s', r) \<Longrightarrow> F s' = F s" "\<And>s e. F (freeChunk s e) = F s"
    and "whip6_iovAllocateChain_loop allocChunk freeChunk s elems n = Some (s', chain, lst)"
  shows "F s' = F s"
  using assms(1,4)
proof (induction n arbitrary: s elems rule: less_induct)
  case (less n)
  note unf = whip6_iovAllocateChain_loop.simps [of allocChunk freeChunk s elems n]
  show ?case
  proof (cases "n = 0")
    case True
    from less.prems(2) [unfolded unf] True show ?thesis by simp
  next
    case False
    obtain s1 r where a: "allocChunk s n = (s1, r)" by fastforce
    show ?thesis
    proof (cases r)
      case None
      then show ?thesis using False a less.prems(2) assms(2) [OF a] free_chain_frame [of F s1 elems, OF assms(3)]
        by (simp add: unf)
    next
      case (Some e)
      note al = alloc_Some [OF less.prems(1) _ a [unfolded Some]]
      have lt: "n - elemLen e < n" using al False by simp
      show ?thesis
        using less.IH [OF lt, of s1 "elems @ [e]"] al less.prems(2) False a Some assms(2) [OF a]
        by (simp add: unf)
    qed
  qed
qed

lemma alloc_chain:
  assumes "ok s"
  shows "\<exists>s' chain lst. whip6_iovAllocateChain allocChunk freeChunk s n = Some (s', chain, lst) \<and>
    ok s' \<and> avail s' + chain_addrs chain = avail s \<and>
    (case lst of
       None \<Rightarrow> chain = [] \<and> 0 < n
     | Some e \<Rightarrow> chain_len chain = n \<and> e = (if chain = [] then None else Some (last chain)))"
  using alloc_loop [OF assms, of "[]" n]
  by (fastforce simp: whip6_iovAllocateChain_def split: option.splits)

end

section \<open>The fixed-size pool\<close>

text \<open>
  The free chunks, linked through their own storage, are the list of their indices; the chunk
  size counts the list node that the adapter puts in front of the data. What a chunk happens to
  contain when it is handed out is \<open>m_chunkData\<close>, about which nothing is assumed.
\<close>

record chunk_pool =
  CHUNK_SIZE :: nat
  IOV_BLIST_SIZE :: nat
  m_chunkFree :: "nat list"
  m_chunkData :: "nat \<Rightarrow> nat \<Rightarrow> u8"

fun pool_init_loop :: "nat \<Rightarrow> nat \<Rightarrow> nat list \<Rightarrow> nat list" where
  "pool_init_loop 0 chunkPtr chunkFree = chunkFree"
| "pool_init_loop (Suc i) chunkPtr chunkFree = pool_init_loop i (Suc chunkPtr) (chunkPtr # chunkFree)"

definition pool_init :: "(nat \<Rightarrow> nat \<Rightarrow> u8) \<Rightarrow> nat \<Rightarrow> nat \<Rightarrow> nat \<Rightarrow> chunk_pool" where
  "pool_init chunkData chunkSize blistSize numChunks =
     \<lparr>CHUNK_SIZE = chunkSize, IOV_BLIST_SIZE = blistSize, m_chunkFree = pool_init_loop numChunks 0 [],
      m_chunkData = chunkData\<rparr>"

definition allocateChunk :: "chunk_pool \<Rightarrow> chunk_pool \<times> nat option" where
  "allocateChunk p =
     (case m_chunkFree p of
        [] \<Rightarrow> (p, None)
      | chunkPtr # pnext \<Rightarrow> (p\<lparr>m_chunkFree := pnext\<rparr>, Some chunkPtr))"

definition freeChunk :: "chunk_pool \<Rightarrow> nat \<Rightarrow> chunk_pool" where
  "freeChunk p rawChunkPtr = p\<lparr>m_chunkFree := rawChunkPtr # m_chunkFree p\<rparr>"

definition allocIOVElement :: "chunk_pool \<Rightarrow> nat \<Rightarrow> chunk_pool \<times> iov_elem option" where
  "allocIOVElement p maxSize =
     (if CHUNK_SIZE p \<le> IOV_BLIST_SIZE p then (p, None)
      else let chunkLen = CHUNK_SIZE p - IOV_BLIST_SIZE p
           in case allocateChunk p of
                (p', None) \<Rightarrow> (p', None)
              | (p', Some iovElem) \<Rightarrow>
                  (p', Some \<lparr>elemAddr = iovElem,
                             elemBuf = map (m_chunkData p iovElem)
                               [0..<(if chunkLen > maxSize then maxSize else chunkLen)]\<rparr>))"

definition freeIOVElement :: "chunk_pool \<Rightarrow> iov_elem \<Rightarrow> chunk_pool" where
  "freeIOVElement p iovElem = freeChunk p (elemAddr iovElem)"

definition pool_avail :: "chunk_pool \<Rightarrow> nat multiset" where
  "pool_avail p = mset (m_chunkFree p)"

interpretation pool: chunk_allocator allocIOVElement freeIOVElement pool_avail "\<lambda>p. True"
  by unfold_locales
    (auto simp: allocIOVElement_def freeIOVElement_def pool_avail_def freeChunk_def allocateChunk_def
      Let_def split: if_splits list.splits)

lemma pool_init_loop_eq: "pool_init_loop n c xs = rev [c..<c + n] @ xs"
proof (induction n c xs rule: pool_init_loop.induct)
  case (2 i c xs)
  then show ?case using upt_conv_Cons [of c "c + Suc i"] by simp
qed simp

lemma pool_init_avail: "pool_avail (pool_init dat cs bs n) = mset [0..<n]"
  by (simp only: pool_avail_def pool_init_def pool_init_loop_eq chunk_pool.simps append_Nil2
      mset_rev add_0)

text \<open>
  The pool satisfies a request exactly if the payload of its free chunks adds up to it.
\<close>

lemma pool_alloc_loop:
  assumes "IOV_BLIST_SIZE p < CHUNK_SIZE p"
  shows "\<exists>p' chain lst. whip6_iovAllocateChain_loop allocIOVElement freeIOVElement p elems n =
      Some (p', chain, lst) \<and>
      (lst \<noteq> None \<longleftrightarrow> n \<le> length (m_chunkFree p) * (CHUNK_SIZE p - IOV_BLIST_SIZE p))"
  using assms
proof (induction "m_chunkFree p" arbitrary: p n elems)
  case Nil
  then have "m_chunkFree p = []" by simp
  with Nil.prems show ?case
    by (subst whip6_iovAllocateChain_loop.simps) (simp add: allocIOVElement_def allocateChunk_def)
next
  case (Cons c cs)
  let ?pay = "CHUNK_SIZE p - IOV_BLIST_SIZE p" and ?p = "p\<lparr>m_chunkFree := cs\<rparr>"
  let ?e = "\<lparr>elemAddr = c, elemBuf = map (m_chunkData p c) [0..<(if ?pay > n then n else ?pay)]\<rparr>"
  have al: "allocIOVElement p n = (?p, Some ?e)"
    using Cons.prems Cons.hyps(2) [symmetric] by (simp add: allocIOVElement_def allocateChunk_def Let_def)
  have "\<exists>p' chain lst. whip6_iovAllocateChain_loop allocIOVElement freeIOVElement ?p (elems @ [?e])
        (n - elemLen ?e) = Some (p', chain, lst) \<and>
      (lst \<noteq> None \<longleftrightarrow> n - elemLen ?e \<le> length cs * ?pay)"
    using Cons.hyps(1) [of ?p "elems @ [?e]" "n - elemLen ?e"] Cons.prems by simp
  then show ?case
  proof (cases "n = 0")
    case True
    then show ?thesis by (subst whip6_iovAllocateChain_loop.simps) simp
  next
    case False
    have "n - elemLen ?e \<le> length cs * ?pay \<longleftrightarrow> n \<le> length (m_chunkFree p) * ?pay"
    proof -
      define w where "w = ?pay"
      have "length (m_chunkFree p) * ?pay = w + length cs * w"
        unfolding w_def Cons.hyps(2) [symmetric] by simp
      then show ?thesis unfolding w_def [symmetric] by auto
    qed
    with \<open>\<exists>p' chain lst. _\<close> show ?thesis using False
      by (subst whip6_iovAllocateChain_loop.simps) (simp add: al)
  qed
qed

section \<open>Properties\<close>

text \<open>A request for a chain of buffers succeeds exactly if the payload of the free chunks adds up to
  it; then the chain has the requested length and its chunks are the ones that the pool no longer
  has. A request that fails leaves the pool with the chunks it had.\<close>

theorem alloc_chain_pool:
  assumes "IOV_BLIST_SIZE p < CHUNK_SIZE p"
  shows "\<exists>p' chain lst. whip6_iovAllocateChain allocIOVElement freeIOVElement p n = Some (p', chain, lst) \<and>
    (lst \<noteq> None \<longleftrightarrow> n \<le> length (m_chunkFree p) * (CHUNK_SIZE p - IOV_BLIST_SIZE p)) \<and>
    pool_avail p' + chain_addrs chain = pool_avail p \<and>
    (lst \<noteq> None \<longrightarrow> chain_len chain = n) \<and> (lst = None \<longrightarrow> chain = [])"
proof -
  obtain p' chain lst where a: "whip6_iovAllocateChain allocIOVElement freeIOVElement p n = Some (p', chain, lst)"
    "pool_avail p' + chain_addrs chain = pool_avail p"
    "case lst of None \<Rightarrow> chain = [] \<and> 0 < n
      | Some e \<Rightarrow> chain_len chain = n \<and> e = (if chain = [] then None else Some (last chain))"
    using pool.alloc_chain [OF TrueI, of p n] by blast
  have "lst \<noteq> None \<longleftrightarrow> n \<le> length (m_chunkFree p) * (CHUNK_SIZE p - IOV_BLIST_SIZE p)"
    using pool_alloc_loop [OF assms, of "[]" n] a(1)
    by (auto simp: whip6_iovAllocateChain_def split: option.splits)
  with a show ?thesis by (cases lst) auto
qed

theorem alloc_chain_pool_witness:
  "\<exists>p' chain lst. whip6_iovAllocateChain allocIOVElement freeIOVElement (pool_init (\<lambda>c i. 0) 12 4 2) 13 = Some (p', chain, lst) \<and>
    (lst \<noteq> None \<longleftrightarrow> 13 \<le> length (m_chunkFree (pool_init (\<lambda>c i. 0) 12 4 2)) *
      (CHUNK_SIZE (pool_init (\<lambda>c i. 0) 12 4 2) - IOV_BLIST_SIZE (pool_init (\<lambda>c i. 0) 12 4 2))) \<and>
    pool_avail p' + chain_addrs chain = pool_avail (pool_init (\<lambda>c i. 0) 12 4 2) \<and>
    (lst \<noteq> None \<longrightarrow> chain_len chain = 13) \<and> (lst = None \<longrightarrow> chain = [])"
  by (rule alloc_chain_pool) (simp add: pool_init_def)

text \<open>Freeing a chain that was allocated gives the pool its chunks back.\<close>

theorem alloc_free_chain_pool:
  assumes "whip6_iovAllocateChain allocIOVElement freeIOVElement p n = Some (p', chain, lst)"
  shows "pool_avail (whip6_iovFreeChain freeIOVElement p' chain) = pool_avail p"
  using pool.alloc_chain [OF TrueI, of p n] pool.free_chain [OF TrueI, of p' chain] assms by auto

theorem alloc_free_chain_pool_witness:
  "\<exists>p' chain lst. whip6_iovAllocateChain allocIOVElement freeIOVElement (pool_init (\<lambda>c i. 0) 12 4 2) 13 = Some (p', chain, lst) \<and>
    pool_avail (whip6_iovFreeChain freeIOVElement p' chain) = pool_avail (pool_init (\<lambda>c i. 0) 12 4 2)"
proof -
  obtain p' chain lst where
    "whip6_iovAllocateChain allocIOVElement freeIOVElement (pool_init (\<lambda>c i. 0) 12 4 2) 13 = Some (p', chain, lst)"
    using pool.alloc_chain [OF TrueI, of "pool_init (\<lambda>c i. 0) 12 4 2" 13] by blast
  with alloc_free_chain_pool [OF this] show ?thesis by blast
qed

end
