(* ===== verification/Ipv6_Packet.thy ===== *)
theory Ipv6_Packet
  imports Ipv6_BasicHeader Base_IoVecAlloc
begin

text \<open>
  IPv6 packets and their allocation: \<open>microc/include/ipv6/ucIpv6PacketTypes.h\<close> and
  \<open>microc/include/ipv6/detail/ucIpv6PacketAllocationImpl.h\<close>, over the allocators of
  \<open>ucExternalIpv6Allocators.h\<close> and \<open>ucExternalBaseAllocators.h\<close>.

  The four allocator functions are a record on an abstract state. The locale
  \<open>packet_allocator\<close> extends the contract of the chunk allocator; \<open>pools\<close> is the
  implementation of the repository, a pool of packet prototypes and a pool of I/O vector chunks
  (\<open>nesc/whip6/lib/ipv6/GenericIPv6PacketPrototypePoolPub.nc\<close>, whose object pool is again
  a \<open>GenericFixedSizeChunkPoolPub\<close>).
\<close>

record ipv6_packet =
  pktAddr :: nat
  pktHeader :: ipv6_basic_header
  firstPayloadIov :: "iov_elem list"
  lastPayloadIov :: "nat option"

abbreviation pkt_iov :: "ipv6_packet \<Rightarrow> u8 list list" where
  "pkt_iov packet \<equiv> map elemBuf (firstPayloadIov packet)"

text \<open>New contents for the buffers of a chain, whose nodes stay.\<close>

definition set_bufs :: "iov_elem list \<Rightarrow> u8 list list \<Rightarrow> iov_elem list" where
  "set_bufs elems bufs = map2 (\<lambda>e b. e\<lparr>elemBuf := b\<rparr>) elems bufs"

lemma set_bufs_simps [simp]:
  assumes "length elems = length bufs"
  shows "map elemBuf (set_bufs elems bufs) = bufs" "map elemAddr (set_bufs elems bufs) = map elemAddr elems"
    "length (set_bufs elems bufs) = length elems"
  using assms unfolding set_bufs_def by (induction elems bufs rule: list_induct2) simp_all

section \<open>Allocation\<close>

record 's ipv6_alloc =
  whip6_ipv6AllocNewIPv6Packet :: "'s \<Rightarrow> 's \<times> ipv6_packet option"
  whip6_ipv6FreeExistingIPv6Packet :: "'s \<Rightarrow> ipv6_packet \<Rightarrow> 's"
  whip6_baseAllocNewIoVecChunk :: "'s \<Rightarrow> nat \<Rightarrow> 's \<times> iov_elem option"
  whip6_baseFreeExistingIoVecChunk :: "'s \<Rightarrow> iov_elem \<Rightarrow> 's"

definition whip6_ipv6AllocatePacket :: "'s ipv6_alloc \<Rightarrow> 's \<Rightarrow> u16 \<Rightarrow> ('s \<times> ipv6_packet option) option" where
  "whip6_ipv6AllocatePacket A s payloadLength =
     (case whip6_ipv6AllocNewIPv6Packet A s of
        (s, None) \<Rightarrow> Some (s, None)
      | (s, Some packet) \<Rightarrow>
          if payloadLength = 0
          then Some (s, Some (packet\<lparr>firstPayloadIov := [], lastPayloadIov := None\<rparr>))
          else
            do { (s, chain, lst) \<leftarrow>
                   whip6_iovAllocateChain (whip6_baseAllocNewIoVecChunk A)
                     (whip6_baseFreeExistingIoVecChunk A) s (unat payloadLength);
                 if chain = [] then Some (whip6_ipv6FreeExistingIPv6Packet A s packet, None)
                 else Some (s, Some (packet\<lparr>firstPayloadIov := chain,
                        lastPayloadIov := (case lst of Some (Some e) \<Rightarrow> Some (elemAddr e) | _ \<Rightarrow> None)\<rparr>)) })"

definition whip6_ipv6FreePacket :: "'s ipv6_alloc \<Rightarrow> 's \<Rightarrow> ipv6_packet \<Rightarrow> 's" where
  "whip6_ipv6FreePacket A s packet =
     whip6_ipv6FreeExistingIPv6Packet A
       (whip6_iovFreeChain (whip6_baseFreeExistingIoVecChunk A) s (firstPayloadIov packet)) packet"

section \<open>The contract\<close>

definition packet_ok :: "ipv6_packet \<Rightarrow> bool" where
  "packet_ok packet \<longleftrightarrow> header_ok (pktHeader packet) \<and> (\<forall>b \<in> set (pkt_iov packet). b \<noteq> [])"

locale packet_allocator =
  chunk_allocator "whip6_baseAllocNewIoVecChunk A" "whip6_baseFreeExistingIoVecChunk A" avail ok
  for A :: "'s ipv6_alloc" and avail :: "'s \<Rightarrow> nat multiset" and ok :: "'s \<Rightarrow> bool" +
  fixes pktAvail :: "'s \<Rightarrow> nat multiset"
  assumes chunk_pkt: "whip6_baseAllocNewIoVecChunk A s n = (s', r) \<Longrightarrow> pktAvail s' = pktAvail s"
      "pktAvail (whip6_baseFreeExistingIoVecChunk A s e) = pktAvail s"
    and pkt_Some: "ok s \<Longrightarrow> whip6_ipv6AllocNewIPv6Packet A s = (s', Some p) \<Longrightarrow>
      ok s' \<and> avail s' = avail s \<and> pktAvail s = add_mset (pktAddr p) (pktAvail s') \<and> header_ok (pktHeader p)"
    and pkt_None: "ok s \<Longrightarrow> whip6_ipv6AllocNewIPv6Packet A s = (s', None) \<Longrightarrow>
      ok s' \<and> avail s' = avail s \<and> pktAvail s' = pktAvail s"
    and pkt_free: "ok s \<Longrightarrow> ok (whip6_ipv6FreeExistingIPv6Packet A s p) \<and>
      avail (whip6_ipv6FreeExistingIPv6Packet A s p) = avail s \<and>
      pktAvail (whip6_ipv6FreeExistingIPv6Packet A s p) = add_mset (pktAddr p) (pktAvail s)"
begin

lemma free_packet:
  assumes "ok s"
  shows "ok (whip6_ipv6FreePacket A s p)"
    "avail (whip6_ipv6FreePacket A s p) = avail s + chain_addrs (firstPayloadIov p)"
    "pktAvail (whip6_ipv6FreePacket A s p) = add_mset (pktAddr p) (pktAvail s)"
  using free_chain [OF assms, of "firstPayloadIov p"]
    pkt_free [of "whip6_iovFreeChain (whip6_baseFreeExistingIoVecChunk A) s (firstPayloadIov p)" p]
    free_chain_frame [of pktAvail s "firstPayloadIov p", OF chunk_pkt(2)]
  by (simp_all add: whip6_ipv6FreePacket_def)

lemma alloc_loop_bufs:
  assumes "ok s" "\<forall>e \<in> set elems. elemBuf e \<noteq> []"
    and "whip6_iovAllocateChain_loop (whip6_baseAllocNewIoVecChunk A) (whip6_baseFreeExistingIoVecChunk A) s elems n =
      Some (s', chain, lst)"
  shows "\<forall>e \<in> set chain. elemBuf e \<noteq> []"
  using assms
proof (induction n arbitrary: s elems rule: less_induct)
  case (less n)
  note unf = whip6_iovAllocateChain_loop.simps [of "whip6_baseAllocNewIoVecChunk A"
      "whip6_baseFreeExistingIoVecChunk A" s elems n]
  obtain s1 r where a: "whip6_baseAllocNewIoVecChunk A s n = (s1, r)" by fastforce
  show ?case
  proof (cases "n = 0 \<or> r = None")
    case True
    with less.prems a show ?thesis by (auto simp: unf split: if_splits)
  next
    case False
    then obtain e where e: "r = Some e" and n: "0 < n" by auto
    note al = alloc_Some [OF less.prems(1) n a [unfolded e]]
    then show ?thesis
      using less.IH [of "n - elemLen e" s1 "elems @ [e]"] less.prems(2,3) n a e by (simp add: unf)
  qed
qed

text \<open>Allocation yields a packet of the requested length, or restores what was free.\<close>

lemma alloc_packet:
  assumes "ok s"
  shows "\<exists>s' r. whip6_ipv6AllocatePacket A s n = Some (s', r) \<and> ok s' \<and>
    (case r of
       None \<Rightarrow> avail s' = avail s \<and> pktAvail s' = pktAvail s
     | Some p \<Rightarrow> avail s' + chain_addrs (firstPayloadIov p) = avail s \<and>
         pktAvail s = add_mset (pktAddr p) (pktAvail s') \<and>
         packet_ok p \<and> chain_len (firstPayloadIov p) = unat n)"
proof -
  obtain s1 r1 where a: "whip6_ipv6AllocNewIPv6Packet A s = (s1, r1)" by fastforce
  show ?thesis
  proof (cases r1)
    case None
    with a pkt_None [OF assms, of s1] show ?thesis by (simp add: whip6_ipv6AllocatePacket_def)
  next
    case (Some p)
    note p = pkt_Some [OF assms a [unfolded Some]]
    show ?thesis
    proof (cases "n = 0")
      case True
      with a Some p show ?thesis by (simp add: whip6_ipv6AllocatePacket_def packet_ok_def)
    next
      case False
      obtain s2 chain lst where c: "whip6_iovAllocateChain (whip6_baseAllocNewIoVecChunk A)
          (whip6_baseFreeExistingIoVecChunk A) s1 (unat n) = Some (s2, chain, lst)" "ok s2"
        "avail s2 + chain_addrs chain = avail s1"
        "case lst of None \<Rightarrow> chain = [] \<and> 0 < unat n
         | Some e \<Rightarrow> chain_len chain = unat n \<and> e = (if chain = [] then None else Some (last chain))"
        using alloc_chain [of s1 "unat n"] p by blast
      have f: "pktAvail s2 = pktAvail s1"
        using p c(1) unfolding whip6_iovAllocateChain_def
        by (intro alloc_loop_frame [of s1 pktAvail "[]" "unat n"]) (auto simp: chunk_pkt(2) dest: chunk_pkt(1))
      have b: "\<forall>e \<in> set chain. elemBuf e \<noteq> []"
        using alloc_loop_bufs [of s1 "[]"] p c(1) unfolding whip6_iovAllocateChain_def by auto
      have nz: "unat n \<noteq> 0" using False by (simp add: unat_eq_0)
      show ?thesis
      proof (cases "chain = []")
        case True
        then show ?thesis using a Some p c f False pkt_free [of s2 p]
          by (simp add: whip6_ipv6AllocatePacket_def)
      next
        case False
        then have "chain_len chain = unat n" using c(4) by (auto split: option.splits)
        then show ?thesis using a Some p c(1-3) f False b \<open>n \<noteq> 0\<close>
          by (simp add: whip6_ipv6AllocatePacket_def packet_ok_def)
      qed
    qed
  qed
qed

end

section \<open>The pools\<close>

text \<open>
  A packet prototype is a chunk of the packet pool, seen as a structure. Its header is whatever
  the chunk contains; its chain pointers are set by the caller.
\<close>

record packet_pools =
  packetPool :: chunk_pool
  iovPool :: chunk_pool

definition allocIPv6Packet :: "packet_pools \<Rightarrow> packet_pools \<times> ipv6_packet option" where
  "allocIPv6Packet s =
     (case allocateChunk (packetPool s) of
        (p, None) \<Rightarrow> (s\<lparr>packetPool := p\<rparr>, None)
      | (p, Some ptr) \<Rightarrow>
          (s\<lparr>packetPool := p\<rparr>,
           Some \<lparr>pktAddr = ptr,
                 pktHeader = header_of_bytes (map (m_chunkData p ptr) [0..<IPV6_BASIC_HEADER_SIZE]),
                 firstPayloadIov = [], lastPayloadIov = None\<rparr>))"

definition freeIPv6Packet :: "packet_pools \<Rightarrow> ipv6_packet \<Rightarrow> packet_pools" where
  "freeIPv6Packet s packet = s\<lparr>packetPool := freeChunk (packetPool s) (pktAddr packet)\<rparr>"

definition pools :: "packet_pools ipv6_alloc" where
  "pools =
     \<lparr>whip6_ipv6AllocNewIPv6Packet = allocIPv6Packet,
      whip6_ipv6FreeExistingIPv6Packet = freeIPv6Packet,
      whip6_baseAllocNewIoVecChunk =
        (\<lambda>s n. case allocIOVElement (iovPool s) n of (p, r) \<Rightarrow> (s\<lparr>iovPool := p\<rparr>, r)),
      whip6_baseFreeExistingIoVecChunk = (\<lambda>s e. s\<lparr>iovPool := freeIOVElement (iovPool s) e\<rparr>)\<rparr>"

lemma allocIOVElement_laws:
  "0 < n \<Longrightarrow> allocIOVElement p n = (p', Some e) \<Longrightarrow>
     0 < elemLen e \<and> elemLen e \<le> n \<and> pool_avail p = add_mset (elemAddr e) (pool_avail p')"
  "allocIOVElement p n = (p', None) \<Longrightarrow> pool_avail p' = pool_avail p"
  by (auto simp: allocIOVElement_def allocateChunk_def pool_avail_def Let_def split: if_splits list.splits)

interpretation pkt: packet_allocator pools "\<lambda>s. pool_avail (iovPool s)" "\<lambda>s. True" "\<lambda>s. pool_avail (packetPool s)"
  by unfold_locales
    (auto simp: pools_def allocIPv6Packet_def freeIPv6Packet_def allocateChunk_def freeIOVElement_def
      freeChunk_def pool_avail_def header_of_bytes_ok IPV6_BASIC_HEADER_SIZE_def
      dest: allocIOVElement_laws [unfolded pool_avail_def] split: prod.splits option.splits list.splits)

text \<open>The chains of \<open>pools\<close> are those of its pool of chunks.\<close>

lemma pools_free_chain:
  "whip6_iovFreeChain (whip6_baseFreeExistingIoVecChunk pools) s es =
     s\<lparr>iovPool := whip6_iovFreeChain freeIOVElement (iovPool s) es\<rparr>"
  by (induction es arbitrary: s) (simp_all add: pools_def)

lemma pools_alloc_loop:
  "whip6_iovAllocateChain_loop allocIOVElement freeIOVElement (iovPool s) elems n = Some (p, chain, lst) \<Longrightarrow>
   whip6_iovAllocateChain_loop (whip6_baseAllocNewIoVecChunk pools) (whip6_baseFreeExistingIoVecChunk pools) s elems n =
     Some (s\<lparr>iovPool := p\<rparr>, chain, lst)"
proof (induction n arbitrary: s elems rule: less_induct)
  case (less n)
  note unf = whip6_iovAllocateChain_loop.simps [of allocIOVElement freeIOVElement "iovPool s" elems n]
  note unf' = whip6_iovAllocateChain_loop.simps
    [of "whip6_baseAllocNewIoVecChunk pools" "whip6_baseFreeExistingIoVecChunk pools" s elems n]
  obtain q r where al: "allocIOVElement (iovPool s) n = (q, r)" by fastforce
  then have al': "whip6_baseAllocNewIoVecChunk pools s n = (s\<lparr>iovPool := q\<rparr>, r)" by (simp add: pools_def)
  show ?case
  proof (cases "n = 0")
    case True
    from less.prems [unfolded unf] True show ?thesis by (subst unf') auto
  next
    case False
    show ?thesis
    proof (cases r)
      case None
      then show ?thesis using less.prems False al al' by (simp add: unf unf' pools_free_chain)
    next
      case (Some e)
      have e: "0 < elemLen e" "elemLen e \<le> n" using allocIOVElement_laws(1) [of n "iovPool s" q e] al Some False by simp_all
      then show ?thesis using less.prems False al al' Some less.IH [of "n - elemLen e" "s\<lparr>iovPool := q\<rparr>" "elems @ [e]"]
        by (simp add: unf unf')
    qed
  qed
qed

lemma alloc_packet_succeeds:
  assumes "m_chunkFree (packetPool s) \<noteq> []" "IOV_BLIST_SIZE (iovPool s) < CHUNK_SIZE (iovPool s)"
    and "unat n \<le> length (m_chunkFree (iovPool s)) * (CHUNK_SIZE (iovPool s) - IOV_BLIST_SIZE (iovPool s))"
  shows "\<exists>s' p. whip6_ipv6AllocatePacket pools s n = Some (s', Some p)"
proof -
  obtain q pk where a: "whip6_ipv6AllocNewIPv6Packet pools s = (s\<lparr>packetPool := q\<rparr>, Some pk)"
    using assms(1) by (cases "m_chunkFree (packetPool s)") (auto simp: pools_def allocIPv6Packet_def allocateChunk_def)
  show ?thesis
  proof (cases "n = 0")
    case True
    then show ?thesis using a by (simp add: whip6_ipv6AllocatePacket_def)
  next
    case False
    then have pos: "0 < unat n" by (simp add: unat_gt_0)
    obtain p' chain lst where c: "whip6_iovAllocateChain allocIOVElement freeIOVElement (iovPool s) (unat n) = Some (p', chain, lst)"
      "lst \<noteq> None \<longleftrightarrow> unat n \<le> length (m_chunkFree (iovPool s)) * (CHUNK_SIZE (iovPool s) - IOV_BLIST_SIZE (iovPool s))"
      using pool_alloc_loop [OF assms(2), of "[]" "unat n"] by (auto simp: whip6_iovAllocateChain_def)
    have "case lst of None \<Rightarrow> chain = [] \<and> 0 < unat n
      | Some e \<Rightarrow> chain_len chain = unat n \<and> e = (if chain = [] then None else Some (last chain))"
      using pool.alloc_chain [OF TrueI, of "iovPool s" "unat n"] c(1) by auto
    then have "chain \<noteq> []" using c(2) assms(3) pos by auto
    moreover have "whip6_iovAllocateChain (whip6_baseAllocNewIoVecChunk pools) (whip6_baseFreeExistingIoVecChunk pools)
        (s\<lparr>packetPool := q\<rparr>) (unat n) = Some (s\<lparr>packetPool := q, iovPool := p'\<rparr>, chain, lst)"
      using c(1) pools_alloc_loop [of "s\<lparr>packetPool := q\<rparr>"] by (simp add: whip6_iovAllocateChain_def)
    ultimately show ?thesis using a False by (simp add: whip6_ipv6AllocatePacket_def)
  qed
qed

text \<open>The first chunk of a chain is full, or holds all of it.\<close>

lemma alloc_loop_prefix:
  "whip6_iovAllocateChain_loop allocIOVElement freeIOVElement p elems n = Some (p', chain, Some lst) \<Longrightarrow>
   \<exists>ys. chain = elems @ ys"
proof (induction n arbitrary: p elems rule: less_induct)
  case (less n)
  note unf = whip6_iovAllocateChain_loop.simps [of allocIOVElement freeIOVElement p elems n]
  obtain q r where al: "allocIOVElement p n = (q, r)" by fastforce
  show ?case
  proof (cases "n = 0 \<or> r = None")
    case True
    then show ?thesis using less.prems [unfolded unf] al by (auto split: if_splits)
  next
    case False
    then obtain e where e: "r = Some e" "0 < elemLen e" "elemLen e \<le> n"
      using allocIOVElement_laws(1) [of n p q] al by auto
    then show ?thesis using less.IH [of "n - elemLen e" q "elems @ [e]"] less.prems [unfolded unf] al False by auto
  qed
qed

lemma alloc_packet_first_chunk:
  assumes "whip6_ipv6AllocatePacket pools s n = Some (s', Some p)" "n \<noteq> 0"
  shows "firstPayloadIov p \<noteq> [] \<and>
    elemLen (hd (firstPayloadIov p)) = min (unat n) (CHUNK_SIZE (iovPool s) - IOV_BLIST_SIZE (iovPool s))"
proof -
  have pos: "0 < unat n" using assms(2) by (simp add: unat_gt_0)
  obtain q pk where a: "whip6_ipv6AllocNewIPv6Packet pools s = (s\<lparr>packetPool := q\<rparr>, Some pk)"
    using assms(1) by (auto simp: whip6_ipv6AllocatePacket_def pools_def allocIPv6Packet_def split: prod.splits option.splits)
  obtain p' chain lst where c: "whip6_iovAllocateChain_loop allocIOVElement freeIOVElement (iovPool s) [] (unat n) = Some (p', chain, lst)"
    "case lst of None \<Rightarrow> chain = [] \<and> 0 < unat n
      | Some e \<Rightarrow> chain_len chain = unat n \<and> e = (if chain = [] then None else Some (last chain))"
    using pool.alloc_chain [OF TrueI, of "iovPool s" "unat n"] by (auto simp: whip6_iovAllocateChain_def)
  have "whip6_iovAllocateChain (whip6_baseAllocNewIoVecChunk pools) (whip6_baseFreeExistingIoVecChunk pools)
      (s\<lparr>packetPool := q\<rparr>) (unat n) = Some (s\<lparr>packetPool := q, iovPool := p'\<rparr>, chain, lst)"
    using c(1) pools_alloc_loop [of "s\<lparr>packetPool := q\<rparr>"] by (simp add: whip6_iovAllocateChain_def)
  then have ch: "chain \<noteq> []" "firstPayloadIov p = chain"
    using assms a by (auto simp: whip6_ipv6AllocatePacket_def split: if_splits)
  then obtain l where l: "lst = Some l" using c(2) by (cases lst) auto
  obtain q1 r where al: "allocIOVElement (iovPool s) (unat n) = (q1, r)" by fastforce
  note unf = whip6_iovAllocateChain_loop.simps [of allocIOVElement freeIOVElement "iovPool s" "[]" "unat n"]
  obtain e where e: "r = Some e" using c(1) [unfolded unf] al l pos ch(1) by (cases r) auto
  then obtain ys where "chain = [e] @ ys"
    using c(1) [unfolded unf] al l pos alloc_loop_prefix [of q1 "[] @ [e]" "unat n - elemLen e" p' chain l] by auto
  moreover have "elemLen e = min (unat n) (CHUNK_SIZE (iovPool s) - IOV_BLIST_SIZE (iovPool s))"
    using al e by (auto simp: allocIOVElement_def Let_def split: if_splits prod.splits option.splits)
  ultimately show ?thesis using ch(2) by simp
qed

section \<open>Properties\<close>

text \<open>Allocating an IPv6 packet either yields a packet with exactly the requested payload, whose
  prototype and chunks the pools no longer have, or leaves both pools with what they had; freeing
  the packet gives everything back.\<close>

theorem packet_alloc_free:
  shows "\<exists>s' r. whip6_ipv6AllocatePacket pools s n = Some (s', r) \<and>
    (case r of
       None \<Rightarrow> pool_avail (iovPool s') = pool_avail (iovPool s) \<and>
         pool_avail (packetPool s') = pool_avail (packetPool s)
     | Some p \<Rightarrow> length (concat (pkt_iov p)) = unat n \<and> packet_ok p \<and>
         pool_avail (iovPool s) = pool_avail (iovPool s') + chain_addrs (firstPayloadIov p) \<and>
         pool_avail (packetPool s) = add_mset (pktAddr p) (pool_avail (packetPool s')) \<and>
         pool_avail (iovPool (whip6_ipv6FreePacket pools s' p)) = pool_avail (iovPool s) \<and>
         pool_avail (packetPool (whip6_ipv6FreePacket pools s' p)) = pool_avail (packetPool s))"
proof -
  have len: "length (concat (map elemBuf es)) = chain_len es" for es
    by (induction es) simp_all
  show ?thesis
    using pkt.alloc_packet [OF TrueI, of s n] pkt.free_packet(2,3) [OF TrueI]
    by (fastforce simp: len split: option.splits)
qed

end
