(* ===== verification/Base_IoVec.thy ===== *)
theory Base_IoVec
  imports Base_String
begin

text \<open>
  I/O vectors: \<open>microc/include/base/ucIoVec.h\<close>, \<open>detail/ucIoVecImpl.h\<close> and
  \<open>microc/src/base/ucIoVec.c\<close>.

  An I/O vector is a doubly-linked list of chunks. The model keeps the list of the chunks'
  bytes; a node is denoted by its index, \<open>NULL\<close> by \<open>None\<close>, \<open>next\<close> of the node \<open>i\<close> is
  \<open>Suc i\<close> while that is an index of the list, and \<open>prev\<close> of \<open>Suc i\<close> is \<open>i\<close>. A loop
  that walks \<open>next\<close> from a node recurses over the rest of the list, one that walks \<open>prev\<close>
  over the reversed prefix. A routine that writes returns the updated list; an access outside
  a chunk or outside the caller's buffer is \<open>None\<close>.

  The lemmas state every routine over the flat byte string \<open>concat iov\<close>: the chunk
  boundaries are invisible to a client.
\<close>

type_synonym iov = "u8 list list"

record iov_blist_iter =
  currElem :: "nat option"
  iterOffset :: nat

section \<open>Routines on a vector and an offset\<close>

fun whip6_iovGetTotalLength_loop :: "iov \<Rightarrow> nat \<Rightarrow> nat" where
  "whip6_iovGetTotalLength_loop [] res = res"
| "whip6_iovGetTotalLength_loop (c # iovList) res =
     whip6_iovGetTotalLength_loop iovList (res + length c)"

definition whip6_iovGetTotalLength :: "iov \<Rightarrow> nat" where
  "whip6_iovGetTotalLength iovList = whip6_iovGetTotalLength_loop iovList 0"

text \<open>
  The loop that locates an offset, the same in four routines: the chunks it has passed, the
  list from the current node on, and what is left of the offset.
\<close>

fun whip6_iovLocate :: "iov \<Rightarrow> nat \<Rightarrow> iov \<times> iov \<times> nat" where
  "whip6_iovLocate [] iovOffset = ([], [], iovOffset)"
| "whip6_iovLocate (c # iovList) iovOffset =
     (if iovOffset < length c then ([], c # iovList, iovOffset)
      else case whip6_iovLocate iovList (iovOffset - length c) of
        (passed, rest, off) \<Rightarrow> (c # passed, rest, off))"

definition iov_short_step :: "u8 list \<Rightarrow> nat \<Rightarrow> u8 \<Rightarrow> u8" where
  "iov_short_step c iovOffset numBytesLeft =
     (let iovSpace = length c - iovOffset
      in if unat numBytesLeft > iovSpace then of_nat iovSpace else numBytesLeft)"

fun whip6_iovShortCompare_loop :: "iov \<Rightarrow> nat \<Rightarrow> u8 list \<Rightarrow> nat \<Rightarrow> u8 \<Rightarrow> int option" where
  "whip6_iovShortCompare_loop [] iovOffset buf p numBytesLeft =
     Some (if numBytesLeft = 0 then 0 else -1)"
| "whip6_iovShortCompare_loop (c # iovList) iovOffset buf p numBytesLeft =
     (if numBytesLeft = 0 then Some 0
      else let tmp = iov_short_step c iovOffset numBytesLeft
        in do { res \<leftarrow> whip6_shortMemCmp c iovOffset buf p tmp;
                if res \<noteq> 0 then Some res
                else whip6_iovShortCompare_loop iovList 0 buf (p + unat tmp) (numBytesLeft - tmp) })"

text \<open>
  The buffer pointer may point into the middle of a buffer: \<open>p\<close> is where it points.
\<close>

definition whip6_iovShortCompare ::
  "iov \<Rightarrow> nat \<Rightarrow> u8 list option \<Rightarrow> nat \<Rightarrow> u8 \<Rightarrow> int option" where
  "whip6_iovShortCompare iovList iovOffset bufPtr p bufLen =
     (case bufPtr of
        None \<Rightarrow> Some 0
      | Some buf \<Rightarrow>
          (case whip6_iovLocate iovList iovOffset of
             (_, rest, off) \<Rightarrow> whip6_iovShortCompare_loop rest off buf p bufLen))"

fun whip6_iovShortWrite_loop :: "iov \<Rightarrow> nat \<Rightarrow> u8 list \<Rightarrow> nat \<Rightarrow> u8 \<Rightarrow> (iov \<times> u8) option" where
  "whip6_iovShortWrite_loop [] iovOffset buf p numBytesLeft = Some ([], numBytesLeft)"
| "whip6_iovShortWrite_loop (c # iovList) iovOffset buf p numBytesLeft =
     (if numBytesLeft = 0 then Some (c # iovList, numBytesLeft)
      else let tmp = iov_short_step c iovOffset numBytesLeft
        in do { c' \<leftarrow> whip6_shortMemCpy buf p c iovOffset tmp;
                (iovList', left) \<leftarrow>
                  whip6_iovShortWrite_loop iovList 0 buf (p + unat tmp) (numBytesLeft - tmp);
                Some (c' # iovList', left) })"

definition whip6_iovShortWrite ::
  "iov \<Rightarrow> nat \<Rightarrow> u8 list option \<Rightarrow> nat \<Rightarrow> u8 \<Rightarrow> (iov \<times> u8) option" where
  "whip6_iovShortWrite iovList iovOffset bufPtr p bufLen =
     (case bufPtr of
        None \<Rightarrow> Some (iovList, 0)
      | Some buf \<Rightarrow>
          (case whip6_iovLocate iovList iovOffset of
             (passed, rest, off) \<Rightarrow>
               do { (rest', left) \<leftarrow> whip6_iovShortWrite_loop rest off buf p bufLen;
                    Some (passed @ rest', bufLen - left) }))"

fun whip6_iovShortRead_loop :: "iov \<Rightarrow> nat \<Rightarrow> u8 list \<Rightarrow> nat \<Rightarrow> u8 \<Rightarrow> (u8 list \<times> u8) option" where
  "whip6_iovShortRead_loop [] iovOffset buf p numBytesLeft = Some (buf, numBytesLeft)"
| "whip6_iovShortRead_loop (c # iovList) iovOffset buf p numBytesLeft =
     (if numBytesLeft = 0 then Some (buf, numBytesLeft)
      else let tmp = iov_short_step c iovOffset numBytesLeft
        in do { buf' \<leftarrow> whip6_shortMemCpy c iovOffset buf p tmp;
                whip6_iovShortRead_loop iovList 0 buf' (p + unat tmp) (numBytesLeft - tmp) })"

definition whip6_iovShortRead ::
  "iov \<Rightarrow> nat \<Rightarrow> u8 list option \<Rightarrow> nat \<Rightarrow> u8 \<Rightarrow> (u8 list option \<times> u8) option" where
  "whip6_iovShortRead iovList iovOffset bufPtr p bufLen =
     (case bufPtr of
        None \<Rightarrow> Some (None, 0)
      | Some buf \<Rightarrow>
          (case whip6_iovLocate iovList iovOffset of
             (_, rest, off) \<Rightarrow>
               do { (buf', left) \<leftarrow> whip6_iovShortRead_loop rest off buf p bufLen;
                    Some (Some buf', bufLen - left) }))"

section \<open>The short routines over the flat contents\<close>

lemma iovGetTotalLength_eq [simp]: "whip6_iovGetTotalLength iov = length (concat iov)"
proof -
  have "whip6_iovGetTotalLength_loop iov res = res + length (concat iov)" for res
    by (induction iov arbitrary: res) simp_all
  then show ?thesis by (simp add: whip6_iovGetTotalLength_def)
qed

lemma iovLocate_split:
  "whip6_iovLocate iov off = (passed, rest, o') \<Longrightarrow>
   iov = passed @ rest \<and> off = length (concat passed) + o' \<and> (rest = [] \<or> o' < length (hd rest))"
proof (induction iov off arbitrary: passed rest o' rule: whip6_iovLocate.induct)
  case (1 off)
  then show ?case by simp
next
  case (2 c iov off)
  show ?case
  proof (cases "off < length c")
    case True
    with 2 show ?thesis by auto
  next
    case False
    with "2.prems" obtain p' where "passed = c # p'"
      and "whip6_iovLocate iov (off - length c) = (p', rest, o')"
      by (auto split: prod.splits)
    with "2.IH" [OF False] False show ?thesis by auto
  qed
qed

lemma unat_short_step:
  "unat (iov_short_step c off left) = min (unat left) (length c - off)"
proof (cases "unat left > length c - off")
  case True
  then have "length c - off < 256" using unat_u8_less [of left] by linarith
  with True show ?thesis by (simp add: iov_short_step_def unat_of_nat)
qed (simp add: iov_short_step_def Let_def)

lemma short_step_le: "iov_short_step c off left \<le> left"
  by (simp add: word_le_nat_alt unat_short_step)

lemma unat_left_minus_step:
  "unat (left - iov_short_step c off left) = unat left - (length c - off)"
  using unat_sub [OF short_step_le, of left c off] by (simp add: unat_short_step)

lemma take_drop_concat_Cons:
  "off \<le> length c \<Longrightarrow>
   take n (drop off (c @ ys)) = take n (drop off c) @ take (n - (length c - off)) ys"
  by simp

lemma iovShortRead_loop_eq:
  assumes "rest = [] \<or> off \<le> length (hd rest)" "p + unat left \<le> length buf"
    "bs = take (unat left) (drop off (concat rest))"
  shows "whip6_iovShortRead_loop rest off buf p left =
    Some (mem_blit buf p bs, left - of_nat (length bs))"
  using assms
proof (induction rest off buf p left arbitrary: bs rule: whip6_iovShortRead_loop.induct)
  case (1 off buf p left)
  then show ?case by simp
next
  case (2 c iov off buf p left)
  show ?case
  proof (cases "left = 0")
    case True
    with 2 show ?thesis by simp
  next
    case False
    let ?t = "iov_short_step c off left"
    let ?buf = "mem_blit buf p (take (unat ?t) (drop off c))"
    let ?bs = "take (unat left - (length c - off)) (concat iov)"
    have off: "off \<le> length c" using "2.prems" by simp
    have t: "unat ?t = min (unat left) (length c - off)" by (rule unat_short_step)
    have cpy: "whip6_shortMemCpy c off buf p ?t = Some ?buf"
      using "2.prems" off by (intro shortMemCpy_eq) (simp_all add: t)
    have bs: "bs = take (unat ?t) (drop off c) @ ?bs"
      using "2.prems"(3) off by (simp add: t min_def)
    have ih: "whip6_iovShortRead_loop iov 0 ?buf (p + unat ?t) (left - ?t) =
        Some (mem_blit ?buf (p + unat ?t) ?bs, left - ?t - of_nat (length ?bs))"
    proof (rule "2.IH" [OF False refl cpy])
      show "iov = [] \<or> 0 \<le> length (hd iov)" by simp
      show "p + unat ?t + unat (left - ?t) \<le> length ?buf"
        using "2.prems"(2) off by (simp add: t unat_left_minus_step min_def)
      show "?bs = take (unat (left - ?t)) (drop 0 (concat iov))"
        by (simp add: unat_left_minus_step)
    qed
    have l: "length (take (unat ?t) (drop off c)) = unat ?t"
      using off by (simp add: t)
    have "length ?bs \<le> unat left - (length c - off)" by simp
    with t "2.prems"(2) have "p + unat ?t + length ?bs \<le> length buf" by linarith
    then have "mem_blit ?buf (p + unat ?t) ?bs = mem_blit buf p bs"
      unfolding bs by (rule mem_blit_append' [OF l])
    moreover have "left - ?t - of_nat (length ?bs) = left - of_nat (length bs)"
      by (simp only: bs length_append l) (simp add: algebra_simps)
    ultimately show ?thesis using False cpy ih by (simp add: Let_def)
  qed
qed

lemma concat_drop_located:
  "iov = passed @ rest \<Longrightarrow> off = length (concat passed) + o' \<Longrightarrow>
   drop off (concat iov) = drop o' (concat rest)"
  by simp

theorem iovShortRead_eq:
  assumes "p + unat len \<le> length buf"
    and "bs = take (unat len) (drop off (concat iov))"
  shows "whip6_iovShortRead iov off (Some buf) p len =
    Some (Some (mem_blit buf p bs), of_nat (length bs))"
proof -
  obtain passed rest o' where loc: "whip6_iovLocate iov off = (passed, rest, o')"
    by (metis prod_cases3)
  note sp = iovLocate_split [OF loc]
  have "whip6_iovShortRead_loop rest o' buf p len =
      Some (mem_blit buf p bs, len - of_nat (length bs))"
  proof (rule iovShortRead_loop_eq)
    show "rest = [] \<or> o' \<le> length (hd rest)" using sp by auto
    show "bs = take (unat len) (drop o' (concat rest))"
      using concat_drop_located sp assms(2) by metis
  qed (rule assms(1))
  then show ?thesis by (simp add: whip6_iovShortRead_def loc)
qed

lemma mem_blit_Cons_chunk:
  "off \<le> length c \<Longrightarrow> length xs = length c - off \<Longrightarrow>
   mem_blit (c @ ys) off (xs @ zs) = mem_blit c off xs @ mem_blit ys 0 zs"
  by (simp add: mem_blit_def)

lemma mem_blit_in_chunk:
  "off + length xs \<le> length c \<Longrightarrow> mem_blit (c @ ys) off xs = mem_blit c off xs @ ys"
  by (simp add: mem_blit_def)

lemma iovShortWrite_loop_eq:
  assumes "rest = [] \<or> off \<le> length (hd rest)" "p + unat left \<le> length buf"
    "k = min (unat left) (length (concat rest) - off)"
  shows "\<exists>rest'. whip6_iovShortWrite_loop rest off buf p left = Some (rest', left - of_nat k) \<and>
    map length rest' = map length rest \<and>
    concat rest' = mem_blit (concat rest) off (take k (drop p buf))"
  using assms
proof (induction rest off buf p left arbitrary: k rule: whip6_iovShortWrite_loop.induct)
  case (1 off buf p left)
  then show ?case by simp
next
  case (2 c iov off buf p left)
  show ?case
  proof (cases "left = 0")
    case True
    with 2 show ?thesis by simp
  next
    case False
    let ?t = "iov_short_step c off left"
    let ?bs = "take (unat ?t) (drop p buf)"
    let ?k = "min (unat left - (length c - off)) (length (concat iov))"
    have off: "off \<le> length c" using "2.prems" by simp
    have t: "unat ?t = min (unat left) (length c - off)" by (rule unat_short_step)
    have pt: "p + unat ?t \<le> length buf" using "2.prems"(2) t by linarith
    have cpy: "whip6_shortMemCpy buf p c off ?t = Some (mem_blit c off ?bs)"
      using pt off by (intro shortMemCpy_eq) (simp_all add: t)
    have l: "length ?bs = unat ?t" using pt by simp
    have lt: "unat (left - ?t) = unat left - (length c - off)" by (rule unat_left_minus_step)
    have "\<exists>iov'. whip6_iovShortWrite_loop iov 0 buf (p + unat ?t) (left - ?t) =
          Some (iov', left - ?t - of_nat ?k) \<and>
        map length iov' = map length iov \<and>
        concat iov' = mem_blit (concat iov) 0 (take ?k (drop (p + unat ?t) buf))"
    proof (rule "2.IH" [OF False refl cpy])
      show "p + unat ?t + unat (left - ?t) \<le> length buf"
        using "2.prems"(2) lt t by linarith
    qed (simp_all add: lt)
    then obtain iov' where w: "whip6_iovShortWrite_loop iov 0 buf (p + unat ?t) (left - ?t) =
          Some (iov', left - ?t - of_nat ?k)"
      and len: "map length iov' = map length iov"
      and cc: "concat iov' = mem_blit (concat iov) 0 (take ?k (drop (p + unat ?t) buf))"
      by blast
    have "k = min (unat left) (length c + length (concat iov) - off)" using "2.prems"(3) by simp
    with off t have k: "k = unat ?t + ?k" by linarith
    have "mem_blit c off ?bs @ concat iov' = mem_blit (c @ concat iov) off (take k (drop p buf))"
    proof (cases "unat left \<le> length c - off")
      case True
      then have k0: "?k = 0" by simp
      with k have kt: "k = unat ?t" by linarith
      have "off + length ?bs \<le> length c" using l t off by linarith
      from mem_blit_in_chunk [OF this] show ?thesis
        by (simp only: kt k0 cc take_0 mem_blit_Nil)
    next
      case False
      then have "length ?bs = length c - off" using l t by simp
      then show ?thesis
        using off by (simp only: k take_add cc mem_blit_Cons_chunk drop_drop add.commute)
    qed
    moreover have "off + length ?bs \<le> length c" using l t off by linarith
    then have "map length (mem_blit c off ?bs # iov') = map length (c # iov)"
      by (simp only: list.map mem_blit_length len)
    moreover have "left - ?t - of_nat ?k = left - of_nat k"
      by (simp only: k) (simp add: algebra_simps)
    ultimately show ?thesis using False cpy w by (simp add: Let_def)
  qed
qed

theorem iovShortWrite_eq:
  assumes "p + unat len \<le> length buf"
    and "k = min (unat len) (length (concat iov) - off)"
  obtains iov' where "whip6_iovShortWrite iov off (Some buf) p len = Some (iov', of_nat k)"
    and "map length iov' = map length iov"
    and "concat iov' = mem_blit (concat iov) off (take k (drop p buf))"
proof -
  obtain passed rest o' where loc: "whip6_iovLocate iov off = (passed, rest, o')"
    by (metis prod_cases3)
  note sp = iovLocate_split [OF loc]
  have "\<exists>rest'. whip6_iovShortWrite_loop rest o' buf p len = Some (rest', len - of_nat k) \<and>
      map length rest' = map length rest \<and>
      concat rest' = mem_blit (concat rest) o' (take k (drop p buf))"
    using sp assms by (intro iovShortWrite_loop_eq) auto
  then obtain rest' where w: "whip6_iovShortWrite_loop rest o' buf p len = Some (rest', len - of_nat k)"
    and l: "map length rest' = map length rest"
    and c: "concat rest' = mem_blit (concat rest) o' (take k (drop p buf))" by blast
  have "whip6_iovShortWrite iov off (Some buf) p len = Some (passed @ rest', of_nat k)"
    by (simp add: whip6_iovShortWrite_def loc w)
  moreover have "map length (passed @ rest') = map length iov" using l sp by simp
  moreover have "concat (passed @ rest') = mem_blit (concat iov) off (take k (drop p buf))"
    using sp by (simp add: c mem_blit_def)
  ultimately show ?thesis by (rule that)
qed

lemma iovShortCompare_loop_eq:
  assumes "rest = [] \<or> off \<le> length (hd rest)" "p + unat left \<le> length buf"
  shows "\<exists>r. whip6_iovShortCompare_loop rest off buf p left = Some r \<and>
    (r = 0 \<longleftrightarrow> take (unat left) (drop off (concat rest)) = take (unat left) (drop p buf))"
  using assms
proof (induction rest off buf p left rule: whip6_iovShortCompare_loop.induct)
  case (1 off buf p left)
  then show ?case by (cases "left = 0") (auto simp: unat_eq_0 [symmetric] take_eq_Nil)
next
  case (2 c iov off buf p left)
  show ?case
  proof (cases "left = 0")
    case True
    with 2 show ?thesis by simp
  next
    case False
    let ?t = "iov_short_step c off left"
    have off: "off \<le> length c" using "2.prems" by simp
    have t: "unat ?t = min (unat left) (length c - off)" by (rule unat_short_step)
    have lt: "unat (left - ?t) = unat left - (length c - off)" by (rule unat_left_minus_step)
    have pt: "p + unat ?t \<le> length buf" using "2.prems"(2) t by linarith
    obtain r where cmp: "whip6_shortMemCmp c off buf p ?t = Some r"
      and r: "r = 0 \<longleftrightarrow> take (unat ?t) (drop off c) = take (unat ?t) (drop p buf)"
      using pt off by (rule_tac shortMemCmp_Some [of off ?t c p buf]) (auto simp: t)
    have sum: "unat left = unat ?t + unat (left - ?t)" using lt t by linarith
    have split1: "take (unat left) (drop off (c @ concat iov)) =
        take (unat ?t) (drop off c) @ take (unat (left - ?t)) (concat iov)"
      using off by (simp add: lt t min_def)
    have split2: "take (unat left) (drop p buf) =
        take (unat ?t) (drop p buf) @ take (unat (left - ?t)) (drop (p + unat ?t) buf)"
      by (subst sum) (simp only: take_add drop_drop add.commute)
    have len: "length (take (unat ?t) (drop off c)) = length (take (unat ?t) (drop p buf))"
      using off pt t by simp
    show ?thesis
    proof (cases "r = 0")
      case True
      have "\<exists>r'. whip6_iovShortCompare_loop iov 0 buf (p + unat ?t) (left - ?t) = Some r' \<and>
         (r' = 0 \<longleftrightarrow> take (unat (left - ?t)) (drop 0 (concat iov)) =
            take (unat (left - ?t)) (drop (p + unat ?t) buf))"
        using "2.prems"(2) lt t True by (intro "2.IH" [OF False refl cmp]) auto
      with False cmp r True len show ?thesis
        by (auto simp: Let_def split1 split2 simp del: take_append drop_append)
    next
      case rf: False
      with False cmp r len show ?thesis
        by (auto simp: Let_def split1 split2 simp del: take_append drop_append)
    qed
  qed
qed

theorem iovShortCompare_eq:
  assumes "p + unat len \<le> length buf"
  obtains r where "whip6_iovShortCompare iov off (Some buf) p len = Some r"
    and "r = 0 \<longleftrightarrow> take (unat len) (drop off (concat iov)) = take (unat len) (drop p buf)"
proof -
  obtain passed rest o' where loc: "whip6_iovLocate iov off = (passed, rest, o')"
    by (metis prod_cases3)
  note sp = iovLocate_split [OF loc]
  obtain r where r: "whip6_iovShortCompare_loop rest o' buf p len = Some r"
    "r = 0 \<longleftrightarrow> take (unat len) (drop o' (concat rest)) = take (unat len) (drop p buf)"
    using iovShortCompare_loop_eq [of rest o' p len buf] sp assms by auto
  have "drop o' (concat rest) = drop off (concat iov)"
    using concat_drop_located sp by metis
  with r show ?thesis
    by (intro that [of r]) (simp_all add: whip6_iovShortCompare_def loc)
qed

end
