(* ===== verification/Lowpan_RawIpv6.thy ===== *)
theory Lowpan_RawIpv6
  imports Lowpan_HeadersRead Ipv6_Packet Base_IoVec
begin

text \<open>
  IPv6 headers carried uncompressed in a 6LoWPAN frame:
  \<open>microc/src/6lowpan/uc6LoWPANIpv6HeaderCompression.c\<close>.

  The first fragment of a packet holds the dispatch byte, then the packet from its beginning. A
  packet is the sequence \<open>pkt_bytes\<close> of its header and payload bytes; packing is a prefix of it,
  unpacking an overwriting of its prefix.
\<close>

definition whip6_lowpanRawIpv6HeaderUnpack ::
  "ieee154_dframe_info \<Rightarrow> lowpan_unpacked_frame_headers \<Rightarrow> ipv6_packet \<Rightarrow> u8 option \<Rightarrow>
   (ipv6_packet \<times> u8 option \<times> u8) option" where
  "whip6_lowpanRawIpv6HeaderUnpack frame hdrs packet identicalBufPtrOrNull =
     do { let payloadPtr = whip6_ieee154DFrameUnsafeGetPayloadPtr frame;
          let buf = bufferPtr frame;
          payloadLen \<leftarrow> whip6_ieee154DFrameGetPayloadLen frame;
          let tmp = nextOffset hdrs;
          if tmp \<ge> payloadLen then Some (packet, identicalBufPtrOrNull, 0)
          else
            do { let payloadPtr = payloadPtr + unat tmp;
                 let numBytesInPacket = payloadLen - tmp;
                 b \<leftarrow> buf_get buf payloadPtr;
                 if (b AND LOWPAN_DISPATCH_MASK_IPV6) \<noteq> LOWPAN_DISPATCH_PATTERN_IPV6
                 then Some (packet, identicalBufPtrOrNull, 0)
                 else
                   do { let payloadPtr = payloadPtr + 1;
                        let numBytesInPacket = numBytesInPacket - 1;
                        if (numBytesInPacket AND 0x07) \<noteq> 0 \<and> whip6_lowpanFrameHeadersHasFragHeader hdrs \<and>
                             unat (fragSize (hdrFrag hdrs)) > unat numBytesInPacket
                        then Some (packet, identicalBufPtrOrNull, 0)
                        else
                          do { let numBytesLeft = numBytesInPacket;
                               let tmp = (if unat numBytesLeft > IPV6_BASIC_HEADER_SIZE
                                          then of_nat IPV6_BASIC_HEADER_SIZE else numBytesLeft);
                               let hdrBuf = header_bytes (pktHeader packet);
                               identical \<leftarrow>
                                 (if identicalBufPtrOrNull \<noteq> None
                                  then do { r \<leftarrow> whip6_shortMemCmp buf payloadPtr hdrBuf 0 tmp; Some (r = 0) }
                                  else Some True);
                               hdrBuf \<leftarrow> whip6_shortMemCpy buf payloadPtr hdrBuf 0 tmp;
                               let packet = packet\<lparr>pktHeader := header_of_bytes hdrBuf\<rparr>;
                               let payloadPtr = payloadPtr + unat tmp;
                               let numBytesLeft = numBytesLeft - tmp;
                               identical \<leftarrow>
                                 (if identical \<and> identicalBufPtrOrNull \<noteq> None
                                  then do { r \<leftarrow> whip6_iovShortCompare (pkt_iov packet) 0 (Some buf) payloadPtr numBytesLeft;
                                            Some (r = 0) }
                                  else Some identical);
                               (iov, tmp) \<leftarrow>
                                 whip6_iovShortWrite (pkt_iov packet) 0 (Some buf) payloadPtr numBytesLeft;
                               let packet = packet\<lparr>firstPayloadIov := set_bufs (firstPayloadIov packet) iov\<rparr>;
                               if tmp \<noteq> numBytesLeft then Some (packet, identicalBufPtrOrNull, 0)
                               else Some (packet,
                                      (if identicalBufPtrOrNull \<noteq> None then Some (of_bool identical) else None),
                                      numBytesInPacket) } } } }"

definition whip6_lowpanRawIpv6HeaderPack ::
  "ieee154_dframe_info \<Rightarrow> lowpan_unpacked_frame_headers \<Rightarrow> ipv6_packet \<Rightarrow>
   (ieee154_dframe_info \<times> u8) option" where
  "whip6_lowpanRawIpv6HeaderPack frame hdrs packet =
     (let payloadPtr = whip6_ieee154DFrameUnsafeGetPayloadPtr frame;
          payloadLen = whip6_ieee154DFrameMaxPayloadLen frame;
          payloadOff = nextOffset hdrs
      in if payloadOff \<ge> payloadLen then Some (frame, 0)
         else
           do { let payloadPtr = payloadPtr + unat payloadOff;
                buf \<leftarrow> buf_put (bufferPtr frame) payloadPtr LOWPAN_DISPATCH_PATTERN_IPV6;
                let payloadPtr = payloadPtr + 1;
                let payloadOff = payloadOff + 1;
                let payloadLen = payloadLen - payloadOff;
                let payloadLen =
                  (if whip6_lowpanFrameHeadersHasFragHeader hdrs \<and>
                        unat (fragSize (hdrFrag hdrs)) > unat payloadLen
                   then payloadLen AND NOT 0x07 else payloadLen);
                if payloadLen = 0 then Some (frame\<lparr>bufferPtr := buf\<rparr>, 0)
                else
                  do { let numCopiedBytes = of_nat IPV6_BASIC_HEADER_SIZE;
                       let numCopiedBytes = (if numCopiedBytes > payloadLen then payloadLen else numCopiedBytes);
                       buf \<leftarrow> whip6_shortMemCpy (header_bytes (pktHeader packet)) 0 buf payloadPtr numCopiedBytes;
                       let payloadPtr = payloadPtr + unat numCopiedBytes;
                       let payloadLen = payloadLen - numCopiedBytes;
                       (bufOpt, n) \<leftarrow> whip6_iovShortRead (pkt_iov packet) 0 (Some buf) payloadPtr payloadLen;
                       let numCopiedBytes = numCopiedBytes + n;
                       buf \<leftarrow> bufOpt;
                       frame \<leftarrow> whip6_ieee154DFrameSetPayloadLen (frame\<lparr>bufferPtr := buf\<rparr>)
                                 (payloadOff + numCopiedBytes);
                       Some (frame, numCopiedBytes) } })"

section \<open>A packet as a sequence of bytes\<close>

definition pkt_bytes :: "ipv6_packet \<Rightarrow> u8 list" where
  "pkt_bytes packet = header_bytes (pktHeader packet) @ concat (pkt_iov packet)"

lemma pkt_bytes_length: "packet_ok p \<Longrightarrow> length (pkt_bytes p) = 40 + length (concat (pkt_iov p))"
  by (simp add: pkt_bytes_def packet_ok_def header_bytes_length)

lemma blit_two:
  "length bs \<le> length x + length y \<Longrightarrow>
   mem_blit (x @ y) 0 bs = mem_blit x 0 (take (length x) bs) @ mem_blit y 0 (drop (length x) bs)"
  by (cases "length bs \<le> length x") (simp_all add: mem_blit_def)

lemma and7_dvd_u8: "(w AND 7 = 0) = (8 dvd unat (w :: u8))"
proof -
  have "w AND 7 = take_bit 3 w" by (simp add: take_bit_eq_mask mask_eq_exp_minus_1)
  then have "unat (w AND 7) = unat w mod 8" by (simp add: unat_mod take_bit_eq_mod)
  then show ?thesis by (simp add: unat_eq_0 [symmetric] mod_eq_0_iff_dvd)
qed

section \<open>Unpacking overwrites a prefix\<close>

lemma mem_range_at: "holds_at m i (xs @ ys @ zs) \<Longrightarrow> mem_range m (i + length xs) (length ys) = ys"
  by (simp add: holds_at_append) (simp add: holds_at_def)

lemma raw_unpack:
  assumes f: "frame_layout dm sm ip f" "whip6_ieee154DFrameGetPayloadLen f = Some len"
    and at: "holds_at (bufferPtr f) (fr_pay dm sm ip + unat (nextOffset h)) (0x41 # bs)"
    and len: "unat (nextOffset h) + 1 + length bs = unat len"
    and p: "packet_ok p"
    and al: "8 dvd length bs \<or> \<not> whip6_lowpanFrameHeadersHasFragHeader h \<or>
      unat (fragSize (hdrFrag h)) \<le> length bs"
    and fit: "fit = (length bs \<le> length (pkt_bytes p))"
  shows "\<exists>p'. whip6_lowpanRawIpv6HeaderUnpack f h p ident =
      Some (p', (if fit then map_option (\<lambda>_. of_bool (take (length bs) (pkt_bytes p) = bs)) ident else ident),
        (if fit then of_nat (length bs) else 0)) \<and>
    packet_ok p' \<and> pktAddr p' = pktAddr p \<and> map elemAddr (firstPayloadIov p') = map elemAddr (firstPayloadIov p) \<and>
    map elemLen (firstPayloadIov p') = map elemLen (firstPayloadIov p) \<and>
    pkt_bytes p' = mem_blit (pkt_bytes p) 0 (take (length (pkt_bytes p)) bs)"
proof -
  let ?buf = "bufferPtr f" and ?off = "nextOffset h"
  let ?q = "fr_pay dm sm ip + unat ?off"
  define n where "n = (of_nat (length bs) :: u8)"
  have lt: "length bs < 256" using len unat_u8_less [of len] by linarith
  have un: "unat n = length bs" unfolding n_def by (rule unat_u8_of_nat [OF lt])
  have "len = of_nat (unat ?off + 1 + length bs)" unfolding len by (rule word_nat_cases [of len]) simp
  then have "len = ?off + 1 + n" by (simp add: n_def)
  then have n_eq: "len - ?off - 1 = n" by simp
  have lo: "\<not> ?off \<ge> len" using len by (simp add: word_le_nat_alt)
  have pp: "whip6_ieee154DFrameUnsafeGetPayloadPtr f = fr_pay dm sm ip"
    using f(1) by (auto simp: frame_layout_offsets)
  have b0: "?q < length ?buf" "?buf ! ?q = 0x41" and at1: "holds_at ?buf (Suc ?q) bs" using at by simp_all
  have al': "\<not> ((n AND 0x07) \<noteq> 0 \<and> whip6_lowpanFrameHeadersHasFragHeader h \<and>
      unat (fragSize (hdrFrag h)) > unat n)"
    using al by (auto simp: and7_dvd_u8 un)
  define t where "t = (if unat n > IPV6_BASIC_HEADER_SIZE then of_nat IPV6_BASIC_HEADER_SIZE else n)"
  have ut: "unat t = min 40 (length bs)" by (auto simp: t_def un IPV6_BASIC_HEADER_SIZE_def)
  have unt: "unat (n - t) = length bs - 40"
    using ut by (subst unat_sub) (simp_all add: word_le_nat_alt un)
  let ?hb = "header_bytes (pktHeader p)"
  have hl: "length ?hb = 40" using p by (simp add: packet_ok_def header_bytes_length)
  have room: "Suc ?q + length bs \<le> length ?buf" using holds_at_le [OF at1] by simp
  have rng: "mem_range ?buf (Suc ?q) (min 40 (length bs)) = take 40 bs"
    "mem_range ?buf (Suc ?q + min 40 (length bs)) (length bs - 40) = drop 40 bs"
    using mem_range_at [of ?buf "Suc ?q" "[]" "take 40 bs" "drop 40 bs"]
      mem_range_at [of ?buf "Suc ?q" "take 40 bs" "drop 40 bs" "[]"] at1 by (simp_all add: min.commute)
  define idt where "idt = (ident = None \<or> take 40 bs = take (min 40 (length bs)) ?hb)"
  have s1: "(if ident \<noteq> None then do { r \<leftarrow> whip6_shortMemCmp ?buf (Suc ?q) ?hb 0 t; Some (r = 0) } else Some True) = Some idt"
  proof (cases "ident = None")
    case False
    have "Suc ?q + unat t \<le> length ?buf" "0 + unat t \<le> length ?hb" using room hl ut by simp_all
    then obtain r where "whip6_shortMemCmp ?buf (Suc ?q) ?hb 0 t = Some r"
      "(r = 0) = (take (unat t) (drop (Suc ?q) ?buf) = take (unat t) (drop 0 ?hb))"
      by (rule shortMemCmp_Some)
    then show ?thesis using False rng(1) by (auto simp: idt_def ut mem_range_def)
  qed (simp add: idt_def)
  have s2: "whip6_shortMemCpy ?buf (Suc ?q) ?hb 0 t = Some (mem_blit ?hb 0 (take 40 bs))"
    using room hl ut rng(1) by (subst shortMemCpy_range) auto
  have r2: "Suc ?q + unat t + unat (n - t) \<le> length ?buf" using room ut unt by auto
  define p1 where "p1 = p\<lparr>pktHeader := header_of_bytes (mem_blit ?hb 0 (take 40 bs))\<rparr>"
  have hb1: "length (mem_blit ?hb 0 (take 40 bs)) = 40" using hl by (subst mem_blit_length) auto
  have p1: "header_bytes (pktHeader p1) = mem_blit ?hb 0 (take 40 bs)" "pkt_iov p1 = pkt_iov p" "header_ok (pktHeader p1)"
    using header_bytes_of_bytes [OF hb1] header_of_bytes_ok [OF hb1] by (simp_all add: p1_def)
  let ?c = "concat (pkt_iov p)"
  define idt2 where "idt2 = (idt \<and> (ident = None \<or> take (length bs - 40) ?c = drop 40 bs))"
  have s3: "(if idt \<and> ident \<noteq> None then do { r \<leftarrow> whip6_iovShortCompare (pkt_iov p1) 0 (Some ?buf) (Suc ?q + unat t) (n - t); Some (r = 0) } else Some idt) = Some idt2"
  proof (cases "idt \<and> ident \<noteq> None")
    case True
    obtain r where "whip6_iovShortCompare (pkt_iov p1) 0 (Some ?buf) (Suc ?q + unat t) (n - t) = Some r"
      "(r = 0) = (take (unat (n - t)) (drop 0 (concat (pkt_iov p1))) = take (unat (n - t)) (drop (Suc ?q + unat t) ?buf))"
      using iovShortCompare_eq [OF r2, of "pkt_iov p1" 0] by blast
    then show ?thesis using True rng(2) by (auto simp: idt2_def p1(2) unt ut mem_range_def)
  qed (auto simp: idt2_def)
  define k where "k = min (unat (n - t)) (length (concat (pkt_iov p1)) - 0)"
  obtain iov' where w: "whip6_iovShortWrite (pkt_iov p1) 0 (Some ?buf) (Suc ?q + unat t) (n - t) = Some (iov', of_nat k)"
    "map length iov' = map length (pkt_iov p1)"
    "concat iov' = mem_blit (concat (pkt_iov p1)) 0 (take k (drop (Suc ?q + unat t) ?buf))"
    using iovShortWrite_eq [OF r2 k_def] by blast
  have k: "k = min (length bs - 40) (length ?c)" by (simp add: k_def unt p1(2))
  have kn: "(of_nat k = n - t) = fit"
  proof -
    have "k < 256" using k lt by linarith
    then have "(of_nat k = n - t) = (k = length bs - 40)"
      by (metis unat_u8_of_nat unt word_unat_eq_iff)
    also have "\<dots> = fit" unfolding fit k pkt_bytes_length [OF p] by auto
    finally show ?thesis .
  qed
  define p2 where "p2 = p1\<lparr>firstPayloadIov := set_bufs (firstPayloadIov p1) iov'\<rparr>"
  have li: "length (firstPayloadIov p1) = length iov'" using w(2) by (metis length_map)
  have p2: "pkt_iov p2 = iov'" "map elemAddr (firstPayloadIov p2) = map elemAddr (firstPayloadIov p)"
    using set_bufs_simps [OF li] by (simp_all add: p2_def p1_def)
  have p2l: "map elemLen (firstPayloadIov p2) = map elemLen (firstPayloadIov p)"
  proof -
    have "map elemLen xs = map length (map elemBuf xs)" for xs by simp
    then show ?thesis using w(2) p1(2) p2(1) by metis
  qed
  have ok2: "packet_ok p2"
  proof -
    have "\<forall>x \<in> set (pkt_iov p). x \<noteq> []" using p by (simp add: packet_ok_def)
    then have "\<forall>x \<in> set (map length (pkt_iov p)). x \<noteq> 0" by simp
    then have "\<forall>x \<in> set iov'. x \<noteq> []" using w(2) p1(2)
      by (metis (no_types, lifting) image_eqI length_0_conv list.set_map)
    then show ?thesis using p1(3) unfolding packet_ok_def p2(1) by (simp add: p2_def)
  qed
  have bytes: "pkt_bytes p2 = mem_blit (pkt_bytes p) 0 (take (length (pkt_bytes p)) bs)"
  proof -
    have "take k (drop (Suc ?q + unat t) ?buf) = take k (drop 40 bs)"
    proof -
      have "drop 40 bs = take (length bs - 40) (drop (Suc ?q + unat t) ?buf)"
        using rng(2) by (simp add: mem_range_def ut)
      then have "take k (drop 40 bs) = take (min k (length bs - 40)) (drop (Suc ?q + unat t) ?buf)"
        by (simp only: take_take)
      then show ?thesis using k by (simp add: min_def)
    qed
    then have "concat iov' = mem_blit ?c 0 (take k (drop 40 bs))" using w(3) p1(2) by simp
    moreover have "take k (drop 40 bs) = take (length ?c) (drop 40 bs)" by (simp add: k min_def)
    ultimately have "pkt_bytes p2 = mem_blit ?hb 0 (take 40 bs) @ mem_blit ?c 0 (take (length ?c) (drop 40 bs))"
      unfolding pkt_bytes_def p2(1) using p1(1) by (simp add: p2_def)
    moreover have "pkt_bytes p = ?hb @ ?c" by (simp add: pkt_bytes_def)
    ultimately show ?thesis
      using blit_two [of "take (40 + length ?c) bs" ?hb ?c] hl
      by (simp add: drop_take min_def take_take)
  qed
  have same: "idt2 = (ident = None \<or> take (length bs) (pkt_bytes p) = bs)" if fit
  proof (cases "ident = None")
    case False
    have "take (length bs) (pkt_bytes p) = take (min 40 (length bs)) ?hb @ take (length bs - 40) ?c"
      using hl by (cases "length bs \<le> 40") (simp_all add: pkt_bytes_def)
    moreover have "bs = take 40 bs @ drop 40 bs" by simp
    ultimately have "(take (length bs) (pkt_bytes p) = bs) =
        (take (min 40 (length bs)) ?hb @ take (length bs - 40) ?c = take 40 bs @ drop 40 bs)" by metis
    also have "\<dots> = (take (min 40 (length bs)) ?hb = take 40 bs \<and> take (length bs - 40) ?c = drop 40 bs)"
      by (rule append_eq_append_conv) (simp add: hl min.commute)
    finally show ?thesis using False by (auto simp: idt2_def idt_def)
  qed (simp add: idt2_def idt_def)
  have res: "whip6_lowpanRawIpv6HeaderUnpack f h p ident =
      Some (p2, (if fit then (if ident \<noteq> None then Some (of_bool idt2) else None) else ident), if fit then n else 0)"
    by (simp only: whip6_lowpanRawIpv6HeaderUnpack_def pp f(2) Let_def bind.bind_lunit lo if_False buf_get_in [OF b0(1)]
        b0(2) n_eq al' t_def [symmetric] s1 s2 p1_def [symmetric] Suc_eq_plus1 [symmetric] s3 w(1) prod.case
        p2_def [symmetric] kn lowpan_constants and_255 simp_thms if_not_P split: if_split) simp
  have "(if ident \<noteq> None then Some (of_bool idt2 :: u8) else None) =
      map_option (\<lambda>_. of_bool (take (length bs) (pkt_bytes p) = bs)) ident" if fit
    using same [OF that] by (cases ident) auto
  then show ?thesis using res ok2 p2(2) p2l bytes by (auto simp: n_def p2_def p1_def)
qed

section \<open>Packing writes a prefix\<close>

text \<open>The room for packet bytes in the first fragment, a multiple of 8 unless the rest of the packet fits.\<close>

definition raw_room :: "lowpan_unpacked_frame_headers \<Rightarrow> u8 \<Rightarrow> nat" where
  "raw_room h maxLen =
     (let n = unat maxLen - unat (nextOffset h) - 1
      in if whip6_lowpanFrameHeadersHasFragHeader h \<and> unat (fragSize (hdrFrag h)) > n then n - n mod 8 else n)"

lemma unat_and_not7: "unat ((w :: u8) AND NOT 7) = unat w - unat w mod 8"
proof -
  have "w AND NOT 7 = push_bit 3 (drop_bit 3 w)"
  proof (rule bit_word_eqI)
    fix n
    have "(7 :: u8) = mask 3" by (simp add: mask_eq_exp_minus_1)
    then have b: "bit (7 :: u8) n \<longleftrightarrow> n < 3 \<and> n < 8" by (simp only: bit_mask_iff) auto
    assume "n < LENGTH(8)"
    then show "bit (w AND NOT 7) n = bit (push_bit 3 (drop_bit 3 w)) n"
      by (auto simp only: bit_and_iff bit_not_iff_eq b bit_push_bit_iff bit_drop_bit_eq comp_def) auto
  qed
  then have "unat (w AND NOT 7) = take_bit LENGTH(8) (push_bit 3 (unat (drop_bit 3 w)))"
    by (simp only: unsigned_push_bit_eq)
  also have "\<dots> = (unat w div 8 * 8) mod 256"
    by (simp add: take_bit_eq_mod push_bit_eq_mult drop_bit_eq_div unat_div)
  also have "\<dots> = unat w div 8 * 8"
    using unat_u8_less [of w] div_times_less_eq_dividend [of "unat w" 8] by (intro mod_less) linarith
  finally show ?thesis by (simp add: minus_mod_eq_div_mult)
qed

lemma raw_pack:
  assumes f: "frame_fits dm sm ip f" and p: "packet_ok p"
    and room: "maxLen = whip6_ieee154DFrameMaxPayloadLen f" "nextOffset h < maxLen" "0 < raw_room h maxLen"
    and k: "k = min (raw_room h maxLen) (length (pkt_bytes p))"
  shows "\<exists>f'. whip6_lowpanRawIpv6HeaderPack f h p = Some (f', of_nat k) \<and>
    whip6_ieee154DFrameSetPayloadLen
      (frame_blit (fr_pay dm sm ip + unat (nextOffset h)) (0x41 # take k (pkt_bytes p)) f)
      (nextOffset h + 1 + of_nat k) = Some f'"
proof -
  let ?off = "nextOffset h" and ?buf = "bufferPtr f"
  let ?q = "fr_pay dm sm ip + unat ?off"
  have pp: "whip6_ieee154DFrameUnsafeGetPayloadPtr f = fr_pay dm sm ip"
    using f by (auto simp: frame_fits_def frame_layout_offsets)
  have lo: "\<not> ?off \<ge> maxLen" "unat ?off < unat maxLen" using room(2) by (simp_all add: word_less_nat_alt not_le)
  have bl: "fr_pay dm sm ip + unat maxLen \<le> length ?buf" using unat_MaxPayloadLen(2) [OF f] room(1) by simp
  have o1: "unat (?off + 1) = Suc (unat ?off)"
  proof -
    have "unat ?off + 1 < 256" using lo(2) unat_u8_less [of maxLen] by linarith
    then show ?thesis using off_plus_num(1) [of ?off] by simp
  qed
  define n0 where "n0 = maxLen - (?off + 1)"
  have n0: "unat n0 = unat maxLen - unat ?off - 1"
    unfolding n0_def using lo(2) o1 by (subst unat_sub) (simp_all add: word_le_nat_alt)
  define n where "n = (if whip6_lowpanFrameHeadersHasFragHeader h \<and> unat (fragSize (hdrFrag h)) > unat n0
      then n0 AND NOT 7 else n0)"
  have n: "unat n = raw_room h maxLen"
    unfolding n_def raw_room_def Let_def n0 [symmetric] by (simp only: unat_and_not7 if_distrib [of unat])
  have nz: "n \<noteq> 0" using room(3) n by (metis less_numeral_extra(3) unsigned_0)
  have nle: "unat n \<le> unat maxLen - unat ?off - 1" unfolding n raw_room_def Let_def by (simp only: diff_le_self split: if_split) simp
  let ?hb = "header_bytes (pktHeader p)" and ?c = "concat (pkt_iov p)"
  have hl: "length ?hb = 40" using p by (simp add: packet_ok_def header_bytes_length)
  define t where "t = (if (of_nat IPV6_BASIC_HEADER_SIZE :: u8) > n then n else of_nat IPV6_BASIC_HEADER_SIZE)"
  have ut: "unat t = min 40 (unat n)"
    by (simp add: t_def IPV6_BASIC_HEADER_SIZE_def word_less_nat_alt)
  have unt: "unat (n - t) = unat n - 40" using ut by (subst unat_sub) (simp_all add: word_le_nat_alt)
  have q: "Suc ?q + unat n \<le> length ?buf" using nle lo(2) bl by linarith
  define b1 where "b1 = ?buf[?q := 0x41]"
  have b1: "buf_put ?buf ?q 0x41 = Some b1" "length b1 = length ?buf" using q by (simp_all add: b1_def)
  define b2 where "b2 = mem_blit b1 (Suc ?q) (take (unat t) ?hb)"
  have "whip6_shortMemCpy ?hb 0 b1 (Suc ?q) t = Some (mem_blit b1 (Suc ?q) (mem_range ?hb 0 (unat t)))"
    using q ut hl b1(2) by (intro shortMemCpy_range) simp_all
  then have s2: "whip6_shortMemCpy ?hb 0 b1 (Suc ?q) t = Some b2" by (simp add: b2_def mem_range_def)
  have b2: "length b2 = length ?buf" unfolding b2_def using q ut hl b1(2) by simp
  have r3: "Suc ?q + unat t + unat (n - t) \<le> length b2" using q ut unt b2 by auto
  define j where "j = min (unat n - 40) (length ?c)"
  define b3 where "b3 = mem_blit b2 (Suc ?q + unat t) (take j ?c)"
  have tk: "take (unat (n - t)) (drop 0 ?c) = take j ?c" by (simp add: unt j_def min_def)
  have s3: "whip6_iovShortRead (pkt_iov p) 0 (Some b2) (Suc ?q + unat t) (n - t) = Some (Some b3, of_nat j)"
    unfolding iovShortRead_eq [OF r3 refl] tk b3_def by (simp add: j_def)
  have tj: "unat t + j = k"
    by (auto simp: ut j_def k n pkt_bytes_length [OF p])
  have tk2: "take (unat t) ?hb @ take j ?c = take k (pkt_bytes p)"
  proof (cases "unat n \<le> 40")
    case True
    then have "j = 0" "unat t = k" using tj by (simp_all add: j_def ut)
    then show ?thesis using True hl ut by (simp add: pkt_bytes_def)
  next
    case False
    then have "unat t = 40" "k = 40 + j" using ut tj by simp_all
    then show ?thesis using hl by (simp add: pkt_bytes_def)
  qed
  have "b3 = mem_blit b1 (Suc ?q) (take k (pkt_bytes p))"
  proof -
    have lt: "length (take (unat t) ?hb) = unat t" using hl ut by simp
    have "mem_blit (mem_blit b1 (Suc ?q) (take (unat t) ?hb)) (Suc ?q + unat t) (take j ?c) =
        mem_blit b1 (Suc ?q) (take (unat t) ?hb @ take j ?c)"
      using q b1(2) ut lt by (intro mem_blit_append') (auto simp: j_def)
    then show ?thesis by (simp add: b3_def b2_def tk2)
  qed
  also have "\<dots> = mem_blit ?buf ?q (0x41 # take k (pkt_bytes p))"
    unfolding b1_def using q k n by (intro mem_blit_update) simp
  finally have b3: "f\<lparr>bufferPtr := b3\<rparr> = frame_blit ?q (0x41 # take k (pkt_bytes p)) f"
    by (simp add: frame_blit_def)
  have "t + of_nat j = of_nat (unat t + j)" by simp
  then have tk': "t + of_nat j = of_nat k" by (simp only: tj)
  have ft: "frame_fits dm sm ip (f\<lparr>bufferPtr := b3\<rparr>)"
    using f r3 b2 unt ut by (simp add: b3_def j_def)
  obtain f' where f': "whip6_ieee154DFrameSetPayloadLen (f\<lparr>bufferPtr := b3\<rparr>) (?off + 1 + of_nat k) = Some f'"
    using SetPayloadLen_Get [OF ft] by blast
  have "whip6_lowpanRawIpv6HeaderPack f h p = Some (f', of_nat k)"
    by (simp only: whip6_lowpanRawIpv6HeaderPack_def pp room(1) [symmetric] Let_def lo if_False lowpan_constants b1(1)
        bind.bind_lunit n0_def [symmetric] n_def [symmetric] nz t_def [symmetric] Suc_eq_plus1 [symmetric] s2 s3
        prod.case tk' f')
  then show ?thesis using f' by (simp add: b3)
qed

section \<open>Properties\<close>

lemma raw_room_dvd:
  "whip6_lowpanFrameHeadersHasFragHeader h \<Longrightarrow>
   8 dvd raw_room h maxLen \<or> unat (fragSize (hdrFrag h)) \<le> raw_room h maxLen"
  unfolding raw_room_def Let_def by (simp only: minus_mod_eq_div_mult split: if_split) simp

text \<open>What the sender packs of a packet behind its 6LoWPAN headers (as much as fits, cut to a multiple
  of 8 if more fragments follow) the receiver finds at the beginning of the packet it assembles,
  the rest of which stays as it was.\<close>

theorem raw_ipv6_roundtrip:
  assumes "frame_fits dm sm ip f" "packet_ok p" "packet_ok q"
    and "maxLen = whip6_ieee154DFrameMaxPayloadLen f" "nextOffset h < maxLen" "0 < raw_room h maxLen"
    and "whip6_lowpanFrameHeadersHasFragHeader h \<Longrightarrow> unat (fragSize (hdrFrag h)) = length (pkt_bytes p)"
    and "k = min (raw_room h maxLen) (length (pkt_bytes p))" "k \<le> length (pkt_bytes q)"
  shows "\<exists>f' q'. whip6_lowpanRawIpv6HeaderPack f h p = Some (f', of_nat k) \<and>
    whip6_lowpanRawIpv6HeaderUnpack f' h q None = Some (q', None, of_nat k) \<and> packet_ok q' \<and>
    pkt_bytes q' = take k (pkt_bytes p) @ drop k (pkt_bytes q)"
proof -
  let ?off = "nextOffset h" and ?q = "fr_pay dm sm ip + unat (nextOffset h)"
  define bs where "bs = take k (pkt_bytes p)"
  have bs: "length bs = k" using assms(8) by (simp add: bs_def)
  note max = unat_MaxPayloadLen [OF assms(1), folded assms(4)]
  have lo: "unat ?off < unat maxLen" using assms(5) by (simp add: word_less_nat_alt)
  have rr: "raw_room h maxLen \<le> unat maxLen - unat ?off - 1"
    unfolding raw_room_def Let_def by (simp only: diff_le_self split: if_split) simp
  have fit: "unat ?off + 1 + k \<le> unat maxLen" using lo rr assms(8) by linarith
  define len where "len = ?off + 1 + of_nat k"
  have "of_nat (unat ?off + 1 + k) = len" by (simp add: len_def)
  moreover have "unat ?off + 1 + k < 256" using fit unat_u8_less [of maxLen] by linarith
  ultimately have len: "unat len = unat ?off + 1 + k" by (metis unat_u8_of_nat)
  have room: "?q + length (0x41 # bs) \<le> length (bufferPtr f)" using max(2) fit by (simp add: bs)
  define g where "g = frame_blit ?q (0x41 # bs) f"
  have g: "frame_fits dm sm ip g" unfolding g_def using room assms(1) by (intro frame_blit_fits [THEN iffD2])
  obtain f' where f': "whip6_lowpanRawIpv6HeaderPack f h p = Some (f', of_nat k)"
    "whip6_ieee154DFrameSetPayloadLen g len = Some f'"
    using raw_pack [OF assms(1,2,4-6,8)] by (auto simp: g_def bs_def len_def)
  have fr: "frame_fits dm sm ip f'" "whip6_ieee154DFrameGetPayloadLen f' = Some len"
    using SetPayloadLen_Get [OF g, of len] f'(2) by auto
  have pay: "10 \<le> fr_pay dm sm ip" using assms(1) by (intro fr_bounds(5)) (auto simp: frame_fits_def frame_layout_def)
  have f'_eq: "f' = frame_blit 0 [len + of_nat (fr_pay dm sm ip - 1)] g"
    using SetPayloadLen_eq [OF g, of len] f'(2) by simp
  have "holds_at (bufferPtr g) ?q (0x41 # bs)" using room by (simp only: g_def frame_blit_fields holds_at_blit)
  then have at: "holds_at (bufferPtr f') ?q (0x41 # bs)"
    unfolding f'_eq frame_blit_fields(5) using pay room
    by (intro holds_at_blit_other) (simp_all only: g_def frame_blit_fields mem_blit_length, simp_all)
  have al: "8 dvd length bs \<or> \<not> whip6_lowpanFrameHeadersHasFragHeader h \<or> unat (fragSize (hdrFrag h)) \<le> length bs"
  proof (cases "whip6_lowpanFrameHeadersHasFragHeader h")
    case True
    then show ?thesis using raw_room_dvd [OF True, of maxLen] assms(7) [OF True] assms(8) bs
      by (cases "raw_room h maxLen \<le> length (pkt_bytes p)") auto
  qed simp
  have lay: "frame_layout dm sm ip f'" using fr(1) by (simp add: frame_fits_def)
  have len': "unat ?off + 1 + length bs = unat len" by (simp add: len bs)
  obtain q' where q': "whip6_lowpanRawIpv6HeaderUnpack f' h q None = Some (q', None, of_nat k)" "packet_ok q'"
    "pkt_bytes q' = mem_blit (pkt_bytes q) 0 (take (length (pkt_bytes q)) bs)"
    using raw_unpack [OF lay fr(2) at len' assms(3) al refl, of None] assms(9) by (auto simp: bs)
  have "pkt_bytes q' = bs @ drop k (pkt_bytes q)" using q'(3) assms(9) by (simp add: mem_blit_def bs)
  then show ?thesis using f'(1) q'(1,2) by (auto simp: bs_def)
qed

definition ex_packet :: "u8 \<Rightarrow> ipv6_packet" where
  "ex_packet b = \<lparr>pktAddr = 0, pktHeader = header_of_bytes (replicate 40 b),
     firstPayloadIov = [\<lparr>elemAddr = 1, elemBuf = replicate 100 b\<rparr>], lastPayloadIov = Some 1\<rparr>"

lemma ex_packet_ok: "packet_ok (ex_packet b)" "length (pkt_bytes (ex_packet b)) = 140"
proof -
  have "header_ok (header_of_bytes (replicate 40 b))" by (rule header_of_bytes_ok) simp
  then show ok: "packet_ok (ex_packet b)" by (simp add: packet_ok_def ex_packet_def)
  show "length (pkt_bytes (ex_packet b)) = 140"
    using pkt_bytes_length [OF ok] by (simp add: ex_packet_def)
qed

definition ex_frag_headers :: lowpan_unpacked_frame_headers where
  "ex_frag_headers = ex_headers\<lparr>nextOffset := 4, bitmap := 1, hdrFrag := \<lparr>fragTag = 7, fragSize = 140, fragOffset = 0\<rparr>\<rparr>"

theorem raw_ipv6_roundtrip_witness:
  "\<exists>f' q'. whip6_lowpanRawIpv6HeaderPack ex_lowpan_frame ex_frag_headers (ex_packet 1) = Some (f', of_nat 104) \<and>
    whip6_lowpanRawIpv6HeaderUnpack f' ex_frag_headers (ex_packet 2) None = Some (q', None, of_nat 104) \<and> packet_ok q' \<and>
    pkt_bytes q' = take 104 (pkt_bytes (ex_packet 1)) @ drop 104 (pkt_bytes (ex_packet 2))"
proof -
  have "fr_pay 2 3 False = 16" by (simp add: fr_defs)
  then have m: "unat (whip6_ieee154DFrameMaxPayloadLen ex_lowpan_frame) = 111"
    using unat_MaxPayloadLen(1) [OF ex_lowpan_frame_fits] by (simp add: ex_lowpan_frame_def fr_info_def)
  have hf: "whip6_lowpanFrameHeadersHasFragHeader ex_frag_headers" "nextOffset ex_frag_headers = 4"
    "fragSize (hdrFrag ex_frag_headers) = 140"
    by (simp_all add: ex_frag_headers_def whip6_lowpanFrameHeadersHasFragHeader_def lowpan_bits)
  have r: "raw_room ex_frag_headers (whip6_ieee154DFrameMaxPayloadLen ex_lowpan_frame) = 104"
    by (simp add: raw_room_def hf m)
  show ?thesis
    by (rule raw_ipv6_roundtrip [OF ex_lowpan_frame_fits ex_packet_ok(1) ex_packet_ok(1) refl])
      (simp_all add: r hf ex_packet_ok(2) word_less_nat_alt m)
qed

end
