(* ===== verification/Lowpan_DefragSpecs.thy ===== *)
theory Lowpan_DefragSpecs
  imports Lowpan_RawIpv6
begin

text \<open>
  The fragment specifications of a packet under reassembly
  (\<open>microc/src/6lowpan/uc6LoWPANDefragmentation.c\<close>, its first part).

  The specifications of a packet are the list \<open>firstFragSpec\<close>, then the chain of additional
  ones; it is never empty. A pointer into it is an index. Of the state these operations touch
  only \<open>freeAdditionalFragSpecs\<close>, a list of nodes.
\<close>

record lowpan_defrag_frag_spec =
  specAddr :: nat
  specOffset :: u16
  specSize :: u16

section \<open>Operations\<close>

definition whip6_lowpanDefragmenterDestroyFragSpecsOfPacket ::
  "lowpan_defrag_frag_spec list \<Rightarrow> lowpan_defrag_frag_spec list \<Rightarrow>
   lowpan_defrag_frag_spec list \<times> lowpan_defrag_frag_spec list" where
  "whip6_lowpanDefragmenterDestroyFragSpecsOfPacket free specs =
     (if tl specs \<noteq> [] then (tl specs @ free, [hd specs]) else (free, specs))"

fun defrag_where_loop ::
  "lowpan_defrag_frag_spec list \<Rightarrow> nat \<Rightarrow> u16 \<Rightarrow> nat option \<Rightarrow> nat option" where
  "defrag_where_loop [] currFragSpec newFragOff prevFragSpec = prevFragSpec"
| "defrag_where_loop (s # rest) currFragSpec newFragOff prevFragSpec =
     (if newFragOff \<le> specOffset s then prevFragSpec
      else defrag_where_loop rest (Suc currFragSpec) newFragOff (Some currFragSpec))"

definition whip6_lowpanDefragmenterFindWhereNewFragSpecShouldBeInserted ::
  "lowpan_defrag_frag_spec list \<Rightarrow> u16 \<Rightarrow> nat option" where
  "whip6_lowpanDefragmenterFindWhereNewFragSpecShouldBeInserted specs newFragOff =
     defrag_where_loop specs 0 newFragOff None"

text \<open>
  The ends are kept in 16 bits; the comparison with the new end is in \<open>int\<close>. The result is zero,
  positive or negative.
\<close>

definition whip6_lowpanDefragmenterConcatenateNewFragSpecWithExistingOne ::
  "lowpan_defrag_frag_spec \<Rightarrow> u16 \<Rightarrow> u16 \<Rightarrow> u8 \<Rightarrow> lowpan_defrag_frag_spec \<times> int" where
  "whip6_lowpanDefragmenterConcatenateNewFragSpecWithExistingOne fragSpec newFragOff newFragLen identicalContent =
     (let newStart = specOffset fragSpec;
          sumSize = specSize fragSpec;
          newEnd = newStart + sumSize;
          sumSize = sumSize + newFragLen;
          contained = True;
          (newStart, contained) = (if newStart > newFragOff then (newFragOff, False) else (newStart, contained));
          (newEnd, contained) =
            (if unat newEnd < unat newFragOff + unat newFragLen then (newFragOff + newFragLen, False)
             else (newEnd, contained));
          newSize = newEnd - newStart
      in if newSize = sumSize then (fragSpec\<lparr>specOffset := newStart, specSize := newSize\<rparr>, 0)
         else if newSize > sumSize then (fragSpec, - 1)
         else (fragSpec, if contained \<and> identicalContent \<noteq> 0 then 0 else 1))"

definition whip6_lowpanDefragmenterTryToConcatenateFragSpecWithNextOnList ::
  "lowpan_defrag_frag_spec list \<Rightarrow> lowpan_defrag_frag_spec list \<Rightarrow> nat \<Rightarrow> u8 \<Rightarrow>
   lowpan_defrag_frag_spec list \<times> lowpan_defrag_frag_spec list" where
  "whip6_lowpanDefragmenterTryToConcatenateFragSpecWithNextOnList free specs fragSpec identicalContent =
     (case drop (Suc fragSpec) specs of
        [] \<Rightarrow> (free, specs)
      | nextFragSpec # rest \<Rightarrow>
          (case whip6_lowpanDefragmenterConcatenateNewFragSpecWithExistingOne (specs ! fragSpec)
                  (specOffset nextFragSpec) (specSize nextFragSpec) identicalContent of
             (spec, concatenationResult) \<Rightarrow>
               if concatenationResult = 0
               then (nextFragSpec # free, take fragSpec specs @ spec # rest)
               else if concatenationResult > 0
               then ((nextFragSpec # rest) @ free, take fragSpec specs @ [spec])
               else (free, specs)))"

text \<open>Taking a node off the free list; \<open>None\<close> is the empty list.\<close>

definition defrag_alloc_spec ::
  "lowpan_defrag_frag_spec list \<Rightarrow> u16 \<Rightarrow> u16 \<Rightarrow> (lowpan_defrag_frag_spec list \<times> lowpan_defrag_frag_spec) option" where
  "defrag_alloc_spec free newFragOff newFragLen =
     (case free of
        [] \<Rightarrow> None
      | s # free \<Rightarrow> Some (free, s\<lparr>specOffset := newFragOff, specSize := newFragLen\<rparr>))"

definition whip6_lowpanDefragmenterMergeNewFragSpecIntoPacket ::
  "lowpan_defrag_frag_spec list \<Rightarrow> lowpan_defrag_frag_spec list \<Rightarrow> nat option \<Rightarrow> u16 \<Rightarrow> u16 \<Rightarrow> u8 \<Rightarrow>
   lowpan_defrag_frag_spec list \<times> lowpan_defrag_frag_spec list \<times> u8" where
  "whip6_lowpanDefragmenterMergeNewFragSpecIntoPacket free specs prevFragSpec newFragOff newFragLen identicalContent =
     (if newFragOff = 0
      then
        case whip6_lowpanDefragmenterConcatenateNewFragSpecWithExistingOne (hd specs) newFragOff newFragLen
               identicalContent of
          (spec, concatenationResult) \<Rightarrow>
            let specs = spec # tl specs
            in if concatenationResult \<noteq> 0
               then
                 case whip6_lowpanDefragmenterDestroyFragSpecsOfPacket free specs of
                   (free, specs) \<Rightarrow> (free, (hd specs)\<lparr>specOffset := 0, specSize := newFragLen\<rparr> # tl specs, 0)
               else
                 case whip6_lowpanDefragmenterTryToConcatenateFragSpecWithNextOnList free specs 0 identicalContent of
                   (free, specs) \<Rightarrow> (free, specs, 0)
      else
        case prevFragSpec of
          None \<Rightarrow> (free, specs, 1)
        | Some prev \<Rightarrow>
            (case whip6_lowpanDefragmenterConcatenateNewFragSpecWithExistingOne (specs ! prev) newFragOff newFragLen
                    identicalContent of
               (spec, concatenationResult) \<Rightarrow>
                 let specs = specs[prev := spec]
                 in if concatenationResult = 0
                    then
                      case whip6_lowpanDefragmenterTryToConcatenateFragSpecWithNextOnList free specs prev
                             identicalContent of
                        (free, specs) \<Rightarrow> (free, specs, 0)
                    else if concatenationResult > 0
                    then
                      case whip6_lowpanDefragmenterDestroyFragSpecsOfPacket free specs of
                        (free, specs) \<Rightarrow>
                          (case defrag_alloc_spec free newFragOff newFragLen of
                             None \<Rightarrow> (free, specs, 1)
                           | Some (free, s) \<Rightarrow> (free, [(hd specs)\<lparr>specOffset := 0, specSize := 0\<rparr>, s], 0))
                    else
                      case drop (Suc prev) specs of
                        next # rest \<Rightarrow>
                          (case whip6_lowpanDefragmenterConcatenateNewFragSpecWithExistingOne next newFragOff
                                  newFragLen identicalContent of
                             (next', concatenationResult) \<Rightarrow>
                               if concatenationResult < 0
                               then
                                 case defrag_alloc_spec free newFragOff newFragLen of
                                   None \<Rightarrow> (free, specs, 1)
                                 | Some (free, s) \<Rightarrow> (free, take (Suc prev) specs @ s # next # rest, 0)
                               else if concatenationResult > 0
                               then
                                 case defrag_alloc_spec ((next # rest) @ free) newFragOff newFragLen of
                                   None \<Rightarrow> ((next # rest) @ free, take (Suc prev) specs, 1)
                                 | Some (free, s) \<Rightarrow> (free, take (Suc prev) specs @ [s], 0)
                               else (free, take (Suc prev) specs @ next' # rest, 0))
                      | [] \<Rightarrow>
                          (case defrag_alloc_spec free newFragOff newFragLen of
                             None \<Rightarrow> (free, specs, 1)
                           | Some (free, s) \<Rightarrow> (free, specs @ [s], 0))))"

section \<open>Specifications as intervals\<close>

definition spec_end :: "lowpan_defrag_frag_spec \<Rightarrow> nat" where
  "spec_end s = unat (specOffset s) + unat (specSize s)"

definition spec_set :: "lowpan_defrag_frag_spec \<Rightarrow> nat set" where
  "spec_set s = {unat (specOffset s)..<spec_end s}"

definition spec_cover :: "lowpan_defrag_frag_spec list \<Rightarrow> nat set" where
  "spec_cover specs = (\<Union>s \<in> set specs. spec_set s)"

lemma spec_cover_simps [simp]:
  "spec_cover [] = {}" "spec_cover (s # ss) = spec_set s \<union> spec_cover ss"
  "spec_cover (ss @ ts) = spec_cover ss \<union> spec_cover ts"
  by (simp_all add: spec_cover_def)

lemma spec_cover_mem: "s \<in> set specs \<Longrightarrow> spec_set s \<subseteq> spec_cover specs"
  by (auto simp: spec_cover_def)

text \<open>How two fragments lie; the sizes are small enough for the 16-bit arithmetic.\<close>

lemma concatenate_cases:
  assumes "unat off + unat len \<le> 32767" "spec_end s \<le> 32767" "0 < len" "0 < specSize s \<or> specOffset s = 0"
  shows "whip6_lowpanDefragmenterConcatenateNewFragSpecWithExistingOne s off len ident =
    (if spec_end s < unat off \<or> unat off + unat len < unat (specOffset s) then (s, - 1)
     else if spec_end s = unat off then (s\<lparr>specSize := specSize s + len\<rparr>, 0)
     else if unat off + unat len = unat (specOffset s)
     then (s\<lparr>specOffset := off, specSize := specSize s + len\<rparr>, 0)
     else (s, if specOffset s \<le> off \<and> unat off + unat len \<le> spec_end s \<and> ident \<noteq> 0 then 0 else 1))"
proof -
  define a where "a = unat (specOffset s)"
  define b where "b = spec_end s"
  define c where "c = unat off"
  define d where "d = unat off + unat len"
  let ?beg = "if specOffset s > off then off else specOffset s"
  let ?fin = "if unat (specOffset s + specSize s) < unat off + unat len then off + len else specOffset s + specSize s"
  have ab: "a \<le> b" "c < d" "b \<le> 32767" "d \<le> 32767" "a < b \<or> a = 0" "unat len = d - c" "unat (specSize s) = b - a"
    using assms by (auto simp: a_def b_def c_def d_def spec_end_def word_gt_0 unat_gt_0)
  have e: "unat (specOffset s + specSize s) = b" "unat (off + len) = d"
    using assms(1,2) by (simp_all add: unat_word_ariths(1) b_def d_def spec_end_def)
  have st: "unat ?beg = min a c" by (auto simp: a_def c_def word_less_nat_alt)
  have en: "unat ?fin = max b d" using e by (auto simp: d_def)
  have sz: "unat (?fin - ?beg) = max b d - min a c"
    using st en ab by (subst unat_sub) (auto simp: word_le_nat_alt)
  have sm: "unat (specSize s + len) = (b - a) + (d - c)"
    using ab by (simp add: unat_word_ariths(1))
  have eq: "?fin - ?beg = specSize s + len \<longleftrightarrow> max b d - min a c = (b - a) + (d - c)"
    by (simp only: word_unat_eq_iff sz sm)
  have gt: "?fin - ?beg > specSize s + len \<longleftrightarrow> max b d - min a c > (b - a) + (d - c)"
    by (subst word_less_nat_alt) (simp only: sz sm)
  have lt: "specOffset s > off \<longleftrightarrow> c < a" "specOffset s \<le> off \<longleftrightarrow> a \<le> c"
    by (auto simp: a_def c_def word_less_nat_alt word_le_nat_alt)
  have def_eq: "whip6_lowpanDefragmenterConcatenateNewFragSpecWithExistingOne s off len ident =
     (if ?fin - ?beg = specSize s + len
      then (s\<lparr>specOffset := ?beg, specSize := specSize s + len\<rparr>, 0)
      else if ?fin - ?beg > specSize s + len then (s, - 1)
      else (s, if \<not> c < a \<and> \<not> b < d \<and> ident \<noteq> 0 then 0 else 1))"
    using e(1) by (auto simp: whip6_lowpanDefragmenterConcatenateNewFragSpecWithExistingOne_def Let_def lt d_def)
  have start: "b = c \<Longrightarrow> ?beg = specOffset s" "d = a \<Longrightarrow> ?beg = off" using ab lt by auto
  have merged: "max b d - min a c = (b - a) + (d - c) \<longleftrightarrow> b = c \<or> d = a" using ab by auto
  have disj: "max b d - min a c > (b - a) + (d - c) \<longleftrightarrow> b < c \<or> d < a" using ab by auto
  have "s\<lparr>specOffset := specOffset s, specSize := x\<rparr> = s\<lparr>specSize := x\<rparr>" for x by simp
  note this [simp]
  show ?thesis
    unfolding def_eq unfolding eq gt merged disj
    unfolding lt(2) b_def [symmetric] d_def [symmetric]
    unfolding a_def [symmetric] c_def [symmetric]
    using start ab by (cases "b = c"; cases "d = a"; cases "b < c \<or> d < a") (simp_all add: not_less)
qed

text \<open>A specification of which the arithmetic is exact.\<close>

definition spec_fine :: "nat \<Rightarrow> lowpan_defrag_frag_spec \<Rightarrow> bool" where
  "spec_fine lim s \<longleftrightarrow> spec_end s \<le> lim \<and> (0 < specSize s \<or> specOffset s = 0)"

lemma concatenate_out:
  assumes "whip6_lowpanDefragmenterConcatenateNewFragSpecWithExistingOne s off len ident = (s', r)"
    and "unat off + unat len \<le> lim" "lim \<le> 32767" "0 < len" "spec_fine lim s"
  shows "specAddr s' = specAddr s" "r \<noteq> 0 \<Longrightarrow> s' = s"
    "r = 0 \<Longrightarrow> spec_set s' = spec_set s \<union> {unat off..<unat off + unat len}"
    "r = 0 \<Longrightarrow> 0 < specSize s' \<and> spec_fine lim s'" "specOffset s' \<le> specOffset s"
proof -
  have bounds: "unat off + unat len \<le> 32767" "spec_end s \<le> 32767" "0 < specSize s \<or> specOffset s = 0"
    using assms(2,3,5) by (auto simp: spec_fine_def)
  note c = concatenate_cases [OF bounds(1,2) assms(4) bounds(3), of ident, unfolded assms(1)]
  have l: "0 < unat len" using assms(4) by (simp add: unat_gt_0 word_gt_0)
  show "specAddr s' = specAddr s" "r \<noteq> 0 \<Longrightarrow> s' = s" "specOffset s' \<le> specOffset s"
    using c by (auto split: if_splits simp: word_le_nat_alt)
  assume r: "r = 0"
  have sz: "unat (specSize s + len) = unat (specSize s) + unat len"
    if "spec_end s = unat off \<or> unat off + unat len = unat (specOffset s)"
    using that bounds by (auto simp: unat_word_ariths(1) spec_end_def)
  consider "spec_end s = unat off" "s' = s\<lparr>specSize := specSize s + len\<rparr>"
    | "unat off + unat len = unat (specOffset s)" "s' = s\<lparr>specOffset := off, specSize := specSize s + len\<rparr>"
    | "s' = s" "specOffset s \<le> off" "unat off + unat len \<le> spec_end s"
    using c r by (auto split: if_splits)
  then have "spec_set s' = spec_set s \<union> {unat off..<unat off + unat len} \<and> 0 < specSize s' \<and> spec_fine lim s'"
  proof cases
    case 1
    then show ?thesis using sz l assms(2)
      by (auto simp: spec_set_def spec_fine_def spec_end_def word_less_nat_alt)
  next
    case 2
    then show ?thesis using sz l assms(2,5)
      by (auto simp: spec_set_def spec_fine_def spec_end_def word_less_nat_alt)
  next
    case 3
    then have "0 < unat (specSize s)" using l by (auto simp: spec_end_def word_le_nat_alt)
    then show ?thesis using 3 assms(5)
      by (auto simp: spec_set_def spec_fine_def word_le_nat_alt word_less_nat_alt)
  qed
  then show "spec_set s' = spec_set s \<union> {unat off..<unat off + unat len}" "0 < specSize s' \<and> spec_fine lim s'"
    by blast+
qed

definition specs_in :: "nat \<Rightarrow> lowpan_defrag_frag_spec list \<Rightarrow> bool" where
  "specs_in lim specs \<longleftrightarrow> specs \<noteq> [] \<and> specOffset (hd specs) = 0 \<and>
     (\<forall>s \<in> set specs. spec_end s \<le> lim) \<and> (\<forall>s \<in> set (tl specs). 0 < specSize s)"

lemma specs_in_ne: "specs_in lim specs \<Longrightarrow> specs \<noteq> []"
  by (simp add: specs_in_def)

lemma specs_in_fine: "specs_in lim specs \<Longrightarrow> s \<in> set specs \<Longrightarrow> spec_fine lim s"
  by (cases specs) (auto simp: specs_in_def spec_fine_def)

lemma specs_in_Cons:
  "specs_in lim (s # rest) \<longleftrightarrow>
     specOffset s = 0 \<and> spec_fine lim s \<and> (\<forall>t \<in> set rest. spec_fine lim t \<and> 0 < specSize t)"
  by (auto simp: specs_in_def spec_fine_def)

text \<open>Merging with the next specification keeps what is covered.\<close>

lemma next_out:
  assumes t: "whip6_lowpanDefragmenterTryToConcatenateFragSpecWithNextOnList free (pre @ s # rest) (length pre) ident =
      (free', specs')"
    and ok: "specs_in lim (pre @ s # rest)" "lim \<le> 32767"
  shows "specs_in lim specs' \<and> specAddr (hd specs') = specAddr (hd (pre @ s # rest)) \<and>
    mset (map specAddr (free' @ tl specs')) = mset (map specAddr (free @ tl (pre @ s # rest))) \<and>
    spec_cover (pre @ [s]) \<subseteq> spec_cover specs' \<and> spec_cover specs' \<subseteq> spec_cover (pre @ s # rest)"
proof (cases rest)
  case Nil
  then show ?thesis using t ok
    by (simp add: whip6_lowpanDefragmenterTryToConcatenateFragSpecWithNextOnList_def)
next
  case (Cons n rest')
  obtain s' r where c: "whip6_lowpanDefragmenterConcatenateNewFragSpecWithExistingOne s (specOffset n) (specSize n) ident =
      (s', r)" by fastforce
  have n: "unat (specOffset n) + unat (specSize n) \<le> lim" "0 < specSize n" "spec_fine lim s"
    using ok(1) Cons by (cases pre; auto simp: specs_in_Cons spec_fine_def spec_end_def)+
  note o = concatenate_out [OF c n(1) ok(2) n(2,3)]
  have sn: "{unat (specOffset n)..<unat (specOffset n) + unat (specSize n)} = spec_set n"
    by (simp add: spec_set_def spec_end_def)
  have o0: "specOffset s = 0 \<Longrightarrow> specOffset s' = 0" using o(5) by simp
  consider "r = 0" "free' = n # free" "specs' = pre @ s' # rest'"
    | "r > 0" "free' = (n # rest') @ free" "specs' = pre @ [s]" | "r < 0" "free' = free" "specs' = pre @ s # rest"
    using t Cons c o(2)
    by (auto simp: whip6_lowpanDefragmenterTryToConcatenateFragSpecWithNextOnList_def split: if_splits)
  then show ?thesis
  proof cases
    case 1
    then show ?thesis using Cons ok o(1,3,4) o0 by (cases pre) (auto simp: specs_in_Cons sn)
  next
    case 2
    then show ?thesis using Cons ok by (cases pre) (auto simp: specs_in_Cons)
  next
    case 3
    then show ?thesis using ok by auto
  qed
qed

text \<open>Where a fragment goes: behind the last specification of the ones that begin before it.\<close>

lemma where_loop:
  "defrag_where_loop specs i off prev =
     (case takeWhile (\<lambda>s. specOffset s < off) specs of [] \<Rightarrow> prev | _ # b \<Rightarrow> Some (i + length b))"
  by (induction specs i off prev rule: defrag_where_loop.induct) (auto simp: not_le not_less split: list.splits)

lemma find_where:
  assumes "specs_in lim specs" "off \<noteq> 0"
  obtains pre s rest where "specs = pre @ s # rest" "specOffset s < off" "\<forall>t \<in> set pre. specOffset t < off"
    "whip6_lowpanDefragmenterFindWhereNewFragSpecShouldBeInserted specs off = Some (length pre)"
    "rest = [] \<or> off \<le> specOffset (hd rest)"
proof -
  let ?tw = "takeWhile (\<lambda>s. specOffset s < off) specs" and ?rest = "dropWhile (\<lambda>s. specOffset s < off) specs"
  obtain s0 ss where "specs = s0 # ss" "specOffset s0 = 0" using assms(1) by (cases specs) (auto simp: specs_in_def)
  then have ne: "?tw \<noteq> []" using assms(2) by (simp add: word_gt_0)
  then have "specs = butlast ?tw @ last ?tw # ?rest"
    using append_butlast_last_id [OF ne] takeWhile_dropWhile_id [of "\<lambda>s. specOffset s < off" specs]
    by (metis append.assoc append_Cons append_Nil)
  moreover have "specOffset (last ?tw) < off" "\<forall>t \<in> set (butlast ?tw). specOffset t < off"
    using ne set_takeWhileD [of _ "\<lambda>s. specOffset s < off" specs] last_in_set [OF ne] in_set_butlastD by metis+
  moreover have "whip6_lowpanDefragmenterFindWhereNewFragSpecShouldBeInserted specs off = Some (length (butlast ?tw))"
    using ne by (simp add: whip6_lowpanDefragmenterFindWhereNewFragSpecShouldBeInserted_def where_loop split: list.splits)
  moreover have "?rest = [] \<or> off \<le> specOffset (hd ?rest)"
    by (metis (no_types, lifting) hd_dropWhile not_less)
  ultimately show thesis by (rule that)
qed

lemma alloc_spec_Some:
  "defrag_alloc_spec free off len = Some (free', s) \<Longrightarrow>
   mset (map specAddr free) = add_mset (specAddr s) (mset (map specAddr free')) \<and>
   specOffset s = off \<and> specSize s = len \<and> spec_set s = {unat off..<unat off + unat len} \<and>
   (spec_fine lim s \<longleftrightarrow> unat off + unat len \<le> lim \<and> (0 < len \<or> off = 0))"
  "defrag_alloc_spec free off len = None \<longleftrightarrow> free = []"
  by (auto simp: defrag_alloc_spec_def spec_set_def spec_end_def spec_fine_def split: list.splits)

text \<open>
  What merging does to any list of specifications: the nodes stay, and only the new fragment is
  added to what is covered; merging fails only without a free node.
\<close>

definition merge_sound :: "nat \<Rightarrow> lowpan_defrag_frag_spec list \<Rightarrow> lowpan_defrag_frag_spec list \<Rightarrow> nat set \<Rightarrow>
    lowpan_defrag_frag_spec list \<Rightarrow> lowpan_defrag_frag_spec list \<Rightarrow> u8 \<Rightarrow> bool" where
  "merge_sound lim free specs new free' specs' r \<longleftrightarrow>
     specs' \<noteq> [] \<and> specAddr (hd specs') = specAddr (hd specs) \<and>
     mset (map specAddr (free' @ tl specs')) = mset (map specAddr (free @ tl specs)) \<and>
     (if r = 0 then specs_in lim specs' \<and> new \<subseteq> spec_cover specs' \<and> spec_cover specs' \<subseteq> spec_cover specs \<union> new
      else free = [])"

lemma merge_first:
  assumes ok: "specs_in lim specs" "lim \<le> 32767" "unat len \<le> lim" "0 < len"
    and m: "whip6_lowpanDefragmenterMergeNewFragSpecIntoPacket free specs prev 0 len ident = (free', specs', r)"
  shows "r = 0 \<and> merge_sound lim free specs {0..<unat len} free' specs' 0"
proof -
  obtain s rest where s: "specs = s # rest" using ok(1) by (cases specs) (auto simp: specs_in_def)
  obtain s' q where c: "whip6_lowpanDefragmenterConcatenateNewFragSpecWithExistingOne s 0 len ident = (s', q)"
    by fastforce
  have f: "spec_fine lim s" "specOffset s = 0" using ok(1) s by (auto simp: specs_in_Cons)
  note o = concatenate_out [OF c _ ok(2,4) f(1), simplified, OF ok(3)]
  show ?thesis
  proof (cases "q = 0")
    case True
    have ok': "specs_in lim (s' # rest)" using ok(1) o(4) [OF True] o(5) f(2) s by (auto simp: specs_in_Cons)
    obtain fr sp where n: "whip6_lowpanDefragmenterTryToConcatenateFragSpecWithNextOnList free (s' # rest) 0 ident = (fr, sp)"
      by fastforce
    then have r: "free' = fr" "specs' = sp" "r = 0"
      using m c s True by (auto simp: whip6_lowpanDefragmenterMergeNewFragSpecIntoPacket_def)
    have "whip6_lowpanDefragmenterTryToConcatenateFragSpecWithNextOnList free ([] @ s' # rest) (length []) ident = (fr, sp)"
      using n by simp
    then have "specs_in lim sp \<and> specAddr (hd sp) = specAddr s' \<and>
        mset (map specAddr (fr @ tl sp)) = mset (map specAddr (free @ rest)) \<and>
        spec_set s' \<subseteq> spec_cover sp \<and> spec_cover sp \<subseteq> spec_set s' \<union> spec_cover rest"
      using next_out [of free "[]" s' rest ident fr sp lim] ok' ok(2) by simp
    moreover have "spec_set s' = spec_set s \<union> {0..<unat len}" using o(3) [OF True] by simp
    ultimately show ?thesis using r s o(1) specs_in_ne [of lim sp] unfolding merge_sound_def
      by simp blast
  next
    case False
    have d: "whip6_lowpanDefragmenterDestroyFragSpecsOfPacket free (s # rest) = (rest @ free, [s])"
      by (simp add: whip6_lowpanDefragmenterDestroyFragSpecsOfPacket_def)
    have r: "free' = rest @ free" "specs' = [s\<lparr>specOffset := 0, specSize := len\<rparr>]" "r = 0"
      using m c s False o(2) [OF False] d by (auto simp: whip6_lowpanDefragmenterMergeNewFragSpecIntoPacket_def)
    then show ?thesis using s ok(3,4)
      by (auto simp: merge_sound_def specs_in_Cons spec_fine_def spec_end_def spec_set_def)
  qed
qed

lemma destroy_eq:
  "specs \<noteq> [] \<Longrightarrow> whip6_lowpanDefragmenterDestroyFragSpecsOfPacket free specs = (tl specs @ free, [hd specs])"
  by (cases specs) (auto simp: whip6_lowpanDefragmenterDestroyFragSpecsOfPacket_def)

lemma merge_next:
  assumes ok: "specs_in lim specs" "lim \<le> 32767" "unat off + unat len \<le> lim" "0 < len" "off \<noteq> 0"
    and prev: "prev = whip6_lowpanDefragmenterFindWhereNewFragSpecShouldBeInserted specs off"
    and m: "whip6_lowpanDefragmenterMergeNewFragSpecIntoPacket free specs prev off len ident = (free', specs', r)"
  shows "(r = 0 \<or> r = 1) \<and> merge_sound lim free specs {unat off..<unat off + unat len} free' specs' r"
proof -
  let ?new = "{unat off..<unat off + unat len}"
  obtain pre s rest where s: "specs = pre @ s # rest" "prev = Some (length pre)"
    using find_where [OF ok(1,5)] prev by metis
  obtain s' q where c: "whip6_lowpanDefragmenterConcatenateNewFragSpecWithExistingOne s off len ident = (s', q)"
    by fastforce
  have f: "spec_fine lim s" using specs_in_fine [OF ok(1)] s(1) by simp
  note o = concatenate_out [OF c ok(3,2,4) f]
  note def_m = m [unfolded whip6_lowpanDefragmenterMergeNewFragSpecIntoPacket_def s, simplified] c
  have o0: "specOffset s = 0 \<Longrightarrow> specOffset s' = 0" using o(5) by simp
  have fine_new: "spec_fine lim n" if "specOffset n = off" "specSize n = len" for n
    using that ok(3,4) by (simp add: spec_fine_def spec_end_def)
  consider "q = 0" | "q > 0" | "q < 0" "rest = []" | n rest' where "q < 0" "rest = n # rest'"
    by (metis linorder_neqE_linordered_idom list.exhaust)
  then show ?thesis
  proof cases
    case 1
    have ok': "specs_in lim (pre @ s' # rest)"
      using ok(1) o(4) [OF 1] o0 s(1) by (cases pre) (auto simp: specs_in_Cons)
    obtain fr sp where n: "whip6_lowpanDefragmenterTryToConcatenateFragSpecWithNextOnList free (pre @ s' # rest)
        (length pre) ident = (fr, sp)" by fastforce
    then have r: "free' = fr" "specs' = sp" "r = 0" using def_m 1 ok(5) by auto
    have h: "specAddr (hd (pre @ s' # rest)) = specAddr (hd specs)"
      "map specAddr (tl (pre @ s' # rest)) = map specAddr (tl specs)"
      using s(1) o(1) by (cases pre; simp)+
    have m': "mset (map specAddr (free @ tl (pre @ s' # rest))) = mset (map specAddr (free @ tl specs))"
      using h(2) by simp
    have cov: "spec_cover (pre @ [s']) \<supseteq> ?new" "spec_cover (pre @ s' # rest) = spec_cover specs \<union> ?new"
      using o(3) [OF 1] s(1) by auto
    note x = next_out [OF n ok' ok(2), unfolded h(1) m' cov(2)]
    then show ?thesis using cov(1) specs_in_ne [of lim sp] unfolding r merge_sound_def by simp blast
  next
    case 2
    then have s's: "s' = s" using o(2) by simp
    have d: "whip6_lowpanDefragmenterDestroyFragSpecsOfPacket free specs = (tl specs @ free, [hd specs])"
      by (rule destroy_eq [OF specs_in_ne [OF ok(1)]])
    show ?thesis
    proof (cases "defrag_alloc_spec (tl specs @ free) off len")
      case None
      then show ?thesis using def_m 2 ok(5) s(1) s's d alloc_spec_Some(2) [of "tl specs @ free" off len]
        by (auto simp: merge_sound_def)
    next
      case (Some a)
      obtain fr n where a: "a = (fr, n)" by fastforce
      note al = alloc_spec_Some(1) [OF Some [unfolded a], of lim]
      have r: "free' = fr" "specs' = [(hd specs)\<lparr>specOffset := 0, specSize := 0\<rparr>, n]" "r = 0"
        using def_m 2 ok(5) s(1) s's d Some a by auto
      then show ?thesis using al ok(3,4)
        by (auto simp: merge_sound_def specs_in_Cons spec_fine_def spec_end_def spec_set_def add.commute)
    qed
  next
    case 3
    then have s's: "s' = s" using o(2) by simp
    show ?thesis
    proof (cases "defrag_alloc_spec free off len")
      case None
      then show ?thesis using def_m 3 ok(5) s(1) s's alloc_spec_Some(2) [of free off len]
        by (auto simp: merge_sound_def)
    next
      case (Some a)
      obtain fr n where a: "a = (fr, n)" by fastforce
      note al = alloc_spec_Some(1) [OF Some [unfolded a], of lim]
      have r: "free' = fr" "specs' = specs @ [n]" "r = 0" using def_m 3 ok(5) s s's Some a by auto
      have "specs_in lim (specs @ [n])" using ok(1,4) al fine_new [of n]
        by (cases specs) (auto simp: specs_in_def spec_fine_def)
      then show ?thesis using al r s(1) by (cases pre) (auto simp: merge_sound_def)
    qed
  next
    case (4 n rest')
    then have s's: "s' = s" using o(2) by simp
    obtain n' q' where c': "whip6_lowpanDefragmenterConcatenateNewFragSpecWithExistingOne n off len ident = (n', q')"
      by fastforce
    have fn: "spec_fine lim n" "0 < specSize n" using ok(1) s(1) 4(2) by (cases pre; auto simp: specs_in_Cons)+
    note o' = concatenate_out [OF c' ok(3,2,4) fn(1)]
    consider "q' = 0" | "q' > 0" | "q' < 0" by linarith
    then show ?thesis
    proof cases
      case 1
      then have r: "free' = free" "specs' = pre @ s # n' # rest'" "r = 0"
        using def_m 4 ok(5) s's c' by (auto simp: take_Suc_conv_app_nth)
      have "specs_in lim (pre @ s # n' # rest')"
        using ok(1) o'(4) [OF 1] s(1) 4(2) by (cases pre) (auto simp: specs_in_Cons)
      then show ?thesis using r s(1) 4(2) o'(1) o'(3) [OF 1] by (cases pre) (auto simp: merge_sound_def)
    next
      case 2
      show ?thesis
      proof (cases "defrag_alloc_spec ((n # rest') @ free) off len")
        case None
        then show ?thesis using alloc_spec_Some(2) [of "(n # rest') @ free" off len] by simp
      next
        case (Some a)
        obtain fr x where a: "a = (fr, x)" by fastforce
        note al = alloc_spec_Some(1) [OF Some [unfolded a], of lim]
        have r: "free' = fr" "specs' = pre @ s # [x]" "r = 0"
          using def_m 4 ok(5) s's c' 2 Some a by (auto simp: take_Suc_conv_app_nth)
        have "specs_in lim (pre @ s # [x])"
          using ok(1,4) s(1) al fine_new [of x] by (cases pre) (auto simp: specs_in_Cons)
        then show ?thesis using r s(1) 4(2) al by (cases pre) (auto simp: merge_sound_def ac_simps)
      qed
    next
      case 3
      show ?thesis
      proof (cases "defrag_alloc_spec free off len")
        case None
        then show ?thesis using def_m 4 ok(5) s(1) s's c' 3 alloc_spec_Some(2) [of free off len]
          by (auto simp: merge_sound_def)
      next
        case (Some a)
        obtain fr x where a: "a = (fr, x)" by fastforce
        note al = alloc_spec_Some(1) [OF Some [unfolded a], of lim]
        have r: "free' = fr" "specs' = pre @ s # x # n # rest'" "r = 0"
          using def_m 4 ok(5) s's c' 3 Some a by (auto simp: take_Suc_conv_app_nth)
        have "specs_in lim (pre @ s # x # n # rest')"
          using ok(1,4) s(1) al fine_new [of x] 4(2) by (cases pre) (auto simp: specs_in_Cons)
        then show ?thesis using r s(1) 4(2) al by (cases pre) (auto simp: merge_sound_def)
      qed
    qed
  qed
qed

section \<open>Separated specifications\<close>

text \<open>
  As long as every new fragment is either apart from what is covered or a repetition of a part of
  one specification, the specifications stay sorted with gaps between them, and nothing that has
  been covered is given up.
\<close>

definition specs_sep :: "lowpan_defrag_frag_spec list \<Rightarrow> bool" where
  "specs_sep specs \<longleftrightarrow> sorted_wrt (\<lambda>s t. spec_end s < unat (specOffset t)) specs"

lemma specs_sep_simps [simp]:
  "specs_sep []" "specs_sep (s # ss) \<longleftrightarrow> (\<forall>t \<in> set ss. spec_end s < unat (specOffset t)) \<and> specs_sep ss"
  "specs_sep (ss @ ts) \<longleftrightarrow> specs_sep ss \<and> specs_sep ts \<and>
     (\<forall>s \<in> set ss. \<forall>t \<in> set ts. spec_end s < unat (specOffset t))"
  by (simp_all add: specs_sep_def sorted_wrt_append)

lemma offset_le_end: "unat (specOffset s) \<le> spec_end s"
  by (simp add: spec_end_def)

lemma next_sep:
  assumes t: "whip6_lowpanDefragmenterTryToConcatenateFragSpecWithNextOnList free (pre @ s # rest) (length pre) ident =
      (free', specs')"
    and ok: "specs_in lim (pre @ s # rest)" "lim \<le> 32767"
    and sep: "specs_sep (pre @ [s])" "specs_sep rest" "\<forall>n \<in> set rest. spec_end s \<le> unat (specOffset n)"
  shows "specs_sep specs' \<and> spec_cover specs' = spec_cover (pre @ s # rest)"
proof (cases rest)
  case Nil
  then show ?thesis using t sep(1)
    by (auto simp: whip6_lowpanDefragmenterTryToConcatenateFragSpecWithNextOnList_def)
next
  case (Cons n rest')
  have n: "unat (specOffset n) + unat (specSize n) \<le> lim" "0 < specSize n" "spec_fine lim s"
    using ok(1) Cons by (cases pre; auto simp: specs_in_Cons spec_fine_def spec_end_def)+
  have c: "whip6_lowpanDefragmenterConcatenateNewFragSpecWithExistingOne s (specOffset n) (specSize n) ident =
      (if spec_end s < unat (specOffset n) then (s, - 1) else (s\<lparr>specSize := specSize s + specSize n\<rparr>, 0))"
    using concatenate_cases [of "specOffset n" "specSize n" s ident] n ok(2) sep(3) Cons offset_le_end [of s]
    by (auto simp: spec_fine_def)
  have pre: "\<forall>p \<in> set pre. spec_end p < unat (specOffset s)" using sep(1) by simp
  show ?thesis
  proof (cases "spec_end s < unat (specOffset n)")
    case True
    then have r: "specs' = pre @ s # n # rest'"
      using t c Cons by (simp add: whip6_lowpanDefragmenterTryToConcatenateFragSpecWithNextOnList_def)
    have "\<forall>t \<in> set rest'. spec_end s < unat (specOffset t)"
      using sep(2) Cons True offset_le_end [of n] by fastforce
    then show ?thesis using r Cons sep True pre offset_le_end [of s] by fastforce
  next
    case False
    let ?s = "s\<lparr>specSize := specSize s + specSize n\<rparr>"
    have e: "spec_end s = unat (specOffset n)" using False sep(3) Cons by simp
    have r: "specs' = pre @ ?s # rest'"
      using t c Cons False by (simp add: whip6_lowpanDefragmenterTryToConcatenateFragSpecWithNextOnList_def)
    have "unat (specSize s + specSize n) = unat (specSize s) + unat (specSize n)"
      using n ok(2) e by (auto simp: unat_word_ariths(1) spec_end_def)
    then have s: "spec_end ?s = spec_end n" "spec_set ?s = spec_set s \<union> spec_set n"
      using e by (auto simp: spec_end_def spec_set_def)
    have "\<forall>t \<in> set rest'. spec_end n < unat (specOffset t)" using sep(2) Cons by simp
    then show ?thesis using r Cons sep pre s offset_le_end [of s] offset_le_end [of n] e by fastforce
  qed
qed

lemma disjoint_intervals:
  fixes a b c d :: nat
  shows "a < b \<Longrightarrow> c < d \<Longrightarrow> {a..<b} \<inter> {c..<d} = {} \<longleftrightarrow> b \<le> c \<or> d \<le> a"
  by (auto simp: disjoint_iff)

lemma spec_set_nonempty: "0 < specSize s \<Longrightarrow> unat (specOffset s) < spec_end s"
  by (simp add: spec_end_def unat_gt_0 word_gt_0)

lemma merge_first_sep:
  assumes ok: "specs_in lim specs" "lim \<le> 32767" "unat len \<le> lim" "0 < len" and sep: "specs_sep specs"
    and al: "{0..<unat len} \<inter> spec_cover specs = {} \<or> (\<exists>t \<in> set specs. {0..<unat len} \<subseteq> spec_set t) \<and> ident \<noteq> 0"
    and m: "whip6_lowpanDefragmenterMergeNewFragSpecIntoPacket free specs prev 0 len ident = (free', specs', r)"
  shows "specs_sep specs' \<and> spec_cover specs' = spec_cover specs \<union> {0..<unat len}"
proof -
  obtain s rest where s: "specs = s # rest" using ok(1) by (cases specs) (auto simp: specs_in_def)
  have f: "spec_fine lim s" "specOffset s = 0" "spec_end s \<le> lim" "\<forall>t \<in> set rest. 0 < specSize t"
    using ok(1) s by (auto simp: specs_in_Cons spec_fine_def)
  have l: "0 < unat len" using ok(4) by (simp add: unat_gt_0 word_gt_0)
  have c: "whip6_lowpanDefragmenterConcatenateNewFragSpecWithExistingOne s 0 len ident =
      (if spec_end s = 0 then (s\<lparr>specSize := specSize s + len\<rparr>, 0)
       else (s, if unat len \<le> spec_end s \<and> ident \<noteq> 0 then 0 else 1))"
    using concatenate_cases [of 0 len s ident] ok(2-4) f l by simp
  have go: "specs_sep specs' \<and> spec_cover specs' = spec_cover (s' # rest)"
    if "whip6_lowpanDefragmenterConcatenateNewFragSpecWithExistingOne s 0 len ident = (s', 0)"
      "specs_in lim (s' # rest)" "\<forall>n \<in> set rest. spec_end s' \<le> unat (specOffset n)" for s'
  proof -
    obtain fr sp where n: "whip6_lowpanDefragmenterTryToConcatenateFragSpecWithNextOnList free (s' # rest) 0 ident = (fr, sp)"
      by fastforce
    then have "specs' = sp" using m s that(1) by (auto simp: whip6_lowpanDefragmenterMergeNewFragSpecIntoPacket_def)
    then show ?thesis using next_sep [of free "[]" s' rest ident fr sp lim] n that(2,3) ok(2) sep s by simp
  qed
  show ?thesis
  proof (cases "spec_end s = 0")
    case True
    let ?s = "s\<lparr>specSize := specSize s + len\<rparr>"
    have s0: "specSize s = 0" using True by (simp add: spec_end_def unat_eq_0)
    have e: "spec_end ?s = unat len" "spec_set ?s = {0..<unat len}" "spec_set s = {}"
      using f(2) s0 by (simp_all add: spec_end_def spec_set_def)
    have "0 \<notin> spec_set t" if "t \<in> set rest" for t
      using sep s that True by (auto simp: spec_set_def)
    then have no: "{0..<unat len} \<inter> spec_cover specs = {}" 
    proof -
      have "\<not> {0..<unat len} \<subseteq> spec_set t" if "t \<in> set specs" for t
        using that \<open>\<And>t. t \<in> set rest \<Longrightarrow> 0 \<notin> spec_set t\<close> s e(3) l
        by (auto simp: subset_eq intro!: bexI [of _ 0])
      then show ?thesis using al by blast
    qed
    have "unat len \<le> unat (specOffset n)" if "n \<in> set rest" for n
    proof -
      have "spec_set n \<subseteq> spec_cover specs" using s that by (intro spec_cover_mem) simp
      then have "{0..<unat len} \<inter> {unat (specOffset n)..<spec_end n} = {}"
        using no unfolding spec_set_def by blast
      then show ?thesis using disjoint_intervals [OF l spec_set_nonempty, of n] f(4) that
          spec_set_nonempty [of n] by auto
    qed
    moreover have "specs_in lim (?s # rest)" using ok f(2) s e(1) s0 by (auto simp: specs_in_Cons spec_fine_def)
    moreover have "spec_cover (?s # rest) = spec_cover specs \<union> {0..<unat len}" using s e by auto
    ultimately show ?thesis using go [of ?s] c True e(1) by simp
  next
    case False
    have z: "0 \<in> spec_set s" using f(2) False by (simp add: spec_set_def)
    then have "\<not> {0..<unat len} \<inter> spec_cover specs = {}" using l s by auto
    then obtain t where t: "t \<in> set specs" "{0..<unat len} \<subseteq> spec_set t" "ident \<noteq> 0" using al by blast
    have "t = s"
    proof (rule ccontr)
      assume "t \<noteq> s"
      then have "0 < unat (specOffset t)" using sep s t(1) by force
      then show False using t(2) l by (auto simp: spec_set_def)
    qed
    then have le: "unat len \<le> spec_end s" using t(2) l by (auto simp: spec_set_def subset_eq dest!: spec [of _ "unat len - 1"])
    have "spec_cover specs \<union> {0..<unat len} = spec_cover specs" using t by (auto simp: spec_cover_def)
    then show ?thesis using go [of s] c False le t(3) ok(1) sep s by (auto simp: less_imp_le)
  qed
qed

lemma merge_next_sep:
  assumes ok: "specs_in lim specs" "lim \<le> 32767" "unat off + unat len \<le> lim" "0 < len" "off \<noteq> 0"
    and sep: "specs_sep specs"
    and al: "{unat off..<unat off + unat len} \<inter> spec_cover specs = {} \<or>
      (\<exists>t \<in> set specs. {unat off..<unat off + unat len} \<subseteq> spec_set t) \<and> ident \<noteq> 0"
    and prev: "prev = whip6_lowpanDefragmenterFindWhereNewFragSpecShouldBeInserted specs off"
    and m: "whip6_lowpanDefragmenterMergeNewFragSpecIntoPacket free specs prev off len ident = (free', specs', 0)"
  shows "specs_sep specs' \<and> spec_cover specs' = spec_cover specs \<union> {unat off..<unat off + unat len}"
proof -
  define c where "c = unat off"
  define d where "d = unat off + unat len"
  have cd: "c < d" using ok(4) by (simp add: c_def d_def unat_gt_0 word_gt_0)
  obtain pre s rest where s: "specs = pre @ s # rest" "prev = Some (length pre)" "specOffset s < off"
    "rest = [] \<or> off \<le> specOffset (hd rest)"
    using find_where [OF ok(1,5)] prev by metis
  have os: "unat (specOffset s) < c" using s(3) by (simp add: c_def word_less_nat_alt)
  have sp: "\<forall>p \<in> set pre. spec_end p < unat (specOffset s)" "specs_sep pre" "specs_sep rest"
    "\<forall>n \<in> set rest. spec_end s < unat (specOffset n)"
    "\<forall>p \<in> set pre. \<forall>n \<in> set rest. spec_end p < unat (specOffset n)" using sep s(1) by auto
  have f: "spec_fine lim s" "spec_end s \<le> lim" "\<forall>t \<in> set rest. 0 < specSize t \<and> spec_fine lim t \<and> spec_end t \<le> lim"
    using ok(1) s(1) by (cases pre; auto simp: specs_in_Cons spec_fine_def)+
  have rest: "\<forall>n \<in> set rest. c \<le> unat (specOffset n)"
  proof (cases rest)
    case (Cons n rest')
    then have "c \<le> unat (specOffset n)" using s(4) by (simp add: c_def word_le_nat_alt)
    then show ?thesis using Cons sp(3) offset_le_end [of n] by fastforce
  qed simp
  note con = concatenate_cases [OF _ _ ok(4), of off, folded d_def c_def]
  note def_m = m [unfolded whip6_lowpanDefragmenterMergeNewFragSpecIntoPacket_def s(1,2), simplified]
  have go: "specs_sep specs' \<and> spec_cover specs' = spec_cover (pre @ s' # rest)"
    if a: "whip6_lowpanDefragmenterConcatenateNewFragSpecWithExistingOne s off len ident = (s', 0)"
      "specs_in lim (pre @ s' # rest)" "\<forall>n \<in> set rest. spec_end s' \<le> unat (specOffset n)" "specOffset s' = specOffset s"
    for s'
  proof -
    obtain fr sp' where n: "whip6_lowpanDefragmenterTryToConcatenateFragSpecWithNextOnList free (pre @ s' # rest)
        (length pre) ident = (fr, sp')" by fastforce
    then have "specs' = sp'" using def_m a(1) ok(5) by auto
    then show ?thesis using next_sep [OF n a(2) ok(2) _ sp(3) a(3)] sp(1,2) a(4) by simp
  qed
  have cons: "whip6_lowpanDefragmenterConcatenateNewFragSpecWithExistingOne s off len ident =
      (if spec_end s < c then (s, - 1) else if spec_end s = c then (s\<lparr>specSize := specSize s + len\<rparr>, 0)
       else (s, if d \<le> spec_end s \<and> ident \<noteq> 0 then 0 else 1))"
    using con [of s ident] ok(2,3) f(1,2) os cd by (auto simp: spec_fine_def d_def word_le_nat_alt c_def)
  show ?thesis
  proof (cases "{c..<d} \<inter> spec_cover specs = {}")
    case True
    have es: "spec_end s \<le> c"
    proof (rule ccontr)
      assume "\<not> spec_end s \<le> c"
      then have "c \<in> spec_set s" using os by (simp add: spec_set_def)
      then show False using True cd s(1) by auto
    qed
    have re: "\<forall>n \<in> set rest. d \<le> unat (specOffset n)"
    proof
      fix n assume n: "n \<in> set rest"
      then have "spec_set n \<subseteq> spec_cover specs" using s(1) by (intro spec_cover_mem) simp
      then have "{c..<d} \<inter> {unat (specOffset n)..<spec_end n} = {}"
        using True unfolding spec_set_def by blast
      then show "d \<le> unat (specOffset n)"
        using disjoint_intervals [OF cd spec_set_nonempty, of n] f(3) n rest spec_set_nonempty [of n] by fastforce
    qed
    have new: "spec_set x = {c..<d}" "spec_end x = d" if "specOffset x = off" "specSize x = len" for x
      using that by (simp_all add: spec_set_def spec_end_def c_def d_def)
    show ?thesis
    proof (cases "spec_end s = c")
      case eq: True
      let ?s = "s\<lparr>specSize := specSize s + len\<rparr>"
      have "unat (specSize s + len) = unat (specSize s) + unat len"
        using eq ok(2,3) by (auto simp: unat_word_ariths(1) spec_end_def c_def)
      then have e: "spec_end ?s = d" "spec_set ?s = spec_set s \<union> {c..<d}"
        using eq os by (auto simp: spec_end_def spec_set_def c_def d_def)
      have "0 < specSize ?s" using e(1) os cd by (auto simp: spec_end_def word_gt_0)
      then have "specs_in lim (pre @ ?s # rest)"
        using ok(1,3) s(1) e(1) by (cases pre) (auto simp: specs_in_Cons spec_fine_def d_def)
      then show ?thesis using go [of ?s] cons eq re e s(1) by (auto simp: c_def d_def)
    next
      case ne: False
      then have lt: "spec_end s < c" using es by simp
      have pre_lt: "\<forall>p \<in> set pre. spec_end p < c" using sp(1) os by fastforce
      show ?thesis
      proof (cases rest)
        case Nil
        obtain fr x where "defrag_alloc_spec free off len = Some (fr, x)" "specs' = pre @ s # [x]"
          using def_m cons lt Nil ok(5) by (auto simp: Let_def split: option.splits)
        with alloc_spec_Some(1) [of free off len fr x lim] new [of x] show ?thesis
          using s(1) Nil sp lt pre_lt by (auto simp: c_def d_def)
      next
        case (Cons n rest')
        have conn: "whip6_lowpanDefragmenterConcatenateNewFragSpecWithExistingOne n off len ident =
            (if d < unat (specOffset n) then (n, - 1) else (n\<lparr>specOffset := off, specSize := specSize n + len\<rparr>, 0))"
          using con [of n ident] ok(2,3) f(3) re cd Cons offset_le_end [of n] spec_set_nonempty [of n]
          by (auto simp: spec_fine_def d_def c_def)
        have dn: "d \<le> unat (specOffset n)" using re Cons by simp
        show ?thesis
        proof (cases "d < unat (specOffset n)")
          case True
          obtain fr x where "defrag_alloc_spec free off len = Some (fr, x)" "specs' = pre @ s # x # n # rest'"
            using def_m cons lt Cons ok(5) conn True by (auto simp: Let_def take_Suc_conv_app_nth split: option.splits)
          moreover have "\<forall>t \<in> set rest'. d < unat (specOffset t)"
            using sp(3) Cons True offset_le_end [of n] by fastforce
          ultimately show ?thesis
            using alloc_spec_Some(1) [of free off len fr x lim] new [of x] s(1) Cons sp lt pre_lt True
            by (auto simp: c_def d_def)
        next
          case False
          let ?n = "n\<lparr>specOffset := off, specSize := specSize n + len\<rparr>"
          have r: "specs' = pre @ s # ?n # rest'"
            using def_m cons lt Cons ok(5) conn False by (auto simp: Let_def take_Suc_conv_app_nth)
          have "unat (specSize n + len) = unat (specSize n) + unat len"
            using f(3) Cons ok(2) cd dn by (auto simp: unat_word_ariths(1) spec_end_def c_def d_def)
          then have e: "spec_end ?n = spec_end n" "spec_set ?n = spec_set n \<union> {c..<d}"
            using False dn by (auto simp: spec_end_def spec_set_def c_def d_def)
          show ?thesis using r s(1) Cons sp lt pre_lt e by (auto simp: c_def d_def)
        qed
      qed
    qed
  next
    case False
    then obtain t where t: "t \<in> set specs" "{c..<d} \<subseteq> spec_set t" "ident \<noteq> 0"
      using al by (auto simp: c_def d_def)
    have ct: "c \<in> spec_set t" using t(2) cd by auto
    have "d - 1 \<in> spec_set t" using t(2) cd by auto
    then have le: "d \<le> spec_end t" using cd by (auto simp: spec_set_def)
    have cov: "spec_cover specs \<union> {c..<d} = spec_cover specs" using t by (auto simp: spec_cover_def)
    have "t \<notin> set pre" using ct sp(1) os by (auto simp: spec_set_def)
    then consider "t = s" | "t \<in> set rest" using t(1) s(1) by auto
    then show ?thesis
    proof cases
      case 1
      have "\<not> spec_end s < c" "spec_end s \<noteq> c" "d \<le> spec_end s" using ct le 1 by (auto simp: spec_set_def)
      then have "specs_sep specs' \<and> spec_cover specs' = spec_cover (pre @ s # rest)"
        using go [of s] cons t(3) ok(1) s(1) sp(4) by (auto simp: less_imp_le)
      then show ?thesis using cov s(1) by (simp add: c_def d_def)
    next
      case 2
      then have oc: "unat (specOffset t) = c" using rest ct by (force simp: spec_set_def)
      obtain rest' where r: "rest = t # rest'"
      proof (cases rest)
        case (Cons n rest')
        have "t = n"
        proof (rule ccontr)
          assume "t \<noteq> n"
          then have "spec_end n < unat (specOffset t)" using 2 Cons sp(3) by auto
          then show False using oc rest Cons offset_le_end [of n] by auto
        qed
        then show thesis using that Cons by simp
      qed (use 2 in simp)
      have lt: "spec_end s < c" using sp(4) r oc by auto
      have conn: "whip6_lowpanDefragmenterConcatenateNewFragSpecWithExistingOne t off len ident = (t, 0)"
        using con [of t ident] ok(2,3) f(3) r le oc cd t(3) by (auto simp: spec_fine_def d_def c_def word_le_nat_alt)
      have "specs' = specs" using def_m cons lt r ok(5) conn s(1) by (auto simp: Let_def take_Suc_conv_app_nth)
      then show ?thesis using cov sep by (simp add: c_def d_def)
    qed
  qed
qed


section \<open>Properties\<close>

text \<open>C12: Concatenating a fragment with a recorded one compares them as intervals although the code computes
  with 16-bit ends and sizes: the intervals are apart (negative result), adjacent on either side
  (zero, and the recorded one grows by exactly the new one), or they overlap, which counts as success
  only if the new one lies inside with identical bytes. This holds up to 32767 bytes.\<close>

theorem concatenate_intervals:
  assumes "unat off + unat len \<le> 32767" "spec_end s \<le> 32767" "0 < len" "0 < specSize s \<or> specOffset s = 0"
  shows "whip6_lowpanDefragmenterConcatenateNewFragSpecWithExistingOne s off len ident =
    (if spec_end s < unat off \<or> unat off + unat len < unat (specOffset s) then (s, - 1)
     else if spec_end s = unat off then (s\<lparr>specSize := specSize s + len\<rparr>, 0)
     else if unat off + unat len = unat (specOffset s)
     then (s\<lparr>specOffset := off, specSize := specSize s + len\<rparr>, 0)
     else (s, if specOffset s \<le> off \<and> unat off + unat len \<le> spec_end s \<and> ident \<noteq> 0 then 0 else 1))"
  by (rule concatenate_cases [OF assms])

theorem concatenate_intervals_witness:
  "whip6_lowpanDefragmenterConcatenateNewFragSpecWithExistingOne \<lparr>specAddr = 1, specOffset = 8, specSize = 16\<rparr> 24 8 0 =
    (\<lparr>specAddr = 1, specOffset = 8, specSize = 24\<rparr>, 0)"
  using concatenate_intervals [of 24 8 "\<lparr>specAddr = 1, specOffset = 8, specSize = 16\<rparr>" 0] by (simp add: spec_end_def)

text \<open>Merging any fragment within the packet, first or later, overlapping or not, loses no fragment node,
  keeps every recorded fragment nonempty and within the packet, records the new bytes, and records
  nothing that has not been received; it fails only for want of a free node.\<close>

theorem merge_keeps_specs:
  assumes "specs_in lim specs" "lim \<le> 32767" "unat off + unat len \<le> lim" "0 < len"
    and "prev = whip6_lowpanDefragmenterFindWhereNewFragSpecShouldBeInserted specs off"
    and "whip6_lowpanDefragmenterMergeNewFragSpecIntoPacket free specs prev off len ident = (free', specs', r)"
  shows "mset (map specAddr (free' @ tl specs')) = mset (map specAddr (free @ tl specs)) \<and>
    (if r = 0
     then specs_in lim specs' \<and> {unat off..<unat off + unat len} \<subseteq> spec_cover specs' \<and>
       spec_cover specs' \<subseteq> spec_cover specs \<union> {unat off..<unat off + unat len}
     else r = 1 \<and> off \<noteq> 0 \<and> free = [])"
proof (cases "off = 0")
  case True
  then show ?thesis using merge_first [of lim specs len free prev ident free' specs' r] assms
    by (simp add: merge_sound_def)
next
  case False
  then show ?thesis using merge_next [OF assms(1-4) False assms(5,6)] by (auto simp: merge_sound_def)
qed

theorem merge_keeps_specs_witness:
  "mset (map specAddr ([] @ tl [\<lparr>specAddr = 0, specOffset = 0, specSize = 0\<rparr>, \<lparr>specAddr = 1, specOffset = 8, specSize = 16\<rparr>])) =
     mset (map specAddr ([\<lparr>specAddr = 1, specOffset = 0, specSize = 0\<rparr>] @ tl [\<lparr>specAddr = 0, specOffset = 0, specSize = 0\<rparr>]))"
  using merge_keeps_specs [of 40 "[\<lparr>specAddr = 0, specOffset = 0, specSize = 0\<rparr>]" 8 16 "Some 0"
      "[\<lparr>specAddr = 1, specOffset = 0, specSize = 0\<rparr>]" 0 "[]"
      "[\<lparr>specAddr = 0, specOffset = 0, specSize = 0\<rparr>, \<lparr>specAddr = 1, specOffset = 8, specSize = 16\<rparr>]" 0]
  by (simp add: specs_in_def spec_end_def whip6_lowpanDefragmenterFindWhereNewFragSpecShouldBeInserted_def
      whip6_lowpanDefragmenterMergeNewFragSpecIntoPacket_def defrag_alloc_spec_def
      whip6_lowpanDefragmenterConcatenateNewFragSpecWithExistingOne_def)

text \<open>
  Only one successor is merged after an adjacent fragment: if bytes that are already recorded in
  two later fragments are received again within a longer one, the second of them stays in the list
  behind a fragment that contains it, and the next bytes are recorded behind it, so that the first
  fragment never grows to the whole packet although every byte has been received.
\<close>

lemma overlap_stays:
  defines "S \<equiv> \<lambda>a off n. \<lparr>specAddr = a, specOffset = off, specSize = n\<rparr>"
  shows "whip6_lowpanDefragmenterMergeNewFragSpecIntoPacket [] [S 0 0 8, S 1 16 8, S 2 32 8] (Some 0) 8 56 1 =
      ([S 1 16 8], [S 0 0 64, S 2 32 8], 0)"
    and "whip6_lowpanDefragmenterFindWhereNewFragSpecShouldBeInserted [S 0 0 64, S 2 32 8] 64 = Some 1"
    and "whip6_lowpanDefragmenterMergeNewFragSpecIntoPacket [S 1 16 8] [S 0 0 64, S 2 32 8] (Some 1) 64 8 0 =
      ([], [S 0 0 64, S 2 32 8, S 1 64 8], 0)"
  by (simp_all add: S_def whip6_lowpanDefragmenterMergeNewFragSpecIntoPacket_def defrag_alloc_spec_def
      whip6_lowpanDefragmenterTryToConcatenateFragSpecWithNextOnList_def
      whip6_lowpanDefragmenterConcatenateNewFragSpecWithExistingOne_def
      whip6_lowpanDefragmenterFindWhereNewFragSpecShouldBeInserted_def)

end
