(* ===== verification/Lowpan_Defragmentation.thy ===== *)
theory Lowpan_Defragmentation
  imports Lowpan_DefragSpecs
begin

text \<open>
  Reassembling IPv6 packets: \<open>microc/include/6lowpan/uc6LoWPANDefragmentation.h\<close> and
  \<open>microc/src/6lowpan/uc6LoWPANDefragmentation.c\<close>.

  A packet under reassembly is named by its address, and is in exactly one of the three lists of
  the state, linked through \<open>next\<close>. The state of the packet allocators is a second argument of
  the operations that allocate or free. \<open>scratchPad.tmpPanId\<close> is written before it is read in
  the only function that uses it, and is a local variable there. \<open>None\<close> is an access outside a
  buffer or through a null pointer.
\<close>

record lowpan_defrag_frag_set_key =
  keyTag :: u16
  srcLinkAddr :: ieee154_addr
  dstLinkAddr :: ieee154_addr
  commonPanId :: ieee154_pan_id

record lowpan_defrag_packet_state =
  dpAddr :: nat
  dpPacket :: "ipv6_packet option"
  dpKey :: lowpan_defrag_frag_set_key
  dpTotalSize :: u16
  fragSpecs :: "lowpan_defrag_frag_spec list"
  defragStartTime :: u32

record lowpan_defrag_global_state =
  dfCurrent :: "lowpan_defrag_packet_state list"
  dfLocked :: "lowpan_defrag_packet_state list"
  dfFree :: "lowpan_defrag_packet_state list"
  freeAdditionalFragSpecs :: "lowpan_defrag_frag_spec list"

section \<open>Destroying and unlocking\<close>

definition whip6_lowpanDefragmenterDestroyDefragPacket ::
  "'s ipv6_alloc \<Rightarrow> lowpan_defrag_global_state \<Rightarrow> 's \<Rightarrow> lowpan_defrag_packet_state \<Rightarrow>
   lowpan_defrag_global_state \<times> 's" where
  "whip6_lowpanDefragmenterDestroyDefragPacket A state s defragPacket =
     (let s = (case dpPacket defragPacket of None \<Rightarrow> s | Some packet \<Rightarrow> whip6_ipv6FreePacket A s packet);
          (free, specs) = whip6_lowpanDefragmenterDestroyFragSpecsOfPacket (freeAdditionalFragSpecs state)
            (fragSpecs defragPacket)
      in (state\<lparr>freeAdditionalFragSpecs := free,
                dfFree := defragPacket\<lparr>dpPacket := None, fragSpecs := specs\<rparr> # dfFree state\<rparr>, s))"

fun defrag_unlink_loop ::
  "lowpan_defrag_packet_state list \<Rightarrow> nat \<Rightarrow>
   (lowpan_defrag_packet_state \<times> lowpan_defrag_packet_state list) option" where
  "defrag_unlink_loop [] a = None"
| "defrag_unlink_loop (cur # rest) a =
     (if dpAddr cur = a then Some (cur, rest)
      else case defrag_unlink_loop rest a of None \<Rightarrow> None | Some (p, rest') \<Rightarrow> Some (p, cur # rest'))"

text \<open>The packet that has been unlocked, if it was locked.\<close>

definition whip6_lowpanDefragmenterUnlockDefragPacket ::
  "lowpan_defrag_global_state \<Rightarrow> nat \<Rightarrow> lowpan_defrag_global_state \<times> lowpan_defrag_packet_state option" where
  "whip6_lowpanDefragmenterUnlockDefragPacket state lockedDefragPacket =
     (case defrag_unlink_loop (dfLocked state) lockedDefragPacket of
        None \<Rightarrow> (state, None)
      | Some (cur, rest) \<Rightarrow> (state\<lparr>dfLocked := rest\<rparr>, Some cur))"

section \<open>Initialisation\<close>

fun defrag_init_loop :: "'a list \<Rightarrow> u8 \<Rightarrow> 'a list" where
  "defrag_init_loop [] n = []"
| "defrag_init_loop (tmp # arr) n = (if n > 0 then tmp # defrag_init_loop arr (n - 1) else [])"

definition whip6_lowpanDefragmenterInit ::
  "lowpan_defrag_packet_state list option \<Rightarrow> lowpan_defrag_frag_spec list option \<Rightarrow> u8 \<Rightarrow> u8 \<Rightarrow>
   lowpan_defrag_global_state" where
  "whip6_lowpanDefragmenterInit pktsArrPtr fragSpecArrPtr pktsArrLen fragSpecArrLen =
     \<lparr>dfCurrent = [], dfLocked = [],
      dfFree = (case pktsArrPtr of
          None \<Rightarrow> []
        | Some pktsArr \<Rightarrow> if pktsArrLen > 0 then defrag_init_loop pktsArr pktsArrLen else []),
      freeAdditionalFragSpecs = (case fragSpecArrPtr of
          None \<Rightarrow> []
        | Some fragSpecArr \<Rightarrow>
            if fragSpecArrLen > 0 then defrag_init_loop fragSpecArr fragSpecArrLen else [])\<rparr>"

section \<open>Finding or allocating a packet\<close>

definition whip6_lowpanDefragmenterCreateVirtualMeshHeaderIfNecessary ::
  "ieee154_dframe_info \<Rightarrow> lowpan_unpacked_frame_headers \<Rightarrow> lowpan_unpacked_frame_headers option" where
  "whip6_lowpanDefragmenterCreateVirtualMeshHeaderIfNecessary frameInfo lowpanHdrs =
     (if \<not> whip6_lowpanFrameHeadersHasMeshHeader lowpanHdrs
      then do { dst \<leftarrow> whip6_ieee154DFrameGetDstAddr frameInfo (meshDstAddr (hdrMesh lowpanHdrs));
                src \<leftarrow> whip6_ieee154DFrameGetSrcAddr frameInfo (meshSrcAddr (hdrMesh lowpanHdrs));
                Some (lowpanHdrs\<lparr>hdrMesh := \<lparr>hopLimit = 1, meshSrcAddr = src, meshDstAddr = dst\<rparr>\<rparr>) }
      else Some lowpanHdrs)"

definition defrag_key_matches ::
  "lowpan_defrag_frag_set_key \<Rightarrow> lowpan_unpacked_frame_headers \<Rightarrow> ieee154_pan_id \<Rightarrow> bool option" where
  "defrag_key_matches key lowpanHdrs tmpPanId =
     (if keyTag key = fragTag (hdrFrag lowpanHdrs)
      then do { r \<leftarrow> whip6_ieee154AddrAnyCmp (srcLinkAddr key) (meshSrcAddr (hdrMesh lowpanHdrs));
                if r \<noteq> 0 then Some False
                else do { r \<leftarrow> whip6_ieee154AddrAnyCmp (dstLinkAddr key) (meshDstAddr (hdrMesh lowpanHdrs));
                          if r \<noteq> 0 then Some False
                          else do { r \<leftarrow> whip6_ieee154PanIdCmp (commonPanId key) tmpPanId; Some (r = 0) } } }
      else Some False)"

fun defrag_find_loop ::
  "lowpan_defrag_packet_state list \<Rightarrow> lowpan_unpacked_frame_headers \<Rightarrow> ieee154_pan_id \<Rightarrow>
   (lowpan_defrag_packet_state \<times> lowpan_defrag_packet_state list) option option" where
  "defrag_find_loop [] lowpanHdrs tmpPanId = Some None"
| "defrag_find_loop (cur # rest) lowpanHdrs tmpPanId =
     do { same \<leftarrow> defrag_key_matches (dpKey cur) lowpanHdrs tmpPanId;
          if same then Some (Some (cur, rest))
          else do { r \<leftarrow> defrag_find_loop rest lowpanHdrs tmpPanId;
                    Some (case r of None \<Rightarrow> None | Some (p, rest') \<Rightarrow> Some (p, cur # rest')) } }"

text \<open>From the label \<open>PACKET_NOT_EXISTS\<close> on; \<open>None\<close> in the last component is a null pointer.\<close>

definition defrag_packet_not_exists ::
  "'s ipv6_alloc \<Rightarrow> lowpan_defrag_global_state \<Rightarrow> 's \<Rightarrow> lowpan_unpacked_frame_headers \<Rightarrow> ieee154_pan_id \<Rightarrow> u32 \<Rightarrow>
   (lowpan_defrag_global_state \<times> 's \<times> lowpan_defrag_packet_state option) option" where
  "defrag_packet_not_exists A state s lowpanHdrs tmpPanId currTimeInMs =
     (case dfFree state of
        [] \<Rightarrow> Some (state, s, None)
      | cur # rest \<Rightarrow>
          do { let sz = fragSize (hdrFrag lowpanHdrs);
               (s, packet) \<leftarrow> whip6_ipv6AllocatePacket A s (sz - of_nat IPV6_BASIC_HEADER_SIZE);
               let cur = cur\<lparr>dpTotalSize := sz, dpPacket := packet\<rparr>;
               if packet = None then Some (state\<lparr>dfFree := cur # rest\<rparr>, s, None)
               else
                 do { src \<leftarrow> whip6_ieee154AddrAnyCpy (meshSrcAddr (hdrMesh lowpanHdrs)) (srcLinkAddr (dpKey cur));
                      dst \<leftarrow> whip6_ieee154AddrAnyCpy (meshDstAddr (hdrMesh lowpanHdrs)) (dstLinkAddr (dpKey cur));
                      pan \<leftarrow> whip6_ieee154PanIdCpy tmpPanId (commonPanId (dpKey cur));
                      let cur = cur\<lparr>dpKey := \<lparr>keyTag = fragTag (hdrFrag lowpanHdrs), srcLinkAddr = src,
                                                 dstLinkAddr = dst, commonPanId = pan\<rparr>,
                                      fragSpecs := [(hd (fragSpecs cur))\<lparr>specOffset := 0, specSize := 0\<rparr>],
                                      defragStartTime := currTimeInMs\<rparr>;
                      Some (state\<lparr>dfFree := rest\<rparr>, s, Some cur) } })"

definition whip6_lowpanDefragmenterFindExistingOrAllocateNewPacketAndLockIt ::
  "'s ipv6_alloc \<Rightarrow> lowpan_defrag_global_state \<Rightarrow> 's \<Rightarrow> ieee154_dframe_info \<Rightarrow> lowpan_unpacked_frame_headers \<Rightarrow>
   u32 \<Rightarrow> (lowpan_defrag_global_state \<times> 's \<times> nat option) option" where
  "whip6_lowpanDefragmenterFindExistingOrAllocateNewPacketAndLockIt A state s frameInfo lowpanHdrs currTimeInMs =
     (if whip6_ieee154DFrameIsInterPan frameInfo then Some (state, s, None)
      else if \<not> whip6_lowpanFrameHeadersHasFragHeader lowpanHdrs then Some (state, s, None)
      else if unat (fragSize (hdrFrag lowpanHdrs)) < IPV6_BASIC_HEADER_SIZE then Some (state, s, None)
      else
        do { tmpPanId \<leftarrow> whip6_ieee154DFrameGetDstPanId frameInfo [0, 0];
             found \<leftarrow> defrag_find_loop (dfCurrent state) lowpanHdrs tmpPanId;
             (state, s, locked) \<leftarrow>
               (case found of
                  None \<Rightarrow> defrag_packet_not_exists A state s lowpanHdrs tmpPanId currTimeInMs
                | Some (cur, rest) \<Rightarrow>
                    let state = state\<lparr>dfCurrent := rest\<rparr>
                    in if dpTotalSize cur \<noteq> fragSize (hdrFrag lowpanHdrs)
                       then (case whip6_lowpanDefragmenterDestroyDefragPacket A state s cur of
                               (state, s) \<Rightarrow> defrag_packet_not_exists A state s lowpanHdrs tmpPanId currTimeInMs)
                       else Some (state, s, Some cur));
             case locked of
               None \<Rightarrow> Some (state, s, None)
             | Some cur \<Rightarrow> Some (state\<lparr>dfLocked := cur # dfLocked state\<rparr>, s, Some (dpAddr cur)) })"

section \<open>Passing frames\<close>

text \<open>
  The two branches that add the fragment of a frame to a packet, with the test for failure:
  \<open>False\<close> is the jump to \<open>FAILURE_ROLLBACK_1\<close>.
\<close>

definition defrag_first_fragment ::
  "lowpan_defrag_frag_spec list \<Rightarrow> lowpan_defrag_packet_state \<Rightarrow> ieee154_dframe_info \<Rightarrow>
   lowpan_unpacked_frame_headers \<Rightarrow> nat \<Rightarrow>
   (lowpan_defrag_frag_spec list \<times> lowpan_defrag_packet_state \<times> bool) option" where
  "defrag_first_fragment free p frameInfo lowpanHdrs payloadPtr =
     do { b \<leftarrow> buf_get (bufferPtr frameInfo) payloadPtr;
          if (b AND LOWPAN_DISPATCH_MASK_IPV6) = LOWPAN_DISPATCH_PATTERN_IPV6
          then
            do { packet \<leftarrow> dpPacket p;
                 (packet, ident, fragmentLen) \<leftarrow>
                   whip6_lowpanRawIpv6HeaderUnpack frameInfo lowpanHdrs packet
                     (if specSize (hd (fragSpecs p)) > 0 then Some 0 else None);
                 let p = p\<lparr>dpPacket := Some packet\<rparr>;
                 let identical = (case ident of Some v \<Rightarrow> v | None \<Rightarrow> 0);
                 if fragmentLen = 0 then Some (free, p, False)
                 else
                   case whip6_lowpanDefragmenterMergeNewFragSpecIntoPacket free (fragSpecs p) None 0
                          (ucast fragmentLen) identical of
                     (free, specs, r) \<Rightarrow> Some (free, p\<lparr>fragSpecs := specs\<rparr>, r = 0) }
          else Some (free, p, False) }"

text \<open>Copying into the header and into the payload, and whether anything changed by that.\<close>

definition defrag_copy_header ::
  "ipv6_packet \<Rightarrow> u16 \<Rightarrow> u8 list \<Rightarrow> nat \<Rightarrow> u8 \<Rightarrow> (ipv6_packet \<times> nat \<times> u8 \<times> u8 \<times> u8) option" where
  "defrag_copy_header packet newFragOffset buf payloadPtr payloadLen =
     (if unat newFragOffset < IPV6_BASIC_HEADER_SIZE
      then
        do { let tmpFragmentLen = of_nat IPV6_BASIC_HEADER_SIZE - ucast newFragOffset;
             let tmpFragmentLen = (if tmpFragmentLen > payloadLen then payloadLen else tmpFragmentLen);
             let hdrBuf = header_bytes (pktHeader packet);
             r \<leftarrow> whip6_shortMemCmp buf payloadPtr hdrBuf (unat newFragOffset) tmpFragmentLen;
             hdrBuf \<leftarrow> whip6_shortMemCpy buf payloadPtr hdrBuf (unat newFragOffset) tmpFragmentLen;
             Some (packet\<lparr>pktHeader := header_of_bytes hdrBuf\<rparr>, payloadPtr + unat tmpFragmentLen,
                   payloadLen - tmpFragmentLen, tmpFragmentLen, if r \<noteq> 0 then 0 else 1) }
      else Some (packet, payloadPtr, payloadLen, 0, 1))"

definition defrag_copy_payload ::
  "ipv6_packet \<Rightarrow> u16 \<Rightarrow> u8 list \<Rightarrow> nat \<Rightarrow> u8 \<Rightarrow> u8 \<Rightarrow> u8 \<Rightarrow> (ipv6_packet \<times> u8 \<times> u8 \<times> bool) option" where
  "defrag_copy_payload packet newFragOffset buf payloadPtr payloadLen fragmentLen identical =
     (if payloadLen > 0
      then
        do { let off = unat newFragOffset + unat fragmentLen - IPV6_BASIC_HEADER_SIZE;
             r \<leftarrow> whip6_iovShortCompare (pkt_iov packet) off (Some buf) payloadPtr payloadLen;
             let identical = (if r \<noteq> 0 then 0 else identical);
             (iov, tmpFragmentLen) \<leftarrow> whip6_iovShortWrite (pkt_iov packet) off (Some buf) payloadPtr payloadLen;
             let packet = packet\<lparr>firstPayloadIov := set_bufs (firstPayloadIov packet) iov\<rparr>;
             if tmpFragmentLen \<noteq> payloadLen then Some (packet, fragmentLen, identical, False)
             else Some (packet, fragmentLen + tmpFragmentLen, identical, True) }
      else Some (packet, fragmentLen, identical, True))"

definition defrag_next_fragment ::
  "lowpan_defrag_frag_spec list \<Rightarrow> lowpan_defrag_packet_state \<Rightarrow> ieee154_dframe_info \<Rightarrow>
   lowpan_unpacked_frame_headers \<Rightarrow> nat \<Rightarrow> u8 \<Rightarrow> u16 \<Rightarrow>
   (lowpan_defrag_frag_spec list \<times> lowpan_defrag_packet_state \<times> bool) option" where
  "defrag_next_fragment free p frameInfo lowpanHdrs payloadPtr payloadLen newFragOffset =
     (if payloadLen = 0 \<or> ((payloadLen AND 0x7) \<noteq> 0 \<and>
            unat newFragOffset + unat payloadLen \<noteq> unat (fragSize (hdrFrag lowpanHdrs)))
      then Some (free, p, False)
      else
        do { packet \<leftarrow> dpPacket p;
             (packet, payloadPtr, payloadLen, fragmentLen, identical) \<leftarrow>
               defrag_copy_header packet newFragOffset (bufferPtr frameInfo) payloadPtr payloadLen;
             (packet, fragmentLen, identical, ok) \<leftarrow>
               defrag_copy_payload packet newFragOffset (bufferPtr frameInfo) payloadPtr payloadLen fragmentLen
                 identical;
             let p = p\<lparr>dpPacket := Some packet\<rparr>;
             if \<not> ok then Some (free, p, False)
             else
               case whip6_lowpanDefragmenterMergeNewFragSpecIntoPacket free (fragSpecs p)
                      (whip6_lowpanDefragmenterFindWhereNewFragSpecShouldBeInserted (fragSpecs p) newFragOffset)
                      newFragOffset (ucast fragmentLen) identical of
                 (free, specs, r) \<Rightarrow> Some (free, p\<lparr>fragSpecs := specs\<rparr>, r = 0) })"

definition whip6_lowpanDefragmenterPassFrameWithIpv6PacketFragment ::
  "'s ipv6_alloc \<Rightarrow> lowpan_defrag_global_state \<Rightarrow> 's \<Rightarrow> ieee154_dframe_info \<Rightarrow> lowpan_unpacked_frame_headers \<Rightarrow>
   nat \<Rightarrow> (lowpan_defrag_global_state \<times> 's \<times> ipv6_packet option) option" where
  "whip6_lowpanDefragmenterPassFrameWithIpv6PacketFragment A state s frameInfo lowpanHdrs lockedDefragPacket =
     (case whip6_lowpanDefragmenterUnlockDefragPacket state lockedDefragPacket of
        (state, None) \<Rightarrow> Some (state, s, None)
      | (state, Some p) \<Rightarrow>
          do { let payloadPtr = whip6_ieee154DFrameUnsafeGetPayloadPtr frameInfo;
               payloadLen \<leftarrow> whip6_ieee154DFrameGetPayloadLen frameInfo;
               let fragmentLen = nextOffset lowpanHdrs;
               (free, p, ok) \<leftarrow>
                 (if fragmentLen \<ge> payloadLen then Some (freeAdditionalFragSpecs state, p, False)
                  else
                    let payloadPtr = payloadPtr + unat fragmentLen;
                        payloadLen = payloadLen - fragmentLen;
                        newFragOffset = fragOffset (hdrFrag lowpanHdrs)
                    in if newFragOffset = 0
                       then defrag_first_fragment (freeAdditionalFragSpecs state) p frameInfo lowpanHdrs payloadPtr
                       else defrag_next_fragment (freeAdditionalFragSpecs state) p frameInfo lowpanHdrs payloadPtr
                              payloadLen newFragOffset);
               let state = state\<lparr>freeAdditionalFragSpecs := free\<rparr>;
               if \<not> ok
               then (case whip6_lowpanDefragmenterDestroyDefragPacket A state s p of
                       (state, s) \<Rightarrow> Some (state, s, None))
               else if specOffset (hd (fragSpecs p)) = 0 \<and>
                       specSize (hd (fragSpecs p)) = fragSize (hdrFrag lowpanHdrs)
               then (case whip6_lowpanDefragmenterDestroyDefragPacket A state s (p\<lparr>dpPacket := None\<rparr>) of
                       (state, s) \<Rightarrow> Some (state, s, dpPacket p))
               else Some (state\<lparr>dfCurrent := p # dfCurrent state\<rparr>, s, None) })"

definition whip6_lowpanDefragmenterPassFrameWithEntireIpv6Packet ::
  "'s ipv6_alloc \<Rightarrow> 's \<Rightarrow> ieee154_dframe_info \<Rightarrow> lowpan_unpacked_frame_headers \<Rightarrow> ('s \<times> ipv6_packet option) option" where
  "whip6_lowpanDefragmenterPassFrameWithEntireIpv6Packet A s frameInfo lowpanHdrs =
     (if whip6_ieee154DFrameIsInterPan frameInfo then Some (s, None)
      else if whip6_lowpanFrameHeadersHasFragHeader lowpanHdrs then Some (s, None)
      else
        do { let payloadPtr = whip6_ieee154DFrameUnsafeGetPayloadPtr frameInfo;
             payloadLen \<leftarrow> whip6_ieee154DFrameGetPayloadLen frameInfo;
             let tmp = nextOffset lowpanHdrs;
             if tmp \<ge> payloadLen then Some (s, None)
             else
               do { let payloadPtr = payloadPtr + unat tmp;
                    let payloadLen = payloadLen - tmp;
                    tmp \<leftarrow> buf_get (bufferPtr frameInfo) payloadPtr;
                    if (tmp AND LOWPAN_DISPATCH_MASK_IPV6) \<noteq> LOWPAN_DISPATCH_PATTERN_IPV6 then Some (s, None)
                    else
                      do { let payloadLen = payloadLen - 1;
                           if unat payloadLen < IPV6_BASIC_HEADER_SIZE then Some (s, None)
                           else
                             do { (s, packet) \<leftarrow> whip6_ipv6AllocatePacket A s
                                    (ucast payloadLen - of_nat IPV6_BASIC_HEADER_SIZE);
                                  case packet of
                                    None \<Rightarrow> Some (s, None)
                                  | Some packet \<Rightarrow>
                                      do { (packet, _, tmp) \<leftarrow>
                                             whip6_lowpanRawIpv6HeaderUnpack frameInfo lowpanHdrs packet None;
                                           if tmp \<noteq> payloadLen then Some (whip6_ipv6FreePacket A s packet, None)
                                           else
                                             do { let payloadLen = payloadLen - of_nat IPV6_BASIC_HEADER_SIZE;
                                                  if whip6_ipv6BasicHeaderGetPayloadLength (pktHeader packet) \<noteq>
                                                       ucast payloadLen
                                                  then Some (whip6_ipv6FreePacket A s packet, None)
                                                  else Some (s, Some packet) } } } } } })"

section \<open>Unlocking, time-outs and termination\<close>

definition whip6_lowpanDefragmenterUnlockPacket ::
  "lowpan_defrag_global_state \<Rightarrow> nat \<Rightarrow> lowpan_defrag_global_state \<times> whip6_error" where
  "whip6_lowpanDefragmenterUnlockPacket state lockedDefragPacket =
     (case whip6_lowpanDefragmenterUnlockDefragPacket state lockedDefragPacket of
        (state, None) \<Rightarrow> (state, WHIP6_ARGUMENT_ERROR)
      | (state, Some p) \<Rightarrow> (state\<lparr>dfCurrent := p # dfCurrent state\<rparr>, WHIP6_NO_ERROR))"

text \<open>The loop returns the packets that stay.\<close>

fun defrag_timeout_loop ::
  "'s ipv6_alloc \<Rightarrow> u32 \<Rightarrow> u32 \<Rightarrow> lowpan_defrag_packet_state list \<Rightarrow> lowpan_defrag_global_state \<Rightarrow> 's \<Rightarrow>
   lowpan_defrag_packet_state list \<times> lowpan_defrag_global_state \<times> 's" where
  "defrag_timeout_loop A currTimeInMs reassemblyTimeoutInMs [] state s = ([], state, s)"
| "defrag_timeout_loop A currTimeInMs reassemblyTimeoutInMs (cur # rest) state s =
     (let dt = currTimeInMs - defragStartTime cur
      in if dt < reassemblyTimeoutInMs
         then (case defrag_timeout_loop A currTimeInMs reassemblyTimeoutInMs rest state s of
                 (kept, state, s) \<Rightarrow> (cur # kept, state, s))
         else (case whip6_lowpanDefragmenterDestroyDefragPacket A state s cur of
                 (state, s) \<Rightarrow> defrag_timeout_loop A currTimeInMs reassemblyTimeoutInMs rest state s))"

definition whip6_lowpanDefragmenterPeriodicTimeout ::
  "'s ipv6_alloc \<Rightarrow> lowpan_defrag_global_state \<Rightarrow> 's \<Rightarrow> u32 \<Rightarrow> u32 \<Rightarrow>
   lowpan_defrag_global_state \<times> 's \<times> whip6_error" where
  "whip6_lowpanDefragmenterPeriodicTimeout A state s currTimeInMs reassemblyTimeoutInMs =
     (if dfLocked state \<noteq> [] then (state, s, WHIP6_STATE_ERROR)
      else case defrag_timeout_loop A currTimeInMs reassemblyTimeoutInMs (dfCurrent state) state s of
             (kept, state, s) \<Rightarrow> (state\<lparr>dfCurrent := kept\<rparr>, s, WHIP6_NO_ERROR))"

fun defrag_terminate_loop ::
  "'s ipv6_alloc \<Rightarrow> lowpan_defrag_packet_state list \<Rightarrow> lowpan_defrag_global_state \<Rightarrow> 's \<Rightarrow>
   lowpan_defrag_global_state \<times> 's" where
  "defrag_terminate_loop A [] state s = (state, s)"
| "defrag_terminate_loop A (cur # rest) state s =
     (case whip6_lowpanDefragmenterDestroyDefragPacket A state s cur of
        (state, s) \<Rightarrow> defrag_terminate_loop A rest state s)"

definition whip6_lowpanDefragmenterTerminateAllReassemblies ::
  "'s ipv6_alloc \<Rightarrow> lowpan_defrag_global_state \<Rightarrow> 's \<Rightarrow> lowpan_defrag_global_state \<times> 's \<times> whip6_error" where
  "whip6_lowpanDefragmenterTerminateAllReassemblies A state s =
     (if dfLocked state \<noteq> [] then (state, s, WHIP6_STATE_ERROR)
      else case defrag_terminate_loop A (dfCurrent state) state s of
             (state, s) \<Rightarrow> (state\<lparr>dfCurrent := []\<rparr>, s, WHIP6_NO_ERROR))"

end
