(* ===== verification/Lowpan_DefragContent.thy ===== *)
theory Lowpan_DefragContent
  imports Lowpan_Defragmentation
begin

text \<open>
  What passing the fragment of a frame does to the contents of the packet: its bytes overwrite
  the packet at the offset of the fragment, and \<open>identical\<close> tells whether this changed anything.
\<close>

section \<open>Writing into a packet\<close>

text \<open>The packet consists of the same nodes.\<close>

definition pkt_same :: "ipv6_packet \<Rightarrow> ipv6_packet \<Rightarrow> bool" where
  "pkt_same p p' \<longleftrightarrow> pktAddr p' = pktAddr p \<and> map elemAddr (firstPayloadIov p') = map elemAddr (firstPayloadIov p)"

lemma blit_split:
  assumes "length x = n" "k = min (n - off) (length bs)" "off + length bs \<le> n + length y"
  shows "mem_blit (x @ y) off bs = mem_blit x off (take k bs) @ mem_blit y (off + k - n) (drop k bs)"
proof -
  consider "n \<le> off" | "off < n" "off + length bs \<le> n" | "off < n" "n < off + length bs" by linarith
  then show ?thesis
  proof cases
    case 3
    have "bs = take k bs @ drop k bs" by simp
    with 3 assms show ?thesis by (simp add: mem_blit_def add.commute)
  qed (use assms in \<open>simp_all add: mem_blit_def\<close>)
qed

lemma range_split:
  assumes "length x = n" "k = min (n - off) (length bs)" "off + length bs \<le> n + length y"
  shows "take (length bs) (drop off (x @ y)) = bs \<longleftrightarrow>
    take k (drop off x) = take k bs \<and> take (length bs - k) (drop (off + k - n) y) = drop k bs"
proof -
  have "take (length bs) (drop off (x @ y)) =
      take k (drop off x) @ take (length bs - k) (drop (off + k - n) y)"
    using assms by (cases "n \<le> off"; cases "off + length bs \<le> n") simp_all
  moreover have "length (take k (drop off x)) = length (take k bs)" using assms by auto
  moreover have "bs = take k bs @ drop k bs" by simp
  ultimately show ?thesis by (metis append_eq_append_conv)
qed

lemma set_iov:
  assumes "packet_ok p" "map length iov = map length (pkt_iov p)" "p' = p\<lparr>firstPayloadIov := set_bufs (firstPayloadIov p) iov\<rparr>"
  shows "packet_ok p'" "pkt_same p p'" "pkt_bytes p' = header_bytes (pktHeader p) @ concat iov"
proof -
  have "length (firstPayloadIov p) = length iov" using assms(2) by (metis length_map)
  note s = set_bufs_simps [OF this]
  have "\<forall>x \<in> set (map length (pkt_iov p)). x \<noteq> 0" using assms(1) by (simp add: packet_ok_def)
  then have "\<forall>x \<in> set iov. x \<noteq> []" unfolding assms(2) [symmetric] by auto
  then show "packet_ok p'" using assms(1,3) s by (simp add: packet_ok_def)
  show "pkt_same p p'" "pkt_bytes p' = header_bytes (pktHeader p) @ concat iov"
    using assms(3) s by (simp_all add: pkt_same_def pkt_bytes_def)
qed

lemma set_header:
  assumes "packet_ok p" "length hb = 40" "p' = p\<lparr>pktHeader := header_of_bytes hb\<rparr>"
  shows "packet_ok p'" "pkt_same p p'" "header_bytes (pktHeader p') = hb" "pkt_iov p' = pkt_iov p"
  using assms header_of_bytes_ok [OF assms(2)] header_bytes_of_bytes [OF assms(2)]
  by (simp_all add: packet_ok_def pkt_same_def)

lemma pkt_same_refl: "pkt_same p p"
  and pkt_same_trans: "pkt_same p q \<Longrightarrow> pkt_same q r \<Longrightarrow> pkt_same p r"
  by (simp_all add: pkt_same_def)

section \<open>Fragments other than the first\<close>

lemma copy_header:
  assumes p: "packet_ok p" and at: "holds_at buf q bs" and len: "unat len = length bs"
    and k: "k = min (40 - unat off) (length bs)"
  shows "\<exists>p' len' fl ident. defrag_copy_header p off buf q len = Some (p', q + k, len', fl, ident) \<and>
    unat len' = length bs - k \<and> unat fl = k \<and> packet_ok p' \<and> pkt_same p p' \<and> pkt_iov p' = pkt_iov p \<and>
    header_bytes (pktHeader p') = mem_blit (header_bytes (pktHeader p)) (unat off) (take k bs) \<and>
    (ident \<noteq> 0 \<longleftrightarrow> take k (drop (unat off) (header_bytes (pktHeader p))) = take k bs)"
proof (cases "unat off < 40")
  case False
  then show ?thesis using p len k by (simp add: defrag_copy_header_def IPV6_BASIC_HEADER_SIZE_def pkt_same_refl)
next
  case True
  let ?hb = "header_bytes (pktHeader p)"
  have hl: "length ?hb = 40" using p by (simp add: packet_ok_def header_bytes_length)
  have u: "unat (40 - ucast off :: u8) = 40 - unat off"
  proof -
    have "unat (ucast off :: u8) = unat off" using True by (simp add: unsigned_ucast_eq take_bit_eq_mod)
    then show ?thesis using True by (subst unat_sub) (simp_all add: word_le_nat_alt)
  qed
  define t where "t = (if 40 - ucast off > len then len else 40 - ucast off)"
  have t: "unat t = k" using u len k by (auto simp: t_def word_less_nat_alt)
  have kl: "k \<le> length bs" "unat off + k \<le> 40" using k True by auto
  have room: "q + unat t \<le> length buf" "unat off + unat t \<le> length ?hb"
    using holds_at_le [OF at] kl t hl by simp_all
  have rng: "take k (drop q buf) = take k bs"
    using at kl by (simp add: holds_at_def mem_range_def) (metis min.absorb1 take_take)
  obtain r where r: "whip6_shortMemCmp buf q ?hb (unat off) t = Some r"
    "(r = 0) = (take k (drop q buf) = take k (drop (unat off) ?hb))"
    using shortMemCmp_Some [OF room] t by metis
  have c: "whip6_shortMemCpy buf q ?hb (unat off) t = Some (mem_blit ?hb (unat off) (take k bs))"
    using shortMemCpy_eq [OF room] t rng by simp
  let ?p = "p\<lparr>pktHeader := header_of_bytes (mem_blit ?hb (unat off) (take k bs))\<rparr>"
  have "length (mem_blit ?hb (unat off) (take k bs)) = 40" using kl hl by simp
  note s = set_header [OF p this refl]
  have l: "unat (len - t) = length bs - k"
    using t len kl by (subst unat_sub) (simp_all add: word_le_nat_alt)
  show ?thesis using True r c s l t rng
    by (auto simp: defrag_copy_header_def IPV6_BASIC_HEADER_SIZE_def t_def [symmetric] Let_def)
qed

lemma copy_payload:
  assumes p: "packet_ok p" and at: "holds_at buf q bs" and len: "unat len = length bs"
    and off: "unat off + unat fl - 40 = o'" and w: "unat fl + length bs < 256"
  shows "\<exists>p' fl' ident'. defrag_copy_payload p off buf q len fl ident =
      Some (p', fl', ident', bs = [] \<or> o' + length bs \<le> length (concat (pkt_iov p))) \<and> packet_ok p' \<and> pkt_same p p' \<and>
    (bs = [] \<or> o' + length bs \<le> length (concat (pkt_iov p)) \<longrightarrow>
      unat fl' = unat fl + length bs \<and>
      pkt_bytes p' = header_bytes (pktHeader p) @ mem_blit (concat (pkt_iov p)) o' bs \<and>
      (ident' \<noteq> 0 \<longleftrightarrow> ident \<noteq> 0 \<and> take (length bs) (drop o' (concat (pkt_iov p))) = bs))"
proof (cases "bs = []")
  case True
  then have "len = 0" using len by (simp add: unat_eq_0)
  then show ?thesis using True p by (simp add: defrag_copy_payload_def pkt_same_refl pkt_bytes_def)
next
  case False
  let ?c = "concat (pkt_iov p)"
  have pos: "len > 0" using len False by (simp add: word_gt_0 unat_eq_0 [symmetric])
  have room: "q + unat len \<le> length buf" using holds_at_le [OF at] len by simp
  have rng: "take (length bs) (drop q buf) = bs" using at by (simp add: holds_at_def mem_range_def)
  obtain r where r: "whip6_iovShortCompare (pkt_iov p) o' (Some buf) q len = Some r"
    "(r = 0) = (take (length bs) (drop o' ?c) = bs)"
    using iovShortCompare_eq [OF room, of "pkt_iov p" o'] len rng by auto
  define k where "k = min (unat len) (length ?c - o')"
  obtain iov' where i: "whip6_iovShortWrite (pkt_iov p) o' (Some buf) q len = Some (iov', of_nat k)"
    "map length iov' = map length (pkt_iov p)" "concat iov' = mem_blit ?c o' (take k (drop q buf))"
    using iovShortWrite_eq [OF room k_def] by blast
  note s = set_iov [OF p i(2) refl]
  have "k \<le> unat len" by (simp add: k_def)
  then have "k < 256" using unat_u8_less [of len] by linarith
  then have kn: "of_nat k = len \<longleftrightarrow> o' + length bs \<le> length ?c"
  proof -
    have "0 < unat len" using False len by simp
    then show ?thesis using \<open>k < 256\<close> unfolding len [symmetric] k_def
      by (auto simp: word_unat_eq_iff unat_u8_of_nat min_def)
  qed
  have f: "unat (fl + len) = unat fl + length bs" using w len by (simp add: unat_word_ariths(1))
  show ?thesis
  proof (cases "o' + length bs \<le> length ?c")
    case True
    then have "k = length bs" using len by (simp add: k_def)
    then show ?thesis using pos r i s kn f True rng off len False
      by (simp add: defrag_copy_payload_def IPV6_BASIC_HEADER_SIZE_def Let_def)
  next
    case False
    then show ?thesis using pos r i s kn off \<open>bs \<noteq> []\<close>
      by (simp add: defrag_copy_payload_def IPV6_BASIC_HEADER_SIZE_def Let_def)
  qed
qed

lemma copy_fragment:
  assumes p: "packet_ok p" and at: "holds_at buf q bs" and len: "unat len = length bs"
    and fit: "fit \<longleftrightarrow> unat off + length bs \<le> length (pkt_bytes p)" and ne: "bs \<noteq> []"
  shows "\<exists>p' fl ident. defrag_copy_header p off buf q len \<bind>
      (\<lambda>(p, q, len, fl, ident). defrag_copy_payload p off buf q len fl ident) = Some (p', fl, ident, fit) \<and>
    packet_ok p' \<and> pkt_same p p' \<and>
    (fit \<longrightarrow> unat fl = length bs \<and> pkt_bytes p' = mem_blit (pkt_bytes p) (unat off) bs \<and>
      (ident \<noteq> 0 \<longleftrightarrow> take (length bs) (drop (unat off) (pkt_bytes p)) = bs))"
proof -
  let ?hb = "header_bytes (pktHeader p)" and ?c = "concat (pkt_iov p)"
  have hl: "length ?hb = 40" using p by (simp add: packet_ok_def header_bytes_length)
  define k where "k = min (40 - unat off) (length bs)"
  obtain p1 len1 fl1 id1 where h: "defrag_copy_header p off buf q len = Some (p1, q + k, len1, fl1, id1)"
    "unat len1 = length bs - k" "unat fl1 = k" "packet_ok p1" "pkt_same p p1" "pkt_iov p1 = pkt_iov p"
    "header_bytes (pktHeader p1) = mem_blit ?hb (unat off) (take k bs)"
    "(id1 \<noteq> 0) = (take k (drop (unat off) ?hb) = take k bs)"
    using copy_header [OF p at len k_def] by blast
  have at1: "holds_at buf (q + k) (drop k bs)"
  proof -
    have "holds_at buf q (take k bs @ drop k bs)" using at by simp
    moreover have "length (take k bs) = k" by (simp add: k_def)
    ultimately show ?thesis by (simp only: holds_at_append)
  qed
  define o' where "o' = unat off + unat fl1 - 40"
  have b: "unat fl1 + length (drop k bs) < 256"
    using h(3) len unat_u8_less [of len] by (simp add: k_def)
  define ok where "ok \<longleftrightarrow> drop k bs = [] \<or> o' + length (drop k bs) \<le> length ?c"
  have l1: "unat len1 = length (drop k bs)" using h(2) by simp
  obtain p2 fl2 id2 where c: "defrag_copy_payload p1 off buf (q + k) len1 fl1 id1 = Some (p2, fl2, id2, ok)"
    "packet_ok p2" "pkt_same p1 p2"
    "ok \<longrightarrow> unat fl2 = unat fl1 + length (drop k bs) \<and>
       pkt_bytes p2 = header_bytes (pktHeader p1) @ mem_blit ?c o' (drop k bs) \<and>
       (id2 \<noteq> 0 \<longleftrightarrow> id1 \<noteq> 0 \<and> take (length (drop k bs)) (drop o' ?c) = drop k bs)"
    using copy_payload [OF h(4) at1 l1 o'_def [symmetric] b, of id1] unfolding h(6) ok_def by blast
  have tot: "length (pkt_bytes p) = 40 + length ?c" by (rule pkt_bytes_length [OF p])
  have o'_eq: "o' = unat off + k - 40" using h(3) by (simp add: o'_def)
  have ok: "ok = fit"
  proof -
    have "0 < unat len" using ne len by simp
    moreover have "drop k bs = [] \<longleftrightarrow> unat len \<le> k" "length (drop k bs) = unat len - k" using len by simp_all
    ultimately show ?thesis unfolding ok_def fit tot o'_eq k_def len [symmetric] by (auto simp: min_def)
  qed
  have kb: "k \<le> length bs" by (simp add: k_def)
  have "unat fl2 = length bs \<and> pkt_bytes p2 = mem_blit (pkt_bytes p) (unat off) bs \<and>
      (id2 \<noteq> 0 \<longleftrightarrow> take (length bs) (drop (unat off) (pkt_bytes p)) = bs)" if fit
  proof -
    have le: "unat off + length bs \<le> 40 + length ?c" using that fit tot by simp
    note c4 = c(4) [rule_format, unfolded ok, OF that]
    have "pkt_bytes p2 = mem_blit (?hb @ ?c) (unat off) bs"
      unfolding blit_split [OF hl k_def le] using c4 h(7) by (simp add: o'_eq)
    moreover have "id2 \<noteq> 0 \<longleftrightarrow> take (length bs) (drop (unat off) (?hb @ ?c)) = bs"
      unfolding range_split [OF hl k_def le] using c4 h(8) by (auto simp: o'_eq)
    ultimately show ?thesis using c4 h(3) kb by (simp add: pkt_bytes_def)
  qed
  moreover have "defrag_copy_header p off buf q len \<bind>
      (\<lambda>(p, q, len, fl, ident). defrag_copy_payload p off buf q len fl ident) = Some (p2, fl2, id2, fit)"
    by (simp only: h(1) bind.bind_lunit prod.case c(1) ok)
  moreover have "pkt_same p p2" by (rule pkt_same_trans [OF h(5) c(3)])
  ultimately show ?thesis using c(2) by blast
qed

section \<open>Adding a fragment to a packet\<close>

definition dp_ok :: "lowpan_defrag_packet_state \<Rightarrow> bool" where
  "dp_ok p \<longleftrightarrow> (case dpPacket p of
      None \<Rightarrow> False
    | Some pk \<Rightarrow> packet_ok pk \<and> length (pkt_bytes pk) = unat (dpTotalSize p)) \<and>
    unat (dpTotalSize p) \<le> 32767 \<and> specs_in (unat (dpTotalSize p)) (fragSpecs p)"

text \<open>The bytes of a frame behind its 6LoWPAN headers.\<close>

definition frag_frame :: "ieee154_dframe_info \<Rightarrow> lowpan_unpacked_frame_headers \<Rightarrow> u8 list \<Rightarrow> bool" where
  "frag_frame f h bs \<longleftrightarrow> (\<exists>dm sm ip len. frame_layout dm sm ip f \<and> whip6_ieee154DFrameGetPayloadLen f = Some len \<and>
     holds_at (bufferPtr f) (fr_pay dm sm ip + unat (nextOffset h)) bs \<and> unat (nextOffset h) + length bs = unat len)"

lemma frag_frameE:
  assumes "frag_frame f h bs"
  obtains dm sm ip len where "frame_layout dm sm ip f" "whip6_ieee154DFrameGetPayloadLen f = Some len"
    "holds_at (bufferPtr f) (fr_pay dm sm ip + unat (nextOffset h)) bs" "unat (nextOffset h) + length bs = unat len"
    "whip6_ieee154DFrameUnsafeGetPayloadPtr f = fr_pay dm sm ip" "unat (len - nextOffset h) = length bs"
proof -
  from assms obtain dm sm ip len where f: "frame_layout dm sm ip f" "whip6_ieee154DFrameGetPayloadLen f = Some len"
    "holds_at (bufferPtr f) (fr_pay dm sm ip + unat (nextOffset h)) bs" "unat (nextOffset h) + length bs = unat len"
    unfolding frag_frame_def by blast
  have "unat (len - nextOffset h) = length bs" using f(4) by (subst unat_sub) (simp_all add: word_le_nat_alt)
  with f show thesis by (intro that) (auto simp: frame_layout_offsets)
qed

text \<open>What adding the bytes \<open>bs\<close> at \<open>off\<close> to a packet does; \<open>ok\<close> tells whether it succeeded.\<close>

definition frag_added ::
  "lowpan_defrag_frag_spec list \<Rightarrow> lowpan_defrag_packet_state \<Rightarrow> nat \<Rightarrow> u8 list \<Rightarrow>
   lowpan_defrag_frag_spec list \<Rightarrow> lowpan_defrag_packet_state \<Rightarrow> bool \<Rightarrow> bool" where
  "frag_added free p off bs free' p' ok \<longleftrightarrow>
     dpAddr p' = dpAddr p \<and> dpKey p' = dpKey p \<and> dpTotalSize p' = dpTotalSize p \<and>
     defragStartTime p' = defragStartTime p \<and>
     fragSpecs p' \<noteq> [] \<and> specAddr (hd (fragSpecs p')) = specAddr (hd (fragSpecs p)) \<and>
     mset (map specAddr (free' @ tl (fragSpecs p'))) = mset (map specAddr (free @ tl (fragSpecs p))) \<and>
     (\<exists>pk pk'. dpPacket p = Some pk \<and> dpPacket p' = Some pk' \<and> pkt_same pk pk' \<and>
        (ok \<longrightarrow> packet_ok pk' \<and> pkt_bytes pk' = mem_blit (pkt_bytes pk) off bs)) \<and>
     (ok \<longrightarrow> off + length bs \<le> unat (dpTotalSize p) \<and> specs_in (unat (dpTotalSize p)) (fragSpecs p') \<and>
        {off..<off + length bs} \<subseteq> spec_cover (fragSpecs p') \<and>
        spec_cover (fragSpecs p') \<subseteq> spec_cover (fragSpecs p) \<union> {off..<off + length bs}) \<and>
     (ok \<longrightarrow> specs_sep (fragSpecs p) \<longrightarrow>
        {off..<off + length bs} \<inter> spec_cover (fragSpecs p) = {} \<or>
        (\<exists>t \<in> set (fragSpecs p). {off..<off + length bs} \<subseteq> spec_set t) \<and>
        take (length bs) (drop off (pkt_bytes (the (dpPacket p)))) = bs \<longrightarrow>
        specs_sep (fragSpecs p') \<and>
        spec_cover (fragSpecs p') = spec_cover (fragSpecs p) \<union> {off..<off + length bs})"

lemma dp_okE:
  assumes "dp_ok p"
  obtains pk where "dpPacket p = Some pk" "packet_ok pk" "length (pkt_bytes pk) = unat (dpTotalSize p)"
    "unat (dpTotalSize p) \<le> 32767" "specs_in (unat (dpTotalSize p)) (fragSpecs p)"
  using assms by (cases "dpPacket p") (auto simp: dp_ok_def)

lemma frag_added_fails:
  assumes "dpPacket p = Some pk" "pkt_same pk pk'" "fragSpecs p \<noteq> []" "p' = p\<lparr>dpPacket := Some pk'\<rparr>"
  shows "frag_added free p off bs free p' False"
  using assms by (simp add: frag_added_def)

lemma next_fragment:
  assumes p: "dp_ok p" and f: "frag_frame f h bs" and ne: "bs \<noteq> []"
    and h: "fragOffset (hdrFrag h) \<noteq> 0" "fragSize (hdrFrag h) = dpTotalSize p"
    and ptr: "q = whip6_ieee154DFrameUnsafeGetPayloadPtr f + unat (nextOffset h)"
      "whip6_ieee154DFrameGetPayloadLen f = Some plen" "n = plen - nextOffset h"
  shows "\<exists>free' p' ok. defrag_next_fragment free p f h q n (fragOffset (hdrFrag h)) = Some (free', p', ok) \<and>
    frag_added free p (unat (fragOffset (hdrFrag h))) bs free' p' ok \<and>
    ((8 dvd length bs \<or> unat (fragOffset (hdrFrag h)) + length bs = unat (dpTotalSize p)) \<and>
     unat (fragOffset (hdrFrag h)) + length bs \<le> unat (dpTotalSize p) \<and> free \<noteq> [] \<longrightarrow> ok) \<and>
    (ok \<longrightarrow> (8 dvd length bs \<or> unat (fragOffset (hdrFrag h)) + length bs = unat (dpTotalSize p)) \<and>
      unat (fragOffset (hdrFrag h)) + length bs \<le> unat (dpTotalSize p))"
proof -
  let ?off = "fragOffset (hdrFrag h)" and ?lim = "unat (dpTotalSize p)"
  obtain dm sm ip where at: "holds_at (bufferPtr f) q bs" "unat n = length bs"
    using f ptr by (elim frag_frameE) simp
  obtain pk where pk: "dpPacket p = Some pk" "packet_ok pk" "length (pkt_bytes pk) = ?lim" "?lim \<le> 32767"
    "specs_in ?lim (fragSpecs p)" using p by (rule dp_okE)
  have n0: "n \<noteq> 0" using at(2) ne by (auto simp: unat_eq_0 [symmetric])
  define al where "al \<longleftrightarrow> 8 dvd length bs \<or> unat ?off + length bs = ?lim"
  have al: "(n = 0 \<or> (n AND 0x7) \<noteq> 0 \<and> unat ?off + unat n \<noteq> unat (fragSize (hdrFrag h))) \<longleftrightarrow> \<not> al"
    using n0 at(2) by (simp add: al_def and7_dvd_u8 h(2))
  note sne = specs_in_ne [OF pk(5)]
  show ?thesis
  proof (cases al)
    case False
    have "p = p\<lparr>dpPacket := Some pk\<rparr>" using pk(1) by simp
    from frag_added_fails [OF pk(1) pkt_same_refl sne this]
    show ?thesis using al False pk(1) by (auto simp: defrag_next_fragment_def al_def)
  next
    case True
    define fit where "fit \<longleftrightarrow> unat ?off + length bs \<le> ?lim"
    have fit: "fit \<longleftrightarrow> unat ?off + length bs \<le> length (pkt_bytes pk)" by (simp add: fit_def pk(3))
    obtain pk' fl ident where c: "defrag_copy_header pk ?off (bufferPtr f) q n \<bind>
        (\<lambda>(p, q, len, fl, ident). defrag_copy_payload p ?off (bufferPtr f) q len fl ident) = Some (pk', fl, ident, fit)"
      "packet_ok pk'" "pkt_same pk pk'"
      "fit \<longrightarrow> unat fl = length bs \<and> pkt_bytes pk' = mem_blit (pkt_bytes pk) (unat ?off) bs \<and>
        (ident \<noteq> 0 \<longleftrightarrow> take (length bs) (drop (unat ?off) (pkt_bytes pk)) = bs)"
      using copy_fragment [OF pk(2) at fit ne] by blast
    obtain pk1 q1 n1 fl1 id1 where c1: "defrag_copy_header pk ?off (bufferPtr f) q n = Some (pk1, q1, n1, fl1, id1)"
      "defrag_copy_payload pk1 ?off (bufferPtr f) q1 n1 fl1 id1 = Some (pk', fl, ident, fit)"
      using c(1) by (auto split: bind_splits)
    let ?p = "p\<lparr>dpPacket := Some pk'\<rparr>"
    show ?thesis
    proof (cases fit)
      case False
      then have "defrag_next_fragment free p f h q n ?off = Some (free, ?p, False)"
        using al \<open>al\<close> by (simp only: defrag_next_fragment_def simp_thms if_False pk(1) c1 bind.bind_lunit prod.case
            Let_def not_True_eq_False if_True)
      then show ?thesis using False frag_added_fails [OF pk(1) c(3) sne refl] by (auto simp: fit_def)
    next
      case True
      define prev where "prev = whip6_lowpanDefragmenterFindWhereNewFragSpecShouldBeInserted (fragSpecs p) ?off"
      obtain free' specs' r where m: "whip6_lowpanDefragmenterMergeNewFragSpecIntoPacket free (fragSpecs p) prev ?off
          (ucast fl) ident = (free', specs', r)" by (metis prod_cases3)
      have ufl: "unat (ucast fl :: u16) = length bs" using c(4) True by simp
      have b: "unat ?off + unat (ucast fl :: u16) \<le> ?lim" using True c(4) by (simp add: fit_def)
      have pos: "0 < (ucast fl :: u16)" using ufl ne by (simp add: word_gt_0 unat_eq_0 [symmetric])
      note ms = merge_next [OF pk(5,4) b pos h(1) prev_def m, unfolded ufl]
      let ?new = "{unat ?off..<unat ?off + length bs}"
      have sep: "specs_sep specs' \<and> spec_cover specs' = spec_cover (fragSpecs p) \<union> ?new"
        if "r = 0" "specs_sep (fragSpecs p)" "?new \<inter> spec_cover (fragSpecs p) = {} \<or>
          (\<exists>t \<in> set (fragSpecs p). ?new \<subseteq> spec_set t) \<and> take (length bs) (drop (unat ?off) (pkt_bytes pk)) = bs"
      proof -
        have "?new \<inter> spec_cover (fragSpecs p) = {} \<or> (\<exists>t \<in> set (fragSpecs p). ?new \<subseteq> spec_set t) \<and> ident \<noteq> 0"
          using that(3) c(4) True by blast
        from merge_next_sep [OF pk(5,4) b pos h(1) that(2) _ prev_def m [unfolded that(1)], unfolded ufl, OF this]
        show ?thesis .
      qed
      have res: "defrag_next_fragment free p f h q n ?off = Some (free', ?p\<lparr>fragSpecs := specs'\<rparr>, r = 0)"
      proof -
        have fs: "fragSpecs ?p = fragSpecs p" by simp
        show ?thesis using al \<open>al\<close>
          by (simp only: defrag_next_fragment_def simp_thms if_False pk(1) c1 bind.bind_lunit prod.case
              Let_def eqTrueI [OF True] not_True_eq_False fs prev_def [symmetric] m)
      qed
      have "frag_added free p (unat ?off) bs free' (?p\<lparr>fragSpecs := specs'\<rparr>) (r = 0)"
        using ms c(2-4) True pk(1) sep m
        by (auto simp: frag_added_def merge_sound_def fit_def)
      then show ?thesis using res ms \<open>al\<close> True by (auto simp: merge_sound_def al_def fit_def)
    qed
  qed
qed

lemma first_fragment:
  assumes p: "dp_ok p" and f: "frag_frame f h (0x41 # bs)" and ne: "bs \<noteq> []"
    and h: "whip6_lowpanFrameHeadersHasFragHeader h" "fragSize (hdrFrag h) = dpTotalSize p"
    and ptr: "q = whip6_ieee154DFrameUnsafeGetPayloadPtr f + unat (nextOffset h)"
    and al: "8 dvd length bs \<or> unat (dpTotalSize p) \<le> length bs"
  shows "\<exists>free' p' ok. defrag_first_fragment free p f h q = Some (free', p', ok) \<and>
    frag_added free p 0 bs free' p' ok \<and> ok = (length bs \<le> unat (dpTotalSize p))"
proof -
  let ?lim = "unat (dpTotalSize p)" and ?s = "hd (fragSpecs p)"
  obtain dm sm ip len where fr: "frame_layout dm sm ip f" "whip6_ieee154DFrameGetPayloadLen f = Some len"
    "holds_at (bufferPtr f) (fr_pay dm sm ip + unat (nextOffset h)) (0x41 # bs)"
    "unat (nextOffset h) + 1 + length bs = unat len" "q = fr_pay dm sm ip + unat (nextOffset h)"
    using f ptr by (elim frag_frameE) simp
  obtain pk where pk: "dpPacket p = Some pk" "packet_ok pk" "length (pkt_bytes pk) = ?lim" "?lim \<le> 32767"
    "specs_in ?lim (fragSpecs p)" using p by (rule dp_okE)
  note sne = specs_in_ne [OF pk(5)]
  define ident where "ident = (if specSize ?s > 0 then Some 0 else None :: u8 option)"
  define fit where "fit \<longleftrightarrow> length bs \<le> length (pkt_bytes pk)"
  have fit: "fit \<longleftrightarrow> length bs \<le> ?lim" by (simp add: fit_def pk(3))
  have lt: "length bs < 256" using fr(4) unat_u8_less [of len] by linarith
  have "8 dvd length bs \<or> \<not> whip6_lowpanFrameHeadersHasFragHeader h \<or> unat (fragSize (hdrFrag h)) \<le> length bs"
    using al h(2) by auto
  from raw_unpack [OF fr(1-4) pk(2) this fit_def, of ident] obtain pk' where
    u: "whip6_lowpanRawIpv6HeaderUnpack f h pk ident =
      Some (pk', (if fit then map_option (\<lambda>_. of_bool (take (length bs) (pkt_bytes pk) = bs)) ident else ident),
        (if fit then of_nat (length bs) else 0))"
      "packet_ok pk'" "pkt_same pk pk'" "pkt_bytes pk' = mem_blit (pkt_bytes pk) 0 (take (length (pkt_bytes pk)) bs)"
    by (auto simp: pkt_same_def)
  have b0: "buf_get (bufferPtr f) q = Some 0x41" using fr(3,5) by simp
  let ?p = "p\<lparr>dpPacket := Some pk'\<rparr>"
  show ?thesis
  proof (cases fit)
    case False
    then have "defrag_first_fragment free p f h q = Some (free, ?p, False)"
      using b0 pk(1) u(1) by (simp add: defrag_first_fragment_def lowpan_constants ident_def)
    then show ?thesis using False fit frag_added_fails [OF pk(1) u(3) sne refl] by auto
  next
    case True
    define idt where "idt = (case map_option (\<lambda>_. of_bool (take (length bs) (pkt_bytes pk) = bs)) ident of
        Some v \<Rightarrow> v | None \<Rightarrow> (0 :: u8))"
    define n where "n = (ucast (of_nat (length bs) :: u8) :: u16)"
    have un: "unat n = length bs" using lt by (simp add: n_def unat_u8_of_nat)
    have nz: "(of_nat (length bs) :: u8) \<noteq> 0" using lt ne by (simp add: unat_u8_of_nat word_unat_eq_iff)
    have pos: "0 < n" using un ne by (simp add: word_gt_0 unat_eq_0 [symmetric])
    obtain free' specs' r where m: "whip6_lowpanDefragmenterMergeNewFragSpecIntoPacket free (fragSpecs p) None 0 n idt =
        (free', specs', r)" by (metis prod_cases3)
    have b: "unat n \<le> ?lim" using True fit un by simp
    note ms = merge_first [OF pk(5,4) b pos m, unfolded un]
    have idt: "idt \<noteq> 0" if t: "t \<in> set (fragSpecs p)" "{0..<length bs} \<subseteq> spec_set t" "specs_sep (fragSpecs p)"
      "take (length bs) (pkt_bytes pk) = bs" for t
    proof -
      have z: "0 \<in> spec_set t" using t(2) ne by (auto simp: subset_eq)
      have "t = ?s"
      proof (rule ccontr)
        assume "t \<noteq> ?s"
        then obtain a l where "fragSpecs p = a # l" "t \<in> set l" using t(1) by (cases "fragSpecs p") auto
        then show False using t(3) z by (auto simp: spec_set_def)
      qed
      moreover have "specOffset ?s = 0" using pk(5) by (simp add: specs_in_def)
      ultimately have "specSize ?s > 0" using z by (auto simp: spec_set_def spec_end_def word_gt_0)
      then show ?thesis using t(4) by (simp add: idt_def ident_def)
    qed
    have sep: "specs_sep specs' \<and> spec_cover specs' = spec_cover (fragSpecs p) \<union> {0..<length bs}"
      if "specs_sep (fragSpecs p)" "{0..<length bs} \<inter> spec_cover (fragSpecs p) = {} \<or>
        (\<exists>t \<in> set (fragSpecs p). {0..<length bs} \<subseteq> spec_set t) \<and> take (length bs) (pkt_bytes pk) = bs"
    proof -
      have "{0..<length bs} \<inter> spec_cover (fragSpecs p) = {} \<or>
          (\<exists>t \<in> set (fragSpecs p). {0..<length bs} \<subseteq> spec_set t) \<and> idt \<noteq> 0"
        using that(2) idt [OF _ _ that(1)] by blast
      from merge_first_sep [OF pk(5,4) b pos that(1) _ m, unfolded un, OF this] show ?thesis .
    qed
    have "defrag_first_fragment free p f h q = Some (free', ?p\<lparr>fragSpecs := specs'\<rparr>, r = 0)"
    proof -
      have fs: "fragSpecs ?p = fragSpecs p" by simp
      show ?thesis
        by (simp only: defrag_first_fragment_def b0 bind.bind_lunit lowpan_constants and_255 simp_thms if_True
            pk(1) ident_def [symmetric] u(1) eqTrueI [OF True] prod.case Let_def nz if_False
            idt_def [symmetric] n_def [symmetric] fs m)
    qed
    moreover have "frag_added free p 0 bs free' (?p\<lparr>fragSpecs := specs'\<rparr>) (r = 0)"
      using ms u(2-4) True pk(1,3) sep fit by (auto simp: frag_added_def merge_sound_def)
    ultimately show ?thesis using ms True fit by auto
  qed
qed

lemma raw_unpack_unaligned:
  assumes f: "frame_layout dm sm ip f" "whip6_ieee154DFrameGetPayloadLen f = Some len"
    and at: "holds_at (bufferPtr f) (fr_pay dm sm ip + unat (nextOffset h)) (0x41 # bs)"
    and len: "unat (nextOffset h) + 1 + length bs = unat len"
    and al: "\<not> 8 dvd length bs" "whip6_lowpanFrameHeadersHasFragHeader h" "length bs < unat (fragSize (hdrFrag h))"
  shows "whip6_lowpanRawIpv6HeaderUnpack f h p ident = Some (p, ident, 0)"
proof -
  define n where "n = len - nextOffset h - 1"
  have lo: "\<not> nextOffset h \<ge> len" using len by (simp add: word_le_nat_alt)
  have "unat (len - nextOffset h) = length bs + 1" using len by (subst unat_sub) (simp_all add: word_le_nat_alt)
  then have un: "unat n = length bs" unfolding n_def by (subst unat_sub) (simp_all add: word_le_nat_alt)
  have pp: "whip6_ieee154DFrameUnsafeGetPayloadPtr f = fr_pay dm sm ip"
    using f(1) by (auto simp: frame_layout_offsets)
  have b: "buf_get (bufferPtr f) (fr_pay dm sm ip + unat (nextOffset h)) = Some 0x41" using at by simp
  have c: "(n AND 0x07) \<noteq> 0 \<and> whip6_lowpanFrameHeadersHasFragHeader h \<and> unat (fragSize (hdrFrag h)) > unat n"
    using al by (simp add: and7_dvd_u8 un)
  show ?thesis
    by (simp only: whip6_lowpanRawIpv6HeaderUnpack_def pp f(2) Let_def bind.bind_lunit lo if_False b
        lowpan_constants and_255 simp_thms n_def [symmetric] if_P [OF c])
qed

text \<open>Exactly when the first fragment is accepted.\<close>

definition first_fits :: "lowpan_defrag_packet_state \<Rightarrow> u8 list \<Rightarrow> bool" where
  "first_fits p bs \<longleftrightarrow> bs \<noteq> [] \<and> hd bs = 0x41 \<and> tl bs \<noteq> [] \<and> length (tl bs) \<le> unat (dpTotalSize p) \<and>
     (8 dvd length (tl bs) \<or> length (tl bs) = unat (dpTotalSize p))"

lemma first_fragment_total:
  assumes p: "dp_ok p" and f: "frag_frame f h bs" and ne: "bs \<noteq> []"
    and h: "whip6_lowpanFrameHeadersHasFragHeader h" "fragSize (hdrFrag h) = dpTotalSize p"
    and ptr: "q = whip6_ieee154DFrameUnsafeGetPayloadPtr f + unat (nextOffset h)"
  shows "\<exists>free' p' ok. defrag_first_fragment free p f h q = Some (free', p', ok) \<and>
    frag_added free p 0 (tl bs) free' p' ok \<and> ok = first_fits p bs"
proof -
  obtain pk where pk: "dpPacket p = Some pk" "packet_ok pk" "length (pkt_bytes pk) = unat (dpTotalSize p)"
    "specs_in (unat (dpTotalSize p)) (fragSpecs p)" using p by (rule dp_okE)
  note sne = specs_in_ne [OF pk(4)]
  obtain b rest where bs: "bs = b # rest" using ne by (cases bs) simp_all
  obtain dm sm ip len where fr: "frame_layout dm sm ip f" "whip6_ieee154DFrameGetPayloadLen f = Some len"
    "holds_at (bufferPtr f) (fr_pay dm sm ip + unat (nextOffset h)) (b # rest)"
    "unat (nextOffset h) + 1 + length rest = unat len" "q = fr_pay dm sm ip + unat (nextOffset h)"
    using f ptr bs by (elim frag_frameE) simp
  have b0: "buf_get (bufferPtr f) q = Some b" using fr(3,5) by simp
  have fails: "frag_added free p 0 (tl bs) free (p\<lparr>dpPacket := Some pk'\<rparr>) False" if "pkt_same pk pk'" for pk'
    by (rule frag_added_fails [OF pk(1) that sne refl])
  have same: "p\<lparr>dpPacket := Some pk\<rparr> = p" using pk(1) by simp
  define ident where "ident = (if specSize (hd (fragSpecs p)) > 0 then Some 0 else None :: u8 option)"
  consider "b \<noteq> 0x41" | "b = 0x41" "rest = []"
    | "b = 0x41" "rest \<noteq> []" "\<not> (8 dvd length rest \<or> unat (dpTotalSize p) \<le> length rest)"
    | "b = 0x41" "rest \<noteq> []" "8 dvd length rest \<or> unat (dpTotalSize p) \<le> length rest" by blast
  then show ?thesis
  proof cases
    case 1
    then have "defrag_first_fragment free p f h q = Some (free, p, False)"
      using b0 by (simp add: defrag_first_fragment_def lowpan_constants)
    then show ?thesis using fails [OF pkt_same_refl] 1 bs by (auto simp: first_fits_def same)
  next
    case 2
    obtain pk' where u: "whip6_lowpanRawIpv6HeaderUnpack f h pk ident = Some (pk', map_option (\<lambda>_. 1) ident, 0)"
      "pkt_same pk pk'"
      using raw_unpack [OF fr(1,2) fr(3) [unfolded 2] fr(4) [unfolded 2] pk(2) _ refl, of ident]
      by (auto simp: pkt_same_def)
    have "defrag_first_fragment free p f h q = Some (free, p\<lparr>dpPacket := Some pk'\<rparr>, False)"
      using b0 pk(1) u(1) 2 by (simp add: defrag_first_fragment_def lowpan_constants ident_def)
    then show ?thesis using fails [OF u(2)] 2 bs by (auto simp: first_fits_def)
  next
    case 3
    then have u: "whip6_lowpanRawIpv6HeaderUnpack f h pk ident = Some (pk, ident, 0)"
      using fr h by (intro raw_unpack_unaligned) auto
    have "defrag_first_fragment free p f h q = Some (free, p\<lparr>dpPacket := Some pk\<rparr>, False)"
      using b0 pk(1) u 3 by (simp add: defrag_first_fragment_def lowpan_constants ident_def)
    then show ?thesis using fails [OF pkt_same_refl] 3 bs by (auto simp: first_fits_def same)
  next
    case 4
    have "frag_frame f h (0x41 # rest)" using f bs 4(1) by simp
    moreover have "first_fits p bs \<longleftrightarrow> length rest \<le> unat (dpTotalSize p)"
      using 4 bs by (auto simp: first_fits_def)
    ultimately show ?thesis using first_fragment [OF p _ 4(2) h ptr 4(3), of free] bs by simp
  qed
qed

end
