(* ===== verification/Lowpan_DefragState.thy ===== *)
theory Lowpan_DefragState
  imports Lowpan_DefragContent
begin

text \<open>
  The defragmenter as a state machine over any packet allocator with the contract of
  \<open>packet_allocator\<close>: no packet state, fragment node, packet prototype or I/O vector chunk is lost
  or duplicated, whatever frames arrive and however operations fail.
\<close>

section \<open>What is conserved\<close>

definition dp_nodes :: "lowpan_defrag_packet_state \<Rightarrow> nat multiset" where
  "dp_nodes p = mset (map specAddr (tl (fragSpecs p)))"

definition dp_held :: "lowpan_defrag_packet_state \<Rightarrow> nat multiset" where
  "dp_held p = (case dpPacket p of None \<Rightarrow> {#} | Some pk \<Rightarrow> {#pktAddr pk#})"

definition dp_chunks :: "lowpan_defrag_packet_state \<Rightarrow> nat multiset" where
  "dp_chunks p = (case dpPacket p of None \<Rightarrow> {#} | Some pk \<Rightarrow> chain_addrs (firstPayloadIov pk))"

definition df_all :: "lowpan_defrag_global_state \<Rightarrow> lowpan_defrag_packet_state multiset" where
  "df_all state = mset (dfCurrent state) + mset (dfLocked state) + mset (dfFree state)"

text \<open>
  The packet states, the fragment nodes, and the prototypes and chunks that are free, in a packet
  or in one of the packets \<open>out\<close> that have been given to the client.
\<close>

definition df_goods ::
  "('s \<Rightarrow> nat multiset) \<Rightarrow> ('s \<Rightarrow> nat multiset) \<Rightarrow> lowpan_defrag_global_state \<Rightarrow> 's \<Rightarrow> ipv6_packet multiset \<Rightarrow>
   nat multiset \<times> nat multiset \<times> nat multiset \<times> nat multiset" where
  "df_goods avail pktAvail state s out =
     (image_mset dpAddr (df_all state),
      mset (map specAddr (freeAdditionalFragSpecs state)) + sum_mset (image_mset dp_nodes (df_all state)),
      pktAvail s + sum_mset (image_mset dp_held (df_all state)) + image_mset pktAddr out,
      avail s + sum_mset (image_mset dp_chunks (df_all state)) +
        sum_mset (image_mset (\<lambda>p. chain_addrs (firstPayloadIov p)) out))"

lemma df_goods_cong:
  "df_all state' = df_all state \<Longrightarrow> freeAdditionalFragSpecs state' = freeAdditionalFragSpecs state \<Longrightarrow>
   df_goods avail pktAvail state' s out = df_goods avail pktAvail state s out"
  by (simp add: df_goods_def)

definition key_ok :: "lowpan_defrag_packet_state \<Rightarrow> bool" where
  "key_ok p \<longleftrightarrow> addr_ok (srcLinkAddr (dpKey p)) \<and> addr_ok (dstLinkAddr (dpKey p)) \<and> length (commonPanId (dpKey p)) = 2"

definition dp_idle :: "lowpan_defrag_packet_state \<Rightarrow> bool" where
  "dp_idle p \<longleftrightarrow> dpPacket p = None \<and> length (fragSpecs p) = 1 \<and> key_ok p"

text \<open>Every packet state is well formed for the list it is in.\<close>

definition df_typed :: "lowpan_defrag_global_state \<Rightarrow> bool" where
  "df_typed state \<longleftrightarrow> (\<forall>p \<in> set (dfCurrent state) \<union> set (dfLocked state). dp_ok p \<and> key_ok p) \<and>
     (\<forall>p \<in> set (dfFree state). dp_idle p)"

lemma unlink_Some:
  "defrag_unlink_loop ps a = Some (p, rest) \<Longrightarrow> mset ps = add_mset p (mset rest) \<and> dpAddr p = a"
  by (induction ps arbitrary: rest) (auto split: if_splits option.splits)

lemma unlink_None: "defrag_unlink_loop ps a = None \<longleftrightarrow> a \<notin> dpAddr ` set ps"
  by (induction ps) (auto split: option.splits)

lemma unlink_set: "defrag_unlink_loop ps a = Some (p, rest) \<Longrightarrow> p \<in> set ps \<and> set rest \<subseteq> set ps"
  by (induction ps arbitrary: rest) (auto split: if_splits option.splits)

lemma find_loop_Some:
  "defrag_find_loop ps h pan = Some (Some (p, rest)) \<Longrightarrow>
   mset ps = add_mset p (mset rest) \<and> defrag_key_matches (dpKey p) h pan = Some True"
  by (induction ps arbitrary: rest) (auto split: if_splits option.splits bind_splits)

definition key_same :: "lowpan_defrag_frag_set_key \<Rightarrow> lowpan_unpacked_frame_headers \<Rightarrow> ieee154_pan_id \<Rightarrow> bool" where
  "key_same key h pan \<longleftrightarrow> keyTag key = fragTag (hdrFrag h) \<and>
     addr_same (srcLinkAddr key) (meshSrcAddr (hdrMesh h)) \<and>
     addr_same (dstLinkAddr key) (meshDstAddr (hdrMesh h)) \<and> commonPanId key = pan"

definition mesh_addrs_ok :: "lowpan_unpacked_frame_headers \<Rightarrow> bool" where
  "mesh_addrs_ok h \<longleftrightarrow> addr_ok (meshSrcAddr (hdrMesh h)) \<and> addr_ok (meshDstAddr (hdrMesh h))"

lemma key_matches:
  assumes "key_ok p" "mesh_addrs_ok h" "length pan = 2"
  shows "defrag_key_matches (dpKey p) h pan = Some (key_same (dpKey p) h pan)"
proof -
  let ?k = "dpKey p"
  obtain r1 where "whip6_ieee154AddrAnyCmp (srcLinkAddr ?k) (meshSrcAddr (hdrMesh h)) = Some r1"
    "r1 = 0 \<longleftrightarrow> addr_same (srcLinkAddr ?k) (meshSrcAddr (hdrMesh h))"
    using AddrAnyCmp_same assms by (auto simp: key_ok_def mesh_addrs_ok_def)
  moreover obtain r2 where "whip6_ieee154AddrAnyCmp (dstLinkAddr ?k) (meshDstAddr (hdrMesh h)) = Some r2"
    "r2 = 0 \<longleftrightarrow> addr_same (dstLinkAddr ?k) (meshDstAddr (hdrMesh h))"
    using AddrAnyCmp_same assms by (auto simp: key_ok_def mesh_addrs_ok_def)
  moreover obtain r3 where "whip6_ieee154PanIdCmp (commonPanId ?k) pan = Some r3" "r3 = 0 \<longleftrightarrow> commonPanId ?k = pan"
    using PanIdCmp_eq assms by (auto simp: key_ok_def)
  ultimately show ?thesis by (auto simp: defrag_key_matches_def key_same_def)
qed

lemma find_loop_total:
  "\<forall>p \<in> set ps. key_ok p \<Longrightarrow> mesh_addrs_ok h \<Longrightarrow> length pan = 2 \<Longrightarrow>
   \<exists>r. defrag_find_loop ps h pan = Some r \<and> (r = None \<longleftrightarrow> (\<forall>p \<in> set ps. \<not> key_same (dpKey p) h pan))"
proof (induction ps)
  case (Cons p ps)
  then obtain r where "defrag_find_loop ps h pan = Some r" "r = None \<longleftrightarrow> (\<forall>p \<in> set ps. \<not> key_same (dpKey p) h pan)"
    by auto
  then show ?case using key_matches [of p h pan] Cons.prems by (auto split: option.splits)
qed simp

text \<open>A packet that has just been allocated for the headers of a frame.\<close>

definition dp_fresh :: "lowpan_unpacked_frame_headers \<Rightarrow> ieee154_pan_id \<Rightarrow> u32 \<Rightarrow> lowpan_defrag_packet_state \<Rightarrow> bool" where
  "dp_fresh h pan now p \<longleftrightarrow> dpKey p = \<lparr>keyTag = fragTag (hdrFrag h), srcLinkAddr = meshSrcAddr (hdrMesh h),
       dstLinkAddr = meshDstAddr (hdrMesh h), commonPanId = pan\<rparr> \<and>
     dpTotalSize p = fragSize (hdrFrag h) \<and> defragStartTime p = now \<and>
     (\<exists>a. fragSpecs p = [\<lparr>specAddr = a, specOffset = 0, specSize = 0\<rparr>])"

text \<open>What a fragment does to the packet it belongs to.\<close>

definition frag_data :: "lowpan_unpacked_frame_headers \<Rightarrow> u8 list \<Rightarrow> u8 list" where
  "frag_data h bs = (if fragOffset (hdrFrag h) = 0 then tl bs else bs)"

definition frag_fits :: "lowpan_unpacked_frame_headers \<Rightarrow> lowpan_defrag_packet_state \<Rightarrow> u8 list \<Rightarrow> bool" where
  "frag_fits h p bs \<longleftrightarrow>
     (if fragOffset (hdrFrag h) = 0 then first_fits p bs
      else bs \<noteq> [] \<and> unat (fragOffset (hdrFrag h)) + length bs \<le> unat (dpTotalSize p) \<and>
        (8 dvd length bs \<or> unat (fragOffset (hdrFrag h)) + length bs = unat (dpTotalSize p)))"

definition dp_complete :: "lowpan_defrag_packet_state \<Rightarrow> bool" where
  "dp_complete p \<longleftrightarrow> specOffset (hd (fragSpecs p)) = 0 \<and> specSize (hd (fragSpecs p)) = dpTotalSize p"

text \<open>A frame within a PAN, without a fragmentation header, whose bytes behind the 6LoWPAN headers are the dispatch byte of an
  uncompressed IPv6 header and a packet of which the two bytes at offset four give the length behind the header.\<close>

definition entire_frame :: "ieee154_dframe_info \<Rightarrow> lowpan_unpacked_frame_headers \<Rightarrow> u8 list \<Rightarrow> bool" where
  "entire_frame f h bs \<longleftrightarrow> \<not> whip6_ieee154DFrameIsInterPan f \<and> \<not> whip6_lowpanFrameHeadersHasFragHeader h \<and>
     (\<exists>ds. bs = 0x41 # ds \<and> 40 \<le> length ds \<and> 40 + 256 * unat (ds ! 4) + unat (ds ! 5) = length ds)"

lemma entire_frame_iff:
  assumes "whip6_ieee154DFrameIsInterPan f = False" "whip6_lowpanFrameHeadersHasFragHeader h = False" "packet_ok pk"
    and "bs = 0x41 # pkt_bytes pk"
  shows "entire_frame f h bs \<longleftrightarrow> unat (whip6_ipv6BasicHeaderGetPayloadLength (pktHeader pk)) = length (pkt_bytes pk) - 40"
proof -
  have ok: "header_ok (pktHeader pk)" using assms(3) by (simp add: packet_ok_def)
  then have "length (verTcFl (pktHeader pk)) = 4" "length (payloadLenBytes (pktHeader pk)) = 2" by (simp_all add: header_ok_def)
  then have "pkt_bytes pk ! 4 = payloadLenBytes (pktHeader pk) ! 0" "pkt_bytes pk ! 5 = payloadLenBytes (pktHeader pk) ! 1"
    by (simp_all add: pkt_bytes_def header_bytes_def nth_append)
  then have "256 * unat (pkt_bytes pk ! 4) + unat (pkt_bytes pk ! 5) =
      unat (whip6_ipv6BasicHeaderGetPayloadLength (pktHeader pk))"
    by (simp add: whip6_ipv6BasicHeaderGetPayloadLength_def unat_u16_join)
  then show ?thesis using assms pkt_bytes_length [OF assms(3)] by (auto simp: entire_frame_def)
qed

section \<open>Destroying a packet\<close>

context packet_allocator
begin

lemma destroy_goods:
  assumes "whip6_lowpanDefragmenterDestroyDefragPacket A state s p = (state', s')" "ok s" "fragSpecs p \<noteq> []"
    and "key_ok p" "\<forall>q \<in> set (dfFree state). dp_idle q"
  shows "ok s' \<and> dfCurrent state' = dfCurrent state \<and> dfLocked state' = dfLocked state \<and>
    (\<forall>q \<in> set (dfFree state'). dp_idle q) \<and>
    df_goods avail pktAvail state' s' out =
      df_goods avail pktAvail (state\<lparr>dfFree := p # dfFree state\<rparr>) s out"
proof -
  let ?s = "case dpPacket p of None \<Rightarrow> s | Some packet \<Rightarrow> whip6_ipv6FreePacket A s packet"
  let ?p = "p\<lparr>dpPacket := None, fragSpecs := [hd (fragSpecs p)]\<rparr>"
  have st: "s' = ?s" "state' = state\<lparr>freeAdditionalFragSpecs := tl (fragSpecs p) @ freeAdditionalFragSpecs state,
      dfFree := ?p # dfFree state\<rparr>"
    using assms(1) by (auto simp: whip6_lowpanDefragmenterDestroyDefragPacket_def destroy_eq [OF assms(3)])
  have f: "ok ?s" "pktAvail ?s = pktAvail s + dp_held p" "avail ?s = avail s + dp_chunks p"
    using assms(2) free_packet [OF assms(2)] by (auto simp: dp_held_def dp_chunks_def split: option.splits)
  have "dp_nodes ?p = {#}" "dp_held ?p = {#}" "dp_chunks ?p = {#}"
    by (simp_all add: dp_nodes_def dp_held_def dp_chunks_def)
  moreover have "dp_idle ?p" using assms(4) by (simp add: dp_idle_def key_ok_def)
  ultimately show ?thesis using st f assms(5)
    by (simp add: df_goods_def df_all_def ac_simps) (simp add: dp_nodes_def)
qed

section \<open>Finding or allocating\<close>

lemma not_exists_ok:
  assumes "ok s" "df_typed state" "mesh_addrs_ok h" "length pan = 2"
    and sz: "40 \<le> unat (fragSize (hdrFrag h))" "unat (fragSize (hdrFrag h)) \<le> 32767"
  shows "\<exists>state' s' r. defrag_packet_not_exists A state s h pan now = Some (state', s', r) \<and> ok s' \<and>
    dfCurrent state' = dfCurrent state \<and> dfLocked state' = dfLocked state \<and> df_typed state' \<and>
    freeAdditionalFragSpecs state' = freeAdditionalFragSpecs state \<and>
    (r = None \<longrightarrow> dfFree state = [] \<or>
      (\<exists>s1. whip6_ipv6AllocatePacket A s (fragSize (hdrFrag h) - of_nat IPV6_BASIC_HEADER_SIZE) = Some (s1, None))) \<and>
    (case r of
       None \<Rightarrow> df_goods avail pktAvail state' s' out = df_goods avail pktAvail state s out
     | Some p \<Rightarrow> dp_ok p \<and> key_ok p \<and> dp_fresh h pan now p \<and>
         df_goods avail pktAvail (state'\<lparr>dfLocked := p # dfLocked state'\<rparr>) s' out = df_goods avail pktAvail state s out)"
proof (cases "dfFree state")
  case Nil
  then show ?thesis using assms(1,2) by (simp add: defrag_packet_not_exists_def)
next
  case (Cons cur rest)
  have idle: "dpPacket cur = None" "key_ok cur" "\<forall>q \<in> set rest. dp_idle q"
    using assms(2) Cons by (auto simp: df_typed_def dp_idle_def)
  obtain sp where sp: "fragSpecs cur = [sp]"
    using assms(2) Cons by (auto simp: df_typed_def dp_idle_def length_Suc_conv)
  let ?sz = "fragSize (hdrFrag h)"
  have usz: "unat (?sz - of_nat IPV6_BASIC_HEADER_SIZE) = unat ?sz - 40"
    using sz(1) by (subst unat_sub) (simp_all add: word_le_nat_alt IPV6_BASIC_HEADER_SIZE_def)
  obtain s1 r where al: "whip6_ipv6AllocatePacket A s (?sz - of_nat IPV6_BASIC_HEADER_SIZE) = Some (s1, r)" "ok s1"
    "case r of
       None \<Rightarrow> avail s1 = avail s \<and> pktAvail s1 = pktAvail s
     | Some p \<Rightarrow> avail s1 + chain_addrs (firstPayloadIov p) = avail s \<and>
         pktAvail s = add_mset (pktAddr p) (pktAvail s1) \<and> packet_ok p \<and>
         chain_len (firstPayloadIov p) = unat (?sz - of_nat IPV6_BASIC_HEADER_SIZE)"
    using alloc_packet [OF assms(1)] by blast
  have held: "dp_held cur = {#}" "dp_chunks cur = {#}" "dp_nodes cur = {#}"
    using idle(1) sp by (simp_all add: dp_held_def dp_chunks_def dp_nodes_def)
  show ?thesis
  proof (cases r)
    case None
    let ?cur = "cur\<lparr>dpTotalSize := ?sz, dpPacket := None\<rparr>"
    have "defrag_packet_not_exists A state s h pan now = Some (state\<lparr>dfFree := ?cur # rest\<rparr>, s1, None)"
      using Cons al(1) None by (simp add: defrag_packet_not_exists_def)
    moreover have "dp_idle ?cur" using idle sp by (simp add: dp_idle_def key_ok_def)
    moreover have "dp_held ?cur = {#}" "dp_chunks ?cur = {#}" "dp_nodes ?cur = {#}"
      using sp by (simp_all add: dp_held_def dp_chunks_def dp_nodes_def)
    ultimately show ?thesis using al None assms(2) Cons held idle(3)
      by (simp add: df_typed_def df_goods_def df_all_def)
  next
    case (Some pk)
    have len: "length (pkt_bytes pk) = unat ?sz"
    proof -
      have "length (concat (map elemBuf es)) = chain_len es" for es by (induction es) simp_all
      then show ?thesis using al(3) Some sz(1) usz pkt_bytes_length [of pk] by simp
    qed
    define p where "p = cur\<lparr>dpTotalSize := ?sz, dpPacket := Some pk,
      dpKey := \<lparr>keyTag = fragTag (hdrFrag h), srcLinkAddr = meshSrcAddr (hdrMesh h),
        dstLinkAddr = meshDstAddr (hdrMesh h), commonPanId = pan\<rparr>,
      fragSpecs := [\<lparr>specAddr = specAddr sp, specOffset = 0, specSize = 0\<rparr>], defragStartTime := now\<rparr>"
    have sp0: "sp\<lparr>specOffset := 0, specSize := 0\<rparr> = \<lparr>specAddr = specAddr sp, specOffset = 0, specSize = 0\<rparr>" by simp
    have "defrag_packet_not_exists A state s h pan now = Some (state\<lparr>dfFree := rest\<rparr>, s1, Some p)"
      using Cons al(1) Some sp idle(2) assms(3,4)
      by (simp add: defrag_packet_not_exists_def key_ok_def mesh_addrs_ok_def AddrAnyCpy_eq PanIdCpy_eq sp0 p_def)
    moreover have "dp_fresh h pan now p" by (simp add: dp_fresh_def p_def)
    moreover have "key_ok p" using assms(3,4) by (simp add: key_ok_def p_def mesh_addrs_ok_def)
    moreover have "dp_ok p" using len al(3) Some sz by (simp add: dp_ok_def p_def specs_in_def spec_end_def)
    moreover have "dp_held p = {#pktAddr pk#}" "dp_chunks p = chain_addrs (firstPayloadIov pk)" "dp_nodes p = {#}"
      "dpAddr p = dpAddr cur"
      by (simp_all add: dp_held_def dp_chunks_def dp_nodes_def p_def)
    ultimately show ?thesis using al(2,3) Some assms(2) Cons held idle(3)
      by (simp add: df_typed_def df_goods_def df_all_def)
  qed
qed

lemma find_ok:
  assumes "ok s" "df_typed state" "mesh_addrs_ok h" "unat (fragSize (hdrFrag h)) \<le> 32767" "frame_fits dm sm ip f"
  shows "\<exists>state' s' r. whip6_lowpanDefragmenterFindExistingOrAllocateNewPacketAndLockIt A state s f h now =
      Some (state', s', r) \<and> ok s' \<and> df_typed state' \<and> set (dfCurrent state') \<subseteq> set (dfCurrent state) \<and>
    df_goods avail pktAvail state' s' out = df_goods avail pktAvail state s out \<and>
    (case r of
       None \<Rightarrow> dfLocked state' = dfLocked state
     | Some a \<Rightarrow> \<exists>p. dfLocked state' = p # dfLocked state \<and> dpAddr p = a \<and> dpTotalSize p = fragSize (hdrFrag h) \<and>
         key_same (dpKey p) h (mem_range (bufferPtr f) 4 2) \<and>
         (p \<in> set (dfCurrent state) \<or> dp_fresh h (mem_range (bufferPtr f) 4 2) now p))"
proof -
  let ?sz = "fragSize (hdrFrag h)" and ?pan = "mem_range (bufferPtr f) 4 2"
  show ?thesis
  proof (cases "whip6_ieee154DFrameIsInterPan f \<or> \<not> whip6_lowpanFrameHeadersHasFragHeader h \<or> unat ?sz < 40")
    case True
    then show ?thesis using assms(1,2)
      by (auto simp: whip6_lowpanDefragmenterFindExistingOrAllocateNewPacketAndLockIt_def IPV6_BASIC_HEADER_SIZE_def)
  next
    case False
    then have sz: "40 \<le> unat ?sz" by simp
    have pan: "whip6_ieee154DFrameGetDstPanId f [0, 0] = Some ?pan" by (simp add: frame_readers(3) [OF assms(5)])
    have pl: "length ?pan = 2"
      using frame_fits_bounds [OF assms(5)] by (intro mem_range_length) simp
    obtain found where fo: "defrag_find_loop (dfCurrent state) h ?pan = Some found"
      using find_loop_total [of "dfCurrent state" h ?pan] assms(2,3) pl by (auto simp: df_typed_def)
    have fresh_same: "dp_fresh h ?pan now p \<Longrightarrow> key_same (dpKey p) h ?pan \<and> dpTotalSize p = ?sz" for p
      by (simp add: dp_fresh_def key_same_def)
    note def_simps = whip6_lowpanDefragmenterFindExistingOrAllocateNewPacketAndLockIt_def IPV6_BASIC_HEADER_SIZE_def
    show ?thesis
    proof (cases found)
      case None
      obtain state' s' r where "defrag_packet_not_exists A state s h ?pan now = Some (state', s', r)" "ok s'"
        "dfCurrent state' = dfCurrent state" "dfLocked state' = dfLocked state" "df_typed state'"
        "case r of
           None \<Rightarrow> df_goods avail pktAvail state' s' out = df_goods avail pktAvail state s out
         | Some p \<Rightarrow> dp_ok p \<and> key_ok p \<and> dp_fresh h ?pan now p \<and>
             df_goods avail pktAvail (state'\<lparr>dfLocked := p # dfLocked state'\<rparr>) s' out =
             df_goods avail pktAvail state s out"
        using not_exists_ok [OF assms(1-3) pl sz assms(4), of now out] by blast
      then show ?thesis using False pan fo None fresh_same
        by (cases r) (auto simp: def_simps df_typed_def)
    next
      case (Some x)
      then obtain p rest where x: "found = Some (p, rest)" by (cases x) auto
      note fl = find_loop_Some [OF fo [unfolded x]]
      have pin: "p \<in> set (dfCurrent state)" "set rest \<subseteq> set (dfCurrent state)"
        using fl by (auto dest!: arg_cong [of _ _ set_mset])
      have pok: "dp_ok p" "key_ok p" "fragSpecs p \<noteq> []"
        using pin(1) assms(2) by (auto simp: df_typed_def dp_ok_def specs_in_def)
      have same: "key_same (dpKey p) h ?pan" using fl key_matches [OF pok(2) assms(3) pl] by simp
      have typed: "df_typed (state\<lparr>dfCurrent := rest\<rparr>)" using assms(2) pin(2) by (auto simp: df_typed_def)
      show ?thesis
      proof (cases "dpTotalSize p = ?sz")
        case True
        then show ?thesis using False pan fo x assms(1) typed pok(1,2) same pin fl
          by (auto simp: def_simps df_typed_def df_goods_def df_all_def)
      next
        case diff: False
        obtain st1 s1 where d: "whip6_lowpanDefragmenterDestroyDefragPacket A (state\<lparr>dfCurrent := rest\<rparr>) s p = (st1, s1)"
          by fastforce
        have "\<forall>q \<in> set (dfFree (state\<lparr>dfCurrent := rest\<rparr>)). dp_idle q" using typed by (simp add: df_typed_def)
        note dg = destroy_goods [OF d assms(1) pok(3,2) this, of out]
        have "df_typed st1" using dg typed by (auto simp: df_typed_def)
        with dg obtain state' s' r where ne: "defrag_packet_not_exists A st1 s1 h ?pan now = Some (state', s', r)" "ok s'"
          "dfCurrent state' = dfCurrent st1" "dfLocked state' = dfLocked st1" "df_typed state'"
          "case r of
             None \<Rightarrow> df_goods avail pktAvail state' s' out = df_goods avail pktAvail st1 s1 out
           | Some p \<Rightarrow> dp_ok p \<and> key_ok p \<and> dp_fresh h ?pan now p \<and>
               df_goods avail pktAvail (state'\<lparr>dfLocked := p # dfLocked state'\<rparr>) s' out =
               df_goods avail pktAvail st1 s1 out"
          using not_exists_ok [OF _ _ assms(3) pl sz assms(4), of s1 st1 now out] by blast
        have "df_all (state\<lparr>dfCurrent := rest, dfFree := p # dfFree state\<rparr>) = df_all state"
          using fl by (simp add: df_all_def)
        then have "df_goods avail pktAvail (state\<lparr>dfCurrent := rest, dfFree := p # dfFree state\<rparr>) s out =
            df_goods avail pktAvail state s out" by (rule df_goods_cong) simp
        then have "df_goods avail pktAvail st1 s1 out = df_goods avail pktAvail state s out" using dg by simp
        then show ?thesis using ne False pan fo x d diff fresh_same dg pin(2)
          by (cases r) (auto simp: def_simps df_typed_def)
      qed
    qed
  qed
qed

section \<open>Passing a frame\<close>

lemma goods_replace:
  assumes "dpAddr p' = dpAddr p" "dp_held p' = dp_held p" "dp_chunks p' = dp_chunks p"
    and "mset (map specAddr (free' @ tl (fragSpecs p'))) = mset (map specAddr (free @ tl (fragSpecs p)))"
    and "df_all state = add_mset p M" "df_all state' = add_mset p' M"
    and "freeAdditionalFragSpecs state = free" "freeAdditionalFragSpecs state' = free'"
  shows "df_goods avail pktAvail state' s out = df_goods avail pktAvail state s out"
proof -
  have "mset (map specAddr free') + dp_nodes p' = mset (map specAddr free) + dp_nodes p"
    using assms(4) by (simp add: dp_nodes_def)
  then show ?thesis using assms by (simp add: df_goods_def ac_simps)
qed

lemma pass_ok:
  assumes s: "ok s" "df_typed state"
    and l: "defrag_unlink_loop (dfLocked state) a = Some (p, rest)"
    and f: "frag_frame f h bs" and h: "whip6_lowpanFrameHeadersHasFragHeader h" "fragSize (hdrFrag h) = dpTotalSize p"
  shows "\<exists>state' s' r free' p' fok.
    whip6_lowpanDefragmenterPassFrameWithIpv6PacketFragment A state s f h a = Some (state', s', r) \<and>
    ok s' \<and> df_typed state' \<and> dfLocked state' = rest \<and>
    df_goods avail pktAvail state' s' (out + (case r of None \<Rightarrow> {#} | Some pk \<Rightarrow> {#pk#})) =
      df_goods avail pktAvail state s out \<and>
    (bs \<noteq> [] \<longrightarrow>
       frag_added (freeAdditionalFragSpecs state) p (unat (fragOffset (hdrFrag h))) (frag_data h bs) free' p' fok \<and>
       (fok \<longrightarrow> frag_fits h p bs) \<and>
       (frag_fits h p bs \<and> (fragOffset (hdrFrag h) = 0 \<or> freeAdditionalFragSpecs state \<noteq> []) \<longrightarrow> fok)) \<and>
    (if bs = [] \<or> \<not> fok then r = None \<and> dfCurrent state' = dfCurrent state
     else if dp_complete p' then r = dpPacket p' \<and> dfCurrent state' = dfCurrent state
     else r = None \<and> dfCurrent state' = p' # dfCurrent state \<and> freeAdditionalFragSpecs state' = free')"
proof -
  let ?free = "freeAdditionalFragSpecs state" and ?off = "fragOffset (hdrFrag h)"
  note ul = unlink_Some [OF l] unlink_set [OF l]
  have pok: "dp_ok p" "key_ok p" using ul(2) s(2) by (auto simp: df_typed_def)
  obtain pk where pk: "dpPacket p = Some pk" "packet_ok pk" "length (pkt_bytes pk) = unat (dpTotalSize p)"
    "unat (dpTotalSize p) \<le> 32767" "specs_in (unat (dpTotalSize p)) (fragSpecs p)" using pok(1) by (rule dp_okE)
  let ?st = "state\<lparr>dfLocked := rest\<rparr>"
  have unl: "whip6_lowpanDefragmenterUnlockDefragPacket state a = (?st, Some p)"
    using l by (simp add: whip6_lowpanDefragmenterUnlockDefragPacket_def)
  have typed: "df_typed ?st" using s(2) ul(2) by (auto simp: df_typed_def)
  then have idle: "\<forall>q \<in> set (dfFree ?st). dp_idle q" by (simp add: df_typed_def)
  have all: "df_all state = add_mset p (df_all ?st)" using ul(1) by (simp add: df_all_def)
  obtain dm sm ip len where fr: "whip6_ieee154DFrameGetPayloadLen f = Some len"
    "unat (nextOffset h) + length bs = unat len" "unat (len - nextOffset h) = length bs"
    using f by (rule frag_frameE)
  have "unat len \<le> unat (nextOffset h) \<longleftrightarrow> length bs = 0" using fr(2) by linarith
  then have lo: "nextOffset h \<ge> len \<longleftrightarrow> bs = []" by (simp only: word_le_nat_alt length_0_conv)
  note def_simps = whip6_lowpanDefragmenterPassFrameWithIpv6PacketFragment_def
  have destroy: "\<exists>st' s'. whip6_lowpanDefragmenterDestroyDefragPacket A (?st\<lparr>freeAdditionalFragSpecs := free'\<rparr>) s q = (st', s') \<and>
      ok s' \<and> df_typed st' \<and> dfLocked st' = rest \<and> dfCurrent st' = dfCurrent state \<and>
      df_goods avail pktAvail st' s' out' =
        df_goods avail pktAvail (?st\<lparr>freeAdditionalFragSpecs := free', dfFree := q # dfFree state\<rparr>) s out'"
    if q: "fragSpecs q \<noteq> []" "key_ok q" for free' q out'
  proof -
    obtain st' s' where d: "whip6_lowpanDefragmenterDestroyDefragPacket A (?st\<lparr>freeAdditionalFragSpecs := free'\<rparr>) s q =
      (st', s')" by fastforce
    have "\<forall>q \<in> set (dfFree (?st\<lparr>freeAdditionalFragSpecs := free'\<rparr>)). dp_idle q" using idle by simp
    from destroy_goods [OF d s(1) q this, of out'] d show ?thesis using typed by (auto simp: df_typed_def)
  qed
  show ?thesis
  proof (cases "bs = []")
    case True
    obtain st' s' where d: "whip6_lowpanDefragmenterDestroyDefragPacket A (?st\<lparr>freeAdditionalFragSpecs := ?free\<rparr>) s p =
        (st', s')" "ok s'" "df_typed st'" "dfLocked st' = rest" "dfCurrent st' = dfCurrent state"
      "df_goods avail pktAvail st' s' out =
        df_goods avail pktAvail (?st\<lparr>freeAdditionalFragSpecs := ?free, dfFree := p # dfFree state\<rparr>) s out"
      using destroy [OF specs_in_ne [OF pk(5)] pok(2)] by blast
    have "df_goods avail pktAvail (?st\<lparr>freeAdditionalFragSpecs := ?free, dfFree := p # dfFree state\<rparr>) s out =
        df_goods avail pktAvail state s out"
      using all by (intro df_goods_cong) (simp_all add: df_all_def)
    moreover have "whip6_lowpanDefragmenterPassFrameWithIpv6PacketFragment A state s f h a = Some (st', s', None)"
      using unl fr(1) lo True d(1) by (simp add: def_simps)
    ultimately show ?thesis using d True by auto
  next
    case False
    let ?q = "whip6_ieee154DFrameUnsafeGetPayloadPtr f + unat (nextOffset h)"
    have "\<exists>free' p' fok. (if ?off = 0 then defrag_first_fragment ?free p f h ?q
        else defrag_next_fragment ?free p f h ?q (len - nextOffset h) ?off) = Some (free', p', fok) \<and>
      frag_added ?free p (unat ?off) (frag_data h bs) free' p' fok \<and> (fok \<longrightarrow> frag_fits h p bs) \<and>
      (frag_fits h p bs \<and> (?off = 0 \<or> ?free \<noteq> []) \<longrightarrow> fok)"
    proof (cases "?off = 0")
      case True
      from first_fragment_total [OF pok(1) f False h refl, of ?free] show ?thesis
        using True by (auto simp: frag_data_def frag_fits_def)
    next
      case nz: False
      from next_fragment [OF pok(1) f False nz h(2) refl fr(1) refl, of ?free] show ?thesis
        using nz False by (auto simp: frag_data_def frag_fits_def)
    qed
    then obtain free' p' fok where a: "(if ?off = 0 then defrag_first_fragment ?free p f h ?q
        else defrag_next_fragment ?free p f h ?q (len - nextOffset h) ?off) = Some (free', p', fok)"
      "frag_added ?free p (unat ?off) (frag_data h bs) free' p' fok" "fok \<longrightarrow> frag_fits h p bs"
      "frag_fits h p bs \<and> (?off = 0 \<or> ?free \<noteq> []) \<longrightarrow> fok" by blast
    have p': "dpAddr p' = dpAddr p" "dpTotalSize p' = dpTotalSize p" "fragSpecs p' \<noteq> []" "key_ok p'"
      "mset (map specAddr (free' @ tl (fragSpecs p'))) = mset (map specAddr (?free @ tl (fragSpecs p)))"
      using a(2) pok(2) by (auto simp: frag_added_def key_ok_def)
    have hc: "dp_held p' = dp_held p" "dp_chunks p' = dp_chunks p"
      using a(2) pk(1) by (auto simp: frag_added_def pkt_same_def dp_held_def dp_chunks_def chain_addrs_def)
    let ?st' = "?st\<lparr>freeAdditionalFragSpecs := free'\<rparr>"
    have goods: "df_goods avail pktAvail st s out = df_goods avail pktAvail state s out"
      if "df_all st = add_mset p' (df_all ?st)" "freeAdditionalFragSpecs st = free'" for st
      by (rule goods_replace [OF p'(1) hc p'(5) all that(1) refl that(2)])
    have run: "whip6_lowpanDefragmenterPassFrameWithIpv6PacketFragment A state s f h a =
      (if \<not> fok then (case whip6_lowpanDefragmenterDestroyDefragPacket A ?st' s p' of (state, s) \<Rightarrow> Some (state, s, None))
       else if dp_complete p'
       then (case whip6_lowpanDefragmenterDestroyDefragPacket A ?st' s (p'\<lparr>dpPacket := None\<rparr>) of
               (state, s) \<Rightarrow> Some (state, s, dpPacket p'))
       else Some (?st'\<lparr>dfCurrent := p' # dfCurrent state\<rparr>, s, None))"
    proof -
      have fs: "freeAdditionalFragSpecs ?st = ?free" "dfCurrent ?st' = dfCurrent state" by simp_all
      have lo': "(nextOffset h \<ge> len) = False" using lo False by simp
      show ?thesis by (simp only: def_simps unl prod.case option.case Let_def fr(1) bind.bind_lunit lo' if_False fs
            a(1) dp_complete_def p'(2) h(2))
    qed
    show ?thesis
    proof (cases fok)
      case f: False
      obtain st' s' where d: "whip6_lowpanDefragmenterDestroyDefragPacket A ?st' s p' = (st', s')"
        "ok s'" "df_typed st'" "dfLocked st' = rest" "dfCurrent st' = dfCurrent state"
        "df_goods avail pktAvail st' s' out =
          df_goods avail pktAvail (?st\<lparr>freeAdditionalFragSpecs := free', dfFree := p' # dfFree state\<rparr>) s out"
        using destroy [OF p'(3,4)] by blast
      have "df_goods avail pktAvail st' s' out = df_goods avail pktAvail state s out"
        unfolding d(6) by (rule goods) (simp_all add: df_all_def)
      then show ?thesis using run d f a(2-4) False by fastforce
    next
      case t: True
      show ?thesis
      proof (cases "dp_complete p'")
        case True
        let ?p = "p'\<lparr>dpPacket := None\<rparr>"
        obtain pk' where pk': "dpPacket p' = Some pk'" using a(2) by (auto simp: frag_added_def)
        have "fragSpecs ?p \<noteq> []" "key_ok ?p" using p' by (simp_all add: key_ok_def)
        then obtain st' s' where d: "whip6_lowpanDefragmenterDestroyDefragPacket A ?st' s ?p = (st', s')"
          "ok s'" "df_typed st'" "dfLocked st' = rest" "dfCurrent st' = dfCurrent state"
          "df_goods avail pktAvail st' s' (out + {#pk'#}) =
            df_goods avail pktAvail (?st\<lparr>freeAdditionalFragSpecs := free', dfFree := ?p # dfFree state\<rparr>) s (out + {#pk'#})"
          using destroy by blast
        have "df_goods avail pktAvail (?st\<lparr>freeAdditionalFragSpecs := free', dfFree := ?p # dfFree state\<rparr>) s (out + {#pk'#}) =
            df_goods avail pktAvail (?st\<lparr>freeAdditionalFragSpecs := free', dfFree := p' # dfFree state\<rparr>) s out"
          using pk' by (simp add: df_goods_def df_all_def dp_held_def dp_chunks_def dp_nodes_def)
        also have "\<dots> = df_goods avail pktAvail state s out" by (rule goods) (simp_all add: df_all_def)
        finally have "df_goods avail pktAvail st' s' (out + {#pk'#}) = df_goods avail pktAvail state s out"
          using d(6) by simp
        then show ?thesis using run d t a(2-4) False True pk' by fastforce
      next
        case nc: False
        have "dp_ok p'" using a(2) t pk by (auto simp: frag_added_def dp_ok_def)
        then have "df_typed (?st'\<lparr>dfCurrent := p' # dfCurrent state\<rparr>)" using typed p'(4) by (auto simp: df_typed_def)
        moreover have "df_goods avail pktAvail (?st'\<lparr>dfCurrent := p' # dfCurrent state\<rparr>) s out =
            df_goods avail pktAvail state s out" by (rule goods) (simp_all add: df_all_def)
        ultimately show ?thesis using run t nc a(2-4) False s(1) by fastforce
      qed
    qed
  qed
qed

section \<open>Time-outs and termination\<close>

lemma timeout_loop_ok:
  assumes "\<forall>p \<in> set ps. dp_ok p \<and> key_ok p" "\<forall>q \<in> set (dfFree state). dp_idle q" "ok s"
    and "defrag_timeout_loop A now tmo ps state s = (kept, state', s')"
  shows "kept = filter (\<lambda>p. now - defragStartTime p < tmo) ps \<and> ok s' \<and> dfLocked state' = dfLocked state \<and>
    (\<forall>q \<in> set (dfFree state'). dp_idle q) \<and>
    df_goods avail pktAvail (state'\<lparr>dfCurrent := kept\<rparr>) s' out =
      df_goods avail pktAvail (state\<lparr>dfCurrent := ps\<rparr>) s out"
  using assms
proof (induction ps arbitrary: state s kept)
  case (Cons c ps)
  show ?case
  proof (cases "now - defragStartTime c < tmo")
    case True
    obtain kept1 where l: "defrag_timeout_loop A now tmo ps state s = (kept1, state', s')" "kept = c # kept1"
      using Cons.prems(4) True by (auto simp: Let_def split: prod.splits)
    have "\<forall>p \<in> set ps. dp_ok p \<and> key_ok p" using Cons.prems(1) by simp
    from Cons.IH [OF this Cons.prems(2,3) l(1)]
    have ih: "kept1 = filter (\<lambda>p. now - defragStartTime p < tmo) ps" "ok s'" "dfLocked state' = dfLocked state"
      "\<forall>q \<in> set (dfFree state'). dp_idle q"
      "df_goods avail pktAvail (state'\<lparr>dfCurrent := kept1\<rparr>) s' out = df_goods avail pktAvail (state\<lparr>dfCurrent := ps\<rparr>) s out"
      by blast+
    have "df_goods avail pktAvail (state'\<lparr>dfCurrent := c # kept1\<rparr>) s' out =
        df_goods avail pktAvail (state\<lparr>dfCurrent := c # ps\<rparr>) s out"
      using ih(5) by (simp add: df_goods_def df_all_def add.assoc)
    then show ?thesis using ih(1-4) l(2) True by simp
  next
    case False
    obtain st1 s1 where d: "whip6_lowpanDefragmenterDestroyDefragPacket A state s c = (st1, s1)" by fastforce
    have l: "defrag_timeout_loop A now tmo ps st1 s1 = (kept, state', s')"
      using Cons.prems(4) False d by (simp add: Let_def)
    have "fragSpecs c \<noteq> []" "key_ok c" using Cons.prems(1) by (auto simp: dp_ok_def specs_in_def)
    note dg = destroy_goods [OF d Cons.prems(3) this Cons.prems(2)]
    have "df_goods avail pktAvail (st1\<lparr>dfCurrent := ps\<rparr>) s1 out = df_goods avail pktAvail (state\<lparr>dfCurrent := c # ps\<rparr>) s out"
    proof -
      have d': "whip6_lowpanDefragmenterDestroyDefragPacket A (state\<lparr>dfCurrent := ps\<rparr>) s c = (st1\<lparr>dfCurrent := ps\<rparr>, s1)"
        using d by (cases "dpPacket c")
          (auto simp: whip6_lowpanDefragmenterDestroyDefragPacket_def destroy_eq [OF \<open>fragSpecs c \<noteq> []\<close>])
      have "df_goods avail pktAvail (st1\<lparr>dfCurrent := ps\<rparr>) s1 out =
          df_goods avail pktAvail (state\<lparr>dfCurrent := ps, dfFree := c # dfFree state\<rparr>) s out"
        using destroy_goods [OF d' Cons.prems(3) \<open>fragSpecs c \<noteq> []\<close> \<open>key_ok c\<close>, of out] Cons.prems(2) by simp
      also have "\<dots> = df_goods avail pktAvail (state\<lparr>dfCurrent := c # ps\<rparr>) s out"
        by (rule df_goods_cong) (simp_all add: df_all_def)
      finally show ?thesis .
    qed
    moreover have "\<forall>p \<in> set ps. dp_ok p \<and> key_ok p" using Cons.prems(1) by simp
    have "ok s1" "\<forall>q \<in> set (dfFree st1). dp_idle q" "dfLocked st1 = dfLocked state" using dg by simp_all
    moreover from Cons.IH [OF \<open>\<forall>p \<in> set ps. dp_ok p \<and> key_ok p\<close> this(2,1) l]
    have "kept = filter (\<lambda>p. now - defragStartTime p < tmo) ps" "ok s'" "dfLocked state' = dfLocked st1"
      "\<forall>q \<in> set (dfFree state'). dp_idle q"
      "df_goods avail pktAvail (state'\<lparr>dfCurrent := kept\<rparr>) s' out = df_goods avail pktAvail (st1\<lparr>dfCurrent := ps\<rparr>) s1 out"
      by blast+
    ultimately show ?thesis using False by simp
  qed
qed simp

lemma timeout_ok:
  assumes "ok s" "df_typed state"
    and "whip6_lowpanDefragmenterPeriodicTimeout A state s now tmo = (state', s', status)"
  shows "ok s' \<and> df_typed state' \<and> df_goods avail pktAvail state' s' out = df_goods avail pktAvail state s out \<and>
    (if dfLocked state = []
     then status = WHIP6_NO_ERROR \<and> dfCurrent state' = filter (\<lambda>p. now - defragStartTime p < tmo) (dfCurrent state) \<and>
       dfLocked state' = []
     else status = WHIP6_STATE_ERROR \<and> state' = state \<and> s' = s)"
proof (cases "dfLocked state = []")
  case False
  then show ?thesis using assms by (auto simp: whip6_lowpanDefragmenterPeriodicTimeout_def)
next
  case True
  obtain kept st1 where l: "defrag_timeout_loop A now tmo (dfCurrent state) state s = (kept, st1, s')"
    "state' = st1\<lparr>dfCurrent := kept\<rparr>" "status = WHIP6_NO_ERROR"
    using assms(3) True by (auto simp: whip6_lowpanDefragmenterPeriodicTimeout_def split: prod.splits)
  have t: "\<forall>p \<in> set (dfCurrent state). dp_ok p \<and> key_ok p" "\<forall>q \<in> set (dfFree state). dp_idle q"
    using assms(2) by (auto simp: df_typed_def)
  from timeout_loop_ok [OF t assms(1) l(1), of out] show ?thesis using l(2,3) True t
    by (auto simp: df_typed_def)
qed

text \<open>Terminating everything is a time-out of zero.\<close>

lemma terminate_loop_eq: "defrag_timeout_loop A now 0 ps state s =
  (case defrag_terminate_loop A ps state s of (state, s) \<Rightarrow> ([], state, s))"
  by (induction ps arbitrary: state s) (auto simp: Let_def split: prod.splits)

lemma terminate_eq:
  "whip6_lowpanDefragmenterTerminateAllReassemblies A state s = whip6_lowpanDefragmenterPeriodicTimeout A state s now 0"
  by (auto simp: whip6_lowpanDefragmenterTerminateAllReassemblies_def whip6_lowpanDefragmenterPeriodicTimeout_def
      terminate_loop_eq split: prod.splits)

section \<open>A packet in one frame\<close>

lemma entire_ok:
  assumes "ok s" and f: "frag_frame f h bs"
  shows "\<exists>s' r. whip6_lowpanDefragmenterPassFrameWithEntireIpv6Packet A s f h = Some (s', r) \<and> ok s' \<and>
    (case r of
       None \<Rightarrow> avail s' = avail s \<and> pktAvail s' = pktAvail s \<and>
         \<not> (entire_frame f h bs \<and> (\<exists>s1 pk. whip6_ipv6AllocatePacket A s (of_nat (length bs - 41)) = Some (s1, Some pk)))
     | Some pk \<Rightarrow> avail s' + chain_addrs (firstPayloadIov pk) = avail s \<and>
         pktAvail s = add_mset (pktAddr pk) (pktAvail s') \<and> packet_ok pk \<and> entire_frame f h bs \<and> bs = 0x41 # pkt_bytes pk \<and>
         40 + unat (whip6_ipv6BasicHeaderGetPayloadLength (pktHeader pk)) = length (pkt_bytes pk))"
proof (cases "whip6_ieee154DFrameIsInterPan f \<or> whip6_lowpanFrameHeadersHasFragHeader h \<or> length bs < 41 \<or> hd bs \<noteq> 0x41")
  case True
  obtain dm sm ip len where fr: "whip6_ieee154DFrameGetPayloadLen f = Some len"
    "holds_at (bufferPtr f) (fr_pay dm sm ip + unat (nextOffset h)) bs" "unat (nextOffset h) + length bs = unat len"
    "whip6_ieee154DFrameUnsafeGetPayloadPtr f = fr_pay dm sm ip" "unat (len - nextOffset h) = length bs"
    using f by (rule frag_frameE)
  have "whip6_lowpanDefragmenterPassFrameWithEntireIpv6Packet A s f h = Some (s, None)"
  proof (cases "bs = []")
    case nil: True
    then have "nextOffset h \<ge> len" using fr(3) by (simp add: word_le_nat_alt)
    then show ?thesis using fr(1) by (simp add: whip6_lowpanDefragmenterPassFrameWithEntireIpv6Packet_def)
  next
    case False
    have lb: "0 < length bs" using False by simp
    have lo: "\<not> nextOffset h \<ge> len" using fr(3) lb by (simp only: word_le_nat_alt)
    have b: "buf_get (bufferPtr f) (fr_pay dm sm ip + unat (nextOffset h)) = Some (hd bs)"
      using fr(2) False by (cases bs) simp_all
    have "unat (len - nextOffset h - 1) = length bs - 1"
      using fr(5) lb by (subst unat_sub) (simp_all add: word_le_nat_alt Suc_le_eq)
    then have l: "unat (len - nextOffset h - 1) < IPV6_BASIC_HEADER_SIZE \<longleftrightarrow> length bs < 41"
      by (cases bs) (simp_all add: IPV6_BASIC_HEADER_SIZE_def)
    show ?thesis using True fr(1,4) lo b l
      by (auto simp: whip6_lowpanDefragmenterPassFrameWithEntireIpv6Packet_def Let_def lowpan_constants)
  qed
  moreover have "\<not> entire_frame f h bs" using True by (auto simp: entire_frame_def)
  ultimately show ?thesis using assms(1) by simp
next
  case False
  then obtain ds where ds: "bs = 0x41 # ds" "40 \<le> length ds" by (cases bs) auto
  obtain dm sm ip len where fr: "frame_layout dm sm ip f" "whip6_ieee154DFrameGetPayloadLen f = Some len"
    "holds_at (bufferPtr f) (fr_pay dm sm ip + unat (nextOffset h)) (0x41 # ds)"
    "unat (nextOffset h) + 1 + length ds = unat len"
    "whip6_ieee154DFrameUnsafeGetPayloadPtr f = fr_pay dm sm ip" "unat (len - nextOffset h) = 1 + length ds"
    using f ds(1) by (elim frag_frameE) simp
  define n where "n = len - nextOffset h - 1"
  have un: "unat n = length ds" unfolding n_def using fr(6) by (subst unat_sub) (simp_all add: word_le_nat_alt)
  have lo: "(nextOffset h \<ge> len) = False" using fr(4) by (simp add: word_le_nat_alt)
  have b: "buf_get (bufferPtr f) (fr_pay dm sm ip + unat (nextOffset h)) = Some 0x41" using fr(3) by simp
  have l: "(unat n < IPV6_BASIC_HEADER_SIZE) = False" using ds(2) by (simp add: un IPV6_BASIC_HEADER_SIZE_def)
  have guards: "whip6_ieee154DFrameIsInterPan f = False" "whip6_lowpanFrameHeadersHasFragHeader h = False"
    using False by auto
  have usz: "unat (ucast n - of_nat IPV6_BASIC_HEADER_SIZE :: u16) = length ds - 40"
    using ds(2) un by (subst unat_sub) (simp_all add: word_le_nat_alt IPV6_BASIC_HEADER_SIZE_def)
  have un40: "unat (n - of_nat IPV6_BASIC_HEADER_SIZE) = length ds - 40"
    using ds(2) un by (subst unat_sub) (simp_all add: word_le_nat_alt IPV6_BASIC_HEADER_SIZE_def)
  obtain s1 r where al: "whip6_ipv6AllocatePacket A s (ucast n - of_nat IPV6_BASIC_HEADER_SIZE) = Some (s1, r)" "ok s1"
    "case r of
       None \<Rightarrow> avail s1 = avail s \<and> pktAvail s1 = pktAvail s
     | Some p \<Rightarrow> avail s1 + chain_addrs (firstPayloadIov p) = avail s \<and>
         pktAvail s = add_mset (pktAddr p) (pktAvail s1) \<and> packet_ok p \<and>
         chain_len (firstPayloadIov p) = unat (ucast n - of_nat IPV6_BASIC_HEADER_SIZE :: u16)"
    using alloc_packet [OF assms(1)] by blast
  note start = whip6_lowpanDefragmenterPassFrameWithEntireIpv6Packet_def guards if_False fr(2,5) Let_def bind.bind_lunit
    lo b lowpan_constants and_255 simp_thms n_def [symmetric] l al(1) prod.case
  show ?thesis
  proof (cases r)
    case None
    have "whip6_lowpanDefragmenterPassFrameWithEntireIpv6Packet A s f h = Some (s1, None)"
      by (simp only: start None option.case)
    moreover have "ucast n - of_nat IPV6_BASIC_HEADER_SIZE = (of_nat (length bs - 41) :: u16)"
      using usz ds(1) by (simp flip: usz)
    ultimately show ?thesis using al None by simp
  next
    case (Some pk)
    have pk: "packet_ok pk" "length (pkt_bytes pk) = length ds"
    proof -
      have "length (concat (map elemBuf es)) = chain_len es" for es by (induction es) simp_all
      then show "packet_ok pk" "length (pkt_bytes pk) = length ds"
        using al(3) Some ds(2) usz pkt_bytes_length [of pk] by simp_all
    qed
    obtain pk' where u: "whip6_lowpanRawIpv6HeaderUnpack f h pk None = Some (pk', None, of_nat (length ds))"
      "packet_ok pk'" "pkt_same pk pk'" "pkt_bytes pk' = ds"
      using raw_unpack [OF fr(1-4) pk(1) _ refl, of None] guards(2) pk(2)
      by (auto simp: pkt_same_def mem_blit_def)
    have nn: "(of_nat (length ds) \<noteq> n) = False" by (simp flip: un)
    have ca: "chain_addrs (firstPayloadIov pk') = chain_addrs (firstPayloadIov pk)"
      using u(3) by (simp only: pkt_same_def chain_addrs_def)
    have freed: "ok (whip6_ipv6FreePacket A s1 pk')" "avail (whip6_ipv6FreePacket A s1 pk') = avail s"
      "pktAvail (whip6_ipv6FreePacket A s1 pk') = pktAvail s"
      using free_packet [OF al(2), of pk'] al(3) Some u(3) ca by (simp_all add: pkt_same_def)
    show ?thesis
    proof (cases "whip6_ipv6BasicHeaderGetPayloadLength (pktHeader pk') = ucast (n - of_nat IPV6_BASIC_HEADER_SIZE)")
      case True
      have "whip6_lowpanDefragmenterPassFrameWithEntireIpv6Packet A s f h = Some (s1, Some pk')"
        by (simp only: start Some option.case u(1) nn True)
      moreover from True have len: "unat (whip6_ipv6BasicHeaderGetPayloadLength (pktHeader pk')) = length ds - 40"
        using un40 by simp
      moreover have "entire_frame f h bs"
        using entire_frame_iff [OF guards u(2), of bs] len ds(1) u(4) by simp
      ultimately show ?thesis using al(2,3) Some u(2-4) ds ca
        by (simp add: pkt_same_def)
    next
      case ne: False
      have "whip6_lowpanDefragmenterPassFrameWithEntireIpv6Packet A s f h = Some (whip6_ipv6FreePacket A s1 pk', None)"
        by (simp only: start Some option.case u(1) nn ne not_False_eq_True if_True)
      moreover have "\<not> entire_frame f h bs"
      proof
        assume "entire_frame f h bs"
        then have "unat (whip6_ipv6BasicHeaderGetPayloadLength (pktHeader pk')) = length ds - 40"
          using entire_frame_iff [OF guards u(2), of bs] ds(1) u(4) by simp
        then have "unat (whip6_ipv6BasicHeaderGetPayloadLength (pktHeader pk')) =
            unat (ucast (n - of_nat IPV6_BASIC_HEADER_SIZE) :: u16)" using un40 by simp
        then have "whip6_ipv6BasicHeaderGetPayloadLength (pktHeader pk') = ucast (n - of_nat IPV6_BASIC_HEADER_SIZE)"
          by (simp only: word_unat_eq_iff)
        with ne show False by (rule notE)
      qed
      ultimately show ?thesis using freed by simp
    qed
  qed
qed

end

end
