(* ===== verification/Lowpan_Reassembly.thy ===== *)
theory Lowpan_Reassembly
  imports Lowpan_DefragState
begin

text \<open>
  The defragmenter on the program's own packet pools as a transition system: the calls its client
  can make in any order, on any frames. What every reachable state guarantees: the resources are
  conserved, and what is delivered is what was sent.
\<close>

section \<open>The transition system\<close>

text \<open>
  A fragment that carries its part of the datagram \<open>ref\<close>.
\<close>

definition frag_honest :: "u8 list \<Rightarrow> lowpan_unpacked_frame_headers \<Rightarrow> u8 list \<Rightarrow> bool" where
  "frag_honest ref h bs \<longleftrightarrow> unat (fragSize (hdrFrag h)) = length ref \<and>
     (let ds = frag_data h bs; off = unat (fragOffset (hdrFrag h))
      in off + length ds \<le> length ref \<and> ds = take (length ds) (drop off ref))"

text \<open>
  States reachable by the client's calls from the initialisation on \<open>arr\<close> and \<open>nodes\<close> with the pools
  \<open>s0\<close>; \<open>out\<close> holds the packets delivered and not yet freed by the client, with the key they were
  assembled under. For the keys that \<open>orig\<close> is defined for, all senders are honest.
\<close>

inductive df_reach ::
  "lowpan_defrag_packet_state list \<Rightarrow> lowpan_defrag_frag_spec list \<Rightarrow> packet_pools \<Rightarrow>
   (lowpan_defrag_frag_set_key \<Rightarrow> u8 list option) \<Rightarrow>
   lowpan_defrag_global_state \<Rightarrow> packet_pools \<Rightarrow> (lowpan_defrag_frag_set_key option \<times> ipv6_packet) multiset \<Rightarrow> bool"
  for arr nodes s0 orig where
  df_init: "length arr = unat n \<Longrightarrow> length nodes = unat m \<Longrightarrow>
    df_reach arr nodes s0 orig (whip6_lowpanDefragmenterInit (Some arr) (Some nodes) n m) s0 {#}"
| df_find: "df_reach arr nodes s0 orig state s out \<Longrightarrow> mesh_addrs_ok h \<Longrightarrow>
    unat (fragSize (hdrFrag h)) \<le> 32767 \<Longrightarrow> frame_fits dm sm ip f \<Longrightarrow>
    whip6_lowpanDefragmenterFindExistingOrAllocateNewPacketAndLockIt pools state s f h now = Some (state', s', r) \<Longrightarrow>
    df_reach arr nodes s0 orig state' s' out"
| df_pass: "df_reach arr nodes s0 orig state s out \<Longrightarrow>
    defrag_unlink_loop (dfLocked state) a = Some (p, rest) \<Longrightarrow> frag_frame f h bs \<Longrightarrow>
    whip6_lowpanFrameHeadersHasFragHeader h \<Longrightarrow> fragSize (hdrFrag h) = dpTotalSize p \<Longrightarrow>
    (\<And>ref. orig (dpKey p) = Some ref \<Longrightarrow> frag_honest ref h bs) \<Longrightarrow>
    whip6_lowpanDefragmenterPassFrameWithIpv6PacketFragment pools state s f h a = Some (state', s', r) \<Longrightarrow>
    df_reach arr nodes s0 orig state' s'
      (case r of None \<Rightarrow> out | Some pk \<Rightarrow> add_mset (Some (dpKey p), pk) out)"
| df_pass_unlocked: "df_reach arr nodes s0 orig state s out \<Longrightarrow> a \<notin> dpAddr ` set (dfLocked state) \<Longrightarrow>
    whip6_lowpanDefragmenterPassFrameWithIpv6PacketFragment pools state s f h a = Some (state', s', r) \<Longrightarrow>
    df_reach arr nodes s0 orig state' s' (case r of None \<Rightarrow> out | Some pk \<Rightarrow> add_mset (None, pk) out)"
| df_entire: "df_reach arr nodes s0 orig state s out \<Longrightarrow> frag_frame f h bs \<Longrightarrow>
    whip6_lowpanDefragmenterPassFrameWithEntireIpv6Packet pools s f h = Some (s', r) \<Longrightarrow>
    df_reach arr nodes s0 orig state s' (case r of None \<Rightarrow> out | Some pk \<Rightarrow> add_mset (None, pk) out)"
| df_unlock: "df_reach arr nodes s0 orig state s out \<Longrightarrow>
    whip6_lowpanDefragmenterUnlockPacket state a = (state', status) \<Longrightarrow> df_reach arr nodes s0 orig state' s out"
| df_timeout: "df_reach arr nodes s0 orig state s out \<Longrightarrow>
    whip6_lowpanDefragmenterPeriodicTimeout pools state s now tmo = (state', s', status) \<Longrightarrow>
    df_reach arr nodes s0 orig state' s' out"
| df_terminate: "df_reach arr nodes s0 orig state s out \<Longrightarrow>
    whip6_lowpanDefragmenterTerminateAllReassemblies pools state s = (state', s', status) \<Longrightarrow>
    df_reach arr nodes s0 orig state' s' out"
| df_free: "df_reach arr nodes s0 orig state s (add_mset (k, pk) out) \<Longrightarrow>
    df_reach arr nodes s0 orig state (whip6_ipv6FreePacket pools s pk) out"

section \<open>The invariant\<close>

text \<open>The bytes of a packet that its specifications cover are those of the datagram.\<close>

definition dp_content :: "(lowpan_defrag_frag_set_key \<Rightarrow> u8 list option) \<Rightarrow> lowpan_defrag_packet_state \<Rightarrow> bool" where
  "dp_content orig p \<longleftrightarrow> (\<forall>pk ref. dpPacket p = Some pk \<longrightarrow> orig (dpKey p) = Some ref \<longrightarrow>
     (\<forall>i \<in> spec_cover (fragSpecs p). i < length ref \<and> pkt_bytes pk ! i = ref ! i))"

abbreviation pool_goods ::
  "lowpan_defrag_global_state \<Rightarrow> packet_pools \<Rightarrow> ipv6_packet multiset \<Rightarrow>
   nat multiset \<times> nat multiset \<times> nat multiset \<times> nat multiset" where
  "pool_goods \<equiv> df_goods (\<lambda>s. pool_avail (iovPool s)) (\<lambda>s. pool_avail (packetPool s))"

definition df_inv ::
  "lowpan_defrag_packet_state list \<Rightarrow> lowpan_defrag_frag_spec list \<Rightarrow> packet_pools \<Rightarrow>
   (lowpan_defrag_frag_set_key \<Rightarrow> u8 list option) \<Rightarrow>
   lowpan_defrag_global_state \<Rightarrow> packet_pools \<Rightarrow> (lowpan_defrag_frag_set_key option \<times> ipv6_packet) multiset \<Rightarrow> bool" where
  "df_inv arr nodes s0 orig state s out \<longleftrightarrow> df_typed state \<and>
     pool_goods state s (image_mset snd out) =
       (mset (map dpAddr arr), mset (map specAddr nodes), pool_avail (packetPool s0), pool_avail (iovPool s0)) \<and>
     (\<forall>p \<in> set (dfCurrent state) \<union> set (dfLocked state). dp_content orig p) \<and>
     (\<forall>k pk ref. (Some k, pk) \<in># out \<longrightarrow> orig k = Some ref \<longrightarrow> pkt_bytes pk = ref)"

lemma defrag_init_loop: "length xs \<le> unat n \<Longrightarrow> defrag_init_loop xs n = xs"
proof (induction xs arbitrary: n)
  case (Cons x xs)
  then have "0 < n" by (metis Suc_le_D length_Cons not_less_zero unat_gt_0 word_gt_0 zero_less_Suc le_zero_eq
        unat_0 list.distinct(1) list.size(3) length_greater_0_conv neq0_conv)
  then have "unat (n - 1) = unat n - 1" by (subst unat_sub) (simp_all add: word_le_nat_alt word_less_nat_alt)
  with Cons \<open>0 < n\<close> show ?case by simp
qed simp

lemma init_inv:
  assumes "\<forall>p \<in> set arr. dp_idle p" "length arr = unat n" "length nodes = unat m"
  shows "df_inv arr nodes s0 orig (whip6_lowpanDefragmenterInit (Some arr) (Some nodes) n m) s0 {#}"
proof -
  have "n = 0 \<Longrightarrow> arr = []" "m = 0 \<Longrightarrow> nodes = []" using assms(2,3) by simp_all
  then have i: "whip6_lowpanDefragmenterInit (Some arr) (Some nodes) n m =
      \<lparr>dfCurrent = [], dfLocked = [], dfFree = arr, freeAdditionalFragSpecs = nodes\<rparr>"
    using assms(2,3) by (auto simp: whip6_lowpanDefragmenterInit_def defrag_init_loop word_gt_0)
  have "dp_held p = {#} \<and> dp_chunks p = {#} \<and> dp_nodes p = {#}" if "dp_idle p" for p
    using that by (auto simp: dp_idle_def dp_held_def dp_chunks_def dp_nodes_def length_Suc_conv)
  then have "\<Sum>\<^sub># (image_mset dp_held (mset arr)) = {#}" "\<Sum>\<^sub># (image_mset dp_chunks (mset arr)) = {#}"
    "\<Sum>\<^sub># (image_mset dp_nodes (mset arr)) = {#}"
    using assms(1) by (induction arr) auto
  then show ?thesis using assms(1)
    by (simp add: i df_inv_def df_typed_def df_goods_def df_all_def)
qed

lemma content_fresh: "fragSpecs p = [\<lparr>specAddr = a, specOffset = 0, specSize = 0\<rparr>] \<Longrightarrow> dp_content orig p"
  by (simp add: dp_content_def spec_set_def spec_end_def)

lemma content_added:
  assumes p: "dp_content orig p" "dp_ok p" and added: "frag_added free p off ds free' p' True"
    and honest: "\<And>ref. orig (dpKey p) = Some ref \<Longrightarrow> off + length ds \<le> length ref \<and> ds = take (length ds) (drop off ref)"
  shows "dp_content orig p'"
  unfolding dp_content_def
proof (intro allI impI ballI)
  fix pk' ref i
  assume a: "dpPacket p' = Some pk'" "orig (dpKey p') = Some ref" "i \<in> spec_cover (fragSpecs p')"
  from added obtain pk where k: "dpKey p' = dpKey p" "dpPacket p = Some pk" "pkt_bytes pk' = mem_blit (pkt_bytes pk) off ds"
    "off + length ds \<le> unat (dpTotalSize p)" "spec_cover (fragSpecs p') \<subseteq> spec_cover (fragSpecs p) \<union> {off..<off + length ds}"
    using a(1) by (auto simp: frag_added_def)
  have len: "length (pkt_bytes pk) = unat (dpTotalSize p)" using p(2) k(2) by (simp add: dp_ok_def)
  have h: "off + length ds \<le> length ref" "ds = take (length ds) (drop off ref)" using honest a(2) k(1) by simp_all
  show "i < length ref \<and> pkt_bytes pk' ! i = ref ! i"
  proof (cases "off \<le> i \<and> i < off + length ds")
    case True
    have "ds ! (i - off) = take (length ds) (drop off ref) ! (i - off)" by (rule arg_cong [OF h(2)])
    also have "\<dots> = ref ! i"
    proof -
      have "i - off < length ds" "off + (i - off) = i" using True by linarith+
      then show ?thesis using h(1) by simp
    qed
    finally have "ds ! (i - off) = ref ! i" .
    moreover have "mem_blit (pkt_bytes pk) off ds ! i = ds ! (i - off)"
      using True k(4) len by (auto simp: mem_blit_def nth_append)
    ultimately show ?thesis using True h(1) k(3) by simp
  next
    case False
    then have "i \<in> spec_cover (fragSpecs p)" using a(3) k(5) by auto
    then have "i < length ref \<and> pkt_bytes pk ! i = ref ! i" using p(1) k(1,2) a(2) by (auto simp: dp_content_def)
    moreover have "mem_blit (pkt_bytes pk) off ds ! i = pkt_bytes pk ! i"
      using False k(4) len by (auto simp: mem_blit_def nth_append)
    ultimately show ?thesis using k(3) by simp
  qed
qed


text \<open>A complete packet is the datagram.\<close>

lemma content_complete:
  assumes p: "dp_content orig p" "dp_complete p" "fragSpecs p \<noteq> []" and pk: "dpPacket p = Some pk"
    and len: "length (pkt_bytes pk) = unat (dpTotalSize p)" "length ref = unat (dpTotalSize p)"
    and o: "orig (dpKey p) = Some ref"
  shows "pkt_bytes pk = ref"
proof (rule nth_equalityI)
  fix i
  assume "i < length (pkt_bytes pk)"
  then have "i \<in> spec_set (hd (fragSpecs p))"
    using p(2) len by (simp add: dp_complete_def spec_set_def spec_end_def)
  then have "i \<in> spec_cover (fragSpecs p)" using p(3) by (cases "fragSpecs p") auto
  then show "pkt_bytes pk ! i = ref ! i" using p(1) pk o by (simp add: dp_content_def)
qed (simp add: len)

lemma df_inv_step_out:
  assumes "df_inv arr nodes s0 orig state s out" "df_typed state'"
    and "pool_goods state' s' (image_mset snd (out + new)) = pool_goods state s (image_mset snd out)"
    and "\<And>p. p \<in> set (dfCurrent state') \<union> set (dfLocked state') \<Longrightarrow>
      p \<in> set (dfCurrent state) \<union> set (dfLocked state) \<or> dp_content orig p"
    and "\<And>k pk ref. (Some k, pk) \<in># new \<Longrightarrow> orig k = Some ref \<Longrightarrow> pkt_bytes pk = ref"
  shows "df_inv arr nodes s0 orig state' s' (out + new)"
proof -
  have "\<forall>p \<in> set (dfCurrent state') \<union> set (dfLocked state'). dp_content orig p"
    using assms(1,4) unfolding df_inv_def by blast
  moreover have "\<forall>k pk ref. (Some k, pk) \<in># out + new \<longrightarrow> orig k = Some ref \<longrightarrow> pkt_bytes pk = ref"
    using assms(1,5) unfolding df_inv_def by (metis union_iff)
  ultimately show ?thesis using assms(1-3) unfolding df_inv_def by simp
qed

lemma df_inv_step:
  assumes "df_inv arr nodes s0 orig state s out" "df_typed state'"
    and "pool_goods state' s' (image_mset snd out) = pool_goods state s (image_mset snd out)"
    and "\<And>p. p \<in> set (dfCurrent state') \<union> set (dfLocked state') \<Longrightarrow>
      p \<in> set (dfCurrent state) \<union> set (dfLocked state) \<or> dp_content orig p"
  shows "df_inv arr nodes s0 orig state' s' out"
  using df_inv_step_out [of arr nodes s0 orig state s out state' s' "{#}"] assms by simp

lemma step_find:
  assumes inv: "df_inv arr nodes s0 orig state s out"
    and h: "mesh_addrs_ok h" "unat (fragSize (hdrFrag h)) \<le> 32767" "frame_fits dm sm ip f"
    and run: "whip6_lowpanDefragmenterFindExistingOrAllocateNewPacketAndLockIt pools state s f h now = Some (state', s', r)"
  shows "df_inv arr nodes s0 orig state' s' out"
proof -
  have t: "df_typed state" using inv by (simp add: df_inv_def)
  have f: "df_typed state'" "set (dfCurrent state') \<subseteq> set (dfCurrent state)"
    "pool_goods state' s' (image_mset snd out) = pool_goods state s (image_mset snd out)"
    "case r of
       None \<Rightarrow> dfLocked state' = dfLocked state
     | Some a \<Rightarrow> \<exists>p. dfLocked state' = p # dfLocked state \<and> dpAddr p = a \<and> dpTotalSize p = fragSize (hdrFrag h) \<and>
         key_same (dpKey p) h (mem_range (bufferPtr f) 4 2) \<and>
         (p \<in> set (dfCurrent state) \<or> dp_fresh h (mem_range (bufferPtr f) 4 2) now p)"
    using pkt.find_ok [OF TrueI t h, of s now "image_mset snd out"] run by auto
  show ?thesis
  proof (rule df_inv_step [OF inv f(1,3)])
    fix p
    assume "p \<in> set (dfCurrent state') \<union> set (dfLocked state')"
    then show "p \<in> set (dfCurrent state) \<union> set (dfLocked state) \<or> dp_content orig p"
      using f(2,4) content_fresh [of p] by (cases r) (auto simp: dp_fresh_def)
  qed
qed

lemma step_pass:
  assumes inv: "df_inv arr nodes s0 orig state s out"
    and l: "defrag_unlink_loop (dfLocked state) a = Some (p, rest)"
    and f: "frag_frame f h bs" and h: "whip6_lowpanFrameHeadersHasFragHeader h" "fragSize (hdrFrag h) = dpTotalSize p"
    and honest: "\<And>ref. orig (dpKey p) = Some ref \<Longrightarrow> frag_honest ref h bs"
    and run: "whip6_lowpanDefragmenterPassFrameWithIpv6PacketFragment pools state s f h a = Some (state', s', r)"
  shows "df_inv arr nodes s0 orig state' s' (case r of None \<Rightarrow> out | Some pk \<Rightarrow> add_mset (Some (dpKey p), pk) out)"
proof -
  let ?new = "case r of None \<Rightarrow> {#} | Some pk \<Rightarrow> {#(Some (dpKey p), pk)#}"
  have t: "df_typed state" using inv by (simp add: df_inv_def)
  obtain free' p' fok where q: "df_typed state'" "dfLocked state' = rest"
    "pool_goods state' s' (image_mset snd out + (case r of None \<Rightarrow> {#} | Some pk \<Rightarrow> {#pk#})) =
       pool_goods state s (image_mset snd out)"
    "bs \<noteq> [] \<longrightarrow>
       frag_added (freeAdditionalFragSpecs state) p (unat (fragOffset (hdrFrag h))) (frag_data h bs) free' p' fok"
    "if bs = [] \<or> \<not> fok then r = None \<and> dfCurrent state' = dfCurrent state
     else if dp_complete p' then r = dpPacket p' \<and> dfCurrent state' = dfCurrent state
     else r = None \<and> dfCurrent state' = p' # dfCurrent state \<and> freeAdditionalFragSpecs state' = free'"
    using pkt.pass_ok [OF TrueI t l f h, of s "image_mset snd out"] unfolding run option.inject prod.inject
    by blast
  note ul = unlink_set [OF l]
  have p: "dp_ok p" "dp_content orig p" using ul inv t by (auto simp: df_inv_def df_typed_def)
  have content: "dp_content orig p'" "frag_added (freeAdditionalFragSpecs state) p (unat (fragOffset (hdrFrag h)))
      (frag_data h bs) free' p' True" if "bs \<noteq> []" fok
  proof -
    show a: "frag_added (freeAdditionalFragSpecs state) p (unat (fragOffset (hdrFrag h))) (frag_data h bs) free' p' True"
      using that q(4) by simp
    show "dp_content orig p'"
      using honest by (intro content_added [OF p(2,1) a]) (simp add: frag_honest_def Let_def)
  qed
  have "pool_goods state' s' (image_mset snd (out + ?new)) = pool_goods state s (image_mset snd out)"
    using q(3) by (cases r) simp_all
  moreover have "p2 \<in> set (dfCurrent state) \<union> set (dfLocked state) \<or> dp_content orig p2"
    if "p2 \<in> set (dfCurrent state') \<union> set (dfLocked state')" for p2
    using that q(2,5) content(1) ul by (auto split: if_splits)
  moreover have "pkt_bytes pk = ref" if new: "(Some k, pk) \<in># ?new" and o: "orig k = Some ref" for k pk ref
  proof -
    have k: "k = dpKey p" "r = Some pk" using new by (auto split: option.splits)
    then have d: "bs \<noteq> []" fok "dp_complete p'" "dpPacket p' = Some pk" using q(5) by (auto split: if_splits)
    note c = content [OF d(1,2)]
    have e: "dpKey p' = dpKey p" "dpTotalSize p' = dpTotalSize p" "fragSpecs p' \<noteq> []"
      "length (pkt_bytes pk) = unat (dpTotalSize p)"
      using c(2) d(4) p(1) by (auto simp: frag_added_def dp_ok_def)
    have "frag_honest ref h bs" using honest o k(1) by simp
    then have "length ref = unat (dpTotalSize p')" using h(2) e(2) by (simp add: frag_honest_def)
    then show ?thesis using c(1) d(3,4) e o k(1) by (intro content_complete [of orig p']) simp_all
  qed
  ultimately have "df_inv arr nodes s0 orig state' s' (out + ?new)" by (rule df_inv_step_out [OF inv q(1)])
  then show ?thesis by (cases r) simp_all
qed


lemma pass_unlocked: "a \<notin> dpAddr ` set (dfLocked state) \<Longrightarrow>
  whip6_lowpanDefragmenterPassFrameWithIpv6PacketFragment A state s f h a = Some (state, s, None)"
  by (simp add: whip6_lowpanDefragmenterPassFrameWithIpv6PacketFragment_def
      whip6_lowpanDefragmenterUnlockDefragPacket_def unlink_None [symmetric])

lemma unlock_cases:
  "whip6_lowpanDefragmenterUnlockPacket state a =
     (case defrag_unlink_loop (dfLocked state) a of
        None \<Rightarrow> (state, WHIP6_ARGUMENT_ERROR)
      | Some (p, rest) \<Rightarrow> (state\<lparr>dfLocked := rest, dfCurrent := p # dfCurrent state\<rparr>, WHIP6_NO_ERROR))"
  by (auto simp: whip6_lowpanDefragmenterUnlockPacket_def whip6_lowpanDefragmenterUnlockDefragPacket_def
      split: option.splits)

lemma step_unlock:
  assumes inv: "df_inv arr nodes s0 orig state s out"
    and run: "whip6_lowpanDefragmenterUnlockPacket state a = (state', status)"
  shows "df_inv arr nodes s0 orig state' s out"
proof (cases "defrag_unlink_loop (dfLocked state) a")
  case None
  then show ?thesis using inv run by (simp add: unlock_cases)
next
  case (Some x)
  then obtain p rest where l: "defrag_unlink_loop (dfLocked state) a = Some (p, rest)" by (cases x) auto
  have st: "state' = state\<lparr>dfLocked := rest, dfCurrent := p # dfCurrent state\<rparr>" using run l by (simp add: unlock_cases)
  note ul = unlink_Some [OF l] unlink_set [OF l]
  show ?thesis
  proof (rule df_inv_step [OF inv])
    show "df_typed state'" using inv ul(2) st by (auto simp: df_inv_def df_typed_def)
    show "pool_goods state' s (image_mset snd out) = pool_goods state s (image_mset snd out)"
      by (rule df_goods_cong) (simp_all add: st df_all_def ul(1))
  qed (use ul(2) st in auto)
qed

lemma step_timeout:
  assumes inv: "df_inv arr nodes s0 orig state s out"
    and run: "whip6_lowpanDefragmenterPeriodicTimeout pools state s now tmo = (state', s', status)"
  shows "df_inv arr nodes s0 orig state' s' out"
proof -
  have t: "df_typed state" using inv by (simp add: df_inv_def)
  note ok = pkt.timeout_ok [OF TrueI t run, of "image_mset snd out"]
  show ?thesis
  proof (rule df_inv_step [OF inv])
    fix p
    assume "p \<in> set (dfCurrent state') \<union> set (dfLocked state')"
    then show "p \<in> set (dfCurrent state) \<union> set (dfLocked state) \<or> dp_content orig p"
      using ok by (auto split: if_splits)
  qed (use ok in auto)
qed

lemma entire_step:
  assumes "frag_frame f h bs"
    and "whip6_lowpanDefragmenterPassFrameWithEntireIpv6Packet pools s f h = Some (s', r)"
  shows "pool_goods state s' (out + (case r of None \<Rightarrow> {#} | Some pk \<Rightarrow> {#pk#})) = pool_goods state s out"
proof -
  have "case r of
       None \<Rightarrow> pool_avail (iovPool s') = pool_avail (iovPool s) \<and> pool_avail (packetPool s') = pool_avail (packetPool s)
     | Some pk \<Rightarrow> pool_avail (iovPool s') + chain_addrs (firstPayloadIov pk) = pool_avail (iovPool s) \<and>
         pool_avail (packetPool s) = add_mset (pktAddr pk) (pool_avail (packetPool s'))"
    using pkt.entire_ok [OF TrueI assms(1), of s] assms(2) by (auto split: option.splits)
  then show ?thesis by (cases r) (auto simp: df_goods_def)
qed

lemma step_free:
  assumes "df_inv arr nodes s0 orig state s (add_mset (k, pk) out)"
  shows "df_inv arr nodes s0 orig state (whip6_ipv6FreePacket pools s pk) out"
proof -
  have "pool_goods state (whip6_ipv6FreePacket pools s pk) (image_mset snd out) =
      pool_goods state s (add_mset pk (image_mset snd out))"
    using pkt.free_packet [OF TrueI] by (simp add: df_goods_def)
  then show ?thesis using assms by (simp add: df_inv_def)
qed

lemma df_reach_inv:
  assumes "\<forall>p \<in> set arr. dp_idle p"
  shows "df_reach arr nodes s0 orig state s out \<Longrightarrow> df_inv arr nodes s0 orig state s out"
proof (induction rule: df_reach.induct)
  case (df_init n m)
  then show ?case by (intro init_inv assms)
next
  case (df_find state s out h dm sm ip f now state' s' r)
  show ?case by (rule step_find [OF df_find.IH df_find.hyps(2-5)])
next
  case (df_pass state s out a p rest f h bs state' s' r)
  show ?case by (rule step_pass [OF df_pass.IH df_pass.hyps(2-7)])
next
  case (df_pass_unlocked state s out a f h state' s' r)
  then show ?case by (simp add: pass_unlocked)
next
  case (df_entire state s out f h bs s' r)
  let ?new = "case r of None \<Rightarrow> {#} | Some pk \<Rightarrow> {#(None, pk)#}"
  have "pool_goods state s' (image_mset snd (out + ?new)) = pool_goods state s (image_mset snd out)"
    using entire_step [OF df_entire.hyps(2,3), of state "image_mset snd out"] by (cases r) simp_all
  then have "df_inv arr nodes s0 orig state s' (out + ?new)"
    using df_entire.IH by (intro df_inv_step_out [OF df_entire.IH]) (auto simp: df_inv_def split: option.splits)
  then show ?case by (cases r) simp_all
next
  case (df_unlock state s out a state' status)
  show ?case by (rule step_unlock [OF df_unlock.IH df_unlock.hyps(2)])
next
  case (df_timeout state s out now tmo state' s' status)
  show ?case by (rule step_timeout [OF df_timeout.IH df_timeout.hyps(2)])
next
  case (df_terminate state s out state' s' status)
  show ?case by (rule step_timeout [OF df_terminate.IH df_terminate.hyps(2) [unfolded pkt.terminate_eq [of _ _ 0]]])
next
  case (df_free state s k pk out)
  show ?case by (rule step_free [OF df_free.IH])
qed


section \<open>Examples\<close>

definition ex_link_addr :: "u8 \<Rightarrow> ieee154_addr" where
  "ex_link_addr m = \<lparr>addrMode = m, addrVars = replicate 8 0\<rparr>"

definition ex_pools :: packet_pools where
  "ex_pools = \<lparr>packetPool = pool_init (\<lambda>c i. 0) 64 0 2, iovPool = pool_init (\<lambda>c i. 0) 112 12 3\<rparr>"

definition ex_defrag_packets :: "lowpan_defrag_packet_state list" where
  "ex_defrag_packets = [\<lparr>dpAddr = 9, dpPacket = None,
     dpKey = \<lparr>keyTag = 0, srcLinkAddr = ex_link_addr 2, dstLinkAddr = ex_link_addr 2, commonPanId = [0, 0]\<rparr>, dpTotalSize = 0,
     fragSpecs = [\<lparr>specAddr = 20, specOffset = 0, specSize = 0\<rparr>], defragStartTime = 0\<rparr>]"

definition ex_frag_nodes :: "lowpan_defrag_frag_spec list" where
  "ex_frag_nodes = map (\<lambda>a. \<lparr>specAddr = a, specOffset = 0, specSize = 0\<rparr>) [21, 22, 23, 24]"

definition ex_defragmenter :: lowpan_defrag_global_state where
  "ex_defragmenter = whip6_lowpanDefragmenterInit (Some ex_defrag_packets) (Some ex_frag_nodes) 1 4"

lemma ex_defragmenter_eq: "ex_defragmenter =
  \<lparr>dfCurrent = [], dfLocked = [], dfFree = ex_defrag_packets, freeAdditionalFragSpecs = ex_frag_nodes\<rparr>"
  by (simp add: ex_defragmenter_def whip6_lowpanDefragmenterInit_def defrag_init_loop ex_defrag_packets_def ex_frag_nodes_def)

lemma ex_defrag_idle: "\<forall>q \<in> set ex_defrag_packets. dp_idle q"
  by (simp add: ex_defrag_packets_def dp_idle_def key_ok_def ex_link_addr_def addr_ok_def)

lemma ex_reach: "df_reach ex_defrag_packets ex_frag_nodes ex_pools orig ex_defragmenter ex_pools {#}"
  unfolding ex_defragmenter_def by (rule df_init) (simp_all add: ex_defrag_packets_def ex_frag_nodes_def)

text \<open>A frame with the second fragment of a packet of 48 bytes.\<close>

definition ex_frag_frame :: ieee154_dframe_info where
  "ex_frag_frame = fr_info 2 3 False ([39] @ replicate 15 0 @ replicate 24 5) 40"

definition ex_frag_headers :: lowpan_unpacked_frame_headers where
  "ex_frag_headers = \<lparr>bitmap = 3, nextOffset = 0, hdrFrag = \<lparr>fragTag = 7, fragSize = 48, fragOffset = 24\<rparr>,
     hdrMesh = \<lparr>hopLimit = 1, meshSrcAddr = ex_link_addr 3, meshDstAddr = ex_link_addr 2\<rparr>, hdrBc0 = \<lparr>bc0SeqNo = 0\<rparr>\<rparr>"

lemma ex_frag_frame_fits: "frame_fits 2 3 False ex_frag_frame"
  using fr_info_layout [of 2 3 False "[39] @ replicate 15 0 @ replicate 24 5" 40]
  by (simp add: ex_frag_frame_def frame_fits_def addr_mode_ok_def) (simp add: fr_info_def fr_defs)

section \<open>Properties\<close>

text \<open>C3: In every state the defragmenter can reach, its packet states are the ones it was given, the fragment
  nodes are those on the free list and those in the packets, and every packet prototype and buffer
  chunk of the pools is free, in a packet under reassembly, or in a packet delivered and not yet
  freed: failures, time-outs and replaced packets neither leak nor free twice.\<close>

theorem reassembly_conserves:
  assumes "\<forall>p \<in> set arr. dp_idle p" "df_reach arr nodes s0 orig state s out"
  shows "image_mset dpAddr (df_all state) = mset (map dpAddr arr) \<and>
    mset (map specAddr (freeAdditionalFragSpecs state)) + sum_mset (image_mset dp_nodes (df_all state)) =
      mset (map specAddr nodes) \<and>
    pool_avail (packetPool s) + sum_mset (image_mset dp_held (df_all state)) + image_mset (\<lambda>(k, pk). pktAddr pk) out =
      pool_avail (packetPool s0) \<and>
    pool_avail (iovPool s) + sum_mset (image_mset dp_chunks (df_all state)) +
      sum_mset (image_mset (\<lambda>(k, pk). chain_addrs (firstPayloadIov pk)) out) = pool_avail (iovPool s0)"
  using df_reach_inv [OF assms]
  by (simp add: df_inv_def df_goods_def multiset.map_comp comp_def case_prod_unfold)

theorem reassembly_conserves_witness:
  "image_mset dpAddr (df_all ex_defragmenter) = mset (map dpAddr ex_defrag_packets) \<and>
    mset (map specAddr (freeAdditionalFragSpecs ex_defragmenter)) + sum_mset (image_mset dp_nodes (df_all ex_defragmenter)) =
      mset (map specAddr ex_frag_nodes) \<and>
    pool_avail (packetPool ex_pools) + sum_mset (image_mset dp_held (df_all ex_defragmenter)) +
      image_mset (\<lambda>(k, pk). pktAddr pk) {#} = pool_avail (packetPool ex_pools) \<and>
    pool_avail (iovPool ex_pools) + sum_mset (image_mset dp_chunks (df_all ex_defragmenter)) +
      sum_mset (image_mset (\<lambda>(k, pk). chain_addrs (firstPayloadIov pk)) {#}) = pool_avail (iovPool ex_pools)"
  using reassembly_conserves [OF ex_defrag_idle ex_reach] by simp

text \<open>C8: No operation of the defragmenter reads or writes outside a buffer or a list, on any frame that the
  frame layer accepts and in any state that can be reached: each of them returns.\<close>

theorem reassembly_defined:
  assumes "\<forall>p \<in> set arr. dp_idle p" "df_reach arr nodes s0 orig state s out"
    and "mesh_addrs_ok h" "unat (fragSize (hdrFrag h)) \<le> 32767" "frame_fits dm sm ip f" "frag_frame f h bs"
  shows "(\<exists>state' s' r. whip6_lowpanDefragmenterFindExistingOrAllocateNewPacketAndLockIt pools state s f h now =
        Some (state', s', r)) \<and>
    (\<forall>a. (\<forall>p \<in> set (dfLocked state). dpAddr p = a \<longrightarrow> dpTotalSize p = fragSize (hdrFrag h)) \<longrightarrow>
       whip6_lowpanFrameHeadersHasFragHeader h \<longrightarrow>
       (\<exists>state' s' r. whip6_lowpanDefragmenterPassFrameWithIpv6PacketFragment pools state s f h a =
          Some (state', s', r))) \<and>
    (\<exists>s' r. whip6_lowpanDefragmenterPassFrameWithEntireIpv6Packet pools s f h = Some (s', r))"
proof -
  have t: "df_typed state" using df_reach_inv [OF assms(1,2)] by (simp add: df_inv_def)
  have "\<exists>state' s' r. whip6_lowpanDefragmenterPassFrameWithIpv6PacketFragment pools state s f h a = Some (state', s', r)"
    if a: "\<forall>p \<in> set (dfLocked state). dpAddr p = a \<longrightarrow> dpTotalSize p = fragSize (hdrFrag h)"
      and h: "whip6_lowpanFrameHeadersHasFragHeader h" for a
  proof (cases "defrag_unlink_loop (dfLocked state) a")
    case None
    then show ?thesis using unlink_None pass_unlocked by metis
  next
    case (Some x)
    then obtain p rest where l: "defrag_unlink_loop (dfLocked state) a = Some (p, rest)" by (cases x) auto
    have "fragSize (hdrFrag h) = dpTotalSize p" using a unlink_Some [OF l] unlink_set [OF l] by auto
    then show ?thesis using pkt.pass_ok [OF TrueI t l assms(6) h, of s "{#}"] by blast
  qed
  then show ?thesis
    using pkt.find_ok [OF TrueI t assms(3-5), of s now "{#}"] pkt.entire_ok [OF TrueI assms(6), of s] by blast
qed

lemma ex_frag_frame_carries: "frag_frame ex_frag_frame ex_frag_headers (replicate 24 5)"
proof -
  have "whip6_ieee154DFrameGetPayloadLen ex_frag_frame = Some 24" "fr_pay 2 3 False = 16"
    by (simp_all add: ex_frag_frame_def fr_info_def fr_defs whip6_ieee154DFrameGetPayloadLen_def frame_get_def)
  then show ?thesis using ex_frag_frame_fits unfolding frag_frame_def
    by (intro exI [of _ 2] exI [of _ 3] exI [of _ False] exI [of _ 24])
      (simp add: frame_fits_def ex_frag_headers_def holds_at_def mem_range_def ex_frag_frame_def fr_info_def)
qed

theorem reassembly_defined_witness:
  "(\<exists>state' s' r. whip6_lowpanDefragmenterFindExistingOrAllocateNewPacketAndLockIt pools ex_defragmenter ex_pools
      ex_frag_frame ex_frag_headers 3 = Some (state', s', r)) \<and>
    (\<exists>s' r. whip6_lowpanDefragmenterPassFrameWithEntireIpv6Packet pools ex_pools ex_frag_frame ex_frag_headers = Some (s', r))"
proof -
  have "mesh_addrs_ok ex_frag_headers" "unat (fragSize (hdrFrag ex_frag_headers)) \<le> 32767"
    by (simp_all add: ex_frag_headers_def mesh_addrs_ok_def ex_link_addr_def addr_ok_def)
  from reassembly_defined [OF ex_defrag_idle ex_reach this ex_frag_frame_fits ex_frag_frame_carries] show ?thesis by blast
qed

text \<open>C9: The periodic time-out: with a locked packet it refuses and changes nothing; otherwise it keeps
  exactly the packets younger than the time-out (the age computed modulo \<open>2\<^sup>3\<^sup>2\<close>, so that it is right
  across the wrap-around of the clock).\<close>

theorem reassembly_timeout:
  assumes "\<forall>p \<in> set arr. dp_idle p" "df_reach arr nodes s0 orig state s out"
    and "whip6_lowpanDefragmenterPeriodicTimeout pools state s now tmo = (state', s', status)"
  shows "if dfLocked state = []
    then status = WHIP6_NO_ERROR \<and> dfCurrent state' = filter (\<lambda>p. now - defragStartTime p < tmo) (dfCurrent state) \<and>
      dfLocked state' = []
    else status = WHIP6_STATE_ERROR \<and> state' = state \<and> s' = s"
proof -
  have t: "df_typed state" using df_reach_inv [OF assms(1,2)] by (simp add: df_inv_def)
  then show ?thesis using pkt.timeout_ok [OF TrueI t assms(3)] by blast
qed

theorem reassembly_timeout_witness:
  "\<exists>state' s'. whip6_lowpanDefragmenterPeriodicTimeout pools ex_defragmenter ex_pools 5 3 = (state', s', WHIP6_NO_ERROR) \<and>
     dfCurrent state' = []"
proof -
  obtain state' s' status where r: "whip6_lowpanDefragmenterPeriodicTimeout pools ex_defragmenter ex_pools 5 3 = (state', s', status)"
    using prod_cases3 by blast
  show ?thesis using reassembly_timeout [OF ex_defrag_idle ex_reach r] r by (simp add: ex_defragmenter_eq)
qed

text \<open>C10: Terminating all reassemblies is the periodic time-out of zero at any time: the same packets are
  destroyed in the same order, with the same refusal while a packet is locked.\<close>

theorem reassembly_terminate:
  "whip6_lowpanDefragmenterTerminateAllReassemblies pools state s =
     whip6_lowpanDefragmenterPeriodicTimeout pools state s now 0"
  by (rule pkt.terminate_eq)

text \<open>C11: A packet that fits in one frame is delivered exactly when the frame is within a PAN, has no fragmentation header, and
  carries the dispatch byte of an uncompressed IPv6 header and a packet whose length field agrees with its length,
  unless the pools have no packet or too few chunks for the payload. The packet that is delivered has exactly the bytes
  behind the dispatch byte, and the pools no longer have its prototype and its chunks; when none is delivered they
  have what they had.\<close>

theorem entire_packet:
  assumes "frag_frame f h bs" "IOV_BLIST_SIZE (iovPool s) < CHUNK_SIZE (iovPool s)"
  shows "\<exists>s' r. whip6_lowpanDefragmenterPassFrameWithEntireIpv6Packet pools s f h = Some (s', r) \<and>
    (case r of
       None \<Rightarrow> pool_avail (iovPool s') = pool_avail (iovPool s) \<and> pool_avail (packetPool s') = pool_avail (packetPool s) \<and>
         (m_chunkFree (packetPool s) \<noteq> [] \<and>
            length bs - 41 \<le> length (m_chunkFree (iovPool s)) * (CHUNK_SIZE (iovPool s) - IOV_BLIST_SIZE (iovPool s)) \<longrightarrow>
          \<not> entire_frame f h bs)
     | Some pk \<Rightarrow> pool_avail (iovPool s') + chain_addrs (firstPayloadIov pk) = pool_avail (iovPool s) \<and>
         pool_avail (packetPool s) = add_mset (pktAddr pk) (pool_avail (packetPool s')) \<and>
         entire_frame f h bs \<and> bs = 0x41 # pkt_bytes pk \<and>
         40 + unat (whip6_ipv6BasicHeaderGetPayloadLength (pktHeader pk)) = length (pkt_bytes pk))"
proof -
  have len: "length bs < 256" using assms(1)
  proof (rule frag_frameE)
    fix len assume "unat (len - nextOffset h) = length bs"
    then show ?thesis using unat_u8_less [of "len - nextOffset h"] by simp
  qed
  then have n: "unat (of_nat (length bs - 41) :: u16) = length bs - 41" by (intro unat_u16_of_nat) simp
  have "\<exists>s1 pk. whip6_ipv6AllocatePacket pools s (of_nat (length bs - 41)) = Some (s1, Some pk)"
    if "m_chunkFree (packetPool s) \<noteq> []"
      "length bs - 41 \<le> length (m_chunkFree (iovPool s)) * (CHUNK_SIZE (iovPool s) - IOV_BLIST_SIZE (iovPool s))"
    using alloc_packet_succeeds [OF that(1) assms(2), of "of_nat (length bs - 41)"] that(2) n by simp
  then show ?thesis
    using pkt.entire_ok [OF TrueI assms(1), of s] by (fastforce split: option.splits)
qed

text \<open>A frame with a packet of two bytes behind its header.\<close>

definition ex_datagram_bytes :: "u8 list" where
  "ex_datagram_bytes = [0x60, 0, 0, 0, 0, 2, 17, 64] @ replicate 32 1 @ [8, 9]"

definition ex_entire_frame :: ieee154_dframe_info where
  "ex_entire_frame = fr_info 2 3 False ([58] @ replicate 15 0 @ 0x41 # ex_datagram_bytes) 59"

definition ex_entire_headers :: lowpan_unpacked_frame_headers where
  "ex_entire_headers = ex_frag_headers\<lparr>bitmap := 0\<rparr>"

lemma ex_entire_frame_carries: "frag_frame ex_entire_frame ex_entire_headers (0x41 # ex_datagram_bytes)"
proof -
  have "frame_layout 2 3 False ex_entire_frame"
    using fr_info_layout [of 2 3 False "[58] @ replicate 15 0 @ 0x41 # ex_datagram_bytes" 59]
    by (simp add: ex_entire_frame_def addr_mode_ok_def ex_datagram_bytes_def)
  moreover have "whip6_ieee154DFrameGetPayloadLen ex_entire_frame = Some 43" "fr_pay 2 3 False = 16"
    by (simp_all add: ex_entire_frame_def fr_info_def fr_defs whip6_ieee154DFrameGetPayloadLen_def frame_get_def)
  ultimately show ?thesis unfolding frag_frame_def
    by (intro exI [of _ 2] exI [of _ 3] exI [of _ False] exI [of _ 43])
      (simp add: ex_entire_headers_def ex_frag_headers_def holds_at_def mem_range_def ex_entire_frame_def fr_info_def
        ex_datagram_bytes_def)
qed

theorem entire_packet_witness:
  "\<exists>s' pk. whip6_lowpanDefragmenterPassFrameWithEntireIpv6Packet pools ex_pools ex_entire_frame ex_entire_headers =
     Some (s', Some pk) \<and> pkt_bytes pk = ex_datagram_bytes"
proof -
  have "whip6_ieee154DFrameIsInterPan ex_entire_frame = False"
    by (simp add: ex_entire_frame_def fr_info_def fr_defs fr_flags_def whip6_ieee154DFrameIsInterPan_def
        IEEE154_DFRAME_INFO_FLAG_INTER_PAN_def)
  then have e: "entire_frame ex_entire_frame ex_entire_headers (0x41 # ex_datagram_bytes)"
    by (simp add: entire_frame_def ex_entire_headers_def ex_frag_headers_def ex_datagram_bytes_def
        whip6_lowpanFrameHeadersHasFragHeader_def)
  have "IOV_BLIST_SIZE (iovPool ex_pools) < CHUNK_SIZE (iovPool ex_pools)" "m_chunkFree (packetPool ex_pools) \<noteq> []"
    "length (0x41 # ex_datagram_bytes) - 41 \<le>
      length (m_chunkFree (iovPool ex_pools)) * (CHUNK_SIZE (iovPool ex_pools) - IOV_BLIST_SIZE (iovPool ex_pools))"
    by (simp_all add: ex_pools_def pool_init_def numeral_eq_Suc ex_datagram_bytes_def)
  with entire_packet [OF ex_entire_frame_carries this(1)] e show ?thesis by (fastforce split: option.splits)
qed

end
