(* ===== verification/Lowpan_ReassemblyLive.thy ===== *)
theory Lowpan_ReassemblyLive
  imports Lowpan_Reassembly
begin

text \<open>
  When a packet is delivered: the parts of a datagram, received in any order and repeatedly,
  are delivered by the one that completes them.
\<close>

section \<open>Parts of a datagram\<close>

text \<open>Parts \<open>(off, n)\<close> that make up \<open>L\<close> bytes, all but the last of a length divisible by 8.\<close>

definition part_set :: "nat \<times> nat \<Rightarrow> nat set" where
  "part_set x = {fst x..<fst x + snd x}"

definition parts_ok :: "nat \<Rightarrow> (nat \<times> nat) set \<Rightarrow> bool" where
  "parts_ok L parts \<longleftrightarrow> finite parts \<and> \<Union> (part_set ` parts) = {0..<L} \<and>
     (\<forall>x \<in> parts. 0 < snd x \<and> (8 dvd snd x \<or> fst x + snd x = L)) \<and>
     (\<forall>x \<in> parts. \<forall>y \<in> parts. x \<noteq> y \<longrightarrow> part_set x \<inter> part_set y = {})"

lemma parts_cover_full:
  assumes "parts_ok L parts" "got \<subseteq> parts"
  shows "\<Union> (part_set ` got) = {0..<L} \<longleftrightarrow> got = parts"
proof
  assume full: "\<Union> (part_set ` got) = {0..<L}"
  show "got = parts"
  proof (rule ccontr)
    assume "got \<noteq> parts"
    then obtain x where x: "x \<in> parts" "x \<notin> got" using assms(2) by blast
    then have "fst x \<in> part_set x" using assms(1) by (auto simp: parts_ok_def part_set_def)
    moreover have "part_set x \<subseteq> {0..<L}" using assms(1) x(1) unfolding parts_ok_def by blast
    ultimately have "fst x \<in> \<Union> (part_set ` got)" using full by auto
    then obtain y where y: "y \<in> got" "fst x \<in> part_set y" by auto
    then have "part_set x \<inter> part_set y = {}" using assms x unfolding parts_ok_def by (metis subsetD)
    then show False using \<open>fst x \<in> part_set x\<close> y(2) by auto
  qed
qed (use assms in \<open>simp add: parts_ok_def\<close>)

lemma interval_in_spec:
  assumes "specs_sep specs" "{a..<b} \<subseteq> spec_cover specs" "a < b"
  shows "\<exists>t \<in> set specs. {a..<b} \<subseteq> spec_set t"
proof -
  have "a \<in> spec_cover specs" using assms by auto
  then obtain t where t: "t \<in> set specs" "a \<in> spec_set t" by (auto simp: spec_cover_def)
  have "b \<le> spec_end t"
  proof (rule ccontr)
    assume "\<not> b \<le> spec_end t"
    then have "spec_end t \<in> spec_cover specs" using assms(2) t(2) by (auto simp: spec_set_def subset_iff)
    then obtain u where u: "u \<in> set specs" "spec_end t \<in> spec_set u" by (auto simp: spec_cover_def)
    have ne: "t \<noteq> u" using u(2) by (auto simp: spec_set_def)
    have "spec_end t < unat (specOffset u) \<or> spec_end u < unat (specOffset t)"
      using assms(1) t(1) u(1) ne
    proof (induction specs)
      case (Cons s ss)
      then show ?case by (cases "t = s"; cases "u = s") auto
    qed simp
    then show False using t(2) u(2) by (auto simp: spec_set_def)
  qed
  then show ?thesis using t by (auto simp: spec_set_def)
qed

lemma complete_iff_cover:
  assumes "specs_in L specs" "specs_sep specs" "0 < L"
  shows "specOffset (hd specs) = 0 \<and> unat (specSize (hd specs)) = L \<longleftrightarrow> spec_cover specs = {0..<L}"
proof -
  obtain s ss where s: "specs = s # ss" using specs_in_ne [OF assms(1)] by (cases specs) auto
  have o: "specOffset s = 0" "spec_end s \<le> L" "\<forall>t \<in> set ss. spec_end t \<le> L"
    using assms(1) s by (auto simp: specs_in_def)
  have e: "spec_end s = unat (specSize s)" using o(1) by (simp add: spec_end_def)
  have sub: "spec_cover specs \<subseteq> {0..<L}"
    using o s by (auto simp: spec_cover_def spec_set_def)
  show ?thesis
  proof
    assume "specOffset (hd specs) = 0 \<and> unat (specSize (hd specs)) = L"
    then have "spec_set s = {0..<L}" using s e by (simp add: spec_set_def)
    then show "spec_cover specs = {0..<L}" using sub s by auto
  next
    assume full: "spec_cover specs = {0..<L}"
    have "L \<le> spec_end s"
    proof (rule ccontr)
      assume "\<not> L \<le> spec_end s"
      then have "spec_end s \<in> spec_cover specs" using full by auto
      then obtain t where "t \<in> set ss" "spec_end s \<in> spec_set t" using s by (auto simp: spec_cover_def spec_set_def)
      then show False using assms(2) s by (auto simp: spec_set_def)
    qed
    then show "specOffset (hd specs) = 0 \<and> unat (specSize (hd specs)) = L" using o e s by simp
  qed
qed

text \<open>Every additional specification starts where a part starts.\<close>

lemma specs_le_parts:
  assumes "specs_in L specs" "specs_sep specs" "spec_cover specs = \<Union> (part_set ` got)" "finite got"
  shows "length (tl specs) \<le> card got"
proof -
  obtain s ss where s: "specs = s # ss" using specs_in_ne [OF assms(1)] by (cases specs) auto
  have start: "unat (specOffset t) \<in> fst ` got" if t: "t \<in> set ss" for t
  proof -
    have pos: "unat (specOffset t) < spec_end t" using assms(1) s t by (intro spec_set_nonempty) (auto simp: specs_in_def)
    then have "unat (specOffset t) \<in> spec_cover specs" using s t by (auto simp: spec_cover_def spec_set_def)
    then obtain x where x: "x \<in> got" "unat (specOffset t) \<in> part_set x" using assms(3) by auto
    have "fst x = unat (specOffset t)"
    proof (rule ccontr)
      assume ne: "fst x \<noteq> unat (specOffset t)"
      have sub: "{fst x..<fst x + snd x} \<subseteq> spec_cover specs" using assms(3) x(1) by (auto simp: part_set_def)
      have "fst x < fst x + snd x" using x(2) by (auto simp: part_set_def)
      from interval_in_spec [OF assms(2) sub this] obtain u where u: "u \<in> set specs" "{fst x..<fst x + snd x} \<subseteq> spec_set u"
        by blast
      have m: "unat (specOffset t) \<in> spec_set u" "fst x \<in> spec_set u" using u(2) x(2) by (auto simp: part_set_def)
      have "u = t \<or> spec_end t < unat (specOffset u) \<or> spec_end u < unat (specOffset t)"
        using assms(2) u(1) t unfolding s
      proof (induction ss arbitrary: s)
        case (Cons a ss)
        then show ?case by (cases "u = s"; cases "t = a"; cases "u = a") auto
      qed simp
      then show False using m pos ne x(2) by (auto simp: spec_set_def part_set_def)
    qed
    then show ?thesis using x(1) by force
  qed
  have "distinct (map (\<lambda>t. unat (specOffset t)) ss)"
  proof -
    have "specs_sep ss" "\<forall>t \<in> set ss. unat (specOffset t) \<le> spec_end t"
      using assms(2) s by (simp_all add: offset_le_end)
    then show ?thesis by (induction ss) fastforce+
  qed
  then have "length ss = card (set (map (\<lambda>t. unat (specOffset t)) ss))" by (simp only: distinct_card length_map)
  also have "\<dots> \<le> card (fst ` got)" using start assms(4) by (intro card_mono) auto
  also have "\<dots> \<le> card got" using assms(4) by (rule card_image_le)
  finally show ?thesis using s by simp
qed


section \<open>A packet under reassembly\<close>

text \<open>The headers of a frame belong to the packets with the same key as \<open>key\<close>.\<close>

definition keys_same :: "lowpan_defrag_frag_set_key \<Rightarrow> lowpan_defrag_frag_set_key \<Rightarrow> bool" where
  "keys_same k k' \<longleftrightarrow> keyTag k = keyTag k' \<and> addr_same (srcLinkAddr k) (srcLinkAddr k') \<and>
     addr_same (dstLinkAddr k) (dstLinkAddr k') \<and> commonPanId k = commonPanId k'"

lemma key_same_trans: "keys_same k k' \<Longrightarrow> key_same k h pan \<longleftrightarrow> key_same k' h pan"
  by (auto simp: keys_same_def key_same_def dest: addr_same_trans addr_same_sym)

lemma key_same_fresh: "key_same k h pan \<Longrightarrow> dp_fresh h pan now p \<Longrightarrow> keys_same k (dpKey p)"
  by (simp add: keys_same_def key_same_def dp_fresh_def)

lemma keys_same_both: "key_same k h pan \<Longrightarrow> key_same k' h pan \<Longrightarrow> keys_same k k'"
  by (auto simp: keys_same_def key_same_def dest: addr_same_trans addr_same_sym)

text \<open>The packet holds exactly the parts \<open>got\<close> of the datagram \<open>ref\<close>.\<close>

definition dp_got :: "u8 list \<Rightarrow> (nat \<times> nat) set \<Rightarrow> lowpan_defrag_packet_state \<Rightarrow> bool" where
  "dp_got ref got p \<longleftrightarrow> dp_ok p \<and> unat (dpTotalSize p) = length ref \<and> specs_sep (fragSpecs p) \<and>
     spec_cover (fragSpecs p) = \<Union> (part_set ` got) \<and> dp_content (\<lambda>_. Some ref) p"

text \<open>A frame with headers \<open>h\<close> that carries a part of the datagram \<open>ref\<close> sent under \<open>key\<close>.\<close>

definition carries_part ::
  "lowpan_defrag_frag_set_key \<Rightarrow> u8 list \<Rightarrow> ieee154_dframe_info \<Rightarrow> lowpan_unpacked_frame_headers \<Rightarrow> nat \<times> nat \<Rightarrow> bool" where
  "carries_part key ref f h x \<longleftrightarrow>
     (\<exists>dm sm ip. frame_fits dm sm ip f) \<and> \<not> whip6_ieee154DFrameIsInterPan f \<and>
     whip6_lowpanFrameHeadersHasFragHeader h \<and> mesh_addrs_ok h \<and>
     key_same key h (mem_range (bufferPtr f) 4 2) \<and>
     unat (fragSize (hdrFrag h)) = length ref \<and> unat (fragOffset (hdrFrag h)) = fst x \<and>
     frag_frame f h ((if fst x = 0 then [0x41] else []) @ take (snd x) (drop (fst x) ref))"

lemma part_bytes:
  assumes "fst x + snd x \<le> length ref"
  shows "length (take (snd x) (drop (fst x) ref)) = snd x" "{fst x..<fst x + snd x} = part_set x"
  using assms by (simp_all add: part_set_def)

lemma got_step:
  assumes parts: "parts_ok (length ref) parts" "got \<subseteq> parts" "x \<in> parts"
    and p: "dp_got ref got p"
    and added: "frag_added free p (fst x) (take (snd x) (drop (fst x) ref)) free' p' True"
  shows "dp_got ref (insert x got) p' \<and> dpKey p' = dpKey p \<and>
    (\<exists>pk'. dpPacket p' = Some pk' \<and> (insert x got = parts \<longrightarrow> pkt_bytes pk' = ref)) \<and>
    dp_complete p' = (insert x got = parts) \<and>
    length free' + length (tl (fragSpecs p')) = length free + length (tl (fragSpecs p))"
proof -
  let ?ds = "take (snd x) (drop (fst x) ref)"
  have sub: "part_set x \<subseteq> {0..<length ref}" and pos: "0 < snd x" using parts(1,3) unfolding parts_ok_def by blast+
  then have x: "fst x + snd x \<le> length ref" by (auto simp: part_set_def subset_iff dest: spec [of _ "fst x + snd x - 1"])
  note b = part_bytes [OF x]
  obtain pk pk' where pk: "dpPacket p = Some pk" "dpPacket p' = Some pk'" "packet_ok pk'"
    "pkt_bytes pk' = mem_blit (pkt_bytes pk) (fst x) ?ds"
    using added by (auto simp: frag_added_def)
  have p1: "dp_ok p" "unat (dpTotalSize p) = length ref" "specs_sep (fragSpecs p)"
    "spec_cover (fragSpecs p) = \<Union> (part_set ` got)" "dp_content (\<lambda>_. Some ref) p" using p by (simp_all add: dp_got_def)
  have e: "dpTotalSize p' = dpTotalSize p" "dpKey p' = dpKey p" "specs_in (unat (dpTotalSize p)) (fragSpecs p')"
    using added by (simp_all add: frag_added_def)
  have len: "length (pkt_bytes pk) = length ref" using p1(1,2) pk(1) by (simp add: dp_ok_def)
  have al: "part_set x \<inter> spec_cover (fragSpecs p) = {} \<or>
      (\<exists>t \<in> set (fragSpecs p). part_set x \<subseteq> spec_set t) \<and> take (snd x) (drop (fst x) (pkt_bytes pk)) = ?ds"
  proof (cases "x \<in> got")
    case False
    then have "part_set x \<inter> part_set y = {}" if "y \<in> got" for y
      using that parts unfolding parts_ok_def by (metis subsetD)
    then show ?thesis using p1(4) by auto
  next
    case True
    then have c: "{fst x..<fst x + snd x} \<subseteq> spec_cover (fragSpecs p)" using p1(4) b(2) by auto
    have "take (snd x) (drop (fst x) (pkt_bytes pk)) = ?ds"
    proof (rule nth_equalityI)
      fix i
      assume "i < length (take (snd x) (drop (fst x) (pkt_bytes pk)))"
      then have "i < snd x" "fst x + i \<in> spec_cover (fragSpecs p)" using c by auto
      then show "take (snd x) (drop (fst x) (pkt_bytes pk)) ! i = ?ds ! i"
        using p1(5) pk(1) x len by (simp add: dp_content_def)
    qed (use x len in simp)
    moreover obtain t where "t \<in> set (fragSpecs p)" "{fst x..<fst x + snd x} \<subseteq> spec_set t"
      using interval_in_spec [OF p1(3) c] pos by auto
    ultimately show ?thesis using b(2) by auto
  qed
  have s: "specs_sep (fragSpecs p')" "spec_cover (fragSpecs p') = spec_cover (fragSpecs p) \<union> part_set x"
    using added p1(3) al pk(1) unfolding frag_added_def b by auto
  have c: "dp_content (\<lambda>_. Some ref) p'"
    using x b(1) by (intro content_added [OF p1(5,1) added]) simp
  have ok: "dp_ok p'" using pk e len p1(1,2) x by (simp add: dp_ok_def)
  have got': "dp_got ref (insert x got) p'" using ok e s c p1 by (auto simp: dp_got_def)
  have pos': "0 < length ref" using x pos by linarith
  have full: "dp_complete p' \<longleftrightarrow> insert x got = parts"
  proof -
    have "dp_complete p' \<longleftrightarrow> specOffset (hd (fragSpecs p')) = 0 \<and> unat (specSize (hd (fragSpecs p'))) = length ref"
      using e(1) p1(2) by (auto simp: dp_complete_def word_unat_eq_iff)
    also have "\<dots> \<longleftrightarrow> spec_cover (fragSpecs p') = {0..<length ref}"
      using e(3) p1(2) by (intro complete_iff_cover [OF _ s(1) pos']) simp
    also have "\<dots> \<longleftrightarrow> insert x got = parts"
      using parts_cover_full [OF parts(1), of "insert x got"] parts(2,3) s(2) p1(4) by (simp add: Un_commute)
    finally show ?thesis .
  qed
  have "pkt_bytes pk' = ref" if "insert x got = parts"
    using that full ok pk(2) e(1) p1(2) got'
    by (intro content_complete [OF c _ _ pk(2)]) (auto simp: dp_ok_def dp_got_def specs_in_def)
  moreover have "length free' + length (tl (fragSpecs p')) = length free + length (tl (fragSpecs p))"
  proof -
    have "mset (map specAddr (free' @ tl (fragSpecs p'))) = mset (map specAddr (free @ tl (fragSpecs p)))"
      using added by (simp add: frag_added_def)
    then have "size (mset (map specAddr (free' @ tl (fragSpecs p')))) = size (mset (map specAddr (free @ tl (fragSpecs p))))"
      by (rule arg_cong)
    then show ?thesis by (simp only: size_mset length_map length_append)
  qed
  ultimately show ?thesis using got' full e(2) pk(2) by blast
qed


section \<open>Receiving the parts\<close>

text \<open>Fragment nodes, free or in the packet.\<close>

definition nodes_for :: "lowpan_defrag_global_state \<Rightarrow> lowpan_defrag_packet_state \<Rightarrow> nat" where
  "nodes_for state p = length (freeAdditionalFragSpecs state) + length (tl (fragSpecs p))"

context packet_allocator
begin

lemma pass_part:
  assumes s: "ok s" "df_typed state" and l: "dfLocked state = p # locked"
    and parts: "parts_ok (length ref) parts" "got \<subset> parts" "x \<in> parts"
    and p: "dp_got ref got p" and f: "carries_part key ref f h x" and nodes: "card parts \<le> nodes_for state p"
  shows "\<exists>state' s' r. whip6_lowpanDefragmenterPassFrameWithIpv6PacketFragment A state s f h (dpAddr p) =
      Some (state', s', r) \<and> ok s' \<and> df_typed state' \<and> dfLocked state' = locked \<and>
    (if insert x got = parts
     then (\<exists>pk. r = Some pk \<and> pkt_bytes pk = ref) \<and> dfCurrent state' = dfCurrent state
     else r = None \<and> (\<exists>p'. dfCurrent state' = p' # dfCurrent state \<and> dp_got ref (insert x got) p' \<and>
       dpKey p' = dpKey p \<and> nodes_for state' p' = nodes_for state p))"
proof -
  let ?ds = "take (snd x) (drop (fst x) ref)"
  define bs where "bs = (if fst x = 0 then [0x41] else []) @ ?ds"
  have un: "defrag_unlink_loop (dfLocked state) (dpAddr p) = Some (p, locked)" using l by simp
  have fr: "frag_frame f h bs" "whip6_lowpanFrameHeadersHasFragHeader h" "unat (fragSize (hdrFrag h)) = length ref"
    "unat (fragOffset (hdrFrag h)) = fst x"
    using f by (simp_all add: carries_part_def bs_def)
  have g: "dp_ok p" "unat (dpTotalSize p) = length ref" "specs_sep (fragSpecs p)"
    "spec_cover (fragSpecs p) = \<Union> (part_set ` got)" using p by (simp_all add: dp_got_def)
  have sz: "fragSize (hdrFrag h) = dpTotalSize p" using fr(3) g(2) by (simp add: word_unat_eq_iff)
  have sub: "part_set x \<subseteq> {0..<length ref}" and pos: "0 < snd x" "8 dvd snd x \<or> fst x + snd x = length ref"
    using parts(1,3) unfolding parts_ok_def by blast+
  then have x: "fst x + snd x \<le> length ref" by (auto simp: part_set_def subset_iff dest: spec [of _ "fst x + snd x - 1"])
  note b = part_bytes(1) [OF x]
  have ne: "bs \<noteq> []" "?ds \<noteq> []" using b pos by (auto simp: bs_def)
  have off: "fragOffset (hdrFrag h) = 0 \<longleftrightarrow> fst x = 0" unfolding fr(4) [symmetric] by (simp add: unat_eq_0)
  have data: "frag_data h bs = ?ds" using off by (simp add: frag_data_def bs_def)
  have fits: "frag_fits h p bs"
    unfolding frag_fits_def first_fits_def bs_def off using x b pos ne g(2) fr(4) by auto
  have fin: "finite parts" "finite got" using parts(1,2) finite_subset [of got parts] by (auto simp: parts_ok_def)
  have "length (tl (fragSpecs p)) \<le> card got"
    using g(1,2) fin(2) by (intro specs_le_parts [OF _ g(3,4)]) (auto simp: dp_ok_def)
  moreover have "card got < card parts" by (rule psubset_card_mono [OF fin(1) parts(2)])
  ultimately have free: "freeAdditionalFragSpecs state \<noteq> []" using nodes by (auto simp: nodes_for_def)
  obtain state' s' r free' p' fok where q:
    "whip6_lowpanDefragmenterPassFrameWithIpv6PacketFragment A state s f h (dpAddr p) = Some (state', s', r)"
    "ok s'" "df_typed state'" "dfLocked state' = locked"
    "bs \<noteq> [] \<longrightarrow>
       frag_added (freeAdditionalFragSpecs state) p (unat (fragOffset (hdrFrag h))) (frag_data h bs) free' p' fok \<and>
       (fok \<longrightarrow> frag_fits h p bs) \<and>
       (frag_fits h p bs \<and> (fragOffset (hdrFrag h) = 0 \<or> freeAdditionalFragSpecs state \<noteq> []) \<longrightarrow> fok)"
    "if bs = [] \<or> \<not> fok then r = None \<and> dfCurrent state' = dfCurrent state
     else if dp_complete p' then r = dpPacket p' \<and> dfCurrent state' = dfCurrent state
     else r = None \<and> dfCurrent state' = p' # dfCurrent state \<and> freeAdditionalFragSpecs state' = free'"
    using pass_ok [OF s un fr(1,2) sz] by blast
  have fok: fok using q(5) ne fits free by simp
  have "frag_added (freeAdditionalFragSpecs state) p (fst x) ?ds free' p' True"
    using q(5) ne(1) fok fr(4) data by simp
  note gs = got_step [OF parts(1) psubset_imp_subset [OF parts(2)] parts(3) p this]
  show ?thesis using q(1-4) q(6) ne(1) fok gs by (auto simp: nodes_for_def split: if_splits)
qed

lemma find_hit:
  assumes c: "dfCurrent state = p # rest" "key_ok p" and f: "carries_part key ref f h x" "keys_same key (dpKey p)"
    and sz: "unat (dpTotalSize p) = length ref" "40 \<le> length ref"
  shows "whip6_lowpanDefragmenterFindExistingOrAllocateNewPacketAndLockIt A state s f h now =
    Some (state\<lparr>dfCurrent := rest, dfLocked := p # dfLocked state\<rparr>, s, Some (dpAddr p))"
proof -
  let ?pan = "mem_range (bufferPtr f) 4 2"
  obtain dm sm ip where fit: "frame_fits dm sm ip f" using f(1) by (auto simp: carries_part_def)
  have fr: "\<not> whip6_ieee154DFrameIsInterPan f" "whip6_lowpanFrameHeadersHasFragHeader h" "mesh_addrs_ok h"
    "key_same key h ?pan" "unat (fragSize (hdrFrag h)) = length ref" using f by (simp_all add: carries_part_def)
  have pan: "whip6_ieee154DFrameGetDstPanId f [0, 0] = Some ?pan" by (simp add: frame_readers(3) [OF fit])
  have pl: "length ?pan = 2" using frame_fits_bounds [OF fit] by (intro mem_range_length) simp
  have "key_same (dpKey p) h ?pan" using fr(4) key_same_trans [OF f(2)] by simp
  then have fo: "defrag_find_loop (dfCurrent state) h ?pan = Some (Some (p, rest))"
    using key_matches [OF c(2) fr(3) pl] by (simp add: c(1))
  have "dpTotalSize p = fragSize (hdrFrag h)" using fr(5) sz(1) by (simp add: word_unat_eq_iff)
  then show ?thesis using fr(1,2,5) sz(2) pan fo
    by (simp add: whip6_lowpanDefragmenterFindExistingOrAllocateNewPacketAndLockIt_def IPV6_BASIC_HEADER_SIZE_def)
qed

lemma find_miss:
  assumes s: "ok s" "df_typed state" and f: "carries_part key ref f h x"
    and sz: "40 \<le> length ref" "length ref \<le> 32767"
    and none: "\<forall>p \<in> set (dfCurrent state). \<not> keys_same key (dpKey p)"
    and free: "dfFree state \<noteq> []"
    and al: "whip6_ipv6AllocatePacket A s (of_nat (length ref) - of_nat IPV6_BASIC_HEADER_SIZE) = Some (s1, Some pk)"
  shows "\<exists>state' s' p. whip6_lowpanDefragmenterFindExistingOrAllocateNewPacketAndLockIt A state s f h now =
      Some (state', s', Some (dpAddr p)) \<and> ok s' \<and> df_typed state' \<and> dfCurrent state' = dfCurrent state \<and>
    dfLocked state' = p # dfLocked state \<and> freeAdditionalFragSpecs state' = freeAdditionalFragSpecs state \<and>
    dp_got ref {} p \<and> keys_same key (dpKey p) \<and> length (fragSpecs p) = 1"
proof -
  let ?pan = "mem_range (bufferPtr f) 4 2" and ?sz = "fragSize (hdrFrag h)"
  obtain dm sm ip where fit: "frame_fits dm sm ip f" using f(1) by (auto simp: carries_part_def)
  have fr: "\<not> whip6_ieee154DFrameIsInterPan f" "whip6_lowpanFrameHeadersHasFragHeader h" "mesh_addrs_ok h"
    "key_same key h ?pan" "unat (fragSize (hdrFrag h)) = length ref" using f by (simp_all add: carries_part_def)
  have pan: "whip6_ieee154DFrameGetDstPanId f [0, 0] = Some ?pan" by (simp add: frame_readers(3) [OF fit])
  have pl: "length ?pan = 2" using frame_fits_bounds [OF fit] by (intro mem_range_length) simp
  have szw: "?sz = of_nat (length ref)" using fr(5) by (simp flip: fr(5))
  obtain found where fo: "defrag_find_loop (dfCurrent state) h ?pan = Some found"
    "found = None \<longleftrightarrow> (\<forall>p \<in> set (dfCurrent state). \<not> key_same (dpKey p) h ?pan)"
    using find_loop_total [of "dfCurrent state" h ?pan] s(2) fr(3) pl by (auto simp: df_typed_def)
  have "found = None" using fo(2) none keys_same_both [OF fr(4)] by blast
  with fo have fo: "defrag_find_loop (dfCurrent state) h ?pan = Some None" by simp
  have szn: "40 \<le> unat ?sz" "unat ?sz \<le> 32767" using fr(5) sz by simp_all
  obtain state' s' r where n: "defrag_packet_not_exists A state s h ?pan now = Some (state', s', r)" "ok s'"
    "dfCurrent state' = dfCurrent state" "dfLocked state' = dfLocked state" "df_typed state'"
    "freeAdditionalFragSpecs state' = freeAdditionalFragSpecs state"
    "r = None \<longrightarrow> dfFree state = [] \<or>
      (\<exists>s1. whip6_ipv6AllocatePacket A s (?sz - of_nat IPV6_BASIC_HEADER_SIZE) = Some (s1, None))"
    "case r of
       None \<Rightarrow> df_goods avail pktAvail state' s' {#} = df_goods avail pktAvail state s {#}
     | Some p \<Rightarrow> dp_ok p \<and> key_ok p \<and> dp_fresh h ?pan now p \<and>
         df_goods avail pktAvail (state'\<lparr>dfLocked := p # dfLocked state'\<rparr>) s' {#} = df_goods avail pktAvail state s {#}"
    using not_exists_ok [OF s fr(3) pl szn, of now "{#}"] by blast
  have "r \<noteq> None" using n(7) free al unfolding szw by auto
  then obtain p where p: "r = Some p" "dp_ok p" "key_ok p" "dp_fresh h ?pan now p" using n(8) by auto
  define st where "st = state'\<lparr>dfLocked := p # dfLocked state'\<rparr>"
  have run: "whip6_lowpanDefragmenterFindExistingOrAllocateNewPacketAndLockIt A state s f h now = Some (st, s', Some (dpAddr p))"
    using fr(1,2) szn(1) pan fo n(1) p(1)
    by (simp add: whip6_lowpanDefragmenterFindExistingOrAllocateNewPacketAndLockIt_def IPV6_BASIC_HEADER_SIZE_def st_def)
  have "dp_got ref {} p"
    using p fr(5) by (auto simp: dp_got_def dp_fresh_def dp_content_def spec_set_def spec_end_def)
  moreover have "df_typed st" using n(5) p(2,3) by (auto simp: df_typed_def st_def)
  moreover have "length (fragSpecs p) = 1" using p(4) by (auto simp: dp_fresh_def)
  ultimately show ?thesis using run n(2-6) key_same_fresh [OF fr(4) p(4)]
    by (intro exI [of _ st] exI [of _ s'] exI [of _ p] conjI) (simp_all add: st_def)
qed

end


section \<open>The client\<close>

text \<open>
  What the client (\<open>LoWPANDefragmenterMainPrv.nc\<close>) does with a received frame: unpack the headers into \<open>h0\<close>,
  then either lock the packet the fragment belongs to and pass the frame to it, or pass a frame
  that holds an entire packet.
\<close>

definition defrag_receive ::
  "'s ipv6_alloc \<Rightarrow> lowpan_defrag_global_state \<Rightarrow> 's \<Rightarrow>
   lowpan_unpacked_frame_headers \<times> ieee154_dframe_info \<times> u32 \<Rightarrow>
   (lowpan_defrag_global_state \<times> 's \<times> ipv6_packet option) option" where
  "defrag_receive A state s = (\<lambda>(h0, f, now).
     do { (h, status) \<leftarrow> whip6_lowpanFrameHeadersUnpack h0 f;
          if status \<noteq> WHIP6_NO_ERROR then Some (state, s, None)
          else
            do { h \<leftarrow> whip6_lowpanDefragmenterCreateVirtualMeshHeaderIfNecessary f h;
                 if whip6_lowpanFrameHeadersHasFragHeader h
                 then
                   do { (state, s, locked) \<leftarrow>
                          whip6_lowpanDefragmenterFindExistingOrAllocateNewPacketAndLockIt A state s f h now;
                        case locked of
                          None \<Rightarrow> Some (state, s, None)
                        | Some a \<Rightarrow> whip6_lowpanDefragmenterPassFrameWithIpv6PacketFragment A state s f h a }
                 else
                   do { (s, r) \<leftarrow> whip6_lowpanDefragmenterPassFrameWithEntireIpv6Packet A s f h;
                        Some (state, s, r) } } })"

fun defrag_receive_all ::
  "'s ipv6_alloc \<Rightarrow> lowpan_defrag_global_state \<Rightarrow> 's \<Rightarrow>
   (lowpan_unpacked_frame_headers \<times> ieee154_dframe_info \<times> u32) list \<Rightarrow>
   (lowpan_defrag_global_state \<times> 's \<times> ipv6_packet option list) option" where
  "defrag_receive_all A state s [] = Some (state, s, [])"
| "defrag_receive_all A state s (x # xs) =
     do { (state, s, r) \<leftarrow> defrag_receive A state s x;
          (state, s, rs) \<leftarrow> defrag_receive_all A state s xs;
          Some (state, s, r # rs) }"

definition frame_part ::
  "lowpan_defrag_frag_set_key \<Rightarrow> u8 list \<Rightarrow> lowpan_unpacked_frame_headers \<times> ieee154_dframe_info \<times> u32 \<Rightarrow>
   nat \<times> nat \<Rightarrow> bool" where
  "frame_part key ref = (\<lambda>(h0, f, now) x. \<exists>h1 h. whip6_lowpanFrameHeadersUnpack h0 f = Some (h1, WHIP6_NO_ERROR) \<and>
     whip6_lowpanDefragmenterCreateVirtualMeshHeaderIfNecessary f h1 = Some h \<and> carries_part key ref f h x)"

text \<open>
  The datagram can be (got is empty) or is being assembled from \<open>parts\<close>, while the packets \<open>rest\<close>
  have other keys.
\<close>

definition reassembling ::
  "'s ipv6_alloc \<Rightarrow> lowpan_defrag_frag_set_key \<Rightarrow> u8 list \<Rightarrow> (nat \<times> nat) set \<Rightarrow> (nat \<times> nat) set \<Rightarrow>
   lowpan_defrag_packet_state list \<Rightarrow> lowpan_defrag_global_state \<Rightarrow> 's \<Rightarrow> bool" where
  "reassembling A key ref parts got rest state s \<longleftrightarrow>
     got = {} \<and> dfCurrent state = rest \<and> (\<forall>p \<in> set rest. \<not> keys_same key (dpKey p)) \<and> dfFree state \<noteq> [] \<and>
       card parts \<le> length (freeAdditionalFragSpecs state) \<and>
       (\<exists>s1 pk. whip6_ipv6AllocatePacket A s (of_nat (length ref) - of_nat IPV6_BASIC_HEADER_SIZE) = Some (s1, Some pk)) \<or>
     (\<exists>p. dfCurrent state = p # rest \<and> dp_got ref got p \<and> keys_same key (dpKey p) \<and> card parts \<le> nodes_for state p)"

context packet_allocator
begin

lemma receive_part:
  assumes s: "ok s" "df_typed state" and parts: "parts_ok (length ref) parts" "got \<subset> parts" "x \<in> parts"
    and r: "reassembling A key ref parts got rest state s"
    and f: "frame_part key ref fr x" and sz: "40 \<le> length ref" "length ref \<le> 32767"
  shows "\<exists>state' s' r. defrag_receive A state s fr = Some (state', s', r) \<and> ok s' \<and> df_typed state' \<and>
    dfLocked state' = dfLocked state \<and>
    (if insert x got = parts then (\<exists>pk. r = Some pk \<and> pkt_bytes pk = ref) \<and> dfCurrent state' = rest
     else r = None \<and> reassembling A key ref parts (insert x got) rest state' s')"
proof -
  obtain h0 g now h1 h where h: "fr = (h0, g, now)" "whip6_lowpanFrameHeadersUnpack h0 g = Some (h1, WHIP6_NO_ERROR)"
    "whip6_lowpanDefragmenterCreateVirtualMeshHeaderIfNecessary g h1 = Some h" "carries_part key ref g h x"
    using f by (cases fr) (auto simp: frame_part_def)
  have has: "whip6_lowpanFrameHeadersHasFragHeader h" using h(4) by (simp add: carries_part_def)
  have "\<exists>st1 s1 p. whip6_lowpanDefragmenterFindExistingOrAllocateNewPacketAndLockIt A state s g h now =
      Some (st1, s1, Some (dpAddr p)) \<and> ok s1 \<and> df_typed st1 \<and> dfCurrent st1 = rest \<and>
      dfLocked st1 = p # dfLocked state \<and> dp_got ref got p \<and> keys_same key (dpKey p) \<and> card parts \<le> nodes_for st1 p"
    using r unfolding reassembling_def
  proof (elim disjE exE conjE)
    fix s1 pk
    assume a: "got = {}" "dfCurrent state = rest" "\<forall>p \<in> set rest. \<not> keys_same key (dpKey p)" "dfFree state \<noteq> []"
      "card parts \<le> length (freeAdditionalFragSpecs state)"
      "whip6_ipv6AllocatePacket A s (of_nat (length ref) - of_nat IPV6_BASIC_HEADER_SIZE) = Some (s1, Some pk)"
    then show ?thesis using find_miss [OF s h(4) sz _ a(4,6), of now] by (fastforce simp: nodes_for_def)
  next
    fix p
    assume a: "dfCurrent state = p # rest" "dp_got ref got p" "keys_same key (dpKey p)" "card parts \<le> nodes_for state p"
    have k: "key_ok p" using s(2) a(1) by (simp add: df_typed_def)
    have "unat (dpTotalSize p) = length ref" using a(2) by (simp add: dp_got_def)
    note hit = find_hit [OF a(1) k h(4) a(3) this sz(1)]
    have "df_typed (state\<lparr>dfCurrent := rest, dfLocked := p # dfLocked state\<rparr>)" using s(2) a(1) by (auto simp: df_typed_def)
    then show ?thesis using hit a s(1)
      by (intro exI [of _ "state\<lparr>dfCurrent := rest, dfLocked := p # dfLocked state\<rparr>"] exI [of _ s] exI [of _ p] conjI)
        (simp_all add: nodes_for_def)
  qed
  then obtain st1 s1 p where find: "whip6_lowpanDefragmenterFindExistingOrAllocateNewPacketAndLockIt A state s g h now =
      Some (st1, s1, Some (dpAddr p))" "ok s1" "df_typed st1" "dfCurrent st1 = rest" "dfLocked st1 = p # dfLocked state"
      "dp_got ref got p" "keys_same key (dpKey p)" "card parts \<le> nodes_for st1 p" by blast
  have run: "defrag_receive A state s fr =
      whip6_lowpanDefragmenterPassFrameWithIpv6PacketFragment A st1 s1 g h (dpAddr p)"
    by (simp add: defrag_receive_def h(1-3) has find(1))
  obtain st2 s2 r2 where pass: "whip6_lowpanDefragmenterPassFrameWithIpv6PacketFragment A st1 s1 g h (dpAddr p) = Some (st2, s2, r2)"
    "ok s2" "df_typed st2" "dfLocked st2 = dfLocked state"
    "if insert x got = parts
     then (\<exists>pk. r2 = Some pk \<and> pkt_bytes pk = ref) \<and> dfCurrent st2 = dfCurrent st1
     else r2 = None \<and> (\<exists>p'. dfCurrent st2 = p' # dfCurrent st1 \<and> dp_got ref (insert x got) p' \<and>
       dpKey p' = dpKey p \<and> nodes_for st2 p' = nodes_for st1 p)"
    using pass_part [OF find(2,3,5) parts find(6) h(4) find(8)] by blast
  show ?thesis using pass find(4,7,8) unfolding run reassembling_def by (auto split: if_splits)
qed

lemma receive_parts:
  assumes sz: "40 \<le> length ref" "length ref \<le> 32767" and parts: "parts_ok (length ref) parts"
  shows "ok s \<Longrightarrow> df_typed state \<Longrightarrow> reassembling A key ref parts got rest state s \<Longrightarrow>
    list_all2 (frame_part key ref) fs xs \<Longrightarrow> xs \<noteq> [] \<Longrightarrow> got \<union> set xs = parts \<Longrightarrow> got \<union> set (butlast xs) \<noteq> parts \<Longrightarrow>
    \<exists>state' s' pk. defrag_receive_all A state s fs = Some (state', s', replicate (length xs - 1) None @ [Some pk]) \<and>
      pkt_bytes pk = ref \<and> ok s' \<and> df_typed state' \<and> dfCurrent state' = rest \<and> dfLocked state' = dfLocked state"
proof (induction xs arbitrary: fs got state s)
  case (Cons x xs)
  then obtain fr fs' where fs: "fs = fr # fs'" "frame_part key ref fr x" "list_all2 (frame_part key ref) fs' xs"
    by (auto simp: list_all2_Cons2)
  have sub: "got \<subseteq> parts" "x \<in> parts" "set xs \<subseteq> parts" using Cons.prems(6) by auto
  have bl: "set (butlast (x # xs)) \<subseteq> parts" using sub(2,3) in_set_butlastD [of _ "x # xs"] by fastforce
  have "got \<noteq> parts" using Cons.prems(7) bl by blast
  then have got: "got \<subset> parts" "x \<in> parts" using sub by blast+
  obtain st1 s1 r where one: "defrag_receive A state s fr = Some (st1, s1, r)" "ok s1" "df_typed st1"
    "dfLocked st1 = dfLocked state"
    "if insert x got = parts then (\<exists>pk. r = Some pk \<and> pkt_bytes pk = ref) \<and> dfCurrent st1 = rest
     else r = None \<and> reassembling A key ref parts (insert x got) rest st1 s1"
    using receive_part [OF Cons.prems(1,2) parts got Cons.prems(3) fs(2) sz] by blast
  show ?case
  proof (cases "xs = []")
    case True
    then show ?thesis using one fs Cons.prems(6) by (auto simp: list_all2_Nil2)
  next
    case False
    then have ih: "insert x got \<union> set (butlast xs) \<noteq> parts" "insert x got \<union> set xs = parts"
      using Cons.prems(6,7) by simp_all
    have "insert x got \<noteq> parts"
    proof
      assume "insert x got = parts"
      then show False using ih(1) bl False by auto
    qed
    with ih obtain st2 s2 pk where "defrag_receive_all A st1 s1 fs' =
        Some (st2, s2, replicate (length xs - 1) None @ [Some pk])" "pkt_bytes pk = ref" "ok s2" "df_typed st2"
        "dfCurrent st2 = rest" "dfLocked st2 = dfLocked st1" and r: "r = None"
      using Cons.IH [OF one(2,3) _ fs(3) False ih(2,1)] one(5) by auto
    moreover have "replicate (length (x # xs) - 1) (None :: ipv6_packet option) = None # replicate (length xs - 1) None"
      using False by (cases xs) simp_all
    ultimately show ?thesis using one(1,4) fs(1) by simp
  qed
qed simp

end
section \<open>Properties\<close>

text \<open>C2: What the defragmenter delivers is what was sent. If all fragments passed for a key carry their
  parts of one datagram (in any order, repeated, overlapping, with frames for other keys, failures,
  time-outs and restarts in between), then every packet delivered for the key is that datagram.\<close>

theorem reassembly_delivers:
  assumes "\<forall>p \<in> set arr. dp_idle p" "df_reach arr nodes s0 orig state s out"
    and "(Some k, pk) \<in># out" "orig k = Some ref"
  shows "pkt_bytes pk = ref"
  using df_reach_inv [OF assms(1,2)] assms(3,4) by (auto simp: df_inv_def)

definition ex_datagram :: "u8 list" where
  "ex_datagram = replicate 40 1"

definition ex_whole_frame :: ieee154_dframe_info where
  "ex_whole_frame = fr_info 2 3 False ([56] @ replicate 15 0 @ 0x41 # ex_datagram) 57"

definition ex_whole_headers :: lowpan_unpacked_frame_headers where
  "ex_whole_headers = ex_frag_headers\<lparr>hdrFrag := \<lparr>fragTag = 7, fragSize = 40, fragOffset = 0\<rparr>\<rparr>"

definition ex_key :: lowpan_defrag_frag_set_key where
  "ex_key = \<lparr>keyTag = 7, srcLinkAddr = ex_link_addr 3, dstLinkAddr = ex_link_addr 2, commonPanId = [0, 0]\<rparr>"

lemma ex_whole_carries:
  "frame_fits 2 3 False ex_whole_frame" "carries_part ex_key ex_datagram ex_whole_frame ex_whole_headers (0, 40)"
  "mem_range (bufferPtr ex_whole_frame) 4 2 = [0, 0]"
proof -
  show fits: "frame_fits 2 3 False ex_whole_frame"
    using fr_info_layout [of 2 3 False "[56] @ replicate 15 0 @ 0x41 # ex_datagram" 57]
    by (simp add: ex_whole_frame_def frame_fits_def addr_mode_ok_def)
      (simp add: fr_info_def fr_defs ex_datagram_def)
  show pan: "mem_range (bufferPtr ex_whole_frame) 4 2 = [0, 0]"
    by (simp add: ex_whole_frame_def fr_info_def mem_range_def numeral_2_eq_2)
  have "whip6_ieee154DFrameGetPayloadLen ex_whole_frame = Some 41" "fr_pay 2 3 False = 16"
    by (simp_all add: ex_whole_frame_def fr_info_def fr_defs whip6_ieee154DFrameGetPayloadLen_def frame_get_def)
  then have fr: "frag_frame ex_whole_frame ex_whole_headers (0x41 # ex_datagram)"
    using fits unfolding frag_frame_def
    by (intro exI [of _ 2] exI [of _ 3] exI [of _ False] exI [of _ 41])
      (simp add: frame_fits_def ex_whole_headers_def ex_frag_headers_def holds_at_def mem_range_def ex_whole_frame_def
        fr_info_def ex_datagram_def)
  have "\<not> whip6_ieee154DFrameIsInterPan ex_whole_frame"
    using frame_layout_offsets [of 2 3 False ex_whole_frame] fits by (simp add: frame_fits_def)
  then show "carries_part ex_key ex_datagram ex_whole_frame ex_whole_headers (0, 40)"
    using fits fr unfolding carries_part_def pan
    by (auto simp: ex_datagram_def ex_whole_headers_def ex_frag_headers_def ex_key_def key_same_def mesh_addrs_ok_def
        ex_link_addr_def addr_ok_def whip6_lowpanFrameHeadersHasFragHeader_def lowpan_bits)
qed

theorem reassembly_delivers_witness:
  "\<exists>state s k pk. df_reach ex_defrag_packets ex_frag_nodes ex_pools (\<lambda>_. Some ex_datagram) state s {#(Some k, pk)#} \<and>
     pkt_bytes pk = ex_datagram"
proof -
  note c = ex_whole_carries(2)
  have typed: "df_typed ex_defragmenter"
    using df_reach_inv [OF ex_defrag_idle ex_reach, of "\<lambda>_. None"] by (simp add: df_inv_def)
  obtain s1 pk1 where al: "whip6_ipv6AllocatePacket pools ex_pools (of_nat (length ex_datagram) - of_nat IPV6_BASIC_HEADER_SIZE) =
      Some (s1, Some pk1)"
    using alloc_packet_succeeds [of ex_pools "of_nat (length ex_datagram) - of_nat IPV6_BASIC_HEADER_SIZE"]
    by (auto simp: ex_datagram_def IPV6_BASIC_HEADER_SIZE_def ex_pools_def pool_init_def eval_nat_numeral)
  have len: "40 \<le> length ex_datagram" "length ex_datagram \<le> 32767" by (simp_all add: ex_datagram_def)
  obtain st2 s2 p where f: "whip6_lowpanDefragmenterFindExistingOrAllocateNewPacketAndLockIt pools ex_defragmenter ex_pools
      ex_whole_frame ex_whole_headers 3 = Some (st2, s2, Some (dpAddr p))"
    "df_typed st2" "dfLocked st2 = [p]" "dfCurrent st2 = []" "dp_got ex_datagram {} p" "length (fragSpecs p) = 1"
    "freeAdditionalFragSpecs st2 = ex_frag_nodes"
    using pkt.find_miss [OF TrueI typed c len _ _ al, of 3] by (auto simp: ex_defragmenter_eq ex_defrag_packets_def)
  have po: "parts_ok (length ex_datagram) {(0, 40)}" by (auto simp: parts_ok_def part_set_def ex_datagram_def)
  obtain st3 s3 pk where pass: "whip6_lowpanDefragmenterPassFrameWithIpv6PacketFragment pools st2 s2 ex_whole_frame
      ex_whole_headers (dpAddr p) = Some (st3, s3, Some pk)"
    using pkt.pass_part [OF TrueI f(2,3) po _ _ f(5) c, of s2] by (auto simp: nodes_for_def f(7) ex_frag_nodes_def)
  have frag: "frag_frame ex_whole_frame ex_whole_headers (0x41 # ex_datagram)" "whip6_lowpanFrameHeadersHasFragHeader ex_whole_headers"
    "mesh_addrs_ok ex_whole_headers" "unat (fragSize (hdrFrag ex_whole_headers)) = 40"
    using c by (simp_all add: carries_part_def ex_datagram_def)
  have sz: "fragSize (hdrFrag ex_whole_headers) = dpTotalSize p"
    using f(5) frag(4) by (simp add: dp_got_def word_unat_eq_iff ex_datagram_def)
  have honest: "frag_honest ex_datagram ex_whole_headers (0x41 # ex_datagram)"
    by (simp add: frag_honest_def frag_data_def ex_whole_headers_def ex_datagram_def)
  have r2: "df_reach ex_defrag_packets ex_frag_nodes ex_pools (\<lambda>_. Some ex_datagram) st2 s2 {#}"
    using frag(4) by (intro df_find [OF ex_reach frag(3) _ ex_whole_carries(1) f(1)]) simp
  have "df_reach ex_defrag_packets ex_frag_nodes ex_pools (\<lambda>_. Some ex_datagram) st3 s3
      (case Some pk of None \<Rightarrow> {#} | Some pk \<Rightarrow> add_mset (Some (dpKey p), pk) {#})"
    using honest f(3) by (intro df_pass [OF r2 _ frag(1,2) sz _ pass]) auto
  then have r3: "df_reach ex_defrag_packets ex_frag_nodes ex_pools (\<lambda>_. Some ex_datagram) st3 s3 {#(Some (dpKey p), pk)#}"
    by simp
  have "pkt_bytes pk = ex_datagram" by (rule reassembly_delivers [OF ex_defrag_idle r3]) simp_all
  with r3 show ?thesis by blast
qed

end
