(* ===== verification/Lowpan_Fragmentation.thy ===== *)
theory Lowpan_Fragmentation
  imports Lowpan_RawIpv6
begin

text \<open>
  Fragmenting IPv6 packets: \<open>microc/include/6lowpan/uc6LoWPANFragmentation.h\<close> and
  \<open>microc/src/6lowpan/uc6LoWPANFragmentation.c\<close>.

  A token is the state of one packet, named by its address; a list of tokens linked through
  \<open>next\<close> is the list. Operations that get a token pointer read and write the token with that
  address in \<open>currentPackets\<close>; \<open>None\<close> is a dereference outside of it. The structure behind
  \<open>lowpanHdrs\<close> is kept in the token, which is its only user between two calls.
\<close>

record lowpan_frag_packet_state =
  tokAddr :: nat
  tokPacket :: "ipv6_packet option"
  lowpanHdrs :: "lowpan_unpacked_frame_headers option"
  tokFragOffset :: u16
  tokFragTag :: u16

record lowpan_frag_global_state =
  currentPackets :: "lowpan_frag_packet_state list"
  freePackets :: "lowpan_frag_packet_state list"
  tagGenerator :: u16
  fragFlags :: u8

definition WHIP6_LOWPAN_MAX_PACKET_LENGTH :: nat where "WHIP6_LOWPAN_MAX_PACKET_LENGTH = 1280"
definition LOWPAN_WHIP6_USE_IPHC :: u8 where "LOWPAN_WHIP6_USE_IPHC = 1"

section \<open>Packing one fragment\<close>

text \<open>
  The copying of packet bytes into the frame: of the first fragment, of the rest of the header,
  and of the payload.
\<close>

definition frag_copy_first ::
  "ipv6_packet \<Rightarrow> u8 list \<Rightarrow> nat \<Rightarrow> u8 \<Rightarrow> (u8 list \<times> nat \<times> u16) option" where
  "frag_copy_first packet buf payloadPtr payloadLen =
     (if IPV6_BASIC_HEADER_SIZE \<ge> unat payloadLen
      then do { buf \<leftarrow> whip6_shortMemCpy (header_bytes (pktHeader packet)) 0 buf payloadPtr payloadLen;
                Some (buf, payloadPtr + unat payloadLen, ucast payloadLen) }
      else do { buf \<leftarrow> whip6_shortMemCpy (header_bytes (pktHeader packet)) 0 buf payloadPtr
                  (of_nat IPV6_BASIC_HEADER_SIZE);
                let payloadPtr = payloadPtr + IPV6_BASIC_HEADER_SIZE;
                let payloadLen = payloadLen - of_nat IPV6_BASIC_HEADER_SIZE;
                (bufOpt, tmp) \<leftarrow> whip6_iovShortRead (pkt_iov packet) 0 (Some buf) payloadPtr payloadLen;
                buf \<leftarrow> bufOpt;
                Some (buf, payloadPtr + unat tmp, of_nat IPV6_BASIC_HEADER_SIZE + ucast tmp) })"

definition frag_copy_header ::
  "ipv6_packet \<Rightarrow> u16 \<Rightarrow> u8 list \<Rightarrow> nat \<Rightarrow> u8 \<Rightarrow> (u8 list \<times> nat \<times> u8 \<times> u16) option" where
  "frag_copy_header packet off buf payloadPtr payloadLen =
     (if unat off < IPV6_BASIC_HEADER_SIZE
      then do { let maxFragSize = of_nat IPV6_BASIC_HEADER_SIZE - off;
                let tmp = (if maxFragSize < ucast payloadLen then ucast maxFragSize else payloadLen);
                buf \<leftarrow> whip6_shortMemCpy (header_bytes (pktHeader packet)) (unat off) buf payloadPtr tmp;
                Some (buf, payloadPtr + unat tmp, payloadLen - tmp, off + ucast tmp) }
      else Some (buf, payloadPtr, payloadLen, off))"

definition frag_copy_payload ::
  "ipv6_packet \<Rightarrow> u16 \<Rightarrow> u8 list \<Rightarrow> nat \<Rightarrow> u8 \<Rightarrow> (u8 list \<times> nat \<times> u16) option" where
  "frag_copy_payload packet off buf payloadPtr payloadLen =
     (if payloadLen > 0
      then do { (bufOpt, _) \<leftarrow> whip6_iovShortRead (pkt_iov packet) (unat off - IPV6_BASIC_HEADER_SIZE)
                  (Some buf) payloadPtr payloadLen;
                buf \<leftarrow> bufOpt;
                Some (buf, payloadPtr + unat payloadLen, off + ucast payloadLen) }
      else Some (buf, payloadPtr, off))"

definition whip6_lowpanFragmenterPackFirstFragmentWithRawIpv6Header ::
  "lowpan_frag_packet_state \<Rightarrow> ieee154_dframe_info \<Rightarrow>
   (lowpan_frag_packet_state \<times> ieee154_dframe_info \<times> whip6_error) option" where
  "whip6_lowpanFragmenterPackFirstFragmentWithRawIpv6Header token frameInfo =
     do { packet \<leftarrow> tokPacket token;
          hdrs \<leftarrow> lowpanHdrs token;
          let base = whip6_ieee154DFrameUnsafeGetPayloadPtr frameInfo;
          let payloadLen = whip6_ieee154DFrameMaxPayloadLen frameInfo;
          let tmp = nextOffset hdrs;
          if payloadLen \<le> tmp then Some (token, frameInfo, WHIP6_ARGUMENT_ERROR)
          else
            do { let payloadPtr = base + unat tmp;
                 let payloadLen = payloadLen - tmp;
                 buf \<leftarrow> buf_put (bufferPtr frameInfo) payloadPtr LOWPAN_DISPATCH_PATTERN_IPV6;
                 let payloadPtr = payloadPtr + 1;
                 let payloadLen = payloadLen - 1;
                 let maxFragSize = whip6_ipv6BasicHeaderGetPayloadLength (pktHeader packet) +
                   of_nat IPV6_BASIC_HEADER_SIZE;
                 let payloadLen = (if maxFragSize < ucast payloadLen then ucast maxFragSize
                                   else payloadLen AND NOT 0x07);
                 if payloadLen = 0 then Some (token, frameInfo\<lparr>bufferPtr := buf\<rparr>, WHIP6_SIZE_ERROR)
                 else
                   do { (buf, payloadPtr, off) \<leftarrow> frag_copy_first packet buf payloadPtr payloadLen;
                        frameInfo \<leftarrow> whip6_ieee154DFrameSetPayloadLen (frameInfo\<lparr>bufferPtr := buf\<rparr>)
                          (of_nat (payloadPtr - base));
                        Some (token\<lparr>tokFragOffset := off\<rparr>, frameInfo, WHIP6_NO_ERROR) } } }"

definition whip6_lowpanFragmenterPackFirstFragment ::
  "lowpan_frag_packet_state \<Rightarrow> ieee154_dframe_info \<Rightarrow> u8 \<Rightarrow>
   (lowpan_frag_packet_state \<times> ieee154_dframe_info \<times> whip6_error) option" where
  "whip6_lowpanFragmenterPackFirstFragment token frameInfo flags =
     (if (flags AND LOWPAN_WHIP6_USE_IPHC) \<noteq> 0 then Some (token, frameInfo, WHIP6_STATE_ERROR)
      else whip6_lowpanFragmenterPackFirstFragmentWithRawIpv6Header token frameInfo)"

definition whip6_lowpanFragmenterPackSubsequentFragment ::
  "lowpan_frag_packet_state \<Rightarrow> ieee154_dframe_info \<Rightarrow>
   (lowpan_frag_packet_state \<times> ieee154_dframe_info \<times> whip6_error) option" where
  "whip6_lowpanFragmenterPackSubsequentFragment token frameInfo =
     do { packet \<leftarrow> tokPacket token;
          hdrs \<leftarrow> lowpanHdrs token;
          let base = whip6_ieee154DFrameUnsafeGetPayloadPtr frameInfo;
          let payloadLen = whip6_ieee154DFrameMaxPayloadLen frameInfo;
          let tmp = nextOffset hdrs;
          if payloadLen \<le> tmp then Some (token, frameInfo, WHIP6_ARGUMENT_ERROR)
          else
            do { let payloadPtr = base + unat tmp;
                 let payloadLen = payloadLen - tmp;
                 let off = tokFragOffset token;
                 let maxFragSize = whip6_ipv6BasicHeaderGetPayloadLength (pktHeader packet) +
                   of_nat IPV6_BASIC_HEADER_SIZE - off;
                 let payloadLen = (if maxFragSize < ucast payloadLen then ucast maxFragSize
                                   else payloadLen AND NOT 0x07);
                 if payloadLen = 0 then Some (token, frameInfo, WHIP6_SIZE_ERROR)
                 else
                   do { (buf, payloadPtr, payloadLen, off) \<leftarrow>
                          frag_copy_header packet off (bufferPtr frameInfo) payloadPtr payloadLen;
                        (buf, payloadPtr, off) \<leftarrow> frag_copy_payload packet off buf payloadPtr payloadLen;
                        frameInfo \<leftarrow> whip6_ieee154DFrameSetPayloadLen (frameInfo\<lparr>bufferPtr := buf\<rparr>)
                          (of_nat (payloadPtr - base));
                        Some (token\<lparr>tokFragOffset := off\<rparr>, frameInfo, WHIP6_NO_ERROR) } } }"

section \<open>The fragmenter\<close>

text \<open>The array of tokens; their fields but the link are whatever they were.\<close>

fun frag_init_loop :: "lowpan_frag_packet_state list \<Rightarrow> u8 \<Rightarrow> lowpan_frag_packet_state list" where
  "frag_init_loop [] n = []"
| "frag_init_loop (tmp # pktsArr) n = (if n > 0 then tmp # frag_init_loop pktsArr (n - 1) else [])"

definition whip6_lowpanFragmenterInit ::
  "lowpan_frag_packet_state list option \<Rightarrow> u8 \<Rightarrow> lowpan_frag_global_state" where
  "whip6_lowpanFragmenterInit pktsArrPtr pktsArrLen =
     \<lparr>currentPackets = [],
      freePackets = (case pktsArrPtr of
          None \<Rightarrow> []
        | Some pktsArr \<Rightarrow> if pktsArrLen > 0 then frag_init_loop pktsArr pktsArrLen else []),
      tagGenerator = 0, fragFlags = 0\<rparr>"

definition tok_get :: "lowpan_frag_global_state \<Rightarrow> nat \<Rightarrow> lowpan_frag_packet_state option" where
  "tok_get state a = find (\<lambda>t. tokAddr t = a) (currentPackets state)"

definition tok_put :: "lowpan_frag_global_state \<Rightarrow> lowpan_frag_packet_state \<Rightarrow> lowpan_frag_global_state" where
  "tok_put state token =
     state\<lparr>currentPackets := map (\<lambda>t. if tokAddr t = tokAddr token then token else t) (currentPackets state)\<rparr>"

definition whip6_lowpanFragmenterStartFragmentingIpv6Packet ::
  "lowpan_frag_global_state \<Rightarrow> ipv6_packet \<Rightarrow> lowpan_frag_global_state \<times> nat option" where
  "whip6_lowpanFragmenterStartFragmentingIpv6Packet state packet =
     (case freePackets state of
        [] \<Rightarrow> (state, None)
      | token # tnext \<Rightarrow>
          let packetLen = unat (whip6_ipv6BasicHeaderGetPayloadLength (pktHeader packet))
          in if packetLen > WHIP6_LOWPAN_MAX_PACKET_LENGTH - IPV6_BASIC_HEADER_SIZE then (state, None)
             else if packetLen > whip6_iovGetTotalLength (pkt_iov packet) then (state, None)
             else
               let token = token\<lparr>tokPacket := Some packet, lowpanHdrs := None, tokFragOffset := 0,
                                 tokFragTag := tagGenerator state\<rparr>
               in (state\<lparr>freePackets := tnext, tagGenerator := tagGenerator state + 1,
                         currentPackets := token # currentPackets state\<rparr>,
                   Some (tokAddr token)))"

definition whip6_lowpanFragmenterProvideAdditional6LoWPANHeadersForIpv6Packet ::
  "lowpan_frag_global_state \<Rightarrow> nat \<Rightarrow> lowpan_unpacked_frame_headers \<Rightarrow>
   (lowpan_frag_global_state \<times> whip6_error) option" where
  "whip6_lowpanFragmenterProvideAdditional6LoWPANHeadersForIpv6Packet state tok hdrs =
     do { token \<leftarrow> tok_get state tok;
          Some (tok_put state (token\<lparr>lowpanHdrs := Some hdrs\<rparr>), WHIP6_NO_ERROR) }"

definition whip6_lowpanFragmenterDoesNextFragmentOfIpv6PacketExist ::
  "lowpan_frag_global_state \<Rightarrow> nat \<Rightarrow> bool option" where
  "whip6_lowpanFragmenterDoesNextFragmentOfIpv6PacketExist state tok =
     do { token \<leftarrow> tok_get state tok;
          packet \<leftarrow> tokPacket token;
          Some (unat (tokFragOffset token) <
                unat (whip6_ipv6BasicHeaderGetPayloadLength (pktHeader packet)) + IPV6_BASIC_HEADER_SIZE) }"

definition whip6_lowpanFragmenterRequestNextFragmentOfIpv6Packet ::
  "lowpan_frag_global_state \<Rightarrow> nat \<Rightarrow> ieee154_dframe_info \<Rightarrow>
   (lowpan_frag_global_state \<times> ieee154_dframe_info \<times> whip6_error) option" where
  "whip6_lowpanFragmenterRequestNextFragmentOfIpv6Packet state tok frameInfo =
     do { token \<leftarrow> tok_get state tok;
          case lowpanHdrs token of
            None \<Rightarrow> Some (state, frameInfo, WHIP6_STATE_ERROR)
          | Some hdrs \<Rightarrow>
              do { packet \<leftarrow> tokPacket token;
                   let hdrs = whip6_lowpanFrameHeadersAddFragHeader hdrs (tokFragTag token)
                     (whip6_ipv6BasicHeaderGetPayloadLength (pktHeader packet) + of_nat IPV6_BASIC_HEADER_SIZE)
                     (tokFragOffset token);
                   (hdrs, frameInfo, status) \<leftarrow> whip6_lowpanFrameHeadersPack hdrs frameInfo;
                   let token = token\<lparr>lowpanHdrs := Some hdrs\<rparr>;
                   if status \<noteq> WHIP6_NO_ERROR
                   then Some (tok_put state token, frameInfo, WHIP6_ARGUMENT_ERROR)
                   else
                     do { (token, frameInfo, status) \<leftarrow>
                            (if tokFragOffset token = 0
                             then whip6_lowpanFragmenterPackFirstFragment token frameInfo (fragFlags state)
                             else whip6_lowpanFragmenterPackSubsequentFragment token frameInfo);
                          Some (tok_put state token, frameInfo, status) } } }"

fun frag_finish_loop ::
  "lowpan_frag_packet_state list \<Rightarrow> nat \<Rightarrow> (lowpan_frag_packet_state \<times> lowpan_frag_packet_state list) option" where
  "frag_finish_loop [] tok = None"
| "frag_finish_loop (currToken # rest) tok =
     (if tokAddr currToken = tok then Some (currToken, rest)
      else case frag_finish_loop rest tok of
             None \<Rightarrow> None
           | Some (t, rest') \<Rightarrow> Some (t, currToken # rest'))"

definition whip6_lowpanFragmenterFinishFragmentingIpv6Packet ::
  "lowpan_frag_global_state \<Rightarrow> nat \<Rightarrow> lowpan_frag_global_state \<times> ipv6_packet option" where
  "whip6_lowpanFragmenterFinishFragmentingIpv6Packet state tok =
     (case frag_finish_loop (currentPackets state) tok of
        None \<Rightarrow> (state, None)
      | Some (currToken, rest) \<Rightarrow>
          (state\<lparr>currentPackets := rest,
                 freePackets := currToken\<lparr>tokPacket := None, lowpanHdrs := None\<rparr> # freePackets state\<rparr>,
           tokPacket currToken))"

section \<open>Copying packet bytes\<close>

lemma ucast_u8_u16_of_nat: "n < 256 \<Longrightarrow> (ucast (of_nat n :: u8) :: u16) = of_nat n"
  by (rule word_unat_eq_iff [THEN iffD2]) (simp add: unat_u8_of_nat unat_u16_of_nat)

lemma ucast_u16_u8: "unat (w :: u16) < 256 \<Longrightarrow> unat (ucast w :: u8) = unat w"
  by (simp add: unsigned_ucast_eq take_bit_eq_mod)

lemma frag_copy_first_eq:
  assumes p: "packet_ok p" and n: "unat len \<le> length (pkt_bytes p)" and b: "q + unat len \<le> length buf"
  shows "frag_copy_first p buf q len = Some (mem_blit buf q (take (unat len) (pkt_bytes p)), q + unat len, ucast len)"
proof -
  let ?hb = "header_bytes (pktHeader p)" and ?c = "concat (pkt_iov p)"
  have hl: "length ?hb = 40" using p by (simp add: packet_ok_def header_bytes_length)
  show ?thesis
  proof (cases "unat len \<le> 40")
    case True
    have "whip6_shortMemCpy ?hb 0 buf q len = Some (mem_blit buf q (mem_range ?hb 0 (unat len)))"
      using b hl True by (intro shortMemCpy_range) simp_all
    moreover have "mem_range ?hb 0 (unat len) = take (unat len) (pkt_bytes p)"
      using True hl by (simp add: mem_range_def pkt_bytes_def)
    ultimately show ?thesis using True by (simp add: frag_copy_first_def IPV6_BASIC_HEADER_SIZE_def)
  next
    case False
    let ?b1 = "mem_blit buf q ?hb"
    define m where "m = unat len - 40"
    have m: "unat (len - 40) = m" using False unfolding m_def by (subst unat_sub) (simp_all add: word_le_nat_alt)
    have "whip6_shortMemCpy ?hb 0 buf q 40 = Some (mem_blit buf q (mem_range ?hb 0 (unat (40 :: u8))))"
      using b hl False by (intro shortMemCpy_range) simp_all
    then have s1: "whip6_shortMemCpy ?hb 0 buf q 40 = Some ?b1" using hl by (simp add: mem_range_def)
    have lb: "length ?b1 = length buf" using b hl False by simp
    have r: "q + 40 + unat (len - 40) \<le> length ?b1" using b False lb by (simp add: m m_def)
    have mc: "m \<le> length ?c" using n pkt_bytes_length [OF p] by (simp add: m_def)
    have s2: "whip6_iovShortRead (pkt_iov p) 0 (Some ?b1) (q + 40) (len - 40) =
        Some (Some (mem_blit ?b1 (q + 40) (take m ?c)), of_nat m)"
      unfolding iovShortRead_eq [OF r refl] m using mc by simp
    have "mem_blit ?b1 (q + 40) (take m ?c) = mem_blit buf q (?hb @ take m ?c)"
      using b hl mc False by (intro mem_blit_append') (simp_all add: m_def)
    moreover have "?hb @ take m ?c = take (unat len) (pkt_bytes p)"
      using False hl by (simp add: pkt_bytes_def m_def)
    moreover have m256: "m < 256" using unat_u8_less [of len] unfolding m_def by linarith
    have "40 + m = unat len" using False by (simp add: m_def)
    then have "unat (40 + ucast (of_nat m :: u8) :: u16) = unat (ucast len :: u16)"
      using m256 by (simp only: unat_word_ariths(1) unat_ucast_u8_u16 unat_u8_of_nat [OF m256]) simp
    then have "40 + ucast (of_nat m :: u8) = (ucast len :: u16)" by (simp only: word_unat_eq_iff)
    moreover have "unat (of_nat m :: u8) = m" by (rule unat_u8_of_nat [OF m256])
    ultimately show ?thesis using False s1 s2
      by (simp add: frag_copy_first_def IPV6_BASIC_HEADER_SIZE_def) (simp add: m_def)
  qed
qed

lemma frag_copy_payload_eq:
  assumes p: "packet_ok p" and n: "unat off + unat len \<le> length (pkt_bytes p)" and b: "q + unat len \<le> length buf"
    and o: "40 \<le> unat off \<or> len = 0"
  shows "frag_copy_payload p off buf q len =
    Some (mem_blit buf q (take (unat len) (drop (unat off) (pkt_bytes p))), q + unat len, off + ucast len)"
proof (cases "len = 0")
  case True
  then show ?thesis by (simp add: frag_copy_payload_def)
next
  case False
  let ?c = "concat (pkt_iov p)"
  have hl: "length (header_bytes (pktHeader p)) = 40" using p by (simp add: packet_ok_def header_bytes_length)
  have d: "drop (unat off) (pkt_bytes p) = drop (unat off - 40) ?c"
    using o False hl by (simp add: pkt_bytes_def)
  have "0 < len" using False by (simp add: word_gt_0)
  then show ?thesis unfolding d frag_copy_payload_def
    by (simp add: iovShortRead_eq [OF b refl] IPV6_BASIC_HEADER_SIZE_def)
qed

lemma frag_copy_next_eq:
  assumes p: "packet_ok p" and n: "unat off + unat len \<le> length (pkt_bytes p)" and b: "q + unat len \<le> length buf"
    and w: "unat off + unat len < 65536"
  shows "frag_copy_header p off buf q len \<bind> (\<lambda>(buf, q, len, off). frag_copy_payload p off buf q len) =
    Some (mem_blit buf q (take (unat len) (drop (unat off) (pkt_bytes p))), q + unat len, off + ucast len)"
proof (cases "unat off < 40")
  case False
  then show ?thesis using frag_copy_payload_eq [OF p n b]
    by (simp add: frag_copy_header_def IPV6_BASIC_HEADER_SIZE_def)
next
  case True
  let ?hb = "header_bytes (pktHeader p)" and ?c = "concat (pkt_iov p)"
  have hl: "length ?hb = 40" using p by (simp add: packet_ok_def header_bytes_length)
  have u40: "unat (40 - off) = 40 - unat off"
    using True by (subst unat_sub) (simp_all add: word_le_nat_alt)
  define t where "t = (if (40 - off) < ucast len then ucast (40 - off) else len)"
  have ut: "unat t = min (40 - unat off) (unat len)"
    using u40 by (auto simp: t_def word_less_nat_alt ucast_u16_u8)
  have r1: "unat off + unat t \<le> length ?hb" "q + unat t \<le> length buf" using ut hl b True by auto
  define b1 where "b1 = mem_blit buf q (take (unat t) (drop (unat off) ?hb))"
  have lb: "length b1 = length buf" using r1 by (simp add: b1_def)
  have h: "frag_copy_header p off buf q len = Some (b1, q + unat t, len - t, off + ucast t)"
    using True shortMemCpy_range [OF r1]
    by (simp add: frag_copy_header_def IPV6_BASIC_HEADER_SIZE_def t_def [symmetric] b1_def mem_range_def Let_def)
  have ult: "unat (len - t) = unat len - unat t" using ut by (subst unat_sub) (simp_all add: word_le_nat_alt)
  have uo: "unat (off + ucast t) = unat off + unat t"
    using w ut by (simp add: unat_word_ariths(1))
  have "unat t = 40 - unat off \<or> len - t = 0"
    using ut by (auto simp: min_def word_unat_eq_iff ult)
  then have "40 \<le> unat (off + ucast t) \<or> len - t = 0" using uo by auto
  moreover have "unat (off + ucast t) + unat (len - t) \<le> length (pkt_bytes p)"
    "q + unat t + unat (len - t) \<le> length b1" using n b ut lb by (auto simp: uo ult)
  ultimately have pl: "frag_copy_payload p (off + ucast t) b1 (q + unat t) (len - t) =
      Some (mem_blit b1 (q + unat t) (take (unat len - unat t) (drop (unat off + unat t) (pkt_bytes p))),
        q + unat t + (unat len - unat t), off + ucast t + ucast (len - t))"
    using frag_copy_payload_eq [OF p, of "off + ucast t" "len - t" "q + unat t" b1] by (simp only: ult uo)
  have tl: "take (unat t) (drop (unat off) ?hb) = take (unat t) (drop (unat off) (pkt_bytes p))"
    using r1(1) by (simp add: pkt_bytes_def)
  have "mem_blit b1 (q + unat t) (take (unat len - unat t) (drop (unat off + unat t) (pkt_bytes p))) =
      mem_blit buf q (take (unat t) (drop (unat off) (pkt_bytes p)) @
        take (unat len - unat t) (drop (unat t) (drop (unat off) (pkt_bytes p))))"
    unfolding b1_def tl using n b ut by (subst mem_blit_append') (simp_all add: add.commute)
  also have "take (unat t) (drop (unat off) (pkt_bytes p)) @
        take (unat len - unat t) (drop (unat t) (drop (unat off) (pkt_bytes p))) =
      take (unat len) (drop (unat off) (pkt_bytes p))"
  proof -
    have "unat t + (unat len - unat t) = unat len" using ut by simp
    then show ?thesis by (metis take_add)
  qed
  finally have bl: "mem_blit b1 (q + unat t) (take (unat len - unat t) (drop (unat off + unat t) (pkt_bytes p))) =
      mem_blit buf q (take (unat len) (drop (unat off) (pkt_bytes p)))" .
  have "off + ucast t + ucast (len - t) = off + ucast len"
  proof (rule word_unat_eq_iff [THEN iffD2])
    show "unat (off + ucast t + ucast (len - t)) = unat (off + ucast len)"
      using w ut by (simp add: unat_word_ariths(1) ult)
  qed
  then show ?thesis using h pl bl ut by simp
qed

end
