(* ===== verification/Lowpan_FragmentationSpec.thy ===== *)
theory Lowpan_FragmentationSpec
  imports Lowpan_Fragmentation
begin

text \<open>
  What the fragmenter of \<open>uc6LoWPANFragmentation.c\<close> does: each call packs the next part of the
  packet behind the 6LoWPAN headers, and the parts of a whole run put together are the packet.
\<close>

section \<open>One fragment\<close>

text \<open>The packet bytes in a frame with room for \<open>room\<close> of them when \<open>rest\<close> are left.\<close>

definition frag_len :: "nat \<Rightarrow> nat \<Rightarrow> nat" where
  "frag_len room rest = (if rest < room then rest else room - room mod 8)"

lemma frag_len_le: "frag_len room rest \<le> room" "frag_len room rest \<le> rest"
  by (auto simp: frag_len_def intro: le_trans [OF diff_le_self])

lemma frag_len_dvd: "8 dvd frag_len room rest \<or> frag_len room rest = rest"
  unfolding frag_len_def by (simp only: minus_mod_eq_div_mult split: if_split) simp

lemma frag_len_pos: "8 \<le> room \<Longrightarrow> 0 < rest \<Longrightarrow> 0 < frag_len room rest"
  by (auto simp: frag_len_def minus_mod_eq_div_mult div_greater_zero_iff)

definition pkt_total :: "ipv6_packet \<Rightarrow> nat" where
  "pkt_total p = 40 + unat (whip6_ipv6BasicHeaderGetPayloadLength (pktHeader p))"

text \<open>A packet that the fragmenter has accepted.\<close>

definition pkt_sendable :: "ipv6_packet \<Rightarrow> bool" where
  "pkt_sendable p \<longleftrightarrow> packet_ok p \<and> pkt_total p \<le> length (pkt_bytes p) \<and> pkt_total p \<le> 1280"

lemma sendable_word:
  assumes "pkt_sendable p" "unat off \<le> pkt_total p"
  shows "unat (whip6_ipv6BasicHeaderGetPayloadLength (pktHeader p) + of_nat IPV6_BASIC_HEADER_SIZE) = pkt_total p"
    "unat (whip6_ipv6BasicHeaderGetPayloadLength (pktHeader p) + of_nat IPV6_BASIC_HEADER_SIZE - off) = pkt_total p - unat off"
proof -
  let ?w = "whip6_ipv6BasicHeaderGetPayloadLength (pktHeader p) + of_nat IPV6_BASIC_HEADER_SIZE"
  show 1: "unat ?w = pkt_total p"
    using assms(1) by (simp add: pkt_sendable_def pkt_total_def IPV6_BASIC_HEADER_SIZE_def unat_word_ariths(1))
  show "unat (?w - off) = pkt_total p - unat off"
    using assms(2) 1 by (subst unat_sub) (simp_all add: word_le_nat_alt)
qed

lemma frag_len_word:
  assumes "unat rest = r"
  shows "unat (if rest < ucast (room :: u8) then ucast (rest :: u16) else room AND NOT 7) = frag_len (unat room) r"
proof (cases "rest < ucast room")
  case True
  then have "unat rest < unat room" by (simp add: word_less_nat_alt)
  then have "unat rest < 256" using unat_u8_less [of room] by linarith
  with True assms \<open>unat rest < unat room\<close> show ?thesis by (simp add: ucast_u16_u8 frag_len_def)
next
  case False
  then have "\<not> r < unat room" using assms by (simp add: word_less_nat_alt)
  with False show ?thesis by (simp only: if_False unat_and_not7 frag_len_def)
qed

lemma pack_first:
  assumes f: "frame_fits dm sm ip f" and p: "pkt_sendable p"
    and tok: "tokPacket t = Some p" "lowpanHdrs t = Some h"
    and m: "maxLen = whip6_ieee154DFrameMaxPayloadLen f" "nextOffset h < maxLen"
    and n: "n = frag_len (unat maxLen - unat (nextOffset h) - 1) (pkt_total p)" "0 < n"
  shows "\<exists>f'. whip6_lowpanFragmenterPackFirstFragmentWithRawIpv6Header t f =
      Some (t\<lparr>tokFragOffset := of_nat n\<rparr>, f', WHIP6_NO_ERROR) \<and>
    whip6_ieee154DFrameSetPayloadLen
      (frame_blit (fr_pay dm sm ip + unat (nextOffset h)) (0x41 # take n (pkt_bytes p)) f)
      (of_nat (unat (nextOffset h) + 1 + n)) = Some f'"
proof -
  let ?N = "nextOffset h" and ?buf = "bufferPtr f" and ?base = "fr_pay dm sm ip"
  let ?q = "?base + unat ?N"
  have pp: "whip6_ieee154DFrameUnsafeGetPayloadPtr f = ?base"
    using f by (auto simp: frame_fits_def frame_layout_offsets)
  have lo: "\<not> maxLen \<le> ?N" "unat ?N < unat maxLen" using m(2) by (simp_all add: word_less_nat_alt not_le)
  have bl: "?base + unat maxLen \<le> length ?buf" using unat_MaxPayloadLen(2) [OF f] m(1) by simp
  have ok: "packet_ok p" "pkt_total p \<le> length (pkt_bytes p)" using p by (simp_all add: pkt_sendable_def)
  define room where "room = maxLen - ?N - 1"
  have room: "unat room = unat maxLen - unat ?N - 1"
  proof -
    have 1: "unat (maxLen - ?N) = unat maxLen - unat ?N"
      using lo(2) by (subst unat_sub) (simp_all add: word_le_nat_alt)
    then show ?thesis unfolding room_def using lo(2) by (subst unat_sub) (simp_all add: word_le_nat_alt)
  qed
  define len where "len = (if whip6_ipv6BasicHeaderGetPayloadLength (pktHeader p) + of_nat IPV6_BASIC_HEADER_SIZE <
      (ucast room :: u16)
    then ucast (whip6_ipv6BasicHeaderGetPayloadLength (pktHeader p) + of_nat IPV6_BASIC_HEADER_SIZE)
    else room AND NOT 7)"
  have len: "unat len = n"
    unfolding len_def n(1) using frag_len_word [OF sendable_word(1) [OF p], of 0 room] by (simp add: room)
  have nz: "len \<noteq> 0" using len n(2) by auto
  have le: "n \<le> unat room" "n \<le> length (pkt_bytes p)"
    using frag_len_le [of "unat room" "pkt_total p"] n(1) ok(2) by (simp_all add: room)
  have fit: "Suc ?q + n \<le> length ?buf" using le(1) lo(2) bl room by linarith
  define b1 where "b1 = ?buf[?q := 0x41]"
  have b1: "buf_put ?buf ?q 0x41 = Some b1" "length b1 = length ?buf" using fit by (simp_all add: b1_def)
  have c: "frag_copy_first p b1 (Suc ?q) len = Some (mem_blit b1 (Suc ?q) (take n (pkt_bytes p)), Suc ?q + n, ucast len)"
    using frag_copy_first_eq [OF ok(1), of len "Suc ?q" b1] le(2) fit b1(2) by (simp add: len)
  have b2: "mem_blit b1 (Suc ?q) (take n (pkt_bytes p)) = mem_blit ?buf ?q (0x41 # take n (pkt_bytes p))"
    unfolding b1_def using fit le(2) by (intro mem_blit_update) simp
  let ?g = "frame_blit ?q (0x41 # take n (pkt_bytes p)) f"
  have g: "f\<lparr>bufferPtr := mem_blit b1 (Suc ?q) (take n (pkt_bytes p))\<rparr> = ?g" by (simp add: frame_blit_def b2)
  have "frame_fits dm sm ip ?g" using fit le(2) f by (intro frame_blit_fits [THEN iffD2]) simp_all
  then obtain f' where f': "whip6_ieee154DFrameSetPayloadLen ?g (of_nat (unat ?N + 1 + n)) = Some f'"
    using SetPayloadLen_Get by blast
  have d: "Suc ?q + n - ?base = unat ?N + 1 + n" by simp
  have u: "ucast len = (of_nat n :: u16)"
    using len unat_u8_less [of len] by (simp add: word_unat_eq_iff unat_u16_of_nat)
  have "whip6_lowpanFragmenterPackFirstFragmentWithRawIpv6Header t f =
      Some (t\<lparr>tokFragOffset := of_nat n\<rparr>, f', WHIP6_NO_ERROR)"
    by (simp only: whip6_lowpanFragmenterPackFirstFragmentWithRawIpv6Header_def tok bind.bind_lunit Let_def pp
        m(1) [symmetric] lo if_False lowpan_constants b1(1) room_def [symmetric] len_def [symmetric] nz
        Suc_eq_plus1 [symmetric] c prod.case g d f' [unfolded Suc_eq_plus1 [symmetric]] u)
  then show ?thesis using f' by blast
qed

lemma pack_next:
  assumes f: "frame_fits dm sm ip f" and p: "pkt_sendable p"
    and tok: "tokPacket t = Some p" "lowpanHdrs t = Some h"
    and m: "maxLen = whip6_ieee154DFrameMaxPayloadLen f" "nextOffset h < maxLen"
    and off: "unat (tokFragOffset t) < pkt_total p"
    and n: "n = frag_len (unat maxLen - unat (nextOffset h)) (pkt_total p - unat (tokFragOffset t))" "0 < n"
  shows "\<exists>f'. whip6_lowpanFragmenterPackSubsequentFragment t f =
      Some (t\<lparr>tokFragOffset := tokFragOffset t + of_nat n\<rparr>, f', WHIP6_NO_ERROR) \<and>
    whip6_ieee154DFrameSetPayloadLen
      (frame_blit (fr_pay dm sm ip + unat (nextOffset h)) (take n (drop (unat (tokFragOffset t)) (pkt_bytes p))) f)
      (of_nat (unat (nextOffset h) + n)) = Some f'"
proof -
  let ?N = "nextOffset h" and ?buf = "bufferPtr f" and ?base = "fr_pay dm sm ip" and ?off = "tokFragOffset t"
  let ?q = "?base + unat ?N"
  have pp: "whip6_ieee154DFrameUnsafeGetPayloadPtr f = ?base"
    using f by (auto simp: frame_fits_def frame_layout_offsets)
  have lo: "\<not> maxLen \<le> ?N" "unat ?N < unat maxLen" using m(2) by (simp_all add: word_less_nat_alt not_le)
  have bl: "?base + unat maxLen \<le> length ?buf" using unat_MaxPayloadLen(2) [OF f] m(1) by simp
  have ok: "packet_ok p" "pkt_total p \<le> length (pkt_bytes p)" "pkt_total p \<le> 1280"
    using p by (simp_all add: pkt_sendable_def)
  define room where "room = maxLen - ?N"
  have room: "unat room = unat maxLen - unat ?N"
    unfolding room_def using lo(2) by (subst unat_sub) (simp_all add: word_le_nat_alt)
  define len where "len = (if whip6_ipv6BasicHeaderGetPayloadLength (pktHeader p) + of_nat IPV6_BASIC_HEADER_SIZE - ?off <
      (ucast room :: u16)
    then ucast (whip6_ipv6BasicHeaderGetPayloadLength (pktHeader p) + of_nat IPV6_BASIC_HEADER_SIZE - ?off)
    else room AND NOT 7)"
  have len: "unat len = n"
    unfolding len_def n(1) using off
    by (subst frag_len_word [OF sendable_word(2) [OF p less_imp_le [OF off]]]) (simp add: room)
  have nz: "len \<noteq> 0" using len n(2) by auto
  have "n \<le> unat room" "n \<le> pkt_total p - unat ?off"
    unfolding n(1) room by (rule frag_len_le)+
  then have le: "n \<le> unat room" "unat ?off + n \<le> length (pkt_bytes p)" "unat ?off + n \<le> 1280"
    using ok(2,3) off by linarith+
  have fit: "?q + n \<le> length ?buf" using le(1) lo(2) bl room by linarith
  let ?bs = "take n (drop (unat ?off) (pkt_bytes p))"
  have c: "frag_copy_header p ?off ?buf ?q len \<bind> (\<lambda>(buf, q, len, off). frag_copy_payload p off buf q len) =
      Some (mem_blit ?buf ?q ?bs, ?q + n, ?off + ucast len)"
    using frag_copy_next_eq [OF ok(1), of ?off len ?q ?buf] le fit by (simp add: len)
  let ?g = "frame_blit ?q ?bs f"
  have g: "f\<lparr>bufferPtr := mem_blit ?buf ?q ?bs\<rparr> = ?g" by (simp add: frame_blit_def)
  have "frame_fits dm sm ip ?g" using fit le(2) f by (intro frame_blit_fits [THEN iffD2]) simp_all
  then obtain f' where f': "whip6_ieee154DFrameSetPayloadLen ?g (of_nat (unat ?N + n)) = Some f'"
    using SetPayloadLen_Get by blast
  have d: "?q + n - ?base = unat ?N + n" by simp
  have u: "ucast len = (of_nat n :: u16)"
    using len unat_u8_less [of len] by (simp add: word_unat_eq_iff unat_u16_of_nat)
  obtain b1 q1 l1 o1 where h1: "frag_copy_header p ?off ?buf ?q len = Some (b1, q1, l1, o1)"
    using c by (cases "frag_copy_header p ?off ?buf ?q len") auto
  with c have c2: "frag_copy_payload p o1 b1 q1 l1 = Some (mem_blit ?buf ?q ?bs, ?q + n, ?off + ucast len)" by simp
  have "whip6_lowpanFragmenterPackSubsequentFragment t f =
      Some (t\<lparr>tokFragOffset := ?off + of_nat n\<rparr>, f', WHIP6_NO_ERROR)"
    by (simp only: whip6_lowpanFragmenterPackSubsequentFragment_def tok bind.bind_lunit Let_def pp
        m(1) [symmetric] lo if_False room_def [symmetric] len_def [symmetric] nz
        h1 c2 prod.case g d f' u)
  then show ?thesis using f' by blast
qed

section \<open>One request\<close>

text \<open>The headers of the next frame, and what the frame carries: headers, then packet bytes.\<close>

definition request_hdrs :: "lowpan_frag_packet_state \<Rightarrow> ipv6_packet \<Rightarrow> lowpan_unpacked_frame_headers \<Rightarrow>
    lowpan_unpacked_frame_headers" where
  "request_hdrs t p h = whip6_lowpanFrameHeadersAddFragHeader h (tokFragTag t) (of_nat (pkt_total p)) (tokFragOffset t)"

definition request_part :: "lowpan_frag_packet_state \<Rightarrow> ipv6_packet \<Rightarrow> nat \<Rightarrow> u8 list" where
  "request_part t p n = (if tokFragOffset t = 0 then [0x41] else []) @ take n (drop (unat (tokFragOffset t)) (pkt_bytes p))"

definition request_room :: "lowpan_frag_packet_state \<Rightarrow> nat \<Rightarrow> nat \<Rightarrow> nat" where
  "request_room t maxLen N = maxLen - N - (if tokFragOffset t = 0 then 1 else 0)"

lemma request_hdrs_has:
  "whip6_lowpanFrameHeadersHasFragHeader (request_hdrs t p h)"
  "whip6_lowpanFrameHeadersHasMeshHeader (request_hdrs t p h) = whip6_lowpanFrameHeadersHasMeshHeader h"
  "whip6_lowpanFrameHeadersHasBc0Header (request_hdrs t p h) = whip6_lowpanFrameHeadersHasBc0Header h"
  "hdrMesh (request_hdrs t p h) = hdrMesh h" "hdrBc0 (request_hdrs t p h) = hdrBc0 h"
  "hdrFrag (request_hdrs t p h) = \<lparr>fragTag = tokFragTag t, fragSize = of_nat (pkt_total p), fragOffset = tokFragOffset t\<rparr>"
  by (simp_all add: request_hdrs_def whip6_lowpanFrameHeadersAddFragHeader_def
      whip6_lowpanFrameHeadersHasFragHeader_def whip6_lowpanFrameHeadersHasMeshHeader_def
      whip6_lowpanFrameHeadersHasBc0Header_def lowpan_bits bit.conj_disj_distrib2)

lemma frame_blit_append:
  "off + length xs + length ys \<le> length (bufferPtr f) \<Longrightarrow>
   frame_blit (off + length xs) ys (frame_blit off xs f) = frame_blit off (xs @ ys) f"
  by (simp add: frame_blit_def mem_blit_append)

lemma blit_max_payload:
  "off + length bs \<le> length (bufferPtr f) \<Longrightarrow>
   whip6_ieee154DFrameMaxPayloadLen (frame_blit off bs f) = whip6_ieee154DFrameMaxPayloadLen f"
  by (simp add: whip6_ieee154DFrameMaxPayloadLen_def)

lemma request_next:
  assumes st: "tok_get state tok = Some t" "(fragFlags state AND 1) = 0"
    and tok: "tokPacket t = Some p" "lowpanHdrs t = Some h"
    and p: "pkt_sendable p" and off: "unat (tokFragOffset t) < pkt_total p" "8 dvd unat (tokFragOffset t)"
    and m: "whip6_lowpanFrameHeadersHasMeshHeader h \<Longrightarrow> mesh_ok (hdrMesh h)"
    and f: "frame_fits dm sm ip f"
    and N: "N = length (hdrs_bytes (request_hdrs t p h))" "N < unat maxLen" "maxLen = whip6_ieee154DFrameMaxPayloadLen f"
    and n: "n = frag_len (request_room t (unat maxLen) N) (pkt_total p - unat (tokFragOffset t))" "0 < n"
  shows "\<exists>f'. whip6_lowpanFragmenterRequestNextFragmentOfIpv6Packet state tok f =
      Some (tok_put state (t\<lparr>lowpanHdrs := Some ((request_hdrs t p h)\<lparr>nextOffset := of_nat N\<rparr>),
        tokFragOffset := tokFragOffset t + of_nat n\<rparr>), f', WHIP6_NO_ERROR) \<and>
    whip6_ieee154DFrameSetPayloadLen
      (frame_blit (fr_pay dm sm ip) (hdrs_bytes (request_hdrs t p h) @ request_part t p n) f)
      (of_nat (N + length (request_part t p n))) = Some f'"
proof -
  let ?h = "request_hdrs t p h" and ?base = "fr_pay dm sm ip" and ?off = "tokFragOffset t"
  have tot: "pkt_total p \<le> 1280" "pkt_total p \<le> length (pkt_bytes p)" using p by (simp_all add: pkt_sendable_def)
  have sz: "whip6_ipv6BasicHeaderGetPayloadLength (pktHeader p) + of_nat IPV6_BASIC_HEADER_SIZE = of_nat (pkt_total p)"
    using sendable_word(1) [OF p, of 0] tot by (simp add: word_unat_eq_iff unat_u16_of_nat)
  have hh: "whip6_lowpanFrameHeadersAddFragHeader h (tokFragTag t)
      (whip6_ipv6BasicHeaderGetPayloadLength (pktHeader p) + of_nat IPV6_BASIC_HEADER_SIZE) ?off = ?h"
    by (simp only: sz request_hdrs_def)
  have fo: "frag_ok (hdrFrag ?h)" using tot off by (simp add: request_hdrs_has frag_ok_def unat_u16_of_nat)
  have max: "?base + unat maxLen \<le> length (bufferPtr f)" using unat_MaxPayloadLen(2) [OF f] N(3) by simp
  define g where "g = frame_blit ?base (hdrs_bytes ?h) f"
  have room: "?base + N \<le> length (bufferPtr f)" using max N(2) by linarith
  have g: "frame_fits dm sm ip g" "maxLen = whip6_ieee154DFrameMaxPayloadLen g"
    using room f N(1,3) by (simp_all add: g_def blit_max_payload del: frame_blit_fields)
  have pk: "whip6_lowpanFrameHeadersPack ?h f = Some (?h\<lparr>nextOffset := of_nat N\<rparr>, g, WHIP6_NO_ERROR)"
    unfolding g_def N(1) using m fo N by (intro headers_pack [OF f]) (simp_all add: request_hdrs_has)
  have lt: "N < 256" using N(2) unat_u8_less [of maxLen] by linarith
  define t1 where "t1 = t\<lparr>lowpanHdrs := Some (?h\<lparr>nextOffset := of_nat N\<rparr>)\<rparr>"
  have t1: "tokPacket t1 = Some p" "lowpanHdrs t1 = Some (?h\<lparr>nextOffset := of_nat N\<rparr>)" "tokFragOffset t1 = ?off"
    by (simp_all add: t1_def tok)
  have uN: "unat (nextOffset (?h\<lparr>nextOffset := of_nat N\<rparr>)) = N" using lt by (simp add: unat_u8_of_nat)
  have lo: "nextOffset (?h\<lparr>nextOffset := of_nat N\<rparr>) < maxLen" using uN N(2) by (simp add: word_less_nat_alt)
  have nle: "n \<le> request_room t (unat maxLen) N" "n \<le> pkt_total p - unat ?off"
    unfolding n(1) by (rule frag_len_le)+
  have blit: "frame_blit (?base + N) xs g = frame_blit ?base (hdrs_bytes ?h @ xs) f" if "N + length xs \<le> unat maxLen" for xs
    using frame_blit_append [of ?base "hdrs_bytes ?h" xs f] that max N(1) by (simp add: g_def)
  have "\<exists>f'. (if tokFragOffset t1 = 0 then whip6_lowpanFragmenterPackFirstFragment t1 g (fragFlags state)
        else whip6_lowpanFragmenterPackSubsequentFragment t1 g) =
      Some (t1\<lparr>tokFragOffset := ?off + of_nat n\<rparr>, f', WHIP6_NO_ERROR) \<and>
    whip6_ieee154DFrameSetPayloadLen (frame_blit ?base (hdrs_bytes ?h @ request_part t p n) f)
      (of_nat (N + length (request_part t p n))) = Some f'"
  proof (cases "?off = 0")
    case True
    have n1: "n = frag_len (unat maxLen - unat (nextOffset (?h\<lparr>nextOffset := of_nat N\<rparr>)) - 1) (pkt_total p)"
      using n(1) True by (simp only: uN request_room_def) simp
    obtain f' where f': "whip6_lowpanFragmenterPackFirstFragmentWithRawIpv6Header t1 g =
        Some (t1\<lparr>tokFragOffset := of_nat n\<rparr>, f', WHIP6_NO_ERROR)"
      "whip6_ieee154DFrameSetPayloadLen (frame_blit (?base + N) (0x41 # take n (pkt_bytes p)) g)
        (of_nat (N + 1 + n)) = Some f'"
      using pack_first [OF g(1) p t1(1,2) g(2) lo n1 n(2), unfolded uN] by blast
    have ln: "length (take n (pkt_bytes p)) = n" using nle(2) tot(2) True by simp
    have "N + length (0x41 # take n (pkt_bytes p)) \<le> unat maxLen"
      using nle(1) True N(2) ln by (simp add: request_room_def)
    from blit [OF this] f' True st(2) ln show ?thesis
      by (simp add: t1 request_part_def whip6_lowpanFragmenterPackFirstFragment_def LOWPAN_WHIP6_USE_IPHC_def)
  next
    case False
    have n1: "n = frag_len (unat maxLen - unat (nextOffset (?h\<lparr>nextOffset := of_nat N\<rparr>)))
        (pkt_total p - unat (tokFragOffset t1))"
      using n(1) False by (simp only: uN request_room_def t1) simp
    have o1: "unat (tokFragOffset t1) < pkt_total p" using off(1) by (simp add: t1)
    obtain f' where f': "whip6_lowpanFragmenterPackSubsequentFragment t1 g =
        Some (t1\<lparr>tokFragOffset := ?off + of_nat n\<rparr>, f', WHIP6_NO_ERROR)"
      "whip6_ieee154DFrameSetPayloadLen (frame_blit (?base + N) (take n (drop (unat ?off) (pkt_bytes p))) g)
        (of_nat (N + n)) = Some f'"
      using pack_next [OF g(1) p t1(1,2) g(2) lo o1 n1 n(2), unfolded uN t1(3)] by blast
    have ln: "length (take n (drop (unat ?off) (pkt_bytes p))) = n" using nle(2) tot(2) by simp
    have "N + length (take n (drop (unat ?off) (pkt_bytes p))) \<le> unat maxLen"
      using nle(1) False N(2) ln by (simp add: request_room_def)
    from blit [OF this] f' False ln show ?thesis by (simp add: t1 request_part_def)
  qed
  then obtain f' where f': "(if tokFragOffset t1 = 0 then whip6_lowpanFragmenterPackFirstFragment t1 g (fragFlags state)
        else whip6_lowpanFragmenterPackSubsequentFragment t1 g) =
      Some (t1\<lparr>tokFragOffset := ?off + of_nat n\<rparr>, f', WHIP6_NO_ERROR)"
    "whip6_ieee154DFrameSetPayloadLen (frame_blit ?base (hdrs_bytes ?h @ request_part t p n) f)
      (of_nat (N + length (request_part t p n))) = Some f'" by blast
  have "whip6_lowpanFragmenterRequestNextFragmentOfIpv6Packet state tok f =
      Some (tok_put state (t1\<lparr>tokFragOffset := ?off + of_nat n\<rparr>), f', WHIP6_NO_ERROR)"
    by (simp only: whip6_lowpanFragmenterRequestNextFragmentOfIpv6Packet_def st(1) tok bind.bind_lunit option.case
        Let_def hh pk prod.case simp_thms if_False t1_def [symmetric] f'(1))
  then show ?thesis using f'(2) by (auto simp: t1_def)
qed

section \<open>A whole run\<close>

text \<open>The bytes of the payload of a frame \<open>f\<close> with the header of the frame \<open>f0\<close>.\<close>

definition frame_carries ::
  "u8 \<Rightarrow> u8 \<Rightarrow> bool \<Rightarrow> ieee154_dframe_info \<Rightarrow> u8 list \<Rightarrow> ieee154_dframe_info \<Rightarrow> bool" where
  "frame_carries dm sm ip f0 bs f \<longleftrightarrow> frame_fits dm sm ip f \<and>
     whip6_ieee154DFrameGetPayloadLen f = Some (of_nat (length bs)) \<and> length bs < 256 \<and>
     holds_at (bufferPtr f) (fr_pay dm sm ip) bs \<and>
     mem_range (bufferPtr f) 1 (fr_pay dm sm ip - 1) = mem_range (bufferPtr f0) 1 (fr_pay dm sm ip - 1)"

lemma set_len_carries:
  assumes f: "frame_fits dm sm ip f" and b: "length bs \<le> unat (whip6_ieee154DFrameMaxPayloadLen f)"
    and s: "whip6_ieee154DFrameSetPayloadLen (frame_blit (fr_pay dm sm ip) bs f) (of_nat (length bs)) = Some f'"
  shows "frame_carries dm sm ip f bs f'"
proof -
  let ?p = "fr_pay dm sm ip" and ?g = "frame_blit (fr_pay dm sm ip) bs f"
  have room: "?p + length bs \<le> length (bufferPtr f)" using unat_MaxPayloadLen(2) [OF f] b by linarith
  then have g: "frame_fits dm sm ip ?g" using f by (intro frame_blit_fits [THEN iffD2])
  have pos: "10 \<le> ?p" using f by (intro fr_bounds(5)) (auto simp: frame_fits_def frame_layout_def)
  have f': "f' = frame_blit 0 [of_nat (length bs) + of_nat (?p - 1)] ?g" "frame_fits dm sm ip f'"
    "whip6_ieee154DFrameGetPayloadLen f' = Some (of_nat (length bs))"
    using SetPayloadLen_eq [OF g] SetPayloadLen_Get [OF g, of "of_nat (length bs)"] s by auto
  have "holds_at (bufferPtr ?g) ?p bs" using room by (simp add: holds_at_blit)
  moreover have "1 \<le> length (bufferPtr ?g)" using room pos by simp
  ultimately have "holds_at (bufferPtr f') ?p bs"
    unfolding f'(1) frame_blit_fields(5) [of 0] using pos by (intro holds_at_blit_other) simp_all
  moreover have "length bs < 256" using b unat_u8_less [of "whip6_ieee154DFrameMaxPayloadLen f"] by linarith
  moreover have "mem_range (bufferPtr f') 1 (?p - 1) = mem_range (bufferPtr f) 1 (?p - 1)"
    unfolding f'(1) frame_blit_fields(5) using room pos
    by (subst mem_range_blit_other, simp, simp, simp) (subst mem_range_blit_other; simp)
  ultimately show ?thesis using f' by (simp add: frame_carries_def)
qed

text \<open>The loop of the fragmenter's clients, into frames of the same layout.\<close>

fun frag_run ::
  "nat \<Rightarrow> lowpan_frag_global_state \<Rightarrow> nat \<Rightarrow> ieee154_dframe_info \<Rightarrow>
   (lowpan_frag_global_state \<times> ieee154_dframe_info list) option" where
  "frag_run 0 state tok f = None"
| "frag_run (Suc k) state tok f =
     do { more \<leftarrow> whip6_lowpanFragmenterDoesNextFragmentOfIpv6PacketExist state tok;
          if \<not> more then Some (state, [])
          else do { (state, f', status) \<leftarrow> whip6_lowpanFragmenterRequestNextFragmentOfIpv6Packet state tok f;
                    if status \<noteq> WHIP6_NO_ERROR then Some (state, [])
                    else do { (state, fs) \<leftarrow> frag_run k state tok f; Some (state, f' # fs) } } }"

text \<open>
  The frames \<open>fs\<close> carry consecutive parts of the packet of the lengths \<open>ns\<close>, the first from
  \<open>off\<close>, the last up to its end; every length but the last is a multiple of 8.
\<close>

fun frames_carry ::
  "u8 \<Rightarrow> u8 \<Rightarrow> bool \<Rightarrow> ieee154_dframe_info \<Rightarrow> lowpan_frag_packet_state \<Rightarrow> ipv6_packet \<Rightarrow>
   lowpan_unpacked_frame_headers \<Rightarrow> nat \<Rightarrow> nat list \<Rightarrow> ieee154_dframe_info list \<Rightarrow> bool" where
  "frames_carry dm sm ip f0 t p h off [] [] \<longleftrightarrow> off = pkt_total p"
| "frames_carry dm sm ip f0 t p h off (n # ns) (f # fs) \<longleftrightarrow>
     0 < n \<and> off + n \<le> pkt_total p \<and> (8 dvd n \<or> off + n = pkt_total p) \<and>
     (let t = t\<lparr>tokFragOffset := of_nat off\<rparr>
      in frame_carries dm sm ip f0 (hdrs_bytes (request_hdrs t p h) @ request_part t p n) f) \<and>
     frames_carry dm sm ip f0 t p h (off + n) ns fs"
| "frames_carry dm sm ip f0 t p h off _ _ \<longleftrightarrow> False"

definition same_hdrs :: "lowpan_unpacked_frame_headers \<Rightarrow> lowpan_unpacked_frame_headers \<Rightarrow> bool" where
  "same_hdrs h h' \<longleftrightarrow> whip6_lowpanFrameHeadersHasMeshHeader h = whip6_lowpanFrameHeadersHasMeshHeader h' \<and>
     whip6_lowpanFrameHeadersHasBc0Header h = whip6_lowpanFrameHeadersHasBc0Header h' \<and>
     hdrMesh h = hdrMesh h' \<and> hdrBc0 h = hdrBc0 h'"

lemma same_hdrs_request:
  "same_hdrs h h' \<Longrightarrow> tokFragTag t = tokFragTag t' \<Longrightarrow> tokFragOffset t = tokFragOffset t' \<Longrightarrow>
   hdrs_bytes (request_hdrs t p h) = hdrs_bytes (request_hdrs t' p h')"
  "same_hdrs h h' \<Longrightarrow> same_hdrs ((request_hdrs t p h)\<lparr>nextOffset := x\<rparr>) h'"
proof -
  show "same_hdrs h h' \<Longrightarrow> tokFragTag t = tokFragTag t' \<Longrightarrow> tokFragOffset t = tokFragOffset t' \<Longrightarrow>
   hdrs_bytes (request_hdrs t p h) = hdrs_bytes (request_hdrs t' p h')"
    by (simp add: hdrs_bytes_def request_hdrs_has same_hdrs_def)
  have "whip6_lowpanFrameHeadersHasMeshHeader (h\<lparr>nextOffset := x\<rparr>) = whip6_lowpanFrameHeadersHasMeshHeader h"
    "whip6_lowpanFrameHeadersHasBc0Header (h\<lparr>nextOffset := x\<rparr>) = whip6_lowpanFrameHeadersHasBc0Header h" for h
    by (simp_all add: whip6_lowpanFrameHeadersHasMeshHeader_def whip6_lowpanFrameHeadersHasBc0Header_def)
  then show "same_hdrs h h' \<Longrightarrow> same_hdrs ((request_hdrs t p h)\<lparr>nextOffset := x\<rparr>) h'"
    by (simp add: same_hdrs_def request_hdrs_has)
qed

lemma tok_get_addr: "tok_get state tok = Some t \<Longrightarrow> tokAddr t = tok"
  unfolding tok_get_def by (auto dest: find_Some_iff [THEN iffD1])

lemma find_put:
  "find (\<lambda>t. tokAddr t = a) ts = Some t \<Longrightarrow> tokAddr t' = a \<Longrightarrow>
   find (\<lambda>t. tokAddr t = a) (map (\<lambda>t. if tokAddr t = a then t' else t) ts) = Some t'"
  by (induction ts) auto

lemma tok_get_put:
  "tok_get state tok = Some t \<Longrightarrow> tokAddr t' = tok \<Longrightarrow> tok_get (tok_put state t') tok = Some t'"
  unfolding tok_get_def tok_put_def using find_put [of tok "currentPackets state" t t'] by simp

lemma tok_put_flags [simp]: "fragFlags (tok_put state t) = fragFlags state"
  by (simp add: tok_put_def)

lemma next_exists:
  assumes "tok_get state tok = Some t" "tokPacket t = Some p"
  shows "whip6_lowpanFragmenterDoesNextFragmentOfIpv6PacketExist state tok =
    Some (unat (tokFragOffset t) < pkt_total p)"
  using assms by (simp add: whip6_lowpanFragmenterDoesNextFragmentOfIpv6PacketExist_def pkt_total_def
      IPV6_BASIC_HEADER_SIZE_def add.commute)

text \<open>The headers are longest behind the first fragment.\<close>

definition max_hdrs_len :: "lowpan_unpacked_frame_headers \<Rightarrow> nat" where
  "max_hdrs_len h =
     (if whip6_lowpanFrameHeadersHasMeshHeader h then length (mesh_bytes (hdrMesh h)) else 0) +
     (if whip6_lowpanFrameHeadersHasBc0Header h then 2 else 0) + 5"

lemma request_hdrs_length:
  "length (hdrs_bytes (request_hdrs t p h)) + (if tokFragOffset t = 0 then 1 else 0) = max_hdrs_len h"
  by (auto simp: hdrs_bytes_def request_hdrs_has max_hdrs_len_def bytes_nonempty frag_bytes_def word_gt_0)

lemma same_max_hdrs_len: "same_hdrs h h' \<Longrightarrow> max_hdrs_len h = max_hdrs_len h'"
  by (simp add: same_hdrs_def max_hdrs_len_def)

lemma frag_run_ok:
  assumes "tok_get state tok = Some t" "(fragFlags state AND 1) = 0"
    and "tokPacket t = Some p" "lowpanHdrs t = Some h'" "same_hdrs h' h" "tokFragTag t = tokFragTag t0"
    and p: "pkt_sendable p"
    and "unat (tokFragOffset t) \<le> pkt_total p" "8 dvd unat (tokFragOffset t) \<or> unat (tokFragOffset t) = pkt_total p"
    and m: "whip6_lowpanFrameHeadersHasMeshHeader h \<Longrightarrow> mesh_ok (hdrMesh h)"
    and f: "frame_fits dm sm ip f"
    and room: "max_hdrs_len h + 8 \<le> unat (whip6_ieee154DFrameMaxPayloadLen f)"
    and "pkt_total p - unat (tokFragOffset t) < k"
  shows "\<exists>state' fs ns. frag_run k state tok f = Some (state', fs) \<and>
    frames_carry dm sm ip f t0 p h (unat (tokFragOffset t)) ns fs \<and>
    whip6_lowpanFragmenterDoesNextFragmentOfIpv6PacketExist state' tok = Some False"
  using assms(1-6,8,9,13)
proof (induction k arbitrary: state t h')
  case 0
  then show ?case by simp
next
  case (Suc k)
  let ?off = "tokFragOffset t" and ?max = "whip6_ieee154DFrameMaxPayloadLen f"
  note ex = next_exists [OF Suc.prems(1,3)]
  show ?case
  proof (cases "unat ?off < pkt_total p")
    case False
    then have "frag_run (Suc k) state tok f = Some (state, [])" "unat ?off = pkt_total p"
      using ex Suc.prems(7) by auto
    moreover have "frames_carry dm sm ip f t0 p h (unat ?off) [] []" using calculation(2) by simp
    moreover have "whip6_lowpanFragmenterDoesNextFragmentOfIpv6PacketExist state tok = Some False"
      using ex False by simp
    ultimately show ?thesis by blast
  next
    case True
    have d8: "8 dvd unat ?off" using Suc.prems(8) True by auto
    define N where "N = length (hdrs_bytes (request_hdrs t p h'))"
    have N: "N + (if ?off = 0 then 1 else 0) = max_hdrs_len h"
      unfolding N_def using request_hdrs_length [of t p h'] same_max_hdrs_len [OF Suc.prems(5)] by simp
    have Nlt: "N < unat ?max" using N room by (auto split: if_splits)
    have rm: "8 \<le> request_room t (unat ?max) N" using N room by (auto simp: request_room_def split: if_splits)
    define n where "n = frag_len (request_room t (unat ?max) N) (pkt_total p - unat ?off)"
    have n0: "0 < n" unfolding n_def using True by (intro frag_len_pos [OF rm]) simp
    have nle: "n \<le> request_room t (unat ?max) N" "n \<le> pkt_total p - unat ?off"
      unfolding n_def by (rule frag_len_le)+
    have nd: "8 dvd n \<or> unat ?off + n = pkt_total p"
      using frag_len_dvd [of "request_room t (unat ?max) N" "pkt_total p - unat ?off"] True by (auto simp: n_def)
    have mh: "whip6_lowpanFrameHeadersHasMeshHeader h' \<Longrightarrow> mesh_ok (hdrMesh h')"
      using m Suc.prems(5) by (simp add: same_hdrs_def)
    obtain f' where f': "whip6_lowpanFragmenterRequestNextFragmentOfIpv6Packet state tok f =
        Some (tok_put state (t\<lparr>lowpanHdrs := Some ((request_hdrs t p h')\<lparr>nextOffset := of_nat N\<rparr>),
          tokFragOffset := ?off + of_nat n\<rparr>), f', WHIP6_NO_ERROR)"
      "whip6_ieee154DFrameSetPayloadLen
        (frame_blit (fr_pay dm sm ip) (hdrs_bytes (request_hdrs t p h') @ request_part t p n) f)
        (of_nat (N + length (request_part t p n))) = Some f'"
      using request_next [OF Suc.prems(1-4) p True d8 mh f N_def Nlt refl n_def n0] by blast
    let ?t = "t\<lparr>lowpanHdrs := Some ((request_hdrs t p h')\<lparr>nextOffset := of_nat N\<rparr>), tokFragOffset := ?off + of_nat n\<rparr>"
    let ?s = "tok_put state ?t"
    have tot: "pkt_total p \<le> 1280" "pkt_total p \<le> length (pkt_bytes p)" using p by (simp_all add: pkt_sendable_def)
    have uo: "unat (?off + of_nat n) = unat ?off + n"
      using nle(2) tot(1) True by (simp add: unat_word_ariths(1) unat_u16_of_nat)
    have "length (request_part t p n) = (if ?off = 0 then 1 else 0) + n"
      using nle(2) tot(2) by (simp add: request_part_def)
    then have lb: "length (hdrs_bytes (request_hdrs t p h') @ request_part t p n) \<le> unat ?max"
      using nle(1) Nlt unfolding request_room_def by (auto simp: N_def split: if_splits)
    have car: "frame_carries dm sm ip f (hdrs_bytes (request_hdrs t p h') @ request_part t p n) f'"
      using f'(2) by (intro set_len_carries [OF f lb]) (simp add: N_def)
    have off_t0: "tokFragOffset t = tokFragOffset (t0\<lparr>tokFragOffset := of_nat (unat ?off)\<rparr>)" by simp
    have "hdrs_bytes (request_hdrs t p h') = hdrs_bytes (request_hdrs (t0\<lparr>tokFragOffset := of_nat (unat ?off)\<rparr>) p h)"
      using Suc.prems(6) by (intro same_hdrs_request(1) [OF Suc.prems(5)]) simp_all
    moreover have "request_part t p n = request_part (t0\<lparr>tokFragOffset := of_nat (unat ?off)\<rparr>) p n"
      by (simp add: request_part_def)
    ultimately have car: "frame_carries dm sm ip f (hdrs_bytes (request_hdrs (t0\<lparr>tokFragOffset := of_nat (unat ?off)\<rparr>) p h) @
        request_part (t0\<lparr>tokFragOffset := of_nat (unat ?off)\<rparr>) p n) f'" using car by simp
    have g: "tok_get ?s tok = Some ?t"
      using tok_get_addr [OF Suc.prems(1)] by (intro tok_get_put [OF Suc.prems(1)]) simp
    have d8': "8 dvd unat (tokFragOffset ?t) \<or> unat (tokFragOffset ?t) = pkt_total p"
      using nd d8 by (auto simp: uo)
    have "\<exists>state' fs ns. frag_run k ?s tok f = Some (state', fs) \<and>
      frames_carry dm sm ip f t0 p h (unat (tokFragOffset ?t)) ns fs \<and>
      whip6_lowpanFragmenterDoesNextFragmentOfIpv6PacketExist state' tok = Some False"
    proof (rule Suc.IH [OF g])
      show "same_hdrs ((request_hdrs t p h')\<lparr>nextOffset := of_nat N\<rparr>) h"
        by (rule same_hdrs_request(2) [OF Suc.prems(5)])
      show "pkt_total p - unat (tokFragOffset ?t) < k" using Suc.prems(9) n0 True by (simp add: uo)
      show "unat (tokFragOffset ?t) \<le> pkt_total p" using nle(2) True by (simp add: uo)
    qed (use Suc.prems(2,3,6) d8' in \<open>simp_all\<close>)
    then obtain state' fs ns where r: "frag_run k ?s tok f = Some (state', fs)"
      "frames_carry dm sm ip f t0 p h (unat ?off + n) ns fs"
      "whip6_lowpanFragmenterDoesNextFragmentOfIpv6PacketExist state' tok = Some False"
      by (auto simp: uo)
    have "frag_run (Suc k) state tok f = Some (state', f' # fs)" using ex True f'(1) r(1) by simp
    moreover have "frames_carry dm sm ip f t0 p h (unat ?off) (n # ns) (f' # fs)"
      using n0 nle(2) nd car r(2) True by (simp add: Let_def)
    ultimately show ?thesis using r(3) by blast
  qed
qed

end
