(* ===== verification/Lowpan_FragmentationState.thy ===== *)
theory Lowpan_FragmentationState
  imports Lowpan_FragmentationSpec
begin

text \<open>
  The fragmenter as a state machine: its tokens are neither lost nor duplicated, an accepted packet
  stays with its token until it is finished, and a whole run from \<open>StartFragmenting\<close> to
  \<open>FinishFragmenting\<close> sends the packet.
\<close>

section \<open>What the operations do to the tokens\<close>

text \<open>A request changes nothing but the headers and the offset of its token.\<close>

definition tok_only :: "lowpan_frag_packet_state \<Rightarrow> lowpan_frag_packet_state \<Rightarrow> bool" where
  "tok_only t t' \<longleftrightarrow> tokAddr t' = tokAddr t \<and> tokPacket t' = tokPacket t \<and> tokFragTag t' = tokFragTag t"

lemma pack_first_only:
  "whip6_lowpanFragmenterPackFirstFragment t f flags = Some (t', f', st) \<Longrightarrow> tok_only t t'"
  by (auto simp: whip6_lowpanFragmenterPackFirstFragment_def Let_def tok_only_def
      whip6_lowpanFragmenterPackFirstFragmentWithRawIpv6Header_def split: if_splits bind_splits)

lemma pack_subsequent_only:
  "whip6_lowpanFragmenterPackSubsequentFragment t f = Some (t', f', st) \<Longrightarrow> tok_only t t'"
  by (auto simp: whip6_lowpanFragmenterPackSubsequentFragment_def Let_def tok_only_def split: if_splits bind_splits)

lemma request_changes:
  assumes "whip6_lowpanFragmenterRequestNextFragmentOfIpv6Packet state tok f = Some (state', f', status)"
    and "tok_get state tok = Some t"
  shows "(\<exists>t'. state' = tok_put state t' \<and> tok_only t t') \<or> state' = state"
proof (cases "lowpanHdrs t")
  case None
  then show ?thesis using assms by (simp add: whip6_lowpanFragmenterRequestNextFragmentOfIpv6Packet_def)
next
  case (Some hdrs)
  have only: "tok_only (t\<lparr>lowpanHdrs := h\<rparr>) t' = tok_only t t'" for h t' by (simp add: tok_only_def)
  have refl: "tok_only t (t\<lparr>lowpanHdrs := h\<rparr>)" for h by (simp add: tok_only_def)
  from Some show ?thesis using assms
    by (auto simp: whip6_lowpanFragmenterRequestNextFragmentOfIpv6Packet_def Let_def only
        split: if_splits bind_splits dest!: pack_first_only pack_subsequent_only) (blast intro: refl)+
qed


lemma tok_put_same: "tok_get state tok = Some t \<Longrightarrow> tok_only t t' \<Longrightarrow>
  map tokAddr (currentPackets (tok_put state t')) = map tokAddr (currentPackets state)"
  by (auto simp: tok_put_def tok_only_def)

lemma put_packets:
  "find (\<lambda>t. tokAddr t = a) ts = Some t \<Longrightarrow> tokAddr t' = a \<Longrightarrow> tokPacket t' = tokPacket t \<Longrightarrow>
   distinct (map tokAddr ts) \<Longrightarrow>
   map tokPacket (map (\<lambda>t. if tokAddr t = a then t' else t) ts) = map tokPacket ts"
proof (induction ts)
  case (Cons u ts)
  show ?case
  proof (cases "tokAddr u = a")
    case True
    then have "\<forall>v \<in> set ts. tokAddr v \<noteq> a" using Cons.prems(4) by (auto simp: image_iff)
    then have "map tokPacket (map (\<lambda>t. if tokAddr t = a then t' else t) ts) = map tokPacket ts"
      by (simp cong: map_cong)
    then show ?thesis using Cons.prems True by simp
  next
    case False
    then show ?thesis using Cons by simp
  qed
qed simp

lemma tok_put_packets: "tok_get state tok = Some t \<Longrightarrow> tok_only t t' \<Longrightarrow>
  distinct (map tokAddr (currentPackets state)) \<Longrightarrow>
  map tokPacket (currentPackets (tok_put state t')) = map tokPacket (currentPackets state)"
  using put_packets [of tok "currentPackets state" t t'] tok_get_addr [of state tok t]
  by (simp add: tok_get_def tok_put_def tok_only_def)

lemma tok_put_free [simp]: "freePackets (tok_put state t) = freePackets state"
  by (simp add: tok_put_def)

lemma finish_loop_get:
  "frag_finish_loop ts a = (case find (\<lambda>t. tokAddr t = a) ts of
     None \<Rightarrow> None | Some t \<Rightarrow> Some (t, remove1 t ts))"
  by (induction ts) (auto split: option.splits dest: find_Some_iff [THEN iffD1])

lemma start_cases:
  "whip6_lowpanFragmenterStartFragmentingIpv6Packet state p =
     (if freePackets state = [] \<or> pkt_total p > 1280 \<or> pkt_total p > 40 + length (concat (pkt_iov p))
      then (state, None)
      else (state\<lparr>freePackets := tl (freePackets state), tagGenerator := tagGenerator state + 1,
                  currentPackets := (hd (freePackets state))\<lparr>tokPacket := Some p, lowpanHdrs := None,
                    tokFragOffset := 0, tokFragTag := tagGenerator state\<rparr> # currentPackets state\<rparr>,
            Some (tokAddr (hd (freePackets state)))))"
  by (auto simp: whip6_lowpanFragmenterStartFragmentingIpv6Packet_def pkt_total_def Let_def
      WHIP6_LOWPAN_MAX_PACKET_LENGTH_def IPV6_BASIC_HEADER_SIZE_def split: list.splits)

section \<open>Reachable states\<close>

text \<open>
  The states of a fragmenter with the tokens \<open>ts\<close> in which the packets \<open>ps\<close> have been
  accepted and not been finished; the clients pass only tokens they have been given.
\<close>

inductive frag_reach ::
  "lowpan_frag_packet_state list \<Rightarrow> lowpan_frag_global_state \<Rightarrow> ipv6_packet multiset \<Rightarrow> bool"
  for ts where
  init: "frag_reach ts (whip6_lowpanFragmenterInit (Some ts) n) {#}"
    if "length ts = unat n" "distinct (map tokAddr ts)"
| start: "frag_reach ts state' (add_mset p ps)"
    if "frag_reach ts state ps" "whip6_lowpanFragmenterStartFragmentingIpv6Packet state p = (state', Some tok)"
| refuse: "frag_reach ts state' ps"
    if "frag_reach ts state ps" "whip6_lowpanFragmenterStartFragmentingIpv6Packet state p = (state', None)"
| provide: "frag_reach ts state' ps"
    if "frag_reach ts state ps"
      "whip6_lowpanFragmenterProvideAdditional6LoWPANHeadersForIpv6Packet state tok h = Some (state', status)"
| request: "frag_reach ts state' ps"
    if "frag_reach ts state ps"
      "whip6_lowpanFragmenterRequestNextFragmentOfIpv6Packet state tok f = Some (state', f', status)"
| finish: "frag_reach ts state' (ps - {#p#})"
    if "frag_reach ts state ps" "whip6_lowpanFragmenterFinishFragmentingIpv6Packet state tok = (state', Some p)"
| unknown: "frag_reach ts state' ps"
    if "frag_reach ts state ps" "whip6_lowpanFragmenterFinishFragmentingIpv6Packet state tok = (state', None)"

definition frag_inv ::
  "lowpan_frag_packet_state list \<Rightarrow> lowpan_frag_global_state \<Rightarrow> ipv6_packet multiset \<Rightarrow> bool" where
  "frag_inv ts state ps \<longleftrightarrow> distinct (map tokAddr ts) \<and>
     mset (map tokAddr (currentPackets state)) + mset (map tokAddr (freePackets state)) = mset (map tokAddr ts) \<and>
     mset (map tokPacket (currentPackets state)) = image_mset Some ps \<and>
     (\<forall>p \<in># ps. pkt_total p \<le> 1280 \<and> pkt_total p \<le> 40 + length (concat (pkt_iov p))) \<and> fragFlags state = 0"

lemma inv_distinct:
  assumes "frag_inv ts state ps"
  shows "distinct (map tokAddr (currentPackets state @ freePackets state))"
  using assms mset_eq_imp_distinct_iff [of "map tokAddr (currentPackets state @ freePackets state)" "map tokAddr ts"]
  by (simp add: frag_inv_def)

lemma init_loop: "length ts \<le> unat n \<Longrightarrow> frag_init_loop ts n = ts"
proof (induction ts arbitrary: n)
  case (Cons t ts)
  then have "0 < n" by (simp add: word_less_nat_alt)
  then have "unat (n - 1) = unat n - 1" by (subst unat_sub) (simp_all add: word_le_nat_alt word_less_nat_alt)
  then have "frag_init_loop ts (n - 1) = ts" using Cons by simp
  then show ?case using \<open>0 < n\<close> by simp
qed simp

lemma request_get:
  "whip6_lowpanFragmenterRequestNextFragmentOfIpv6Packet state tok f = Some r \<Longrightarrow> \<exists>t. tok_get state tok = Some t"
  "whip6_lowpanFragmenterProvideAdditional6LoWPANHeadersForIpv6Packet state tok h = Some q \<Longrightarrow>
   \<exists>t. tok_get state tok = Some t \<and> q = (tok_put state (t\<lparr>lowpanHdrs := Some h\<rparr>), WHIP6_NO_ERROR)"
  by (auto simp: whip6_lowpanFragmenterRequestNextFragmentOfIpv6Packet_def
      whip6_lowpanFragmenterProvideAdditional6LoWPANHeadersForIpv6Packet_def split: bind_splits)

lemma inv_put:
  assumes "frag_inv ts state ps" "tok_get state tok = Some t" "tok_only t t'"
  shows "frag_inv ts (tok_put state t') ps"
proof -
  have d: "distinct (map tokAddr (currentPackets state))" using inv_distinct [OF assms(1)] by simp
  show ?thesis using assms(1)
    by (simp only: frag_inv_def tok_put_same [OF assms(2,3)] tok_put_packets [OF assms(2,3) d]
        tok_put_free tok_put_flags simp_thms conj_assoc) blast
qed

lemma inv_finish:
  assumes "frag_inv ts state ps" "whip6_lowpanFragmenterFinishFragmentingIpv6Packet state tok = (state', r)"
  shows "case r of None \<Rightarrow> state' = state | Some p \<Rightarrow> frag_inv ts state' (ps - {#p#}) \<and> p \<in># ps"
proof (cases "find (\<lambda>t. tokAddr t = tok) (currentPackets state)")
  case None
  then show ?thesis using assms(2)
    by (auto simp: whip6_lowpanFragmenterFinishFragmentingIpv6Packet_def finish_loop_get)
next
  case (Some t)
  let ?c = "currentPackets state" and ?u = "t\<lparr>tokPacket := None, lowpanHdrs := None\<rparr>"
  have t: "t \<in> set ?c" using Some by (auto simp: find_Some_iff)
  have s: "state' = state\<lparr>currentPackets := remove1 t ?c, freePackets := ?u # freePackets state\<rparr>"
    "r = tokPacket t"
    using assms(2) Some by (auto simp: whip6_lowpanFragmenterFinishFragmentingIpv6Packet_def finish_loop_get)
  obtain c' where m: "mset ?c = add_mset t c'" "mset (remove1 t ?c) = c'"
    using t by (metis insert_DiffM mset_remove1 set_mset_mset)
  have "Some ` set_mset ps = tokPacket ` set ?c"
    using assms(1) unfolding frag_inv_def by (metis set_image_mset set_mset_mset mset_map)
  then obtain p where p: "tokPacket t = Some p" "p \<in># ps" using t by blast
  have "mset (map tokAddr (currentPackets state')) + mset (map tokAddr (freePackets state')) = mset (map tokAddr ts)"
    using assms(1) by (simp add: frag_inv_def s m(1) del: mset_remove1) (simp add: m(2) del: mset_remove1)
  moreover have "image_mset tokPacket c' = image_mset Some (ps - {#p#})"
  proof -
    have "add_mset (Some p) (image_mset tokPacket c') = image_mset Some ps"
      using assms(1) m p(1) by (simp add: frag_inv_def)
    also have "\<dots> = add_mset (Some p) (image_mset Some (ps - {#p#}))"
      using p(2) by (metis image_mset_add_mset insert_DiffM)
    finally show ?thesis by simp
  qed
  ultimately show ?thesis using assms(1) p
    by (simp add: frag_inv_def s m(2) del: mset_remove1) (metis in_diffD)
qed

lemma frag_reach_inv: "frag_reach ts state ps \<Longrightarrow> frag_inv ts state ps"
proof (induction rule: frag_reach.induct)
  case (init n)
  then show ?case
    by (cases "n = 0") (simp_all add: frag_inv_def whip6_lowpanFragmenterInit_def init_loop word_gt_0)
next
  case (start state ps p state' tok)
  then show ?case
    by (cases "freePackets state") (simp_all add: start_cases frag_inv_def split: if_splits, auto)
next
  case (refuse state ps p state')
  then show ?case by (simp add: start_cases split: if_splits)
next
  case (provide state ps tok h state' status)
  then show ?case using request_get(2) [of state tok h "(state', status)"]
    by (auto intro!: inv_put simp: tok_only_def)
next
  case (request state ps tok f state' f' status)
  from request_get(1) [OF request.hyps(2)] obtain t where t: "tok_get state tok = Some t" by blast
  from request_changes [OF request.hyps(2) t] show ?case
    using inv_put [OF request.IH t] request.IH by blast
next
  case (finish state ps tok state' p)
  then show ?case using inv_finish by fastforce
next
  case (unknown state ps tok state')
  then show ?case using inv_finish by fastforce
qed

section \<open>A whole run\<close>

lemma put_get: "tok_get (tok_put state t') tok = Some u \<Longrightarrow> tok_get state tok = Some t \<Longrightarrow> tok_only t t' \<Longrightarrow> u = t'"
  using tok_get_put [of state tok t t'] tok_get_addr [of state tok t] by (simp add: tok_only_def)

lemma request_keeps:
  assumes "whip6_lowpanFragmenterRequestNextFragmentOfIpv6Packet state tok f = Some (state', f', status)"
    and "tok_get state tok = Some t"
  shows "\<exists>t'. tok_get state' tok = Some t' \<and> tok_only t t' \<and> freePackets state' = freePackets state"
proof -
  have "\<exists>t'. tok_get (tok_put state t'') tok = Some t' \<and> tok_only t t'" if "tok_only t t''" for t''
    using that tok_get_put [OF assms(2), of t''] tok_get_addr [OF assms(2)] by (auto simp: tok_only_def)
  moreover have "tok_only t t" by (simp add: tok_only_def)
  ultimately show ?thesis using request_changes [OF assms] assms(2) by auto
qed

lemma frag_run_keeps:
  "frag_run k state tok f = Some (state', fs) \<Longrightarrow> tok_get state tok = Some t \<Longrightarrow>
   \<exists>t'. tok_get state' tok = Some t' \<and> tokPacket t' = tokPacket t \<and> freePackets state' = freePackets state"
proof (induction k arbitrary: state t fs)
  case (Suc k)
  obtain more where more: "whip6_lowpanFragmenterDoesNextFragmentOfIpv6PacketExist state tok = Some more"
    using Suc.prems(1) by (auto split: bind_splits)
  show ?case
  proof (cases more)
    case False
    then show ?thesis using Suc.prems more by auto
  next
    case True
    then obtain s1 f1 st where r: "whip6_lowpanFragmenterRequestNextFragmentOfIpv6Packet state tok f = Some (s1, f1, st)"
      using Suc.prems(1) more by (auto split: bind_splits)
    obtain t1 where t1: "tok_get s1 tok = Some t1" "tok_only t t1" "freePackets s1 = freePackets state"
      using request_keeps [OF r Suc.prems(2)] by blast
    show ?thesis
    proof (cases "st = WHIP6_NO_ERROR")
      case False
      then show ?thesis using Suc.prems(1) more True r t1 by (auto simp: tok_only_def)
    next
      case True
      then obtain fs' where "frag_run k s1 tok f = Some (state', fs')"
        using Suc.prems(1) more \<open>more\<close> r by (auto split: bind_splits)
      from Suc.IH [OF this t1(1)] t1(2,3) show ?thesis by (simp add: tok_only_def)
    qed
  qed
qed simp

lemma finish_get:
  "tok_get state tok = Some t \<Longrightarrow>
   \<exists>t' rest. whip6_lowpanFragmenterFinishFragmentingIpv6Packet state tok =
     (state\<lparr>currentPackets := rest, freePackets := t' # freePackets state\<rparr>, tokPacket t) \<and> tokAddr t' = tok"
  using tok_get_addr [of state tok t]
  by (intro exI [of _ "t\<lparr>tokPacket := None, lowpanHdrs := None\<rparr>"] exI)
    (auto simp: whip6_lowpanFragmenterFinishFragmentingIpv6Packet_def finish_loop_get tok_get_def)

lemma frames_carry_sum:
  "frames_carry dm sm ip f0 t p h off ns fs \<Longrightarrow> off + sum_list ns = pkt_total p \<and> length ns = length fs"
  by (induction dm sm ip f0 t p h off ns fs rule: frames_carry.induct) (auto simp: Let_def)

text \<open>The whole life of a token.\<close>

lemma send_packet:
  assumes "freePackets s = token # tokens" "(fragFlags s AND 1) = 0"
    and "packet_ok p" "pkt_total p \<le> length (pkt_bytes p)" "pkt_total p \<le> 1280"
    and "frame_fits dm sm ip f" "whip6_lowpanFrameHeadersHasMeshHeader h \<Longrightarrow> mesh_ok (hdrMesh h)"
    and "max_hdrs_len h + 8 \<le> unat (whip6_ieee154DFrameMaxPayloadLen f)"
  shows "\<exists>s1 s2 s3 s4 fs ns t. whip6_lowpanFragmenterStartFragmentingIpv6Packet s p = (s1, Some (tokAddr token)) \<and>
    whip6_lowpanFragmenterProvideAdditional6LoWPANHeadersForIpv6Packet s1 (tokAddr token) h = Some (s2, WHIP6_NO_ERROR) \<and>
    frag_run (Suc (pkt_total p)) s2 (tokAddr token) f = Some (s3, fs) \<and>
    frames_carry dm sm ip f (token\<lparr>tokFragTag := tagGenerator s\<rparr>) p h 0 ns fs \<and> sum_list ns = pkt_total p \<and>
    whip6_lowpanFragmenterDoesNextFragmentOfIpv6PacketExist s3 (tokAddr token) = Some False \<and>
    whip6_lowpanFragmenterFinishFragmentingIpv6Packet s3 (tokAddr token) = (s4, Some p) \<and>
    freePackets s4 = t # tokens \<and> tokAddr t = tokAddr token"
proof -
  let ?a = "tokAddr token"
  define t1 where "t1 = token\<lparr>tokPacket := Some p, lowpanHdrs := None, tokFragOffset := 0, tokFragTag := tagGenerator s\<rparr>"
  define s1 where "s1 = s\<lparr>freePackets := tokens, tagGenerator := tagGenerator s + 1, currentPackets := t1 # currentPackets s\<rparr>"
  define t2 where "t2 = t1\<lparr>lowpanHdrs := Some h\<rparr>"
  define s2 where "s2 = tok_put s1 t2"
  have send: "pkt_sendable p" using assms(3-5) by (simp add: pkt_sendable_def)
  have start: "whip6_lowpanFragmenterStartFragmentingIpv6Packet s p = (s1, Some ?a)"
    using assms(1,5) assms(4) [unfolded pkt_bytes_length [OF assms(3)]] by (simp add: start_cases s1_def t1_def)
  have g1: "tok_get s1 ?a = Some t1" by (simp add: tok_get_def s1_def t1_def)
  have prov: "whip6_lowpanFragmenterProvideAdditional6LoWPANHeadersForIpv6Packet s1 ?a h = Some (s2, WHIP6_NO_ERROR)"
    by (simp add: whip6_lowpanFragmenterProvideAdditional6LoWPANHeadersForIpv6Packet_def g1 s2_def t2_def)
  have g2: "tok_get s2 ?a = Some t2" unfolding s2_def by (intro tok_get_put [OF g1]) (simp add: t2_def t1_def)
  have same: "same_hdrs h h" by (simp add: same_hdrs_def)
  have "\<exists>s3 fs ns. frag_run (Suc (pkt_total p)) s2 ?a f = Some (s3, fs) \<and>
      frames_carry dm sm ip f (token\<lparr>tokFragTag := tagGenerator s\<rparr>) p h (unat (tokFragOffset t2)) ns fs \<and>
      whip6_lowpanFragmenterDoesNextFragmentOfIpv6PacketExist s3 ?a = Some False"
    by (rule frag_run_ok [OF g2 _ _ _ same _ send _ _ assms(7) assms(6) assms(8)])
      (simp_all add: s2_def t2_def t1_def s1_def assms(2))
  then obtain s3 fs ns where r: "frag_run (Suc (pkt_total p)) s2 ?a f = Some (s3, fs)"
    "frames_carry dm sm ip f (token\<lparr>tokFragTag := tagGenerator s\<rparr>) p h 0 ns fs"
    "whip6_lowpanFragmenterDoesNextFragmentOfIpv6PacketExist s3 ?a = Some False"
    by (auto simp: t2_def t1_def)
  obtain t3 where t3: "tok_get s3 ?a = Some t3" "tokPacket t3 = Some p" "freePackets s3 = tokens"
    using frag_run_keeps [OF r(1) g2] by (auto simp: t2_def t1_def s2_def s1_def)
  obtain s4 t where "whip6_lowpanFragmenterFinishFragmentingIpv6Packet s3 ?a = (s4, Some p)"
      "freePackets s4 = t # tokens" "tokAddr t = ?a"
    using finish_get [OF t3(1)] t3(2,3) by fastforce
  then show ?thesis using start prov r frames_carry_sum [OF r(2)] by auto
qed

section \<open>Properties\<close>

text \<open>C4: Sending a packet. A packet the fragmenter accepts is sent completely: the client's loop ends
  (after at most as many steps as the packet has bytes), every frame has the 802.15.4
  header of the frame it was written into and carries the given 6LoWPAN headers with the fragment header of its part, the first one the dispatch byte, then the packet
  bytes from the end of the part before; all parts but the last have a length divisible by 8, and
  together they are the packet. Finishing gives the packet back and frees the token.\<close>

theorem fragment_packet:
  assumes "freePackets s = token # tokens" "(fragFlags s AND 1) = 0"
    and "packet_ok p" "pkt_total p \<le> length (pkt_bytes p)" "pkt_total p \<le> 1280"
    and "frame_fits dm sm ip f" "whip6_lowpanFrameHeadersHasMeshHeader h \<Longrightarrow> mesh_ok (hdrMesh h)"
    and "max_hdrs_len h + 8 \<le> unat (whip6_ieee154DFrameMaxPayloadLen f)"
  shows "\<exists>s1 s2 s3 s4 fs ns t. whip6_lowpanFragmenterStartFragmentingIpv6Packet s p = (s1, Some (tokAddr token)) \<and>
    whip6_lowpanFragmenterProvideAdditional6LoWPANHeadersForIpv6Packet s1 (tokAddr token) h = Some (s2, WHIP6_NO_ERROR) \<and>
    frag_run (Suc (pkt_total p)) s2 (tokAddr token) f = Some (s3, fs) \<and>
    frames_carry dm sm ip f (token\<lparr>tokFragTag := tagGenerator s\<rparr>) p h 0 ns fs \<and> sum_list ns = pkt_total p \<and>
    whip6_lowpanFragmenterDoesNextFragmentOfIpv6PacketExist s3 (tokAddr token) = Some False \<and>
    whip6_lowpanFragmenterFinishFragmentingIpv6Packet s3 (tokAddr token) = (s4, Some p) \<and>
    freePackets s4 = t # tokens \<and> tokAddr t = tokAddr token"
  by (rule send_packet [OF assms])

definition ex_ipv6_packet :: ipv6_packet where
  "ex_ipv6_packet = \<lparr>pktAddr = 0,
     pktHeader = \<lparr>verTcFl = [0x60, 0, 0, 0], payloadLenBytes = [0, 200], nextHdrByte = 17, hopLimitByte = 64,
       hdrSrcAddr = replicate 16 1, hdrDstAddr = replicate 16 2\<rparr>,
     firstPayloadIov = [\<lparr>elemAddr = 1, elemBuf = replicate 200 7\<rparr>], lastPayloadIov = Some 1\<rparr>"

lemma ex_ipv6_packet_ok: "packet_ok ex_ipv6_packet" "pkt_total ex_ipv6_packet = 240"
  "length (pkt_bytes ex_ipv6_packet) = 240"
proof -
  show ok: "packet_ok ex_ipv6_packet" by (simp add: packet_ok_def ex_ipv6_packet_def header_ok_def)
  show "length (pkt_bytes ex_ipv6_packet) = 240" using pkt_bytes_length [OF ok] by (simp add: ex_ipv6_packet_def)
  show "pkt_total ex_ipv6_packet = 240"
    by (simp add: pkt_total_def ex_ipv6_packet_def whip6_ipv6BasicHeaderGetPayloadLength_def unat_u16_join)
qed

definition ex_token :: lowpan_frag_packet_state where
  "ex_token = \<lparr>tokAddr = 5, tokPacket = None, lowpanHdrs = None, tokFragOffset = 0, tokFragTag = 0\<rparr>"

definition ex_fragmenter :: lowpan_frag_global_state where
  "ex_fragmenter = whip6_lowpanFragmenterInit (Some [ex_token]) 1"

lemma ex_fragmenter_eq: "ex_fragmenter =
  \<lparr>currentPackets = [], freePackets = [ex_token], tagGenerator = 0, fragFlags = 0\<rparr>"
  by (simp add: ex_fragmenter_def whip6_lowpanFragmenterInit_def)

theorem fragment_packet_witness:
  "\<exists>s1 s2 s3 s4 fs ns t. whip6_lowpanFragmenterStartFragmentingIpv6Packet ex_fragmenter ex_ipv6_packet =
      (s1, Some (tokAddr ex_token)) \<and>
    whip6_lowpanFragmenterProvideAdditional6LoWPANHeadersForIpv6Packet s1 (tokAddr ex_token) ex_headers =
      Some (s2, WHIP6_NO_ERROR) \<and>
    frag_run (Suc (pkt_total ex_ipv6_packet)) s2 (tokAddr ex_token) ex_lowpan_frame = Some (s3, fs) \<and>
    frames_carry 2 3 False ex_lowpan_frame (ex_token\<lparr>tokFragTag := tagGenerator ex_fragmenter\<rparr>) ex_ipv6_packet ex_headers 0 ns fs \<and>
    sum_list ns = pkt_total ex_ipv6_packet \<and>
    whip6_lowpanFragmenterDoesNextFragmentOfIpv6PacketExist s3 (tokAddr ex_token) = Some False \<and>
    whip6_lowpanFragmenterFinishFragmentingIpv6Packet s3 (tokAddr ex_token) = (s4, Some ex_ipv6_packet) \<and>
    freePackets s4 = t # [] \<and> tokAddr t = tokAddr ex_token"
proof (rule fragment_packet [OF _ _ ex_ipv6_packet_ok(1) _ _ ex_lowpan_frame_fits])
  show "pkt_total ex_ipv6_packet \<le> length (pkt_bytes ex_ipv6_packet)" "pkt_total ex_ipv6_packet \<le> 1280"
    by (simp_all add: ex_ipv6_packet_ok)
  show "mesh_ok (hdrMesh ex_headers)"
    by (simp add: ex_headers_def mesh_ok_def addr_ok_def addr_mode_ok_def)
  have "fr_pay 2 3 False = 16" by (simp add: fr_defs)
  then have "unat (whip6_ieee154DFrameMaxPayloadLen ex_lowpan_frame) = 111"
    using unat_MaxPayloadLen(1) [OF ex_lowpan_frame_fits] by (simp add: ex_lowpan_frame_def fr_info_def)
  then show "max_hdrs_len ex_headers + 8 \<le> unat (whip6_ieee154DFrameMaxPayloadLen ex_lowpan_frame)"
    by (simp add: max_hdrs_len_def ex_headers_has)
      (simp add: ex_headers_def mesh_bytes_def addr_bytes_def addr_len_def frame_constants)
qed (simp_all add: ex_fragmenter_eq)

text \<open>C5: In every state the fragmenter can reach its tokens are the ones of the array it was started
  with, each either free or in use, and the tokens in use hold exactly the packets accepted and
  not yet finished, all of them within the packet limit.\<close>

theorem frag_tokens:
  assumes "frag_reach ts state ps"
  shows "distinct (map tokAddr (currentPackets state @ freePackets state)) \<and>
    mset (map tokAddr (currentPackets state @ freePackets state)) = mset (map tokAddr ts) \<and>
    mset (map tokPacket (currentPackets state)) = image_mset Some ps \<and>
    (\<forall>p \<in># ps. pkt_total p \<le> 1280 \<and> pkt_total p \<le> 40 + length (concat (pkt_iov p)))"
  using frag_reach_inv [OF assms] inv_distinct [OF frag_reach_inv [OF assms]] by (simp add: frag_inv_def)

theorem frag_tokens_witness:
  "\<exists>state tok. whip6_lowpanFragmenterStartFragmentingIpv6Packet ex_fragmenter ex_ipv6_packet = (state, Some tok) \<and>
    distinct (map tokAddr (currentPackets state @ freePackets state)) \<and>
    mset (map tokAddr (currentPackets state @ freePackets state)) = mset (map tokAddr [ex_token]) \<and>
    mset (map tokPacket (currentPackets state)) = image_mset Some {#ex_ipv6_packet#} \<and>
    (\<forall>p \<in># {#ex_ipv6_packet#}. pkt_total p \<le> 1280 \<and> pkt_total p \<le> 40 + length (concat (pkt_iov p)))"
proof -
  have "frag_reach [ex_token] ex_fragmenter {#}"
    unfolding ex_fragmenter_def by (rule frag_reach.init) simp_all
  moreover have "length (concat (pkt_iov ex_ipv6_packet)) = 200" by (simp add: ex_ipv6_packet_def)
  then obtain state tok where
    st: "whip6_lowpanFragmenterStartFragmentingIpv6Packet ex_fragmenter ex_ipv6_packet = (state, Some tok)"
    using ex_ipv6_packet_ok by (simp add: start_cases ex_fragmenter_eq)
  ultimately have "frag_reach [ex_token] state (add_mset ex_ipv6_packet {#})" by (rule frag_reach.start)
  from frag_tokens [OF this] st show ?thesis by blast
qed

text \<open>C6: A packet is refused exactly if no token is free, if it is longer than the 1280 bytes of a 6LoWPAN
  packet or if its I/O vector does not hold the payload its header announces, and then nothing
  changes; a request before the 6LoWPAN headers are provided is an error that changes neither
  the state nor the frame.\<close>

theorem frag_refusals:
  "(snd (whip6_lowpanFragmenterStartFragmentingIpv6Packet state p) = None \<longleftrightarrow>
      freePackets state = [] \<or> pkt_total p > 1280 \<or> pkt_total p > 40 + whip6_iovGetTotalLength (pkt_iov p)) \<and>
   (snd (whip6_lowpanFragmenterStartFragmentingIpv6Packet state p) = None \<longrightarrow>
      fst (whip6_lowpanFragmenterStartFragmentingIpv6Packet state p) = state) \<and>
   (\<forall>t. tok_get state tok = Some t \<longrightarrow> lowpanHdrs t = None \<longrightarrow>
      whip6_lowpanFragmenterRequestNextFragmentOfIpv6Packet state tok f = Some (state, f, WHIP6_STATE_ERROR))"
  by (auto simp: start_cases whip6_lowpanFragmenterRequestNextFragmentOfIpv6Packet_def)

theorem frag_refusals_witness:
  "snd (whip6_lowpanFragmenterStartFragmentingIpv6Packet
      (ex_fragmenter\<lparr>freePackets := [], currentPackets := [ex_token]\<rparr>) ex_ipv6_packet) = None \<and>
   fst (whip6_lowpanFragmenterStartFragmentingIpv6Packet
      (ex_fragmenter\<lparr>freePackets := [], currentPackets := [ex_token]\<rparr>) ex_ipv6_packet) =
      ex_fragmenter\<lparr>freePackets := [], currentPackets := [ex_token]\<rparr> \<and>
   whip6_lowpanFragmenterRequestNextFragmentOfIpv6Packet
      (ex_fragmenter\<lparr>freePackets := [], currentPackets := [ex_token]\<rparr>) 5 ex_lowpan_frame =
      Some (ex_fragmenter\<lparr>freePackets := [], currentPackets := [ex_token]\<rparr>, ex_lowpan_frame, WHIP6_STATE_ERROR)"
proof -
  let ?s = "ex_fragmenter\<lparr>freePackets := [], currentPackets := [ex_token]\<rparr>"
  have "tok_get ?s 5 = Some ex_token" "lowpanHdrs ex_token = None" "freePackets ?s = []"
    by (simp_all add: tok_get_def ex_token_def)
  with frag_refusals [of ?s ex_ipv6_packet 5 ex_lowpan_frame] show ?thesis by blast
qed

end
