(* ===== verification/Ieee154_FrameRead.thy ===== *)
theory Ieee154_FrameRead
  imports Ieee154_Frame
begin

text \<open>
  What a receiver finds in a frame that
  \<open>whip6_ieee154DFrameInfoReinitializeFrameForAddresses\<close> has built: the getters return the
  addresses and PAN identifiers, \<open>whip6_ieee154DFrameInfoExisting\<close> recovers the structure from
  the bytes alone, the destination test accepts the addressee, and
  \<open>whip6_ieee154DFrameInfoReinitializeFrameInOppositeDirection\<close> answers to the sender.
\<close>

section \<open>Reading the fields back\<close>

lemma frame_holds_fits:
  "frame_holds dst src dstPan srcPan f \<Longrightarrow> frame_fits (addrMode dst) (addrMode src) (srcPan \<noteq> None) f"
  by (simp add: frame_holds_def)

lemma frame_holds_layout:
  "frame_holds dst src dstPan srcPan f \<Longrightarrow> frame_layout (addrMode dst) (addrMode src) (srcPan \<noteq> None) f"
  by (simp add: frame_holds_def frame_fits_def)

lemma addr_of_range:
  assumes "addr_mode_ok (addrMode b)" "addr_ok b" "length v = 8"
  shows "addr_same \<lparr>addrMode = addrMode b, addrVars = mem_blit v 0 (addr_bytes b)\<rparr> b"
    and "addr_ok \<lparr>addrMode = addrMode b, addrVars = mem_blit v 0 (addr_bytes b)\<rparr>"
  using assms by (auto elim!: addr_mode_cases simp: addr_same_def addr_bytes_def addr_ok_def addr_len_def
      frame_constants mem_blit_def)

lemma frame_read_back:
  assumes h: "frame_holds dst src dstPan srcPan f"
    and ok: "addr_ok dst" "addr_ok src" "addr_ok a" "length pan = 2"
  shows "\<exists>a'. whip6_ieee154DFrameGetDstAddr f a = Some a' \<and> addr_same a' dst \<and> addr_ok a'"
    and "\<exists>a'. whip6_ieee154DFrameGetSrcAddr f a = Some a' \<and> addr_same a' src \<and> addr_ok a'"
    and "whip6_ieee154DFrameGetDstPanId f pan = Some dstPan"
    and "srcPan = Some p \<Longrightarrow> whip6_ieee154DFrameGetSrcPanId f pan = Some p"
proof -
  note fit = frame_holds_fits [OF h] and m = frame_layout_modes [OF frame_holds_layout [OF h]]
  note r = frame_readers [OF fit]
  have v: "length (addrVars a) = 8" using ok(3) by (simp add: addr_ok_def)
  have hs: "mem_range (bufferPtr f) 6 (addr_len (addrMode dst)) = addr_bytes dst"
    "mem_range (bufferPtr f) (fr_src (addrMode dst) (srcPan \<noteq> None)) (addr_len (addrMode src)) = addr_bytes src"
    "mem_range (bufferPtr f) 4 2 = dstPan"
    using h by (simp_all add: frame_holds_def)
  show "\<exists>a'. whip6_ieee154DFrameGetDstAddr f a = Some a' \<and> addr_same a' dst \<and> addr_ok a'"
    using r(2) [OF v] addr_of_range [OF m(1) ok(1) v] by (simp add: hs)
  show "\<exists>a'. whip6_ieee154DFrameGetSrcAddr f a = Some a' \<and> addr_same a' src \<and> addr_ok a'"
    using r(1) [OF v] addr_of_range [OF m(2) ok(2) v] unfolding hs by blast
  show "whip6_ieee154DFrameGetDstPanId f pan = Some dstPan" using r(3) [OF ok(4)] by (simp add: hs)
  show "srcPan = Some p \<Longrightarrow> whip6_ieee154DFrameGetSrcPanId f pan = Some p"
    using r(4) [OF ok(4)] h by (simp add: frame_holds_def)
qed

section \<open>Parsing the bytes\<close>

lemma build_parse:
  assumes "addr_ok dst" "addr_ok src" "addr_mode_ok (addrMode dst)" "addr_mode_ok (addrMode src)"
    and "length dstPan = 2" "\<And>p. srcPan = Some p \<Longrightarrow> length p = 2"
    and "fr_pay (addrMode dst) (addrMode src) (srcPan \<noteq> None) \<le> unat (bufferLen f)"
    and "unat (bufferLen f) \<le> length (bufferPtr f)"
  shows "\<exists>f'. whip6_ieee154DFrameInfoReinitializeFrameForAddresses f dst src dstPan srcPan =
      Some (f', WHIP6_NO_ERROR) \<and> frame_holds dst src dstPan srcPan f' \<and> bufferLen f' = bufferLen f \<and>
    (\<forall>g. whip6_ieee154DFrameInfoExisting g (bufferPtr f') (bufferLen f') = Some (f', WHIP6_NO_ERROR))"
proof -
  let ?dm = "addrMode dst" and ?sm = "addrMode src" and ?ip = "srcPan \<noteq> None"
  obtain f' rest where f': "whip6_ieee154DFrameInfoReinitializeFrameForAddresses f dst src dstPan srcPan =
      Some (f', WHIP6_NO_ERROR)" "frame_holds dst src dstPan srcPan f'" "bufferLen f' = bufferLen f"
    "bufferPtr f' = of_nat (fr_pay ?dm ?sm ?ip - 1) # fcf1 ?ip # fcf2 ?dm ?sm # 0 # rest"
    using Reinitialize_ok [OF assms] by blast
  have b: "10 \<le> fr_pay ?dm ?sm ?ip" "fr_pay ?dm ?sm ?ip \<le> 24"
    using fr_bounds(4,5) [OF assms(3,4)] by blast+
  have "whip6_ieee154DFrameInfoExisting g (bufferPtr f') (bufferLen f') = Some (f', WHIP6_NO_ERROR)" for g
  proof -
    have len: "6 \<le> unat (bufferLen f')" using le_trans [OF b(1) assms(7)] f'(3) by simp
    have u: "fr_pay ?dm ?sm ?ip - 1 \<le> unat (of_nat (fr_pay ?dm ?sm ?ip - 1) :: u8)"
      using b(2) by (subst unat_u8_of_nat) simp_all
    have "fr_info ?dm ?sm ?ip (bufferPtr f') (bufferLen f') = f'"
      by (rule fr_info_of_layout [OF frame_holds_layout [OF f'(2)], symmetric])
    with Existing_ok [OF assms(3,4) len u, of g "0 # rest", folded f'(4)] show ?thesis by metis
  qed
  with f' show ?thesis by blast
qed

section \<open>The destination\<close>

lemma or_diff_eq_0: "((a - b) OR (c - d) = 0) = (a = b \<and> c = (d :: u8))"
  by (simp add: or_eq_0_iff)

lemma range_two: "mem_range m i 2 = bs \<Longrightarrow> Suc i < length m \<Longrightarrow> m ! i = bs ! 0 \<and> m ! Suc i = bs ! 1"
  using mem_range_nth [of 0 2 i m] mem_range_nth [of 1 2 i m] by auto

lemma list_two_eq: "length a = 2 \<Longrightarrow> length b = 2 \<Longrightarrow> (a = b) = (a ! 0 = b ! 0 \<and> a ! Suc 0 = b ! Suc 0)"
  by (auto simp: list_eq_iff_nth_eq less_Suc_eq numeral_2_eq_2)

text \<open>The frame is for this node: a broadcast, its short address, or its extended address.\<close>

definition addressed_to :: "ieee154_addr \<Rightarrow> u8 list option \<Rightarrow> u8 list option \<Rightarrow> bool" where
  "addressed_to dst shrt ext =
     (if addrMode dst = 2
      then addr_bytes dst = [0xff, 0xff] \<or> shrt = Some (addr_bytes dst)
      else ext = Some (addr_bytes dst))"

lemma destination_matches:
  assumes h: "frame_holds dst src dstPan srcPan f" and ok: "addr_ok dst"
    and pan: "\<And>p. pan = Some p \<Longrightarrow> length p = 2" "length dstPan = 2"
    and own: "\<And>a. shrt = Some a \<Longrightarrow> length a = 2" "\<And>a. ext = Some a \<Longrightarrow> length a = 8"
  shows "whip6_ieee154DFrameInfoCheckIfDestinationMatches f pan shrt ext =
    Some ((pan = None \<or> pan = Some dstPan) \<and> addressed_to dst shrt ext)"
proof -
  note lay = frame_holds_layout [OF h] and b = frame_fits_bounds [OF frame_holds_fits [OF h]]
  note off = frame_layout_offsets [OF lay] and m = frame_layout_modes [OF lay]
  have rd: "mem_range (bufferPtr f) 4 2 = dstPan"
    "mem_range (bufferPtr f) 6 (addr_len (addrMode dst)) = addr_bytes dst"
    using h by (simp_all add: frame_holds_def)
  have p: "bufferPtr f ! 4 = dstPan ! 0" "bufferPtr f ! 5 = dstPan ! Suc 0"
    using range_two [OF rd(1)] b(1) by simp_all
  have panok: "(case pan of None \<Rightarrow> Some True | Some panId \<Rightarrow>
      do { let off = unat IEEE154_DFRAME_INITIAL_OFFSET;
           a0 \<leftarrow> frame_get f off; b0 \<leftarrow> buf_get panId 0;
           a1 \<leftarrow> frame_get f (Suc off); b1 \<leftarrow> buf_get panId 1;
           Some (((a0 - b0) OR (a1 - b1)) = 0) }) = Some (pan = None \<or> pan = Some dstPan)"
    using pan b(1) p by (auto simp: frame_get_def frame_constants or_diff_eq_0 list_two_eq split: option.splits)
  show ?thesis
  proof (cases "addrMode dst = 2")
    case True
    then have l: "length (addr_bytes dst) = 2" using ok by (simp add: addr_bytes_def addr_ok_def addr_len_def frame_constants)
    have rr: "mem_range (bufferPtr f) 6 2 = addr_bytes dst" using rd(2) True by (simp add: addr_len_def frame_constants)
    have r: "bufferPtr f ! 6 = addr_bytes dst ! 0" "bufferPtr f ! 7 = addr_bytes dst ! Suc 0"
      using range_two [OF rr] b(1) by simp_all
    show ?thesis unfolding whip6_ieee154DFrameInfoCheckIfDestinationMatches_def panok
      using True b(1) r l own(1)
      by (auto simp: off frame_get_def frame_constants or_diff_eq_0 addressed_to_def list_two_eq split: option.splits)
  next
    case False
    then have d3: "addrMode dst = 3" using m(1) by (simp add: addr_mode_ok_def)
    then have l: "length (addr_bytes dst) = 8" using ok by (simp add: addr_bytes_def addr_ok_def addr_len_def frame_constants)
    have rr: "take 8 (drop 6 (bufferPtr f)) = addr_bytes dst"
      using rd(2) d3 by (simp add: addr_len_def frame_constants mem_range_def)
    have "14 \<le> length (bufferPtr f)" using b(2) d3 by (simp add: addr_len_def frame_constants)
    then have cmp: "\<exists>r. whip6_shortMemCmp (bufferPtr f) 6 e 0 8 = Some r \<and> (r = 0) = (addr_bytes dst = e)"
      if "length e = 8" for e
      using shortMemCmp_Some [of 6 8 "bufferPtr f" 0 e] that rr by auto
    show ?thesis unfolding whip6_ieee154DFrameInfoCheckIfDestinationMatches_def panok
      using d3 cmp own(2)
      by (fastforce simp: off frame_constants addressed_to_def split: option.splits)
  qed
qed

section \<open>The reply\<close>

lemma mem_range_Suc: "i < length m \<Longrightarrow> mem_range m i (Suc n) = m ! i # mem_range m (Suc i) n"
  by (simp add: mem_range_def Cons_nth_drop_Suc [symmetric])

lemma frame_copy_loop_eq:
  "i + n \<le> length m \<Longrightarrow> k + n \<le> length (bufferPtr f) \<Longrightarrow>
   frame_copy_loop m i f k n = Some (frame_blit k (mem_range m i n) f)"
proof (induction n arbitrary: i k f)
  case 0
  then show ?case by (simp add: frame_blit_def mem_range_def)
next
  case (Suc n)
  then show ?case
    using mem_blit_update [of k "mem_range m (Suc i) n" "bufferPtr f" "m ! i"]
    by (simp add: frame_put_def frame_blit_def mem_range_Suc)
qed

text \<open>The buffer of the reply, field by field.\<close>

definition reply_buffer :: "u8 \<Rightarrow> u8 \<Rightarrow> bool \<Rightarrow> u8 list \<Rightarrow> u8 list \<Rightarrow> u8 list" where
  "reply_buffer dm sm ip inb buf =
     (let b1 = mem_blit buf 4 (mem_range inb (if ip then fr_srcpan dm else 4) 2);
          b2 = mem_blit b1 6 (mem_range inb (fr_src dm ip) (addr_len sm));
          b3 = (if ip then mem_blit b2 (fr_srcpan sm) (mem_range inb 4 2) else b2);
          b4 = mem_blit b3 (fr_src sm ip) (mem_range inb 6 (addr_len dm))
      in b4[1 := inb ! 1, 2 := drop_bit 4 (inb ! 2) OR push_bit 4 (inb ! 2)])"

lemma reply_ok:
  assumes lay: "frame_layout dm sm ip f" and inb: "fr_pay dm sm ip \<le> length (bufferPtr f)"
    and out: "fr_pay dm sm ip + 2 \<le> unat (bufferLen g)" "unat (bufferLen g) \<le> length (bufferPtr g)"
  shows "whip6_ieee154DFrameInfoReinitializeFrameInOppositeDirection g f =
    Some (fr_info sm dm ip (reply_buffer dm sm ip (bufferPtr f) (bufferPtr g)) (bufferLen g), WHIP6_NO_ERROR)"
proof -
  define inB where "inB = bufferPtr f"
  define outB where "outB = bufferPtr g"
  define len where "len = bufferLen g"
  note m = frame_layout_modes [OF lay]
  have f: "f = fr_info dm sm ip inB (bufferLen f)" unfolding inB_def by (rule fr_info_of_layout [OF lay])
  have g: "bufferPtr g = outB" "bufferLen g = len" by (simp_all add: outB_def len_def)
  have l: "fr_pay dm sm ip \<le> length inB" "fr_pay dm sm ip + 2 \<le> unat len" "unat len \<le> length outB"
    using inb out by (simp_all add: inB_def outB_def len_def)
  have ol: "fr_pay dm sm ip + 2 \<le> length outB" using l by linarith
  have ne: "outB \<noteq> []" using ol by auto
  show ?thesis
    unfolding inB_def [symmetric] outB_def [symmetric] len_def [symmetric]
    using m l(1,2) ol ne
    by (subst f, elim addr_mode_cases; cases ip)
      (simp_all add: whip6_ieee154DFrameInfoReinitializeFrameInOppositeDirection_def
        reply_buffer_def fr_info_def fr_defs g Let_def frame_copy_loop_eq frame_get_def frame_put_def frame_blit_def)
qed

lemma reply_buffer_fields:
  assumes "addr_mode_ok dm" "addr_mode_ok sm" "fr_pay dm sm ip \<le> length inb" "fr_pay dm sm ip \<le> length buf"
  shows "length (reply_buffer dm sm ip inb buf) = length buf"
    "mem_range (reply_buffer dm sm ip inb buf) 4 2 = mem_range inb (if ip then fr_srcpan dm else 4) 2"
    "mem_range (reply_buffer dm sm ip inb buf) 6 (addr_len sm) = mem_range inb (fr_src dm ip) (addr_len sm)"
    "ip \<Longrightarrow> mem_range (reply_buffer dm sm ip inb buf) (fr_srcpan sm) 2 = mem_range inb 4 2"
    "mem_range (reply_buffer dm sm ip inb buf) (fr_src sm ip) (addr_len dm) = mem_range inb 6 (addr_len dm)"
    "reply_buffer dm sm ip inb buf ! 1 = inb ! 1"
    "reply_buffer dm sm ip inb buf ! 2 = (drop_bit 4 (inb ! 2) OR push_bit 4 (inb ! 2))"
  using assms
  by (elim addr_mode_cases; cases ip;
      simp add: reply_buffer_def fr_defs Let_def mem_range_update_other mem_range_blit_other)+

lemma fcf2_swap: "addr_mode_ok dm \<Longrightarrow> addr_mode_ok sm \<Longrightarrow>
  drop_bit 4 (fcf2 dm sm) OR push_bit 4 (fcf2 dm sm) = fcf2 sm dm"
  by (auto elim!: addr_mode_cases simp: fcf2_def)

lemma reply_frame:
  assumes h: "frame_holds dst src dstPan srcPan f"
    and ok: "addr_ok dst" "addr_ok src"
    and fcf: "bufferPtr f ! 1 = fcf1 (srcPan \<noteq> None)" "bufferPtr f ! 2 = fcf2 (addrMode dst) (addrMode src)"
    and out: "fr_pay (addrMode dst) (addrMode src) (srcPan \<noteq> None) + 2 \<le> unat (bufferLen g)"
      "unat (bufferLen g) \<le> length (bufferPtr g)"
  shows "\<exists>g'. whip6_ieee154DFrameInfoReinitializeFrameInOppositeDirection g f = Some (g', WHIP6_NO_ERROR) \<and>
    frame_holds src dst (case srcPan of None \<Rightarrow> dstPan | Some p \<Rightarrow> p) (map_option (\<lambda>p. dstPan) srcPan) g' \<and>
    bufferPtr g' ! 1 = fcf1 (srcPan \<noteq> None) \<and> bufferPtr g' ! 2 = fcf2 (addrMode src) (addrMode dst)"
proof -
  define dm where "dm = addrMode dst"
  define sm where "sm = addrMode src"
  define ip where "ip = (srcPan \<noteq> None)"
  define B where "B = reply_buffer dm sm ip (bufferPtr f) (bufferPtr g)"
  have lay: "frame_layout dm sm ip f" and fit: "frame_fits dm sm ip f"
    using frame_holds_layout [OF h] frame_holds_fits [OF h] by (simp_all add: dm_def sm_def ip_def)
  note m = frame_layout_modes [OF lay]
  have rng: "mem_range (bufferPtr f) 4 2 = dstPan" "mem_range (bufferPtr f) 6 (addr_len dm) = addr_bytes dst"
    "mem_range (bufferPtr f) (fr_src dm ip) (addr_len sm) = addr_bytes src"
    "srcPan = Some p \<Longrightarrow> mem_range (bufferPtr f) (fr_srcpan dm) 2 = p" for p
    using h by (simp_all add: frame_holds_def dm_def sm_def ip_def)
  have out': "fr_pay dm sm ip + 2 \<le> unat (bufferLen g)" using out(1) by (simp add: dm_def sm_def ip_def)
  have room: "fr_pay dm sm ip \<le> length (bufferPtr f)" "fr_pay dm sm ip \<le> length (bufferPtr g)"
    using fit out' out(2) by (auto simp: frame_fits_def)
  note flds = reply_buffer_fields [OF m room, folded B_def]
  define g' where "g' = fr_info sm dm ip B (bufferLen g)"
  have res: "whip6_ieee154DFrameInfoReinitializeFrameInOppositeDirection g f = Some (g', WHIP6_NO_ERROR)"
    unfolding g'_def B_def by (rule reply_ok [OF lay room(1) out' out(2)])
  have g': "bufferPtr g' = B" "bufferLen g' = bufferLen g" by (simp_all add: g'_def fr_info_def)
  have sym: "fr_pay sm dm ip = fr_pay dm sm ip" by (simp add: fr_pay_def fr_src_def fr_srcpan_def)
  have "frame_fits sm dm ip g'"
    using fr_info_layout [OF m(2,1)] out' out(2) flds(1) by (simp add: frame_fits_def g' sym) (simp add: g'_def)
  moreover have "mem_range B 4 2 = (case srcPan of None \<Rightarrow> dstPan | Some p \<Rightarrow> p)"
    using flds(2) rng(1,4) by (simp add: ip_def split: option.splits)
  moreover have "map_option (\<lambda>p. dstPan) srcPan \<noteq> None \<longleftrightarrow> ip" by (simp add: ip_def)
  moreover have "mem_range B (fr_srcpan sm) 2 = dstPan" if ip using flds(4) that rng(1) by simp
  ultimately have "frame_holds src dst (case srcPan of None \<Rightarrow> dstPan | Some p \<Rightarrow> p) (map_option (\<lambda>p. dstPan) srcPan) g'"
    using flds(3,5) rng(2,3)
    unfolding frame_holds_def dm_def [symmetric] sm_def [symmetric] g'(1)
    by (cases srcPan) (auto simp: ip_def)
  moreover have "B ! 1 = fcf1 (srcPan \<noteq> None)" "B ! 2 = fcf2 sm dm"
    using flds(6,7) fcf fcf2_swap [OF m] by (simp_all add: dm_def sm_def)
  ultimately show ?thesis using res g'(1) by (auto simp: dm_def sm_def)
qed

section \<open>Properties\<close>

text \<open>C13: A frame that the sender lays out for two addresses (short or extended) and one or two PAN
  identifiers is recovered by the receiver from its bytes: parsing them gives the same structure,
  and the getters give the addresses and the PAN identifiers back.\<close>

theorem frame_build_parse:
  assumes "addr_ok dst" "addr_ok src" "addr_mode_ok (addrMode dst)" "addr_mode_ok (addrMode src)"
    and "length dstPan = 2" "\<And>p. srcPan = Some p \<Longrightarrow> length p = 2"
    and "fr_pay (addrMode dst) (addrMode src) (srcPan \<noteq> None) \<le> unat (bufferLen f)"
    and "unat (bufferLen f) \<le> length (bufferPtr f)"
    and "addr_ok a" "length pan = 2"
  shows "\<exists>f'. whip6_ieee154DFrameInfoReinitializeFrameForAddresses f dst src dstPan srcPan =
      Some (f', WHIP6_NO_ERROR) \<and>
    whip6_ieee154DFrameInfoExisting g (bufferPtr f') (bufferLen f') = Some (f', WHIP6_NO_ERROR) \<and>
    (\<exists>d. whip6_ieee154DFrameGetDstAddr f' a = Some d \<and> addr_same d dst) \<and>
    (\<exists>s. whip6_ieee154DFrameGetSrcAddr f' a = Some s \<and> addr_same s src) \<and>
    whip6_ieee154DFrameGetDstPanId f' pan = Some dstPan \<and>
    (srcPan \<noteq> None \<longrightarrow> whip6_ieee154DFrameGetSrcPanId f' pan = srcPan)"
proof -
  obtain f' where f': "whip6_ieee154DFrameInfoReinitializeFrameForAddresses f dst src dstPan srcPan =
      Some (f', WHIP6_NO_ERROR)" "frame_holds dst src dstPan srcPan f'"
    "\<forall>g. whip6_ieee154DFrameInfoExisting g (bufferPtr f') (bufferLen f') = Some (f', WHIP6_NO_ERROR)"
    using build_parse [OF assms(1-8)] by blast
  note r = frame_read_back [OF f'(2) assms(1,2,9,10)]
  have "srcPan \<noteq> None \<longrightarrow> whip6_ieee154DFrameGetSrcPanId f' pan = srcPan" using r(4) by auto
  with f'(1,3) r(1-3) show ?thesis by blast
qed

definition ex_addr :: "u16 \<Rightarrow> ieee154_addr" where
  "ex_addr v = \<lparr>addrMode = 2, addrVars = [u16_lo v, u16_hi v, 0, 0, 0, 0, 0, 0]\<rparr>"

definition ex_frame :: ieee154_dframe_info where
  "ex_frame = \<lparr>bufferPtr = replicate 127 0, bufferLen = 127, frameFlags = 0, payloadAndDstAddrOff = 0,
     srcPanAndAddrOff = 0\<rparr>"

lemma ex_addr_ok [simp]: "addr_ok (ex_addr v)" "addr_mode_ok 2" "addr_mode_ok 3" "addrMode (ex_addr v) = 2"
  by (simp_all add: ex_addr_def addr_ok_def addr_mode_ok_def)

lemma ex_frame_room [simp]: "bufferLen ex_frame = 127" "length (bufferPtr ex_frame) = 127"
  by (simp_all add: ex_frame_def)

theorem frame_build_parse_witness:
  "\<exists>f'. whip6_ieee154DFrameInfoReinitializeFrameForAddresses ex_frame (ex_addr 1) (ex_addr 2) [1, 2] None =
      Some (f', WHIP6_NO_ERROR) \<and>
    whip6_ieee154DFrameInfoExisting ex_frame (bufferPtr f') (bufferLen f') = Some (f', WHIP6_NO_ERROR) \<and>
    (\<exists>d. whip6_ieee154DFrameGetDstAddr f' (ex_addr 0) = Some d \<and> addr_same d (ex_addr 1)) \<and>
    (\<exists>s. whip6_ieee154DFrameGetSrcAddr f' (ex_addr 0) = Some s \<and> addr_same s (ex_addr 2)) \<and>
    whip6_ieee154DFrameGetDstPanId f' [0, 0] = Some [1, 2] \<and>
    (None \<noteq> (None :: u8 list option) \<longrightarrow> whip6_ieee154DFrameGetSrcPanId f' [0, 0] = None)"
  by (rule frame_build_parse) (simp_all add: fr_defs)

text \<open>The destination test of a receiver accepts exactly the frames of its PAN (of any PAN, if it
  gives none) that are broadcast or carry its own short or extended address.\<close>

theorem frame_destination:
  assumes "frame_holds dst src dstPan srcPan f" "addr_ok dst"
    and "\<And>p. pan = Some p \<Longrightarrow> length p = 2" "length dstPan = 2"
    and "\<And>a. shrt = Some a \<Longrightarrow> length a = 2" "\<And>a. ext = Some a \<Longrightarrow> length a = 8"
  shows "whip6_ieee154DFrameInfoCheckIfDestinationMatches f pan shrt ext =
    Some ((pan = None \<or> pan = Some dstPan) \<and> addressed_to dst shrt ext)"
  by (rule destination_matches [OF assms])

theorem frame_destination_witness:
  "\<exists>f. whip6_ieee154DFrameInfoReinitializeFrameForAddresses ex_frame (ex_addr 1) (ex_addr 2) [1, 2] None =
      Some (f, WHIP6_NO_ERROR) \<and>
    whip6_ieee154DFrameInfoCheckIfDestinationMatches f (Some [1, 2]) (Some [1, 0]) None =
      Some ((Some [1, 2] = (None :: u8 list option) \<or> Some [1, 2] = Some [1, 2 :: u8]) \<and>
        addressed_to (ex_addr 1) (Some [1, 0]) None)"
proof -
  obtain f where f: "whip6_ieee154DFrameInfoReinitializeFrameForAddresses ex_frame (ex_addr 1) (ex_addr 2) [1, 2] None =
      Some (f, WHIP6_NO_ERROR)" "frame_holds (ex_addr 1) (ex_addr 2) [1, 2] None f"
    using build_parse [of "ex_addr 1" "ex_addr 2" "[1, 2]" None ex_frame]
    by (auto simp: fr_defs)
  have "whip6_ieee154DFrameInfoCheckIfDestinationMatches f (Some [1, 2]) (Some [1, 0]) None =
      Some ((Some [1, 2] = (None :: u8 list option) \<or> Some [1, 2] = Some [1, 2 :: u8]) \<and>
        addressed_to (ex_addr 1) (Some [1, 0]) None)"
    by (rule frame_destination [OF f(2)]) auto
  with f(1) show ?thesis by blast
qed

text \<open>C14: The reply frame goes from the addressee to the sender: its source is the destination of the
  incoming frame, its destination the source, and the PAN identifiers change places with them.\<close>

theorem frame_reply:
  assumes "frame_holds dst src dstPan srcPan f" "addr_ok dst" "addr_ok src"
    and "bufferPtr f ! 1 = fcf1 (srcPan \<noteq> None)" "bufferPtr f ! 2 = fcf2 (addrMode dst) (addrMode src)"
    and "fr_pay (addrMode dst) (addrMode src) (srcPan \<noteq> None) + 2 \<le> unat (bufferLen g)"
      "unat (bufferLen g) \<le> length (bufferPtr g)"
  shows "\<exists>g'. whip6_ieee154DFrameInfoReinitializeFrameInOppositeDirection g f = Some (g', WHIP6_NO_ERROR) \<and>
    frame_holds src dst (case srcPan of None \<Rightarrow> dstPan | Some p \<Rightarrow> p) (map_option (\<lambda>p. dstPan) srcPan) g' \<and>
    bufferPtr g' ! 1 = fcf1 (srcPan \<noteq> None) \<and> bufferPtr g' ! 2 = fcf2 (addrMode src) (addrMode dst)"
  by (rule reply_frame [OF assms])

theorem frame_reply_witness:
  "\<exists>f g'. whip6_ieee154DFrameInfoReinitializeFrameForAddresses ex_frame (ex_addr 1) (ex_addr 2) [1, 2] (Some [3, 4]) =
      Some (f, WHIP6_NO_ERROR) \<and>
    whip6_ieee154DFrameInfoReinitializeFrameInOppositeDirection ex_frame f = Some (g', WHIP6_NO_ERROR) \<and>
    frame_holds (ex_addr 2) (ex_addr 1) [3, 4] (Some [1, 2]) g'"
proof -
  have pre: "fr_pay (addrMode (ex_addr 1)) (addrMode (ex_addr 2)) (Some [3, 4 :: u8] \<noteq> None) = 12"
    by (simp add: fr_defs)
  obtain f rest where f: "whip6_ieee154DFrameInfoReinitializeFrameForAddresses ex_frame (ex_addr 1) (ex_addr 2)
      [1, 2] (Some [3, 4]) = Some (f, WHIP6_NO_ERROR)"
    and h: "frame_holds (ex_addr 1) (ex_addr 2) [1, 2] (Some [3, 4]) f"
    and b: "bufferPtr f = of_nat (12 - 1) # fcf1 (Some [3, 4 :: u8] \<noteq> None) #
      fcf2 (addrMode (ex_addr 1)) (addrMode (ex_addr 2)) # 0 # rest"
    using Reinitialize_ok [of "ex_addr 1" "ex_addr 2" "[1, 2]" "Some [3, 4]" ex_frame, unfolded pre] by auto
  have "bufferPtr f ! 1 = fcf1 (Some [3, 4 :: u8] \<noteq> None)"
    "bufferPtr f ! 2 = fcf2 (addrMode (ex_addr 1)) (addrMode (ex_addr 2))"
    unfolding b by simp_all
  from frame_reply [OF h _ _ this, of ex_frame, unfolded pre] f show ?thesis by auto
qed

text \<open>Whatever bytes arrive, a frame that the parser accepts has one of the eight layouts, with all its
  offsets, and a length byte that covers its header.\<close>

theorem frame_parse_layout:
  assumes "whip6_ieee154DFrameInfoExisting f buf len = Some (f', WHIP6_NO_ERROR)"
  shows "\<exists>dm sm ip. frame_layout dm sm ip f' \<and> bufferPtr f' = buf \<and> bufferLen f' = len \<and> 6 \<le> unat len \<and>
    3 \<le> length buf \<and> fr_pay dm sm ip - 1 \<le> unat (buf ! 0)"
  by (rule Existing_layout [OF assms])

theorem frame_parse_layout_witness:
  "\<exists>f' dm sm ip. whip6_ieee154DFrameInfoExisting ex_frame [9, 0x41, 0x88] 6 = Some (f', WHIP6_NO_ERROR) \<and>
    frame_layout dm sm ip f' \<and> bufferPtr f' = [9, 0x41, 0x88] \<and> bufferLen f' = 6 \<and>
    fr_pay dm sm ip - 1 \<le> unat ([9, 0x41, 0x88 :: u8] ! 0)"
proof -
  have "whip6_ieee154DFrameInfoExisting ex_frame (9 # fcf1 False # fcf2 2 2 # []) 6 =
      Some (fr_info 2 2 False (9 # fcf1 False # fcf2 2 2 # []) 6, WHIP6_NO_ERROR)"
    by (rule Existing_ok) (simp_all add: addr_mode_ok_def fr_defs)
  then have e: "whip6_ieee154DFrameInfoExisting ex_frame [9, 0x41, 0x88] 6 =
      Some (fr_info 2 2 False [9, 0x41, 0x88] 6, WHIP6_NO_ERROR)"
    by (simp add: fcf1_def fcf2_def)
  from frame_parse_layout [OF this] e show ?thesis by blast
qed

text \<open>Setting the length of the payload is what reading it returns.\<close>

theorem frame_payload_length:
  assumes "frame_fits dm sm ip f"
  shows "\<exists>f'. whip6_ieee154DFrameSetPayloadLen f len = Some f' \<and> frame_fits dm sm ip f' \<and>
    whip6_ieee154DFrameGetPayloadLen f' = Some len"
  by (rule SetPayloadLen_Get [OF assms])

theorem frame_payload_length_witness:
  "\<exists>f'. whip6_ieee154DFrameSetPayloadLen (fr_info 2 3 False (replicate 127 0) 127) 20 = Some f' \<and>
    frame_fits 2 3 False f' \<and> whip6_ieee154DFrameGetPayloadLen f' = Some 20"
proof (rule frame_payload_length)
  show "frame_fits 2 3 False (fr_info 2 3 False (replicate 127 0) 127)"
    using fr_info_layout [of 2 3 False "replicate 127 0" 127]
    by (simp add: frame_fits_def addr_mode_ok_def) (simp add: fr_info_def fr_defs)
qed

end
