(* ===== verification/Lowpan_EndToEnd.thy ===== *)
theory Lowpan_EndToEnd
  imports Lowpan_ReassemblyLive Lowpan_FragmentationState Ieee154_FrameRead
begin

text \<open>
  From the fragmenter of one node to the defragmenter of another: what is sent is what is
  delivered.
\<close>

section \<open>Frames of the fragmenter at the receiver\<close>

lemma frame_holds_same:
  assumes "frame_holds dst src pan None f0" "frame_fits (addrMode dst) (addrMode src) False f"
    and "mem_range (bufferPtr f) 1 (fr_pay (addrMode dst) (addrMode src) False - 1) =
      mem_range (bufferPtr f0) 1 (fr_pay (addrMode dst) (addrMode src) False - 1)"
  shows "frame_holds dst src pan None f"
proof -
  have sub: "mem_range (bufferPtr f) i n = mem_range (bufferPtr f0) i n"
    if "1 \<le> i" "i + n \<le> fr_pay (addrMode dst) (addrMode src) False" for i n
  proof -
    let ?P = "fr_pay (addrMode dst) (addrMode src) False"
    have "mem_range m i n = take n (drop (i - 1) (mem_range m 1 (?P - 1)))" for m :: "u8 list"
      using that by (simp add: mem_range_def drop_take min_def)
    then show ?thesis using assms(3) by simp
  qed
  have m: "addr_mode_ok (addrMode dst)" "addr_mode_ok (addrMode src)"
    using assms(2) by (simp_all add: frame_fits_def frame_layout_def)
  then have "6 + addr_len (addrMode dst) \<le> fr_pay (addrMode dst) (addrMode src) False"
    "1 \<le> fr_src (addrMode dst) False"
    "fr_src (addrMode dst) False + addr_len (addrMode src) \<le> fr_pay (addrMode dst) (addrMode src) False"
    by (auto elim!: addr_mode_cases simp: fr_defs)
  then show ?thesis using assms(1,2) sub by (simp add: frame_holds_def)
qed

text \<open>The key under which the fragments of a token are reassembled.\<close>

definition transfer_key ::
  "u16 \<Rightarrow> lowpan_unpacked_frame_headers \<Rightarrow> ieee154_addr \<Rightarrow> ieee154_addr \<Rightarrow> ieee154_pan_id \<Rightarrow>
   lowpan_defrag_frag_set_key" where
  "transfer_key tag h dst src pan =
     \<lparr>keyTag = tag,
      srcLinkAddr = (if whip6_lowpanFrameHeadersHasMeshHeader h then meshSrcAddr (hdrMesh h) else src),
      dstLinkAddr = (if whip6_lowpanFrameHeadersHasMeshHeader h then meshDstAddr (hdrMesh h) else dst),
      commonPanId = pan\<rparr>"

lemma virtual_mesh:
  assumes h: "hdrs_same h1 H" "mesh_room (hdrMesh h1)" "whip6_lowpanFrameHeadersHasFragHeader H"
    and f: "frame_holds dst src pan None f" "addr_ok dst" "addr_ok src" "length pan = 2"
  shows "\<exists>h2. whip6_lowpanDefragmenterCreateVirtualMeshHeaderIfNecessary f h1 = Some h2 \<and>
    whip6_lowpanFrameHeadersHasFragHeader h2 \<and> hdrFrag h2 = hdrFrag H \<and> nextOffset h2 = nextOffset h1 \<and>
    mesh_addrs_ok h2 \<and>
    key_same (transfer_key (fragTag (hdrFrag H)) H dst src pan) h2 pan"
proof (cases "whip6_lowpanFrameHeadersHasMeshHeader H")
  case True
  then show ?thesis using h
    by (simp add: whip6_lowpanDefragmenterCreateVirtualMeshHeaderIfNecessary_def hdrs_same_def mesh_same_def
        mesh_room_def mesh_addrs_ok_def key_same_def transfer_key_def addr_same_sym)
next
  case False
  have room: "addr_ok (meshDstAddr (hdrMesh h1))" "addr_ok (meshSrcAddr (hdrMesh h1))"
    using h(2) by (simp_all add: mesh_room_def)
  obtain d where d: "whip6_ieee154DFrameGetDstAddr f (meshDstAddr (hdrMesh h1)) = Some d" "addr_same d dst" "addr_ok d"
    using frame_read_back(1) [OF f(1-3) room(1) f(4)] by blast
  obtain sr where sr: "whip6_ieee154DFrameGetSrcAddr f (meshSrcAddr (hdrMesh h1)) = Some sr" "addr_same sr src" "addr_ok sr"
    using frame_read_back(2) [OF f(1-3) room(2) f(4)] by blast
  let ?h = "h1\<lparr>hdrMesh := \<lparr>hopLimit = 1, meshSrcAddr = sr, meshDstAddr = d\<rparr>\<rparr>"
  have "whip6_lowpanDefragmenterCreateVirtualMeshHeaderIfNecessary f h1 = Some ?h"
    using False h(1) d(1) sr(1)
    by (simp add: whip6_lowpanDefragmenterCreateVirtualMeshHeaderIfNecessary_def hdrs_same_def)
  moreover have "whip6_lowpanFrameHeadersHasFragHeader ?h = whip6_lowpanFrameHeadersHasFragHeader h1"
    by (simp add: whip6_lowpanFrameHeadersHasFragHeader_def)
  ultimately show ?thesis using False h(1,3) d sr
    by (simp add: hdrs_same_def mesh_addrs_ok_def key_same_def transfer_key_def addr_same_sym)
qed

lemma carried_part:
  assumes car: "frame_carries (addrMode dst) (addrMode src) False f0
      (hdrs_bytes (request_hdrs t p h) @ request_part t p n) f"
    and t: "tokFragOffset t = of_nat off" and off: "0 < n" "off + n \<le> pkt_total p" "8 dvd off"
    and p: "pkt_sendable p" and m: "whip6_lowpanFrameHeadersHasMeshHeader h \<Longrightarrow> mesh_ok (hdrMesh h)"
    and f0: "frame_holds dst src pan None f0" "addr_ok dst" "addr_ok src"
    and h0: "mesh_room (hdrMesh h0)"
  shows "frame_part (transfer_key (tokFragTag t) h dst src pan) (take (pkt_total p) (pkt_bytes p)) (h0, f, now) (off, n)"
proof -
  let ?dm = "addrMode dst" and ?sm = "addrMode src" and ?H = "request_hdrs t p h"
  let ?pay = "fr_pay ?dm ?sm False" and ?hb = "hdrs_bytes ?H" and ?b = "request_part t p n"
  define len where "len = (of_nat (length (?hb @ ?b)) :: u8)"
  have c: "frame_fits ?dm ?sm False f" "whip6_ieee154DFrameGetPayloadLen f = Some len" "length (?hb @ ?b) < 256"
    "holds_at (bufferPtr f) ?pay (?hb @ ?b)"
    "mem_range (bufferPtr f) 1 (?pay - 1) = mem_range (bufferPtr f0) 1 (?pay - 1)"
    using car by (simp_all add: frame_carries_def len_def)
  have lay: "frame_layout ?dm ?sm False f" using c(1) by (simp add: frame_fits_def)
  have ul: "unat len = length (?hb @ ?b)" unfolding len_def using c(3) by (rule unat_u8_of_nat)
  have ps: "pkt_total p \<le> 1280" "pkt_total p \<le> length (pkt_bytes p)" using p by (simp_all add: pkt_sendable_def)
  have uo: "unat (of_nat off :: u16) = off" using off ps by (intro unat_u16_of_nat) simp
  have ut: "unat (of_nat (pkt_total p) :: u16) = pkt_total p" using ps by (intro unat_u16_of_nat) simp
  have z: "(of_nat off :: u16) = 0 \<longleftrightarrow> off = 0" using uo by (simp only: unat_eq_0 [symmetric])
  have bs: "?b = (if off = 0 then [0x41] else []) @ take n (drop off (take (pkt_total p) (pkt_bytes p)))"
  proof -
    have "take n (drop off (take (pkt_total p) (pkt_bytes p))) = take n (drop off (pkt_bytes p))"
      using off(2) by (simp add: drop_take min_def)
    then show ?thesis by (simp add: request_part_def t uo z)
  qed
  have fragH: "hdrFrag ?H = \<lparr>fragTag = tokFragTag t, fragSize = of_nat (pkt_total p), fragOffset = of_nat off\<rparr>"
    by (simp add: request_hdrs_has t)
  have fok: "frag_ok (hdrFrag ?H)" using fragH uo ut ps off by (simp add: frag_ok_def)
  have at: "holds_at (bufferPtr f) ?pay ?hb" "holds_at (bufferPtr f) (?pay + length ?hb) ?b"
    using c(4) by (simp_all add: holds_at_append)
  have stop: "stack_ends ?H (bufferPtr f) ?pay len"
  proof (cases "off = 0")
    case True
    then have "bufferPtr f ! (?pay + length ?hb) = 0x41" "length ?hb < unat len" using at(2) bs ul by simp_all
    then show ?thesis by (simp add: stack_ends_def end_byte_def)
  next
    case False
    then have "(of_nat off :: u16) > 0" using z by (simp add: word_gt_0)
    then show ?thesis by (simp add: stack_ends_def fragH request_hdrs_has(1))
  qed
  have room: "?pay + unat len \<le> length (bufferPtr f)" using holds_at_le [OF c(4)] ul by simp
  have le: "length ?hb \<le> unat len" using ul by simp
  have mH: "whip6_lowpanFrameHeadersHasMeshHeader ?H \<Longrightarrow> mesh_ok (hdrMesh ?H)" using m by (simp add: request_hdrs_has)
  obtain h1 where h1: "whip6_lowpanFrameHeadersUnpack h0 f = Some (h1, WHIP6_NO_ERROR)" "hdrs_same h1 ?H"
    "nextOffset h1 = of_nat (length ?hb)" "mesh_room (hdrMesh h1)"
    using headers_unpack [OF lay c(2) at(1) le room stop mH fok h0] by blast
  note hold = frame_holds_same [OF f0(1) c(1,5)]
  have pan: "mem_range (bufferPtr f) 4 2 = pan" using hold by (simp add: frame_holds_def)
  have pl: "length pan = 2" unfolding pan [symmetric] using frame_fits_bounds [OF c(1)] by (intro mem_range_length) simp
  obtain h2 where h2: "whip6_lowpanDefragmenterCreateVirtualMeshHeaderIfNecessary f h1 = Some h2"
    "whip6_lowpanFrameHeadersHasFragHeader h2" "hdrFrag h2 = hdrFrag ?H" "nextOffset h2 = nextOffset h1" "mesh_addrs_ok h2"
    "key_same (transfer_key (fragTag (hdrFrag ?H)) ?H dst src pan) h2 pan"
    using virtual_mesh [OF h1(2,4) request_hdrs_has(1) hold f0(2,3) pl] by blast
  have key: "transfer_key (fragTag (hdrFrag ?H)) ?H dst src pan = transfer_key (tokFragTag t) h dst src pan"
    by (simp add: transfer_key_def request_hdrs_has)
  have un: "unat (of_nat (length ?hb) :: u8) = length ?hb" using c(3) by (intro unat_u8_of_nat) simp
  have ff: "frag_frame f h2 ?b"
    unfolding frag_frame_def h2(4) h1(3) un using lay c(2) at(2) ul by (intro exI conjI) auto
  have ip: "\<not> whip6_ieee154DFrameIsInterPan f" using frame_layout_offsets [OF lay] by simp
  have "carries_part (transfer_key (tokFragTag t) h dst src pan) (take (pkt_total p) (pkt_bytes p)) f h2 (off, n)"
    unfolding carries_part_def pan key [symmetric]
    using c(1) ip h2(2,5,6) ff ps by (auto simp: h2(3) fragH uo ut bs)
  then show ?thesis using h1(1) h2(1) unfolding frame_part_def by auto
qed


text \<open>The parts that the frames of a packet carry.\<close>

fun parts_from :: "nat \<Rightarrow> nat list \<Rightarrow> (nat \<times> nat) list" where
  "parts_from off [] = []"
| "parts_from off (n # ns) = (off, n) # parts_from (off + n) ns"

lemma parts_from_ge: "x \<in> set (parts_from off ns) \<Longrightarrow> off \<le> fst x"
  by (induction off ns rule: parts_from.induct) auto

lemma carry_parts_from:
  "frames_carry dm sm ip f0 t p h off ns fs \<Longrightarrow>
   \<Union> (part_set ` set (parts_from off ns)) = {off..<pkt_total p} \<and> off \<le> pkt_total p \<and>
   (\<forall>x \<in> set (parts_from off ns). 0 < snd x \<and> (8 dvd snd x \<or> fst x + snd x = pkt_total p)) \<and>
   (\<forall>x \<in> set (parts_from off ns). \<forall>y \<in> set (parts_from off ns). x \<noteq> y \<longrightarrow> part_set x \<inter> part_set y = {}) \<and>
   distinct (parts_from off ns) \<and> length (parts_from off ns) = length fs"
proof (induction dm sm ip f0 t p h off ns fs rule: frames_carry.induct)
  case (2 dm sm ip f0 t p h off n ns f fs)
  then have n: "0 < n" "off + n \<le> pkt_total p" "8 dvd n \<or> off + n = pkt_total p"
    and c: "frames_carry dm sm ip f0 t p h (off + n) ns fs" by (simp_all add: Let_def)
  note ih = 2(1) [OF c]
  have ge: "off + n \<le> fst y" if "y \<in> set (parts_from (off + n) ns)" for y using that by (rule parts_from_ge)
  have new: "part_set (off, n) \<inter> part_set y = {}" if "y \<in> set (parts_from (off + n) ns)" for y
    using ge [OF that] by (auto simp: part_set_def)
  have "(off, n) \<notin> set (parts_from (off + n) ns)" using ge n(1) by fastforce
  moreover have "part_set (off, n) \<union> {off + n..<pkt_total p} = {off..<pkt_total p}"
    using n by (auto simp: part_set_def)
  ultimately show ?case using ih n new by (auto simp: Int_commute)
qed simp_all

lemma carry_frame_parts:
  assumes p: "pkt_sendable p" and m: "whip6_lowpanFrameHeadersHasMeshHeader h \<Longrightarrow> mesh_ok (hdrMesh h)"
    and f0: "frame_holds dst src pan None f0" "addr_ok dst" "addr_ok src" and h0: "mesh_room (hdrMesh h0)"
  shows "frames_carry (addrMode dst) (addrMode src) False f0 t p h off ns fs \<Longrightarrow> 8 dvd off \<or> off = pkt_total p \<Longrightarrow>
    j < length fs \<Longrightarrow>
    frame_part (transfer_key (tokFragTag t) h dst src pan) (take (pkt_total p) (pkt_bytes p)) (h0, fs ! j, now)
      (parts_from off ns ! j)"
proof (induction ns arbitrary: off fs j)
  case (Cons n ns)
  then obtain f fs' where fs: "fs = f # fs'" by (cases fs) auto
  let ?t = "t\<lparr>tokFragOffset := of_nat off\<rparr>"
  have n: "0 < n" "off + n \<le> pkt_total p" "8 dvd n \<or> off + n = pkt_total p"
    "frame_carries (addrMode dst) (addrMode src) False f0 (hdrs_bytes (request_hdrs ?t p h) @ request_part ?t p n) f"
    "frames_carry (addrMode dst) (addrMode src) False f0 t p h (off + n) ns fs'"
    using Cons.prems(1) by (simp_all add: fs Let_def)
  have d8: "8 dvd off" using Cons.prems(2) n(1,2) by auto
  show ?case
  proof (cases j)
    case 0
    then show ?thesis using carried_part [OF n(4) _ n(1,2) d8 p m f0 h0, of now] fs by simp
  next
    case (Suc i)
    have "8 dvd off + n \<or> off + n = pkt_total p" using n(3) d8 by auto
    then show ?thesis using Cons.IH [OF n(5) _, of i] Cons.prems(3) Suc fs by simp
  qed
next
  case Nil
  then show ?case by (cases fs) auto
qed

lemma carry_sched:
  assumes c: "frames_carry (addrMode dst) (addrMode src) False f0 t p h 0 ns fs"
    and p: "pkt_sendable p" "0 < pkt_total p" and m: "whip6_lowpanFrameHeadersHasMeshHeader h \<Longrightarrow> mesh_ok (hdrMesh h)"
    and f0: "frame_holds dst src pan None f0" "addr_ok dst" "addr_ok src"
    and js: "fst ` set sched = {..<length fs}" "fst ` set (butlast sched) \<noteq> {..<length fs}"
      "\<forall>x \<in> set sched. mesh_room (hdrMesh (fst (snd x)))"
  shows "\<exists>xs. parts_ok (pkt_total p) (set xs) \<and> xs \<noteq> [] \<and> set xs \<noteq> set (butlast xs) \<and> card (set xs) = length fs \<and>
    length xs = length sched \<and>
    list_all2 (frame_part (transfer_key (tokFragTag t) h dst src pan) (take (pkt_total p) (pkt_bytes p)))
      (map (\<lambda>(j, h0, now). (h0, fs ! j, now)) sched) xs"
proof -
  let ?P = "parts_from 0 ns" and ?key = "transfer_key (tokFragTag t) h dst src pan"
    and ?ref = "take (pkt_total p) (pkt_bytes p)"
  note cp = carry_parts_from [OF c]
  have len: "length ?P = length fs" "distinct ?P" using cp by simp_all
  have ne: "fs \<noteq> []" using cp p(2) by (cases ns) auto
  have sne: "sched \<noteq> []" using js(1) ne by auto
  define xs where "xs = map (\<lambda>x. ?P ! fst x) sched"
  have sub: "fst ` set (butlast sched) \<subseteq> {..<length fs}" using js(1) in_set_butlastD by fastforce
  have setx: "set xs = set ?P"
  proof -
    have "set xs = (!) ?P ` (fst ` set sched)" by (auto simp: xs_def)
    also have "\<dots> = set ?P" unfolding js(1) len(1) [symmetric] by (auto simp: set_conv_nth)
    finally show ?thesis .
  qed
  have "set (butlast xs) \<noteq> set xs"
  proof -
    obtain j where j: "j < length fs" "j \<notin> fst ` set (butlast sched)" using sub js(2) by auto
    have "?P ! j \<notin> set (butlast xs)"
    proof
      assume "?P ! j \<in> set (butlast xs)"
      then obtain x where x: "x \<in> set (butlast sched)" "?P ! j = ?P ! fst x" by (auto simp: xs_def map_butlast [symmetric])
      moreover have "fst x < length fs" using x(1) sub by auto
      ultimately have "j = fst x" using len j(1) nth_eq_iff_index_eq by metis
      then show False using j(2) x(1) by auto
    qed
    then show ?thesis using setx j(1) len by (metis nth_mem)
  qed
  moreover have "list_all2 (frame_part ?key ?ref) (map (\<lambda>(j, h0, now). (h0, fs ! j, now)) sched) xs"
  proof (rule list_all2_all_nthI)
    fix i
    assume "i < length (map (\<lambda>(j, h0, now). (h0, fs ! j, now)) sched)"
    then have i: "i < length sched" by simp
    obtain j h0 now where x: "sched ! i = (j, h0, now)" by (cases "sched ! i")
    have "(j, h0, now) \<in> set sched" using i x by (metis nth_mem)
    then have "mesh_room (hdrMesh h0)" "j < length fs" using js(1,3) by force+
    then show "frame_part ?key ?ref (map (\<lambda>(j, h0, now). (h0, fs ! j, now)) sched ! i) (xs ! i)"
      using carry_frame_parts [OF p(1) m f0 _ c, of h0 j now] i x by (simp add: xs_def)
  qed (simp add: xs_def)
  moreover have "parts_ok (pkt_total p) (set xs)" unfolding setx parts_ok_def using cp by auto
  moreover have "card (set xs) = length fs" unfolding setx using len by (simp add: distinct_card)
  moreover have "length xs = length sched" "xs \<noteq> []" using sne by (simp_all add: xs_def)
  ultimately show ?thesis by (intro exI [of _ xs]) auto
qed


section \<open>Properties\<close>

text \<open>C1: From node to node. The frames into which the fragmenter of one node splits a packet can arrive
  at another node in any order and repeatedly (\<open>sched\<close> gives the number of each received frame): the
  frame that completes the set makes the defragmenter, in any reachable state with a free packet,
  enough free fragment nodes and memory, deliver a packet of exactly the bytes that were sent; the
  frames before it deliver nothing, and the other packets under reassembly are untouched.\<close>

theorem packet_transfer:
  assumes "freePackets s = token # tokens" "(fragFlags s AND 1) = 0"
    and "packet_ok p" "pkt_total p \<le> length (pkt_bytes p)" "pkt_total p \<le> 1280"
    and "frame_holds dst src pan None f" "addr_ok dst" "addr_ok src"
    and "whip6_lowpanFrameHeadersHasMeshHeader h \<Longrightarrow> mesh_ok (hdrMesh h)"
    and "max_hdrs_len h + 8 \<le> unat (whip6_ieee154DFrameMaxPayloadLen f)"
    and "\<forall>q \<in> set arr. dp_idle q" "df_reach arr nodes pl0 orig state pl out"
    and "\<forall>q \<in> set (dfCurrent state). \<not> keys_same (transfer_key (tagGenerator s) h dst src pan) (dpKey q)"
    and "dfFree state \<noteq> []"
    and "m_chunkFree (packetPool pl) \<noteq> []" "IOV_BLIST_SIZE (iovPool pl) < CHUNK_SIZE (iovPool pl)"
    and "pkt_total p - 40 \<le> length (m_chunkFree (iovPool pl)) * (CHUNK_SIZE (iovPool pl) - IOV_BLIST_SIZE (iovPool pl))"
  shows "\<exists>s1 s2 s3 fs. whip6_lowpanFragmenterStartFragmentingIpv6Packet s p = (s1, Some (tokAddr token)) \<and>
    whip6_lowpanFragmenterProvideAdditional6LoWPANHeadersForIpv6Packet s1 (tokAddr token) h = Some (s2, WHIP6_NO_ERROR) \<and>
    frag_run (Suc (pkt_total p)) s2 (tokAddr token) f = Some (s3, fs) \<and>
    (\<forall>sched. length fs \<le> length (freeAdditionalFragSpecs state) \<longrightarrow>
       fst ` set sched = {..<length fs} \<longrightarrow> fst ` set (butlast sched) \<noteq> {..<length fs} \<longrightarrow>
       (\<forall>x \<in> set sched. mesh_room (hdrMesh (fst (snd x)))) \<longrightarrow>
       (\<exists>state' pl' pk. defrag_receive_all pools state pl (map (\<lambda>(j, h0, now). (h0, fs ! j, now)) sched) =
          Some (state', pl', replicate (length sched - 1) None @ [Some pk]) \<and>
        pkt_bytes pk = take (pkt_total p) (pkt_bytes p) \<and>
        dfCurrent state' = dfCurrent state \<and> dfLocked state' = dfLocked state))"
proof -
  let ?a = "tokAddr token" and ?ref = "take (pkt_total p) (pkt_bytes p)"
  let ?key = "transfer_key (tagGenerator s) h dst src pan"
  have fit: "frame_fits (addrMode dst) (addrMode src) False f" using assms(6) by (simp add: frame_holds_def)
  obtain s1 s2 s3 fs ns where run: "whip6_lowpanFragmenterStartFragmentingIpv6Packet s p = (s1, Some ?a)"
    "whip6_lowpanFragmenterProvideAdditional6LoWPANHeadersForIpv6Packet s1 ?a h = Some (s2, WHIP6_NO_ERROR)"
    "frag_run (Suc (pkt_total p)) s2 ?a f = Some (s3, fs)"
    "frames_carry (addrMode dst) (addrMode src) False f (token\<lparr>tokFragTag := tagGenerator s\<rparr>) p h 0 ns fs"
    using send_packet [OF assms(1-5) fit assms(9,10)] by blast
  have send: "pkt_sendable p" and pos: "0 < pkt_total p"
    using assms(3-5) by (simp_all add: pkt_sendable_def pkt_total_def)
  have len: "length ?ref = pkt_total p" using assms(4) by simp
  then have sz: "40 \<le> length ?ref" "length ?ref \<le> 32767" using assms(5) by (simp_all add: pkt_total_def)
  have "unat (of_nat (pkt_total p) - of_nat IPV6_BASIC_HEADER_SIZE :: u16) = pkt_total p - 40"
    using assms(5) sz(1) len by (subst unat_sub) (simp_all add: word_le_nat_alt unat_u16_of_nat IPV6_BASIC_HEADER_SIZE_def)
  then obtain pl1 pk1 where al: "whip6_ipv6AllocatePacket pools pl (of_nat (pkt_total p) - of_nat IPV6_BASIC_HEADER_SIZE) =
      Some (pl1, Some pk1)"
    using alloc_packet_succeeds [OF assms(15,16)] assms(17) by metis
  have typed: "df_typed state" using df_reach_inv [OF assms(11,12)] by (simp add: df_inv_def)
  have "\<exists>state' pl' pk. defrag_receive_all pools state pl (map (\<lambda>(j, h0, now). (h0, fs ! j, now)) sched) =
      Some (state', pl', replicate (length sched - 1) None @ [Some pk]) \<and> pkt_bytes pk = ?ref \<and>
      dfCurrent state' = dfCurrent state \<and> dfLocked state' = dfLocked state"
    if sched: "length fs \<le> length (freeAdditionalFragSpecs state)" "fst ` set sched = {..<length fs}"
      "fst ` set (butlast sched) \<noteq> {..<length fs}" "\<forall>x \<in> set sched. mesh_room (hdrMesh (fst (snd x)))" for sched
  proof -
    obtain xs where xs: "parts_ok (pkt_total p) (set xs)" "xs \<noteq> []" "set xs \<noteq> set (butlast xs)"
      "card (set xs) = length fs" "length xs = length sched"
      "list_all2 (frame_part ?key ?ref) (map (\<lambda>(j, h0, now). (h0, fs ! j, now)) sched) xs"
      using carry_sched [OF run(4) send pos assms(9) assms(6-8) sched(2-4)] by auto
    have r: "reassembling pools ?key ?ref (set xs) {} (dfCurrent state) state pl"
      using assms(13,14) al sched(1) xs(4) len by (simp add: reassembling_def)
    have po: "parts_ok (length ?ref) (set xs)" unfolding len by (rule xs(1))
    show ?thesis
      using pkt.receive_parts [OF sz po TrueI typed r xs(6,2)] xs(3,5) by auto
  qed
  then show ?thesis using run(1-3) by blast
qed


lemma ex_frame_holds: "frame_holds (ex_link_addr 2) (ex_link_addr 3) [0, 0] None ex_lowpan_frame"
  using ex_lowpan_frame_fits
  by (simp add: frame_holds_def ex_link_addr_def addr_bytes_def addr_len_def frame_constants fr_defs mem_range_def
      ex_lowpan_frame_def fr_info_def numeral_2_eq_2)


lemma ex_room: "unat (whip6_ieee154DFrameMaxPayloadLen ex_lowpan_frame) = 111"
proof -
  have "fr_pay 2 3 False = 16" by (simp add: fr_defs)
  then show ?thesis using unat_MaxPayloadLen(1) [OF ex_lowpan_frame_fits] by (simp add: ex_lowpan_frame_def fr_info_def)
qed

theorem packet_transfer_witness:
  "\<exists>s1 s2 s3 fs. whip6_lowpanFragmenterStartFragmentingIpv6Packet ex_fragmenter ex_ipv6_packet =
      (s1, Some (tokAddr ex_token)) \<and>
    whip6_lowpanFragmenterProvideAdditional6LoWPANHeadersForIpv6Packet s1 (tokAddr ex_token) ex_headers =
      Some (s2, WHIP6_NO_ERROR) \<and>
    frag_run (Suc (pkt_total ex_ipv6_packet)) s2 (tokAddr ex_token) ex_lowpan_frame = Some (s3, fs) \<and>
    (\<forall>sched. length fs \<le> length (freeAdditionalFragSpecs ex_defragmenter) \<longrightarrow>
       fst ` set sched = {..<length fs} \<longrightarrow> fst ` set (butlast sched) \<noteq> {..<length fs} \<longrightarrow>
       (\<forall>x \<in> set sched. mesh_room (hdrMesh (fst (snd x)))) \<longrightarrow>
       (\<exists>state' pl' pk. defrag_receive_all pools ex_defragmenter ex_pools (map (\<lambda>(j, h0, now). (h0, fs ! j, now)) sched) =
          Some (state', pl', replicate (length sched - 1) None @ [Some pk]) \<and>
        pkt_bytes pk = take (pkt_total ex_ipv6_packet) (pkt_bytes ex_ipv6_packet) \<and>
        dfCurrent state' = dfCurrent ex_defragmenter \<and> dfLocked state' = dfLocked ex_defragmenter))"
proof (rule packet_transfer)
  show "packet_ok ex_ipv6_packet" by (rule ex_ipv6_packet_ok)
  show "frame_holds (ex_link_addr 2) (ex_link_addr 3) [0, 0] None ex_lowpan_frame" by (rule ex_frame_holds)
  show "\<forall>q \<in> set ex_defrag_packets. dp_idle q" by (rule ex_defrag_idle)
  show "mesh_ok (hdrMesh ex_headers)"
    by (simp add: ex_headers_def mesh_ok_def addr_ok_def addr_mode_ok_def)
  show "max_hdrs_len ex_headers + 8 \<le> unat (whip6_ieee154DFrameMaxPayloadLen ex_lowpan_frame)"
    unfolding ex_room by (simp add: max_hdrs_len_def ex_headers_has)
      (simp add: ex_headers_def mesh_bytes_def addr_bytes_def addr_len_def frame_constants)
  show "df_reach ex_defrag_packets ex_frag_nodes ex_pools (\<lambda>_. None) ex_defragmenter ex_pools {#}"
    by (rule ex_reach)
qed (simp_all add: ex_ipv6_packet_ok ex_fragmenter_eq ex_defragmenter_eq ex_defrag_packets_def ex_link_addr_def addr_ok_def
    ex_pools_def pool_init_def eval_nat_numeral)

end
