(* ===== verification/Base_IoVecIter.thy ===== *)
theory Base_IoVecIter
  imports Base_IoVec
begin

text \<open>
  Iterators over I/O vectors (\<open>ucIoVec.h\<close>, \<open>detail/ucIoVecImpl.h\<close>, \<open>ucIoVec.c\<close>).

  An iterator is a node and an offset in it. The abstraction \<open>iter_pos\<close> is its position in
  the flat byte string, \<open>iter_rest\<close> what lies ahead of it. \<open>iter_ok\<close> is the invariant that
  every operation keeps on a vector without empty chunks: a valid iterator points at a byte.
\<close>

section \<open>Construction\<close>

definition whip6_iovIteratorInitToBeginning :: "iov \<Rightarrow> iov_blist_iter" where
  "whip6_iovIteratorInitToBeginning iovList =
     \<lparr>currElem = (if iovList = [] then None else Some 0), iterOffset = 0\<rparr>"

definition whip6_iovIteratorInitToArbitrary :: "nat option \<Rightarrow> nat \<Rightarrow> iov_blist_iter" where
  "whip6_iovIteratorInitToArbitrary elem off = \<lparr>currElem = elem, iterOffset = off\<rparr>"

definition whip6_iovIteratorInvalidate :: iov_blist_iter where
  "whip6_iovIteratorInvalidate = \<lparr>currElem = None, iterOffset = 0\<rparr>"

definition whip6_iovIteratorClone :: "iov_blist_iter \<Rightarrow> iov_blist_iter" where
  "whip6_iovIteratorClone src = \<lparr>currElem = currElem src, iterOffset = iterOffset src\<rparr>"

definition whip6_iovIteratorIsValid :: "iov_blist_iter \<Rightarrow> bool" where
  "whip6_iovIteratorIsValid it = (currElem it \<noteq> None)"

section \<open>Moving\<close>

text \<open>
  A node pointer inside a loop is the list from that node on together with its index;
  \<open>None\<close> when the list is exhausted.
\<close>

fun whip6_iovMoveForward_loop :: "iov \<Rightarrow> nat \<Rightarrow> nat \<Rightarrow> nat \<Rightarrow> nat option \<times> nat \<times> nat" where
  "whip6_iovMoveForward_loop [] j offset res = (None, offset, res)"
| "whip6_iovMoveForward_loop (c # iovList) j offset res =
     (let tmp = length c in
      if offset < tmp then (Some j, offset, res + offset)
      else whip6_iovMoveForward_loop iovList (Suc j) (offset - tmp) (res + tmp))"

definition whip6_iovIteratorMoveForward ::
  "iov \<Rightarrow> iov_blist_iter \<Rightarrow> nat \<Rightarrow> (iov_blist_iter \<times> nat) option" where
  "whip6_iovIteratorMoveForward iov it offset =
     (case currElem it of
        None \<Rightarrow> Some (it, 0)
      | Some i \<Rightarrow>
          do { c \<leftarrow> buf_get iov i;
               let tmp = length c - iterOffset it;
               if tmp > offset then Some (it\<lparr>iterOffset := iterOffset it + offset\<rparr>, offset)
               else case whip6_iovMoveForward_loop (drop (Suc i) iov) (Suc i) (offset - tmp) tmp of
                 (cur, off, res) \<Rightarrow> Some (\<lparr>currElem = cur, iterOffset = off\<rparr>, res) })"

text \<open>Backwards, the nodes before the current one in reverse order; the index of the first
  of them is the number of the others.\<close>

fun whip6_iovMoveBackward_loop :: "iov \<Rightarrow> nat \<Rightarrow> nat \<Rightarrow> nat \<Rightarrow> nat option \<times> nat \<times> nat" where
  "whip6_iovMoveBackward_loop [] offset remBytes subBytes = (None, offset, subBytes)"
| "whip6_iovMoveBackward_loop (c # before) offset remBytes subBytes =
     (let tmp = length c in
      if remBytes \<le> tmp then (Some (length before), tmp - remBytes, subBytes + remBytes)
      else whip6_iovMoveBackward_loop before offset (remBytes - tmp) (subBytes + tmp))"

definition whip6_iovIteratorMoveBackward ::
  "iov \<Rightarrow> iov_blist_iter \<Rightarrow> nat \<Rightarrow> iov_blist_iter \<times> nat" where
  "whip6_iovIteratorMoveBackward iov it remBytes =
     (case currElem it of
        None \<Rightarrow> (it, 0)
      | Some i \<Rightarrow>
          let subBytes = iterOffset it in
          if subBytes \<ge> remBytes
          then (it\<lparr>iterOffset := iterOffset it - remBytes\<rparr>, remBytes)
          else case whip6_iovMoveBackward_loop (rev (take i iov)) (iterOffset it)
                      (remBytes - subBytes) subBytes of
            (cur, off, sub) \<Rightarrow> (\<lparr>currElem = cur, iterOffset = off\<rparr>, sub))"

section \<open>Reading and writing\<close>

fun whip6_iovRead_loop ::
  "iov \<Rightarrow> nat \<Rightarrow> u8 list \<Rightarrow> nat \<Rightarrow> nat \<Rightarrow> nat \<Rightarrow>
   (nat option \<times> nat \<times> u8 list \<times> nat) option" where
  "whip6_iovRead_loop [] j buf p bufLen res = Some (None, 0, buf, res)"
| "whip6_iovRead_loop (c # iovList) j buf p bufLen res =
     (if bufLen = 0 then Some (Some j, 0, buf, res)
      else let iovOffset = length c in
        if iovOffset > bufLen then
          do { buf' \<leftarrow> whip6_longMemCpy c 0 buf p bufLen;
               Some (Some j, bufLen, buf', res + bufLen) }
        else
          do { buf' \<leftarrow> whip6_longMemCpy c 0 buf p iovOffset;
               whip6_iovRead_loop iovList (Suc j) buf' (p + iovOffset)
                 (bufLen - iovOffset) (res + iovOffset) })"

definition whip6_iovIteratorReadAndMoveForward ::
  "iov \<Rightarrow> iov_blist_iter \<Rightarrow> u8 list option \<Rightarrow> nat \<Rightarrow> nat \<Rightarrow>
   (iov_blist_iter \<times> u8 list option \<times> nat) option" where
  "whip6_iovIteratorReadAndMoveForward iov it bufPtr p bufLen =
     (case bufPtr of
        None \<Rightarrow> Some (it, None, 0)
      | Some buf \<Rightarrow>
          if bufLen = 0 then Some (it, Some buf, 0)
          else case currElem it of
            None \<Rightarrow> Some (it, Some buf, 0)
          | Some i \<Rightarrow>
              do { c \<leftarrow> buf_get iov i;
                   let iovOffset = iterOffset it;
                   let res = length c - iovOffset;
                   if res > bufLen then
                     do { buf' \<leftarrow> whip6_longMemCpy c iovOffset buf p bufLen;
                          Some (it\<lparr>iterOffset := iovOffset + bufLen\<rparr>, Some buf', bufLen) }
                   else
                     do { buf' \<leftarrow> whip6_longMemCpy c iovOffset buf p res;
                          (cur, off, buf'', r) \<leftarrow>
                            whip6_iovRead_loop (drop (Suc i) iov) (Suc i) buf' (p + res)
                              (bufLen - res) res;
                          Some (\<lparr>currElem = cur, iterOffset = off\<rparr>, Some buf'', r) } })"

fun whip6_iovWrite_loop ::
  "iov \<Rightarrow> nat \<Rightarrow> u8 list \<Rightarrow> nat \<Rightarrow> nat \<Rightarrow> nat \<Rightarrow>
   (nat option \<times> nat \<times> iov \<times> nat) option" where
  "whip6_iovWrite_loop [] j buf p bufLen res = Some (None, 0, [], res)"
| "whip6_iovWrite_loop (c # iovList) j buf p bufLen res =
     (if bufLen = 0 then Some (Some j, 0, c # iovList, res)
      else let iovOffset = length c in
        if iovOffset > bufLen then
          do { c' \<leftarrow> whip6_longMemCpy buf p c 0 bufLen;
               Some (Some j, bufLen, c' # iovList, res + bufLen) }
        else
          do { c' \<leftarrow> whip6_longMemCpy buf p c 0 iovOffset;
               (cur, off, iovList', r) \<leftarrow>
                 whip6_iovWrite_loop iovList (Suc j) buf (p + iovOffset)
                   (bufLen - iovOffset) (res + iovOffset);
               Some (cur, off, c' # iovList', r) })"

definition whip6_iovIteratorWriteAndMoveForward ::
  "iov \<Rightarrow> iov_blist_iter \<Rightarrow> u8 list option \<Rightarrow> nat \<Rightarrow> nat \<Rightarrow>
   (iov \<times> iov_blist_iter \<times> nat) option" where
  "whip6_iovIteratorWriteAndMoveForward iov it bufPtr p bufLen =
     (case bufPtr of
        None \<Rightarrow> Some (iov, it, 0)
      | Some buf \<Rightarrow>
          if bufLen = 0 then Some (iov, it, 0)
          else case currElem it of
            None \<Rightarrow> Some (iov, it, 0)
          | Some i \<Rightarrow>
              do { c \<leftarrow> buf_get iov i;
                   let iovOffset = iterOffset it;
                   let res = length c - iovOffset;
                   if res > bufLen then
                     do { c' \<leftarrow> whip6_longMemCpy buf p c iovOffset bufLen;
                          Some (iov[i := c'], it\<lparr>iterOffset := iovOffset + bufLen\<rparr>, bufLen) }
                   else
                     do { c' \<leftarrow> whip6_longMemCpy buf p c iovOffset res;
                          (cur, off, rest', r) \<leftarrow>
                            whip6_iovWrite_loop (drop (Suc i) iov) (Suc i) buf (p + res)
                              (bufLen - res) res;
                          Some (take i iov @ c' # rest',
                                \<lparr>currElem = cur, iterOffset = off\<rparr>, r) } })"

section \<open>Serialising integers\<close>

definition whip6_iovIteratorSerializeUInt8AndMoveForward ::
  "iov \<Rightarrow> iov_blist_iter \<Rightarrow> u8 \<Rightarrow> (iov \<times> iov_blist_iter \<times> nat) option" where
  "whip6_iovIteratorSerializeUInt8AndMoveForward iov it b =
     (case currElem it of
        None \<Rightarrow> Some (iov, it, 1)
      | Some i \<Rightarrow>
          do { c \<leftarrow> buf_get iov i;
               c' \<leftarrow> buf_put c (iterOffset it) b;
               let iovOffset = Suc (iterOffset it);
               if iovOffset \<ge> length c
               then Some (iov[i := c'],
                      \<lparr>currElem = (if Suc i < length iov then Some (Suc i) else None),
                       iterOffset = 0\<rparr>, 0)
               else Some (iov[i := c'], \<lparr>currElem = Some i, iterOffset = iovOffset\<rparr>, 0) })"

text \<open>
  The second byte goes to the same node or to the next one; when there is no next node the
  first byte has been written, the iterator has not moved, and the result is 1.
\<close>

definition whip6_iovIteratorSerializeUInt16AndMoveForward ::
  "iov \<Rightarrow> iov_blist_iter \<Rightarrow> u16 \<Rightarrow> (iov \<times> iov_blist_iter \<times> nat) option" where
  "whip6_iovIteratorSerializeUInt16AndMoveForward iov it w =
     (case currElem it of
        None \<Rightarrow> Some (iov, it, 2)
      | Some i \<Rightarrow>
          do { c \<leftarrow> buf_get iov i;
               c' \<leftarrow> buf_put c (iterOffset it) (ucast (drop_bit 8 w));
               let iov' = iov[i := c'];
               let sameNode = (length c \<ge> iterOffset it + 2);
               if \<not> sameNode \<and> \<not> Suc i < length iov then Some (iov', it, 1)
               else
                 do { let j = (if sameNode then i else Suc i);
                      let iovOffset = (if sameNode then Suc (iterOffset it) else 0);
                      d \<leftarrow> buf_get iov' j;
                      d' \<leftarrow> buf_put d iovOffset (ucast w);
                      if Suc iovOffset \<ge> length d
                      then Some (iov'[j := d'],
                             \<lparr>currElem = (if Suc j < length iov then Some (Suc j) else None),
                              iterOffset = 0\<rparr>, 0)
                      else Some (iov'[j := d'],
                             \<lparr>currElem = Some j, iterOffset = Suc iovOffset\<rparr>, 0) } })"

text \<open>Left unimplemented in the code, which reports that nothing could be written.\<close>

definition whip6_iovIteratorSerializeUInt32AndMoveForward ::
  "iov \<Rightarrow> iov_blist_iter \<Rightarrow> u32 \<Rightarrow> iov \<times> iov_blist_iter \<times> nat" where
  "whip6_iovIteratorSerializeUInt32AndMoveForward iov it d = (iov, it, 4)"

section \<open>Copying between two vectors\<close>

text \<open>
  The state of the loop: the source's nodes from the current one on, its index and offset; the
  destination's nodes already passed and those from the current one on, and its offset; the
  bytes still to copy and the bytes copied.
\<close>

definition iov_copy_len :: "nat \<Rightarrow> nat \<Rightarrow> nat \<Rightarrow> nat" where
  "iov_copy_len srcLen dstLen maxLen =
     (let minLen = (if srcLen > dstLen then dstLen else srcLen)
      in if minLen > maxLen then maxLen else minLen)"

lemma iov_copy_len_pos:
  "0 < maxLen \<Longrightarrow> iov_copy_len sl dl maxLen \<noteq> sl \<Longrightarrow> iov_copy_len sl dl maxLen \<noteq> dl \<Longrightarrow>
   iov_copy_len sl dl maxLen = maxLen"
  by (auto simp: iov_copy_len_def Let_def split: if_splits)

function whip6_iovCopy_loop ::
  "iov \<Rightarrow> nat \<Rightarrow> nat \<Rightarrow> iov \<Rightarrow> iov \<Rightarrow> nat \<Rightarrow> nat \<Rightarrow> nat \<Rightarrow>
   ((nat option \<times> nat) \<times> (nat option \<times> nat) \<times> iov \<times> nat) option" where
  "whip6_iovCopy_loop [] j srcOff passed dst dstOff maxLen res =
     Some ((None, srcOff),
           (if dst = [] then None else Some (length passed), dstOff), passed @ dst, res)"
| "whip6_iovCopy_loop (s # src) j srcOff passed [] dstOff maxLen res =
     Some ((Some j, srcOff), (None, dstOff), passed, res)"
| "whip6_iovCopy_loop (s # src) j srcOff passed (d # dst) dstOff maxLen res =
     (if maxLen = 0
      then Some ((Some j, srcOff), (Some (length passed), dstOff), passed @ d # dst, res)
      else
        let srcLen = length s - srcOff;
            dstLen = length d - dstOff;
            minLen = iov_copy_len srcLen dstLen maxLen
        in case whip6_longMemCpy s srcOff d dstOff minLen of
             None \<Rightarrow> None
           | Some d' \<Rightarrow>
               whip6_iovCopy_loop
                 (if minLen = srcLen then src else s # src)
                 (if minLen = srcLen then Suc j else j)
                 (if minLen = srcLen then 0 else srcOff + minLen)
                 (if minLen = dstLen then passed @ [d'] else passed)
                 (if minLen = dstLen then dst else d' # dst)
                 (if minLen = dstLen then 0 else dstOff + minLen)
                 (maxLen - minLen) (res + minLen))"
  by pat_completeness auto
termination
proof (relation "measure (\<lambda>(src, j, so, passed, dst, d_o, maxLen, res).
        length src + length dst + maxLen)", goal_cases)
  case 1
  show ?case by simp
next
  case (2 s src j srcOff passed d dst dstOff maxLen res sl dl m d')
  then show ?case using iov_copy_len_pos [of maxLen sl dl]
    by (auto simp: less_Suc_eq_le intro: le_SucI)
qed

definition whip6_iovIteratorCopyBytesAndMoveForward ::
  "iov \<Rightarrow> iov_blist_iter \<Rightarrow> iov \<Rightarrow> iov_blist_iter \<Rightarrow> nat \<Rightarrow>
   (iov_blist_iter \<times> iov \<times> iov_blist_iter \<times> nat) option" where
  "whip6_iovIteratorCopyBytesAndMoveForward srcIov src dstIov dst maxLen =
     (let i = (case currElem src of None \<Rightarrow> length srcIov | Some i \<Rightarrow> i);
          j = (case currElem dst of None \<Rightarrow> length dstIov | Some j \<Rightarrow> j)
      in do { ((sCur, sOff), (dCur, dOff), dstIov', res) \<leftarrow>
                whip6_iovCopy_loop (drop i srcIov) i (iterOffset src)
                  (take j dstIov) (drop j dstIov) (iterOffset dst) maxLen 0;
              Some (\<lparr>currElem = sCur, iterOffset = sOff\<rparr>, dstIov',
                    \<lparr>currElem = dCur, iterOffset = dOff\<rparr>, res) })"

section \<open>Positions in the flat byte string\<close>

definition iov_ok :: "iov \<Rightarrow> bool" where
  "iov_ok iov \<longleftrightarrow> (\<forall>c \<in> set iov. c \<noteq> [])"

definition iter_ok :: "iov \<Rightarrow> iov_blist_iter \<Rightarrow> bool" where
  "iter_ok iov it \<longleftrightarrow>
     (case currElem it of
        None \<Rightarrow> True
      | Some i \<Rightarrow> i < length iov \<and> iterOffset it < length (iov ! i))"

definition iter_pos :: "iov \<Rightarrow> iov_blist_iter \<Rightarrow> nat" where
  "iter_pos iov it =
     (case currElem it of
        None \<Rightarrow> length (concat iov)
      | Some i \<Rightarrow> length (concat (take i iov)) + iterOffset it)"

abbreviation iter_rest :: "iov \<Rightarrow> iov_blist_iter \<Rightarrow> u8 list" where
  "iter_rest iov it \<equiv> drop (iter_pos iov it) (concat iov)"

text \<open>The same for a node pointer of a loop: relative to the list it walks.\<close>

definition cur_ok :: "iov \<Rightarrow> nat \<Rightarrow> nat option \<Rightarrow> nat \<Rightarrow> bool" where
  "cur_ok cs j cur off \<longleftrightarrow>
     (case cur of None \<Rightarrow> True | Some i \<Rightarrow> j \<le> i \<and> i - j < length cs \<and> off < length (cs ! (i - j)))"

definition cur_pos :: "iov \<Rightarrow> nat \<Rightarrow> nat option \<Rightarrow> nat \<Rightarrow> nat" where
  "cur_pos cs j cur off =
     (case cur of None \<Rightarrow> length (concat cs) | Some i \<Rightarrow> length (concat (take (i - j) cs)) + off)"

lemma cur_None [simp]: "cur_ok cs j None off" "cur_pos cs j None off = length (concat cs)"
  by (simp_all add: cur_ok_def cur_pos_def)

lemma cur_here [simp]:
  "cur_ok (c # cs) j (Some j) off \<longleftrightarrow> off < length c" "cur_pos (c # cs) j (Some j) off = off"
  by (simp_all add: cur_ok_def cur_pos_def)

lemma cur_later:
  assumes "cur_ok cs (Suc j) cur off"
  shows "cur_ok (c # cs) j cur off" "cur_pos (c # cs) j cur off = length c + cur_pos cs (Suc j) cur off"
  using assms by (auto simp: cur_ok_def cur_pos_def Suc_diff_Suc nth_Cons' take_Cons'
      split: option.splits)

lemma iter_of_cur:
  assumes "cur_ok (drop j iov) j cur off" "j \<le> length iov"
  shows "iter_ok iov \<lparr>currElem = cur, iterOffset = off\<rparr>"
    and "iter_pos iov \<lparr>currElem = cur, iterOffset = off\<rparr> =
      length (concat (take j iov)) + cur_pos (drop j iov) j cur off"
proof -
  show "iter_ok iov \<lparr>currElem = cur, iterOffset = off\<rparr>"
    using assms by (auto simp: iter_ok_def cur_ok_def split: option.splits)
  show "iter_pos iov \<lparr>currElem = cur, iterOffset = off\<rparr> =
      length (concat (take j iov)) + cur_pos (drop j iov) j cur off"
  proof (cases cur)
    case None
    have "length (concat iov) = length (concat (take j iov @ drop j iov))" by simp
    also have "\<dots> = length (concat (take j iov)) + length (concat (drop j iov))"
      by (simp only: concat_append length_append)
    finally show ?thesis using None by (simp add: iter_pos_def)
  next
    case (Some i)
    with assms have "j \<le> i" by (simp add: cur_ok_def)
    then have "take i iov = take j iov @ take (i - j) (drop j iov)"
      by (metis le_add_diff_inverse take_add)
    then show ?thesis using Some by (simp add: iter_pos_def cur_pos_def)
  qed
qed

lemma concat_split_at:
  assumes "i < length iov"
  shows "concat iov = concat (take i iov) @ iov ! i @ concat (drop (Suc i) iov)"
  using arg_cong [OF id_take_nth_drop [OF assms], of concat] by simp

lemma iter_pos_le: "iter_ok iov it \<Longrightarrow> iter_pos iov it \<le> length (concat iov)"
  by (auto simp: iter_ok_def iter_pos_def concat_split_at split: option.splits)

lemma iter_valid_iff:
  "iter_ok iov it \<Longrightarrow> whip6_iovIteratorIsValid it \<longleftrightarrow> iter_pos iov it < length (concat iov)"
  by (auto simp: iter_ok_def iter_pos_def whip6_iovIteratorIsValid_def concat_split_at
      split: option.splits)

lemma iter_rest_at:
  assumes "i < length iov" "off < length (iov ! i)"
  shows "drop (length (concat (take i iov)) + off) (concat iov) =
    drop off (iov ! i) @ concat (drop (Suc i) iov)"
  using assms by (simp add: concat_split_at [OF assms(1)])

lemma iter_step_pos:
  assumes "i < length iov" "off < length (iov ! i)"
    and "cur_ok (drop (Suc i) iov) (Suc i) cur o'"
    and "cur_pos (drop (Suc i) iov) (Suc i) cur o' = k"
  shows "iter_ok iov \<lparr>currElem = cur, iterOffset = o'\<rparr>"
    and "iter_pos iov \<lparr>currElem = cur, iterOffset = o'\<rparr> =
      length (concat (take i iov)) + length (iov ! i) + k"
  using assms iter_of_cur [OF assms(3)] by (simp_all add: take_Suc_conv_app_nth)

lemma iter_init:
  "iov_ok iov \<Longrightarrow> iter_ok iov (whip6_iovIteratorInitToBeginning iov) \<and>
   iter_pos iov (whip6_iovIteratorInitToBeginning iov) = 0"
  by (cases iov) (auto simp: iov_ok_def iter_ok_def iter_pos_def whip6_iovIteratorInitToBeginning_def)

section \<open>Moving\<close>

lemma iovMoveForward_loop_spec:
  "whip6_iovMoveForward_loop cs j off res = (cur, o', r) \<Longrightarrow>
   cur_ok cs j cur o' \<and> cur_pos cs j cur o' = min off (length (concat cs)) \<and>
   r = res + min off (length (concat cs))"
proof (induction cs j off res rule: whip6_iovMoveForward_loop.induct)
  case (1 j off res)
  then show ?case by simp
next
  case (2 c cs j off res)
  show ?case
  proof (cases "off < length c")
    case True
    with "2.prems" show ?thesis by (auto simp: Let_def)
  next
    case False
    with "2.prems" have "whip6_iovMoveForward_loop cs (Suc j) (off - length c) (res + length c) =
      (cur, o', r)" by (simp add: Let_def)
    from "2.IH" [OF refl False this] False show ?thesis
      by (auto simp: cur_later)
  qed
qed

theorem iovMoveForward_spec:
  assumes "iter_ok iov it" "k = min n (length (iter_rest iov it))"
  shows "\<exists>it'. whip6_iovIteratorMoveForward iov it n = Some (it', k) \<and>
    iter_ok iov it' \<and> iter_pos iov it' = iter_pos iov it + k"
proof (cases "currElem it")
  case None
  with assms show ?thesis
    by (auto simp: whip6_iovIteratorMoveForward_def iter_pos_def)
next
  case (Some i)
  with assms(1) have i: "i < length iov" "iterOffset it < length (iov ! i)"
    by (simp_all add: iter_ok_def)
  note rest = iter_rest_at [OF i]
  have pos: "iter_pos iov it = length (concat (take i iov)) + iterOffset it"
    by (simp add: iter_pos_def Some)
  show ?thesis
  proof (cases "n < length (iov ! i) - iterOffset it")
    case True
    with assms i rest pos show ?thesis
      by (auto simp: whip6_iovIteratorMoveForward_def Some iter_ok_def iter_pos_def)
  next
    case False
    let ?t = "length (iov ! i) - iterOffset it"
    obtain cur o' r where l: "whip6_iovMoveForward_loop (drop (Suc i) iov) (Suc i) (n - ?t) ?t =
      (cur, o', r)" by (metis prod_cases3)
    note sp = iovMoveForward_loop_spec [OF l]
    have "r = k" using sp assms(2) False i by (simp add: pos rest)
    moreover note iter_step_pos [OF i, of cur o' "min (n - ?t) (length (concat (drop (Suc i) iov)))"]
    ultimately show ?thesis
      using sp False l i by (auto simp: whip6_iovIteratorMoveForward_def Some pos)
  qed
qed

lemma length_concat_rev: "length (concat (rev xs)) = length (concat xs)"
  by (induction xs) simp_all

lemma iovMoveBackward_loop_spec:
  assumes "0 < rem"
  shows "whip6_iovMoveBackward_loop b off rem sub =
    (if rem \<le> length (concat b)
     then case whip6_iovMoveBackward_loop b off rem sub of (cur, o', r) \<Rightarrow> (cur, o', sub + rem)
     else (None, off, sub + length (concat b)))"
    (is "?eq b rem sub")
  and "rem \<le> length (concat b) \<Longrightarrow>
    \<exists>i o' r. whip6_iovMoveBackward_loop b off rem sub = (Some i, o', r) \<and>
      i < length b \<and> o' < length (rev b ! i) \<and>
      length (concat (take i (rev b))) + o' = length (concat b) - rem"
    (is "_ \<Longrightarrow> ?pos b rem sub")
proof -
  have "?eq b rem sub \<and> (rem \<le> length (concat b) \<longrightarrow> ?pos b rem sub)"
    using assms
  proof (induction b off rem sub rule: whip6_iovMoveBackward_loop.induct)
    case (1 off rem sub)
    then show ?case by simp
  next
    case (2 c b off rem sub)
    show ?case
    proof (cases "rem \<le> length c")
      case True
      with "2.prems" show ?thesis
        by (auto simp: Let_def nth_append length_concat_rev)
    next
      case False
      note ih = "2.IH" [OF refl False]
      have st: "whip6_iovMoveBackward_loop (c # b) off rem sub =
          whip6_iovMoveBackward_loop b off (rem - length c) (sub + length c)"
        using False by (simp add: Let_def)
      show ?thesis
      proof (cases "rem - length c \<le> length (concat b)")
        case True
        with ih False obtain i o' r where
          "whip6_iovMoveBackward_loop b off (rem - length c) (sub + length c) = (Some i, o', r)"
          "i < length b" "o' < length (rev b ! i)"
          "length (concat (take i (rev b))) + o' = length (concat b) - (rem - length c)"
          by auto
        moreover from this ih True False have "r = sub + rem" by auto
        ultimately show ?thesis using True False by (auto simp: st nth_append)
      next
        case nle: False
        then have "\<not> rem \<le> length (concat (c # b))" using False by simp
        with nle ih False show ?thesis unfolding st by (auto simp: add.assoc)
      qed
    qed
  qed
  then show "?eq b rem sub" "rem \<le> length (concat b) \<Longrightarrow> ?pos b rem sub" by blast+
qed

theorem iovMoveBackward_spec:
  assumes "iter_ok iov it" "whip6_iovIteratorIsValid it" "n \<le> iter_pos iov it"
  shows "\<exists>it'. whip6_iovIteratorMoveBackward iov it n = (it', n) \<and>
    whip6_iovIteratorIsValid it' \<and> iter_ok iov it' \<and> iter_pos iov it' = iter_pos iov it - n"
proof -
  from assms(2) obtain i where Some: "currElem it = Some i"
    by (auto simp: whip6_iovIteratorIsValid_def)
  with assms(1) have i: "i < length iov" "iterOffset it < length (iov ! i)"
    by (simp_all add: iter_ok_def)
  have pos: "iter_pos iov it = length (concat (take i iov)) + iterOffset it"
    by (simp add: iter_pos_def Some)
  show ?thesis
  proof (cases "n \<le> iterOffset it")
    case True
    with i pos show ?thesis
      by (auto simp: whip6_iovIteratorMoveBackward_def Some Let_def iter_ok_def iter_pos_def
          whip6_iovIteratorIsValid_def)
  next
    case False
    let ?b = "rev (take i iov)" and ?rem = "n - iterOffset it"
    have "?rem \<le> length (concat ?b)" using assms(3) pos by (simp add: length_concat_rev)
    moreover have "0 < ?rem" using False by simp
    ultimately obtain i' o' where
      l: "whip6_iovMoveBackward_loop ?b (iterOffset it) ?rem (iterOffset it) = (Some i', o', n)"
      and b: "i' < length ?b" "o' < length (rev ?b ! i')"
        "length (concat (take i' (rev ?b))) + o' = length (concat ?b) - ?rem"
      using iovMoveBackward_loop_spec [of ?rem ?b "iterOffset it" "iterOffset it"] False
      by fastforce
    have "take i' (take i iov) = take i' iov" using b(1) i(1) by simp
    with l b False i pos show ?thesis
      by (auto simp: whip6_iovIteratorMoveBackward_def Some Let_def iter_ok_def iter_pos_def
          whip6_iovIteratorIsValid_def length_concat_rev)
  qed
qed

lemma iovMoveBackward_beyond:
  assumes "iter_ok iov it" "whip6_iovIteratorIsValid it" "iter_pos iov it < n"
  shows "\<exists>it'. whip6_iovIteratorMoveBackward iov it n = (it', iter_pos iov it) \<and>
    \<not> whip6_iovIteratorIsValid it'"
proof -
  from assms(2) obtain i where Some: "currElem it = Some i"
    by (auto simp: whip6_iovIteratorIsValid_def)
  have "\<not> n - iterOffset it \<le> length (concat (rev (take i iov)))" "0 < n - iterOffset it"
    using assms(3) by (simp_all add: iter_pos_def Some length_concat_rev)
  with iovMoveBackward_loop_spec(1) [of "n - iterOffset it" "rev (take i iov)" "iterOffset it" "iterOffset it"]
  have "whip6_iovMoveBackward_loop (rev (take i iov)) (iterOffset it) (n - iterOffset it) (iterOffset it)
      = (None, iterOffset it, iter_pos iov it)"
    by (simp add: iter_pos_def Some length_concat_rev)
  with \<open>0 < n - iterOffset it\<close> show ?thesis
    by (auto simp: whip6_iovIteratorMoveBackward_def Some Let_def whip6_iovIteratorIsValid_def)
qed

text \<open>A valid position determines the iterator.\<close>

lemma iter_pos_inj:
  assumes "iter_ok iov a" "iter_ok iov b" "whip6_iovIteratorIsValid a" "whip6_iovIteratorIsValid b"
    and "iter_pos iov a = iter_pos iov b"
  shows "currElem a = currElem b \<and> iterOffset a = iterOffset b"
proof -
  have lt: False if "i < j" "j < length iov" "x < length (iov ! i)"
      "length (concat (take i iov)) + x = length (concat (take j iov)) + y" for i j x y
  proof -
    have "take j iov = take (Suc i) iov @ take (j - Suc i) (drop (Suc i) iov)"
      using that(1) by (metis Suc_leI le_add_diff_inverse take_add)
    then have "length (concat (take j iov)) \<ge> length (concat (take (Suc i) iov))" by simp
    also have "length (concat (take (Suc i) iov)) = length (concat (take i iov)) + length (iov ! i)"
      using that by (simp add: take_Suc_conv_app_nth)
    finally show False using that by simp
  qed
  from assms obtain i j where ij: "currElem a = Some i" "currElem b = Some j"
    by (auto simp: whip6_iovIteratorIsValid_def)
  with assms lt [of i j "iterOffset a" "iterOffset b"] lt [of j i "iterOffset b" "iterOffset a"]
  show ?thesis
    by (cases i j rule: linorder_cases) (auto simp: iter_ok_def iter_pos_def)
qed

section \<open>Reading\<close>

lemma iov_ok_Cons [simp]: "iov_ok (c # cs) \<longleftrightarrow> c \<noteq> [] \<and> iov_ok cs"
  by (simp add: iov_ok_def)

lemma iov_ok_drop: "iov_ok iov \<Longrightarrow> iov_ok (drop n iov)"
  by (auto simp: iov_ok_def dest: in_set_dropD)

lemma iov_ok_map_length: "map length iov' = map length iov \<Longrightarrow> iov_ok iov' = iov_ok iov"
proof -
  assume "map length iov' = map length iov"
  moreover have "iov_ok x = (\<forall>n \<in> set (map length x). n \<noteq> 0)" for x
    by (simp add: iov_ok_def)
  ultimately show ?thesis by metis
qed

lemma iovRead_loop_spec:
  assumes "iov_ok cs" "p + n \<le> length buf" "bs = take n (concat cs)"
  shows "\<exists>cur o'. whip6_iovRead_loop cs j buf p n res =
      Some (cur, o', mem_blit buf p bs, res + length bs) \<and>
    cur_ok cs j cur o' \<and> cur_pos cs j cur o' = length bs"
  using assms
proof (induction cs j buf p n res arbitrary: bs rule: whip6_iovRead_loop.induct)
  case (1 j buf p n res)
  then show ?case by simp
next
  case (2 c cs j buf p n res)
  show ?case
  proof (cases "n = 0 \<or> n < length c")
    case True
    with "2.prems" show ?thesis
      by (auto simp: longMemCpy_eq)
  next
    case False
    let ?bs = "take (n - length c) (concat cs)"
    have n: "n \<noteq> 0" "\<not> n < length c" using False by auto
    have cpy: "whip6_longMemCpy c 0 buf p (length c) = Some (mem_blit buf p c)"
      using n "2.prems" by (simp add: longMemCpy_eq)
    have "\<exists>cur o'. whip6_iovRead_loop cs (Suc j) (mem_blit buf p c) (p + length c)
          (n - length c) (res + length c) =
        Some (cur, o', mem_blit (mem_blit buf p c) (p + length c) ?bs, res + length c + length ?bs) \<and>
      cur_ok cs (Suc j) cur o' \<and> cur_pos cs (Suc j) cur o' = length ?bs"
      using n "2.prems" by (intro "2.IH" [OF n(1) refl]) (simp_all add: cpy)
    moreover have "bs = c @ ?bs" using n "2.prems" by simp
    moreover have "mem_blit (mem_blit buf p c) (p + length c) ?bs = mem_blit buf p (c @ ?bs)"
      using n "2.prems" by (intro mem_blit_append) auto
    ultimately show ?thesis using n cpy by (auto simp: cur_later Let_def)
  qed
qed

theorem iovRead_spec:
  assumes "iov_ok iov" "iter_ok iov it" "p + n \<le> length buf"
    and "bs = take n (iter_rest iov it)"
  shows "\<exists>it'. whip6_iovIteratorReadAndMoveForward iov it (Some buf) p n =
      Some (it', Some (mem_blit buf p bs), length bs) \<and>
    iter_ok iov it' \<and> iter_pos iov it' = iter_pos iov it + length bs"
proof (cases "n = 0 \<or> currElem it = None")
  case True
  with assms show ?thesis
    by (auto simp: whip6_iovIteratorReadAndMoveForward_def iter_pos_def)
next
  case False
  then obtain i where Some: "currElem it = Some i" and n: "n \<noteq> 0" by auto
  with assms(2) have i: "i < length iov" "iterOffset it < length (iov ! i)"
    by (simp_all add: iter_ok_def)
  let ?c = "drop (iterOffset it) (iov ! i)" and ?cs = "drop (Suc i) iov"
  have pos: "iter_pos iov it = length (concat (take i iov)) + iterOffset it"
    by (simp add: iter_pos_def Some)
  have bs: "bs = take n (?c @ concat ?cs)"
    using assms(4) iter_rest_at [OF i] by (simp add: pos)
  show ?thesis
  proof (cases "n < length ?c")
    case True
    then have "length bs = n" "bs = take n ?c" by (simp_all add: bs)
    with True n i pos assms(3) show ?thesis
      by (auto simp: whip6_iovIteratorReadAndMoveForward_def Some Let_def iter_ok_def
          iter_pos_def longMemCpy_eq)
  next
    case nl: False
    let ?bs = "take (n - length ?c) (concat ?cs)"
    have cpy: "whip6_longMemCpy (iov ! i) (iterOffset it) buf p (length ?c) =
        Some (mem_blit buf p ?c)"
      using nl assms(3) i by (subst longMemCpy_eq) auto
    have b: "bs = ?c @ ?bs" using nl by (simp add: bs)
    have "\<exists>cur o'. whip6_iovRead_loop ?cs (Suc i) (mem_blit buf p ?c) (p + length ?c)
          (n - length ?c) (length ?c) =
        Some (cur, o', mem_blit (mem_blit buf p ?c) (p + length ?c) ?bs, length ?c + length ?bs) \<and>
      cur_ok ?cs (Suc i) cur o' \<and> cur_pos ?cs (Suc i) cur o' = length ?bs"
      using nl assms by (intro iovRead_loop_spec iov_ok_drop) auto
    then obtain cur o' where l: "whip6_iovRead_loop ?cs (Suc i) (mem_blit buf p ?c) (p + length ?c)
          (n - length ?c) (length ?c) =
        Some (cur, o', mem_blit (mem_blit buf p ?c) (p + length ?c) ?bs, length ?c + length ?bs)"
      and ok: "cur_ok ?cs (Suc i) cur o'" "cur_pos ?cs (Suc i) cur o' = length ?bs" by blast
    have "mem_blit (mem_blit buf p ?c) (p + length ?c) ?bs = mem_blit buf p bs"
      unfolding b using nl assms(3) by (intro mem_blit_append) auto
    with l cpy nl n i iter_step_pos [OF i ok] show ?thesis
      by (auto simp: whip6_iovIteratorReadAndMoveForward_def Some Let_def pos b)
  qed
qed

section \<open>Writing\<close>

lemma iovWrite_loop_spec:
  assumes "iov_ok cs" "p + n \<le> length buf" "k = min n (length (concat cs))"
  shows "\<exists>cur o' cs'. whip6_iovWrite_loop cs j buf p n res = Some (cur, o', cs', res + k) \<and>
    cur_ok cs j cur o' \<and> cur_pos cs j cur o' = k \<and>
    map length cs' = map length cs \<and>
    concat cs' = mem_blit (concat cs) 0 (take k (drop p buf))"
  using assms
proof (induction cs j buf p n res arbitrary: k rule: whip6_iovWrite_loop.induct)
  case (1 j buf p n res)
  then show ?case by simp
next
  case (2 c cs j buf p n res)
  show ?case
  proof (cases "n = 0 \<or> n < length c")
    case True
    then have "k = n" using "2.prems"(3) by auto
    moreover have "n < length c \<Longrightarrow>
        mem_blit c 0 (take n (drop p buf)) @ concat cs = mem_blit (c @ concat cs) 0 (take n (drop p buf))"
      by (simp add: mem_blit_in_chunk)
    ultimately show ?thesis using True "2.prems"
      by (auto simp: longMemCpy_eq Let_def)
  next
    case False
    let ?bs = "take (length c) (drop p buf)" and ?k = "min (n - length c) (length (concat cs))"
    have n: "n \<noteq> 0" "\<not> n < length c" using False by auto
    have len: "length ?bs = length c" using n "2.prems" by simp
    have cpy: "whip6_longMemCpy buf p c 0 (length c) = Some ?bs"
      using n "2.prems" by (simp add: longMemCpy_eq mem_blit_def)
    have "\<exists>cur o' cs'. whip6_iovWrite_loop cs (Suc j) buf (p + length c)
          (n - length c) (res + length c) = Some (cur, o', cs', res + length c + ?k) \<and>
      cur_ok cs (Suc j) cur o' \<and> cur_pos cs (Suc j) cur o' = ?k \<and>
      map length cs' = map length cs \<and>
      concat cs' = mem_blit (concat cs) 0 (take ?k (drop (p + length c) buf))"
      using n "2.prems" by (intro "2.IH" [OF n(1) refl]) (simp_all add: cpy)
    then obtain cur o' cs' where w: "whip6_iovWrite_loop cs (Suc j) buf (p + length c)
          (n - length c) (res + length c) = Some (cur, o', cs', res + length c + ?k)"
      and ok: "cur_ok cs (Suc j) cur o'" "cur_pos cs (Suc j) cur o' = ?k"
        "map length cs' = map length cs"
      and cc: "concat cs' = mem_blit (concat cs) 0 (take ?k (drop (p + length c) buf))"
      by blast
    have k: "k = length c + ?k" using n "2.prems"(3) by auto
    have "?bs @ concat cs' = mem_blit (c @ concat cs) 0 (take k (drop p buf))"
      using len by (simp add: k take_add cc mem_blit_def add.commute)
    with w ok n cpy k len show ?thesis by (auto simp: cur_later Let_def)
  qed
qed

lemma mem_blit_chunk_split:
  "off \<le> length c \<Longrightarrow> length xs = length c - off \<Longrightarrow>
   mem_blit (pre @ c @ ys) (length pre + off) (xs @ zs) =
     pre @ mem_blit c off xs @ mem_blit ys 0 zs"
  by (simp add: mem_blit_def)

lemma concat_update_at:
  assumes "i < length iov" "off + length bs \<le> length (iov ! i)"
  shows "concat (iov[i := mem_blit (iov ! i) off bs]) =
    mem_blit (concat iov) (length (concat (take i iov)) + off) bs"
  using assms by (simp add: upd_conv_take_nth_drop concat_split_at [OF assms(1)] mem_blit_def)

lemma iter_ok_map_length:
  assumes "map length iov' = map length iov"
  shows "iter_ok iov' it = iter_ok iov it" "iter_pos iov' it = iter_pos iov it"
proof -
  have l: "length iov' = length iov" using assms by (metis length_map)
  have n: "length (iov' ! i) = length (iov ! i)" if "i < length iov" for i
    using assms l that by (metis nth_map)
  have t: "length (concat (take i iov')) = length (concat (take i iov))" for i
    using assms by (metis length_concat take_map)
  show "iter_ok iov' it = iter_ok iov it" using l n by (auto simp: iter_ok_def split: option.splits)
  show "iter_pos iov' it = iter_pos iov it"
    using t [of "length iov"] t l by (simp add: iter_pos_def split: option.splits)
qed

theorem iovWrite_spec:
  assumes "iov_ok iov" "iter_ok iov it" "p + n \<le> length buf"
    and "k = min n (length (iter_rest iov it))"
  shows "\<exists>iov' it'. whip6_iovIteratorWriteAndMoveForward iov it (Some buf) p n = Some (iov', it', k) \<and>
    map length iov' = map length iov \<and>
    concat iov' = mem_blit (concat iov) (iter_pos iov it) (take k (drop p buf)) \<and>
    iter_ok iov it' \<and> iter_pos iov it' = iter_pos iov it + k"
proof (cases "n = 0 \<or> currElem it = None")
  case True
  with assms show ?thesis
    by (auto simp: whip6_iovIteratorWriteAndMoveForward_def iter_pos_def)
next
  case False
  then obtain i where Some: "currElem it = Some i" and n: "n \<noteq> 0" by auto
  with assms(2) have i: "i < length iov" "iterOffset it < length (iov ! i)"
    by (simp_all add: iter_ok_def)
  let ?o = "iterOffset it" and ?c = "iov ! i" and ?cs = "drop (Suc i) iov"
  let ?l = "length ?c - ?o"
  have pos: "iter_pos iov it = length (concat (take i iov)) + ?o"
    by (simp add: iter_pos_def Some)
  have k: "k = min n (?l + length (concat ?cs))"
    using assms(4) iter_rest_at [OF i] by (simp add: pos)
  show ?thesis
  proof (cases "n < ?l")
    case True
    then have kn: "k = n" by (simp add: k)
    have cpy: "whip6_longMemCpy buf p ?c ?o n = Some (mem_blit ?c ?o (take n (drop p buf)))"
      using True assms(3) i by (simp add: longMemCpy_eq)
    have le: "?o + length (take n (drop p buf)) \<le> length ?c" using True by simp
    have "map length (iov[i := mem_blit ?c ?o (take n (drop p buf))]) = map length iov"
      using le i by (simp add: map_update mem_blit_length [OF le] list_update_same_conv)
    with True n i cpy concat_update_at [OF i(1) le] show ?thesis
      by (auto simp: whip6_iovIteratorWriteAndMoveForward_def Some Let_def pos kn iter_ok_def
          iter_pos_def)
  next
    case nl: False
    let ?bs = "take ?l (drop p buf)" and ?k = "min (n - ?l) (length (concat ?cs))"
    have lb: "length ?bs = ?l" using nl assms(3) by simp
    have cpy: "whip6_longMemCpy buf p ?c ?o ?l = Some (mem_blit ?c ?o ?bs)"
      using nl assms(3) i by (simp add: longMemCpy_eq)
    have "\<exists>cur o' cs'. whip6_iovWrite_loop ?cs (Suc i) buf (p + ?l) (n - ?l) ?l =
        Some (cur, o', cs', ?l + ?k) \<and>
      cur_ok ?cs (Suc i) cur o' \<and> cur_pos ?cs (Suc i) cur o' = ?k \<and>
      map length cs' = map length ?cs \<and>
      concat cs' = mem_blit (concat ?cs) 0 (take ?k (drop (p + ?l) buf))"
      using nl assms by (intro iovWrite_loop_spec iov_ok_drop) auto
    then obtain cur o' cs' where w: "whip6_iovWrite_loop ?cs (Suc i) buf (p + ?l) (n - ?l) ?l =
        Some (cur, o', cs', ?l + ?k)"
      and ok: "cur_ok ?cs (Suc i) cur o'" "cur_pos ?cs (Suc i) cur o' = ?k"
      and ml: "map length cs' = map length ?cs"
      and cc: "concat cs' = mem_blit (concat ?cs) 0 (take ?k (drop (p + ?l) buf))" by blast
    let ?iov = "take i iov @ mem_blit ?c ?o ?bs # cs'"
    have kk: "k = ?l + ?k" using nl k by auto
    have "map length ?iov = map length iov"
    proof -
      have "map length ?iov = map length (take i iov @ ?c # ?cs)"
        using lb i ml by (simp add: mem_blit_length [of ?o ?bs ?c])
      then show ?thesis using id_take_nth_drop [OF i(1)] by simp
    qed
    moreover have "concat ?iov = mem_blit (concat iov) (iter_pos iov it) (take k (drop p buf))"
    proof -
      have "take k (drop p buf) = ?bs @ take ?k (drop (p + ?l) buf)"
        by (subst kk) (simp only: take_add drop_drop add.commute)
      moreover have "concat iov = concat (take i iov) @ ?c @ concat ?cs"
        by (rule concat_split_at [OF i(1)])
      ultimately show ?thesis
        using lb i by (simp only: pos cc concat.simps concat_append append.assoc
            mem_blit_chunk_split [OF less_imp_le [OF i(2)] lb])
    qed
    ultimately show ?thesis using w cpy nl n i kk pos iter_step_pos [OF i ok]
      by (auto simp: whip6_iovIteratorWriteAndMoveForward_def Some Let_def)
  qed
qed

section \<open>Serialising integers\<close>

lemma node_iter_pos:
  assumes "i < length iov" "i' = (if Suc o' < length (iov ! i) then Some i
      else if Suc i < length iov then Some (Suc i) else None)"
    and "o'' = (if Suc o' < length (iov ! i) then Suc o' else 0)" "o' < length (iov ! i)" "iov_ok iov"
  shows "iter_ok iov \<lparr>currElem = i', iterOffset = o''\<rparr>"
    and "iter_pos iov \<lparr>currElem = i', iterOffset = o''\<rparr> = length (concat (take i iov)) + Suc o'"
proof -
  have "Suc i < length iov \<Longrightarrow> iov ! Suc i \<noteq> []"
    using assms(5) by (auto simp: iov_ok_def)
  with assms show "iter_ok iov \<lparr>currElem = i', iterOffset = o''\<rparr>"
    by (auto simp: iter_ok_def)
  show "iter_pos iov \<lparr>currElem = i', iterOffset = o''\<rparr> = length (concat (take i iov)) + Suc o'"
    using assms concat_split_at [OF assms(1)]
    by (auto simp: iter_pos_def take_Suc_conv_app_nth)
qed

theorem iovSerializeUInt8_spec:
  assumes "iov_ok iov" "iter_ok iov it" "whip6_iovIteratorIsValid it"
  shows "\<exists>iov' it'. whip6_iovIteratorSerializeUInt8AndMoveForward iov it b = Some (iov', it', 0) \<and>
    map length iov' = map length iov \<and>
    concat iov' = mem_blit (concat iov) (iter_pos iov it) [b] \<and>
    iter_ok iov it' \<and> iter_pos iov it' = iter_pos iov it + 1"
proof -
  from assms obtain i where Some: "currElem it = Some i"
    and i: "i < length iov" "iterOffset it < length (iov ! i)"
    by (auto simp: whip6_iovIteratorIsValid_def iter_ok_def)
  let ?o = "iterOffset it" and ?c = "iov ! i"
  have upd: "?c[?o := b] = mem_blit ?c ?o [b]"
    using i mem_blit_update [of ?o "[]" ?c b] by simp
  have le: "?o + length [b] \<le> length ?c" using i by simp
  have "map length (iov[i := mem_blit ?c ?o [b]]) = map length iov"
    using i by (simp add: map_update mem_blit_length [OF le] list_update_same_conv)
  moreover note concat_update_at [OF i(1) le]
    node_iter_pos [OF i(1) refl refl i(2) assms(1)]
  ultimately show ?thesis
    using i by (auto simp: whip6_iovIteratorSerializeUInt8AndMoveForward_def Some Let_def upd
        iter_pos_def not_le)
qed

text \<open>
  Two bytes go out in network order. When only one byte is left, the first one has been
  written, the iterator has not moved, and the result says how many bytes are missing.
\<close>

theorem iovSerializeUInt16_spec:
  assumes "iov_ok iov" "iter_ok iov it" "2 \<le> length (iter_rest iov it)"
  shows "\<exists>iov' it'. whip6_iovIteratorSerializeUInt16AndMoveForward iov it w = Some (iov', it', 0) \<and>
    map length iov' = map length iov \<and>
    concat iov' = mem_blit (concat iov) (iter_pos iov it) [ucast (drop_bit 8 w), ucast w] \<and>
    iter_ok iov it' \<and> iter_pos iov it' = iter_pos iov it + 2"
proof -
  have "whip6_iovIteratorIsValid it"
    using assms by (simp add: iter_valid_iff)
  with assms(2) obtain i where Some: "currElem it = Some i"
    and i: "i < length iov" "iterOffset it < length (iov ! i)"
    by (auto simp: whip6_iovIteratorIsValid_def iter_ok_def)
  let ?o = "iterOffset it" and ?c = "iov ! i"
  let ?hi = "ucast (drop_bit 8 w) :: u8" and ?lo = "ucast w :: u8"
  let ?iov = "iov[i := ?c[?o := ?hi]]"
  have pos: "iter_pos iov it = length (concat (take i iov)) + ?o"
    by (simp add: iter_pos_def Some)
  have ml: "map length ?iov = map length iov"
    by (simp add: map_update list_update_same_conv i)
  have c1: "concat ?iov = mem_blit (concat iov) (iter_pos iov it) [?hi]"
    using concat_update_at [OF i(1), of ?o "[?hi]"] i mem_blit_update [of ?o "[]" ?c ?hi] pos
    by simp
  have two: "mem_blit (concat ?iov) (iter_pos iov it + 1) [?lo] =
      mem_blit (concat iov) (iter_pos iov it) [?hi, ?lo]"
    using assms(3) mem_blit_append' [of "[?hi]" 1 "iter_pos iov it" "[?lo]" "concat iov"] by (simp add: c1)
  define j where "j = (if ?o + 2 \<le> length ?c then i else Suc i)"
  define o' where "o' = (if ?o + 2 \<le> length ?c then Suc ?o else 0)"
  have rest: "length (iter_rest iov it) = (length ?c - ?o) + length (concat (drop (Suc i) iov))"
    using iter_rest_at [OF i] by (simp add: pos)
  have more: "?o + 2 \<le> length ?c \<or> Suc i < length iov"
    using rest assms(3) i by (cases "Suc i < length iov") auto
  have j: "j < length iov" using more i by (auto simp: j_def)
  have "j < length iov \<Longrightarrow> iov ! j \<noteq> []" using assms(1) by (auto simp: iov_ok_def)
  then have o': "o' < length (iov ! j)" using j by (auto simp: j_def o'_def)
  have pj: "length (concat (take j iov)) + o' = iter_pos iov it + 1"
    using i by (auto simp: j_def o'_def pos take_Suc_conv_app_nth)
  have lj: "length (?iov ! j) = length (iov ! j)" using ml j by (metis length_list_update nth_map)
  let ?d = "?iov ! j"
  have le: "o' + length [?lo] \<le> length ?d" using o' lj by simp
  have upd: "?d[o' := ?lo] = mem_blit ?d o' [?lo]"
    using o' lj mem_blit_update [of o' "[]" ?d ?lo] by simp
  have "length (concat (take j ?iov)) = length (concat (take j iov))"
    using ml by (metis length_concat take_map)
  then have cc: "concat (?iov[j := ?d[o' := ?lo]]) =
      mem_blit (concat iov) (iter_pos iov it) [?hi, ?lo]"
    using concat_update_at [OF _ le] j by (simp only: upd two pj length_list_update)
  have mm: "map length (?iov[j := ?d[o' := ?lo]]) = map length iov"
    using ml j lj by (simp add: map_update list_update_same_conv)
  note np = node_iter_pos [OF j refl refl o' assms(1)]
  have "whip6_iovIteratorSerializeUInt16AndMoveForward iov it w =
    Some (?iov[j := ?d[o' := ?lo]],
      \<lparr>currElem = (if Suc o' < length (iov ! j) then Some j
          else if Suc j < length iov then Some (Suc j) else None),
       iterOffset = (if Suc o' < length (iov ! j) then Suc o' else 0)\<rparr>, 0)"
    using i j o' lj more
    by (auto simp: whip6_iovIteratorSerializeUInt16AndMoveForward_def Some Let_def j_def o'_def
        split: if_splits)
  with cc mm np pj show ?thesis by auto
qed

lemma iovSerializeUInt16_short:
  assumes "iov_ok iov" "iter_ok iov it" "length (iter_rest iov it) = 1"
  shows "\<exists>iov'. whip6_iovIteratorSerializeUInt16AndMoveForward iov it w = Some (iov', it, 1) \<and>
    concat iov' = mem_blit (concat iov) (iter_pos iov it) [ucast (drop_bit 8 w)]"
proof -
  have "whip6_iovIteratorIsValid it"
    using assms by (simp add: iter_valid_iff)
  with assms(2) obtain i where Some: "currElem it = Some i"
    and i: "i < length iov" "iterOffset it < length (iov ! i)"
    by (auto simp: whip6_iovIteratorIsValid_def iter_ok_def)
  let ?o = "iterOffset it" and ?c = "iov ! i" and ?hi = "ucast (drop_bit 8 w) :: u8"
  have pos: "iter_pos iov it = length (concat (take i iov)) + ?o"
    by (simp add: iter_pos_def Some)
  have rest: "1 = (length ?c - ?o) + length (concat (drop (Suc i) iov))"
    using iter_rest_at [OF i] assms(3) by (simp add: pos)
  have "\<not> Suc i < length iov"
  proof
    assume s: "Suc i < length iov"
    then have "iov ! Suc i \<noteq> []" using assms(1) by (auto simp: iov_ok_def)
    then have "0 < length (concat (drop (Suc i) iov))"
      using s by (simp add: Cons_nth_drop_Suc [symmetric])
    with rest i(2) show False by linarith
  qed
  moreover have "\<not> ?o + 2 \<le> length ?c" using rest by linarith
  moreover have "concat (iov[i := ?c[?o := ?hi]]) = mem_blit (concat iov) (iter_pos iov it) [?hi]"
    using concat_update_at [OF i(1), of ?o "[?hi]"] i mem_blit_update [of ?o "[]" ?c ?hi] pos
    by simp
  ultimately show ?thesis using i
    by (simp add: whip6_iovIteratorSerializeUInt16AndMoveForward_def Some)
qed

end
