(* ===== verification/Ipv6_Checksum.thy ===== *)
theory Ipv6_Checksum
  imports Base_IoVecIter
begin

text \<open>
  The Internet checksum: \<open>microc/include/ipv6/ucIpv6Checksum.h\<close>,
  \<open>detail/ucIpv6ChecksumImpl.h\<close>, \<open>microc/src/ipv6/ucIpv6Checksum.c\<close>.

  A computation accumulates sixteen-bit words in a thirty-two-bit sum and keeps an odd byte for
  later. \<open>ck_rel ckc bs\<close> says that \<open>ckc\<close> has absorbed \<open>bs\<close>: all the ways of feeding a
  computation extend that string, so the result does not depend on how the input is cut. The
  final value is characterised arithmetically, up to the 131074 bytes for which the sum cannot
  overflow.
\<close>

record ipv6_checksum_computation =
  ck_sum :: u32
  ck_parity :: u8
  ck_accum :: u8

definition whip6_ipv6ChecksumComputationInit :: ipv6_checksum_computation where
  "whip6_ipv6ChecksumComputationInit = \<lparr>ck_sum = 0, ck_parity = 0, ck_accum = 0\<rparr>"

definition whip6_ipv6ChecksumComputationProvideWithOneByte ::
  "ipv6_checksum_computation \<Rightarrow> u8 \<Rightarrow> ipv6_checksum_computation" where
  "whip6_ipv6ChecksumComputationProvideWithOneByte ckc b =
     (let parity = (ck_parity ckc + 1) AND 0x01; ckc = ckc\<lparr>ck_parity := parity\<rparr>
      in if parity = 0
         then ckc\<lparr>ck_sum := ck_sum ckc + ucast (u16_join (ck_accum ckc) b)\<rparr>
         else ckc\<lparr>ck_accum := b\<rparr>)"

text \<open>The pairs in the middle of an array; \<open>bufLen\<close> is even.\<close>

fun ck_pairs_loop :: "u8 list \<Rightarrow> nat \<Rightarrow> nat \<Rightarrow> u32 \<Rightarrow> (u32 \<times> nat) option" where
  "ck_pairs_loop buf p 0 acc = Some (acc, p)"
| "ck_pairs_loop buf p (Suc n) acc =
     do { hi \<leftarrow> buf_get buf p;
          lo \<leftarrow> buf_get buf (Suc p);
          ck_pairs_loop buf (Suc (Suc p)) (n - 1) (acc + ucast (u16_join hi lo)) }"

definition whip6_ipv6ChecksumComputationProvideWithByteArray ::
  "ipv6_checksum_computation \<Rightarrow> u8 list option \<Rightarrow> nat \<Rightarrow> nat \<Rightarrow> ipv6_checksum_computation option" where
  "whip6_ipv6ChecksumComputationProvideWithByteArray ckc bufPtr p bufLen =
     (case bufPtr of
        None \<Rightarrow> Some ckc
      | Some buf \<Rightarrow>
          if bufLen = 0 then Some ckc
          else
            do { (acc, p, bufLen) \<leftarrow>
                   (if ck_parity ckc \<noteq> 0
                    then do { b \<leftarrow> buf_get buf p;
                              Some (ck_sum ckc + ucast (u16_join (ck_accum ckc) b), Suc p, bufLen - 1) }
                    else Some (ck_sum ckc, p, bufLen));
                 let parity = (if odd bufLen then 1 else 0);
                 let bufLen = (if odd bufLen then bufLen - 1 else bufLen);
                 (acc, p) \<leftarrow> ck_pairs_loop buf p bufLen acc;
                 let ckc = ckc\<lparr>ck_sum := acc, ck_parity := parity\<rparr>;
                 if parity \<noteq> 0
                 then do { b \<leftarrow> buf_get buf p; Some (ckc\<lparr>ck_accum := b\<rparr>) }
                 else Some ckc })"

lemma mask_low16: "unat ((w :: u32) AND 0xffff) = unat w mod 65536"
proof -
  have "w AND 0xffff = take_bit 16 w" by (simp add: take_bit_eq_mask mask_eq_exp_minus_1)
  then show ?thesis by (simp add: take_bit_eq_mod unat_mod)
qed

lemma unat_hi16: "unat (ucast (drop_bit 16 (w :: u32)) :: u16) = unat w div 65536"
proof -
  have "unat w < 65536 * 65536" using unsigned_less [of w] by simp
  then have "unat w div 65536 < 65536" by (simp add: less_mult_imp_div_less)
  then show ?thesis by (simp add: unsigned_ucast_eq take_bit_eq_mod drop_bit_eq_div unat_div)
qed

lemma unat_fold_step:
  "unat ((w AND 0xffff) + ucast (ucast (drop_bit 16 w) :: u16) :: u32) = unat w mod 65536 + unat w div 65536"
proof -
  let ?p = "ucast (drop_bit 16 w) :: u16"
  have p: "unat (ucast ?p :: u32) = unat w div 65536"
    using unat_hi16 [of w] unat_u16_less [of ?p]
    by (simp add: unsigned_ucast_eq [of ?p] take_bit_eq_mod)
  have "unat w div 65536 < 65536" using unat_u16_less [of ?p] by (simp only: unat_hi16)
  moreover have "unat w mod 65536 < 65536" by simp
  ultimately have "unat w mod 65536 + unat w div 65536 < 4294967296" by linarith
  then show ?thesis by (simp add: unat_word_ariths(1) mask_low16 p)
qed

function ck_fold :: "u32 \<Rightarrow> u32" where
  "ck_fold acc =
     (let part = ucast (drop_bit 16 acc) :: u16
      in if part = 0 then acc else ck_fold ((acc AND 0xffff) + ucast part))"
  by pat_completeness auto
termination
proof (relation "measure unat")
  fix acc :: u32 and part :: u16
  assume p: "part = ucast (drop_bit 16 acc)" "part \<noteq> 0"
  have "unat part \<noteq> 0" using p(2) by (simp add: unat_eq_0)
  then have "0 < unat acc div 65536" unfolding p(1) unat_hi16 by simp
  moreover have "unat acc mod 65536 + 65536 * (unat acc div 65536) = unat acc" by simp
  ultimately have "unat acc mod 65536 + unat acc div 65536 < unat acc" by linarith
  then show "((acc AND 0xffff) + ucast part, acc) \<in> measure unat"
    unfolding p(1) by (simp only: in_measure unat_fold_step)
qed simp

declare ck_fold.simps [simp del]

definition whip6_ipv6ChecksumComputationFinalize :: "ipv6_checksum_computation \<Rightarrow> u16" where
  "whip6_ipv6ChecksumComputationFinalize ckc =
     (let acc = (if ck_parity ckc \<noteq> 0
                 then ck_sum ckc + ucast (u16_join (ck_accum ckc) 0)
                 else ck_sum ckc)
      in ucast (NOT (ck_fold acc)))"

section \<open>Feeding a computation from an I/O vector\<close>

fun ck_iov_loop ::
  "iov \<Rightarrow> nat \<Rightarrow> nat \<Rightarrow> ipv6_checksum_computation \<Rightarrow> nat \<Rightarrow>
   (ipv6_checksum_computation \<times> nat option \<times> nat \<times> nat) option" where
  "ck_iov_loop [] j fragLen ckc res = Some (ckc, None, 0, res)"
| "ck_iov_loop (c # iovList) j fragLen ckc res =
     (if fragLen = 0 then Some (ckc, Some j, 0, res)
      else let iovOffset = length c in
        if iovOffset > fragLen then
          do { ckc \<leftarrow> whip6_ipv6ChecksumComputationProvideWithByteArray ckc (Some c) 0 fragLen;
               Some (ckc, Some j, fragLen, res + fragLen) }
        else
          do { ckc \<leftarrow> whip6_ipv6ChecksumComputationProvideWithByteArray ckc (Some c) 0 iovOffset;
               ck_iov_loop iovList (Suc j) (fragLen - iovOffset) ckc (res + iovOffset) })"

definition whip6_ipv6ChecksumComputationProvideWithIovAndAdvanceIovIterator ::
  "ipv6_checksum_computation \<Rightarrow> iov \<Rightarrow> iov_blist_iter \<Rightarrow> nat \<Rightarrow>
   (ipv6_checksum_computation \<times> iov_blist_iter \<times> nat) option" where
  "whip6_ipv6ChecksumComputationProvideWithIovAndAdvanceIovIterator ckc iov it fragLen =
     (if fragLen = 0 then Some (ckc, it, 0)
      else case currElem it of
        None \<Rightarrow> Some (ckc, it, 0)
      | Some i \<Rightarrow>
          do { c \<leftarrow> buf_get iov i;
               let iovOffset = iterOffset it;
               let res = length c - iovOffset;
               if res > fragLen then
                 do { ckc \<leftarrow> whip6_ipv6ChecksumComputationProvideWithByteArray ckc (Some c) iovOffset fragLen;
                      Some (ckc, it\<lparr>iterOffset := iovOffset + fragLen\<rparr>, fragLen) }
               else
                 do { ckc \<leftarrow> whip6_ipv6ChecksumComputationProvideWithByteArray ckc (Some c) iovOffset res;
                      (ckc, cur, off, r) \<leftarrow>
                        ck_iov_loop (drop (Suc i) iov) (Suc i) (fragLen - res) ckc res;
                      Some (ckc, \<lparr>currElem = cur, iterOffset = off\<rparr>, r) } })"

definition whip6_ipv6ChecksumComputationProvideIpv6PseudoHeader ::
  "ipv6_checksum_computation \<Rightarrow> u8 list \<Rightarrow> u8 list \<Rightarrow> u32 \<Rightarrow> u8 \<Rightarrow>
   (ipv6_checksum_computation \<times> nat) option" where
  "whip6_ipv6ChecksumComputationProvideIpv6PseudoHeader ckc srcAddr dstAddr ipLen nextHdr =
     do { ckc \<leftarrow> whip6_ipv6ChecksumComputationProvideWithByteArray ckc (Some srcAddr) 0 16;
          ckc \<leftarrow> whip6_ipv6ChecksumComputationProvideWithByteArray ckc (Some dstAddr) 0 16;
          let put = whip6_ipv6ChecksumComputationProvideWithOneByte;
          let tmpLen = (ucast (drop_bit 16 ipLen) :: u16);
          let ckc = (if tmpLen \<noteq> 0 then put (put ckc (u16_hi tmpLen)) (u16_lo tmpLen) else ckc);
          let tmpLen = (ucast ipLen :: u16);
          let ckc = put (put ckc (u16_hi tmpLen)) (u16_lo tmpLen);
          let ckc = put (put ckc 0) nextHdr;
          Some (ckc, 40) }"

section \<open>What a computation has absorbed\<close>

fun pair_sum :: "u8 list \<Rightarrow> nat" where
  "pair_sum (a # b # bs) = 256 * unat a + unat b + pair_sum bs"
| "pair_sum _ = 0"

definition ck_rel :: "ipv6_checksum_computation \<Rightarrow> u8 list \<Rightarrow> bool" where
  "ck_rel ckc bs \<longleftrightarrow>
     ck_sum ckc = of_nat (pair_sum bs) \<and>
     ck_parity ckc = of_bool (odd (length bs)) \<and>
     (odd (length bs) \<longrightarrow> ck_accum ckc = last bs)"

lemma even_length_induct [consumes 1, case_names Nil Pair]:
  assumes "even (length xs)" "P []" "\<And>a b xs. even (length xs) \<Longrightarrow> P xs \<Longrightarrow> P (a # b # xs)"
  shows "P xs"
  using assms(1)
  by (induction xs rule: induct_list012) (auto intro: assms(2,3))

lemma pair_sum_append_even: "even (length xs) \<Longrightarrow> pair_sum (xs @ ys) = pair_sum xs + pair_sum ys"
  by (induction xs rule: even_length_induct) auto

lemma pair_sum_snoc_even: "even (length xs) \<Longrightarrow> pair_sum (xs @ [b]) = pair_sum xs"
  by (simp add: pair_sum_append_even)

lemma pair_sum_snoc_odd:
  assumes "odd (length xs)"
  shows "pair_sum (xs @ [b]) = pair_sum xs + 256 * unat (last xs) + unat b"
proof -
  from assms obtain ys a where xs: "xs = ys @ [a]" by (cases xs rule: rev_cases) auto
  with assms show ?thesis by (simp add: pair_sum_append_even)
qed

lemma ucast_join: "ucast (u16_join a b) = (of_nat (256 * unat a + unat b) :: u32)"
  by (simp only: unat_u16_join [symmetric] of_nat_unat)

lemma parity_step: "(of_bool p + 1) AND 1 = (of_bool (\<not> p) :: u8)"
  by (cases p) simp_all

lemma ck_rel_init: "ck_rel whip6_ipv6ChecksumComputationInit []"
  by (simp add: ck_rel_def whip6_ipv6ChecksumComputationInit_def)

lemma ck_rel_byte:
  assumes "ck_rel ckc bs"
  shows "ck_rel (whip6_ipv6ChecksumComputationProvideWithOneByte ckc b) (bs @ [b])"
  using assms
  by (cases "odd (length bs)")
    (simp_all add: ck_rel_def whip6_ipv6ChecksumComputationProvideWithOneByte_def Let_def
      pair_sum_snoc_even pair_sum_snoc_odd ucast_join)

lemma ck_pairs_loop_eq:
  "even n \<Longrightarrow> p + n \<le> length buf \<Longrightarrow>
   ck_pairs_loop buf p n acc = Some (acc + of_nat (pair_sum (take n (drop p buf))), p + n)"
proof (induction buf p n acc rule: ck_pairs_loop.induct)
  case (2 buf p n acc)
  then obtain m where n: "n = Suc m" by (cases n) auto
  have "drop p buf = buf ! p # buf ! Suc p # drop (Suc (Suc p)) buf"
    using 2(3) n by (simp add: Cons_nth_drop_Suc)
  moreover have "ck_pairs_loop buf (Suc (Suc p)) m (acc + ucast (u16_join (buf ! p) (buf ! Suc p))) =
      Some (acc + ucast (u16_join (buf ! p) (buf ! Suc p)) +
        of_nat (pair_sum (take m (drop (Suc (Suc p)) buf))), Suc (Suc p) + m)"
    using "2.IH" [of "buf ! p" "buf ! Suc p"] 2(2,3) by (simp add: n)
  ultimately show ?case using 2(3) by (simp add: n ucast_join algebra_simps)
qed simp

lemma ck_rel_array:
  assumes "ck_rel ckc bs" "p + n \<le> length buf"
  shows "\<exists>ckc'. whip6_ipv6ChecksumComputationProvideWithByteArray ckc (Some buf) p n = Some ckc' \<and>
    ck_rel ckc' (bs @ take n (drop p buf))"
proof (cases "n = 0")
  case True
  with assms show ?thesis
    by (simp add: whip6_ipv6ChecksumComputationProvideWithByteArray_def)
next
  case False
  let ?xs = "take n (drop p buf)"
  define h where "h = (if odd (length bs) then 1 else 0 :: nat)"
  define m where "m = n - h"
  define e where "e = (if odd m then m - 1 else m)"
  have hn: "h \<le> n" "p + h + m \<le> length buf" "p + h + e \<le> length buf" "even e"
    using False assms(2) by (auto simp: h_def m_def e_def)
  have xs: "?xs = take h (drop p buf) @ take m (drop (p + h) buf)"
    using hn(1) take_add [of h "n - h" "drop p buf"] by (simp add: m_def add.commute)
  have m: "take m (drop (p + h) buf) = take e (drop (p + h) buf) @ (if odd m then [buf ! (p + h + e)] else [])"
    using hn by (auto simp: e_def take_Suc_conv_app_nth elim!: oddE)
  have sum: "of_nat (pair_sum (bs @ take h (drop p buf) @ take e (drop (p + h) buf))) =
      (if odd (length bs) then ck_sum ckc + ucast (u16_join (ck_accum ckc) (buf ! p)) else ck_sum ckc) +
      of_nat (pair_sum (take e (drop (p + h) buf)))"
  proof (cases "odd (length bs)")
    case True
    have "take 1 (drop p buf) = [buf ! p]" using False assms(2) by (simp add: take_Suc_conv_app_nth)
    then have "bs @ take h (drop p buf) = bs @ [buf ! p]" using True by (simp add: h_def)
    then have "pair_sum ((bs @ take h (drop p buf)) @ take e (drop (p + h) buf)) =
        pair_sum bs + 256 * unat (last bs) + unat (buf ! p) + pair_sum (take e (drop (p + h) buf))"
      using True by (simp add: pair_sum_append_even pair_sum_snoc_odd del: append_assoc)
    then show ?thesis using True assms(1) by (simp add: ck_rel_def ucast_join)
  next
    case False
    then show ?thesis using assms(1) by (simp add: ck_rel_def h_def pair_sum_append_even)
  qed
  have odd_len: "odd (length bs + n) \<longleftrightarrow> odd m" using hn(1) by (auto simp: m_def h_def)
  have even_pre: "even (length bs + h + e)" using hn(4) by (auto simp: h_def)
  have lens: "length (take h (drop p buf)) = h" "length (take e (drop (p + h) buf)) = e"
    using hn by auto
  have whole: "bs @ ?xs = (bs @ take h (drop p buf) @ take e (drop (p + h) buf)) @
      (if odd m then [buf ! (p + h + e)] else [])"
    by (simp add: xs m)
  have ps: "pair_sum (bs @ ?xs) = pair_sum (bs @ take h (drop p buf) @ take e (drop (p + h) buf))"
  proof -
    have "even (length (bs @ take h (drop p buf) @ take e (drop (p + h) buf)))"
      using even_pre by (simp only: length_append lens add.assoc)
    then show ?thesis unfolding whole by (simp only: pair_sum_append_even) simp
  qed
  have len: "length (bs @ ?xs) = length bs + n" using assms(2) by simp
  let ?buf = "buf" and ?acc = "if odd (length bs) then ck_sum ckc + ucast (u16_join (ck_accum ckc) (buf ! p)) else ck_sum ckc"
  let ?ckc = "ckc\<lparr>ck_sum := of_nat (pair_sum (bs @ ?xs)), ck_parity := of_bool (odd m)\<rparr>"
  have loop: "ck_pairs_loop buf (p + h) e ?acc = Some (of_nat (pair_sum (bs @ ?xs)), p + h + e)"
    using ck_pairs_loop_eq [OF hn(4,3), of ?acc] sum ps by simp
  have res: "whip6_ipv6ChecksumComputationProvideWithByteArray ckc (Some buf) p n =
      Some (if odd m then ?ckc\<lparr>ck_accum := buf ! (p + h + e)\<rparr> else ?ckc)"
  proof -
    have par: "ck_parity ckc \<noteq> 0 \<longleftrightarrow> odd (length bs)"
      using assms(1) by (simp add: ck_rel_def)
    have st: "(if ck_parity ckc \<noteq> 0
         then do { b \<leftarrow> buf_get buf p; Some (ck_sum ckc + ucast (u16_join (ck_accum ckc) b), Suc p, n - 1) }
         else Some (ck_sum ckc, p, n)) = Some (?acc, p + h, m)"
      using assms(2) False unfolding par by (simp add: h_def m_def)
    have "odd m \<Longrightarrow> p + h + e < length buf" using hn(2) by (auto simp: e_def elim!: oddE)
    then show ?thesis
      using False loop
      by (auto simp add: whip6_ipv6ChecksumComputationProvideWithByteArray_def st e_def [symmetric])
  qed
  have lst: "odd m \<Longrightarrow> last (bs @ ?xs) = buf ! (p + h + e)"
    unfolding whole by simp
  show ?thesis unfolding res using lst odd_len len by (simp add: ck_rel_def)
qed

lemma ck_iov_loop_spec:
  assumes "ck_rel ckc bs" "iov_ok cs" "xs = take n (concat cs)"
  shows "\<exists>ckc' cur o'. ck_iov_loop cs j n ckc res = Some (ckc', cur, o', res + length xs) \<and>
    ck_rel ckc' (bs @ xs) \<and> cur_ok cs j cur o' \<and> cur_pos cs j cur o' = length xs"
  using assms
proof (induction cs j n ckc res arbitrary: bs xs rule: ck_iov_loop.induct)
  case (1 j n ckc res)
  then show ?case by simp
next
  case (2 c cs j n ckc res)
  show ?case
  proof (cases "n = 0 \<or> n < length c")
    case True
    obtain ckc' where "whip6_ipv6ChecksumComputationProvideWithByteArray ckc (Some c) 0 (min n (length c)) = Some ckc'"
      "ck_rel ckc' (bs @ take (min n (length c)) c)"
      using ck_rel_array [OF "2.prems"(1), of 0 "min n (length c)" c] by auto
    with True "2.prems" show ?thesis by (auto simp: Let_def min_def)
  next
    case False
    then have n: "n \<noteq> 0" "\<not> n < length c" by auto
    obtain ckc1 where c1: "whip6_ipv6ChecksumComputationProvideWithByteArray ckc (Some c) 0 (length c) = Some ckc1"
      and r1: "ck_rel ckc1 (bs @ c)"
      using ck_rel_array [OF "2.prems"(1), of 0 "length c" c] by auto
    have "\<exists>ckc' cur o'. ck_iov_loop cs (Suc j) (n - length c) ckc1 (res + length c) =
        Some (ckc', cur, o', res + length c + length (take (n - length c) (concat cs))) \<and>
      ck_rel ckc' ((bs @ c) @ take (n - length c) (concat cs)) \<and> cur_ok cs (Suc j) cur o' \<and>
      cur_pos cs (Suc j) cur o' = length (take (n - length c) (concat cs))"
      using "2.prems"(2) by (intro "2.IH" [OF n(1) refl n(2) c1 r1]) simp_all
    then obtain ckc' cur o' where "ck_iov_loop cs (Suc j) (n - length c) ckc1 (res + length c) =
        Some (ckc', cur, o', res + length c + length (take (n - length c) (concat cs)))"
      "ck_rel ckc' ((bs @ c) @ take (n - length c) (concat cs))" "cur_ok cs (Suc j) cur o'"
      "cur_pos cs (Suc j) cur o' = length (take (n - length c) (concat cs))" by blast
    moreover have "xs = c @ take (n - length c) (concat cs)" using n "2.prems"(3) by simp
    ultimately show ?thesis using n c1 by (auto simp: cur_later Let_def)
  qed
qed

lemma ck_rel_iov:
  assumes "ck_rel ckc bs" "iov_ok iov" "iter_ok iov it"
    and "xs = take n (iter_rest iov it)"
  shows "\<exists>ckc' it'.
    whip6_ipv6ChecksumComputationProvideWithIovAndAdvanceIovIterator ckc iov it n =
      Some (ckc', it', length xs) \<and>
    ck_rel ckc' (bs @ xs) \<and> iter_ok iov it' \<and> iter_pos iov it' = iter_pos iov it + length xs"
proof (cases "n = 0 \<or> currElem it = None")
  case True
  with assms show ?thesis
    by (auto simp: whip6_ipv6ChecksumComputationProvideWithIovAndAdvanceIovIterator_def iter_pos_def)
next
  case False
  then obtain i where Some: "currElem it = Some i" and n: "n \<noteq> 0" by auto
  with assms(3) have i: "i < length iov" "iterOffset it < length (iov ! i)"
    by (simp_all add: iter_ok_def)
  let ?c = "drop (iterOffset it) (iov ! i)" and ?cs = "drop (Suc i) iov"
  have pos: "iter_pos iov it = length (concat (take i iov)) + iterOffset it"
    by (simp add: iter_pos_def Some)
  have xs: "xs = take n (?c @ concat ?cs)" using assms(4) by (simp add: pos iter_rest_at [OF i])
  show ?thesis
  proof (cases "n < length ?c")
    case True
    have "iterOffset it + n \<le> length (iov ! i)" using True by simp
    from ck_rel_array [OF assms(1) this] obtain ckc' where
      "whip6_ipv6ChecksumComputationProvideWithByteArray ckc (Some (iov ! i)) (iterOffset it) n = Some ckc'"
      "ck_rel ckc' (bs @ take n ?c)" by auto
    with True n i xs show ?thesis
      by (auto simp: whip6_ipv6ChecksumComputationProvideWithIovAndAdvanceIovIterator_def Some iter_ok_def
          iter_pos_def)
  next
    case nl: False
    obtain ckc1 where c1: "whip6_ipv6ChecksumComputationProvideWithByteArray ckc (Some (iov ! i))
        (iterOffset it) (length ?c) = Some ckc1" and r1: "ck_rel ckc1 (bs @ ?c)"
      using ck_rel_array [OF assms(1), of "iterOffset it" "length ?c" "iov ! i"] i by auto
    let ?ys = "take (n - length ?c) (concat ?cs)"
    obtain ckc' cur o' where l: "ck_iov_loop ?cs (Suc i) (n - length ?c) ckc1 (length ?c) =
        Some (ckc', cur, o', length ?c + length ?ys)"
      and r: "ck_rel ckc' ((bs @ ?c) @ ?ys)"
      and ok: "cur_ok ?cs (Suc i) cur o'" "cur_pos ?cs (Suc i) cur o' = length ?ys"
      using ck_iov_loop_spec [OF r1 iov_ok_drop [OF assms(2)] refl] by blast
    have x: "xs = ?c @ ?ys" using nl by (simp add: xs)
    show ?thesis using nl c1 l r i n iter_step_pos [OF i ok]
      by (auto simp: whip6_ipv6ChecksumComputationProvideWithIovAndAdvanceIovIterator_def Some pos x Let_def)
  qed
qed

section \<open>The result\<close>

text \<open>The one's complement sum of the sixteen-bit words, an odd last byte padded with zero.\<close>

definition word_sum :: "u8 list \<Rightarrow> nat" where
  "word_sum bs = pair_sum (if odd (length bs) then bs @ [0] else bs)"

definition fold16 :: "nat \<Rightarrow> nat" where
  "fold16 n = (if n = 0 then 0 else (n - 1) mod 65535 + 1)"

lemma fold16_le: "fold16 n \<le> 65535"
  using mod_less_divisor [of 65535 "n - 1"] by (auto simp: fold16_def)

lemma fold16_small: "n < 65536 \<Longrightarrow> fold16 n = n"
  by (simp add: fold16_def)

lemma fold16_step:
  assumes "n = l + 65536 * h" "0 < h"
  shows "fold16 n = fold16 (l + h)"
proof -
  have "n - 1 = (l + h - 1) + 65535 * h" using assms by simp
  then have "(n - 1) mod 65535 = (l + h - 1) mod 65535" by (simp only: mod_mult_self2)
  then show ?thesis using assms by (simp add: fold16_def)
qed

lemma unat_ck_fold: "unat (ck_fold w) = fold16 (unat w)"
proof (induction w rule: ck_fold.induct)
  case (1 w)
  let ?h = "unat w div 65536" and ?l = "unat w mod 65536"
  let ?w = "(w AND 0xffff) + ucast (ucast (drop_bit 16 w) :: u16) :: u32"
  have part: "(ucast (drop_bit 16 w) :: u16) = 0 \<longleftrightarrow> ?h = 0"
    by (simp only: unat_eq_0 [symmetric] unat_hi16)
  show ?case
  proof (cases "?h = 0")
    case True
    then have "(ucast (drop_bit 16 w) :: u16) = 0" by (simp only: part)
    then have "ck_fold w = w" by (subst ck_fold.simps) (simp only: Let_def simp_thms if_True)
    moreover have "unat w < 65536" using True by simp
    ultimately show ?thesis by (simp add: fold16_small)
  next
    case False
    then have nz: "(ucast (drop_bit 16 w) :: u16) \<noteq> 0" by (simp only: part simp_thms)
    then have "ck_fold w = ck_fold ?w"
      by (subst ck_fold.simps) (simp only: Let_def if_False)
    moreover have "unat (ck_fold ?w) = fold16 (unat ?w)"
      by (rule "1.IH" [OF refl nz])
    moreover have "fold16 (unat w) = fold16 (?l + ?h)"
      using False by (intro fold16_step) simp_all
    ultimately show ?thesis by (simp only: unat_fold_step)
  qed
qed

lemma pair_sum_le: "pair_sum bs \<le> 65535 * (length bs div 2)"
proof (induction bs rule: pair_sum.induct)
  case (1 a b bs)
  then show ?case using unat_u8_le [of a] unat_u8_le [of b] by simp
qed simp_all

lemma unat_not_u16: "unat (NOT (w :: u16)) = 65535 - unat w"
proof -
  have "NOT w = - 1 - w" by (simp add: not_eq_complement)
  moreover have "unat (- 1 - w) = unat (- 1 :: u16) - unat w" by (rule unat_sub) simp
  moreover have "unat (- 1 :: u16) = 65535"
    by (simp add: unsigned_minus_1_eq_mask mask_eq_exp_minus_1)
  ultimately show ?thesis by simp
qed

lemma finalize_spec:
  assumes "ck_rel ckc bs" "length bs \<le> 131074"
  shows "unat (whip6_ipv6ChecksumComputationFinalize ckc) = 65535 - fold16 (word_sum bs)"
proof -
  have s: "(if ck_parity ckc \<noteq> 0 then ck_sum ckc + ucast (u16_join (ck_accum ckc) 0) else ck_sum ckc) =
      of_nat (word_sum bs)"
    using assms(1) by (auto simp: ck_rel_def word_sum_def pair_sum_snoc_odd ucast_join)
  let ?bs = "if odd (length bs) then bs @ [0] else bs"
  have "length ?bs div 2 \<le> 65537" using assms(2) by (auto elim!: oddE)
  then have "65535 * (length ?bs div 2) \<le> 65535 * 65537" by (intro mult_le_mono) simp_all
  with pair_sum_le [of ?bs] have "word_sum bs \<le> 65535 * 65537"
    unfolding word_sum_def by (rule order_trans)
  then have "unat (of_nat (word_sum bs) :: u32) = word_sum bs"
    by (simp add: unat_of_nat)
  then have f: "unat (ck_fold (of_nat (word_sum bs))) = fold16 (word_sum bs)"
    by (simp add: unat_ck_fold)
  have "ucast (NOT w) = (NOT (ucast w) :: u16)" for w :: u32
    by (rule bit_word_eqI) (auto simp: bit_simps)
  moreover have "unat (ucast (ck_fold (of_nat (word_sum bs))) :: u16) = fold16 (word_sum bs)"
    using f fold16_le [of "word_sum bs"] by (simp add: unsigned_ucast_eq take_bit_eq_mod)
  ultimately show ?thesis
    by (simp add: whip6_ipv6ChecksumComputationFinalize_def s unat_not_u16)
qed

lemma pair_sum_padding: "even (length xs) \<Longrightarrow> pair_sum (xs @ [0, 0]) = pair_sum xs"
  by (simp add: pair_sum_append_even)

lemma word_sum_split:
  "even (length pre) \<Longrightarrow> word_sum (pre @ a # b # post) = word_sum (pre @ 0 # 0 # post) + 256 * unat a + unat b"
  by (simp add: word_sum_def pair_sum_append_even)

lemma fold16_insert: "fold16 (n + (65535 - fold16 n)) = 65535"
proof (cases "n = 0")
  case False
  define r where "r = (n - 1) mod 65535"
  define q where "q = (n - 1) div 65535"
  have n: "n = 65535 * q + r + 1" "r < 65535" using False by (simp_all add: q_def r_def)
  have "n + (65535 - fold16 n) - 1 = 65534 + 65535 * q"
    using False n by (simp add: fold16_def flip: r_def)
  then have "(n + (65535 - fold16 n) - 1) mod 65535 = 65534" by (simp only: mod_mult_self2) simp
  then show ?thesis using False by (simp add: fold16_def)
qed (simp add: fold16_def)

text \<open>Inserting the computed value makes the receiver's computation come out as zero.\<close>

lemma checksum_insert:
  assumes "even (length pre)" "length pre + 2 + length post \<le> 131074"
    and "ck_rel ckc (pre @ [0, 0] @ post)" "w = whip6_ipv6ChecksumComputationFinalize ckc"
    and "ck_rel ckc' (pre @ [u16_hi w, u16_lo w] @ post)"
  shows "whip6_ipv6ChecksumComputationFinalize ckc' = 0"
proof -
  let ?n = "word_sum (pre @ 0 # 0 # post)"
  have "unat w = 65535 - fold16 ?n"
    using finalize_spec [OF assms(3)] assms(2,4) by simp
  moreover have "256 * unat (u16_hi w) + unat (u16_lo w) = unat w"
    by (simp add: unat_u16_hi unat_u16_lo)
  ultimately have "word_sum (pre @ u16_hi w # u16_lo w # post) = ?n + (65535 - fold16 ?n)"
    using word_sum_split [OF assms(1), of "u16_hi w" "u16_lo w" post] by simp
  then have "unat (whip6_ipv6ChecksumComputationFinalize ckc') = 0"
    using finalize_spec [OF assms(5)] assms(2) by (simp add: fold16_insert)
  then show ?thesis by (simp add: unat_eq_0)
qed

text \<open>One changed byte changes the residue of the sum, hence the result.\<close>

lemma pair_sum_update:
  assumes "i < length bs" "even (length bs)"
  shows "int (pair_sum (bs[i := b])) =
    int (pair_sum bs) + (int (unat b) - int (unat (bs ! i))) * (if even i then 256 else 1)"
  using assms
proof (induction bs arbitrary: i rule: pair_sum.induct)
  case (1 x y bs)
  show ?case
  proof (cases i)
    case (Suc j)
    then show ?thesis
    proof (cases j)
      case (Suc k)
      with \<open>i = Suc j\<close> 1 show ?thesis by auto
    qed (use \<open>i = Suc j\<close> in \<open>simp add: algebra_simps\<close>)
  qed (simp add: algebra_simps)
qed auto

lemma word_sum_update:
  assumes "i < length bs"
  shows "int (word_sum (bs[i := b])) =
    int (word_sum bs) + (int (unat b) - int (unat (bs ! i))) * (if even i then 256 else 1)"
proof -
  let ?p = "\<lambda>xs. if odd (length xs) then xs @ [0] else xs :: u8 list"
  have "?p (bs[i := b]) = (?p bs)[i := b]" "?p bs ! i = bs ! i" "i < length (?p bs)" "even (length (?p bs))"
    using assms by (auto simp: list_update_append nth_append)
  with pair_sum_update [of i "?p bs" b] show ?thesis by (simp only: word_sum_def length_list_update)
qed

lemma fold16_eq_max_iff: "fold16 n = 65535 \<longleftrightarrow> 0 < n \<and> n mod 65535 = 0"
proof (cases "n = 0")
  case False
  define r where "r = (n - 1) mod 65535"
  define q where "q = (n - 1) div 65535"
  have n: "n = 65535 * q + r + 1" "r < 65535" using False by (simp_all add: q_def r_def)
  have "n mod 65535 = (r + 1) mod 65535" unfolding n(1) by (simp add: add.assoc mod_mult_self4)
  moreover have "fold16 n = r + 1" using False by (simp add: fold16_def r_def)
  ultimately show ?thesis using n(2) False by (cases "r = 65534") auto
qed (simp add: fold16_def)

lemma byte_diff_bound:
  fixes x y :: nat
  shows "x \<le> 255 \<Longrightarrow> y \<le> 255 \<Longrightarrow> \<bar>(int x - int y) * (if P then 256 else 1)\<bar> < 65535"
  by auto

lemma checksum_detects:
  assumes "length bs \<le> 131074" "i < length bs" "b \<noteq> bs ! i"
    and "ck_rel ckc bs" "whip6_ipv6ChecksumComputationFinalize ckc = 0" "ck_rel ckc' (bs[i := b])"
  shows "whip6_ipv6ChecksumComputationFinalize ckc' \<noteq> 0"
proof
  assume z: "whip6_ipv6ChecksumComputationFinalize ckc' = 0"
  have max: "fold16 (word_sum bs) = 65535" "fold16 (word_sum (bs[i := b])) = 65535"
    using finalize_spec [OF assms(4,1)] finalize_spec [OF assms(6)] assms(1,5) z
      fold16_le [of "word_sum bs"] fold16_le [of "word_sum (bs[i := b])"] by simp_all
  then have "word_sum bs mod 65535 = 0" "word_sum (bs[i := b]) mod 65535 = 0"
    by (simp_all only: fold16_eq_max_iff)
  then have "65535 dvd int (word_sum bs)" "65535 dvd int (word_sum (bs[i := b]))"
    using of_nat_dvd_iff [of 65535, where 'a=int] by (simp_all add: mod_eq_0_iff_dvd)
  then have dv: "65535 dvd int (word_sum (bs[i := b])) - int (word_sum bs)" by (rule dvd_diff [rotated])
  let ?d = "(int (unat b) - int (unat (bs ! i))) * (if even i then 256 else 1)"
  have "int (word_sum (bs[i := b])) - int (word_sum bs) = ?d"
    using word_sum_update [OF assms(2), of b] by simp
  moreover have "unat b \<noteq> unat (bs ! i)" using assms(3) word_unat_eq_iff by blast
  then have "int (unat b) - int (unat (bs ! i)) \<noteq> 0" by linarith
  then have "?d \<noteq> 0" by (simp only: mult_eq_0_iff) (simp split: if_splits)
  moreover have "\<bar>?d\<bar> < 65535"
    by (intro byte_diff_bound unat_u8_le)
  ultimately show False using dv by (metis dvd_imp_le_int abs_of_nonneg not_less zero_le_numeral abs_numeral)
qed

section \<open>The pseudo-header\<close>

definition rfc_pseudo_header :: "u8 list \<Rightarrow> u8 list \<Rightarrow> u32 \<Rightarrow> u8 \<Rightarrow> u8 list" where
  "rfc_pseudo_header srcAddr dstAddr ipLen nextHdr =
     srcAddr @ dstAddr @
     [u16_hi (ucast (drop_bit 16 ipLen)), u16_lo (ucast (drop_bit 16 ipLen)),
      u16_hi (ucast ipLen), u16_lo (ucast ipLen), 0, 0, 0, nextHdr]"

lemma ck_rel_equiv:
  "ck_rel ckc bs \<Longrightarrow> even (length bs) \<Longrightarrow> even (length cs) \<Longrightarrow> pair_sum bs = pair_sum cs \<Longrightarrow> ck_rel ckc cs"
  by (simp add: ck_rel_def)

text \<open>The zero words that the code skips do not contribute to the sum.\<close>

lemma ck_rel_pseudo:
  assumes "ck_rel ckc bs" "even (length bs)" "length srcAddr = 16" "length dstAddr = 16"
  shows "\<exists>ckc'. whip6_ipv6ChecksumComputationProvideIpv6PseudoHeader ckc srcAddr dstAddr ipLen nextHdr =
      Some (ckc', 40) \<and>
    ck_rel ckc' (bs @ rfc_pseudo_header srcAddr dstAddr ipLen nextHdr)"
proof -
  let ?put = "whip6_ipv6ChecksumComputationProvideWithOneByte"
  let ?hi = "ucast (drop_bit 16 ipLen) :: u16" and ?lo = "ucast ipLen :: u16"
  obtain c1 where c1: "whip6_ipv6ChecksumComputationProvideWithByteArray ckc (Some srcAddr) 0 16 = Some c1"
    and r1: "ck_rel c1 (bs @ srcAddr)"
    using ck_rel_array [OF assms(1), of 0 16 srcAddr] assms(3) by auto
  obtain c2 where c2: "whip6_ipv6ChecksumComputationProvideWithByteArray c1 (Some dstAddr) 0 16 = Some c2"
    and r2: "ck_rel c2 (bs @ srcAddr @ dstAddr)"
    using ck_rel_array [OF r1, of 0 16 dstAddr] assms(4) by auto
  define c3 where "c3 = (if ?hi \<noteq> 0 then ?put (?put c2 (u16_hi ?hi)) (u16_lo ?hi) else c2)"
  have r3: "ck_rel c3 (bs @ srcAddr @ dstAddr @ [u16_hi ?hi, u16_lo ?hi])"
  proof (cases "?hi = 0")
    case True
    have "u16_hi 0 = 0" "u16_lo 0 = 0" by (simp_all add: u16_hi_def u16_lo_def)
    moreover have "ck_rel c2 ((bs @ srcAddr @ dstAddr) @ [0, 0])"
      using r2 assms by (intro ck_rel_equiv [OF r2]) (simp_all add: pair_sum_append_even)
    ultimately show ?thesis using True by (simp add: c3_def)
  next
    case False
    have "ck_rel (?put (?put c2 (u16_hi ?hi)) (u16_lo ?hi)) (((bs @ srcAddr @ dstAddr) @ [u16_hi ?hi]) @ [u16_lo ?hi])"
      by (intro ck_rel_byte r2)
    then show ?thesis using False by (simp add: c3_def)
  qed
  define c4 where "c4 = ?put (?put (?put (?put c3 (u16_hi ?lo)) (u16_lo ?lo)) 0) nextHdr"
  have "ck_rel c4 (((((bs @ srcAddr @ dstAddr @ [u16_hi ?hi, u16_lo ?hi]) @ [u16_hi ?lo]) @ [u16_lo ?lo]) @ [0]) @ [nextHdr])"
    unfolding c4_def by (intro ck_rel_byte r3)
  then have "ck_rel c4 (bs @ rfc_pseudo_header srcAddr dstAddr ipLen nextHdr)"
    by (rule ck_rel_equiv) (use assms in \<open>simp_all add: rfc_pseudo_header_def pair_sum_append_even\<close>)
  moreover have "whip6_ipv6ChecksumComputationProvideIpv6PseudoHeader ckc srcAddr dstAddr ipLen nextHdr =
      Some (c4, 40)"
    by (simp add: whip6_ipv6ChecksumComputationProvideIpv6PseudoHeader_def c1 c2 c3_def c4_def Let_def)
  ultimately show ?thesis by blast
qed

section \<open>Properties\<close>

text \<open>C37: The checksum of an upper-layer packet that the stack computes by pieces (the pseudo-header,
  then \<open>n\<close> bytes of an I/O vector, whatever its division into elements) is the complement of the
  end-around-carry sum of the 16-bit words of the pseudo-header followed by those bytes.\<close>

theorem transport_checksum:
  assumes "iov_ok iov" "iter_ok iov it" "length srcAddr = 16" "length dstAddr = 16"
    and "xs = take n (iter_rest iov it)" "length xs \<le> 131034"
  shows "\<exists>c1 c2 it'. whip6_ipv6ChecksumComputationProvideIpv6PseudoHeader whip6_ipv6ChecksumComputationInit
      srcAddr dstAddr ipLen nextHdr = Some (c1, 40) \<and>
    whip6_ipv6ChecksumComputationProvideWithIovAndAdvanceIovIterator c1 iov it n = Some (c2, it', length xs) \<and>
    iter_ok iov it' \<and> iter_pos iov it' = iter_pos iov it + length xs \<and>
    unat (whip6_ipv6ChecksumComputationFinalize c2) =
      65535 - fold16 (word_sum (rfc_pseudo_header srcAddr dstAddr ipLen nextHdr @ xs))"
proof -
  let ?ph = "rfc_pseudo_header srcAddr dstAddr ipLen nextHdr"
  obtain c1 where c1: "whip6_ipv6ChecksumComputationProvideIpv6PseudoHeader whip6_ipv6ChecksumComputationInit
      srcAddr dstAddr ipLen nextHdr = Some (c1, 40)" "ck_rel c1 ?ph"
    using ck_rel_pseudo [OF ck_rel_init _ assms(3,4)] by auto
  obtain c2 it' where c2: "whip6_ipv6ChecksumComputationProvideWithIovAndAdvanceIovIterator c1 iov it n =
      Some (c2, it', length xs)" "ck_rel c2 (?ph @ xs)" "iter_ok iov it'"
    "iter_pos iov it' = iter_pos iov it + length xs"
    using ck_rel_iov [OF c1(2) assms(1,2,5)] by blast
  have "length (?ph @ xs) \<le> 131074" using assms(3,4,6) by (simp add: rfc_pseudo_header_def)
  from finalize_spec [OF c2(2) this] c1 c2 show ?thesis by blast
qed

theorem transport_checksum_witness:
  "\<exists>c1 c2 it'. whip6_ipv6ChecksumComputationProvideIpv6PseudoHeader whip6_ipv6ChecksumComputationInit
      (replicate 16 0) (replicate 16 1) 3 58 = Some (c1, 40) \<and>
    whip6_ipv6ChecksumComputationProvideWithIovAndAdvanceIovIterator c1 [[1, 2], [3]]
      \<lparr>currElem = Some 0, iterOffset = 0\<rparr> 3 = Some (c2, it', length [1 :: u8, 2, 3]) \<and>
    iter_ok [[1, 2], [3]] it' \<and> iter_pos [[1, 2], [3]] it' =
      iter_pos [[1, 2], [3]] \<lparr>currElem = Some 0, iterOffset = 0\<rparr> + length [1 :: u8, 2, 3] \<and>
    unat (whip6_ipv6ChecksumComputationFinalize c2) =
      65535 - fold16 (word_sum (rfc_pseudo_header (replicate 16 0) (replicate 16 1) 3 58 @ [1, 2, 3]))"
  by (rule transport_checksum) (simp_all add: iov_ok_def iter_ok_def iter_pos_def)

text \<open>C38: A sender that computes the checksum with a zero checksum field and stores it there, high byte
  first, makes the receiver's computation over the whole packet come out as zero.\<close>

theorem checksum_verifies:
  assumes "even (length pre)" "length pre + 2 + length post \<le> 131074" "n = length pre + 2 + length post"
  shows "\<exists>c w c'. whip6_ipv6ChecksumComputationProvideWithByteArray whip6_ipv6ChecksumComputationInit
      (Some (pre @ [0, 0] @ post)) 0 n = Some c \<and> w = whip6_ipv6ChecksumComputationFinalize c \<and>
    whip6_ipv6ChecksumComputationProvideWithByteArray whip6_ipv6ChecksumComputationInit
      (Some (pre @ [u16_hi w, u16_lo w] @ post)) 0 n = Some c' \<and>
    whip6_ipv6ChecksumComputationFinalize c' = 0"
proof -
  have arr: "\<exists>c. whip6_ipv6ChecksumComputationProvideWithByteArray whip6_ipv6ChecksumComputationInit
      (Some (pre @ [a, b] @ post)) 0 n = Some c \<and> ck_rel c (pre @ [a, b] @ post)" for a b
    using ck_rel_array [OF ck_rel_init, of 0 n "pre @ [a, b] @ post"] assms(3) by simp
  obtain c where c: "whip6_ipv6ChecksumComputationProvideWithByteArray whip6_ipv6ChecksumComputationInit
      (Some (pre @ [0, 0] @ post)) 0 n = Some c" "ck_rel c (pre @ [0, 0] @ post)" using arr by blast
  define w where "w = whip6_ipv6ChecksumComputationFinalize c"
  obtain c' where "whip6_ipv6ChecksumComputationProvideWithByteArray whip6_ipv6ChecksumComputationInit
      (Some (pre @ [u16_hi w, u16_lo w] @ post)) 0 n = Some c'" "ck_rel c' (pre @ [u16_hi w, u16_lo w] @ post)"
    using arr by blast
  with c checksum_insert [OF assms(1,2) c(2) w_def] w_def show ?thesis by blast
qed

theorem checksum_verifies_witness:
  "\<exists>c w c'. whip6_ipv6ChecksumComputationProvideWithByteArray whip6_ipv6ChecksumComputationInit
      (Some ([1, 2] @ [0, 0] @ [7])) 0 5 = Some c \<and> w = whip6_ipv6ChecksumComputationFinalize c \<and>
    whip6_ipv6ChecksumComputationProvideWithByteArray whip6_ipv6ChecksumComputationInit
      (Some ([1, 2] @ [u16_hi w, u16_lo w] @ [7])) 0 5 = Some c' \<and>
    whip6_ipv6ChecksumComputationFinalize c' = 0"
  by (rule checksum_verifies) simp_all

text \<open>A packet that verifies no longer verifies after any change of a single byte.\<close>

theorem checksum_single_byte:
  assumes "length bs \<le> 131074" "i < length bs" "b \<noteq> bs ! i"
    and "whip6_ipv6ChecksumComputationProvideWithByteArray whip6_ipv6ChecksumComputationInit
      (Some bs) 0 (length bs) = Some c" "whip6_ipv6ChecksumComputationFinalize c = 0"
  shows "\<exists>c'. whip6_ipv6ChecksumComputationProvideWithByteArray whip6_ipv6ChecksumComputationInit
      (Some (bs[i := b])) 0 (length bs) = Some c' \<and> whip6_ipv6ChecksumComputationFinalize c' \<noteq> 0"
proof -
  have "ck_rel c bs" using ck_rel_array [OF ck_rel_init, of 0 "length bs" bs] assms(4) by simp
  moreover obtain c' where "whip6_ipv6ChecksumComputationProvideWithByteArray whip6_ipv6ChecksumComputationInit
      (Some (bs[i := b])) 0 (length bs) = Some c'" "ck_rel c' (bs[i := b])"
    using ck_rel_array [OF ck_rel_init, of 0 "length bs" "bs[i := b]"] by auto
  ultimately show ?thesis using checksum_detects [OF assms(1-3)] assms(5) by blast
qed

theorem checksum_single_byte_witness:
  "\<exists>c'. whip6_ipv6ChecksumComputationProvideWithByteArray whip6_ipv6ChecksumComputationInit
      (Some ([0xff, 0xff][0 := 1])) 0 (length [0xff :: u8, 0xff]) = Some c' \<and>
    whip6_ipv6ChecksumComputationFinalize c' \<noteq> 0"
proof (rule checksum_single_byte)
  show "whip6_ipv6ChecksumComputationProvideWithByteArray whip6_ipv6ChecksumComputationInit
      (Some [0xff, 0xff]) 0 (length [0xff :: u8, 0xff]) = Some \<lparr>ck_sum = 0xffff, ck_parity = 0, ck_accum = 0\<rparr>"
    using ck_pairs_loop_eq [of 2 0 "[0xff, 0xff]" 0]
    by (simp add: whip6_ipv6ChecksumComputationProvideWithByteArray_def whip6_ipv6ChecksumComputationInit_def
        u16_join_def)
  show "whip6_ipv6ChecksumComputationFinalize \<lparr>ck_sum = 0xffff, ck_parity = 0, ck_accum = 0\<rparr> = 0"
    by (simp add: whip6_ipv6ChecksumComputationFinalize_def, subst ck_fold.simps, simp)
qed simp_all

end
