(* ===== verification/Base_IoVecCopy.thy ===== *)
theory Base_IoVecCopy
  imports Base_IoVecIter
begin

text \<open>
  Copying between two I/O vectors and comparing two of them (\<open>microc/src/base/ucIoVec.c\<close>):
  \<open>whip6_iovIteratorCopyBytesAndMoveForward\<close>, whose loop is defined with the iterators, and
  \<open>whip6_iovCompare\<close>.
\<close>

section \<open>Copying\<close>

lemma cur_map_length:
  assumes "map length cs' = map length cs"
  shows "cur_ok cs' j cur off = cur_ok cs j cur off" "cur_pos cs' j cur off = cur_pos cs j cur off"
proof -
  have l: "length cs' = length cs" using assms by (metis length_map)
  have n: "length (cs' ! i) = length (cs ! i)" if "i < length cs" for i
    using assms l that by (metis nth_map)
  have t: "length (concat (take i cs')) = length (concat (take i cs))" for i
    using assms by (metis length_concat take_map)
  show "cur_ok cs' j cur off = cur_ok cs j cur off" using l n by (auto simp: cur_ok_def split: option.splits)
  show "cur_pos cs' j cur off = cur_pos cs j cur off"
    using t [of "length cs"] t l by (simp add: cur_pos_def split: option.splits)
qed

definition head_ok :: "iov \<Rightarrow> nat \<Rightarrow> bool" where
  "head_ok cs off \<longleftrightarrow> (case cs of [] \<Rightarrow> off = 0 | c # _ \<Rightarrow> off < length c)"

lemma head_ok_simps [simp]: "head_ok [] off \<longleftrightarrow> off = 0" "head_ok (c # cs) off \<longleftrightarrow> off < length c"
  by (simp_all add: head_ok_def)

lemma head_ok_0 [simp]: "iov_ok cs \<Longrightarrow> head_ok cs 0"
  by (cases cs) auto

definition copy_result ::
  "iov \<Rightarrow> nat \<Rightarrow> nat \<Rightarrow> iov \<Rightarrow> iov \<Rightarrow> nat \<Rightarrow> nat \<Rightarrow> nat \<Rightarrow>
   ((nat option \<times> nat) \<times> (nat option \<times> nat) \<times> iov \<times> nat) option \<Rightarrow> bool" where
  "copy_result src j srcOff passed dst dstOff res k r \<longleftrightarrow>
     (\<exists>sc so dc d_o iov'. r = Some ((sc, so), (dc, d_o), iov', res + k) \<and>
        cur_ok src j sc so \<and> cur_pos src j sc so = srcOff + k \<and>
        cur_ok dst (length passed) dc d_o \<and> cur_pos dst (length passed) dc d_o = dstOff + k \<and>
        map length iov' = map length (passed @ dst) \<and>
        concat iov' = mem_blit (concat (passed @ dst)) (length (concat passed) + dstOff)
          (take k (drop srcOff (concat src))))"

lemma min_after_step:
  fixes m :: nat
  shows "m \<le> x \<Longrightarrow> m \<le> y \<Longrightarrow> m \<le> n \<Longrightarrow>
    min n (min (a + x) (b + y)) = m + min (n - m) (min (a + x - m) (b + y - m))"
  by (simp add: min_def) linarith?

lemma min_step_bounds:
  fixes m :: nat
  shows "m \<le> x \<Longrightarrow> m \<le> y \<Longrightarrow> min n (min (a + x - m) (b + y - m)) \<le> a + (x - m)"
    and "m \<le> x \<Longrightarrow> m \<le> y \<Longrightarrow> min n (min (a + x - m) (b + y - m)) \<le> b + (y - m)"
  by auto

lemma copy_result_step:
  assumes ih: "copy_result (if m = sl then src else s # src) (if m = sl then Suc j else j)
      (if m = sl then 0 else srcOff + m) (if m = dl then passed @ [d'] else passed)
      (if m = dl then dst else d' # dst) (if m = dl then 0 else dstOff + m) (res + m) k' r"
    and sl: "sl = length s - srcOff" "srcOff < length s"
    and dl: "dl = length d - dstOff" "dstOff < length d"
    and m: "m \<le> sl" "m \<le> dl"
    and d': "d' = mem_blit d dstOff (take m (drop srcOff s))"
    and k: "k = m + k'" "k' \<le> length (concat src) + (sl - m)" "k' \<le> length (concat dst) + (dl - m)"
  shows "copy_result (s # src) j srcOff passed (d # dst) dstOff res k r"
proof -
  have ld: "length d' = length d" using d' sl dl m by simp
  let ?p = "if m = dl then passed @ [d'] else passed" and ?d = "if m = dl then dst else d' # dst"
  let ?s = "if m = sl then src else s # src" and ?so = "if m = sl then 0 else srcOff + m"
  let ?do = "if m = dl then 0 else dstOff + m"
  from ih obtain sc so dc d_o iov' where
    r: "r = Some ((sc, so), (dc, d_o), iov', res + m + k')"
    and sc: "cur_ok ?s (if m = sl then Suc j else j) sc so"
      "cur_pos ?s (if m = sl then Suc j else j) sc so = ?so + k'"
    and dc: "cur_ok ?d (length ?p) dc d_o" "cur_pos ?d (length ?p) dc d_o = ?do + k'"
    and ml: "map length iov' = map length (?p @ ?d)"
    and cc: "concat iov' = mem_blit (concat (?p @ ?d)) (length (concat ?p) + ?do)
        (take k' (drop ?so (concat ?s)))"
    unfolding copy_result_def by blast
  have "cur_ok (s # src) j sc so \<and> cur_pos (s # src) j sc so = srcOff + k"
    using sc sl k(1) by (cases "m = sl") (auto simp: cur_later)
  moreover have "cur_ok (d' # dst) (length passed) dc d_o \<and>
      cur_pos (d' # dst) (length passed) dc d_o = dstOff + k"
    using dc dl ld k(1) by (cases "m = dl") (auto simp: cur_later)
  then have "cur_ok (d # dst) (length passed) dc d_o \<and>
      cur_pos (d # dst) (length passed) dc d_o = dstOff + k"
    using cur_map_length [of "d' # dst" "d # dst"] ld by simp
  moreover have "map length iov' = map length (passed @ d # dst)"
    using ml ld by (simp split: if_splits)
  moreover have "concat iov' = mem_blit (concat (passed @ d # dst)) (length (concat passed) + dstOff)
      (take k (drop srcOff (concat (s # src))))"
  proof -
    let ?x = "take m (drop srcOff s)" and ?D = "concat (passed @ d # dst)"
    let ?o = "length (concat passed) + dstOff"
    have lx: "length ?x = m" using sl m by simp
    have "?D = concat passed @ d @ concat dst" by simp
    then have D: "concat (?p @ ?d) = mem_blit ?D ?o ?x"
      using lx dl m by (simp add: d' mem_blit_def)
    have o': "length (concat ?p) + ?do = ?o + m" using ld dl by simp
    have S: "drop ?so (concat ?s) = drop m (drop srcOff (concat (s # src)))"
      using sl m by (auto simp: add.commute)
    have tk: "take k (drop srcOff (concat (s # src))) =
        ?x @ take k' (drop m (drop srcOff (concat (s # src))))"
    proof -
      have "take m (drop srcOff (concat (s # src))) = ?x" using sl m by simp
      then show ?thesis by (simp only: k(1) take_add)
    qed
    have "length (take k' (drop m (drop srcOff (concat (s # src))))) \<le> k'"
      by (simp only: length_take min.cobounded2)
    moreover have "length ?D = length (concat passed) + length d + length (concat dst)" by simp
    ultimately have "?o + m + length (take k' (drop m (drop srcOff (concat (s # src))))) \<le> length ?D"
      using k(3) dl m by linarith
    then show ?thesis
      unfolding cc D o' S tk by (rule mem_blit_append' [OF lx])
  qed
  ultimately show ?thesis unfolding copy_result_def r k(1) by (auto simp: add.assoc)
qed

lemma iovCopy_loop_spec:
  assumes "iov_ok src" "iov_ok dst" "head_ok src srcOff" "head_ok dst dstOff"
    and "k = min maxLen (min (length (concat src) - srcOff) (length (concat dst) - dstOff))"
  shows "copy_result src j srcOff passed dst dstOff res k
    (whip6_iovCopy_loop src j srcOff passed dst dstOff maxLen res)"
  using assms
proof (induction src j srcOff passed dst dstOff maxLen res arbitrary: k rule: whip6_iovCopy_loop.induct)
  case (1 j srcOff passed dst dstOff maxLen res)
  then show ?case
    by (cases dst) (auto simp: copy_result_def cur_ok_def cur_pos_def)
next
  case (2 s src j srcOff passed dstOff maxLen res)
  then show ?case by (auto simp: copy_result_def)
next
  case (3 s src j srcOff passed d dst dstOff maxLen res)
  show ?case
  proof (cases "maxLen = 0")
    case True
    with "3.prems" show ?thesis by (auto simp: copy_result_def)
  next
    case False
    define sl where "sl = length s - srcOff"
    define dl where "dl = length d - dstOff"
    define m where "m = iov_copy_len sl dl maxLen"
    have so: "srcOff < length s" and d_o: "dstOff < length d" using "3.prems" by simp_all
    have m: "m \<le> sl" "m \<le> dl" "m \<le> maxLen" "0 < m"
      using False so d_o by (auto simp: m_def iov_copy_len_def Let_def sl_def dl_def)
    let ?d' = "mem_blit d dstOff (take m (drop srcOff s))"
    have cpy: "whip6_longMemCpy s srcOff d dstOff m = Some ?d'"
      using m so d_o by (intro longMemCpy_eq) (simp_all add: sl_def dl_def)
    have ld: "length ?d' = length d" using m by (simp add: sl_def dl_def)
    let ?k = "min (maxLen - m) (min (length (concat src) + sl - m) (length (concat dst) + dl - m))"
    have cr: "copy_result (if m = sl then src else s # src) (if m = sl then Suc j else j)
        (if m = sl then 0 else srcOff + m) (if m = dl then passed @ [?d'] else passed)
        (if m = dl then dst else ?d' # dst) (if m = dl then 0 else dstOff + m) (res + m) ?k
        (whip6_iovCopy_loop (if m = sl then src else s # src) (if m = sl then Suc j else j)
          (if m = sl then 0 else srcOff + m) (if m = dl then passed @ [?d'] else passed)
          (if m = dl then dst else ?d' # dst) (if m = dl then 0 else dstOff + m)
          (maxLen - m) (res + m))"
    proof (rule "3.IH" [OF False sl_def dl_def m_def cpy])
      show "iov_ok (if m = sl then src else s # src)"
        using "3.prems"(1) by simp
      have "?d' \<noteq> []" using ld d_o by auto
      then show "iov_ok (if m = dl then dst else ?d' # dst)"
        using "3.prems"(2) by simp
      show "head_ok (if m = sl then src else s # src) (if m = sl then 0 else srcOff + m)"
        using "3.prems"(1) m so by (auto simp: sl_def)
      show "head_ok (if m = dl then dst else ?d' # dst) (if m = dl then 0 else dstOff + m)"
        using "3.prems"(2) m d_o ld by (auto simp: dl_def)
      have "length (concat (if m = sl then src else s # src)) - (if m = sl then 0 else srcOff + m) =
          length (concat src) + sl - m"
        using m so by (auto simp: sl_def)
      moreover have "length (concat (if m = dl then dst else ?d' # dst)) - (if m = dl then 0 else dstOff + m) =
          length (concat dst) + dl - m"
        using m d_o ld by (auto simp: dl_def)
      ultimately show "?k = min (maxLen - m)
          (min (length (concat (if m = sl then src else s # src)) - (if m = sl then 0 else srcOff + m))
            (length (concat (if m = dl then dst else ?d' # dst)) - (if m = dl then 0 else dstOff + m)))"
        by simp
    qed
    have "k = min maxLen (min (length s + length (concat src) - srcOff)
        (length d + length (concat dst) - dstOff))" using "3.prems"(5) by simp
    moreover have "length s + length (concat src) - srcOff = length (concat src) + sl"
      "length d + length (concat dst) - dstOff = length (concat dst) + dl"
      using so d_o by (simp_all add: sl_def dl_def)
    ultimately have kk: "k = m + ?k" by (simp only: min_after_step [OF m(1,2,3)])
    note b = min_step_bounds [OF m(1,2)]
    have "copy_result (s # src) j srcOff passed (d # dst) dstOff res k
        (whip6_iovCopy_loop (if m = sl then src else s # src) (if m = sl then Suc j else j)
          (if m = sl then 0 else srcOff + m) (if m = dl then passed @ [?d'] else passed)
          (if m = dl then dst else ?d' # dst) (if m = dl then 0 else dstOff + m)
          (maxLen - m) (res + m))"
      by (rule copy_result_step [OF cr sl_def so dl_def d_o m(1,2) refl kk b])
    then show ?thesis
      by (subst whip6_iovCopy_loop.simps(3))
        (simp only: False if_False Let_def sl_def [symmetric] dl_def [symmetric] m_def [symmetric]
          cpy option.case)
  qed
qed

text \<open>
  The iterators of the two vectors advance by the same number of bytes, and exactly those bytes
  of the source appear in the destination.
\<close>

theorem iovCopy_spec:
  assumes "iov_ok srcIov" "iov_ok dstIov" "iter_ok srcIov src" "iter_ok dstIov dst"
    and "k = min maxLen (min (length (iter_rest srcIov src)) (length (iter_rest dstIov dst)))"
  shows "\<exists>src' dstIov' dst'.
    whip6_iovIteratorCopyBytesAndMoveForward srcIov src dstIov dst maxLen = Some (src', dstIov', dst', k) \<and>
    iter_ok srcIov src' \<and> iter_pos srcIov src' = iter_pos srcIov src + k \<and>
    iter_ok dstIov dst' \<and> iter_pos dstIov dst' = iter_pos dstIov dst + k \<and>
    map length dstIov' = map length dstIov \<and>
    concat dstIov' = mem_blit (concat dstIov) (iter_pos dstIov dst) (take k (iter_rest srcIov src))"
proof (cases "currElem src = None \<or> currElem dst = None")
  case True
  then have "k = 0" using assms(5) by (auto simp: iter_pos_def)
  moreover have "whip6_iovIteratorCopyBytesAndMoveForward srcIov src dstIov dst maxLen =
      Some (src, dstIov, dst, 0)"
    using True assms(3,4)
    by (cases src; cases dst; cases "drop (the (currElem src)) srcIov"; cases "drop (the (currElem dst)) dstIov")
      (auto simp: whip6_iovIteratorCopyBytesAndMoveForward_def iter_ok_def min_def split: option.splits)
  ultimately show ?thesis using assms(3,4) by simp
next
  case False
  then obtain i j where i: "currElem src = Some i" and j: "currElem dst = Some j" by auto
  note ok = assms(3) [unfolded iter_ok_def i, simplified] assms(4) [unfolded iter_ok_def j, simplified]
  let ?cs = "drop i srcIov" and ?ds = "drop j dstIov"
  have cs: "?cs = srcIov ! i # drop (Suc i) srcIov" "?ds = dstIov ! j # drop (Suc j) dstIov"
    using ok by (simp_all add: Cons_nth_drop_Suc)
  have ps: "iter_pos srcIov src = length (concat (take i srcIov)) + iterOffset src"
    and pd: "iter_pos dstIov dst = length (concat (take j dstIov)) + iterOffset dst"
    by (simp_all add: iter_pos_def i j)
  have flat: "concat x = concat (take n x) @ concat (drop n x)" for x :: iov and n
    by (metis append_take_drop_id concat_append)
  have rs: "iter_rest srcIov src = drop (iterOffset src) (concat ?cs)"
    using flat [of srcIov i] by (simp add: ps)
  have rd: "iter_rest dstIov dst = drop (iterOffset dst) (concat ?ds)"
    using flat [of dstIov j] by (simp add: pd)
  have "copy_result ?cs i (iterOffset src) (take j dstIov) ?ds (iterOffset dst) 0 k
     (whip6_iovCopy_loop ?cs i (iterOffset src) (take j dstIov) ?ds (iterOffset dst) maxLen 0)"
  proof (rule iovCopy_loop_spec)
    show "head_ok ?cs (iterOffset src)" "head_ok ?ds (iterOffset dst)" using ok cs by simp_all
    show "k = min maxLen (min (length (concat ?cs) - iterOffset src) (length (concat ?ds) - iterOffset dst))"
      using assms(5) by (simp only: rs rd length_drop)
  qed (use assms in \<open>simp_all add: iov_ok_drop\<close>)
  then obtain sc so dc d_o iov' where
    r: "whip6_iovCopy_loop ?cs i (iterOffset src) (take j dstIov) ?ds (iterOffset dst) maxLen 0 =
        Some ((sc, so), (dc, d_o), iov', k)"
    and sc: "cur_ok ?cs i sc so" "cur_pos ?cs i sc so = iterOffset src + k"
    and dc: "cur_ok ?ds j dc d_o" "cur_pos ?ds j dc d_o = iterOffset dst + k"
    and ml: "map length iov' = map length dstIov"
    and cc: "concat iov' = mem_blit (concat dstIov) (iter_pos dstIov dst) (take k (iter_rest srcIov src))"
    using ok unfolding copy_result_def rs pd by (auto simp: min_def)
  from iter_of_cur [OF sc(1)] iter_of_cur [OF dc(1)] ok sc dc r ml cc show ?thesis
    by (simp add: whip6_iovIteratorCopyBytesAndMoveForward_def i j ps pd Let_def)
qed

section \<open>Comparing two vectors\<close>

text \<open>
  The inner do-while loop tests its counter after the decrement: a counter that starts at zero
  never stops the loop, which then runs off a chunk.
\<close>

function whip6_iovCompare_bytes :: "u8 list \<Rightarrow> nat \<Rightarrow> u8 list \<Rightarrow> nat \<Rightarrow> nat \<Rightarrow> int option" where
  "whip6_iovCompare_bytes c1 i c2 j minLeft =
     (case buf_get c1 i of
        None \<Rightarrow> None
      | Some a \<Rightarrow>
          (case buf_get c2 j of
             None \<Rightarrow> None
           | Some b \<Rightarrow>
               let res = sint (a - b)
               in if res \<noteq> 0 then Some res
                  else if minLeft = 1 then Some 0
                  else whip6_iovCompare_bytes c1 (Suc i) c2 (Suc j) (minLeft - 1)))"
  by pat_completeness auto
termination
  by (relation "measure (\<lambda>(c1, i, c2, j, minLeft). length c1 - i)")
    (auto simp: buf_get_def split: if_splits)

declare whip6_iovCompare_bytes.simps [simp del]

function whip6_iovCompare_loop :: "iov \<Rightarrow> nat \<Rightarrow> iov \<Rightarrow> nat \<Rightarrow> nat \<Rightarrow> int option" where
  "whip6_iovCompare_loop [] off1 l2 off2 numBytesLeft =
     Some (if numBytesLeft = 0 then 0 else if l2 = [] then 0 else -1)"
| "whip6_iovCompare_loop (c1 # l1) off1 [] off2 numBytesLeft =
     Some (if numBytesLeft = 0 then 0 else 1)"
| "whip6_iovCompare_loop (c1 # l1) off1 (c2 # l2) off2 numBytesLeft =
     (if numBytesLeft = 0 then Some 0
      else
        let leftIn1 = length c1 - off1;
            leftIn2 = length c2 - off2;
            minLeft = iov_copy_len leftIn1 leftIn2 numBytesLeft
        in case whip6_iovCompare_bytes c1 off1 c2 off2 minLeft of
             None \<Rightarrow> None
           | Some res \<Rightarrow>
               if res \<noteq> 0 then Some res
               else whip6_iovCompare_loop
                 (if leftIn1 = minLeft then l1 else c1 # l1)
                 (if leftIn1 = minLeft then 0 else off1 + minLeft)
                 (if leftIn2 = minLeft then l2 else c2 # l2)
                 (if leftIn2 = minLeft then 0 else off2 + minLeft)
                 (numBytesLeft - minLeft))"
  by pat_completeness auto
termination
proof (relation "measure (\<lambda>(l1, o1, l2, o2, n). length l1 + length l2 + n)", goal_cases)
  case 1
  show ?case by simp
next
  case (2 c1 l1 o1 c2 l2 o2 n a1 a2 m res)
  then show ?case using iov_copy_len_pos [of n a1 a2]
    by (auto simp: less_Suc_eq_le intro: le_SucI)
qed

definition whip6_iovCompare :: "iov \<Rightarrow> iov \<Rightarrow> nat \<Rightarrow> nat \<Rightarrow> nat \<Rightarrow> int option" where
  "whip6_iovCompare iovList1 iovList2 iovOffset1 iovOffset2 iovLength =
     (case whip6_iovLocate iovList1 iovOffset1 of
        (_, l1, off1) \<Rightarrow>
          (case whip6_iovLocate iovList2 iovOffset2 of
             (_, l2, off2) \<Rightarrow> whip6_iovCompare_loop l1 off1 l2 off2 iovLength))"

lemma iovCompare_bytes_spec:
  assumes "0 < n" "i + n \<le> length c1" "j + n \<le> length c2"
  shows "\<exists>r. whip6_iovCompare_bytes c1 i c2 j n = Some r \<and>
    (r = 0 \<longleftrightarrow> take n (drop i c1) = take n (drop j c2))"
  using assms
proof (induction n arbitrary: i j)
  case (Suc n)
  have d: "drop i c1 = c1 ! i # drop (Suc i) c1" "drop j c2 = c2 ! j # drop (Suc j) c2"
    using Suc.prems by (simp_all add: Cons_nth_drop_Suc)
  show ?case
  proof (cases "c1 ! i = c2 ! j \<and> n \<noteq> 0")
    case True
    then have "\<exists>r. whip6_iovCompare_bytes c1 (Suc i) c2 (Suc j) n = Some r \<and>
        (r = 0 \<longleftrightarrow> take n (drop (Suc i) c1) = take n (drop (Suc j) c2))"
      using Suc.prems by (intro Suc.IH) auto
    with True Suc.prems show ?thesis
      by (subst whip6_iovCompare_bytes.simps) (auto simp: d)
  next
    case False
    with Suc.prems show ?thesis
      by (subst whip6_iovCompare_bytes.simps) (auto simp: d sint_u8_diff_eq_0)
  qed
qed simp

lemma iovCompare_loop_spec:
  assumes "iov_ok l1" "iov_ok l2" "head_ok l1 off1" "head_ok l2 off2"
  shows "\<exists>r. whip6_iovCompare_loop l1 off1 l2 off2 n = Some r \<and>
    (r = 0 \<longleftrightarrow> take n (drop off1 (concat l1)) = take n (drop off2 (concat l2)))"
  using assms
proof (induction l1 off1 l2 off2 n rule: whip6_iovCompare_loop.induct)
  case (1 off1 l2 off2 n)
  then show ?case by (cases l2) auto
next
  case (2 c1 l1 off1 off2 n)
  then show ?case by auto
next
  case (3 c1 l1 off1 c2 l2 off2 n)
  show ?case
  proof (cases "n = 0")
    case False
    define a1 where "a1 = length c1 - off1"
    define a2 where "a2 = length c2 - off2"
    define m where "m = iov_copy_len a1 a2 n"
    have o: "off1 < length c1" "off2 < length c2" using "3.prems" by simp_all
    have m: "m \<le> a1" "m \<le> a2" "m \<le> n" "0 < m"
      using False o by (auto simp: m_def iov_copy_len_def Let_def a1_def a2_def)
    have "off1 + m \<le> length c1" "off2 + m \<le> length c2"
      using m o by (simp_all add: a1_def a2_def)
    from iovCompare_bytes_spec [OF m(4) this] obtain r where
      b: "whip6_iovCompare_bytes c1 off1 c2 off2 m = Some r"
      and r: "r = 0 \<longleftrightarrow> take m (drop off1 c1) = take m (drop off2 c2)" by blast
    let ?l1 = "if a1 = m then l1 else c1 # l1" and ?l2 = "if a2 = m then l2 else c2 # l2"
    let ?o1 = "if a1 = m then 0 else off1 + m" and ?o2 = "if a2 = m then 0 else off2 + m"
    have d: "drop off1 (concat (c1 # l1)) = take m (drop off1 c1) @ drop ?o1 (concat ?l1)"
      "drop off2 (concat (c2 # l2)) = take m (drop off2 c2) @ drop ?o2 (concat ?l2)"
      using m o by (auto simp: a1_def a2_def add.commute simp flip: drop_drop)
    have len: "length (take m (drop off1 c1)) = m" "length (take m (drop off2 c2)) = m"
      using m o by (simp_all add: a1_def a2_def)
    have t: "take n (drop off1 (concat (c1 # l1))) = take m (drop off1 c1) @ take (n - m) (drop ?o1 (concat ?l1))"
      "take n (drop off2 (concat (c2 # l2))) = take m (drop off2 c2) @ take (n - m) (drop ?o2 (concat ?l2))"
      unfolding d using m(3) len by simp_all
    have split: "take n (drop off1 (concat (c1 # l1))) = take n (drop off2 (concat (c2 # l2))) \<longleftrightarrow>
        r = 0 \<and> take (n - m) (drop ?o1 (concat ?l1)) = take (n - m) (drop ?o2 (concat ?l2))"
      unfolding t r using len by simp
    have step: "whip6_iovCompare_loop (c1 # l1) off1 (c2 # l2) off2 n =
        (if r \<noteq> 0 then Some r else whip6_iovCompare_loop ?l1 ?o1 ?l2 ?o2 (n - m))"
      by (subst whip6_iovCompare_loop.simps(3))
        (simp only: False if_False Let_def a1_def [symmetric] a2_def [symmetric] m_def [symmetric]
          b option.case)
    show ?thesis
    proof (cases "r = 0")
      case r0: True
      have "\<exists>r. whip6_iovCompare_loop ?l1 ?o1 ?l2 ?o2 (n - m) = Some r \<and>
          (r = 0 \<longleftrightarrow> take (n - m) (drop ?o1 (concat ?l1)) = take (n - m) (drop ?o2 (concat ?l2)))"
      proof (rule "3.IH" [OF False a1_def a2_def m_def b])
        show "\<not> r \<noteq> 0" using r0 by simp
        show "iov_ok ?l1" "iov_ok ?l2" using "3.prems" by simp_all
        show "head_ok ?l1 ?o1" "head_ok ?l2 ?o2"
          using "3.prems" m o by (auto simp: a1_def a2_def)
      qed
      then show ?thesis unfolding step split using r0 by simp
    next
      case False
      then show ?thesis unfolding step split by simp
    qed
  qed simp
qed

lemma locate_head_ok:
  assumes "iov_ok iov" "whip6_iovLocate iov off = (passed, rest, o')"
  shows "iov_ok rest" and "rest \<noteq> [] \<Longrightarrow> head_ok rest o'"
    and "drop off (concat iov) = drop o' (concat rest)"
proof -
  note sp = iovLocate_split [OF assms(2)]
  show "iov_ok rest" using sp assms(1) by (auto simp: iov_ok_def)
  show "head_ok rest o'" if "rest \<noteq> []" using sp that by (cases rest) auto
  show "drop off (concat iov) = drop o' (concat rest)" using sp by simp
qed

text \<open>
  The result is zero exactly if the two ranges, cut at the ends of the vectors, hold the same
  bytes; no access leaves a chunk.
\<close>

theorem iovCompare_spec:
  assumes "iov_ok iov1" "iov_ok iov2"
  shows "\<exists>r. whip6_iovCompare iov1 iov2 off1 off2 n = Some r \<and>
    (r = 0 \<longleftrightarrow> take n (drop off1 (concat iov1)) = take n (drop off2 (concat iov2)))"
proof -
  obtain p1 l1 o1 where l1: "whip6_iovLocate iov1 off1 = (p1, l1, o1)" by (metis prod_cases3)
  obtain p2 l2 o2 where l2: "whip6_iovLocate iov2 off2 = (p2, l2, o2)" by (metis prod_cases3)
  note h1 = locate_head_ok [OF assms(1) l1] and h2 = locate_head_ok [OF assms(2) l2]
  have "\<exists>r. whip6_iovCompare_loop l1 o1 l2 o2 n = Some r \<and>
      (r = 0 \<longleftrightarrow> take n (drop o1 (concat l1)) = take n (drop o2 (concat l2)))"
  proof (cases "l1 = [] \<or> l2 = []")
    case True
    then show ?thesis
    proof
      assume "l1 = []"
      then show ?thesis using h2(2)
        by (cases l2) auto
    next
      assume "l2 = []"
      then show ?thesis using h1(2) by (cases l1) auto
    qed
  next
    case False
    then show ?thesis using h1 h2 by (intro iovCompare_loop_spec) auto
  qed
  then show ?thesis by (simp add: whip6_iovCompare_def l1 l2 h1(3) h2(3))
qed

section \<open>Properties\<close>

text \<open>C39: Copying between two I/O vectors moves the bytes as if both were flat arrays, however they are
  divided into elements: as many bytes as asked for, left in the source and left in the
  destination, go to the position of the destination, nothing else changes, and both iterators
  move by that number.\<close>

theorem iov_copy_flat:
  assumes "iov_ok srcIov" "iov_ok dstIov" "iter_ok srcIov src" "iter_ok dstIov dst"
    and "k = min maxLen (min (length (iter_rest srcIov src)) (length (iter_rest dstIov dst)))"
  shows "\<exists>src' dstIov' dst'.
    whip6_iovIteratorCopyBytesAndMoveForward srcIov src dstIov dst maxLen = Some (src', dstIov', dst', k) \<and>
    iter_ok srcIov src' \<and> iter_pos srcIov src' = iter_pos srcIov src + k \<and>
    iter_ok dstIov dst' \<and> iter_pos dstIov dst' = iter_pos dstIov dst + k \<and>
    map length dstIov' = map length dstIov \<and>
    concat dstIov' = mem_blit (concat dstIov) (iter_pos dstIov dst) (take k (iter_rest srcIov src))"
  by (rule iovCopy_spec [OF assms])

theorem iov_copy_flat_witness:
  "\<exists>src' dstIov' dst'.
    whip6_iovIteratorCopyBytesAndMoveForward [[1, 2], [3]] \<lparr>currElem = Some 0, iterOffset = 1\<rparr>
      [[0], [0, 0]] \<lparr>currElem = Some 1, iterOffset = 0\<rparr> 5 = Some (src', dstIov', dst', 2) \<and>
    iter_ok [[1, 2], [3]] src' \<and> iter_pos [[1, 2], [3]] src' = iter_pos [[1, 2], [3]] \<lparr>currElem = Some 0, iterOffset = 1\<rparr> + 2 \<and>
    iter_ok [[0], [0, 0]] dst' \<and> iter_pos [[0], [0, 0]] dst' = iter_pos [[0], [0, 0]] \<lparr>currElem = Some 1, iterOffset = 0\<rparr> + 2 \<and>
    map length dstIov' = map length [[0 :: u8], [0, 0]] \<and>
    concat dstIov' = mem_blit (concat [[0], [0, 0]]) (iter_pos [[0], [0, 0]] \<lparr>currElem = Some 1, iterOffset = 0\<rparr>)
      (take 2 (iter_rest [[1, 2], [3]] \<lparr>currElem = Some 0, iterOffset = 1\<rparr>))"
  by (rule iov_copy_flat) (simp_all add: iov_ok_def iter_ok_def iter_pos_def)

text \<open>Comparing two ranges of two I/O vectors yields zero exactly if the bytes are the same (where a
  vector ends early, if both have the same bytes there).\<close>

theorem iov_compare_flat:
  assumes "iov_ok iov1" "iov_ok iov2"
  shows "\<exists>r. whip6_iovCompare iov1 iov2 off1 off2 n = Some r \<and>
    (r = 0 \<longleftrightarrow> take n (drop off1 (concat iov1)) = take n (drop off2 (concat iov2)))"
  by (rule iovCompare_spec [OF assms])

theorem iov_compare_flat_witness:
  "\<exists>r. whip6_iovCompare [[1, 2], [3]] [[1], [2, 3]] 0 0 3 = Some r \<and>
    (r = 0 \<longleftrightarrow> take 3 (drop 0 (concat [[1, 2], [3 :: u8]])) = take 3 (drop 0 (concat [[1], [2, 3]])))"
  by (rule iov_compare_flat) (simp_all add: iov_ok_def)

text \<open>Writing bytes through an iterator and reading them back from the place where it stood yields the
  bytes that fitted.\<close>

theorem iov_write_read:
  assumes "iov_ok iov" "iter_ok iov it" "n \<le> length bs" "n \<le> length buf"
    and "k = min n (length (iter_rest iov it))"
  shows "\<exists>iov' it1 it2. whip6_iovIteratorWriteAndMoveForward iov it (Some bs) 0 n = Some (iov', it1, k) \<and>
    whip6_iovIteratorReadAndMoveForward iov' it (Some buf) 0 n =
      Some (it2, Some (mem_blit buf 0 (take k bs)), k) \<and>
    iter_pos iov' it2 = iter_pos iov it1 \<and> iter_ok iov it1 \<and> iter_pos iov it1 = iter_pos iov it + k"
proof -
  obtain iov' it1 where w: "whip6_iovIteratorWriteAndMoveForward iov it (Some bs) 0 n = Some (iov', it1, k)"
    "map length iov' = map length iov" "concat iov' = mem_blit (concat iov) (iter_pos iov it) (take k bs)"
    "iter_ok iov it1" "iter_pos iov it1 = iter_pos iov it + k"
    using iovWrite_spec [OF assms(1,2), of 0 n bs k] assms(3,5) by auto
  have ok: "iov_ok iov'" "iter_ok iov' it" and pos: "iter_pos iov' it = iter_pos iov it"
    using iov_ok_map_length [OF w(2)] iter_ok_map_length [OF w(2)] assms(1,2) by auto
  have le: "iter_pos iov it + k \<le> length (concat iov)"
    using iter_pos_le [OF assms(2)] assms(5) by simp
  have k: "k \<le> length bs" using assms(3,5) by simp
  have lc: "length (concat iov') = length (concat iov)" using w(3) k le by simp
  have rest: "take n (iter_rest iov' it) = take k bs @ take (n - k) (drop (iter_pos iov it + k) (concat iov))"
    using le k assms(5) by (simp add: pos w(3) mem_blit_def)
  have "take (n - k) (drop (iter_pos iov it + k) (concat iov)) = []"
    using assms(5) by (cases "n \<le> length (iter_rest iov it)") auto
  with rest have rest: "take k bs = take n (iter_rest iov' it)" by simp
  have "0 + n \<le> length buf" "length (take k bs) = k" using assms(4) k by simp_all
  with iovRead_spec [OF ok this(1) rest]
  obtain it2 where "whip6_iovIteratorReadAndMoveForward iov' it (Some buf) 0 n =
      Some (it2, Some (mem_blit buf 0 (take k bs)), k)" "iter_pos iov' it2 = iter_pos iov' it + k"
    by auto
  with w pos show ?thesis by auto
qed

theorem iov_write_read_witness:
  "\<exists>iov' it1 it2. whip6_iovIteratorWriteAndMoveForward [[0], [0, 0]] \<lparr>currElem = Some 0, iterOffset = 0\<rparr>
      (Some [7, 8]) 0 2 = Some (iov', it1, 2) \<and>
    whip6_iovIteratorReadAndMoveForward iov' \<lparr>currElem = Some 0, iterOffset = 0\<rparr> (Some [1, 1]) 0 2 =
      Some (it2, Some (mem_blit [1, 1] 0 (take 2 [7, 8])), 2) \<and>
    iter_pos iov' it2 = iter_pos [[0], [0, 0]] it1 \<and> iter_ok [[0], [0, 0]] it1 \<and>
    iter_pos [[0], [0, 0]] it1 = iter_pos [[0], [0, 0]] \<lparr>currElem = Some 0, iterOffset = 0\<rparr> + 2"
  by (rule iov_write_read) (simp_all add: iov_ok_def iter_ok_def iter_pos_def)

end
