(* ===== verification/Base_Etx.thy ===== *)
theory Base_Etx
  imports Whip6_Prelude
begin

text \<open>
  The link metrics of \<open>microc/include/base/ucEtx.h\<close> and \<open>detail/ucEtxImpl.h\<close>: a packet
  reception rate is a \<open>uint8_t\<close> (255 is certainty), an expected transmission count a
  \<open>uint16_t\<close> with four fractional bits (16 is one transmission). The intermediate products
  stay below 65536, so the sixteen-bit arithmetic of the code does not wrap; the lemmas show
  that both conversions are antitone and how far a round trip can move a rate.
\<close>

definition WHIP6_ETX_METRIC_ONE :: u16 where "WHIP6_ETX_METRIC_ONE = 16"
definition WHIP6_ETX_METRIC_INFINITE :: u16 where "WHIP6_ETX_METRIC_INFINITE = 0xffff"
definition WHIP6_PRR_METRIC_ZERO :: u8 where "WHIP6_PRR_METRIC_ZERO = 0"
definition WHIP6_PRR_METRIC_ONE :: u8 where "WHIP6_PRR_METRIC_ONE = 0xff"

lemmas metric_constants = WHIP6_ETX_METRIC_ONE_def WHIP6_ETX_METRIC_INFINITE_def
  WHIP6_PRR_METRIC_ZERO_def WHIP6_PRR_METRIC_ONE_def

definition whip6_metricPrrToEtx :: "u8 \<Rightarrow> u16" where
  "whip6_metricPrrToEtx prr =
     (if prr \<le> WHIP6_PRR_METRIC_ZERO then WHIP6_ETX_METRIC_INFINITE
      else let etx = ucast WHIP6_PRR_METRIC_ONE - ucast WHIP6_PRR_METRIC_ZERO;
               etx = etx * WHIP6_ETX_METRIC_ONE
           in etx div (ucast prr - ucast WHIP6_PRR_METRIC_ZERO))"

definition whip6_metricEtxToPrr :: "u16 \<Rightarrow> u8" where
  "whip6_metricEtxToPrr etx =
     (if etx \<le> WHIP6_ETX_METRIC_ONE then WHIP6_PRR_METRIC_ONE
      else if etx \<ge> WHIP6_ETX_METRIC_INFINITE then WHIP6_PRR_METRIC_ZERO
      else let newEtx = ucast WHIP6_PRR_METRIC_ONE - ucast WHIP6_PRR_METRIC_ZERO;
               newEtx = newEtx * WHIP6_ETX_METRIC_ONE;
               newEtx = newEtx div etx
           in ucast newEtx + WHIP6_PRR_METRIC_ZERO)"

lemma unat_PrrToEtx:
  "unat (whip6_metricPrrToEtx prr) = (if prr = 0 then 65535 else 4080 div unat prr)"
proof -
  have "unat (4080 div ucast prr :: u16) = 4080 div unat prr"
    by (simp add: unat_div unat_ucast_u8_u16)
  then show ?thesis
    by (simp add: whip6_metricPrrToEtx_def metric_constants Let_def word_le_nat_alt unat_eq_0)
qed

lemma unat_EtxToPrr:
  "unat (whip6_metricEtxToPrr etx) =
     (if unat etx \<le> 16 then 255 else if unat etx = 65535 then 0 else 4080 div unat etx)"
proof -
  have d: "unat (4080 div etx) = 4080 div unat etx" by (simp add: unat_div)
  have "unat (ucast (4080 div etx) :: u8) = 4080 div unat etx" if "16 < unat etx"
  proof -
    have "4080 div unat etx \<le> 4080 div 16" using that by (intro div_le_mono2) auto
    then show ?thesis by (simp add: unsigned_ucast_eq take_bit_eq_mod d)
  qed
  moreover have "(0xffff \<le> etx) = (unat etx = 65535)"
    using unat_u16_le [of etx] by (simp add: word_le_nat_alt)
  ultimately show ?thesis
    by (auto simp: whip6_metricEtxToPrr_def metric_constants Let_def word_le_nat_alt not_le)
qed

lemma PrrToEtx_antimono:
  assumes "p \<le> q"
  shows "whip6_metricPrrToEtx q \<le> whip6_metricPrrToEtx p"
proof (cases "p = 0")
  case True
  then show ?thesis using unat_u16_less [of "whip6_metricPrrToEtx q"]
    by (simp add: word_le_nat_alt unat_PrrToEtx)
next
  case False
  then have p: "0 < unat p" "unat p \<le> unat q"
    using assms by (simp_all add: word_le_nat_alt unat_gt_0)
  moreover have "q \<noteq> 0" using p by auto
  ultimately show ?thesis using False
    by (simp add: word_le_nat_alt unat_PrrToEtx div_le_mono2)
qed

lemma EtxToPrr_antimono:
  assumes "e \<le> f"
  shows "whip6_metricEtxToPrr f \<le> whip6_metricEtxToPrr e"
proof -
  have f: "unat e \<le> unat f" using assms by (simp add: word_le_nat_alt)
  have "4080 div unat f \<le> 255" if "16 < unat f"
    using div_le_mono2 [of 16 "unat f" 4080] that by simp
  then show ?thesis using f div_le_mono2 [of "unat e" "unat f" 4080] unat_u16_less [of f]
    by (auto simp: word_le_nat_alt unat_EtxToPrr not_le)
qed

lemma div_div_ge: "0 < (n::nat) \<Longrightarrow> n \<le> a \<Longrightarrow> n \<le> a div (a div n)"
  by (metis div_greater_zero_iff div_times_less_eq_dividend less_eq_div_iff_mult_less_eq mult.commute)

text \<open>A rate never comes back smaller, and comes back zero only from zero.\<close>

lemma prr_roundtrip:
  "prr \<le> whip6_metricEtxToPrr (whip6_metricPrrToEtx prr)"
  "whip6_metricEtxToPrr (whip6_metricPrrToEtx prr) = 0 \<longleftrightarrow> prr = 0"
proof -
  let ?n = "unat prr"
  have n: "?n \<le> 255" using unat_u8_less [of prr] by linarith
  have r: "unat (whip6_metricEtxToPrr (whip6_metricPrrToEtx prr)) =
    (if prr = 0 then 0 else if 4080 div ?n \<le> 16 then 255 else 4080 div (4080 div ?n))"
    using div_le_dividend [of 4080 ?n] by (auto simp: unat_EtxToPrr unat_PrrToEtx)
  show le: "prr \<le> whip6_metricEtxToPrr (whip6_metricPrrToEtx prr)"
    using n div_div_ge [of ?n 4080] by (simp add: word_le_nat_alt r unat_gt_0)
  show "whip6_metricEtxToPrr (whip6_metricPrrToEtx prr) = 0 \<longleftrightarrow> prr = 0"
    using le by (auto simp: unat_eq_0 [symmetric] r word_le_nat_alt)
qed

section \<open>Properties\<close>

text \<open>The two metrics order links the same way: a link with a higher packet reception rate never
  has a higher expected transmission count, and conversely.\<close>

theorem prr_etx_antimono:
  assumes "p \<le> q" "a \<le> b"
  shows "whip6_metricPrrToEtx q \<le> whip6_metricPrrToEtx p \<and> whip6_metricEtxToPrr b \<le> whip6_metricEtxToPrr a"
  using PrrToEtx_antimono [OF assms(1)] EtxToPrr_antimono [OF assms(2)] by blast

theorem prr_etx_antimono_witness:
  "whip6_metricPrrToEtx 200 \<le> whip6_metricPrrToEtx 100 \<and> whip6_metricEtxToPrr 256 \<le> whip6_metricEtxToPrr 128"
  by (rule prr_etx_antimono) simp_all

text \<open>Converting a reception rate to the transmission count and back never makes a link look worse
  than it is, and a dead link stays the only one that is dead.\<close>

theorem prr_etx_roundtrip:
  "prr \<le> whip6_metricEtxToPrr (whip6_metricPrrToEtx prr) \<and>
   (whip6_metricEtxToPrr (whip6_metricPrrToEtx prr) = 0 \<longleftrightarrow> prr = 0)"
  using prr_roundtrip [of prr] by blast

end
