(* ===== verification/Rpl_Lollipop.thy ===== *)
theory Rpl_Lollipop
  imports Whip6_Prelude
begin

text \<open>
  The lollipop sequence counters of RPL (\<open>microc/include/rpl/ucRplLollipop.h\<close> and
  \<open>detail/ucRplLollipopImpl.h\<close>): a counter starts in the straight part 128..255 and, once
  it has left it, stays in the circular part 0..127. The arithmetic of the comparisons is the
  code's \<open>int\<close> arithmetic on promoted \<open>uint8_t\<close> values.
\<close>

definition WHIP6_RPL_LOLLIPOP_MAX_TOTAL_VALUE :: int where
  "WHIP6_RPL_LOLLIPOP_MAX_TOTAL_VALUE = 255"
definition WHIP6_RPL_LOLLIPOP_MAX_CIRCULAR_REGION_VALUE :: int where
  "WHIP6_RPL_LOLLIPOP_MAX_CIRCULAR_REGION_VALUE = 127"
definition WHIP6_RPL_LOLLIPOP_SEQUENCE_WINDOW :: int where
  "WHIP6_RPL_LOLLIPOP_SEQUENCE_WINDOW = 16"

lemmas lollipop_constants = WHIP6_RPL_LOLLIPOP_MAX_TOTAL_VALUE_def
  WHIP6_RPL_LOLLIPOP_MAX_CIRCULAR_REGION_VALUE_def WHIP6_RPL_LOLLIPOP_SEQUENCE_WINDOW_def

definition whip6_rplLollipopGetInitialValue :: u8 where
  "whip6_rplLollipopGetInitialValue =
     of_int (WHIP6_RPL_LOLLIPOP_MAX_TOTAL_VALUE - WHIP6_RPL_LOLLIPOP_SEQUENCE_WINDOW + 1)"

definition whip6_rplLollipopGetIncrementedValue :: "u8 \<Rightarrow> u8" where
  "whip6_rplLollipopGetIncrementedValue counter =
     (if uint counter > WHIP6_RPL_LOLLIPOP_MAX_CIRCULAR_REGION_VALUE
      then of_int ((uint counter + 1) AND WHIP6_RPL_LOLLIPOP_MAX_TOTAL_VALUE)
      else of_int ((uint counter + 1) AND WHIP6_RPL_LOLLIPOP_MAX_CIRCULAR_REGION_VALUE))"

definition whip6_rplLollipopAreValuesComparable :: "u8 \<Rightarrow> u8 \<Rightarrow> bool" where
  "whip6_rplLollipopAreValuesComparable c1 c2 =
     (let counter1 = uint c1; counter2 = uint c2;
          circ = WHIP6_RPL_LOLLIPOP_MAX_CIRCULAR_REGION_VALUE;
          sameRegion = (if counter1 \<le> circ then counter2 \<le> circ else counter2 > circ)
      in if \<not> sameRegion then True
         else if counter1 < counter2
         then \<not> counter2 - counter1 > WHIP6_RPL_LOLLIPOP_SEQUENCE_WINDOW
         else \<not> counter1 - counter2 > WHIP6_RPL_LOLLIPOP_SEQUENCE_WINDOW)"

definition whip6_rplLollipopIsOneValueGreaterThanAnother :: "u8 \<Rightarrow> u8 \<Rightarrow> bool" where
  "whip6_rplLollipopIsOneValueGreaterThanAnother c1 c2 =
     (let counter1 = uint c1; counter2 = uint c2;
          circ = WHIP6_RPL_LOLLIPOP_MAX_CIRCULAR_REGION_VALUE;
          sameRegion = (counter1 > counter2 \<and>
            counter1 - counter2 \<le> WHIP6_RPL_LOLLIPOP_SEQUENCE_WINDOW)
      in if counter1 > circ
         then if counter2 > circ then sameRegion
              else (WHIP6_RPL_LOLLIPOP_MAX_TOTAL_VALUE - counter1) + counter2 + 1
                     > WHIP6_RPL_LOLLIPOP_SEQUENCE_WINDOW
         else if counter2 \<le> circ then sameRegion
              else (WHIP6_RPL_LOLLIPOP_MAX_TOTAL_VALUE - counter2) + counter1 + 1
                     \<le> WHIP6_RPL_LOLLIPOP_SEQUENCE_WINDOW)"

definition whip6_rplLollipopIsOneValueEqualToAnother :: "u8 \<Rightarrow> u8 \<Rightarrow> bool" where
  "whip6_rplLollipopIsOneValueEqualToAnother c1 c2 \<longleftrightarrow> c1 = c2"

definition whip6_rplLollipopCompareValues :: "u8 \<Rightarrow> u8 \<Rightarrow> int" where
  "whip6_rplLollipopCompareValues c1 c2 =
     (if whip6_rplLollipopIsOneValueEqualToAnother c1 c2 then 0
      else if whip6_rplLollipopIsOneValueGreaterThanAnother c1 c2 then 1 else -1)"

abbreviation lollipop_gt :: "u8 \<Rightarrow> u8 \<Rightarrow> bool" where
  "lollipop_gt \<equiv> whip6_rplLollipopIsOneValueGreaterThanAnother"

section \<open>The values a counter takes\<close>

lemma uint_u8_range: "0 \<le> uint (c :: u8)" "uint (c :: u8) < 256"
  using uint_bounded [of c] by simp_all

lemma int_and_127: "0 \<le> (n::int) \<Longrightarrow> n AND 127 = n mod 128"
  using take_bit_eq_mask [of 7 n] by (simp add: take_bit_eq_mod mask_eq_exp_minus_1)

lemma int_and_255: "0 \<le> (n::int) \<Longrightarrow> n AND 255 = n mod 256"
  using take_bit_eq_mask [of 8 n] by (simp add: take_bit_eq_mod mask_eq_exp_minus_1)

lemma uint_lollipop_increment:
  "uint (whip6_rplLollipopGetIncrementedValue c) =
     (if uint c = 255 \<or> uint c = 127 then 0 else uint c + 1)"
proof -
  have "uint (of_int (n mod 256) :: u8) = n mod 256" for n :: int
    by (simp add: uint_word_of_int_eq take_bit_eq_mod)
  moreover have "uint (of_int (n mod 128) :: u8) = n mod 128" for n :: int
    by (simp add: uint_word_of_int_eq take_bit_eq_mod)
  ultimately show ?thesis using uint_u8_range [of c]
    by (auto simp: whip6_rplLollipopGetIncrementedValue_def lollipop_constants int_and_127 int_and_255
        uint_word_ariths)
qed

lemma uint_lollipop_initial: "uint whip6_rplLollipopGetInitialValue = 240"
  by (simp add: whip6_rplLollipopGetInitialValue_def lollipop_constants)

text \<open>
  A step makes a greater value, unless it closes the circle: the code compares inside the
  circular region as integers, without the serial arithmetic of the window.
\<close>

lemma lollipop_increment_gt:
  "lollipop_gt (whip6_rplLollipopGetIncrementedValue c) c \<longleftrightarrow> c \<noteq> 127"
proof -
  have "c = 127 \<longleftrightarrow> uint c = 127" by (auto simp: word_uint_eq_iff)
  then show ?thesis using uint_u8_range [of c]
    by (auto simp: whip6_rplLollipopIsOneValueGreaterThanAnother_def Let_def lollipop_constants
        uint_lollipop_increment)
qed

text \<open>
  Two values are comparable exactly if they are equal or one of them is greater, and never
  both are.
\<close>

lemma lollipop_comparable_iff:
  "whip6_rplLollipopAreValuesComparable a b \<longleftrightarrow> a = b \<or> lollipop_gt a b \<or> lollipop_gt b a"
  using uint_u8_range [of a] uint_u8_range [of b]
  by (auto simp: whip6_rplLollipopIsOneValueGreaterThanAnother_def Let_def lollipop_constants
      whip6_rplLollipopAreValuesComparable_def word_uint_eq_iff)

lemma lollipop_gt_asym: "lollipop_gt a b \<Longrightarrow> \<not> lollipop_gt b a"
  by (auto simp: whip6_rplLollipopIsOneValueGreaterThanAnother_def Let_def lollipop_constants
      split: if_splits)

text \<open>
  The values along a run of the counter: \<open>n\<close> steps (at most the window) later, a run that does
  not pass the end of the circle is recognised as newer.
\<close>

fun lollipop_run :: "nat \<Rightarrow> u8 \<Rightarrow> u8" where
  "lollipop_run 0 c = c"
| "lollipop_run (Suc n) c = lollipop_run n (whip6_rplLollipopGetIncrementedValue c)"

lemma uint_lollipop_run:
  assumes "n \<le> 16" "uint c \<le> 127 \<Longrightarrow> uint c + int n \<le> 127"
  shows "uint (lollipop_run n c) =
    (if uint c + int n \<le> 255 then uint c + int n else uint c + int n - 256)"
  using assms
proof (induction n arbitrary: c)
  case 0
  then show ?case using uint_u8_range [of c] by simp
next
  case (Suc n)
  have "uint (whip6_rplLollipopGetIncrementedValue c) \<le> 127 \<Longrightarrow>
      uint (whip6_rplLollipopGetIncrementedValue c) + int n \<le> 127"
    using Suc.prems uint_u8_range [of c] by (auto simp: uint_lollipop_increment split: if_splits)
  from Suc.IH [OF _ this] Suc.prems uint_u8_range [of c] show ?case
    by (auto simp: uint_lollipop_increment)
qed

lemma lollipop_run_gt:
  assumes "0 < n" "n \<le> 16" "uint c \<le> 127 \<Longrightarrow> uint c + int n \<le> 127"
  shows "lollipop_gt (lollipop_run n c) c"
  using assms uint_lollipop_run [OF assms(2,3)] uint_u8_range [of c]
  by (auto simp: whip6_rplLollipopIsOneValueGreaterThanAnother_def Let_def lollipop_constants)

section \<open>Properties\<close>

text \<open>The order on sequence counters is a comparison: no two values are each greater than the other,
  exactly the values that are equal or ordered are comparable, and on these the sign of the comparison
  is antisymmetric. Values that are not comparable are each less than the other.\<close>

theorem lollipop_order:
  "\<not> (lollipop_gt a b \<and> lollipop_gt b a) \<and>
   (whip6_rplLollipopAreValuesComparable a b \<longleftrightarrow> a = b \<or> lollipop_gt a b \<or> lollipop_gt b a) \<and>
   (whip6_rplLollipopAreValuesComparable a b \<longleftrightarrow>
      whip6_rplLollipopCompareValues a b = - whip6_rplLollipopCompareValues b a)"
  using lollipop_gt_asym [of a b] lollipop_comparable_iff [of a b]
  by (auto simp: whip6_rplLollipopCompareValues_def whip6_rplLollipopIsOneValueEqualToAnother_def)

text \<open>One step of the counter gives a greater value, except at 127, where the circle closes: the
  comparison in the circular region is the one of the integers.\<close>

theorem lollipop_step:
  "lollipop_gt (whip6_rplLollipopGetIncrementedValue c) c \<longleftrightarrow> c \<noteq> 127"
  by (rule lollipop_increment_gt)

text \<open>C40: A counter that has been incremented one to sixteen times is recognised as newer than the value it had, and the
  comparison says so in both directions. This holds for every counter of the linear part, also across its end, where the
  counter passes into the circular part, and for a counter of the circular part that does not wrap from 127 to 0 on the
  way (\<open>uint c + n \<le> 127\<close>): after that wrap the code does not see that the value is newer (\<open>lollipop_step\<close>).\<close>

theorem lollipop_window:
  assumes "0 < n" "n \<le> 16" "uint c \<le> 127 \<Longrightarrow> uint c + int n \<le> 127"
  shows "lollipop_gt (lollipop_run n c) c \<and> whip6_rplLollipopCompareValues (lollipop_run n c) c = 1 \<and>
    whip6_rplLollipopCompareValues c (lollipop_run n c) = - 1"
proof -
  have gt: "lollipop_gt (lollipop_run n c) c" by (rule lollipop_run_gt [OF assms])
  moreover from this have "lollipop_run n c \<noteq> c" using lollipop_gt_asym by metis
  ultimately show ?thesis using lollipop_gt_asym [OF gt]
    by (simp add: whip6_rplLollipopCompareValues_def whip6_rplLollipopIsOneValueEqualToAnother_def)
qed

theorem lollipop_window_witness: "lollipop_gt (lollipop_run 16 250) 250 \<and> lollipop_run 16 250 = 10"
proof -
  have "lollipop_run 16 250 = 10"
    using uint_lollipop_run [of 16 250] by (simp add: word_uint_eq_iff)
  then show ?thesis using lollipop_window [of 16 250] by simp
qed

end
