(* ===== verification/Ipv6_Address.thy ===== *)
theory Ipv6_Address
  imports Base_String
begin

text \<open>
  IPv6 addresses: \<open>microc/include/ipv6/detail/ucIpv6AddressManipulationImpl.h\<close> and
  \<open>microc/src/ipv6/ucIpv6AddressManipulation.c\<close>.

  An address is the list of the sixteen bytes of \<open>data8\<close>; every index the code uses is below
  16, so that \<open>!\<close> and \<open>list_update\<close> are the array accesses. The lemmas give each predicate its
  closed form on an address of sixteen bytes; the setters establish the predicates of the same
  name, and the scope is the one of the class of the address.
\<close>

type_synonym ipv6_addr = "u8 list"

definition IPV6_ADDRESS_LENGTH_IN_BYTES :: nat where "IPV6_ADDRESS_LENGTH_IN_BYTES = 16"
definition IPV6_ADDRESS_SCOPE_INTERFACE_LOCAL :: u8 where "IPV6_ADDRESS_SCOPE_INTERFACE_LOCAL = 0x1"
definition IPV6_ADDRESS_SCOPE_LINK_LOCAL :: u8 where "IPV6_ADDRESS_SCOPE_LINK_LOCAL = 0x2"
definition IPV6_ADDRESS_SCOPE_SITE_LOCAL :: u8 where "IPV6_ADDRESS_SCOPE_SITE_LOCAL = 0x5"
definition IPV6_ADDRESS_SCOPE_GLOBAL :: u8 where "IPV6_ADDRESS_SCOPE_GLOBAL = 0xe"
definition IPV6_ADDRESS_SCOPE_MAX_RESERVED :: u8 where "IPV6_ADDRESS_SCOPE_MAX_RESERVED = 0xf"

lemmas ipv6_addr_constants = IPV6_ADDRESS_LENGTH_IN_BYTES_def IPV6_ADDRESS_SCOPE_INTERFACE_LOCAL_def
  IPV6_ADDRESS_SCOPE_LINK_LOCAL_def IPV6_ADDRESS_SCOPE_SITE_LOCAL_def IPV6_ADDRESS_SCOPE_GLOBAL_def
  IPV6_ADDRESS_SCOPE_MAX_RESERVED_def

definition ipv6_addr_ok :: "ipv6_addr \<Rightarrow> bool" where
  "ipv6_addr_ok addr \<longleftrightarrow> length addr = 16"

section \<open>Classes of addresses\<close>

text \<open>The loop that the predicates share: \<open>n\<close> bytes from \<open>addrBytePtr\<close> on are zero.\<close>

fun addr_zero_loop :: "ipv6_addr \<Rightarrow> nat \<Rightarrow> nat \<Rightarrow> bool" where
  "addr_zero_loop addr addrBytePtr 0 = True"
| "addr_zero_loop addr addrBytePtr (Suc n) =
     (if addr ! addrBytePtr \<noteq> 0x00 then False else addr_zero_loop addr (addrBytePtr + 1) n)"

definition whip6_ipv6AddrIsUndefined :: "ipv6_addr \<Rightarrow> bool" where
  "whip6_ipv6AddrIsUndefined addr = addr_zero_loop addr 0 16"

definition whip6_ipv6AddrIsLoopback :: "ipv6_addr \<Rightarrow> bool" where
  "whip6_ipv6AddrIsLoopback addr =
     (if \<not> addr_zero_loop addr 0 15 then False
      else if addr ! 15 \<noteq> 0x01 then False else True)"

definition whip6_ipv6AddrIsMulticast :: "ipv6_addr \<Rightarrow> bool" where
  "whip6_ipv6AddrIsMulticast addr = (addr ! 0 = 0xff)"

text \<open>The loops of the next two predicates never move their pointer.\<close>

fun addr_stuck_loop :: "ipv6_addr \<Rightarrow> nat \<Rightarrow> nat \<Rightarrow> bool" where
  "addr_stuck_loop addr addrPtr 0 = True"
| "addr_stuck_loop addr addrPtr (Suc addrCnt) =
     (if addr ! addrPtr \<noteq> 0x00 then False else addr_stuck_loop addr addrPtr addrCnt)"

definition whip6_ipv6AddrIsAllNodesMulticast :: "ipv6_addr \<Rightarrow> bool" where
  "whip6_ipv6AddrIsAllNodesMulticast addr =
     (if addr ! 0 \<noteq> 0xff \<or> addr ! (IPV6_ADDRESS_LENGTH_IN_BYTES - 1) \<noteq> 0x01 \<or>
         (addr ! 1 \<noteq> IPV6_ADDRESS_SCOPE_INTERFACE_LOCAL \<and> addr ! 1 \<noteq> IPV6_ADDRESS_SCOPE_LINK_LOCAL)
      then False
      else addr_stuck_loop addr 2 (IPV6_ADDRESS_LENGTH_IN_BYTES - 3))"

definition whip6_ipv6AddrIsAllRoutersMulticast :: "ipv6_addr \<Rightarrow> bool" where
  "whip6_ipv6AddrIsAllRoutersMulticast addr =
     (if addr ! 0 \<noteq> 0xff \<or> addr ! (IPV6_ADDRESS_LENGTH_IN_BYTES - 1) \<noteq> 0x02 \<or>
         (addr ! 1 \<noteq> IPV6_ADDRESS_SCOPE_INTERFACE_LOCAL \<and> addr ! 1 \<noteq> IPV6_ADDRESS_SCOPE_LINK_LOCAL \<and>
          addr ! 1 \<noteq> IPV6_ADDRESS_SCOPE_SITE_LOCAL)
      then False
      else addr_stuck_loop addr 2 (IPV6_ADDRESS_LENGTH_IN_BYTES - 3))"

definition whip6_ipv6AddrIsLinkLocal :: "ipv6_addr \<Rightarrow> bool" where
  "whip6_ipv6AddrIsLinkLocal addr =
     (if addr ! 0 \<noteq> 0xfe then False
      else if addr ! 1 \<noteq> 0x80 then False
      else addr_zero_loop addr 2 6)"

definition whip6_ipv6AddrIsUniqueLocal :: "ipv6_addr \<Rightarrow> bool" where
  "whip6_ipv6AddrIsUniqueLocal addr = ((addr ! 0 AND 0xfe) = 0xfc)"

definition whip6_ipv6AddrGetScope :: "ipv6_addr \<Rightarrow> u8" where
  "whip6_ipv6AddrGetScope addr =
     (if whip6_ipv6AddrIsMulticast addr then addr ! 1 AND 0xf
      else if whip6_ipv6AddrIsUndefined addr then IPV6_ADDRESS_SCOPE_INTERFACE_LOCAL
      else if whip6_ipv6AddrIsUniqueLocal addr then IPV6_ADDRESS_SCOPE_SITE_LOCAL
      else if whip6_ipv6AddrIsLoopback addr \<or> whip6_ipv6AddrIsLinkLocal addr
      then IPV6_ADDRESS_SCOPE_LINK_LOCAL
      else IPV6_ADDRESS_SCOPE_GLOBAL)"

text \<open>The loop breaks at the first difference; \<open>n\<close> is the number of bytes left.\<close>

fun addr_prefix_loop :: "ipv6_addr \<Rightarrow> ipv6_addr \<Rightarrow> nat \<Rightarrow> nat \<Rightarrow> nat" where
  "addr_prefix_loop addr1 addr2 i 0 = i"
| "addr_prefix_loop addr1 addr2 i (Suc n) =
     (if addr1 ! i \<noteq> addr2 ! i then i else addr_prefix_loop addr1 addr2 (i + 1) n)"

definition whip6_ipv6AddrGetCommonPrefixLengthInBytes :: "ipv6_addr \<Rightarrow> ipv6_addr \<Rightarrow> nat" where
  "whip6_ipv6AddrGetCommonPrefixLengthInBytes addr1 addr2 =
     addr_prefix_loop addr1 addr2 0 IPV6_ADDRESS_LENGTH_IN_BYTES"

section \<open>Well-known addresses\<close>

fun addr_clear_loop :: "ipv6_addr \<Rightarrow> nat \<Rightarrow> nat \<Rightarrow> ipv6_addr" where
  "addr_clear_loop addr addrBytePtr 0 = addr"
| "addr_clear_loop addr addrBytePtr (Suc i) = addr_clear_loop (addr[addrBytePtr := 0x00]) (addrBytePtr + 1) i"

definition whip6_ipv6AddrSetLinkLocalPrefix :: "ipv6_addr \<Rightarrow> ipv6_addr" where
  "whip6_ipv6AddrSetLinkLocalPrefix addr =
     (let addr = addr[0 := 0xfe];
          addr = addr[1 := 0x80]
      in addr_clear_loop addr 2 6)"

definition whip6_ipv6AddrSetLoopbackAddr :: "ipv6_addr \<Rightarrow> ipv6_addr" where
  "whip6_ipv6AddrSetLoopbackAddr addr = (addr_clear_loop addr 0 15)[15 := 0x01]"

definition whip6_ipv6AddrSetUndefinedAddr :: "ipv6_addr \<Rightarrow> ipv6_addr option" where
  "whip6_ipv6AddrSetUndefinedAddr addr = whip6_shortMemSet addr 0 0x00 16"

definition whip6_ipv6AddrSetAllNodesLinkLocalAddr :: "ipv6_addr \<Rightarrow> ipv6_addr" where
  "whip6_ipv6AddrSetAllNodesLinkLocalAddr addr =
     (let addr = addr[0 := 0xff];
          addr = addr[1 := IPV6_ADDRESS_SCOPE_LINK_LOCAL];
          addr = addr_clear_loop addr 2 (IPV6_ADDRESS_LENGTH_IN_BYTES - 3)
      in addr[15 := 0x01])"

section \<open>Closed forms\<close>

lemma addr_zero_loop_iff:
  "addr_zero_loop addr p n \<longleftrightarrow> (\<forall>i < n. addr ! (p + i) = 0)"
proof (induction n arbitrary: p)
  case (Suc n)
  have "(\<forall>i < Suc n. addr ! (p + i) = 0) \<longleftrightarrow> addr ! p = 0 \<and> (\<forall>i < n. addr ! (p + 1 + i) = 0)"
    by (simp add: All_less_Suc2)
  then show ?case by (simp add: Suc.IH)
qed simp

lemma addr_stuck_loop_iff: "addr_stuck_loop addr p n \<longleftrightarrow> n = 0 \<or> addr ! p = 0"
  by (induction n) auto

lemma addr_clear_loop_eq:
  "p + n \<le> length addr \<Longrightarrow> addr_clear_loop addr p n = mem_blit addr p (replicate n 0)"
  by (induction n arbitrary: addr p) (simp_all add: mem_blit_update)

lemma replicate_zero_iff: "xs = replicate n (0 :: u8) \<longleftrightarrow> length xs = n \<and> (\<forall>i < n. xs ! i = 0)"
  by (auto simp: list_eq_iff_nth_eq)

lemma IsUndefined_iff:
  "ipv6_addr_ok addr \<Longrightarrow> whip6_ipv6AddrIsUndefined addr \<longleftrightarrow> addr = replicate 16 0"
  by (simp add: whip6_ipv6AddrIsUndefined_def addr_zero_loop_iff replicate_zero_iff ipv6_addr_ok_def)

lemma IsLoopback_iff:
  assumes "ipv6_addr_ok addr"
  shows "whip6_ipv6AddrIsLoopback addr \<longleftrightarrow> addr = replicate 15 0 @ [1]"
proof
  assume h: "whip6_ipv6AddrIsLoopback addr"
  then have z: "\<forall>i < 15. addr ! i = 0" and l: "addr ! 15 = 1"
    by (simp_all add: whip6_ipv6AddrIsLoopback_def addr_zero_loop_iff split: if_splits)
  show "addr = replicate 15 0 @ [1]"
  proof (rule nth_equalityI)
    show "addr ! i = (replicate 15 0 @ [1]) ! i" if "i < length addr" for i
      using that assms z l by (cases "i = 15") (auto simp: nth_append ipv6_addr_ok_def)
  qed (use assms in \<open>simp add: ipv6_addr_ok_def\<close>)
next
  assume "addr = replicate 15 0 @ [1]"
  then show "whip6_ipv6AddrIsLoopback addr"
    by (simp add: whip6_ipv6AddrIsLoopback_def addr_zero_loop_iff nth_append)
qed

lemma IsLinkLocal_iff:
  assumes "ipv6_addr_ok addr"
  shows "whip6_ipv6AddrIsLinkLocal addr \<longleftrightarrow> take 8 addr = [0xfe, 0x80, 0, 0, 0, 0, 0, 0]"
proof -
  have *: "(\<forall>i < (6::nat). P i) \<longleftrightarrow> P 0 \<and> P 1 \<and> P 2 \<and> P 3 \<and> P 4 \<and> P 5" for P
    by (simp add: eval_nat_numeral All_less_Suc2)
  have **: "(\<forall>i < (8::nat). P i) \<longleftrightarrow> P 0 \<and> P 1 \<and> P 2 \<and> P 3 \<and> P 4 \<and> P 5 \<and> P 6 \<and> P 7" for P
    by (simp add: eval_nat_numeral All_less_Suc2)
  show ?thesis using assms
    by (auto simp: whip6_ipv6AddrIsLinkLocal_def addr_zero_loop_iff ipv6_addr_ok_def * ** list_eq_iff_nth_eq
        simp flip: numeral_2_eq_2 numeral_3_eq_3)
qed

lemma addr_prefix_loop_bounds:
  "i \<le> addr_prefix_loop a b i n \<and> addr_prefix_loop a b i n \<le> i + n"
  by (induction n arbitrary: i) (auto, (metis add_Suc_right le_SucI le_trans add_Suc Suc_leD)+)

lemma addr_prefix_loop_iff:
  "addr_prefix_loop a b i n \<ge> i + k \<longleftrightarrow> k \<le> n \<and> (\<forall>j < k. a ! (i + j) = b ! (i + j)) \<or> k = 0"
proof (induction n arbitrary: i k)
  case (Suc n)
  show ?case
  proof (cases k)
    case (Suc k')
    have "(\<forall>j < Suc k'. a ! (i + j) = b ! (i + j)) \<longleftrightarrow> a ! i = b ! i \<and> (\<forall>j < k'. a ! (i + 1 + j) = b ! (i + 1 + j))"
      by (simp add: All_less_Suc2)
    then show ?thesis using Suc.IH [of "i + 1" k'] Suc by auto
  qed (use addr_prefix_loop_bounds [of i a b "Suc n"] in simp)
qed auto

text \<open>The result is the length of the longest common prefix.\<close>

lemma GetCommonPrefix_iff:
  assumes "ipv6_addr_ok a" "ipv6_addr_ok b" "k \<le> 16"
  shows "k \<le> whip6_ipv6AddrGetCommonPrefixLengthInBytes a b \<longleftrightarrow> take k a = take k b"
  using addr_prefix_loop_iff [of 0 k a b 16] assms
  by (auto simp: whip6_ipv6AddrGetCommonPrefixLengthInBytes_def ipv6_addr_constants list_eq_iff_nth_eq
      ipv6_addr_ok_def)

lemma GetCommonPrefix_le: "whip6_ipv6AddrGetCommonPrefixLengthInBytes a b \<le> 16"
  using addr_prefix_loop_bounds [of 0 a b 16]
  by (simp add: whip6_ipv6AddrGetCommonPrefixLengthInBytes_def ipv6_addr_constants)

text \<open>What the setters leave.\<close>

lemma SetLinkLocalPrefix_eq:
  assumes "ipv6_addr_ok addr"
  shows "whip6_ipv6AddrSetLinkLocalPrefix addr = [0xfe, 0x80, 0, 0, 0, 0, 0, 0] @ drop 8 addr"
  using assms
  by (simp add: whip6_ipv6AddrSetLinkLocalPrefix_def addr_clear_loop_eq ipv6_addr_ok_def mem_blit_def
      eval_nat_numeral upd_conv_take_nth_drop take_Suc_conv_app_nth)

lemma SetLoopbackAddr_eq:
  assumes "ipv6_addr_ok addr"
  shows "whip6_ipv6AddrSetLoopbackAddr addr = replicate 15 0 @ [1]"
  using assms
  by (simp add: whip6_ipv6AddrSetLoopbackAddr_def addr_clear_loop_eq ipv6_addr_ok_def mem_blit_def
      list_update_append upd_conv_take_nth_drop)

lemma SetUndefinedAddr_eq:
  "ipv6_addr_ok addr \<Longrightarrow> whip6_ipv6AddrSetUndefinedAddr addr = Some (replicate 16 0)"
  by (simp add: whip6_ipv6AddrSetUndefinedAddr_def shortMemSet_eq ipv6_addr_ok_def mem_blit_def)

lemma SetAllNodesLinkLocalAddr_eq:
  assumes "ipv6_addr_ok addr"
  shows "whip6_ipv6AddrSetAllNodesLinkLocalAddr addr = [0xff, 0x02] @ replicate 13 0 @ [1]"
proof -
  let ?a = "addr[0 := 0xff, 1 := 0x02]"
  have l: "length ?a = 16" using assms by (simp add: ipv6_addr_ok_def)
  have t: "take 2 ?a = [0xff, 0x02]" using l by (simp add: numeral_2_eq_2 take_Suc_conv_app_nth)
  have d: "drop 15 ?a = [?a ! 15]" using l by (simp add: Cons_nth_drop_Suc [symmetric])
  have "whip6_ipv6AddrSetAllNodesLinkLocalAddr addr = (mem_blit ?a 2 (replicate 13 0))[15 := 1]"
    using l by (simp add: whip6_ipv6AddrSetAllNodesLinkLocalAddr_def addr_clear_loop_eq ipv6_addr_constants Let_def)
  also have "\<dots> = ([0xff, 0x02] @ replicate 13 0 @ [?a ! 15])[15 := 1]"
    unfolding mem_blit_def t using d by simp
  also have "\<dots> = [0xff, 0x02] @ replicate 13 0 @ [1]" by (simp add: list_update_append)
  finally show ?thesis .
qed

lemma addr_setters_ok:
  assumes "ipv6_addr_ok addr"
  shows "ipv6_addr_ok (whip6_ipv6AddrSetLinkLocalPrefix addr)"
    "whip6_ipv6AddrIsLinkLocal (whip6_ipv6AddrSetLinkLocalPrefix addr)"
    "whip6_ipv6AddrIsLoopback (whip6_ipv6AddrSetLoopbackAddr addr)"
    "whip6_ipv6AddrIsAllNodesMulticast (whip6_ipv6AddrSetAllNodesLinkLocalAddr addr)"
proof -
  show a: "ipv6_addr_ok (whip6_ipv6AddrSetLinkLocalPrefix addr)"
    using assms by (simp add: SetLinkLocalPrefix_eq [OF assms]) (simp add: ipv6_addr_ok_def)
  show "whip6_ipv6AddrIsLinkLocal (whip6_ipv6AddrSetLinkLocalPrefix addr)"
    using IsLinkLocal_iff [OF a] by (simp add: SetLinkLocalPrefix_eq [OF assms])
  show "whip6_ipv6AddrIsLoopback (whip6_ipv6AddrSetLoopbackAddr addr)"
    by (simp add: SetLoopbackAddr_eq [OF assms]) (simp add: IsLoopback_iff ipv6_addr_ok_def)
  show "whip6_ipv6AddrIsAllNodesMulticast (whip6_ipv6AddrSetAllNodesLinkLocalAddr addr)"
    by (simp add: SetAllNodesLinkLocalAddr_eq [OF assms])
      (simp add: whip6_ipv6AddrIsAllNodesMulticast_def addr_stuck_loop_iff ipv6_addr_constants nth_append)
qed

text \<open>An address that the all-nodes test takes for the all-nodes address though it is not: only the
  third byte of the group is looked at.\<close>

lemma all_nodes_false_positive:
  "whip6_ipv6AddrIsAllNodesMulticast [0xff, 2, 0, 0, 0, 0, 0, 0, 0, 0, 0, 7, 0, 0, 0, 1]"
  by (simp add: whip6_ipv6AddrIsAllNodesMulticast_def addr_stuck_loop_iff ipv6_addr_constants)

end
