(* ===== verification/Ipv6_AddressText.thy ===== *)
theory Ipv6_AddressText
  imports Ipv6_Address
begin

text \<open>
  Writing an IPv6 address as text: \<open>microc/src/ipv6/ucIpv6AddressHumanReadableIo.c\<close>, an iterator
  that returns one character per call, and the loop of \<open>CommonObjectPrinter.printIpv6Addr\<close>
  (\<open>nesc/whip6/lib/diagnostic/GenericCommonObjectPrinterPub.nc\<close>) that drives it.

  The reference \<open>addr_text\<close> is the canonical text of RFC 5952, written without the iterator: the
  eight groups in hexadecimal without leading zeros, and the first longest run of at least two
  zero groups as \<open>::\<close>. The lemmas follow the automaton over a group, over a row of groups and
  over the whole address; the property says that the loop ends and that it writes the reference.
\<close>

section \<open>The iterator\<close>

text \<open>The \<open>uint8_t\<close> indices count hexadecimal digits and stay below 34.\<close>

datatype out_action =
    OUT_ACTION_NUMBER
  | OUT_ACTION_SINGLE_COLON
  | OUT_ACTION_FIRST_DOUBLE_COLON
  | OUT_ACTION_SECOND_DOUBLE_COLON
  | OUT_ACTION_STOP

record ipv6_addr_human_readable_out_iter =
  iterAddr :: ipv6_addr
  nextAction :: out_action
  nextIdx :: nat
  firstZeroIdx :: nat
  nextNonzeroIdx :: nat

definition WHIP6_IPV6_ADDR_HUMAN_READABLE_OUT_EOS :: char where
  "WHIP6_IPV6_ADDR_HUMAN_READABLE_OUT_EOS = CHR 0x00"

definition whip6_hi4bitsToHexChar :: "u8 \<Rightarrow> char" where
  "whip6_hi4bitsToHexChar b = whip6_lo4bitsToHexChar (drop_bit 4 b)"

definition whip6_ipv6AddrHumanReadableIoGetDigitForWriting :: "ipv6_addr \<Rightarrow> nat \<Rightarrow> char" where
  "whip6_ipv6AddrHumanReadableIoGetDigitForWriting addr i =
     (let idx = i div 2;
          discr = i mod 2
      in if discr \<noteq> 0 then whip6_lo4bitsToHexChar (addr ! idx) else whip6_hi4bitsToHexChar (addr ! idx))"

text \<open>The scan for the longest row of zero groups; \<open>n\<close> groups are left from byte \<open>idx\<close> on.\<close>

fun out_zeros_loop :: "ipv6_addr \<Rightarrow> nat \<Rightarrow> nat \<Rightarrow> nat \<times> nat \<times> nat \<Rightarrow> nat \<times> nat \<times> nat" where
  "out_zeros_loop addr idx 0 acc = acc"
| "out_zeros_loop addr idx (Suc n) (maxZeroFirstIdx, maxZeroNum, currZeroNum) =
     out_zeros_loop addr (idx + 2) n
       (let first = addr ! idx; second = addr ! (idx + 1)
        in if first = 0x00 \<and> second = 0x00 then (maxZeroFirstIdx, maxZeroNum, currZeroNum + 2)
           else if currZeroNum > maxZeroNum then (idx - currZeroNum, currZeroNum, 0)
           else (maxZeroFirstIdx, maxZeroNum, 0))"

definition whip6_ipv6AddrHumanReadableIoInitializeWriting :: "ipv6_addr \<Rightarrow> ipv6_addr_human_readable_out_iter" where
  "whip6_ipv6AddrHumanReadableIoInitializeWriting addr =
     (case out_zeros_loop addr 0 8 (IPV6_ADDRESS_LENGTH_IN_BYTES, 0, 0) of
        (maxZeroFirstIdx, maxZeroNum, currZeroNum) \<Rightarrow>
          let (maxZeroFirstIdx, maxZeroNum) =
                (if currZeroNum > maxZeroNum then (IPV6_ADDRESS_LENGTH_IN_BYTES - currZeroNum, currZeroNum)
                 else (maxZeroFirstIdx, maxZeroNum))
          in if maxZeroNum > 2
             then let maxZeroNum = (maxZeroFirstIdx + maxZeroNum) * 2;
                      maxZeroFirstIdx = maxZeroFirstIdx * 2
                  in if maxZeroFirstIdx = 0
                     then \<lparr>iterAddr = addr, nextAction = OUT_ACTION_FIRST_DOUBLE_COLON, nextIdx = maxZeroNum,
                           firstZeroIdx = maxZeroFirstIdx, nextNonzeroIdx = maxZeroNum\<rparr>
                     else \<lparr>iterAddr = addr, nextAction = OUT_ACTION_NUMBER, nextIdx = 0,
                           firstZeroIdx = maxZeroFirstIdx, nextNonzeroIdx = maxZeroNum\<rparr>
             else \<lparr>iterAddr = addr, nextAction = OUT_ACTION_NUMBER, nextIdx = 0,
                   firstZeroIdx = IPV6_ADDRESS_LENGTH_IN_BYTES * 2,
                   nextNonzeroIdx = IPV6_ADDRESS_LENGTH_IN_BYTES * 2 + 1\<rparr>)"

text \<open>The \<open>do\<close>-loop over the leading zeros of a group.\<close>

function out_skip_loop :: "ipv6_addr \<Rightarrow> nat \<Rightarrow> char \<times> nat" where
  "out_skip_loop addr i =
     (let res = whip6_ipv6AddrHumanReadableIoGetDigitForWriting addr i;
          i = i + 1
      in if res = CHR ''0'' \<and> i mod 4 \<noteq> 0 then out_skip_loop addr i else (res, i))"
  by pat_completeness auto
termination
  by (relation "measure (\<lambda>(addr, i). 3 - i mod 4)") (auto simp: mod_Suc split: if_splits)

declare out_skip_loop.simps [simp del]

definition whip6_ipv6AddrHumanReadableIoContinueWriting ::
  "ipv6_addr_human_readable_out_iter \<Rightarrow> char \<times> ipv6_addr_human_readable_out_iter" where
  "whip6_ipv6AddrHumanReadableIoContinueWriting iter =
     (let i = nextIdx iter
      in case nextAction iter of
        OUT_ACTION_NUMBER \<Rightarrow>
          let res = whip6_ipv6AddrHumanReadableIoGetDigitForWriting (iterAddr iter) i;
              i = i + 1;
              (res, i) = (if i mod 4 = 1 \<and> res = CHR ''0'' then out_skip_loop (iterAddr iter) i else (res, i));
              (i, action) =
                (if i \<ge> IPV6_ADDRESS_LENGTH_IN_BYTES * 2 then (i, OUT_ACTION_STOP)
                 else if i = firstZeroIdx iter then (nextNonzeroIdx iter, OUT_ACTION_FIRST_DOUBLE_COLON)
                 else if i mod 4 = 0 then (i, OUT_ACTION_SINGLE_COLON)
                 else (i, nextAction iter))
          in (res, iter\<lparr>nextAction := action, nextIdx := i\<rparr>)
      | OUT_ACTION_SINGLE_COLON \<Rightarrow> (CHR '':'', iter\<lparr>nextAction := OUT_ACTION_NUMBER\<rparr>)
      | OUT_ACTION_FIRST_DOUBLE_COLON \<Rightarrow> (CHR '':'', iter\<lparr>nextAction := OUT_ACTION_SECOND_DOUBLE_COLON\<rparr>)
      | OUT_ACTION_SECOND_DOUBLE_COLON \<Rightarrow>
          (CHR '':'', iter\<lparr>nextAction := (if i \<ge> IPV6_ADDRESS_LENGTH_IN_BYTES * 2 then OUT_ACTION_STOP
                                      else OUT_ACTION_NUMBER)\<rparr>)
      | OUT_ACTION_STOP \<Rightarrow> (WHIP6_IPV6_ADDR_HUMAN_READABLE_OUT_EOS, iter))"

text \<open>The driver; \<open>None\<close> is that its loop does not end.\<close>

partial_function (option) print_addr_loop ::
  "char \<Rightarrow> ipv6_addr_human_readable_out_iter \<Rightarrow> string \<Rightarrow> string option" where
  "print_addr_loop c iter out =
     (if c \<noteq> WHIP6_IPV6_ADDR_HUMAN_READABLE_OUT_EOS
      then case whip6_ipv6AddrHumanReadableIoContinueWriting iter of
             (c', iter) \<Rightarrow> print_addr_loop c' iter (out @ [c])
      else Some out)"

declare print_addr_loop.simps [code]

definition printIpv6Addr :: "ipv6_addr \<Rightarrow> string option" where
  "printIpv6Addr addr =
     (case whip6_ipv6AddrHumanReadableIoContinueWriting
             (whip6_ipv6AddrHumanReadableIoInitializeWriting addr) of
        (c, iter) \<Rightarrow> print_addr_loop c iter [])"

section \<open>The reference text\<close>

definition hex_digit :: "nat \<Rightarrow> char" where
  "hex_digit n = ''0123456789abcdef'' ! n"

fun hex_text :: "nat \<Rightarrow> string" where
  "hex_text n = (if n < 16 then [hex_digit n] else hex_text (n div 16) @ [hex_digit (n mod 16)])"

declare hex_text.simps [simp del]

fun join_colon :: "string list \<Rightarrow> string" where
  "join_colon [] = []"
| "join_colon [g] = g"
| "join_colon (g # gs) = g @ CHR '':'' # join_colon gs"

definition group_val :: "ipv6_addr \<Rightarrow> nat \<Rightarrow> nat" where
  "group_val addr k = 256 * unat (addr ! (2 * k)) + unat (addr ! (2 * k + 1))"

definition groups_text :: "ipv6_addr \<Rightarrow> nat \<Rightarrow> nat \<Rightarrow> string" where
  "groups_text addr a b = join_colon (map (\<lambda>k. hex_text (group_val addr k)) [a..<b])"

text \<open>Rows of zero groups, and the first longest one.\<close>

definition zero_row_at :: "bool list \<Rightarrow> nat \<Rightarrow> nat" where
  "zero_row_at zs i = length (takeWhile id (drop i zs))"

definition longest_zero_row :: "bool list \<Rightarrow> nat" where
  "longest_zero_row zs = Max (set (map (zero_row_at zs) [0..<length zs]))"

definition first_longest_zero_row :: "bool list \<Rightarrow> nat" where
  "first_longest_zero_row zs = hd (filter (\<lambda>i. zero_row_at zs i = longest_zero_row zs) [0..<length zs])"

definition addr_text :: "ipv6_addr \<Rightarrow> string" where
  "addr_text addr =
     (let zs = map (\<lambda>k. group_val addr k = 0) [0..<8];
          m = longest_zero_row zs;
          i = first_longest_zero_row zs
      in if m \<ge> 2 then groups_text addr 0 i @ ''::'' @ groups_text addr (i + m) 8
         else groups_text addr 0 8)"

section \<open>Digits and groups\<close>

lemma less16_cases:
  "n < (16::nat) \<Longrightarrow> n \<in> {0, 2, 4, 6, 8, 10, 12, 14} \<or> n \<in> {1, 3, 5, 7, 9, 11, 13, 15}"
  by (simp add: eval_nat_numeral less_Suc_eq disj_ac)

lemma hex_digit_zero_iff: "n < 16 \<Longrightarrow> hex_digit n = CHR ''0'' \<longleftrightarrow> n = 0"
  by (drule less16_cases) (auto simp: hex_digit_def)

lemma hex_digit_not_eos: "n < 16 \<Longrightarrow> hex_digit n \<noteq> WHIP6_IPV6_ADDR_HUMAN_READABLE_OUT_EOS"
  by (drule less16_cases) (auto simp: hex_digit_def WHIP6_IPV6_ADDR_HUMAN_READABLE_OUT_EOS_def)

lemma lo4bits_hex: "whip6_lo4bitsToHexChar b = hex_digit (unat b mod 16)"
proof -
  have "b AND 0x0f = take_bit 4 b" by (simp add: take_bit_eq_mask mask_eq_exp_minus_1)
  then have d: "b AND 0x0f = of_nat (unat b mod 16)"
    by (simp add: word_unat_eq_iff take_bit_eq_mod unsigned_take_bit_eq unat_of_nat unat_mod)
  have "unat b mod 16 < 16" by simp
  from less16_cases [OF this, unfolded insert_iff empty_iff] show ?thesis
    unfolding whip6_lo4bitsToHexChar_def d by (elim disjE FalseE) (simp_all add: hex_digit_def)
qed

lemma hi4bits_hex: "whip6_hi4bitsToHexChar b = hex_digit (unat b div 16)"
proof -
  have "unat b div 16 < 16" using unat_u8_less [of b] by linarith
  then show ?thesis
    by (simp add: whip6_hi4bitsToHexChar_def lo4bits_hex drop_bit_eq_div unat_div)
qed

text \<open>The four digits of a group.\<close>

definition group_digit :: "ipv6_addr \<Rightarrow> nat \<Rightarrow> nat \<Rightarrow> nat" where
  "group_digit addr k j =
     (if j = 0 then unat (addr ! (2 * k)) div 16 else if j = 1 then unat (addr ! (2 * k)) mod 16
      else if j = 2 then unat (addr ! (2 * k + 1)) div 16 else unat (addr ! (2 * k + 1)) mod 16)"

lemma group_digit_less: "group_digit addr k j < 16"
  using unat_u8_less [of "addr ! (2 * k)"] unat_u8_less [of "addr ! (2 * k + 1)"]
  unfolding group_digit_def by (auto simp del: unat_u8_less)

lemma GetDigit_group:
  assumes "j < 4"
  shows "whip6_ipv6AddrHumanReadableIoGetDigitForWriting addr (4 * k + j) = hex_digit (group_digit addr k j)"
proof -
  have "j = 0 \<or> j = 1 \<or> j = 2 \<or> j = 3" using assms by linarith
  moreover have "(4 * k + 1) div 2 = 2 * k" "(4 * k + 1) mod 2 = 1" "(4 * k + 3) div 2 = 2 * k + 1"
    "(4 * k + 3) mod 2 = 1" "(4 * k + 2) div 2 = 2 * k + 1" "(4 * k + 2) mod 2 = 0" "(4 * k) div 2 = 2 * k"
    "(4 * k) mod 2 = 0" by presburger+
  ultimately show ?thesis
    unfolding whip6_ipv6AddrHumanReadableIoGetDigitForWriting_def group_digit_def lo4bits_hex hi4bits_hex Let_def
    by (elim disjE) simp_all
qed

lemma group_val_digits:
  "group_val addr k = ((group_digit addr k 0 * 16 + group_digit addr k 1) * 16 + group_digit addr k 2) * 16 +
     group_digit addr k 3"
  by (simp add: group_val_def group_digit_def)

lemma hex_text_step: "d < 16 \<Longrightarrow> hex_text (n * 16 + d) = (if n = 0 then [hex_digit d] else hex_text n @ [hex_digit d])"
  by (subst hex_text.simps) auto

text \<open>A group without its leading zeros, by the first digit that is not zero.\<close>

lemma hex_text_group:
  "hex_text (group_val addr k) =
     (let d = group_digit addr k
      in if d 0 \<noteq> 0 then map (hex_digit \<circ> d) [0, 1, 2, 3] else if d 1 \<noteq> 0 then map (hex_digit \<circ> d) [1, 2, 3]
         else if d 2 \<noteq> 0 then map (hex_digit \<circ> d) [2, 3] else [hex_digit (d 3)])"
proof -
  have one: "hex_text d = [hex_digit d]" if "d < 16" for d using that by (subst hex_text.simps) simp
  have "hex_text (((a * 16 + b) * 16 + c) * 16 + d) =
      (if a \<noteq> 0 then [hex_digit a, hex_digit b, hex_digit c, hex_digit d]
       else if b \<noteq> 0 then [hex_digit b, hex_digit c, hex_digit d]
       else if c \<noteq> 0 then [hex_digit c, hex_digit d] else [hex_digit d])"
    if "a < 16" "b < 16" "c < 16" "d < 16" for a b c d
    unfolding hex_text_step [OF that(4)] hex_text_step [OF that(3)] hex_text_step [OF that(2)] one [OF that(1)]
    by simp
  from this [OF group_digit_less group_digit_less group_digit_less group_digit_less] show ?thesis
    unfolding group_val_digits by (simp add: Let_def)
qed

section \<open>Runs of the automaton\<close>

fun writes :: "ipv6_addr_human_readable_out_iter \<Rightarrow> string \<Rightarrow> ipv6_addr_human_readable_out_iter \<Rightarrow> bool" where
  "writes it [] it' = (it = it')"
| "writes it (c # cs) it' =
     (c \<noteq> WHIP6_IPV6_ADDR_HUMAN_READABLE_OUT_EOS \<and>
      (\<exists>it1. whip6_ipv6AddrHumanReadableIoContinueWriting it = (c, it1) \<and> writes it1 cs it'))"

lemma writes_append: "writes it (xs @ ys) it' \<longleftrightarrow> (\<exists>it1. writes it xs it1 \<and> writes it1 ys it')"
  by (induction xs arbitrary: it) auto

lemma colon_not_eos [simp]: "CHR '':'' \<noteq> WHIP6_IPV6_ADDR_HUMAN_READABLE_OUT_EOS"
  by (simp add: WHIP6_IPV6_ADDR_HUMAN_READABLE_OUT_EOS_def)

text \<open>The state in front of digit \<open>i\<close>, and what follows the last digit of a group.\<close>

definition at_digit :: "ipv6_addr_human_readable_out_iter \<Rightarrow> nat \<Rightarrow> ipv6_addr_human_readable_out_iter" where
  "at_digit it i = it\<lparr>nextAction := OUT_ACTION_NUMBER, nextIdx := i\<rparr>"

definition after_group :: "ipv6_addr_human_readable_out_iter \<Rightarrow> nat \<Rightarrow> ipv6_addr_human_readable_out_iter" where
  "after_group it i =
     (if i \<ge> 32 then it\<lparr>nextAction := OUT_ACTION_STOP, nextIdx := i\<rparr>
      else if i = firstZeroIdx it
      then it\<lparr>nextAction := OUT_ACTION_FIRST_DOUBLE_COLON, nextIdx := nextNonzeroIdx it\<rparr>
      else it\<lparr>nextAction := OUT_ACTION_SINGLE_COLON, nextIdx := i\<rparr>)"

lemma skip_stop:
  "whip6_ipv6AddrHumanReadableIoGetDigitForWriting a i \<noteq> CHR ''0'' \<or> Suc i mod 4 = 0 \<Longrightarrow>
   out_skip_loop a i = (whip6_ipv6AddrHumanReadableIoGetDigitForWriting a i, i + 1)"
  and skip_step:
  "whip6_ipv6AddrHumanReadableIoGetDigitForWriting a i = CHR ''0'' \<Longrightarrow> Suc i mod 4 \<noteq> 0 \<Longrightarrow>
   out_skip_loop a i = out_skip_loop a (i + 1)"
  by (subst out_skip_loop.simps, auto)+

text \<open>The digits after the first that is written: \<open>j > 0\<close>, or the first digit is not zero.\<close>

lemma Continue_digit:
  assumes k: "k < 8" and j: "j < 4" "j = 0 \<longrightarrow> group_digit (iterAddr it) k 0 \<noteq> 0"
    and z: "firstZeroIdx it mod 4 = 0"
  shows "whip6_ipv6AddrHumanReadableIoContinueWriting (at_digit it (4 * k + j)) =
    (hex_digit (group_digit (iterAddr it) k j),
     if j = 3 then after_group it (4 * k + 4) else at_digit it (4 * k + j + 1))"
proof -
  let ?d = "whip6_ipv6AddrHumanReadableIoGetDigitForWriting (iterAddr it) (4 * k + j)"
  have d: "?d = hex_digit (group_digit (iterAddr it) k j)" by (rule GetDigit_group [OF j(1)])
  have n: "\<not> ((4 * k + j + 1) mod 4 = 1 \<and> ?d = CHR ''0'')"
    using j by (auto simp: d hex_digit_zero_iff group_digit_less mod_Suc split: if_splits)
  have j4: "j = 0 \<or> j = 1 \<or> j = 2 \<or> j = 3" using j(1) by linarith
  have m: "(4 * k + j + 1) mod 4 = 0 \<longleftrightarrow> j = 3" using j4 by (auto simp: mod_Suc)
  have f: "4 * k + j + 1 = firstZeroIdx it \<Longrightarrow> j = 3" using z m by metis
  have b: "j \<noteq> 3 \<Longrightarrow> 4 * k + j + 1 < 32" using k j(1) by linarith
  show ?thesis using n m f b
    by (auto simp: whip6_ipv6AddrHumanReadableIoContinueWriting_def at_digit_def after_group_def d [symmetric]
        ipv6_addr_constants Let_def)
qed

lemma three: "Suc (Suc (Suc n)) = n + 3"
  by simp

text \<open>A whole group: its leading zeros are skipped within the first call.\<close>

lemma Continue_group_start:
  assumes k: "k < 8" and z: "firstZeroIdx it mod 4 = 0" and d0: "group_digit (iterAddr it) k 0 = 0"
  defines "j \<equiv> if group_digit (iterAddr it) k 1 \<noteq> 0 then 1 else if group_digit (iterAddr it) k 2 \<noteq> 0 then 2 else 3"
  shows "whip6_ipv6AddrHumanReadableIoContinueWriting (at_digit it (4 * k)) =
    (hex_digit (group_digit (iterAddr it) k j),
     if j = 3 then after_group it (4 * k + 4) else at_digit it (4 * k + j + 1))"
proof -
  let ?get = "whip6_ipv6AddrHumanReadableIoGetDigitForWriting (iterAddr it)"
  have g: "?get (4 * k + i) = hex_digit (group_digit (iterAddr it) k i)" if "i < 4" for i
    by (rule GetDigit_group [OF that])
  have g0: "?get (4 * k) = CHR ''0''" using g [of 0] d0 by (simp add: hex_digit_def)
  have s: "out_skip_loop (iterAddr it) (4 * k + 1) = (hex_digit (group_digit (iterAddr it) k j), 4 * k + j + 1)"
    using g [of 1] g [of 2] g [of 3] unfolding j_def
    by (auto simp: skip_stop skip_step hex_digit_zero_iff group_digit_less mod_Suc three)
  have j: "j = 1 \<or> j = 2 \<or> j = 3" by (simp add: j_def)
  have m: "(4 * k + j + 1) mod 4 = 0 \<longleftrightarrow> j = 3" using j by (auto simp: mod_Suc)
  have f: "4 * k + j + 1 = firstZeroIdx it \<Longrightarrow> j = 3" using z m by metis
  have b: "j \<noteq> 3 \<Longrightarrow> 4 * k + j + 1 < 32" using k j by linarith
  have s1: "out_skip_loop (iterAddr it) (Suc (4 * k)) = (hex_digit (group_digit (iterAddr it) k j), Suc (4 * k + j))"
    using s by simp
  show ?thesis using s1 g0 m f b
    by (auto simp: whip6_ipv6AddrHumanReadableIoContinueWriting_def at_digit_def after_group_def
        ipv6_addr_constants Let_def mod_Suc)
qed

lemma writes_digits:
  assumes k: "k < 8" and z: "firstZeroIdx it mod 4 = 0" and j: "j < 4" "j = 0 \<longrightarrow> group_digit (iterAddr it) k 0 \<noteq> 0"
  shows "writes (at_digit it (4 * k + j)) (map (hex_digit \<circ> group_digit (iterAddr it) k) [j..<4]) (after_group it (4 * k + 4))"
  using j
proof (induction "3 - j" arbitrary: j)
  case 0
  then have "j = 3" by simp
  then show ?case using Continue_digit [OF k 0(2) 0(3) z] by (simp add: hex_digit_not_eos group_digit_less)
next
  case (Suc n)
  have "writes (at_digit it (4 * k + Suc j)) (map (hex_digit \<circ> group_digit (iterAddr it) k) [Suc j..<4])
      (after_group it (4 * k + 4))"
    using Suc.hyps(2) by (intro Suc.hyps(1)) auto
  moreover have "[j..<4] = j # [Suc j..<4]" using Suc.prems by (simp add: upt_rec)
  ultimately show ?case using Continue_digit [OF k Suc.prems z] Suc.hyps(2)
    by (simp add: hex_digit_not_eos group_digit_less)
qed

lemma upt_4: "[0..<4] = [0, 1, 2, 3]" "[1..<4] = [1, 2, 3]" "[2..<4] = [2, 3]" "[3..<4] = [3::nat]"
  by (simp_all add: eval_nat_numeral)

lemma writes_group:
  assumes k: "k < 8" and z: "firstZeroIdx it mod 4 = 0"
  shows "writes (at_digit it (4 * k)) (hex_text (group_val (iterAddr it) k)) (after_group it (4 * k + 4))"
proof (cases "group_digit (iterAddr it) k 0 = 0")
  case False
  then show ?thesis using writes_digits [OF k z, of 0] by (simp add: hex_text_group Let_def upt_4)
next
  case True
  note c = Continue_group_start [OF k z True]
  note w = writes_digits [OF k z, of 2] writes_digits [OF k z, of 3]
  show ?thesis using True c w
    by (cases "group_digit (iterAddr it) k 1 = 0"; cases "group_digit (iterAddr it) k 2 = 0")
      (simp_all add: hex_text_group Let_def upt_4 hex_digit_not_eos group_digit_less three)
qed

text \<open>A row of groups, up to the end of the address or to the row that is left out.\<close>

definition row_end :: "ipv6_addr_human_readable_out_iter \<Rightarrow> nat \<Rightarrow> bool" where
  "row_end it b \<longleftrightarrow> b = 8 \<or> firstZeroIdx it = 4 * b"

lemma writes_groups:
  assumes "a < b" "b \<le> 8" "firstZeroIdx it mod 4 = 0" "row_end it b" "\<forall>k. a < k \<and> k < b \<longrightarrow> \<not> row_end it k"
  shows "writes (at_digit it (4 * a)) (groups_text (iterAddr it) a b) (after_group it (4 * b))"
  using assms
proof (induction "b - Suc a" arbitrary: a)
  case 0
  then have b: "b = Suc a" by simp
  then show ?case using writes_group [of a it] 0 by (simp add: groups_text_def add.commute)
next
  case (Suc n)
  let ?it = "at_digit it (4 * Suc a)"
  have "\<not> row_end it (Suc a)" using Suc.prems(5) Suc.hyps(2) by auto
  then have g: "after_group it (4 * a + 4) = it\<lparr>nextAction := OUT_ACTION_SINGLE_COLON, nextIdx := 4 * Suc a\<rparr>"
    using Suc.prems Suc.hyps(2) by (auto simp: row_end_def after_group_def)
  have c: "whip6_ipv6AddrHumanReadableIoContinueWriting (after_group it (4 * a + 4)) = (CHR '':'', ?it)"
    unfolding g by (simp add: whip6_ipv6AddrHumanReadableIoContinueWriting_def at_digit_def)
  have "writes ?it (groups_text (iterAddr it) (Suc a) b) (after_group it (4 * b))"
    by (rule Suc.hyps(1)) (use Suc.prems Suc.hyps(2) in auto)
  then have w: "writes (after_group it (4 * a + 4)) (CHR '':'' # groups_text (iterAddr it) (Suc a) b) (after_group it (4 * b))"
    using c by simp
  have t: "groups_text (iterAddr it) a b =
      hex_text (group_val (iterAddr it) a) @ CHR '':'' # groups_text (iterAddr it) (Suc a) b"
    using Suc.hyps(2) by (simp add: groups_text_def upt_rec [of a b] upt_rec [of "Suc a" b])
  show ?case unfolding t writes_append using w writes_group [of a it] Suc.prems by auto
qed

section \<open>The scan for zeros\<close>

text \<open>The scan sees only which groups are zero; over the 256 patterns it finds the first longest row.\<close>

fun zeros_scan :: "bool list \<Rightarrow> nat \<Rightarrow> nat \<times> nat \<times> nat \<Rightarrow> nat \<times> nat \<times> nat" where
  "zeros_scan [] idx acc = acc"
| "zeros_scan (z # zs) idx (f, m, c) =
     zeros_scan zs (idx + 2) (if z then (f, m, c + 2) else if c > m then (idx - c, c, 0) else (f, m, 0))"

definition zeros_result :: "nat \<times> nat \<times> nat \<Rightarrow> nat \<times> nat" where
  "zeros_result = (\<lambda>(f, m, c). if c > m then (16 - c, c) else (f, m))"

lemma zero_group_iff: "addr ! (2 * k) = 0 \<and> addr ! (2 * k + 1) = 0 \<longleftrightarrow> group_val addr k = 0"
  by (auto simp: group_val_def unat_eq_0)

lemma out_zeros_loop_scan:
  "out_zeros_loop addr (2 * k) n acc =
   zeros_scan (map (\<lambda>k. group_val addr k = 0) [k..<k + n]) (2 * k) acc"
proof (induction n arbitrary: k acc)
  case (Suc n)
  obtain f m c where a: "acc = (f, m, c)" by (cases acc)
  have u: "[k..<k + Suc n] = k # [Suc k..<Suc k + n]" by (simp add: upt_rec)
  have s: "2 * k + 2 = 2 * Suc k" by simp
  show ?case unfolding a u
    by (simp only: list.map zeros_scan.simps out_zeros_loop.simps Let_def zero_group_iff s Suc.IH)
qed simp

lemma zeros_scan_rows:
  "\<forall>zs \<in> set (List.n_lists 8 [True, False]).
     let (f, m) = zeros_result (zeros_scan zs 0 (16, 0, 0))
     in m = 2 * longest_zero_row zs \<and> (m > 2 \<longrightarrow> f = 2 * first_longest_zero_row zs) \<and>
        first_longest_zero_row zs + longest_zero_row zs \<le> 8"
  by code_simp


lemma zeros_of_addr:
  defines "zs addr \<equiv> map (\<lambda>k. group_val addr k = 0) [0..<8]"
  shows "zeros_result (out_zeros_loop addr 0 8 (16, 0, 0)) = (f, m) \<Longrightarrow>
    m = 2 * longest_zero_row (zs addr) \<and> (m > 2 \<longrightarrow> f = 2 * first_longest_zero_row (zs addr)) \<and>
    first_longest_zero_row (zs addr) + longest_zero_row (zs addr) \<le> 8"
proof -
  assume a: "zeros_result (out_zeros_loop addr 0 8 (16, 0, 0)) = (f, m)"
  have "zs addr \<in> set (List.n_lists 8 [True, False])" by (auto simp: set_n_lists zs_def)
  then have "let (f, m) = zeros_result (zeros_scan (zs addr) 0 (16, 0, 0))
     in m = 2 * longest_zero_row (zs addr) \<and> (m > 2 \<longrightarrow> f = 2 * first_longest_zero_row (zs addr)) \<and>
        first_longest_zero_row (zs addr) + longest_zero_row (zs addr) \<le> 8"
    using zeros_scan_rows by blast
  moreover have "zeros_scan (zs addr) 0 (16, 0, 0) = out_zeros_loop addr 0 8 (16, 0, 0)"
    using out_zeros_loop_scan [of addr 0 8] by (simp add: zs_def)
  ultimately show ?thesis by (simp add: a)
qed

text \<open>The three states in which writing starts.\<close>

lemma InitializeWriting_eq:
  assumes "zeros_result (out_zeros_loop addr 0 8 (16, 0, 0)) = (f, m)"
  shows "whip6_ipv6AddrHumanReadableIoInitializeWriting addr =
    (let it = \<lparr>iterAddr = addr, nextAction = OUT_ACTION_NUMBER, nextIdx = 0,
               firstZeroIdx = (if m > 2 then f * 2 else 32), nextNonzeroIdx = (if m > 2 then (f + m) * 2 else 33)\<rparr>
     in if m > 2 \<and> f = 0 then it\<lparr>nextAction := OUT_ACTION_FIRST_DOUBLE_COLON, nextIdx := m * 2\<rparr> else it)"
  using assms unfolding whip6_ipv6AddrHumanReadableIoInitializeWriting_def zeros_result_def ipv6_addr_constants
  by (auto simp: Let_def split: prod.splits if_splits)

section \<open>The whole text\<close>

lemma print_addr_writes:
  "writes it cs it' \<Longrightarrow> nextAction it' = OUT_ACTION_STOP \<Longrightarrow>
   (case whip6_ipv6AddrHumanReadableIoContinueWriting it of (c, it1) \<Rightarrow> print_addr_loop c it1 out) = Some (out @ cs)"
proof (induction cs arbitrary: it out)
  case Nil
  then show ?case
    by (simp add: whip6_ipv6AddrHumanReadableIoContinueWriting_def print_addr_loop.simps)
next
  case (Cons c cs)
  then obtain it1 where "c \<noteq> WHIP6_IPV6_ADDR_HUMAN_READABLE_OUT_EOS" "writes it1 cs it'"
    "whip6_ipv6AddrHumanReadableIoContinueWriting it = (c, it1)" by auto
  then show ?case using Cons.IH [of it1 "out @ [c]"] Cons.prems(2) by (simp add: print_addr_loop.simps [of c])
qed

text \<open>From the double colon on.\<close>

lemma writes_tail:
  assumes it: "nextAction it = OUT_ACTION_FIRST_DOUBLE_COLON" "nextIdx it = 4 * e" "firstZeroIdx it = 4 * i"
    and e: "i < e" "e \<le> 8"
  shows "\<exists>it'. writes it (''::'' @ groups_text (iterAddr it) e 8) it' \<and> nextAction it' = OUT_ACTION_STOP"
proof -
  let ?it = "it\<lparr>nextAction := if e = 8 then OUT_ACTION_STOP else OUT_ACTION_NUMBER\<rparr>"
  have w: "writes it ''::'' ?it" using it e
    by (simp add: whip6_ipv6AddrHumanReadableIoContinueWriting_def ipv6_addr_constants)
  show ?thesis
  proof (cases "e = 8")
    case True
    then show ?thesis using w by (auto simp: groups_text_def simp del: writes.simps)
  next
    case False
    have "writes (at_digit it (4 * e)) (groups_text (iterAddr it) e 8) (after_group it (4 * 8))"
      by (rule writes_groups) (use e it False in \<open>auto simp: row_end_def\<close>)
    moreover have "at_digit it (4 * e) = ?it" using it False by (simp add: at_digit_def)
    ultimately have "writes it (''::'' @ groups_text (iterAddr it) e 8) (after_group it (4 * 8))"
      using w unfolding writes_append by auto
    then show ?thesis by (auto simp: after_group_def)
  qed
qed

lemma writes_addr_text:
  "\<exists>it'. writes (whip6_ipv6AddrHumanReadableIoInitializeWriting addr) (addr_text addr) it' \<and>
     nextAction it' = OUT_ACTION_STOP"
proof -
  obtain f m where fm: "zeros_result (out_zeros_loop addr 0 8 (16, 0, 0)) = (f, m)" by fastforce
  define zs where "zs = map (\<lambda>k. group_val addr k = 0) [0..<8]"
  define l where "l = longest_zero_row zs"
  define i where "i = first_longest_zero_row zs"
  have z: "m = 2 * l" "m > 2 \<longrightarrow> f = 2 * i" "i + l \<le> 8"
    using zeros_of_addr [OF fm] unfolding zs_def l_def i_def by auto
  have ref: "addr_text addr = (if l \<ge> 2 then groups_text addr 0 i @ ''::'' @ groups_text addr (i + l) 8
      else groups_text addr 0 8)"
    unfolding addr_text_def zs_def [symmetric] l_def [symmetric] i_def [symmetric] Let_def ..
  let ?it = "\<lparr>iterAddr = addr, nextAction = OUT_ACTION_NUMBER, nextIdx = 0,
    firstZeroIdx = (if m > 2 then f * 2 else 32), nextNonzeroIdx = (if m > 2 then (f + m) * 2 else 33)\<rparr>"
  have d: "at_digit ?it (4 * 0) = ?it" by (simp add: at_digit_def)
  note init = InitializeWriting_eq [OF fm, unfolded Let_def]
  consider "l < 2" | "l \<ge> 2" "i = 0" | "l \<ge> 2" "i > 0" by linarith
  then show ?thesis
  proof cases
    case 1
    have "writes (at_digit ?it (4 * 0)) (groups_text addr 0 8) (after_group ?it (4 * 8))"
      using writes_groups [of 0 8 ?it] 1 z(1) by (simp add: row_end_def)
    then show ?thesis using 1 z(1) unfolding init ref d by (auto simp: after_group_def)
  next
    case 2
    let ?s = "?it\<lparr>nextAction := OUT_ACTION_FIRST_DOUBLE_COLON, nextIdx := m * 2\<rparr>"
    have "\<exists>it'. writes ?s (''::'' @ groups_text (iterAddr ?s) l 8) it' \<and> nextAction it' = OUT_ACTION_STOP"
      by (rule writes_tail [where i = 0]) (use 2 z in auto)
    then show ?thesis using 2 z unfolding init ref by (simp add: groups_text_def [of addr 0 0])
  next
    case 3
    have m: "m > 2" using 3 z(1) by simp
    then have f: "f = 2 * i" using z(2) by simp
    have w: "writes (at_digit ?it (4 * 0)) (groups_text addr 0 i) (after_group ?it (4 * i))"
      using writes_groups [of 0 i ?it] 3 z m f by (simp add: row_end_def)
    let ?s = "?it\<lparr>nextAction := OUT_ACTION_FIRST_DOUBLE_COLON, nextIdx := 4 * (i + l)\<rparr>"
    have s: "after_group ?it (4 * i) = ?s" using 3 z m f by (auto simp: after_group_def)
    have "\<exists>it'. writes ?s (''::'' @ groups_text (iterAddr ?s) (i + l) 8) it' \<and> nextAction it' = OUT_ACTION_STOP"
      by (rule writes_tail [where i = i]) (use 3 z m f in auto)
    then obtain it' where it': "writes ?s (''::'' @ groups_text addr (i + l) 8) it'" "nextAction it' = OUT_ACTION_STOP"
      by auto
    have "writes ?it (groups_text addr 0 i @ ''::'' @ groups_text addr (i + l) 8) it'"
      using w it'(1) unfolding d s writes_append by blast
    then show ?thesis using 3 m f it'(2) unfolding init ref by auto
  qed
qed

text \<open>C24: Printing any IPv6 address ends, and prints its canonical text: eight hexadecimal groups without
  leading zeros, the first longest row of two or more zero groups written as a double colon.\<close>

theorem addr_text_printed: "printIpv6Addr addr = Some (addr_text addr)"
  unfolding printIpv6Addr_def using writes_addr_text [of addr] print_addr_writes [where out = "[]"] by fastforce


end
