(* ===== verification/Lowpan_Ipv6Address.thy ===== *)
theory Lowpan_Ipv6Address
  imports Ipv6_Address Ieee154_Address
begin

text \<open>
  Interface identifiers: \<open>microc/src/6lowpan/uc6LoWPANIpv6AddressManipulation.c\<close>, which fills the
  last eight bytes of an IPv6 address with an IEEE 802.15.4 address (the universal/local bit of an
  extended address is inverted; a short address is prefixed with the PAN identifier and the
  \<open>00:ff:fe:00\<close> filler) and extracts an IEEE 802.15.4 address from such a suffix.

  The lemmas give the closed forms of both directions; the property says when extracting gives
  back what was filled in.
\<close>

section \<open>Filling\<close>

fun fill_ext_loop :: "ipv6_addr \<Rightarrow> nat \<Rightarrow> u8 list \<Rightarrow> nat \<Rightarrow> nat \<Rightarrow> ipv6_addr" where
  "fill_ext_loop ipv6Addr addrBytePtr eui euiBytePtr 0 = ipv6Addr"
| "fill_ext_loop ipv6Addr addrBytePtr eui euiBytePtr (Suc i) =
     (let addrBytePtr = addrBytePtr + 1;
          euiBytePtr = euiBytePtr - 1
      in fill_ext_loop (ipv6Addr[addrBytePtr := eui ! euiBytePtr]) addrBytePtr eui euiBytePtr i)"

definition whip6_ipv6AddrFillSuffixWithIeee154AddrExt :: "ipv6_addr \<Rightarrow> u8 list \<Rightarrow> ipv6_addr" where
  "whip6_ipv6AddrFillSuffixWithIeee154AddrExt ipv6Addr ieee154Addr =
     fill_ext_loop (ipv6Addr[8 := (ieee154Addr ! 7) XOR 0x02]) 8 ieee154Addr 7 7"

definition whip6_ipv6AddrFillSuffixWithIeee154AddrShort ::
  "ipv6_addr \<Rightarrow> u8 list \<Rightarrow> ieee154_pan_id \<Rightarrow> ipv6_addr" where
  "whip6_ipv6AddrFillSuffixWithIeee154AddrShort ipv6Addr ieee154Addr ieee154PanId =
     (let a = ipv6Addr[8 := ieee154PanId ! 1 AND NOT 0x02];
          a = a[9 := ieee154PanId ! 0];
          a = a[10 := 0x00];
          a = a[11 := 0xff];
          a = a[12 := 0xfe];
          a = a[13 := 0x00];
          a = a[14 := ieee154Addr ! 1]
      in a[15 := ieee154Addr ! 0])"

definition whip6_ipv6AddrFillSuffixWithIeee154AddrAny ::
  "ipv6_addr \<Rightarrow> ieee154_addr \<Rightarrow> ieee154_pan_id \<Rightarrow> ipv6_addr option" where
  "whip6_ipv6AddrFillSuffixWithIeee154AddrAny ipv6Addr ieee154Addr ieee154PanId =
     (if addrMode ieee154Addr = IEEE154_ADDR_MODE_SHORT
      then Some (whip6_ipv6AddrFillSuffixWithIeee154AddrShort ipv6Addr (addrVars ieee154Addr) ieee154PanId)
      else if addrMode ieee154Addr = IEEE154_ADDR_MODE_EXT
      then Some (whip6_ipv6AddrFillSuffixWithIeee154AddrExt ipv6Addr (addrVars ieee154Addr))
      else whip6_shortMemSet ipv6Addr 8 0x00 8)"

section \<open>Extracting\<close>

fun extract_ext_loop :: "ipv6_addr \<Rightarrow> nat \<Rightarrow> u8 list \<Rightarrow> nat \<Rightarrow> nat \<Rightarrow> u8 list" where
  "extract_ext_loop ipv6Addr addrBytePtr eui euiBytePtr 0 = eui"
| "extract_ext_loop ipv6Addr addrBytePtr eui euiBytePtr (Suc i) =
     (let addrBytePtr = addrBytePtr + 1;
          euiBytePtr = euiBytePtr - 1
      in extract_ext_loop ipv6Addr addrBytePtr (eui[euiBytePtr := ipv6Addr ! addrBytePtr]) euiBytePtr i)"

definition whip6_ipv6AddrExtractFromSuffixIeee154AddrExt :: "ipv6_addr \<Rightarrow> u8 list \<Rightarrow> u8 list" where
  "whip6_ipv6AddrExtractFromSuffixIeee154AddrExt ipv6Addr ieee154Addr =
     extract_ext_loop ipv6Addr 8 (ieee154Addr[7 := (ipv6Addr ! 8) XOR 0x02]) 7 7"

definition whip6_ipv6AddrCheckIfSuffixMayContainIeee154AddrShort :: "ipv6_addr \<Rightarrow> ieee154_pan_id \<Rightarrow> bool" where
  "whip6_ipv6AddrCheckIfSuffixMayContainIeee154AddrShort ipv6Addr ieee154PanId =
     (if ipv6Addr ! 8 \<noteq> (ieee154PanId ! 1 AND NOT 0x02) then False
      else if ipv6Addr ! 9 \<noteq> ieee154PanId ! 0 then False
      else if ipv6Addr ! 10 \<noteq> 0x00 then False
      else if ipv6Addr ! 11 \<noteq> 0xff then False
      else if ipv6Addr ! 12 \<noteq> 0xfe then False
      else if ipv6Addr ! 13 \<noteq> 0x00 then False
      else True)"

definition whip6_ipv6AddrJustExtractFromSuffixIeee154AddrShort :: "ipv6_addr \<Rightarrow> u8 list \<Rightarrow> u8 list" where
  "whip6_ipv6AddrJustExtractFromSuffixIeee154AddrShort ipv6Addr ieee154Addr =
     (let ieee154Addr = ieee154Addr[1 := ipv6Addr ! 14]
      in ieee154Addr[0 := ipv6Addr ! 15])"

definition whip6_ipv6AddrExtractFromSuffixIeee154AddrShort ::
  "ipv6_addr \<Rightarrow> u8 list \<Rightarrow> ieee154_pan_id \<Rightarrow> u8 list \<times> bool" where
  "whip6_ipv6AddrExtractFromSuffixIeee154AddrShort ipv6Addr ieee154Addr ieee154PanId =
     (if \<not> whip6_ipv6AddrCheckIfSuffixMayContainIeee154AddrShort ipv6Addr ieee154PanId
      then (ieee154Addr, False)
      else (whip6_ipv6AddrJustExtractFromSuffixIeee154AddrShort ipv6Addr ieee154Addr, True))"

definition whip6_ipv6AddrExtractFromSuffixIeee154AddrAny ::
  "ipv6_addr \<Rightarrow> ieee154_addr \<Rightarrow> ieee154_pan_id \<Rightarrow> ieee154_addr" where
  "whip6_ipv6AddrExtractFromSuffixIeee154AddrAny ipv6Addr ieee154Addr ieee154PanId =
     (if whip6_ipv6AddrCheckIfSuffixMayContainIeee154AddrShort ipv6Addr ieee154PanId
      then \<lparr>addrMode = IEEE154_ADDR_MODE_SHORT,
            addrVars = whip6_ipv6AddrJustExtractFromSuffixIeee154AddrShort ipv6Addr (addrVars ieee154Addr)\<rparr>
      else \<lparr>addrMode = IEEE154_ADDR_MODE_EXT,
            addrVars = whip6_ipv6AddrExtractFromSuffixIeee154AddrExt ipv6Addr (addrVars ieee154Addr)\<rparr>)"

section \<open>Closed forms\<close>

lemma list8_cases:
  assumes "length xs = 8"
  obtains a b c d e f g h where "xs = [a, b, c, d, e, f, g, h]"
  using assms by (auto simp: eval_nat_numeral length_Suc_conv)

lemma list2_cases:
  assumes "length xs = 2"
  obtains a b where "xs = [a, b]"
  using assms by (auto simp: eval_nat_numeral length_Suc_conv)

text \<open>An address is its prefix and its suffix.\<close>

lemma ipv6_addr_split:
  assumes "ipv6_addr_ok addr"
  obtains p s where "addr = p @ s" "length p = 8" "length s = 8"
  by (rule that [of "take 8 addr" "drop 8 addr"]) (use assms in \<open>simp_all add: ipv6_addr_ok_def\<close>)

lemma suffix_update: "length p = 8 \<Longrightarrow> (p @ s)[8 + i := b] = p @ s[i := b]"
  by (simp add: list_update_append)

lemma suffix_nth: "length p = 8 \<Longrightarrow> (p @ s) ! (8 + i) = s ! i"
  by (simp add: nth_append)

lemma fill_ext_loop_eq:
  assumes "length p = 8" "length s = 8" "length eui = 8" "k + n = 7"
  shows "fill_ext_loop (p @ s) (8 + k) eui n n = p @ take (Suc k) s @ rev (take n eui)"
  using assms(2,4)
proof (induction n arbitrary: s k)
  case 0
  then show ?case by simp
next
  case (Suc n)
  have u: "(p @ s)[8 + k + 1 := eui ! n] = p @ s[Suc k := eui ! n]"
    using suffix_update [OF assms(1), of s "Suc k"] by simp
  have "fill_ext_loop (p @ s) (8 + k) eui (Suc n) (Suc n) = fill_ext_loop (p @ s[Suc k := eui ! n]) (8 + Suc k) eui n n"
    by (simp add: Let_def u [simplified])
  also have "\<dots> = p @ take (Suc (Suc k)) (s[Suc k := eui ! n]) @ rev (take n eui)"
    using Suc.prems by (intro Suc.IH) auto
  also have "take (Suc (Suc k)) (s[Suc k := eui ! n]) = take (Suc k) s @ [eui ! n]"
    using Suc.prems by (simp add: take_Suc_conv_app_nth)
  finally show ?case using Suc.prems assms(3) by (simp add: take_Suc_conv_app_nth)
qed

lemma FillExt_eq:
  assumes "ipv6_addr_ok addr" "length eui = 8"
  shows "whip6_ipv6AddrFillSuffixWithIeee154AddrExt addr eui =
    take 8 addr @ (eui ! 7 XOR 0x02) # rev (take 7 eui)"
proof -
  obtain p s where a: "addr = p @ s" "length p = 8" "length s = 8" using ipv6_addr_split [OF assms(1)] .
  have "fill_ext_loop (p @ s[0 := eui ! 7 XOR 0x02]) (8 + 0) eui 7 7 =
      p @ take (Suc 0) (s[0 := eui ! 7 XOR 0x02]) @ rev (take 7 eui)"
    using a assms(2) by (intro fill_ext_loop_eq) auto
  moreover have "take (Suc 0) (s[0 := eui ! 7 XOR 0x02]) = [eui ! 7 XOR 0x02]" using a(3) by (cases s) auto
  ultimately show ?thesis using a suffix_update [OF a(2), of s 0]
    by (simp add: whip6_ipv6AddrFillSuffixWithIeee154AddrExt_def)
qed

lemma FillShort_eq:
  assumes "ipv6_addr_ok addr"
  shows "whip6_ipv6AddrFillSuffixWithIeee154AddrShort addr sh pan =
    take 8 addr @ [pan ! 1 AND NOT 0x02, pan ! 0, 0x00, 0xff, 0xfe, 0x00, sh ! 1, sh ! 0]"
proof -
  obtain p s where a: "addr = p @ s" "length p = 8" "length s = 8" using ipv6_addr_split [OF assms] .
  obtain s0 s1 s2 s3 s4 s5 s6 s7 where s: "s = [s0, s1, s2, s3, s4, s5, s6, s7]" using list8_cases [OF a(3)] .
  show ?thesis using a(2)
    by (simp add: a(1) s whip6_ipv6AddrFillSuffixWithIeee154AddrShort_def list_update_append Let_def)
qed

lemma extract_ext_loop_eq:
  assumes "length p = 8" "length s = 8" "length eui = 8" "k + n = 7"
  shows "extract_ext_loop (p @ s) (8 + k) eui n n = rev (drop (Suc k) s) @ drop n eui"
  using assms(3,4)
proof (induction n arbitrary: eui k)
  case 0
  then show ?case using assms(2) by simp
next
  case (Suc n)
  have g: "(p @ s) ! (8 + k + 1) = s ! Suc k" using suffix_nth [OF assms(1), of s "Suc k"] by simp
  have "extract_ext_loop (p @ s) (8 + k) eui (Suc n) (Suc n) = extract_ext_loop (p @ s) (8 + Suc k) (eui[n := s ! Suc k]) n n"
    by (simp add: Let_def g [simplified])
  also have "\<dots> = rev (drop (Suc (Suc k)) s) @ drop n (eui[n := s ! Suc k])"
    using Suc.prems by (intro Suc.IH) auto
  also have "drop n (eui[n := s ! Suc k]) = s ! Suc k # drop (Suc n) eui"
    using Suc.prems by (simp add: Cons_nth_drop_Suc [symmetric])
  finally show ?case using Suc.prems assms(2) by (simp add: Cons_nth_drop_Suc [symmetric, of "Suc k"])
qed

lemma ExtractExt_eq:
  assumes "ipv6_addr_ok addr" "length eui = 8"
  shows "whip6_ipv6AddrExtractFromSuffixIeee154AddrExt addr eui = rev (drop 9 addr) @ [addr ! 8 XOR 0x02]"
proof -
  obtain p s where a: "addr = p @ s" "length p = 8" "length s = 8" using ipv6_addr_split [OF assms(1)] .
  let ?e = "eui[7 := addr ! 8 XOR 0x02]"
  have "extract_ext_loop (p @ s) (8 + 0) ?e 7 7 = rev (drop (Suc 0) s) @ drop 7 ?e"
    using a assms(2) by (intro extract_ext_loop_eq) auto
  moreover have "drop 7 ?e = [addr ! 8 XOR 0x02]"
    using assms(2) by (simp add: Cons_nth_drop_Suc [symmetric])
  ultimately show ?thesis using a by (simp add: whip6_ipv6AddrExtractFromSuffixIeee154AddrExt_def)
qed

text \<open>An extended address whose suffix reads as a short address of the PAN.\<close>

definition ext_like_short :: "u8 list \<Rightarrow> ieee154_pan_id \<Rightarrow> bool" where
  "ext_like_short eui pan \<longleftrightarrow>
     (eui ! 7 XOR 0x02) = (pan ! 1 AND NOT 0x02) \<and> eui ! 6 = pan ! 0 \<and>
     eui ! 5 = 0x00 \<and> eui ! 4 = 0xff \<and> eui ! 3 = 0xfe \<and> eui ! 2 = 0x00"

lemma CheckShort_suffix:
  "length p = 8 \<Longrightarrow> whip6_ipv6AddrCheckIfSuffixMayContainIeee154AddrShort (p @ s) pan \<longleftrightarrow>
    s ! 0 = pan ! 1 AND NOT 0x02 \<and> s ! 1 = pan ! 0 \<and> s ! 2 = 0x00 \<and> s ! 3 = 0xff \<and> s ! 4 = 0xfe \<and> s ! 5 = 0x00"
  by (auto simp: whip6_ipv6AddrCheckIfSuffixMayContainIeee154AddrShort_def nth_append)

lemma xor_2_2 [simp]: "((w :: u8) XOR 0x02) XOR 0x02 = w"
  by (simp add: bit.conj_disj_distrib xor.assoc)

lemma Extract_FillShort:
  assumes "ipv6_addr_ok ip" "addr_ok a" "length pan = 2" "addrMode a = IEEE154_ADDR_MODE_SHORT" "addr_ok b"
  shows "addr_same (whip6_ipv6AddrExtractFromSuffixIeee154AddrAny
      (whip6_ipv6AddrFillSuffixWithIeee154AddrShort ip (addrVars a) pan) b pan) a"
proof -
  obtain a0 a1 as where va: "addrVars a = a0 # a1 # as"
    using assms(2) list8_cases [of "addrVars a"] unfolding addr_ok_def by metis
  obtain b0 b1 bs where vb: "addrVars b = b0 # b1 # bs"
    using assms(5) list8_cases [of "addrVars b"] unfolding addr_ok_def by metis
  let ?p = "take 8 ip"
  have p: "length ?p = 8" using assms(1) by (simp add: ipv6_addr_ok_def)
  show ?thesis using p assms(4)
    by (simp add: FillShort_eq [OF assms(1)] whip6_ipv6AddrExtractFromSuffixIeee154AddrAny_def CheckShort_suffix va vb
        whip6_ipv6AddrJustExtractFromSuffixIeee154AddrShort_def nth_append addr_same_def addr_bytes_def addr_len_def)
qed

lemma Extract_FillExt:
  assumes "ipv6_addr_ok ip" "addr_ok a" "length pan = 2" "addrMode a = IEEE154_ADDR_MODE_EXT" "addr_ok b"
  shows "addr_same (whip6_ipv6AddrExtractFromSuffixIeee154AddrAny
      (whip6_ipv6AddrFillSuffixWithIeee154AddrExt ip (addrVars a)) b pan) a \<longleftrightarrow> \<not> ext_like_short (addrVars a) pan"
proof -
  have la: "length (addrVars a) = 8" and lb: "length (addrVars b) = 8" using assms(2,5) by (simp_all add: addr_ok_def)
  obtain e0 e1 e2 e3 e4 e5 e6 e7 where va: "addrVars a = [e0, e1, e2, e3, e4, e5, e6, e7]" using list8_cases [OF la] .
  let ?p = "take 8 ip"
  let ?f = "whip6_ipv6AddrFillSuffixWithIeee154AddrExt ip (addrVars a)"
  have p: "length ?p = 8" using assms(1) by (simp add: ipv6_addr_ok_def)
  have f: "?f = ?p @ [e7 XOR 0x02, e6, e5, e4, e3, e2, e1, e0]" using FillExt_eq [OF assms(1) la] unfolding va by simp
  have ok: "ipv6_addr_ok ?f" using p by (simp add: f ipv6_addr_ok_def)
  have c: "whip6_ipv6AddrCheckIfSuffixMayContainIeee154AddrShort ?f pan \<longleftrightarrow> ext_like_short (addrVars a) pan"
    unfolding f CheckShort_suffix [OF p] by (simp add: ext_like_short_def va)
  have x: "whip6_ipv6AddrExtractFromSuffixIeee154AddrExt ?f (addrVars b) = addrVars a"
    using p ExtractExt_eq [OF ok lb] unfolding f by (simp add: va nth_append)
  show ?thesis using assms(4)
    by (simp add: whip6_ipv6AddrExtractFromSuffixIeee154AddrAny_def c x addr_same_def addr_bytes_def addr_len_def
        ieee154_addr_constants)
qed

text \<open>C25: The IEEE 802.15.4 address in the interface identifier of an IPv6 address: a short address is
  extracted as it was filled in; an extended one is too, unless its bytes are the ones by which the
  code recognises a short address of the PAN, and then exactly it is not.\<close>

theorem interface_identifier_roundtrip:
  assumes "ipv6_addr_ok ip" "addr_ok a" "addr_ok b" "length pan = 2"
    "addrMode a = IEEE154_ADDR_MODE_SHORT \<or> addrMode a = IEEE154_ADDR_MODE_EXT"
  shows "\<exists>ip'. whip6_ipv6AddrFillSuffixWithIeee154AddrAny ip a pan = Some ip' \<and> take 8 ip' = take 8 ip \<and>
    (addr_same (whip6_ipv6AddrExtractFromSuffixIeee154AddrAny ip' b pan) a \<longleftrightarrow>
     addrMode a = IEEE154_ADDR_MODE_SHORT \<or> \<not> ext_like_short (addrVars a) pan)"
proof (cases "addrMode a = IEEE154_ADDR_MODE_SHORT")
  case True
  then show ?thesis using Extract_FillShort [OF assms(1,2,4) _ assms(3)] FillShort_eq [OF assms(1)] assms(1)
    by (simp add: whip6_ipv6AddrFillSuffixWithIeee154AddrAny_def ipv6_addr_ok_def)
next
  case False
  then have "addrMode a = IEEE154_ADDR_MODE_EXT" using assms(5) by simp
  then show ?thesis using False Extract_FillExt [OF assms(1,2,4) _ assms(3)] FillExt_eq [OF assms(1), of "addrVars a"]
      assms(1,2)
    by (simp add: whip6_ipv6AddrFillSuffixWithIeee154AddrAny_def ipv6_addr_ok_def addr_ok_def)
qed

theorem interface_identifier_roundtrip_witness:
  "\<exists>ip'. whip6_ipv6AddrFillSuffixWithIeee154AddrAny (replicate 16 0)
      \<lparr>addrMode = IEEE154_ADDR_MODE_EXT, addrVars = [1, 2, 3, 4, 5, 6, 7, 8]\<rparr> [9, 9] = Some ip' \<and>
    take 8 ip' = take 8 (replicate 16 0) \<and>
    addr_same (whip6_ipv6AddrExtractFromSuffixIeee154AddrAny ip'
      \<lparr>addrMode = IEEE154_ADDR_MODE_NONE, addrVars = replicate 8 0\<rparr> [9, 9])
      \<lparr>addrMode = IEEE154_ADDR_MODE_EXT, addrVars = [1, 2, 3, 4, 5, 6, 7, 8]\<rparr>"
  using interface_identifier_roundtrip [of "replicate 16 0"
      "\<lparr>addrMode = IEEE154_ADDR_MODE_EXT, addrVars = [1, 2, 3, 4, 5, 6, 7, 8]\<rparr>"
      "\<lparr>addrMode = IEEE154_ADDR_MODE_NONE, addrVars = replicate 8 0\<rparr>" "[9, 9]"]
  by (simp add: ipv6_addr_ok_def addr_ok_def ext_like_short_def)

end
