(* ===== verification/Ipv6_Interface.thy ===== *)
theory Ipv6_Interface
  imports Lowpan_Ipv6Address
begin

text \<open>
  The state of a network interface and its addresses:
  \<open>microc/src/ipv6/ucIpv6GenericInterfaceStateManipulation.c\<close> and
  \<open>microc/src/ieee154/ucIeee154Ipv6InterfaceStateManipulation.c\<close>.

  The pointers to the arrays of addresses are the arrays themselves, \<open>NULL\<close> being \<open>None\<close>. The
  code casts a pointer to a generic state to one to an IEEE 802.15.4 state by the type in the
  generic state; an interface is therefore the structure that contains the generic state, and
  casting a generic one that stands alone is \<open>None\<close>.
\<close>

section \<open>The state\<close>

record ipv6_net_iface_generic_state =
  ifaceNext :: "nat option"
  ifacePrev :: "nat option"
  indexAndType :: u8
  ifaceFlags :: u8
  unicastAddrArrLen :: u8
  multicastAddrArrLen :: u8
  unicastAddrArrPtr :: "ipv6_addr list option"
  multicastAddrArrPtr :: "ipv6_addr list option"

record ipv6_net_iface_ieee154_state =
  genericState :: ipv6_net_iface_generic_state
  ieee154ExtAddr :: "u8 list"
  ieee154ShrtAddr :: "u8 list"
  ieee154PanId :: ieee154_pan_id

datatype net_iface =
    Iface_Generic ipv6_net_iface_generic_state
  | Iface_Ieee154 ipv6_net_iface_ieee154_state

fun iface_generic :: "net_iface \<Rightarrow> ipv6_net_iface_generic_state" where
  "iface_generic (Iface_Generic g) = g"
| "iface_generic (Iface_Ieee154 s) = genericState s"

fun iface_ieee154 :: "net_iface \<Rightarrow> ipv6_net_iface_ieee154_state option" where
  "iface_ieee154 (Iface_Generic g) = None"
| "iface_ieee154 (Iface_Ieee154 s) = Some s"

definition WHIP6_IPV6_NET_IFACE_GENERIC_STATE_INDEX_MASK :: u8 where
  "WHIP6_IPV6_NET_IFACE_GENERIC_STATE_INDEX_MASK = 0x0f"
definition WHIP6_IPV6_NET_IFACE_GENERIC_STATE_TYPE_MASK :: u8 where
  "WHIP6_IPV6_NET_IFACE_GENERIC_STATE_TYPE_MASK = 0xf0"
definition WHIP6_IPV6_NET_IFACE_GENERIC_STATE_TYPE_SHIFT :: nat where
  "WHIP6_IPV6_NET_IFACE_GENERIC_STATE_TYPE_SHIFT = 4"
definition WHIP6_IPV6_NET_IFACE_GENERIC_STATE_TYPE_LOOPBACK :: u8 where
  "WHIP6_IPV6_NET_IFACE_GENERIC_STATE_TYPE_LOOPBACK = 0"
definition WHIP6_IPV6_NET_IFACE_GENERIC_STATE_TYPE_IEEE154 :: u8 where
  "WHIP6_IPV6_NET_IFACE_GENERIC_STATE_TYPE_IEEE154 = 1"
definition WHIP6_IPV6_NET_IFACE_GENERIC_STATE_FLAG_IS_ON :: u8 where
  "WHIP6_IPV6_NET_IFACE_GENERIC_STATE_FLAG_IS_ON = push_bit 7 1"
definition WHIP6_IPV6_NET_IFACE_IEEE154_STATE_FLAG_HAS_SHORT_ADDR :: u8 where
  "WHIP6_IPV6_NET_IFACE_IEEE154_STATE_FLAG_HAS_SHORT_ADDR = push_bit 0 1"

lemmas iface_constants = WHIP6_IPV6_NET_IFACE_GENERIC_STATE_INDEX_MASK_def
  WHIP6_IPV6_NET_IFACE_GENERIC_STATE_TYPE_MASK_def WHIP6_IPV6_NET_IFACE_GENERIC_STATE_TYPE_SHIFT_def
  WHIP6_IPV6_NET_IFACE_GENERIC_STATE_TYPE_LOOPBACK_def WHIP6_IPV6_NET_IFACE_GENERIC_STATE_TYPE_IEEE154_def
  WHIP6_IPV6_NET_IFACE_GENERIC_STATE_FLAG_IS_ON_def WHIP6_IPV6_NET_IFACE_IEEE154_STATE_FLAG_HAS_SHORT_ADDR_def

definition whip6_ipv6InterfaceGetIndex :: "ipv6_net_iface_generic_state \<Rightarrow> u8" where
  "whip6_ipv6InterfaceGetIndex g = indexAndType g AND WHIP6_IPV6_NET_IFACE_GENERIC_STATE_INDEX_MASK"

definition whip6_ipv6InterfaceSetIndex ::
  "ipv6_net_iface_generic_state \<Rightarrow> u8 \<Rightarrow> ipv6_net_iface_generic_state" where
  "whip6_ipv6InterfaceSetIndex g idx =
     (let v = indexAndType g AND NOT WHIP6_IPV6_NET_IFACE_GENERIC_STATE_INDEX_MASK
      in g\<lparr>indexAndType := v OR (idx AND WHIP6_IPV6_NET_IFACE_GENERIC_STATE_INDEX_MASK)\<rparr>)"

definition whip6_ipv6InterfaceGetType :: "ipv6_net_iface_generic_state \<Rightarrow> u8" where
  "whip6_ipv6InterfaceGetType g =
     drop_bit WHIP6_IPV6_NET_IFACE_GENERIC_STATE_TYPE_SHIFT
       (indexAndType g AND WHIP6_IPV6_NET_IFACE_GENERIC_STATE_TYPE_MASK)"

definition whip6_ipv6InterfaceSetType ::
  "ipv6_net_iface_generic_state \<Rightarrow> u8 \<Rightarrow> ipv6_net_iface_generic_state" where
  "whip6_ipv6InterfaceSetType g tp =
     (let v = indexAndType g AND NOT WHIP6_IPV6_NET_IFACE_GENERIC_STATE_TYPE_MASK
      in g\<lparr>indexAndType := v OR (push_bit WHIP6_IPV6_NET_IFACE_GENERIC_STATE_TYPE_SHIFT tp AND
                               WHIP6_IPV6_NET_IFACE_GENERIC_STATE_TYPE_MASK)\<rparr>)"

definition whip6_ipv6InterfaceClearFlags :: "ipv6_net_iface_generic_state \<Rightarrow> ipv6_net_iface_generic_state" where
  "whip6_ipv6InterfaceClearFlags g = g\<lparr>ifaceFlags := 0\<rparr>"

definition whip6_ipv6InterfaceSetOnFlag :: "ipv6_net_iface_generic_state \<Rightarrow> ipv6_net_iface_generic_state" where
  "whip6_ipv6InterfaceSetOnFlag g =
     g\<lparr>ifaceFlags := ifaceFlags g OR WHIP6_IPV6_NET_IFACE_GENERIC_STATE_FLAG_IS_ON\<rparr>"

definition whip6_ipv6InterfaceHasOnFlag :: "ipv6_net_iface_generic_state \<Rightarrow> bool" where
  "whip6_ipv6InterfaceHasOnFlag g \<longleftrightarrow> (ifaceFlags g AND WHIP6_IPV6_NET_IFACE_GENERIC_STATE_FLAG_IS_ON) \<noteq> 0"

definition whip6_ipv6InterfaceSetUnicastAddrArray ::
  "ipv6_net_iface_generic_state \<Rightarrow> ipv6_addr list option \<Rightarrow> u8 \<Rightarrow> ipv6_net_iface_generic_state" where
  "whip6_ipv6InterfaceSetUnicastAddrArray g ap al = g\<lparr>unicastAddrArrPtr := ap, unicastAddrArrLen := al\<rparr>"

definition whip6_ipv6InterfaceSetMulticastAddrArray ::
  "ipv6_net_iface_generic_state \<Rightarrow> ipv6_addr list option \<Rightarrow> u8 \<Rightarrow> ipv6_net_iface_generic_state" where
  "whip6_ipv6InterfaceSetMulticastAddrArray g ap al = g\<lparr>multicastAddrArrPtr := ap, multicastAddrArrLen := al\<rparr>"

section \<open>Autoconfigured addresses\<close>

text \<open>The loop over the extended address; \<open>n\<close> is one more than the index \<open>i\<close> of the code.\<close>

fun autoconf_ext_loop :: "ipv6_addr \<Rightarrow> nat \<Rightarrow> u8 list \<Rightarrow> nat \<Rightarrow> bool" where
  "autoconf_ext_loop addr addrBytePtr ext 0 = True"
| "autoconf_ext_loop addr addrBytePtr ext (Suc n) =
     (if addr ! addrBytePtr \<noteq> ext ! n then False else autoconf_ext_loop addr (addrBytePtr + 1) ext n)"

text \<open>The part behind the label \<open>SHORT_NOT_EQUAL\<close>, and the function.\<close>

definition autoconf_short_not_equal :: "ipv6_net_iface_ieee154_state \<Rightarrow> ipv6_addr \<Rightarrow> bool" where
  "autoconf_short_not_equal ifaceState addr =
     (if addr ! 8 \<noteq> (ieee154ExtAddr ifaceState ! 7 XOR 0x02) then False
      else autoconf_ext_loop addr 9 (ieee154ExtAddr ifaceState) 7)"

definition whip6_ipv6AddrIsAutoconfiguredLinkLocalAddressOfIeee154Interface ::
  "ipv6_net_iface_ieee154_state \<Rightarrow> ipv6_addr \<Rightarrow> bool" where
  "whip6_ipv6AddrIsAutoconfiguredLinkLocalAddressOfIeee154Interface ifaceState addr =
     (let short_not_equal = autoconf_short_not_equal ifaceState addr
      in if \<not> whip6_ipv6AddrIsLinkLocal addr then False
         else if (ifaceFlags (genericState ifaceState) AND
                  WHIP6_IPV6_NET_IFACE_IEEE154_STATE_FLAG_HAS_SHORT_ADDR) = 0 then short_not_equal
         else if addr ! 15 \<noteq> ieee154ShrtAddr ifaceState ! 0 then short_not_equal
         else if addr ! 14 \<noteq> ieee154ShrtAddr ifaceState ! 1 then short_not_equal
         else if addr ! 13 \<noteq> 0x00 then short_not_equal
         else if addr ! 12 \<noteq> 0xfe then short_not_equal
         else if addr ! 11 \<noteq> 0xff then short_not_equal
         else if addr ! 10 \<noteq> 0x00 then short_not_equal
         else if addr ! 9 \<noteq> ieee154PanId ifaceState ! 0 then short_not_equal
         else if addr ! 8 \<noteq> (ieee154PanId ifaceState ! 1 AND NOT 0x02) then short_not_equal
         else True)"

definition whip6_ipv6AddrGetAutoconfiguredLinkLocalAddressOfIeee154InterfaceExt ::
  "ipv6_net_iface_ieee154_state \<Rightarrow> ipv6_addr \<Rightarrow> ipv6_addr" where
  "whip6_ipv6AddrGetAutoconfiguredLinkLocalAddressOfIeee154InterfaceExt ifaceState addr =
     whip6_ipv6AddrFillSuffixWithIeee154AddrExt (whip6_ipv6AddrSetLinkLocalPrefix addr) (ieee154ExtAddr ifaceState)"

definition whip6_ipv6AddrGetAutoconfiguredLinkLocalAddressOfIeee154InterfaceShrt ::
  "ipv6_net_iface_ieee154_state \<Rightarrow> ipv6_addr \<Rightarrow> ipv6_addr \<times> bool" where
  "whip6_ipv6AddrGetAutoconfiguredLinkLocalAddressOfIeee154InterfaceShrt ifaceState addr =
     (if (ifaceFlags (genericState ifaceState) AND WHIP6_IPV6_NET_IFACE_IEEE154_STATE_FLAG_HAS_SHORT_ADDR) = 0
      then (addr, False)
      else (whip6_ipv6AddrFillSuffixWithIeee154AddrShort (whip6_ipv6AddrSetLinkLocalPrefix addr)
              (ieee154ShrtAddr ifaceState) (ieee154PanId ifaceState), True))"

definition whip6_ipv6AddrGetAutoconfiguredLinkLocalAddressOfIeee154InterfaceBest ::
  "ipv6_net_iface_ieee154_state \<Rightarrow> ipv6_addr \<Rightarrow> ipv6_addr \<times> u8" where
  "whip6_ipv6AddrGetAutoconfiguredLinkLocalAddressOfIeee154InterfaceBest ifaceState addr =
     (case whip6_ipv6AddrGetAutoconfiguredLinkLocalAddressOfIeee154InterfaceShrt ifaceState addr of
        (addr, True) \<Rightarrow> (addr, IEEE154_ADDR_MODE_SHORT)
      | (addr, False) \<Rightarrow>
          (whip6_ipv6AddrGetAutoconfiguredLinkLocalAddressOfIeee154InterfaceExt ifaceState addr,
           IEEE154_ADDR_MODE_EXT))"

section \<open>Membership\<close>

text \<open>The accesses \<open>addrArrPtr[k]\<close> are \<open>buf_get\<close>: nothing but the stored length bounds them.\<close>

fun addr_in_loop :: "ipv6_addr \<Rightarrow> ipv6_addr list \<Rightarrow> nat \<Rightarrow> nat \<Rightarrow> bool option" where
  "addr_in_loop addr arr k 0 = Some False"
| "addr_in_loop addr arr k (Suc n) =
     do { a \<leftarrow> buf_get arr k;
          r \<leftarrow> whip6_shortMemCmp addr 0 a 0 16;
          if r = 0 then Some True else addr_in_loop addr arr (k + 1) n }"

definition whip6_ipv6AddrIsInArrayOfGenericInterfaceAddrs ::
  "ipv6_addr \<Rightarrow> ipv6_addr list option \<Rightarrow> u8 \<Rightarrow> bool option" where
  "whip6_ipv6AddrIsInArrayOfGenericInterfaceAddrs addr addrArrPtr addrArrLen =
     (case addrArrPtr of
        None \<Rightarrow> Some False
      | Some arr \<Rightarrow> addr_in_loop addr arr 0 (unat addrArrLen))"

definition whip6_ipv6AddrBelongsToGenericUnicastAddrListOfInterface ::
  "ipv6_net_iface_generic_state \<Rightarrow> ipv6_addr \<Rightarrow> bool option" where
  "whip6_ipv6AddrBelongsToGenericUnicastAddrListOfInterface g addr =
     whip6_ipv6AddrIsInArrayOfGenericInterfaceAddrs addr (unicastAddrArrPtr g) (unicastAddrArrLen g)"

definition whip6_ipv6AddrBelongsToGenericMulticastAddrListOfInterface ::
  "ipv6_net_iface_generic_state \<Rightarrow> ipv6_addr \<Rightarrow> bool option" where
  "whip6_ipv6AddrBelongsToGenericMulticastAddrListOfInterface g addr =
     whip6_ipv6AddrIsInArrayOfGenericInterfaceAddrs addr (multicastAddrArrPtr g) (multicastAddrArrLen g)"

definition whip6_ipv6AddrBelongsLoopbackSpecificAddrsOfInterface :: "ipv6_addr \<Rightarrow> bool" where
  "whip6_ipv6AddrBelongsLoopbackSpecificAddrsOfInterface addr = whip6_ipv6AddrIsLoopback addr"

definition whip6_ipv6AddrBelongsIeee154SpecificAddrsOfInterface ::
  "ipv6_net_iface_ieee154_state \<Rightarrow> ipv6_addr \<Rightarrow> bool" where
  "whip6_ipv6AddrBelongsIeee154SpecificAddrsOfInterface ifaceState addr =
     whip6_ipv6AddrIsAutoconfiguredLinkLocalAddressOfIeee154Interface ifaceState addr"

definition whip6_ipv6AddrBelongsToInterface :: "net_iface \<Rightarrow> ipv6_addr \<Rightarrow> bool option" where
  "whip6_ipv6AddrBelongsToInterface iface addr =
     (let g = iface_generic iface
      in do { listed \<leftarrow>
                (if addr ! 0 = 0xff
                 then if whip6_ipv6AddrIsAllNodesMulticast addr \<or> whip6_ipv6AddrIsAllRoutersMulticast addr
                      then Some True
                      else whip6_ipv6AddrBelongsToGenericMulticastAddrListOfInterface g addr
                 else whip6_ipv6AddrBelongsToGenericUnicastAddrListOfInterface g addr);
              if listed then Some True
              else if whip6_ipv6InterfaceGetType g = WHIP6_IPV6_NET_IFACE_GENERIC_STATE_TYPE_LOOPBACK
              then Some (whip6_ipv6AddrBelongsLoopbackSpecificAddrsOfInterface addr)
              else if whip6_ipv6InterfaceGetType g = WHIP6_IPV6_NET_IFACE_GENERIC_STATE_TYPE_IEEE154
              then do { s \<leftarrow> iface_ieee154 iface;
                        Some (whip6_ipv6AddrBelongsIeee154SpecificAddrsOfInterface s addr) }
              else Some False })"

section \<open>The source address for a destination\<close>

text \<open>The loop keeps the best address, its scope, and \<open>bestPrefix\<close>, which it never changes.\<close>

fun best_addr_loop ::
  "ipv6_addr \<Rightarrow> ipv6_addr list \<Rightarrow> u8 \<Rightarrow> nat \<Rightarrow> nat \<Rightarrow> ipv6_addr option \<times> u8 \<times> nat \<Rightarrow>
   (ipv6_addr option \<times> u8 \<times> nat) option" where
  "best_addr_loop inAddr arr scopeLimit k 0 best = Some best"
| "best_addr_loop inAddr arr scopeLimit k (Suc n) (bestAddr, bestScope, bestPrefix) =
     do { a \<leftarrow> buf_get arr k;
          let currScope = whip6_ipv6AddrGetScope a;
          best_addr_loop inAddr arr scopeLimit (k + 1) n
            (if currScope \<ge> scopeLimit \<and> currScope \<le> bestScope
             then if bestScope = currScope
                  then if whip6_ipv6AddrGetCommonPrefixLengthInBytes inAddr a > bestPrefix
                       then (Some a, bestScope, bestPrefix) else (bestAddr, bestScope, bestPrefix)
                  else (Some a, currScope, bestPrefix)
             else (bestAddr, bestScope, bestPrefix)) }"

definition whip6_ipv6AddrFindBestInArrayOfGenericInterfaceAddrs ::
  "ipv6_addr \<Rightarrow> ipv6_addr \<Rightarrow> ipv6_addr list option \<Rightarrow> u8 \<Rightarrow> u8 \<Rightarrow> (ipv6_addr \<times> u8) option" where
  "whip6_ipv6AddrFindBestInArrayOfGenericInterfaceAddrs inAddr outAddr addrArrPtr addrArrLen scopeLimit =
     (case addrArrPtr of
        None \<Rightarrow> Some (outAddr, IPV6_ADDRESS_SCOPE_MAX_RESERVED)
      | Some arr \<Rightarrow>
          do { (bestAddr, bestScope, bestPrefix) \<leftarrow>
                 best_addr_loop inAddr arr scopeLimit 0 (unat addrArrLen) (None, IPV6_ADDRESS_SCOPE_MAX_RESERVED, 0);
               outAddr \<leftarrow> (case bestAddr of
                            None \<Rightarrow> Some outAddr
                          | Some a \<Rightarrow> whip6_shortMemCpy a 0 outAddr 0 16);
               Some (outAddr, bestScope) })"

definition whip6_ipv6InterfaceGetBestSrcAddrForDstAddr ::
  "net_iface \<Rightarrow> ipv6_addr \<Rightarrow> ipv6_addr \<Rightarrow> (ipv6_addr \<times> bool) option" where
  "whip6_ipv6InterfaceGetBestSrcAddrForDstAddr iface srcAddr dstAddr =
     (if whip6_ipv6AddrIsUndefined dstAddr then Some (srcAddr, False)
      else
        let g = iface_generic iface;
            dstScope = whip6_ipv6AddrGetScope dstAddr
        in if dstScope = IPV6_ADDRESS_SCOPE_LINK_LOCAL \<and>
              whip6_ipv6InterfaceGetType g = WHIP6_IPV6_NET_IFACE_GENERIC_STATE_TYPE_LOOPBACK
           then Some (whip6_ipv6AddrSetLoopbackAddr srcAddr, True)
           else if dstScope = IPV6_ADDRESS_SCOPE_LINK_LOCAL \<and>
              whip6_ipv6InterfaceGetType g = WHIP6_IPV6_NET_IFACE_GENERIC_STATE_TYPE_IEEE154
           then do { s \<leftarrow> iface_ieee154 iface;
                     Some (fst (whip6_ipv6AddrGetAutoconfiguredLinkLocalAddressOfIeee154InterfaceBest s srcAddr),
                           True) }
           else
             do { (srcAddr, srcScope) \<leftarrow>
                    whip6_ipv6AddrFindBestInArrayOfGenericInterfaceAddrs dstAddr srcAddr (unicastAddrArrPtr g)
                      (unicastAddrArrLen g) dstScope;
                  Some (srcAddr, srcScope \<noteq> IPV6_ADDRESS_SCOPE_MAX_RESERVED) })"

section \<open>Associating and verifying addresses\<close>

text \<open>The returned pointer is the index of the slot.\<close>

definition whip6_ipv6InterfaceAssociateUnicastAddr ::
  "ipv6_net_iface_generic_state \<Rightarrow> u8 \<Rightarrow> (ipv6_net_iface_generic_state \<times> nat option) option" where
  "whip6_ipv6InterfaceAssociateUnicastAddr g maxAddrSlots =
     (if unicastAddrArrLen g \<ge> maxAddrSlots then Some (g, None)
      else do { arr \<leftarrow> unicastAddrArrPtr g;
                let k = unat (unicastAddrArrLen g);
                a \<leftarrow> buf_get arr k;
                a \<leftarrow> whip6_ipv6AddrSetUndefinedAddr a;
                Some (g\<lparr>unicastAddrArrLen := unicastAddrArrLen g + 1, unicastAddrArrPtr := Some (arr[k := a])\<rparr>,
                      Some k) })"

definition whip6_ipv6InterfaceAssociateMulticastAddr ::
  "ipv6_net_iface_generic_state \<Rightarrow> u8 \<Rightarrow> (ipv6_net_iface_generic_state \<times> nat option) option" where
  "whip6_ipv6InterfaceAssociateMulticastAddr g maxAddrSlots =
     (if multicastAddrArrLen g \<ge> maxAddrSlots then Some (g, None)
      else do { arr \<leftarrow> multicastAddrArrPtr g;
                let k = unat (multicastAddrArrLen g);
                a \<leftarrow> buf_get arr k;
                a \<leftarrow> whip6_ipv6AddrSetUndefinedAddr a;
                Some (g\<lparr>multicastAddrArrLen := multicastAddrArrLen g + 1, multicastAddrArrPtr := Some (arr[k := a])\<rparr>,
                      Some k) })"

text \<open>The loop of both verifications, for the addresses to keep: \<open>i\<close> is the current slot, \<open>j\<close> the
  free one, and \<open>n\<close> slots are left.\<close>

fun verify_loop :: "(ipv6_addr \<Rightarrow> bool) \<Rightarrow> ipv6_addr list \<Rightarrow> nat \<Rightarrow> nat \<Rightarrow> nat \<Rightarrow> (ipv6_addr list \<times> nat) option" where
  "verify_loop keep arr i j 0 = Some (arr, j)"
| "verify_loop keep arr i j (Suc n) =
     do { a \<leftarrow> buf_get arr i;
          if keep a
          then do { arr \<leftarrow> (if i > j
                            then do { b \<leftarrow> buf_get arr j;
                                      b \<leftarrow> whip6_shortMemCpy a 0 b 0 16;
                                      Some (arr[j := b]) }
                            else Some arr);
                    verify_loop keep arr (i + 1) (j + 1) n }
          else verify_loop keep arr (i + 1) j n }"

definition verify_array :: "(ipv6_addr \<Rightarrow> bool) \<Rightarrow> ipv6_addr list option \<Rightarrow> u8 \<Rightarrow> (ipv6_addr list option \<times> u8 \<times> u8) option" where
  "verify_array keep ptr maxAddrSlots =
     (case ptr of
        None \<Rightarrow> (if maxAddrSlots = 0 then Some (None, 0, 0) else None)
      | Some arr \<Rightarrow>
          do { (arr, j) \<leftarrow> verify_loop keep arr 0 0 (unat maxAddrSlots);
               Some (Some arr, of_nat j, maxAddrSlots - of_nat j) })"

definition whip6_ipv6InterfaceVerifyUnicastAddrs ::
  "ipv6_net_iface_generic_state \<Rightarrow> u8 \<Rightarrow> (ipv6_net_iface_generic_state \<times> u8) option" where
  "whip6_ipv6InterfaceVerifyUnicastAddrs g maxAddrSlots =
     do { (arr, j, removed) \<leftarrow>
            verify_array (\<lambda>a. \<not> whip6_ipv6AddrIsUndefined a \<and> \<not> whip6_ipv6AddrIsMulticast a)
              (unicastAddrArrPtr g) maxAddrSlots;
          Some (g\<lparr>unicastAddrArrPtr := arr, unicastAddrArrLen := j\<rparr>, removed) }"

definition whip6_ipv6InterfaceVerifyMulticastAddrs ::
  "ipv6_net_iface_generic_state \<Rightarrow> u8 \<Rightarrow> (ipv6_net_iface_generic_state \<times> u8) option" where
  "whip6_ipv6InterfaceVerifyMulticastAddrs g maxAddrSlots =
     do { (arr, j, removed) \<leftarrow>
            verify_array (\<lambda>a. \<not> whip6_ipv6AddrIsUndefined a \<and> whip6_ipv6AddrIsMulticast a)
              (multicastAddrArrPtr g) maxAddrSlots;
          Some (g\<lparr>multicastAddrArrPtr := arr, multicastAddrArrLen := j\<rparr>, removed) }"

text \<open>\<open>clearAssociatedAddresses\<close> of \<open>LoWPANIPv6InterfaceStateManagerPrv.nc\<close>.\<close>

definition clearAssociatedAddresses :: "ipv6_net_iface_generic_state \<Rightarrow> ipv6_net_iface_generic_state" where
  "clearAssociatedAddresses g = g\<lparr>unicastAddrArrLen := 0, multicastAddrArrLen := 0\<rparr>"

section \<open>Well-formed interfaces\<close>

definition addr_array_ok :: "ipv6_addr list option \<Rightarrow> u8 \<Rightarrow> bool" where
  "addr_array_ok ptr len \<longleftrightarrow>
     (case ptr of None \<Rightarrow> True | Some arr \<Rightarrow> unat len \<le> length arr \<and> (\<forall>a \<in> set arr. ipv6_addr_ok a))"

definition listed_addrs :: "ipv6_addr list option \<Rightarrow> u8 \<Rightarrow> ipv6_addr list" where
  "listed_addrs ptr len = (case ptr of None \<Rightarrow> [] | Some arr \<Rightarrow> take (unat len) arr)"

abbreviation iface_unicast :: "net_iface \<Rightarrow> ipv6_addr list" where
  "iface_unicast iface \<equiv>
     listed_addrs (unicastAddrArrPtr (iface_generic iface)) (unicastAddrArrLen (iface_generic iface))"

abbreviation iface_multicast :: "net_iface \<Rightarrow> ipv6_addr list" where
  "iface_multicast iface \<equiv>
     listed_addrs (multicastAddrArrPtr (iface_generic iface)) (multicastAddrArrLen (iface_generic iface))"

definition iface_ok :: "net_iface \<Rightarrow> bool" where
  "iface_ok iface \<longleftrightarrow>
     addr_array_ok (unicastAddrArrPtr (iface_generic iface)) (unicastAddrArrLen (iface_generic iface)) \<and>
     addr_array_ok (multicastAddrArrPtr (iface_generic iface)) (multicastAddrArrLen (iface_generic iface)) \<and>
     (case iface of
        Iface_Generic g \<Rightarrow> whip6_ipv6InterfaceGetType g \<noteq> WHIP6_IPV6_NET_IFACE_GENERIC_STATE_TYPE_IEEE154
      | Iface_Ieee154 s \<Rightarrow> length (ieee154ExtAddr s) = 8 \<and> length (ieee154ShrtAddr s) = 2 \<and>
          length (ieee154PanId s) = 2)"

lemma listed_ok: "addr_array_ok ptr len \<Longrightarrow> a \<in> set (listed_addrs ptr len) \<Longrightarrow> ipv6_addr_ok a"
  by (auto simp: addr_array_ok_def listed_addrs_def split: option.splits dest: in_set_takeD)

lemma addr_in_loop_eq:
  assumes "ipv6_addr_ok addr" "\<forall>a \<in> set arr. ipv6_addr_ok a" "k + n \<le> length arr"
  shows "addr_in_loop addr arr k n = Some (addr \<in> set (take n (drop k arr)))"
  using assms(3)
proof (induction n arbitrary: k)
  case (Suc n)
  let ?a = "arr ! k"
  have a: "ipv6_addr_ok ?a" using assms(2) Suc.prems by simp
  obtain r where r: "whip6_shortMemCmp addr 0 ?a 0 16 = Some r" "r = 0 \<longleftrightarrow> addr = ?a"
    using shortMemCmp_Some [of 0 16 addr 0 ?a] assms(1) a by (auto simp: ipv6_addr_ok_def)
  have "drop k arr = ?a # drop (Suc k) arr" using Suc.prems by (simp add: Cons_nth_drop_Suc)
  then show ?case using Suc.IH [of "k + 1"] Suc.prems r by simp
qed simp

lemma IsInArray_eq:
  assumes "ipv6_addr_ok addr" "addr_array_ok ptr len"
  shows "whip6_ipv6AddrIsInArrayOfGenericInterfaceAddrs addr ptr len = Some (addr \<in> set (listed_addrs ptr len))"
  using assms by (auto simp: whip6_ipv6AddrIsInArrayOfGenericInterfaceAddrs_def addr_array_ok_def listed_addrs_def
      addr_in_loop_eq split: option.splits)

section \<open>The link-local addresses of an interface\<close>

definition link_local_prefix :: "u8 list" where
  "link_local_prefix = [0xfe, 0x80, 0, 0, 0, 0, 0, 0]"

definition autoconf_ext :: "ipv6_net_iface_ieee154_state \<Rightarrow> ipv6_addr" where
  "autoconf_ext s = link_local_prefix @ (ieee154ExtAddr s ! 7 XOR 0x02) # rev (take 7 (ieee154ExtAddr s))"

definition autoconf_short :: "ipv6_net_iface_ieee154_state \<Rightarrow> ipv6_addr" where
  "autoconf_short s = link_local_prefix @
     [ieee154PanId s ! 1 AND NOT 0x02, ieee154PanId s ! 0, 0x00, 0xff, 0xfe, 0x00,
      ieee154ShrtAddr s ! 1, ieee154ShrtAddr s ! 0]"

definition has_short_addr :: "ipv6_net_iface_ieee154_state \<Rightarrow> bool" where
  "has_short_addr s \<longleftrightarrow>
     (ifaceFlags (genericState s) AND WHIP6_IPV6_NET_IFACE_IEEE154_STATE_FLAG_HAS_SHORT_ADDR) \<noteq> 0"

lemma autoconf_ext_loop_iff: "autoconf_ext_loop addr p ext n \<longleftrightarrow> (\<forall>i < n. addr ! (p + i) = ext ! (n - Suc i))"
proof (induction n arbitrary: p)
  case (Suc n)
  then show ?case by (simp add: All_less_Suc2)
qed simp

lemma IsAutoconfigured_iff:
  assumes "ipv6_addr_ok addr" "length (ieee154ExtAddr s) = 8"
  shows "whip6_ipv6AddrIsAutoconfiguredLinkLocalAddressOfIeee154Interface s addr \<longleftrightarrow>
    addr = autoconf_ext s \<or> has_short_addr s \<and> addr = autoconf_short s"
proof (cases "take 8 addr = link_local_prefix")
  case False
  then have "\<not> whip6_ipv6AddrIsLinkLocal addr" using IsLinkLocal_iff [OF assms(1)] by (simp add: link_local_prefix_def)
  moreover have "addr \<noteq> link_local_prefix @ xs" if "length xs = 8" for xs
    using False by (auto simp: link_local_prefix_def)
  ultimately show ?thesis using assms(2) False
    by (auto simp: whip6_ipv6AddrIsAutoconfiguredLinkLocalAddressOfIeee154Interface_def autoconf_ext_def
        autoconf_short_def link_local_prefix_def)
next
  case True
  then have ll: "whip6_ipv6AddrIsLinkLocal addr" using IsLinkLocal_iff [OF assms(1)] by (simp add: link_local_prefix_def)
  have l: "length (drop 8 addr) = 8" using assms(1) by (simp add: ipv6_addr_ok_def)
  obtain s0 s1 s2 s3 s4 s5 s6 s7 where d: "drop 8 addr = [s0, s1, s2, s3, s4, s5, s6, s7]" using list8_cases [OF l] .
  obtain e0 e1 e2 e3 e4 e5 e6 e7 where e: "ieee154ExtAddr s = [e0, e1, e2, e3, e4, e5, e6, e7]"
    using list8_cases [OF assms(2)] .
  have a: "addr = link_local_prefix @ [s0, s1, s2, s3, s4, s5, s6, s7]" using True d append_take_drop_id [of 8 addr] by simp
  have *: "(\<forall>i < (7::nat). P i) \<longleftrightarrow> P 0 \<and> P 1 \<and> P 2 \<and> P 3 \<and> P 4 \<and> P 5 \<and> P 6" for P
    by (simp add: eval_nat_numeral All_less_Suc2)
  have x: "autoconf_short_not_equal s addr \<longleftrightarrow> addr = autoconf_ext s"
    by (auto simp: autoconf_short_not_equal_def autoconf_ext_loop_iff a e autoconf_ext_def link_local_prefix_def *)
  have y: "whip6_ipv6AddrIsAutoconfiguredLinkLocalAddressOfIeee154Interface s addr \<longleftrightarrow>
      autoconf_short_not_equal s addr \<or> has_short_addr s \<and> addr = autoconf_short s"
    using ll by (auto simp: whip6_ipv6AddrIsAutoconfiguredLinkLocalAddressOfIeee154Interface_def has_short_addr_def
        autoconf_short_def a link_local_prefix_def Let_def)
  show ?thesis unfolding y x ..
qed

lemma GetAutoconfigured_eq:
  assumes "ipv6_addr_ok addr" "length (ieee154ExtAddr s) = 8"
  shows "whip6_ipv6AddrGetAutoconfiguredLinkLocalAddressOfIeee154InterfaceBest s addr =
    (if has_short_addr s then (autoconf_short s, IEEE154_ADDR_MODE_SHORT) else (autoconf_ext s, IEEE154_ADDR_MODE_EXT))"
proof -
  let ?p = "whip6_ipv6AddrSetLinkLocalPrefix addr"
  have p: "ipv6_addr_ok ?p" by (rule addr_setters_ok(1) [OF assms(1)])
  have t: "take 8 ?p = link_local_prefix" by (simp add: SetLinkLocalPrefix_eq [OF assms(1)] link_local_prefix_def)
  show ?thesis
    by (simp add: whip6_ipv6AddrGetAutoconfiguredLinkLocalAddressOfIeee154InterfaceBest_def has_short_addr_def
        whip6_ipv6AddrGetAutoconfiguredLinkLocalAddressOfIeee154InterfaceShrt_def
        whip6_ipv6AddrGetAutoconfiguredLinkLocalAddressOfIeee154InterfaceExt_def
        FillShort_eq [OF p] FillExt_eq [OF p assms(2)] t autoconf_ext_def autoconf_short_def)
qed

section \<open>Membership, in closed form\<close>

lemma BelongsToInterface_unicast:
  assumes "iface_ok iface" "ipv6_addr_ok addr" "addr ! 0 \<noteq> 0xff"
  shows "whip6_ipv6AddrBelongsToInterface iface addr = Some
    (addr \<in> set (iface_unicast iface) \<or>
     whip6_ipv6InterfaceGetType (iface_generic iface) = WHIP6_IPV6_NET_IFACE_GENERIC_STATE_TYPE_LOOPBACK \<and>
       addr = replicate 15 0 @ [1] \<or>
     (\<exists>s. iface = Iface_Ieee154 s \<and>
       whip6_ipv6InterfaceGetType (iface_generic iface) = WHIP6_IPV6_NET_IFACE_GENERIC_STATE_TYPE_IEEE154 \<and>
       (addr = autoconf_ext s \<or> has_short_addr s \<and> addr = autoconf_short s)))"
proof -
  have u: "whip6_ipv6AddrBelongsToGenericUnicastAddrListOfInterface (iface_generic iface) addr =
      Some (addr \<in> set (iface_unicast iface))"
    using assms(1,2) by (simp add: whip6_ipv6AddrBelongsToGenericUnicastAddrListOfInterface_def IsInArray_eq iface_ok_def)
  show ?thesis using assms u
    by (cases iface) (auto simp: whip6_ipv6AddrBelongsToInterface_def iface_ok_def Let_def IsLoopback_iff
        whip6_ipv6AddrBelongsLoopbackSpecificAddrsOfInterface_def IsAutoconfigured_iff iface_constants
        whip6_ipv6AddrBelongsIeee154SpecificAddrsOfInterface_def)
qed

section \<open>The best address\<close>

definition best_addr_step ::
  "ipv6_addr \<Rightarrow> u8 \<Rightarrow> ipv6_addr \<Rightarrow> ipv6_addr option \<times> u8 \<times> nat \<Rightarrow> ipv6_addr option \<times> u8 \<times> nat" where
  "best_addr_step inAddr scopeLimit a = (\<lambda>(bestAddr, bestScope, bestPrefix).
     let s = whip6_ipv6AddrGetScope a
     in if s \<ge> scopeLimit \<and> s \<le> bestScope
        then if bestScope = s
             then (if whip6_ipv6AddrGetCommonPrefixLengthInBytes inAddr a > bestPrefix then Some a else bestAddr,
                   bestScope, bestPrefix)
             else (Some a, s, bestPrefix)
        else (bestAddr, bestScope, bestPrefix))"

lemma best_addr_loop_fold:
  "k + n \<le> length arr \<Longrightarrow>
   best_addr_loop inAddr arr lim k n best = Some (fold (best_addr_step inAddr lim) (take n (drop k arr)) best)"
proof (induction n arbitrary: k best)
  case (Suc n)
  obtain ba bs bp where b: "best = (ba, bs, bp)" by (cases best)
  have d: "drop k arr = arr ! k # drop (Suc k) arr" using Suc.prems by (simp add: Cons_nth_drop_Suc)
  show ?case using Suc.IH [of "k + 1"] Suc.prems
    by (simp add: b d best_addr_step_def Let_def)
qed simp

text \<open>What the loop keeps: the scope is the least adequate one so far, and the address has it.\<close>

definition best_so_far :: "u8 \<Rightarrow> ipv6_addr list \<Rightarrow> ipv6_addr option \<times> u8 \<times> nat \<Rightarrow> bool" where
  "best_so_far lim xs = (\<lambda>(bestAddr, bestScope, bestPrefix).
     case bestAddr of
       None \<Rightarrow> bestScope = IPV6_ADDRESS_SCOPE_MAX_RESERVED \<and> (\<forall>a \<in> set xs. \<not> whip6_ipv6AddrGetScope a \<ge> lim)
     | Some b \<Rightarrow> b \<in> set xs \<and> whip6_ipv6AddrGetScope b = bestScope \<and> lim \<le> bestScope \<and>
         bestScope \<noteq> IPV6_ADDRESS_SCOPE_MAX_RESERVED \<and>
         (\<forall>a \<in> set xs. whip6_ipv6AddrGetScope a \<ge> lim \<longrightarrow> bestScope \<le> whip6_ipv6AddrGetScope a))"

lemma unicast_scope:
  "\<not> whip6_ipv6AddrIsMulticast a \<Longrightarrow> whip6_ipv6AddrGetScope a < IPV6_ADDRESS_SCOPE_MAX_RESERVED"
  by (auto simp: whip6_ipv6AddrGetScope_def ipv6_addr_constants word_less_nat_alt)

lemma best_so_far_step:
  assumes "best_so_far lim xs best" "\<not> whip6_ipv6AddrIsMulticast a"
  shows "best_so_far lim (xs @ [a]) (best_addr_step inAddr lim a best)"
proof -
  obtain ba bs bp where b: "best = (ba, bs, bp)" by (cases best)
  have s: "whip6_ipv6AddrGetScope a < IPV6_ADDRESS_SCOPE_MAX_RESERVED" by (rule unicast_scope [OF assms(2)])
  show ?thesis
  proof (cases ba)
    case None
    then show ?thesis using assms(1) s by (auto simp: b best_so_far_def best_addr_step_def Let_def)
  next
    case (Some c)
    let ?s = "whip6_ipv6AddrGetScope a"
    have c: "c \<in> set xs" "whip6_ipv6AddrGetScope c = bs" "lim \<le> bs" "bs \<noteq> IPV6_ADDRESS_SCOPE_MAX_RESERVED"
      and m: "\<And>x. x \<in> set xs \<Longrightarrow> lim \<le> whip6_ipv6AddrGetScope x \<Longrightarrow> bs \<le> whip6_ipv6AddrGetScope x"
      using assms(1) Some by (auto simp: b best_so_far_def)
    consider "lim \<le> ?s" "bs = ?s" | "lim \<le> ?s" "?s < bs" | "\<not> lim \<le> ?s" | "bs < ?s"
      by (metis not_less_iff_gr_or_eq)
    then show ?thesis
    proof cases
      case 2
      have "?s \<le> whip6_ipv6AddrGetScope x" if "x \<in> set xs" "lim \<le> whip6_ipv6AddrGetScope x" for x
        using m [OF that] 2(2) by order
      moreover have "?s \<le> bs" "bs \<noteq> ?s" "?s \<noteq> IPV6_ADDRESS_SCOPE_MAX_RESERVED" using 2 s by auto
      ultimately show ?thesis using 2(1) by (simp add: b best_so_far_def best_addr_step_def Let_def)
    qed (use c m Some in \<open>auto simp: b best_so_far_def best_addr_step_def Let_def\<close>)
  qed
qed

lemma best_so_far_fold:
  "best_so_far lim ys best \<Longrightarrow> \<forall>a \<in> set xs. \<not> whip6_ipv6AddrIsMulticast a \<Longrightarrow>
   best_so_far lim (ys @ xs) (fold (best_addr_step inAddr lim) xs best)"
proof (induction xs arbitrary: ys best)
  case (Cons a xs)
  then show ?case using Cons.IH [of "ys @ [a]" "best_addr_step inAddr lim a best"] best_so_far_step [OF Cons.prems(1)]
    by simp
qed simp

lemma FindBest:
  assumes "addr_array_ok ptr len" "ipv6_addr_ok out" "\<forall>a \<in> set (listed_addrs ptr len). \<not> whip6_ipv6AddrIsMulticast a"
  obtains best where "best_so_far lim (listed_addrs ptr len) best"
    "whip6_ipv6AddrFindBestInArrayOfGenericInterfaceAddrs inAddr out ptr len lim =
       Some (case fst best of None \<Rightarrow> out | Some a \<Rightarrow> a, fst (snd best))"
proof (cases ptr)
  case None
  show ?thesis
    by (rule that [of "(None, IPV6_ADDRESS_SCOPE_MAX_RESERVED, 0)"])
      (simp_all add: None best_so_far_def listed_addrs_def whip6_ipv6AddrFindBestInArrayOfGenericInterfaceAddrs_def)
next
  case (Some arr)
  let ?xs = "listed_addrs ptr len"
  define best where "best = fold (best_addr_step inAddr lim) ?xs (None, IPV6_ADDRESS_SCOPE_MAX_RESERVED, 0)"
  have xs: "?xs = take (unat len) arr" and l: "unat len \<le> length arr"
    using Some assms(1) by (simp_all add: listed_addrs_def addr_array_ok_def)
  have inv: "best_so_far lim ?xs best"
    using best_so_far_fold [of lim "[]" "(None, IPV6_ADDRESS_SCOPE_MAX_RESERVED, 0)" ?xs inAddr] assms(3)
    by (simp add: best_so_far_def best_def)
  obtain ba bs bp where b: "best = (ba, bs, bp)" by (cases best)
  have loop: "best_addr_loop inAddr arr lim 0 (unat len) (None, IPV6_ADDRESS_SCOPE_MAX_RESERVED, 0) = Some (ba, bs, bp)"
    using best_addr_loop_fold [of 0 "unat len" arr inAddr lim] l b unfolding best_def xs by simp
  have cpy: "whip6_shortMemCpy a 0 out 0 16 = Some a" if "ipv6_addr_ok a" for a
    using that assms(2) by (simp add: shortMemCpy_eq ipv6_addr_ok_def mem_blit_def)
  have ok: "ba = Some a \<Longrightarrow> ipv6_addr_ok a" for a
    using inv listed_ok [OF assms(1), of a] by (simp add: b best_so_far_def)
  show ?thesis
    by (rule that [OF inv]) (use loop cpy ok in
      \<open>auto simp: whip6_ipv6AddrFindBestInArrayOfGenericInterfaceAddrs_def Some b split: option.splits\<close>)
qed


text \<open>An interface with a global and a unique local address, and a global destination.\<close>

definition ex_global_addr :: ipv6_addr where
  "ex_global_addr = [0x20, 1, 0xd, 0xb8, 0, 0, 0, 0, 0, 0, 0, 0, 0, 0, 0, 1]"

definition ex_local_addr :: ipv6_addr where
  "ex_local_addr = [0xfc, 0, 0, 0, 0, 0, 0, 0, 0, 0, 0, 0, 0, 0, 0, 1]"

definition ex_iface :: net_iface where
  "ex_iface = Iface_Ieee154 \<lparr>genericState = \<lparr>ifaceNext = None, ifacePrev = None, indexAndType = 0x11, ifaceFlags = 0x80,
     unicastAddrArrLen = 2, multicastAddrArrLen = 0,
     unicastAddrArrPtr = Some [ex_local_addr, ex_global_addr], multicastAddrArrPtr = None\<rparr>,
     ieee154ExtAddr = [1, 2, 3, 4, 5, 6, 7, 8], ieee154ShrtAddr = [0, 0], ieee154PanId = [0x34, 0x12]\<rparr>"

lemma ex_iface_facts:
  "iface_ok ex_iface" "iface_unicast ex_iface = [ex_local_addr, ex_global_addr]"
  "whip6_ipv6InterfaceGetType (iface_generic ex_iface) = WHIP6_IPV6_NET_IFACE_GENERIC_STATE_TYPE_IEEE154"
  by (simp_all add: ex_iface_def iface_ok_def addr_array_ok_def listed_addrs_def ex_global_addr_def
      ex_local_addr_def ipv6_addr_ok_def whip6_ipv6InterfaceGetType_def iface_constants)

lemma ex_addr_facts:
  "ipv6_addr_ok ex_global_addr" "ipv6_addr_ok ex_local_addr"
  "\<not> whip6_ipv6AddrIsMulticast ex_global_addr" "\<not> whip6_ipv6AddrIsMulticast ex_local_addr"
  "\<not> whip6_ipv6AddrIsUndefined ex_global_addr"
  "whip6_ipv6AddrGetScope ex_global_addr = IPV6_ADDRESS_SCOPE_GLOBAL"
  "whip6_ipv6AddrGetScope ex_local_addr = IPV6_ADDRESS_SCOPE_SITE_LOCAL"
  by (code_simp)+


text \<open>Among addresses of one scope the code keeps the last one that shares a byte with the destination,
  whatever the length of the prefix it shares.\<close>

lemma best_prefix_not_longest:
  assumes "whip6_ipv6AddrGetScope a = s" "whip6_ipv6AddrGetScope b = s" "lim \<le> s" "s < IPV6_ADDRESS_SCOPE_MAX_RESERVED"
    "0 < whip6_ipv6AddrGetCommonPrefixLengthInBytes dst b"
  shows "best_addr_loop dst [a, b] lim 0 2 (None, IPV6_ADDRESS_SCOPE_MAX_RESERVED, 0) = Some (Some b, s, 0)"
  using assms best_addr_loop_fold [of 0 2 "[a, b]" dst lim] by (auto simp: best_addr_step_def Let_def)

section \<open>Verification of the addresses\<close>

lemma verify_loop_spec:
  fixes keep :: "ipv6_addr \<Rightarrow> bool"
  assumes "j \<le> i" "i + n \<le> length arr" "\<forall>a \<in> set arr. ipv6_addr_ok a"
  defines "kept \<equiv> filter keep (take n (drop i arr))"
  shows "\<exists>arr'. verify_loop keep arr i j n = Some (arr', j + length kept) \<and> length arr' = length arr \<and>
    take (j + length kept) arr' = take j arr @ kept \<and> drop (i + n) arr' = drop (i + n) arr \<and>
    (\<forall>a \<in> set arr'. ipv6_addr_ok a)"
  using assms(1-3) unfolding kept_def
proof (induction n arbitrary: arr i j)
  case 0
  then show ?case by simp
next
  case (Suc n)
  let ?a = "arr ! i"
  have i: "i < length arr" using Suc.prems by simp
  have d: "drop i arr = ?a # drop (Suc i) arr" using i by (simp add: Cons_nth_drop_Suc)
  show ?case
  proof (cases "keep ?a")
    case False
    then show ?thesis using Suc.IH [of j "i + 1" arr] Suc.prems i by (simp add: d)
  next
    case True
    let ?arr = "if i > j then arr[j := ?a] else arr"
    have cpy: "whip6_shortMemCpy ?a 0 (arr ! j) 0 16 = Some ?a"
      using Suc.prems by (simp add: shortMemCpy_eq ipv6_addr_ok_def mem_blit_def)
    have v: "verify_loop keep arr i j (Suc n) = verify_loop keep ?arr (i + 1) (j + 1) n"
      using True i Suc.prems cpy by simp
    have j: "?arr ! j = ?a" "length ?arr = length arr" "take j ?arr = take j arr" "drop (Suc i) ?arr = drop (Suc i) arr"
      using Suc.prems i by auto
    have t: "take (Suc j) ?arr = take j arr @ [?a]"
      using j Suc.prems i by (simp add: take_Suc_conv_app_nth del: take_update_swap)
    have ok: "\<forall>a \<in> set ?arr. ipv6_addr_ok a" using Suc.prems i by (auto dest: set_update_subset_insert [THEN subsetD])
    obtain arr' where r: "verify_loop keep ?arr (i + 1) (j + 1) n =
        Some (arr', j + 1 + length (filter keep (take n (drop (i + 1) ?arr))))" "length arr' = length ?arr"
      "take (j + 1 + length (filter keep (take n (drop (i + 1) ?arr)))) arr' =
         take (j + 1) ?arr @ filter keep (take n (drop (i + 1) ?arr))"
      "drop (i + 1 + n) arr' = drop (i + 1 + n) ?arr" "\<forall>a \<in> set arr'. ipv6_addr_ok a"
      using Suc.IH [of "j + 1" "i + 1" ?arr] Suc.prems j(2) ok by (metis add_le_mono1 add_Suc_right Suc_eq_plus1 add_Suc)
    have e: "drop (i + 1 + n) ?arr = drop (i + 1 + n) arr" using Suc.prems by auto
    show ?thesis unfolding v d using r True j t e
      by (intro exI [of _ arr']) (simp add: add.commute [of n])
  qed
qed

lemma verify_array_spec:
  fixes keep :: "ipv6_addr \<Rightarrow> bool"
  assumes "unat maxAddrSlots \<le> length arr" "\<forall>a \<in> set arr. ipv6_addr_ok a"
  defines "kept \<equiv> filter keep (take (unat maxAddrSlots) arr)"
  obtains arr' where "verify_array keep (Some arr) maxAddrSlots =
      Some (Some arr', of_nat (length kept), maxAddrSlots - of_nat (length kept))"
    "length arr' = length arr" "\<forall>a \<in> set arr'. ipv6_addr_ok a" "take (length kept) arr' = kept"
    "unat (of_nat (length kept) :: u8) = length kept"
proof -
  obtain arr' where "verify_loop keep arr 0 0 (unat maxAddrSlots) = Some (arr', length kept)" "length arr' = length arr"
    "take (length kept) arr' = kept" "\<forall>a \<in> set arr'. ipv6_addr_ok a"
    using verify_loop_spec [of 0 0 "unat maxAddrSlots" arr keep] assms by auto
  moreover have "length kept \<le> unat maxAddrSlots" unfolding kept_def by (rule le_trans [OF length_filter_le]) simp
  then have "length kept < 256" using unat_u8_less [of maxAddrSlots] by linarith
  ultimately show ?thesis by (intro that) (auto simp: verify_array_def unat_u8_of_nat)
qed

text \<open>Verification goes through all slots that it is given. The number of addresses that were listed before plays no
  part: clearing the list of addresses first does not keep the old ones from coming back.\<close>

lemma verify_unicast_slots:
  assumes "unicastAddrArrPtr g = Some arr" "unat maxAddrSlots \<le> length arr" "\<forall>a \<in> set arr. ipv6_addr_ok a"
  defines "kept \<equiv> filter (\<lambda>a. \<not> whip6_ipv6AddrIsUndefined a \<and> \<not> whip6_ipv6AddrIsMulticast a)
      (take (unat maxAddrSlots) arr)"
  shows "\<exists>g' removed. whip6_ipv6InterfaceVerifyUnicastAddrs g maxAddrSlots = Some (g', removed) \<and>
    listed_addrs (unicastAddrArrPtr g') (unicastAddrArrLen g') = kept \<and>
    addr_array_ok (unicastAddrArrPtr g') (unicastAddrArrLen g') \<and>
    unat removed = unat maxAddrSlots - length kept \<and>
    (\<exists>g''. whip6_ipv6InterfaceVerifyUnicastAddrs (clearAssociatedAddresses g) maxAddrSlots = Some (g'', removed) \<and>
      listed_addrs (unicastAddrArrPtr g'') (unicastAddrArrLen g'') = kept)"
proof -
  let ?keep = "\<lambda>a. \<not> whip6_ipv6AddrIsUndefined a \<and> \<not> whip6_ipv6AddrIsMulticast a"
  obtain arr' where v: "verify_array ?keep (Some arr) maxAddrSlots =
      Some (Some arr', of_nat (length kept), maxAddrSlots - of_nat (length kept))"
    "length arr' = length arr" "\<forall>a \<in> set arr'. ipv6_addr_ok a" "take (length kept) arr' = kept"
    "unat (of_nat (length kept) :: u8) = length kept"
    using verify_array_spec [OF assms(2,3), of ?keep] unfolding kept_def by blast
  have k: "length kept \<le> unat maxAddrSlots" unfolding kept_def by (rule le_trans [OF length_filter_le]) simp
  then have r: "unat (maxAddrSlots - of_nat (length kept)) = unat maxAddrSlots - length kept"
    using v(5) by (simp add: unat_sub word_le_nat_alt)
  show ?thesis using v k r assms(1,2)
    by (simp add: whip6_ipv6InterfaceVerifyUnicastAddrs_def clearAssociatedAddresses_def listed_addrs_def
        addr_array_ok_def)
qed

text \<open>C26: Verifying the unicast addresses of an interface all of whose slots are in use: afterwards exactly the valid ones of the
  listed addresses are listed, in their order and one after the other, so that none is undefined or multicast; the number
  returned is that of the addresses that have been removed.\<close>

theorem verify_unicast_addresses:
  assumes "addr_array_ok (unicastAddrArrPtr g) (unicastAddrArrLen g)" "unicastAddrArrPtr g \<noteq> None"
  shows "\<exists>g' removed. whip6_ipv6InterfaceVerifyUnicastAddrs g (unicastAddrArrLen g) = Some (g', removed) \<and>
    listed_addrs (unicastAddrArrPtr g') (unicastAddrArrLen g') =
      filter (\<lambda>a. a \<noteq> replicate 16 0 \<and> a ! 0 \<noteq> 0xff) (listed_addrs (unicastAddrArrPtr g) (unicastAddrArrLen g)) \<and>
    addr_array_ok (unicastAddrArrPtr g') (unicastAddrArrLen g') \<and>
    unat removed = length (filter (\<lambda>a. a = replicate 16 0 \<or> a ! 0 = 0xff) (listed_addrs (unicastAddrArrPtr g) (unicastAddrArrLen g)))"
proof -
  obtain arr where arr: "unicastAddrArrPtr g = Some arr" using assms(2) by auto
  let ?xs = "listed_addrs (unicastAddrArrPtr g) (unicastAddrArrLen g)"
  have len: "unat (unicastAddrArrLen g) \<le> length arr" "\<forall>a \<in> set arr. ipv6_addr_ok a"
    using assms(1) arr by (simp_all add: addr_array_ok_def)
  have xs: "?xs = take (unat (unicastAddrArrLen g)) arr" by (simp add: listed_addrs_def arr)
  have ok: "ipv6_addr_ok a" if "a \<in> set ?xs" for a using that len(2) by (auto simp: xs dest: in_set_takeD)
  have f: "filter (\<lambda>a. \<not> whip6_ipv6AddrIsUndefined a \<and> \<not> whip6_ipv6AddrIsMulticast a) ?xs =
      filter (\<lambda>a. a \<noteq> replicate 16 0 \<and> a ! 0 \<noteq> 0xff) ?xs"
    using ok by (intro filter_cong) (auto simp: IsUndefined_iff whip6_ipv6AddrIsMulticast_def)
  have "length (filter (\<lambda>a. a \<noteq> replicate 16 0 \<and> a ! 0 \<noteq> 0xff) ?xs) +
      length (filter (\<lambda>a. a = replicate 16 0 \<or> a ! 0 = 0xff) ?xs) = length ?xs"
    using sum_length_filter_compl [of "\<lambda>a. a \<noteq> replicate 16 0 \<and> a ! 0 \<noteq> 0xff" ?xs] by simp
  moreover have "length ?xs = unat (unicastAddrArrLen g)" using len(1) by (simp add: xs)
  ultimately show ?thesis
    using verify_unicast_slots [OF arr len] unfolding xs [symmetric] f by fastforce
qed

theorem verify_unicast_addresses_witness:
  "\<exists>g' removed. whip6_ipv6InterfaceVerifyUnicastAddrs ((iface_generic ex_iface)\<lparr>unicastAddrArrLen := 3,
       unicastAddrArrPtr := Some [ex_local_addr, replicate 16 0, ex_global_addr]\<rparr>) 3 = Some (g', removed) \<and>
     listed_addrs (unicastAddrArrPtr g') (unicastAddrArrLen g') = [ex_local_addr, ex_global_addr] \<and> unat removed = 1"
proof -
  let ?g = "(iface_generic ex_iface)\<lparr>unicastAddrArrLen := 3,
       unicastAddrArrPtr := Some [ex_local_addr, replicate 16 0, ex_global_addr]\<rparr>"
  have a: "addr_array_ok (unicastAddrArrPtr ?g) (unicastAddrArrLen ?g)" "unicastAddrArrPtr ?g \<noteq> None"
    by (simp_all add: addr_array_ok_def ex_local_addr_def ex_global_addr_def ipv6_addr_ok_def)
  have l: "listed_addrs (unicastAddrArrPtr ?g) (unicastAddrArrLen ?g) = [ex_local_addr, replicate 16 0, ex_global_addr]"
    by (simp add: listed_addrs_def)
  have n: "ex_local_addr \<noteq> replicate 16 0" "ex_local_addr ! 0 \<noteq> 0xff" "ex_global_addr \<noteq> replicate 16 0" "ex_global_addr ! 0 \<noteq> 0xff"
    by (simp_all add: ex_local_addr_def ex_global_addr_def) code_simp+
  from verify_unicast_addresses [OF a] show ?thesis unfolding l by (elim ex_forward conjE) (simp add: n)
qed

end
