(* ===== verification/Lowpan_LinkQuality.thy ===== *)
theory Lowpan_LinkQuality
  imports Base_Etx Ieee154_Address
begin

text \<open>
  A link of the 6LoWPAN link table and its quality: the structures of
  \<open>microc/include/6lowpan/uc6LoWPANMeshTypes.h\<close> and the first part of
  \<open>microc/src/6lowpan/uc6LoWPANMeshManipulation.c\<close>.

  The reception rate and the transmission count are exponentially weighted averages of new
  estimates, computed in the next wider integer type. The lemmas show that these types are wide
  enough, so that an average lies between the two values it is taken of.
\<close>

section \<open>The structures\<close>

record lowpan_link_mac_state =
  lastBeaconTimestamp :: u32
  lastBeaconRandState :: u32
  driftCompensation :: u16
  driftBeaconTimestamp :: u32
  driftBeaconRandState :: u32

record lowpan_link_quality_data =
  etx :: u16
  lastBeaconSeqNo :: u8
  numReceivedBeacons :: u8
  numMissedBeacons :: u8
  numAckedUnicasts :: u8
  numUnackedUnicasts :: u8
  inPrr :: u8

record lowpan_link =
  extAddr :: "u8 list"
  shrtAddr :: "u8 list"
  linkIdx :: u8
  linkFlags :: u8
  quality :: lowpan_link_quality_data
  mac :: lowpan_link_mac_state
  nextExtAddrIdx :: u8
  nextShrtAddrIdx :: u8

definition WHIP6_6LOWPAN_MAC_EMPTY_TIMESTAMP :: u32 where "WHIP6_6LOWPAN_MAC_EMPTY_TIMESTAMP = 42"
definition WHIP6_6LOWPAN_MAC_NO_COMPENSATION_DATA :: u16 where "WHIP6_6LOWPAN_MAC_NO_COMPENSATION_DATA = 0x7FFF"
definition WHIP6_6LOWPAN_INVALID_LINK_IDX :: u8 where "WHIP6_6LOWPAN_INVALID_LINK_IDX = 0xff"
definition WHIP6_6LOWPAN_LINK_FLAG_HAS_EXT_ADDR :: u8 where "WHIP6_6LOWPAN_LINK_FLAG_HAS_EXT_ADDR = push_bit 7 1"
definition WHIP6_6LOWPAN_LINK_FLAG_HAS_SHORT_ADDR :: u8 where "WHIP6_6LOWPAN_LINK_FLAG_HAS_SHORT_ADDR = push_bit 6 1"
definition WHIP6_6LOWPAN_LINK_FLAG_INIT :: u8 where "WHIP6_6LOWPAN_LINK_FLAG_INIT = push_bit 5 1"
definition WHIP6_6LOWPAN_LINK_FLAG_REFRESHED :: u8 where "WHIP6_6LOWPAN_LINK_FLAG_REFRESHED = push_bit 4 1"
definition WHIP6_6LOWPAN_LINK_FLAG_RECLAIMABLE :: u8 where "WHIP6_6LOWPAN_LINK_FLAG_RECLAIMABLE = push_bit 3 1"
definition WHIP6_6LOWPAN_LINK_FLAG_PINNED :: u8 where "WHIP6_6LOWPAN_LINK_FLAG_PINNED = push_bit 1 1"

definition WHIP6_MAX_NUM_MISSED_BROADCASTS_BEFORE_LINK_RESET :: u8 where
  "WHIP6_MAX_NUM_MISSED_BROADCASTS_BEFORE_LINK_RESET = 10"
definition WHIP6_MAX_NUM_UNACKED_UNICASTS_BEFORE_LINK_RESET :: u8 where
  "WHIP6_MAX_NUM_UNACKED_UNICASTS_BEFORE_LINK_RESET = 30"
definition WHIP6_MIN_NUM_BROADCASTS_BEFORE_LINK_QUALITY_RECOMPUTATION :: u8 where
  "WHIP6_MIN_NUM_BROADCASTS_BEFORE_LINK_QUALITY_RECOMPUTATION = 2"
definition WHIP6_MIN_NUM_UNICASTS_BEFORE_LINK_QUALITY_RECOMPUTATION :: u8 where
  "WHIP6_MIN_NUM_UNICASTS_BEFORE_LINK_QUALITY_RECOMPUTATION = 8"
definition WHIP6_LINK_PRR_EWMA_COEFFICIENT_NUMERATOR :: u16 where
  "WHIP6_LINK_PRR_EWMA_COEFFICIENT_NUMERATOR = 13"
definition WHIP6_LINK_PRR_EWMA_COEFFICIENT_DENOMINATOR :: u16 where
  "WHIP6_LINK_PRR_EWMA_COEFFICIENT_DENOMINATOR = 16"
definition WHIP6_LINK_ETX_EWMA_COEFFICIENT_NUMERATOR :: u32 where
  "WHIP6_LINK_ETX_EWMA_COEFFICIENT_NUMERATOR = 14"
definition WHIP6_LINK_ETX_EWMA_COEFFICIENT_DENOMINATOR :: u32 where
  "WHIP6_LINK_ETX_EWMA_COEFFICIENT_DENOMINATOR = 16"
definition WHIP6_LINK_INITAL_LINK_ETX :: u16 where
  "WHIP6_LINK_INITAL_LINK_ETX = (WHIP6_ETX_METRIC_ONE * 4) div 2"

lemmas link_constants = WHIP6_6LOWPAN_INVALID_LINK_IDX_def WHIP6_6LOWPAN_LINK_FLAG_HAS_EXT_ADDR_def
  WHIP6_6LOWPAN_LINK_FLAG_HAS_SHORT_ADDR_def WHIP6_6LOWPAN_LINK_FLAG_INIT_def
  WHIP6_6LOWPAN_LINK_FLAG_REFRESHED_def WHIP6_6LOWPAN_LINK_FLAG_RECLAIMABLE_def
  WHIP6_6LOWPAN_LINK_FLAG_PINNED_def

lemmas quality_constants = WHIP6_MAX_NUM_MISSED_BROADCASTS_BEFORE_LINK_RESET_def
  WHIP6_MAX_NUM_UNACKED_UNICASTS_BEFORE_LINK_RESET_def
  WHIP6_MIN_NUM_BROADCASTS_BEFORE_LINK_QUALITY_RECOMPUTATION_def
  WHIP6_MIN_NUM_UNICASTS_BEFORE_LINK_QUALITY_RECOMPUTATION_def
  WHIP6_LINK_PRR_EWMA_COEFFICIENT_NUMERATOR_def WHIP6_LINK_PRR_EWMA_COEFFICIENT_DENOMINATOR_def
  WHIP6_LINK_ETX_EWMA_COEFFICIENT_NUMERATOR_def WHIP6_LINK_ETX_EWMA_COEFFICIENT_DENOMINATOR_def
  WHIP6_LINK_INITAL_LINK_ETX_def

section \<open>Averages\<close>

definition whip6_lowpanMeshLinkTableComputePrrFromNumMessages :: "u8 \<Rightarrow> u8 \<Rightarrow> u8" where
  "whip6_lowpanMeshLinkTableComputePrrFromNumMessages numRecv numTotal =
     (let prr2 = ucast (WHIP6_PRR_METRIC_ONE - WHIP6_PRR_METRIC_ZERO) :: u16;
          prr2 = prr2 * ucast numRecv;
          prr2 = prr2 div ucast numTotal
      in ucast prr2 + WHIP6_PRR_METRIC_ZERO)"

definition whip6_lowpanMeshLinkTableIntegratePrrWithEwma :: "u8 \<Rightarrow> u8 \<Rightarrow> u8" where
  "whip6_lowpanMeshLinkTableIntegratePrrWithEwma oldPrr newPrr =
     (let oldPrrScaled = ucast (oldPrr - WHIP6_PRR_METRIC_ZERO) :: u16;
          oldPrrScaled = oldPrrScaled * WHIP6_LINK_PRR_EWMA_COEFFICIENT_NUMERATOR;
          newPrrScaled = ucast (newPrr - WHIP6_PRR_METRIC_ZERO) :: u16;
          newPrrScaled = newPrrScaled *
            (WHIP6_LINK_PRR_EWMA_COEFFICIENT_DENOMINATOR - WHIP6_LINK_PRR_EWMA_COEFFICIENT_NUMERATOR);
          newPrrScaled = newPrrScaled + oldPrrScaled;
          newPrrScaled = newPrrScaled div WHIP6_LINK_PRR_EWMA_COEFFICIENT_DENOMINATOR
      in ucast newPrrScaled + WHIP6_PRR_METRIC_ZERO)"

definition whip6_lowpanMeshLinkTableIntegrateEtxWithEwma :: "u16 \<Rightarrow> u16 \<Rightarrow> u16" where
  "whip6_lowpanMeshLinkTableIntegrateEtxWithEwma oldEtx newEtx =
     (let oldEtxScaled = ucast oldEtx :: u32;
          oldEtxScaled = oldEtxScaled * WHIP6_LINK_ETX_EWMA_COEFFICIENT_NUMERATOR;
          newEtxScaled = ucast newEtx :: u32;
          newEtxScaled = newEtxScaled *
            (WHIP6_LINK_ETX_EWMA_COEFFICIENT_DENOMINATOR - WHIP6_LINK_ETX_EWMA_COEFFICIENT_NUMERATOR);
          newEtxScaled = newEtxScaled + oldEtxScaled;
          newEtxScaled = newEtxScaled div WHIP6_LINK_ETX_EWMA_COEFFICIENT_DENOMINATOR
      in ucast newEtxScaled)"

section \<open>The quality of a link\<close>

definition whip6_lowpanMeshLinkTableResetLinkQuality :: "lowpan_link \<Rightarrow> lowpan_link" where
  "whip6_lowpanMeshLinkTableResetLinkQuality link =
     link\<lparr>quality := \<lparr>etx = WHIP6_ETX_METRIC_INFINITE, lastBeaconSeqNo = 0, numReceivedBeacons = 0,
                     numMissedBeacons = 0, numAckedUnicasts = 0, numUnackedUnicasts = 0,
                     inPrr = WHIP6_PRR_METRIC_ZERO\<rparr>\<rparr>"

definition whip6_lowpanMeshLinkTableResetMACState :: "lowpan_link \<Rightarrow> lowpan_link" where
  "whip6_lowpanMeshLinkTableResetMACState link =
     link\<lparr>mac := (mac link)\<lparr>lastBeaconTimestamp := WHIP6_6LOWPAN_MAC_EMPTY_TIMESTAMP,
                          driftBeaconTimestamp := WHIP6_6LOWPAN_MAC_EMPTY_TIMESTAMP,
                          driftCompensation := WHIP6_6LOWPAN_MAC_NO_COMPENSATION_DATA\<rparr>\<rparr>"

definition whip6_lowpanMeshLinkTableRecomputeBeaconBasedLinkQualityIfNecessary :: "lowpan_link \<Rightarrow> lowpan_link" where
  "whip6_lowpanMeshLinkTableRecomputeBeaconBasedLinkQualityIfNecessary link =
     (let numBeaconsReceived = numReceivedBeacons (quality link);
          numBeaconsTotal = numBeaconsReceived + numMissedBeacons (quality link)
      in if numBeaconsTotal < WHIP6_MIN_NUM_BROADCASTS_BEFORE_LINK_QUALITY_RECOMPUTATION then link
         else
           let link = (if (linkFlags link AND WHIP6_6LOWPAN_LINK_FLAG_INIT) \<noteq> 0
                       then link\<lparr>linkFlags := linkFlags link AND NOT WHIP6_6LOWPAN_LINK_FLAG_INIT,
                                 quality := (quality link)\<lparr>etx := WHIP6_LINK_INITAL_LINK_ETX,
                                   inPrr := whip6_metricEtxToPrr WHIP6_LINK_INITAL_LINK_ETX\<rparr>\<rparr>
                       else link);
               q = quality link;
               q = q\<lparr>inPrr := whip6_lowpanMeshLinkTableIntegratePrrWithEwma (inPrr q)
                      (whip6_lowpanMeshLinkTableComputePrrFromNumMessages numBeaconsReceived numBeaconsTotal)\<rparr>;
               q = q\<lparr>etx := whip6_lowpanMeshLinkTableIntegrateEtxWithEwma (etx q) (whip6_metricPrrToEtx (inPrr q))\<rparr>
           in link\<lparr>quality := q\<lparr>numReceivedBeacons := 0, numMissedBeacons := 0\<rparr>\<rparr>)"

definition whip6_lowpanMeshLinkTableRecomputeAckBasedLinkQualityIfNecessary :: "lowpan_link \<Rightarrow> lowpan_link" where
  "whip6_lowpanMeshLinkTableRecomputeAckBasedLinkQualityIfNecessary link =
     (let acked = numAckedUnicasts (quality link);
          numTotalUnicasts = acked + numUnackedUnicasts (quality link)
      in if numTotalUnicasts < WHIP6_MIN_NUM_UNICASTS_BEFORE_LINK_QUALITY_RECOMPUTATION \<or>
            (linkFlags link AND WHIP6_6LOWPAN_LINK_FLAG_INIT) \<noteq> 0
         then link
         else
           let q = quality link;
               (newEtxEstimate, q) =
                 (if acked = 0
                  then ((ucast numTotalUnicasts + 1) * WHIP6_ETX_METRIC_ONE, q)
                  else (ucast numTotalUnicasts * WHIP6_ETX_METRIC_ONE div ucast acked,
                        q\<lparr>numAckedUnicasts := 0, numUnackedUnicasts := 0\<rparr>))
           in link\<lparr>quality := q\<lparr>etx := whip6_lowpanMeshLinkTableIntegrateEtxWithEwma
                (if etx q = WHIP6_ETX_METRIC_INFINITE then WHIP6_LINK_INITAL_LINK_ETX else etx q) newEtxEstimate\<rparr>\<rparr>)"

text \<open>The reports, on the link they are about.\<close>

definition report_broadcast :: "lowpan_link \<Rightarrow> u8 \<Rightarrow> lowpan_link" where
  "report_broadcast link seqNo =
     (let link = (if (linkFlags link AND WHIP6_6LOWPAN_LINK_FLAG_INIT) = 0 \<and>
                     etx (quality link) \<ge> WHIP6_ETX_METRIC_INFINITE
                  then link\<lparr>linkFlags := linkFlags link OR WHIP6_6LOWPAN_LINK_FLAG_INIT,
                            quality := (quality link)\<lparr>lastBeaconSeqNo := seqNo - 1\<rparr>\<rparr>
                  else link);
          missed = seqNo - lastBeaconSeqNo (quality link) - 1;
          link = (if missed > WHIP6_MAX_NUM_MISSED_BROADCASTS_BEFORE_LINK_RESET
                  then let link = whip6_lowpanMeshLinkTableResetLinkQuality link;
                           flags = linkFlags link AND (WHIP6_6LOWPAN_LINK_FLAG_HAS_EXT_ADDR OR
                             WHIP6_6LOWPAN_LINK_FLAG_HAS_SHORT_ADDR OR WHIP6_6LOWPAN_LINK_FLAG_PINNED);
                           flags = flags OR WHIP6_6LOWPAN_LINK_FLAG_INIT
                       in link\<lparr>linkFlags := flags, quality := (quality link)\<lparr>numReceivedBeacons := 1\<rparr>\<rparr>
                  else link\<lparr>quality := (quality link)\<lparr>
                         numReceivedBeacons := numReceivedBeacons (quality link) + 1,
                         numMissedBeacons := numMissedBeacons (quality link) + missed\<rparr>\<rparr>);
          link = whip6_lowpanMeshLinkTableRecomputeBeaconBasedLinkQualityIfNecessary link;
          flags = linkFlags link OR WHIP6_6LOWPAN_LINK_FLAG_REFRESHED
      in link\<lparr>quality := (quality link)\<lparr>lastBeaconSeqNo := seqNo\<rparr>,
              linkFlags := flags AND NOT WHIP6_6LOWPAN_LINK_FLAG_RECLAIMABLE\<rparr>)"

definition report_unicast :: "lowpan_link \<Rightarrow> bool \<Rightarrow> lowpan_link" where
  "report_unicast link acked =
     (if acked
      then
        let link = link\<lparr>quality := (quality link)\<lparr>numAckedUnicasts := numAckedUnicasts (quality link) + 1\<rparr>,
                        linkFlags := (linkFlags link OR WHIP6_6LOWPAN_LINK_FLAG_REFRESHED)
                          AND NOT WHIP6_6LOWPAN_LINK_FLAG_RECLAIMABLE\<rparr>
        in whip6_lowpanMeshLinkTableRecomputeAckBasedLinkQualityIfNecessary link
      else
        let link = link\<lparr>quality := (quality link)\<lparr>numUnackedUnicasts := numUnackedUnicasts (quality link) + 1\<rparr>\<rparr>
        in if numUnackedUnicasts (quality link) > WHIP6_MAX_NUM_UNACKED_UNICASTS_BEFORE_LINK_RESET
           then link\<lparr>quality := (quality link)\<lparr>etx := WHIP6_ETX_METRIC_INFINITE, numAckedUnicasts := 0,
                                            numUnackedUnicasts := 0\<rparr>\<rparr>
           else whip6_lowpanMeshLinkTableRecomputeAckBasedLinkQualityIfNecessary link)"

section \<open>The averages do not wrap\<close>

lemma unat_ComputePrr:
  assumes "numTotal \<noteq> 0" "unat numRecv \<le> unat numTotal"
  shows "unat (whip6_lowpanMeshLinkTableComputePrrFromNumMessages numRecv numTotal) =
    255 * unat numRecv div unat numTotal"
proof -
  have r: "255 * unat numRecv < 65536" using unat_u8_less [of numRecv] by linarith
  have m: "unat (255 * ucast numRecv :: u16) = 255 * unat numRecv"
    using r by (simp only: unat_word_ariths unat_ucast_u8_u16) simp
  have "255 * unat numRecv div unat numTotal \<le> 255 * unat numTotal div unat numTotal"
    by (rule div_le_mono) (use assms(2) in simp)
  then have b: "255 * unat numRecv div unat numTotal < 256" using assms(1) by (simp add: unat_eq_0)
  have "unat (255 * ucast numRecv div ucast numTotal :: u16) = 255 * unat numRecv div unat numTotal"
    by (simp add: unat_div m)
  then have "unat (ucast (255 * ucast numRecv div ucast numTotal :: u16) :: u8) = 255 * unat numRecv div unat numTotal"
    using b by (simp add: unsigned_ucast_eq take_bit_eq_mod)
  then show ?thesis
    by (simp add: whip6_lowpanMeshLinkTableComputePrrFromNumMessages_def metric_constants Let_def)
qed

lemma unat_IntegratePrr:
  "unat (whip6_lowpanMeshLinkTableIntegratePrrWithEwma a b) = (13 * unat a + 3 * unat b) div 16"
proof -
  have s: "unat b * 3 + unat a * 13 < 65536" using unat_u8_less [of a] unat_u8_less [of b] by linarith
  have m: "unat (ucast b * 3 + ucast a * 13 :: u16) = unat b * 3 + unat a * 13"
    using s by (simp only: unat_word_ariths unat_ucast_u8_u16) simp
  have "(unat b * 3 + unat a * 13) div 16 < 256" using unat_u8_less [of a] unat_u8_less [of b] by linarith
  then have "unat (ucast ((ucast b * 3 + ucast a * 13 :: u16) div 16) :: u8) = (unat b * 3 + unat a * 13) div 16"
    by (simp add: unsigned_ucast_eq take_bit_eq_mod unat_div m)
  then show ?thesis
    by (simp add: whip6_lowpanMeshLinkTableIntegratePrrWithEwma_def metric_constants quality_constants Let_def
        add.commute mult.commute)
qed

lemma unat_ucast_u16_u32 [simp]: "unat (ucast (x :: u16) :: u32) = unat x"
proof -
  have "unat x < 4294967296" using unat_u16_less [of x] by linarith
  then show ?thesis by (simp add: unsigned_ucast_eq take_bit_eq_mod)
qed

lemma unat_IntegrateEtx:
  "unat (whip6_lowpanMeshLinkTableIntegrateEtxWithEwma a b) = (14 * unat a + 2 * unat b) div 16"
proof -
  have s: "unat b * 2 + unat a * 14 < 4294967296" using unat_u16_less [of a] unat_u16_less [of b] by linarith
  have m: "unat (ucast b * 2 + ucast a * 14 :: u32) = unat b * 2 + unat a * 14"
    using s by (simp only: unat_word_ariths unat_ucast_u16_u32) simp
  have "(unat b * 2 + unat a * 14) div 16 < 65536" using unat_u16_less [of a] unat_u16_less [of b] by linarith
  then have "unat (ucast ((ucast b * 2 + ucast a * 14 :: u32) div 16) :: u16) = (unat b * 2 + unat a * 14) div 16"
    by (simp add: unsigned_ucast_eq take_bit_eq_mod unat_div m)
  then show ?thesis
    by (simp add: whip6_lowpanMeshLinkTableIntegrateEtxWithEwma_def quality_constants Let_def
        add.commute mult.commute)
qed

lemma average_between:
  fixes a b :: nat
  assumes "k + l = 16"
  shows "min a b \<le> (k * a + l * b) div 16" "(k * a + l * b) div 16 \<le> max a b"
proof -
  have "16 * min a b = k * min a b + l * min a b" using assms by (simp flip: add_mult_distrib)
  also have "\<dots> \<le> k * a + l * b" by (intro add_mono mult_le_mono2) auto
  finally show "min a b \<le> (k * a + l * b) div 16" by simp
  have "k * a + l * b \<le> k * max a b + l * max a b" by (intro add_mono mult_le_mono2) auto
  also have "\<dots> = 16 * max a b" using assms by (simp flip: add_mult_distrib)
  finally show "(k * a + l * b) div 16 \<le> max a b" by simp
qed

section \<open>Invariant of a link\<close>

definition quality_ok :: "lowpan_link \<Rightarrow> bool" where
  "quality_ok link \<longleftrightarrow>
     16 \<le> unat (etx (quality link)) \<and>
     unat (numReceivedBeacons (quality link)) + unat (numMissedBeacons (quality link)) \<le> 1 \<and>
     unat (numUnackedUnicasts (quality link)) \<le> 30"

lemma unat_u8_plus: "unat a + unat b < 256 \<Longrightarrow> unat (a + b :: u8) = unat a + unat b"
  by (simp add: unat_word_ariths)

lemma PrrToEtx_ge: "16 \<le> unat (whip6_metricPrrToEtx prr)"
proof (cases "prr = 0")
  case False
  have "4080 div 255 \<le> 4080 div unat prr" using unat_u8_le [of prr] False by (intro div_le_mono2) (auto simp: unat_gt_0)
  then show ?thesis by (simp add: unat_PrrToEtx)
qed (simp add: unat_PrrToEtx)

lemma IntegrateEtx_ge: "16 \<le> unat a \<Longrightarrow> 16 \<le> unat b \<Longrightarrow> 16 \<le> unat (whip6_lowpanMeshLinkTableIntegrateEtxWithEwma a b)"
  unfolding unat_IntegrateEtx using average_between(1) [of 14 2 "unat a" "unat b"] by simp

lemma initial_etx: "unat WHIP6_LINK_INITAL_LINK_ETX = 32"
  by (simp add: quality_constants metric_constants)

lemma recompute_beacons_ok:
  assumes "16 \<le> unat (etx (quality link))" "unat (numUnackedUnicasts (quality link)) \<le> 30"
    and "unat (numReceivedBeacons (quality link)) + unat (numMissedBeacons (quality link)) < 256"
  shows "quality_ok (whip6_lowpanMeshLinkTableRecomputeBeaconBasedLinkQualityIfNecessary link)"
proof -
  have "unat (numReceivedBeacons (quality link) + numMissedBeacons (quality link)) =
      unat (numReceivedBeacons (quality link)) + unat (numMissedBeacons (quality link))"
    using assms(3) by (rule unat_u8_plus)
  then show ?thesis using assms initial_etx
    by (auto simp: whip6_lowpanMeshLinkTableRecomputeBeaconBasedLinkQualityIfNecessary_def quality_ok_def Let_def
        quality_constants(3) word_less_nat_alt intro!: IntegrateEtx_ge PrrToEtx_ge)
qed

lemma recompute_acks_ok:
  assumes "quality_ok link"
    and "unat (numAckedUnicasts (quality link)) + unat (numUnackedUnicasts (quality link)) < 256"
  shows "quality_ok (whip6_lowpanMeshLinkTableRecomputeAckBasedLinkQualityIfNecessary link)"
proof -
  let ?q = "quality link"
  let ?t = "numAckedUnicasts ?q + numUnackedUnicasts ?q"
  have t: "unat ?t = unat (numAckedUnicasts ?q) + unat (numUnackedUnicasts ?q)" using assms(2) by (rule unat_u8_plus)
  have small: "unat (ucast ?t * 16 :: u16) = unat ?t * 16" "unat ((ucast ?t + 1) * 16 :: u16) = (unat ?t + 1) * 16"
    using unat_u8_less [of ?t] by (simp_all add: unat_word_ariths)
  have a: "16 \<le> unat (ucast ?t * 16 div ucast (numAckedUnicasts ?q) :: u16)" if "numAckedUnicasts ?q \<noteq> 0"
  proof -
    have "unat (numAckedUnicasts ?q) * 16 div unat (numAckedUnicasts ?q) \<le> unat ?t * 16 div unat (numAckedUnicasts ?q)"
      by (rule div_le_mono) (simp add: t)
    then show ?thesis using that by (simp add: unat_div small(1) unat_eq_0)
  qed
  have b: "16 \<le> unat ((ucast ?t + 1) * 16 :: u16)" unfolding small(2) by simp
  have e: "16 \<le> unat (if etx ?q = WHIP6_ETX_METRIC_INFINITE then WHIP6_LINK_INITAL_LINK_ETX else etx ?q)"
    using assms(1) initial_etx by (simp add: quality_ok_def)
  have o: "unat (numReceivedBeacons ?q) + unat (numMissedBeacons ?q) \<le> 1" "unat (numUnackedUnicasts ?q) \<le> 30"
    using assms(1) by (simp_all add: quality_ok_def)
  show ?thesis
  proof (cases "?t < WHIP6_MIN_NUM_UNICASTS_BEFORE_LINK_QUALITY_RECOMPUTATION \<or>
      (linkFlags link AND WHIP6_6LOWPAN_LINK_FLAG_INIT) \<noteq> 0")
    case True
    then show ?thesis using assms(1)
      by (simp add: whip6_lowpanMeshLinkTableRecomputeAckBasedLinkQualityIfNecessary_def Let_def)
  next
    case False
    then show ?thesis using IntegrateEtx_ge [OF e b] IntegrateEtx_ge [OF e a] o
      by (cases "numAckedUnicasts ?q = 0")
        (simp_all add: whip6_lowpanMeshLinkTableRecomputeAckBasedLinkQualityIfNecessary_def quality_ok_def Let_def
          metric_constants(1) split: if_splits)
  qed
qed

lemma report_broadcast_ok:
  assumes "quality_ok link"
  shows "quality_ok (report_broadcast link seqNo)"
proof -
  have keep: "quality_ok (l\<lparr>quality := (quality l)\<lparr>lastBeaconSeqNo := s\<rparr>, linkFlags := f\<rparr>) = quality_ok l" for l s f
    by (simp add: quality_ok_def)
  let ?first = "(linkFlags link AND WHIP6_6LOWPAN_LINK_FLAG_INIT) = 0 \<and> etx (quality link) \<ge> WHIP6_ETX_METRIC_INFINITE"
  define link1 where "link1 = (if ?first
      then link\<lparr>linkFlags := linkFlags link OR WHIP6_6LOWPAN_LINK_FLAG_INIT,
                quality := (quality link)\<lparr>lastBeaconSeqNo := seqNo - 1\<rparr>\<rparr> else link)"
  have l1: "quality_ok link1" using assms by (simp add: link1_def quality_ok_def)
  define missed where "missed = seqNo - lastBeaconSeqNo (quality link1) - 1"
  let ?l2 = "if missed > WHIP6_MAX_NUM_MISSED_BROADCASTS_BEFORE_LINK_RESET
      then let link = whip6_lowpanMeshLinkTableResetLinkQuality link1;
               flags = linkFlags link AND (WHIP6_6LOWPAN_LINK_FLAG_HAS_EXT_ADDR OR
                 WHIP6_6LOWPAN_LINK_FLAG_HAS_SHORT_ADDR OR WHIP6_6LOWPAN_LINK_FLAG_PINNED);
               flags = flags OR WHIP6_6LOWPAN_LINK_FLAG_INIT
           in link\<lparr>linkFlags := flags, quality := (quality link)\<lparr>numReceivedBeacons := 1\<rparr>\<rparr>
      else link1\<lparr>quality := (quality link1)\<lparr>
             numReceivedBeacons := numReceivedBeacons (quality link1) + 1,
             numMissedBeacons := numMissedBeacons (quality link1) + missed\<rparr>\<rparr>"
  have "quality_ok (whip6_lowpanMeshLinkTableRecomputeBeaconBasedLinkQualityIfNecessary ?l2)"
  proof (cases "missed > WHIP6_MAX_NUM_MISSED_BROADCASTS_BEFORE_LINK_RESET")
    case True
    then show ?thesis
      by (intro recompute_beacons_ok)
        (simp_all add: whip6_lowpanMeshLinkTableResetLinkQuality_def Let_def metric_constants)
  next
    case False
    then have m: "unat missed \<le> 10" by (simp add: quality_constants not_less word_le_nat_alt)
    let ?q = "quality link1"
    have "unat (numReceivedBeacons ?q) + unat (numMissedBeacons ?q) \<le> 1" using l1 by (simp add: quality_ok_def)
    then have "unat (numReceivedBeacons ?q + 1) = unat (numReceivedBeacons ?q) + 1"
      "unat (numMissedBeacons ?q + missed) = unat (numMissedBeacons ?q) + unat missed"
      using m by (simp_all add: unat_u8_plus)
    then show ?thesis using False l1 m
      by (intro recompute_beacons_ok) (auto simp: quality_ok_def)
  qed
  then show ?thesis
    unfolding report_broadcast_def link1_def [symmetric] Let_def missed_def [symmetric] keep by (simp add: Let_def)
qed

text \<open>C20: The reports of received broadcasts and of completed unicasts keep a link sane: its transmission
  count never falls below one transmission, the beacon counters never leave the range that the
  recomputation assumes, and the unacknowledged unicasts stay bounded. For a unicast this holds
  while the two unicast counters together stay below the range of their sum, a \<open>uint8_t\<close>.\<close>

theorem link_reports:
  assumes "quality_ok link"
  shows "quality_ok (report_broadcast link seqNo) \<and>
    (unat (numAckedUnicasts (quality link)) + unat (numUnackedUnicasts (quality link)) < 255 \<longrightarrow>
     quality_ok (report_unicast link acked))"
proof -
  have "quality_ok (report_unicast link acked)"
    if s: "unat (numAckedUnicasts (quality link)) + unat (numUnackedUnicasts (quality link)) < 255"
  proof (cases acked)
    case True
    have "unat (numAckedUnicasts (quality link) + 1) = unat (numAckedUnicasts (quality link)) + 1"
      using s by (simp add: unat_u8_plus)
    then show ?thesis unfolding report_unicast_def using True s assms
      by (simp add: Let_def) (intro recompute_acks_ok; simp add: quality_ok_def)
  next
    case False
    let ?link = "link\<lparr>quality := (quality link)\<lparr>numUnackedUnicasts := numUnackedUnicasts (quality link) + 1\<rparr>\<rparr>"
    have n: "unat (numUnackedUnicasts (quality link) + 1) = unat (numUnackedUnicasts (quality link)) + 1"
      using s by (simp add: unat_u8_plus)
    have "quality_ok (whip6_lowpanMeshLinkTableRecomputeAckBasedLinkQualityIfNecessary ?link)"
      if "\<not> numUnackedUnicasts (quality ?link) > WHIP6_MAX_NUM_UNACKED_UNICASTS_BEFORE_LINK_RESET"
      by (intro recompute_acks_ok) (use that assms n s in \<open>auto simp: quality_ok_def quality_constants not_less word_le_nat_alt\<close>)
    then show ?thesis using False assms
      by (auto simp: report_unicast_def Let_def quality_ok_def metric_constants)
  qed
  then show ?thesis using report_broadcast_ok [OF assms] by blast
qed

definition ex_link :: lowpan_link where
  "ex_link = \<lparr>extAddr = [1, 2, 3, 4, 5, 6, 7, 8], shrtAddr = [0, 0], linkIdx = 0, linkFlags = 0x80,
     quality = \<lparr>etx = 32, lastBeaconSeqNo = 4, numReceivedBeacons = 1, numMissedBeacons = 0,
                numAckedUnicasts = 3, numUnackedUnicasts = 2, inPrr = 127\<rparr>,
     mac = \<lparr>lastBeaconTimestamp = 42, lastBeaconRandState = 0, driftCompensation = 0, driftBeaconTimestamp = 42,
            driftBeaconRandState = 0\<rparr>, nextExtAddrIdx = 0xff, nextShrtAddrIdx = 0xff\<rparr>"

theorem link_reports_witness:
  "quality_ok (report_broadcast ex_link 7) \<and> quality_ok (report_unicast ex_link False)"
proof -
  have "quality_ok ex_link" by (simp add: ex_link_def quality_ok_def)
  from link_reports [OF this, of 7 False] show ?thesis by (simp add: ex_link_def)
qed

text \<open>Beyond that range the count falls below one transmission.\<close>

lemma unicast_sum_wraps:
  defines "link \<equiv> ex_link\<lparr>quality := (quality ex_link)\<lparr>etx := 16, numAckedUnicasts := 250, numUnackedUnicasts := 14\<rparr>\<rparr>"
  shows "quality_ok link \<and> unat (etx (quality (report_unicast link True))) < 16"
proof -
  have "etx (quality (report_unicast link True)) = whip6_lowpanMeshLinkTableIntegrateEtxWithEwma 16 0"
    by (simp add: link_def ex_link_def report_unicast_def whip6_lowpanMeshLinkTableRecomputeAckBasedLinkQualityIfNecessary_def
        quality_constants link_constants metric_constants)
  then show ?thesis by (simp add: unat_IntegrateEtx) (simp add: link_def ex_link_def quality_ok_def)
qed

end
