(* ===== verification/Lowpan_LinkTable.thy ===== *)
theory Lowpan_LinkTable
  imports Lowpan_LinkQuality
begin

text \<open>
  The link table of the 6LoWPAN mesh: \<open>microc/src/6lowpan/uc6LoWPANMeshManipulation.c\<close> and
  \<open>detail/uc6LoWPANMeshManipulationImpl.h\<close>.

  The links live in a pool and are linked by their indices, \<open>0xff\<close> being the end: the free ones
  through \<open>nextExtAddrIdx\<close> from \<open>firstLinkInPool\<close>, the allocated ones through
  \<open>nextExtAddrIdx\<close> and \<open>nextShrtAddrIdx\<close> in the chains of two hash maps. A pointer to a link is
  its index in the pool; accesses to the pool and the maps are checked. The loops that follow a
  chain end only if the chain does, hence \<open>partial_function\<close>.

  The code has each operation on a hash map twice, for extended and for short addresses. What
  differs is a value of type \<open>link_kind\<close>, and the operations are those of the code on either.
\<close>

section \<open>The table\<close>

record lowpan_link_table =
  linkPool :: "lowpan_link list"
  extAddrHashMap :: "u8 list"
  shrtAddrHashMap :: "u8 list"
  linkPoolLen :: u8
  extAddrHashMapLen :: u8
  shrtAddrHashMapLen :: u8
  firstLinkInPool :: u8

definition link_get :: "lowpan_link_table \<Rightarrow> u8 \<Rightarrow> lowpan_link option" where
  "link_get table i = buf_get (linkPool table) (unat i)"

definition link_put :: "lowpan_link_table \<Rightarrow> u8 \<Rightarrow> lowpan_link \<Rightarrow> lowpan_link_table" where
  "link_put table i link = table\<lparr>linkPool := (linkPool table)[unat i := link]\<rparr>"

section \<open>Links\<close>

definition whip6_lowpanMeshLinkTableIsLinkAllocatedInternal :: "lowpan_link \<Rightarrow> bool" where
  "whip6_lowpanMeshLinkTableIsLinkAllocatedInternal link \<longleftrightarrow>
     (linkFlags link AND (WHIP6_6LOWPAN_LINK_FLAG_HAS_EXT_ADDR OR WHIP6_6LOWPAN_LINK_FLAG_HAS_SHORT_ADDR)) \<noteq> 0"

definition whip6_lowpanMeshLinkTableCanExistingLinkBeRemovedInternal :: "lowpan_link \<Rightarrow> bool" where
  "whip6_lowpanMeshLinkTableCanExistingLinkBeRemovedInternal link \<longleftrightarrow>
     whip6_lowpanMeshLinkTableIsLinkAllocatedInternal link \<and>
     (linkFlags link AND (WHIP6_6LOWPAN_LINK_FLAG_INIT OR WHIP6_6LOWPAN_LINK_FLAG_PINNED)) = 0"

definition whip6_lowpanMeshLinkTableCanExistingLinkBeRemoved :: "lowpan_link_table \<Rightarrow> u8 \<Rightarrow> bool option" where
  "whip6_lowpanMeshLinkTableCanExistingLinkBeRemoved table i =
     do { link \<leftarrow> link_get table i;
          Some (whip6_lowpanMeshLinkTableCanExistingLinkBeRemovedInternal link) }"

definition whip6_lowpanMeshLinkTableGetLinkEtx :: "lowpan_link_table \<Rightarrow> u8 \<Rightarrow> u16 option" where
  "whip6_lowpanMeshLinkTableGetLinkEtx table i =
     do { link \<leftarrow> link_get table i;
          Some (etx (quality link)) }"

definition whip6_lowpanMeshLinkTableGetLinkAddrExtPtr :: "lowpan_link_table \<Rightarrow> u8 \<Rightarrow> u8 list option option" where
  "whip6_lowpanMeshLinkTableGetLinkAddrExtPtr table i =
     do { link \<leftarrow> link_get table i;
          Some (if (linkFlags link AND WHIP6_6LOWPAN_LINK_FLAG_HAS_EXT_ADDR) = 0 then None
                else Some (extAddr link)) }"

definition whip6_lowpanMeshLinkTableGetLinkAddrShortPtr :: "lowpan_link_table \<Rightarrow> u8 \<Rightarrow> u8 list option option" where
  "whip6_lowpanMeshLinkTableGetLinkAddrShortPtr table i =
     do { link \<leftarrow> link_get table i;
          Some (if (linkFlags link AND WHIP6_6LOWPAN_LINK_FLAG_HAS_SHORT_ADDR) = 0 then None
                else Some (shrtAddr link)) }"

definition whip6_lowpanMeshLinkTableGetLinkAddrBest ::
  "lowpan_link_table \<Rightarrow> u8 \<Rightarrow> ieee154_addr \<Rightarrow> ieee154_addr option" where
  "whip6_lowpanMeshLinkTableGetLinkAddrBest table i addr =
     do { link \<leftarrow> link_get table i;
          if (linkFlags link AND WHIP6_6LOWPAN_LINK_FLAG_HAS_SHORT_ADDR) \<noteq> 0
          then do { v \<leftarrow> whip6_shortMemCpy (shrtAddr link) 0 (addrVars addr) 0 IEEE154_SHORT_ADDR_BYTE_LENGTH;
                    Some \<lparr>addrMode = IEEE154_ADDR_MODE_SHORT, addrVars = v\<rparr> }
          else do { v \<leftarrow> whip6_shortMemCpy (extAddr link) 0 (addrVars addr) 0 IEEE154_EXT_ADDR_BYTE_LENGTH;
                    Some \<lparr>addrMode = IEEE154_ADDR_MODE_EXT, addrVars = v\<rparr> } }"

definition whip6_lowpanMeshLinkTableGetMACStateForLink ::
  "lowpan_link_table \<Rightarrow> u8 \<Rightarrow> lowpan_link_mac_state option" where
  "whip6_lowpanMeshLinkTableGetMACStateForLink table index =
     do { link \<leftarrow> link_get table index;
          Some (mac link) }"

section \<open>The two hash maps\<close>

fun hash_loop :: "u8 list \<Rightarrow> nat \<Rightarrow> nat \<Rightarrow> u8 \<Rightarrow> u8" where
  "hash_loop addr i 0 bucketIdx = bucketIdx"
| "hash_loop addr i (Suc n) bucketIdx = hash_loop addr (i + 1) n (bucketIdx + addr ! i)"

definition whip6_lowpanMeshLinkTableHashExtAddr :: "u8 list \<Rightarrow> u8 \<Rightarrow> u8" where
  "whip6_lowpanMeshLinkTableHashExtAddr addr numBuckets = hash_loop addr 0 8 0 mod numBuckets"

definition whip6_lowpanMeshLinkTableHashShortAddr :: "u8 list \<Rightarrow> u8 \<Rightarrow> u8" where
  "whip6_lowpanMeshLinkTableHashShortAddr addr numBuckets = hash_loop addr 0 2 0 mod numBuckets"

record link_kind =
  kFlag :: u8
  kAddr :: "lowpan_link \<Rightarrow> u8 list"
  kSetAddr :: "u8 list \<Rightarrow> lowpan_link \<Rightarrow> lowpan_link"
  kNext :: "lowpan_link \<Rightarrow> u8"
  kSetNext :: "u8 \<Rightarrow> lowpan_link \<Rightarrow> lowpan_link"
  kMap :: "lowpan_link_table \<Rightarrow> u8 list"
  kSetMap :: "u8 list \<Rightarrow> lowpan_link_table \<Rightarrow> lowpan_link_table"
  kMapLen :: "lowpan_link_table \<Rightarrow> u8"
  kHash :: "u8 list \<Rightarrow> u8 \<Rightarrow> u8"
  kCmp :: "u8 list \<Rightarrow> u8 list \<Rightarrow> int option"
  kCpy :: "u8 list \<Rightarrow> u8 list \<Rightarrow> u8 list option"

definition ext_kind :: link_kind where
  "ext_kind = \<lparr>kFlag = WHIP6_6LOWPAN_LINK_FLAG_HAS_EXT_ADDR, kAddr = extAddr, kSetAddr = (\<lambda>a l. l\<lparr>extAddr := a\<rparr>),
     kNext = nextExtAddrIdx, kSetNext = (\<lambda>i l. l\<lparr>nextExtAddrIdx := i\<rparr>),
     kMap = extAddrHashMap, kSetMap = (\<lambda>m t. t\<lparr>extAddrHashMap := m\<rparr>), kMapLen = extAddrHashMapLen,
     kHash = whip6_lowpanMeshLinkTableHashExtAddr, kCmp = whip6_ieee154AddrExtCmp,
     kCpy = (\<lambda>src dst. whip6_ieee154AddrExtCpy src 0 dst 0)\<rparr>"

definition short_kind :: link_kind where
  "short_kind = \<lparr>kFlag = WHIP6_6LOWPAN_LINK_FLAG_HAS_SHORT_ADDR, kAddr = shrtAddr, kSetAddr = (\<lambda>a l. l\<lparr>shrtAddr := a\<rparr>),
     kNext = nextShrtAddrIdx, kSetNext = (\<lambda>i l. l\<lparr>nextShrtAddrIdx := i\<rparr>),
     kMap = shrtAddrHashMap, kSetMap = (\<lambda>m t. t\<lparr>shrtAddrHashMap := m\<rparr>), kMapLen = shrtAddrHashMapLen,
     kHash = whip6_lowpanMeshLinkTableHashShortAddr, kCmp = whip6_ieee154AddrShortCmp,
     kCpy = (\<lambda>src dst. whip6_ieee154AddrShortCpy src 0 dst 0)\<rparr>"

text \<open>Removing a link from the chain that it is in.\<close>

partial_function (option) chain_find_loop ::
  "link_kind \<Rightarrow> lowpan_link_table \<Rightarrow> u8 \<Rightarrow> u8 option \<Rightarrow> u8 \<Rightarrow> (u8 option \<times> u8) option" where
  "chain_find_loop K table soughtLinkIdx prevLink i =
     (if i \<noteq> soughtLinkIdx \<and> i < linkPoolLen table
      then do { link \<leftarrow> link_get table i;
                chain_find_loop K table soughtLinkIdx (Some i) (kNext K link) }
      else Some (prevLink, i))"

declare chain_find_loop.simps [code]

definition remove_from_hash_table :: "link_kind \<Rightarrow> lowpan_link_table \<Rightarrow> u8 \<Rightarrow> lowpan_link_table option" where
  "remove_from_hash_table K table linkPtr =
     do { link \<leftarrow> link_get table linkPtr;
          if (linkFlags link AND kFlag K) = 0 then Some table
          else
            do { let bucketIdx = kHash K (kAddr K link) (kMapLen K table);
                 first \<leftarrow> buf_get (kMap K table) (unat bucketIdx);
                 (prevLink, i) \<leftarrow> chain_find_loop K table (linkIdx link) None first;
                 if i \<ge> linkPoolLen table then Some table
                 else
                   do { table \<leftarrow>
                          (case prevLink of
                             None \<Rightarrow> Some (kSetMap K ((kMap K table)[unat bucketIdx := kNext K link]) table)
                           | Some p \<Rightarrow> do { prev \<leftarrow> link_get table p;
                                             Some (link_put table p (kSetNext K (kNext K link) prev)) });
                        link \<leftarrow> link_get table linkPtr;
                        Some (link_put table linkPtr (kSetNext K WHIP6_6LOWPAN_INVALID_LINK_IDX
                          (link\<lparr>linkFlags := linkFlags link AND NOT (kFlag K)\<rparr>))) } } }"

definition whip6_lowpanMeshLinkTableRemoveFromHashTableForExtAddr ::
  "lowpan_link_table \<Rightarrow> u8 \<Rightarrow> lowpan_link_table option" where
  "whip6_lowpanMeshLinkTableRemoveFromHashTableForExtAddr = remove_from_hash_table ext_kind"

definition whip6_lowpanMeshLinkTableRemoveFromHashTableForShortAddr ::
  "lowpan_link_table \<Rightarrow> u8 \<Rightarrow> lowpan_link_table option" where
  "whip6_lowpanMeshLinkTableRemoveFromHashTableForShortAddr = remove_from_hash_table short_kind"

text \<open>Taking a link from the pool and putting it in front of a chain; the next index of the other
  kind ends.\<close>

definition allocate_link :: "link_kind \<Rightarrow> link_kind \<Rightarrow> lowpan_link_table \<Rightarrow> u8 list \<Rightarrow> (lowpan_link_table \<times> u8) option" where
  "allocate_link K K' table addr =
     do { let i = firstLinkInPool table;
          link \<leftarrow> link_get table i;
          let table = table\<lparr>firstLinkInPool := nextExtAddrIdx link\<rparr>;
          let link = link\<lparr>linkFlags := kFlag K\<rparr>;
          a \<leftarrow> kCpy K addr (kAddr K link);
          let link = kSetAddr K a link;
          let bucketIdx = kHash K addr (kMapLen K table);
          first \<leftarrow> buf_get (kMap K table) (unat bucketIdx);
          let link = kSetNext K first link;
          let table = kSetMap K ((kMap K table)[unat bucketIdx := i]) table;
          let link = kSetNext K' WHIP6_6LOWPAN_INVALID_LINK_IDX link;
          let link = whip6_lowpanMeshLinkTableResetLinkQuality link;
          let link = whip6_lowpanMeshLinkTableResetMACState link;
          Some (link_put table i link, i) }"

definition whip6_lowpanMeshLinkTableAllocateLinkForShortAddr ::
  "lowpan_link_table \<Rightarrow> u8 list \<Rightarrow> (lowpan_link_table \<times> u8) option" where
  "whip6_lowpanMeshLinkTableAllocateLinkForShortAddr = allocate_link short_kind ext_kind"

definition whip6_lowpanMeshLinkTableAllocateLinkForExtAddr ::
  "lowpan_link_table \<Rightarrow> u8 list \<Rightarrow> (lowpan_link_table \<times> u8) option" where
  "whip6_lowpanMeshLinkTableAllocateLinkForExtAddr = allocate_link ext_kind short_kind"

text \<open>Looking an address up in its chain.\<close>

partial_function (option) chain_lookup_loop ::
  "link_kind \<Rightarrow> lowpan_link_table \<Rightarrow> u8 list \<Rightarrow> u8 \<Rightarrow> u8 option" where
  "chain_lookup_loop K table addr i =
     (if i < linkPoolLen table
      then do { link \<leftarrow> link_get table i;
                r \<leftarrow> kCmp K addr (kAddr K link);
                if r = 0 then Some i else chain_lookup_loop K table addr (kNext K link) }
      else Some i)"

declare chain_lookup_loop.simps [code]

definition chain_lookup :: "link_kind \<Rightarrow> lowpan_link_table \<Rightarrow> u8 list \<Rightarrow> u8 option" where
  "chain_lookup K table addr =
     do { let bucketIdx = kHash K addr (kMapLen K table);
          first \<leftarrow> buf_get (kMap K table) (unat bucketIdx);
          chain_lookup_loop K table addr first }"

section \<open>The operations of the table\<close>

fun reset_pool_loop :: "lowpan_link list \<Rightarrow> u8 \<Rightarrow> nat \<Rightarrow> lowpan_link list option" where
  "reset_pool_loop pool idx 0 = Some pool"
| "reset_pool_loop pool idx (Suc n) =
     do { link \<leftarrow> buf_get pool (unat idx);
          reset_pool_loop (pool[unat idx := link\<lparr>linkIdx := idx, linkFlags := 0, nextExtAddrIdx := idx + 1\<rparr>])
            (idx + 1) n }"

fun reset_map_loop :: "u8 list \<Rightarrow> nat \<Rightarrow> nat \<Rightarrow> u8 list option" where
  "reset_map_loop m hashPtr 0 = Some m"
| "reset_map_loop m hashPtr (Suc num) =
     do { m \<leftarrow> buf_put m hashPtr WHIP6_6LOWPAN_INVALID_LINK_IDX;
          reset_map_loop m (hashPtr + 1) num }"

definition whip6_lowpanMeshLinkTableReset :: "lowpan_link_table \<Rightarrow> lowpan_link_table option" where
  "whip6_lowpanMeshLinkTableReset table =
     do { table \<leftarrow>
            (let num = linkPoolLen table
             in if num > 0
                then
                  do { let num = num - 1;
                       pool \<leftarrow> reset_pool_loop (linkPool table) 0 (unat num);
                       link \<leftarrow> buf_get pool (unat num);
                       Some (table\<lparr>linkPool := pool[unat num := link\<lparr>linkIdx := num, linkFlags := 0,
                                     nextExtAddrIdx := WHIP6_6LOWPAN_INVALID_LINK_IDX\<rparr>],
                                   firstLinkInPool := 0\<rparr>) }
                else Some (table\<lparr>firstLinkInPool := WHIP6_6LOWPAN_INVALID_LINK_IDX\<rparr>));
          m \<leftarrow> reset_map_loop (extAddrHashMap table) 0 (unat (extAddrHashMapLen table));
          let table = table\<lparr>extAddrHashMap := m\<rparr>;
          m \<leftarrow> reset_map_loop (shrtAddrHashMap table) 0 (unat (shrtAddrHashMapLen table));
          Some (table\<lparr>shrtAddrHashMap := m\<rparr>) }"

definition whip6_lowpanMeshLinkTableLookupLink :: "lowpan_link_table \<Rightarrow> ieee154_addr \<Rightarrow> u8 option" where
  "whip6_lowpanMeshLinkTableLookupLink table addr =
     do { i \<leftarrow>
            (if addrMode addr = IEEE154_ADDR_MODE_SHORT then chain_lookup short_kind table (addrVars addr)
             else if addrMode addr = IEEE154_ADDR_MODE_EXT then chain_lookup ext_kind table (addrVars addr)
             else Some WHIP6_6LOWPAN_INVALID_LINK_IDX);
          Some (if i \<ge> linkPoolLen table then WHIP6_6LOWPAN_INVALID_LINK_IDX else i) }"

definition whip6_lowpanMeshLinkTableRemoveExistingLink :: "lowpan_link_table \<Rightarrow> u8 \<Rightarrow> lowpan_link_table option" where
  "whip6_lowpanMeshLinkTableRemoveExistingLink table index =
     (if index \<ge> linkPoolLen table then Some table
      else
        do { link \<leftarrow> link_get table index;
             if \<not> whip6_lowpanMeshLinkTableIsLinkAllocatedInternal link then Some table
             else
               do { table \<leftarrow> whip6_lowpanMeshLinkTableRemoveFromHashTableForExtAddr table index;
                    table \<leftarrow> whip6_lowpanMeshLinkTableRemoveFromHashTableForShortAddr table index;
                    link \<leftarrow> link_get table index;
                    let table = link_put table index
                      (link\<lparr>linkFlags := 0, nextExtAddrIdx := firstLinkInPool table\<rparr>);
                    Some (table\<lparr>firstLinkInPool := index\<rparr>) } })"

fun worst_link_loop :: "lowpan_link list \<Rightarrow> nat \<Rightarrow> nat \<Rightarrow> u16 \<times> u8 \<Rightarrow> (u16 \<times> u8) option" where
  "worst_link_loop pool linkPtr 0 worst = Some worst"
| "worst_link_loop pool linkPtr (Suc numLinks) (worstEtx, worstIdx) =
     do { link \<leftarrow> buf_get pool linkPtr;
          worst_link_loop pool (linkPtr + 1) numLinks
            (if whip6_lowpanMeshLinkTableCanExistingLinkBeRemovedInternal link \<and> worstEtx < etx (quality link)
             then (etx (quality link), linkIdx link) else (worstEtx, worstIdx)) }"

definition whip6_lowpanMeshLinkTableTryToEvictWorstLink :: "lowpan_link_table \<Rightarrow> lowpan_link_table option" where
  "whip6_lowpanMeshLinkTableTryToEvictWorstLink table =
     do { (worstEtx, worstIdx) \<leftarrow>
            worst_link_loop (linkPool table) 0 (unat (linkPoolLen table)) (0, WHIP6_6LOWPAN_INVALID_LINK_IDX);
          if worstIdx = WHIP6_6LOWPAN_INVALID_LINK_IDX then Some table
          else whip6_lowpanMeshLinkTableRemoveExistingLink table worstIdx }"

definition whip6_lowpanMeshLinkTableFindExistingOrCreateNewLink ::
  "lowpan_link_table \<Rightarrow> ieee154_addr \<Rightarrow> bool \<Rightarrow> (lowpan_link_table \<times> u8) option" where
  "whip6_lowpanMeshLinkTableFindExistingOrCreateNewLink table addr allowEviction =
     do { i \<leftarrow> whip6_lowpanMeshLinkTableLookupLink table addr;
          if i \<noteq> WHIP6_6LOWPAN_INVALID_LINK_IDX then Some (table, i)
          else
            do { table \<leftarrow> (if firstLinkInPool table = WHIP6_6LOWPAN_INVALID_LINK_IDX \<and> allowEviction
                          then whip6_lowpanMeshLinkTableTryToEvictWorstLink table
                          else Some table);
                 if firstLinkInPool table = WHIP6_6LOWPAN_INVALID_LINK_IDX
                 then Some (table, WHIP6_6LOWPAN_INVALID_LINK_IDX)
                 else if addrMode addr = IEEE154_ADDR_MODE_SHORT
                 then whip6_lowpanMeshLinkTableAllocateLinkForShortAddr table (addrVars addr)
                 else if addrMode addr = IEEE154_ADDR_MODE_EXT
                 then whip6_lowpanMeshLinkTableAllocateLinkForExtAddr table (addrVars addr)
                 else Some (table, WHIP6_6LOWPAN_INVALID_LINK_IDX) } }"

fun next_link_loop :: "lowpan_link list \<Rightarrow> nat \<Rightarrow> nat \<Rightarrow> u8 option" where
  "next_link_loop pool linkPtr 0 = Some WHIP6_6LOWPAN_INVALID_LINK_IDX"
| "next_link_loop pool linkPtr (Suc num) =
     do { link \<leftarrow> buf_get pool linkPtr;
          if whip6_lowpanMeshLinkTableIsLinkAllocatedInternal link then Some (linkIdx link)
          else next_link_loop pool (linkPtr + 1) num }"

definition whip6_lowpanMeshLinkTableGetFirstLink :: "lowpan_link_table \<Rightarrow> u8 option" where
  "whip6_lowpanMeshLinkTableGetFirstLink table = next_link_loop (linkPool table) 0 (unat (linkPoolLen table))"

definition whip6_lowpanMeshLinkTableGetNextLink :: "lowpan_link_table \<Rightarrow> u8 \<Rightarrow> u8 option" where
  "whip6_lowpanMeshLinkTableGetNextLink table index =
     (let num = linkPoolLen table
      in if index \<ge> num then Some WHIP6_6LOWPAN_INVALID_LINK_IDX
         else let index = index + 1
              in next_link_loop (linkPool table) (unat index) (unat (num - index)))"

definition whip6_lowpanMeshLinkTableReportBroadcastReceptionForExistingLink ::
  "lowpan_link_table \<Rightarrow> u8 \<Rightarrow> u8 \<Rightarrow> lowpan_link_table option" where
  "whip6_lowpanMeshLinkTableReportBroadcastReceptionForExistingLink table index seqNo =
     do { link \<leftarrow> link_get table index;
          Some (link_put table index (report_broadcast link seqNo)) }"

definition whip6_lowpanMeshLinkTableReportUnicastCompletionForExistingLink ::
  "lowpan_link_table \<Rightarrow> u8 \<Rightarrow> bool \<Rightarrow> lowpan_link_table option" where
  "whip6_lowpanMeshLinkTableReportUnicastCompletionForExistingLink table index acked =
     do { link \<leftarrow> link_get table index;
          Some (link_put table index (report_unicast link acked)) }"

text \<open>The window \<open>firstIdx\<close>, \<open>numIdx\<close> of the two sweeps, in \<open>uint8_t\<close> arithmetic.\<close>

definition sweep_window :: "lowpan_link_table \<Rightarrow> u8 \<Rightarrow> u8 \<Rightarrow> u8 \<times> bool" where
  "sweep_window table firstIdx numIdx =
     (let numIdx = numIdx + firstIdx;
          (numIdx, res) = (if numIdx \<ge> linkPoolLen table then (linkPoolLen table, False) else (numIdx, True))
      in (numIdx - firstIdx, res))"

fun mark_loop :: "lowpan_link list \<Rightarrow> nat \<Rightarrow> nat \<Rightarrow> lowpan_link list option" where
  "mark_loop pool linkPtr 0 = Some pool"
| "mark_loop pool linkPtr (Suc numIdx) =
     do { link \<leftarrow> buf_get pool linkPtr;
          let link = (if whip6_lowpanMeshLinkTableIsLinkAllocatedInternal link
                      then if (linkFlags link AND WHIP6_6LOWPAN_LINK_FLAG_REFRESHED) = 0
                           then link\<lparr>linkFlags := linkFlags link OR WHIP6_6LOWPAN_LINK_FLAG_RECLAIMABLE\<rparr>
                           else link\<lparr>linkFlags := linkFlags link AND NOT WHIP6_6LOWPAN_LINK_FLAG_REFRESHED\<rparr>
                      else link);
          mark_loop (pool[linkPtr := link]) (linkPtr + 1) numIdx }"

definition whip6_lowpanMeshLinkTableMarkUnrefreshedLinksForRemoval ::
  "lowpan_link_table \<Rightarrow> u8 \<Rightarrow> u8 \<Rightarrow> (lowpan_link_table \<times> bool) option" where
  "whip6_lowpanMeshLinkTableMarkUnrefreshedLinksForRemoval table firstIdx numIdx =
     (if firstIdx \<ge> linkPoolLen table then Some (table, False)
      else case sweep_window table firstIdx numIdx of
        (numIdx, res) \<Rightarrow>
          do { pool \<leftarrow> mark_loop (linkPool table) (unat firstIdx) (unat numIdx);
               Some (table\<lparr>linkPool := pool\<rparr>, res) })"

fun sweep_loop :: "lowpan_link_table \<Rightarrow> nat \<Rightarrow> nat \<Rightarrow> u8 \<Rightarrow> lowpan_link_table option" where
  "sweep_loop table linkPtr 0 maxRemoved = Some table"
| "sweep_loop table linkPtr (Suc numIdx) maxRemoved =
     (if maxRemoved = 0 then Some table
      else
        do { link \<leftarrow> buf_get (linkPool table) linkPtr;
             if whip6_lowpanMeshLinkTableCanExistingLinkBeRemovedInternal link \<and>
                (linkFlags link AND WHIP6_6LOWPAN_LINK_FLAG_RECLAIMABLE) \<noteq> 0
             then do { table \<leftarrow> whip6_lowpanMeshLinkTableRemoveExistingLink table (linkIdx link);
                       sweep_loop table (linkPtr + 1) numIdx (maxRemoved - 1) }
             else sweep_loop table (linkPtr + 1) numIdx maxRemoved })"

definition whip6_lowpanMeshLinkTableRemoveLinksMarkedForRemoval ::
  "lowpan_link_table \<Rightarrow> u8 \<Rightarrow> u8 \<Rightarrow> u8 \<Rightarrow> (lowpan_link_table \<times> bool) option" where
  "whip6_lowpanMeshLinkTableRemoveLinksMarkedForRemoval table firstIdx numIdx maxRemoved =
     (if firstIdx \<ge> linkPoolLen table then Some (table, False)
      else case sweep_window table firstIdx numIdx of
        (numIdx, res) \<Rightarrow>
          do { table \<leftarrow> sweep_loop table (unat firstIdx) (unat numIdx) maxRemoved;
               Some (table, res) })"

end
