(* ===== verification/Lowpan_LinkTableInv.thy ===== *)
theory Lowpan_LinkTableInv
  imports Lowpan_LinkTable
begin

text \<open>
  The invariant of the link table: the pool, the list of free links, and the chains of the two hash
  maps. The facts on chains and on one hash map are independent of the kind of address; what the
  operations need to know of a kind is the locale \<open>link_kinds\<close>, which the extended and the short
  addresses satisfy.
\<close>

section \<open>Chains of indices\<close>

fun idx_chain :: "u8 \<Rightarrow> (u8 \<Rightarrow> u8) \<Rightarrow> u8 \<Rightarrow> u8 list \<Rightarrow> bool" where
  "idx_chain L nx s [] \<longleftrightarrow> s = WHIP6_6LOWPAN_INVALID_LINK_IDX"
| "idx_chain L nx s (x # xs) \<longleftrightarrow> s = x \<and> x < L \<and> idx_chain L nx (nx x) xs"

lemma not_less_invalid [simp]: "\<not> WHIP6_6LOWPAN_INVALID_LINK_IDX < (L :: u8)"
  by (simp add: WHIP6_6LOWPAN_INVALID_LINK_IDX_def word_less_nat_alt not_less unat_u8_le)

lemma less_not_invalid: "(i :: u8) < L \<Longrightarrow> i \<noteq> WHIP6_6LOWPAN_INVALID_LINK_IDX"
  using not_less_invalid [of L] by blast

lemma idx_chain_cong:
  "(\<And>j. j \<in> set xs \<Longrightarrow> nx j = nx' j) \<Longrightarrow> idx_chain L nx s xs = idx_chain L nx' s xs"
  by (induction xs arbitrary: s) auto

lemma idx_chain_set: "idx_chain L nx s xs \<Longrightarrow> j \<in> set xs \<Longrightarrow> j < L"
  by (induction xs arbitrary: s) auto

lemma idx_chain_remove_hd: "idx_chain L nx s (i # zs) \<Longrightarrow> idx_chain L nx (nx i) zs"
  by simp

lemma idx_chain_remove:
  assumes "idx_chain L nx s (ys @ i # zs)" "distinct (ys @ i # zs)" "ys \<noteq> []"
    and "nx' (last ys) = nx i" "\<And>j. j \<in> set (ys @ zs) \<Longrightarrow> j \<noteq> last ys \<Longrightarrow> nx' j = nx j"
  shows "idx_chain L nx' s (ys @ zs)"
  using assms
proof (induction ys arbitrary: s)
  case (Cons y ys)
  show ?case
  proof (cases "ys = []")
    case True
    with Cons.prems have "idx_chain L nx (nx i) zs" by simp
    also have "idx_chain L nx (nx i) zs = idx_chain L nx' (nx i) zs"
    proof (rule idx_chain_cong)
      fix j assume "j \<in> set zs"
      then show "nx j = nx' j" using Cons.prems(2,5) True by (metis append_Cons append_Nil distinct.simps(2) last_ConsL
        list.set_intros(2))
    qed
    finally show ?thesis using Cons.prems True by simp
  next
    case False
    have "y \<noteq> last ys" using Cons.prems(2) False last_in_set [OF False] by auto
    then have "nx' y = nx y" using Cons.prems(5) [of y] False by simp
    then show ?thesis using Cons.prems False Cons.IH [of "nx y"] by simp
  qed
qed simp

section \<open>The table\<close>

definition lk :: "lowpan_link_table \<Rightarrow> u8 \<Rightarrow> lowpan_link" where
  "lk table i = linkPool table ! unat i"

definition in_kind :: "link_kind \<Rightarrow> lowpan_link_table \<Rightarrow> u8 \<Rightarrow> bool" where
  "in_kind K table i \<longleftrightarrow> i < linkPoolLen table \<and> (linkFlags (lk table i) AND kFlag K) \<noteq> 0"

definition bucket_of :: "link_kind \<Rightarrow> lowpan_link_table \<Rightarrow> u8 list \<Rightarrow> nat" where
  "bucket_of K table addr = unat (kHash K addr (kMapLen K table))"

definition bucket :: "link_kind \<Rightarrow> lowpan_link_table \<Rightarrow> nat \<Rightarrow> u8 list \<Rightarrow> bool" where
  "bucket K table b xs \<longleftrightarrow>
     idx_chain (linkPoolLen table) (\<lambda>j. kNext K (lk table j)) (kMap K table ! b) xs \<and> distinct xs \<and>
     set xs = {i. in_kind K table i \<and> bucket_of K table (kAddr K (lk table i)) = b}"

definition kind_ok :: "link_kind \<Rightarrow> lowpan_link_table \<Rightarrow> bool" where
  "kind_ok K table \<longleftrightarrow>
     0 < kMapLen K table \<and> length (kMap K table) = unat (kMapLen K table) \<and>
     (\<forall>b<unat (kMapLen K table). \<exists>xs. bucket K table b xs) \<and>
     inj_on (\<lambda>i. kAddr K (lk table i)) {i. in_kind K table i}"

definition free_ok :: "lowpan_link_table \<Rightarrow> bool" where
  "free_ok table \<longleftrightarrow>
     (\<exists>xs. idx_chain (linkPoolLen table) (\<lambda>j. nextExtAddrIdx (lk table j)) (firstLinkInPool table) xs \<and> distinct xs \<and>
        set xs = {i. i < linkPoolLen table \<and> \<not> whip6_lowpanMeshLinkTableIsLinkAllocatedInternal (lk table i)})"

definition link_ok :: "u8 \<Rightarrow> lowpan_link \<Rightarrow> bool" where
  "link_ok i link \<longleftrightarrow> linkIdx link = i \<and> length (extAddr link) = 8 \<and> length (shrtAddr link) = 2"

definition pool_ok :: "lowpan_link_table \<Rightarrow> bool" where
  "pool_ok table \<longleftrightarrow>
     length (linkPool table) = unat (linkPoolLen table) \<and>
     (\<forall>i<linkPoolLen table. link_ok i (lk table i))"

definition table_ok :: "lowpan_link_table \<Rightarrow> bool" where
  "table_ok table \<longleftrightarrow> pool_ok table \<and> free_ok table \<and> kind_ok ext_kind table \<and> kind_ok short_kind table"

section \<open>One hash map\<close>

lemma kind_okI:
  assumes "kind_ok K t" "kMapLen K t' = kMapLen K t" "length (kMap K t') = length (kMap K t)"
    and "\<And>b xs. bucket K t b xs \<Longrightarrow> \<exists>xs'. bucket K t' b xs'"
    and "inj_on (\<lambda>i. kAddr K (lk t' i)) {i. in_kind K t' i}"
  shows "kind_ok K t'"
proof -
  have "\<exists>xs. bucket K t' b xs" if "b < unat (kMapLen K t)" for b
    using assms(1,4) that by (auto simp: kind_ok_def)
  then show ?thesis using assms(1-3,5) by (simp add: kind_ok_def)
qed

lemma kind_ok_frame:
  assumes "kind_ok K t" "linkPoolLen t' = linkPoolLen t" "kMap K t' = kMap K t" "kMapLen K t' = kMapLen K t"
    and k: "\<And>j. in_kind K t' j \<longleftrightarrow> in_kind K t j"
    and l: "\<And>j. in_kind K t j \<Longrightarrow> kAddr K (lk t' j) = kAddr K (lk t j) \<and> kNext K (lk t' j) = kNext K (lk t j)"
  shows "kind_ok K t'"
proof -
  have b: "bucket_of K t' = bucket_of K t" using assms(4) by (simp add: bucket_of_def fun_eq_iff)
  have "bucket K t' b xs" if "bucket K t b xs" for b xs
  proof -
    have "set xs = {i. in_kind K t' i \<and> bucket_of K t' (kAddr K (lk t' i)) = b}"
      using that l by (auto simp: bucket_def k b)
    moreover have "idx_chain (linkPoolLen t') (\<lambda>j. kNext K (lk t' j)) (kMap K t' ! b) xs =
        idx_chain (linkPoolLen t) (\<lambda>j. kNext K (lk t j)) (kMap K t ! b) xs"
      unfolding assms(2,3) by (rule idx_chain_cong) (use that l in \<open>auto simp: bucket_def\<close>)
    ultimately show ?thesis using that by (simp add: bucket_def)
  qed
  moreover have "inj_on (\<lambda>i. kAddr K (lk t' i)) {i. in_kind K t' i}"
    using assms(1) l by (auto simp: kind_ok_def k inj_on_def)
  ultimately show ?thesis using assms(1-4) by (intro kind_okI [OF assms(1)]) auto
qed

lemma kind_ok_insert:
  assumes "kind_ok K t" "linkPoolLen t' = linkPoolLen t" "kMapLen K t' = kMapLen K t"
    and i: "i < linkPoolLen t" "\<not> in_kind K t i"
    and fresh: "\<And>j. in_kind K t j \<Longrightarrow> kAddr K (lk t j) \<noteq> kAddr K (lk t' i)"
    and k: "\<And>j. in_kind K t' j \<longleftrightarrow> j = i \<or> in_kind K t j"
    and l: "\<And>j. in_kind K t j \<Longrightarrow> kAddr K (lk t' j) = kAddr K (lk t j) \<and> kNext K (lk t' j) = kNext K (lk t j)"
    and m: "kMap K t' = (kMap K t)[b0 := i]" "kNext K (lk t' i) = kMap K t ! b0"
    and b0: "b0 = bucket_of K t (kAddr K (lk t' i))" "b0 < unat (kMapLen K t)"
  shows "kind_ok K t'"
proof -
  have b: "bucket_of K t' = bucket_of K t" using assms(3) by (simp add: bucket_of_def fun_eq_iff)
  have len: "length (kMap K t) = unat (kMapLen K t)" using assms(1) by (simp add: kind_ok_def)
  have bk: "bucket K t' b (if b = b0 then i # xs else xs)" if "bucket K t b xs" for b xs
  proof -
    have "i \<notin> set xs" using that i(2) by (simp add: bucket_def)
    have "set (if b = b0 then i # xs else xs) = {i. in_kind K t' i \<and> bucket_of K t' (kAddr K (lk t' i)) = b}"
      using that l i(2) b0(1) by (auto simp: bucket_def k b)
    moreover have "idx_chain (linkPoolLen t') (\<lambda>j. kNext K (lk t' j)) s xs =
        idx_chain (linkPoolLen t) (\<lambda>j. kNext K (lk t j)) s xs" for s
      unfolding assms(2) by (rule idx_chain_cong) (use that l in \<open>auto simp: bucket_def\<close>)
    moreover have "kMap K t' ! b = (if b = b0 then i else kMap K t ! b)" using m(1) b0(2) len by simp
    moreover have "distinct xs" "idx_chain (linkPoolLen t) (\<lambda>j. kNext K (lk t j)) (kMap K t ! b) xs"
      using that by (simp_all add: bucket_def)
    ultimately show ?thesis using i(1) m(2) \<open>i \<notin> set xs\<close> assms(2) by (simp add: bucket_def split: if_splits)
  qed
  moreover have "inj_on (\<lambda>i. kAddr K (lk t' i)) {i. in_kind K t' i}"
  proof (rule inj_onI)
    fix p q assume pq: "p \<in> {i. in_kind K t' i}" "q \<in> {i. in_kind K t' i}" "kAddr K (lk t' p) = kAddr K (lk t' q)"
    consider "p = i" "q = i" | "p = i" "in_kind K t q" | "q = i" "in_kind K t p" | "in_kind K t p" "in_kind K t q"
      using pq(1,2) unfolding mem_Collect_eq k by blast
    then show "p = q"
    proof cases
      case 4
      then have "kAddr K (lk t p) = kAddr K (lk t q)" using pq(3) by (simp add: l)
      then show ?thesis using 4 assms(1) unfolding kind_ok_def inj_on_def by blast
    qed (use fresh l pq(3) in metis)+
  qed
  moreover have "length (kMap K t') = length (kMap K t)" using m(1) by simp
  moreover have "\<exists>xs'. bucket K t' b xs'" if "bucket K t b xs" for b xs
    using bk [OF that] by (rule exI)
  ultimately show ?thesis by (intro kind_okI [OF assms(1,3)])
qed

lemma kind_ok_remove:
  assumes "kind_ok K t" "linkPoolLen t' = linkPoolLen t" "kMapLen K t' = kMapLen K t"
    and i: "in_kind K t i" and b0: "b0 = bucket_of K t (kAddr K (lk t i))" "b0 < unat (kMapLen K t)"
    and x: "bucket K t b0 (ys @ i # zs)"
    and k: "\<And>j. in_kind K t' j \<longleftrightarrow> j \<noteq> i \<and> in_kind K t j"
    and a: "\<And>j. in_kind K t' j \<Longrightarrow> kAddr K (lk t' j) = kAddr K (lk t j)"
    and m: "kMap K t' = (if ys = [] then (kMap K t)[b0 := kNext K (lk t i)] else kMap K t)"
    and n: "\<And>j. in_kind K t' j \<Longrightarrow>
      kNext K (lk t' j) = (if ys \<noteq> [] \<and> j = last ys then kNext K (lk t i) else kNext K (lk t j))"
  shows "kind_ok K t'"
proof -
  have b: "bucket_of K t' = bucket_of K t" using assms(3) by (simp add: bucket_of_def fun_eq_iff)
  have len: "length (kMap K t) = unat (kMapLen K t)" using assms(1) by (simp add: kind_ok_def)
  have x': "idx_chain (linkPoolLen t) (\<lambda>j. kNext K (lk t j)) (kMap K t ! b0) (ys @ i # zs)" "distinct (ys @ i # zs)"
    "set (ys @ i # zs) = {i. in_kind K t i \<and> bucket_of K t (kAddr K (lk t i)) = b0}"
    using x by (simp_all add: bucket_def)
  have in_t': "in_kind K t' j" if "j \<in> set (ys @ zs)" for j
    using x'(2,3) that unfolding k by auto
  have members: "{j. in_kind K t' j \<and> bucket_of K t' (kAddr K (lk t' j)) = c} =
      {j. in_kind K t j \<and> bucket_of K t (kAddr K (lk t j)) = c} - {i}" for c
  proof -
    have "{j. in_kind K t' j \<and> bucket_of K t' (kAddr K (lk t' j)) = c} =
        {j. in_kind K t' j \<and> bucket_of K t (kAddr K (lk t j)) = c}" by (simp add: a b cong: conj_cong)
    then show ?thesis unfolding k by blast
  qed
  have bk: "bucket K t' b (if b = b0 then ys @ zs else xs)" if "bucket K t b xs" for b xs
  proof (cases "b = b0")
    case True
    have "set (ys @ zs) = {i. in_kind K t' i \<and> bucket_of K t' (kAddr K (lk t' i)) = b0}"
      unfolding members x'(3) [symmetric] using x'(2) by auto
    moreover have "idx_chain (linkPoolLen t) (\<lambda>j. kNext K (lk t' j)) (kMap K t' ! b0) (ys @ zs)"
    proof (cases "ys = []")
      case True
      have "idx_chain (linkPoolLen t) (\<lambda>j. kNext K (lk t j)) (kNext K (lk t i)) zs" using x'(1) True by simp
      also have "?this = idx_chain (linkPoolLen t) (\<lambda>j. kNext K (lk t' j)) (kNext K (lk t i)) zs"
        by (rule idx_chain_cong) (use True in \<open>simp add: n in_t'\<close>)
      finally show ?thesis using True m b0(2) len by simp
    next
      case False
      then have "kMap K t' = kMap K t" using m by simp
      moreover have "kNext K (lk t' (last ys)) = kNext K (lk t i)"
        using False n in_t' [of "last ys"] by simp
      moreover have "kNext K (lk t' j) = kNext K (lk t j)" if "j \<in> set (ys @ zs)" "j \<noteq> last ys" for j
        using that(2) n [OF in_t' [OF that(1)]] by simp
      ultimately show ?thesis
        using idx_chain_remove [OF x'(1,2) False, of "\<lambda>j. kNext K (lk t' j)"] by simp
    qed
    ultimately show ?thesis using True x'(2) assms(2) by (simp add: bucket_def)
  next
    case False
    have s: "set xs = {i. in_kind K t i \<and> bucket_of K t (kAddr K (lk t i)) = b}" using that by (simp add: bucket_def)
    then have i_xs: "i \<notin> set xs" using False b0(1) by auto
    have in_xs: "in_kind K t' j" if "j \<in> set xs" for j using that s i_xs unfolding k by auto
    have "last ys \<in> set (ys @ i # zs)" if "ys \<noteq> []" using that by simp
    then have last: "last ys \<notin> set xs" if "ys \<noteq> []" using that False s x'(3) by auto
    have "idx_chain (linkPoolLen t) (\<lambda>j. kNext K (lk t' j)) (kMap K t ! b) xs =
        idx_chain (linkPoolLen t) (\<lambda>j. kNext K (lk t j)) (kMap K t ! b) xs"
      by (rule idx_chain_cong) (use last in \<open>auto simp: n in_xs\<close>)
    moreover have "set xs = {i. in_kind K t' i \<and> bucket_of K t' (kAddr K (lk t' i)) = b}"
      unfolding members s [symmetric] using i_xs by simp
    moreover have "kMap K t' ! b = kMap K t ! b" using False m by simp
    ultimately show ?thesis using that False assms(2) by (simp add: bucket_def)
  qed
  moreover have "inj_on (\<lambda>i. kAddr K (lk t' i)) {i. in_kind K t' i}"
    using assms(1) a by (auto simp: kind_ok_def inj_on_def k)
  moreover have "length (kMap K t') = length (kMap K t)" using m by simp
  moreover have "\<exists>xs'. bucket K t' b xs'" if "bucket K t b xs" for b xs
    using bk [OF that] by (rule exI)
  ultimately show ?thesis by (intro kind_okI [OF assms(1,3)])
qed

end
