(* ===== verification/Lowpan_LinkTableOps.thy ===== *)
theory Lowpan_LinkTableOps
  imports Lowpan_LinkTableInv
begin

text \<open>
  The operations on one hash map of the link table. The locale \<open>link_kinds\<close> states what they use of
  the kind \<open>K\<close> of addresses that they work on and of the other kind \<open>K'\<close>; it is interpreted twice,
  for the extended and for the short addresses.
\<close>

section \<open>Access to the pool\<close>

lemma lk_link_put:
  assumes "length (linkPool t) = unat (linkPoolLen t)" "i < linkPoolLen t"
  shows "lk (link_put t i l) j = (if j = i then l else lk t j)"
  using assms by (auto simp: lk_def link_put_def word_less_nat_alt nth_list_update word_unat_eq_iff)

lemma link_get_in:
  assumes "length (linkPool t) = unat (linkPoolLen t)" "i < linkPoolLen t"
  shows "link_get t i = Some (lk t i)"
  using assms by (simp add: link_get_def lk_def word_less_nat_alt)

lemma link_put_simps [simp]:
  "linkPoolLen (link_put t i l) = linkPoolLen t" "firstLinkInPool (link_put t i l) = firstLinkInPool t"
  "extAddrHashMap (link_put t i l) = extAddrHashMap t" "shrtAddrHashMap (link_put t i l) = shrtAddrHashMap t"
  "extAddrHashMapLen (link_put t i l) = extAddrHashMapLen t" "shrtAddrHashMapLen (link_put t i l) = shrtAddrHashMapLen t"
  "length (linkPool (link_put t i l)) = length (linkPool t)"
  by (simp_all add: link_put_def)

lemma pool_ok_put:
  "pool_ok t \<Longrightarrow> link_ok i l \<Longrightarrow> i < linkPoolLen t \<Longrightarrow> pool_ok (link_put t i l)"
  by (simp add: pool_ok_def lk_link_put)

lemma pool_ok_D:
  "pool_ok t \<Longrightarrow> length (linkPool t) = unat (linkPoolLen t)"
  "pool_ok t \<Longrightarrow> i < linkPoolLen t \<Longrightarrow> link_ok i (lk t i)"
  by (simp_all add: pool_ok_def)

text \<open>Links that differ only in their place in the chains and in their flags.\<close>

definition same_link :: "lowpan_link \<Rightarrow> lowpan_link \<Rightarrow> bool" where
  "same_link l l' \<longleftrightarrow> extAddr l' = extAddr l \<and> shrtAddr l' = shrtAddr l \<and> quality l' = quality l \<and> mac l' = mac l"

lemma same_link_simps [simp]: "same_link l l" "same_link l (m\<lparr>linkFlags := f\<rparr>) = same_link l m"
  "same_link (l\<lparr>linkFlags := f\<rparr>) m = same_link l m" "same_link l (m\<lparr>nextExtAddrIdx := i\<rparr>) = same_link l m"
  by (simp_all add: same_link_def)

lemma same_link_trans: "same_link l m \<Longrightarrow> same_link m k \<Longrightarrow> same_link l k"
  by (simp add: same_link_def)

section \<open>What the operations use of a kind\<close>

locale link_kinds =
  fixes K K' :: link_kind and n :: nat
  assumes flags: "(f AND NOT (kFlag K)) AND kFlag K' = f AND kFlag K'" "kFlag K AND kFlag K' = 0" "kFlag K \<noteq> 0"
    "whip6_lowpanMeshLinkTableIsLinkAllocatedInternal l \<longleftrightarrow>
       (linkFlags l AND kFlag K) \<noteq> 0 \<or> (linkFlags l AND kFlag K') \<noteq> 0"
    and addr [simp]: "kAddr K (kSetAddr K a l) = a" "kAddr K' (kSetAddr K a l) = kAddr K' l"
    "kNext K (kSetAddr K a l) = kNext K l" "linkFlags (kSetAddr K a l) = linkFlags l"
    and next_idx [simp]: "kNext K (kSetNext K i l) = i" "kNext K' (kSetNext K i l) = kNext K' l"
    "kNext K (kSetNext K' i l) = kNext K l"
    "kAddr K (kSetNext K i l) = kAddr K l" "kAddr K (kSetNext K' i l) = kAddr K l" "kAddr K' (kSetNext K i l) = kAddr K' l"
    "linkFlags (kSetNext K i l) = linkFlags l" "linkFlags (kSetNext K' i l) = linkFlags l"
    and link [simp]: "kAddr K (l\<lparr>linkFlags := f\<rparr>) = kAddr K l" "kNext K (l\<lparr>linkFlags := f\<rparr>) = kNext K l"
    "kAddr K' (l\<lparr>linkFlags := f\<rparr>) = kAddr K' l" "kNext K' (l\<lparr>linkFlags := f\<rparr>) = kNext K' l"
    "kAddr K (l\<lparr>quality := q\<rparr>) = kAddr K l" "kNext K (l\<lparr>quality := q\<rparr>) = kNext K l"
    "kAddr K (l\<lparr>mac := s\<rparr>) = kAddr K l" "kNext K (l\<lparr>mac := s\<rparr>) = kNext K l"
    and same [simp]: "same_link l (kSetNext K i l2) = same_link l l2"
    and ok: "link_ok i (kSetNext K j l) = link_ok i l" "link_ok i (kSetNext K' j l) = link_ok i l"
    "link_ok i l \<Longrightarrow> length (kAddr K l) = n" "link_ok i l \<Longrightarrow> length a = n \<Longrightarrow> link_ok i (kSetAddr K a l)"
    and table [simp]: "kMap K (kSetMap K m t) = m" "kMap K' (kSetMap K m t) = kMap K' t"
    "kMap K (t\<lparr>linkPool := p\<rparr>) = kMap K t" "kMap K' (t\<lparr>linkPool := p\<rparr>) = kMap K' t"
    "kMap K (t\<lparr>firstLinkInPool := i\<rparr>) = kMap K t" "kMap K' (t\<lparr>firstLinkInPool := i\<rparr>) = kMap K' t"
    "kMapLen K (kSetMap K m t) = kMapLen K t" "kMapLen K' (kSetMap K m t) = kMapLen K' t"
    "kMapLen K (t\<lparr>linkPool := p\<rparr>) = kMapLen K t" "kMapLen K' (t\<lparr>linkPool := p\<rparr>) = kMapLen K' t"
    "kMapLen K (t\<lparr>firstLinkInPool := i\<rparr>) = kMapLen K t" "kMapLen K' (t\<lparr>firstLinkInPool := i\<rparr>) = kMapLen K' t"
    "linkPool (kSetMap K m t) = linkPool t" "linkPoolLen (kSetMap K m t) = linkPoolLen t"
    "firstLinkInPool (kSetMap K m t) = firstLinkInPool t"
    and hash: "0 < b \<Longrightarrow> kHash K a b < b" "n \<le> length a \<Longrightarrow> kHash K (take n a) b = kHash K a b"
    and cpy: "n \<le> length a \<Longrightarrow> length d = n \<Longrightarrow> kCpy K a d = Some (take n a)"
    and cmp: "n \<le> length a \<Longrightarrow> length d = n \<Longrightarrow> \<exists>r. kCmp K a d = Some r \<and> (r = 0 \<longleftrightarrow> take n a = d)"

lemma hash_loop_take: "i + m \<le> k \<Longrightarrow> hash_loop (take k a) i m s = hash_loop a i m s"
  by (induction m arbitrary: i s) simp_all

lemma mod_less_u8: "0 < b \<Longrightarrow> (a :: u8) mod b < b"
  by (simp add: word_less_nat_alt unat_mod)

lemma AddrCpy_take:
  "8 \<le> length a \<Longrightarrow> length d = 8 \<Longrightarrow> whip6_ieee154AddrExtCpy a 0 d 0 = Some (take 8 a)"
  "2 \<le> length a \<Longrightarrow> length d = 2 \<Longrightarrow> whip6_ieee154AddrShortCpy a 0 d 0 = Some (take 2 a)"
  by (simp_all add: whip6_ieee154AddrExtCpy_def whip6_ieee154AddrShortCpy_def shortMemCpy_eq ieee154_addr_constants
      mem_blit_def)

lemma AddrCmp_take:
  "8 \<le> length a \<Longrightarrow> length d = 8 \<Longrightarrow> \<exists>r. whip6_ieee154AddrExtCmp a d = Some r \<and> (r = 0 \<longleftrightarrow> take 8 a = d)"
  "2 \<le> length a \<Longrightarrow> length d = 2 \<Longrightarrow> \<exists>r. whip6_ieee154AddrShortCmp a d = Some r \<and> (r = 0 \<longleftrightarrow> take 2 a = d)"
  using shortMemCmp_loop_Some [of 0 8 a 0 d] shortMemCmp_loop_Some [of 0 2 a 0 d]
  by (simp_all add: whip6_ieee154AddrExtCmp_def whip6_ieee154AddrShortCmp_def ieee154_addr_constants
      whip6_shortMemCmp_def)

lemma allocated_flags:
  "(f AND (WHIP6_6LOWPAN_LINK_FLAG_HAS_EXT_ADDR OR WHIP6_6LOWPAN_LINK_FLAG_HAS_SHORT_ADDR) \<noteq> 0) \<longleftrightarrow>
   f AND WHIP6_6LOWPAN_LINK_FLAG_HAS_EXT_ADDR \<noteq> 0 \<or> f AND WHIP6_6LOWPAN_LINK_FLAG_HAS_SHORT_ADDR \<noteq> 0"
  by (simp only: bit.conj_disj_distrib or_eq_0_iff de_Morgan_conj)

lemmas link_kind_defs = same_link_def ext_kind_def short_kind_def link_ok_def AddrCpy_take AddrCmp_take hash_loop_take mod_less_u8
  whip6_lowpanMeshLinkTableHashExtAddr_def whip6_lowpanMeshLinkTableHashShortAddr_def
  whip6_lowpanMeshLinkTableIsLinkAllocatedInternal_def allocated_flags

lemma kind_flags:
  "(f AND NOT WHIP6_6LOWPAN_LINK_FLAG_HAS_EXT_ADDR) AND WHIP6_6LOWPAN_LINK_FLAG_HAS_SHORT_ADDR =
     f AND WHIP6_6LOWPAN_LINK_FLAG_HAS_SHORT_ADDR"
  "(f AND NOT WHIP6_6LOWPAN_LINK_FLAG_HAS_SHORT_ADDR) AND WHIP6_6LOWPAN_LINK_FLAG_HAS_EXT_ADDR =
     f AND WHIP6_6LOWPAN_LINK_FLAG_HAS_EXT_ADDR"
  by (simp_all add: link_constants and.assoc)

interpretation ext: link_kinds ext_kind short_kind 8
  by unfold_locales (auto simp: link_kind_defs kind_flags, simp_all add: link_constants)

interpretation short: link_kinds short_kind ext_kind 2
  by unfold_locales (auto simp: link_kind_defs kind_flags, simp_all add: link_constants)

section \<open>Loops along a chain\<close>

lemma chain_find_loop_eq:
  assumes "length (linkPool t) = unat (linkPoolLen t)"
  shows "idx_chain (linkPoolLen t) (\<lambda>j. kNext K (lk t j)) s (ys @ i # zs) \<Longrightarrow> i \<notin> set ys \<Longrightarrow>
    chain_find_loop K t i prev s = Some (if ys = [] then prev else Some (last ys), i)"
proof (induction ys arbitrary: prev s)
  case Nil
  then show ?case by (subst chain_find_loop.simps) simp
next
  case (Cons y ys)
  then have "s = y" "y < linkPoolLen t" "y \<noteq> i" by auto
  then show ?case using Cons.prems
    by (subst chain_find_loop.simps) (simp add: link_get_in [OF assms] Cons.IH)
qed

definition found :: "u8 option \<Rightarrow> u8" where
  "found x = (case x of None \<Rightarrow> WHIP6_6LOWPAN_INVALID_LINK_IDX | Some i \<Rightarrow> i)"

lemma find_same:
  assumes "\<And>x y. x \<in> set xs \<Longrightarrow> y \<in> set xs \<Longrightarrow> P x \<Longrightarrow> P y \<Longrightarrow> x = y"
    and "\<And>x. x \<in> set xs \<and> P x \<longleftrightarrow> x \<in> set ys \<and> Q x"
  shows "List.find P xs = List.find Q ys"
proof (cases "List.find P xs")
  case None
  then have "List.find Q ys = None" using assms(2) by (auto simp: find_None_iff)
  then show ?thesis using None by simp
next
  case (Some x)
  then have x: "x \<in> set xs" "P x" by (auto simp: find_Some_iff)
  then obtain y where y: "List.find Q ys = Some y"
    using assms(2) [of x] by (cases "List.find Q ys") (auto simp: find_None_iff)
  then have "y \<in> set ys" "Q y" by (auto simp: find_Some_iff)
  then have "y = x" using assms(1) [of y x] assms(2) x by blast
  then show ?thesis using Some y by simp
qed

section \<open>Lookup, removal and insertion\<close>

text \<open>What removing link \<open>i\<close> from a hash map leaves as it is.\<close>

definition unlinked :: "link_kind \<Rightarrow> lowpan_link_table \<Rightarrow> u8 \<Rightarrow> lowpan_link_table \<Rightarrow> bool" where
  "unlinked K t i t' \<longleftrightarrow>
     linkPoolLen t' = linkPoolLen t \<and> firstLinkInPool t' = firstLinkInPool t \<and>
     (\<forall>j. linkFlags (lk t' j) = (if j = i then linkFlags (lk t i) AND NOT (kFlag K) else linkFlags (lk t j))) \<and>
     (\<forall>j. same_link (lk t j) (lk t' j)) \<and>
     (\<forall>j. j \<noteq> i \<and> \<not> whip6_lowpanMeshLinkTableIsLinkAllocatedInternal (lk t j) \<longrightarrow> lk t' j = lk t j)"

lemma and_not_none: "f AND k = 0 \<Longrightarrow> f AND NOT k = (f :: u8)"
  by (metis bit.conj_disj_distrib bit.disj_cancel_right bit.conj_one_right or.left_neutral)

lemma and_not_self: "(f AND NOT k) AND k = (0 :: u8)"
  by (simp add: and.assoc)

lemma link_ok_flags: "link_ok i (l\<lparr>linkFlags := f\<rparr>) = link_ok i l" "link_ok i (l\<lparr>quality := q\<rparr>) = link_ok i l"
  "link_ok i (l\<lparr>mac := m\<rparr>) = link_ok i l" "link_ok i (l\<lparr>nextExtAddrIdx := j\<rparr>) = link_ok i l"
  by (simp_all add: link_ok_def)

context link_kinds
begin

lemma addr_length: "pool_ok t \<Longrightarrow> i < linkPoolLen t \<Longrightarrow> length (kAddr K (lk t i)) = n"
  using ok(3) pool_ok_D(2) by blast

lemma bucket_of_less: "kind_ok K t \<Longrightarrow> bucket_of K t a < unat (kMapLen K t)"
  using hash(1) [of "kMapLen K t" a] by (simp add: bucket_of_def kind_ok_def word_less_nat_alt)

lemma bucket_get: "kind_ok K t \<Longrightarrow> buf_get (kMap K t) (bucket_of K t a) = Some (kMap K t ! bucket_of K t a)"
  using bucket_of_less by (simp add: kind_ok_def)

lemma lookup_loop_eq:
  assumes "pool_ok t" "n \<le> length a"
  shows "idx_chain (linkPoolLen t) (\<lambda>j. kNext K (lk t j)) s xs \<Longrightarrow>
    chain_lookup_loop K t a s = Some (found (List.find (\<lambda>j. kAddr K (lk t j) = take n a) xs))"
proof (induction xs arbitrary: s)
  case Nil
  then show ?case by (subst chain_lookup_loop.simps) (simp add: found_def)
next
  case (Cons x xs)
  then have x: "s = x" "x < linkPoolLen t" by auto
  from cmp [OF assms(2) addr_length [OF assms(1) x(2)]] obtain r where
    "kCmp K a (kAddr K (lk t x)) = Some r" "r = 0 \<longleftrightarrow> take n a = kAddr K (lk t x)" by blast
  then show ?case using Cons x
    by (subst chain_lookup_loop.simps)
      (auto simp: link_get_in [OF pool_ok_D(1) [OF assms(1)]] found_def)
qed

lemma lookup_eq:
  assumes "pool_ok t" "kind_ok K t" "n \<le> length a"
    and "set is = {i. i < linkPoolLen t}"
  shows "chain_lookup K t a =
    Some (found (List.find (\<lambda>i. linkFlags (lk t i) AND kFlag K \<noteq> 0 \<and> kAddr K (lk t i) = take n a) is))"
proof -
  obtain xs where xs: "bucket K t (bucket_of K t a) xs"
    using assms(2) bucket_of_less [OF assms(2)] by (auto simp: kind_ok_def)
  have "bucket_of K t (take n a) = bucket_of K t a" using hash(2) [OF assms(3)] by (simp add: bucket_of_def)
  then have "x \<in> set xs \<and> kAddr K (lk t x) = take n a \<longleftrightarrow>
      x \<in> set is \<and> linkFlags (lk t x) AND kFlag K \<noteq> 0 \<and> kAddr K (lk t x) = take n a" for x
    using xs assms(4) by (auto simp: bucket_def in_kind_def)
  moreover have "x = y" if "x \<in> set xs" "y \<in> set xs" "kAddr K (lk t x) = take n a" "kAddr K (lk t y) = take n a" for x y
    using that assms(2) xs unfolding kind_ok_def inj_on_def bucket_def by (metis (mono_tags, lifting) mem_Collect_eq)
  ultimately have "List.find (\<lambda>j. kAddr K (lk t j) = take n a) xs =
      List.find (\<lambda>i. linkFlags (lk t i) AND kFlag K \<noteq> 0 \<and> kAddr K (lk t i) = take n a) is"
    by (intro find_same)
  moreover have "chain_lookup_loop K t a (kMap K t ! bucket_of K t a) =
      Some (found (List.find (\<lambda>j. kAddr K (lk t j) = take n a) xs))"
    by (rule lookup_loop_eq [OF assms(1,3)]) (use xs in \<open>simp add: bucket_def\<close>)
  ultimately show ?thesis using bucket_get [OF assms(2), of a]
    by (simp add: chain_lookup_def flip: bucket_of_def)
qed

lemma remove_eq:
  assumes p: "pool_ok t" and k: "kind_ok K t" "kind_ok K' t" and i: "i < linkPoolLen t"
  shows "\<exists>t'. remove_from_hash_table K t i = Some t' \<and> pool_ok t' \<and> kind_ok K t' \<and> kind_ok K' t' \<and>
    unlinked K t i t'"
proof (cases "linkFlags (lk t i) AND kFlag K = 0")
  case True
  then have "unlinked K t i t" by (auto simp: unlinked_def and_not_none)
  then show ?thesis using True assms by (simp add: remove_from_hash_table_def link_get_in [OF pool_ok_D(1)])
next
  case False
  note len = pool_ok_D(1) [OF p]
  let ?l = "lk t i" let ?b = "bucket_of K t (kAddr K ?l)"
  have idx: "linkIdx ?l = i" using pool_ok_D(2) [OF p i] by (simp add: link_ok_def)
  have in_i: "in_kind K t i" using False i by (simp add: in_kind_def)
  obtain xs where xs: "bucket K t ?b xs" using k(1) bucket_of_less [OF k(1)] by (auto simp: kind_ok_def)
  then have "i \<in> set xs" using in_i by (auto simp: bucket_def)
  then obtain ys zs where ys: "xs = ys @ i # zs" by (meson split_list)
  then have i_ys: "i \<notin> set ys" using xs by (simp add: bucket_def)
  have find: "chain_find_loop K t i None (kMap K t ! ?b) = Some (if ys = [] then None else Some (last ys), i)"
    by (rule chain_find_loop_eq [OF len]) (use xs ys i_ys in \<open>auto simp: bucket_def\<close>)
  have last: "last ys < linkPoolLen t" "last ys \<noteq> i" "in_kind K t (last ys)" if "ys \<noteq> []"
  proof -
    have "last ys \<in> set xs" using that ys by simp
    then show "in_kind K t (last ys)" "last ys < linkPoolLen t" using xs by (auto simp: bucket_def in_kind_def)
    show "last ys \<noteq> i" using that i_ys last_in_set by metis
  qed
  define t1 where "t1 = (if ys = [] then kSetMap K ((kMap K t)[?b := kNext K ?l]) t
      else link_put t (last ys) (kSetNext K (kNext K ?l) (lk t (last ys))))"
  define l' where "l' = kSetNext K WHIP6_6LOWPAN_INVALID_LINK_IDX (?l\<lparr>linkFlags := linkFlags ?l AND NOT (kFlag K)\<rparr>)"
  have l': "linkFlags l' = linkFlags ?l AND NOT (kFlag K)" "kAddr K l' = kAddr K ?l" "kAddr K' l' = kAddr K' ?l"
    "kNext K' l' = kNext K' ?l" "same_link ?l l'" "link_ok j l' = link_ok j ?l" for j
    by (simp_all add: l'_def ok link_ok_flags)
  have t1: "linkPoolLen t1 = linkPoolLen t" "length (linkPool t1) = unat (linkPoolLen t1)" "firstLinkInPool t1 = firstLinkInPool t"
    "lk t1 j = (if ys \<noteq> [] \<and> j = last ys then kSetNext K (kNext K ?l) (lk t j) else lk t j)" for j
    using len lk_link_put [OF len last(1)] by (auto simp: t1_def lk_def)
  have run: "remove_from_hash_table K t i = Some (link_put t1 i l')"
  proof -
    have get: "link_get t1 i = Some ?l" using i last(2) by (auto simp: link_get_in t1)
    have start: "remove_from_hash_table K t i = do { t' \<leftarrow> (case (if ys = [] then None else Some (last ys)) of
             None \<Rightarrow> Some (kSetMap K ((kMap K t)[?b := kNext K ?l]) t)
           | Some p \<Rightarrow> do { prev \<leftarrow> link_get t p; Some (link_put t p (kSetNext K (kNext K ?l) prev)) });
         link \<leftarrow> link_get t' i;
         Some (link_put t' i (kSetNext K WHIP6_6LOWPAN_INVALID_LINK_IDX
                          (link\<lparr>linkFlags := linkFlags link AND NOT (kFlag K)\<rparr>))) }"
      using False i find bucket_get [OF k(1), of "kAddr K ?l"] i [folded not_le]
      by (simp add: remove_from_hash_table_def link_get_in [OF len] idx flip: bucket_of_def)
    show ?thesis
    proof (cases "ys = []")
      case True
      then show ?thesis using get unfolding start by (simp add: t1_def l'_def)
    next
      case False
      then show ?thesis using get last(1) unfolding start by (simp add: t1_def l'_def link_get_in [OF len])
    qed
  qed
  let ?t' = "link_put t1 i l'"
  have lk': "lk ?t' j = (if j = i then l' else if ys \<noteq> [] \<and> j = last ys then kSetNext K (kNext K ?l) (lk t j) else lk t j)" for j
    using i by (simp add: lk_link_put t1)
  have maps: "kMap K ?t' = (if ys = [] then (kMap K t)[?b := kNext K ?l] else kMap K t)" "kMap K' ?t' = kMap K' t"
    "kMapLen K ?t' = kMapLen K t" "kMapLen K' ?t' = kMapLen K' t"
    by (simp_all add: t1_def link_put_def)
  have flags': "linkFlags (lk ?t' j) = (if j = i then linkFlags ?l AND NOT (kFlag K) else linkFlags (lk t j))" for j
    by (simp add: lk' l')
  have "pool_ok ?t'"
    unfolding pool_ok_def using p i by (auto simp: lk' l' ok t1 pool_ok_def link_ok_flags)
  moreover have "kind_ok K ?t'"
  proof (rule kind_ok_remove [OF k(1) _ _ in_i refl bucket_of_less [OF k(1)] xs [unfolded ys]])
    fix j
    show in_t': "in_kind K ?t' j \<longleftrightarrow> j \<noteq> i \<and> in_kind K t j" by (auto simp: in_kind_def flags' t1 and_not_self)
    show "kAddr K (lk ?t' j) = kAddr K (lk t j)" by (auto simp: lk' l')
    assume "in_kind K ?t' j"
    then have "j \<noteq> i" unfolding in_t' by blast
    then show "kNext K (lk ?t' j) = (if ys \<noteq> [] \<and> j = last ys then kNext K (lk t i) else kNext K (lk t j))"
      by (simp add: lk')
  qed (simp_all add: maps t1)
  moreover have "kind_ok K' ?t'"
  proof (rule kind_ok_frame [OF k(2)])
    fix j
    show "in_kind K' ?t' j \<longleftrightarrow> in_kind K' t j" by (auto simp: in_kind_def flags' t1 flags(1))
    show "kAddr K' (lk ?t' j) = kAddr K' (lk t j) \<and> kNext K' (lk ?t' j) = kNext K' (lk t j)" by (auto simp: lk' l')
  qed (simp_all add: maps t1)
  moreover have "unlinked K t i ?t'"
    unfolding unlinked_def
  proof (intro conjI allI impI)
    fix j
    show "linkFlags (lk ?t' j) = (if j = i then linkFlags ?l AND NOT (kFlag K) else linkFlags (lk t j))" by (rule flags')
    show "same_link (lk t j) (lk ?t' j)" by (auto simp: lk' l')
    assume "j \<noteq> i \<and> \<not> whip6_lowpanMeshLinkTableIsLinkAllocatedInternal (lk t j)"
    then show "lk ?t' j = lk t j" using last(3) unfolding lk' flags(4) by (auto simp: in_kind_def)
  qed (simp_all add: t1)
  ultimately show ?thesis using run by blast
qed

lemma allocate_eq:
  assumes p: "pool_ok t" and k: "kind_ok K t" "kind_ok K' t"
    and i: "firstLinkInPool t = i" "i < linkPoolLen t" "\<not> whip6_lowpanMeshLinkTableIsLinkAllocatedInternal (lk t i)"
    and a: "n \<le> length a" "\<And>j. in_kind K t j \<Longrightarrow> kAddr K (lk t j) \<noteq> take n a"
  shows "\<exists>t'. allocate_link K K' t a = Some (t', i) \<and> pool_ok t' \<and> kind_ok K t' \<and> kind_ok K' t' \<and>
    linkPoolLen t' = linkPoolLen t \<and> firstLinkInPool t' = nextExtAddrIdx (lk t i) \<and>
    (\<forall>j. j \<noteq> i \<longrightarrow> lk t' j = lk t j) \<and> linkFlags (lk t' i) = kFlag K \<and> kAddr K (lk t' i) = take n a"
proof -
  note len = pool_ok_D(1) [OF p]
  let ?b = "bucket_of K t a"
  define l where "l = whip6_lowpanMeshLinkTableResetMACState (whip6_lowpanMeshLinkTableResetLinkQuality
      (kSetNext K' WHIP6_6LOWPAN_INVALID_LINK_IDX (kSetNext K (kMap K t ! ?b)
        (kSetAddr K (take n a) (lk t i\<lparr>linkFlags := kFlag K\<rparr>)))))"
  define t' where "t' = link_put (kSetMap K ((kMap K t)[?b := i])
      (t\<lparr>firstLinkInPool := nextExtAddrIdx (lk t i)\<rparr>)) i l"
  have l: "linkFlags l = kFlag K" "kAddr K l = take n a" "kNext K l = kMap K t ! ?b"
    by (simp_all add: l_def whip6_lowpanMeshLinkTableResetMACState_def whip6_lowpanMeshLinkTableResetLinkQuality_def)
  have l_ok: "link_ok i l" using pool_ok_D(2) [OF p i(2)] a(1)
    by (simp add: l_def whip6_lowpanMeshLinkTableResetMACState_def whip6_lowpanMeshLinkTableResetLinkQuality_def
        ok link_ok_flags)
  have run: "allocate_link K K' t a = Some (t', i)"
    using bucket_get [OF k(1), of a] cpy [OF a(1), of "kAddr K (lk t i)"] addr_length [OF p i(2)]
    by (simp add: allocate_link_def i(1) link_get_in [OF len i(2)] t'_def l_def bucket_of_def Let_def)
  have len': "length (linkPool t') = unat (linkPoolLen t')" using len by (simp add: t'_def)
  have lk': "lk t' j = (if j = i then l else lk t j)" for j
    unfolding t'_def using len i(2) by (subst lk_link_put) (auto simp: lk_def)
  have t': "kMap K t' = (kMap K t)[?b := i]" "kMap K' t' = kMap K' t" "kMapLen K t' = kMapLen K t" "kMapLen K' t' = kMapLen K' t"
    "linkPoolLen t' = linkPoolLen t" "firstLinkInPool t' = nextExtAddrIdx (lk t i)"
    by (simp_all add: t'_def link_put_def)
  have free: "linkFlags (lk t i) AND kFlag K = 0" "linkFlags (lk t i) AND kFlag K' = 0"
    using i(3) unfolding flags(4) by simp_all
  have in_K: "in_kind K t' j \<longleftrightarrow> j = i \<or> in_kind K t j" for j
    using i(2) flags(3) by (auto simp: in_kind_def lk' l t')
  have in_K': "in_kind K' t' j \<longleftrightarrow> in_kind K' t j" for j
    using free flags(2) by (auto simp: in_kind_def lk' l t')
  have "pool_ok t'" using p len' l_ok unfolding pool_ok_def by (simp add: t' lk')
  moreover have "kind_ok K t'"
  proof (rule kind_ok_insert [OF k(1) t'(5,3) i(2) _ _ in_K _ t'(1)])
    show "\<not> in_kind K t i" using free by (simp add: in_kind_def)
    then show "kAddr K (lk t' j) = kAddr K (lk t j) \<and> kNext K (lk t' j) = kNext K (lk t j)" if "in_kind K t j" for j
      using that by (auto simp: lk')
    show "bucket_of K t a < unat (kMapLen K t)" by (rule bucket_of_less [OF k(1)])
  qed (use a in \<open>simp_all add: lk' l bucket_of_def hash(2)\<close>)
  moreover have "kind_ok K' t'"
    by (rule kind_ok_frame [OF k(2) t'(5,2,4) in_K']) (use free in \<open>auto simp: lk' in_kind_def\<close>)
  ultimately show ?thesis using run by (auto simp: t' lk' l)
qed

end

end
