(* ===== verification/Lowpan_LinkTableSpec.thy ===== *)
theory Lowpan_LinkTableSpec
  imports Lowpan_LinkTableOps
begin

text \<open>
  What the link table promises: a lookup is a linear search for the address, the table stays well
  formed under every operation, and a link is found or created without disturbing the others.
\<close>

section \<open>Lookup\<close>

definition link_has_addr :: "lowpan_link \<Rightarrow> ieee154_addr \<Rightarrow> bool" where
  "link_has_addr link addr \<longleftrightarrow>
     (if addrMode addr = IEEE154_ADDR_MODE_SHORT
      then linkFlags link AND WHIP6_6LOWPAN_LINK_FLAG_HAS_SHORT_ADDR \<noteq> 0 \<and> shrtAddr link = take 2 (addrVars addr)
      else addrMode addr = IEEE154_ADDR_MODE_EXT \<and>
        linkFlags link AND WHIP6_6LOWPAN_LINK_FLAG_HAS_EXT_ADDR \<noteq> 0 \<and> extAddr link = take 8 (addrVars addr))"

definition indices :: "lowpan_link_table \<Rightarrow> u8 list" where
  "indices t = map of_nat [0..<unat (linkPoolLen t)]"

definition link_search :: "lowpan_link_table \<Rightarrow> ieee154_addr \<Rightarrow> u8" where
  "link_search t addr = found (List.find (\<lambda>i. link_has_addr (lk t i) addr) (indices t))"

lemma set_indices: "set (indices t) = {i. i < linkPoolLen t}"
proof -
  have "i \<in> of_nat ` {0..<unat (linkPoolLen t)}" if "i < linkPoolLen t" for i
    using that by (intro image_eqI [of _ _ "unat i"]) (simp_all add: word_less_nat_alt)
  moreover have "(of_nat k :: u8) < linkPoolLen t" if "k < unat (linkPoolLen t)" for k
  proof -
    have "k < 256" using that unat_u8_less [of "linkPoolLen t"] by linarith
    then show ?thesis using that by (simp add: word_less_nat_alt unat_of_nat)
  qed
  ultimately show ?thesis by (auto simp: indices_def)
qed

lemma found_find:
  "found (List.find P (indices t)) = WHIP6_6LOWPAN_INVALID_LINK_IDX \<longleftrightarrow> (\<forall>i<linkPoolLen t. \<not> P i)"
  "found (List.find P (indices t)) \<noteq> WHIP6_6LOWPAN_INVALID_LINK_IDX \<Longrightarrow>
     found (List.find P (indices t)) < linkPoolLen t \<and> P (found (List.find P (indices t)))"
proof -
  have s: "x < linkPoolLen t \<and> P x" if "List.find P (indices t) = Some x" for x
    using that set_indices [of t] by (auto simp: find_Some_iff dest: nth_mem)
  show "found (List.find P (indices t)) = WHIP6_6LOWPAN_INVALID_LINK_IDX \<longleftrightarrow> (\<forall>i<linkPoolLen t. \<not> P i)"
  proof (cases "List.find P (indices t)")
    case None
    then have "\<forall>i<linkPoolLen t. \<not> P i" using set_indices [of t] by (auto simp: find_None_iff)
    then show ?thesis using None by (simp add: found_def)
  next
    case (Some x)
    then show ?thesis using s [OF Some] less_not_invalid by (auto simp: found_def)
  qed
  show "found (List.find P (indices t)) < linkPoolLen t \<and> P (found (List.find P (indices t)))"
    if "found (List.find P (indices t)) \<noteq> WHIP6_6LOWPAN_INVALID_LINK_IDX"
    using that s by (cases "List.find P (indices t)") (auto simp: found_def)
qed

lemma lookup_search:
  assumes "table_ok t" "length (addrVars addr) = 8"
  shows "whip6_lowpanMeshLinkTableLookupLink t addr = Some (link_search t addr)"
proof -
  have ok: "pool_ok t" "kind_ok ext_kind t" "kind_ok short_kind t" using assms(1) by (simp_all add: table_ok_def)
  have s: "chain_lookup short_kind t (addrVars addr) = Some (link_search t addr)"
    if "addrMode addr = IEEE154_ADDR_MODE_SHORT"
    using short.lookup_eq [OF ok(1,3) _ set_indices, of "addrVars addr"] assms(2) that
    by (simp add: link_search_def link_has_addr_def short_kind_def)
  have e: "chain_lookup ext_kind t (addrVars addr) = Some (link_search t addr)"
    if "addrMode addr = IEEE154_ADDR_MODE_EXT"
    using ext.lookup_eq [OF ok(1,2) _ set_indices, of "addrVars addr"] assms(2) that
    by (simp add: link_search_def link_has_addr_def ext_kind_def ieee154_addr_constants)
  have none: "link_search t addr = WHIP6_6LOWPAN_INVALID_LINK_IDX"
    if "addrMode addr \<noteq> IEEE154_ADDR_MODE_SHORT" "addrMode addr \<noteq> IEEE154_ADDR_MODE_EXT"
    using that by (simp add: link_search_def found_find(1) link_has_addr_def)
  have "link_search t addr < linkPoolLen t" if "link_search t addr \<noteq> WHIP6_6LOWPAN_INVALID_LINK_IDX"
    using that found_find(2) [of "\<lambda>i. link_has_addr (lk t i) addr" t] by (simp add: link_search_def)
  then show ?thesis using s e none
    by (cases "link_search t addr = WHIP6_6LOWPAN_INVALID_LINK_IDX")
      (auto simp: whip6_lowpanMeshLinkTableLookupLink_def)
qed

section \<open>Changes that keep the links in their places\<close>

definition same_place :: "lowpan_link \<Rightarrow> lowpan_link \<Rightarrow> bool" where
  "same_place l l' \<longleftrightarrow>
     extAddr l' = extAddr l \<and> shrtAddr l' = shrtAddr l \<and> linkIdx l' = linkIdx l \<and>
     nextExtAddrIdx l' = nextExtAddrIdx l \<and> nextShrtAddrIdx l' = nextShrtAddrIdx l \<and>
     linkFlags l' AND WHIP6_6LOWPAN_LINK_FLAG_HAS_EXT_ADDR = linkFlags l AND WHIP6_6LOWPAN_LINK_FLAG_HAS_EXT_ADDR \<and>
     linkFlags l' AND WHIP6_6LOWPAN_LINK_FLAG_HAS_SHORT_ADDR = linkFlags l AND WHIP6_6LOWPAN_LINK_FLAG_HAS_SHORT_ADDR"

lemma same_place_refl [simp]: "same_place l l"
  by (simp add: same_place_def)

lemma same_place_trans: "same_place l m \<Longrightarrow> same_place m k \<Longrightarrow> same_place l k"
  by (simp add: same_place_def)

lemma same_place_allocated: "same_place l l' \<Longrightarrow>
  whip6_lowpanMeshLinkTableIsLinkAllocatedInternal l' = whip6_lowpanMeshLinkTableIsLinkAllocatedInternal l"
  by (simp add: same_place_def whip6_lowpanMeshLinkTableIsLinkAllocatedInternal_def allocated_flags)

lemma table_ok_update:
  assumes "table_ok t" "length p = length (linkPool t)" "\<And>i. i < length p \<Longrightarrow> same_place (linkPool t ! i) (p ! i)"
  shows "table_ok (t\<lparr>linkPool := p\<rparr>)"
proof -
  let ?t' = "t\<lparr>linkPool := p\<rparr>"
  have ok: "pool_ok t" "free_ok t" "kind_ok ext_kind t" "kind_ok short_kind t" using assms(1) by (simp_all add: table_ok_def)
  have pl: "same_place (lk t i) (lk ?t' i)" if "i < linkPoolLen t" for i
    using assms(2,3) pool_ok_D(1) [OF ok(1)] that by (simp add: lk_def word_less_nat_alt)
  have "pool_ok ?t'" using ok(1) pl assms(2) by (auto simp: pool_ok_def link_ok_def same_place_def)
  moreover have "kind_ok ext_kind ?t'"
    by (rule kind_ok_frame [OF ok(3)]) (use pl in \<open>auto simp: in_kind_def ext_kind_def same_place_def\<close>)
  moreover have "kind_ok short_kind ?t'"
    by (rule kind_ok_frame [OF ok(4)]) (use pl in \<open>auto simp: in_kind_def short_kind_def same_place_def\<close>)
  moreover have "free_ok ?t'"
  proof -
    from ok(2) obtain xs where xs:
      "idx_chain (linkPoolLen t) (\<lambda>j. nextExtAddrIdx (lk t j)) (firstLinkInPool t) xs" "distinct xs"
      "set xs = {i. i < linkPoolLen t \<and> \<not> whip6_lowpanMeshLinkTableIsLinkAllocatedInternal (lk t i)}"
      by (auto simp: free_ok_def)
    have "idx_chain (linkPoolLen t) (\<lambda>j. nextExtAddrIdx (lk ?t' j)) (firstLinkInPool t) xs"
      using xs(1) idx_chain_cong [of xs "\<lambda>j. nextExtAddrIdx (lk ?t' j)" "\<lambda>j. nextExtAddrIdx (lk t j)"] xs(3) pl
      by (simp add: same_place_def)
    moreover have "set xs = {i. i < linkPoolLen ?t' \<and> \<not> whip6_lowpanMeshLinkTableIsLinkAllocatedInternal (lk ?t' i)}"
      using xs(3) pl same_place_allocated by auto
    ultimately show ?thesis using xs(2) unfolding free_ok_def by auto
  qed
  ultimately show ?thesis by (simp add: table_ok_def)
qed

section \<open>Removal\<close>

lemma and_not_not: "((f AND NOT a) AND NOT b) AND a = (0 :: u8)"
  by (rule bit_eqI) (auto simp: bit_simps)

lemma unlinked_allocated:
  "unlinked K t i t' \<Longrightarrow> j \<noteq> i \<Longrightarrow> whip6_lowpanMeshLinkTableIsLinkAllocatedInternal (lk t' j) =
    whip6_lowpanMeshLinkTableIsLinkAllocatedInternal (lk t j)"
  by (simp add: unlinked_def whip6_lowpanMeshLinkTableIsLinkAllocatedInternal_def)

lemma no_kind_frame:
  assumes "kind_ok K t" "\<not> in_kind K t i" "\<not> in_kind K t' i" "linkPoolLen t' = linkPoolLen t" "kMap K t' = kMap K t"
    "kMapLen K t' = kMapLen K t" "\<And>j. j \<noteq> i \<Longrightarrow> lk t' j = lk t j"
  shows "kind_ok K t'"
proof (rule kind_ok_frame [OF assms(1,4-6)])
  fix j
  show "in_kind K t' j = in_kind K t j" using assms(2-4,7) by (cases "j = i") (auto simp: in_kind_def)
  show "kAddr K (lk t' j) = kAddr K (lk t j) \<and> kNext K (lk t' j) = kNext K (lk t j)" if "in_kind K t j"
    using assms(2,7) that by (cases "j = i") auto
qed

lemma remove_table:
  assumes "table_ok t" "i < linkPoolLen t" "whip6_lowpanMeshLinkTableIsLinkAllocatedInternal (lk t i)"
  shows "\<exists>t'. whip6_lowpanMeshLinkTableRemoveExistingLink t i = Some t' \<and> table_ok t' \<and>
    linkPoolLen t' = linkPoolLen t \<and> firstLinkInPool t' = i \<and> linkFlags (lk t' i) = 0 \<and>
    (\<forall>j. j \<noteq> i \<longrightarrow> linkFlags (lk t' j) = linkFlags (lk t j) \<and> same_link (lk t j) (lk t' j))"
proof -
  have ok: "pool_ok t" "free_ok t" "kind_ok ext_kind t" "kind_ok short_kind t" using assms(1) by (simp_all add: table_ok_def)
  from ext.remove_eq [OF ok(1,3,4) assms(2)] obtain t1 where
    t1: "remove_from_hash_table ext_kind t i = Some t1" "pool_ok t1" "kind_ok ext_kind t1" "kind_ok short_kind t1"
      "unlinked ext_kind t i t1" by blast
  have i1: "i < linkPoolLen t1" using t1(5) assms(2) by (simp add: unlinked_def)
  from short.remove_eq [OF t1(2,4,3) i1] obtain t2 where
    t2: "remove_from_hash_table short_kind t1 i = Some t2" "pool_ok t2" "kind_ok short_kind t2" "kind_ok ext_kind t2"
      "unlinked short_kind t1 i t2" by blast
  have i2: "i < linkPoolLen t2" using t2(5) i1 by (simp add: unlinked_def)
  have eq: "linkPoolLen t2 = linkPoolLen t" "firstLinkInPool t2 = firstLinkInPool t"
    "linkFlags (lk t2 i) = (linkFlags (lk t i) AND NOT (kFlag ext_kind)) AND NOT (kFlag short_kind)"
    using t1(5) t2(5) by (simp_all add: unlinked_def)
  have others: "linkFlags (lk t2 j) = linkFlags (lk t j)" "same_link (lk t j) (lk t2 j)" if "j \<noteq> i" for j
    using t1(5) t2(5) that same_link_trans [of "lk t j" "lk t1 j" "lk t2 j"] by (auto simp: unlinked_def)
  have free: "lk t2 j = lk t j" if "j \<noteq> i" "\<not> whip6_lowpanMeshLinkTableIsLinkAllocatedInternal (lk t j)" for j
    using t1(5) t2(5) that unlinked_allocated [OF t1(5) that(1)] unfolding unlinked_def by metis
  define l' where "l' = (lk t2 i)\<lparr>linkFlags := 0, nextExtAddrIdx := firstLinkInPool t\<rparr>"
  have l': "linkFlags l' = 0" "nextExtAddrIdx l' = firstLinkInPool t" "link_ok i l'"
    using pool_ok_D(2) [OF t2(2) i2] by (simp_all add: l'_def link_ok_flags)
  let ?t' = "(link_put t2 i l')\<lparr>firstLinkInPool := i\<rparr>"
  have run: "whip6_lowpanMeshLinkTableRemoveExistingLink t i = Some ?t'"
    using assms(2,3) assms(2) [folded not_le] t1(1) t2(1) link_get_in [OF pool_ok_D(1) [OF ok(1)] assms(2)]
      link_get_in [OF pool_ok_D(1) [OF t2(2)] i2]
    by (simp add: whip6_lowpanMeshLinkTableRemoveExistingLink_def l'_def eq
        whip6_lowpanMeshLinkTableRemoveFromHashTableForExtAddr_def whip6_lowpanMeshLinkTableRemoveFromHashTableForShortAddr_def)
  have lk': "lk ?t' j = (if j = i then l' else lk t2 j)" for j
    using lk_link_put [OF pool_ok_D(1) [OF t2(2)] i2] by (simp add: lk_def)
  have gone: "linkFlags (lk t2 i) AND kFlag ext_kind = 0" "linkFlags (lk t2 i) AND kFlag short_kind = 0"
    unfolding eq(3) by (simp_all only: and_not_not and_not_self)
  have pool: "pool_ok ?t'"
    using pool_ok_D [OF t2(2)] i2 unfolding pool_ok_def by (simp add: lk' l')
  moreover have "kind_ok ext_kind ?t'"
    by (rule no_kind_frame [OF t2(4), where i = i]) (use gone in \<open>auto simp: lk' l' in_kind_def ext_kind_def\<close>)
  moreover have "kind_ok short_kind ?t'"
    by (rule no_kind_frame [OF t2(3), where i = i]) (use gone in \<open>auto simp: lk' l' in_kind_def short_kind_def\<close>)
  moreover have "free_ok ?t'"
  proof -
    from ok(2) obtain xs where xs:
      "idx_chain (linkPoolLen t) (\<lambda>j. nextExtAddrIdx (lk t j)) (firstLinkInPool t) xs" "distinct xs"
      "set xs = {i. i < linkPoolLen t \<and> \<not> whip6_lowpanMeshLinkTableIsLinkAllocatedInternal (lk t i)}"
      by (auto simp: free_ok_def)
    have i_xs: "i \<notin> set xs" using xs(3) assms(3) by simp
    have lk_xs: "lk ?t' j = lk t j" if "j \<in> set xs" for j using that free xs(3) i_xs by (auto simp: lk')
    have "idx_chain (linkPoolLen t) (\<lambda>j. nextExtAddrIdx (lk ?t' j)) (firstLinkInPool t) xs"
      using xs(1) idx_chain_cong [of xs "\<lambda>j. nextExtAddrIdx (lk ?t' j)" "\<lambda>j. nextExtAddrIdx (lk t j)"] lk_xs by simp
    then have "idx_chain (linkPoolLen ?t') (\<lambda>j. nextExtAddrIdx (lk ?t' j)) (firstLinkInPool ?t') (i # xs)"
      using assms(2) by (simp add: eq lk' l')
    moreover have "distinct (i # xs)" using xs(2) i_xs by simp
    moreover have "set (i # xs) = {j. j < linkPoolLen ?t' \<and> \<not> whip6_lowpanMeshLinkTableIsLinkAllocatedInternal (lk ?t' j)}"
    proof -
      have "whip6_lowpanMeshLinkTableIsLinkAllocatedInternal (lk ?t' j) =
          (j \<noteq> i \<and> whip6_lowpanMeshLinkTableIsLinkAllocatedInternal (lk t j))" for j
        using others(1) [of j] by (simp add: lk' l' whip6_lowpanMeshLinkTableIsLinkAllocatedInternal_def)
      then show ?thesis using xs(3) assms(2) eq by auto
    qed
    ultimately show ?thesis unfolding free_ok_def by blast
  qed
  ultimately have "table_ok ?t'" by (simp add: table_ok_def)
  then show ?thesis using run others by (auto simp: eq lk' l')
qed

section \<open>Eviction\<close>

definition removable :: "lowpan_link_table \<Rightarrow> u8 \<Rightarrow> bool" where
  "removable t i \<longleftrightarrow> i < linkPoolLen t \<and> whip6_lowpanMeshLinkTableCanExistingLinkBeRemovedInternal (lk t i) \<and>
     0 < etx (quality (lk t i))"

definition worst :: "lowpan_link_table \<Rightarrow> u8 \<Rightarrow> bool" where
  "worst t i \<longleftrightarrow> removable t i \<and> (\<forall>j. removable t j \<longrightarrow> etx (quality (lk t j)) \<le> etx (quality (lk t i)))"

text \<open>The other links are kept, with their addresses, flags and qualities.\<close>

definition kept :: "lowpan_link_table \<Rightarrow> lowpan_link_table \<Rightarrow> u8 \<Rightarrow> bool" where
  "kept t t' j \<longleftrightarrow> linkFlags (lk t' j) = linkFlags (lk t j) \<and> same_link (lk t j) (lk t' j)"

definition worst_among :: "lowpan_link list \<Rightarrow> nat \<Rightarrow> u16 \<times> u8 \<Rightarrow> bool" where
  "worst_among pool k = (\<lambda>(e, w).
     (w = WHIP6_6LOWPAN_INVALID_LINK_IDX \<longrightarrow> e = 0) \<and>
     (w \<noteq> WHIP6_6LOWPAN_INVALID_LINK_IDX \<longrightarrow> unat w < k \<and> 0 < e \<and> etx (quality (pool ! unat w)) = e \<and>
        whip6_lowpanMeshLinkTableCanExistingLinkBeRemovedInternal (pool ! unat w)) \<and>
     (\<forall>j<k. whip6_lowpanMeshLinkTableCanExistingLinkBeRemovedInternal (pool ! j) \<longrightarrow> etx (quality (pool ! j)) \<le> e))"

lemma worst_link_loop_eq:
  assumes "length pool < 256" "\<And>j. j < length pool \<Longrightarrow> linkIdx (pool ! j) = of_nat j"
  shows "k + m \<le> length pool \<Longrightarrow> worst_among pool k r \<Longrightarrow>
    \<exists>r'. worst_link_loop pool k m r = Some r' \<and> worst_among pool (k + m) r'"
proof (induction m arbitrary: k r)
  case (Suc m)
  obtain e w where r: "r = (e, w)" by fastforce
  let ?l = "pool ! k"
  let ?r = "if whip6_lowpanMeshLinkTableCanExistingLinkBeRemovedInternal ?l \<and> e < etx (quality ?l)
      then (etx (quality ?l), linkIdx ?l) else (e, w)"
  have k: "k < length pool" using Suc.prems(1) by simp
  have u: "unat (of_nat k :: u8) = k" using k assms(1) by (simp add: unat_of_nat)
  have ne: "(of_nat k :: u8) \<noteq> WHIP6_6LOWPAN_INVALID_LINK_IDX"
  proof
    assume "(of_nat k :: u8) = WHIP6_6LOWPAN_INVALID_LINK_IDX"
    then have "unat (of_nat k :: u8) = 255" by (simp add: WHIP6_6LOWPAN_INVALID_LINK_IDX_def)
    then show False using u k assms(1) by simp
  qed
  have "worst_among pool (Suc k) ?r"
  proof (cases "whip6_lowpanMeshLinkTableCanExistingLinkBeRemovedInternal ?l \<and> e < etx (quality ?l)")
    case True
    then have "etx (quality (pool ! j)) \<le> etx (quality ?l)"
      if "j < Suc k" "whip6_lowpanMeshLinkTableCanExistingLinkBeRemovedInternal (pool ! j)" for j
      using Suc.prems(2) that by (auto simp: worst_among_def r less_Suc_eq intro: order.trans less_imp_le)
    moreover have "0 < etx (quality ?l)" using True le_less_trans [OF word_zero_le] by blast
    ultimately show ?thesis using True u ne assms(2) [OF k] by (simp add: worst_among_def)
  next
    case False
    then show ?thesis using Suc.prems(2) by (auto simp: worst_among_def r less_Suc_eq not_less)
  qed
  then obtain r' where "worst_link_loop pool (Suc k) m ?r = Some r'" "worst_among pool (Suc k + m) r'"
    using Suc.IH [of "Suc k" ?r] Suc.prems(1) by auto
  then show ?case using k by (simp add: r)
qed simp

lemma evict_table:
  assumes "table_ok t"
  shows "\<exists>t'. whip6_lowpanMeshLinkTableTryToEvictWorstLink t = Some t' \<and> table_ok t' \<and> linkPoolLen t' = linkPoolLen t \<and>
    (if \<exists>i. removable t i
     then \<exists>i. worst t i \<and> firstLinkInPool t' = i \<and> linkFlags (lk t' i) = 0 \<and> (\<forall>j. j \<noteq> i \<longrightarrow> kept t t' j)
     else t' = t)"
proof -
  have p: "pool_ok t" using assms by (simp add: table_ok_def)
  have len: "length (linkPool t) = unat (linkPoolLen t)" using p by (rule pool_ok_D)
  have len': "length (linkPool t) < 256" using len unat_u8_less [of "linkPoolLen t"] by simp
  have of_nat_less: "(of_nat j :: u8) < linkPoolLen t" "unat (of_nat j :: u8) = j" if "j < length (linkPool t)" for j
  proof -
    have "j < 256" using that len' by linarith
    then show "unat (of_nat j :: u8) = j" by (simp add: unat_of_nat)
    then show "(of_nat j :: u8) < linkPoolLen t" using that len by (simp add: word_less_nat_alt)
  qed
  have idx: "linkIdx (linkPool t ! j) = of_nat j" if "j < length (linkPool t)" for j
    using pool_ok_D(2) [OF p of_nat_less(1) [OF that]] of_nat_less(2) [OF that] by (simp add: link_ok_def lk_def)
  have "worst_among (linkPool t) 0 (0, WHIP6_6LOWPAN_INVALID_LINK_IDX)" by (simp add: worst_among_def)
  from worst_link_loop_eq [OF len' idx _ this, of "length (linkPool t)"] obtain e w where
    w: "worst_link_loop (linkPool t) 0 (unat (linkPoolLen t)) (0, WHIP6_6LOWPAN_INVALID_LINK_IDX) = Some (e, w)"
       "worst_among (linkPool t) (length (linkPool t)) (e, w)" using len by auto
  have max: "etx (quality (lk t j)) \<le> e" if "removable t j" for j
    using w(2) that len by (auto simp: worst_among_def removable_def lk_def word_less_nat_alt)
  show ?thesis
  proof (cases "w = WHIP6_6LOWPAN_INVALID_LINK_IDX")
    case True
    then have "e = 0" using w(2) by (simp add: worst_among_def)
    then have "\<not> removable t i" for i using max [of i] leD by (fastforce simp: removable_def)
    then show ?thesis using w(1) True assms by (simp add: whip6_lowpanMeshLinkTableTryToEvictWorstLink_def)
  next
    case False
    then have r: "removable t w" "etx (quality (lk t w)) = e"
      using w(2) len by (auto simp: worst_among_def removable_def lk_def word_less_nat_alt)
    then have worst: "worst t w" using max by (simp add: worst_def)
    from r(1) have "w < linkPoolLen t" "whip6_lowpanMeshLinkTableIsLinkAllocatedInternal (lk t w)"
      by (simp_all add: removable_def whip6_lowpanMeshLinkTableCanExistingLinkBeRemovedInternal_def)
    from remove_table [OF assms this] show ?thesis using w(1) False worst r(1)
      by (auto simp: whip6_lowpanMeshLinkTableTryToEvictWorstLink_def kept_def)
  qed
qed

section \<open>Finding or creating a link\<close>

lemma free_first:
  assumes "free_ok t"
  shows "firstLinkInPool t = WHIP6_6LOWPAN_INVALID_LINK_IDX \<longleftrightarrow>
      (\<forall>i<linkPoolLen t. whip6_lowpanMeshLinkTableIsLinkAllocatedInternal (lk t i))"
    and "firstLinkInPool t \<noteq> WHIP6_6LOWPAN_INVALID_LINK_IDX \<Longrightarrow> firstLinkInPool t < linkPoolLen t \<and>
      \<not> whip6_lowpanMeshLinkTableIsLinkAllocatedInternal (lk t (firstLinkInPool t))"
proof -
  from assms obtain xs where xs:
    "idx_chain (linkPoolLen t) (\<lambda>j. nextExtAddrIdx (lk t j)) (firstLinkInPool t) xs"
    "set xs = {i. i < linkPoolLen t \<and> \<not> whip6_lowpanMeshLinkTableIsLinkAllocatedInternal (lk t i)}"
    by (auto simp: free_ok_def)
  have mem: "j \<in> set xs \<longleftrightarrow> j < linkPoolLen t \<and> \<not> whip6_lowpanMeshLinkTableIsLinkAllocatedInternal (lk t j)" for j
    unfolding xs(2) by simp
  have "firstLinkInPool t = WHIP6_6LOWPAN_INVALID_LINK_IDX \<longleftrightarrow> xs = []"
    using xs(1) less_not_invalid by (cases xs) auto
  also have "\<dots> \<longleftrightarrow> (\<forall>j. j \<notin> set xs)" by auto
  finally show "firstLinkInPool t = WHIP6_6LOWPAN_INVALID_LINK_IDX \<longleftrightarrow>
      (\<forall>i<linkPoolLen t. whip6_lowpanMeshLinkTableIsLinkAllocatedInternal (lk t i))"
    unfolding mem by blast
  show "firstLinkInPool t < linkPoolLen t \<and>
      \<not> whip6_lowpanMeshLinkTableIsLinkAllocatedInternal (lk t (firstLinkInPool t))"
    if "firstLinkInPool t \<noteq> WHIP6_6LOWPAN_INVALID_LINK_IDX"
  proof -
    have "firstLinkInPool t \<in> set xs" using xs(1) that by (cases xs) auto
    then show ?thesis unfolding mem .
  qed
qed

lemma free_ok_take:
  assumes "free_ok t" "firstLinkInPool t = i" "i \<noteq> WHIP6_6LOWPAN_INVALID_LINK_IDX"
    and "linkPoolLen t' = linkPoolLen t" "firstLinkInPool t' = nextExtAddrIdx (lk t i)"
    and "\<And>j. j \<noteq> i \<Longrightarrow> lk t' j = lk t j" "whip6_lowpanMeshLinkTableIsLinkAllocatedInternal (lk t' i)"
  shows "free_ok t'"
proof -
  from assms(1) obtain xs where xs:
    "idx_chain (linkPoolLen t) (\<lambda>j. nextExtAddrIdx (lk t j)) (firstLinkInPool t) xs" "distinct xs"
    "set xs = {i. i < linkPoolLen t \<and> \<not> whip6_lowpanMeshLinkTableIsLinkAllocatedInternal (lk t i)}"
    by (auto simp: free_ok_def)
  then obtain ys where ys: "xs = i # ys" using assms(2,3) by (cases xs) auto
  have "idx_chain (linkPoolLen t) (\<lambda>j. nextExtAddrIdx (lk t j)) (nextExtAddrIdx (lk t i)) ys" using xs(1) ys by simp
  also have "?this = idx_chain (linkPoolLen t) (\<lambda>j. nextExtAddrIdx (lk t' j)) (nextExtAddrIdx (lk t i)) ys"
  proof (rule idx_chain_cong)
    fix j assume "j \<in> set ys"
    then have "j \<noteq> i" using xs(2) ys by auto
    then show "nextExtAddrIdx (lk t j) = nextExtAddrIdx (lk t' j)" by (simp add: assms(6))
  qed
  finally have "idx_chain (linkPoolLen t') (\<lambda>j. nextExtAddrIdx (lk t' j)) (firstLinkInPool t') ys"
    by (simp add: assms(4,5))
  moreover have "set ys = {j. j < linkPoolLen t' \<and> \<not> whip6_lowpanMeshLinkTableIsLinkAllocatedInternal (lk t' j)}"
  proof -
    have "set ys = set xs - {i}" using xs(2) ys by auto
    moreover have "\<not> whip6_lowpanMeshLinkTableIsLinkAllocatedInternal (lk t' j) \<longleftrightarrow>
        j \<noteq> i \<and> \<not> whip6_lowpanMeshLinkTableIsLinkAllocatedInternal (lk t j)" for j
      using assms(6,7) by (cases "j = i") auto
    ultimately show ?thesis using xs(3) by (auto simp: assms(4))
  qed
  ultimately show ?thesis using xs(2) ys unfolding free_ok_def by auto
qed

context link_kinds
begin

lemma allocate_free:
  assumes p: "pool_ok t" "free_ok t" and k: "kind_ok K t" "kind_ok K' t"
    and i: "firstLinkInPool t = i" "i \<noteq> WHIP6_6LOWPAN_INVALID_LINK_IDX"
    and a: "n \<le> length a" "\<And>j. in_kind K t j \<Longrightarrow> kAddr K (lk t j) \<noteq> take n a"
  shows "\<exists>t'. allocate_link K K' t a = Some (t', i) \<and> pool_ok t' \<and> free_ok t' \<and> kind_ok K t' \<and> kind_ok K' t' \<and>
    linkPoolLen t' = linkPoolLen t \<and>
    (\<forall>j. j \<noteq> i \<longrightarrow> lk t' j = lk t j) \<and> linkFlags (lk t' i) = kFlag K \<and> kAddr K (lk t' i) = take n a"
proof -
  have f: "i < linkPoolLen t" "\<not> whip6_lowpanMeshLinkTableIsLinkAllocatedInternal (lk t i)"
    using free_first(2) [OF p(2)] i by auto
  from allocate_eq [OF p(1) k i(1) f a] obtain t' where t': "allocate_link K K' t a = Some (t', i)" "pool_ok t'"
    "kind_ok K t'" "kind_ok K' t'" "linkPoolLen t' = linkPoolLen t" "firstLinkInPool t' = nextExtAddrIdx (lk t i)"
    "\<forall>j. j \<noteq> i \<longrightarrow> lk t' j = lk t j" "linkFlags (lk t' i) = kFlag K" "kAddr K (lk t' i) = take n a" by blast
  moreover have "whip6_lowpanMeshLinkTableIsLinkAllocatedInternal (lk t' i)"
    unfolding flags(4) using t'(8) flags(3) by simp
  then have "free_ok t'" using free_ok_take [OF p(2) i] t' by blast
  ultimately show ?thesis by blast
qed

end

text \<open>An address that a link can be created for.\<close>

definition addr_usable :: "ieee154_addr \<Rightarrow> bool" where
  "addr_usable addr \<longleftrightarrow> addrMode addr = IEEE154_ADDR_MODE_SHORT \<or> addrMode addr = IEEE154_ADDR_MODE_EXT"

lemma create_table:
  assumes "table_ok t" "length (addrVars addr) = 8" "link_search t addr = WHIP6_6LOWPAN_INVALID_LINK_IDX"
    and "firstLinkInPool t = i" "i \<noteq> WHIP6_6LOWPAN_INVALID_LINK_IDX" "addr_usable addr"
  shows "\<exists>t'. (if addrMode addr = IEEE154_ADDR_MODE_SHORT
      then whip6_lowpanMeshLinkTableAllocateLinkForShortAddr t (addrVars addr)
      else whip6_lowpanMeshLinkTableAllocateLinkForExtAddr t (addrVars addr)) = Some (t', i) \<and>
    table_ok t' \<and> linkPoolLen t' = linkPoolLen t \<and> (\<forall>j. j \<noteq> i \<longrightarrow> lk t' j = lk t j) \<and> link_has_addr (lk t' i) addr"
proof -
  have ok: "pool_ok t" "free_ok t" "kind_ok ext_kind t" "kind_ok short_kind t" using assms(1) by (simp_all add: table_ok_def)
  have no: "\<not> link_has_addr (lk t j) addr" if "j < linkPoolLen t" for j
    using assms(3) that by (simp add: link_search_def found_find(1))
  show ?thesis
  proof (cases "addrMode addr = IEEE154_ADDR_MODE_SHORT")
    case True
    have "kAddr short_kind (lk t j) \<noteq> take 2 (addrVars addr)" if "in_kind short_kind t j" for j
      using no [of j] that True by (auto simp: in_kind_def link_has_addr_def short_kind_def)
    from short.allocate_free [OF ok(1,2,4,3) assms(4,5) _ this] show ?thesis using True assms(2) short.flags(3)
      by (simp add: whip6_lowpanMeshLinkTableAllocateLinkForShortAddr_def table_ok_def link_has_addr_def)
        (auto simp: short_kind_def)
  next
    case False
    then have e: "addrMode addr = IEEE154_ADDR_MODE_EXT" using assms(6) by (simp add: addr_usable_def)
    have "kAddr ext_kind (lk t j) \<noteq> take 8 (addrVars addr)" if "in_kind ext_kind t j" for j
      using no [of j] that False e by (auto simp: in_kind_def link_has_addr_def ext_kind_def)
    from ext.allocate_free [OF ok(1,2,3,4) assms(4,5) _ this] show ?thesis using False e assms(2) ext.flags(3)
      by (simp add: whip6_lowpanMeshLinkTableAllocateLinkForExtAddr_def table_ok_def link_has_addr_def)
        (auto simp: ext_kind_def)
  qed
qed

definition pool_full :: "lowpan_link_table \<Rightarrow> bool" where
  "pool_full t \<longleftrightarrow> (\<forall>i<linkPoolLen t. whip6_lowpanMeshLinkTableIsLinkAllocatedInternal (lk t i))"

lemma kept_simps: "kept t t j" "kept t t1 j \<Longrightarrow> lk t2 j = lk t1 j \<Longrightarrow> kept t t2 j"
  by (simp_all add: kept_def)

lemma kept_has_addr: "kept t t' j \<Longrightarrow> link_has_addr (lk t' j) addr = link_has_addr (lk t j) addr"
  by (simp add: kept_def same_link_def link_has_addr_def)

lemma no_flags_no_addr: "linkFlags l = 0 \<Longrightarrow> \<not> link_has_addr l addr"
  by (simp add: link_has_addr_def)

lemma search_none: "link_search t addr = WHIP6_6LOWPAN_INVALID_LINK_IDX \<longleftrightarrow>
  (\<forall>j<linkPoolLen t. \<not> link_has_addr (lk t j) addr)"
  by (simp add: link_search_def found_find(1))

lemma search_unique:
  assumes "i < linkPoolLen t" "link_has_addr (lk t i) addr"
    "\<And>j. j < linkPoolLen t \<Longrightarrow> j \<noteq> i \<Longrightarrow> \<not> link_has_addr (lk t j) addr"
  shows "link_search t addr = i"
proof -
  have "link_search t addr \<noteq> WHIP6_6LOWPAN_INVALID_LINK_IDX" using assms(1,2) by (auto simp: search_none)
  then show ?thesis using found_find(2) [of "\<lambda>i. link_has_addr (lk t i) addr" t] assms(3)
    unfolding link_search_def by blast
qed

text \<open>What finding or creating a link promises of the tables \<open>t\<close> before and \<open>t'\<close> after, and of
  the index \<open>i\<close>.\<close>

definition find_or_create_spec ::
  "lowpan_link_table \<Rightarrow> ieee154_addr \<Rightarrow> bool \<Rightarrow> lowpan_link_table \<Rightarrow> u8 \<Rightarrow> bool" where
  "find_or_create_spec t addr ev t' i \<longleftrightarrow>
     (if i = WHIP6_6LOWPAN_INVALID_LINK_IDX
      then link_search t addr = WHIP6_6LOWPAN_INVALID_LINK_IDX \<and>
        (addr_usable addr \<longrightarrow> t' = t \<and> pool_full t \<and> (ev \<longrightarrow> \<not> (\<exists>j. removable t j)))
      else i = link_search t' addr \<and>
        (if i = link_search t addr then t' = t
         else link_search t addr = WHIP6_6LOWPAN_INVALID_LINK_IDX \<and>
           (if pool_full t then ev \<and> worst t i
            else \<not> whip6_lowpanMeshLinkTableIsLinkAllocatedInternal (lk t i)))) \<and>
     (\<forall>j. j \<noteq> i \<longrightarrow> kept t t' j \<or> \<not> addr_usable addr \<and> ev \<and> pool_full t \<and> worst t j)"

lemma find_or_create_room:
  assumes t: "table_ok t" "length (addrVars addr) = 8" "link_search t addr = WHIP6_6LOWPAN_INVALID_LINK_IDX"
    and room: "firstLinkInPool t \<noteq> WHIP6_6LOWPAN_INVALID_LINK_IDX" and u: "addr_usable addr"
  shows "\<exists>t'. (if addrMode addr = IEEE154_ADDR_MODE_SHORT
      then whip6_lowpanMeshLinkTableAllocateLinkForShortAddr t (addrVars addr)
      else whip6_lowpanMeshLinkTableAllocateLinkForExtAddr t (addrVars addr)) = Some (t', firstLinkInPool t) \<and>
    table_ok t' \<and> linkPoolLen t' = linkPoolLen t \<and> (\<forall>j. j \<noteq> firstLinkInPool t \<longrightarrow> kept t t' j) \<and>
    link_search t' addr = firstLinkInPool t"
proof -
  have "free_ok t" using t(1) by (simp add: table_ok_def)
  then have i: "firstLinkInPool t < linkPoolLen t" using free_first(2) room by blast
  from create_table [OF t refl room u] obtain t' where t':
    "(if addrMode addr = IEEE154_ADDR_MODE_SHORT
      then whip6_lowpanMeshLinkTableAllocateLinkForShortAddr t (addrVars addr)
      else whip6_lowpanMeshLinkTableAllocateLinkForExtAddr t (addrVars addr)) = Some (t', firstLinkInPool t)"
    "table_ok t'" "linkPoolLen t' = linkPoolLen t" "\<forall>j. j \<noteq> firstLinkInPool t \<longrightarrow> lk t' j = lk t j"
    "link_has_addr (lk t' (firstLinkInPool t)) addr" by blast
  have "link_search t' addr = firstLinkInPool t"
    by (rule search_unique) (use t' i t(3) in \<open>auto simp: search_none\<close>)
  moreover have "kept t t' j" if "j \<noteq> firstLinkInPool t" for j using t'(4) that by (simp add: kept_def)
  ultimately show ?thesis using t' by blast
qed

definition create_link :: "lowpan_link_table \<Rightarrow> ieee154_addr \<Rightarrow> (lowpan_link_table \<times> u8) option" where
  "create_link t addr =
     (if firstLinkInPool t = WHIP6_6LOWPAN_INVALID_LINK_IDX \<or> \<not> addr_usable addr
      then Some (t, WHIP6_6LOWPAN_INVALID_LINK_IDX)
      else if addrMode addr = IEEE154_ADDR_MODE_SHORT
      then whip6_lowpanMeshLinkTableAllocateLinkForShortAddr t (addrVars addr)
      else whip6_lowpanMeshLinkTableAllocateLinkForExtAddr t (addrVars addr))"

lemma Find_unfold:
  assumes "table_ok t" "length (addrVars addr) = 8"
  shows "whip6_lowpanMeshLinkTableFindExistingOrCreateNewLink t addr ev =
    (if link_search t addr \<noteq> WHIP6_6LOWPAN_INVALID_LINK_IDX then Some (t, link_search t addr)
     else if firstLinkInPool t = WHIP6_6LOWPAN_INVALID_LINK_IDX \<and> ev
     then do { t1 \<leftarrow> whip6_lowpanMeshLinkTableTryToEvictWorstLink t; create_link t1 addr }
     else create_link t addr)"
  by (simp add: whip6_lowpanMeshLinkTableFindExistingOrCreateNewLink_def lookup_search [OF assms] create_link_def
      addr_usable_def if_distrib [of "\<lambda>x. Option.bind x f" for f] cong: if_cong)
    (intro conjI impI arg_cong2 [where f = Option.bind] ext refl; simp)

lemma create_link_eq:
  assumes "table_ok t" "length (addrVars addr) = 8" "link_search t addr = WHIP6_6LOWPAN_INVALID_LINK_IDX"
  shows "\<exists>t' i. create_link t addr = Some (t', i) \<and> table_ok t' \<and> linkPoolLen t' = linkPoolLen t \<and>
    (if firstLinkInPool t = WHIP6_6LOWPAN_INVALID_LINK_IDX \<or> \<not> addr_usable addr
     then t' = t \<and> i = WHIP6_6LOWPAN_INVALID_LINK_IDX
     else i = firstLinkInPool t \<and> (\<forall>j. j \<noteq> i \<longrightarrow> kept t t' j) \<and> link_search t' addr = i)"
  using find_or_create_room [OF assms] assms(1) by (simp add: create_link_def)

lemma find_create:
  assumes "table_ok t" "length (addrVars addr) = 8"
  shows "\<exists>t' i. whip6_lowpanMeshLinkTableFindExistingOrCreateNewLink t addr ev = Some (t', i) \<and> table_ok t' \<and>
    linkPoolLen t' = linkPoolLen t \<and> find_or_create_spec t addr ev t' i"
proof (cases "link_search t addr = WHIP6_6LOWPAN_INVALID_LINK_IDX")
  case False
  then show ?thesis using assms(1)
    by (simp add: Find_unfold [OF assms] find_or_create_spec_def kept_simps)
next
  case none: True
  have full: "firstLinkInPool t = WHIP6_6LOWPAN_INVALID_LINK_IDX \<longleftrightarrow> pool_full t"
    using free_first(1) assms(1) by (simp add: table_ok_def pool_full_def)
  have first: "\<not> whip6_lowpanMeshLinkTableIsLinkAllocatedInternal (lk t (firstLinkInPool t))" if "\<not> pool_full t"
    using free_first(2) assms(1) that full by (simp add: table_ok_def)
  show ?thesis
  proof (cases "pool_full t \<and> ev")
    case False
    from create_link_eq [OF assms none] obtain t' i where t': "create_link t addr = Some (t', i)"
      "table_ok t'" "linkPoolLen t' = linkPoolLen t"
      "if firstLinkInPool t = WHIP6_6LOWPAN_INVALID_LINK_IDX \<or> \<not> addr_usable addr
       then t' = t \<and> i = WHIP6_6LOWPAN_INVALID_LINK_IDX
       else i = firstLinkInPool t \<and> (\<forall>j. j \<noteq> i \<longrightarrow> kept t t' j) \<and> link_search t' addr = i" by blast
    have "find_or_create_spec t addr ev t' i"
      using t'(4) none full first False by (auto simp: find_or_create_spec_def kept_simps split: if_splits)
    moreover have "whip6_lowpanMeshLinkTableFindExistingOrCreateNewLink t addr ev = create_link t addr"
      using False none full by (auto simp: Find_unfold [OF assms])
    ultimately show ?thesis using t'(1-3) by auto
  next
    case True
    from evict_table [OF assms(1)] obtain t1 where t1: "whip6_lowpanMeshLinkTableTryToEvictWorstLink t = Some t1"
      "table_ok t1" "linkPoolLen t1 = linkPoolLen t"
      "if \<exists>i. removable t i
       then \<exists>i. worst t i \<and> firstLinkInPool t1 = i \<and> linkFlags (lk t1 i) = 0 \<and> (\<forall>j. j \<noteq> i \<longrightarrow> kept t t1 j)
       else t1 = t" by blast
    have run: "whip6_lowpanMeshLinkTableFindExistingOrCreateNewLink t addr ev = create_link t1 addr"
      using True none full t1(1) by (simp add: Find_unfold [OF assms])
    show ?thesis
    proof (cases "\<exists>i. removable t i")
      case False
      then show ?thesis using run t1 create_link_eq [OF assms none] True none full
        by (auto simp: find_or_create_spec_def kept_simps)
    next
      case ex: True
      define w where "w = firstLinkInPool t1"
      have w: "worst t w" "linkFlags (lk t1 w) = 0" "\<And>j. j \<noteq> w \<Longrightarrow> kept t t1 j" using t1(4) ex by (auto simp: w_def)
      have "w < linkPoolLen t" using w(1) by (simp add: worst_def removable_def)
      then have w_ne: "w \<noteq> WHIP6_6LOWPAN_INVALID_LINK_IDX" by (rule less_not_invalid)
      have none1: "link_search t1 addr = WHIP6_6LOWPAN_INVALID_LINK_IDX"
        using none kept_has_addr [OF w(3)] no_flags_no_addr [OF w(2)] t1(3) unfolding search_none by metis
      from create_link_eq [OF t1(2) assms(2) none1] obtain t' i where t': "create_link t1 addr = Some (t', i)"
        "table_ok t'" "linkPoolLen t' = linkPoolLen t1"
        "if \<not> addr_usable addr then t' = t1 \<and> i = WHIP6_6LOWPAN_INVALID_LINK_IDX
         else i = w \<and> (\<forall>j. j \<noteq> i \<longrightarrow> kept t1 t' j) \<and> link_search t' addr = i"
        using w_ne by (auto simp: w_def)
      have tr: "kept t t' j" if "kept t t1 j" "kept t1 t' j" for j
        using that same_link_trans by (auto simp: kept_def)
      have "find_or_create_spec t addr ev t' i"
      proof (cases "addr_usable addr")
        case u: True
        then show ?thesis using t'(4) w tr w_ne none True by (auto simp: find_or_create_spec_def)
      next
        case False
        moreover have "kept t t1 j \<or> worst t j" for j using w(1,3) by (cases "j = w") auto
        ultimately show ?thesis using t'(4) none True by (auto simp: find_or_create_spec_def)
      qed
      then show ?thesis using run t' t1(3) by auto
    qed
  qed
qed

end
