(* ===== verification/Lowpan_LinkTableRun.thy ===== *)
theory Lowpan_LinkTableRun
  imports Lowpan_LinkTableSpec
begin

text \<open>
  Histories of the link table: the initial table, the sweeps and the reports, the step relation of all
  operations and its invariant.
\<close>

section \<open>The reset table\<close>

definition table_raw :: "lowpan_link_table \<Rightarrow> bool" where
  "table_raw t \<longleftrightarrow>
     length (linkPool t) = unat (linkPoolLen t) \<and>
     (\<forall>l\<in>set (linkPool t). length (extAddr l) = 8 \<and> length (shrtAddr l) = 2) \<and>
     0 < extAddrHashMapLen t \<and> length (extAddrHashMap t) = unat (extAddrHashMapLen t) \<and>
     0 < shrtAddrHashMapLen t \<and> length (shrtAddrHashMap t) = unat (shrtAddrHashMapLen t)"

lemma reset_map_loop_eq:
  "k + n \<le> length m \<Longrightarrow>
   reset_map_loop m k n = Some (take k m @ replicate n WHIP6_6LOWPAN_INVALID_LINK_IDX @ drop (k + n) m)"
proof (induction n arbitrary: m k)
  case (Suc n)
  then show ?case by (simp add: take_Suc_conv_app_nth [of k] list_update_beyond take_update_swap)
      (simp add: upd_conv_take_nth_drop take_Suc_conv_app_nth [of k])
qed simp

lemma reset_pool_loop_eq:
  "k + n \<le> length p \<Longrightarrow> length p < 256 \<Longrightarrow>
   \<exists>p'. reset_pool_loop p (of_nat k) n = Some p' \<and> length p' = length p \<and>
     (\<forall>j<length p. p' ! j = (if k \<le> j \<and> j < k + n
        then (p ! j)\<lparr>linkIdx := of_nat j, linkFlags := 0, nextExtAddrIdx := of_nat (j + 1)\<rparr> else p ! j))"
proof (induction n arbitrary: p k)
  case (Suc n)
  let ?p = "p[k := (p ! k)\<lparr>linkIdx := of_nat k, linkFlags := 0, nextExtAddrIdx := of_nat k + 1\<rparr>]"
  have u: "unat (of_nat k :: u8) = k" using Suc.prems by (simp add: unat_of_nat)
  have s: "(of_nat k + 1 :: u8) = of_nat (Suc k)" by (simp add: add.commute)
  from Suc.IH [of "Suc k" ?p] Suc.prems obtain p' where p':
    "reset_pool_loop ?p (of_nat (Suc k)) n = Some p'" "length p' = length p"
    "\<forall>j<length p. p' ! j = (if Suc k \<le> j \<and> j < Suc k + n
        then (?p ! j)\<lparr>linkIdx := of_nat j, linkFlags := 0, nextExtAddrIdx := of_nat (j + 1)\<rparr> else ?p ! j)" by auto
  have "reset_pool_loop p (of_nat k) (Suc n) = Some p'" using p'(1) Suc.prems u by (simp add: s)
  moreover have "p' ! j = (if k \<le> j \<and> j < k + Suc n
        then (p ! j)\<lparr>linkIdx := of_nat j, linkFlags := 0, nextExtAddrIdx := of_nat (j + 1)\<rparr> else p ! j)"
    if "j < length p" for j
    using p'(3) that Suc.prems by (cases "j = k") (auto simp: nth_list_update add.commute)
  ultimately show ?case using p'(2) by blast
qed auto

lemma idx_chain_all:
  assumes "N < 256" "unat L = N" "k \<le> N"
    and "\<And>j. j < N \<Longrightarrow> nx (of_nat j) = (if Suc j = N then WHIP6_6LOWPAN_INVALID_LINK_IDX else of_nat (Suc j))"
  shows "k < N \<Longrightarrow> idx_chain L nx (of_nat k) (map of_nat [k..<N])"
proof (induction "N - k" arbitrary: k)
  case (Suc d)
  have "unat (of_nat k :: u8) = k" using Suc.prems assms(1) by (simp add: unat_of_nat)
  then have k: "(of_nat k :: u8) < L" using Suc.prems assms(2) by (simp add: word_less_nat_alt)
  have up: "[k..<N] = k # [Suc k..<N]" using Suc.prems by (simp add: upt_conv_Cons)
  show ?case
  proof (cases "Suc k = N")
    case True
    then show ?thesis using k assms(4) [of k] by (simp add: up)
  next
    case False
    then have "Suc k < N" "d = N - Suc k" using Suc.prems Suc.hyps(2) by auto
    from Suc.hyps(1) [OF this(2,1)] show ?thesis using k assms(4) [of k] False Suc.prems by (simp add: up)
  qed
qed simp

lemma no_flags_kind_ok:
  assumes "0 < kMapLen K t" "kMap K t = replicate (unat (kMapLen K t)) WHIP6_6LOWPAN_INVALID_LINK_IDX"
    "\<And>j. j < linkPoolLen t \<Longrightarrow> linkFlags (lk t j) = 0"
  shows "kind_ok K t"
proof -
  have no: "\<not> in_kind K t j" for j using assms(3) by (auto simp: in_kind_def)
  have "bucket K t b []" if "b < unat (kMapLen K t)" for b
    using no that by (simp add: bucket_def assms(2))
  then show ?thesis using no assms(1) by (auto simp: kind_ok_def assms(2))
qed

lemma reset_table:
  assumes "table_raw t"
  shows "\<exists>t'. whip6_lowpanMeshLinkTableReset t = Some t' \<and> table_ok t' \<and> linkPoolLen t' = linkPoolLen t \<and>
    (\<forall>j<linkPoolLen t'. linkFlags (lk t' j) = 0)"
proof -
  let ?N = "unat (linkPoolLen t)"
  let ?I = "WHIP6_6LOWPAN_INVALID_LINK_IDX"
  have len: "length (linkPool t) = ?N" "?N < 256" using assms by (simp_all add: table_raw_def)
  obtain p f where p: "(if linkPoolLen t > 0
        then do { let num = linkPoolLen t - 1;
                  pool \<leftarrow> reset_pool_loop (linkPool t) 0 (unat num);
                  link \<leftarrow> buf_get pool (unat num);
                  Some (t\<lparr>linkPool := pool[unat num := link\<lparr>linkIdx := num, linkFlags := 0, nextExtAddrIdx := ?I\<rparr>],
                          firstLinkInPool := 0\<rparr>) }
        else Some (t\<lparr>firstLinkInPool := ?I\<rparr>)) = Some (t\<lparr>linkPool := p, firstLinkInPool := f\<rparr>)"
    "length p = ?N" "f = (if ?N = 0 then ?I else 0)"
    "\<And>j. j < ?N \<Longrightarrow> p ! j = (linkPool t ! j)\<lparr>linkIdx := of_nat j, linkFlags := 0,
       nextExtAddrIdx := if Suc j = ?N then ?I else of_nat (Suc j)\<rparr>"
  proof (cases "linkPoolLen t > 0")
    case True
    then have pos: "0 < ?N" by (simp add: word_less_nat_alt)
    have num: "unat (linkPoolLen t - 1) = ?N - 1" using pos by (subst unat_sub) (simp_all add: word_le_nat_alt)
    have "linkPoolLen t - 1 = of_nat (?N - 1)" by (simp only: num [symmetric]) simp
    with reset_pool_loop_eq [of 0 "?N - 1" "linkPool t"] len obtain p' where p':
      "reset_pool_loop (linkPool t) 0 (?N - 1) = Some p'" "length p' = ?N"
      "\<And>j. j < ?N \<Longrightarrow> p' ! j = (if j < ?N - 1
         then (linkPool t ! j)\<lparr>linkIdx := of_nat j, linkFlags := 0, nextExtAddrIdx := of_nat (j + 1)\<rparr> else linkPool t ! j)"
      by auto
    let ?p = "p'[?N - 1 := (p' ! (?N - 1))\<lparr>linkIdx := linkPoolLen t - 1, linkFlags := 0, nextExtAddrIdx := ?I\<rparr>]"
    show ?thesis
    proof (rule that [where p = ?p and f = 0])
      fix j assume "j < ?N"
      then show "?p ! j = (linkPool t ! j)\<lparr>linkIdx := of_nat j, linkFlags := 0,
          nextExtAddrIdx := if Suc j = ?N then ?I else of_nat (Suc j)\<rparr>"
        using p'(2,3) pos \<open>linkPoolLen t - 1 = of_nat (?N - 1)\<close>
        by (cases "j = ?N - 1") (auto simp: nth_list_update)
    qed (use True pos num p' in \<open>auto simp: Let_def\<close>)
  next
    case False
    then have "?N = 0" by (simp add: word_less_nat_alt)
    then show ?thesis using that [where p = "linkPool t" and f = ?I] False len by auto
  qed
  define t' where "t' = t\<lparr>linkPool := p, firstLinkInPool := f,
    extAddrHashMap := replicate (unat (extAddrHashMapLen t)) ?I, shrtAddrHashMap := replicate (unat (shrtAddrHashMapLen t)) ?I\<rparr>"
  have run: "whip6_lowpanMeshLinkTableReset t = Some t'"
    using assms unfolding whip6_lowpanMeshLinkTableReset_def Let_def [of "linkPoolLen t"] p(1)
    by (simp add: reset_map_loop_eq table_raw_def t'_def)
  have lk: "lk t' j = (linkPool t ! unat j)\<lparr>linkIdx := j, linkFlags := 0,
      nextExtAddrIdx := if Suc (unat j) = ?N then ?I else of_nat (Suc (unat j))\<rparr>" if "j < linkPoolLen t" for j
    using p(4) [of "unat j"] that by (simp add: lk_def t'_def word_less_nat_alt)
  have "pool_ok t'" using lk assms p(2)
    by (auto simp: pool_ok_def link_ok_def t'_def table_raw_def word_less_nat_alt)
  moreover have "free_ok t'"
  proof -
    have "idx_chain (linkPoolLen t') (\<lambda>j. nextExtAddrIdx (lk t' j)) (firstLinkInPool t') (indices t')"
    proof (cases "?N = 0")
      case False
      have "idx_chain (linkPoolLen t) (\<lambda>j. nextExtAddrIdx (lk t' j)) (of_nat 0) (map of_nat [0..<?N])"
      proof (rule idx_chain_all [OF len(2) refl])
        fix j assume j: "j < ?N"
        then have "j < 256" using len(2) by linarith
        then have "unat (of_nat j :: u8) = j" by (simp add: unat_of_nat)
        moreover from this j have "(of_nat j :: u8) < linkPoolLen t" by (simp add: word_less_nat_alt)
        ultimately show "nextExtAddrIdx (lk t' (of_nat j)) = (if Suc j = ?N then ?I else of_nat (Suc j))"
          by (simp add: lk)
      qed (use False in simp_all)
      then show ?thesis using False p(3) by (simp add: t'_def indices_def)
    qed (simp add: t'_def p(3) indices_def)
    moreover have "distinct (indices t')"
    proof -
      have "inj_on (of_nat :: nat \<Rightarrow> u8) {0..<?N}"
      proof (rule inj_on_inverseI [where g = unat])
        fix j assume "j \<in> {0..<?N}"
        then have "j < ?N" by simp
        then have "j < 256" using len(2) by linarith
        then show "unat (of_nat j :: u8) = j" by (simp add: unat_of_nat)
      qed
      then show ?thesis by (simp add: indices_def t'_def distinct_map)
    qed
    moreover have "set (indices t') = {i. i < linkPoolLen t' \<and> \<not> whip6_lowpanMeshLinkTableIsLinkAllocatedInternal (lk t' i)}"
      unfolding set_indices using lk
      by (auto simp: whip6_lowpanMeshLinkTableIsLinkAllocatedInternal_def t'_def)
    ultimately show ?thesis unfolding free_ok_def by blast
  qed
  moreover have fl: "linkFlags (lk t' j) = 0" if "j < linkPoolLen t'" for j using lk that by (simp add: t'_def)
  moreover have "kind_ok ext_kind t'"
    by (rule no_flags_kind_ok) (use assms fl in \<open>simp_all add: t'_def ext_kind_def table_raw_def\<close>)
  moreover have "kind_ok short_kind t'"
    by (rule no_flags_kind_ok) (use assms fl in \<open>simp_all add: t'_def short_kind_def table_raw_def\<close>)
  ultimately have "table_ok t'" by (simp add: table_ok_def)
  then show ?thesis using run fl by (simp add: t'_def)
qed

section \<open>Reports and sweeps\<close>

lemma flag_masks:
  "(f AND NOT m) AND k = f AND k" "(f OR m) AND k = f AND k" if "m AND k = 0" for f m k :: u8
proof -
  have "\<not> (bit m i \<and> bit k i)" for i using that by (metis bit_and_iff bit_0_eq bot_apply bot_bool_def)
  then show "(f AND NOT m) AND k = f AND k" "(f OR m) AND k = f AND k"
    by (intro bit_eqI; auto simp: bit_simps)+
qed

text \<open>The flags that the reports and the sweeps write are not those of the addresses.\<close>

lemma other_flags:
  "WHIP6_6LOWPAN_LINK_FLAG_INIT AND WHIP6_6LOWPAN_LINK_FLAG_HAS_EXT_ADDR = 0"
  "WHIP6_6LOWPAN_LINK_FLAG_INIT AND WHIP6_6LOWPAN_LINK_FLAG_HAS_SHORT_ADDR = 0"
  "WHIP6_6LOWPAN_LINK_FLAG_REFRESHED AND WHIP6_6LOWPAN_LINK_FLAG_HAS_EXT_ADDR = 0"
  "WHIP6_6LOWPAN_LINK_FLAG_REFRESHED AND WHIP6_6LOWPAN_LINK_FLAG_HAS_SHORT_ADDR = 0"
  "WHIP6_6LOWPAN_LINK_FLAG_RECLAIMABLE AND WHIP6_6LOWPAN_LINK_FLAG_HAS_EXT_ADDR = 0"
  "WHIP6_6LOWPAN_LINK_FLAG_RECLAIMABLE AND WHIP6_6LOWPAN_LINK_FLAG_HAS_SHORT_ADDR = 0"
  by (simp_all add: link_constants)

lemma reset_flags:
  "(f AND (WHIP6_6LOWPAN_LINK_FLAG_HAS_EXT_ADDR OR WHIP6_6LOWPAN_LINK_FLAG_HAS_SHORT_ADDR OR
      WHIP6_6LOWPAN_LINK_FLAG_PINNED)) AND WHIP6_6LOWPAN_LINK_FLAG_HAS_EXT_ADDR = f AND WHIP6_6LOWPAN_LINK_FLAG_HAS_EXT_ADDR"
  "(f AND (WHIP6_6LOWPAN_LINK_FLAG_HAS_EXT_ADDR OR WHIP6_6LOWPAN_LINK_FLAG_HAS_SHORT_ADDR OR
      WHIP6_6LOWPAN_LINK_FLAG_PINNED)) AND WHIP6_6LOWPAN_LINK_FLAG_HAS_SHORT_ADDR = f AND WHIP6_6LOWPAN_LINK_FLAG_HAS_SHORT_ADDR"
  by (simp_all add: link_constants and.assoc)

lemmas place_simps = same_place_def flag_masks [OF other_flags(1)] flag_masks [OF other_flags(2)]
  flag_masks [OF other_flags(3)] flag_masks [OF other_flags(4)] flag_masks [OF other_flags(5)]
  flag_masks [OF other_flags(6)] reset_flags

lemma recompute_place:
  "same_place l (whip6_lowpanMeshLinkTableRecomputeBeaconBasedLinkQualityIfNecessary l)"
  "same_place l (whip6_lowpanMeshLinkTableRecomputeAckBasedLinkQualityIfNecessary l)"
  by (auto simp: whip6_lowpanMeshLinkTableRecomputeBeaconBasedLinkQualityIfNecessary_def
      whip6_lowpanMeshLinkTableRecomputeAckBasedLinkQualityIfNecessary_def Let_def place_simps split: prod.split)

lemma recompute_place_trans:
  "same_place l m \<Longrightarrow> same_place l (whip6_lowpanMeshLinkTableRecomputeBeaconBasedLinkQualityIfNecessary m)"
  "same_place l m \<Longrightarrow> same_place l (whip6_lowpanMeshLinkTableRecomputeAckBasedLinkQualityIfNecessary m)"
  using same_place_trans recompute_place by blast+

lemma same_place_update:
  "same_place l (m\<lparr>quality := q\<rparr>) = same_place l m" "same_place l (m\<lparr>quality := q, linkFlags := f\<rparr>) = same_place l (m\<lparr>linkFlags := f\<rparr>)"
  "same_place l (m\<lparr>linkFlags := f, quality := q\<rparr>) = same_place l (m\<lparr>linkFlags := f\<rparr>)"
  "same_place l (whip6_lowpanMeshLinkTableResetLinkQuality m) = same_place l m"
  by (simp_all add: same_place_def whip6_lowpanMeshLinkTableResetLinkQuality_def)

lemma same_place_new_flags:
  assumes "same_place l m"
  shows "same_place l (m\<lparr>linkFlags := linkFlags m OR WHIP6_6LOWPAN_LINK_FLAG_INIT\<rparr>)"
    "same_place l (m\<lparr>linkFlags := linkFlags m AND (WHIP6_6LOWPAN_LINK_FLAG_HAS_EXT_ADDR OR
       WHIP6_6LOWPAN_LINK_FLAG_HAS_SHORT_ADDR OR WHIP6_6LOWPAN_LINK_FLAG_PINNED) OR WHIP6_6LOWPAN_LINK_FLAG_INIT\<rparr>)"
    "same_place l (m\<lparr>linkFlags := (linkFlags m OR WHIP6_6LOWPAN_LINK_FLAG_REFRESHED)
       AND NOT WHIP6_6LOWPAN_LINK_FLAG_RECLAIMABLE\<rparr>)"
    "same_place l (m\<lparr>linkFlags := linkFlags m OR WHIP6_6LOWPAN_LINK_FLAG_RECLAIMABLE\<rparr>)"
    "same_place l (m\<lparr>linkFlags := linkFlags m AND NOT WHIP6_6LOWPAN_LINK_FLAG_REFRESHED\<rparr>)"
  using assms by (simp_all add: place_simps)

lemma report_broadcast_place: "same_place l (report_broadcast l seqNo)"
proof -
  define l1 where "l1 = (if linkFlags l AND WHIP6_6LOWPAN_LINK_FLAG_INIT = 0 \<and> etx (quality l) \<ge> WHIP6_ETX_METRIC_INFINITE
      then l\<lparr>linkFlags := linkFlags l OR WHIP6_6LOWPAN_LINK_FLAG_INIT,
             quality := (quality l)\<lparr>lastBeaconSeqNo := seqNo - 1\<rparr>\<rparr> else l)"
  have l1: "same_place l l1" by (simp add: l1_def same_place_update same_place_new_flags)
  let ?m = "seqNo - lastBeaconSeqNo (quality l1) - 1"
  define l2 where "l2 = (if ?m > WHIP6_MAX_NUM_MISSED_BROADCASTS_BEFORE_LINK_RESET
      then (let link = whip6_lowpanMeshLinkTableResetLinkQuality l1;
                flags = linkFlags link AND (WHIP6_6LOWPAN_LINK_FLAG_HAS_EXT_ADDR OR
                  WHIP6_6LOWPAN_LINK_FLAG_HAS_SHORT_ADDR OR WHIP6_6LOWPAN_LINK_FLAG_PINNED);
                flags = flags OR WHIP6_6LOWPAN_LINK_FLAG_INIT
            in link\<lparr>linkFlags := flags, quality := (quality link)\<lparr>numReceivedBeacons := 1\<rparr>\<rparr>)
      else l1\<lparr>quality := (quality l1)\<lparr>numReceivedBeacons := numReceivedBeacons (quality l1) + 1,
             numMissedBeacons := numMissedBeacons (quality l1) + ?m\<rparr>\<rparr>)"
  have "same_place l l2"
    using l1 by (simp add: l2_def Let_def same_place_update same_place_new_flags)
  then have l3: "same_place l (whip6_lowpanMeshLinkTableRecomputeBeaconBasedLinkQualityIfNecessary l2)"
    by (rule recompute_place_trans)
  show ?thesis
    unfolding report_broadcast_def Let_def l1_def [symmetric] l2_def [symmetric, unfolded Let_def]
    using l3 by (simp add: same_place_update same_place_new_flags)
qed

lemma report_unicast_place: "same_place l (report_unicast l acked)"
  by (auto simp: report_unicast_def Let_def same_place_update same_place_new_flags intro!: recompute_place_trans)

lemma mark_loop_ok:
  "mark_loop p k n = Some p' \<Longrightarrow> length p' = length p \<and> (\<forall>j<length p. same_place (p ! j) (p' ! j))"
proof (induction n arbitrary: p k)
  case (Suc n)
  let ?l = "p ! k"
  let ?l' = "if whip6_lowpanMeshLinkTableIsLinkAllocatedInternal ?l
      then if (linkFlags ?l AND WHIP6_6LOWPAN_LINK_FLAG_REFRESHED) = 0
           then ?l\<lparr>linkFlags := linkFlags ?l OR WHIP6_6LOWPAN_LINK_FLAG_RECLAIMABLE\<rparr>
           else ?l\<lparr>linkFlags := linkFlags ?l AND NOT WHIP6_6LOWPAN_LINK_FLAG_REFRESHED\<rparr>
      else ?l"
  have k: "k < length p" using Suc.prems by (cases "k < length p") (auto simp: buf_get_def)
  then have "mark_loop (p[k := ?l']) (k + 1) n = Some p'" using Suc.prems by simp
  from Suc.IH [OF this] have ih: "length p' = length p" "\<And>j. j < length p \<Longrightarrow> same_place (p[k := ?l'] ! j) (p' ! j)"
    by simp_all
  have k': "same_place ?l ?l'" by (simp add: same_place_new_flags)
  have "same_place (p ! j) (p' ! j)" if "j < length p" for j
  proof (cases "j = k")
    case True
    with ih(2) [OF that] k have "same_place ?l' (p' ! j)" by (simp only: nth_list_update_eq)
    then show ?thesis using same_place_trans [OF k'] True by simp
  next
    case False
    then show ?thesis using ih(2) [OF that] by simp
  qed
  then show ?case using ih(1) by blast
qed simp

lemma mark_loop_total: "k + n \<le> length p \<Longrightarrow> \<exists>p'. mark_loop p k n = Some p'"
  by (induction n arbitrary: p k) (auto simp: Let_def)

lemma mark_loop_overrun: "length p < k + n \<Longrightarrow> 0 < n \<Longrightarrow> mark_loop p k n = None"
proof (induction n arbitrary: p k)
  case (Suc n)
  show ?case
  proof (cases "n = 0")
    case True
    then show ?thesis using Suc.prems by (simp add: buf_get_def)
  next
    case False
    then show ?thesis using Suc by (auto simp: buf_get_def Let_def)
  qed
qed simp

lemma remove_any:
  assumes "table_ok t"
  shows "\<exists>t'. whip6_lowpanMeshLinkTableRemoveExistingLink t i = Some t' \<and> table_ok t' \<and> linkPoolLen t' = linkPoolLen t"
proof (cases "i < linkPoolLen t \<and> whip6_lowpanMeshLinkTableIsLinkAllocatedInternal (lk t i)")
  case True
  then show ?thesis using remove_table [OF assms] by blast
next
  case False
  have "link_get t i = Some (lk t i)" if "i < linkPoolLen t"
    using link_get_in [OF pool_ok_D(1) that] assms by (simp add: table_ok_def)
  then show ?thesis using False assms
    by (auto simp: whip6_lowpanMeshLinkTableRemoveExistingLink_def not_le)
qed

lemma sweep_loop_ok:
  "table_ok t \<Longrightarrow> sweep_loop t k n m = Some t' \<Longrightarrow> table_ok t' \<and> linkPoolLen t' = linkPoolLen t"
proof (induction n arbitrary: t k m)
  case (Suc n)
  show ?case
  proof (cases "m = 0")
    case False
    obtain l where l: "buf_get (linkPool t) k = Some l" using Suc.prems(2) False by (cases "buf_get (linkPool t) k") auto
    from remove_any [OF Suc.prems(1), of "linkIdx l"] obtain t1 where
      t1: "whip6_lowpanMeshLinkTableRemoveExistingLink t (linkIdx l) = Some t1" "table_ok t1" "linkPoolLen t1 = linkPoolLen t"
      by blast
    show ?thesis
    proof (cases "whip6_lowpanMeshLinkTableCanExistingLinkBeRemovedInternal l \<and>
        linkFlags l AND WHIP6_6LOWPAN_LINK_FLAG_RECLAIMABLE \<noteq> 0")
      case True
      then have "sweep_loop t1 (k + 1) n (m - 1) = Some t'" using Suc.prems(2) False l t1(1) by simp
      from Suc.IH [OF t1(2) this] show ?thesis using t1(3) by simp
    next
      case no: False
      then have "sweep_loop t (k + 1) n m = Some t'" using Suc.prems(2) False l by auto
      from Suc.IH [OF Suc.prems(1) this] show ?thesis .
    qed
  qed (use Suc.prems in simp)
qed simp

lemma sweep_loop_total:
  "table_ok t \<Longrightarrow> k + n \<le> unat (linkPoolLen t) \<Longrightarrow> \<exists>t'. sweep_loop t k n m = Some t'"
proof (induction n arbitrary: t k m)
  case (Suc n)
  have "k < length (linkPool t)" using Suc.prems pool_ok_D(1) [of t] by (simp add: table_ok_def)
  moreover from remove_any [OF Suc.prems(1), of "linkIdx (linkPool t ! k)"] obtain t1 where
    "whip6_lowpanMeshLinkTableRemoveExistingLink t (linkIdx (linkPool t ! k)) = Some t1" "table_ok t1"
    "linkPoolLen t1 = linkPoolLen t" by blast
  ultimately show ?case using Suc.IH [of t1 "k + 1" "m - 1"] Suc.IH [of t "k + 1" m] Suc.prems by auto
qed simp

section \<open>Histories\<close>

inductive table_step :: "lowpan_link_table \<Rightarrow> lowpan_link_table \<Rightarrow> bool" where
  step_find: "length (addrVars addr) = 8 \<Longrightarrow>
    whip6_lowpanMeshLinkTableFindExistingOrCreateNewLink t addr ev = Some (t', i) \<Longrightarrow> table_step t t'"
| step_remove: "whip6_lowpanMeshLinkTableRemoveExistingLink t i = Some t' \<Longrightarrow> table_step t t'"
| step_broadcast: "whip6_lowpanMeshLinkTableReportBroadcastReceptionForExistingLink t i seqNo = Some t' \<Longrightarrow> table_step t t'"
| step_unicast: "whip6_lowpanMeshLinkTableReportUnicastCompletionForExistingLink t i acked = Some t' \<Longrightarrow> table_step t t'"
| step_mark: "whip6_lowpanMeshLinkTableMarkUnrefreshedLinksForRemoval t firstIdx numIdx = Some (t', res) \<Longrightarrow> table_step t t'"
| step_sweep: "whip6_lowpanMeshLinkTableRemoveLinksMarkedForRemoval t firstIdx numIdx maxRemoved = Some (t', res) \<Longrightarrow>
    table_step t t'"

inductive_cases table_stepE: "table_step t t'"

lemma report_table:
  assumes "table_ok t" "link_get t i = Some l" "same_place l l'"
  shows "table_ok (link_put t i l')"
proof -
  have i: "unat i < length (linkPool t)" "l = linkPool t ! unat i"
    using assms(2) by (auto simp: link_get_def buf_get_def split: if_splits)
  have "table_ok (t\<lparr>linkPool := (linkPool t)[unat i := l']\<rparr>)"
    by (rule table_ok_update [OF assms(1)]) (use assms(3) i in \<open>auto simp: nth_list_update\<close>)
  then show ?thesis by (simp add: link_put_def)
qed

lemma step_ok:
  assumes "table_step t t'" "table_ok t"
  shows "table_ok t'"
  using assms(1)
proof cases
  case (step_find addr ev i)
  then show ?thesis using find_create [OF assms(2) step_find(1), of ev] by auto
next
  case (step_remove i)
  then show ?thesis using remove_any [OF assms(2), of i] by auto
next
  case (step_broadcast i seqNo)
  then show ?thesis using report_table [OF assms(2)] report_broadcast_place
    by (auto simp: whip6_lowpanMeshLinkTableReportBroadcastReceptionForExistingLink_def bind_eq_Some_conv)
next
  case (step_unicast i acked)
  then show ?thesis using report_table [OF assms(2)] report_unicast_place
    by (auto simp: whip6_lowpanMeshLinkTableReportUnicastCompletionForExistingLink_def bind_eq_Some_conv)
next
  case (step_mark firstIdx numIdx res)
  then show ?thesis using assms(2) table_ok_update [OF assms(2)] mark_loop_ok
    by (auto simp: whip6_lowpanMeshLinkTableMarkUnrefreshedLinksForRemoval_def bind_eq_Some_conv
        split: if_splits prod.splits)
next
  case (step_sweep firstIdx numIdx maxRemoved res)
  then show ?thesis using assms(2) sweep_loop_ok [OF assms(2)]
    by (auto simp: whip6_lowpanMeshLinkTableRemoveLinksMarkedForRemoval_def bind_eq_Some_conv
        split: if_splits prod.splits)
qed

definition table_reach :: "lowpan_link_table \<Rightarrow> bool" where
  "table_reach t \<longleftrightarrow> (\<exists>t0 t1. table_raw t0 \<and> whip6_lowpanMeshLinkTableReset t0 = Some t1 \<and> table_step\<^sup>*\<^sup>* t1 t)"

lemma reach_ok: "table_reach t \<Longrightarrow> table_ok t"
proof -
  assume "table_reach t"
  then obtain t0 t1 where t: "table_raw t0" "whip6_lowpanMeshLinkTableReset t0 = Some t1" "table_step\<^sup>*\<^sup>* t1 t"
    by (auto simp: table_reach_def)
  from reset_table [OF t(1)] t(2) have "table_ok t1" by auto
  with t(3) show "table_ok t" by (induction rule: rtranclp_induct) (auto intro: step_ok)
qed

lemma reach_step: "table_reach t \<Longrightarrow> table_step t t' \<Longrightarrow> table_reach t'"
  unfolding table_reach_def by (meson rtranclp.rtrancl_into_rtrancl)

section \<open>Iteration\<close>

lemma next_link_loop_eq:
  assumes "pool_ok t"
  shows "k + n = unat (linkPoolLen t) \<Longrightarrow> next_link_loop (linkPool t) k n =
    Some (found (List.find (\<lambda>i. whip6_lowpanMeshLinkTableIsLinkAllocatedInternal (lk t i)) (map of_nat [k..<unat (linkPoolLen t)])))"
proof (induction n arbitrary: k)
  case (Suc n)
  have k: "k < length (linkPool t)" using Suc.prems pool_ok_D(1) [OF assms] by simp
  have "k < 256" using Suc.prems unat_u8_less [of "linkPoolLen t"] by linarith
  then have u: "unat (of_nat k :: u8) = k" by (simp add: unat_of_nat)
  then have "(of_nat k :: u8) < linkPoolLen t" using Suc.prems by (simp add: word_less_nat_alt)
  then have "linkIdx (lk t (of_nat k)) = of_nat k" using pool_ok_D(2) [OF assms] by (simp add: link_ok_def)
  moreover have "lk t (of_nat k) = linkPool t ! k" using u by (simp add: lk_def)
  moreover have "[k..<unat (linkPoolLen t)] = k # [Suc k..<unat (linkPoolLen t)]"
    using Suc.prems by (simp add: upt_conv_Cons)
  ultimately show ?case using Suc.IH [of "Suc k"] Suc.prems k by (simp add: found_def)
qed (simp add: found_def)

lemma first_link: "table_ok t \<Longrightarrow> whip6_lowpanMeshLinkTableGetFirstLink t =
    Some (found (List.find (\<lambda>i. whip6_lowpanMeshLinkTableIsLinkAllocatedInternal (lk t i)) (indices t)))"
  using next_link_loop_eq [of t 0 "unat (linkPoolLen t)"]
  by (simp add: whip6_lowpanMeshLinkTableGetFirstLink_def indices_def table_ok_def)

lemma next_link:
  assumes "table_ok t" "i < linkPoolLen t"
  shows "whip6_lowpanMeshLinkTableGetNextLink t i = Some (found (List.find
    (\<lambda>i. whip6_lowpanMeshLinkTableIsLinkAllocatedInternal (lk t i)) (map of_nat [unat i + 1..<unat (linkPoolLen t)])))"
proof -
  have lt: "unat i < unat (linkPoolLen t)" using assms(2) by (simp add: word_less_nat_alt)
  have "unat i + 1 < 256" using lt unat_u8_less [of "linkPoolLen t"] by linarith
  then have u: "unat (i + 1) = unat i + 1" by (simp add: unat_u8_plus)
  then have "i + 1 \<le> linkPoolLen t" using lt by (simp add: word_le_nat_alt)
  then have "unat (linkPoolLen t - (i + 1)) = unat (linkPoolLen t) - (unat i + 1)" using u by (simp add: unat_sub)
  then show ?thesis using next_link_loop_eq [of t "unat i + 1" "unat (linkPoolLen t) - (unat i + 1)"] assms u lt
    by (simp add: whip6_lowpanMeshLinkTableGetNextLink_def Let_def not_le [symmetric] table_ok_def)
qed

section \<open>Removal and the windows of the sweeps\<close>

lemma has_addr_unique:
  assumes "table_ok t" "i < linkPoolLen t" "j < linkPoolLen t" "link_has_addr (lk t i) addr" "link_has_addr (lk t j) addr"
  shows "i = j"
proof (cases "addrMode addr = IEEE154_ADDR_MODE_SHORT")
  case True
  have "inj_on (\<lambda>i. kAddr short_kind (lk t i)) {i. in_kind short_kind t i}"
    using assms(1) by (simp add: table_ok_def kind_ok_def)
  moreover have "kAddr short_kind (lk t i) = kAddr short_kind (lk t j)" "i \<in> {i. in_kind short_kind t i}"
    "j \<in> {i. in_kind short_kind t i}"
    using assms(2-5) True by (simp_all add: in_kind_def link_has_addr_def short_kind_def)
  ultimately show ?thesis by (rule inj_onD)
next
  case False
  have "inj_on (\<lambda>i. kAddr ext_kind (lk t i)) {i. in_kind ext_kind t i}"
    using assms(1) by (simp add: table_ok_def kind_ok_def)
  moreover have "kAddr ext_kind (lk t i) = kAddr ext_kind (lk t j)" "i \<in> {i. in_kind ext_kind t i}"
    "j \<in> {i. in_kind ext_kind t i}"
    using assms(2-5) False by (simp_all add: in_kind_def link_has_addr_def ext_kind_def)
  ultimately show ?thesis by (rule inj_onD)
qed

lemma search_found:
  "link_search t addr \<noteq> WHIP6_6LOWPAN_INVALID_LINK_IDX \<Longrightarrow>
   link_search t addr < linkPoolLen t \<and> link_has_addr (lk t (link_search t addr)) addr"
  unfolding link_search_def by (rule found_find(2))

lemma search_removed:
  assumes "table_ok t" "i < linkPoolLen t" "linkPoolLen t' = linkPoolLen t" "linkFlags (lk t' i) = 0"
    "\<And>j. j \<noteq> i \<Longrightarrow> kept t t' j"
  shows "link_search t' addr = (if link_search t addr = i then WHIP6_6LOWPAN_INVALID_LINK_IDX else link_search t addr)"
proof -
  have has: "link_has_addr (lk t' j) addr \<longleftrightarrow> j \<noteq> i \<and> link_has_addr (lk t j) addr" for j
    using kept_has_addr [OF assms(5)] no_flags_no_addr [OF assms(4)] by (cases "j = i") auto
  consider "link_search t addr = WHIP6_6LOWPAN_INVALID_LINK_IDX" | "link_search t addr = i" "i \<noteq> WHIP6_6LOWPAN_INVALID_LINK_IDX"
    | "link_search t addr \<noteq> WHIP6_6LOWPAN_INVALID_LINK_IDX" "link_search t addr \<noteq> i" by blast
  then show ?thesis
  proof cases
    case 1
    then have "link_search t' addr = WHIP6_6LOWPAN_INVALID_LINK_IDX" by (auto simp: search_none has assms(3))
    then show ?thesis using 1 less_not_invalid [OF assms(2)] by auto
  next
    case 2
    then have i: "link_has_addr (lk t i) addr" using search_found [of t addr] by simp
    have "\<not> link_has_addr (lk t' j) addr" if "j < linkPoolLen t" for j
      unfolding has using has_addr_unique [OF assms(1) that assms(2) _ i] by blast
    then have "link_search t' addr = WHIP6_6LOWPAN_INVALID_LINK_IDX" by (simp add: search_none assms(3))
    then show ?thesis using 2 by simp
  next
    case 3
    note f = search_found [OF 3(1)]
    have "link_search t' addr = link_search t addr"
    proof (rule search_unique)
      show "link_search t addr < linkPoolLen t'" "link_has_addr (lk t' (link_search t addr)) addr"
        using f 3(2) by (simp_all add: has assms(3))
      show "\<not> link_has_addr (lk t' j) addr" if "j < linkPoolLen t'" "j \<noteq> link_search t addr" for j
        unfolding has using that f has_addr_unique [OF assms(1), of j "link_search t addr"] assms(3) by auto
    qed
    then show ?thesis using 3 by simp
  qed
qed

lemma window:
  assumes "firstIdx < linkPoolLen t" "unat firstIdx + unat numIdx < 256"
  shows "unat firstIdx + unat (fst (sweep_window t firstIdx numIdx)) \<le> unat (linkPoolLen t)"
proof -
  have s: "unat (numIdx + firstIdx) = unat numIdx + unat firstIdx" using assms(2) by (simp add: unat_u8_plus)
  have f: "unat (numIdx + firstIdx - firstIdx) = unat numIdx" by simp
  have l: "unat (linkPoolLen t - firstIdx) = unat (linkPoolLen t) - unat firstIdx"
    using assms(1) by (intro unat_sub less_imp_le)
  show ?thesis using assms(1) s f l
    by (auto simp: sweep_window_def Let_def word_less_nat_alt word_le_nat_alt not_le split: if_splits)
qed

lemma window_wrapped:
  assumes "firstIdx < linkPoolLen t" "256 \<le> unat firstIdx + unat numIdx"
  shows "fst (sweep_window t firstIdx numIdx) = numIdx"
proof -
  have "unat (numIdx + firstIdx) = (unat numIdx + unat firstIdx) mod 256" by (simp add: unat_word_ariths)
  also have "\<dots> = unat numIdx + unat firstIdx - 256"
  proof -
    have "256 \<le> unat numIdx + unat firstIdx" "unat numIdx + unat firstIdx - 256 < 256"
      using assms(2) unat_u8_less [of numIdx] unat_u8_less [of firstIdx] by linarith+
    then show ?thesis by (simp only: le_mod_geq mod_less)
  qed
  finally have "unat (numIdx + firstIdx) < unat firstIdx" using assms(2) unat_u8_less [of numIdx] by linarith
  then have "numIdx + firstIdx < linkPoolLen t" using assms(1) unfolding word_less_nat_alt by linarith
  then show ?thesis by (simp add: sweep_window_def not_le [symmetric])
qed

section \<open>Properties\<close>

definition link_ex_raw :: lowpan_link_table where
  "link_ex_raw = \<lparr>linkPool = [ex_link, ex_link], extAddrHashMap = [0, 0], shrtAddrHashMap = [0], linkPoolLen = 2,
     extAddrHashMapLen = 2, shrtAddrHashMapLen = 1, firstLinkInPool = 0\<rparr>"

definition link_ex_addr :: ieee154_addr where
  "link_ex_addr = \<lparr>addrMode = IEEE154_ADDR_MODE_EXT, addrVars = [1, 2, 3, 4, 5, 6, 7, 8]\<rparr>"

lemma link_ex_reach: "\<exists>t. table_reach t \<and> linkPoolLen t = 2 \<and> link_search t link_ex_addr \<noteq> WHIP6_6LOWPAN_INVALID_LINK_IDX"
proof -
  have "table_raw link_ex_raw" by (simp add: table_raw_def link_ex_raw_def ex_link_def)
  with reset_table obtain t where t: "whip6_lowpanMeshLinkTableReset link_ex_raw = Some t" "table_ok t"
    "linkPoolLen t = linkPoolLen link_ex_raw" "\<forall>j<linkPoolLen t. linkFlags (lk t j) = 0" by blast
  have a: "length (addrVars link_ex_addr) = 8" by (simp add: link_ex_addr_def)
  from find_create [OF t(2) a, of False] obtain t' i where t':
    "whip6_lowpanMeshLinkTableFindExistingOrCreateNewLink t link_ex_addr False = Some (t', i)" "linkPoolLen t' = linkPoolLen t"
    "find_or_create_spec t link_ex_addr False t' i" by blast
  have len: "linkPoolLen t = 2" using t(3) by (simp add: link_ex_raw_def)
  have "\<not> pool_full t"
    using t(4) len unfolding pool_full_def
    by (auto simp: whip6_lowpanMeshLinkTableIsLinkAllocatedInternal_def intro!: exI [of _ 0])
  moreover have "addr_usable link_ex_addr" by (simp add: addr_usable_def link_ex_addr_def)
  ultimately have "i \<noteq> WHIP6_6LOWPAN_INVALID_LINK_IDX" "i = link_search t' link_ex_addr"
    using t'(3) by (auto simp: find_or_create_spec_def split: if_splits)
  moreover have "table_reach t'"
    unfolding table_reach_def using \<open>table_raw link_ex_raw\<close> t(1) step_find [OF a t'(1)] by blast
  ultimately show ?thesis using t'(2) len by metis
qed

text \<open>C17: In every table that a history of operations leads to from the reset one, looking an address up
  in its hash map ends and gives what a linear search of the pool for a link with that address gives.\<close>

theorem link_lookup:
  assumes "table_reach t" "length (addrVars addr) = 8"
  shows "whip6_lowpanMeshLinkTableLookupLink t addr = Some (link_search t addr)"
  using lookup_search [OF reach_ok [OF assms(1)] assms(2)] .

theorem link_lookup_witness:
  "\<exists>t. whip6_lowpanMeshLinkTableLookupLink t link_ex_addr = Some (link_search t link_ex_addr) \<and>
     link_search t link_ex_addr \<noteq> WHIP6_6LOWPAN_INVALID_LINK_IDX"
  using link_ex_reach link_lookup [of _ link_ex_addr] by (auto simp: link_ex_addr_def)

text \<open>Finding or creating a link, for any address. One of neither mode is not found, and in a full pool a link is evicted for it
  before that is noticed.\<close>

lemma find_or_create_any:
  assumes "table_reach t" "length (addrVars addr) = 8"
  shows "\<exists>t' i. whip6_lowpanMeshLinkTableFindExistingOrCreateNewLink t addr ev = Some (t', i) \<and> table_reach t' \<and>
    find_or_create_spec t addr ev t' i"
proof -
  from find_create [OF reach_ok [OF assms(1)] assms(2), of ev] obtain t' i where t':
    "whip6_lowpanMeshLinkTableFindExistingOrCreateNewLink t addr ev = Some (t', i)" "find_or_create_spec t addr ev t' i"
    by blast
  then show ?thesis using reach_step [OF assms(1) step_find [OF assms(2) t'(1)]] by blast
qed

text \<open>C16: Finding or creating the link of a short or extended address in a reachable table ends and leads to a reachable
  table. If there is a link with the address, its index is returned and the table is unchanged. Otherwise, if a link is
  free, one that is free becomes the link of the address; in a full pool the removable link of greatest transmission count does,
  if eviction is allowed and a link is removable; all other links keep their addresses, flags and qualities. In the
  remaining case no index is returned and the table is unmodified.\<close>

theorem link_find_or_create:
  assumes "table_reach t" "length (addrVars addr) = 8" "addrMode addr \<in> {IEEE154_ADDR_MODE_SHORT, IEEE154_ADDR_MODE_EXT}"
  shows "\<exists>t' i. whip6_lowpanMeshLinkTableFindExistingOrCreateNewLink t addr ev = Some (t', i) \<and> table_reach t' \<and>
    (if link_search t addr \<noteq> WHIP6_6LOWPAN_INVALID_LINK_IDX then i = link_search t addr \<and> t' = t
     else if pool_full t \<and> \<not> (ev \<and> (\<exists>j. removable t j)) then i = WHIP6_6LOWPAN_INVALID_LINK_IDX \<and> t' = t
     else i \<noteq> WHIP6_6LOWPAN_INVALID_LINK_IDX \<and> i = link_search t' addr \<and>
       (if pool_full t then worst t i else \<not> whip6_lowpanMeshLinkTableIsLinkAllocatedInternal (lk t i)) \<and>
       (\<forall>j. j \<noteq> i \<longrightarrow> kept t t' j))"
proof -
  have u: "addr_usable addr" using assms(3) by (auto simp: addr_usable_def)
  obtain t' i where t': "whip6_lowpanMeshLinkTableFindExistingOrCreateNewLink t addr ev = Some (t', i)" "table_reach t'"
    "find_or_create_spec t addr ev t' i" using find_or_create_any [OF assms(1,2)] by blast
  have w: "removable t i" if "worst t i" using that by (simp add: worst_def)
  show ?thesis using t' u w by (auto simp: find_or_create_spec_def split: if_splits)
qed

lemma link_ex_empty:
  "\<exists>t. table_reach t \<and> linkPoolLen t = 2 \<and> \<not> pool_full t \<and> link_search t link_ex_addr = WHIP6_6LOWPAN_INVALID_LINK_IDX"
proof -
  have raw: "table_raw link_ex_raw" by (simp add: table_raw_def link_ex_raw_def ex_link_def)
  with reset_table obtain t where t: "whip6_lowpanMeshLinkTableReset link_ex_raw = Some t"
    "linkPoolLen t = linkPoolLen link_ex_raw" "\<forall>j<linkPoolLen t. linkFlags (lk t j) = 0" by blast
  have len: "linkPoolLen t = 2" using t(2) by (simp add: link_ex_raw_def)
  have "\<not> pool_full t"
    using t(3) len unfolding pool_full_def
    by (auto simp: whip6_lowpanMeshLinkTableIsLinkAllocatedInternal_def intro!: exI [of _ 0])
  moreover have "link_search t link_ex_addr = WHIP6_6LOWPAN_INVALID_LINK_IDX"
    unfolding search_none using t(3) no_flags_no_addr by blast
  moreover have "table_reach t" unfolding table_reach_def using raw t(1) by blast
  ultimately show ?thesis using len by blast
qed

theorem link_find_or_create_witness:
  "\<exists>t t' i. whip6_lowpanMeshLinkTableFindExistingOrCreateNewLink t link_ex_addr True = Some (t', i) \<and>
     link_search t link_ex_addr = WHIP6_6LOWPAN_INVALID_LINK_IDX \<and> i \<noteq> WHIP6_6LOWPAN_INVALID_LINK_IDX \<and>
     link_search t' link_ex_addr = i \<and> (\<forall>j. j \<noteq> i \<longrightarrow> kept t t' j)"
proof -
  obtain t where t: "table_reach t" "\<not> pool_full t" "link_search t link_ex_addr = WHIP6_6LOWPAN_INVALID_LINK_IDX"
    using link_ex_empty by blast
  have a: "length (addrVars link_ex_addr) = 8" "addrMode link_ex_addr \<in> {IEEE154_ADDR_MODE_SHORT, IEEE154_ADDR_MODE_EXT}"
    by (simp_all add: link_ex_addr_def)
  show ?thesis using link_find_or_create [OF t(1) a, of True] t(2,3) by auto
qed

text \<open>C18: Removing a link of a reachable table ends, leads to a reachable table, and takes from the table
  exactly the address of that link: every other lookup is as before.\<close>

theorem link_removal:
  assumes "table_reach t" "i < linkPoolLen t" "whip6_lowpanMeshLinkTableIsLinkAllocatedInternal (lk t i)"
  shows "\<exists>t'. whip6_lowpanMeshLinkTableRemoveExistingLink t i = Some t' \<and> table_reach t' \<and>
    (\<forall>addr. link_search t' addr =
      (if link_search t addr = i then WHIP6_6LOWPAN_INVALID_LINK_IDX else link_search t addr))"
proof -
  from remove_table [OF reach_ok [OF assms(1)] assms(2,3)] obtain t' where t':
    "whip6_lowpanMeshLinkTableRemoveExistingLink t i = Some t'" "linkPoolLen t' = linkPoolLen t" "linkFlags (lk t' i) = 0"
    "\<forall>j. j \<noteq> i \<longrightarrow> linkFlags (lk t' j) = linkFlags (lk t j) \<and> same_link (lk t j) (lk t' j)" by blast
  have "kept t t' j" if "j \<noteq> i" for j using t'(4) that by (simp add: kept_def)
  from search_removed [OF reach_ok [OF assms(1)] assms(2) t'(2,3) this]
  show ?thesis using t'(1) reach_step [OF assms(1) step_remove [OF t'(1)]] by blast
qed

theorem link_removal_witness:
  "\<exists>t t' i. link_search t link_ex_addr = i \<and> i \<noteq> WHIP6_6LOWPAN_INVALID_LINK_IDX \<and>
     link_search t' link_ex_addr = WHIP6_6LOWPAN_INVALID_LINK_IDX"
proof -
  obtain t where t: "table_reach t" "link_search t link_ex_addr \<noteq> WHIP6_6LOWPAN_INVALID_LINK_IDX" using link_ex_reach by blast
  have f: "link_search t link_ex_addr < linkPoolLen t" "link_has_addr (lk t (link_search t link_ex_addr)) link_ex_addr"
    using search_found [OF t(2)] by auto
  then have "whip6_lowpanMeshLinkTableIsLinkAllocatedInternal (lk t (link_search t link_ex_addr))"
    by (auto simp: link_has_addr_def whip6_lowpanMeshLinkTableIsLinkAllocatedInternal_def allocated_flags split: if_splits)
  from link_removal [OF t(1) f(1) this] show ?thesis using t(2) by metis
qed

text \<open>C19: In a reachable table the removal of any index, the reports for any link and the sweeps over any
  window end within the pool, if the end of the window is in the range of a \<open>uint8_t\<close>. Beyond that range
  the end wraps, and marking the links of the window leaves the pool.\<close>

theorem link_table_bounds:
  assumes "table_reach t"
  shows "(\<exists>t'. whip6_lowpanMeshLinkTableRemoveExistingLink t i = Some t') \<and>
    (i < linkPoolLen t \<longrightarrow>
      (\<exists>t'. whip6_lowpanMeshLinkTableReportBroadcastReceptionForExistingLink t i seqNo = Some t') \<and>
      (\<exists>t'. whip6_lowpanMeshLinkTableReportUnicastCompletionForExistingLink t i acked = Some t')) \<and>
    (firstIdx \<ge> linkPoolLen t \<or> unat firstIdx + unat numIdx < 256 \<longrightarrow>
      (\<exists>t' r. whip6_lowpanMeshLinkTableRemoveLinksMarkedForRemoval t firstIdx numIdx maxRemoved = Some (t', r))) \<and>
    (whip6_lowpanMeshLinkTableMarkUnrefreshedLinksForRemoval t firstIdx numIdx = None \<longleftrightarrow>
      firstIdx < linkPoolLen t \<and> 256 \<le> unat firstIdx + unat numIdx)"
proof (intro conjI impI)
  have ok: "table_ok t" using assms by (rule reach_ok)
  then have len: "length (linkPool t) = unat (linkPoolLen t)" using pool_ok_D(1) by (simp add: table_ok_def)
  show "\<exists>t'. whip6_lowpanMeshLinkTableRemoveExistingLink t i = Some t'" using remove_any [OF ok] by blast
  show "\<exists>t'. whip6_lowpanMeshLinkTableReportBroadcastReceptionForExistingLink t i seqNo = Some t'" if "i < linkPoolLen t"
    by (simp add: whip6_lowpanMeshLinkTableReportBroadcastReceptionForExistingLink_def link_get_in [OF len that])
  show "\<exists>t'. whip6_lowpanMeshLinkTableReportUnicastCompletionForExistingLink t i acked = Some t'" if "i < linkPoolLen t"
    by (simp add: whip6_lowpanMeshLinkTableReportUnicastCompletionForExistingLink_def link_get_in [OF len that])
  show "\<exists>t' r. whip6_lowpanMeshLinkTableRemoveLinksMarkedForRemoval t firstIdx numIdx maxRemoved = Some (t', r)"
    if "firstIdx \<ge> linkPoolLen t \<or> unat firstIdx + unat numIdx < 256"
    using sweep_loop_total [OF ok window, of firstIdx numIdx maxRemoved] that
    by (auto simp: whip6_lowpanMeshLinkTableRemoveLinksMarkedForRemoval_def not_le split: prod.split)
  show "whip6_lowpanMeshLinkTableMarkUnrefreshedLinksForRemoval t firstIdx numIdx = None \<longleftrightarrow>
      firstIdx < linkPoolLen t \<and> 256 \<le> unat firstIdx + unat numIdx"
  proof (cases "firstIdx < linkPoolLen t \<and> 256 \<le> unat firstIdx + unat numIdx")
    case True
    have "length (linkPool t) < unat firstIdx + unat numIdx" "0 < unat numIdx"
      using True len unat_u8_less [of firstIdx] unat_u8_less [of "linkPoolLen t"] by linarith+
    from mark_loop_overrun [OF this] show ?thesis using True window_wrapped [of firstIdx t numIdx]
      by (auto simp: whip6_lowpanMeshLinkTableMarkUnrefreshedLinksForRemoval_def not_le [symmetric] split: prod.split)
  next
    case False
    have "\<exists>p. mark_loop (linkPool t) (unat firstIdx) (unat (fst (sweep_window t firstIdx numIdx))) = Some p"
      if "firstIdx < linkPoolLen t"
      using mark_loop_total window [of firstIdx t numIdx] len that False by auto
    then show ?thesis using False
      by (auto simp: whip6_lowpanMeshLinkTableMarkUnrefreshedLinksForRemoval_def not_le split: prod.split)
  qed
qed

theorem link_table_bounds_witness:
  "\<exists>t. linkPoolLen t = 2 \<and> whip6_lowpanMeshLinkTableMarkUnrefreshedLinksForRemoval t 1 255 = None \<and>
     whip6_lowpanMeshLinkTableMarkUnrefreshedLinksForRemoval t 0 255 \<noteq> None"
proof -
  obtain t where "table_reach t" "linkPoolLen t = 2" using link_ex_reach by blast
  then show ?thesis using link_table_bounds [of t _ _ _ 1 255] link_table_bounds [of t _ _ _ 0 255] by auto
qed

end
