(* ===== verification/Lowpan_SoftwareAck.thy ===== *)
theory Lowpan_SoftwareAck
  imports Ieee154_FrameRead
begin

text \<open>
  Software acknowledgements: \<open>microc/src/6lowpan/uc6LoWPANNalpExtensionSoftwareAcknowledgments.c\<close>.
  An acknowledgement is a frame whose three bytes of payload are a dispatch byte that is not of
  6LoWPAN, the code of the extension and the sequence number of the acknowledged frame.
\<close>

definition LOWPAN_DISPATCH_PATTERN_NALP :: u8 where "LOWPAN_DISPATCH_PATTERN_NALP = 0x00"
definition LOWPAN_DISPATCH_MASK_NALP :: u8 where "LOWPAN_DISPATCH_MASK_NALP = 0xc0"
definition WHIP6_LOWPAN_NALP_EXTENSION_ID_SOFTWARE_ACK :: u8 where
  "WHIP6_LOWPAN_NALP_EXTENSION_ID_SOFTWARE_ACK = 0xc4"

lemmas nalp_constants = LOWPAN_DISPATCH_PATTERN_NALP_def LOWPAN_DISPATCH_MASK_NALP_def
  WHIP6_LOWPAN_NALP_EXTENSION_ID_SOFTWARE_ACK_def

text \<open>The sequence number is \<open>Some\<close> where the code stores it and returns one.\<close>

definition whip6_lowpanNalpExtSoftwareAcknowledgmentIsAckFrame :: "ieee154_dframe_info \<Rightarrow> u8 option option" where
  "whip6_lowpanNalpExtSoftwareAcknowledgmentIsAckFrame inFrame =
     do { len \<leftarrow> whip6_ieee154DFrameGetPayloadLen inFrame;
          if len = 3
          then
            do { let saPayloadPtr = whip6_ieee154DFrameUnsafeGetPayloadPtr inFrame;
                 lowpanNalpCode \<leftarrow> frame_get inFrame saPayloadPtr;
                 softwareAckNalpCode \<leftarrow> frame_get inFrame (saPayloadPtr + 1);
                 frameSeqNo \<leftarrow> frame_get inFrame (saPayloadPtr + 2);
                 Some (if (lowpanNalpCode AND LOWPAN_DISPATCH_MASK_NALP) = LOWPAN_DISPATCH_PATTERN_NALP \<and>
                          softwareAckNalpCode = WHIP6_LOWPAN_NALP_EXTENSION_ID_SOFTWARE_ACK
                       then Some frameSeqNo else None) }
          else Some None }"

definition whip6_lowpanNalpExtSoftwareAcknowledgmentCreateAckFrame ::
  "ieee154_dframe_info \<Rightarrow> ieee154_dframe_info \<Rightarrow> (ieee154_dframe_info \<times> bool) option" where
  "whip6_lowpanNalpExtSoftwareAcknowledgmentCreateAckFrame ackFrame inFrame =
     do { broadcast \<leftarrow> whip6_ieee154DFrameInfoCheckIfDestinationIsBroadcast inFrame;
          if broadcast then Some (ackFrame, False)
          else
            do { (ackFrame, status) \<leftarrow> whip6_ieee154DFrameInfoReinitializeFrameInOppositeDirection ackFrame inFrame;
                 if status \<noteq> WHIP6_NO_ERROR then Some (ackFrame, False)
                 else
                   case whip6_ieee154DFrameGetPayloadPtr ackFrame 3 of
                     None \<Rightarrow> Some (ackFrame, False)
                   | Some saPayloadPtr \<Rightarrow>
                       do { ackFrame \<leftarrow> frame_put ackFrame saPayloadPtr LOWPAN_DISPATCH_PATTERN_NALP;
                            ackFrame \<leftarrow> frame_put ackFrame (saPayloadPtr + 1) WHIP6_LOWPAN_NALP_EXTENSION_ID_SOFTWARE_ACK;
                            seqNo \<leftarrow> whip6_ieee154DFrameGetSeqNo inFrame;
                            ackFrame \<leftarrow> frame_put ackFrame (saPayloadPtr + 2) seqNo;
                            ackFrame \<leftarrow> whip6_ieee154DFrameSetPayloadLen ackFrame 3;
                            Some (ackFrame, True) } } }"

section \<open>Frames that differ in length byte and payload\<close>

lemma frame_put_in: "i < length (bufferPtr f) \<Longrightarrow> frame_put f i b = Some (f\<lparr>bufferPtr := (bufferPtr f)[i := b]\<rparr>)"
  by (simp add: frame_put_def)

lemma frame_holds_frame:
  assumes "frame_holds dst src dstPan srcPan f" "length b = length (bufferPtr f)"
    "\<And>j. 4 \<le> j \<Longrightarrow> j < fr_pay (addrMode dst) (addrMode src) (srcPan \<noteq> None) \<Longrightarrow> b ! j = bufferPtr f ! j"
  shows "frame_holds dst src dstPan srcPan (f\<lparr>bufferPtr := b\<rparr>)"
proof -
  let ?dm = "addrMode dst" and ?sm = "addrMode src" and ?ip = "srcPan \<noteq> None"
  have fit: "frame_fits ?dm ?sm ?ip f" using assms(1) by (simp add: frame_holds_def)
  then have lay: "frame_layout ?dm ?sm ?ip f" by (simp add: frame_fits_def)
  have bnd: "6 + addr_len ?dm \<le> fr_pay ?dm ?sm ?ip" "fr_src ?dm ?ip + addr_len ?sm = fr_pay ?dm ?sm ?ip"
    "?ip \<Longrightarrow> fr_srcpan ?dm + 2 \<le> fr_pay ?dm ?sm ?ip" "6 \<le> fr_srcpan ?dm" "6 \<le> fr_src ?dm ?ip" "10 \<le> fr_pay ?dm ?sm ?ip"
    using fr_bounds(5) [OF frame_layout_modes [OF lay]]
    by (auto simp: fr_srcpan_def fr_src_def fr_pay_def)
  have len: "fr_pay ?dm ?sm ?ip \<le> length (bufferPtr f)" using fit by (auto simp: frame_fits_def)
  have rng: "mem_range b i n = mem_range (bufferPtr f) i n" if "4 \<le> i" "i + n \<le> fr_pay ?dm ?sm ?ip" for i n
  proof (rule nth_equalityI)
    show "length (mem_range b i n) = length (mem_range (bufferPtr f) i n)" using assms(2) by (simp add: mem_range_def)
    fix j assume "j < length (mem_range b i n)"
    then have "j < n" by (simp add: mem_range_def)
    then show "mem_range b i n ! j = mem_range (bufferPtr f) i n ! j"
      using that len assms(2) assms(3) [of "i + j"] by (simp add: mem_range_def)
  qed
  have "mem_range b 4 2 = mem_range (bufferPtr f) 4 2" using bnd by (intro rng) linarith+
  moreover have "mem_range b 6 (addr_len ?dm) = mem_range (bufferPtr f) 6 (addr_len ?dm)"
    using bnd by (intro rng) linarith+
  moreover have "mem_range b (fr_srcpan ?dm) 2 = mem_range (bufferPtr f) (fr_srcpan ?dm) 2" if ?ip
    using bnd(3,4) that by (intro rng) auto
  moreover have "mem_range b (fr_src ?dm ?ip) (addr_len ?sm) = mem_range (bufferPtr f) (fr_src ?dm ?ip) (addr_len ?sm)"
    using bnd by (intro rng) linarith+
  ultimately show ?thesis using assms(1,2) by (auto simp: frame_holds_def split: option.splits)
qed

lemma IsBroadcast_eq:
  assumes "frame_holds dst src dstPan srcPan f" "addr_ok dst"
  shows "whip6_ieee154DFrameInfoCheckIfDestinationIsBroadcast f =
    Some (addrMode dst = IEEE154_ADDR_MODE_SHORT \<and> addr_bytes dst = [0xff, 0xff])"
proof -
  have lay: "frame_layout (addrMode dst) (addrMode src) (srcPan \<noteq> None) f"
    and fit: "frame_fits (addrMode dst) (addrMode src) (srcPan \<noteq> None) f"
    using assms(1) by (simp_all add: frame_holds_def frame_fits_def)
  note o = frame_layout_offsets [OF lay]
  have l: "10 \<le> length (bufferPtr f)" by (rule frame_fits_bounds(1) [OF fit])
  show ?thesis
  proof (cases "addrMode dst = IEEE154_ADDR_MODE_SHORT")
    case True
    have r: "mem_range (bufferPtr f) 6 2 = addr_bytes dst"
      using assms(1) True by (simp add: frame_holds_def addr_len_def)
    have "addr_bytes dst = [bufferPtr f ! 6, bufferPtr f ! 7]"
      unfolding r [symmetric] using l by (simp add: mem_range_def take_Suc_conv_app_nth numeral_2_eq_2)
    then show ?thesis using True l
      by (simp add: whip6_ieee154DFrameInfoCheckIfDestinationIsBroadcast_def o frame_get_def Let_def or_eq_0_iff)
  next
    case False
    then show ?thesis by (simp add: whip6_ieee154DFrameInfoCheckIfDestinationIsBroadcast_def o)
  qed
qed

section \<open>Acknowledging a frame\<close>

lemma ack_created:
  assumes h: "frame_holds dst src dstPan srcPan f"
    and ok: "addr_ok dst" "addr_ok src"
    and fcf: "bufferPtr f ! 1 = fcf1 (srcPan \<noteq> None)" "bufferPtr f ! 2 = fcf2 (addrMode dst) (addrMode src)"
    and out: "fr_pay (addrMode dst) (addrMode src) (srcPan \<noteq> None) + 3 \<le> unat (bufferLen g)"
      "unat (bufferLen g) \<le> length (bufferPtr g)"
    and uni: "\<not> (addrMode dst = IEEE154_ADDR_MODE_SHORT \<and> addr_bytes dst = [0xff, 0xff])"
  shows "\<exists>g'. whip6_lowpanNalpExtSoftwareAcknowledgmentCreateAckFrame g f = Some (g', True) \<and>
    frame_holds src dst (case srcPan of None \<Rightarrow> dstPan | Some p \<Rightarrow> p) (map_option (\<lambda>p. dstPan) srcPan) g' \<and>
    whip6_lowpanNalpExtSoftwareAcknowledgmentIsAckFrame g' = Some (Some (bufferPtr f ! 3))"
proof -
  let ?pan = "case srcPan of None \<Rightarrow> dstPan | Some p \<Rightarrow> p" and ?spn = "map_option (\<lambda>p. dstPan) srcPan"
  let ?p = "fr_pay (addrMode src) (addrMode dst) (srcPan \<noteq> None)"
  have sym: "?p = fr_pay (addrMode dst) (addrMode src) (srcPan \<noteq> None)"
    by (simp add: fr_pay_def fr_src_def fr_srcpan_def)
  have layf: "frame_layout (addrMode dst) (addrMode src) (srcPan \<noteq> None) f"
    and fitf: "frame_fits (addrMode dst) (addrMode src) (srcPan \<noteq> None) f"
    using h by (simp_all add: frame_holds_def frame_fits_def)
  note m = frame_layout_modes [OF layf]
  have lf: "fr_pay (addrMode dst) (addrMode src) (srcPan \<noteq> None) \<le> length (bufferPtr f)" "3 < length (bufferPtr f)"
    using fitf frame_fits_bounds(1) [OF fitf] by (auto simp: frame_fits_def)
  have out1: "fr_pay (addrMode dst) (addrMode src) (srcPan \<noteq> None) + 2 \<le> unat (bufferLen g)" using out(1) by simp
  then have lg: "fr_pay (addrMode dst) (addrMode src) (srcPan \<noteq> None) \<le> length (bufferPtr g)" using out(2) by simp
  from reply_frame [OF h ok fcf out1 out(2)] obtain g1 where
    g1: "whip6_ieee154DFrameInfoReinitializeFrameInOppositeDirection g f = Some (g1, WHIP6_NO_ERROR)"
      "frame_holds src dst ?pan ?spn g1" by blast
  have len1: "bufferLen g1 = bufferLen g" "length (bufferPtr g1) = length (bufferPtr g)"
    using g1(1) reply_ok [OF layf lf(1) out1 out(2)] reply_buffer_fields(1) [OF m lf(1) lg]
    by (auto simp: fr_info_def)
  have fit1: "frame_fits (addrMode src) (addrMode dst) (srcPan \<noteq> None) g1"
    and lay1: "frame_layout (addrMode src) (addrMode dst) (srcPan \<noteq> None) g1"
    using g1(2) by (simp_all add: frame_holds_def frame_fits_def)
  have p: "?p + 3 \<le> length (bufferPtr g1)" "10 \<le> ?p" "?p + 3 \<le> unat (bufferLen g1)"
    using out len1 sym fr_bounds(5) [OF m(2,1), of "srcPan \<noteq> None"] unfolding sym len1 by linarith+
  define B where "B = (bufferPtr g1)[?p := LOWPAN_DISPATCH_PATTERN_NALP,
      ?p + 1 := WHIP6_LOWPAN_NALP_EXTENSION_ID_SOFTWARE_ACK, ?p + 2 := bufferPtr f ! 3]"
  define g2 where "g2 = g1\<lparr>bufferPtr := B\<rparr>"
  define g' where "g' = g1\<lparr>bufferPtr := B[0 := 3 + of_nat (?p - 1)]\<rparr>"
  have lB: "length B = length (bufferPtr g1)" by (simp add: B_def)
  have fit2: "frame_fits (addrMode src) (addrMode dst) (srcPan \<noteq> None) g2"
    using fit1 lB by (simp add: g2_def)
  have ne: "bufferPtr g1 \<noteq> []" using p(1) by auto
  then have set: "whip6_ieee154DFrameSetPayloadLen g2 3 = Some g'"
    using SetPayloadLen_eq [OF fit2, of 3] lB p(1) one_byte_blit [of 0 B]
    by (simp add: g2_def g'_def frame_blit_def)
  have ptr: "whip6_ieee154DFrameGetPayloadPtr g1 3 = Some ?p"
    using p(3) frame_layout_offsets(8) [OF lay1]
    by (simp add: whip6_ieee154DFrameGetPayloadPtr_def frame_constants)
  have run: "whip6_lowpanNalpExtSoftwareAcknowledgmentCreateAckFrame g f = Some (g', True)"
    using g1(1) IsBroadcast_eq [OF h ok(1)] uni ptr p(1) lf(2) set
    by (simp add: whip6_lowpanNalpExtSoftwareAcknowledgmentCreateAckFrame_def frame_put_in
        whip6_ieee154DFrameGetSeqNo_def frame_get_def g2_def B_def)
  have holds: "frame_holds src dst ?pan ?spn g'"
    unfolding g'_def
  proof (rule frame_holds_frame [OF g1(2)])
    show "length (B[0 := 3 + of_nat (?p - 1)]) = length (bufferPtr g1)" by (simp add: lB)
    show "B[0 := 3 + of_nat (?p - 1)] ! j = bufferPtr g1 ! j"
      if "4 \<le> j" "j < fr_pay (addrMode src) (addrMode dst) (?spn \<noteq> None)" for j
      using that by (simp add: B_def)
  qed
  have lay': "frame_layout (addrMode src) (addrMode dst) (srcPan \<noteq> None) g'" using lay1 by (simp add: g'_def)
  have "bufferPtr g' ! 0 = 3 + of_nat (?p - 1)" "bufferPtr g' \<noteq> []" "bufferPtr g' ! ?p = LOWPAN_DISPATCH_PATTERN_NALP"
    "bufferPtr g' ! (?p + 1) = WHIP6_LOWPAN_NALP_EXTENSION_ID_SOFTWARE_ACK" "bufferPtr g' ! (?p + 2) = bufferPtr f ! 3"
    "?p + 2 < length (bufferPtr g')"
    using p lB ne by (auto simp: g'_def B_def nth_list_update)
  then have "whip6_lowpanNalpExtSoftwareAcknowledgmentIsAckFrame g' = Some (Some (bufferPtr f ! 3))"
    using GetPayloadLen_eq [OF lay'] frame_layout_offsets(8) [OF lay']
    by (simp add: whip6_lowpanNalpExtSoftwareAcknowledgmentIsAckFrame_def frame_get_def nalp_constants)
  then show ?thesis using run holds by blast
qed

text \<open>A frame with a 6LoWPAN dispatch byte is never taken for an acknowledgement.\<close>

lemma lowpan_frame_no_ack:
  assumes "frame_layout dm sm ip f" "fr_pay dm sm ip + 3 \<le> length (bufferPtr f)"
    "(bufferPtr f ! fr_pay dm sm ip AND LOWPAN_DISPATCH_MASK_NALP) \<noteq> LOWPAN_DISPATCH_PATTERN_NALP"
  shows "whip6_lowpanNalpExtSoftwareAcknowledgmentIsAckFrame f = Some None"
proof -
  have "bufferPtr f \<noteq> []" using assms(2) by auto
  then show ?thesis using assms(2,3) GetPayloadLen_eq [OF assms(1)] frame_layout_offsets(8) [OF assms(1)]
    by (simp add: whip6_lowpanNalpExtSoftwareAcknowledgmentIsAckFrame_def frame_get_def)
qed

section \<open>Properties\<close>

lemma dispatch_no_nalp:
  assumes "0x40 \<le> b"
  shows "(b AND LOWPAN_DISPATCH_MASK_NALP) \<noteq> LOWPAN_DISPATCH_PATTERN_NALP"
proof
  assume "(b AND LOWPAN_DISPATCH_MASK_NALP) = LOWPAN_DISPATCH_PATTERN_NALP"
  then have z: "b AND 0xc0 = 0" by (simp add: nalp_constants)
  have "b = (b AND 0xc0) OR (b AND 0x3f)" by (rule bit_word_eqI) (auto simp: bit_simps less_Suc_eq_0_disj numeral_eq_Suc)
  then have "b = b AND 0x3f" using z by simp
  also have "\<dots> \<le> 0x3f" by (rule word_and_le1)
  finally show False using assms by (simp add: word_le_nat_alt)
qed

text \<open>C15: A frame that is addressed to a node, and not broadcast, is acknowledged by a frame that goes back
  to its sender and that the sender recognises as the acknowledgement of this sequence number; a
  broadcast is not acknowledged, and the buffer for the acknowledgement is left alone. A frame whose payload starts
  with a 6LoWPAN dispatch byte, of 64 or above, is never taken for an acknowledgement.\<close>

theorem software_ack:
  assumes "frame_holds dst src dstPan srcPan f" "addr_ok dst" "addr_ok src"
    and "bufferPtr f ! 1 = fcf1 (srcPan \<noteq> None)" "bufferPtr f ! 2 = fcf2 (addrMode dst) (addrMode src)"
    and "fr_pay (addrMode dst) (addrMode src) (srcPan \<noteq> None) + 3 \<le> unat (bufferLen g)"
      "unat (bufferLen g) \<le> length (bufferPtr g)"
  shows "(if addrMode dst = IEEE154_ADDR_MODE_SHORT \<and> addr_bytes dst = [0xff, 0xff]
    then whip6_lowpanNalpExtSoftwareAcknowledgmentCreateAckFrame g f = Some (g, False)
    else \<exists>g'. whip6_lowpanNalpExtSoftwareAcknowledgmentCreateAckFrame g f = Some (g', True) \<and>
      frame_holds src dst (case srcPan of None \<Rightarrow> dstPan | Some p \<Rightarrow> p) (map_option (\<lambda>p. dstPan) srcPan) g' \<and>
      whip6_lowpanNalpExtSoftwareAcknowledgmentIsAckFrame g' = Some (Some (bufferPtr f ! 3))) \<and>
    (\<forall>dm sm ip lf. frame_layout dm sm ip lf \<and> fr_pay dm sm ip + 3 \<le> length (bufferPtr lf) \<and>
      0x40 \<le> bufferPtr lf ! fr_pay dm sm ip \<longrightarrow> whip6_lowpanNalpExtSoftwareAcknowledgmentIsAckFrame lf = Some None)"
proof (rule conjI)
  show "if addrMode dst = IEEE154_ADDR_MODE_SHORT \<and> addr_bytes dst = [0xff, 0xff]
    then whip6_lowpanNalpExtSoftwareAcknowledgmentCreateAckFrame g f = Some (g, False)
    else \<exists>g'. whip6_lowpanNalpExtSoftwareAcknowledgmentCreateAckFrame g f = Some (g', True) \<and>
      frame_holds src dst (case srcPan of None \<Rightarrow> dstPan | Some p \<Rightarrow> p) (map_option (\<lambda>p. dstPan) srcPan) g' \<and>
      whip6_lowpanNalpExtSoftwareAcknowledgmentIsAckFrame g' = Some (Some (bufferPtr f ! 3))"
    using ack_created [OF assms] IsBroadcast_eq [OF assms(1,2)]
    by (simp add: whip6_lowpanNalpExtSoftwareAcknowledgmentCreateAckFrame_def)
qed (use lowpan_frame_no_ack [OF _ _ dispatch_no_nalp] in blast)

definition ack_ex_lowpan_frame :: ieee154_dframe_info where
  "ack_ex_lowpan_frame = fr_info 2 2 False ([12] @ replicate 9 0 @ [0x41, 0, 0]) 13"

theorem software_ack_witness:
  "\<exists>f g'. whip6_ieee154DFrameInfoReinitializeFrameForAddresses ex_frame (ex_addr 1) (ex_addr 2) [1, 2] None =
      Some (f, WHIP6_NO_ERROR) \<and>
    whip6_lowpanNalpExtSoftwareAcknowledgmentCreateAckFrame ex_frame f = Some (g', True) \<and>
    whip6_lowpanNalpExtSoftwareAcknowledgmentIsAckFrame g' = Some (Some 0) \<and>
    whip6_lowpanNalpExtSoftwareAcknowledgmentIsAckFrame ack_ex_lowpan_frame = Some None"
proof -
  have pre: "fr_pay (addrMode (ex_addr 1)) (addrMode (ex_addr 2)) ((None :: u8 list option) \<noteq> None) = 10"
    by (simp add: fr_defs)
  obtain f rest where f: "whip6_ieee154DFrameInfoReinitializeFrameForAddresses ex_frame (ex_addr 1) (ex_addr 2)
      [1, 2] None = Some (f, WHIP6_NO_ERROR)"
    and h: "frame_holds (ex_addr 1) (ex_addr 2) [1, 2] None f"
    and b: "bufferPtr f = of_nat (10 - 1) # fcf1 ((None :: u8 list option) \<noteq> None) #
      fcf2 (addrMode (ex_addr 1)) (addrMode (ex_addr 2)) # 0 # rest"
    using Reinitialize_ok [of "ex_addr 1" "ex_addr 2" "[1, 2]" None ex_frame, unfolded pre] by auto
  have "bufferPtr f ! 1 = fcf1 ((None :: u8 list option) \<noteq> None)"
    "bufferPtr f ! 2 = fcf2 (addrMode (ex_addr 1)) (addrMode (ex_addr 2))" "bufferPtr f ! 3 = 0"
    unfolding b by simp_all
  moreover have "addr_bytes (ex_addr 1) \<noteq> [0xff, 0xff]" 
    by (simp add: addr_bytes_def ex_addr_def addr_len_def ieee154_addr_constants u16_lo_def u16_hi_def)
  moreover have "frame_layout 2 2 False ack_ex_lowpan_frame" "fr_pay 2 2 False + 3 \<le> length (bufferPtr ack_ex_lowpan_frame)"
    "0x40 \<le> bufferPtr ack_ex_lowpan_frame ! fr_pay 2 2 False"
    by (simp_all add: ack_ex_lowpan_frame_def frame_layout_def fr_info_def fr_defs addr_mode_ok_def ieee154_addr_constants nth_append)
  ultimately show ?thesis using software_ack [OF h _ _, of ex_frame, unfolded pre] f by auto
qed

end
