(* ===== verification/Lowpan_Forwarding.thy ===== *)
theory Lowpan_Forwarding
  imports Ieee154_Address
begin

text \<open>
  The packets that wait for being forwarded: \<open>microc/include/6lowpan/uc6LoWPANPacketForwarding.h\<close>,
  \<open>detail/uc6LoWPANPacketForwardingImpl.h\<close>, \<open>microc/src/6lowpan/uc6LoWPANPacketForwarding.c\<close>.

  The elements of a fixed pool are on one of three singly linked lists: the free elements, the
  packets staged for forwarding and the packets whose forwarding has completed. The lists are
  relinked in place, so the elements are a store, a map from addresses; the elements of the pool
  array have consecutive addresses. A packet is known by its address. \<open>fwd_abs\<close> relates the
  structure to two first-in first-out queues of entries: it is the invariant and the refinement
  relation at once, and each operation is shown to refine the one on the abstract queues.
\<close>

record fwd_elem =
  elemNext :: "nat option"
  elemPacket :: nat
  elemStatus :: u8
  elemAddr :: ieee154_addr

record fwd_queue =
  stagedQueueFirst :: "nat option"
  stagedQueueLast :: "nat option"
  completedQueueFirst :: "nat option"
  completedQueueLast :: "nat option"
  poolFirst :: "nat option"
  numInPool :: u8
  numInQueue :: u8
  elems :: "nat \<rightharpoonup> fwd_elem"

definition elem_put :: "fwd_queue \<Rightarrow> nat option \<Rightarrow> (fwd_elem \<Rightarrow> fwd_elem) \<Rightarrow> fwd_queue option" where
  "elem_put queue p f =
     do { x \<leftarrow> p; e \<leftarrow> elems queue x; Some (queue\<lparr>elems := (elems queue)(x \<mapsto> f e)\<rparr>) }"

definition elem_get :: "fwd_queue \<Rightarrow> nat option \<Rightarrow> fwd_elem option" where
  "elem_get queue p = do { x \<leftarrow> p; elems queue x }"

section \<open>Operations\<close>

text \<open>The loop that puts the elements of the pool array on the list of free elements.\<close>

fun fwd_pool_loop :: "fwd_queue \<Rightarrow> nat \<Rightarrow> nat \<Rightarrow> nat option \<Rightarrow> fwd_queue option" where
  "fwd_pool_loop queue queuePoolPtr 0 first = Some (queue\<lparr>poolFirst := first\<rparr>)"
| "fwd_pool_loop queue queuePoolPtr (Suc queuePoolLen) first =
     do { queue \<leftarrow> elem_put queue (Some queuePoolPtr) (\<lambda>e. e\<lparr>elemNext := first\<rparr>);
          fwd_pool_loop queue (queuePoolPtr + 1) queuePoolLen (Some queuePoolPtr) }"

definition whip6_lowpanPacketForwardingStagingQueueInit :: "fwd_queue \<Rightarrow> nat \<Rightarrow> u8 \<Rightarrow> fwd_queue option" where
  "whip6_lowpanPacketForwardingStagingQueueInit queue queuePoolPtr queuePoolLen =
     fwd_pool_loop
       (queue\<lparr>stagedQueueFirst := None, stagedQueueLast := None, completedQueueFirst := None,
          completedQueueLast := None, numInPool := queuePoolLen, numInQueue := 0\<rparr>)
       queuePoolPtr (unat queuePoolLen) None"

definition whip6_lowpanPacketForwardingStagingQueueEnqueuePacket ::
  "fwd_queue \<Rightarrow> nat \<Rightarrow> ieee154_addr \<Rightarrow> (fwd_queue \<times> nat option) option" where
  "whip6_lowpanPacketForwardingStagingQueueEnqueuePacket queue packet llAddr =
     (let queueElem = poolFirst queue
      in if queueElem = None then Some (queue, None)
         else
           do { e \<leftarrow> elem_get queue queueElem;
                let queue = queue\<lparr>poolFirst := elemNext e\<rparr>;
                queue \<leftarrow>
                  (if stagedQueueFirst queue = None then Some (queue\<lparr>stagedQueueFirst := queueElem\<rparr>)
                   else elem_put queue (stagedQueueLast queue) (\<lambda>e. e\<lparr>elemNext := queueElem\<rparr>));
                let queue = queue\<lparr>stagedQueueLast := queueElem, numInPool := numInPool queue - 1,
                  numInQueue := numInQueue queue + 1\<rparr>;
                queue \<leftarrow> elem_put queue queueElem (\<lambda>e. e\<lparr>elemNext := None, elemPacket := packet, elemStatus := 0\<rparr>);
                e \<leftarrow> elem_get queue queueElem;
                a \<leftarrow> whip6_ieee154AddrAnyCpy llAddr (elemAddr e);
                queue \<leftarrow> elem_put queue queueElem (\<lambda>e. e\<lparr>elemAddr := a\<rparr>);
                Some (queue, queueElem) })"

text \<open>
  The search. \<open>prevElement\<close> is what \<open>prevElementPtr\<close> points to, \<open>None\<close> when it is \<open>NULL\<close>; it is
  returned as the search leaves it.
\<close>

partial_function (option) fwd_find_loop ::
  "fwd_queue \<Rightarrow> nat \<Rightarrow> nat option option \<Rightarrow> nat option \<Rightarrow> nat option \<Rightarrow> (nat option \<times> nat option option) option" where
  "fwd_find_loop queue packet prevElement prevQueueElem currQueueElem =
     (if currQueueElem = None then Some (None, prevElement)
      else
        do { e \<leftarrow> elem_get queue currQueueElem;
             if elemPacket e = packet then Some (currQueueElem, map_option (\<lambda>_. prevQueueElem) prevElement)
             else fwd_find_loop queue packet prevElement currQueueElem (elemNext e) })"

declare fwd_find_loop.simps [code]

definition whip6_lowpanPacketForwardingStagingQueueFindStagedPacket ::
  "fwd_queue \<Rightarrow> nat \<Rightarrow> nat option option \<Rightarrow> (nat option \<times> nat option option) option" where
  "whip6_lowpanPacketForwardingStagingQueueFindStagedPacket queue packet prevElement =
     fwd_find_loop queue packet prevElement None (stagedQueueFirst queue)"

definition whip6_lowpanPacketForwardingStagingQueueFindCompletedPacket ::
  "fwd_queue \<Rightarrow> nat \<Rightarrow> nat option option \<Rightarrow> (nat option \<times> nat option option) option" where
  "whip6_lowpanPacketForwardingStagingQueueFindCompletedPacket queue packet prevElement =
     fwd_find_loop queue packet prevElement None (completedQueueFirst queue)"

definition whip6_lowpanPacketForwardingStagingQueueMarkPacketAsCompleted ::
  "fwd_queue \<Rightarrow> nat option \<Rightarrow> nat option \<Rightarrow> fwd_queue option" where
  "whip6_lowpanPacketForwardingStagingQueueMarkPacketAsCompleted queue prevQueueElem currQueueElem =
     do { e \<leftarrow> elem_get queue currQueueElem;
          queue \<leftarrow>
            (if prevQueueElem = None then Some (queue\<lparr>stagedQueueFirst := elemNext e\<rparr>)
             else elem_put queue prevQueueElem (\<lambda>p. p\<lparr>elemNext := elemNext e\<rparr>));
          queue \<leftarrow> elem_put queue currQueueElem (\<lambda>e. e\<lparr>elemNext := None\<rparr>);
          let queue = (if currQueueElem = stagedQueueLast queue then queue\<lparr>stagedQueueLast := prevQueueElem\<rparr>
                       else queue);
          queue \<leftarrow>
            (if completedQueueFirst queue = None then Some (queue\<lparr>completedQueueFirst := currQueueElem\<rparr>)
             else elem_put queue (completedQueueLast queue) (\<lambda>e. e\<lparr>elemNext := currQueueElem\<rparr>));
          Some (queue\<lparr>completedQueueLast := currQueueElem\<rparr>) }"

definition whip6_lowpanPacketForwardingStagingQueueRemoveFirstCompletedPacket :: "fwd_queue \<Rightarrow> fwd_queue option" where
  "whip6_lowpanPacketForwardingStagingQueueRemoveFirstCompletedPacket queue =
     (let firstQueueElem = completedQueueFirst queue
      in do { e \<leftarrow> elem_get queue firstQueueElem;
              let queue = queue\<lparr>completedQueueFirst := elemNext e\<rparr>;
              let queue = (if completedQueueLast queue = firstQueueElem then queue\<lparr>completedQueueLast := None\<rparr>
                           else queue);
              queue \<leftarrow> elem_put queue firstQueueElem (\<lambda>e. e\<lparr>elemNext := poolFirst queue\<rparr>);
              Some (queue\<lparr>poolFirst := firstQueueElem, numInPool := numInPool queue + 1,
                numInQueue := numInQueue queue - 1\<rparr>) })"

text \<open>What the client reads.\<close>

definition whip6_lowpanPacketForwardingStagingQueueGetPacketForQueueElement :: "fwd_queue \<Rightarrow> nat option \<Rightarrow> nat option" where
  "whip6_lowpanPacketForwardingStagingQueueGetPacketForQueueElement queue queueElem =
     do { e \<leftarrow> elem_get queue queueElem; Some (elemPacket e) }"

definition whip6_lowpanPacketForwardingStagingQueueGetLinkLayerAddrForQueueElement ::
  "fwd_queue \<Rightarrow> nat option \<Rightarrow> ieee154_addr option" where
  "whip6_lowpanPacketForwardingStagingQueueGetLinkLayerAddrForQueueElement queue queueElem =
     do { e \<leftarrow> elem_get queue queueElem; Some (elemAddr e) }"

definition whip6_lowpanPacketForwardingStagingQueueGetStatusForQueueElement :: "fwd_queue \<Rightarrow> nat option \<Rightarrow> u8 option" where
  "whip6_lowpanPacketForwardingStagingQueueGetStatusForQueueElement queue queueElem =
     do { e \<leftarrow> elem_get queue queueElem; Some (elemStatus e) }"

definition whip6_lowpanPacketForwardingStagingQueueGetFirstStagedPacket :: "fwd_queue \<Rightarrow> nat option" where
  "whip6_lowpanPacketForwardingStagingQueueGetFirstStagedPacket queue = stagedQueueFirst queue"

definition whip6_lowpanPacketForwardingStagingQueueGetNextStagedPacket ::
  "fwd_queue \<Rightarrow> nat option \<Rightarrow> nat option option" where
  "whip6_lowpanPacketForwardingStagingQueueGetNextStagedPacket queue queueElem =
     do { e \<leftarrow> elem_get queue queueElem; Some (elemNext e) }"

definition whip6_lowpanPacketForwardingStagingQueueGetFirstCompletedPacket :: "fwd_queue \<Rightarrow> nat option" where
  "whip6_lowpanPacketForwardingStagingQueueGetFirstCompletedPacket queue = completedQueueFirst queue"

lemmas fwd_getters =
  whip6_lowpanPacketForwardingStagingQueueGetPacketForQueueElement_def
  whip6_lowpanPacketForwardingStagingQueueGetLinkLayerAddrForQueueElement_def
  whip6_lowpanPacketForwardingStagingQueueGetStatusForQueueElement_def
  whip6_lowpanPacketForwardingStagingQueueGetFirstStagedPacket_def
  whip6_lowpanPacketForwardingStagingQueueGetNextStagedPacket_def
  whip6_lowpanPacketForwardingStagingQueueGetFirstCompletedPacket_def

section \<open>Lists of elements\<close>

text \<open>The elements \<open>xs\<close> are linked from \<open>start\<close> on; the last one leads to \<open>m\<close>.\<close>

fun seg :: "(nat \<rightharpoonup> fwd_elem) \<Rightarrow> nat option \<Rightarrow> nat list \<Rightarrow> nat option \<Rightarrow> bool" where
  "seg es start [] m \<longleftrightarrow> start = m"
| "seg es start (x # xs) m \<longleftrightarrow> start = Some x \<and> (\<exists>e. es x = Some e \<and> seg es (elemNext e) xs m)"

lemma seg_append [simp]: "seg es start (xs @ ys) m \<longleftrightarrow> (\<exists>k. seg es start xs k \<and> seg es k ys m)"
  by (induction xs arbitrary: start) auto

lemma seg_cong: "(\<And>x. x \<in> set xs \<Longrightarrow> map_option elemNext (es' x) = map_option elemNext (es x)) \<Longrightarrow>
    seg es' start xs m = seg es start xs m"
proof (induction xs arbitrary: start)
  case (Cons x xs)
  have x: "map_option elemNext (es' x) = map_option elemNext (es x)" using Cons.prems by simp
  have "seg es' s xs m = seg es s xs m" for s using Cons.IH Cons.prems by simp
  then show ?case using x by (cases "es x"; cases "es' x") auto
qed simp

lemma seg_upd: "x \<notin> set xs \<Longrightarrow> seg (es(x \<mapsto> e)) start xs m = seg es start xs m"
  by (rule seg_cong) auto

lemma seg_mapped: "seg es start xs m \<Longrightarrow> x \<in> set xs \<Longrightarrow> \<exists>e. es x = Some e"
  by (induction xs arbitrary: start) auto

text \<open>The link of the last element is changed.\<close>

definition relink :: "(nat \<rightharpoonup> fwd_elem) \<Rightarrow> nat list \<Rightarrow> nat option \<Rightarrow> (nat \<rightharpoonup> fwd_elem)" where
  "relink es xs m = (if xs = [] then es else es(last xs \<mapsto> (the (es (last xs)))\<lparr>elemNext := m\<rparr>))"

lemma relink_other: "x \<notin> set xs \<Longrightarrow> relink es xs m x = es x"
  by (auto simp: relink_def)

lemma seg_relink:
  assumes "seg es start xs m" "distinct xs"
  shows "seg (relink es xs m') (if xs = [] then m' else start) xs m'"
proof (cases "xs = []")
  case False
  then obtain as x where xs: "xs = as @ [x]" by (metis rev_exhaust)
  then show ?thesis using assms by (auto simp: relink_def seg_upd)
qed simp

lemma seg_relink_other: "set ys \<inter> set xs = {} \<Longrightarrow> seg (relink es xs m) start ys k = seg es start ys k"
  by (rule seg_cong) (auto simp: relink_other disjoint_iff)

lemma relink_elem: "seg es start xs k \<Longrightarrow> es x = Some e \<Longrightarrow>
    \<exists>m'. relink es xs m x = Some (e\<lparr>elemNext := m'\<rparr>)"
proof (cases "xs \<noteq> [] \<and> x = last xs")
  case False
  assume "es x = Some e"
  then show ?thesis using False by (auto simp: relink_def intro!: exI [of _ "elemNext e"])
qed (auto simp: relink_def)

lemma seg_start: "seg es start xs None \<Longrightarrow> start = (if xs = [] then None else Some (hd xs))"
  by (cases xs) auto

section \<open>The abstract queues\<close>

type_synonym fwd_entry = "nat \<times> nat \<times> ieee154_addr"

definition last_of :: "nat list \<Rightarrow> nat option" where
  "last_of xs = (if xs = [] then None else Some (last xs))"

lemma last_of_simps [simp]:
  "last_of [] = None" "last_of (xs @ [x]) = Some x" "last_of (xs @ y # ys) = last_of (y # ys)"
  "last_of [y] = Some y"
  "last_of xs = None \<longleftrightarrow> xs = []"
  by (simp_all add: last_of_def)

definition entries_ok :: "(nat \<rightharpoonup> fwd_elem) \<Rightarrow> fwd_entry list \<Rightarrow> bool" where
  "entries_ok es E \<longleftrightarrow> (\<forall>(x, k, a) \<in> set E. \<exists>e. es x = Some e \<and> elemPacket e = k \<and> elemAddr e = a \<and> elemStatus e = 0)"

definition fwd_ok :: "nat \<Rightarrow> nat \<Rightarrow> fwd_queue \<Rightarrow> fwd_entry list \<Rightarrow> fwd_entry list \<Rightarrow> nat list \<Rightarrow> bool" where
  "fwd_ok base n q S C F \<longleftrightarrow>
     seg (elems q) (stagedQueueFirst q) (map fst S) None \<and> stagedQueueLast q = last_of (map fst S) \<and>
     seg (elems q) (completedQueueFirst q) (map fst C) None \<and> completedQueueLast q = last_of (map fst C) \<and>
     seg (elems q) (poolFirst q) F None \<and>
     distinct (map fst S @ map fst C @ F) \<and>
     fst ` set S \<union> fst ` set C \<union> set F = {base..<base + n} \<and>
     unat (numInPool q) = length F \<and> unat (numInQueue q) = length S + length C \<and>
     entries_ok (elems q) S \<and> entries_ok (elems q) C \<and>
     (\<forall>x \<in> {base..<base + n}. \<exists>e. elems q x = Some e \<and> addr_ok (elemAddr e))"

definition fwd_abs :: "nat \<Rightarrow> nat \<Rightarrow> fwd_queue \<Rightarrow> fwd_entry list \<Rightarrow> fwd_entry list \<Rightarrow> bool" where
  "fwd_abs base n q S C \<longleftrightarrow> (\<exists>F. fwd_ok base n q S C F)"

lemma fwd_ok_size: "fwd_ok base n q S C F \<Longrightarrow> length S + length C + length F = n"
proof -
  assume ok: "fwd_ok base n q S C F"
  then have "card (set (map fst S @ map fst C @ F)) = length (map fst S @ map fst C @ F)"
    by (intro distinct_card) (simp add: fwd_ok_def)
  moreover have "set (map fst S @ map fst C @ F) = {base..<base + n}"
    using ok by (auto simp: fwd_ok_def)
  ultimately show ?thesis by simp
qed

text \<open>An update of the link of one element.\<close>

lemma entries_ok_link:
  "es x = Some e \<Longrightarrow> entries_ok (es(x \<mapsto> e\<lparr>elemNext := m\<rparr>)) E = entries_ok es E"
  unfolding entries_ok_def by (intro ball_cong refl) (auto split: if_splits)

lemma entries_ok_relink: "seg es start xs k \<Longrightarrow> entries_ok (relink es xs m) E = entries_ok es E"
  using seg_mapped [of es start xs k "last xs"] by (auto simp: relink_def entries_ok_link)

lemma entries_ok_upd: "x \<notin> fst ` set E \<Longrightarrow> entries_ok (es(x \<mapsto> e)) E = entries_ok es E"
  unfolding entries_ok_def by (intro ball_cong refl) force

lemma entries_ok_append [simp]: "entries_ok es (A @ B) \<longleftrightarrow> entries_ok es A \<and> entries_ok es B"
  by (simp add: entries_ok_def ball_Un)

lemma entries_ok_Cons [simp]:
  "entries_ok es (t # B) \<longleftrightarrow>
     (\<exists>e. es (fst t) = Some e \<and> elemPacket e = fst (snd t) \<and> elemAddr e = snd (snd t) \<and> elemStatus e = 0) \<and>
     entries_ok es B"
  by (auto simp: entries_ok_def split_beta)

lemma entries_ok_Nil [simp]: "entries_ok es []"
  by (simp add: entries_ok_def)

section \<open>Initialisation\<close>

lemma fwd_pool_loop_eq:
  "(\<forall>x \<in> {p..<p + k}. \<exists>e. elems q x = Some e \<and> addr_ok (elemAddr e)) \<Longrightarrow>
   seg (elems q) first xs None \<Longrightarrow> set xs \<inter> {p..<p + k} = {} \<Longrightarrow>
   \<exists>es' first'. fwd_pool_loop q p k first = Some (q\<lparr>elems := es', poolFirst := first'\<rparr>) \<and>
     seg es' first' (rev [p..<p + k] @ xs) None \<and>
     (\<forall>x \<in> {p..<p + k}. \<exists>e. es' x = Some e \<and> addr_ok (elemAddr e)) \<and>
     (\<forall>x. x \<notin> {p..<p + k} \<longrightarrow> es' x = elems q x)"
proof (induction k arbitrary: q p first xs)
  case 0
  then show ?case by (auto intro!: exI [of _ "elems q"] exI [of _ first])
next
  case (Suc k)
  then have "\<exists>e. elems q p = Some e \<and> addr_ok (elemAddr e)" by simp
  then obtain e where e: "elems q p = Some e" "addr_ok (elemAddr e)" by (elim exE conjE)
  let ?q = "q\<lparr>elems := (elems q)(p \<mapsto> e\<lparr>elemNext := first\<rparr>)\<rparr>"
  have put: "elem_put q (Some p) (\<lambda>e. e\<lparr>elemNext := first\<rparr>) = Some ?q" using e by (simp add: elem_put_def)
  have "p \<notin> set xs" using Suc.prems(3) by auto
  then have l: "seg (elems ?q) (Some p) (p # xs) None" using Suc.prems(2) by (simp add: seg_upd)
  have av: "\<forall>x \<in> {p + 1..<p + 1 + k}. \<exists>e. elems ?q x = Some e \<and> addr_ok (elemAddr e)"
    using Suc.prems(1) by auto
  have dj: "set (p # xs) \<inter> {p + 1..<p + 1 + k} = {}" using Suc.prems(3) by auto
  from Suc.IH [OF av l dj] obtain es' first' where r: "fwd_pool_loop ?q (p + 1) k (Some p) = Some (?q\<lparr>elems := es', poolFirst := first'\<rparr>)"
    "seg es' first' (rev [p + 1..<p + 1 + k] @ p # xs) None"
    "\<forall>x \<in> {p + 1..<p + 1 + k}. \<exists>e. es' x = Some e \<and> addr_ok (elemAddr e)"
    "\<forall>x. x \<notin> {p + 1..<p + 1 + k} \<longrightarrow> es' x = elems ?q x"
    by (elim exE conjE) (rule that)
  have up: "[p..<p + Suc k] = p # [p + 1..<p + 1 + k]" using upt_conv_Cons [of p "p + Suc k"] by simp
  have "\<forall>x \<in> {p..<p + Suc k}. \<exists>e. es' x = Some e \<and> addr_ok (elemAddr e)"
  proof
    fix x assume "x \<in> {p..<p + Suc k}"
    then show "\<exists>e. es' x = Some e \<and> addr_ok (elemAddr e)" using r(3,4) e by (cases "x = p") auto
  qed
  moreover have "\<forall>x. x \<notin> {p..<p + Suc k} \<longrightarrow> es' x = elems q x" using r(4) by auto
  moreover have "fwd_pool_loop q p (Suc k) first = Some (q\<lparr>elems := es', poolFirst := first'\<rparr>)"
    using put r(1) by simp
  moreover have "seg es' first' (rev [p..<p + Suc k] @ xs) None" using r(2) unfolding up by simp
  ultimately show ?case by blast
qed

lemma forwarding_init:
  assumes "\<forall>x \<in> {base..<base + unat n}. \<exists>e. elems q x = Some e \<and> addr_ok (elemAddr e)"
  shows "\<exists>q'. whip6_lowpanPacketForwardingStagingQueueInit q base n = Some q' \<and> fwd_abs base (unat n) q' [] []"
proof -
  let ?q = "q\<lparr>stagedQueueFirst := None, stagedQueueLast := None, completedQueueFirst := None,
          completedQueueLast := None, numInPool := n, numInQueue := 0\<rparr>"
  from fwd_pool_loop_eq [of base "unat n" ?q None "[]"] assms obtain es' first' where
    r: "fwd_pool_loop ?q base (unat n) None = Some (?q\<lparr>elems := es', poolFirst := first'\<rparr>)"
      "seg es' first' (rev [base..<base + unat n]) None"
      "\<forall>x \<in> {base..<base + unat n}. \<exists>e. es' x = Some e \<and> addr_ok (elemAddr e)" by auto
  have "fwd_ok base (unat n) (?q\<lparr>elems := es', poolFirst := first'\<rparr>) [] [] (rev [base..<base + unat n])"
    using r(2,3) by (simp add: fwd_ok_def)
  then show ?thesis using r(1)
    by (auto simp: whip6_lowpanPacketForwardingStagingQueueInit_def fwd_abs_def)
qed

section \<open>Staging a packet\<close>

lemma unat_count_up: "unat (c :: u8) = k \<Longrightarrow> k + 1 < 256 \<Longrightarrow> unat (c + 1) = k + 1"
  by (simp add: unat_word_ariths(1))

lemma unat_count_down: "unat (c :: u8) = k + 1 \<Longrightarrow> unat (c - 1) = k"
  by (simp add: unat_sub word_le_nat_alt)

lemma last_in: "S \<noteq> [] \<Longrightarrow> last (map fst S) \<in> fst ` set S"
  by (metis last_in_set length_greater_0_conv length_map set_map)

lemma fwd_ok_avail:
  "fwd_ok base n q S C F \<Longrightarrow> \<forall>x \<in> {base..<base + n}. \<exists>e. elems q x = Some e \<and> addr_ok (elemAddr e)"
  by (simp add: fwd_ok_def)

lemma fwd_ok_elem:
  assumes "fwd_ok base n q S C F" "x \<in> fst ` set S \<union> fst ` set C \<union> set F"
  shows "\<exists>e. elems q x = Some e \<and> addr_ok (elemAddr e)"
  using assms unfolding fwd_ok_def by metis

lemma enqueue_refused:
  "fwd_ok base n q S C [] \<Longrightarrow>
   whip6_lowpanPacketForwardingStagingQueueEnqueuePacket q k a = Some (q, None)"
  by (simp add: fwd_ok_def whip6_lowpanPacketForwardingStagingQueueEnqueuePacket_def)

text \<open>What a relinked list leaves alone.\<close>

lemma link_elems:
  assumes "es x = Some e" "\<forall>y \<in> A. \<exists>e. es y = Some e \<and> addr_ok (elemAddr e)"
  shows "\<forall>y \<in> A. \<exists>e'. (es(x \<mapsto> e\<lparr>elemNext := m\<rparr>)) y = Some e' \<and> addr_ok (elemAddr e')"
proof
  fix y assume "y \<in> A"
  then obtain e' where "es y = Some e'" "addr_ok (elemAddr e')" using assms(2) by blast
  then show "\<exists>e'. (es(x \<mapsto> e\<lparr>elemNext := m\<rparr>)) y = Some e' \<and> addr_ok (elemAddr e')" using assms(1) by auto
qed

lemma relinked_elems:
  assumes "seg es start xs k" "\<forall>x \<in> A. \<exists>e. es x = Some e \<and> addr_ok (elemAddr e)"
  shows "\<forall>x \<in> A. \<exists>e. relink es xs m x = Some e \<and> addr_ok (elemAddr e)"
proof
  fix x assume "x \<in> A"
  then obtain e where e: "es x = Some e" "addr_ok (elemAddr e)" using assms(2) by blast
  from relink_elem [OF assms(1) this(1), of m] show "\<exists>e. relink es xs m x = Some e \<and> addr_ok (elemAddr e)"
    using e(2) by auto
qed

lemma elem_put_last:
  "seg (elems q) start xs k \<Longrightarrow> xs \<noteq> [] \<Longrightarrow>
   elem_put q (last_of xs) (\<lambda>e. e\<lparr>elemNext := m\<rparr>) = Some (q\<lparr>elems := relink (elems q) xs m\<rparr>)"
  using seg_mapped [of "elems q" start xs k "last xs"] by (auto simp: elem_put_def last_of_def relink_def)

lemma enqueue_ok:
  assumes ok: "fwd_ok base n q S C (x # F)" and a: "addr_ok a" and n: "n < 256"
  shows "\<exists>q'. whip6_lowpanPacketForwardingStagingQueueEnqueuePacket q k a = Some (q', Some x) \<and>
    fwd_ok base n q' (S @ [(x, k, a)]) C F"
proof -
  let ?es = "elems q" and ?es1 = "relink (elems q) (map fst S) (Some x)"
  from fwd_ok_elem [OF ok, of x] obtain e where e: "?es x = Some e" "addr_ok (elemAddr e)" by auto
  have dst: "distinct (map fst S @ map fst C @ x # F)"
    and sg: "seg ?es (stagedQueueFirst q) (map fst S) None" using ok by (simp_all add: fwd_ok_def)
  have x: "x \<notin> fst ` set S" "x \<notin> fst ` set C" "x \<notin> set F" using dst by auto
  have es1x: "?es1 x = Some e" using e x(1) by (simp add: relink_other)
  define q' where "q' = q\<lparr>stagedQueueFirst := (if S = [] then Some x else stagedQueueFirst q),
    stagedQueueLast := Some x, poolFirst := elemNext e, numInPool := numInPool q - 1,
    numInQueue := numInQueue q + 1,
    elems := ?es1(x \<mapsto> e\<lparr>elemNext := None, elemPacket := k, elemStatus := 0, elemAddr := a\<rparr>)\<rparr>"
  have first: "stagedQueueFirst q = (if S = [] then None else Some (hd (map fst S)))"
    "stagedQueueLast q = last_of (map fst S)" "poolFirst q = Some x"
    using ok seg_start [OF sg] by (auto simp: fwd_ok_def)
  have put: "S \<noteq> [] \<Longrightarrow> elem_put (q\<lparr>poolFirst := elemNext e\<rparr>) (last_of (map fst S)) (\<lambda>e. e\<lparr>elemNext := Some x\<rparr>) =
      Some (q\<lparr>poolFirst := elemNext e, elems := ?es1\<rparr>)"
    using elem_put_last [of "q\<lparr>poolFirst := elemNext e\<rparr>" _ "map fst S"] sg by simp
  have run: "whip6_lowpanPacketForwardingStagingQueueEnqueuePacket q k a = Some (q', Some x)"
    using first e es1x put a
    by (cases "S = []")
      (simp_all add: whip6_lowpanPacketForwardingStagingQueueEnqueuePacket_def Let_def elem_get_def
        elem_put_def [of _ "Some x"] q'_def AddrAnyCpy_eq relink_def)
  have "seg ?es1 s (map fst C) None = seg ?es s (map fst C) None" "seg ?es1 s F None = seg ?es s F None" for s
    using dst by (auto intro!: seg_relink_other)
  moreover have "\<forall>y \<in> {base..<base + n}. \<exists>e. ?es1 y = Some e \<and> addr_ok (elemAddr e)"
    by (rule relinked_elems [OF sg fwd_ok_avail [OF ok]])
  moreover have "length S + length C + 1 < 256" using fwd_ok_size [OF ok] n by simp
  ultimately have "fwd_ok base n q' (S @ [(x, k, a)]) C F"
    using ok x seg_relink [OF sg, of "Some x"] e dst a
    by (simp add: fwd_ok_def q'_def seg_upd entries_ok_upd entries_ok_relink [OF sg] unat_count_up unat_count_down)
  then show ?thesis using run by blast
qed

section \<open>Completing a packet\<close>

lemma mark_ok:
  assumes ok: "fwd_ok base n q (S1 @ (x, k, a) # S2) C F"
  shows "\<exists>q'. whip6_lowpanPacketForwardingStagingQueueMarkPacketAsCompleted q (last_of (map fst S1)) (Some x) = Some q' \<and>
    fwd_ok base n q' (S1 @ S2) (C @ [(x, k, a)]) F"
proof -
  let ?es = "elems q"
  have dst: "distinct (map fst S1 @ x # map fst S2 @ map fst C @ F)" using ok by (simp add: fwd_ok_def)
  from ok obtain e where sg1: "seg ?es (stagedQueueFirst q) (map fst S1) (Some x)" and e: "?es x = Some e"
    "elemPacket e = k" "elemAddr e = a" "elemStatus e = 0"
    and sg2: "seg ?es (elemNext e) (map fst S2) None" and sgc: "seg ?es (completedQueueFirst q) (map fst C) None"
    by (auto simp: fwd_ok_def)
  define es1 where "es1 = relink ?es (map fst S1) (elemNext e)"
  define es2 where "es2 = es1(x \<mapsto> e\<lparr>elemNext := None\<rparr>)"
  define es3 where "es3 = relink es2 (map fst C) (Some x)"
  have es1x: "es1 x = Some e" using e dst by (simp add: es1_def relink_other)
  have sgc2: "seg es2 (completedQueueFirst q) (map fst C) None"
  proof -
    have "seg es1 (completedQueueFirst q) (map fst C) None = seg ?es (completedQueueFirst q) (map fst C) None"
      unfolding es1_def by (rule seg_relink_other) (use dst in auto)
    then show ?thesis using sgc dst by (simp add: es2_def seg_upd)
  qed
  define q' where "q' = q\<lparr>stagedQueueFirst := (if S1 = [] then elemNext e else stagedQueueFirst q),
    stagedQueueLast := last_of (map fst (S1 @ S2)),
    completedQueueFirst := (if C = [] then Some x else completedQueueFirst q), completedQueueLast := Some x, elems := es3\<rparr>"
  have ends: "stagedQueueLast q = last_of (x # map fst S2)" "completedQueueLast q = last_of (map fst C)"
    "completedQueueFirst q = (if C = [] then None else Some (hd (map fst C)))"
    using ok seg_start [OF sgc] by (simp_all add: fwd_ok_def)
  have lst: "Some x = last_of (x # map fst S2) \<longleftrightarrow> S2 = []" using dst last_in [of S2] by (auto simp: last_of_def)
  define q1 where "q1 = q\<lparr>stagedQueueFirst := (if S1 = [] then elemNext e else stagedQueueFirst q), elems := es1\<rparr>"
  have put1: "(if last_of (map fst S1) = None then Some (q\<lparr>stagedQueueFirst := elemNext e\<rparr>)
      else elem_put q (last_of (map fst S1)) (\<lambda>p. p\<lparr>elemNext := elemNext e\<rparr>)) = Some q1"
    using elem_put_last [OF sg1, of "elemNext e"] by (simp add: q1_def es1_def relink_def)
  have put2: "elem_put q1 (Some x) (\<lambda>e. e\<lparr>elemNext := None\<rparr>) = Some (q1\<lparr>elems := es2\<rparr>)"
    using es1x by (simp add: elem_put_def q1_def es2_def)
  define q2 where "q2 = (q1\<lparr>elems := es2\<rparr>)\<lparr>stagedQueueLast := last_of (map fst (S1 @ S2))\<rparr>"
  have "stagedQueueLast (q1\<lparr>elems := es2\<rparr>) = last_of (x # map fst S2)" using ends(1) by (simp add: q1_def)
  then have put2': "(if Some x = stagedQueueLast (q1\<lparr>elems := es2\<rparr>)
      then (q1\<lparr>elems := es2\<rparr>)\<lparr>stagedQueueLast := last_of (map fst S1)\<rparr> else q1\<lparr>elems := es2\<rparr>) = q2"
    using lst by (cases "S2 = []") (simp_all add: q2_def last_of_def)
  have put3: "(if completedQueueFirst q2 = None then Some (q2\<lparr>completedQueueFirst := Some x\<rparr>)
      else elem_put q2 (completedQueueLast q2) (\<lambda>e. e\<lparr>elemNext := Some x\<rparr>)) =
      Some (q2\<lparr>completedQueueFirst := (if C = [] then Some x else completedQueueFirst q), elems := es3\<rparr>)"
  proof (cases "C = []")
    case True
    then show ?thesis using ends by (simp add: q2_def q1_def es3_def relink_def)
  next
    case False
    then have "elem_put q2 (last_of (map fst C)) (\<lambda>e. e\<lparr>elemNext := Some x\<rparr>) = Some (q2\<lparr>elems := es3\<rparr>)"
      using elem_put_last [of q2 "completedQueueFirst q" "map fst C" None "Some x"] sgc2
      by (simp add: q2_def es3_def)
    then show ?thesis using False ends by (simp add: q2_def q1_def)
  qed
  have run: "whip6_lowpanPacketForwardingStagingQueueMarkPacketAsCompleted q (last_of (map fst S1)) (Some x) = Some q'"
    unfolding whip6_lowpanPacketForwardingStagingQueueMarkPacketAsCompleted_def elem_get_def Option.bind.bind_lunit e(1)
      put1 put2 Let_def put2' put3 by (simp add: q'_def q2_def q1_def)
  have es3_es1: "seg es3 s ys m = seg es1 s ys m" if "set ys \<inter> insert x (fst ` set C) = {}" for s ys m
  proof -
    have "set ys \<inter> set (map fst C) = {}" "x \<notin> set ys" using that by auto
    then show ?thesis by (simp add: es3_def es2_def seg_relink_other seg_upd)
  qed
  have es3_es: "seg es3 s ys m = seg ?es s ys m" if "set ys \<inter> insert x (fst ` set C) = {}" "set ys \<inter> fst ` set S1 = {}"
    for s ys m using es3_es1 [OF that(1)] that(2) by (simp add: es1_def seg_relink_other)
  have "set (map fst S1) \<inter> insert x (fst ` set C) = {}" using dst by auto
  then have "seg es3 (if S1 = [] then elemNext e else stagedQueueFirst q) (map fst S1) (elemNext e)"
    using seg_relink [OF sg1, of "elemNext e"] dst by (simp add: es3_es1) (auto simp: es1_def)
  moreover have "seg es3 s (map fst S2) None = seg ?es s (map fst S2) None" "seg es3 s F None = seg ?es s F None" for s
    using dst by (simp_all add: es3_es Int_Un_distrib Int_commute)
  moreover have "seg es3 (if C = [] then Some x else completedQueueFirst q) (map fst C) (Some x)"
    using seg_relink [OF sgc2, of "Some x"] dst unfolding es3_def by simp
  moreover have es3x: "es3 x = Some (e\<lparr>elemNext := None\<rparr>)" using dst by (simp add: es3_def es2_def relink_other)
  moreover have "entries_ok es3 E = entries_ok ?es E" for E
    unfolding es3_def entries_ok_relink [OF sgc2] unfolding es2_def entries_ok_link [of es1 x e None E, OF es1x]
    unfolding es1_def by (rule entries_ok_relink [OF sg1])
  moreover have "\<forall>y \<in> {base..<base + n}. \<exists>e. es1 y = Some e \<and> addr_ok (elemAddr e)"
    unfolding es1_def by (rule relinked_elems [OF sg1 fwd_ok_avail [OF ok]])
  then have "\<forall>y \<in> {base..<base + n}. \<exists>e. es2 y = Some e \<and> addr_ok (elemAddr e)"
    unfolding es2_def by (rule link_elems [of es1 x e, OF es1x])
  then have "\<forall>y \<in> {base..<base + n}. \<exists>e. es3 y = Some e \<and> addr_ok (elemAddr e)"
    unfolding es3_def by (rule relinked_elems [OF sgc2])
  ultimately have "fwd_ok base n q' (S1 @ S2) (C @ [(x, k, a)]) F"
    using ok sg2 e dst by (auto simp: fwd_ok_def q'_def)
  then show ?thesis using run by blast
qed

lemma remove_ok:
  assumes ok: "fwd_ok base n q S ((x, k, a) # C) F" and n: "n < 256"
  shows "\<exists>q'. whip6_lowpanPacketForwardingStagingQueueRemoveFirstCompletedPacket q = Some q' \<and>
    fwd_ok base n q' S C (x # F)"
proof -
  let ?es = "elems q"
  have dst: "distinct (map fst S @ x # map fst C @ F)" using ok by (simp add: fwd_ok_def)
  from ok obtain e where e: "?es x = Some e" "elemPacket e = k" "elemAddr e = a" "elemStatus e = 0"
    and c: "completedQueueFirst q = Some x" "completedQueueLast q = last_of (x # map fst C)"
    and sg: "seg ?es (elemNext e) (map fst C) None" by (auto simp: fwd_ok_def)
  define q' where "q' = q\<lparr>completedQueueFirst := elemNext e, completedQueueLast := last_of (map fst C),
    poolFirst := Some x, numInPool := numInPool q + 1, numInQueue := numInQueue q - 1,
    elems := ?es(x \<mapsto> e\<lparr>elemNext := poolFirst q\<rparr>)\<rparr>"
  have lst: "last_of (x # map fst C) = Some x \<longleftrightarrow> C = []" using dst last_in [of C] by (auto simp: last_of_def)
  have run: "whip6_lowpanPacketForwardingStagingQueueRemoveFirstCompletedPacket q = Some q'"
    using c e lst
    by (cases "C = []") (simp_all add: whip6_lowpanPacketForwardingStagingQueueRemoveFirstCompletedPacket_def Let_def
        elem_get_def elem_put_def q'_def last_of_def)
  have av: "\<forall>y \<in> {base..<base + n}. \<exists>e'. (?es(x \<mapsto> e\<lparr>elemNext := poolFirst q\<rparr>)) y = Some e' \<and> addr_ok (elemAddr e')"
    by (rule link_elems [of ?es x e, OF e(1) fwd_ok_avail [OF ok]])
  have "length F + 1 < 256" using fwd_ok_size [OF ok] n by simp
  then have "fwd_ok base n q' S C (x # F)"
    using ok e dst sg av
    by (auto simp: fwd_ok_def q'_def seg_upd entries_ok_upd unat_count_up unat_count_down)
  then show ?thesis using run by blast
qed

section \<open>Searching\<close>

lemma fwd_find_loop_step:
  assumes "seg (elems q) start (x # xs) None" "entries_ok (elems q) ((x, k, a) # E)"
  shows "\<exists>nxt. seg (elems q) nxt xs None \<and>
    fwd_find_loop q packet prev before start =
      (if k = packet then Some (Some x, map_option (\<lambda>_. before) prev)
       else fwd_find_loop q packet prev (Some x) nxt)"
  using assms by (subst fwd_find_loop.simps) (auto simp: elem_get_def)

lemma fwd_find_first:
  "seg (elems q) start (map fst (E1 @ (x, packet, a) # E2)) None \<Longrightarrow>
   entries_ok (elems q) (E1 @ (x, packet, a) # E2) \<Longrightarrow> \<forall>(y, k, b) \<in> set E1. k \<noteq> packet \<Longrightarrow>
   fwd_find_loop q packet prev before start =
     Some (Some x, map_option (\<lambda>_. if E1 = [] then before else last_of (map fst E1)) prev)"
proof (induction E1 arbitrary: start before)
  case Nil
  then show ?case using fwd_find_loop_step [of q start x "map fst E2" packet a E2 packet prev before] by auto
next
  case (Cons t E1)
  obtain y k b where t: "t = (y, k, b)" by (cases t)
  from fwd_find_loop_step [of q start y "map fst (E1 @ (x, packet, a) # E2)" k b "E1 @ (x, packet, a) # E2" packet prev before]
  obtain nxt where n: "seg (elems q) nxt (map fst (E1 @ (x, packet, a) # E2)) None"
    "fwd_find_loop q packet prev before start = fwd_find_loop q packet prev (Some y) nxt"
    using Cons.prems t by auto
  have "entries_ok (elems q) (E1 @ (x, packet, a) # E2)" "\<forall>(y, k, b) \<in> set E1. k \<noteq> packet"
    using Cons.prems(2,3) by simp_all
  from Cons.IH [OF n(1) this] show ?case unfolding n(2) by (simp add: t last_of_def)
qed

lemma fwd_find_none:
  "seg (elems q) start (map fst E) None \<Longrightarrow> entries_ok (elems q) E \<Longrightarrow> \<forall>(y, k, b) \<in> set E. k \<noteq> packet \<Longrightarrow>
   fwd_find_loop q packet prev before start = Some (None, prev)"
proof (induction E arbitrary: start before)
  case Nil
  then show ?case by (subst fwd_find_loop.simps) simp
next
  case (Cons t E)
  obtain y k b where t: "t = (y, k, b)" by (cases t)
  from fwd_find_loop_step [of q start y "map fst E" k b E packet prev before]
  obtain nxt where n: "seg (elems q) nxt (map fst E) None"
    "fwd_find_loop q packet prev before start = fwd_find_loop q packet prev (Some y) nxt"
    using Cons.prems t by auto
  have "entries_ok (elems q) E" "\<forall>(y, k, b) \<in> set E. k \<noteq> packet" using Cons.prems(2,3) by simp_all
  from Cons.IH [OF n(1) this] show ?case unfolding n(2) .
qed

section \<open>The queues refine their specification\<close>

lemma fwd_abs_segs:
  assumes "fwd_abs base n q S C"
  shows "seg (elems q) (stagedQueueFirst q) (map fst S) None" "entries_ok (elems q) S"
    "seg (elems q) (completedQueueFirst q) (map fst C) None" "entries_ok (elems q) C"
  using assms by (auto simp: fwd_abs_def fwd_ok_def)

lemma abs_enqueue:
  assumes "fwd_abs base n q S C" "addr_ok a" "n < 256"
  shows "if length S + length C = n
    then whip6_lowpanPacketForwardingStagingQueueEnqueuePacket q packet a = Some (q, None)
    else \<exists>q' x. whip6_lowpanPacketForwardingStagingQueueEnqueuePacket q packet a = Some (q', Some x) \<and>
      x \<notin> fst ` set S \<union> fst ` set C \<and> fwd_abs base n q' (S @ [(x, packet, a)]) C"
proof -
  from assms(1) obtain F where ok: "fwd_ok base n q S C F" by (auto simp: fwd_abs_def)
  note size = fwd_ok_size [OF ok]
  show ?thesis
  proof (cases F)
    case Nil
    then show ?thesis using size ok enqueue_refused [of base n q S C] by simp
  next
    case (Cons x F')
    have "x \<notin> fst ` set S \<union> fst ` set C" using ok by (auto simp: fwd_ok_def Cons)
    moreover from enqueue_ok [OF ok [unfolded Cons] assms(2,3), of packet] obtain q' where
      "whip6_lowpanPacketForwardingStagingQueueEnqueuePacket q packet a = Some (q', Some x)"
      "fwd_abs base n q' (S @ [(x, packet, a)]) C" by (auto simp: fwd_abs_def)
    moreover have "length S + length C \<noteq> n" using size Cons by simp
    ultimately show ?thesis by auto
  qed
qed

lemma abs_staged_entry:
  assumes "fwd_abs base n q (S1 @ (x, packet, a) # S2) C"
  shows "whip6_lowpanPacketForwardingStagingQueueGetPacketForQueueElement q (Some x) = Some packet"
    "whip6_lowpanPacketForwardingStagingQueueGetLinkLayerAddrForQueueElement q (Some x) = Some a"
    "whip6_lowpanPacketForwardingStagingQueueGetStatusForQueueElement q (Some x) = Some 0"
    "whip6_lowpanPacketForwardingStagingQueueGetNextStagedPacket q (Some x) =
       Some (if S2 = [] then None else Some (fst (hd S2)))"
proof -
  note ok = fwd_abs_segs [OF assms]
  from ok(1,2) obtain e where e: "elems q x = Some e" "elemPacket e = packet" "elemAddr e = a" "elemStatus e = 0"
    "seg (elems q) (elemNext e) (map fst S2) None" by auto
  show "whip6_lowpanPacketForwardingStagingQueueGetPacketForQueueElement q (Some x) = Some packet"
    "whip6_lowpanPacketForwardingStagingQueueGetLinkLayerAddrForQueueElement q (Some x) = Some a"
    "whip6_lowpanPacketForwardingStagingQueueGetStatusForQueueElement q (Some x) = Some 0"
    using e by (simp_all add: fwd_getters elem_get_def)
  show "whip6_lowpanPacketForwardingStagingQueueGetNextStagedPacket q (Some x) =
       Some (if S2 = [] then None else Some (fst (hd S2)))"
    using e(1) seg_start [OF e(5)] by (auto simp: fwd_getters elem_get_def hd_map)
qed

lemma abs_find_mark:
  assumes "fwd_abs base n q (S1 @ (x, packet, a) # S2) C" "\<forall>(y, k, b) \<in> set S1. k \<noteq> packet"
  shows "\<exists>before q'.
    whip6_lowpanPacketForwardingStagingQueueFindStagedPacket q packet (Some old) = Some (Some x, Some before) \<and>
    whip6_lowpanPacketForwardingStagingQueueMarkPacketAsCompleted q before (Some x) = Some q' \<and>
    fwd_abs base n q' (S1 @ S2) (C @ [(x, packet, a)])"
proof -
  note ok = fwd_abs_segs [OF assms(1)]
  from assms(1) obtain F where "fwd_ok base n q (S1 @ (x, packet, a) # S2) C F" by (auto simp: fwd_abs_def)
  from mark_ok [OF this] obtain q' where "whip6_lowpanPacketForwardingStagingQueueMarkPacketAsCompleted q (last_of (map fst S1)) (Some x) = Some q'"
    "fwd_abs base n q' (S1 @ S2) (C @ [(x, packet, a)])" by (auto simp: fwd_abs_def)
  moreover have "whip6_lowpanPacketForwardingStagingQueueFindStagedPacket q packet (Some old) =
      Some (Some x, Some (last_of (map fst S1)))"
    using fwd_find_first [OF ok(1,2) assms(2)]
    by (simp add: whip6_lowpanPacketForwardingStagingQueueFindStagedPacket_def)
  ultimately show ?thesis by blast
qed

lemma abs_remove:
  assumes "fwd_abs base n q S (t # C)" "n < 256"
  shows "\<exists>q'. whip6_lowpanPacketForwardingStagingQueueRemoveFirstCompletedPacket q = Some q' \<and> fwd_abs base n q' S C"
proof -
  obtain x k a where t: "t = (x, k, a)" by (cases t)
  from assms(1) obtain F where "fwd_ok base n q S ((x, k, a) # C) F" by (auto simp: fwd_abs_def t)
  from remove_ok [OF this assms(2)] show ?thesis by (auto simp: fwd_abs_def)
qed

lemma abs_remove_empty:
  "fwd_abs base n q S [] \<Longrightarrow> whip6_lowpanPacketForwardingStagingQueueRemoveFirstCompletedPacket q = None"
  by (auto dest!: fwd_abs_segs(3)
      simp: whip6_lowpanPacketForwardingStagingQueueRemoveFirstCompletedPacket_def elem_get_def)

lemma abs_first:
  assumes "fwd_abs base n q S C"
  shows "whip6_lowpanPacketForwardingStagingQueueGetFirstStagedPacket q = (if S = [] then None else Some (fst (hd S)))"
    "whip6_lowpanPacketForwardingStagingQueueGetFirstCompletedPacket q = (if C = [] then None else Some (fst (hd C)))"
  using seg_start [OF fwd_abs_segs(1) [OF assms]] seg_start [OF fwd_abs_segs(3) [OF assms]]
  by (auto simp: fwd_getters hd_map)

lemma abs_find_none:
  assumes "fwd_abs base n q S C"
  shows "\<forall>(y, k, b) \<in> set S. k \<noteq> packet \<Longrightarrow>
      whip6_lowpanPacketForwardingStagingQueueFindStagedPacket q packet old = Some (None, old)"
    "\<forall>(y, k, b) \<in> set C. k \<noteq> packet \<Longrightarrow>
      whip6_lowpanPacketForwardingStagingQueueFindCompletedPacket q packet old = Some (None, old)"
  using fwd_find_none [OF fwd_abs_segs(1,2) [OF assms]] fwd_find_none [OF fwd_abs_segs(3,4) [OF assms]]
  by (simp_all add: whip6_lowpanPacketForwardingStagingQueueFindStagedPacket_def
      whip6_lowpanPacketForwardingStagingQueueFindCompletedPacket_def)

lemma abs_find_completed:
  assumes "fwd_abs base n q S (C1 @ (x, packet, a) # C2)" "\<forall>(y, k, b) \<in> set C1. k \<noteq> packet"
  shows "whip6_lowpanPacketForwardingStagingQueueFindCompletedPacket q packet (Some old) =
    Some (Some x, Some (if C1 = [] then None else Some (fst (last C1))))"
  using fwd_find_first [OF fwd_abs_segs(3,4) [OF assms(1)] assms(2)]
  by (simp add: whip6_lowpanPacketForwardingStagingQueueFindCompletedPacket_def last_of_def last_map)

section \<open>Runs\<close>

text \<open>The states that the operations reach when they are used as documented.\<close>

inductive fwd_reach :: "nat \<Rightarrow> u8 \<Rightarrow> fwd_queue \<Rightarrow> bool" where
  init: "\<forall>x \<in> {base..<base + unat n}. \<exists>e. elems q x = Some e \<and> addr_ok (elemAddr e) \<Longrightarrow>
    whip6_lowpanPacketForwardingStagingQueueInit q base n = Some q' \<Longrightarrow> fwd_reach base n q'"
| enqueue: "fwd_reach base n q \<Longrightarrow> addr_ok a \<Longrightarrow>
    whip6_lowpanPacketForwardingStagingQueueEnqueuePacket q packet a = Some (q', r) \<Longrightarrow> fwd_reach base n q'"
| complete: "fwd_reach base n q \<Longrightarrow>
    whip6_lowpanPacketForwardingStagingQueueFindStagedPacket q packet (Some old) = Some (Some x, Some before) \<Longrightarrow>
    whip6_lowpanPacketForwardingStagingQueueMarkPacketAsCompleted q before (Some x) = Some q' \<Longrightarrow> fwd_reach base n q'"
| remove: "fwd_reach base n q \<Longrightarrow> whip6_lowpanPacketForwardingStagingQueueGetFirstCompletedPacket q \<noteq> None \<Longrightarrow>
    whip6_lowpanPacketForwardingStagingQueueRemoveFirstCompletedPacket q = Some q' \<Longrightarrow> fwd_reach base n q'"

lemma first_with_packet:
  "(\<forall>(y, k, b) \<in> set S. k \<noteq> packet) \<or> (\<exists>S1 x a S2. S = S1 @ (x, packet, a) # S2 \<and> (\<forall>(y, k, b) \<in> set S1. k \<noteq> packet))"
proof (cases "\<exists>t \<in> set S. fst (snd t) = packet")
  case True
  then obtain S1 t S2 where "S = S1 @ t # S2" "fst (snd t) = packet" "\<forall>u \<in> set S1. fst (snd u) \<noteq> packet"
    using split_list_first_prop [of S "\<lambda>t. fst (snd t) = packet"] by blast
  then show ?thesis by (cases t) (auto simp: split_beta)
qed auto

lemma fwd_reach_abs: "fwd_reach base n q \<Longrightarrow> \<exists>S C. fwd_abs base (unat n) q S C"
proof (induction rule: fwd_reach.induct)
  case (init base n q q')
  then show ?case using forwarding_init [OF init(1)] by auto
next
  case (enqueue base n q a packet q' r)
  then obtain S C where abs: "fwd_abs base (unat n) q S C" by blast
  show ?case using abs_enqueue [OF abs enqueue(2) unat_u8_less, of packet] enqueue(3) abs
    by (auto split: if_splits)
next
  case (complete base n q packet old x before q')
  then obtain S C where abs: "fwd_abs base (unat n) q S C" by blast
  from first_with_packet [of S packet] show ?case
  proof (elim disjE exE conjE)
    assume "\<forall>(y, k, b) \<in> set S. k \<noteq> packet"
    then show ?thesis using abs_find_none(1) [OF abs] complete(2) by simp
  next
    fix S1 z a S2
    assume S: "S = S1 @ (z, packet, a) # S2" "\<forall>(y, k, b) \<in> set S1. k \<noteq> packet"
    show ?thesis using abs_find_mark [OF abs [unfolded S(1)] S(2), of old] complete(2,3) by auto
  qed
next
  case (remove base n q q')
  then obtain S C where abs: "fwd_abs base (unat n) q S C" by blast
  then obtain t C' where "C = t # C'" using remove(2) abs_first(2) [OF abs] by (cases C) auto
  then show ?case using abs_remove [of base "unat n" q S t C'] abs remove(3) by auto
qed

lemma fwd_abs_counters:
  assumes "fwd_abs base n q S C"
  shows "unat (numInQueue q) = length S + length C" "unat (numInPool q) + unat (numInQueue q) = n"
proof -
  obtain F where F: "fwd_ok base n q S C F" using assms by (auto simp: fwd_abs_def)
  then show "unat (numInQueue q) = length S + length C" "unat (numInPool q) + unat (numInQueue q) = n"
    using fwd_ok_size [OF F] by (auto simp: fwd_ok_def)
qed

text \<open>C21:
  The forwarding queue is two first-in first-out queues over a fixed pool. In every reachable state
  there are the entries that are staged and the entries that are completed, and the two counters
  tell how many elements are used and free. Enqueueing appends an entry with a fresh element to the
  staged ones unless the pool is used up, in which case nothing changes; looking a packet up finds
  the first staged entry with it, and completing the entry with the predecessor that the search
  returned moves it, and only it, to the end of the completed ones; removing takes the first
  completed entry and fails only when there is none.\<close>

theorem forwarding_queues:
  assumes "fwd_reach base n q"
  shows "\<exists>S C. fwd_abs base (unat n) q S C \<and>
    unat (numInQueue q) = length S + length C \<and> unat (numInPool q) + unat (numInQueue q) = unat n \<and>
    whip6_lowpanPacketForwardingStagingQueueGetFirstStagedPacket q = (if S = [] then None else Some (fst (hd S))) \<and>
    whip6_lowpanPacketForwardingStagingQueueGetFirstCompletedPacket q = (if C = [] then None else Some (fst (hd C))) \<and>
    (\<forall>packet a. addr_ok a \<longrightarrow>
      (if length S + length C = unat n
       then whip6_lowpanPacketForwardingStagingQueueEnqueuePacket q packet a = Some (q, None)
       else \<exists>q' x. whip6_lowpanPacketForwardingStagingQueueEnqueuePacket q packet a = Some (q', Some x) \<and>
         x \<notin> fst ` set S \<union> fst ` set C \<and> fwd_abs base (unat n) q' (S @ [(x, packet, a)]) C)) \<and>
    (\<forall>packet old. (\<forall>(y, k, b) \<in> set S. k \<noteq> packet) \<longrightarrow>
      whip6_lowpanPacketForwardingStagingQueueFindStagedPacket q packet old = Some (None, old)) \<and>
    (\<forall>S1 x packet a S2 old. S = S1 @ (x, packet, a) # S2 \<and> (\<forall>(y, k, b) \<in> set S1. k \<noteq> packet) \<longrightarrow>
      (\<exists>before q'.
        whip6_lowpanPacketForwardingStagingQueueFindStagedPacket q packet (Some old) = Some (Some x, Some before) \<and>
        whip6_lowpanPacketForwardingStagingQueueMarkPacketAsCompleted q before (Some x) = Some q' \<and>
        fwd_abs base (unat n) q' (S1 @ S2) (C @ [(x, packet, a)]))) \<and>
    (case C of
       [] \<Rightarrow> whip6_lowpanPacketForwardingStagingQueueRemoveFirstCompletedPacket q = None
     | t # C' \<Rightarrow> \<exists>q'. whip6_lowpanPacketForwardingStagingQueueRemoveFirstCompletedPacket q = Some q' \<and>
         fwd_abs base (unat n) q' S C')"
proof -
  from fwd_reach_abs [OF assms] obtain S C where abs: "fwd_abs base (unat n) q S C" by blast
  show ?thesis
  proof (rule exI [of _ S], rule exI [of _ C], intro conjI allI impI)
    fix S1 x packet a S2 old
    assume "S = S1 @ (x, packet, a) # S2 \<and> (\<forall>(y, k, b) \<in> set S1. k \<noteq> packet)"
    then show "\<exists>before q'.
        whip6_lowpanPacketForwardingStagingQueueFindStagedPacket q packet (Some old) = Some (Some x, Some before) \<and>
        whip6_lowpanPacketForwardingStagingQueueMarkPacketAsCompleted q before (Some x) = Some q' \<and>
        fwd_abs base (unat n) q' (S1 @ S2) (C @ [(x, packet, a)])"
      using abs_find_mark [of base "unat n" q S1 x packet a S2 C old] abs by blast
  next
    show "case C of
       [] \<Rightarrow> whip6_lowpanPacketForwardingStagingQueueRemoveFirstCompletedPacket q = None
     | t # C' \<Rightarrow> \<exists>q'. whip6_lowpanPacketForwardingStagingQueueRemoveFirstCompletedPacket q = Some q' \<and>
         fwd_abs base (unat n) q' S C'"
      using abs abs_remove_empty [of base "unat n" q S] abs_remove [of base "unat n" q S, OF _ unat_u8_less]
      by (cases C) simp_all
  qed (fact abs fwd_abs_counters [OF abs] abs_first [OF abs] | erule abs_enqueue [OF abs _ unat_u8_less] abs_find_none(1) [OF abs])+
qed

text \<open>A pool of two elements, after staging a packet.\<close>

definition ex_fwd_addr :: ieee154_addr where
  "ex_fwd_addr = \<lparr>addrMode = IEEE154_ADDR_MODE_SHORT, addrVars = [1, 2, 0, 0, 0, 0, 0, 0]\<rparr>"

definition ex_fwd_pool :: fwd_queue where
  "ex_fwd_pool = \<lparr>stagedQueueFirst = None, stagedQueueLast = None, completedQueueFirst = None,
     completedQueueLast = None, poolFirst = None, numInPool = 0, numInQueue = 0,
     elems = [10 \<mapsto> \<lparr>elemNext = None, elemPacket = 0, elemStatus = 0, elemAddr = ex_fwd_addr\<rparr>,
              11 \<mapsto> \<lparr>elemNext = None, elemPacket = 0, elemStatus = 0, elemAddr = ex_fwd_addr\<rparr>]\<rparr>"

definition ex_fwd_staged :: fwd_queue where
  "ex_fwd_staged = fst (the (whip6_lowpanPacketForwardingStagingQueueEnqueuePacket
     (the (whip6_lowpanPacketForwardingStagingQueueInit ex_fwd_pool 10 2)) 500 ex_fwd_addr))"

lemma ex_fwd_reach: "fwd_reach 10 2 ex_fwd_staged"
proof -
  have ok: "\<forall>x \<in> {10..<10 + unat (2 :: u8)}. \<exists>e. elems ex_fwd_pool x = Some e \<and> addr_ok (elemAddr e)"
    by (auto simp: ex_fwd_pool_def ex_fwd_addr_def addr_ok_def)
  have a: "addr_ok ex_fwd_addr" by (simp add: ex_fwd_addr_def addr_ok_def)
  obtain q where q: "whip6_lowpanPacketForwardingStagingQueueInit ex_fwd_pool 10 2 = Some q"
    "fwd_abs 10 2 q [] []" using forwarding_init [OF ok] by auto
  obtain q' x where e: "whip6_lowpanPacketForwardingStagingQueueEnqueuePacket q 500 ex_fwd_addr = Some (q', Some x)"
    using abs_enqueue [OF q(2) a, of 500] by auto
  show ?thesis using fwd_reach.enqueue [OF fwd_reach.init [OF ok q(1)] a e] q(1) e by (simp add: ex_fwd_staged_def)
qed

theorem forwarding_queues_witness:
  "\<exists>S C. fwd_abs 10 2 ex_fwd_staged S C \<and>
    unat (numInPool ex_fwd_staged) + unat (numInQueue ex_fwd_staged) = 2 \<and>
    whip6_lowpanPacketForwardingStagingQueueGetFirstStagedPacket ex_fwd_staged =
      (if S = [] then None else Some (fst (hd S)))"
  using forwarding_queues [OF ex_fwd_reach] by (elim ex_forward conjE) simp

end
