(* ===== verification/Lowpan_FrameQueue.thy ===== *)
theory Lowpan_FrameQueue
  imports Whip6_Prelude
begin

text \<open>
  The queue of the frames that wait for the radio, in the packet forwarder
  \<open>nesc/whip6/lib/lowpan/LoWPANIPv6PacketForwarderMainPrv.nc\<close>: a ring buffer of packet indices with
  the index of its first entry and the number of its entries. \<open>MAX_FRAME_QUEUE_SIZE\<close> is the length of
  the array; the indices are \<open>uint8_t\<close>, with the wrap-around of an increment written out.
  \<open>frame_queue_entries\<close> is the list that the buffer holds.
\<close>

record frame_queue =
  frameQueueArray :: "u8 list"
  frameQueueFirstIdx :: nat
  frameQueueCount :: nat

definition MAX_FRAME_QUEUE_SIZE :: "frame_queue \<Rightarrow> nat" where
  "MAX_FRAME_QUEUE_SIZE q = length (frameQueueArray q)"

definition addFwdPacketIdxAsLastInFrameQueue :: "frame_queue \<Rightarrow> u8 \<Rightarrow> (frame_queue \<times> bool) option" where
  "addFwdPacketIdxAsLastInFrameQueue q fwdPacketIdx =
     (if frameQueueCount q \<ge> MAX_FRAME_QUEUE_SIZE q then Some (q, False)
      else
        do { arr \<leftarrow> buf_put (frameQueueArray q)
               ((frameQueueFirstIdx q + frameQueueCount q) mod MAX_FRAME_QUEUE_SIZE q) fwdPacketIdx;
             Some (q\<lparr>frameQueueArray := arr, frameQueueCount := u8_wrap (frameQueueCount q + 1)\<rparr>, True) })"

definition removeFirstFwdPacketIndxFromFrameQueue :: "frame_queue \<Rightarrow> frame_queue" where
  "removeFirstFwdPacketIndxFromFrameQueue q =
     q\<lparr>frameQueueFirstIdx := u8_wrap (frameQueueFirstIdx q + 1) mod MAX_FRAME_QUEUE_SIZE q,
       frameQueueCount := u8_wrap (frameQueueCount q + 255)\<rparr>"

fun find_frame_loop :: "frame_queue \<Rightarrow> u8 \<Rightarrow> nat \<Rightarrow> nat \<Rightarrow> nat option" where
  "find_frame_loop q fwdPacketIdx i 0 = Some (MAX_FRAME_QUEUE_SIZE q)"
| "find_frame_loop q fwdPacketIdx i (Suc n) =
     do { x \<leftarrow> buf_get (frameQueueArray q) i;
          if x = fwdPacketIdx then Some (frameQueueCount q - Suc n)
          else find_frame_loop q fwdPacketIdx ((i + 1) mod MAX_FRAME_QUEUE_SIZE q) n }"

definition findForwardedFrameWithGivenPacketIndex :: "frame_queue \<Rightarrow> u8 \<Rightarrow> nat option" where
  "findForwardedFrameWithGivenPacketIndex q fwdPacketIdx =
     find_frame_loop q fwdPacketIdx (frameQueueFirstIdx q) (frameQueueCount q)"

fun shift_frames_loop :: "u8 list \<Rightarrow> nat \<Rightarrow> nat \<Rightarrow> u8 list option" where
  "shift_frames_loop arr prevIdx 0 = Some arr"
| "shift_frames_loop arr prevIdx (Suc cnt) =
     (let currIdx = (prevIdx + 1) mod length arr
      in do { x \<leftarrow> buf_get arr currIdx;
              arr \<leftarrow> buf_put arr prevIdx x;
              shift_frames_loop arr currIdx cnt })"

definition removeIthFwdPacketIndxFromFrameQueue :: "frame_queue \<Rightarrow> nat \<Rightarrow> frame_queue option" where
  "removeIthFwdPacketIndxFromFrameQueue q i =
     do { arr \<leftarrow> shift_frames_loop (frameQueueArray q)
            ((frameQueueFirstIdx q + i) mod MAX_FRAME_QUEUE_SIZE q) (u8_wrap (frameQueueCount q + 255 - i));
          let q = q\<lparr>frameQueueArray := arr, frameQueueCount := u8_wrap (frameQueueCount q + 255)\<rparr>;
          Some (if i = 0
                then q\<lparr>frameQueueFirstIdx := u8_wrap (frameQueueFirstIdx q + 1) mod MAX_FRAME_QUEUE_SIZE q\<rparr>
                else q) }"

section \<open>The list in the buffer\<close>

definition frame_queue_ok :: "frame_queue \<Rightarrow> bool" where
  "frame_queue_ok q \<longleftrightarrow> MAX_FRAME_QUEUE_SIZE q < 256 \<and> frameQueueFirstIdx q < MAX_FRAME_QUEUE_SIZE q \<and>
     frameQueueCount q \<le> MAX_FRAME_QUEUE_SIZE q"

definition ring :: "u8 list \<Rightarrow> nat \<Rightarrow> nat \<Rightarrow> u8" where
  "ring arr f j = arr ! ((f + j) mod length arr)"

definition frame_queue_entries :: "frame_queue \<Rightarrow> u8 list" where
  "frame_queue_entries q = map (ring (frameQueueArray q) (frameQueueFirstIdx q)) [0..<frameQueueCount q]"

lemma ring_index_inj:
  fixes f i j m :: nat
  assumes "i < m" "j < m"
  shows "(f + i) mod m = (f + j) mod m \<longleftrightarrow> i = j"
proof -
  have "i = j" if "(f + i) mod m = (f + j) mod m" "i \<le> j" "j < m" for i j
  proof -
    have "m dvd (f + j) - (f + i)" using mod_eq_dvd_iff_nat [of "f + i" "f + j" m] that(1,2) by simp
    then show "i = j" using that(2,3) by (metis add_diff_cancel_left dvd_imp_le le_antisym less_imp_diff_less
          linorder_not_less zero_less_diff)
  qed
  then show ?thesis using assms by (metis nat_le_linear)
qed

lemma ring_update:
  assumes "length arr = m" "i < m" "j < m"
  shows "ring (arr[(f + i) mod m := v]) f j = (if j = i then v else ring arr f j)"
proof -
  have "(f + i) mod length arr < length arr" using assms by (intro mod_less_divisor) linarith
  then show ?thesis using assms ring_index_inj [of i "length arr" j f] by (auto simp: ring_def nth_list_update)
qed

lemma ring_next: "length arr = m \<Longrightarrow> ring arr (Suc f mod m) j = ring arr f (Suc j)"
  by (simp add: ring_def mod_simps)

text \<open>Shifting the entries behind the \<open>i\<close>-th one.\<close>

lemma shift_frames_loop_eq:
  "0 < length arr \<Longrightarrow> i + cnt < length arr \<Longrightarrow>
   \<exists>arr'. shift_frames_loop arr ((f + i) mod length arr) cnt = Some arr' \<and> length arr' = length arr \<and>
     (\<forall>j < length arr. ring arr' f j = (if i \<le> j \<and> j < i + cnt then ring arr f (j + 1) else ring arr f j))"
proof (induction cnt arbitrary: arr i)
  case (Suc cnt)
  let ?m = "length arr"
  let ?arr = "arr[(f + i) mod ?m := ring arr f (i + 1)]"
  have idx: "((f + i) mod ?m + 1) mod ?m = (f + (i + 1)) mod ?m" by (simp add: mod_simps)
  from Suc.IH [of ?arr "i + 1"] Suc.prems obtain arr' where
    r: "shift_frames_loop ?arr ((f + (i + 1)) mod ?m) cnt = Some arr'" "length arr' = ?m"
      "\<forall>j < ?m. ring arr' f j = (if i + 1 \<le> j \<and> j < i + 1 + cnt then ring ?arr f (j + 1) else ring ?arr f j)" by auto
  have "shift_frames_loop arr ((f + i) mod ?m) (Suc cnt) = Some arr'"
    using r(1) Suc.prems unfolding shift_frames_loop.simps Let_def idx by (simp add: ring_def)
  moreover have "ring arr' f j = (if i \<le> j \<and> j < i + Suc cnt then ring arr f (j + 1) else ring arr f j)"
    if "j < ?m" for j
    using r(3) that Suc.prems by (auto simp: ring_update)
  ultimately show ?case using r(2) by blast
qed auto

lemma frame_queue_okD:
  assumes "frame_queue_ok q"
  shows "length (frameQueueArray q) = MAX_FRAME_QUEUE_SIZE q" "0 < MAX_FRAME_QUEUE_SIZE q"
    "frameQueueFirstIdx q < MAX_FRAME_QUEUE_SIZE q" "frameQueueCount q \<le> MAX_FRAME_QUEUE_SIZE q"
    "MAX_FRAME_QUEUE_SIZE q < 256" "u8_wrap (frameQueueFirstIdx q + 1) = Suc (frameQueueFirstIdx q)"
    "0 < frameQueueCount q \<Longrightarrow> u8_wrap (frameQueueCount q + 255) = frameQueueCount q - 1"
proof -
  have "u8_wrap (frameQueueCount q + 255) = frameQueueCount q - 1" if "0 < frameQueueCount q"
  proof -
    from that obtain c where c: "frameQueueCount q = Suc c" by (cases "frameQueueCount q") auto
    then have "c < 256" using assms by (simp add: frame_queue_ok_def)
    then show ?thesis using c by (simp add: u8_wrap_def)
  qed
  then show "length (frameQueueArray q) = MAX_FRAME_QUEUE_SIZE q" "0 < MAX_FRAME_QUEUE_SIZE q"
    "frameQueueFirstIdx q < MAX_FRAME_QUEUE_SIZE q" "frameQueueCount q \<le> MAX_FRAME_QUEUE_SIZE q"
    "MAX_FRAME_QUEUE_SIZE q < 256" "u8_wrap (frameQueueFirstIdx q + 1) = Suc (frameQueueFirstIdx q)"
    "0 < frameQueueCount q \<Longrightarrow> u8_wrap (frameQueueCount q + 255) = frameQueueCount q - 1"
    using assms by (auto simp: frame_queue_ok_def MAX_FRAME_QUEUE_SIZE_def)
qed

lemma entries_length [simp]: "length (frame_queue_entries q) = frameQueueCount q"
  by (simp add: frame_queue_entries_def)

lemma entries_nth: "j < frameQueueCount q \<Longrightarrow> frame_queue_entries q ! j = ring (frameQueueArray q) (frameQueueFirstIdx q) j"
  by (simp add: frame_queue_entries_def)

lemma frame_queue_add:
  assumes "frame_queue_ok q" "frameQueueCount q < MAX_FRAME_QUEUE_SIZE q"
  shows "\<exists>q'. addFwdPacketIdxAsLastInFrameQueue q x = Some (q', True) \<and> frame_queue_ok q' \<and>
    MAX_FRAME_QUEUE_SIZE q' = MAX_FRAME_QUEUE_SIZE q \<and> frame_queue_entries q' = frame_queue_entries q @ [x]"
proof -
  note ok = frame_queue_okD [OF assms(1)]
  let ?arr = "frameQueueArray q" and ?f = "frameQueueFirstIdx q" and ?c = "frameQueueCount q"
  let ?q = "q\<lparr>frameQueueArray := ?arr[(?f + ?c) mod length ?arr := x], frameQueueCount := ?c + 1\<rparr>"
  have run: "addFwdPacketIdxAsLastInFrameQueue q x = Some (?q, True)"
    using assms(2) ok(1,2,5) by (simp add: addFwdPacketIdxAsLastInFrameQueue_def)
  have "frame_queue_entries ?q = frame_queue_entries q @ [x]"
    using assms(2) ring_update [OF ok(1)] ok(1) by (auto simp: frame_queue_entries_def)
  moreover have "frame_queue_ok ?q" "MAX_FRAME_QUEUE_SIZE ?q = MAX_FRAME_QUEUE_SIZE q"
    using assms by (simp_all add: frame_queue_ok_def MAX_FRAME_QUEUE_SIZE_def)
  ultimately show ?thesis using run by blast
qed

lemma frame_queue_remove_first:
  assumes "frame_queue_ok q" "0 < frameQueueCount q"
  shows "frame_queue_ok (removeFirstFwdPacketIndxFromFrameQueue q)"
    "frame_queue_entries (removeFirstFwdPacketIndxFromFrameQueue q) = tl (frame_queue_entries q)"
proof -
  note ok = frame_queue_okD [OF assms(1)]
  let ?q = "removeFirstFwdPacketIndxFromFrameQueue q"
  have q: "?q = q\<lparr>frameQueueFirstIdx := Suc (frameQueueFirstIdx q) mod MAX_FRAME_QUEUE_SIZE q,
      frameQueueCount := frameQueueCount q - 1\<rparr>"
    using ok(6) ok(7) [OF assms(2)] by (simp add: removeFirstFwdPacketIndxFromFrameQueue_def)
  show "frame_queue_ok ?q" using ok(2-5) by (simp add: q frame_queue_ok_def MAX_FRAME_QUEUE_SIZE_def)
  show "frame_queue_entries ?q = tl (frame_queue_entries q)"
    using ring_next [OF ok(1)] by (intro nth_equalityI) (auto simp: q frame_queue_entries_def nth_tl)
qed

lemma find_frame_loop_eq:
  assumes "frame_queue_ok q" "n \<le> frameQueueCount q"
  shows "find_frame_loop q x ((frameQueueFirstIdx q + (frameQueueCount q - n)) mod MAX_FRAME_QUEUE_SIZE q) n =
    Some (case find (\<lambda>j. frame_queue_entries q ! j = x) [frameQueueCount q - n..<frameQueueCount q] of
      None \<Rightarrow> MAX_FRAME_QUEUE_SIZE q | Some j \<Rightarrow> j)"
  using assms(2)
proof (induction n)
  case (Suc n)
  note ok = frame_queue_okD [OF assms(1)]
  let ?j = "frameQueueCount q - Suc n"
  have j: "frameQueueCount q - n = Suc ?j" "[?j..<frameQueueCount q] = ?j # [Suc ?j..<frameQueueCount q]"
    using Suc.prems by (simp_all add: Suc_diff_Suc upt_conv_Cons)
  have idx: "((frameQueueFirstIdx q + ?j) mod MAX_FRAME_QUEUE_SIZE q + 1) mod MAX_FRAME_QUEUE_SIZE q =
      (frameQueueFirstIdx q + Suc ?j) mod MAX_FRAME_QUEUE_SIZE q" by (simp add: mod_simps)
  have "frame_queue_entries q ! ?j = frameQueueArray q ! ((frameQueueFirstIdx q + ?j) mod MAX_FRAME_QUEUE_SIZE q)"
    using Suc.prems ok(1) by (simp add: entries_nth ring_def)
  then show ?case using Suc ok(1,2) unfolding j(2) find_frame_loop.simps idx j(1) by simp
qed simp

lemma frame_queue_find:
  assumes "frame_queue_ok q"
  shows "findForwardedFrameWithGivenPacketIndex q x =
    Some (case find (\<lambda>j. frame_queue_entries q ! j = x) [0..<frameQueueCount q] of
      None \<Rightarrow> MAX_FRAME_QUEUE_SIZE q | Some j \<Rightarrow> j)"
  using find_frame_loop_eq [OF assms, of "frameQueueCount q" x] frame_queue_okD(3) [OF assms]
  by (simp add: findForwardedFrameWithGivenPacketIndex_def)

text \<open>Removing an entry in the middle, and what happens to the first one.\<close>

lemma frame_queue_remove_ith:
  assumes ok: "frame_queue_ok q" and i: "i < frameQueueCount q"
  shows "\<exists>q'. removeIthFwdPacketIndxFromFrameQueue q i = Some q' \<and> frame_queue_ok q' \<and>
    MAX_FRAME_QUEUE_SIZE q' = MAX_FRAME_QUEUE_SIZE q \<and>
    frame_queue_entries q' =
      (let es = frame_queue_entries q
       in if i = 0 then drop 2 es @ (if length es = 1 then [] else [last es]) else take i es @ drop (i + 1) es)"
proof -
  note D = frame_queue_okD [OF ok]
  let ?arr = "frameQueueArray q" and ?f = "frameQueueFirstIdx q" and ?c = "frameQueueCount q" and ?m = "MAX_FRAME_QUEUE_SIZE q"
  have cnt: "u8_wrap (?c + 255 - i) = ?c - 1 - i"
  proof -
    from i obtain k where k: "?c = i + Suc k" using less_iff_Suc_add by auto
    then have "k < 256" using D(4,5) by linarith
    then show ?thesis using k by (simp add: u8_wrap_def)
  qed
  have "?c - 1 < ?m" using D(4) i by linarith
  with shift_frames_loop_eq [of ?arr i "?c - 1 - i" ?f] D(1,2) i obtain arr' where
    r: "shift_frames_loop ?arr ((?f + i) mod ?m) (?c - 1 - i) = Some arr'" "length arr' = ?m"
      "\<forall>j < ?m. ring arr' ?f j = (if i \<le> j \<and> j < ?c - 1 then ring ?arr ?f (j + 1) else ring ?arr ?f j)" by auto
  let ?q = "q\<lparr>frameQueueArray := arr', frameQueueCount := ?c - 1,
    frameQueueFirstIdx := (if i = 0 then Suc ?f mod ?m else ?f)\<rparr>"
  have run: "removeIthFwdPacketIndxFromFrameQueue q i = Some ?q"
  proof -
    have "MAX_FRAME_QUEUE_SIZE (q\<lparr>frameQueueArray := arr', frameQueueCount := c\<rparr>) = ?m" for c
      using r(2) by (simp add: MAX_FRAME_QUEUE_SIZE_def)
    moreover have "u8_wrap (?c + 255) = ?c - 1" using D(7) i by simp
    ultimately show ?thesis
      unfolding removeIthFwdPacketIndxFromFrameQueue_def cnt r(1) Option.bind.bind_lunit Let_def
      using D(6) by simp
  qed
  have "frame_queue_ok ?q" "MAX_FRAME_QUEUE_SIZE ?q = ?m"
    using r(2) D(2-5) by (auto simp: frame_queue_ok_def MAX_FRAME_QUEUE_SIZE_def)
  moreover have "frame_queue_entries ?q ! j =
      (if i = 0 then (drop 2 (frame_queue_entries q) @ (if ?c = 1 then [] else [last (frame_queue_entries q)])) ! j
       else (take i (frame_queue_entries q) @ drop (i + 1) (frame_queue_entries q)) ! j)" if j: "j < ?c - 1" for j
  proof (cases "i = 0")
    case True
    have "frame_queue_entries ?q ! j = ring arr' ?f (Suc j)"
      using j True ring_next [OF r(2)] by (simp add: frame_queue_entries_def)
    also have "\<dots> = (if Suc j < ?c - 1 then ring ?arr ?f (j + 2) else ring ?arr ?f (?c - 1))"
    proof (cases "Suc j < ?c - 1")
      case no: False
      then have "Suc j = ?c - 1" using j by linarith
      then show ?thesis using r(3) D(4) no by simp
    qed (use r(3) D(4) True in simp)
    finally show ?thesis using True j
      by (auto simp: nth_append last_conv_nth entries_nth simp flip: length_greater_0_conv)
  next
    case False
    then show ?thesis using r(3) i j D(4)
      by (auto simp: nth_append entries_nth frame_queue_entries_def min_def)
  qed
  then have "frame_queue_entries ?q =
      (let es = frame_queue_entries q
       in if i = 0 then drop 2 es @ (if length es = 1 then [] else [last es]) else take i es @ drop (i + 1) es)"
    using i by (intro nth_equalityI) (auto simp: Let_def)
  ultimately show ?thesis using run by blast
qed

section \<open>The queue\<close>

text \<open>C22:
  The ring buffer of the frames to send holds a list. Adding appends to it unless it is full;
  removing the first entry drops it; the search returns the position of the first entry with the
  given packet index, or the size of the buffer when there is none; removing an entry other than the
  first drops just that entry. Removing the first entry by its position shifts the entries and
  advances the first index as well: when there were three or more, the second entry is lost with it
  and the last one is there twice.\<close>

theorem frame_queue_operations:
  assumes "frame_queue_ok q"
  shows "(if frameQueueCount q = MAX_FRAME_QUEUE_SIZE q then addFwdPacketIdxAsLastInFrameQueue q x = Some (q, False)
      else \<exists>q'. addFwdPacketIdxAsLastInFrameQueue q x = Some (q', True) \<and> frame_queue_ok q' \<and>
        frame_queue_entries q' = frame_queue_entries q @ [x]) \<and>
    (0 < frameQueueCount q \<longrightarrow> frame_queue_ok (removeFirstFwdPacketIndxFromFrameQueue q) \<and>
      frame_queue_entries (removeFirstFwdPacketIndxFromFrameQueue q) = tl (frame_queue_entries q)) \<and>
    findForwardedFrameWithGivenPacketIndex q x =
      Some (case find (\<lambda>j. frame_queue_entries q ! j = x) [0..<frameQueueCount q] of
        None \<Rightarrow> MAX_FRAME_QUEUE_SIZE q | Some j \<Rightarrow> j) \<and>
    (\<forall>i < frameQueueCount q. \<exists>q'. removeIthFwdPacketIndxFromFrameQueue q i = Some q' \<and> frame_queue_ok q' \<and>
      frame_queue_entries q' =
        (let es = frame_queue_entries q
         in if i = 0 then drop 2 es @ (if length es = 1 then [] else [last es]) else take i es @ drop (i + 1) es))"
proof (intro conjI impI allI)
  show "if frameQueueCount q = MAX_FRAME_QUEUE_SIZE q then addFwdPacketIdxAsLastInFrameQueue q x = Some (q, False)
      else \<exists>q'. addFwdPacketIdxAsLastInFrameQueue q x = Some (q', True) \<and> frame_queue_ok q' \<and>
        frame_queue_entries q' = frame_queue_entries q @ [x]"
    using frame_queue_add [OF assms, of x] frame_queue_okD(4) [OF assms]
    by (auto simp: addFwdPacketIdxAsLastInFrameQueue_def)
next
  fix i assume "i < frameQueueCount q"
  from frame_queue_remove_ith [OF assms this]
  show "\<exists>q'. removeIthFwdPacketIndxFromFrameQueue q i = Some q' \<and> frame_queue_ok q' \<and>
      frame_queue_entries q' =
        (let es = frame_queue_entries q
         in if i = 0 then drop 2 es @ (if length es = 1 then [] else [last es]) else take i es @ drop (i + 1) es)"
    by blast
qed (fact frame_queue_find [OF assms] | erule frame_queue_remove_first [OF assms])+

text \<open>Three entries in a buffer of four, over the end of the array.\<close>

definition ex_frame_queue :: frame_queue where
  "ex_frame_queue = \<lparr>frameQueueArray = [7, 0, 5, 6], frameQueueFirstIdx = 2, frameQueueCount = 3\<rparr>"

lemma ex_frame_queue_ok: "frame_queue_ok ex_frame_queue" "frame_queue_entries ex_frame_queue = [5, 6, 7]"
  by code_simp+

theorem frame_queue_operations_witness:
  "(\<exists>q'. removeIthFwdPacketIndxFromFrameQueue ex_frame_queue 0 = Some q' \<and> frame_queue_entries q' = [7, 7]) \<and>
   (\<exists>q'. removeIthFwdPacketIndxFromFrameQueue ex_frame_queue 1 = Some q' \<and> frame_queue_entries q' = [5, 7])"
proof -
  note removed = frame_queue_operations [OF ex_frame_queue_ok(1), of 0,
      THEN conjunct2, THEN conjunct2, THEN conjunct2, THEN spec, THEN mp]
  have "0 < frameQueueCount ex_frame_queue" "1 < frameQueueCount ex_frame_queue" by (simp_all add: ex_frame_queue_def)
  note two = removed [OF this(1)] removed [OF this(2)]
  show ?thesis using two unfolding ex_frame_queue_ok(2) Let_def
    by (intro conjI; elim ex_forward conjE) simp_all
qed

end
