(* ===== verification/Base_IoVecStore.thy ===== *)
theory Base_IoVecStore
  imports Ipv6_Packet
begin

text \<open>
  I/O vectors in memory. Where the code relinks the nodes of an I/O vector in place, a list of chunks
  (theory \<open>Base_IoVec\<close>) does not show what is shared: the nodes are here an explicit store, a map from
  addresses to the fields of \<open>iov_blist_t\<close> (\<open>microc/include/base/ucIoVec.h\<close>), beside the memory that
  their \<open>iov.ptr\<close> point to. \<open>NULL\<close> is \<open>None\<close>; using an address that is not mapped is an error.
  \<open>linked\<close> is the invariant of a doubly linked list.
\<close>

record iov_node =
  nodePtr :: nat
  nodeLen :: nat
  nodeNext :: "nat option"
  nodePrev :: "nat option"

record iov_store =
  nodes :: "nat \<rightharpoonup> iov_node"
  ram :: "nat \<Rightarrow> u8"

definition node_put :: "iov_store \<Rightarrow> nat \<Rightarrow> (iov_node \<Rightarrow> iov_node) \<Rightarrow> iov_store option" where
  "node_put st p f = do { n \<leftarrow> nodes st p; Some (st\<lparr>nodes := (nodes st)(p \<mapsto> f n)\<rparr>) }"

text \<open>Writing the bytes of a chunk, within its length.\<close>

definition chunk_put :: "iov_store \<Rightarrow> nat \<Rightarrow> nat \<Rightarrow> u8 \<Rightarrow> iov_store option" where
  "chunk_put st p i b =
     do { n \<leftarrow> nodes st p;
          if i < nodeLen n then Some (st\<lparr>ram := (ram st)(nodePtr n + i := b)\<rparr>) else None }"

fun chunk_put_all :: "iov_store \<Rightarrow> nat \<Rightarrow> nat \<Rightarrow> u8 list \<Rightarrow> iov_store option" where
  "chunk_put_all st p i [] = Some st"
| "chunk_put_all st p i (b # bs) = do { st \<leftarrow> chunk_put st p i b; chunk_put_all st p (i + 1) bs }"

text \<open>The loop that adds the lengths up and remembers the last node.\<close>

partial_function (option) iov_walk :: "iov_store \<Rightarrow> nat option \<Rightarrow> nat option \<Rightarrow> nat \<Rightarrow> (nat option \<times> nat) option" where
  "iov_walk st currIov prevIov maxPayload =
     (case currIov of
        None \<Rightarrow> Some (prevIov, maxPayload)
      | Some p \<Rightarrow> do { n \<leftarrow> nodes st p; iov_walk st (nodeNext n) currIov (maxPayload + nodeLen n) })"

declare iov_walk.simps [code]

definition whip6_iovGetTotalLength_store :: "iov_store \<Rightarrow> nat option \<Rightarrow> nat option" where
  "whip6_iovGetTotalLength_store st iovList = do { (_, res) \<leftarrow> iov_walk st iovList None 0; Some res }"

text \<open>Moving an iterator forward (\<open>detail/ucIoVecImpl.h\<close>), on the store.\<close>

record store_iter =
  siElem :: "nat option"
  siOffset :: nat

partial_function (option) store_forward_loop ::
  "iov_store \<Rightarrow> nat option \<Rightarrow> nat \<Rightarrow> nat \<Rightarrow> (nat option \<times> nat \<times> nat) option" where
  "store_forward_loop st iovList offset res =
     (case iovList of
        None \<Rightarrow> Some (None, offset, res)
      | Some p \<Rightarrow>
          do { n \<leftarrow> nodes st p;
               if offset < nodeLen n then Some (Some p, offset, res + offset)
               else store_forward_loop st (nodeNext n) (offset - nodeLen n) (res + nodeLen n) })"

declare store_forward_loop.simps [code]

definition store_forward :: "iov_store \<Rightarrow> store_iter \<Rightarrow> nat \<Rightarrow> (store_iter \<times> nat) option" where
  "store_forward st iovIter offset =
     (case siElem iovIter of
        None \<Rightarrow> Some (iovIter, 0)
      | Some p \<Rightarrow>
          do { n \<leftarrow> nodes st p;
               let tmp = nodeLen n - siOffset iovIter;
               if tmp > offset then Some (iovIter\<lparr>siOffset := siOffset iovIter + offset\<rparr>, offset)
               else
                 do { (iovList, offset, res) \<leftarrow> store_forward_loop st (nodeNext n) (offset - tmp) tmp;
                      Some (\<lparr>siElem = iovList, siOffset = offset\<rparr>, res) } })"

section \<open>Doubly linked lists\<close>

fun linked :: "iov_store \<Rightarrow> nat option \<Rightarrow> nat option \<Rightarrow> nat list \<Rightarrow> bool" where
  "linked st prev start [] \<longleftrightarrow> start = None"
| "linked st prev start (x # xs) \<longleftrightarrow>
     start = Some x \<and> (\<exists>n. nodes st x = Some n \<and> nodePrev n = prev \<and> linked st (Some x) (nodeNext n) xs)"

definition node_bytes :: "iov_store \<Rightarrow> nat \<Rightarrow> u8 list" where
  "node_bytes st x = (case nodes st x of None \<Rightarrow> [] | Some n \<Rightarrow> map (ram st) [nodePtr n..<nodePtr n + nodeLen n])"

definition list_bytes :: "iov_store \<Rightarrow> nat list \<Rightarrow> u8 list" where
  "list_bytes st xs = concat (map (node_bytes st) xs)"

lemma list_bytes_simps [simp]:
  "list_bytes st [] = []" "list_bytes st (x # xs) = node_bytes st x @ list_bytes st xs"
  by (simp_all add: list_bytes_def)

lemma linked_cong:
  "(\<And>x. x \<in> set xs \<Longrightarrow> nodes st' x = nodes st x) \<Longrightarrow> linked st' prev start xs = linked st prev start xs"
  by (induction xs arbitrary: prev start) auto

lemma linked_unique: "linked st q start xs \<Longrightarrow> linked st q' start ys \<Longrightarrow> xs = ys"
proof (induction xs arbitrary: q q' start ys)
  case Nil
  then show ?case by (cases ys) auto
next
  case (Cons x xs)
  then show ?case by (cases ys) auto
qed

lemma linked_append: "linked st q start (as @ bs) \<Longrightarrow> \<exists>q' start'. linked st q' start' bs"
  by (induction as arbitrary: q start) auto

lemma linked_distinct: "linked st q start xs \<Longrightarrow> distinct xs"
proof (induction xs arbitrary: q start)
  case Nil
  then show ?case by simp
next
  case (Cons x xs)
  then obtain n where n: "nodes st x = Some n" "linked st (Some x) (nodeNext n) xs" by auto
  have "x \<notin> set xs"
  proof
    assume "x \<in> set xs"
    then obtain as bs where xs: "xs = as @ x # bs" by (meson split_list)
    from linked_append [of st "Some x" "nodeNext n" as "x # bs"] n(2) xs
    have "linked st (Some x) (nodeNext n) bs" using n(1) by auto
    from linked_unique [OF n(2) this] show False using xs by simp
  qed
  then show ?case using Cons.IH [OF n(2)] by simp
qed

lemma iov_walk_linked:
  "linked st q start xs \<Longrightarrow> iov_walk st start prev m =
     Some (if xs = [] then prev else Some (last xs), m + length (list_bytes st xs))"
proof (induction xs arbitrary: q start prev m)
  case Nil
  then show ?case by (subst iov_walk.simps) simp
next
  case (Cons x xs)
  then obtain n where n: "start = Some x" "nodes st x = Some n" "linked st (Some x) (nodeNext n) xs" by auto
  show ?case using Cons.IH [OF n(3)] n(1,2) by (subst iov_walk.simps) (simp add: node_bytes_def)
qed

lemma total_length_linked:
  "linked st q start xs \<Longrightarrow> whip6_iovGetTotalLength_store st start = Some (length (list_bytes st xs))"
  by (simp add: whip6_iovGetTotalLength_store_def iov_walk_linked)

lemma chunk_put_all_eq:
  "nodes st p = Some n \<Longrightarrow> i + length bs \<le> nodeLen n \<Longrightarrow>
   \<exists>r. chunk_put_all st p i bs = Some (st\<lparr>ram := r\<rparr>) \<and>
     (\<forall>a. r a = (if nodePtr n + i \<le> a \<and> a < nodePtr n + i + length bs then bs ! (a - nodePtr n - i) else ram st a))"
proof (induction bs arbitrary: st i)
  case Nil
  then show ?case by (auto intro!: exI [of _ "ram st"])
next
  case (Cons b bs)
  let ?st = "st\<lparr>ram := (ram st)(nodePtr n + i := b)\<rparr>"
  have c: "chunk_put st p i b = Some ?st" using Cons.prems by (simp add: chunk_put_def)
  from Cons.IH [of ?st "i + 1"] Cons.prems obtain r where r: "chunk_put_all ?st p (i + 1) bs = Some (?st\<lparr>ram := r\<rparr>)"
    "\<forall>a. r a = (if nodePtr n + (i + 1) \<le> a \<and> a < nodePtr n + (i + 1) + length bs
       then bs ! (a - nodePtr n - (i + 1)) else ram ?st a)" by auto
  have "r a = (if nodePtr n + i \<le> a \<and> a < nodePtr n + i + length (b # bs)
      then (b # bs) ! (a - nodePtr n - i) else ram st a)" for a
    unfolding r(2) [rule_format] by (auto simp: nth_Cons')
  then show ?case using c r(1) by (auto intro!: exI [of _ r])
qed

text \<open>A list and a position in it; the bytes from there on.\<close>

definition rest_bytes :: "iov_store \<Rightarrow> nat \<Rightarrow> nat \<Rightarrow> nat list \<Rightarrow> u8 list" where
  "rest_bytes st c off zs = drop off (node_bytes st c) @ list_bytes st zs"

lemma node_bytes_length: "nodes st x = Some n \<Longrightarrow> length (node_bytes st x) = nodeLen n"
  by (simp add: node_bytes_def)

lemma store_forward_loop_eq:
  "linked st q start zs \<Longrightarrow>
   (if length (list_bytes st zs) \<le> off
    then store_forward_loop st start off res = Some (None, off - length (list_bytes st zs), res + length (list_bytes st zs))
    else \<exists>as c bs off'. zs = as @ c # bs \<and> store_forward_loop st start off res = Some (Some c, off', res + off) \<and>
      off' < length (node_bytes st c) \<and> rest_bytes st c off' bs = drop off (list_bytes st zs))"
proof (induction zs arbitrary: q start off res)
  case Nil
  then show ?case by (subst store_forward_loop.simps) simp
next
  case (Cons z zs)
  then obtain n where n: "start = Some z" "nodes st z = Some n" "linked st (Some z) (nodeNext n) zs" by auto
  note len = node_bytes_length [OF n(2)]
  show ?case
  proof (cases "off < nodeLen n")
    case True
    have "store_forward_loop st start off res = Some (Some z, off, res + off)"
      using n True by (subst store_forward_loop.simps) simp
    then have "z # zs = [] @ z # zs \<and> store_forward_loop st start off res = Some (Some z, off, res + off) \<and>
        off < length (node_bytes st z) \<and> rest_bytes st z off zs = drop off (list_bytes st (z # zs))"
      using True len by (simp add: rest_bytes_def)
    moreover have "\<not> length (list_bytes st (z # zs)) \<le> off" using True len by simp
    ultimately show ?thesis by (metis (no_types))
  next
    case False
    have step: "store_forward_loop st start off res = store_forward_loop st (nodeNext n) (off - nodeLen n) (res + nodeLen n)"
      using n False by (subst store_forward_loop.simps) simp
    show ?thesis
    proof (cases "length (list_bytes st (z # zs)) \<le> off")
      case True
      then show ?thesis using Cons.IH [OF n(3), of "off - nodeLen n" "res + nodeLen n"] len False unfolding step
        by (simp add: le_diff_conv add.commute add.left_commute)
    next
      case no: False
      then have "\<not> length (list_bytes st zs) \<le> off - nodeLen n" using len False by simp
      with Cons.IH [OF n(3), of "off - nodeLen n" "res + nodeLen n"] obtain as c bs off' where
        r: "zs = as @ c # bs" "store_forward_loop st (nodeNext n) (off - nodeLen n) (res + nodeLen n) = Some (Some c, off', res + off)"
          "off' < length (node_bytes st c)" "rest_bytes st c off' bs = drop (off - nodeLen n) (list_bytes st zs)"
        using False by auto
      have "z # zs = (z # as) @ c # bs" using r(1) by simp
      moreover have "rest_bytes st c off' bs = drop off (list_bytes st (z # zs))" using r(4) len False by simp
      ultimately show ?thesis using no r(2,3) unfolding step by metis
    qed
  qed
qed

text \<open>Moving forward within what is left: the iterator ends in the list, or behind it.\<close>

lemma store_forward_eq:
  assumes "linked st q (Some c) (c # zs)" "off \<le> length (node_bytes st c)" "k \<le> length (rest_bytes st c off zs)"
  shows "\<exists>it. store_forward st \<lparr>siElem = Some c, siOffset = off\<rparr> k = Some (it, k) \<and>
    (case siElem it of
       None \<Rightarrow> k = length (rest_bytes st c off zs)
     | Some c' \<Rightarrow> \<exists>as bs. c # zs = as @ c' # bs \<and> siOffset it < length (node_bytes st c') \<and>
         rest_bytes st c' (siOffset it) bs = drop k (rest_bytes st c off zs))"
proof -
  from assms(1) obtain n where n: "nodes st c = Some n" "linked st (Some c) (nodeNext n) zs" by auto
  note len = node_bytes_length [OF n(1)]
  show ?thesis
  proof (cases "nodeLen n - off > k")
    case True
    let ?it = "\<lparr>siElem = Some c, siOffset = off + k\<rparr>"
    have "store_forward st \<lparr>siElem = Some c, siOffset = off\<rparr> k = Some (?it, k)"
      using True n(1) by (simp add: store_forward_def)
    moreover have "c # zs = [] @ c # zs \<and> off + k < length (node_bytes st c) \<and>
        rest_bytes st c (off + k) zs = drop k (rest_bytes st c off zs)"
      using True len by (simp add: rest_bytes_def add.commute)
    ultimately show ?thesis by (intro exI [of _ ?it]) (auto intro: exI [of _ "[]"])
  next
    case False
    let ?d = "nodeLen n - off"
    have st: "store_forward st \<lparr>siElem = Some c, siOffset = off\<rparr> k =
        map_option (\<lambda>(l, o', r). (\<lparr>siElem = l, siOffset = o'\<rparr>, r)) (store_forward_loop st (nodeNext n) (k - ?d) ?d)"
      using False n(1) by (auto simp: store_forward_def Let_def map_option_case split: option.splits bind_splits)
    show ?thesis
    proof (cases "length (list_bytes st zs) \<le> k - ?d")
      case True
      then have k: "?d + length (list_bytes st zs) = k" using assms(3) len False by (simp add: rest_bytes_def)
      let ?it = "\<lparr>siElem = None, siOffset = k - ?d - length (list_bytes st zs)\<rparr>"
      have "store_forward_loop st (nodeNext n) (k - ?d) ?d =
          Some (None, k - ?d - length (list_bytes st zs), ?d + length (list_bytes st zs))"
        using store_forward_loop_eq [OF n(2), of "k - ?d" ?d] True by simp
      then have "store_forward st \<lparr>siElem = Some c, siOffset = off\<rparr> k = Some (?it, k)" unfolding st k by simp
      moreover have "k = length (rest_bytes st c off zs)" using k len by (simp add: rest_bytes_def)
      ultimately show ?thesis by (intro exI [of _ ?it]) simp
    next
      case no: False
      with store_forward_loop_eq [OF n(2), of "k - ?d" ?d] obtain as c' bs off' where
        r: "zs = as @ c' # bs" "store_forward_loop st (nodeNext n) (k - ?d) ?d = Some (Some c', off', ?d + (k - ?d))"
          "off' < length (node_bytes st c')" "rest_bytes st c' off' bs = drop (k - ?d) (list_bytes st zs)" by auto
      let ?it = "\<lparr>siElem = Some c', siOffset = off'\<rparr>"
      have "rest_bytes st c' off' bs = drop k (rest_bytes st c off zs)"
        using r(4) len False by (simp add: rest_bytes_def)
      then have "\<exists>as bs. c # zs = as @ c' # bs \<and> off' < length (node_bytes st c') \<and>
          rest_bytes st c' off' bs = drop k (rest_bytes st c off zs)"
        using r(1,3) by (intro exI [of _ "c # as"] exI [of _ bs]) simp
      moreover have "store_forward st \<lparr>siElem = Some c, siOffset = off\<rparr> k = Some (?it, k)"
        using r(2) False by (simp add: st)
      ultimately show ?thesis by (intro exI [of _ ?it]) simp
    qed
  qed
qed

text \<open>Moving forward past what is left.\<close>

lemma store_forward_short:
  assumes "linked st q (Some c) (c # zs)" "off \<le> length (node_bytes st c)" "length (rest_bytes st c off zs) < k"
  shows "\<exists>it. store_forward st \<lparr>siElem = Some c, siOffset = off\<rparr> k = Some (it, length (rest_bytes st c off zs))"
proof -
  from assms(1) obtain n where n: "nodes st c = Some n" "linked st (Some c) (nodeNext n) zs" by auto
  note len = node_bytes_length [OF n(1)]
  let ?d = "nodeLen n - off"
  have "\<not> k < ?d" "length (list_bytes st zs) \<le> k - ?d" using assms(3) len by (simp_all add: rest_bytes_def)
  moreover from this(2) have "store_forward_loop st (nodeNext n) (k - ?d) ?d =
      Some (None, k - ?d - length (list_bytes st zs), ?d + length (list_bytes st zs))"
    using store_forward_loop_eq [OF n(2), of "k - ?d" ?d] by simp
  moreover have "length (rest_bytes st c off zs) = ?d + length (list_bytes st zs)" using len by (simp add: rest_bytes_def)
  ultimately have "store_forward st \<lparr>siElem = Some c, siOffset = off\<rparr> k =
      Some (\<lparr>siElem = None, siOffset = k - ?d - length (list_bytes st zs)\<rparr>, length (rest_bytes st c off zs))"
    using n(1) by (simp add: store_forward_def Let_def)
  then show ?thesis by blast
qed

section \<open>Packets\<close>

text \<open>An IPv6 packet (\<open>ucIpv6PacketTypes.h\<close>) with its payload by address.\<close>

record stored_packet =
  spAddr :: nat
  spHeader :: ipv6_basic_header
  spFirst :: "nat option"
  spLast :: "nat option"

definition WHIP6_IPV6_VERSION_NUMBER :: u8 where "WHIP6_IPV6_VERSION_NUMBER = 6"
definition WHIP6_IPV6_DEFAULT_HOP_LIMIT :: u8 where "WHIP6_IPV6_DEFAULT_HOP_LIMIT = 64"
definition WHIP6_IANA_IPV6_UDP :: u8 where "WHIP6_IANA_IPV6_UDP = 17"
definition WHIP6_IANA_IPV6_ICMP :: u8 where "WHIP6_IANA_IPV6_ICMP = 58"

lemma header_length_set: "header_ok h \<Longrightarrow> whip6_ipv6BasicHeaderGetPayloadLength (whip6_ipv6BasicHeaderSetPayloadLength h pl) = pl"
  by (auto simp: header_ok_def header_defs length_Suc_conv numeral_2_eq_2)

text \<open>The fields that every packet the stack sends sets first, and the rest of the header.\<close>

lemma built_header:
  fixes hdr :: ipv6_basic_header and pl :: u16
  assumes "header_ok hdr" "length src = 16" "length dst = 16"
  defines "h4 \<equiv> whip6_ipv6BasicHeaderSetPayloadLength (whip6_ipv6BasicHeaderSetFlowLabel
    (whip6_ipv6BasicHeaderSetTrafficClass (whip6_ipv6BasicHeaderSetVersion hdr WHIP6_IPV6_VERSION_NUMBER) 0) 0) pl"
  shows "header_ok h4"
    "\<exists>h. h = h4\<lparr>nextHdrByte := nh, hopLimitByte := hl, hdrSrcAddr := src, hdrDstAddr := dst\<rparr> \<and> header_ok h \<and>
      whip6_ipv6BasicHeaderGetVersion h = 6 \<and> whip6_ipv6BasicHeaderGetTrafficClass h = 0 \<and>
      whip6_ipv6BasicHeaderGetFlowLabel h = 0 \<and> whip6_ipv6BasicHeaderGetPayloadLength h = pl \<and>
      whip6_ipv6BasicHeaderGetNextHeader h = nh \<and> whip6_ipv6BasicHeaderGetHopLimit h = hl \<and>
      hdrSrcAddr h = src \<and> hdrDstAddr h = dst"
proof -
  define h1 where "h1 = whip6_ipv6BasicHeaderSetVersion hdr WHIP6_IPV6_VERSION_NUMBER"
  define h2 where "h2 = whip6_ipv6BasicHeaderSetTrafficClass h1 0"
  define h3 where "h3 = whip6_ipv6BasicHeaderSetFlowLabel h2 0"
  have h4: "h4 = whip6_ipv6BasicHeaderSetPayloadLength h3 pl" by (simp add: h4_def h3_def h2_def h1_def)
  have ok: "header_ok h1" "header_ok h2" "header_ok h3" "header_ok h4"
    unfolding h4 h3_def h2_def h1_def using assms(1) by (simp_all add: setters_ok)
  let ?h = "h4\<lparr>nextHdrByte := nh, hopLimitByte := hl, hdrSrcAddr := src, hdrDstAddr := dst\<rparr>"
  have "header_ok ?h" using ok(4) assms(2,3) by (simp add: header_ok_def)
  moreover have "verTcFl ?h = verTcFl h3" by (simp add: h4 whip6_ipv6BasicHeaderSetPayloadLength_def)
  moreover have "whip6_ipv6BasicHeaderGetVersion h3 = 6" "whip6_ipv6BasicHeaderGetTrafficClass h3 = 0"
    "whip6_ipv6BasicHeaderGetFlowLabel h3 = 0"
    using ok assms(1) by (simp_all add: h3_def h2_def h1_def flow_label_set traffic_class_set version_set
        WHIP6_IPV6_VERSION_NUMBER_def)
  moreover have "whip6_ipv6BasicHeaderGetPayloadLength ?h = pl"
    using header_length_set [OF ok(3), of pl] by (simp add: h4 whip6_ipv6BasicHeaderGetPayloadLength_def)
  ultimately show "\<exists>h. h = ?h \<and> header_ok h \<and>
      whip6_ipv6BasicHeaderGetVersion h = 6 \<and> whip6_ipv6BasicHeaderGetTrafficClass h = 0 \<and>
      whip6_ipv6BasicHeaderGetFlowLabel h = 0 \<and> whip6_ipv6BasicHeaderGetPayloadLength h = pl \<and>
      whip6_ipv6BasicHeaderGetNextHeader h = nh \<and> whip6_ipv6BasicHeaderGetHopLimit h = hl \<and>
      hdrSrcAddr h = src \<and> hdrDstAddr h = dst"
    by (intro exI [of _ ?h]) (simp add: whip6_ipv6BasicHeaderGetVersion_def whip6_ipv6BasicHeaderGetTrafficClass_def
        whip6_ipv6BasicHeaderGetFlowLabel_def whip6_ipv6BasicHeaderGetNextHeader_def
        whip6_ipv6BasicHeaderGetHopLimit_def)
  show "header_ok h4" by (rule ok)
qed

end
