(* ===== verification/Udp_Header.thy ===== *)
theory Udp_Header
  imports Base_IoVecStore Ipv6_Address
begin

text \<open>
  UDP datagrams in IPv6 packets: \<open>microc/include/udp/ucUdpHeaderManipulation.h\<close>, \<open>ucUdpBasicTypes.h\<close>
  and \<open>microc/src/udp/ucUdpHeaderManipulation.c\<close>. The payload of the caller is not copied: its first
  node is linked behind the node with the UDP header, and unlinked again when the packet has been sent.

  The allocator of packet prototypes is a pair of functions on its own state, as in
  \<open>ucExternalIpv6Allocators.h\<close>.
\<close>

record udp_socket_addr =
  sockIpv6Addr :: ipv6_addr
  udpPortNo :: u16

definition UDP_HEADER_SIZE :: nat where "UDP_HEADER_SIZE = 8"

section \<open>The header in its bytes\<close>

definition whip6_udpHeaderGetSrcPort :: "u8 list \<Rightarrow> u16" where
  "whip6_udpHeaderGetSrcPort hdr = u16_join (hdr ! 0) (hdr ! 1)"
definition whip6_udpHeaderGetDstPort :: "u8 list \<Rightarrow> u16" where
  "whip6_udpHeaderGetDstPort hdr = u16_join (hdr ! 2) (hdr ! 3)"
definition whip6_udpHeaderGetLength :: "u8 list \<Rightarrow> u16" where
  "whip6_udpHeaderGetLength hdr = u16_join (hdr ! 4) (hdr ! 5)"
definition whip6_udpHeaderGetChecksum :: "u8 list \<Rightarrow> u16" where
  "whip6_udpHeaderGetChecksum hdr = u16_join (hdr ! 6) (hdr ! 7)"
definition whip6_udpHeaderSetSrcPort :: "u8 list \<Rightarrow> u16 \<Rightarrow> u8 list" where
  "whip6_udpHeaderSetSrcPort hdr port = hdr[0 := u16_hi port, 1 := u16_lo port]"
definition whip6_udpHeaderSetDstPort :: "u8 list \<Rightarrow> u16 \<Rightarrow> u8 list" where
  "whip6_udpHeaderSetDstPort hdr port = hdr[2 := u16_hi port, 3 := u16_lo port]"
definition whip6_udpHeaderSetLength :: "u8 list \<Rightarrow> u16 \<Rightarrow> u8 list" where
  "whip6_udpHeaderSetLength hdr len = hdr[4 := u16_hi len, 5 := u16_lo len]"
definition whip6_udpHeaderSetChecksum :: "u8 list \<Rightarrow> u16 \<Rightarrow> u8 list" where
  "whip6_udpHeaderSetChecksum hdr cs = hdr[6 := u16_hi cs, 7 := u16_lo cs]"

section \<open>Outgoing datagrams\<close>

text \<open>The fields of the IPv6 header.\<close>

definition udp_ipv6_header :: "ipv6_basic_header \<Rightarrow> nat \<Rightarrow> ipv6_addr \<Rightarrow> ipv6_addr \<Rightarrow> ipv6_basic_header option" where
  "udp_ipv6_header ipv6Hdr payloadLen src dst =
     do { let ipv6Hdr = whip6_ipv6BasicHeaderSetVersion ipv6Hdr WHIP6_IPV6_VERSION_NUMBER;
          let ipv6Hdr = whip6_ipv6BasicHeaderSetTrafficClass ipv6Hdr 0;
          let ipv6Hdr = whip6_ipv6BasicHeaderSetFlowLabel ipv6Hdr 0;
          let ipv6Hdr = whip6_ipv6BasicHeaderSetPayloadLength ipv6Hdr (of_nat payloadLen);
          let ipv6Hdr = whip6_ipv6BasicHeaderSetNextHeader ipv6Hdr WHIP6_IANA_IPV6_UDP;
          let ipv6Hdr = whip6_ipv6BasicHeaderSetHopLimit ipv6Hdr WHIP6_IPV6_DEFAULT_HOP_LIMIT;
          s \<leftarrow> whip6_shortMemCpy src 0 (hdrSrcAddr ipv6Hdr) 0 16;
          let ipv6Hdr = ipv6Hdr\<lparr>hdrSrcAddr := s\<rparr>;
          d \<leftarrow> whip6_shortMemCpy dst 0 (hdrDstAddr ipv6Hdr) 0 16;
          Some (ipv6Hdr\<lparr>hdrDstAddr := d\<rparr>) }"

definition whip6_udpWrapDataIntoOutgoingIpv6PacketCarryingUdpDatagram ::
  "('s \<Rightarrow> 's \<times> stored_packet option) \<Rightarrow> ('s \<Rightarrow> stored_packet \<Rightarrow> 's) \<Rightarrow> 's \<Rightarrow> iov_store \<Rightarrow>
   nat option \<Rightarrow> nat \<Rightarrow> nat \<Rightarrow> udp_socket_addr \<Rightarrow> udp_socket_addr \<Rightarrow> ('s \<times> iov_store \<times> stored_packet option) option" where
  "whip6_udpWrapDataIntoOutgoingIpv6PacketCarryingUdpDatagram allocPacket freePacket s st payloadIov payloadLen
       udpHdrIov srcSockAddr dstSockAddr =
     do { hdrNode \<leftarrow> nodes st udpHdrIov;
          if nodeLen hdrNode \<noteq> UDP_HEADER_SIZE then Some (s, st, None)
          else
            do { (prevIov, maxPayload) \<leftarrow> iov_walk st payloadIov None 0;
                 if maxPayload < payloadLen then Some (s, st, None)
                 else
                   case allocPacket s of
                     (s, None) \<Rightarrow> Some (s, st, None)
                   | (s, Some packet) \<Rightarrow>
                       do { let packet = packet\<lparr>spFirst := Some udpHdrIov, spLast := prevIov\<rparr>;
                            r \<leftarrow> (case payloadIov of
                                    None \<Rightarrow> Some (st, Some (packet\<lparr>spLast := Some udpHdrIov\<rparr>))
                                  | Some p \<Rightarrow>
                                      do { n \<leftarrow> nodes st p;
                                           if nodePrev n \<noteq> None then Some (st, None)
                                           else do { st \<leftarrow> node_put st p (nodePrev_update (\<lambda>_. Some udpHdrIov));
                                                     Some (st, Some packet) } });
                            case r of
                              (st, None) \<Rightarrow> Some (freePacket s packet, st, None)
                            | (st, Some packet) \<Rightarrow>
                                do { st \<leftarrow> node_put st udpHdrIov (\<lambda>n. n\<lparr>nodeNext := payloadIov, nodePrev := None\<rparr>);
                                     let payloadLen = payloadLen + UDP_HEADER_SIZE;
                                     ipv6Hdr \<leftarrow> udp_ipv6_header (spHeader packet) payloadLen
                                       (sockIpv6Addr srcSockAddr) (sockIpv6Addr dstSockAddr);
                                     st \<leftarrow> chunk_put_all st udpHdrIov 0
                                       [u16_hi (udpPortNo srcSockAddr), u16_lo (udpPortNo srcSockAddr),
                                        u16_hi (udpPortNo dstSockAddr), u16_lo (udpPortNo dstSockAddr),
                                        u16_hi (of_nat payloadLen), u16_lo (of_nat payloadLen), 0, 0];
                                     Some (s, st, Some (packet\<lparr>spHeader := ipv6Hdr\<rparr>)) } } } }"

text \<open>On success the payload and its length; the error code is the \<open>None\<close> of the result.\<close>

definition whip6_udpUnwrapDataFromOutgoingIpv6PacketCarryingUdpDatagram ::
  "('s \<Rightarrow> stored_packet \<Rightarrow> 's) \<Rightarrow> 's \<Rightarrow> iov_store \<Rightarrow> stored_packet option \<Rightarrow> nat option \<Rightarrow>
   ('s \<times> iov_store \<times> (nat option \<times> nat) option) option" where
  "whip6_udpUnwrapDataFromOutgoingIpv6PacketCarryingUdpDatagram freePacket s st packet udpHdrIov =
     (case (packet, udpHdrIov) of
        (Some packet, Some h) \<Rightarrow>
          do { let payloadLen = unat (whip6_ipv6BasicHeaderGetPayloadLength (spHeader packet));
               refused \<leftarrow>
                 (if payloadLen < UDP_HEADER_SIZE \<or>
                     whip6_ipv6BasicHeaderGetNextHeader (spHeader packet) \<noteq> WHIP6_IANA_IPV6_UDP \<or>
                     spFirst packet \<noteq> Some h
                  then Some True
                  else do { hdrNode \<leftarrow> nodes st h; Some (nodeLen hdrNode \<noteq> UDP_HEADER_SIZE) });
               if refused then Some (s, st, None)
               else
                 do { hdrNode \<leftarrow> nodes st h;
                      let payloadLen = payloadLen - UDP_HEADER_SIZE;
                      let payloadIov = nodeNext hdrNode;
                      total \<leftarrow> whip6_iovGetTotalLength_store st payloadIov;
                      if total < payloadLen then Some (s, st, None)
                      else
                        do { st \<leftarrow> (case payloadIov of
                                      None \<Rightarrow> Some st
                                    | Some p \<Rightarrow>
                                        do { st \<leftarrow> node_put st p (nodePrev_update (\<lambda>_. None));
                                             node_put st h (nodeNext_update (\<lambda>_. None)) });
                             Some (freePacket s packet, st, Some (payloadIov, payloadLen)) } } }
      | _ \<Rightarrow> Some (s, st, None))"

section \<open>Incoming datagrams\<close>

definition whip6_udpStripeDataFromIncomingIpv6PacketCarryingUdpDatagram ::
  "iov_store \<Rightarrow> store_iter \<Rightarrow> nat \<Rightarrow> (iov_store \<times> store_iter \<times> nat option option) option" where
  "whip6_udpStripeDataFromIncomingIpv6PacketCarryingUdpDatagram st iovIter iovSpare =
     do { (iovIter, moved) \<leftarrow> store_forward st iovIter UDP_HEADER_SIZE;
          if moved \<noteq> UDP_HEADER_SIZE then Some (st, iovIter, None)
          else
            case siElem iovIter of
              None \<Rightarrow> Some (st, iovIter, Some None)
            | Some iovOld \<Rightarrow>
                do { old \<leftarrow> nodes st iovOld;
                     let offOld = siOffset iovIter;
                     st \<leftarrow> node_put st iovSpare (\<lambda>_. \<lparr>nodePtr = nodePtr old + offOld, nodeLen = nodeLen old - offOld,
                       nodeNext = nodeNext old, nodePrev = None\<rparr>);
                     st \<leftarrow> (case nodeNext old of
                              None \<Rightarrow> Some st
                            | Some q \<Rightarrow> node_put st q (nodePrev_update (\<lambda>_. Some iovSpare)));
                     Some (st, iovIter, Some (Some iovSpare)) } }"

definition whip6_udpRestoreDataToIncomingIpv6PacketCarryingUdpDatagram ::
  "iov_store \<Rightarrow> store_iter \<Rightarrow> nat option \<Rightarrow> nat \<Rightarrow> (iov_store \<times> bool) option" where
  "whip6_udpRestoreDataToIncomingIpv6PacketCarryingUdpDatagram st iovIter payloadIov iovSpare =
     (case siElem iovIter of
        None \<Rightarrow> Some (st, payloadIov = None)
      | Some iovOld \<Rightarrow>
          if payloadIov \<noteq> Some iovSpare then Some (st, False)
          else
            do { spare \<leftarrow> nodes st iovSpare;
                 st \<leftarrow> (case nodeNext spare of
                          None \<Rightarrow> Some st
                        | Some q \<Rightarrow> node_put st q (nodePrev_update (\<lambda>_. Some iovOld)));
                 st \<leftarrow> node_put st iovSpare (\<lambda>_. \<lparr>nodePtr = 0, nodeLen = 0, nodeNext = None, nodePrev = None\<rparr>);
                 Some (st, True) })"

section \<open>The outgoing path\<close>

lemma udp_ipv6_header_fields:
  assumes "header_ok hdr" "ipv6_addr_ok src" "ipv6_addr_ok dst"
  shows "\<exists>hdr'. udp_ipv6_header hdr n src dst = Some hdr' \<and> header_ok hdr' \<and>
    whip6_ipv6BasicHeaderGetVersion hdr' = 6 \<and> whip6_ipv6BasicHeaderGetTrafficClass hdr' = 0 \<and>
    whip6_ipv6BasicHeaderGetFlowLabel hdr' = 0 \<and> whip6_ipv6BasicHeaderGetPayloadLength hdr' = of_nat n \<and>
    whip6_ipv6BasicHeaderGetNextHeader hdr' = WHIP6_IANA_IPV6_UDP \<and>
    whip6_ipv6BasicHeaderGetHopLimit hdr' = WHIP6_IPV6_DEFAULT_HOP_LIMIT \<and>
    hdrSrcAddr hdr' = src \<and> hdrDstAddr hdr' = dst"
proof -
  note b = built_header [OF assms(1), where pl = "of_nat n"]
  let ?h4 = "whip6_ipv6BasicHeaderSetPayloadLength (whip6_ipv6BasicHeaderSetFlowLabel
    (whip6_ipv6BasicHeaderSetTrafficClass (whip6_ipv6BasicHeaderSetVersion hdr WHIP6_IPV6_VERSION_NUMBER) 0) 0) (of_nat n)"
  have l: "length src = 16" "length dst = 16" using assms(2,3) by (simp_all add: ipv6_addr_ok_def)
  have "udp_ipv6_header hdr n src dst = Some (?h4\<lparr>nextHdrByte := WHIP6_IANA_IPV6_UDP,
      hopLimitByte := WHIP6_IPV6_DEFAULT_HOP_LIMIT, hdrSrcAddr := src, hdrDstAddr := dst\<rparr>)"
    using b(1) [OF l] l
    by (simp add: udp_ipv6_header_def Let_def whip6_ipv6BasicHeaderSetNextHeader_def header_ok_def
        whip6_ipv6BasicHeaderSetHopLimit_def shortMemCpy_eq mem_blit_def)
  with b(2) [OF l, where nh = WHIP6_IANA_IPV6_UDP and hl = WHIP6_IPV6_DEFAULT_HOP_LIMIT] show ?thesis by blast
qed

text \<open>The nodes after the header node has been put before the list.\<close>

definition pushed :: "(nat \<rightharpoonup> iov_node) \<Rightarrow> nat option \<Rightarrow> nat \<Rightarrow> iov_node \<Rightarrow> (nat \<rightharpoonup> iov_node)" where
  "pushed N start h hn =
     (case start of None \<Rightarrow> N | Some p \<Rightarrow> N(p := map_option (nodePrev_update (\<lambda>_. Some h)) (N p)))
       (h \<mapsto> hn\<lparr>nodeNext := start, nodePrev := None\<rparr>)"

definition udp_bytes :: "udp_socket_addr \<Rightarrow> udp_socket_addr \<Rightarrow> nat \<Rightarrow> u8 list" where
  "udp_bytes src dst n =
     [u16_hi (udpPortNo src), u16_lo (udpPortNo src), u16_hi (udpPortNo dst), u16_lo (udpPortNo dst),
      u16_hi (of_nat n), u16_lo (of_nat n), 0, 0]"

lemma pushed_linked:
  assumes "linked st None start xs" "h \<notin> set xs" "distinct xs"
  shows "linked (st\<lparr>nodes := pushed (nodes st) start h hn, ram := r\<rparr>) None (Some h) (h # xs)"
proof (cases xs)
  case Nil
  then show ?thesis using assms by (simp add: pushed_def)
next
  case (Cons p ps)
  then obtain n where n: "start = Some p" "nodes st p = Some n" "linked st (Some p) (nodeNext n) ps" "h \<noteq> p"
    using assms by auto
  have "linked (st\<lparr>nodes := pushed (nodes st) start h hn, ram := r\<rparr>) (Some p) (nodeNext n) ps =
      linked st (Some p) (nodeNext n) ps"
    using assms(2,3) Cons n(1) by (intro linked_cong) (auto simp: pushed_def)
  then show ?thesis using n Cons by (auto simp: pushed_def)
qed

lemma udp_wrap_eq:
  assumes "linked st None start xs" "h \<notin> set xs" "nodes st h = Some hn" "nodeLen hn = UDP_HEADER_SIZE"
    "n \<le> length (list_bytes st xs)" "allocPacket s = (s', Some pkt)"
    "udp_ipv6_header (spHeader pkt) (n + UDP_HEADER_SIZE) (sockIpv6Addr src) (sockIpv6Addr dst) = Some hdr"
  shows "\<exists>r. whip6_udpWrapDataIntoOutgoingIpv6PacketCarryingUdpDatagram allocPacket freePacket s st start n h src dst =
      Some (s', st\<lparr>nodes := pushed (nodes st) start h hn, ram := r\<rparr>,
        Some (pkt\<lparr>spFirst := Some h, spLast := Some (last (h # xs)), spHeader := hdr\<rparr>)) \<and>
    (\<forall>a. r a = (if nodePtr hn \<le> a \<and> a < nodePtr hn + 8
       then udp_bytes src dst (n + UDP_HEADER_SIZE) ! (a - nodePtr hn) else ram st a))"
proof -
  note walk = iov_walk_linked [OF assms(1), of None 0]
  let ?st = "st\<lparr>nodes := pushed (nodes st) start h hn\<rparr>"
  have "nodes ?st h = Some (hn\<lparr>nodeNext := start, nodePrev := None\<rparr>)" by (simp add: pushed_def)
  from chunk_put_all_eq [OF this, of 0 "udp_bytes src dst (n + UDP_HEADER_SIZE)"] assms(4)
  obtain r where r: "chunk_put_all ?st h 0 (udp_bytes src dst (n + UDP_HEADER_SIZE)) = Some (?st\<lparr>ram := r\<rparr>)"
    "\<forall>a. r a = (if nodePtr hn \<le> a \<and> a < nodePtr hn + 8
       then udp_bytes src dst (n + UDP_HEADER_SIZE) ! (a - nodePtr hn) else ram st a)"
    by (auto simp: udp_bytes_def UDP_HEADER_SIZE_def simp del: chunk_put_all.simps)
  have "whip6_udpWrapDataIntoOutgoingIpv6PacketCarryingUdpDatagram allocPacket freePacket s st start n h src dst =
      Some (s', ?st\<lparr>ram := r\<rparr>, Some (pkt\<lparr>spFirst := Some h, spLast := Some (last (h # xs)), spHeader := hdr\<rparr>))"
  proof (cases xs)
    case Nil
    then have "start = None" using assms(1) by simp
    then show ?thesis using Nil assms(3-7) walk r(1)
      by (simp add: whip6_udpWrapDataIntoOutgoingIpv6PacketCarryingUdpDatagram_def node_put_def pushed_def
          udp_bytes_def Let_def del: chunk_put_all.simps)
  next
    case (Cons p ps)
    then obtain m where m: "start = Some p" "nodes st p = Some m" "nodePrev m = None" "h \<noteq> p"
      using assms(1,2) by auto
    then show ?thesis using Cons assms(3-7) walk r(1)
      by (simp add: whip6_udpWrapDataIntoOutgoingIpv6PacketCarryingUdpDatagram_def node_put_def pushed_def
          udp_bytes_def Let_def del: chunk_put_all.simps)
  qed
  with r(2) show ?thesis by auto
qed

text \<open>Nothing is changed when the wrapping is refused.\<close>

lemma udp_unwrap_eq:
  assumes "linked st None (Some h) (h # xs)" "nodes st h = Some hn" "nodeLen hn = UDP_HEADER_SIZE"
    "spFirst pkt = Some h" "whip6_ipv6BasicHeaderGetNextHeader (spHeader pkt) = WHIP6_IANA_IPV6_UDP"
    "unat (whip6_ipv6BasicHeaderGetPayloadLength (spHeader pkt)) = n + UDP_HEADER_SIZE"
    "n \<le> length (list_bytes st xs)"
  shows "whip6_udpUnwrapDataFromOutgoingIpv6PacketCarryingUdpDatagram freePacket s st (Some pkt) (Some h) =
    Some (freePacket s pkt, st\<lparr>nodes := (case nodeNext hn of None \<Rightarrow> nodes st
        | Some p \<Rightarrow> (nodes st)(p := map_option (nodePrev_update (\<lambda>_. None)) (nodes st p)))
          (h \<mapsto> hn\<lparr>nodeNext := None\<rparr>)\<rparr>, Some (nodeNext hn, n))"
proof -
  have l: "linked st (Some h) (nodeNext hn) xs" using assms(1,2) by simp
  have d: "h \<notin> set xs" using linked_distinct [OF assms(1)] by simp
  show ?thesis
  proof (cases xs)
    case Nil
    then have n: "nodeNext hn = None" using l by simp
    then have "hn\<lparr>nodeNext := None\<rparr> = hn" by simp
    then have "st\<lparr>nodes := (nodes st)(h \<mapsto> hn\<lparr>nodeNext := None\<rparr>)\<rparr> = st" using assms(2)
      by (simp add: fun_upd_idem)
    then show ?thesis using n assms total_length_linked [OF l]
      by (simp add: whip6_udpUnwrapDataFromOutgoingIpv6PacketCarryingUdpDatagram_def Let_def)
  next
    case (Cons p ps)
    then obtain m where m: "nodeNext hn = Some p" "nodes st p = Some m" "h \<noteq> p" using l d by auto
    then show ?thesis using assms total_length_linked [OF l]
      by (simp add: whip6_udpUnwrapDataFromOutgoingIpv6PacketCarryingUdpDatagram_def Let_def node_put_def)
  qed
qed

lemma udp_bytes_read:
  assumes "map f [q..<q + 8] = udp_bytes src dst n"
  shows "whip6_udpHeaderGetSrcPort (map f [q..<q + 8]) = udpPortNo src"
    "whip6_udpHeaderGetDstPort (map f [q..<q + 8]) = udpPortNo dst"
    "whip6_udpHeaderGetLength (map f [q..<q + 8]) = of_nat n"
    "whip6_udpHeaderGetChecksum (map f [q..<q + 8]) = 0"
proof -
  have "u16_join 0 0 = 0" by (simp add: u16_join_def)
  then show "whip6_udpHeaderGetSrcPort (map f [q..<q + 8]) = udpPortNo src"
    "whip6_udpHeaderGetDstPort (map f [q..<q + 8]) = udpPortNo dst"
    "whip6_udpHeaderGetLength (map f [q..<q + 8]) = of_nat n"
    "whip6_udpHeaderGetChecksum (map f [q..<q + 8]) = 0"
    unfolding assms by (simp_all add: udp_bytes_def whip6_udpHeaderGetSrcPort_def whip6_udpHeaderGetDstPort_def
        whip6_udpHeaderGetLength_def whip6_udpHeaderGetChecksum_def)
qed

text \<open>C27: wrapping data into a UDP packet, and unwrapping it. If the list of the payload is well linked, holds
  the promised number of bytes, and there is a packet, the packet returned consists of the header node
  followed by the nodes of the caller; the ports and the length can be read in the UDP header, the IPv6
  header names UDP, the hop limit, the addresses and the length with the UDP header; and no byte outside the
  header node is written. Unwrapping this packet, whatever the allocator did meanwhile, gives the same payload and
  length back, frees the packet, and leaves every node of the caller as it was before.\<close>

theorem udp_wrap_unwrap:
  assumes "linked st None payloadIov xs" "h \<notin> set xs" "nodes st h = Some hn" "nodeLen hn = UDP_HEADER_SIZE"
    "n \<le> length (list_bytes st xs)" "n + UDP_HEADER_SIZE < 65536" "allocPacket s = (s', Some pkt)"
    "header_ok (spHeader pkt)" "ipv6_addr_ok (sockIpv6Addr src)" "ipv6_addr_ok (sockIpv6Addr dst)"
  shows "\<exists>st' pkt'. whip6_udpWrapDataIntoOutgoingIpv6PacketCarryingUdpDatagram allocPacket freePacket s st
        payloadIov n h src dst = Some (s', st', Some pkt') \<and>
    linked st' None (spFirst pkt') (h # xs) \<and> spLast pkt' = Some (last (h # xs)) \<and> spAddr pkt' = spAddr pkt \<and>
    whip6_udpHeaderGetSrcPort (node_bytes st' h) = udpPortNo src \<and>
    whip6_udpHeaderGetDstPort (node_bytes st' h) = udpPortNo dst \<and>
    unat (whip6_udpHeaderGetLength (node_bytes st' h)) = n + UDP_HEADER_SIZE \<and>
    whip6_udpHeaderGetChecksum (node_bytes st' h) = 0 \<and>
    unat (whip6_ipv6BasicHeaderGetPayloadLength (spHeader pkt')) = n + UDP_HEADER_SIZE \<and>
    whip6_ipv6BasicHeaderGetVersion (spHeader pkt') = 6 \<and>
    whip6_ipv6BasicHeaderGetNextHeader (spHeader pkt') = WHIP6_IANA_IPV6_UDP \<and>
    whip6_ipv6BasicHeaderGetHopLimit (spHeader pkt') = WHIP6_IPV6_DEFAULT_HOP_LIMIT \<and>
    hdrSrcAddr (spHeader pkt') = sockIpv6Addr src \<and> hdrDstAddr (spHeader pkt') = sockIpv6Addr dst \<and>
    (\<forall>a. a \<notin> {nodePtr hn..<nodePtr hn + UDP_HEADER_SIZE} \<longrightarrow> ram st' a = ram st a) \<and>
    (\<forall>s2. \<exists>st2. whip6_udpUnwrapDataFromOutgoingIpv6PacketCarryingUdpDatagram freePacket s2 st' (Some pkt') (Some h) =
        Some (freePacket s2 pkt', st2, Some (payloadIov, n)) \<and>
      ram st2 = ram st' \<and> (\<forall>x. x \<noteq> h \<longrightarrow> nodes st2 x = nodes st x))"
proof -
  obtain hdr where hdr: "udp_ipv6_header (spHeader pkt) (n + UDP_HEADER_SIZE) (sockIpv6Addr src) (sockIpv6Addr dst) = Some hdr"
    "whip6_ipv6BasicHeaderGetVersion hdr = 6" "whip6_ipv6BasicHeaderGetPayloadLength hdr = of_nat (n + UDP_HEADER_SIZE)"
    "whip6_ipv6BasicHeaderGetNextHeader hdr = WHIP6_IANA_IPV6_UDP"
    "whip6_ipv6BasicHeaderGetHopLimit hdr = WHIP6_IPV6_DEFAULT_HOP_LIMIT"
    "hdrSrcAddr hdr = sockIpv6Addr src" "hdrDstAddr hdr = sockIpv6Addr dst"
    using udp_ipv6_header_fields [OF assms(8-10)] by blast
  obtain r where wrap: "whip6_udpWrapDataIntoOutgoingIpv6PacketCarryingUdpDatagram allocPacket freePacket s st payloadIov n h src dst =
      Some (s', st\<lparr>nodes := pushed (nodes st) payloadIov h hn, ram := r\<rparr>,
        Some (pkt\<lparr>spFirst := Some h, spLast := Some (last (h # xs)), spHeader := hdr\<rparr>))"
    and r: "\<forall>a. r a = (if nodePtr hn \<le> a \<and> a < nodePtr hn + 8
       then udp_bytes src dst (n + UDP_HEADER_SIZE) ! (a - nodePtr hn) else ram st a)"
    using udp_wrap_eq [where allocPacket = allocPacket and s = s and s' = s', OF assms(1-5,7) hdr(1)] by blast
  let ?st = "st\<lparr>nodes := pushed (nodes st) payloadIov h hn, ram := r\<rparr>"
  let ?pkt = "pkt\<lparr>spFirst := Some h, spLast := Some (last (h # xs)), spHeader := hdr\<rparr>"
  let ?hn = "hn\<lparr>nodeNext := payloadIov, nodePrev := None\<rparr>"
  have len: "unat (of_nat (n + UDP_HEADER_SIZE) :: u16) = n + UDP_HEADER_SIZE" using assms(6) by (rule unat_u16_of_nat)
  have link: "linked ?st None (Some h) (h # xs)"
    using pushed_linked [OF assms(1,2) linked_distinct [OF assms(1)]] .
  have h: "nodes ?st h = Some ?hn" by (simp add: pushed_def)
  have nb: "node_bytes ?st h = map r [nodePtr hn..<nodePtr hn + 8]"
    using h assms(4) by (simp add: node_bytes_def UDP_HEADER_SIZE_def)
  have hb: "map r [nodePtr hn..<nodePtr hn + 8] = udp_bytes src dst (n + UDP_HEADER_SIZE)"
    by (rule nth_equalityI) (simp_all add: r udp_bytes_def)
  have other: "node_bytes ?st x = map r [nodePtr m..<nodePtr m + nodeLen m]" if "nodes st x = Some m" "x \<noteq> h" for x m
    using that by (auto simp: node_bytes_def pushed_def split: option.split)
  have same: "length (node_bytes ?st x) = length (node_bytes st x)" if "x \<in> set xs" for x
    using that assms(2) by (auto simp: node_bytes_def pushed_def split: option.split)
  have "length (list_bytes ?st xs) = length (list_bytes st xs)"
    using same by (simp add: list_bytes_def length_concat comp_def cong: map_cong)
  then have "whip6_udpUnwrapDataFromOutgoingIpv6PacketCarryingUdpDatagram freePacket s2 ?st (Some ?pkt) (Some h) =
    Some (freePacket s2 ?pkt, ?st\<lparr>nodes := (case payloadIov of None \<Rightarrow> nodes ?st
        | Some p \<Rightarrow> (nodes ?st)(p := map_option (nodePrev_update (\<lambda>_. None)) (nodes ?st p)))
          (h \<mapsto> ?hn\<lparr>nodeNext := None\<rparr>)\<rparr>, Some (payloadIov, n))" for s2
    using udp_unwrap_eq [OF link h, of ?pkt n freePacket s2] assms(4,5) hdr(3,4) len by simp
  moreover have "((case payloadIov of None \<Rightarrow> nodes ?st
        | Some p \<Rightarrow> (nodes ?st)(p := map_option (nodePrev_update (\<lambda>_. None)) (nodes ?st p)))
          (h \<mapsto> ?hn\<lparr>nodeNext := None\<rparr>)) x = nodes st x" if "x \<noteq> h" for x
    using that assms(1,2) by (cases xs) (auto simp: pushed_def)
  ultimately have "\<exists>st2. whip6_udpUnwrapDataFromOutgoingIpv6PacketCarryingUdpDatagram freePacket s2 ?st (Some ?pkt) (Some h) =
        Some (freePacket s2 ?pkt, st2, Some (payloadIov, n)) \<and>
      ram st2 = ram ?st \<and> (\<forall>x. x \<noteq> h \<longrightarrow> nodes st2 x = nodes st x)" for s2 by simp
  then show ?thesis
    using wrap link udp_bytes_read [OF hb] hdr len
    by (intro exI [of _ ?st] exI [of _ ?pkt]) (simp add: nb r UDP_HEADER_SIZE_def)
qed

definition udp_ex_store :: iov_store where
  "udp_ex_store = \<lparr>nodes = [1 \<mapsto> \<lparr>nodePtr = 100, nodeLen = 8, nodeNext = None, nodePrev = None\<rparr>,
       2 \<mapsto> \<lparr>nodePtr = 200, nodeLen = 3, nodeNext = Some 3, nodePrev = None\<rparr>,
       3 \<mapsto> \<lparr>nodePtr = 300, nodeLen = 9, nodeNext = None, nodePrev = Some 2\<rparr>],
     ram = (\<lambda>a. of_nat a)\<rparr>"

definition udp_ex_packet :: stored_packet where
  "udp_ex_packet = \<lparr>spAddr = 7, spHeader = header_of_bytes (replicate 40 0), spFirst = None, spLast = None\<rparr>"

lemma udp_ex_linked: "linked udp_ex_store None (Some 2) [2, 3]"
  by (simp add: udp_ex_store_def)

lemma udp_ex_length: "length (node_bytes udp_ex_store 2) = 3" "length (node_bytes udp_ex_store 3) = 9"
  by (simp_all add: udp_ex_store_def node_bytes_def)

theorem udp_wrap_unwrap_witness:
  "\<exists>st' pkt'. whip6_udpWrapDataIntoOutgoingIpv6PacketCarryingUdpDatagram (\<lambda>n. (n + 1, Some udp_ex_packet)) (\<lambda>n _. n - 1)
     (0 :: nat) udp_ex_store (Some 2) 11 1 \<lparr>sockIpv6Addr = replicate 16 1, udpPortNo = 300\<rparr>
     \<lparr>sockIpv6Addr = replicate 16 2, udpPortNo = 7\<rparr> = Some (1, st', Some pkt') \<and>
     linked st' None (spFirst pkt') [1, 2, 3] \<and> whip6_udpHeaderGetSrcPort (node_bytes st' 1) = 300"
proof -
  have p: "header_ok (spHeader udp_ex_packet)" by (simp add: udp_ex_packet_def header_of_bytes_ok)
  have h: "nodes udp_ex_store 1 = Some \<lparr>nodePtr = 100, nodeLen = 8, nodeNext = None, nodePrev = None\<rparr>"
    by (simp add: udp_ex_store_def)
  have side: "(1 :: nat) \<notin> set [2, 3]"
    "nodeLen \<lparr>nodePtr = 100, nodeLen = 8, nodeNext = None, nodePrev = None\<rparr> = UDP_HEADER_SIZE"
    "11 \<le> length (list_bytes udp_ex_store [2, 3])" "11 + UDP_HEADER_SIZE < 65536"
    "(\<lambda>n. (n + 1, Some udp_ex_packet)) (0 :: nat) = (1, Some udp_ex_packet)"
    "ipv6_addr_ok (sockIpv6Addr \<lparr>sockIpv6Addr = replicate 16 1, udpPortNo = 300\<rparr>)"
    "ipv6_addr_ok (sockIpv6Addr \<lparr>sockIpv6Addr = replicate 16 2, udpPortNo = 7\<rparr>)"
    by (simp_all add: udp_ex_length UDP_HEADER_SIZE_def ipv6_addr_ok_def)
  from udp_wrap_unwrap [where allocPacket = "\<lambda>n. (n + 1, Some udp_ex_packet)" and freePacket = "\<lambda>n _. n - 1",
      OF udp_ex_linked side(1) h side(2-5) p side(6,7)]
  show ?thesis by (elim ex_forward conjE) simp
qed

text \<open>when wrapping and unwrapping are refused. Wrapping fails exactly when the header node has not the
  size of a UDP header, the payload is shorter than announced, there is no packet, or the payload is not the
  beginning of its list; unwrapping fails when there is no packet, when it carries something else than UDP, when its
  first node is another one, or when it is too short. A call that fails leaves every node and byte as it was.\<close>

theorem udp_refusals:
  assumes "linked st q payloadIov xs" "h \<notin> set xs" "nodes st h = Some hn"
    "\<And>pkt. snd (allocPacket s) = Some pkt \<Longrightarrow> header_ok (spHeader pkt)"
    "ipv6_addr_ok (sockIpv6Addr src)" "ipv6_addr_ok (sockIpv6Addr dst)"
  shows "\<exists>s1 st1 res. whip6_udpWrapDataIntoOutgoingIpv6PacketCarryingUdpDatagram allocPacket freePacket s st
      payloadIov n h src dst = Some (s1, st1, res) \<and>
    (res = None \<longleftrightarrow> nodeLen hn \<noteq> UDP_HEADER_SIZE \<or> length (list_bytes st xs) < n \<or> snd (allocPacket s) = None \<or>
       (payloadIov \<noteq> None \<and> q \<noteq> None)) \<and>
    (res = None \<longrightarrow> st1 = st) \<and>
    (\<forall>packet s2 st2. whip6_udpUnwrapDataFromOutgoingIpv6PacketCarryingUdpDatagram freePacket s st packet (Some h) =
       Some (s2, st2, None) \<longrightarrow> s2 = s \<and> st2 = st)"
proof -
  have unwrap: "s2 = s \<and> st2 = st"
    if "whip6_udpUnwrapDataFromOutgoingIpv6PacketCarryingUdpDatagram freePacket s st packet (Some h) = Some (s2, st2, None)"
    for packet s2 st2
    using that by (auto simp: whip6_udpUnwrapDataFromOutgoingIpv6PacketCarryingUdpDatagram_def Let_def assms(3)
        bind_eq_Some_conv split: option.splits if_splits)
  note walk = iov_walk_linked [OF assms(1), of None 0]
  let ?bad = "nodeLen hn \<noteq> UDP_HEADER_SIZE \<or> length (list_bytes st xs) < n \<or> snd (allocPacket s) = None \<or>
    (payloadIov \<noteq> None \<and> q \<noteq> None)"
  show ?thesis
  proof (cases ?bad)
    case True
    have "\<exists>s1. whip6_udpWrapDataIntoOutgoingIpv6PacketCarryingUdpDatagram allocPacket freePacket s st
      payloadIov n h src dst = Some (s1, st, None)"
    proof (cases xs)
      case Nil
      then show ?thesis using True assms(1,3) walk
        by (cases "allocPacket s") (auto simp: whip6_udpWrapDataIntoOutgoingIpv6PacketCarryingUdpDatagram_def)
    next
      case (Cons p ps)
      then obtain m where m: "payloadIov = Some p" "nodes st p = Some m" "nodePrev m = q" using assms(1) by auto
      show ?thesis
        using True m assms(3) walk Cons
        by (cases "allocPacket s"; cases "snd (allocPacket s)")
          (auto simp: whip6_udpWrapDataIntoOutgoingIpv6PacketCarryingUdpDatagram_def)
    qed
    then show ?thesis using unwrap True by blast
  next
    case False
    then obtain s' pkt where al: "allocPacket s = (s', Some pkt)" by (cases "allocPacket s") auto
    have l: "linked st None payloadIov xs" using False assms(1) by (cases xs) auto
    obtain hdr where "udp_ipv6_header (spHeader pkt) (n + UDP_HEADER_SIZE) (sockIpv6Addr src) (sockIpv6Addr dst) = Some hdr"
      using udp_ipv6_header_fields [OF assms(4) assms(5,6)] al by fastforce
    from udp_wrap_eq [where allocPacket = allocPacket and s = s and s' = s', OF l assms(2,3) _ _ al this] False
    show ?thesis using unwrap by (metis (no_types, lifting) linorder_not_less option.distinct(1))
  qed
qed

theorem udp_refusals_witness:
  "\<exists>s1. whip6_udpWrapDataIntoOutgoingIpv6PacketCarryingUdpDatagram (\<lambda>n. (n + 1, Some udp_ex_packet)) (\<lambda>n _. n - 1)
     (0 :: nat) udp_ex_store (Some 2) 13 1 \<lparr>sockIpv6Addr = replicate 16 1, udpPortNo = 300\<rparr>
     \<lparr>sockIpv6Addr = replicate 16 2, udpPortNo = 7\<rparr> = Some (s1, udp_ex_store, None)"
proof -
  have h: "nodes udp_ex_store 1 = Some \<lparr>nodePtr = 100, nodeLen = 8, nodeNext = None, nodePrev = None\<rparr>"
    by (simp add: udp_ex_store_def)
  show ?thesis
    using udp_refusals [where allocPacket = "\<lambda>n. (n + 1, Some udp_ex_packet)" and s = "0 :: nat"
        and n = 13 and freePacket = "\<lambda>n _. n - 1" and src = "\<lparr>sockIpv6Addr = replicate 16 1, udpPortNo = 300\<rparr>"
        and dst = "\<lparr>sockIpv6Addr = replicate 16 2, udpPortNo = 7\<rparr>", OF udp_ex_linked _ h]
    by (auto simp: udp_ex_length UDP_HEADER_SIZE_def ipv6_addr_ok_def udp_ex_packet_def header_of_bytes_ok)
qed

section \<open>The incoming path\<close>

lemma linked_tail: "linked st q start (as @ c # bs) \<Longrightarrow> \<exists>q' n. nodes st c = Some n \<and> nodePrev n = q' \<and> linked st (Some c) (nodeNext n) bs"
  by (induction as arbitrary: q start) auto

text \<open>Splitting the node at which the iterator stands.\<close>

definition striped :: "iov_store \<Rightarrow> nat \<Rightarrow> iov_node \<Rightarrow> nat \<Rightarrow> iov_store" where
  "striped st spare n off =
     st\<lparr>nodes := (case nodeNext n of None \<Rightarrow> (nodes st)
         | Some q \<Rightarrow> (nodes st)(q := map_option (nodePrev_update (\<lambda>_. Some spare)) (nodes st q)))
       (spare \<mapsto> \<lparr>nodePtr = nodePtr n + off, nodeLen = nodeLen n - off, nodeNext = nodeNext n, nodePrev = None\<rparr>)\<rparr>"

lemma striped_linked:
  assumes "linked st (Some c) (nodeNext n) bs" "nodes st c = Some n" "spare \<notin> set bs" "off \<le> nodeLen n"
  shows "linked (striped st spare n off) None (Some spare) (spare # bs)"
    "list_bytes (striped st spare n off) (spare # bs) = rest_bytes st c off bs"
proof -
  have d: "distinct bs" using linked_distinct [OF assms(1)] .
  show "linked (striped st spare n off) None (Some spare) (spare # bs)"
  proof (cases bs)
    case Nil
    then show ?thesis using assms by (simp add: striped_def)
  next
    case (Cons p ps)
    then obtain m where m: "nodeNext n = Some p" "nodes st p = Some m" "linked st (Some p) (nodeNext m) ps" "spare \<noteq> p"
      using assms(1,3) by auto
    have "linked (striped st spare n off) (Some p) (nodeNext m) ps = linked st (Some p) (nodeNext m) ps"
      using assms(3) Cons d m(1) by (intro linked_cong) (auto simp: striped_def)
    then show ?thesis using m Cons by (simp add: striped_def)
  qed
  have "node_bytes (striped st spare n off) x = node_bytes st x" if "x \<in> set bs" for x
    using that assms(3) by (auto simp: striped_def node_bytes_def split: option.split)
  then have "list_bytes (striped st spare n off) bs = list_bytes st bs" by (simp add: list_bytes_def cong: map_cong)
  moreover have "node_bytes (striped st spare n off) spare = drop off (node_bytes st c)"
    using assms(2,4) by (simp add: striped_def node_bytes_def drop_map)
  ultimately show "list_bytes (striped st spare n off) (spare # bs) = rest_bytes st c off bs"
    by (simp add: rest_bytes_def)
qed

lemma striped_other: "x \<noteq> spare \<Longrightarrow> nodeNext n \<noteq> Some x \<Longrightarrow> nodes (striped st spare n off) x = nodes st x"
  by (auto simp: striped_def split: option.split)

text \<open>What striping does when at least a header's bytes are left.\<close>

lemma udp_stripe_eq:
  assumes "linked st q (Some c) (c # zs)" "off \<le> length (node_bytes st c)" "spare \<notin> set (c # zs)"
    "nodes st spare \<noteq> None" "UDP_HEADER_SIZE \<le> length (rest_bytes st c off zs)"
  obtains it where "whip6_udpStripeDataFromIncomingIpv6PacketCarryingUdpDatagram st \<lparr>siElem = Some c, siOffset = off\<rparr> spare =
      Some (st, it, Some None)" "siElem it = None" "length (rest_bytes st c off zs) = UDP_HEADER_SIZE"
  | it as c' bs n where "whip6_udpStripeDataFromIncomingIpv6PacketCarryingUdpDatagram st \<lparr>siElem = Some c, siOffset = off\<rparr> spare =
      Some (striped st spare n (siOffset it), it, Some (Some spare))" "siElem it = Some c'" "c # zs = as @ c' # bs"
    "nodes st c' = Some n" "linked st (Some c') (nodeNext n) bs" "spare \<notin> set bs" "spare \<noteq> c'" "siOffset it < nodeLen n"
    "rest_bytes st c' (siOffset it) bs = drop UDP_HEADER_SIZE (rest_bytes st c off zs)"
proof -
  let ?stripe = "whip6_udpStripeDataFromIncomingIpv6PacketCarryingUdpDatagram st \<lparr>siElem = Some c, siOffset = off\<rparr> spare"
  from store_forward_eq [OF assms(1,2), of UDP_HEADER_SIZE] assms(5) obtain it where
    it: "store_forward st \<lparr>siElem = Some c, siOffset = off\<rparr> UDP_HEADER_SIZE = Some (it, UDP_HEADER_SIZE)"
    "case siElem it of
       None \<Rightarrow> UDP_HEADER_SIZE = length (rest_bytes st c off zs)
     | Some c' \<Rightarrow> \<exists>as bs. c # zs = as @ c' # bs \<and> siOffset it < length (node_bytes st c') \<and>
         rest_bytes st c' (siOffset it) bs = drop UDP_HEADER_SIZE (rest_bytes st c off zs)" by auto
  show thesis
  proof (cases "siElem it")
    case None
    have "?stripe = Some (st, it, Some None)"
      using it(1) None by (simp add: whip6_udpStripeDataFromIncomingIpv6PacketCarryingUdpDatagram_def)
    then show thesis using that(1) it(2) None by simp
  next
    case (Some c')
    then obtain as bs where l: "c # zs = as @ c' # bs" "siOffset it < length (node_bytes st c')"
      "rest_bytes st c' (siOffset it) bs = drop UDP_HEADER_SIZE (rest_bytes st c off zs)" using it(2) by auto
    from linked_tail [OF assms(1) [unfolded l(1)]] obtain n where n: "nodes st c' = Some n"
      "linked st (Some c') (nodeNext n) bs" by auto
    have sp: "spare \<notin> set bs" "spare \<noteq> c'" using assms(3) l(1) by (metis Un_iff set_append set_ConsD list.set_intros)+
    have off: "siOffset it < nodeLen n" using l(2) node_bytes_length [OF n(1)] by simp
    have "nodeNext n = Some y \<Longrightarrow> \<exists>m. nodes st y = Some m \<and> nodePrev m = Some c' \<and> y \<noteq> spare" for y
      using n(2) sp(1) by (cases bs) auto
    then have "?stripe = Some (striped st spare n (siOffset it), it, Some (Some spare))"
      using it(1) Some n(1) assms(4)
      by (auto simp: whip6_udpStripeDataFromIncomingIpv6PacketCarryingUdpDatagram_def Let_def node_put_def striped_def
          fun_upd_twist split: option.split)
    from that(2) [OF this Some l(1) n sp off l(3)] show thesis .
  qed
qed

text \<open>Restoring, with the iterator where the striping left it and where it stays, gives every node but the spare one back.\<close>

lemma udp_restored:
  assumes "linked st q (Some c) (c # zs)" "off \<le> length (node_bytes st c)" "spare \<notin> set (c # zs)"
    "nodes st spare \<noteq> None" "UDP_HEADER_SIZE \<le> length (rest_bytes st c off zs)"
  shows "\<exists>st1 it payload st2. whip6_udpStripeDataFromIncomingIpv6PacketCarryingUdpDatagram st
        \<lparr>siElem = Some c, siOffset = off\<rparr> spare = Some (st1, it, Some payload) \<and>
      whip6_udpRestoreDataToIncomingIpv6PacketCarryingUdpDatagram st1 it payload spare = Some (st2, True) \<and>
      (\<forall>x. x \<noteq> spare \<longrightarrow> nodes st2 x = nodes st x) \<and> ram st2 = ram st"
proof (rule udp_stripe_eq [OF assms])
  fix it assume "whip6_udpStripeDataFromIncomingIpv6PacketCarryingUdpDatagram st \<lparr>siElem = Some c, siOffset = off\<rparr> spare =
      Some (st, it, Some None)" "siElem it = None"
  then show ?thesis by (simp add: whip6_udpRestoreDataToIncomingIpv6PacketCarryingUdpDatagram_def)
next
  fix it as c' bs n
  assume s: "whip6_udpStripeDataFromIncomingIpv6PacketCarryingUdpDatagram st \<lparr>siElem = Some c, siOffset = off\<rparr> spare =
      Some (striped st spare n (siOffset it), it, Some (Some spare))" "siElem it = Some c'"
    and n: "nodes st c' = Some n" "linked st (Some c') (nodeNext n) bs" "spare \<notin> set bs" "spare \<noteq> c'"
  let ?st1 = "striped st spare n (siOffset it)"
  let ?st2 = "st\<lparr>nodes := (nodes st)(spare \<mapsto> \<lparr>nodePtr = 0, nodeLen = 0, nodeNext = None, nodePrev = None\<rparr>)\<rparr>"
  have "whip6_udpRestoreDataToIncomingIpv6PacketCarryingUdpDatagram ?st1 it (Some spare) spare = Some (?st2, True)"
  proof (cases "nodeNext n")
    case None
    then show ?thesis using s(2)
      by (simp add: whip6_udpRestoreDataToIncomingIpv6PacketCarryingUdpDatagram_def striped_def node_put_def)
  next
    case (Some y)
    then obtain m where m: "nodes st y = Some m" "nodePrev m = Some c'" "y \<noteq> spare" using n(2,3) by (cases bs) auto
    have "m\<lparr>nodePrev := Some c'\<rparr> = m" using m(2) by simp
    then show ?thesis using s(2) Some m
      by (simp add: whip6_udpRestoreDataToIncomingIpv6PacketCarryingUdpDatagram_def striped_def node_put_def
          fun_upd_twist fun_upd_idem)
  qed
  with s(1) show ?thesis by auto
qed

text \<open>C28: striping the UDP header of an incoming packet, from an iterator at its first byte. When at least a header's bytes are
  left, the payload is exactly the bytes behind the header: either nothing, or a well linked list that begins with the
  spare node, which shares the memory of the node the header ends in, and the iterator moves to its first byte. Of the other
  nodes at most a pointer to the previous node changes, and no byte is written. When fewer bytes are left the striping is
  refused and changes nothing.\<close>

theorem udp_stripe:
  assumes "linked st q (Some c) (c # zs)" "off \<le> length (node_bytes st c)" "spare \<notin> set (c # zs)"
    "nodes st spare \<noteq> None"
  shows "if length (rest_bytes st c off zs) < UDP_HEADER_SIZE
    then \<exists>it. whip6_udpStripeDataFromIncomingIpv6PacketCarryingUdpDatagram st \<lparr>siElem = Some c, siOffset = off\<rparr> spare =
      Some (st, it, None)
    else \<exists>st1 it payload. whip6_udpStripeDataFromIncomingIpv6PacketCarryingUdpDatagram st
        \<lparr>siElem = Some c, siOffset = off\<rparr> spare = Some (st1, it, Some payload) \<and>
      (case payload of
         None \<Rightarrow> length (rest_bytes st c off zs) = UDP_HEADER_SIZE \<and> siElem it = None
       | Some p \<Rightarrow> p = spare \<and> (\<exists>as c' bs. linked st1 None payload (p # bs) \<and>
           list_bytes st1 (p # bs) = drop UDP_HEADER_SIZE (rest_bytes st c off zs) \<and>
           siElem it = Some c' \<and> c # zs = as @ c' # bs \<and>
           rest_bytes st c' (siOffset it) bs = drop UDP_HEADER_SIZE (rest_bytes st c off zs))) \<and>
      (\<forall>x. x \<noteq> spare \<longrightarrow> map_option (nodePrev_update (\<lambda>_. None)) (nodes st1 x) =
        map_option (nodePrev_update (\<lambda>_. None)) (nodes st x)) \<and> ram st1 = ram st"
proof (cases "length (rest_bytes st c off zs) < UDP_HEADER_SIZE")
  case True
  from store_forward_short [OF assms(1,2) True] obtain it where
    "store_forward st \<lparr>siElem = Some c, siOffset = off\<rparr> UDP_HEADER_SIZE = Some (it, length (rest_bytes st c off zs))"
    by blast
  then show ?thesis using True
    by (simp add: whip6_udpStripeDataFromIncomingIpv6PacketCarryingUdpDatagram_def)
next
  case False
  then have "UDP_HEADER_SIZE \<le> length (rest_bytes st c off zs)" by simp
  note eq = udp_stripe_eq [OF assms this]
  from False show ?thesis unfolding if_not_P [OF False]
  proof (rule_tac eq)
    fix it as c' bs n
    assume s: "whip6_udpStripeDataFromIncomingIpv6PacketCarryingUdpDatagram st \<lparr>siElem = Some c, siOffset = off\<rparr> spare =
        Some (striped st spare n (siOffset it), it, Some (Some spare))" "siElem it = Some c'" "c # zs = as @ c' # bs"
      and n: "nodes st c' = Some n" "linked st (Some c') (nodeNext n) bs" "spare \<notin> set bs" "siOffset it < nodeLen n"
      and r: "rest_bytes st c' (siOffset it) bs = drop UDP_HEADER_SIZE (rest_bytes st c off zs)"
    note lk = striped_linked [OF n(2,1,3) less_imp_le [OF n(4)]]
    let ?st1 = "striped st spare n (siOffset it)"
    have "map_option (nodePrev_update (\<lambda>_. None)) (nodes ?st1 x) = map_option (nodePrev_update (\<lambda>_. None)) (nodes st x)"
      if "x \<noteq> spare" for x
      using that by (auto simp: striped_def option.map_comp comp_def split: option.split)
    moreover have "ram ?st1 = ram st" by (simp add: striped_def)
    ultimately show "\<exists>st1 it payload. whip6_udpStripeDataFromIncomingIpv6PacketCarryingUdpDatagram st
        \<lparr>siElem = Some c, siOffset = off\<rparr> spare = Some (st1, it, Some payload) \<and>
      (case payload of
         None \<Rightarrow> length (rest_bytes st c off zs) = UDP_HEADER_SIZE \<and> siElem it = None
       | Some p \<Rightarrow> p = spare \<and> (\<exists>as c' bs. linked st1 None payload (p # bs) \<and>
           list_bytes st1 (p # bs) = drop UDP_HEADER_SIZE (rest_bytes st c off zs) \<and>
           siElem it = Some c' \<and> c # zs = as @ c' # bs \<and>
           rest_bytes st c' (siOffset it) bs = drop UDP_HEADER_SIZE (rest_bytes st c off zs))) \<and>
      (\<forall>x. x \<noteq> spare \<longrightarrow> map_option (nodePrev_update (\<lambda>_. None)) (nodes st1 x) =
        map_option (nodePrev_update (\<lambda>_. None)) (nodes st x)) \<and> ram st1 = ram st"
      using s r lk
      by (intro exI [of _ ?st1] exI [of _ it] exI [of _ "Some spare"]) (simp del: list_bytes_simps linked.simps, blast)
  qed auto
qed

theorem udp_stripe_witness:
  "\<exists>st1 it bs. whip6_udpStripeDataFromIncomingIpv6PacketCarryingUdpDatagram udp_ex_store
     \<lparr>siElem = Some 2, siOffset = 1\<rparr> 1 = Some (st1, it, Some (Some 1)) \<and>
     linked st1 None (Some 1) (1 # bs) \<and> list_bytes st1 (1 # bs) = drop UDP_HEADER_SIZE (rest_bytes udp_ex_store 2 1 [3])"
proof -
  have r: "length (rest_bytes udp_ex_store 2 1 [3]) = 11" by (simp add: rest_bytes_def udp_ex_length)
  have "(1 :: nat) \<le> length (node_bytes udp_ex_store 2)" unfolding udp_ex_length by simp
  moreover have "(1 :: nat) \<notin> set [2, 3]" "nodes udp_ex_store 1 \<noteq> None"
    by (simp_all add: udp_ex_store_def)
  note side = calculation this
  have nf: "\<not> (11 :: nat) < UDP_HEADER_SIZE" unfolding UDP_HEADER_SIZE_def by simp
  note s = udp_stripe [OF udp_ex_linked side, unfolded r if_not_P [OF nf]]
  from s obtain st1 it payload where
    st1: "whip6_udpStripeDataFromIncomingIpv6PacketCarryingUdpDatagram udp_ex_store \<lparr>siElem = Some 2, siOffset = 1\<rparr> 1 =
       Some (st1, it, Some payload)"
    "case payload of None \<Rightarrow> 11 = UDP_HEADER_SIZE \<and> siElem it = None
     | Some p \<Rightarrow> p = 1 \<and> (\<exists>as c' bs. linked st1 None payload (p # bs) \<and>
         list_bytes st1 (p # bs) = drop UDP_HEADER_SIZE (rest_bytes udp_ex_store 2 1 [3]) \<and> siElem it = Some c' \<and> [2, 3] = as @ c' # bs \<and>
         rest_bytes udp_ex_store c' (siOffset it) bs = drop UDP_HEADER_SIZE (rest_bytes udp_ex_store 2 1 [3]))"
    by (elim exE conjE) rule
  show ?thesis
  proof (cases payload)
    case None
    from st1(2) [unfolded this option.case UDP_HEADER_SIZE_def] show ?thesis by simp
  next
    case (Some p)
    note b = st1(2) [unfolded Some option.case]
    show ?thesis using st1(1) b unfolding Some by (elim conjE exE) blast
  qed
qed

end
