(* ===== verification/Icmpv6_Message.thy ===== *)
theory Icmpv6_Message
  imports Base_IoVecStore Ipv6_Address
begin

text \<open>
  ICMPv6 messages in IPv6 packets: \<open>microc/src/icmpv6/ucIcmpv6BasicMessageProcessing.c\<close> and
  \<open>microc/include/icmpv6/ucIcmpv6BasicTypes.h\<close>. The payload begins at an iterator, inside a node of a
  list that belongs to the caller: a spare node takes the rest of that node, the node of the ICMPv6 header is
  put before it, and the node behind is linked to the spare one. Unwrapping undoes this.
\<close>

definition ICMPV6_HEADER_SIZE :: nat where "ICMPV6_HEADER_SIZE = 4"

text \<open>The fields of the IPv6 header.\<close>

definition icmp_ipv6_header :: "ipv6_basic_header \<Rightarrow> nat \<Rightarrow> ipv6_addr option \<Rightarrow> ipv6_addr \<Rightarrow> ipv6_basic_header option" where
  "icmp_ipv6_header ipv6Hdr payloadLen srcAddrOrNull dstAddr =
     do { let ipv6Hdr = whip6_ipv6BasicHeaderSetVersion ipv6Hdr WHIP6_IPV6_VERSION_NUMBER;
          let ipv6Hdr = whip6_ipv6BasicHeaderSetTrafficClass ipv6Hdr 0;
          let ipv6Hdr = whip6_ipv6BasicHeaderSetFlowLabel ipv6Hdr 0;
          let ipv6Hdr = whip6_ipv6BasicHeaderSetPayloadLength ipv6Hdr (of_nat payloadLen);
          let ipv6Hdr = whip6_ipv6BasicHeaderSetNextHeader ipv6Hdr WHIP6_IANA_IPV6_ICMP;
          s \<leftarrow> (case srcAddrOrNull of
                  None \<Rightarrow> whip6_ipv6AddrSetUndefinedAddr (hdrSrcAddr ipv6Hdr)
                | Some srcAddr \<Rightarrow> whip6_shortMemCpy srcAddr 0 (hdrSrcAddr ipv6Hdr) 0 16);
          let ipv6Hdr = ipv6Hdr\<lparr>hdrSrcAddr := s\<rparr>;
          d \<leftarrow> whip6_shortMemCpy dstAddr 0 (hdrDstAddr ipv6Hdr) 0 16;
          let ipv6Hdr = ipv6Hdr\<lparr>hdrDstAddr := d\<rparr>;
          Some (if whip6_ipv6AddrGetScope dstAddr \<le> IPV6_ADDRESS_SCOPE_LINK_LOCAL
                then whip6_ipv6BasicHeaderSetHopLimit ipv6Hdr 1
                else whip6_ipv6BasicHeaderSetHopLimit ipv6Hdr WHIP6_IPV6_DEFAULT_HOP_LIMIT) }"

text \<open>The node behind a node points back to it (also the label \<open>FAILURE_ROLLBACK_1\<close>).\<close>

definition relink_next :: "iov_store \<Rightarrow> nat option \<Rightarrow> iov_store option" where
  "relink_next st currIov =
     (case currIov of
        None \<Rightarrow> Some st
      | Some c \<Rightarrow>
          do { n \<leftarrow> nodes st c;
               case nodeNext n of None \<Rightarrow> Some st | Some q \<Rightarrow> node_put st q (nodePrev_update (\<lambda>_. Some c)) })"

text \<open>The header node and the spare node before the rest of the list.\<close>

definition icmp_insert :: "iov_store \<Rightarrow> store_iter \<Rightarrow> nat \<Rightarrow> nat \<Rightarrow> iov_store option" where
  "icmp_insert st payloadIter icmpv6HdrIov firstIov =
     do { st \<leftarrow> node_put st icmpv6HdrIov (nodeNext_update (\<lambda>_. Some firstIov));
          currIov \<leftarrow> siElem payloadIter;
          curr \<leftarrow> nodes st currIov;
          st \<leftarrow> node_put st firstIov (\<lambda>n. n\<lparr>nodePtr := nodePtr curr + siOffset payloadIter,
            nodeLen := nodeLen curr - siOffset payloadIter, nodeNext := nodeNext curr\<rparr>);
          st \<leftarrow> relink_next st (Some firstIov);
          node_put st firstIov (nodePrev_update (\<lambda>_. Some icmpv6HdrIov)) }"

text \<open>The nodes before the payload, with the length of the message and its last node; \<open>None\<close> in the result is a
  refusal.\<close>

definition icmp_link :: "iov_store \<Rightarrow> store_iter \<Rightarrow> nat \<Rightarrow> nat \<Rightarrow> nat \<Rightarrow> nat \<Rightarrow> (iov_store \<times> (nat \<times> nat option) option) option" where
  "icmp_link st payloadIter payloadLen icmpv6HdrPtr icmpv6HdrIov firstIov =
     do { st \<leftarrow> node_put st icmpv6HdrIov (\<lambda>n. n\<lparr>nodePtr := icmpv6HdrPtr, nodeLen := ICMPV6_HEADER_SIZE, nodePrev := None\<rparr>);
          if siElem payloadIter \<noteq> None \<and> payloadLen > 0
          then
            do { st \<leftarrow> icmp_insert st payloadIter icmpv6HdrIov firstIov;
                 let payloadLen = payloadLen + ICMPV6_HEADER_SIZE;
                 (prevIov, maxPayload) \<leftarrow> iov_walk st (Some icmpv6HdrIov) None 0;
                 if maxPayload < payloadLen
                 then do { st \<leftarrow> relink_next st (siElem payloadIter); Some (st, None) }
                 else Some (st, Some (payloadLen, prevIov)) }
          else if payloadLen > 0 then Some (st, None)
          else
            do { st \<leftarrow> node_put st icmpv6HdrIov (nodeNext_update (\<lambda>_. None));
                 Some (st, Some (ICMPV6_HEADER_SIZE, Some icmpv6HdrIov)) } }"

definition whip6_icmpv6WrapDataIntoOutgoingIpv6PacketCarryingIcmpMessage ::
  "('s \<Rightarrow> 's \<times> stored_packet option) \<Rightarrow> 's \<Rightarrow> iov_store \<Rightarrow> store_iter \<Rightarrow> nat \<Rightarrow> nat \<Rightarrow> nat \<Rightarrow> nat \<Rightarrow>
   ipv6_addr option \<Rightarrow> ipv6_addr \<Rightarrow> ('s \<times> iov_store \<times> stored_packet option) option" where
  "whip6_icmpv6WrapDataIntoOutgoingIpv6PacketCarryingIcmpMessage allocPacket s st payloadIter payloadLen icmpv6HdrPtr
       icmpv6HdrIov firstIov srcAddrOrNull dstAddr =
     do { (st, res) \<leftarrow> icmp_link st payloadIter payloadLen icmpv6HdrPtr icmpv6HdrIov firstIov;
          case res of
            None \<Rightarrow> Some (s, st, None)
          | Some (payloadLen, prevIov) \<Rightarrow>
              case allocPacket s of
                (s, None) \<Rightarrow> do { st \<leftarrow> relink_next st (siElem payloadIter); Some (s, st, None) }
              | (s, Some packet) \<Rightarrow>
                  do { ipv6Hdr \<leftarrow> icmp_ipv6_header (spHeader packet) payloadLen srcAddrOrNull dstAddr;
                       Some (s, st, Some (packet\<lparr>spFirst := Some icmpv6HdrIov, spLast := prevIov, spHeader := ipv6Hdr\<rparr>)) } }"

text \<open>The function takes pointers, which it compares with \<open>NULL\<close>. It returns zero, \<open>True\<close>, on success.\<close>

definition whip6_icmpv6UnwrapDataFromOutgoingIpv6PacketCarryingIcmpMessage ::
  "('s \<Rightarrow> stored_packet \<Rightarrow> 's) \<Rightarrow> 's \<Rightarrow> iov_store \<Rightarrow> stored_packet option \<Rightarrow> store_iter option \<Rightarrow> nat \<Rightarrow>
   nat option \<Rightarrow> nat option \<Rightarrow> ('s \<times> iov_store \<times> bool) option" where
  "whip6_icmpv6UnwrapDataFromOutgoingIpv6PacketCarryingIcmpMessage freePacket s st packet payloadIter payloadLen
       icmpv6HdrIov firstIov =
     (case (packet, payloadIter, icmpv6HdrIov, firstIov) of
        (Some packet, Some payloadIter, Some h, Some f) \<Rightarrow>
          do { refused \<leftarrow>
                 (if payloadLen + ICMPV6_HEADER_SIZE \<noteq> unat (whip6_ipv6BasicHeaderGetPayloadLength (spHeader packet)) \<or>
                     whip6_ipv6BasicHeaderGetNextHeader (spHeader packet) \<noteq> WHIP6_IANA_IPV6_ICMP \<or>
                     spFirst packet \<noteq> Some h
                  then Some True
                  else
                    do { hn \<leftarrow> nodes st h;
                         if nodeLen hn \<noteq> ICMPV6_HEADER_SIZE then Some True
                         else if payloadLen = 0 then Some (nodeNext hn \<noteq> None)
                         else if siElem payloadIter = None \<or> nodeNext hn \<noteq> Some f then Some True
                         else
                           do { c \<leftarrow> siElem payloadIter;
                                curr \<leftarrow> nodes st c;
                                fst_node \<leftarrow> nodes st f;
                                Some (nodeNext curr \<noteq> nodeNext fst_node) } });
               if refused then Some (s, st, False)
               else
                 do { st \<leftarrow> node_put st h (\<lambda>n. n\<lparr>nodeNext := None, nodePrev := None\<rparr>);
                      st \<leftarrow> node_put st f (\<lambda>n. n\<lparr>nodeNext := None, nodePrev := None\<rparr>);
                      st \<leftarrow> relink_next st (siElem payloadIter);
                      Some (freePacket s packet, st, True) } }
      | _ \<Rightarrow> Some (s, st, False))"

section \<open>Linking and relinking\<close>

lemma icmp_ipv6_header_fields:
  assumes "header_ok hdr" "pred_option ipv6_addr_ok srcOpt" "ipv6_addr_ok dst"
  shows "\<exists>hdr'. icmp_ipv6_header hdr n srcOpt dst = Some hdr' \<and> header_ok hdr' \<and>
    whip6_ipv6BasicHeaderGetVersion hdr' = 6 \<and> whip6_ipv6BasicHeaderGetTrafficClass hdr' = 0 \<and>
    whip6_ipv6BasicHeaderGetFlowLabel hdr' = 0 \<and> whip6_ipv6BasicHeaderGetPayloadLength hdr' = of_nat n \<and>
    whip6_ipv6BasicHeaderGetNextHeader hdr' = WHIP6_IANA_IPV6_ICMP \<and>
    whip6_ipv6BasicHeaderGetHopLimit hdr' = (if whip6_ipv6AddrGetScope dst \<le> IPV6_ADDRESS_SCOPE_LINK_LOCAL
      then 1 else WHIP6_IPV6_DEFAULT_HOP_LIMIT) \<and>
    hdrSrcAddr hdr' = (case srcOpt of None \<Rightarrow> replicate 16 0 | Some src \<Rightarrow> src) \<and> hdrDstAddr hdr' = dst"
proof -
  let ?src = "case srcOpt of None \<Rightarrow> replicate 16 0 | Some src \<Rightarrow> src"
  let ?hl = "if whip6_ipv6AddrGetScope dst \<le> IPV6_ADDRESS_SCOPE_LINK_LOCAL then 1 else WHIP6_IPV6_DEFAULT_HOP_LIMIT"
  have l: "length ?src = 16" "length dst = 16"
    using assms(2,3) by (auto simp: ipv6_addr_ok_def split: option.split)
  let ?h4 = "whip6_ipv6BasicHeaderSetPayloadLength (whip6_ipv6BasicHeaderSetFlowLabel
    (whip6_ipv6BasicHeaderSetTrafficClass (whip6_ipv6BasicHeaderSetVersion hdr WHIP6_IPV6_VERSION_NUMBER) 0) 0) (of_nat n)"
  note b = built_header [OF assms(1) l, where pl = "of_nat n"]
  have "icmp_ipv6_header hdr n srcOpt dst = Some (?h4\<lparr>nextHdrByte := WHIP6_IANA_IPV6_ICMP,
      hopLimitByte := ?hl, hdrSrcAddr := ?src, hdrDstAddr := dst\<rparr>)"
    using b(1) l assms(2)
    by (cases srcOpt) (auto simp: icmp_ipv6_header_def Let_def whip6_ipv6BasicHeaderSetNextHeader_def header_ok_def
        whip6_ipv6BasicHeaderSetHopLimit_def shortMemCpy_eq mem_blit_def SetUndefinedAddr_eq ipv6_addr_ok_def)
  with b(2) [where nh = WHIP6_IANA_IPV6_ICMP and hl = ?hl] show ?thesis by blast
qed

text \<open>The nodes when the message is linked.\<close>

definition icmp_split :: "(nat \<rightharpoonup> iov_node) \<Rightarrow> nat \<Rightarrow> iov_node \<Rightarrow> nat \<Rightarrow> nat \<Rightarrow> iov_node \<Rightarrow> iov_node \<Rightarrow> nat \<Rightarrow> (nat \<rightharpoonup> iov_node)" where
  "icmp_split N h hn hp f fn n off =
     (case nodeNext n of None \<Rightarrow> N | Some q \<Rightarrow> N(q := map_option (nodePrev_update (\<lambda>_. Some f)) (N q)))
       (h \<mapsto> hn\<lparr>nodePtr := hp, nodeLen := ICMPV6_HEADER_SIZE, nodePrev := None, nodeNext := Some f\<rparr>,
        f \<mapsto> fn\<lparr>nodePtr := nodePtr n + off, nodeLen := nodeLen n - off, nodeNext := nodeNext n, nodePrev := Some h\<rparr>)"

lemma icmp_split_linked:
  assumes "linked st (Some c) (nodeNext n) zs" "nodes st c = Some n" "h \<noteq> f" "h \<notin> set zs" "f \<notin> set zs" "off \<le> nodeLen n"
  shows "linked (st\<lparr>nodes := icmp_split (nodes st) h hn hp f fn n off\<rparr>) None (Some h) (h # f # zs)"
    "list_bytes (st\<lparr>nodes := icmp_split (nodes st) h hn hp f fn n off\<rparr>) (f # zs) = rest_bytes st c off zs"
proof -
  let ?st = "st\<lparr>nodes := icmp_split (nodes st) h hn hp f fn n off\<rparr>"
  have d: "distinct zs" using linked_distinct [OF assms(1)] .
  show "linked ?st None (Some h) (h # f # zs)"
  proof (cases zs)
    case Nil
    then show ?thesis using assms by (simp add: icmp_split_def)
  next
    case (Cons p ps)
    then obtain m where m: "nodeNext n = Some p" "nodes st p = Some m" "linked st (Some p) (nodeNext m) ps"
      "h \<noteq> p" "f \<noteq> p" using assms(1,4,5) by auto
    have "linked ?st (Some p) (nodeNext m) ps = linked st (Some p) (nodeNext m) ps"
      using assms(4,5) Cons d m(1) by (intro linked_cong) (auto simp: icmp_split_def)
    then show ?thesis using m Cons assms(3) by (simp add: icmp_split_def)
  qed
  have "node_bytes ?st x = node_bytes st x" if "x \<in> set zs" for x
    using that assms(4,5) by (auto simp: icmp_split_def node_bytes_def split: option.split)
  then have "list_bytes ?st zs = list_bytes st zs" by (simp add: list_bytes_def cong: map_cong)
  moreover have "node_bytes ?st f = drop off (node_bytes st c)"
    using assms(2,3,6) by (simp add: icmp_split_def node_bytes_def drop_map)
  ultimately show "list_bytes ?st (f # zs) = rest_bytes st c off zs" by (simp add: rest_bytes_def)
qed

text \<open>Undoing it: the node behind points back to the node of the caller.\<close>

lemma icmp_relink:
  assumes "linked st (Some c) (nodeNext n) zs" "nodes st c = Some n" "h \<noteq> c" "f \<noteq> c" "h \<notin> set zs" "f \<notin> set zs"
    "\<And>x. x \<noteq> h \<Longrightarrow> x \<noteq> f \<Longrightarrow> N x = icmp_split (nodes st) h hn hp f fn n off x"
  shows "\<exists>st'. relink_next (st\<lparr>nodes := N\<rparr>) (Some c) = Some st' \<and> ram st' = ram st \<and>
    (\<forall>x. x \<noteq> h \<and> x \<noteq> f \<longrightarrow> nodes st' x = nodes st x)"
proof (cases zs)
  case Nil
  then have nx: "nodeNext n = None" using assms(1) by simp
  have "N c = Some n" using assms(2-4,7) nx by (simp add: icmp_split_def)
  then show ?thesis using assms(7) nx by (auto simp: relink_next_def icmp_split_def)
next
  case (Cons p ps)
  have cz: "c \<notin> set zs"
    using linked_distinct [of st "nodePrev n" "Some c" "c # zs"] assms(1,2) by simp
  from Cons assms(1,5,6) obtain m where m: "nodeNext n = Some p" "nodes st p = Some m" "nodePrev m = Some c"
    "h \<noteq> p" "f \<noteq> p" by auto
  have pc: "p \<noteq> c" using cz Cons by auto
  have Nc: "N c = Some n" using assms(2-4,7) m(1) pc by (simp add: icmp_split_def)
  have Np: "N p = Some (m\<lparr>nodePrev := Some f\<rparr>)" using assms(7) m by (simp add: icmp_split_def)
  have "m\<lparr>nodePrev := Some c\<rparr> = m" using m(3) by simp
  then have "relink_next (st\<lparr>nodes := N\<rparr>) (Some c) = Some (st\<lparr>nodes := N(p \<mapsto> m)\<rparr>)"
    using Nc Np m(1) by (simp add: relink_next_def node_put_def)
  moreover have "\<forall>x. x \<noteq> h \<and> x \<noteq> f \<longrightarrow> (N(p \<mapsto> m)) x = nodes st x"
    using assms(7) m(1,2) by (auto simp: icmp_split_def)
  ultimately show ?thesis by simp
qed

text \<open>With the links already right, nothing is to be done.\<close>

lemma relink_same:
  assumes "linked st (Some c) (nodeNext n) zs" "nodes st c = Some n" "h \<noteq> c" "f \<noteq> c" "h \<notin> set zs" "f \<notin> set zs"
    "\<And>x. x \<noteq> h \<Longrightarrow> x \<noteq> f \<Longrightarrow> N x = nodes st x"
  shows "relink_next (st\<lparr>nodes := N\<rparr>) (Some c) = Some (st\<lparr>nodes := N\<rparr>)"
proof (cases zs)
  case Nil
  then show ?thesis using assms by (simp add: relink_next_def)
next
  case (Cons p ps)
  then obtain m where m: "nodeNext n = Some p" "nodes st p = Some m" "nodePrev m = Some c" "h \<noteq> p" "f \<noteq> p"
    using assms(1,5,6) by auto
  then have "m\<lparr>nodePrev := Some c\<rparr> = m" by simp
  moreover have "N c = Some n" "N p = Some m" using assms(2-4,7) m by auto
  ultimately show ?thesis using m(1) by (simp add: relink_next_def node_put_def fun_upd_idem)
qed

lemma icmp_link_eq:
  assumes "linked st q (Some c) (c # zs)" "nodes st c = Some n" "off \<le> nodeLen n" "h \<noteq> f" "{h, f} \<inter> set (c # zs) = {}"
    "nodes st h = Some hn" "nodes st f = Some fn" "0 < k"
  shows "if length (rest_bytes st c off zs) < k
    then \<exists>st'. icmp_link st \<lparr>siElem = Some c, siOffset = off\<rparr> k hp h f = Some (st', None) \<and> ram st' = ram st \<and>
      (\<forall>x. x \<noteq> h \<and> x \<noteq> f \<longrightarrow> nodes st' x = nodes st x)
    else icmp_link st \<lparr>siElem = Some c, siOffset = off\<rparr> k hp h f =
      Some (st\<lparr>nodes := icmp_split (nodes st) h hn hp f fn n off\<rparr>, Some (k + ICMPV6_HEADER_SIZE, Some (last (f # zs))))"
proof -
  let ?st = "st\<lparr>nodes := icmp_split (nodes st) h hn hp f fn n off\<rparr>"
  have l: "linked st (Some c) (nodeNext n) zs" and ne: "h \<noteq> c" "f \<noteq> c" "h \<notin> set zs" "f \<notin> set zs"
    using assms(1,2,5) by auto
  note sp = icmp_split_linked [OF l assms(2,4) ne(3,4) assms(3), of hn hp fn]
  have len: "length (list_bytes ?st (h # f # zs)) = ICMPV6_HEADER_SIZE + length (rest_bytes st c off zs)"
    using sp(2) assms(4) by (simp add: node_bytes_def icmp_split_def)
  have walk: "iov_walk ?st (Some h) None 0 = Some (Some (last (f # zs)), ICMPV6_HEADER_SIZE + length (rest_bytes st c off zs))"
    using iov_walk_linked [OF sp(1), of None 0] len by simp
  have ins: "icmp_insert (st\<lparr>nodes := (nodes st)(h \<mapsto> hn\<lparr>nodePtr := hp, nodeLen := ICMPV6_HEADER_SIZE, nodePrev := None\<rparr>)\<rparr>)
      \<lparr>siElem = Some c, siOffset = off\<rparr> h f = Some ?st"
  proof (cases zs)
    case Nil
    then have "nodeNext n = None" using l by simp
    then show ?thesis using assms(2,4,7) ne
      by (simp add: icmp_insert_def node_put_def icmp_split_def relink_next_def fun_upd_twist)
  next
    case (Cons p ps)
    then obtain m where m: "nodeNext n = Some p" "nodes st p = Some m" "h \<noteq> p" "f \<noteq> p" using l ne by auto
    then show ?thesis using assms(2,4,7) ne
      by (simp add: icmp_insert_def node_put_def icmp_split_def relink_next_def fun_upd_twist)
  qed
  show ?thesis
  proof (cases "length (rest_bytes st c off zs) < k")
    case True
    from icmp_relink [OF l assms(2) ne, of "icmp_split (nodes st) h hn hp f fn n off" hn hp fn off] obtain st' where
      "relink_next ?st (Some c) = Some st'" "ram st' = ram st" "\<forall>x. x \<noteq> h \<and> x \<noteq> f \<longrightarrow> nodes st' x = nodes st x" by auto
    then show ?thesis using True assms(6,8) ins by (simp add: icmp_link_def node_put_def Let_def walk)
  next
    case False
    then show ?thesis using assms(6,8) ins by (simp add: icmp_link_def node_put_def Let_def walk)
  qed
qed

lemma icmp_link_empty:
  assumes "nodes st h = Some hn"
  shows "icmp_link st it 0 hp h f = Some (st\<lparr>nodes := (nodes st)(h \<mapsto> hn\<lparr>nodePtr := hp,
    nodeLen := ICMPV6_HEADER_SIZE, nodePrev := None, nodeNext := None\<rparr>)\<rparr>, Some (ICMPV6_HEADER_SIZE, Some h))"
  using assms by (simp add: icmp_link_def node_put_def)

section \<open>Properties\<close>

definition icmp_ex_store :: iov_store where
  "icmp_ex_store = \<lparr>nodes = [1 \<mapsto> \<lparr>nodePtr = 0, nodeLen = 0, nodeNext = None, nodePrev = None\<rparr>,
       2 \<mapsto> \<lparr>nodePtr = 0, nodeLen = 0, nodeNext = None, nodePrev = None\<rparr>,
       3 \<mapsto> \<lparr>nodePtr = 200, nodeLen = 3, nodeNext = Some 4, nodePrev = Some 9\<rparr>,
       4 \<mapsto> \<lparr>nodePtr = 300, nodeLen = 9, nodeNext = None, nodePrev = Some 3\<rparr>],
     ram = (\<lambda>a. of_nat a)\<rparr>"

definition icmp_ex_packet :: stored_packet where
  "icmp_ex_packet = \<lparr>spAddr = 7, spHeader = header_of_bytes (replicate 40 0), spFirst = None, spLast = None\<rparr>"

lemma icmp_ex:
  "linked icmp_ex_store (Some 9) (Some 3) [3, 4]" "1 \<le> length (node_bytes icmp_ex_store 3)" "(1 :: nat) \<noteq> 2"
  "{1 :: nat, 2} \<inter> set [3, 4] = {}" "nodes icmp_ex_store 1 \<noteq> None" "nodes icmp_ex_store 2 \<noteq> None"
  "length (rest_bytes icmp_ex_store 3 1 [4]) = 11" "header_ok (spHeader icmp_ex_packet)"
  by (simp_all add: icmp_ex_store_def icmp_ex_packet_def node_bytes_def rest_bytes_def header_of_bytes_ok)

text \<open>C29: putting a payload into an ICMPv6 packet, and taking it out again. When the list of the caller is well linked,
  as many bytes as announced follow the iterator, and there is a packet, the packet consists of the header node and
  (unless the payload is empty) a node with the rest of the caller's node and the nodes behind it: its bytes
  are the four bytes of the ICMPv6 header that the caller points to and then exactly those from the iterator on. The
  IPv6 header has version 6, no traffic class and no flow label, names ICMPv6, the addresses (the undefined one when there
  is no source), the length with the ICMPv6 header, and a hop limit of one inside a link. Unwrapping it
  gives every node but the two lent ones back as it was; no byte is written.\<close>

theorem icmp_wrap_unwrap:
  assumes "linked st q (Some c) (c # zs)" "off \<le> length (node_bytes st c)" "h \<noteq> f" "{h, f} \<inter> set (c # zs) = {}"
    "nodes st h \<noteq> None" "nodes st f \<noteq> None" "k \<le> length (rest_bytes st c off zs)" "k + ICMPV6_HEADER_SIZE < 65536"
    "allocPacket s = (s', Some pkt)" "header_ok (spHeader pkt)"
    "pred_option ipv6_addr_ok srcOpt" "ipv6_addr_ok dst"
    "it = \<lparr>siElem = Some c, siOffset = off\<rparr>"
  shows "\<exists>st' pkt' ls. whip6_icmpv6WrapDataIntoOutgoingIpv6PacketCarryingIcmpMessage allocPacket s st it k hp h f srcOpt dst =
      Some (s', st', Some pkt') \<and>
    linked st' None (spFirst pkt') (h # ls) \<and> spLast pkt' = Some (last (h # ls)) \<and>
    list_bytes st' (h # ls) = map (\<lambda>i. ram st (hp + i)) [0, 1, 2, 3] @ (if k = 0 then [] else rest_bytes st c off zs) \<and>
    whip6_ipv6BasicHeaderGetVersion (spHeader pkt') = 6 \<and> whip6_ipv6BasicHeaderGetTrafficClass (spHeader pkt') = 0 \<and>
    whip6_ipv6BasicHeaderGetFlowLabel (spHeader pkt') = 0 \<and>
    unat (whip6_ipv6BasicHeaderGetPayloadLength (spHeader pkt')) = k + ICMPV6_HEADER_SIZE \<and>
    whip6_ipv6BasicHeaderGetNextHeader (spHeader pkt') = WHIP6_IANA_IPV6_ICMP \<and>
    whip6_ipv6BasicHeaderGetHopLimit (spHeader pkt') = (if whip6_ipv6AddrGetScope dst \<le> IPV6_ADDRESS_SCOPE_LINK_LOCAL
      then 1 else WHIP6_IPV6_DEFAULT_HOP_LIMIT) \<and>
    hdrSrcAddr (spHeader pkt') = (case srcOpt of None \<Rightarrow> replicate 16 0 | Some src \<Rightarrow> src) \<and> hdrDstAddr (spHeader pkt') = dst \<and>
    ram st' = ram st \<and>
    (\<forall>s2. \<exists>st2. whip6_icmpv6UnwrapDataFromOutgoingIpv6PacketCarryingIcmpMessage freePacket s2 st' (Some pkt') (Some it) k
        (Some h) (Some f) = Some (freePacket s2 pkt', st2, True) \<and>
      ram st2 = ram st \<and> (\<forall>x. x \<noteq> h \<and> x \<noteq> f \<longrightarrow> nodes st2 x = nodes st x))"
proof -
  from assms(1) obtain n where n: "nodes st c = Some n" "linked st (Some c) (nodeNext n) zs" by auto
  from assms(5,6) obtain hn fn where hf: "nodes st h = Some hn" "nodes st f = Some fn" by auto
  have ne: "h \<noteq> c" "f \<noteq> c" "h \<notin> set zs" "f \<notin> set zs" using assms(4) by auto
  have off: "off \<le> nodeLen n" using assms(2) n(1) by (simp add: node_bytes_length)
  obtain hdr where hdr: "icmp_ipv6_header (spHeader pkt) (k + ICMPV6_HEADER_SIZE) srcOpt dst = Some hdr"
    "whip6_ipv6BasicHeaderGetVersion hdr = 6" "whip6_ipv6BasicHeaderGetTrafficClass hdr = 0"
    "whip6_ipv6BasicHeaderGetFlowLabel hdr = 0"
    "whip6_ipv6BasicHeaderGetPayloadLength hdr = of_nat (k + ICMPV6_HEADER_SIZE)"
    "whip6_ipv6BasicHeaderGetNextHeader hdr = WHIP6_IANA_IPV6_ICMP"
    "whip6_ipv6BasicHeaderGetHopLimit hdr = (if whip6_ipv6AddrGetScope dst \<le> IPV6_ADDRESS_SCOPE_LINK_LOCAL
      then 1 else WHIP6_IPV6_DEFAULT_HOP_LIMIT)"
    "hdrSrcAddr hdr = (case srcOpt of None \<Rightarrow> replicate 16 0 | Some src \<Rightarrow> src)" "hdrDstAddr hdr = dst"
    using icmp_ipv6_header_fields [OF assms(10,11,12)] by metis
  have len: "unat (of_nat (k + ICMPV6_HEADER_SIZE) :: u16) = k + ICMPV6_HEADER_SIZE"
    using assms(8) by (rule unat_u16_of_nat)
  define N where "N = (if k = 0
    then (nodes st)(h \<mapsto> hn\<lparr>nodePtr := hp, nodeLen := ICMPV6_HEADER_SIZE, nodePrev := None, nodeNext := None\<rparr>)
    else icmp_split (nodes st) h hn hp f fn n off)"
  define ls where "ls = (if k = 0 then [] else f # zs)"
  let ?st = "st\<lparr>nodes := N\<rparr>"
  let ?pkt = "pkt\<lparr>spFirst := Some h, spLast := Some (last (h # ls)), spHeader := hdr\<rparr>"
  have link: "icmp_link st it k hp h f = Some (?st, Some (k + ICMPV6_HEADER_SIZE, Some (last (h # ls))))"
    using icmp_link_empty [OF hf(1), of it hp f] icmp_link_eq [OF assms(1) n(1) off assms(3,4) hf, of k hp] assms(7,13)
    by (simp add: N_def ls_def)
  have wrap: "whip6_icmpv6WrapDataIntoOutgoingIpv6PacketCarryingIcmpMessage allocPacket s st it k hp h f srcOpt dst =
      Some (s', ?st, Some ?pkt)"
    using link assms(9) hdr(1)
    by (simp add: whip6_icmpv6WrapDataIntoOutgoingIpv6PacketCarryingIcmpMessage_def del: last.simps)
  note sp = icmp_split_linked [OF n(2,1) assms(3) ne(3,4) off, of hn hp fn]
  have lk: "linked ?st None (Some h) (h # ls)" "list_bytes ?st ls = (if k = 0 then [] else rest_bytes st c off zs)"
    using sp by (simp_all add: N_def ls_def)
  have "node_bytes ?st h = map (\<lambda>i. ram st (hp + i)) [0, 1, 2, 3]"
    using assms(3) by (simp add: N_def icmp_split_def node_bytes_def ICMPV6_HEADER_SIZE_def upt_rec numeral_3_eq_3)
  with lk(2) have pb: "list_bytes ?st (h # ls) = map (\<lambda>i. ram st (hp + i)) [0, 1, 2, 3] @
    (if k = 0 then [] else rest_bytes st c off zs)" by (simp only: list_bytes_simps)
  have Nh: "\<exists>m. N h = Some m \<and> nodeLen m = ICMPV6_HEADER_SIZE \<and> nodeNext m = (if k = 0 then None else Some f)"
    using assms(3) by (simp add: N_def icmp_split_def)
  have Nf: "\<exists>m. N f = Some m \<and> (k \<noteq> 0 \<longrightarrow> nodeNext m = nodeNext n)"
    using assms(3) hf(2) by (simp add: N_def icmp_split_def)
  have Nc: "\<exists>m. N c = Some m \<and> nodeNext m = nodeNext n"
    using n(1) ne by (auto simp: N_def icmp_split_def split: option.split)
  obtain mh mf where m: "N h = Some mh" "N f = Some mf" using Nh Nf by auto
  let ?N = "N(h \<mapsto> mh\<lparr>nodeNext := None, nodePrev := None\<rparr>, f \<mapsto> mf\<lparr>nodeNext := None, nodePrev := None\<rparr>)"
  have "\<exists>st2. relink_next (st\<lparr>nodes := ?N\<rparr>) (Some c) = Some st2 \<and> ram st2 = ram st \<and>
    (\<forall>x. x \<noteq> h \<and> x \<noteq> f \<longrightarrow> nodes st2 x = nodes st x)"
  proof (cases "k = 0")
    case True
    then show ?thesis
      by (subst relink_same [OF n(2,1) ne]) (simp_all add: N_def)
  next
    case False
    then show ?thesis
      by (intro icmp_relink [OF n(2,1) ne, of _ hn hp fn off]) (simp add: N_def)
  qed
  then obtain st2 where st2: "relink_next (st\<lparr>nodes := ?N\<rparr>) (Some c) = Some st2" "ram st2 = ram st"
    "\<forall>x. x \<noteq> h \<and> x \<noteq> f \<longrightarrow> nodes st2 x = nodes st x" by blast
  have "whip6_icmpv6UnwrapDataFromOutgoingIpv6PacketCarryingIcmpMessage freePacket s2 ?st (Some ?pkt) (Some it) k
        (Some h) (Some f) = Some (freePacket s2 ?pkt, st2, True)" for s2
    using Nh Nf Nc m hdr(5,6) len st2(1) assms(3,13)
    by (auto simp: whip6_icmpv6UnwrapDataFromOutgoingIpv6PacketCarryingIcmpMessage_def node_put_def)
  then show ?thesis using wrap lk(1) pb hdr(2-9) len st2(2,3)
    by (intro exI [of _ ?st] exI [of _ ?pkt] exI [of _ ls]) (simp del: last.simps list_bytes_simps linked.simps list.map)
qed

theorem icmp_wrap_unwrap_witness:
  "\<exists>st' pkt' ls. whip6_icmpv6WrapDataIntoOutgoingIpv6PacketCarryingIcmpMessage (\<lambda>n. (n + 1, Some icmp_ex_packet)) (0 :: nat)
     icmp_ex_store \<lparr>siElem = Some 3, siOffset = 1\<rparr> 10 500 1 2 None (replicate 16 2) = Some (1, st', Some pkt') \<and>
     list_bytes st' (1 # ls) = map (\<lambda>i. ram icmp_ex_store (500 + i)) [0, 1, 2, 3] @ rest_bytes icmp_ex_store 3 1 [4] \<and>
     whip6_ipv6BasicHeaderGetVersion (spHeader pkt') = 6 \<and> hdrSrcAddr (spHeader pkt') = replicate 16 0"
proof -
  have side: "10 \<le> length (rest_bytes icmp_ex_store 3 1 [4])" "10 + ICMPV6_HEADER_SIZE < 65536"
    "(\<lambda>n. (n + 1, Some icmp_ex_packet)) (0 :: nat) = (1, Some icmp_ex_packet)"
    "pred_option ipv6_addr_ok None" "ipv6_addr_ok (replicate 16 2)"
    unfolding icmp_ex(7) by (simp_all add: ICMPV6_HEADER_SIZE_def ipv6_addr_ok_def)
  from icmp_wrap_unwrap [where allocPacket = "\<lambda>n. (n + 1, Some icmp_ex_packet)" and freePacket = "\<lambda>n _. n - 1" and hp = 500
      and srcOpt = None,
      OF icmp_ex(1-6) side(1-3) icmp_ex(8) side(4,5) refl]
  show ?thesis by (elim ex_forward conjE) (simp del: list_bytes_simps)
qed

text \<open>when an ICMPv6 packet is refused, namely exactly when the iterator has fewer bytes behind it than
  announced or there is no packet, every node of the caller except the two lent ones is as it was, and no
  byte is written.\<close>

theorem icmp_wrap_refused:
  assumes "linked st q (Some c) (c # zs)" "off \<le> length (node_bytes st c)" "h \<noteq> f" "{h, f} \<inter> set (c # zs) = {}"
    "nodes st h \<noteq> None" "nodes st f \<noteq> None" "pred_option (\<lambda>pkt. header_ok (spHeader pkt)) (snd (allocPacket s))"
    "pred_option ipv6_addr_ok srcOpt" "ipv6_addr_ok dst"
  shows "\<exists>s1 st1 res. whip6_icmpv6WrapDataIntoOutgoingIpv6PacketCarryingIcmpMessage allocPacket s st
      \<lparr>siElem = Some c, siOffset = off\<rparr> k hp h f srcOpt dst = Some (s1, st1, res) \<and>
    (res = None \<longleftrightarrow> length (rest_bytes st c off zs) < k \<or> snd (allocPacket s) = None) \<and>
    (res = None \<longrightarrow> ram st1 = ram st \<and> (\<forall>x. x \<noteq> h \<and> x \<noteq> f \<longrightarrow> nodes st1 x = nodes st x))"
proof -
  let ?it = "\<lparr>siElem = Some c, siOffset = off\<rparr>"
  from assms(1) obtain n where n: "nodes st c = Some n" "linked st (Some c) (nodeNext n) zs" by auto
  from assms(5,6) obtain hn fn where hf: "nodes st h = Some hn" "nodes st f = Some fn" by auto
  have ne: "h \<noteq> c" "f \<noteq> c" "h \<notin> set zs" "f \<notin> set zs" using assms(4) by auto
  have off: "off \<le> nodeLen n" using assms(2) n(1) by (simp add: node_bytes_length)
  show ?thesis
  proof (cases "length (rest_bytes st c off zs) < k")
    case True
    then have "0 < k" by simp
    from icmp_link_eq [OF assms(1) n(1) off assms(3,4) hf this, of hp] True obtain st' where
      "icmp_link st ?it k hp h f = Some (st', None)" "ram st' = ram st" "\<forall>x. x \<noteq> h \<and> x \<noteq> f \<longrightarrow> nodes st' x = nodes st x"
      by auto
    then show ?thesis using True by (simp add: whip6_icmpv6WrapDataIntoOutgoingIpv6PacketCarryingIcmpMessage_def)
  next
    case False
    have "\<exists>N m lst st2. icmp_link st ?it k hp h f = Some (st\<lparr>nodes := N\<rparr>, Some (m, lst)) \<and>
      relink_next (st\<lparr>nodes := N\<rparr>) (Some c) = Some st2 \<and> ram st2 = ram st \<and>
      (\<forall>x. x \<noteq> h \<and> x \<noteq> f \<longrightarrow> nodes st2 x = nodes st x)"
    proof (cases "k = 0")
      case True
      let ?N = "(nodes st)(h \<mapsto> hn\<lparr>nodePtr := hp, nodeLen := ICMPV6_HEADER_SIZE, nodePrev := None, nodeNext := None\<rparr>)"
      have "relink_next (st\<lparr>nodes := ?N\<rparr>) (Some c) = Some (st\<lparr>nodes := ?N\<rparr>)"
        by (rule relink_same [OF n(2,1) ne]) simp
      then show ?thesis using icmp_link_empty [OF hf(1), of ?it hp f] True by auto
    next
      case k: False
      let ?N = "icmp_split (nodes st) h hn hp f fn n off"
      have "icmp_link st ?it k hp h f = Some (st\<lparr>nodes := ?N\<rparr>, Some (k + ICMPV6_HEADER_SIZE, Some (last (f # zs))))"
        using icmp_link_eq [OF assms(1) n(1) off assms(3,4) hf, of k hp] False k by simp
      with icmp_relink [OF n(2,1) ne, of ?N hn hp fn off] show ?thesis by blast
    qed
    then obtain N m lst st2 where link: "icmp_link st ?it k hp h f = Some (st\<lparr>nodes := N\<rparr>, Some (m, lst))"
      "relink_next (st\<lparr>nodes := N\<rparr>) (Some c) = Some st2" "ram st2 = ram st"
      "\<forall>x. x \<noteq> h \<and> x \<noteq> f \<longrightarrow> nodes st2 x = nodes st x" by blast
    show ?thesis
    proof (cases "snd (allocPacket s)")
      case None
      then show ?thesis using link
        by (cases "allocPacket s") (simp add: whip6_icmpv6WrapDataIntoOutgoingIpv6PacketCarryingIcmpMessage_def)
    next
      case (Some pkt)
      from icmp_ipv6_header_fields [OF _ assms(8,9), of "spHeader pkt" m] assms(7) Some obtain hdr where
        "icmp_ipv6_header (spHeader pkt) m srcOpt dst = Some hdr" by auto
      then show ?thesis using link(1) Some False
        by (cases "allocPacket s") (simp add: whip6_icmpv6WrapDataIntoOutgoingIpv6PacketCarryingIcmpMessage_def)
    qed
  qed
qed

theorem icmp_wrap_refused_witness:
  "\<exists>s1 st1. whip6_icmpv6WrapDataIntoOutgoingIpv6PacketCarryingIcmpMessage (\<lambda>n. (n + 1, Some icmp_ex_packet)) (0 :: nat)
     icmp_ex_store \<lparr>siElem = Some 3, siOffset = 1\<rparr> 12 500 1 2 None (replicate 16 2) = Some (s1, st1, None) \<and>
     nodes st1 4 = nodes icmp_ex_store 4"
proof -
  have side: "pred_option (\<lambda>pkt. header_ok (spHeader pkt)) (snd ((\<lambda>n. (n + 1, Some icmp_ex_packet)) (0 :: nat)))"
    "pred_option ipv6_addr_ok None" "ipv6_addr_ok (replicate 16 2)"
    by (simp_all add: ipv6_addr_ok_def icmp_ex(8))
  from icmp_wrap_refused [where allocPacket = "\<lambda>n. (n + 1, Some icmp_ex_packet)" and s = 0 and hp = 500 and k = 12,
      OF icmp_ex(1-6) side] obtain s1 st1 res where
    w: "whip6_icmpv6WrapDataIntoOutgoingIpv6PacketCarryingIcmpMessage (\<lambda>n. (n + 1, Some icmp_ex_packet)) (0 :: nat)
     icmp_ex_store \<lparr>siElem = Some 3, siOffset = 1\<rparr> 12 500 1 2 None (replicate 16 2) = Some (s1, st1, res)"
    "res = None \<longleftrightarrow> (11 :: nat) < 12 \<or> snd ((\<lambda>n. (n + 1, Some icmp_ex_packet)) (0 :: nat)) = None"
    "res = None \<longrightarrow> ram st1 = ram icmp_ex_store \<and> (\<forall>x. x \<noteq> 1 \<and> x \<noteq> 2 \<longrightarrow> nodes st1 x = nodes icmp_ex_store x)"
    unfolding icmp_ex(7) by (elim exE conjE)
  from w(2) have r: "res = None" by simp
  from w(3) r have "nodes st1 4 = nodes icmp_ex_store 4" by simp
  with w(1) show ?thesis unfolding r by (intro exI conjI)
qed

end
