(* ===== verification/Icmpv6_Builders.thy ===== *)
theory Icmpv6_Builders
  imports Icmpv6_Message Base_IoVecIter
begin

text \<open>
  Packets with ICMPv6 messages of the common format: \<open>microc/src/icmpv6/ucIcmpv6BasicMessageBuilders.c\<close>,
  \<open>microc/include/icmpv6/detail/ucIcmpv6BasicMessageBuildersImpl.h\<close> and \<open>ucIcmpv6BasicTypes.h\<close>, over the
  packet allocation of theory \<open>Ipv6_Packet\<close>. The result is \<open>None\<close> where the code would use a \<open>NULL\<close> pointer.
\<close>

definition WHIP6_ICMPV6_MESSAGE_TYPE_DESTINATION_UNREACHABLE :: u8 where
  "WHIP6_ICMPV6_MESSAGE_TYPE_DESTINATION_UNREACHABLE = 1"
definition WHIP6_ICMPV6_MESSAGE_TYPE_PACKET_TOO_BIG :: u8 where "WHIP6_ICMPV6_MESSAGE_TYPE_PACKET_TOO_BIG = 2"
definition WHIP6_ICMPV6_MESSAGE_TYPE_TIME_EXCEEDED :: u8 where "WHIP6_ICMPV6_MESSAGE_TYPE_TIME_EXCEEDED = 3"
definition WHIP6_ICMPV6_MESSAGE_TYPE_PARAMETER_PROBLEM :: u8 where "WHIP6_ICMPV6_MESSAGE_TYPE_PARAMETER_PROBLEM = 4"
definition WHIP6_ICMPV6_MESSAGE_TYPE_ECHO_REQUEST :: u8 where "WHIP6_ICMPV6_MESSAGE_TYPE_ECHO_REQUEST = 128"
definition WHIP6_ICMPV6_MESSAGE_TYPE_ECHO_REPLY :: u8 where "WHIP6_ICMPV6_MESSAGE_TYPE_ECHO_REPLY = 129"

definition whip6_icmpv6CreatePacketProtoFillInIpv6Header ::
  "ipv6_basic_header \<Rightarrow> ipv6_addr \<Rightarrow> ipv6_addr \<Rightarrow> u16 \<Rightarrow> ipv6_basic_header option" where
  "whip6_icmpv6CreatePacketProtoFillInIpv6Header hdr srcAddr dstAddr packetSize =
     do { let hdr = whip6_ipv6BasicHeaderSetVersion hdr WHIP6_IPV6_VERSION_NUMBER;
          let hdr = whip6_ipv6BasicHeaderSetTrafficClass hdr 0;
          let hdr = whip6_ipv6BasicHeaderSetFlowLabel hdr 0;
          let hdr = whip6_ipv6BasicHeaderSetPayloadLength hdr packetSize;
          let hdr = whip6_ipv6BasicHeaderSetNextHeader hdr WHIP6_IANA_IPV6_ICMP;
          let hdr = whip6_ipv6BasicHeaderSetHopLimit hdr WHIP6_IPV6_DEFAULT_HOP_LIMIT;
          s \<leftarrow> whip6_shortMemCpy srcAddr 0 (hdrSrcAddr hdr) 0 16;
          let hdr = hdr\<lparr>hdrSrcAddr := s\<rparr>;
          d \<leftarrow> whip6_shortMemCpy dstAddr 0 (hdrDstAddr hdr) 0 16;
          Some (hdr\<lparr>hdrDstAddr := d\<rparr>) }"

text \<open>\<open>payloadPtr\<close> advances with every byte.\<close>

fun put_bytes :: "u8 list \<Rightarrow> nat \<Rightarrow> u8 list \<Rightarrow> u8 list option" where
  "put_bytes buf payloadPtr [] = Some buf"
| "put_bytes buf payloadPtr (b # bs) = do { buf \<leftarrow> buf_put buf payloadPtr b; put_bytes buf (payloadPtr + 1) bs }"

definition whip6_icmpv6CreatePacketProtoForCommonFormatMessage ::
  "'s ipv6_alloc \<Rightarrow> 's \<Rightarrow> ipv6_addr \<Rightarrow> ipv6_addr \<Rightarrow> u16 \<Rightarrow> u8 \<Rightarrow> u8 \<Rightarrow> u32 \<Rightarrow>
   ('s \<times> (ipv6_packet \<times> iov_blist_iter) option) option" where
  "whip6_icmpv6CreatePacketProtoForCommonFormatMessage A s srcAddr dstAddr packetSize icmpv6Type icmpv6Code icmpv6RemainingFourOctets =
     do { let packetSize = packetSize + of_nat (ICMPV6_HEADER_SIZE + 4);
          (s, r) \<leftarrow> whip6_ipv6AllocatePacket A s packetSize;
          case r of
            None \<Rightarrow> Some (s, None)
          | Some packet \<Rightarrow>
              do { hdr \<leftarrow> whip6_icmpv6CreatePacketProtoFillInIpv6Header (pktHeader packet) srcAddr dstAddr packetSize;
                   let packet = packet\<lparr>pktHeader := hdr\<rparr>;
                   case firstPayloadIov packet of
                     [] \<Rightarrow> None
                   | e # es \<Rightarrow>
                       if elemLen e < ICMPV6_HEADER_SIZE + 4 then Some (whip6_ipv6FreePacket A s packet, None)
                       else
                         do { buf \<leftarrow> put_bytes (elemBuf e) 0 [icmpv6Type, icmpv6Code, 0, 0,
                                ucast (drop_bit 24 icmpv6RemainingFourOctets), ucast (drop_bit 16 icmpv6RemainingFourOctets),
                                ucast (drop_bit 8 icmpv6RemainingFourOctets), ucast icmpv6RemainingFourOctets];
                              Some (s, Some (packet\<lparr>firstPayloadIov := e\<lparr>elemBuf := buf\<rparr> # es\<rparr>,
                                \<lparr>currElem = Some 0, iterOffset = ICMPV6_HEADER_SIZE + 4\<rparr>)) } } }"

definition whip6_icmpv6CreatePacketProtoForDestinationUnreachableMessage ::
  "'s ipv6_alloc \<Rightarrow> 's \<Rightarrow> ipv6_addr \<Rightarrow> ipv6_addr \<Rightarrow> u16 \<Rightarrow> u8 \<Rightarrow> ('s \<times> (ipv6_packet \<times> iov_blist_iter) option) option" where
  "whip6_icmpv6CreatePacketProtoForDestinationUnreachableMessage A s srcAddr dstAddr packetSize icmpv6Code =
     whip6_icmpv6CreatePacketProtoForCommonFormatMessage A s srcAddr dstAddr packetSize
       WHIP6_ICMPV6_MESSAGE_TYPE_DESTINATION_UNREACHABLE icmpv6Code 0"

definition whip6_icmpv6CreatePacketProtoForPacketTooBigMessage ::
  "'s ipv6_alloc \<Rightarrow> 's \<Rightarrow> ipv6_addr \<Rightarrow> ipv6_addr \<Rightarrow> u16 \<Rightarrow> u16 \<Rightarrow> ('s \<times> (ipv6_packet \<times> iov_blist_iter) option) option" where
  "whip6_icmpv6CreatePacketProtoForPacketTooBigMessage A s srcAddr dstAddr packetSize icmpv6MTU =
     whip6_icmpv6CreatePacketProtoForCommonFormatMessage A s srcAddr dstAddr packetSize
       WHIP6_ICMPV6_MESSAGE_TYPE_PACKET_TOO_BIG 0 (ucast icmpv6MTU)"

definition whip6_icmpv6CreatePacketProtoForTimeExceededMessage ::
  "'s ipv6_alloc \<Rightarrow> 's \<Rightarrow> ipv6_addr \<Rightarrow> ipv6_addr \<Rightarrow> u16 \<Rightarrow> u8 \<Rightarrow> ('s \<times> (ipv6_packet \<times> iov_blist_iter) option) option" where
  "whip6_icmpv6CreatePacketProtoForTimeExceededMessage A s srcAddr dstAddr packetSize icmpv6Code =
     whip6_icmpv6CreatePacketProtoForCommonFormatMessage A s srcAddr dstAddr packetSize
       WHIP6_ICMPV6_MESSAGE_TYPE_TIME_EXCEEDED icmpv6Code 0"

definition whip6_icmpv6CreatePacketProtoForParameterProblemMessage ::
  "'s ipv6_alloc \<Rightarrow> 's \<Rightarrow> ipv6_addr \<Rightarrow> ipv6_addr \<Rightarrow> u16 \<Rightarrow> u8 \<Rightarrow> u32 \<Rightarrow>
   ('s \<times> (ipv6_packet \<times> iov_blist_iter) option) option" where
  "whip6_icmpv6CreatePacketProtoForParameterProblemMessage A s srcAddr dstAddr packetSize icmpv6Code icmpv6Ptr =
     whip6_icmpv6CreatePacketProtoForCommonFormatMessage A s srcAddr dstAddr packetSize
       WHIP6_ICMPV6_MESSAGE_TYPE_PARAMETER_PROBLEM icmpv6Code icmpv6Ptr"

definition whip6_icmpv6CreatePacketProtoForEchoRequestMessage ::
  "'s ipv6_alloc \<Rightarrow> 's \<Rightarrow> ipv6_addr \<Rightarrow> ipv6_addr \<Rightarrow> u16 \<Rightarrow> u16 \<Rightarrow> u16 \<Rightarrow>
   ('s \<times> (ipv6_packet \<times> iov_blist_iter) option) option" where
  "whip6_icmpv6CreatePacketProtoForEchoRequestMessage A s srcAddr dstAddr packetSize icmpv6EchoId icmpv6EchoSeqNo =
     whip6_icmpv6CreatePacketProtoForCommonFormatMessage A s srcAddr dstAddr packetSize
       WHIP6_ICMPV6_MESSAGE_TYPE_ECHO_REQUEST 0 (push_bit 16 (ucast icmpv6EchoId) OR ucast icmpv6EchoSeqNo)"

definition whip6_icmpv6CreatePacketProtoForEchoReplyMessage ::
  "'s ipv6_alloc \<Rightarrow> 's \<Rightarrow> ipv6_addr \<Rightarrow> ipv6_addr \<Rightarrow> u16 \<Rightarrow> u16 \<Rightarrow> u16 \<Rightarrow>
   ('s \<times> (ipv6_packet \<times> iov_blist_iter) option) option" where
  "whip6_icmpv6CreatePacketProtoForEchoReplyMessage A s srcAddr dstAddr packetSize icmpv6EchoId icmpv6EchoSeqNo =
     whip6_icmpv6CreatePacketProtoForCommonFormatMessage A s srcAddr dstAddr packetSize
       WHIP6_ICMPV6_MESSAGE_TYPE_ECHO_REPLY 0 (push_bit 16 (ucast icmpv6EchoId) OR ucast icmpv6EchoSeqNo)"

section \<open>Lemmas\<close>

lemma FillInIpv6Header_fields:
  assumes "header_ok hdr" "ipv6_addr_ok src" "ipv6_addr_ok dst"
  shows "\<exists>hdr'. whip6_icmpv6CreatePacketProtoFillInIpv6Header hdr src dst n = Some hdr' \<and> header_ok hdr' \<and>
    whip6_ipv6BasicHeaderGetVersion hdr' = 6 \<and> whip6_ipv6BasicHeaderGetTrafficClass hdr' = 0 \<and>
    whip6_ipv6BasicHeaderGetFlowLabel hdr' = 0 \<and> whip6_ipv6BasicHeaderGetPayloadLength hdr' = n \<and>
    whip6_ipv6BasicHeaderGetNextHeader hdr' = WHIP6_IANA_IPV6_ICMP \<and>
    whip6_ipv6BasicHeaderGetHopLimit hdr' = WHIP6_IPV6_DEFAULT_HOP_LIMIT \<and>
    hdrSrcAddr hdr' = src \<and> hdrDstAddr hdr' = dst"
proof -
  have l: "length src = 16" "length dst = 16" using assms(2,3) by (simp_all add: ipv6_addr_ok_def)
  let ?h4 = "whip6_ipv6BasicHeaderSetPayloadLength (whip6_ipv6BasicHeaderSetFlowLabel
    (whip6_ipv6BasicHeaderSetTrafficClass (whip6_ipv6BasicHeaderSetVersion hdr WHIP6_IPV6_VERSION_NUMBER) 0) 0) n"
  note b = built_header [OF assms(1) l, where pl = n]
  have "whip6_icmpv6CreatePacketProtoFillInIpv6Header hdr src dst n = Some (?h4\<lparr>nextHdrByte := WHIP6_IANA_IPV6_ICMP,
      hopLimitByte := WHIP6_IPV6_DEFAULT_HOP_LIMIT, hdrSrcAddr := src, hdrDstAddr := dst\<rparr>)"
    using b(1) l
    by (simp add: whip6_icmpv6CreatePacketProtoFillInIpv6Header_def Let_def whip6_ipv6BasicHeaderSetNextHeader_def
        header_ok_def whip6_ipv6BasicHeaderSetHopLimit_def shortMemCpy_eq mem_blit_def)
  with b(2) [where nh = WHIP6_IANA_IPV6_ICMP and hl = WHIP6_IPV6_DEFAULT_HOP_LIMIT] show ?thesis by blast
qed

lemma put_bytes_eq: "i + length bs \<le> length buf \<Longrightarrow> put_bytes buf i bs = Some (mem_blit buf i bs)"
proof (induction bs arbitrary: buf i)
  case Nil
  then show ?case by simp
next
  case (Cons b bs)
  have "mem_blit (buf[i := b]) (Suc i) bs = mem_blit buf i (b # bs)"
    using Cons.prems by (simp add: mem_blit_def take_Suc_conv_app_nth)
  then show ?case using Cons by simp
qed

text \<open>The four octets, high byte first.\<close>

lemma octets_join:
  "push_bit 24 (ucast (ucast (drop_bit 24 w) :: u8)) OR push_bit 16 (ucast (ucast (drop_bit 16 w) :: u8)) OR
   push_bit 8 (ucast (ucast (drop_bit 8 w) :: u8)) OR ucast (ucast w :: u8) = (w :: u32)"
proof (rule bit_word_eqI)
  fix n assume "n < LENGTH(32)"
  moreover have "n = n - 24 + 24 \<or> n < 24" "n = n - 16 + 16 \<or> n < 16" "n = n - 8 + 8 \<or> n < 8" by auto
  ultimately show "bit (push_bit 24 (ucast (ucast (drop_bit 24 w) :: u8)) OR push_bit 16 (ucast (ucast (drop_bit 16 w) :: u8)) OR
      push_bit 8 (ucast (ucast (drop_bit 8 w) :: u8)) OR ucast (ucast w :: u8) :: u32) n = bit w n"
    by (auto simp: bit_simps)
qed

lemma echo_octets:
  fixes i q :: u16
  defines "w \<equiv> push_bit 16 (ucast i) OR ucast q :: u32"
  shows "ucast (drop_bit 24 w) = u16_hi i" "ucast (drop_bit 16 w) = u16_lo i"
    "ucast (drop_bit 8 w) = u16_hi q" "(ucast w :: u8) = u16_lo q"
  unfolding w_def u16_hi_def u16_lo_def
  by (rule bit_word_eqI, auto simp: bit_simps dest: bit_imp_le_length)+

section \<open>Properties\<close>

text \<open>A message in a packet: its first eight bytes, and what the pools have before and after.\<close>

definition message_built ::
  "packet_pools \<Rightarrow> (packet_pools \<times> (ipv6_packet \<times> iov_blist_iter) option) option \<Rightarrow> ipv6_addr \<Rightarrow> ipv6_addr \<Rightarrow> u16 \<Rightarrow> u8 list \<Rightarrow> bool" where
  "message_built s res src dst packetSize octets \<longleftrightarrow>
     (\<exists>s' r. res = Some (s', r) \<and>
       (case r of
          None \<Rightarrow> pool_avail (iovPool s') = pool_avail (iovPool s) \<and>
            pool_avail (packetPool s') = pool_avail (packetPool s) \<and>
            (\<forall>s1 p. whip6_ipv6AllocatePacket pools s (packetSize + 8) = Some (s1, Some p) \<longrightarrow>
               elemLen (hd (firstPayloadIov p)) < 8)
        | Some (p, it) \<Rightarrow>
            take 8 (concat (pkt_iov p)) = octets \<and> length (concat (pkt_iov p)) = unat packetSize + 8 \<and>
            currElem it = Some 0 \<and> iterOffset it = 8 \<and> 8 \<le> elemLen (hd (firstPayloadIov p)) \<and>
            header_ok (pktHeader p) \<and>
            whip6_ipv6BasicHeaderGetVersion (pktHeader p) = 6 \<and> whip6_ipv6BasicHeaderGetTrafficClass (pktHeader p) = 0 \<and>
            whip6_ipv6BasicHeaderGetFlowLabel (pktHeader p) = 0 \<and>
            unat (whip6_ipv6BasicHeaderGetPayloadLength (pktHeader p)) = unat packetSize + 8 \<and>
            whip6_ipv6BasicHeaderGetNextHeader (pktHeader p) = WHIP6_IANA_IPV6_ICMP \<and>
            whip6_ipv6BasicHeaderGetHopLimit (pktHeader p) = WHIP6_IPV6_DEFAULT_HOP_LIMIT \<and>
            hdrSrcAddr (pktHeader p) = src \<and> hdrDstAddr (pktHeader p) = dst \<and>
            pool_avail (iovPool s) = pool_avail (iovPool s') + chain_addrs (firstPayloadIov p) \<and>
            pool_avail (packetPool s) = add_mset (pktAddr p) (pool_avail (packetPool s'))))"

lemma common_message_built:
  assumes "ipv6_addr_ok src" "ipv6_addr_ok dst" "unat packetSize + 8 < 65536"
  shows "message_built s (whip6_icmpv6CreatePacketProtoForCommonFormatMessage pools s src dst packetSize ty code w)
    src dst packetSize [ty, code, 0, 0, ucast (drop_bit 24 w), ucast (drop_bit 16 w), ucast (drop_bit 8 w), ucast w]"
proof -
  let ?octets = "[ty, code, 0, 0, ucast (drop_bit 24 w), ucast (drop_bit 16 w), ucast (drop_bit 8 w), ucast w]"
  have n: "unat (packetSize + 8) = unat packetSize + 8" using assms(3) by (simp add: unat_add_lem [THEN iffD1])
  obtain s1 r where al: "whip6_ipv6AllocatePacket pools s (packetSize + 8) = Some (s1, r)"
    "case r of
       None \<Rightarrow> pool_avail (iovPool s1) = pool_avail (iovPool s) \<and> pool_avail (packetPool s1) = pool_avail (packetPool s)
     | Some p \<Rightarrow> pool_avail (iovPool s1) + chain_addrs (firstPayloadIov p) = pool_avail (iovPool s) \<and>
         pool_avail (packetPool s) = add_mset (pktAddr p) (pool_avail (packetPool s1)) \<and>
         packet_ok p \<and> chain_len (firstPayloadIov p) = unat (packetSize + 8)"
    using pkt.alloc_packet [OF TrueI, of s "packetSize + 8"] by auto
  show ?thesis
  proof (cases r)
    case None
    then show ?thesis using al
      by (simp add: message_built_def whip6_icmpv6CreatePacketProtoForCommonFormatMessage_def ICMPV6_HEADER_SIZE_def)
  next
    case (Some p)
    then have p: "packet_ok p" "chain_len (firstPayloadIov p) = unat packetSize + 8"
      "pool_avail (iovPool s1) + chain_addrs (firstPayloadIov p) = pool_avail (iovPool s)"
      "pool_avail (packetPool s) = add_mset (pktAddr p) (pool_avail (packetPool s1))" using al(2) n by simp_all
    obtain hdr where hdr: "whip6_icmpv6CreatePacketProtoFillInIpv6Header (pktHeader p) src dst (packetSize + 8) = Some hdr"
      "header_ok hdr" "whip6_ipv6BasicHeaderGetVersion hdr = 6" "whip6_ipv6BasicHeaderGetTrafficClass hdr = 0"
      "whip6_ipv6BasicHeaderGetFlowLabel hdr = 0" "whip6_ipv6BasicHeaderGetPayloadLength hdr = packetSize + 8"
      "whip6_ipv6BasicHeaderGetNextHeader hdr = WHIP6_IANA_IPV6_ICMP"
      "whip6_ipv6BasicHeaderGetHopLimit hdr = WHIP6_IPV6_DEFAULT_HOP_LIMIT" "hdrSrcAddr hdr = src" "hdrDstAddr hdr = dst"
      using FillInIpv6Header_fields [OF _ assms(1,2)] p(1) unfolding packet_ok_def by blast
    obtain e es where es: "firstPayloadIov p = e # es" using p(2) by (cases "firstPayloadIov p") auto
    show ?thesis
    proof (cases "elemLen e < 8")
      case True
      let ?p = "p\<lparr>pktHeader := hdr\<rparr>"
      have "whip6_icmpv6CreatePacketProtoForCommonFormatMessage pools s src dst packetSize ty code w =
          Some (whip6_ipv6FreePacket pools s1 ?p, None)"
        using al(1) Some hdr(1) es True
        by (simp add: whip6_icmpv6CreatePacketProtoForCommonFormatMessage_def ICMPV6_HEADER_SIZE_def)
      then show ?thesis
        using pkt.free_packet(2,3) [OF TrueI, of s1 ?p] p(3,4) es True al(1) Some by (simp add: message_built_def)
    next
      case False
      let ?p = "p\<lparr>pktHeader := hdr, firstPayloadIov := e\<lparr>elemBuf := mem_blit (elemBuf e) 0 ?octets\<rparr> # es\<rparr>"
      have blit: "mem_blit (elemBuf e) 0 ?octets = ?octets @ drop 8 (elemBuf e)" by (simp add: mem_blit_def numeral_eq_Suc)
      have "whip6_icmpv6CreatePacketProtoForCommonFormatMessage pools s src dst packetSize ty code w =
          Some (s1, Some (?p, \<lparr>currElem = Some 0, iterOffset = 8\<rparr>))"
        using al(1) Some hdr(1) es False
        by (simp add: whip6_icmpv6CreatePacketProtoForCommonFormatMessage_def ICMPV6_HEADER_SIZE_def put_bytes_eq
            del: put_bytes.simps)
      moreover have "length (concat (map elemBuf es)) = chain_len es" for es :: "iov_elem list"
        by (induction es) simp_all
      ultimately show ?thesis using hdr n p(2-4) es False by (simp add: message_built_def blit)
    qed
  qed
qed

text \<open>A message that is ready for its payload: its first eight bytes, the iterator behind them, and room for at least the
  bytes that were asked for. Without it, the memory does not suffice.\<close>

definition message_ready ::
  "packet_pools \<Rightarrow> (packet_pools \<times> (ipv6_packet \<times> iov_blist_iter) option) option \<Rightarrow> ipv6_addr \<Rightarrow> ipv6_addr \<Rightarrow> u16 \<Rightarrow> u8 list \<Rightarrow> bool" where
  "message_ready s res src dst packetSize octets \<longleftrightarrow>
     (\<exists>s' r. res = Some (s', r) \<and>
       (case r of
          None \<Rightarrow> pool_avail (iovPool s') = pool_avail (iovPool s) \<and>
            pool_avail (packetPool s') = pool_avail (packetPool s) \<and>
            (m_chunkFree (packetPool s) = [] \<or>
             length (m_chunkFree (iovPool s)) * (CHUNK_SIZE (iovPool s) - IOV_BLIST_SIZE (iovPool s)) < unat packetSize + 8)
        | Some (p, it) \<Rightarrow>
            (\<exists>room. concat (pkt_iov p) = octets @ room \<and> unat packetSize \<le> length room) \<and>
            currElem it = Some 0 \<and> iterOffset it = length octets \<and> length octets \<le> elemLen (hd (firstPayloadIov p)) \<and>
            header_ok (pktHeader p) \<and>
            whip6_ipv6BasicHeaderGetVersion (pktHeader p) = 6 \<and> whip6_ipv6BasicHeaderGetTrafficClass (pktHeader p) = 0 \<and>
            whip6_ipv6BasicHeaderGetFlowLabel (pktHeader p) = 0 \<and>
            unat (whip6_ipv6BasicHeaderGetPayloadLength (pktHeader p)) = length (concat (pkt_iov p)) \<and>
            whip6_ipv6BasicHeaderGetNextHeader (pktHeader p) = WHIP6_IANA_IPV6_ICMP \<and>
            whip6_ipv6BasicHeaderGetHopLimit (pktHeader p) = WHIP6_IPV6_DEFAULT_HOP_LIMIT \<and>
            hdrSrcAddr (pktHeader p) = src \<and> hdrDstAddr (pktHeader p) = dst \<and>
            pool_avail (iovPool s) = pool_avail (iovPool s') + chain_addrs (firstPayloadIov p) \<and>
            pool_avail (packetPool s) = add_mset (pktAddr p) (pool_avail (packetPool s'))))"

lemma message_built_ready:
  assumes "message_built s res src dst packetSize octets" "length octets = 8" "unat packetSize + 8 < 65536"
    "IOV_BLIST_SIZE (iovPool s) + 8 \<le> CHUNK_SIZE (iovPool s)"
  shows "message_ready s res src dst packetSize octets"
proof -
  have n: "unat (packetSize + 8) = unat packetSize + 8" using assms(3) by (simp add: unat_add_lem [THEN iffD1])
  obtain s' r where r: "res = Some (s', r)" using assms(1) by (auto simp: message_built_def)
  show ?thesis
  proof (cases r)
    case None
    have "m_chunkFree (packetPool s) = [] \<or>
      length (m_chunkFree (iovPool s)) * (CHUNK_SIZE (iovPool s) - IOV_BLIST_SIZE (iovPool s)) < unat packetSize + 8"
    proof (rule ccontr)
      assume "\<not> ?thesis"
      with alloc_packet_succeeds [of s "packetSize + 8"] n assms(4) obtain s1 p where
        p: "whip6_ipv6AllocatePacket pools s (packetSize + 8) = Some (s1, Some p)" by auto
      have "packetSize + 8 \<noteq> 0" using n by auto
      with alloc_packet_first_chunk [OF p] n assms(4) have "8 \<le> elemLen (hd (firstPayloadIov p))" by auto
      with p assms(1) r None show False by (auto simp: message_built_def)
    qed
    with assms(1) r None show ?thesis by (simp add: message_built_def message_ready_def)
  next
    case (Some x)
    then obtain p it where x: "r = Some (p, it)" by (cases x) auto
    with assms(1) r have b: "take 8 (concat (pkt_iov p)) = octets" "length (concat (pkt_iov p)) = unat packetSize + 8"
      by (simp_all add: message_built_def)
    have "concat (pkt_iov p) = octets @ drop 8 (concat (pkt_iov p))" "unat packetSize \<le> length (drop 8 (concat (pkt_iov p)))"
      using b by (metis append_take_drop_id, simp)
    with assms(1,2) r x show ?thesis by (auto simp: message_built_def message_ready_def)
  qed
qed


definition icmp_ex_pools :: packet_pools where
  "icmp_ex_pools = \<lparr>packetPool = pool_init (\<lambda>_ _. 0) 64 0 2, iovPool = pool_init (\<lambda>_ _. 0) 64 8 3\<rparr>"

lemma icmp_ex_pools_sizes:
  "CHUNK_SIZE (iovPool icmp_ex_pools) = 64" "IOV_BLIST_SIZE (iovPool icmp_ex_pools) = 8"
  "m_chunkFree (packetPool icmp_ex_pools) = [1, 0]" "m_chunkFree (iovPool icmp_ex_pools) = [2, 1, 0]"
  by (simp_all add: icmp_ex_pools_def pool_init_def numeral_eq_Suc)


end
