(* ===== verification/Ipv6_ExtensionHeaders.thy ===== *)
theory Ipv6_ExtensionHeaders
  imports Icmpv6_Builders "HOL-Library.Signed_Division"
begin

text \<open>
  Extension headers of incoming packets: generic ones, \<open>microc/src/ipv6/ucIpv6ExtensionHeaderProcessing.c\<close>, and
  source routing headers, \<open>microc/src/srcroute/ucSourceRouteExtensionHeaderProcessing.c\<close> with
  \<open>microc/include/srcroute/detail/ucSourceRouteExtensionHeaderManipulationImpl.h\<close>.

  The packages of the library leave these files out. The functions declare their argument as
  \<open>ipv6_in_packet_processing_state_t\<close>, but the fields they use are those of the structure that
  \<open>ucIpv6HeaderProcessorTypes.h\<close> keeps under the name \<open>ipv6_in_packet_processing_state_xxx_t\<close>: that one is modelled.
  Of the packet, its header and its payload are in the state.

  The scratchpad of the state is a union. Its model is a datatype: writing a member makes the other
  ones unreadable, and a field of the ICMPv6 member that has not been written since is \<open>None\<close>; reading it is an error.
\<close>

section \<open>The source routing header\<close>

record ipv6_extension_header_srh =
  srhNextHdr :: u8
  srhHdrExtLen :: u8
  srhRoutingType :: u8
  srhSegmentsLeft :: u8
  srhCmprX :: u8
  srhPadAndReserved :: "u8 list"

definition WHIP6_IPV6_EXTENSION_HEADER_SOURCE_ROUTE_SUPPORTED_ROUTING_TYPE :: u8 where
  "WHIP6_IPV6_EXTENSION_HEADER_SOURCE_ROUTE_SUPPORTED_ROUTING_TYPE = 3"

definition whip6_ipv6ExtensionHeaderSourceRouteGetNextHeader :: "ipv6_extension_header_srh \<Rightarrow> u8" where
  "whip6_ipv6ExtensionHeaderSourceRouteGetNextHeader hdr = srhNextHdr hdr"

definition whip6_ipv6ExtensionHeaderSourceRouteSetNextHeader ::
  "ipv6_extension_header_srh \<Rightarrow> u8 \<Rightarrow> ipv6_extension_header_srh" where
  "whip6_ipv6ExtensionHeaderSourceRouteSetNextHeader hdr nh = hdr\<lparr>srhNextHdr := nh\<rparr>"

definition whip6_ipv6ExtensionHeaderSourceRouteGetHeaderLength :: "ipv6_extension_header_srh \<Rightarrow> u16" where
  "whip6_ipv6ExtensionHeaderSourceRouteGetHeaderLength hdr = push_bit 3 (ucast (srhHdrExtLen hdr))"

definition whip6_ipv6ExtensionHeaderSourceRouteSetHeaderLength ::
  "ipv6_extension_header_srh \<Rightarrow> u16 \<Rightarrow> ipv6_extension_header_srh" where
  "whip6_ipv6ExtensionHeaderSourceRouteSetHeaderLength hdr hl = hdr\<lparr>srhHdrExtLen := ucast (drop_bit 3 hl)\<rparr>"

definition whip6_ipv6ExtensionHeaderSourceRouteGetRoutingType :: "ipv6_extension_header_srh \<Rightarrow> u8" where
  "whip6_ipv6ExtensionHeaderSourceRouteGetRoutingType hdr = srhRoutingType hdr"

definition whip6_ipv6ExtensionHeaderSourceRouteSetRoutingType ::
  "ipv6_extension_header_srh \<Rightarrow> u8 \<Rightarrow> ipv6_extension_header_srh" where
  "whip6_ipv6ExtensionHeaderSourceRouteSetRoutingType hdr rt = hdr\<lparr>srhRoutingType := rt\<rparr>"

definition whip6_ipv6ExtensionHeaderSourceRouteGetSegmentsLeft :: "ipv6_extension_header_srh \<Rightarrow> u8" where
  "whip6_ipv6ExtensionHeaderSourceRouteGetSegmentsLeft hdr = srhSegmentsLeft hdr"

definition whip6_ipv6ExtensionHeaderSourceRouteSetSegmentsLeft ::
  "ipv6_extension_header_srh \<Rightarrow> u8 \<Rightarrow> ipv6_extension_header_srh" where
  "whip6_ipv6ExtensionHeaderSourceRouteSetSegmentsLeft hdr sl = hdr\<lparr>srhSegmentsLeft := sl\<rparr>"

definition whip6_ipv6ExtensionHeaderSourceRouteGetCmprI :: "ipv6_extension_header_srh \<Rightarrow> u8" where
  "whip6_ipv6ExtensionHeaderSourceRouteGetCmprI hdr = drop_bit 4 (srhCmprX hdr)"

definition whip6_ipv6ExtensionHeaderSourceRouteSetCmprI ::
  "ipv6_extension_header_srh \<Rightarrow> u8 \<Rightarrow> ipv6_extension_header_srh" where
  "whip6_ipv6ExtensionHeaderSourceRouteSetCmprI hdr cmprI =
     hdr\<lparr>srhCmprX := (srhCmprX hdr AND 0x0f) OR push_bit 4 cmprI\<rparr>"

definition whip6_ipv6ExtensionHeaderSourceRouteGetCmprE :: "ipv6_extension_header_srh \<Rightarrow> u8" where
  "whip6_ipv6ExtensionHeaderSourceRouteGetCmprE hdr = srhCmprX hdr AND 0x0f"

definition whip6_ipv6ExtensionHeaderSourceRouteSetCmprE ::
  "ipv6_extension_header_srh \<Rightarrow> u8 \<Rightarrow> ipv6_extension_header_srh" where
  "whip6_ipv6ExtensionHeaderSourceRouteSetCmprE hdr cmprE =
     hdr\<lparr>srhCmprX := (srhCmprX hdr AND 0xf0) OR (cmprE AND 0x0f)\<rparr>"

definition whip6_ipv6ExtensionHeaderSourceRouteGetPad :: "ipv6_extension_header_srh \<Rightarrow> u8" where
  "whip6_ipv6ExtensionHeaderSourceRouteGetPad hdr = drop_bit 4 (srhPadAndReserved hdr ! 0)"

definition whip6_ipv6ExtensionHeaderSourceRouteSetPad ::
  "ipv6_extension_header_srh \<Rightarrow> u8 \<Rightarrow> ipv6_extension_header_srh" where
  "whip6_ipv6ExtensionHeaderSourceRouteSetPad hdr pad =
     hdr\<lparr>srhPadAndReserved := (srhPadAndReserved hdr)[0 := (srhPadAndReserved hdr ! 0 AND 0x0f) OR push_bit 4 pad]\<rparr>"

definition whip6_ipv6ExtensionHeaderSourceRouteCheckReserved :: "ipv6_extension_header_srh \<Rightarrow> bool" where
  "whip6_ipv6ExtensionHeaderSourceRouteCheckReserved hdr \<longleftrightarrow>
     srhPadAndReserved hdr ! 0 AND 0x0f \<noteq> 0 \<or> srhPadAndReserved hdr ! 1 \<noteq> 0 \<or> srhPadAndReserved hdr ! 2 \<noteq> 0"

definition whip6_ipv6ExtensionHeaderSourceRouteClearReserved ::
  "ipv6_extension_header_srh \<Rightarrow> ipv6_extension_header_srh" where
  "whip6_ipv6ExtensionHeaderSourceRouteClearReserved hdr =
     hdr\<lparr>srhPadAndReserved := (srhPadAndReserved hdr)[0 := srhPadAndReserved hdr ! 0 AND 0xf0, 1 := 0, 2 := 0]\<rparr>"

lemmas srh_defs = whip6_ipv6ExtensionHeaderSourceRouteGetNextHeader_def whip6_ipv6ExtensionHeaderSourceRouteSetNextHeader_def
  whip6_ipv6ExtensionHeaderSourceRouteGetHeaderLength_def whip6_ipv6ExtensionHeaderSourceRouteSetHeaderLength_def
  whip6_ipv6ExtensionHeaderSourceRouteGetRoutingType_def whip6_ipv6ExtensionHeaderSourceRouteSetRoutingType_def
  whip6_ipv6ExtensionHeaderSourceRouteGetSegmentsLeft_def whip6_ipv6ExtensionHeaderSourceRouteSetSegmentsLeft_def
  whip6_ipv6ExtensionHeaderSourceRouteGetCmprI_def whip6_ipv6ExtensionHeaderSourceRouteSetCmprI_def
  whip6_ipv6ExtensionHeaderSourceRouteGetCmprE_def whip6_ipv6ExtensionHeaderSourceRouteSetCmprE_def
  whip6_ipv6ExtensionHeaderSourceRouteGetPad_def whip6_ipv6ExtensionHeaderSourceRouteSetPad_def
  whip6_ipv6ExtensionHeaderSourceRouteCheckReserved_def whip6_ipv6ExtensionHeaderSourceRouteClearReserved_def

text \<open>The header as the eight bytes that it is in memory.\<close>

definition srh_of_bytes :: "u8 list \<Rightarrow> ipv6_extension_header_srh" where
  "srh_of_bytes bs = \<lparr>srhNextHdr = bs ! 0, srhHdrExtLen = bs ! 1, srhRoutingType = bs ! 2, srhSegmentsLeft = bs ! 3,
     srhCmprX = bs ! 4, srhPadAndReserved = take 3 (drop 5 bs)\<rparr>"

definition srh_bytes :: "ipv6_extension_header_srh \<Rightarrow> u8 list" where
  "srh_bytes hdr = [srhNextHdr hdr, srhHdrExtLen hdr, srhRoutingType hdr, srhSegmentsLeft hdr, srhCmprX hdr] @
     srhPadAndReserved hdr"

section \<open>The processing state\<close>

datatype ext_scratchpad =
    GenericHdr "u8 list"
  | SourceRouteHdr ipv6_extension_header_srh
  | Icmpv6Scratch "iov_blist_iter option" "ipv6_packet option" "u32 option"

record ext_state =
  esIter :: iov_blist_iter
  esHeader :: ipv6_basic_header
  esPayload :: iov
  esOffset :: u16
  flagsAndAction :: u8
  esNextHeader :: u8
  scratchpad :: ext_scratchpad

definition scratch_set_packet :: "ext_scratchpad \<Rightarrow> ipv6_packet option \<Rightarrow> ext_scratchpad" where
  "scratch_set_packet sp packet =
     (case sp of Icmpv6Scratch it _ ptr \<Rightarrow> Icmpv6Scratch it packet ptr | _ \<Rightarrow> Icmpv6Scratch None packet None)"

definition scratch_set_iter :: "ext_scratchpad \<Rightarrow> iov_blist_iter \<Rightarrow> ext_scratchpad" where
  "scratch_set_iter sp it =
     (case sp of Icmpv6Scratch _ packet ptr \<Rightarrow> Icmpv6Scratch (Some it) packet ptr
      | _ \<Rightarrow> Icmpv6Scratch (Some it) None None)"

definition scratch_set_pointer :: "ext_scratchpad \<Rightarrow> u32 \<Rightarrow> ext_scratchpad" where
  "scratch_set_pointer sp ptr =
     (case sp of Icmpv6Scratch it packet _ \<Rightarrow> Icmpv6Scratch it packet (Some ptr)
      | _ \<Rightarrow> Icmpv6Scratch None None (Some ptr))"

definition scratch_srh :: "ext_scratchpad \<Rightarrow> ipv6_extension_header_srh option" where
  "scratch_srh sp = (case sp of SourceRouteHdr hdr \<Rightarrow> Some hdr | _ \<Rightarrow> None)"

definition scratch_pointer :: "ext_scratchpad \<Rightarrow> u32 option" where
  "scratch_pointer sp = (case sp of Icmpv6Scratch _ _ ptr \<Rightarrow> ptr | _ \<Rightarrow> None)"

lemmas scratch_defs = scratch_set_packet_def scratch_set_iter_def scratch_set_pointer_def scratch_srh_def scratch_pointer_def

definition WHIP6_IPV6_PACKET_PROCESSING_STATE_FLAG_PRESENT_NODE_IS_DESTINATION :: u8 where
  "WHIP6_IPV6_PACKET_PROCESSING_STATE_FLAG_PRESENT_NODE_IS_DESTINATION = 0x80"
definition WHIP6_IPV6_PACKET_PROCESSING_STATE_FLAG_DISABLE_ICMPV6_ERROR_MESSAGES :: u8 where
  "WHIP6_IPV6_PACKET_PROCESSING_STATE_FLAG_DISABLE_ICMPV6_ERROR_MESSAGES = 0x40"
definition WHIP6_IPV6_PACKET_PROCESSING_STATE_ACTION_CONTINUE_PROCESSING_PACKET :: u8 where
  "WHIP6_IPV6_PACKET_PROCESSING_STATE_ACTION_CONTINUE_PROCESSING_PACKET = 0"
definition WHIP6_IPV6_PACKET_PROCESSING_STATE_ACTION_FINISH_PROCESSING_AND_FORWARD_PACKET :: u8 where
  "WHIP6_IPV6_PACKET_PROCESSING_STATE_ACTION_FINISH_PROCESSING_AND_FORWARD_PACKET = 1"
definition WHIP6_IPV6_PACKET_PROCESSING_STATE_ACTION_DROP_PACKET :: u8 where
  "WHIP6_IPV6_PACKET_PROCESSING_STATE_ACTION_DROP_PACKET = 3"
definition WHIP6_IPV6_PACKET_PROCESSING_STATE_ACTION_MASK :: u8 where
  "WHIP6_IPV6_PACKET_PROCESSING_STATE_ACTION_MASK = 3"
definition WHIP6_IANA_IPV6_NO_NEXT_HEADER :: u8 where "WHIP6_IANA_IPV6_NO_NEXT_HEADER = 59"
definition WHIP6_ICMPV6_MESSAGE_TYPE_PARAMETER_PROBLEM_CODE_ERRONEOUS_HEADER_FIELD :: u8 where
  "WHIP6_ICMPV6_MESSAGE_TYPE_PARAMETER_PROBLEM_CODE_ERRONEOUS_HEADER_FIELD = 0"
definition WHIP6_ICMPV6_MESSAGE_TYPE_PARAMETER_PROBLEM_CODE_UNRECOGNIZED_NEXT_HEADER_TYPE :: u8 where
  "WHIP6_ICMPV6_MESSAGE_TYPE_PARAMETER_PROBLEM_CODE_UNRECOGNIZED_NEXT_HEADER_TYPE = 1"

lemmas ext_constants = WHIP6_IPV6_EXTENSION_HEADER_SOURCE_ROUTE_SUPPORTED_ROUTING_TYPE_def
  WHIP6_IPV6_PACKET_PROCESSING_STATE_FLAG_PRESENT_NODE_IS_DESTINATION_def
  WHIP6_IPV6_PACKET_PROCESSING_STATE_FLAG_DISABLE_ICMPV6_ERROR_MESSAGES_def
  WHIP6_IPV6_PACKET_PROCESSING_STATE_ACTION_CONTINUE_PROCESSING_PACKET_def
  WHIP6_IPV6_PACKET_PROCESSING_STATE_ACTION_FINISH_PROCESSING_AND_FORWARD_PACKET_def
  WHIP6_IPV6_PACKET_PROCESSING_STATE_ACTION_DROP_PACKET_def WHIP6_IPV6_PACKET_PROCESSING_STATE_ACTION_MASK_def
  WHIP6_IANA_IPV6_NO_NEXT_HEADER_def WHIP6_ICMPV6_MESSAGE_TYPE_PARAMETER_PROBLEM_CODE_ERRONEOUS_HEADER_FIELD_def
  WHIP6_ICMPV6_MESSAGE_TYPE_PARAMETER_PROBLEM_CODE_UNRECOGNIZED_NEXT_HEADER_TYPE_def

text \<open>The steps that end the processing of the headers, and the error message about a field.\<close>

definition clear_action :: "ext_state \<Rightarrow> ext_state" where
  "clear_action state =
     state\<lparr>flagsAndAction := flagsAndAction state AND NOT WHIP6_IPV6_PACKET_PROCESSING_STATE_ACTION_MASK\<rparr>"

definition finish_with :: "u8 \<Rightarrow> ext_state \<Rightarrow> ext_state" where
  "finish_with action state =
     state\<lparr>flagsAndAction := flagsAndAction state OR action, esNextHeader := WHIP6_IANA_IPV6_NO_NEXT_HEADER,
       scratchpad := scratch_set_packet (scratchpad state) None\<rparr>"

definition drop_with_problem :: "'s ipv6_alloc \<Rightarrow> 's \<Rightarrow> ext_state \<Rightarrow> u8 \<Rightarrow> u32 option \<Rightarrow> ('s \<times> ext_state) option" where
  "drop_with_problem A s state code pointer =
     (let state = state\<lparr>flagsAndAction := flagsAndAction state OR WHIP6_IPV6_PACKET_PROCESSING_STATE_ACTION_DROP_PACKET,
            esNextHeader := WHIP6_IANA_IPV6_NO_NEXT_HEADER\<rparr>
      in if flagsAndAction state AND WHIP6_IPV6_PACKET_PROCESSING_STATE_FLAG_DISABLE_ICMPV6_ERROR_MESSAGES = 0
         then
           do { ptr \<leftarrow> pointer;
                (s, r) \<leftarrow> whip6_icmpv6CreatePacketProtoForParameterProblemMessage A s
                  (hdrDstAddr (esHeader state)) (hdrSrcAddr (esHeader state)) (esOffset state) code ptr;
                let sp = (case r of None \<Rightarrow> scratchpad state | Some (_, it) \<Rightarrow> scratch_set_iter (scratchpad state) it);
                Some (s, state\<lparr>scratchpad := scratch_set_packet sp (map_option fst r)\<rparr>) }
         else Some (s, state\<lparr>scratchpad := scratch_set_packet (scratchpad state) None\<rparr>))"

section \<open>Generic headers\<close>

definition whip6_ipv6ExtensionHeaderGenericFetchAndSkipHeaderIncoming :: "ext_state \<Rightarrow> ext_state option" where
  "whip6_ipv6ExtensionHeaderGenericFetchAndSkipHeaderIncoming state =
     do { let state = clear_action state;
          (it, buf, numBytes) \<leftarrow>
            whip6_iovIteratorReadAndMoveForward (esPayload state) (esIter state) (Some (replicate 2 0)) 0 2;
          hdr \<leftarrow> buf;
          let state = state\<lparr>esIter := it, scratchpad := GenericHdr hdr\<rparr>;
          if numBytes \<noteq> 2 \<or> \<not> whip6_iovIteratorIsValid (esIter state)
          then Some (finish_with WHIP6_IPV6_PACKET_PROCESSING_STATE_ACTION_DROP_PACKET state)
          else
            do { let hdrLen = (push_bit 3 (ucast (hdr ! 1)) :: u16);
                 let hdrLen = hdrLen + ((2 + 7) AND NOT 7);
                 let numBytes = unat (hdrLen - 2);
                 (it, moved) \<leftarrow> whip6_iovIteratorMoveForward (esPayload state) (esIter state) numBytes;
                 let state = state\<lparr>esIter := it\<rparr>;
                 if numBytes \<noteq> moved
                 then Some (finish_with WHIP6_IPV6_PACKET_PROCESSING_STATE_ACTION_DROP_PACKET state)
                 else Some (state\<lparr>
                   flagsAndAction := flagsAndAction state OR WHIP6_IPV6_PACKET_PROCESSING_STATE_ACTION_CONTINUE_PROCESSING_PACKET,
                   esNextHeader := hdr ! 0,
                   scratchpad := scratch_set_pointer (scratch_set_packet (scratchpad state) None) (ucast (esOffset state)),
                   esOffset := esOffset state + hdrLen\<rparr>) } }"

definition whip6_ipv6ExtensionHeaderGenericHandleUnrecognizedHeaderIncoming ::
  "'s ipv6_alloc \<Rightarrow> 's \<Rightarrow> ext_state \<Rightarrow> ('s \<times> ext_state) option" where
  "whip6_ipv6ExtensionHeaderGenericHandleUnrecognizedHeaderIncoming A s state =
     (let state = clear_action state
      in drop_with_problem A s state WHIP6_ICMPV6_MESSAGE_TYPE_PARAMETER_PROBLEM_CODE_UNRECOGNIZED_NEXT_HEADER_TYPE
           (scratch_pointer (scratchpad state)))"

section \<open>Source routing headers\<close>

text \<open>What a short read leaves in the rest of the header is never looked at: the member of the union is abandoned.\<close>

definition whip6_ipv6ExtensionHeaderSourceRouteFetchHeaderIncoming :: "ext_state \<Rightarrow> ext_state option" where
  "whip6_ipv6ExtensionHeaderSourceRouteFetchHeaderIncoming state =
     do { let state = clear_action state;
          (it, buf, numBytes) \<leftarrow>
            whip6_iovIteratorReadAndMoveForward (esPayload state) (esIter state) (Some (replicate 8 0)) 0 8;
          bs \<leftarrow> buf;
          let hdr = srh_of_bytes bs;
          let state = state\<lparr>esIter := it, scratchpad := SourceRouteHdr hdr\<rparr>;
          Some (if numBytes \<noteq> 8 \<or> \<not> whip6_iovIteratorIsValid (esIter state) \<or>
              whip6_ipv6ExtensionHeaderSourceRouteCheckReserved hdr
            then finish_with WHIP6_IPV6_PACKET_PROCESSING_STATE_ACTION_DROP_PACKET state
            else state\<lparr>esOffset := esOffset state + 8\<rparr>) }"

definition whip6_ipv6ExtensionHeaderSourceRouteCheckIfPacketShouldBeProcessedLocallyOrDesignateItForForwarding ::
  "ext_state \<Rightarrow> ext_state \<times> bool" where
  "whip6_ipv6ExtensionHeaderSourceRouteCheckIfPacketShouldBeProcessedLocallyOrDesignateItForForwarding state =
     (if flagsAndAction state AND WHIP6_IPV6_PACKET_PROCESSING_STATE_FLAG_PRESENT_NODE_IS_DESTINATION \<noteq> 0
      then (state, False)
      else (finish_with WHIP6_IPV6_PACKET_PROCESSING_STATE_ACTION_FINISH_PROCESSING_AND_FORWARD_PACKET state, True))"

definition whip6_ipv6ExtensionHeaderSourceRouteSkipAllSegmentsAndDesignatePacketForFurtherProcessing ::
  "ext_state \<Rightarrow> u16 \<Rightarrow> (ext_state \<times> bool) option" where
  "whip6_ipv6ExtensionHeaderSourceRouteSkipAllSegmentsAndDesignatePacketForFurtherProcessing state headerLen =
     do { (it, moved) \<leftarrow> whip6_iovIteratorMoveForward (esPayload state) (esIter state) (unat headerLen);
          let state = state\<lparr>esIter := it\<rparr>;
          if moved \<noteq> unat headerLen
          then Some (finish_with WHIP6_IPV6_PACKET_PROCESSING_STATE_ACTION_DROP_PACKET state, True)
          else
            do { srHdr \<leftarrow> scratch_srh (scratchpad state);
                 Some (state\<lparr>
                   flagsAndAction := flagsAndAction state OR WHIP6_IPV6_PACKET_PROCESSING_STATE_ACTION_CONTINUE_PROCESSING_PACKET,
                   esNextHeader := whip6_ipv6ExtensionHeaderSourceRouteGetNextHeader srHdr,
                   scratchpad := scratch_set_pointer (scratch_set_packet (scratchpad state) None)
                     (ucast (esOffset state) - 8),
                   esOffset := esOffset state + headerLen\<rparr>, False) } }"

definition whip6_ipv6ExtensionHeaderSourceRouteCheckIfRoutingMethodIsCorrectOrDesignatePacketForDropping ::
  "'s ipv6_alloc \<Rightarrow> 's \<Rightarrow> ext_state \<Rightarrow> ('s \<times> ext_state \<times> bool) option" where
  "whip6_ipv6ExtensionHeaderSourceRouteCheckIfRoutingMethodIsCorrectOrDesignatePacketForDropping A s state =
     do { srHdr \<leftarrow> scratch_srh (scratchpad state);
          if whip6_ipv6ExtensionHeaderSourceRouteGetRoutingType srHdr =
              WHIP6_IPV6_EXTENSION_HEADER_SOURCE_ROUTE_SUPPORTED_ROUTING_TYPE
          then Some (s, state, False)
          else
            do { (s, state) \<leftarrow> drop_with_problem A s state
                   WHIP6_ICMPV6_MESSAGE_TYPE_PARAMETER_PROBLEM_CODE_ERRONEOUS_HEADER_FIELD
                   (Some (ucast (esOffset state - (8 - 2))));
                 Some (s, state, True) } }"

definition whip6_ipv6ExtensionHeaderSourceRouteCheckIfNumSegmentsIsCorrectOrDesignatePacketForDropping ::
  "'s ipv6_alloc \<Rightarrow> 's \<Rightarrow> ext_state \<Rightarrow> u8 \<Rightarrow> u8 \<Rightarrow> ('s \<times> ext_state \<times> bool) option" where
  "whip6_ipv6ExtensionHeaderSourceRouteCheckIfNumSegmentsIsCorrectOrDesignatePacketForDropping A s state
       segmentsLeft segmentsTotal =
     (if segmentsLeft \<le> segmentsTotal then Some (s, state, False)
      else
        do { (s, state) \<leftarrow> drop_with_problem A s state
               WHIP6_ICMPV6_MESSAGE_TYPE_PARAMETER_PROBLEM_CODE_ERRONEOUS_HEADER_FIELD
               (Some (ucast (esOffset state - (8 - 3))));
             Some (s, state, True) })"

text \<open>The byte is stored through \<open>iter.currElem->iov.ptr\<close>: at the start of the chunk that the iterator is in.\<close>

definition whip6_ipv6ExtensionHeaderSourceRouteUpdateSegmentsLeftOrDesignatePacketForDropping ::
  "ext_state \<Rightarrow> u8 \<Rightarrow> (ext_state \<times> bool) option" where
  "whip6_ipv6ExtensionHeaderSourceRouteUpdateSegmentsLeftOrDesignatePacketForDropping state segmentsLeft =
     (let iter = whip6_iovIteratorClone (esIter state);
          (iter, moved) = whip6_iovIteratorMoveBackward (esPayload state) iter (8 - 3)
      in if moved \<noteq> 8 - 3 then Some (finish_with WHIP6_IPV6_PACKET_PROCESSING_STATE_ACTION_DROP_PACKET state, True)
         else
           do { i \<leftarrow> currElem iter;
                c \<leftarrow> buf_get (esPayload state) i;
                c \<leftarrow> buf_put c 0 segmentsLeft;
                Some (state\<lparr>esPayload := (esPayload state)[i := c]\<rparr>, False) })"

definition whip6_ipv6ExtensionHeaderSourceRouteSetSegmentAddrAsDstAddrAndDesignatePacketForForwarding ::
  "ext_state \<Rightarrow> u8 \<Rightarrow> u8 \<Rightarrow> u16 \<Rightarrow> (ext_state \<times> bool) option" where
  "whip6_ipv6ExtensionHeaderSourceRouteSetSegmentAddrAsDstAddrAndDesignatePacketForForwarding state
       segmentIndex numSegments headerLen =
     (let drop = (\<lambda>state. Some (finish_with WHIP6_IPV6_PACKET_PROCESSING_STATE_ACTION_DROP_PACKET state, True))
      in if whip6_ipv6AddrIsMulticast (hdrDstAddr (esHeader state)) then drop state
         else
           do { srHdr \<leftarrow> scratch_srh (scratchpad state);
                let numOctetsToElide = whip6_ipv6ExtensionHeaderSourceRouteGetCmprI srHdr;
                let numOctetsToRead = 16 - numOctetsToElide;
                let segmentOffset = (ucast segmentIndex * ucast numOctetsToRead :: u16);
                (it, moved) \<leftarrow> whip6_iovIteratorMoveForward (esPayload state) (esIter state) (unat segmentOffset);
                let state = state\<lparr>esIter := it\<rparr>;
                if moved \<noteq> unat segmentOffset then drop state
                else
                  do { let state = state\<lparr>esOffset := esOffset state + segmentOffset\<rparr>;
                       let headerLen = headerLen - segmentOffset;
                       let numOctetsToElide =
                         (if int (unat segmentIndex) = int (unat numSegments) - 1
                          then whip6_ipv6ExtensionHeaderSourceRouteGetCmprE srHdr else numOctetsToElide);
                       let numOctetsToRead = 16 - numOctetsToElide;
                       (it, buf, numBytes) \<leftarrow> whip6_iovIteratorReadAndMoveForward (esPayload state) (esIter state)
                         (Some (hdrDstAddr (esHeader state))) (unat numOctetsToElide) (unat numOctetsToRead);
                       dstAddr \<leftarrow> buf;
                       let state = state\<lparr>esIter := it, esHeader := (esHeader state)\<lparr>hdrDstAddr := dstAddr\<rparr>\<rparr>;
                       if numBytes \<noteq> unat numOctetsToRead then drop state
                       else
                         do { let state = state\<lparr>esOffset := esOffset state + ucast numOctetsToRead\<rparr>;
                              let headerLen = headerLen - ucast numOctetsToRead;
                              if whip6_ipv6AddrIsMulticast dstAddr then drop state
                              else
                                do { (it, moved) \<leftarrow> whip6_iovIteratorMoveForward (esPayload state) (esIter state)
                                       (unat headerLen);
                                     let state = state\<lparr>esIter := it\<rparr>;
                                     if moved \<noteq> unat headerLen then drop state
                                     else Some (finish_with
                                         WHIP6_IPV6_PACKET_PROCESSING_STATE_ACTION_FINISH_PROCESSING_AND_FORWARD_PACKET
                                         (state\<lparr>esOffset := esOffset state + headerLen\<rparr>), False) } } } })"

text \<open>The number of segments is an \<open>int\<close> expression, whose division truncates towards zero, cut to a byte.\<close>

definition srh_num_segments :: "ipv6_extension_header_srh \<Rightarrow> u16 \<Rightarrow> u8" where
  "srh_num_segments srHdr srHdrLen =
     word_of_int
       ((int (unat srHdrLen) - int (unat (whip6_ipv6ExtensionHeaderSourceRouteGetPad srHdr)) -
          (16 - int (unat (whip6_ipv6ExtensionHeaderSourceRouteGetCmprE srHdr)))) sdiv
        (16 - int (unat (whip6_ipv6ExtensionHeaderSourceRouteGetCmprI srHdr))) + 1)"

definition whip6_ipv6ExtensionHeaderSourceRouteProcessHeaderIncoming ::
  "'s ipv6_alloc \<Rightarrow> 's \<Rightarrow> ext_state \<Rightarrow> ('s \<times> ext_state) option" where
  "whip6_ipv6ExtensionHeaderSourceRouteProcessHeaderIncoming A s state =
     (let state = clear_action state;
          (state, done) =
            whip6_ipv6ExtensionHeaderSourceRouteCheckIfPacketShouldBeProcessedLocallyOrDesignateItForForwarding state
      in if done then Some (s, state)
         else
           do { srHdr \<leftarrow> scratch_srh (scratchpad state);
                let srHdrLen = whip6_ipv6ExtensionHeaderSourceRouteGetHeaderLength srHdr;
                let segmentsLeft = whip6_ipv6ExtensionHeaderSourceRouteGetSegmentsLeft srHdr;
                if segmentsLeft = 0
                then
                  do { (state, _) \<leftarrow>
                         whip6_ipv6ExtensionHeaderSourceRouteSkipAllSegmentsAndDesignatePacketForFurtherProcessing state srHdrLen;
                       Some (s, state) }
                else
                  do { (s, state, done) \<leftarrow>
                         whip6_ipv6ExtensionHeaderSourceRouteCheckIfRoutingMethodIsCorrectOrDesignatePacketForDropping A s state;
                       if done then Some (s, state)
                       else
                         do { let numSegments = srh_num_segments srHdr srHdrLen;
                              (s, state, done) \<leftarrow>
                                whip6_ipv6ExtensionHeaderSourceRouteCheckIfNumSegmentsIsCorrectOrDesignatePacketForDropping A s state
                                  segmentsLeft numSegments;
                              if done then Some (s, state)
                              else
                                do { let segmentIndex = numSegments - segmentsLeft;
                                     (state, done) \<leftarrow>
                                       whip6_ipv6ExtensionHeaderSourceRouteUpdateSegmentsLeftOrDesignatePacketForDropping
                                         state (segmentsLeft - 1);
                                     if done then Some (s, state)
                                     else
                                       do { (state, _) \<leftarrow>
                                              whip6_ipv6ExtensionHeaderSourceRouteSetSegmentAddrAsDstAddrAndDesignatePacketForForwarding
                                                state segmentIndex numSegments srHdrLen;
                                            Some (s, state) } } } } })"

section \<open>Fields of the header\<close>

lemma srh_of_srh_bytes: "length (srhPadAndReserved hdr) = 3 \<Longrightarrow> srh_of_bytes (srh_bytes hdr) = hdr"
  by (simp add: srh_of_bytes_def srh_bytes_def)

lemma srh_bytes_length: "length (srhPadAndReserved hdr) = 3 \<Longrightarrow> length (srh_bytes hdr) = 8"
  by (simp add: srh_bytes_def)

lemma u8_nibbles: "unat (drop_bit 4 x) < 16" "unat (x AND 0x0f) < 16" for x :: u8
proof -
  have "unat (drop_bit 4 x) = unat x div 16" by (simp add: unat_drop_bit_eq) (simp add: drop_bit_eq_div)
  then show "unat (drop_bit 4 x) < 16" using unat_u8_less [of x] by linarith
  have "x AND 0x0f \<le> 0x0f" by (rule word_and_le1)
  then have "unat (x AND 0x0f) \<le> unat (0x0f :: u8)" by (simp only: word_le_nat_alt)
  then show "unat (x AND 0x0f) < 16" by simp
qed

lemma cmpr_less:
  "unat (whip6_ipv6ExtensionHeaderSourceRouteGetCmprI hdr) < 16" "unat (whip6_ipv6ExtensionHeaderSourceRouteGetCmprE hdr) < 16"
  by (simp_all add: srh_defs u8_nibbles)

lemma unat_16_minus: "unat x < 16 \<Longrightarrow> unat (16 - x :: u8) = 16 - unat x"
  by (simp add: unat_sub word_le_nat_alt)

lemma unat_header_length: "unat (whip6_ipv6ExtensionHeaderSourceRouteGetHeaderLength hdr) = 8 * unat (srhHdrExtLen hdr)"
proof -
  have "unat (push_bit 3 (ucast (srhHdrExtLen hdr) :: u16)) = unat (ucast (srhHdrExtLen hdr) :: u16) * 8 mod 65536"
    unfolding unsigned_push_bit_eq by (simp add: take_bit_eq_mod) (simp add: push_bit_eq_mult)
  then show ?thesis using unat_u8_less [of "srhHdrExtLen hdr"] by (simp add: srh_defs)
qed

lemma header_length_of_nat:
  assumes "n = 8 * unat (srhHdrExtLen hdr)"
  shows "whip6_ipv6ExtensionHeaderSourceRouteGetHeaderLength hdr = of_nat n"
proof -
  have "of_nat n = (of_nat (unat (whip6_ipv6ExtensionHeaderSourceRouteGetHeaderLength hdr)) :: u16)"
    by (simp only: assms unat_header_length)
  then show ?thesis by simp
qed

text \<open>The number of segments, for a header whose length fits them.\<close>

lemma num_segments_eq:
  assumes "8 * unat (srhHdrExtLen hdr) =
      (n - 1) * (16 - unat (whip6_ipv6ExtensionHeaderSourceRouteGetCmprI hdr)) +
      (16 - unat (whip6_ipv6ExtensionHeaderSourceRouteGetCmprE hdr)) + unat (whip6_ipv6ExtensionHeaderSourceRouteGetPad hdr)"
    and "1 \<le> n" "n < 256"
  shows "unat (srh_num_segments hdr (whip6_ipv6ExtensionHeaderSourceRouteGetHeaderLength hdr)) = n"
proof -
  let ?i = "16 - unat (whip6_ipv6ExtensionHeaderSourceRouteGetCmprI hdr)"
  let ?e = "16 - unat (whip6_ipv6ExtensionHeaderSourceRouteGetCmprE hdr)"
  have i: "16 - int (unat (whip6_ipv6ExtensionHeaderSourceRouteGetCmprI hdr)) = int ?i" "0 < ?i"
    "16 - int (unat (whip6_ipv6ExtensionHeaderSourceRouteGetCmprE hdr)) = int ?e"
    using cmpr_less [of hdr] by simp_all
  have len: "int (unat (whip6_ipv6ExtensionHeaderSourceRouteGetHeaderLength hdr)) =
      int ((n - 1) * ?i) + int ?e + int (unat (whip6_ipv6ExtensionHeaderSourceRouteGetPad hdr))"
    unfolding unat_header_length assms(1) by (simp only: of_nat_add)
  have "int (m * k) sdiv int k = int m" if "0 < k" for m k :: nat
    using that by (cases "m = 0") (simp_all add: signed_divide_int_def sgn_mult abs_mult)
  from this [OF i(2)] have "int ((n - 1) * ?i) sdiv int ?i = int (n - 1)" .
  then have "srh_num_segments hdr (whip6_ipv6ExtensionHeaderSourceRouteGetHeaderLength hdr) = word_of_int (int (n - 1) + 1)"
    unfolding srh_num_segments_def i(1,3) len by (simp add: add_diff_eq)
  also have "\<dots> = of_nat n" using assms(2) by (simp add: of_nat_diff)
  finally show ?thesis using assms(3) by (simp add: unat_u8_of_nat)
qed

section \<open>Steps\<close>

lemma iter_move:
  assumes "iter_ok iov it" "iter_pos iov it + n \<le> length (concat iov)"
  shows "\<exists>it'. whip6_iovIteratorMoveForward iov it n = Some (it', n) \<and> iter_ok iov it' \<and>
    iter_pos iov it' = iter_pos iov it + n"
  using iovMoveForward_spec [OF assms(1), of n n] assms(2) by simp

lemma iter_read:
  assumes "iov_ok iov" "iter_ok iov it" "iter_pos iov it + n \<le> length (concat iov)" "p + n \<le> length buf"
  shows "\<exists>it'. whip6_iovIteratorReadAndMoveForward iov it (Some buf) p n =
      Some (it', Some (mem_blit buf p (take n (iter_rest iov it))), n) \<and>
    iter_ok iov it' \<and> iter_pos iov it' = iter_pos iov it + n"
  using iovRead_spec [OF assms(1,2,4) refl] assms(3) by simp

fun chunk_start :: "iov \<Rightarrow> nat \<Rightarrow> nat" where
  "chunk_start [] pos = 0"
| "chunk_start (c # cs) pos = (if pos < length c then 0 else length c + chunk_start cs (pos - length c))"

lemma chunk_start_le: "chunk_start iov pos \<le> pos"
proof (induction iov arbitrary: pos)
  case (Cons c cs)
  show ?case
  proof (cases "pos < length c")
    case False
    then show ?thesis using Cons.IH [of "pos - length c"] by simp
  qed simp
qed simp

lemma chunk_start_at:
  "i < length iov \<Longrightarrow> off < length (iov ! i) \<Longrightarrow> chunk_start iov (length (concat (take i iov)) + off) = length (concat (take i iov))"
proof (induction iov arbitrary: i)
  case (Cons c cs)
  then show ?case by (cases i) auto
qed simp

lemma update_segments_left:
  assumes "iter_ok (esPayload st) (esIter st)" "whip6_iovIteratorIsValid (esIter st)"
    and "5 \<le> iter_pos (esPayload st) (esIter st)"
  shows "\<exists>iov'. whip6_ipv6ExtensionHeaderSourceRouteUpdateSegmentsLeftOrDesignatePacketForDropping st v =
      Some (st\<lparr>esPayload := iov'\<rparr>, False) \<and> map length iov' = map length (esPayload st) \<and>
    concat iov' = (concat (esPayload st))[chunk_start (esPayload st) (iter_pos (esPayload st) (esIter st) - 5) := v]"
proof -
  let ?P = "esPayload st"
  have clone: "whip6_iovIteratorClone (esIter st) = esIter st" by (simp add: whip6_iovIteratorClone_def)
  from iovMoveBackward_spec [OF assms] obtain it where
    it: "whip6_iovIteratorMoveBackward ?P (esIter st) 5 = (it, 5)" "whip6_iovIteratorIsValid it" "iter_ok ?P it"
      "iter_pos ?P it = iter_pos ?P (esIter st) - 5" by blast
  then obtain i where i: "currElem it = Some i" "i < length ?P" "iterOffset it < length (?P ! i)"
    by (auto simp: whip6_iovIteratorIsValid_def iter_ok_def)
  have start: "chunk_start ?P (iter_pos ?P (esIter st) - 5) = length (concat (take i ?P))"
    using chunk_start_at [OF i(2,3)] i(1) it(4) by (simp add: iter_pos_def)
  let ?iov = "?P[i := (?P ! i)[0 := v]]"
  have ne: "0 < length (?P ! i)" using i(3) by linarith
  then have one: "mem_blit (?P ! i) 0 [v] = (?P ! i)[0 := v]" "mem_blit (concat ?P) k [v] = (concat ?P)[k := v]"
    if "k < length (concat ?P)" for k
    using that by (simp_all add: mem_blit_def upd_conv_take_nth_drop)
  have "length (concat (take i ?P)) < length (concat ?P)"
    using arg_cong [OF concat_split_at [OF i(2)], of length] i(3) unfolding length_append by linarith
  then have "concat ?iov = (concat ?P)[length (concat (take i ?P)) := v]"
    using concat_update_at [of i ?P 0 "[v]"] i(2,3) one by simp
  moreover have "whip6_ipv6ExtensionHeaderSourceRouteUpdateSegmentsLeftOrDesignatePacketForDropping st v =
      Some (st\<lparr>esPayload := ?iov\<rparr>, False)"
    using it(1) i ne by (simp add: whip6_ipv6ExtensionHeaderSourceRouteUpdateSegmentsLeftOrDesignatePacketForDropping_def clone
        del: length_greater_0_conv)
  moreover have "map length ?iov = map length ?P" by (simp add: map_update) (metis i(2) length_map list_update_id nth_map)
  ultimately show ?thesis unfolding start by blast
qed

text \<open>The address of a segment, in front of which the elided octets of the old destination stay.\<close>

definition segment_addr :: "ipv6_extension_header_srh \<Rightarrow> u8 list \<Rightarrow> nat \<Rightarrow> nat \<Rightarrow> u8 list \<Rightarrow> u8 list" where
  "segment_addr hdr segs n j dst =
     (let i = unat (whip6_ipv6ExtensionHeaderSourceRouteGetCmprI hdr);
          e = (if j = n - 1 then unat (whip6_ipv6ExtensionHeaderSourceRouteGetCmprE hdr) else i)
      in take e dst @ take (16 - e) (drop (j * (16 - i)) segs))"

lemma set_segment:
  assumes "iov_ok (esPayload st)" "iter_ok (esPayload st) (esIter st)" "scratchpad st = SourceRouteHdr hdr"
    and "length (hdrDstAddr (esHeader st)) = 16" "\<not> whip6_ipv6AddrIsMulticast (hdrDstAddr (esHeader st))"
    and rest: "iter_rest (esPayload st) (esIter st) = segs @ tail" and len: "length segs = unat headerLen"
    and j: "unat idx < unat num"
    and fits: "unat idx * (16 - unat (whip6_ipv6ExtensionHeaderSourceRouteGetCmprI hdr)) +
      (16 - (if unat idx = unat num - 1 then unat (whip6_ipv6ExtensionHeaderSourceRouteGetCmprE hdr)
             else unat (whip6_ipv6ExtensionHeaderSourceRouteGetCmprI hdr))) \<le> length segs"
    and new: "\<not> whip6_ipv6AddrIsMulticast (segment_addr hdr segs (unat num) (unat idx) (hdrDstAddr (esHeader st)))"
  shows "\<exists>it. whip6_ipv6ExtensionHeaderSourceRouteSetSegmentAddrAsDstAddrAndDesignatePacketForForwarding st idx num headerLen =
      Some (finish_with WHIP6_IPV6_PACKET_PROCESSING_STATE_ACTION_FINISH_PROCESSING_AND_FORWARD_PACKET
        (st\<lparr>esIter := it, esHeader := (esHeader st)\<lparr>hdrDstAddr :=
            segment_addr hdr segs (unat num) (unat idx) (hdrDstAddr (esHeader st))\<rparr>,
          esOffset := esOffset st + headerLen\<rparr>), False) \<and>
    iter_ok (esPayload st) it \<and> iter_pos (esPayload st) it = iter_pos (esPayload st) (esIter st) + unat headerLen"
proof -
  let ?P = "esPayload st" and ?dst = "hdrDstAddr (esHeader st)"
  define I where "I = whip6_ipv6ExtensionHeaderSourceRouteGetCmprI hdr"
  define E where "E = (if unat idx = unat num - 1 then whip6_ipv6ExtensionHeaderSourceRouteGetCmprE hdr else I)"
  have b: "unat I < 16" "unat E < 16" using cmpr_less [of hdr] by (simp_all add: I_def E_def)
  have lastseg: "int (unat idx) = int (unat num) - 1 \<longleftrightarrow> unat idx = unat num - 1" using j by linarith
  have e16: "unat (16 - I) = 16 - unat I" "unat (16 - E) = 16 - unat E" using b by (simp_all add: unat_16_minus)
  define off where "off = (ucast idx * ucast (16 - I) :: u16)"
  have fits': "unat idx * (16 - unat I) + (16 - unat E) \<le> length segs"
    using fits by (simp add: E_def I_def if_distrib [of unat] cong: if_cong)
  have l16: "length segs < 65536" using len unat_u16_less [of headerLen] by simp
  have off: "unat off = unat idx * (16 - unat I)"
  proof -
    have "unat off = (unat idx * (16 - unat I)) mod 65536"
      unfolding off_def unat_word_ariths(2) by (simp add: e16(1))
    moreover have "unat idx * (16 - unat I) < 65536" using fits' l16 by linarith
    ultimately show ?thesis by simp
  qed
  define hl where "hl = headerLen - off - ucast (16 - E)"
  have rd: "unat (ucast (16 - E) :: u16) = 16 - unat E" by (simp add: e16(2))
  have hl1: "unat (headerLen - off) = unat headerLen - unat off"
    using fits' off len by (intro unat_sub) (simp add: word_le_nat_alt)
  have hl: "unat hl = unat headerLen - unat off - (16 - unat E)"
    unfolding hl_def using fits' off len rd hl1 by (subst unat_sub) (simp_all add: word_le_nat_alt)
  let ?p = "iter_pos ?P (esIter st)"
  have total: "?p + length segs \<le> length (concat ?P)"
  proof -
    have "length (concat ?P) - ?p = length segs + length tail" using arg_cong [OF rest, of length] by simp
    then show ?thesis using iter_pos_le [OF assms(2)] by linarith
  qed
  obtain it1 where it1: "whip6_iovIteratorMoveForward ?P (esIter st) (unat off) = Some (it1, unat off)"
    "iter_ok ?P it1" "iter_pos ?P it1 = ?p + unat off"
  proof -
    have "?p + unat off \<le> length (concat ?P)" using total off fits' by linarith
    from iter_move [OF assms(2) this] that show ?thesis by blast
  qed
  obtain it2 where it2: "whip6_iovIteratorReadAndMoveForward ?P it1 (Some ?dst) (unat E) (16 - unat E) =
      Some (it2, Some (mem_blit ?dst (unat E) (take (16 - unat E) (iter_rest ?P it1))), 16 - unat E)"
    "iter_ok ?P it2" "iter_pos ?P it2 = ?p + unat off + (16 - unat E)"
  proof -
    have "iter_pos ?P it1 + (16 - unat E) \<le> length (concat ?P)" using it1(3) total off fits' by linarith
    moreover have "unat E + (16 - unat E) \<le> length ?dst" using b assms(4) by linarith
    ultimately show ?thesis using iter_read [OF assms(1) it1(2)] that it1(3) by metis
  qed
  have rest1: "iter_rest ?P it1 = drop (unat off) segs @ tail"
  proof -
    have "iter_rest ?P it1 = drop (unat off) (iter_rest ?P (esIter st))" by (simp add: it1(3) add.commute)
    then show ?thesis using off fits' unfolding rest by simp
  qed
  have addr: "mem_blit ?dst (unat E) (take (16 - unat E) (iter_rest ?P it1)) =
      segment_addr hdr segs (unat num) (unat idx) ?dst"
    using b assms(4) off fits' unfolding rest1
    by (auto simp: mem_blit_def segment_addr_def Let_def I_def [symmetric] E_def)
  obtain it3 where it3: "whip6_iovIteratorMoveForward ?P it2 (unat hl) = Some (it3, unat hl)"
    "iter_ok ?P it3" "iter_pos ?P it3 = ?p + unat headerLen"
  proof -
    have "iter_pos ?P it2 + unat hl = ?p + unat headerLen" using it2(3) hl off fits' len by linarith
    then show ?thesis using iter_move [OF it2(2), of "unat hl"] total len that by auto
  qed
  have lastword: "(if uint idx = uint num - 1 then whip6_ipv6ExtensionHeaderSourceRouteGetCmprE hdr
      else whip6_ipv6ExtensionHeaderSourceRouteGetCmprI hdr) = E"
    using lastseg by (simp add: E_def I_def)
  have offs: "esOffset st + off + ucast (16 - E) + hl = esOffset st + headerLen" by (simp add: hl_def)
  have "whip6_ipv6ExtensionHeaderSourceRouteSetSegmentAddrAsDstAddrAndDesignatePacketForForwarding st idx num headerLen =
      Some (finish_with WHIP6_IPV6_PACKET_PROCESSING_STATE_ACTION_FINISH_PROCESSING_AND_FORWARD_PACKET
        (st\<lparr>esIter := it3, esHeader := (esHeader st)\<lparr>hdrDstAddr := segment_addr hdr segs (unat num) (unat idx) ?dst\<rparr>,
          esOffset := esOffset st + headerLen\<rparr>), False)"
    unfolding whip6_ipv6ExtensionHeaderSourceRouteSetSegmentAddrAsDstAddrAndDesignatePacketForForwarding_def
    using assms(3,5) new it1(1) it2(1) it3(1) offs
    by (simp add: Let_def scratch_srh_def I_def [symmetric] off_def [symmetric] lastword e16 addr
        hl_def [symmetric] finish_with_def)
  then show ?thesis using it3(2,3) by blast
qed

section \<open>Whole headers\<close>

text \<open>A source routing header in front of the iterator, with its segments and something behind the fixed part.\<close>

definition srh_at :: "ext_state \<Rightarrow> ipv6_extension_header_srh \<Rightarrow> u8 list \<Rightarrow> u8 list \<Rightarrow> bool" where
  "srh_at st hdr segs tail \<longleftrightarrow>
     iov_ok (esPayload st) \<and> iter_ok (esPayload st) (esIter st) \<and> header_ok (esHeader st) \<and>
     iter_rest (esPayload st) (esIter st) = srh_bytes hdr @ segs @ tail \<and> segs @ tail \<noteq> [] \<and>
     length (srhPadAndReserved hdr) = 3 \<and> \<not> whip6_ipv6ExtensionHeaderSourceRouteCheckReserved hdr \<and>
     length segs = 8 * unat (srhHdrExtLen hdr)"

text \<open>The segments and the padding fill the header.\<close>

definition srh_segments :: "ipv6_extension_header_srh \<Rightarrow> nat \<Rightarrow> bool" where
  "srh_segments hdr n \<longleftrightarrow> 1 \<le> n \<and> n < 256 \<and>
     8 * unat (srhHdrExtLen hdr) =
       (n - 1) * (16 - unat (whip6_ipv6ExtensionHeaderSourceRouteGetCmprI hdr)) +
       (16 - unat (whip6_ipv6ExtensionHeaderSourceRouteGetCmprE hdr)) + unat (whip6_ipv6ExtensionHeaderSourceRouteGetPad hdr)"

definition fetched :: "ext_state \<Rightarrow> iov_blist_iter \<Rightarrow> ipv6_extension_header_srh \<Rightarrow> ext_state" where
  "fetched st it hdr = (clear_action st)\<lparr>esIter := it, scratchpad := SourceRouteHdr hdr, esOffset := esOffset st + 8\<rparr>"

lemma rest_length:
  "iter_ok iov it \<Longrightarrow> iter_rest iov it = bs \<Longrightarrow> iter_pos iov it + length bs = length (concat iov)"
  using iter_pos_le [of iov it] by (metis add_diff_inverse_nat length_drop linorder_not_less)

lemma rest_later:
  "iter_rest iov it = as @ bs \<Longrightarrow> iter_pos iov it' = iter_pos iov it + length as \<Longrightarrow> iter_rest iov it' = bs"
proof -
  assume "iter_rest iov it = as @ bs" "iter_pos iov it' = iter_pos iov it + length as"
  moreover from this(2) have "iter_rest iov it' = drop (length as) (iter_rest iov it)" by (simp add: add.commute)
  ultimately show ?thesis by simp
qed

lemma fetch_ok:
  assumes "srh_at st hdr segs tail"
  shows "\<exists>it. whip6_ipv6ExtensionHeaderSourceRouteFetchHeaderIncoming st = Some (fetched st it hdr) \<and>
    iter_ok (esPayload st) it \<and> whip6_iovIteratorIsValid it \<and>
    iter_pos (esPayload st) it = iter_pos (esPayload st) (esIter st) + 8 \<and> iter_rest (esPayload st) it = segs @ tail"
proof -
  let ?P = "esPayload st"
  from assms have ok: "iov_ok ?P" "iter_ok ?P (esIter st)" "iter_rest ?P (esIter st) = srh_bytes hdr @ segs @ tail"
    "segs @ tail \<noteq> []" "length (srhPadAndReserved hdr) = 3" "\<not> whip6_ipv6ExtensionHeaderSourceRouteCheckReserved hdr"
    unfolding srh_at_def by blast+
  note l8 = srh_bytes_length [OF ok(5)]
  have tot: "iter_pos ?P (esIter st) + 8 + length (segs @ tail) = length (concat ?P)"
    using rest_length [OF ok(2,3)] l8 by simp
  then have "iter_pos ?P (esIter st) + 8 \<le> length (concat ?P)" by linarith
  from iter_read [OF ok(1,2) this, of 0 "replicate 8 0"] obtain it where
    it: "whip6_iovIteratorReadAndMoveForward ?P (esIter st) (Some (replicate 8 0)) 0 8 =
        Some (it, Some (mem_blit (replicate 8 0) 0 (take 8 (iter_rest ?P (esIter st)))), 8)"
      "iter_ok ?P it" "iter_pos ?P it = iter_pos ?P (esIter st) + 8" by auto
  have "0 < length (segs @ tail)" by (rule length_greater_0_conv [THEN iffD2, OF ok(4)])
  then have v: "whip6_iovIteratorIsValid it" using iter_valid_iff [OF it(2)] it(3) tot by linarith
  have bs: "mem_blit (replicate 8 0) 0 (take 8 (iter_rest ?P (esIter st))) = srh_bytes hdr"
    unfolding ok(3) using l8 by (simp add: mem_blit_def)
  have "whip6_ipv6ExtensionHeaderSourceRouteFetchHeaderIncoming st = Some (fetched st it hdr)"
    unfolding whip6_ipv6ExtensionHeaderSourceRouteFetchHeaderIncoming_def
    using it(1) v ok(6) by (simp add: clear_action_def bs srh_of_srh_bytes [OF ok(5)] fetched_def)
  then show ?thesis using it(2,3) v rest_later [OF ok(3)] l8 by auto
qed

lemma present_flag:
  "(f AND NOT 3) AND (0x80 :: u8) = f AND 0x80" "(f AND NOT 3) AND NOT 3 = (f AND NOT 3 :: u8)"
  "(f AND NOT 3 OR 3) AND (0x40 :: u8) = f AND 0x40"
proof -
  show "(f AND NOT 3) AND (0x80 :: u8) = f AND 0x80" by (simp add: and.assoc)
  show "(f AND NOT 3) AND NOT 3 = (f AND NOT 3 :: u8)" by (simp add: and.assoc)
  have "(f AND NOT 3 OR 3) AND (0x40 :: u8) = (f AND (NOT 3 AND 0x40)) OR (3 AND 0x40)"
    by (simp only: bit.conj_disj_distrib2 and.assoc)
  then show "(f AND NOT 3 OR 3) AND (0x40 :: u8) = f AND 0x40" by simp
qed

lemma fetched_simps [simp]:
  "esIter (fetched st it hdr) = it" "esPayload (fetched st it hdr) = esPayload st" "esHeader (fetched st it hdr) = esHeader st"
  "esOffset (fetched st it hdr) = esOffset st + 8" "scratchpad (fetched st it hdr) = SourceRouteHdr hdr"
  "flagsAndAction (fetched st it hdr) = flagsAndAction st AND NOT WHIP6_IPV6_PACKET_PROCESSING_STATE_ACTION_MASK"
  by (simp_all add: fetched_def clear_action_def)

lemma clear_fetched: "clear_action (fetched st it hdr) = fetched st it hdr"
  unfolding fetched_def clear_action_def ext_constants by (simp add: and.assoc)

lemma present_fetched:
  "flagsAndAction (fetched st it hdr) AND WHIP6_IPV6_PACKET_PROCESSING_STATE_FLAG_PRESENT_NODE_IS_DESTINATION =
   flagsAndAction st AND WHIP6_IPV6_PACKET_PROCESSING_STATE_FLAG_PRESENT_NODE_IS_DESTINATION"
  by (simp only: fetched_simps ext_constants present_flag)

lemma set_segment_here:
  assumes at: "srh_at st hdr segs tail" and n: "srh_segments hdr n" and left: "1 \<le> left" "left \<le> n"
    and rest: "iov_ok P" "iter_ok P it" "iter_rest P it = segs @ tail" "esPayload st1 = P" "esIter st1 = it"
    and st1: "scratchpad st1 = SourceRouteHdr hdr" "esHeader st1 = esHeader st"
    and idx: "unat idx = n - left" "unat num = n"
    and mc: "\<not> whip6_ipv6AddrIsMulticast (hdrDstAddr (esHeader st))"
      "\<not> whip6_ipv6AddrIsMulticast (segment_addr hdr segs n (n - left) (hdrDstAddr (esHeader st)))"
  shows "\<exists>it'. whip6_ipv6ExtensionHeaderSourceRouteSetSegmentAddrAsDstAddrAndDesignatePacketForForwarding st1 idx num
        (whip6_ipv6ExtensionHeaderSourceRouteGetHeaderLength hdr) =
      Some (finish_with WHIP6_IPV6_PACKET_PROCESSING_STATE_ACTION_FINISH_PROCESSING_AND_FORWARD_PACKET
        (st1\<lparr>esIter := it', esHeader := (esHeader st)\<lparr>hdrDstAddr :=
            segment_addr hdr segs n (n - left) (hdrDstAddr (esHeader st))\<rparr>,
          esOffset := esOffset st1 + whip6_ipv6ExtensionHeaderSourceRouteGetHeaderLength hdr\<rparr>), False) \<and>
    iter_pos P it' = iter_pos P it + length segs"
proof -
  let ?I = "unat (whip6_ipv6ExtensionHeaderSourceRouteGetCmprI hdr)"
  let ?E = "unat (whip6_ipv6ExtensionHeaderSourceRouteGetCmprE hdr)"
  have len: "length segs = 8 * unat (srhHdrExtLen hdr)" and dst: "length (hdrDstAddr (esHeader st)) = 16"
    using at unfolding srh_at_def header_ok_def by blast+
  have fits: "(n - left) * (16 - ?I) + (16 - (if n - left = n - 1 then ?E else ?I)) \<le> length segs"
  proof (cases "n - left = n - 1")
    case True
    then show ?thesis using n len by (simp add: srh_segments_def)
  next
    case False
    then have "n - left + 1 \<le> n - 1" using left by linarith
    then have "(n - left + 1) * (16 - ?I) \<le> (n - 1) * (16 - ?I)" by (rule mult_le_mono1)
    then have "(n - left) * (16 - ?I) + (16 - ?I) \<le> (n - 1) * (16 - ?I)" by simp
    also have "\<dots> \<le> length segs" using n len by (simp add: srh_segments_def)
    finally show ?thesis using False by simp
  qed
  have lt: "unat idx < unat num" using idx left by linarith
  have hl: "length segs = unat (whip6_ipv6ExtensionHeaderSourceRouteGetHeaderLength hdr)"
    using len by (simp only: unat_header_length)
  show ?thesis
    using set_segment [where st = st1 and hdr = hdr and segs = segs and tail = tail and idx = idx and num = num
        and headerLen = "whip6_ipv6ExtensionHeaderSourceRouteGetHeaderLength hdr"]
      rest st1 dst mc lt fits hl unfolding idx by auto
qed

text \<open>
  Source routing. A source routing header of the supported kind, for a packet that has reached this node, whose length
  fits its n segments and of which between one and n are left: the destination of the packet becomes the first address
  that is left, the octets that the header elides being those of the old destination, the iterator and the offset move
  behind the header, and the packet is to be forwarded, unless one of the two addresses is a multicast one. Of the
  payload one byte changes, to the new number of segments left: the first of the chunk in which the field is.\<close>

lemma source_route_step:
  assumes "srh_at st hdr segs tail" "srh_segments hdr n"
    and "flagsAndAction st AND WHIP6_IPV6_PACKET_PROCESSING_STATE_FLAG_PRESENT_NODE_IS_DESTINATION \<noteq> 0"
    and "srhRoutingType hdr = 3" "1 \<le> unat (srhSegmentsLeft hdr)" "unat (srhSegmentsLeft hdr) \<le> n"
    and "\<not> whip6_ipv6AddrIsMulticast (hdrDstAddr (esHeader st))"
    and "\<not> whip6_ipv6AddrIsMulticast
      (segment_addr hdr segs n (n - unat (srhSegmentsLeft hdr)) (hdrDstAddr (esHeader st)))"
  shows "\<exists>st1 st2. whip6_ipv6ExtensionHeaderSourceRouteFetchHeaderIncoming st = Some st1 \<and>
    whip6_ipv6ExtensionHeaderSourceRouteProcessHeaderIncoming A s st1 = Some (s, st2) \<and>
    esHeader st2 = (esHeader st)\<lparr>hdrDstAddr :=
      segment_addr hdr segs n (n - unat (srhSegmentsLeft hdr)) (hdrDstAddr (esHeader st))\<rparr> \<and>
    flagsAndAction st2 = (flagsAndAction st AND NOT 3) OR 1 \<and> esNextHeader st2 = WHIP6_IANA_IPV6_NO_NEXT_HEADER \<and>
    esOffset st2 = esOffset st + 8 + of_nat (length segs) \<and>
    iter_pos (esPayload st2) (esIter st2) = iter_pos (esPayload st) (esIter st) + 8 + length segs \<and>
    concat (esPayload st2) = (concat (esPayload st))
      [chunk_start (esPayload st) (iter_pos (esPayload st) (esIter st) + 3) := srhSegmentsLeft hdr - 1]"
proof -
  let ?P = "esPayload st" and ?left = "srhSegmentsLeft hdr" and ?p = "iter_pos (esPayload st) (esIter st)"
  obtain it where it: "whip6_ipv6ExtensionHeaderSourceRouteFetchHeaderIncoming st = Some (fetched st it hdr)"
    "iter_ok ?P it" "whip6_iovIteratorIsValid it" "iter_pos ?P it = ?p + 8" "iter_rest ?P it = segs @ tail"
    using fetch_ok [OF assms(1)] by blast
  let ?st1 = "fetched st it hdr"
  have "5 \<le> iter_pos (esPayload ?st1) (esIter ?st1)" using it(4) by simp
  from update_segments_left [OF _ _ this, of "?left - 1"] it(2,3) obtain iov' where
    up: "whip6_ipv6ExtensionHeaderSourceRouteUpdateSegmentsLeftOrDesignatePacketForDropping ?st1 (?left - 1) =
        Some (?st1\<lparr>esPayload := iov'\<rparr>, False)" "map length iov' = map length ?P"
      "concat iov' = (concat ?P)[chunk_start ?P (?p + 3) := ?left - 1]"
    using it(4) by (auto simp: add.commute)
  define num where "num = srh_num_segments hdr (whip6_ipv6ExtensionHeaderSourceRouteGetHeaderLength hdr)"
  have num: "unat num = n" unfolding num_def using assms(2) by (intro num_segments_eq) (simp_all add: srh_segments_def)
  have le: "?left \<le> num" using assms(6) num by (simp add: word_le_nat_alt)
  have idx: "unat (num - ?left) = n - unat ?left" using le num by (simp add: unat_sub)
  have ok': "iov_ok iov'" "iter_ok iov' it" "iter_pos iov' it = ?p + 8"
    using up(2) it(2,4) assms(1) iov_ok_map_length [OF up(2)] iter_ok_map_length [OF up(2)] by (auto simp: srh_at_def)
  have "chunk_start ?P (?p + 3) < ?p + 8" using chunk_start_le [of ?P "?p + 3"] by linarith
  then have rest': "iter_rest iov' it = segs @ tail" using it(4,5) ok'(3) by (simp add: up(3))
  obtain it' where seg: "whip6_ipv6ExtensionHeaderSourceRouteSetSegmentAddrAsDstAddrAndDesignatePacketForForwarding
        (?st1\<lparr>esPayload := iov'\<rparr>) (num - ?left) num (whip6_ipv6ExtensionHeaderSourceRouteGetHeaderLength hdr) =
      Some (finish_with WHIP6_IPV6_PACKET_PROCESSING_STATE_ACTION_FINISH_PROCESSING_AND_FORWARD_PACKET
        (?st1\<lparr>esPayload := iov', esIter := it', esHeader := (esHeader st)\<lparr>hdrDstAddr :=
            segment_addr hdr segs n (n - unat ?left) (hdrDstAddr (esHeader st))\<rparr>,
          esOffset := esOffset st + 8 + whip6_ipv6ExtensionHeaderSourceRouteGetHeaderLength hdr\<rparr>), False)"
      "iter_pos iov' it' = ?p + 8 + length segs"
    using set_segment_here [OF assms(1,2,5,6) ok'(1,2) rest' _ _ _ _ idx num assms(7,8), of "?st1\<lparr>esPayload := iov'\<rparr>"] ok'(3)
    by auto
  have "length segs = 8 * unat (srhHdrExtLen hdr)" using assms(1) unfolding srh_at_def by blast
  then have hl: "whip6_ipv6ExtensionHeaderSourceRouteGetHeaderLength hdr = of_nat (length segs)"
    by (rule header_length_of_nat)
  have "srhSegmentsLeft hdr \<noteq> 0" using assms(5) by auto
  then have run: "whip6_ipv6ExtensionHeaderSourceRouteProcessHeaderIncoming A s ?st1 =
      Some (s, finish_with WHIP6_IPV6_PACKET_PROCESSING_STATE_ACTION_FINISH_PROCESSING_AND_FORWARD_PACKET
        (?st1\<lparr>esPayload := iov', esIter := it', esHeader := (esHeader st)\<lparr>hdrDstAddr :=
            segment_addr hdr segs n (n - unat ?left) (hdrDstAddr (esHeader st))\<rparr>,
          esOffset := esOffset st + 8 + whip6_ipv6ExtensionHeaderSourceRouteGetHeaderLength hdr\<rparr>))"
    unfolding whip6_ipv6ExtensionHeaderSourceRouteProcessHeaderIncoming_def clear_fetched Let_def
      whip6_ipv6ExtensionHeaderSourceRouteCheckIfPacketShouldBeProcessedLocallyOrDesignateItForForwarding_def present_fetched
    using assms(3,4) up(1) seg(1) le
    by (simp add: scratch_srh_def whip6_ipv6ExtensionHeaderSourceRouteGetSegmentsLeft_def num_def [symmetric]
        whip6_ipv6ExtensionHeaderSourceRouteCheckIfRoutingMethodIsCorrectOrDesignatePacketForDropping_def
        whip6_ipv6ExtensionHeaderSourceRouteGetRoutingType_def
        whip6_ipv6ExtensionHeaderSourceRouteCheckIfNumSegmentsIsCorrectOrDesignatePacketForDropping_def
        WHIP6_IPV6_EXTENSION_HEADER_SOURCE_ROUTE_SUPPORTED_ROUTING_TYPE_def)
  show ?thesis
    by (rule exI, rule exI, rule conjI, rule it(1), rule conjI, rule run)
      (simp add: finish_with_def ext_constants hl up(3) seg(2))
qed

text \<open>C31: a node of a source route passes the packet on. The header is of the supported kind, the packet has reached this
  node, the length fits n segments of which between one and n are left, and a chunk of the payload begins with the field of the
  segments left. Then fetching and processing the header, from its first byte on, makes the first address that is left the
  destination, where the octets that the header elides are those of the old destination, decrements the field and changes no
  other byte of the payload, moves the iterator and the offset to the following header, and designates the packet for
  forwarding, provided that neither of the two addresses is a multicast one.\<close>

theorem source_route_next_hop:
  assumes "srh_at st hdr segs tail" "srh_segments hdr n"
    and "flagsAndAction st AND WHIP6_IPV6_PACKET_PROCESSING_STATE_FLAG_PRESENT_NODE_IS_DESTINATION \<noteq> 0"
    and "srhRoutingType hdr = 3" "1 \<le> unat (srhSegmentsLeft hdr)" "unat (srhSegmentsLeft hdr) \<le> n"
    and "\<not> whip6_ipv6AddrIsMulticast (hdrDstAddr (esHeader st))"
    and "\<not> whip6_ipv6AddrIsMulticast
      (segment_addr hdr segs n (n - unat (srhSegmentsLeft hdr)) (hdrDstAddr (esHeader st)))"
    and "pos = iter_pos (esPayload st) (esIter st)" "chunk_start (esPayload st) (pos + 3) = pos + 3"
  shows "\<exists>st1 st2. whip6_ipv6ExtensionHeaderSourceRouteFetchHeaderIncoming st = Some st1 \<and>
    whip6_ipv6ExtensionHeaderSourceRouteProcessHeaderIncoming A s st1 = Some (s, st2) \<and>
    esHeader st2 = (esHeader st)\<lparr>hdrDstAddr :=
      segment_addr hdr segs n (n - unat (srhSegmentsLeft hdr)) (hdrDstAddr (esHeader st))\<rparr> \<and>
    flagsAndAction st2 = (flagsAndAction st AND NOT 3) OR 1 \<and> esNextHeader st2 = WHIP6_IANA_IPV6_NO_NEXT_HEADER \<and>
    esOffset st2 = esOffset st + 8 + of_nat (length segs) \<and>
    iter_pos (esPayload st2) (esIter st2) = pos + 8 + length segs \<and>
    concat (esPayload st2) = take pos (concat (esPayload st)) @
      srh_bytes (hdr\<lparr>srhSegmentsLeft := srhSegmentsLeft hdr - 1\<rparr>) @ segs @ tail"
proof -
  let ?P = "esPayload st"
  from assms(1) have rest: "drop pos (concat ?P) = srh_bytes hdr @ segs @ tail" and pad: "length (srhPadAndReserved hdr) = 3"
    unfolding srh_at_def assms(9) by blast+
  have "pos \<le> length (concat ?P)" using rest by (cases "pos \<le> length (concat ?P)") (simp_all add: srh_bytes_def)
  then have len: "length (take pos (concat ?P)) = pos" by simp
  have "(concat ?P)[pos + 3 := x] = take pos (concat ?P) @ (drop pos (concat ?P))[3 := x]" for x
    using list_update_append [of "take pos (concat ?P)" "drop pos (concat ?P)" "pos + 3" x] len by simp
  then have upd: "(concat ?P)[pos + 3 := srhSegmentsLeft hdr - 1] = take pos (concat ?P) @
      srh_bytes (hdr\<lparr>srhSegmentsLeft := srhSegmentsLeft hdr - 1\<rparr>) @ segs @ tail"
    unfolding rest by (simp add: srh_bytes_def numeral_3_eq_3)
  show ?thesis
    using source_route_step [OF assms(1-8), of A s] assms(10) unfolding assms(9) [symmetric] by (simp only: upd)
qed

text \<open>A packet is dropped, and a message about the field at the offset \<open>field\<close> is prepared unless messages are disabled: from the
  destination of the packet to its source, with the offset in its last four octets and room for the packet up to the point that
  has been processed.\<close>

definition problem_sent ::
  "packet_pools \<Rightarrow> ext_state \<Rightarrow> u8 \<Rightarrow> u16 \<Rightarrow> (packet_pools \<times> ext_state) option \<Rightarrow> bool" where
  "problem_sent s st code field res \<longleftrightarrow>
     (\<exists>s' st' it packet ptr. res = Some (s', st') \<and> scratchpad st' = Icmpv6Scratch it packet ptr \<and>
       flagsAndAction st' = flagsAndAction st OR 3 \<and> esNextHeader st' = WHIP6_IANA_IPV6_NO_NEXT_HEADER \<and>
       esHeader st' = esHeader st \<and> esPayload st' = esPayload st \<and>
       (if flagsAndAction st AND 0x40 = 0
        then (packet = None \<or> it \<noteq> None) \<and>
          message_ready s (Some (s', map_option (\<lambda>p. (p, the it)) packet)) (hdrDstAddr (esHeader st)) (hdrSrcAddr (esHeader st))
            (esOffset st) [4, code, 0, 0, 0, 0, u16_hi field, u16_lo field]
        else s' = s \<and> packet = None))"

text \<open>What the preparation of a message needs: chunks that can hold the eight bytes of its header, and a length that fits.\<close>

definition problem_possible :: "packet_pools \<Rightarrow> ext_state \<Rightarrow> bool" where
  "problem_possible s st \<longleftrightarrow> header_ok (esHeader st) \<and> unat (esOffset st) + 8 < 65536 \<and>
     IOV_BLIST_SIZE (iovPool s) + 8 \<le> CHUNK_SIZE (iovPool s)"

lemma drop_flag: "(f OR 3) AND (0x40 :: u8) = f AND 0x40"
proof -
  have "(f OR 3) AND (0x40 :: u8) = (f AND 0x40) OR (3 AND 0x40)" by (simp only: bit.conj_disj_distrib2)
  then show ?thesis by simp
qed

lemma pointer_octets:
  fixes field :: u16
  shows "ucast (drop_bit 24 (ucast field :: u32)) = (0 :: u8)" "ucast (drop_bit 16 (ucast field :: u32)) = (0 :: u8)"
    "ucast (drop_bit 8 (ucast field :: u32)) = u16_hi field" "ucast (ucast field :: u32) = u16_lo field"
  unfolding u16_hi_def u16_lo_def
  by (rule bit_word_eqI, auto simp: bit_simps dest: bit_imp_le_length)+

lemma drop_with_problem_sends:
  assumes "problem_possible s st"
  shows "problem_sent s st code field (drop_with_problem pools s st code (Some (ucast field)))"
proof (cases "flagsAndAction st AND 0x40 = 0")
  case True
  let ?msg = "whip6_icmpv6CreatePacketProtoForParameterProblemMessage pools s (hdrDstAddr (esHeader st))
    (hdrSrcAddr (esHeader st)) (esOffset st) code (ucast field)"
  have "ipv6_addr_ok (hdrDstAddr (esHeader st))" "ipv6_addr_ok (hdrSrcAddr (esHeader st))" "unat (esOffset st) + 8 < 65536"
    using assms by (simp_all add: problem_possible_def header_ok_def ipv6_addr_ok_def)
  from common_message_built [OF this, of s 4 code "ucast field", unfolded pointer_octets] this(3)
  have "message_ready s ?msg (hdrDstAddr (esHeader st)) (hdrSrcAddr (esHeader st)) (esOffset st)
      [4, code, 0, 0, 0, 0, u16_hi field, u16_lo field]"
    using assms
    by (intro message_built_ready) (simp_all add: problem_possible_def WHIP6_ICMPV6_MESSAGE_TYPE_PARAMETER_PROBLEM_def
        whip6_icmpv6CreatePacketProtoForParameterProblemMessage_def)
  moreover from this obtain s' r where "?msg = Some (s', r)" unfolding message_ready_def by auto
  ultimately show ?thesis using True
    by (cases r; cases "scratchpad st") (auto simp: drop_with_problem_def problem_sent_def Let_def ext_constants drop_flag scratch_defs)
next
  case False
  then show ?thesis
    by (cases "scratchpad st") (auto simp: drop_with_problem_def problem_sent_def Let_def ext_constants drop_flag scratch_defs)
qed

lemmas process_defs = whip6_ipv6ExtensionHeaderSourceRouteProcessHeaderIncoming_def clear_fetched
  whip6_ipv6ExtensionHeaderSourceRouteCheckIfPacketShouldBeProcessedLocallyOrDesignateItForForwarding_def present_fetched

lemmas check_defs = scratch_srh_def whip6_ipv6ExtensionHeaderSourceRouteGetSegmentsLeft_def
  whip6_ipv6ExtensionHeaderSourceRouteCheckIfRoutingMethodIsCorrectOrDesignatePacketForDropping_def
  whip6_ipv6ExtensionHeaderSourceRouteGetRoutingType_def
  whip6_ipv6ExtensionHeaderSourceRouteCheckIfNumSegmentsIsCorrectOrDesignatePacketForDropping_def
  WHIP6_IPV6_EXTENSION_HEADER_SOURCE_ROUTE_SUPPORTED_ROUTING_TYPE_def
  WHIP6_ICMPV6_MESSAGE_TYPE_PARAMETER_PROBLEM_CODE_ERRONEOUS_HEADER_FIELD_def

abbreviation "for_this_node st \<equiv>
  flagsAndAction st AND WHIP6_IPV6_PACKET_PROCESSING_STATE_FLAG_PRESENT_NODE_IS_DESTINATION \<noteq> 0"

lemma process_forward:
  "\<not> for_this_node st \<Longrightarrow> whip6_ipv6ExtensionHeaderSourceRouteProcessHeaderIncoming A s (fetched st it hdr) =
   Some (s, finish_with WHIP6_IPV6_PACKET_PROCESSING_STATE_ACTION_FINISH_PROCESSING_AND_FORWARD_PACKET (fetched st it hdr))"
  unfolding process_defs Let_def by simp

lemma process_skip:
  "for_this_node st \<Longrightarrow> srhSegmentsLeft hdr = 0 \<Longrightarrow>
   whip6_ipv6ExtensionHeaderSourceRouteSkipAllSegmentsAndDesignatePacketForFurtherProcessing (fetched st it hdr)
     (whip6_ipv6ExtensionHeaderSourceRouteGetHeaderLength hdr) = Some (st2, b) \<Longrightarrow>
   whip6_ipv6ExtensionHeaderSourceRouteProcessHeaderIncoming A s (fetched st it hdr) = Some (s, st2)"
  unfolding process_defs Let_def by (simp add: check_defs)

lemma process_bad_type:
  "for_this_node st \<Longrightarrow> srhSegmentsLeft hdr \<noteq> 0 \<Longrightarrow> srhRoutingType hdr \<noteq> 3 \<Longrightarrow>
   whip6_ipv6ExtensionHeaderSourceRouteProcessHeaderIncoming A s (fetched st it hdr) =
   drop_with_problem A s (fetched st it hdr) 0 (Some (ucast (2 + esOffset st)))"
  unfolding process_defs Let_def
  by (cases "drop_with_problem A s (fetched st it hdr) 0 (Some (ucast (2 + esOffset st)))") (simp_all add: check_defs split_beta)

lemma process_bad_segments:
  "for_this_node st \<Longrightarrow> srhSegmentsLeft hdr \<noteq> 0 \<Longrightarrow> srhRoutingType hdr = 3 \<Longrightarrow>
   \<not> srhSegmentsLeft hdr \<le> srh_num_segments hdr (whip6_ipv6ExtensionHeaderSourceRouteGetHeaderLength hdr) \<Longrightarrow>
   whip6_ipv6ExtensionHeaderSourceRouteProcessHeaderIncoming A s (fetched st it hdr) =
   drop_with_problem A s (fetched st it hdr) 0 (Some (ucast (3 + esOffset st)))"
  unfolding process_defs Let_def
  by (cases "drop_with_problem A s (fetched st it hdr) 0 (Some (ucast (3 + esOffset st)))") (simp_all add: check_defs split_beta)

text \<open>C32: the other outcomes for a source routing header that has been fetched. A packet for another node is to be forwarded as
  it is. When no segments are left the header is skipped: the next header is taken from it, and the pointer for an error
  about it is the offset of its first field. With another routing type, or more segments left than there are, the packet is
  dropped, and unless messages are disabled a message is prepared from this node to the source whose pointer is the
  offset of the wrong field; when there is no memory for it the packet is dropped all the same.\<close>

theorem source_route_other:
  assumes "srh_at st hdr segs tail" "unat (esOffset st) + 16 < 65536" "IOV_BLIST_SIZE (iovPool s) + 8 \<le> CHUNK_SIZE (iovPool s)"
  shows "\<exists>st1. whip6_ipv6ExtensionHeaderSourceRouteFetchHeaderIncoming st = Some st1 \<and>
    flagsAndAction st1 = flagsAndAction st AND NOT 3 \<and> esOffset st1 = esOffset st + 8 \<and>
    esHeader st1 = esHeader st \<and> esPayload st1 = esPayload st \<and>
    (\<not> for_this_node st \<longrightarrow> (\<exists>st2. whip6_ipv6ExtensionHeaderSourceRouteProcessHeaderIncoming pools s st1 = Some (s, st2) \<and>
      flagsAndAction st2 = (flagsAndAction st AND NOT 3) OR 1 \<and> esNextHeader st2 = WHIP6_IANA_IPV6_NO_NEXT_HEADER \<and>
      esHeader st2 = esHeader st \<and> esPayload st2 = esPayload st)) \<and>
    (for_this_node st \<and> srhSegmentsLeft hdr = 0 \<longrightarrow>
      (\<exists>st2. whip6_ipv6ExtensionHeaderSourceRouteProcessHeaderIncoming pools s st1 = Some (s, st2) \<and>
        flagsAndAction st2 = flagsAndAction st AND NOT 3 \<and> esNextHeader st2 = srhNextHdr hdr \<and>
        esHeader st2 = esHeader st \<and> esPayload st2 = esPayload st \<and>
        esOffset st2 = esOffset st + 8 + of_nat (length segs) \<and>
        iter_pos (esPayload st2) (esIter st2) = iter_pos (esPayload st) (esIter st) + 8 + length segs \<and>
        scratch_pointer (scratchpad st2) = Some (ucast (esOffset st)))) \<and>
    (for_this_node st \<and> srhSegmentsLeft hdr \<noteq> 0 \<and> srhRoutingType hdr \<noteq> 3 \<longrightarrow>
      problem_sent s st1 0 (esOffset st + 2) (whip6_ipv6ExtensionHeaderSourceRouteProcessHeaderIncoming pools s st1)) \<and>
    (\<forall>n. for_this_node st \<and> srhRoutingType hdr = 3 \<and> srh_segments hdr n \<and> n < unat (srhSegmentsLeft hdr) \<longrightarrow>
      problem_sent s st1 0 (esOffset st + 3) (whip6_ipv6ExtensionHeaderSourceRouteProcessHeaderIncoming pools s st1))"
proof -
  let ?P = "esPayload st" and ?p = "iter_pos (esPayload st) (esIter st)"
  let ?hl = "whip6_ipv6ExtensionHeaderSourceRouteGetHeaderLength hdr"
  let ?num = "srh_num_segments hdr ?hl"
  obtain it where it: "whip6_ipv6ExtensionHeaderSourceRouteFetchHeaderIncoming st = Some (fetched st it hdr)"
    "iter_ok ?P it" "whip6_iovIteratorIsValid it" "iter_pos ?P it = ?p + 8" "iter_rest ?P it = segs @ tail"
    using fetch_ok [OF assms(1)] by blast
  let ?st1 = "fetched st it hdr"
  have len: "length segs = 8 * unat (srhHdrExtLen hdr)" using assms unfolding srh_at_def by blast
  note hl = header_length_of_nat [OF len]
  have uhl: "unat ?hl = length segs" by (simp only: len unat_header_length)
  have tot: "iter_pos ?P it + (length segs + length tail) = length (concat ?P)" using rest_length [OF it(2,5)] by simp
  then have "iter_pos ?P it + unat ?hl \<le> length (concat ?P)" using uhl by linarith
  from iter_move [OF it(2) this] obtain it' where
    it': "whip6_iovIteratorMoveForward ?P it (unat ?hl) = Some (it', unat ?hl)" "iter_pos ?P it' = ?p + 8 + length segs"
    using it(4) uhl by auto
  define st2 where "st2 = ?st1\<lparr>esIter := it', esNextHeader := srhNextHdr hdr,
    scratchpad := Icmpv6Scratch None None (Some (ucast (esOffset st + 8) - 8)), esOffset := esOffset st + 8 + ?hl\<rparr>"
  have o8: "unat (esOffset st + 8) = unat (esOffset st) + 8" using assms(2) by (simp add: unat_add_lem [THEN iffD1])
  have ptr: "ucast (esOffset st + 8) - 8 = (ucast (esOffset st) :: u32)"
  proof -
    have "(ucast (esOffset st + 8) :: u32) = of_nat (unat (esOffset st + 8))" by simp
    also have "\<dots> = ucast (esOffset st) + 8" unfolding o8 by simp
    finally show ?thesis by simp
  qed
  have poss: "problem_possible s ?st1"
    using assms o8 by (simp add: problem_possible_def srh_at_def)
  have skip: "whip6_ipv6ExtensionHeaderSourceRouteSkipAllSegmentsAndDesignatePacketForFurtherProcessing ?st1 ?hl =
      Some (st2, False)"
    using it'(1) by (simp add: whip6_ipv6ExtensionHeaderSourceRouteSkipAllSegmentsAndDesignatePacketForFurtherProcessing_def
        scratch_defs ext_constants whip6_ipv6ExtensionHeaderSourceRouteGetNextHeader_def st2_def)
  show ?thesis
  proof (rule exI [of _ ?st1], intro conjI allI impI, goal_cases)
    case 1
    show ?case by (rule it(1))
  next
    case 6
    from process_forward [OF this, of pools s it hdr] show ?case by (auto simp: finish_with_def ext_constants)
  next
    case 7
    then have "whip6_ipv6ExtensionHeaderSourceRouteProcessHeaderIncoming pools s ?st1 = Some (s, st2)"
      by (intro process_skip [OF _ _ skip]) simp_all
    moreover have "scratch_pointer (scratchpad st2) = Some (ucast (esOffset st))"
      by (simp add: st2_def scratch_pointer_def ptr)
    ultimately show ?case using it'(2) by (intro exI [of _ st2]) (simp add: st2_def hl ext_constants)
  next
    case 8
    then have "whip6_ipv6ExtensionHeaderSourceRouteProcessHeaderIncoming pools s ?st1 =
        drop_with_problem pools s ?st1 0 (Some (ucast (esOffset st + 2)))"
      using process_bad_type [of st hdr pools s it] by (simp add: add.commute)
    then show ?case using drop_with_problem_sends [OF poss] by (simp only:)
  next
    case (9 n)
    then have "unat ?num = n" by (intro num_segments_eq) (simp_all add: srh_segments_def)
    then have "\<not> srhSegmentsLeft hdr \<le> ?num" "srhSegmentsLeft hdr \<noteq> 0" using 9 by (auto simp: word_le_nat_alt)
    then have "whip6_ipv6ExtensionHeaderSourceRouteProcessHeaderIncoming pools s ?st1 =
        drop_with_problem pools s ?st1 0 (Some (ucast (esOffset st + 3)))"
      using process_bad_segments [of st hdr pools s it] 9 by (simp add: add.commute)
    then show ?case using drop_with_problem_sends [OF poss] by (simp only:)
  qed (simp_all add: ext_constants)
qed

section \<open>Skipping a generic header\<close>

lemma generic_fetch_short:
  assumes "iov_ok (esPayload st)" "iter_ok (esPayload st) (esIter st)" "iter_rest (esPayload st) (esIter st) = bs" "length bs < 3"
  shows "\<exists>st1. whip6_ipv6ExtensionHeaderGenericFetchAndSkipHeaderIncoming st = Some st1 \<and>
    esHeader st1 = esHeader st \<and> esPayload st1 = esPayload st \<and>
    flagsAndAction st1 = (flagsAndAction st AND NOT 3) OR 3 \<and> esNextHeader st1 = WHIP6_IANA_IPV6_NO_NEXT_HEADER"
proof -
  let ?P = "esPayload st"
  have tot: "iter_pos ?P (esIter st) + length bs = length (concat ?P)" by (rule rest_length [OF assms(2,3)])
  from iovRead_spec [OF assms(1,2) _ refl, of 0 2 "replicate 2 0"] obtain it where
    it: "whip6_iovIteratorReadAndMoveForward ?P (esIter st) (Some (replicate 2 0)) 0 2 =
        Some (it, Some (mem_blit (replicate 2 0) 0 (take 2 bs)), length (take 2 bs))"
      "iter_ok ?P it" "iter_pos ?P it = iter_pos ?P (esIter st) + length (take 2 bs)" unfolding assms(3) by auto
  have "length (take 2 bs) \<noteq> 2 \<or> \<not> whip6_iovIteratorIsValid it"
    using iter_valid_iff [OF it(2)] it(3) tot assms(4) by (cases "length bs = 2") auto
  then show ?thesis
    using it(1) unfolding whip6_ipv6ExtensionHeaderGenericFetchAndSkipHeaderIncoming_def
    by (auto simp: Let_def clear_action_def finish_with_def ext_constants)
qed

text \<open>The length of a header, of which the first eight bytes are not counted.\<close>

lemma generic_length:
  fixes l :: u8
  defines "hl \<equiv> push_bit 3 (ucast l) + ((2 + 7) AND NOT 7) :: u16"
  shows "hl = of_nat (8 + 8 * unat l)" "unat (hl - 2) = 6 + 8 * unat l"
proof -
  have l8: "unat (push_bit 3 (ucast l) :: u16) = 8 * unat l"
    using unat_header_length [of "srh_of_bytes [0, l]"] by (simp add: srh_defs srh_of_bytes_def)
  have "8 * unat l + 8 < 65536" using unat_u8_less [of l] by linarith
  then have hl: "unat hl = 8 + 8 * unat l" by (simp add: hl_def unat_word_ariths(1) l8)
  then have "(of_nat (8 + 8 * unat l) :: u16) = of_nat (unat hl)" by (simp only:)
  then show "hl = of_nat (8 + 8 * unat l)" by simp
  show "unat (hl - 2) = 6 + 8 * unat l" using hl by (subst unat_sub) (simp_all add: word_le_nat_alt)
qed

lemma generic_fetch_long:
  assumes "iov_ok (esPayload st)" "iter_ok (esPayload st) (esIter st)" "iter_rest (esPayload st) (esIter st) = a # l # b # bs"
  shows "\<exists>st1. whip6_ipv6ExtensionHeaderGenericFetchAndSkipHeaderIncoming st = Some st1 \<and>
    esHeader st1 = esHeader st \<and> esPayload st1 = esPayload st \<and>
    (if 8 + 8 * unat l \<le> length (a # l # b # bs)
     then flagsAndAction st1 = flagsAndAction st AND NOT 3 \<and> esNextHeader st1 = a \<and>
       esOffset st1 = esOffset st + of_nat (8 + 8 * unat l) \<and>
       iter_pos (esPayload st) (esIter st1) = iter_pos (esPayload st) (esIter st) + 8 + 8 * unat l \<and>
       scratch_pointer (scratchpad st1) = Some (ucast (esOffset st))
     else flagsAndAction st1 = (flagsAndAction st AND NOT 3) OR 3 \<and> esNextHeader st1 = WHIP6_IANA_IPV6_NO_NEXT_HEADER)"
proof -
  let ?P = "esPayload st" and ?p = "iter_pos (esPayload st) (esIter st)" and ?bs = "a # l # b # bs"
  have tot: "?p + length ?bs = length (concat ?P)" by (rule rest_length [OF assms(2,3)])
  from iovRead_spec [OF assms(1,2) _ refl, of 0 2 "replicate 2 0"] obtain it where
    it: "whip6_iovIteratorReadAndMoveForward ?P (esIter st) (Some (replicate 2 0)) 0 2 =
        Some (it, Some (mem_blit (replicate 2 0) 0 (take 2 ?bs)), length (take 2 ?bs))"
      "iter_ok ?P it" "iter_pos ?P it = ?p + length (take 2 ?bs)" unfolding assms(3) by auto
  have hdr: "mem_blit (replicate 2 0) 0 (take 2 ?bs) = [a, l]" by (simp add: mem_blit_def numeral_2_eq_2)
  have valid: "length (take 2 ?bs) = 2" "whip6_iovIteratorIsValid it" using iter_valid_iff [OF it(2)] it(3) tot by simp_all
  define hl :: u16 where "hl = push_bit 3 (ucast l) + ((2 + 7) AND NOT 7)"
  note hl = generic_length [of l, folded hl_def]
  define k where "k = min (6 + 8 * unat l) (length (iter_rest ?P it))"
  from iovMoveForward_spec [OF it(2) k_def] obtain it' where
    it': "whip6_iovIteratorMoveForward ?P it (6 + 8 * unat l) = Some (it', k)" "iter_pos ?P it' = ?p + 2 + k"
    using it(3) valid(1) by auto
  have k: "k = 6 + 8 * unat l \<longleftrightarrow> 8 + 8 * unat l \<le> length ?bs"
  proof -
    have "length (iter_rest ?P it) = length ?bs - 2" using it(3) valid(1) tot by simp
    then show ?thesis by (auto simp: k_def)
  qed
  let ?st = "(clear_action st)\<lparr>esIter := it, scratchpad := GenericHdr [a, l]\<rparr>"
  have run: "whip6_ipv6ExtensionHeaderGenericFetchAndSkipHeaderIncoming st =
      Some (if 6 + 8 * unat l = k
        then ?st\<lparr>esIter := it', flagsAndAction := flagsAndAction ?st OR 0, esNextHeader := a,
          scratchpad := Icmpv6Scratch None None (Some (ucast (esOffset st))), esOffset := esOffset st + hl\<rparr>
        else finish_with WHIP6_IPV6_PACKET_PROCESSING_STATE_ACTION_DROP_PACKET (?st\<lparr>esIter := it'\<rparr>))"
    using it(1) [unfolded hdr] it'(1) valid hl(2) unfolding whip6_ipv6ExtensionHeaderGenericFetchAndSkipHeaderIncoming_def
    by (simp add: Let_def clear_action_def scratch_defs hl_def WHIP6_IPV6_PACKET_PROCESSING_STATE_ACTION_CONTINUE_PROCESSING_PACKET_def)
  show ?thesis
  proof (cases "k = 6 + 8 * unat l")
    case True
    then show ?thesis using run it'(2) k
      by (simp add: clear_action_def ext_constants scratch_pointer_def hl(1))
  next
    case False
    then show ?thesis using run k by (simp add: clear_action_def ext_constants finish_with_def)
  qed
qed

lemma unrecognized_sends:
  assumes "problem_possible s st1" "flagsAndAction st1 = f AND NOT 3" "scratch_pointer (scratchpad st1) = Some (ucast field)"
  shows "problem_sent s st1 1 field (whip6_ipv6ExtensionHeaderGenericHandleUnrecognizedHeaderIncoming pools s st1)"
proof -
  have "clear_action st1 = st1" using assms(2) by (simp add: clear_action_def ext_constants and.assoc)
  then have "whip6_ipv6ExtensionHeaderGenericHandleUnrecognizedHeaderIncoming pools s st1 =
      drop_with_problem pools s st1 1 (Some (ucast field))"
    using assms(3) by (simp add: whip6_ipv6ExtensionHeaderGenericHandleUnrecognizedHeaderIncoming_def
        WHIP6_ICMPV6_MESSAGE_TYPE_PARAMETER_PROBLEM_CODE_UNRECOGNIZED_NEXT_HEADER_TYPE_def)
  then show ?thesis using drop_with_problem_sends [OF assms(1)] by (simp only:)
qed

text \<open>C33: skipping a generic extension header. If the packet holds the whole header, of eight bytes and eight more for each
  unit of its length field, the iterator and the offset move behind it and the next header is taken from it; handling that one
  as not recognised drops the packet and, unless messages are disabled, prepares a message whose pointer is the offset of
  the field that named it. If it does not, the packet is dropped. Its header and payload stay as they are.\<close>

theorem extension_header_skip:
  assumes "iov_ok (esPayload st)" "iter_ok (esPayload st) (esIter st)" "iter_rest (esPayload st) (esIter st) = bs"
    and "header_ok (esHeader st)" "unat (esOffset st) + length bs + 8 < 65536"
    and "IOV_BLIST_SIZE (iovPool s) + 8 \<le> CHUNK_SIZE (iovPool s)"
  shows "\<exists>st1. whip6_ipv6ExtensionHeaderGenericFetchAndSkipHeaderIncoming st = Some st1 \<and>
    esHeader st1 = esHeader st \<and> esPayload st1 = esPayload st \<and>
    (if 2 \<le> length bs \<and> 8 + 8 * unat (bs ! 1) \<le> length bs
     then flagsAndAction st1 = flagsAndAction st AND NOT 3 \<and> esNextHeader st1 = bs ! 0 \<and>
       unat (esOffset st1) = unat (esOffset st) + 8 + 8 * unat (bs ! 1) \<and>
       iter_pos (esPayload st) (esIter st1) = iter_pos (esPayload st) (esIter st) + 8 + 8 * unat (bs ! 1) \<and>
       problem_sent s st1 1 (esOffset st) (whip6_ipv6ExtensionHeaderGenericHandleUnrecognizedHeaderIncoming pools s st1)
     else flagsAndAction st1 = (flagsAndAction st AND NOT 3) OR 3 \<and> esNextHeader st1 = WHIP6_IANA_IPV6_NO_NEXT_HEADER)"
proof (cases "length bs < 3")
  case True
  then show ?thesis using generic_fetch_short [OF assms(1-3)] by auto
next
  case False
  then obtain a l b bs' where bs: "bs = a # l # b # bs'" by (cases bs; cases "tl bs"; cases "tl (tl bs)") auto
  obtain st1 where st1: "whip6_ipv6ExtensionHeaderGenericFetchAndSkipHeaderIncoming st = Some st1"
    "esHeader st1 = esHeader st" "esPayload st1 = esPayload st"
    "if 8 + 8 * unat l \<le> length bs
     then flagsAndAction st1 = flagsAndAction st AND NOT 3 \<and> esNextHeader st1 = a \<and>
       esOffset st1 = esOffset st + of_nat (8 + 8 * unat l) \<and>
       iter_pos (esPayload st) (esIter st1) = iter_pos (esPayload st) (esIter st) + 8 + 8 * unat l \<and>
       scratch_pointer (scratchpad st1) = Some (ucast (esOffset st))
     else flagsAndAction st1 = (flagsAndAction st AND NOT 3) OR 3 \<and> esNextHeader st1 = WHIP6_IANA_IPV6_NO_NEXT_HEADER"
    using generic_fetch_long [OF assms(1,2) assms(3) [unfolded bs]] unfolding bs by blast
  show ?thesis
  proof (cases "8 + 8 * unat l \<le> length bs")
    case True
    note t = st1(4) [unfolded if_P [OF True]]
    have "unat (of_nat (8 + 8 * unat l) :: u16) = 8 + 8 * unat l" using True assms(5) by (intro unat_u16_of_nat) linarith
    then have off: "unat (esOffset st1) = unat (esOffset st) + 8 + 8 * unat l"
      using True assms(5) t by (simp add: unat_word_ariths(1))
    then have "problem_possible s st1" using True assms(4-6) st1(2) by (simp add: problem_possible_def)
    from unrecognized_sends [OF this, of "flagsAndAction st" "esOffset st"] t off True st1(1-3) show ?thesis
      by (intro exI [of _ st1]) (simp add: bs)
  next
    case False
    then show ?thesis using st1 by (intro exI [of _ st1]) (simp add: bs)
  qed
qed

text \<open>A packet with a source routing header of one segment, whose field of the segments left begins a chunk.\<close>

definition ex_srh :: ipv6_extension_header_srh where
  "ex_srh = \<lparr>srhNextHdr = 17, srhHdrExtLen = 2, srhRoutingType = 3, srhSegmentsLeft = 1, srhCmprX = 0,
     srhPadAndReserved = [0, 0, 0]\<rparr>"

definition ex_ext_state :: "ipv6_extension_header_srh \<Rightarrow> ext_state" where
  "ex_ext_state hdr = \<lparr>esIter = \<lparr>currElem = Some 0, iterOffset = 0\<rparr>, esHeader = header_of_bytes (replicate 40 1),
     esPayload = [take 3 (srh_bytes hdr), drop 3 (srh_bytes hdr) @ replicate 16 2 @ [9]], esOffset = 40, flagsAndAction = 0x80,
     esNextHeader = 43, scratchpad = Icmpv6Scratch None None None\<rparr>"

lemma ex_srh_at: "srh_at (ex_ext_state (ex_srh\<lparr>srhSegmentsLeft := n, srhRoutingType := t\<rparr>))
    (ex_srh\<lparr>srhSegmentsLeft := n, srhRoutingType := t\<rparr>) (replicate 16 2) [9]"
  by (simp add: srh_at_def ex_ext_state_def ex_srh_def iov_ok_def iter_ok_def iter_pos_def srh_bytes_def
      header_of_bytes_ok whip6_ipv6ExtensionHeaderSourceRouteCheckReserved_def)

lemma ex_srh_segments: "srh_segments (ex_srh\<lparr>srhSegmentsLeft := n, srhRoutingType := t\<rparr>) 1"
  by (simp add: srh_segments_def ex_srh_def srh_defs)

lemma ex_segment_addr: "segment_addr ex_srh (replicate 16 2) (Suc 0) 0 d = replicate 16 2"
  by (simp add: segment_addr_def ex_srh_def srh_defs)

lemma ex_ext_simps:
  "flagsAndAction (ex_ext_state hdr) = 0x80" "esOffset (ex_ext_state hdr) = 40" "for_this_node (ex_ext_state hdr)"
  "hdrDstAddr (esHeader (ex_ext_state hdr)) = replicate 16 1" "header_ok (esHeader (ex_ext_state hdr))"
  "esIter (ex_ext_state hdr) = \<lparr>currElem = Some 0, iterOffset = 0\<rparr>"
  by (simp_all add: ex_ext_state_def header_of_bytes_def header_ok_def
      WHIP6_IPV6_PACKET_PROCESSING_STATE_FLAG_PRESENT_NODE_IS_DESTINATION_def)

text \<open>A message for which there is memory.\<close>

lemma problem_sent_runs:
  assumes "problem_sent icmp_ex_pools st code field res" "flagsAndAction st AND 0x40 = 0" "unat (esOffset st) + 8 \<le> 168"
  shows "\<exists>s' st' it p ptr room. res = Some (s', st') \<and> scratchpad st' = Icmpv6Scratch it (Some p) ptr \<and>
    flagsAndAction st' = flagsAndAction st OR 3 \<and>
    concat (pkt_iov p) = [4, code, 0, 0, 0, 0, u16_hi field, u16_lo field] @ room"
  using assms unfolding problem_sent_def message_ready_def icmp_ex_pools_sizes by (fastforce split: option.splits)

theorem source_route_next_hop_witness:
  "\<exists>st1 st2. whip6_ipv6ExtensionHeaderSourceRouteFetchHeaderIncoming (ex_ext_state ex_srh) = Some st1 \<and>
    whip6_ipv6ExtensionHeaderSourceRouteProcessHeaderIncoming pools icmp_ex_pools st1 = Some (icmp_ex_pools, st2) \<and>
    hdrDstAddr (esHeader st2) = replicate 16 2 \<and> take 4 (concat (esPayload st2)) = [17, 2, 3, 0]"
proof -
  let ?st = "ex_ext_state ex_srh"
  have hdr: "ex_srh\<lparr>srhSegmentsLeft := 1, srhRoutingType := 3\<rparr> = ex_srh" by (simp add: ex_srh_def)
  have left: "srhSegmentsLeft ex_srh = 1" "srhRoutingType ex_srh = 3" by (simp_all add: ex_srh_def)
  have pos: "0 = iter_pos (esPayload ?st) (esIter ?st)" "chunk_start (esPayload ?st) (0 + 3) = 0 + 3"
    by (simp_all add: ex_ext_state_def ex_srh_def srh_bytes_def iter_pos_def)
  have segs: "1 \<le> unat (srhSegmentsLeft ex_srh)" "unat (srhSegmentsLeft ex_srh) \<le> 1" by (simp_all add: left)
  have mc: "\<not> whip6_ipv6AddrIsMulticast (hdrDstAddr (esHeader ?st))"
    "\<not> whip6_ipv6AddrIsMulticast (segment_addr ex_srh (replicate 16 2) 1 (1 - unat (srhSegmentsLeft ex_srh)) (hdrDstAddr (esHeader ?st)))"
    by (simp_all add: ex_ext_simps left ex_segment_addr whip6_ipv6AddrIsMulticast_def)
  have bytes: "srh_bytes (ex_srh\<lparr>srhSegmentsLeft := 0\<rparr>) = [17, 2, 3, 0, 0, 0, 0, 0]" by (simp add: ex_srh_def srh_bytes_def)
  from source_route_next_hop [OF ex_srh_at [where n = 1 and t = 3, unfolded hdr] ex_srh_segments [where n = 1 and t = 3, unfolded hdr] ex_ext_simps(3) left(2) segs mc
      pos, of pools icmp_ex_pools]
  show ?thesis by (elim ex_forward conjE) (simp add: left ex_segment_addr bytes)
qed

theorem source_route_other_witness:
  "\<exists>st1 st2 st3 s4 st4 it p ptr room. whip6_ipv6ExtensionHeaderSourceRouteFetchHeaderIncoming
      (ex_ext_state (ex_srh\<lparr>srhSegmentsLeft := 0, srhRoutingType := 3\<rparr>)) = Some st1 \<and>
    whip6_ipv6ExtensionHeaderSourceRouteProcessHeaderIncoming pools icmp_ex_pools st1 = Some (icmp_ex_pools, st2) \<and>
    esNextHeader st2 = 17 \<and> esOffset st2 = 64 \<and>
    whip6_ipv6ExtensionHeaderSourceRouteFetchHeaderIncoming (ex_ext_state (ex_srh\<lparr>srhSegmentsLeft := 2, srhRoutingType := 3\<rparr>)) =
      Some st3 \<and>
    whip6_ipv6ExtensionHeaderSourceRouteProcessHeaderIncoming pools icmp_ex_pools st3 = Some (s4, st4) \<and>
    scratchpad st4 = Icmpv6Scratch it (Some p) ptr \<and> concat (pkt_iov p) = [4, 0, 0, 0, 0, 0, 0, 43] @ room"
proof -
  let ?h = "\<lambda>n. ex_srh\<lparr>srhSegmentsLeft := n, srhRoutingType := 3\<rparr>"
  have side: "unat (esOffset (ex_ext_state hdr)) + 16 < 65536" for hdr by (simp add: ex_ext_simps)
  have pool: "IOV_BLIST_SIZE (iovPool icmp_ex_pools) + 8 \<le> CHUNK_SIZE (iovPool icmp_ex_pools)" by (simp add: icmp_ex_pools_sizes)
  from source_route_other [OF ex_srh_at [where n = 0 and t = 3] side pool] obtain st1 st2 where
    "whip6_ipv6ExtensionHeaderSourceRouteFetchHeaderIncoming (ex_ext_state (?h 0)) = Some st1"
    "whip6_ipv6ExtensionHeaderSourceRouteProcessHeaderIncoming pools icmp_ex_pools st1 = Some (icmp_ex_pools, st2)"
    "esNextHeader st2 = 17" "esOffset st2 = 64"
    using ex_ext_simps(3) [of "?h 0"] by (auto simp: ex_srh_def ex_ext_simps(2))
  moreover from source_route_other [OF ex_srh_at [where n = 2 and t = 3] side pool] obtain st3 where
    st3: "whip6_ipv6ExtensionHeaderSourceRouteFetchHeaderIncoming (ex_ext_state (?h 2)) = Some st3"
    "flagsAndAction st3 = flagsAndAction (ex_ext_state (?h 2)) AND NOT 3" "esOffset st3 = esOffset (ex_ext_state (?h 2)) + 8"
    "problem_sent icmp_ex_pools st3 0 (esOffset (ex_ext_state (?h 2)) + 3)
       (whip6_ipv6ExtensionHeaderSourceRouteProcessHeaderIncoming pools icmp_ex_pools st3)"
    using ex_ext_simps(3) [of "?h 2"] ex_srh_segments [where n = 2 and t = 3] by (auto dest: spec [of _ "1 :: nat"])
  moreover from st3(2,3) have "flagsAndAction st3 AND 0x40 = 0" "unat (esOffset st3) + 8 \<le> 168" by (simp_all add: ex_ext_simps)
  note problem_sent_runs [OF st3(4) this]
  moreover have "u16_hi (esOffset (ex_ext_state (?h 2)) + 3) = 0" "u16_lo (esOffset (ex_ext_state (?h 2)) + 3) = 43"
    by (simp_all add: ex_ext_simps u16_hi_def u16_lo_def drop_bit_eq_div)
  ultimately show ?thesis by auto
qed

theorem extension_header_skip_witness:
  "\<exists>st1 s2 st2 it p ptr room. whip6_ipv6ExtensionHeaderGenericFetchAndSkipHeaderIncoming (ex_ext_state ex_srh) = Some st1 \<and>
    esNextHeader st1 = 17 \<and> unat (esOffset st1) = 64 \<and>
    whip6_ipv6ExtensionHeaderGenericHandleUnrecognizedHeaderIncoming pools icmp_ex_pools st1 = Some (s2, st2) \<and>
    scratchpad st2 = Icmpv6Scratch it (Some p) ptr \<and> concat (pkt_iov p) = [4, 1, 0, 0, 0, 0, 0, 40] @ room"
proof -
  let ?st = "ex_ext_state ex_srh"
  have "ex_srh\<lparr>srhSegmentsLeft := 1, srhRoutingType := 3\<rparr> = ex_srh" by (simp add: ex_srh_def)
  with ex_srh_at [where n = 1 and t = 3] have ok: "iov_ok (esPayload ?st)" "iter_ok (esPayload ?st) (esIter ?st)"
    unfolding srh_at_def by simp_all
  have bs: "iter_rest (esPayload ?st) (esIter ?st) = [17, 2, 3, 1, 0, 0, 0, 0] @ replicate 16 2 @ [9]"
    by (simp add: ex_ext_state_def ex_srh_def srh_bytes_def iter_pos_def)
  have side: "unat (esOffset ?st) + length ([17, 2, 3, 1, 0, 0, 0, 0] @ replicate 16 2 @ [9 :: u8]) + 8 < 65536"
    "IOV_BLIST_SIZE (iovPool icmp_ex_pools) + 8 \<le> CHUNK_SIZE (iovPool icmp_ex_pools)"
    by (simp_all add: ex_ext_simps icmp_ex_pools_sizes)
  from extension_header_skip [OF ok bs ex_ext_simps(5) side] obtain st1 where
    st1: "whip6_ipv6ExtensionHeaderGenericFetchAndSkipHeaderIncoming ?st = Some st1" "esNextHeader st1 = 17"
    "unat (esOffset st1) = 64" "flagsAndAction st1 = flagsAndAction ?st AND NOT 3"
    "problem_sent icmp_ex_pools st1 1 (esOffset ?st)
       (whip6_ipv6ExtensionHeaderGenericHandleUnrecognizedHeaderIncoming pools icmp_ex_pools st1)"
    by (auto simp: ex_ext_simps(2))
  from st1(3,4) have "flagsAndAction st1 AND 0x40 = 0" "unat (esOffset st1) + 8 \<le> 168" by (simp_all add: ex_ext_simps)
  note r = problem_sent_runs [OF st1(5) this]
  have "u16_hi (esOffset ?st) = 0" "u16_lo (esOffset ?st) = 40"
    by (simp_all add: ex_ext_simps u16_hi_def u16_lo_def drop_bit_eq_div)
  with r st1(1-3) show ?thesis by auto
qed

end
