(* ===== verification/Rpl_Messages.thy ===== *)
theory Rpl_Messages
  imports Base_IoVecIter Ipv6_Address
begin

text \<open>
  Building RPL control messages: \<open>microc/src/rpl/ucRplMessageBuilders.c\<close>,
  \<open>microc/include/rpl/ucRplMessageBuilders.h\<close>, \<open>ucRplMessageTypes.h\<close> and \<open>ucRplBase.h\<close>.

  All builders write byte by byte through the local variables \<open>iovCurrElem\<close>, \<open>iovOffset\<close>, \<open>iovBufPtr\<close>,
  \<open>iovBufLen\<close> and \<open>numProcessed\<close>, which are here a cursor; the pointer and the length are those of the
  element. The three macros of the file are \<open>cur_put\<close> (with the assignment before it), \<open>cur_check\<close> and
  \<open>cur_finish\<close>; the jump to \<open>FAILURE_ROLLBACK_0\<close> is the result \<open>False\<close>. A builder remembers the address of its packet
  and an iterator; the payload of the packet that it writes to is beside it.
\<close>

definition WHIP6_ICMPV6_MESSAGE_TYPE_RPL_CONTROL_MESSAGE :: u8 where "WHIP6_ICMPV6_MESSAGE_TYPE_RPL_CONTROL_MESSAGE = 155"
definition RPL_CODE_DIS :: u8 where "RPL_CODE_DIS = 0x00"
definition RPL_CODE_DIO :: u8 where "RPL_CODE_DIO = 0x01"
definition RPL_OPTION_PAD1 :: u8 where "RPL_OPTION_PAD1 = 0x00"
definition RPL_OPTION_PADN :: u8 where "RPL_OPTION_PADN = 0x01"
definition RPL_OPTION_DAG_METRIC_CONTAINER :: u8 where "RPL_OPTION_DAG_METRIC_CONTAINER = 0x02"
definition RPL_OPTION_ROUTE_INFORMATION :: u8 where "RPL_OPTION_ROUTE_INFORMATION = 0x03"
definition RPL_OPTION_DODAG_CONFIGURATION :: u8 where "RPL_OPTION_DODAG_CONFIGURATION = 0x04"
definition RPL_OPTION_SOLICITED_INFORMATION :: u8 where "RPL_OPTION_SOLICITED_INFORMATION = 0x07"
definition RPL_OPTION_PREFIX_INFORMATION :: u8 where "RPL_OPTION_PREFIX_INFORMATION = 0x08"
definition IPV6_ROUTER_PREFERENCE_HIGH :: u8 where "IPV6_ROUTER_PREFERENCE_HIGH = 0x01"
definition IPV6_ROUTER_PREFERENCE_LOW :: u8 where "IPV6_ROUTER_PREFERENCE_LOW = 0x11"
definition IPV6_ROUTER_PREFERENCE_MASK :: u8 where "IPV6_ROUTER_PREFERENCE_MASK = 0x11"

lemmas rpl_constants = WHIP6_ICMPV6_MESSAGE_TYPE_RPL_CONTROL_MESSAGE_def RPL_CODE_DIS_def RPL_CODE_DIO_def
  RPL_OPTION_PAD1_def RPL_OPTION_PADN_def RPL_OPTION_DAG_METRIC_CONTAINER_def RPL_OPTION_ROUTE_INFORMATION_def
  RPL_OPTION_DODAG_CONFIGURATION_def RPL_OPTION_SOLICITED_INFORMATION_def RPL_OPTION_PREFIX_INFORMATION_def
  IPV6_ROUTER_PREFERENCE_HIGH_def IPV6_ROUTER_PREFERENCE_LOW_def IPV6_ROUTER_PREFERENCE_MASK_def

section \<open>The cursor\<close>

record rpl_cursor =
  curIov :: iov
  iovCurrElem :: "nat option"
  iovOffset :: nat
  numProcessed :: u8

definition cur_put :: "u8 \<Rightarrow> rpl_cursor \<Rightarrow> rpl_cursor option" where
  "cur_put b c =
     do { i \<leftarrow> iovCurrElem c;
          buf \<leftarrow> buf_get (curIov c) i;
          buf \<leftarrow> buf_put buf (iovOffset c) b;
          Some (c\<lparr>curIov := (curIov c)[i := buf], iovOffset := iovOffset c + 1, numProcessed := numProcessed c + 1\<rparr>) }"

definition cur_check :: "rpl_cursor \<Rightarrow> (bool \<times> rpl_cursor) option" where
  "cur_check c =
     do { i \<leftarrow> iovCurrElem c;
          buf \<leftarrow> buf_get (curIov c) i;
          if iovOffset c \<ge> length buf
          then if i + 1 < length (curIov c) then Some (True, c\<lparr>iovCurrElem := Some (i + 1), iovOffset := 0\<rparr>)
               else Some (False, c\<lparr>iovCurrElem := None\<rparr>)
          else Some (True, c) }"

definition cur_finish :: "rpl_cursor \<Rightarrow> rpl_cursor option" where
  "cur_finish c =
     do { i \<leftarrow> iovCurrElem c;
          buf \<leftarrow> buf_get (curIov c) i;
          Some (if iovOffset c \<ge> length buf
                then c\<lparr>iovCurrElem := (if i + 1 < length (curIov c) then Some (i + 1) else None), iovOffset := 0\<rparr>
                else c) }"

text \<open>Bytes that are each followed by the check.\<close>

fun cur_emit :: "u8 list \<Rightarrow> rpl_cursor \<Rightarrow> (bool \<times> rpl_cursor) option" where
  "cur_emit [] c = Some (True, c)"
| "cur_emit (b # bs) c =
     do { c \<leftarrow> cur_put b c; (ok, c) \<leftarrow> cur_check c; if ok then cur_emit bs c else Some (False, c) }"

definition cur_start :: "iov \<Rightarrow> iov_blist_iter \<Rightarrow> rpl_cursor" where
  "cur_start iov it = \<lparr>curIov = iov, iovCurrElem = currElem it, iovOffset = iterOffset it, numProcessed = 0\<rparr>"

definition cur_iter :: "rpl_cursor \<Rightarrow> iov_blist_iter" where
  "cur_iter c = \<lparr>currElem = iovCurrElem c, iterOffset = iovOffset c\<rparr>"

record rpl_message_builder =
  bldPacket :: nat
  bldIter :: iov_blist_iter

text \<open>The two tests at the beginning: is there a place to write to?\<close>

definition rpl_no_room :: "iov \<Rightarrow> iov_blist_iter \<Rightarrow> bool option" where
  "rpl_no_room iov it =
     (case currElem it of
        None \<Rightarrow> Some True
      | Some i \<Rightarrow> do { buf \<leftarrow> buf_get iov i; Some (iterOffset it \<ge> length buf) })"

text \<open>
  The shape most builders have: some bytes each followed by the check, a last one followed by the end of
  the advance. \<open>totalLen\<close> is what the failure label subtracts \<open>numProcessed\<close> from. The result is the
  payload, the builder, and the value returned.
\<close>

definition rpl_write ::
  "iov \<Rightarrow> rpl_message_builder \<Rightarrow> nat \<Rightarrow> iov_blist_iter \<Rightarrow> u8 list \<Rightarrow> u8 \<Rightarrow> nat \<Rightarrow> (iov \<times> rpl_message_builder \<times> u16) option" where
  "rpl_write iov builder packet it bs lst totalLen =
     do { none \<leftarrow> rpl_no_room iov it;
          if none then Some (iov, builder, of_nat totalLen)
          else
            do { (ok, c) \<leftarrow> cur_emit bs (cur_start iov it);
                 if \<not> ok then Some (curIov c, builder, of_int (int totalLen - uint (numProcessed c)))
                 else
                   do { c \<leftarrow> cur_put lst c;
                        c \<leftarrow> cur_finish c;
                        Some (curIov c, \<lparr>bldPacket = packet, bldIter = cur_iter c\<rparr>, 0) } } }"

section \<open>The builders\<close>

definition whip6_icmpv6RplStartBuildingDisMessage :: "iov \<Rightarrow> rpl_message_builder \<Rightarrow> iov_blist_iter \<Rightarrow> nat \<Rightarrow> (iov \<times> rpl_message_builder \<times> u16) option" where
  "whip6_icmpv6RplStartBuildingDisMessage iov builder iovIterOrg packet =
     rpl_write iov builder packet iovIterOrg [WHIP6_ICMPV6_MESSAGE_TYPE_RPL_CONTROL_MESSAGE, RPL_CODE_DIS, 0, 0, 0] 0 (4 + 2)"

definition rpl_dio_flags :: "bool \<Rightarrow> u8 \<Rightarrow> u8 \<Rightarrow> u8" where
  "rpl_dio_flags grounded mop prf =
     (let tmpByte = 0;
          tmpByte = (if grounded then tmpByte OR 0x80 else tmpByte);
          tmpByte = tmpByte OR push_bit 3 (mop AND 0x7)
      in tmpByte OR push_bit 0 (prf AND 0x7))"

definition whip6_icmpv6RplStartBuildingDioMessage ::
  "iov \<Rightarrow> rpl_message_builder \<Rightarrow> iov_blist_iter \<Rightarrow> nat \<Rightarrow> ipv6_addr \<Rightarrow> u8 \<Rightarrow> u8 \<Rightarrow> u16 \<Rightarrow> bool \<Rightarrow> u8 \<Rightarrow> u8 \<Rightarrow> u8 \<Rightarrow> (iov \<times> rpl_message_builder \<times> u16) option" where
  "whip6_icmpv6RplStartBuildingDioMessage iov builder iovIterOrg packet dodagId dodagVerNo rplInstanceId rnk
       grounded mop prf dtsn =
     rpl_write iov builder packet iovIterOrg
       ([WHIP6_ICMPV6_MESSAGE_TYPE_RPL_CONTROL_MESSAGE, RPL_CODE_DIO, 0, 0,
         rplInstanceId, dodagVerNo, u16_hi rnk, u16_lo rnk, rpl_dio_flags grounded mop prf, dtsn, 0, 0] @ take 15 dodagId)
       (dodagId ! 15) (4 + 24)"

definition whip6_icmpv6RplContinueBuildingMessageByAddingOptionPad1 ::
  "iov \<Rightarrow> rpl_message_builder \<Rightarrow> (iov \<times> rpl_message_builder \<times> u16) option" where
  "whip6_icmpv6RplContinueBuildingMessageByAddingOptionPad1 iov builder = rpl_write iov builder (bldPacket builder) (bldIter builder) [] RPL_OPTION_PAD1 1"

definition whip6_icmpv6RplContinueBuildingMessageByAddingOptionPadN ::
  "iov \<Rightarrow> rpl_message_builder \<Rightarrow> u8 \<Rightarrow> (iov \<times> rpl_message_builder \<times> u16) option" where
  "whip6_icmpv6RplContinueBuildingMessageByAddingOptionPadN iov builder numBytes =
     (if numBytes = 0 then rpl_write iov builder (bldPacket builder) (bldIter builder) [RPL_OPTION_PADN] numBytes (unat numBytes + 2)
      else rpl_write iov builder (bldPacket builder) (bldIter builder) ([RPL_OPTION_PADN, numBytes] @ replicate (unat (numBytes - 1)) 0x00) 0x00 (unat numBytes + 2))"

text \<open>The loop over data bytes, the same in two functions: it counts the bytes to store down, which is what is
  left of the variable afterwards.\<close>

fun rpl_copy_loop :: "u8 list \<Rightarrow> nat \<Rightarrow> nat \<Rightarrow> rpl_cursor \<Rightarrow> (bool \<times> nat \<times> nat \<times> rpl_cursor) option" where
  "rpl_copy_loop dat ptr 0 c = Some (True, ptr, 0, c)"
| "rpl_copy_loop dat ptr (Suc bytesToStore) c =
     do { b \<leftarrow> buf_get dat ptr;
          c \<leftarrow> cur_put b c;
          (ok, c) \<leftarrow> cur_check c;
          if ok then rpl_copy_loop dat (ptr + 1) bytesToStore c
          else Some (False, ptr + 1, Suc bytesToStore, c) }"

definition whip6_icmpv6RplContinueBuildingMessageByAddingOptionDagMetricContainer ::
  "iov \<Rightarrow> rpl_message_builder \<Rightarrow> u8 list \<Rightarrow> u8 \<Rightarrow> (iov \<times> rpl_message_builder \<times> u16) option" where
  "whip6_icmpv6RplContinueBuildingMessageByAddingOptionDagMetricContainer iov builder metricData metricDataLen =
     do { none \<leftarrow> rpl_no_room iov (bldIter builder);
          if none then Some (iov, builder, of_nat (unat metricDataLen + 2))
          else
            do { (ok, c) \<leftarrow> cur_emit [RPL_OPTION_DAG_METRIC_CONTAINER, metricDataLen] (cur_start iov (bldIter builder));
                 if \<not> ok then Some (curIov c, builder, of_int (uint metricDataLen + 2 - uint (numProcessed c)))
                 else
                   do { (ok, ptr, rest, c) \<leftarrow> rpl_copy_loop metricData 0 (unat (metricDataLen - 1)) c;
                        if \<not> ok then Some (curIov c, builder, of_int (int rest + 2 - uint (numProcessed c)))
                        else
                          do { b \<leftarrow> buf_get metricData ptr;
                               c \<leftarrow> cur_put b c;
                               c \<leftarrow> cur_finish c;
                               Some (curIov c, builder\<lparr>bldIter := cur_iter c\<rparr>, 0) } } } }"

text \<open>The prefix of an address. The loops count \<open>realBytesToStore\<close> down; the second one starts from what the
  first one leaves of it.\<close>

fun rpl_prefix_pad_loop :: "nat \<Rightarrow> rpl_cursor \<Rightarrow> (bool \<times> rpl_cursor) option" where
  "rpl_prefix_pad_loop 0 c = Some (True, c)"
| "rpl_prefix_pad_loop (Suc realBytesToStore) c =
     do { (ok, c) \<leftarrow> cur_check c;
          if ok then do { c \<leftarrow> cur_put 0x00 c; rpl_prefix_pad_loop realBytesToStore c }
          else Some (False, c) }"

definition rpl_last_byte_mask :: "u8 \<Rightarrow> u8 \<Rightarrow> u8" where
  "rpl_last_byte_mask prefixLengthInBits bytesToStore =
     (let n = unat (prefixLengthInBits AND 0x07);
          lastByteMask = (if n = 0 then 0xff else push_bit (8 - n) 0xff)
      in if (unat prefixLengthInBits + 7) div 8 > unat bytesToStore then 0xff else lastByteMask)"

definition whip6_icmpv6RplStoreAddressPrefixInMessage ::
  "iov \<Rightarrow> iov_blist_iter \<Rightarrow> u8 list \<Rightarrow> u8 \<Rightarrow> u8 \<Rightarrow> (iov \<times> iov_blist_iter \<times> u8) option" where
  "whip6_icmpv6RplStoreAddressPrefixInMessage iov iovIterOrg prefixData prefixLengthInBits bytesToStore =
     do { let realBytesToStore = min ((unat prefixLengthInBits + 7) div 8) (unat bytesToStore);
          let lastByteMask = rpl_last_byte_mask prefixLengthInBits bytesToStore;
          i \<leftarrow> currElem iovIterOrg;
          buf_get iov i;
          let c = cur_start iov iovIterOrg;
          (ok, realBytesToStore, c) \<leftarrow>
            (if realBytesToStore > 0
             then
               do { (ok, ptr, realBytesToStore, c) \<leftarrow> rpl_copy_loop prefixData 0 (realBytesToStore - 1) c;
                    if ok
                    then do { b \<leftarrow> buf_get prefixData ptr;
                              c \<leftarrow> cur_put (b AND lastByteMask) c;
                              Some (True, realBytesToStore, c) }
                    else Some (False, realBytesToStore, c) }
             else Some (True, realBytesToStore, c));
          if \<not> ok then Some (curIov c, iovIterOrg, bytesToStore - numProcessed c)
          else
            do { (ok, c) \<leftarrow> rpl_prefix_pad_loop (unat bytesToStore - realBytesToStore) c;
                 if \<not> ok then Some (curIov c, iovIterOrg, bytesToStore - numProcessed c)
                 else
                   do { c \<leftarrow> cur_finish c;
                        Some (curIov c, cur_iter c, 0) } } }"

text \<open>The two options with a prefix: the fields before it, each followed by the check, and the prefix.\<close>

definition rpl_write_prefix ::
  "iov \<Rightarrow> rpl_message_builder \<Rightarrow> u8 list \<Rightarrow> nat \<Rightarrow> u8 list \<Rightarrow> u8 \<Rightarrow> u8 \<Rightarrow> (iov \<times> rpl_message_builder \<times> u16) option" where
  "rpl_write_prefix iov builder bs totalLen prefixPtr prefixLen bytesToStore =
     do { none \<leftarrow> rpl_no_room iov (bldIter builder);
          if none then Some (iov, builder, of_nat totalLen)
          else
            do { (ok, c) \<leftarrow> cur_emit bs (cur_start iov (bldIter builder));
                 if \<not> ok then Some (curIov c, builder, of_int (int totalLen - uint (numProcessed c)))
                 else
                   do { (iov, it, r) \<leftarrow> whip6_icmpv6RplStoreAddressPrefixInMessage (curIov c) (cur_iter c) prefixPtr prefixLen bytesToStore;
                        Some (iov, builder\<lparr>bldIter := it\<rparr>, ucast r) } } }"

definition whip6_icmpv6RplContinueBuildingMessageByAddingOptionRouteInformation ::
  "iov \<Rightarrow> rpl_message_builder \<Rightarrow> u8 list \<Rightarrow> u32 \<Rightarrow> u8 \<Rightarrow> u8 \<Rightarrow> (iov \<times> rpl_message_builder \<times> u16) option" where
  "whip6_icmpv6RplContinueBuildingMessageByAddingOptionRouteInformation iov builder prefixPtr routeLiefetimeInSecs prefixLen
       routePreference =
     (let tmpByte = of_nat ((unat prefixLen + 7) div 8) :: u8
      in rpl_write_prefix iov builder
           [RPL_OPTION_ROUTE_INFORMATION, 6 + tmpByte, prefixLen,
            push_bit 3 (routePreference AND IPV6_ROUTER_PREFERENCE_MASK),
            ucast (drop_bit 24 routeLiefetimeInSecs), ucast (drop_bit 16 routeLiefetimeInSecs),
            ucast (drop_bit 8 routeLiefetimeInSecs), ucast routeLiefetimeInSecs]
           (6 + 2 + unat tmpByte) prefixPtr prefixLen tmpByte)"

definition whip6_icmpv6RplContinueBuildingMessageByAddingOptionDodagConfiguration ::
  "iov \<Rightarrow> rpl_message_builder \<Rightarrow> u8 \<Rightarrow> u8 \<Rightarrow> u8 \<Rightarrow> u8 \<Rightarrow> u16 \<Rightarrow> u16 \<Rightarrow> u16 \<Rightarrow> u8 \<Rightarrow> u16 \<Rightarrow> (iov \<times> rpl_message_builder \<times> u16) option" where
  "whip6_icmpv6RplContinueBuildingMessageByAddingOptionDodagConfiguration iov builder pcs dioIntDoubl dioIntMin dioRedund
       maxRankIncrease minHopRankIncrease ocp defLifetime lifetimeUnit =
     rpl_write iov builder (bldPacket builder) (bldIter builder)
       [RPL_OPTION_DODAG_CONFIGURATION, 14, push_bit 0 (pcs AND 0x7), dioIntDoubl, dioIntMin, dioRedund,
        u16_hi maxRankIncrease, u16_lo maxRankIncrease, u16_hi minHopRankIncrease, u16_lo minHopRankIncrease,
        u16_hi ocp, u16_lo ocp, 0x00, defLifetime, u16_hi lifetimeUnit]
       (u16_lo lifetimeUnit) (14 + 2)"

definition whip6_icmpv6RplContinueBuildingMessageByAddingOptionSolicitedInformation ::
  "iov \<Rightarrow> rpl_message_builder \<Rightarrow> ipv6_addr option \<Rightarrow> u8 \<Rightarrow> u8 \<Rightarrow> bool \<Rightarrow> bool \<Rightarrow> (iov \<times> rpl_message_builder \<times> u16) option" where
  "whip6_icmpv6RplContinueBuildingMessageByAddingOptionSolicitedInformation iov builder dodagId rplInstanceId dodagVerNo
       rplInstanceIdPresent dodagVerNoPresent =
     (let tmpByte = 0;
          tmpByte = (if rplInstanceIdPresent then tmpByte OR 0x40 else tmpByte);
          tmpByte = (if dodagVerNoPresent then tmpByte OR 0x80 else tmpByte);
          tmpByte = (if dodagId \<noteq> None then tmpByte OR 0x20 else tmpByte)
      in rpl_write iov builder (bldPacket builder) (bldIter builder)
           ([RPL_OPTION_SOLICITED_INFORMATION, 19, if rplInstanceIdPresent then rplInstanceId else 0x00, tmpByte] @
            (case dodagId of Some dodagId \<Rightarrow> take 16 dodagId | None \<Rightarrow> replicate 16 0x00))
           (if dodagVerNoPresent then dodagVerNo else 0x00) (19 + 2))"

definition whip6_icmpv6RplContinueBuildingMessageByAddingOptionPrefixInformation ::
  "iov \<Rightarrow> rpl_message_builder \<Rightarrow> u8 \<Rightarrow> bool \<Rightarrow> bool \<Rightarrow> bool \<Rightarrow> u32 \<Rightarrow> u32 \<Rightarrow> u8 list \<Rightarrow> (iov \<times> rpl_message_builder \<times> u16) option" where
  "whip6_icmpv6RplContinueBuildingMessageByAddingOptionPrefixInformation iov builder prefixLen onLink autonomousAddrConf router
       validLifetime preferredLifetime prefixPtr =
     (let tmpByte = 0;
          tmpByte = (if onLink then tmpByte OR 0x80 else tmpByte);
          tmpByte = (if autonomousAddrConf then tmpByte OR 0x40 else tmpByte);
          tmpByte = (if router then tmpByte OR 0x20 else tmpByte)
      in rpl_write_prefix iov builder
           [RPL_OPTION_PREFIX_INFORMATION, 30, prefixLen, tmpByte,
            ucast (drop_bit 24 validLifetime), ucast (drop_bit 16 validLifetime), ucast (drop_bit 8 validLifetime), ucast validLifetime,
            ucast (drop_bit 24 preferredLifetime), ucast (drop_bit 16 preferredLifetime), ucast (drop_bit 8 preferredLifetime),
            ucast preferredLifetime, 0, 0, 0, 0]
           (30 + 2) prefixPtr prefixLen 16)"

section \<open>Lemmas on the cursor\<close>

definition cur_valid :: "rpl_cursor \<Rightarrow> bool" where
  "cur_valid c \<longleftrightarrow> iov_ok (curIov c) \<and> iovCurrElem c \<noteq> None \<and> iter_ok (curIov c) (cur_iter c)"

definition cur_at :: "rpl_cursor \<Rightarrow> nat" where
  "cur_at c = iter_pos (curIov c) (cur_iter c)"

abbreviation cur_bytes :: "rpl_cursor \<Rightarrow> u8 list" where
  "cur_bytes c \<equiv> concat (curIov c)"

abbreviation cur_lens :: "rpl_cursor \<Rightarrow> nat list" where
  "cur_lens c \<equiv> map length (curIov c)"

lemma cur_lens_bytes: "cur_lens c = cur_lens d \<Longrightarrow> length (cur_bytes c) = length (cur_bytes d)"
  by (simp add: length_concat)

lemma cur_valid_elem:
  assumes "cur_valid c"
  obtains i where "iovCurrElem c = Some i" "i < length (curIov c)" "iovOffset c < length (curIov c ! i)"
    "cur_at c = length (concat (take i (curIov c))) + iovOffset c" "cur_at c < length (cur_bytes c)"
proof -
  from assms obtain i where i: "iovCurrElem c = Some i" "i < length (curIov c)" "iovOffset c < length (curIov c ! i)"
    by (auto simp: cur_valid_def iter_ok_def cur_iter_def)
  moreover have "cur_at c = length (concat (take i (curIov c))) + iovOffset c"
    using i by (simp add: cur_at_def iter_pos_def cur_iter_def)
  ultimately show thesis using that by (auto simp: concat_split_at [OF i(2)])
qed

text \<open>One byte and what follows it.\<close>

lemma cur_put_eq:
  assumes "cur_valid c"
  shows "\<exists>c' i. cur_put b c = Some c' \<and> cur_bytes c' = mem_blit (cur_bytes c) (cur_at c) [b] \<and> cur_lens c' = cur_lens c \<and>
    numProcessed c' = numProcessed c + 1 \<and> iovCurrElem c' = Some i \<and> i < length (curIov c') \<and> iov_ok (curIov c') \<and>
    0 < iovOffset c' \<and> iovOffset c' \<le> length (curIov c' ! i) \<and>
    length (concat (take i (curIov c'))) + iovOffset c' = cur_at c + 1"
proof -
  obtain i where i: "iovCurrElem c = Some i" "i < length (curIov c)" "iovOffset c < length (curIov c ! i)"
    "cur_at c = length (concat (take i (curIov c))) + iovOffset c" using cur_valid_elem [OF assms] by blast
  let ?iov = "(curIov c)[i := (curIov c ! i)[iovOffset c := b]]"
  let ?c = "c\<lparr>curIov := ?iov, iovOffset := iovOffset c + 1, numProcessed := numProcessed c + 1\<rparr>"
  have put: "cur_put b c = Some ?c" using i by (simp add: cur_put_def)
  have blit: "(curIov c ! i)[iovOffset c := b] = mem_blit (curIov c ! i) (iovOffset c) [b]"
    using i(3) by (simp add: mem_blit_def upd_conv_take_nth_drop)
  have "concat ?iov = mem_blit (cur_bytes c) (cur_at c) [b]"
    unfolding blit i(4) using i(2,3) by (intro concat_update_at) simp_all
  moreover have "map length ?iov = cur_lens c" by (simp add: map_update list_update_same_conv i(2))
  moreover from this have "iov_ok ?iov" using iov_ok_map_length assms unfolding cur_valid_def by blast
  ultimately show ?thesis using put i by (intro exI [of _ ?c] exI [of _ i]) simp
qed

lemma cur_next:
  assumes "i < length iov" "iov_ok iov" "0 < off" "off \<le> length (iov ! i)" "p = length (concat (take i iov)) + off"
  shows "length (iov ! i) \<le> off \<Longrightarrow> i + 1 < length iov \<Longrightarrow>
      length (concat (take (i + 1) iov)) = p \<and> 0 < length (iov ! (i + 1)) \<and> p < length (concat iov)"
    and "length (iov ! i) \<le> off \<Longrightarrow> \<not> i + 1 < length iov \<Longrightarrow> p = length (concat iov)"
    and "\<not> length (iov ! i) \<le> off \<Longrightarrow> p < length (concat iov)"
proof -
  note sp = concat_split_at [OF assms(1)]
  show "p < length (concat iov)" if "\<not> length (iov ! i) \<le> off" using that assms(5) sp by simp
  show "p = length (concat iov)" if "length (iov ! i) \<le> off" "\<not> i + 1 < length iov"
  proof -
    have "drop (Suc i) iov = []" using that(2) by simp
    then show ?thesis using that(1) assms(4,5) sp by simp
  qed
  show "length (concat (take (i + 1) iov)) = p \<and> 0 < length (iov ! (i + 1)) \<and> p < length (concat iov)"
    if "length (iov ! i) \<le> off" "i + 1 < length iov"
  proof -
    have t: "length (concat (take (i + 1) iov)) = p"
      using that assms(4,5) by (simp add: take_Suc_conv_app_nth)
    have "iov ! (i + 1) \<noteq> []" using that(2) assms(2) by (auto simp: iov_ok_def)
    then show ?thesis using t concat_split_at [OF that(2)] by simp
  qed
qed

lemma cur_put_check:
  assumes "cur_valid c"
  shows "\<exists>ok c'. do { c \<leftarrow> cur_put b c; cur_check c } = Some (ok, c') \<and>
    cur_bytes c' = mem_blit (cur_bytes c) (cur_at c) [b] \<and> cur_lens c' = cur_lens c \<and>
    numProcessed c' = numProcessed c + 1 \<and> (ok \<longleftrightarrow> cur_at c + 1 < length (cur_bytes c)) \<and>
    (ok \<longrightarrow> cur_valid c' \<and> cur_at c' = cur_at c + 1)"
proof -
  obtain c1 i where p: "cur_put b c = Some c1" "cur_bytes c1 = mem_blit (cur_bytes c) (cur_at c) [b]" "cur_lens c1 = cur_lens c"
    "numProcessed c1 = numProcessed c + 1" and v: "iovCurrElem c1 = Some i" "i < length (curIov c1)" "iov_ok (curIov c1)"
    "0 < iovOffset c1" "iovOffset c1 \<le> length (curIov c1 ! i)"
    "length (concat (take i (curIov c1))) + iovOffset c1 = cur_at c + 1"
    using cur_put_eq [OF assms, of b] by blast
  note nx = cur_next [OF v(2-5) v(6) [symmetric]]
  have len: "length (cur_bytes c1) = length (cur_bytes c)" using p(3) by (rule cur_lens_bytes)
  consider "length (curIov c1 ! i) \<le> iovOffset c1" "i + 1 < length (curIov c1)"
    | "length (curIov c1 ! i) \<le> iovOffset c1" "\<not> i + 1 < length (curIov c1)"
    | "\<not> length (curIov c1 ! i) \<le> iovOffset c1" by blast
  then show ?thesis
  proof cases
    case 1
    let ?c = "c1\<lparr>iovCurrElem := Some (i + 1), iovOffset := 0\<rparr>"
    have "cur_check c1 = Some (True, ?c)" using v(1,2) 1 by (simp add: cur_check_def)
    moreover have "cur_valid ?c" "cur_at ?c = cur_at c + 1" "cur_at c + 1 < length (cur_bytes c)"
      using nx(1) [OF 1] 1(2) v(3) len by (simp_all add: cur_valid_def iter_ok_def cur_iter_def cur_at_def iter_pos_def)
    ultimately show ?thesis using p by (intro exI [of _ True] exI [of _ ?c]) simp
  next
    case 2
    have "cur_check c1 = Some (False, c1\<lparr>iovCurrElem := None\<rparr>)" using v(1,2) 2 by (simp add: cur_check_def)
    then show ?thesis using p nx(2) [OF 2] len by (intro exI [of _ False] exI [of _ "c1\<lparr>iovCurrElem := None\<rparr>"]) simp
  next
    case 3
    have "cur_check c1 = Some (True, c1)" using v(1,2) 3 by (simp add: cur_check_def)
    moreover have "cur_valid c1" "cur_at c1 = cur_at c + 1"
      using v 3 by (simp_all add: cur_valid_def iter_ok_def cur_iter_def cur_at_def iter_pos_def)
    ultimately show ?thesis using p nx(3) [OF 3] len by (intro exI [of _ True] exI [of _ c1]) simp
  qed
qed

lemma cur_put_finish:
  assumes "cur_valid c"
  shows "\<exists>c'. do { c \<leftarrow> cur_put b c; cur_finish c } = Some c' \<and>
    cur_bytes c' = mem_blit (cur_bytes c) (cur_at c) [b] \<and> cur_lens c' = cur_lens c \<and>
    iter_ok (curIov c') (cur_iter c') \<and> iter_pos (curIov c') (cur_iter c') = cur_at c + 1"
proof -
  obtain c1 i where p: "cur_put b c = Some c1" "cur_bytes c1 = mem_blit (cur_bytes c) (cur_at c) [b]" "cur_lens c1 = cur_lens c"
    and v: "iovCurrElem c1 = Some i" "i < length (curIov c1)" "iov_ok (curIov c1)"
    "0 < iovOffset c1" "iovOffset c1 \<le> length (curIov c1 ! i)"
    "length (concat (take i (curIov c1))) + iovOffset c1 = cur_at c + 1"
    using cur_put_eq [OF assms, of b] by blast
  note nx = cur_next [OF v(2-5) v(6) [symmetric]]
  consider "length (curIov c1 ! i) \<le> iovOffset c1" "i + 1 < length (curIov c1)"
    | "length (curIov c1 ! i) \<le> iovOffset c1" "\<not> i + 1 < length (curIov c1)"
    | "\<not> length (curIov c1 ! i) \<le> iovOffset c1" by blast
  then show ?thesis
  proof cases
    case 1
    have "cur_finish c1 = Some (c1\<lparr>iovCurrElem := Some (i + 1), iovOffset := 0\<rparr>)" using v(1,2) 1 by (simp add: cur_finish_def)
    then show ?thesis using p nx(1) [OF 1] 1(2) by (simp add: iter_ok_def cur_iter_def iter_pos_def)
  next
    case 2
    have "cur_finish c1 = Some (c1\<lparr>iovCurrElem := None, iovOffset := 0\<rparr>)" using v(1,2) 2 by (simp add: cur_finish_def)
    then show ?thesis using p nx(2) [OF 2] by (simp add: iter_ok_def cur_iter_def iter_pos_def)
  next
    case 3
    have "cur_finish c1 = Some c1" using v(1,2) 3 by (simp add: cur_finish_def)
    then show ?thesis using p v 3 by (simp add: iter_ok_def cur_iter_def iter_pos_def)
  qed
qed

lemma cur_emit_eq:
  "cur_valid c \<Longrightarrow> \<exists>ok c'. cur_emit bs c = Some (ok, c') \<and>
     cur_bytes c' = mem_blit (cur_bytes c) (cur_at c) (take (length (cur_bytes c) - cur_at c) bs) \<and>
     cur_lens c' = cur_lens c \<and> (ok \<longleftrightarrow> cur_at c + length bs < length (cur_bytes c)) \<and>
     (if ok then cur_valid c' \<and> cur_at c' = cur_at c + length bs \<and> numProcessed c' = numProcessed c + of_nat (length bs)
      else numProcessed c' = numProcessed c + of_nat (length (cur_bytes c) - cur_at c))"
proof (induction bs arbitrary: c)
  case Nil
  moreover have "cur_at c < length (cur_bytes c)" using cur_valid_elem [OF Nil] by blast
  ultimately show ?case by (intro exI [of _ True] exI [of _ c]) simp
next
  case (Cons b bs)
  have lt: "cur_at c < length (cur_bytes c)" using cur_valid_elem [OF Cons.prems] by blast
  from cur_put_check [OF Cons.prems, of b] obtain ok c1 where
    s: "do { c \<leftarrow> cur_put b c; cur_check c } = Some (ok, c1)"
    "cur_bytes c1 = mem_blit (cur_bytes c) (cur_at c) [b]" "cur_lens c1 = cur_lens c"
    "numProcessed c1 = numProcessed c + 1" "ok \<longleftrightarrow> cur_at c + 1 < length (cur_bytes c)"
    "ok \<longrightarrow> cur_valid c1 \<and> cur_at c1 = cur_at c + 1" by blast
  have e: "cur_emit (b # bs) c = (if ok then cur_emit bs c1 else Some (False, c1))"
    using s(1) by (cases "cur_put b c") simp_all
  have len: "length (cur_bytes c1) = length (cur_bytes c)" using s(3) by (rule cur_lens_bytes)
  show ?case
  proof (cases ok)
    case False
    then have "length (cur_bytes c) - cur_at c = 1" using s(5) lt by simp
    then show ?thesis using False e s lt by (intro exI [of _ False] exI [of _ c1]) simp
  next
    case True
    then have v: "cur_valid c1" "cur_at c1 = cur_at c + 1" "cur_at c + 1 < length (cur_bytes c)" using s(5,6) by auto
    from Cons.IH [OF v(1)] obtain ok' c' where r: "cur_emit bs c1 = Some (ok', c')"
      "cur_bytes c' = mem_blit (cur_bytes c1) (cur_at c1) (take (length (cur_bytes c1) - cur_at c1) bs)"
      "cur_lens c' = cur_lens c1" "ok' \<longleftrightarrow> cur_at c1 + length bs < length (cur_bytes c1)"
      "if ok' then cur_valid c' \<and> cur_at c' = cur_at c1 + length bs \<and> numProcessed c' = numProcessed c1 + of_nat (length bs)
       else numProcessed c' = numProcessed c1 + of_nat (length (cur_bytes c1) - cur_at c1)" by blast
    let ?k = "length (cur_bytes c) - cur_at c"
    have k: "?k = Suc (length (cur_bytes c1) - cur_at c1)" using v(2,3) len by simp
    have "mem_blit (cur_bytes c1) (cur_at c1) (take (length (cur_bytes c1) - cur_at c1) bs) =
        mem_blit (cur_bytes c) (cur_at c) (take ?k (b # bs))"
      unfolding s(2) v(2) k using v(3) len lt by (simp add: mem_blit_def min_def take_Suc_conv_app_nth add.commute)
    moreover have "ok' \<longleftrightarrow> cur_at c + length (b # bs) < length (cur_bytes c)" using r(4) v(2) len by simp
    moreover have "numProcessed c' = numProcessed c + of_nat ?k" if "\<not> ok'"
      using that r(5) s(4) k by (simp add: add.assoc)
    moreover have "numProcessed c' = numProcessed c + of_nat (length (b # bs))" if ok'
      using that r(5) s(4) by (simp add: add.assoc)
    ultimately show ?thesis using True e r(1,2,3,5) s(3) v(2) by (intro exI [of _ ok'] exI [of _ c']) auto
  qed
qed

text \<open>What a builder that writes the bytes \<open>bs\<close> does: \<open>p\<close> is where its iterator stands.\<close>

definition rpl_written ::
  "iov \<Rightarrow> rpl_message_builder \<Rightarrow> nat \<Rightarrow> iov_blist_iter \<Rightarrow> u8 list \<Rightarrow> (iov \<times> rpl_message_builder \<times> u16) option \<Rightarrow> bool" where
  "rpl_written iov builder packet it bs res \<longleftrightarrow>
     (let p = iter_pos iov it; room = length (concat iov) - p
      in \<exists>iov' builder' r. res = Some (iov', builder', r) \<and> map length iov' = map length iov \<and>
           concat iov' = mem_blit (concat iov) p (take room bs) \<and>
           (if length bs \<le> room
            then r = 0 \<and> bldPacket builder' = packet \<and> iter_ok iov' (bldIter builder') \<and>
              iter_pos iov' (bldIter builder') = p + length bs
            else builder' = builder \<and> unat r = length bs - room))"

lemma rpl_write_written:
  assumes "iov_ok iov" "iter_ok iov it" "length bs < 65535"
    "length bs < 256 \<or> length bs < length (concat iov) - iter_pos iov it \<or> length (concat iov) - iter_pos iov it < 256"
  shows "rpl_written iov builder packet it (bs @ [b]) (rpl_write iov builder packet it bs b (length bs + 1))"
proof (cases "currElem it")
  case None
  then have "iter_pos iov it = length (concat iov)" by (simp add: iter_pos_def)
  then show ?thesis using None assms(3) unat_u16_of_nat [of "length bs + 1"]
    by (simp add: rpl_written_def rpl_write_def rpl_no_room_def)
next
  case (Some i)
  then have i: "i < length iov" "iterOffset it < length (iov ! i)" using assms(2) by (simp_all add: iter_ok_def)
  let ?c = "cur_start iov it"
  have it: "cur_iter ?c = it" by (simp add: cur_iter_def cur_start_def)
  have v: "cur_valid ?c" using assms(1,2) Some it by (simp add: cur_valid_def) (simp add: cur_start_def)
  have iv: "curIov ?c = iov" "numProcessed ?c = 0" by (simp_all add: cur_start_def)
  have p: "cur_at ?c = iter_pos iov it" using it iv by (simp add: cur_at_def)
  let ?p = "iter_pos iov it"
  let ?room = "length (concat iov) - ?p"
  have nr: "rpl_no_room iov it = Some False" using Some i by (simp add: rpl_no_room_def)
  from cur_emit_eq [OF v, of bs] obtain ok c' where e: "cur_emit bs ?c = Some (ok, c')"
    "cur_bytes c' = mem_blit (concat iov) ?p (take ?room bs)"
    "cur_lens c' = map length iov" "ok \<longleftrightarrow> ?p + length bs < length (concat iov)"
    "if ok then cur_valid c' \<and> cur_at c' = ?p + length bs \<and> numProcessed c' = of_nat (length bs)
      else numProcessed c' = of_nat ?room" unfolding iv p by auto
  have le: "?p < length (concat iov)" using cur_valid_elem [OF v] unfolding iv p by blast
  show ?thesis
  proof (cases ok)
    case False
    then have room: "?room \<le> length bs" "?room < 256" using e(4) assms(4) by auto
    have "uint (numProcessed c') = int ?room"
      using e(5) False room(2) by (simp add: uint_nat unat_u8_of_nat)
    then have r: "of_int (int (length bs + 1) - uint (numProcessed c')) = (of_nat (length bs + 1 - ?room) :: u16)"
      using room(1) by (simp add: of_nat_diff)
    have w: "rpl_write iov builder packet it bs b (length bs + 1) = Some (curIov c', builder, of_nat (length bs + 1 - ?room))"
      unfolding rpl_write_def nr e(1) r [symmetric] using False by simp
    have "unat (of_nat (length bs + 1 - ?room) :: u16) = length bs + 1 - ?room"
      using assms(3) by (intro unat_u16_of_nat) linarith
    then show ?thesis using e(2,3) room(1) unfolding w by (simp add: rpl_written_def Let_def del: of_nat_diff)
  next
    case True
    then have c': "cur_valid c'" "cur_at c' = ?p + length bs" and room: "length bs < ?room" using e(4,5) by auto
    from cur_put_finish [OF c'(1), of b] obtain c2 where f: "do { c \<leftarrow> cur_put b c'; cur_finish c } = Some c2"
      "cur_bytes c2 = mem_blit (cur_bytes c') (cur_at c') [b]" "cur_lens c2 = cur_lens c'"
      "iter_ok (curIov c2) (cur_iter c2)" "iter_pos (curIov c2) (cur_iter c2) = cur_at c' + 1" by blast
    obtain c1 where c1: "cur_put b c' = Some c1" "cur_finish c1 = Some c2" using f(1) by (cases "cur_put b c'") simp_all
    have "mem_blit (cur_bytes c') (cur_at c') [b] = mem_blit (concat iov) ?p (bs @ [b])"
      unfolding e(2) c'(2) using room le by (simp add: mem_blit_def min_def)
    then show ?thesis using True nr e(1,3) c1 f(2-5) room c'(2) by (simp add: rpl_written_def rpl_write_def)
  qed
qed

section \<open>Fields of a byte\<close>

lemma and_7_mod: "(x :: u8) AND 7 = x mod 8"
  using take_bit_eq_mask [of 3 x] take_bit_eq_mod [of 3 x] by (simp add: mask_eq_exp_minus_1)

lemma flag_fields:
  "push_bit 3 ((m :: u8) AND 7) OR (p AND 7) = 8 * (m mod 8) + p mod 8"
  "128 OR (push_bit 3 (m AND 7) OR (p AND 7)) = 128 + (8 * (m mod 8) + p mod 8)"
proof -
  have t: "x AND 7 = take_bit 3 x" for x :: u8 by (simp add: take_bit_eq_mask mask_eq_exp_minus_1)
  let ?x = "push_bit 3 (take_bit 3 m)" and ?y = "take_bit 3 p"
  have "?x AND ?y = 0" by (intro bit_eqI) (auto simp: bit_simps)
  then have a: "?x OR ?y = ?x + ?y" by (simp add: disjunctive_add_eq_or)
  have "\<not> bit (128 :: u8) n \<or> \<not> bit (?x OR ?y) n" for n
    by (cases "n = 7") (auto simp: bit_simps bit_exp_iff [of 7 n, simplified])
  then have b: "128 + (?x OR ?y) = 128 OR (?x OR ?y)" by (rule disjunctive_add)
  have v: "?x = 8 * (m mod 8)" "?y = p mod 8" by (simp_all add: push_bit_eq_mult take_bit_eq_mod mult.commute)
  show "push_bit 3 (m AND 7) OR (p AND 7) = 8 * (m mod 8) + p mod 8" unfolding t using a unfolding v .
  show "128 OR (push_bit 3 (m AND 7) OR (p AND 7)) = 128 + (8 * (m mod 8) + p mod 8)"
    unfolding t using b [symmetric] unfolding a unfolding v .
qed

lemma rpl_dio_flags_fields:
  "rpl_dio_flags grounded mop pref = (if grounded then 128 else 0) + 8 * (mop mod 8) + pref mod 8"
  using flag_fields [of mop pref] by (simp add: rpl_dio_flags_def Let_def or.assoc add.assoc)

section \<open>Properties\<close>

lemma rpl_padn_written:
  assumes "iov_ok iov" "iter_ok iov (bldIter builder)"
    "numBytes = 255 \<Longrightarrow> length (concat iov) - iter_pos iov (bldIter builder) \<noteq> 256"
  shows "rpl_written iov builder (bldPacket builder) (bldIter builder) ([1, numBytes] @ replicate (unat numBytes) 0)
    (whip6_icmpv6RplContinueBuildingMessageByAddingOptionPadN iov builder numBytes)"
proof (cases "numBytes = 0")
  case True
  then show ?thesis using rpl_write_written [OF assms(1,2), of "[1]" builder "bldPacket builder" 0]
    by (simp add: whip6_icmpv6RplContinueBuildingMessageByAddingOptionPadN_def rpl_constants)
next
  case False
  have n: "unat numBytes < 256" by (rule unat_u8_less)
  have n255: "numBytes = 255" if "unat numBytes = 255" using that by (simp add: unsigned_word_eqI)
  have s: "unat numBytes = Suc (unat (numBytes - 1))" using False by (simp add: unat_minus_one unat_gt_0)
  then have r: "replicate (unat numBytes) (0 :: u8) = replicate (unat (numBytes - 1)) 0 @ [0]"
    by (simp add: replicate_append_same)
  let ?bs = "[1, numBytes] @ replicate (unat (numBytes - 1)) 0"
  let ?room = "length (concat iov) - iter_pos iov (bldIter builder)"
  have len: "length ?bs + 1 = unat numBytes + 2" "length ?bs < 65535" using n s by simp_all
  have side: "length ?bs < 256 \<or> length ?bs < ?room \<or> ?room < 256"
    using n s assms(3) n255 by (cases "unat numBytes = 255") (auto simp del: One_nat_def)
  have "whip6_icmpv6RplContinueBuildingMessageByAddingOptionPadN iov builder numBytes =
      rpl_write iov builder (bldPacket builder) (bldIter builder) ?bs 0 (unat numBytes + 2)"
    using False by (simp only: whip6_icmpv6RplContinueBuildingMessageByAddingOptionPadN_def rpl_constants if_False)
  then show ?thesis
    using rpl_write_written [OF assms(1,2) len(2) side, of builder "bldPacket builder" 0] unfolding len(1) r append_assoc by simp
qed

text \<open>The count of the bytes written is kept in 8 bits. This matters for one option: 257 bytes of padding where the packet
  has room for 256 of them. The one byte that is missing is reported as 257.\<close>

lemma rpl_padn_count_wraps:
  assumes "iov_ok iov" "iter_ok iov (bldIter builder)" "length (concat iov) - iter_pos iov (bldIter builder) = 256"
  shows "\<exists>iov'. whip6_icmpv6RplContinueBuildingMessageByAddingOptionPadN iov builder 255 = Some (iov', builder, 257)"
proof -
  let ?it = "bldIter builder" and ?bs = "[1, 255] @ replicate (unat (255 - 1 :: u8)) 0 :: u8 list"
  obtain i where i: "currElem ?it = Some i" using assms(3) by (cases "currElem ?it") (simp_all add: iter_pos_def)
  then have v: "cur_valid (cur_start iov ?it)" and nr: "rpl_no_room iov ?it = Some False"
    using assms(1,2) by (auto simp: cur_valid_def cur_start_def cur_iter_def rpl_no_room_def iter_ok_def)
  have "cur_iter (cur_start iov ?it) = ?it" by (simp add: cur_iter_def cur_start_def)
  then have at: "cur_at (cur_start iov ?it) = iter_pos iov ?it" "curIov (cur_start iov ?it) = iov"
    "numProcessed (cur_start iov ?it) = 0" by (simp_all add: cur_at_def cur_start_def)
  have l: "length ?bs = 256" by simp
  from cur_emit_eq [OF v, of ?bs] obtain ok c' where e: "cur_emit ?bs (cur_start iov ?it) = Some (ok, c')"
    "ok \<longleftrightarrow> iter_pos iov ?it + length ?bs < length (concat iov)"
    "if ok then numProcessed c' = numProcessed (cur_start iov ?it) + of_nat (length ?bs)
     else numProcessed c' = 0 + of_nat (length (concat iov) - iter_pos iov ?it)" unfolding at by auto
  have no: "\<not> ok" using e(2) assms(3) unfolding l by simp
  have np: "numProcessed c' = 0" using e(3) no assms(3) by simp
  have "whip6_icmpv6RplContinueBuildingMessageByAddingOptionPadN iov builder 255 =
      rpl_write iov builder (bldPacket builder) ?it ?bs 0 (unat (255 :: u8) + 2)"
    by (simp only: whip6_icmpv6RplContinueBuildingMessageByAddingOptionPadN_def rpl_constants) simp
  then show ?thesis using no np unfolding rpl_write_def nr e(1) by simp
qed

lemma rpl_solicited_written:
  assumes "iov_ok iov" "iter_ok iov (bldIter builder)" "\<And>d. dodag = Some d \<Longrightarrow> ipv6_addr_ok d"
  shows "rpl_written iov builder (bldPacket builder) (bldIter builder)
    ([7, 19, if hasInst then inst else 0, (if hasVer then 128 else 0) + (if hasInst then 64 else 0) + (if dodag \<noteq> None then 32 else 0)] @
      (case dodag of Some d \<Rightarrow> d | None \<Rightarrow> replicate 16 0) @ [if hasVer then ver else 0])
    (whip6_icmpv6RplContinueBuildingMessageByAddingOptionSolicitedInformation iov builder dodag inst ver hasInst hasVer)"
proof -
  let ?d = "case dodag of Some d \<Rightarrow> d | None \<Rightarrow> replicate 16 0" and ?i = "if hasInst then inst else 0"
  let ?f = "(if hasVer then 128 else 0) + (if hasInst then 64 else 0) + (if dodag \<noteq> None then 32 else 0) :: u8"
  have l: "length ?d = 16" using assms(3) by (auto simp: ipv6_addr_ok_def split: option.split)
  have t: "(case dodag of Some d \<Rightarrow> take 16 d | None \<Rightarrow> replicate 16 0) = ?d"
    using assms(3) by (auto simp: ipv6_addr_ok_def split: option.split)
  have "whip6_icmpv6RplContinueBuildingMessageByAddingOptionSolicitedInformation iov builder dodag inst ver hasInst hasVer =
      rpl_write iov builder (bldPacket builder) (bldIter builder) ([7, 19, ?i, ?f] @ ?d) (if hasVer then ver else 0) 21"
    unfolding whip6_icmpv6RplContinueBuildingMessageByAddingOptionSolicitedInformation_def rpl_constants Let_def t
    by (cases hasInst; cases hasVer; cases dodag) simp_all
  moreover have "length ([7, 19, ?i, ?f] @ ?d) < 256" "length ([7, 19, ?i, ?f] @ ?d) + 1 = 21" using l by simp_all
  ultimately show ?thesis
    using rpl_write_written [OF assms(1,2), of "[7, 19, ?i, ?f] @ ?d" builder "bldPacket builder" "if hasVer then ver else 0"] by simp
qed

lemma rpl_write_short:
  assumes "iov_ok iov" "iter_ok iov it" "length bs < 256" "len = length bs + 1"
  shows "rpl_written iov builder packet it (bs @ [b]) (rpl_write iov builder packet it bs b len)"
  unfolding assms(4) using assms(3) by (intro rpl_write_written [OF assms(1,2)]) simp_all

text \<open>C34: building RPL messages. The DIS and the DIO message and the options Pad1, PadN, DODAG configuration and solicited
  information (with any of its three parts present or absent) are written, from where the iterator stands, byte for byte as
  their layout says: the mode of operation stands in the bits 3 to 5 and the preference in the bits 0 to 2 of the flags of the
  DIO, the bits 7, 6 and 5 of the solicited information are set for a version, an instance and a DODAG that are present. No
  other byte of the packet changes. If they fit, the call returns zero and the iterator stands behind them; otherwise it
  returns the number of bytes that are missing, and the builder is as it was. One case is excepted: 257 bytes of
  padding where there is room for exactly 256, which the 8-bit count of the bytes written does not tell from no room
  (\<open>rpl_padn_count_wraps\<close>).\<close>

theorem rpl_messages:
  assumes "iov_ok iov" "iter_ok iov it" "iter_ok iov (bldIter builder)" "ipv6_addr_ok dodagId"
    "\<And>d. solicited = Some d \<Longrightarrow> ipv6_addr_ok d"
    "numBytes = 255 \<Longrightarrow> length (concat iov) - iter_pos iov (bldIter builder) \<noteq> 256"
  shows "rpl_written iov builder packet it [155, 0, 0, 0, 0, 0]
      (whip6_icmpv6RplStartBuildingDisMessage iov builder it packet) \<and>
    rpl_written iov builder packet it
      ([155, 1, 0, 0, inst, ver, u16_hi rnk, u16_lo rnk, (if grounded then 128 else 0) + 8 * (mop mod 8) + pref mod 8,
        dtsn, 0, 0] @ dodagId)
      (whip6_icmpv6RplStartBuildingDioMessage iov builder it packet dodagId ver inst rnk grounded mop pref dtsn) \<and>
    rpl_written iov builder (bldPacket builder) (bldIter builder) [0]
      (whip6_icmpv6RplContinueBuildingMessageByAddingOptionPad1 iov builder) \<and>
    rpl_written iov builder (bldPacket builder) (bldIter builder) ([1, numBytes] @ replicate (unat numBytes) 0)
      (whip6_icmpv6RplContinueBuildingMessageByAddingOptionPadN iov builder numBytes) \<and>
    rpl_written iov builder (bldPacket builder) (bldIter builder)
      [4, 14, pcs mod 8, doublings, intMin, redund, u16_hi maxInc, u16_lo maxInc, u16_hi minInc, u16_lo minInc,
       u16_hi ocp, u16_lo ocp, 0, lifetime, u16_hi unit, u16_lo unit]
      (whip6_icmpv6RplContinueBuildingMessageByAddingOptionDodagConfiguration iov builder pcs doublings intMin redund
        maxInc minInc ocp lifetime unit) \<and>
    rpl_written iov builder (bldPacket builder) (bldIter builder)
      ([7, 19, if hasInst then inst else 0,
        (if hasVer then 128 else 0) + (if hasInst then 64 else 0) + (if solicited \<noteq> None then 32 else 0)] @
       (case solicited of Some d \<Rightarrow> d | None \<Rightarrow> replicate 16 0) @ [if hasVer then ver else 0])
      (whip6_icmpv6RplContinueBuildingMessageByAddingOptionSolicitedInformation iov builder solicited inst ver hasInst hasVer)"
proof -
  note w1 = rpl_write_short [OF assms(1,2)] and w2 = rpl_write_short [OF assms(1,3)]
  have l: "length dodagId = 16" using assms(4) by (simp add: ipv6_addr_ok_def)
  then have split: "dodagId = take 15 dodagId @ [dodagId ! 15]" by (simp add: take_Suc_conv_app_nth [symmetric])
  let ?f = "(if grounded then 128 else 0) + 8 * (mop mod 8) + pref mod 8"
  have dio: "rpl_written iov builder packet it ([155, 1, 0, 0, inst, ver, u16_hi rnk, u16_lo rnk, ?f, dtsn, 0, 0] @ dodagId)
      (whip6_icmpv6RplStartBuildingDioMessage iov builder it packet dodagId ver inst rnk grounded mop pref dtsn)"
    using w1 [of "[155, 1, 0, 0, inst, ver, u16_hi rnk, u16_lo rnk, ?f, dtsn, 0, 0] @ take 15 dodagId"
        28 builder packet "dodagId ! 15"] l split
    by (simp add: whip6_icmpv6RplStartBuildingDioMessage_def rpl_constants rpl_dio_flags_fields)
  have dis: "rpl_written iov builder packet it [155, 0, 0, 0, 0, 0]
      (whip6_icmpv6RplStartBuildingDisMessage iov builder it packet)"
    using w1 [of "[155, 0, 0, 0, 0]" 6 builder packet 0]
    by (simp add: whip6_icmpv6RplStartBuildingDisMessage_def rpl_constants)
  have pad1: "rpl_written iov builder (bldPacket builder) (bldIter builder) [0]
      (whip6_icmpv6RplContinueBuildingMessageByAddingOptionPad1 iov builder)"
    using w2 [of "[]" 1 builder "bldPacket builder" 0]
    by (simp add: whip6_icmpv6RplContinueBuildingMessageByAddingOptionPad1_def rpl_constants)
  let ?c = "[4, 14, pcs mod 8, doublings, intMin, redund, u16_hi maxInc, u16_lo maxInc, u16_hi minInc, u16_lo minInc,
    u16_hi ocp, u16_lo ocp, 0, lifetime, u16_hi unit]"
  have cfg: "rpl_written iov builder (bldPacket builder) (bldIter builder) (?c @ [u16_lo unit])
      (whip6_icmpv6RplContinueBuildingMessageByAddingOptionDodagConfiguration iov builder pcs doublings intMin redund
        maxInc minInc ocp lifetime unit)"
    using w2 [of ?c 16 builder "bldPacket builder" "u16_lo unit"]
    by (simp add: whip6_icmpv6RplContinueBuildingMessageByAddingOptionDodagConfiguration_def and_7_mod rpl_constants)
  note cfg = cfg [unfolded append_Cons append_Nil]
  note padn = rpl_padn_written [of iov builder numBytes, OF assms(1,3,6)]
  note sol = rpl_solicited_written [of iov builder solicited hasInst inst hasVer ver, OF assms(1,3,5)]
  show ?thesis by (intro conjI dis dio pad1 padn cfg sol) simp_all
qed

definition rpl_ex_iov :: iov where "rpl_ex_iov = [replicate 5 0xaa, replicate 40 0xbb]"

definition rpl_ex_iter :: iov_blist_iter where "rpl_ex_iter = \<lparr>currElem = Some 0, iterOffset = 2\<rparr>"

lemma rpl_ex_ok: "iov_ok rpl_ex_iov" "iter_ok rpl_ex_iov rpl_ex_iter"
  by (simp_all add: rpl_ex_iov_def rpl_ex_iter_def iov_ok_def iter_ok_def)

theorem rpl_messages_witness:
  "rpl_written rpl_ex_iov \<lparr>bldPacket = 7, bldIter = rpl_ex_iter\<rparr> 7 rpl_ex_iter
    ([155, 1, 0, 0, 30, 240, 1, 0, 139, 5, 0, 0] @ replicate 16 9)
    (whip6_icmpv6RplStartBuildingDioMessage rpl_ex_iov \<lparr>bldPacket = 7, bldIter = rpl_ex_iter\<rparr> rpl_ex_iter 7
      (replicate 16 9) 240 30 0x100 True 1 3 5) \<and>
   rpl_written rpl_ex_iov \<lparr>bldPacket = 7, bldIter = rpl_ex_iter\<rparr> 7 rpl_ex_iter
    ([7, 19, 0, 160] @ replicate 16 9 @ [240])
    (whip6_icmpv6RplContinueBuildingMessageByAddingOptionSolicitedInformation rpl_ex_iov
      \<lparr>bldPacket = 7, bldIter = rpl_ex_iter\<rparr> (Some (replicate 16 9)) 30 240 False True)"
proof -
  have "u16_hi 0x100 = 1" "u16_lo 0x100 = 0" by (simp_all add: u16_hi_def u16_lo_def drop_bit_eq_div)
  then show ?thesis
    using rpl_messages [where builder = "\<lparr>bldPacket = 7, bldIter = rpl_ex_iter\<rparr>" and numBytes = 3 and packet = 7
        and dodagId = "replicate 16 9" and rnk = "0x100" and inst = 30 and ver = 240 and grounded = True and mop = 1 and pref = 3
        and dtsn = 5 and solicited = "Some (replicate 16 9)" and hasInst = False and hasVer = True,
        OF rpl_ex_ok(1) rpl_ex_ok(2)] rpl_ex_ok(2)
    by (simp add: ipv6_addr_ok_def)
qed

section \<open>Options with data of the caller\<close>

lemma copy_loop_emit:
  assumes "ptr + n \<le> length dat" "cur_emit (take n (drop ptr dat)) c = Some (ok, c')"
  shows "\<exists>ptr' k. rpl_copy_loop dat ptr n c = Some (ok, ptr', k, c') \<and> (ok \<longrightarrow> ptr' = ptr + n \<and> k = 0)"
  using assms
proof (induction n arbitrary: ptr c)
  case 0
  then show ?case by simp
next
  case (Suc n)
  have t: "take (Suc n) (drop ptr dat) = dat ! ptr # take n (drop (Suc ptr) dat)"
    using Suc.prems(1) by (metis Cons_nth_drop_Suc Suc_le_lessD add_Suc_right le_add1 order.strict_trans1 take_Suc_Cons)
  from Suc.prems(2) [unfolded t] obtain c1 ok1 c2 where s: "cur_put (dat ! ptr) c = Some c1" "cur_check c1 = Some (ok1, c2)"
    "(if ok1 then cur_emit (take n (drop (Suc ptr) dat)) c2 else Some (False, c2)) = Some (ok, c')"
    by (auto simp: bind_eq_Some_conv)
  show ?case
  proof (cases ok1)
    case True
    then show ?thesis using Suc.IH [of "Suc ptr" c2] Suc.prems(1) s by auto
  next
    case False
    then show ?thesis using Suc.prems(1) s by auto
  qed
qed

text \<open>How far the counter is when the payload ends inside the loop.\<close>

lemma copy_loop_rest:
  assumes "ptr + n \<le> length dat" "cur_valid c" "length (cur_bytes c) - cur_at c \<le> n"
  shows "\<exists>ptr' c'. rpl_copy_loop dat ptr n c = Some (False, ptr', Suc n - (length (cur_bytes c) - cur_at c), c') \<and>
    numProcessed c' = numProcessed c + of_nat (length (cur_bytes c) - cur_at c)"
  using assms
proof (induction n arbitrary: ptr c)
  case 0
  then show ?case using cur_valid_elem [OF 0(2)] by (metis diff_is_0_eq le_zero_eq not_le)
next
  case (Suc n)
  have lt: "cur_at c < length (cur_bytes c)" using cur_valid_elem [OF Suc.prems(2)] by blast
  from cur_put_check [OF Suc.prems(2), of "dat ! ptr"] obtain ok c2 where
    s: "do { c \<leftarrow> cur_put (dat ! ptr) c; cur_check c } = Some (ok, c2)" "cur_lens c2 = cur_lens c"
    "numProcessed c2 = numProcessed c + 1" "ok \<longleftrightarrow> cur_at c + 1 < length (cur_bytes c)"
    "ok \<longrightarrow> cur_valid c2 \<and> cur_at c2 = cur_at c + 1" by blast
  then obtain c1 where c1: "cur_put (dat ! ptr) c = Some c1" "cur_check c1 = Some (ok, c2)"
    by (auto simp: bind_eq_Some_conv)
  have len: "length (cur_bytes c2) = length (cur_bytes c)" using s(2) by (rule cur_lens_bytes)
  show ?case
  proof (cases ok)
    case True
    then have v: "cur_valid c2" "cur_at c2 = cur_at c + 1" "cur_at c + 1 < length (cur_bytes c)" using s(4,5) by auto
    have "length (cur_bytes c2) - cur_at c2 \<le> n" using Suc.prems(3) v(2) len by linarith
    from Suc.IH [OF _ v(1) this, of "Suc ptr"] Suc.prems(1) obtain ptr' c' where
      "rpl_copy_loop dat (Suc ptr) n c2 = Some (False, ptr', Suc n - (length (cur_bytes c2) - cur_at c2), c')"
      "numProcessed c' = numProcessed c2 + of_nat (length (cur_bytes c2) - cur_at c2)" by auto
    moreover have "length (cur_bytes c) - cur_at c = Suc (length (cur_bytes c2) - cur_at c2)" using v(2,3) len by simp
    ultimately show ?thesis using c1 True Suc.prems(1) s(3) by (simp add: add.assoc)
  next
    case False
    then have "length (cur_bytes c) - cur_at c = 1" using s(4) lt by simp
    then show ?thesis using c1 False Suc.prems(1) s(3) by simp
  qed
qed

text \<open>The start of an option, when there is a place to write to.\<close>

lemma cur_start_valid:
  assumes "iov_ok iov" "iter_ok iov it" "currElem it \<noteq> None"
  shows "cur_valid (cur_start iov it)" "cur_at (cur_start iov it) = iter_pos iov it" "curIov (cur_start iov it) = iov"
    "numProcessed (cur_start iov it) = 0" "rpl_no_room iov it = Some False"
proof -
  have it: "cur_iter (cur_start iov it) = it" by (simp add: cur_iter_def cur_start_def)
  show "cur_valid (cur_start iov it)" using assms it by (simp add: cur_valid_def) (simp add: cur_start_def)
  show "cur_at (cur_start iov it) = iter_pos iov it" "curIov (cur_start iov it) = iov" "numProcessed (cur_start iov it) = 0"
    using it by (simp_all add: cur_start_def cur_at_def)
  show "rpl_no_room iov it = Some False" using assms by (auto simp: rpl_no_room_def iter_ok_def)
qed

abbreviation rpl_metric_builder where
  "rpl_metric_builder \<equiv> whip6_icmpv6RplContinueBuildingMessageByAddingOptionDagMetricContainer"

text \<open>The option with DAG metrics, after its type and its length have been written, or not.\<close>

lemma rpl_metric_start:
  assumes "iov_ok iov" "iter_ok iov it" "currElem it \<noteq> None" "room = length (concat iov) - iter_pos iov it"
  obtains ok c where "cur_emit [2, len] (cur_start iov it) = Some (ok, c)"
    "cur_bytes c = mem_blit (concat iov) (iter_pos iov it) (take room [2, len])" "cur_lens c = map length iov" "ok \<longleftrightarrow> 2 < room"
    "if ok then cur_valid c \<and> cur_at c = iter_pos iov it + 2 \<and> numProcessed c = 2 else numProcessed c = of_nat room"
    "length (cur_bytes c) = iter_pos iov it + room" "length (concat iov) = iter_pos iov it + room"
proof -
  note st = cur_start_valid [OF assms(1-3)]
  let ?p = "iter_pos iov it"
  have le: "?p < length (concat iov)" using cur_valid_elem [OF st(1)] unfolding st(2,3) by blast
  from cur_emit_eq [OF st(1), of "[2, len]"] obtain ok c where e: "cur_emit [2, len] (cur_start iov it) = Some (ok, c)"
    "cur_bytes c = mem_blit (concat iov) ?p (take room [2, len])" "cur_lens c = map length iov"
    "ok \<longleftrightarrow> ?p + length [2, len] < length (concat iov)"
    "if ok then cur_valid c \<and> cur_at c = ?p + length [2, len] \<and> numProcessed c = 0 + of_nat (length [2, len])
      else numProcessed c = 0 + of_nat room" unfolding st(2-4) assms(4) by blast
  have "length (cur_bytes c) = length (concat iov)" using e(3) by (simp add: length_concat)
  moreover have "length (concat iov) = ?p + room" using le assms(4) by simp
  moreover have "ok \<longleftrightarrow> 2 < room" using e(4) assms(4) by auto
  moreover have "if ok then cur_valid c \<and> cur_at c = ?p + 2 \<and> numProcessed c = 2 else numProcessed c = of_nat room"
    using e(5) by simp
  ultimately show thesis using that e(1-3) by simp
qed

lemma rpl_metric_fits:
  assumes "iov_ok iov" "iter_ok iov (bldIter builder)" "0 < len" "unat len \<le> length dat"
    "unat len + 2 \<le> length (concat iov) - iter_pos iov (bldIter builder)"
  shows "rpl_written iov builder (bldPacket builder) (bldIter builder) ([2, len] @ take (unat len) dat)
    (rpl_metric_builder iov builder dat len)"
proof -
  let ?p = "iter_pos iov (bldIter builder)"
  have el: "currElem (bldIter builder) \<noteq> None" using assms(5) by (cases "currElem (bldIter builder)") (simp_all add: iter_pos_def)
  obtain n where n: "unat len = Suc n" using assms(3) by (metis gr0_implies_Suc unat_gt_0 word_neq_0_conv)
  have n1: "unat (len - 1) = n" using n assms(3) by (metis diff_Suc_1 unat_minus_one word_neq_0_conv)
  define room where "room = length (concat iov) - ?p"
  note nr = cur_start_valid(5) [OF assms(1,2) el]
  obtain ok c1 where e: "cur_emit [2, len] (cur_start iov (bldIter builder)) = Some (ok, c1)"
    "cur_bytes c1 = mem_blit (concat iov) ?p (take room [2, len])" "cur_lens c1 = map length iov" "ok \<longleftrightarrow> 2 < room"
    "if ok then cur_valid c1 \<and> cur_at c1 = ?p + 2 \<and> numProcessed c1 = 2 else numProcessed c1 = of_nat room"
    "length (cur_bytes c1) = ?p + room" "length (concat iov) = ?p + room"
    using rpl_metric_start [OF assms(1,2) el room_def] by metis
  have room: "unat len + 2 \<le> room" using assms(5) room_def by simp
  have ok: ok using e(4) room n by simp
  then have v: "cur_valid c1" "cur_at c1 = ?p + 2" using e(5) by auto
  from cur_emit_eq [OF v(1), of "take n dat"] obtain ok2 c2 where f: "cur_emit (take n dat) c1 = Some (ok2, c2)"
    "cur_bytes c2 = mem_blit (cur_bytes c1) (cur_at c1) (take (length (cur_bytes c1) - cur_at c1) (take n dat))"
    "cur_lens c2 = cur_lens c1" "ok2 \<longleftrightarrow> cur_at c1 + length (take n dat) < length (cur_bytes c1)"
    "if ok2 then cur_valid c2 \<and> cur_at c2 = cur_at c1 + length (take n dat) \<and>
       numProcessed c2 = numProcessed c1 + of_nat (length (take n dat))
     else numProcessed c2 = numProcessed c1 + of_nat (length (cur_bytes c1) - cur_at c1)" by blast
  have tn: "length (take n dat) = n" using assms(4) n by simp
  have ok2: ok2 using f(4) e(6) v(2) room n tn by simp
  then have v2: "cur_valid c2" "cur_at c2 = ?p + 2 + n" using f(5) tn v(2) by simp_all
  from copy_loop_emit [of 0 n dat c1 ok2 c2] f(1) assms(4) n ok2
  have k: "rpl_copy_loop dat 0 n c1 = Some (True, n, 0, c2)" by auto
  from cur_put_finish [OF v2(1), of "dat ! n"] obtain c3 where g: "do { c \<leftarrow> cur_put (dat ! n) c2; cur_finish c } = Some c3"
    "cur_bytes c3 = mem_blit (cur_bytes c2) (cur_at c2) [dat ! n]" "cur_lens c3 = cur_lens c2"
    "iter_ok (curIov c3) (cur_iter c3)" "iter_pos (curIov c3) (cur_iter c3) = cur_at c2 + 1" by blast
  have res: "rpl_metric_builder iov builder dat len = Some (curIov c3, builder\<lparr>bldIter := cur_iter c3\<rparr>, 0)"
    unfolding whip6_icmpv6RplContinueBuildingMessageByAddingOptionDagMetricContainer_def nr rpl_constants e(1) n1
    using ok k g(1) assms(4) n by (auto simp: bind_eq_Some_conv)
  have t: "take (length (cur_bytes c1) - cur_at c1) (take n dat) = take n dat" "take room [2, len] = [2, len]"
    using e(6) v(2) room n tn by (simp_all add: take_all)
  note b2 = f(2) [unfolded t(1)] and b1 = e(2) [unfolded t(2)]
  have "cur_bytes c3 = mem_blit (mem_blit (mem_blit (concat iov) ?p [2, len]) (?p + 2) (take n dat)) (?p + 2 + n) [dat ! n]"
    unfolding g(2) b2 b1 v(2) v2(2) ..
  also have "\<dots> = mem_blit (mem_blit (concat iov) ?p ([2, len] @ take n dat)) (?p + 2 + n) [dat ! n]"
    using mem_blit_append [of ?p "[2, len]" "take n dat" "concat iov"] e(7) room n tn by simp
  also have "\<dots> = mem_blit (concat iov) ?p ([2, len] @ take (Suc n) dat)"
    using mem_blit_append [of ?p "[2, len] @ take n dat" "[dat ! n]" "concat iov"] e(7) room n tn assms(4)
    by (simp add: take_Suc_conv_app_nth)
  finally have bytes: "cur_bytes c3 = mem_blit (concat iov) ?p ([2, len] @ take (unat len) dat)" unfolding n .
  have "length ([2, len] @ take (unat len) dat) = unat len + 2" using assms(4) by simp
  then show ?thesis
    using res bytes room g(3-5) f(3) e(3) v2(2) n room_def by (simp add: rpl_written_def Let_def)
qed

lemma rpl_metric_short:
  assumes "iov_ok iov" "iter_ok iov (bldIter builder)" "0 < len" "unat len \<le> length dat"
    "length (concat iov) - iter_pos iov (bldIter builder) \<le> 2"
  shows "rpl_written iov builder (bldPacket builder) (bldIter builder) ([2, len] @ take (unat len) dat)
    (rpl_metric_builder iov builder dat len)"
proof (cases "currElem (bldIter builder)")
  case None
  have "unat len + 2 < 65536" using unat_u8_less [of len] by linarith
  then have "unat (of_nat (unat len + 2) :: u16) = unat len + 2" by (rule unat_u16_of_nat)
  then show ?thesis using None assms(4)
    by (simp add: rpl_written_def rpl_no_room_def iter_pos_def
        whip6_icmpv6RplContinueBuildingMessageByAddingOptionDagMetricContainer_def del: of_nat_add of_nat_unat)
next
  case (Some i)
  then have el: "currElem (bldIter builder) \<noteq> None" by simp
  let ?p = "iter_pos iov (bldIter builder)"
  define room where "room = length (concat iov) - ?p"
  note nr = cur_start_valid(5) [OF assms(1,2) el]
  obtain ok c where e: "cur_emit [2, len] (cur_start iov (bldIter builder)) = Some (ok, c)"
    "cur_bytes c = mem_blit (concat iov) ?p (take room [2, len])" "cur_lens c = map length iov" "ok \<longleftrightarrow> 2 < room"
    "if ok then cur_valid c \<and> cur_at c = ?p + 2 \<and> numProcessed c = 2 else numProcessed c = of_nat room"
    using rpl_metric_start [OF assms(1,2) el room_def] by metis
  have room: "room \<le> 2" "\<not> ok" using assms(5) room_def e(4) by simp_all
  have "uint (numProcessed c) = int room" using e(5) room by (simp add: uint_nat unat_u8_of_nat)
  then have "uint len + 2 - uint (numProcessed c) = int (unat len + 2 - room)" using room uint_nat [of len] by linarith
  then have r: "of_int (uint len + 2 - uint (numProcessed c)) = (of_nat (unat len + 2 - room) :: u16)" by (metis of_int_of_nat_eq)
  have res: "rpl_metric_builder iov builder dat len = Some (curIov c, builder, of_nat (unat len + 2 - room))"
    unfolding whip6_icmpv6RplContinueBuildingMessageByAddingOptionDagMetricContainer_def nr rpl_constants e(1) r [symmetric]
    using room by simp
  have "0 < unat len" using assms(3) by (simp add: word_less_nat_alt)
  then have lt: "room < unat len + 2" and "unat len + 2 - room < 65536" using room(1) unat_u8_less [of len] by linarith+
  then have "unat (of_nat (unat len + 2 - room) :: u16) = unat len + 2 - room" "room < unat len + 2"
    using unat_u16_of_nat [of "unat len + 2 - room"] by simp_all
  moreover have "take room ([2, len] @ take (unat len) dat) = take room [2, len]" using room(1) by (simp only: take_append) simp
  moreover have "length ([2, len] @ take (unat len) dat) = unat len + 2" using assms(4) by simp
  ultimately show ?thesis unfolding rpl_written_def Let_def res room_def [symmetric] using e(2,3) by auto
qed

text \<open>When the metric data are cut off, the value returned is not the number of missing bytes: the loop counts down the
  very variable that the number is computed from, so each byte that was written is subtracted twice. When half of the data
  have been written the value is zero, which means success.\<close>

lemma rpl_metric_cut_off:
  assumes "iov_ok iov" "iter_ok iov (bldIter builder)" "0 < len" "unat len \<le> length dat" "unat len < 254"
    "room = length (concat iov) - iter_pos iov (bldIter builder)" "2 < room" "room < unat len + 2"
  shows "\<exists>iov'. rpl_metric_builder iov builder dat len =
    Some (iov', builder, of_int (int (unat len) - 2 * (int room - 2)))"
proof -
  let ?p = "iter_pos iov (bldIter builder)"
  have el: "currElem (bldIter builder) \<noteq> None" using assms(6,7) by (cases "currElem (bldIter builder)") (simp_all add: iter_pos_def)
  obtain n where n: "unat len = Suc n" using assms(3) by (metis gr0_implies_Suc unat_gt_0 word_neq_0_conv)
  have n1: "unat (len - 1) = n" using n assms(3) by (metis diff_Suc_1 unat_minus_one word_neq_0_conv)
  note nr = cur_start_valid(5) [OF assms(1,2) el]
  obtain ok c1 where e: "cur_emit [2, len] (cur_start iov (bldIter builder)) = Some (ok, c1)" "ok \<longleftrightarrow> 2 < room"
    "if ok then cur_valid c1 \<and> cur_at c1 = ?p + 2 \<and> numProcessed c1 = 2 else numProcessed c1 = of_nat room"
    "length (cur_bytes c1) = ?p + room"
    using rpl_metric_start [OF assms(1,2) el assms(6)] by metis
  have ok: ok using e(2) assms(7) by simp
  then have v: "cur_valid c1" "cur_at c1 = ?p + 2" "numProcessed c1 = 2" using e(3) by auto
  have l: "length (cur_bytes c1) - cur_at c1 = room - 2" using e(4) v(2) by simp
  have b: "0 + n \<le> length dat" "room - 2 \<le> n" using assms(4,8) n by simp_all
  from copy_loop_rest [OF b(1) v(1), unfolded l, OF b(2)] obtain ptr' c' where
    k: "rpl_copy_loop dat 0 n c1 = Some (False, ptr', Suc n - (room - 2), c')"
    "numProcessed c' = numProcessed c1 + of_nat (room - 2)" by blast
  have "numProcessed c' = of_nat room" using k(2) v(3) assms(7) by (simp add: of_nat_diff)
  then have "uint (numProcessed c') = int room"
    using assms(5,8) n by (simp add: uint_nat unat_u8_of_nat)
  then have q: "int (Suc n - (room - 2)) + 2 - uint (numProcessed c') = int (unat len) - 2 * (int room - 2)"
    using assms(7,8) n by (simp add: of_nat_diff)
  have "rpl_metric_builder iov builder dat len = Some (curIov c', builder, of_int (int (unat len) - 2 * (int room - 2)))"
    unfolding whip6_icmpv6RplContinueBuildingMessageByAddingOptionDagMetricContainer_def nr rpl_constants e(1) n1 q [symmetric]
    using ok k(1) by simp
  then show ?thesis by blast
qed

text \<open>C36: the option with DAG metrics. It is written from where the builder stands: type 2, the length of the data, and
  the data, and no other byte of the packet changes; the call returns zero and the builder stands behind the option.
  If the packet ends before the data, the call returns by how many bytes it is too short, and the builder is as it was. The
  data must not be empty, and must not be cut off in the middle, where the value returned is another one
  (\<open>rpl_metric_cut_off\<close>).\<close>

theorem rpl_metric_option:
  assumes "iov_ok iov" "iter_ok iov (bldIter builder)" "0 < len" "unat len \<le> length dat"
    "length (concat iov) - iter_pos iov (bldIter builder) \<le> 2 \<or>
     unat len + 2 \<le> length (concat iov) - iter_pos iov (bldIter builder)"
  shows "rpl_written iov builder (bldPacket builder) (bldIter builder) ([2, len] @ take (unat len) dat)
    (whip6_icmpv6RplContinueBuildingMessageByAddingOptionDagMetricContainer iov builder dat len)"
  using rpl_metric_short [OF assms(1-4)] rpl_metric_fits [OF assms(1-4)] assms(5) by blast

theorem rpl_metric_option_witness:
  "\<exists>iov' builder'. whip6_icmpv6RplContinueBuildingMessageByAddingOptionDagMetricContainer [replicate 3 0xaa, replicate 7 0xbb]
     \<lparr>bldPacket = 7, bldIter = \<lparr>currElem = Some 0, iterOffset = 1\<rparr>\<rparr> [1, 2, 3, 4] 4 = Some (iov', builder', 0) \<and>
     concat iov' = [0xaa, 2, 4, 1, 2, 3, 4, 0xbb, 0xbb, 0xbb]"
proof -
  let ?iov = "[replicate 3 0xaa, replicate 7 0xbb] :: iov" and ?b = "\<lparr>bldPacket = 7, bldIter = \<lparr>currElem = Some 0, iterOffset = 1\<rparr>\<rparr>"
  have side: "iov_ok ?iov" "iter_ok ?iov (bldIter ?b)" "(0 :: u8) < 4" "unat (4 :: u8) \<le> length [1, 2, 3, 4 :: u8]"
    "length (concat ?iov) - iter_pos ?iov (bldIter ?b) \<le> 2 \<or>
     unat (4 :: u8) + 2 \<le> length (concat ?iov) - iter_pos ?iov (bldIter ?b)"
    by (simp_all add: iov_ok_def iter_ok_def iter_pos_def)
  have t: "[2, 4] @ take (unat (4 :: u8)) [1, 2, 3, 4] = [2, 4, 1, 2, 3, 4 :: u8]" by simp
  have p: "iter_pos ?iov (bldIter ?b) = 1" "length (concat ?iov) = 10" by (simp_all add: iter_pos_def)
  have "mem_blit (concat ?iov) 1 (take (10 - 1) [2, 4, 1, 2, 3, 4]) = [0xaa, 2, 4, 1, 2, 3, 4, 0xbb, 0xbb, 0xbb]"
    by (simp add: mem_blit_def eval_nat_numeral)
  then show ?thesis
    using rpl_metric_option [OF side, unfolded t] unfolding rpl_written_def Let_def p by (elim ex_forward conjE) simp
qed

lemma prefix_pad_eq:
  "cur_valid c \<Longrightarrow> \<exists>ok c'. do { c \<leftarrow> cur_put b c; rpl_prefix_pad_loop n c } = Some (ok, c') \<and>
     cur_bytes c' = mem_blit (cur_bytes c) (cur_at c) (take (length (cur_bytes c) - cur_at c) (b # replicate n 0)) \<and>
     cur_lens c' = cur_lens c \<and> (ok \<longleftrightarrow> cur_at c + n < length (cur_bytes c)) \<and>
     (if ok then \<exists>c2. cur_finish c' = Some c2 \<and> curIov c2 = curIov c' \<and> iter_ok (curIov c2) (cur_iter c2) \<and>
        iter_pos (curIov c2) (cur_iter c2) = cur_at c + n + 1
      else numProcessed c' = numProcessed c + of_nat (length (cur_bytes c) - cur_at c))"
proof (induction n arbitrary: b c)
  case 0
  have lt: "cur_at c < length (cur_bytes c)" using cur_valid_elem [OF 0] by blast
  from cur_put_finish [OF 0, of b] obtain c2 where f: "do { c \<leftarrow> cur_put b c; cur_finish c } = Some c2"
    "cur_bytes c2 = mem_blit (cur_bytes c) (cur_at c) [b]" "cur_lens c2 = cur_lens c"
    "iter_ok (curIov c2) (cur_iter c2)" "iter_pos (curIov c2) (cur_iter c2) = cur_at c + 1" by blast
  then obtain c1 where c1: "cur_put b c = Some c1" "cur_finish c1 = Some c2" by (auto simp: bind_eq_Some_conv)
  have "curIov c2 = curIov c1" using c1(2) by (auto simp: cur_finish_def bind_eq_Some_conv split: if_splits)
  moreover have "take (length (cur_bytes c) - cur_at c) [b] = [b]" using lt by (intro take_all) simp
  ultimately show ?case using c1 f(2-5) lt by (intro exI [of _ True] exI [of _ c1]) simp
next
  case (Suc n)
  have lt: "cur_at c < length (cur_bytes c)" using cur_valid_elem [OF Suc.prems] by blast
  from cur_put_check [OF Suc.prems, of b] obtain ok c2 where
    s: "do { c \<leftarrow> cur_put b c; cur_check c } = Some (ok, c2)" "cur_bytes c2 = mem_blit (cur_bytes c) (cur_at c) [b]"
    "cur_lens c2 = cur_lens c" "numProcessed c2 = numProcessed c + 1" "ok \<longleftrightarrow> cur_at c + 1 < length (cur_bytes c)"
    "ok \<longrightarrow> cur_valid c2 \<and> cur_at c2 = cur_at c + 1" by blast
  then obtain c1 where c1: "cur_put b c = Some c1" "cur_check c1 = Some (ok, c2)" by (auto simp: bind_eq_Some_conv)
  have len: "length (cur_bytes c2) = length (cur_bytes c)" using s(3) by (rule cur_lens_bytes)
  show ?case
  proof (cases ok)
    case False
    then have one: "length (cur_bytes c) - cur_at c = 1" using s(5) lt by simp
    then show ?thesis using c1 False s(2-5) by (intro exI [of _ False] exI [of _ c2]) simp
  next
    case True
    then have v: "cur_valid c2" "cur_at c2 = cur_at c + 1" "cur_at c + 1 < length (cur_bytes c)" using s(5,6) by auto
    from Suc.IH [OF v(1), of 0] obtain ok' c' where r: "do { c \<leftarrow> cur_put 0 c2; rpl_prefix_pad_loop n c } = Some (ok', c')"
      "cur_bytes c' = mem_blit (cur_bytes c2) (cur_at c2) (take (length (cur_bytes c2) - cur_at c2) (0 # replicate n 0))"
      "cur_lens c' = cur_lens c2" "ok' \<longleftrightarrow> cur_at c2 + n < length (cur_bytes c2)"
      "if ok' then \<exists>c3. cur_finish c' = Some c3 \<and> curIov c3 = curIov c' \<and> iter_ok (curIov c3) (cur_iter c3) \<and>
          iter_pos (curIov c3) (cur_iter c3) = cur_at c2 + n + 1
        else numProcessed c' = numProcessed c2 + of_nat (length (cur_bytes c2) - cur_at c2)" by blast
    let ?k = "length (cur_bytes c2) - cur_at c2"
    have k: "length (cur_bytes c) - cur_at c = Suc ?k" using v(2,3) len by simp
    have "cur_bytes c' = mem_blit (mem_blit (cur_bytes c) (cur_at c) [b]) (cur_at c + length [b]) (take ?k (replicate (Suc n) 0))"
      using r(2) s(2) v(2) by simp
    also have "\<dots> = mem_blit (cur_bytes c) (cur_at c) ([b] @ take ?k (replicate (Suc n) 0))"
      using k lt by (intro mem_blit_append) simp
    finally have bytes: "cur_bytes c' = mem_blit (cur_bytes c) (cur_at c) (take (length (cur_bytes c) - cur_at c) (b # replicate (Suc n) 0))"
      unfolding k by simp
    have run: "do { c \<leftarrow> cur_put b c; rpl_prefix_pad_loop (Suc n) c } = Some (ok', c')" using c1 True r(1) by simp
    have np: "numProcessed c' = numProcessed c + of_nat (length (cur_bytes c) - cur_at c)" if "\<not> ok'"
      using that r(5) s(4) k by (simp add: add.assoc)
    show ?thesis using run bytes r(3,4,5) s(3) v(2) len np by (intro exI [of _ ok'] exI [of _ c']) auto
  qed
qed

text \<open>A prefix that is not empty. The bytes of the prefix are copied and the bits behind its length cleared; then as many
  zeros as the whole field has bytes are written, not only the missing ones. With room behind the field the message
  becomes too long by the length of the prefix. When the packet ends with the field, the result is zero, which means
  success, and the iterator has not been moved.\<close>

lemma rpl_prefix_whole:
  assumes "iov_ok iov" "iter_ok iov it" "currElem it \<noteq> None" "0 < prefixLen" "0 < bytesToStore"
    "n = min ((unat prefixLen + 7) div 8) (unat bytesToStore)" "n \<le> length prefix"
    "room = length (concat iov) - iter_pos iov it" "n \<le> room"
  shows "\<exists>iov' it' r. whip6_icmpv6RplStoreAddressPrefixInMessage iov it prefix prefixLen bytesToStore = Some (iov', it', r) \<and>
    map length iov' = map length iov \<and>
    concat iov' = mem_blit (concat iov) (iter_pos iov it)
      (take room (take (n - 1) prefix @ [prefix ! (n - 1) AND rpl_last_byte_mask prefixLen bytesToStore] @
        replicate (unat bytesToStore) 0)) \<and>
    (if n + unat bytesToStore \<le> room
     then r = 0 \<and> iter_pos iov' it' = iter_pos iov it + n + unat bytesToStore
     else it' = it \<and> r = bytesToStore - of_nat room)"
proof -
  let ?c = "cur_start iov it" and ?p = "iter_pos iov it" and ?m = "unat bytesToStore"
  let ?b = "prefix ! (n - 1) AND rpl_last_byte_mask prefixLen bytesToStore"
  note st = cur_start_valid [OF assms(1-3)]
  have le: "?p < length (concat iov)" using cur_valid_elem [OF st(1)] unfolding st(2,3) by blast
  then have total: "length (concat iov) = ?p + room" using assms(8) by simp
  have "0 < unat prefixLen" "0 < unat bytesToStore" using assms(4,5) by (simp_all add: word_less_nat_alt)
  then have n: "0 < n" unfolding assms(6) by (simp add: div_greater_zero_iff del: unat_gt_0)
  then obtain i where i: "n = Suc i" using gr0_implies_Suc by blast
  have ti: "length (take i prefix) = i" using assms(7) i by simp
  from cur_emit_eq [OF st(1), of "take i prefix"] obtain ok c1 where e0: "cur_emit (take i prefix) ?c = Some (ok, c1)"
    "cur_bytes c1 = mem_blit (concat iov) ?p (take (length (concat iov) - ?p) (take i prefix))" "cur_lens c1 = map length iov"
    "ok \<longleftrightarrow> ?p + length (take i prefix) < length (concat iov)"
    "if ok then cur_valid c1 \<and> cur_at c1 = ?p + length (take i prefix) \<and> numProcessed c1 = 0 + of_nat (length (take i prefix))
      else numProcessed c1 = 0 + of_nat (length (concat iov) - ?p)" unfolding st(2-4) by blast
  have ok: ok using e0(4) ti total i assms(9) by simp
  have v: "cur_valid c1" "cur_at c1 = ?p + i" "numProcessed c1 = of_nat i" using e0(5) ok ti by simp_all
  have len1: "length (cur_bytes c1) = length (concat iov)" using e0(3) by (simp add: length_concat)
  have "take (length (concat iov) - ?p) (take i prefix) = take i prefix" using total i assms(9) by (intro take_all) simp
  note b1 = e0(2) [unfolded this]
  from copy_loop_emit [of 0 i prefix ?c ok c1] e0(1) assms(7) i ok
  have copy: "rpl_copy_loop prefix 0 i ?c = Some (True, i, 0, c1)" by auto
  have room1: "length (cur_bytes c1) - cur_at c1 = room - i" using len1 v(2) total by simp
  from prefix_pad_eq [OF v(1), of ?b ?m, unfolded room1] obtain ok2 c2 where
    q: "do { c \<leftarrow> cur_put ?b c1; rpl_prefix_pad_loop ?m c } = Some (ok2, c2)"
    "cur_bytes c2 = mem_blit (cur_bytes c1) (cur_at c1) (take (room - i) (?b # replicate ?m 0))"
    "cur_lens c2 = cur_lens c1" "ok2 \<longleftrightarrow> cur_at c1 + ?m < length (cur_bytes c1)"
    "if ok2 then \<exists>c3. cur_finish c2 = Some c3 \<and> curIov c3 = curIov c2 \<and> iter_ok (curIov c3) (cur_iter c3) \<and>
        iter_pos (curIov c3) (cur_iter c3) = cur_at c1 + ?m + 1
      else numProcessed c2 = numProcessed c1 + of_nat (room - i)" by blast
  then obtain c4 where c4: "cur_put ?b c1 = Some c4" "rpl_prefix_pad_loop ?m c4 = Some (ok2, c2)"
    by (auto simp: bind_eq_Some_conv)
  have "cur_bytes c2 = mem_blit (mem_blit (concat iov) ?p (take i prefix)) (?p + length (take i prefix))
      (take (room - i) (?b # replicate ?m 0))" unfolding q(2) b1 v(2) ti ..
  also have "\<dots> = mem_blit (concat iov) ?p (take i prefix @ take (room - i) (?b # replicate ?m 0))"
    using total i assms(9) ti by (intro mem_blit_append) simp
  also have "take i prefix @ take (room - i) (?b # replicate ?m 0) = take room (take i prefix @ [?b] @ replicate ?m 0)"
    using i assms(9) ti by simp
  finally have bytes: "cur_bytes c2 = mem_blit (concat iov) ?p (take room (take i prefix @ [?b] @ replicate ?m 0))" .
  obtain k where k: "currElem it = Some k" "k < length iov" using assms(2,3) by (auto simp: iter_ok_def)
  have fits: "ok2 \<longleftrightarrow> n + ?m \<le> room" using q(4) v(2) len1 total i by auto
  have i1: "n - 1 = i" using i by simp
  show ?thesis
  proof (cases ok2)
    case True
    then obtain c3 where c3: "cur_finish c2 = Some c3" "curIov c3 = curIov c2"
      "iter_pos (curIov c3) (cur_iter c3) = cur_at c1 + ?m + 1" using q(5) by auto
    have "whip6_icmpv6RplStoreAddressPrefixInMessage iov it prefix prefixLen bytesToStore = Some (curIov c2, cur_iter c3, 0)"
      using k copy c4 c3 True n assms(7) i
      by (simp add: whip6_icmpv6RplStoreAddressPrefixInMessage_def Let_def assms(6) [symmetric] i1)
    then show ?thesis using bytes q(3) e0(3) True fits c3 v(2) i1 i by simp
  next
    case False
    have np: "numProcessed c2 = of_nat room" using q(5) False v(3) i assms(9) by (simp add: of_nat_diff)
    have "whip6_icmpv6RplStoreAddressPrefixInMessage iov it prefix prefixLen bytesToStore =
        Some (curIov c2, it, bytesToStore - of_nat room)"
      using k copy c4 False n assms(7) i np
      by (simp add: whip6_icmpv6RplStoreAddressPrefixInMessage_def Let_def assms(6) [symmetric] i1)
    then show ?thesis using bytes q(3) e0(3) False fits i1 by simp
  qed
qed

text \<open>What the field of a prefix is to hold: the bytes of the prefix up to its length in bits, of the byte that the
  length ends in the upper bits only, and zeros.\<close>

definition rpl_prefix_field :: "u8 list \<Rightarrow> nat \<Rightarrow> nat \<Rightarrow> u8 list" where
  "rpl_prefix_field prefix bits len =
     map (\<lambda>i. if 8 * i + 8 \<le> bits then prefix ! i
              else if 8 * i < bits then of_nat (unat (prefix ! i) div 2 ^ (8 * i + 8 - bits) * 2 ^ (8 * i + 8 - bits))
              else 0) [0..<len]"

lemma and_high_bits:
  "(b :: u8) AND push_bit j 0xff = of_nat (unat b div 2 ^ j * 2 ^ j)"
proof -
  have m: "(0xff :: u8) = mask 8" by (simp add: mask_eq_exp_minus_1)
  have "b AND push_bit j 0xff = push_bit j (drop_bit j b)"
    unfolding m by (intro bit_eqI) (auto simp: bit_simps)
  also have "\<dots> = of_nat (unat b div 2 ^ j) * of_nat (2 ^ j)"
  proof -
    have "drop_bit j b = of_nat (unat b div 2 ^ j)" by (simp flip: drop_bit_eq_div unat_drop_bit_eq)
    then show ?thesis by (simp add: push_bit_eq_mult)
  qed
  finally show ?thesis by simp
qed

lemma u8_and_255: "(b :: u8) AND 0xff = b"
proof -
  have m: "(0xff :: u8) = mask 8" by (simp add: mask_eq_exp_minus_1)
  show ?thesis unfolding m by (intro bit_eqI) (auto simp: bit_simps)
qed

lemma byte_count:
  fixes l m :: nat
  assumes "n = min ((l + 7) div 8) m"
  shows "8 * n \<le> l \<Longrightarrow> l mod 8 = 0 \<or> m < (l + 7) div 8"
    and "\<not> 8 * n \<le> l \<Longrightarrow> l mod 8 \<noteq> 0 \<and> \<not> m < (l + 7) div 8 \<and> 8 - l mod 8 = 8 * n - l"
proof -
  have e: "n = (l + 7) div 8" if "\<not> m < (l + 7) div 8" using that assms by simp
  show "l mod 8 = 0 \<or> m < (l + 7) div 8" if "8 * n \<le> l"
  proof (cases "m < (l + 7) div 8")
    case False
    then show ?thesis using that unfolding e [OF False] by presburger
  qed simp
  show "l mod 8 \<noteq> 0 \<and> \<not> m < (l + 7) div 8 \<and> 8 - l mod 8 = 8 * n - l" if "\<not> 8 * n \<le> l"
  proof (cases "m < (l + 7) div 8")
    case True
    then have "n = m" using assms by simp
    then show ?thesis using True that by presburger
  next
    case False
    have "l mod 8 \<noteq> 0" "8 - l mod 8 = 8 * n - l" using that unfolding e [OF False] by presburger+
    then show ?thesis using False by simp
  qed
qed

text \<open>The last byte, under the mask that the code computes.\<close>

lemma rpl_last_byte:
  assumes "0 < unat prefixLen" "n = min ((unat prefixLen + 7) div 8) (unat bytesToStore)" "0 < n"
  shows "b AND rpl_last_byte_mask prefixLen bytesToStore =
    (if 8 * n \<le> unat prefixLen then b
     else of_nat (unat b div 2 ^ (8 * n - unat prefixLen) * 2 ^ (8 * n - unat prefixLen)))"
proof -
  have r: "unat (prefixLen AND 7) = unat prefixLen mod 8" by (simp add: and_7_mod unat_mod)
  show ?thesis
  proof (cases "8 * n \<le> unat prefixLen")
    case True
    then have "unat prefixLen mod 8 = 0 \<or> (unat prefixLen + 7) div 8 > unat bytesToStore" by (rule byte_count(1) [OF assms(2)])
    then have "rpl_last_byte_mask prefixLen bytesToStore = 0xff" using r by (auto simp: rpl_last_byte_mask_def Let_def)
    then show ?thesis using True by (simp add: u8_and_255)
  next
    case False
    then have k: "unat prefixLen mod 8 \<noteq> 0" "\<not> (unat prefixLen + 7) div 8 > unat bytesToStore" "8 - unat prefixLen mod 8 = 8 * n - unat prefixLen"
      using byte_count(2) [OF assms(2)] by auto
    then have "rpl_last_byte_mask prefixLen bytesToStore = push_bit (8 * n - unat prefixLen) 0xff"
      using r by (simp add: rpl_last_byte_mask_def Let_def)
    then show ?thesis using False by (simp only: and_high_bits if_False)
  qed
qed

lemma rpl_prefix_field_eq:
  assumes "0 < unat prefixLen" "n = min ((unat prefixLen + 7) div 8) (unat bytesToStore)" "n = Suc i" "n \<le> length prefix"
  shows "rpl_prefix_field prefix (unat prefixLen) (unat bytesToStore) =
    take i prefix @ [prefix ! i AND rpl_last_byte_mask prefixLen bytesToStore] @ replicate (unat bytesToStore - n) 0"
proof (rule nth_equalityI)
  let ?m = "unat bytesToStore" and ?l = "unat prefixLen"
  have le: "n \<le> ?m" "i < length prefix" using assms(2-4) by simp_all
  show "length (rpl_prefix_field prefix ?l ?m) =
      length (take i prefix @ [prefix ! i AND rpl_last_byte_mask prefixLen bytesToStore] @ replicate (?m - n) 0)"
    using le assms(3) by (simp add: rpl_prefix_field_def)
  fix j assume "j < length (rpl_prefix_field prefix ?l ?m)"
  then have j: "j < ?m" by (simp add: rpl_prefix_field_def)
  note last = rpl_last_byte [OF assms(1,2), of "prefix ! i"]
  consider "j < i" | "j = i" | "i < j" by linarith
  then show "rpl_prefix_field prefix ?l ?m ! j =
      (take i prefix @ [prefix ! i AND rpl_last_byte_mask prefixLen bytesToStore] @ replicate (?m - n) 0) ! j"
  proof cases
    case 1
    then have "8 * j + 8 \<le> ?l" using assms(2,3) by simp
    then show ?thesis using 1 j le(2) by (simp add: rpl_prefix_field_def nth_append)
  next
    case 2
    have "0 < n" "8 * n = 8 * i + 8" using assms(3) by simp_all
    moreover have "8 * i < ?l" using assms(2,3) by linarith
    ultimately show ?thesis using last 2 j le(2) by (simp add: rpl_prefix_field_def nth_append)
  next
    case 3
    then have "?l \<le> 8 * j" using assms(2,3) j by simp
    then show ?thesis using 3 j le assms(3) by (simp add: rpl_prefix_field_def nth_append)
  qed
qed

text \<open>The empty prefix: zeros.\<close>

lemma rpl_prefix_empty:
  assumes "iov_ok iov" "iter_ok iov it" "currElem it \<noteq> None" "room = length (concat iov) - iter_pos iov it"
  shows "\<exists>iov' it' r. whip6_icmpv6RplStoreAddressPrefixInMessage iov it prefix 0 bytesToStore = Some (iov', it', r) \<and>
    map length iov' = map length iov \<and>
    concat iov' = mem_blit (concat iov) (iter_pos iov it) (take room (replicate (unat bytesToStore) 0)) \<and>
    (if unat bytesToStore \<le> room
     then r = 0 \<and> iter_ok iov' it' \<and> iter_pos iov' it' = iter_pos iov it + unat bytesToStore
     else it' = it \<and> r = bytesToStore - of_nat room)"
proof -
  let ?c = "cur_start iov it" and ?p = "iter_pos iov it"
  note st = cur_start_valid [OF assms(1-3)]
  obtain k where k: "currElem it = Some k" "k < length iov" "iterOffset it < length (iov ! k)"
    using assms(2,3) by (auto simp: iter_ok_def)
  have lt: "?p < length (concat iov)" using cur_valid_elem [OF st(1)] unfolding st(2,3) by blast
  have fin: "cur_finish ?c = Some ?c" "cur_check ?c = Some (True, ?c)" "cur_iter ?c = it"
    using k by (simp_all add: cur_finish_def cur_check_def cur_start_def cur_iter_def)
  show ?thesis
  proof (cases "unat bytesToStore")
    case 0
    then have "whip6_icmpv6RplStoreAddressPrefixInMessage iov it prefix 0 bytesToStore = Some (iov, it, 0)"
      using k fin st(3) by (simp add: whip6_icmpv6RplStoreAddressPrefixInMessage_def Let_def)
    then show ?thesis using 0 assms(2) by simp
  next
    case (Suc m)
    from prefix_pad_eq [OF st(1), of 0 m, unfolded st(2,3)] obtain ok c2 where
      q: "do { c \<leftarrow> cur_put 0 ?c; rpl_prefix_pad_loop m c } = Some (ok, c2)"
      "cur_bytes c2 = mem_blit (concat iov) ?p (take (length (concat iov) - ?p) (0 # replicate m 0))"
      "cur_lens c2 = map length iov" "ok \<longleftrightarrow> ?p + m < length (concat iov)"
      "if ok then \<exists>c3. cur_finish c2 = Some c3 \<and> curIov c3 = curIov c2 \<and> iter_ok (curIov c3) (cur_iter c3) \<and>
          iter_pos (curIov c3) (cur_iter c3) = ?p + m + 1
        else numProcessed c2 = numProcessed ?c + of_nat (length (concat iov) - ?p)" by blast
    have run: "rpl_prefix_pad_loop (unat bytesToStore) ?c = Some (ok, c2)" using fin(2) q(1) Suc by simp
    have fits: "ok \<longleftrightarrow> unat bytesToStore \<le> room" using q(4) lt Suc assms(4) by linarith
    have rep: "0 # replicate m 0 = replicate (unat bytesToStore) (0 :: u8)" using Suc by simp
    note bytes = q(2) [folded assms(4), unfolded rep]
    show ?thesis
    proof (cases ok)
      case True
      then obtain c3 where c3: "cur_finish c2 = Some c3" "curIov c3 = curIov c2" "iter_ok (curIov c3) (cur_iter c3)"
        "iter_pos (curIov c3) (cur_iter c3) = ?p + m + 1" using q(5) by auto
      have "whip6_icmpv6RplStoreAddressPrefixInMessage iov it prefix 0 bytesToStore = Some (curIov c2, cur_iter c3, 0)"
        using k run c3 True by (simp add: whip6_icmpv6RplStoreAddressPrefixInMessage_def Let_def)
      then show ?thesis using bytes q(3) c3 fits True Suc by simp
    next
      case False
      then have "numProcessed c2 = of_nat room" using q(5) st(4) assms(4) by simp
      then have "whip6_icmpv6RplStoreAddressPrefixInMessage iov it prefix 0 bytesToStore =
          Some (curIov c2, it, bytesToStore - of_nat room)"
        using k run False by (simp add: whip6_icmpv6RplStoreAddressPrefixInMessage_def Let_def)
      then show ?thesis using bytes q(3) fits False by simp
    qed
  qed
qed

text \<open>A packet that ends within the bytes of the prefix.\<close>

lemma rpl_prefix_cut_off:
  assumes "iov_ok iov" "iter_ok iov it" "currElem it \<noteq> None" "n = min ((unat prefixLen + 7) div 8) (unat bytesToStore)"
    "n \<le> length prefix" "room = length (concat iov) - iter_pos iov it" "room < n"
  shows "\<exists>iov'. whip6_icmpv6RplStoreAddressPrefixInMessage iov it prefix prefixLen bytesToStore =
      Some (iov', it, bytesToStore - of_nat room) \<and> map length iov' = map length iov \<and>
    concat iov' = mem_blit (concat iov) (iter_pos iov it) (take room (take (n - 1) prefix))"
proof -
  let ?c = "cur_start iov it" and ?p = "iter_pos iov it"
  note st = cur_start_valid [OF assms(1-3)]
  obtain i where i: "n = Suc i" using assms(7) by (cases n) simp_all
  obtain k where k: "currElem it = Some k" "k < length iov" using assms(2,3) by (auto simp: iter_ok_def)
  have ti: "length (take i prefix) = i" using assms(5) i by simp
  from cur_emit_eq [OF st(1), of "take i prefix"] obtain ok c1 where e: "cur_emit (take i prefix) ?c = Some (ok, c1)"
    "cur_bytes c1 = mem_blit (concat iov) ?p (take room (take i prefix))" "cur_lens c1 = map length iov"
    "ok \<longleftrightarrow> ?p + length (take i prefix) < length (concat iov)"
    "if ok then cur_valid c1 \<and> cur_at c1 = ?p + length (take i prefix) \<and> numProcessed c1 = 0 + of_nat (length (take i prefix))
      else numProcessed c1 = 0 + of_nat room" unfolding st(2-4) assms(6) by blast
  have no: "\<not> ok" using e(4) ti i assms(6,7) by linarith
  from copy_loop_emit [of 0 i prefix ?c ok c1] e(1) assms(5) i no obtain ptr' r where
    "rpl_copy_loop prefix 0 i ?c = Some (False, ptr', r, c1)" by auto
  then have "whip6_icmpv6RplStoreAddressPrefixInMessage iov it prefix prefixLen bytesToStore =
      Some (curIov c1, it, bytesToStore - of_nat room)"
    using k e(5) no i by (simp add: whip6_icmpv6RplStoreAddressPrefixInMessage_def Let_def assms(4) [symmetric])
  then show ?thesis using e(2,3) i by simp
qed

text \<open>C35: storing the prefix of an address in a field of a message. When the packet ends within the field, exactly the part
  of the field that there is room for is written: the bytes of the prefix up to its length in bits, with the bits behind it
  cleared, and zeros. The iterator is as it was, and the result is the number of bytes of the field that remain. The field of
  an empty prefix is zeros; when it fits, the result is zero and the iterator stands behind the field. A prefix that is not
  empty in a packet that does not end within the field is left out: there the code writes more zeros than the field has
  room for (\<open>rpl_prefix_whole\<close>).\<close>

theorem rpl_prefix_stored:
  assumes "iov_ok iov" "iter_ok iov it" "currElem it \<noteq> None"
    "min ((unat prefixLen + 7) div 8) (unat bytesToStore) \<le> length prefix"
    "room = length (concat iov) - iter_pos iov it" "prefixLen = 0 \<or> room < unat bytesToStore"
  shows "\<exists>iov' it' r. whip6_icmpv6RplStoreAddressPrefixInMessage iov it prefix prefixLen bytesToStore = Some (iov', it', r) \<and>
    map length iov' = map length iov \<and>
    concat iov' = mem_blit (concat iov) (iter_pos iov it)
      (take room (rpl_prefix_field prefix (unat prefixLen) (unat bytesToStore))) \<and>
    (if unat bytesToStore \<le> room
     then r = 0 \<and> iter_ok iov' it' \<and> iter_pos iov' it' = iter_pos iov it + unat bytesToStore
     else it' = it \<and> unat r = unat bytesToStore - room)"
proof -
  let ?m = "unat bytesToStore"
  have left: "unat (bytesToStore - of_nat room) = ?m - room" if "room < ?m"
  proof -
    have "unat (of_nat room :: u8) = room" using that unat_u8_less [of bytesToStore] by (intro unat_u8_of_nat) linarith
    then show ?thesis using that by (simp add: unat_sub word_le_nat_alt)
  qed
  show ?thesis
  proof (cases "prefixLen = 0")
    case True
    have "rpl_prefix_field prefix (unat prefixLen) ?m = replicate ?m 0"
      using True by (intro nth_equalityI) (simp_all add: rpl_prefix_field_def)
    then show ?thesis
      using rpl_prefix_empty [OF assms(1-3,5), of prefix bytesToStore] True left
      by (elim ex_forward conjE) (simp split: if_splits)
  next
    case False
    then have lt: "room < ?m" and l: "0 < unat prefixLen" using assms(6) by (simp_all add: unat_gt_0)
    define n where "n = min ((unat prefixLen + 7) div 8) ?m"
    then have n: "n = min ((unat prefixLen + 7) div 8) ?m" "n \<le> length prefix" using assms(4) by simp_all
    have "0 < n" using n(1) l lt by (simp add: div_greater_zero_iff del: unat_gt_0)
    then obtain i where i: "n = Suc i" using gr0_implies_Suc by blast
    note field = rpl_prefix_field_eq [OF l n(1) i n(2)]
    show ?thesis
    proof (cases "n \<le> room")
      case True
      have pos: "0 < prefixLen" "0 < bytesToStore" using l lt by (simp_all add: word_less_nat_alt)
      have "take room (rpl_prefix_field prefix (unat prefixLen) ?m) = take room (take (n - 1) prefix @
          [prefix ! (n - 1) AND rpl_last_byte_mask prefixLen bytesToStore] @ replicate ?m 0)"
        unfolding field using i lt True n(2) by (simp add: take_Cons' min_def) linarith
      then show ?thesis
        using rpl_prefix_whole [OF assms(1-3) pos n assms(5) True] lt left [OF lt]
        by (elim ex_forward conjE) simp
    next
      case False
      then have "take room (rpl_prefix_field prefix (unat prefixLen) ?m) = take room (take (n - 1) prefix)"
        unfolding field using i n(2) by simp
      then show ?thesis
        using rpl_prefix_cut_off [OF assms(1-3) n assms(5)] False lt left [OF lt] by auto
    qed
  qed
qed

theorem rpl_prefix_stored_witness:
  "\<exists>iov'. whip6_icmpv6RplStoreAddressPrefixInMessage [replicate 3 0xaa, replicate 3 0xbb] \<lparr>currElem = Some 0, iterOffset = 2\<rparr>
     [0x20, 0x01, 0xff] 20 8 = Some (iov', \<lparr>currElem = Some 0, iterOffset = 2\<rparr>, 4) \<and> concat iov' = [0xaa, 0xaa, 0x20, 0x01, 0xf0, 0]"
proof -
  let ?iov = "[replicate 3 0xaa, replicate 3 0xbb] :: iov" and ?it = "\<lparr>currElem = Some 0, iterOffset = 2\<rparr>"
  have side: "iov_ok ?iov" "iter_ok ?iov ?it" "currElem ?it \<noteq> None"
    "min ((unat (20 :: u8) + 7) div 8) (unat (8 :: u8)) \<le> length [0x20, 0x01, 0xff :: u8]"
    "4 = length (concat ?iov) - iter_pos ?iov ?it" "(20 :: u8) = 0 \<or> 4 < unat (8 :: u8)"
    by (simp_all add: iov_ok_def iter_ok_def iter_pos_def)
  have f: "take 4 (rpl_prefix_field [0x20, 0x01, 0xff] (unat (20 :: u8)) (unat (8 :: u8))) = [0x20, 0x01, 0xf0, 0]"
    by (simp add: rpl_prefix_field_def upt_rec)
  have p: "iter_pos ?iov ?it = 2" by (simp add: iter_pos_def)
  have "mem_blit (concat ?iov) 2 [0x20, 0x01, 0xf0, 0] = [0xaa, 0xaa, 0x20, 0x01, 0xf0, 0]"
    by (simp add: mem_blit_def eval_nat_numeral)
  moreover have "r = 4" if "unat r = unat (8 :: u8) - 4" for r :: u8
    using that by (simp add: unsigned_word_eqI)
  ultimately show ?thesis using rpl_prefix_stored [OF side] unfolding f p by auto
qed

text \<open>The preference \<open>low\<close> of a route is written as 0x88: in the two bits that RFC 4191 has for it this is the
  preference \<open>high\<close>, and a reserved bit is set.\<close>

lemma route_preference_low:
  "push_bit 3 (IPV6_ROUTER_PREFERENCE_LOW AND IPV6_ROUTER_PREFERENCE_MASK) = (0x88 :: u8)"
  "drop_bit 3 (0x88 :: u8) AND 3 = IPV6_ROUTER_PREFERENCE_HIGH"
  by (simp_all add: rpl_constants)

end
