(* ===== verification/Spec2Isabelle.thy ===== *)
theory Spec2Isabelle
  imports Lowpan_EndToEnd Ipv6_Checksum Base_IoVecCopy Base_Etx Rpl_Lollipop Ipv6_AddressText Ipv6_Interface Lowpan_LinkTableRun Lowpan_SoftwareAck Lowpan_Forwarding Lowpan_FrameQueue Udp_Header Ipv6_ExtensionHeaders Rpl_Messages
begin

text \<open>
  The core of the whip6 network stack: an IPv6 stack for sensor nodes over IEEE 802.15.4 radios. Its logic is the C library
  \<open>microc/\<close>, which this development models; the nesC components of \<open>nesc/whip6/\<close> call it from tasks and events.

  \<^bold>\<open>The parts of the program and how they interact.\<close> A packet is a basic IPv6 header and a payload kept as an I/O
  vector, a doubly linked list of chunks taken from a pool. Going down, a UDP or ICMPv6 routine puts its header in front of
  the payload, the checksum is computed over the I/O vector, an interface chooses the source address, the fragmenter
  cuts the packet into IEEE 802.15.4 frames behind the 6LoWPAN headers, and the queues of the packet forwarder hold it until
  its frames are sent. Going up, a frame is parsed, its 6LoWPAN headers are unpacked, the defragmenter writes its bytes into
  a packet, and a completed packet goes through the extension header processors to its protocol. Beside this path are the
  table of the links to neighbours, which the reports on transmissions feed, software acknowledgements, and the
  messages and counters of the RPL routing protocol.

  \<^bold>\<open>Theories and sources.\<close> Paths are under \<open>microc/src\<close> and \<open>microc/include\<close> unless another is given; the definitions have
  the names of the C functions, and a definition whose name ends in \<open>_loop\<close> is a loop of one.
  \<^item> \<open>Whip6_Prelude\<close>: the C types, checked buffer accesses, error codes (\<open>base/ucTypes.h\<close>, \<open>base/ucError.h\<close>), shared lemmas.
  \<^item> \<open>Base_String\<close>: copying, filling, comparing bytes (\<open>base/detail/ucStringImpl.h\<close>). \<open>Base_Etx\<close>: link metrics
    (\<open>base/detail/ucEtxImpl.h\<close>).
  \<^item> \<open>Base_IoVec\<close>, \<open>Base_IoVecIter\<close>, \<open>Base_IoVecCopy\<close>: I/O vectors as lists of chunks, iterators, copying (\<open>base/ucIoVec.c\<close>,
    \<open>base/detail/ucIoVecImpl.h\<close>). \<open>Base_IoVecStore\<close>: the same nodes as a store of linked cells with shared memory, for the
    code that relinks them. \<open>Base_IoVecAlloc\<close>: chains of chunks (\<open>base/ucIoVecAllocation.c\<close>) and the chunk pool
    (\<open>nesc/whip6/lib/containers/GenericFixedSizeChunkPoolPub.nc\<close>).
  \<^item> \<open>Ieee154_Address\<close>, \<open>Ieee154_Frame\<close>, \<open>Ieee154_FrameRead\<close>: addresses and data frames, a record of the frame structure with
    its buffer (\<open>ieee154/ucIeee154AddressManipulation.c\<close>, \<open>ucIeee154FrameManipulation.c\<close>).
  \<^item> \<open>Ipv6_Address\<close>, \<open>Ipv6_AddressText\<close>: addresses and the automaton that prints one
    (\<open>ipv6/ucIpv6AddressManipulation.c\<close>, \<open>ucIpv6AddressHumanReadableIo.c\<close>). \<open>Ipv6_BasicHeader\<close>, \<open>Ipv6_Packet\<close>: the header's fields
    and the allocation of packets. \<open>Ipv6_Checksum\<close>: \<open>ipv6/ucIpv6Checksum.c\<close>. \<open>Ipv6_Interface\<close>: the addresses of an interface
    (\<open>ipv6/ucIpv6GenericInterfaceStateManipulation.c\<close>, \<open>ieee154/ucIeee154Ipv6InterfaceStateManipulation.c\<close>).
    \<open>Ipv6_ExtensionHeaders\<close>: generic headers and source routes (\<open>ipv6/ucIpv6ExtensionHeaderProcessing.c\<close>, \<open>srcroute/\<close>).
  \<^item> \<open>Lowpan_Headers\<close>, \<open>Lowpan_HeadersRead\<close>, \<open>Lowpan_RawIpv6\<close>: the 6LoWPAN headers (\<open>6lowpan/uc6LoWPANHeaderManipulation.c\<close>,
    \<open>uc6LoWPANIpv6HeaderCompression.c\<close>). \<open>Lowpan_Ipv6Address\<close>: interface identifiers.
  \<^item> \<open>Lowpan_Fragmentation\<close>, \<open>Lowpan_FragmentationState\<close>, \<open>Lowpan_FragmentationSpec\<close>: the fragmenter with its tokens, its runs, and what
    a run of it sends (\<open>6lowpan/uc6LoWPANFragmentation.c\<close>).
  \<^item> \<open>Lowpan_Defragmentation\<close>, \<open>Lowpan_DefragSpecs\<close>, \<open>Lowpan_DefragState\<close>, \<open>Lowpan_DefragContent\<close>: the defragmenter, its lists
    of received intervals, its pools, and the bytes it writes (\<open>6lowpan/uc6LoWPANDefragmentation.c\<close>);
    \<open>Lowpan_Reassembly\<close>, \<open>Lowpan_ReassemblyLive\<close>: its reachable states. \<open>Lowpan_EndToEnd\<close> joins both sides.
  \<^item> \<open>Lowpan_LinkTable\<close>, \<open>Lowpan_LinkQuality\<close>, \<open>Lowpan_LinkTableInv\<close>, \<open>Lowpan_LinkTableOps\<close>, \<open>Lowpan_LinkTableSpec\<close>,
    \<open>Lowpan_LinkTableRun\<close>: the table of links with its two hash maps (\<open>6lowpan/uc6LoWPANMeshManipulation.c\<close>).
  \<^item> \<open>Lowpan_SoftwareAck\<close>, \<open>Lowpan_Forwarding\<close>, \<open>Lowpan_FrameQueue\<close>: acknowledgements, the forwarding queues, the ring buffer of
    frames (\<open>6lowpan/uc6LoWPANNalpExtensionSoftwareAcknowledgments.c\<close>, \<open>uc6LoWPANPacketForwarding.c\<close>,
    \<open>nesc/whip6/lib/lowpan/LoWPANIPv6PacketForwarderMainPrv.nc\<close>).
  \<^item> \<open>Udp_Header\<close>, \<open>Icmpv6_Message\<close>, \<open>Icmpv6_Builders\<close>: \<open>udp/ucUdpHeaderManipulation.c\<close>, \<open>icmpv6/\<close>. \<open>Rpl_Lollipop\<close>, \<open>Rpl_Messages\<close>: \<open>rpl/\<close>.

  \<^bold>\<open>How state and operations correspond to the code.\<close> Structures are records, enumerations and tagged unions datatypes or
  constants, integers words of their width. A function that writes through a pointer returns what it has written; a
  \<open>None\<close> of the outer option of a result is undefined behaviour of C, an access outside a buffer or through a null
  pointer, so that a result \<open>Some\<close> says that it does not occur; null results and error codes of the code are values below it.
  The chunk and packet allocators, which the platform supplies, are functions that the definitions take as arguments.

  \<^bold>\<open>What the lemmas show.\<close> Beside the properties of each theory: the I/O vector routines are routines on the flat bytes; the
  header and frame routines write and read the same layout; the defragmenter's lists of intervals describe a set of offsets,
  and no run of it loses a packet, a node or a chunk; the chains of the link table are linear searches. The
  interfaces are three locales: \<open>chunk_allocator\<close> and \<open>packet_allocator\<close> state what the allocation code needs, and are
  interpreted on the pools of the program; \<open>link_kinds\<close> states what the operations on a hash map need of a kind of address, and
  is interpreted on the short and on the extended one.

  \<^bold>\<open>Bounds.\<close> There is no fuel. Loops over a counter are recursive on it; a loop that follows links, where nothing in the code
  bounds it, is a \<open>partial_function (option)\<close>, and the theorems on it show that it returns. Where the code relies on a sum
  that fits its type, or has a fault for some arguments, the hypothesis of the property says which arguments are
  left out, and a lemma beside it states what the code does for them.

  \<^bold>\<open>Not modelled.\<close> The nesC components besides the chunk pool, the address printing loop and the ring buffer: their work is wiring,
  timers and split-phase calls to drivers, which are not functions of their arguments. Platforms, drivers,
  vendored libraries, applications and the build system. Of the modelled files: debug output and statistics counters, which do not
  change the results, and the macros that link interfaces into a list.
\<close>

end
